(* ===== verification/Forecaster_Prelude.thy ===== *)
theory Forecaster_Prelude
  imports Complex_Main "HOL-Library.Char_ord" "HOL-Library.List_Lexorder"
    "HOL-Library.Product_Lexorder" "HOL-Library.Option_ord"
begin

text \<open>
  Shared vocabulary of the development: the Python values, clocks and texts the components
  exchange, the table operations that the SQL statements of the scheduler perform, and the
  generic facts about them that carry the component proofs.

  \<^item> A timezone-aware \<open>datetime\<close> is an \<open>instant\<close>: microseconds since the epoch, in UTC.
    The code stores \<open>value.astimezone(UTC).isoformat(timespec="microseconds")\<close>, a text of
    fixed width, so the SQL comparisons of two stored texts are the comparisons of the instants.
  \<^item> A text is a list of characters, one for each code point (code points above 255 are not
    represented); \<open>length\<close> is Python's \<open>len\<close>.
  \<^item> A table is the list of its rows in insertion order.
  \<^item> Binary floating point is exact real arithmetic followed by the rounding function of the
    platform, which is a parameter.
\<close>

section \<open>Collections of facts\<close>

named_theorems table_simps \<open>what the table operations keep\<close>
named_theorems parse_simps \<open>parsers of the controlled vocabularies\<close>

section \<open>Errors\<close>

datatype py_error =
    ValueError string
  | KeyError string
  | IntegrityError string
  | OtherError string

type_synonym 'a outcome = "py_error + 'a"

definition bind_out :: "'a outcome \<Rightarrow> ('a \<Rightarrow> 'b outcome) \<Rightarrow> 'b outcome" where
  "bind_out m k = (case m of Inl e \<Rightarrow> Inl e | Inr x \<Rightarrow> k x)"

lemma bind_out_simps [simp]:
  "bind_out (Inl e) k = Inl e" "bind_out (Inr x) k = k x"
  by (simp_all add: bind_out_def)

lemma bind_out_Inr_iff: "bind_out m k = Inr y \<longleftrightarrow> (\<exists>x. m = Inr x \<and> k x = Inr y)"
  by (cases m) auto

definition require :: "bool \<Rightarrow> string \<Rightarrow> unit outcome" where
  "require b msg = (if b then Inr () else Inl (ValueError msg))"

lemma require_Inr_iff [simp]: "require b msg = Inr u \<longleftrightarrow> b"
  by (simp add: require_def)

lemma require_True [simp]: "b \<Longrightarrow> require b msg = Inr ()"
  by (simp add: require_def)

lemma require_False [simp]: "\<not> b \<Longrightarrow> require b msg = Inl (ValueError msg)"
  by (simp add: require_def)

text \<open>A loop whose body may raise.\<close>

fun fold_out :: "('a \<Rightarrow> 's \<Rightarrow> 's outcome) \<Rightarrow> 'a list \<Rightarrow> 's \<Rightarrow> 's outcome" where
  "fold_out f [] s = Inr s"
| "fold_out f (x # xs) s = bind_out (f x s) (fold_out f xs)"

lemma fold_out_invariant:
  assumes "fold_out f xs s = Inr s'" "I s"
    "\<And>x s s'. x \<in> set xs \<Longrightarrow> I s \<Longrightarrow> f x s = Inr s' \<Longrightarrow> I s'"
  shows "I s'"
  using assms
proof (induction xs arbitrary: s)
  case (Cons x xs)
  then show ?case by (auto simp: bind_out_Inr_iff)
qed simp

lemma fold_out_append: "fold_out f (xs @ ys) s = bind_out (fold_out f xs s) (fold_out f ys)"
  by (induction xs arbitrary: s) (auto simp: bind_out_def split: sum.splits)

section \<open>Clocks\<close>

type_synonym instant = int

abbreviation milliseconds :: "int \<Rightarrow> int" where "milliseconds n \<equiv> n * 1000"
abbreviation seconds :: "int \<Rightarrow> int" where "seconds n \<equiv> n * 1000000"
abbreviation minutes :: "int \<Rightarrow> int" where "minutes n \<equiv> n * 60000000"
abbreviation hours :: "int \<Rightarrow> int" where "hours n \<equiv> n * 3600000000"
abbreviation days :: "int \<Rightarrow> int" where "days n \<equiv> n * 86400000000"

text \<open>
  A time zone of the IANA database: the offset of local time from UTC at an instant, and the
  offset that Python attaches to a wall-clock time (with \<open>fold=0\<close>). Dates are counted in
  days, which orders them as their ISO texts are ordered.
\<close>

record zone =
  utc_offset_at :: "instant \<Rightarrow> int"
  wall_offset_at :: "int \<Rightarrow> int"

definition local_time :: "zone \<Rightarrow> instant \<Rightarrow> int" where
  "local_time z t = t + utc_offset_at z t"

definition local_date :: "zone \<Rightarrow> instant \<Rightarrow> int" where
  "local_date z t = local_time z t div days 1"

definition local_hour :: "zone \<Rightarrow> instant \<Rightarrow> int" where
  "local_hour z t = (local_time z t mod days 1) div hours 1"

text \<open>\<open>(t.astimezone(zone) + timedelta(days=1)).replace(hour=0, ...)\<close>, read in UTC.\<close>

definition next_local_midnight :: "zone \<Rightarrow> instant \<Rightarrow> instant" where
  "next_local_midnight z t =
     (let wall = (local_date z t + 1) * days 1 in wall - wall_offset_at z wall)"

lemma local_hour_bounds: "0 \<le> local_hour z t \<and> local_hour z t \<le> 23"
proof -
  have "0 \<le> local_time z t mod days 1" "local_time z t mod days 1 < days 1" by simp_all
  then show ?thesis unfolding local_hour_def by auto
qed

section \<open>Numbers\<close>

datatype pyfloat = Finite real | PosInf | NegInf | NaN

fun is_finite :: "pyfloat \<Rightarrow> bool" where
  "is_finite (Finite _) = True"
| "is_finite _ = False"

text \<open>\<open>int(x)\<close> of a float truncates towards zero; \<open>round(x)\<close> rounds half to even.\<close>

definition py_int :: "real \<Rightarrow> int" where
  "py_int x = (if 0 \<le> x then \<lfloor>x\<rfloor> else \<lceil>x\<rceil>)"

definition py_round :: "real \<Rightarrow> int" where
  "py_round x =
     (let f = \<lfloor>x\<rfloor>; d = x - of_int f
      in if d < 1 / 2 then f
         else if 1 / 2 < d then f + 1
         else if even f then f else f + 1)"

lemma py_round_bounds: "of_int (py_round x) \<le> x + 1 / 2" "x - 1 / 2 \<le> of_int (py_round x)"
proof -
  have "of_int \<lfloor>x\<rfloor> \<le> x" "x < of_int \<lfloor>x\<rfloor> + 1" by linarith+
  then show "of_int (py_round x) \<le> x + 1 / 2" "x - 1 / 2 \<le> of_int (py_round x)"
    unfolding py_round_def Let_def by (simp_all split: if_splits) (linarith+)?
qed

lemma py_round_mono_int: "of_int n \<le> x \<Longrightarrow> n \<le> py_round x"
proof -
  assume "of_int n \<le> x"
  then have "n \<le> \<lfloor>x\<rfloor>" by (simp add: le_floor_iff)
  then show ?thesis unfolding py_round_def Let_def by simp
qed

lemma py_round_le_int:
  assumes "x \<le> of_int n"
  shows "py_round x \<le> n"
proof (rule ccontr)
  assume "\<not> py_round x \<le> n"
  then have "of_int n + 1 \<le> (of_int (py_round x) :: real)" by linarith
  with py_round_bounds(1) [of x] assms show False by linarith
qed

subsection \<open>Rounding\<close>

text \<open>
  IEEE-754 binary64: rounding is monotone, rounds a rounded number to itself and is exact on the
  eighths of moderate size (53 bits of significand).
\<close>

definition binary64_rounding :: "(real \<Rightarrow> real) \<Rightarrow> bool" where
  "binary64_rounding r \<longleftrightarrow>
     (\<forall>x y. x \<le> y \<longrightarrow> r x \<le> r y) \<and> (\<forall>x. r (r x) = r x) \<and>
     (\<forall>n. \<bar>n\<bar> \<le> 2 ^ 50 \<longrightarrow> r (of_int n / 8) = of_int n / 8)"

lemma rounding_mono: "binary64_rounding r \<Longrightarrow> x \<le> y \<Longrightarrow> r x \<le> r y"
  by (simp add: binary64_rounding_def)

lemma rounding_idem: "binary64_rounding r \<Longrightarrow> r (r x) = r x"
  by (simp add: binary64_rounding_def)

lemma rounding_int:
  assumes "binary64_rounding r" "\<bar>n\<bar> \<le> 2 ^ 47"
  shows "r (of_int n) = of_int n"
proof -
  have "\<bar>8 * n\<bar> \<le> 2 ^ 50" using assms(2) by simp
  then have "r (of_int (8 * n) / 8) = of_int (8 * n) / 8" using assms(1) unfolding binary64_rounding_def by blast
  then show ?thesis by simp
qed

lemma rounding_half:
  assumes "binary64_rounding r" "\<bar>n\<bar> \<le> 2 ^ 47"
  shows "r (of_int n / 2) = of_int n / 2"
proof -
  have "\<bar>4 * n\<bar> \<le> 2 ^ 50" using assms(2) by simp
  then have "r (of_int (4 * n) / 8) = of_int (4 * n) / 8" using assms(1) unfolding binary64_rounding_def by blast
  then show ?thesis by simp
qed

text \<open>The relative error of one rounding, far from underflow and overflow.\<close>

definition binary64_relative :: "(real \<Rightarrow> real) \<Rightarrow> bool" where
  "binary64_relative r \<longleftrightarrow> (\<forall>x. 1 / 2 ^ 100 \<le> \<bar>x\<bar> \<longrightarrow> \<bar>x\<bar> \<le> 2 ^ 100 \<longrightarrow> \<bar>r x - x\<bar> \<le> \<bar>x\<bar> / 2 ^ 53)"

lemma py_round_near:
  assumes "\<bar>x - of_int n\<bar> < 1 / 2"
  shows "py_round x = n"
proof -
  have "of_int (py_round x) < of_int n + (1 :: real)" "of_int n < of_int (py_round x) + (1 :: real)"
    using assms py_round_bounds [of x] by linarith+
  then have "py_round x < n + 1" "n < py_round x + 1" by linarith+
  then show ?thesis by simp
qed

section \<open>The platform\<close>

text \<open>
  What the code takes from its interpreter and libraries without defining it: rounding to
  binary64, SHA-256, the keyed digest of an API key, the serialisation of a JSON value and the
  \<open>str\<close> of a value that is neither text, integer nor boolean, the ISO text of an instant, and
  the Pacific time zone.
\<close>

datatype json =
    JNull
  | JBool bool
  | JInt int
  | JFloat pyfloat
  | JStr string
  | JList "json list"
  | JObj "(string \<times> json) list"

record platform =
  fl :: "real \<Rightarrow> real"
  sha256_hex :: "string \<Rightarrow> string"
  derived_credential_id :: "string \<Rightarrow> string"
  json_dumps :: "json \<Rightarrow> string"
  py_repr :: "json \<Rightarrow> string"
  iso_text :: "instant \<Rightarrow> string"
  pacific :: zone

definition quota_day :: "platform \<Rightarrow> instant \<Rightarrow> int" where
  "quota_day P now = local_date (pacific P) now"

definition minute_bucket :: "instant \<Rightarrow> instant" where
  "minute_bucket now = (now div minutes 1) * minutes 1"

lemma minute_bucket_bounds: "minute_bucket now \<le> now" "now < minute_bucket now + minutes 1"
proof -
  have "now = now div 60000000 * 60000000 + now mod 60000000" by simp
  moreover have "0 \<le> now mod 60000000" "now mod 60000000 < 60000000" by simp_all
  ultimately show "minute_bucket now \<le> now" "now < minute_bucket now + minutes 1"
    unfolding minute_bucket_def by simp_all
qed

section \<open>Texts\<close>

definition is_space :: "char \<Rightarrow> bool" where
  "is_space c \<longleftrightarrow> (let n = (of_char c :: nat) in
     (9 \<le> n \<and> n \<le> 13) \<or> (28 \<le> n \<and> n \<le> 32) \<or> n = 133 \<or> n = 160)"

definition strip :: "string \<Rightarrow> string" where
  "strip s = rev (dropWhile is_space (rev (dropWhile is_space s)))"

text \<open>\<open>str.upper\<close> on the ASCII letters; the other characters never reach a controlled word.\<close>

definition upper_char :: "char \<Rightarrow> char" where
  "upper_char c = (let n = (of_char c :: nat) in
     if 97 \<le> n \<and> n \<le> 122 then char_of (n - 32) else c)"

definition upper :: "string \<Rightarrow> string" where
  "upper s = map upper_char s"

fun starts_with :: "'a list \<Rightarrow> 'a list \<Rightarrow> bool" where
  "starts_with [] s = True"
| "starts_with (x # xs) [] = False"
| "starts_with (x # xs) (y # ys) = (x = y \<and> starts_with xs ys)"

fun contains :: "'a list \<Rightarrow> 'a list \<Rightarrow> bool" where
  "contains p [] = (p = [])"
| "contains p (y # ys) = (starts_with p (y # ys) \<or> contains p ys)"

fun join :: "string \<Rightarrow> string list \<Rightarrow> string" where
  "join sep [] = []"
| "join sep [x] = x"
| "join sep (x # y # zs) = x @ sep @ join sep (y # zs)"

fun split_ws_acc :: "string \<Rightarrow> string \<Rightarrow> string list" where
  "split_ws_acc w [] = (if w = [] then [] else [rev w])"
| "split_ws_acc w (c # cs) =
     (if is_space c then (if w = [] then split_ws_acc [] cs else rev w # split_ws_acc [] cs)
      else split_ws_acc (c # w) cs)"

definition split_ws :: "string \<Rightarrow> string list" where
  "split_ws s = split_ws_acc [] s"

fun nat_digits :: "nat \<Rightarrow> string" where
  "nat_digits n =
     (if n < 10 then [char_of (48 + n)] else nat_digits (n div 10) @ [char_of (48 + n mod 10)])"

declare nat_digits.simps [simp del]

definition str_int :: "int \<Rightarrow> string" where
  "str_int i = (if i < 0 then CHR ''-'' # nat_digits (nat (- i)) else nat_digits (nat i))"

text \<open>\<open>len(text.encode("utf-8"))\<close>, for the characters up to 255.\<close>

definition utf8_length :: "string \<Rightarrow> nat" where
  "utf8_length s = sum_list (map (\<lambda>c. if (of_char c :: nat) < 128 then 1 else 2) s)"

text \<open>\<open>x if x else None\<close> for an optional text.\<close>

definition nonblank :: "string option \<Rightarrow> string option" where
  "nonblank x = (case x of None \<Rightarrow> None | Some s \<Rightarrow> if s = [] then None else Some s)"

lemma strip_Nil [simp]: "strip [] = []"
  by (simp add: strip_def)

lemma starts_with_iff: "starts_with p s \<longleftrightarrow> (\<exists>t. s = p @ t)"
  by (induction p s rule: starts_with.induct) auto

lemma contains_iff: "contains p s \<longleftrightarrow> (\<exists>a b. s = a @ p @ b)"
proof (induction s)
  case Nil
  then show ?case by auto
next
  case (Cons y ys)
  show ?case
  proof
    assume "contains p (y # ys)"
    then consider "starts_with p (y # ys)" | "contains p ys" by auto
    then show "\<exists>a b. y # ys = a @ p @ b"
    proof cases
      case 1
      then obtain t where "y # ys = [] @ p @ t" by (auto simp: starts_with_iff)
      then show ?thesis by blast
    next
      case 2
      with Cons.IH obtain a b where "ys = a @ p @ b" by blast
      then have "y # ys = (y # a) @ p @ b" by simp
      then show ?thesis by blast
    qed
  next
    assume "\<exists>a b. y # ys = a @ p @ b"
    then obtain a b where ab: "y # ys = a @ p @ b" by blast
    show "contains p (y # ys)"
    proof (cases a)
      case Nil
      with ab have "starts_with p (y # ys)" by (simp add: starts_with_iff)
      then show ?thesis by simp
    next
      case (Cons c cs)
      with ab have "ys = cs @ p @ b" by simp
      with Cons.IH show ?thesis by auto
    qed
  qed
qed

section \<open>Python values read from JSON\<close>

definition truthy :: "json \<Rightarrow> bool" where
  "truthy v = (case v of JNull \<Rightarrow> False | JBool b \<Rightarrow> b | JInt i \<Rightarrow> i \<noteq> 0
     | JFloat f \<Rightarrow> f \<noteq> Finite 0 | JStr s \<Rightarrow> s \<noteq> [] | JList xs \<Rightarrow> xs \<noteq> [] | JObj kvs \<Rightarrow> kvs \<noteq> [])"

definition py_str :: "platform \<Rightarrow> json \<Rightarrow> string" where
  "py_str P v = (case v of JStr s \<Rightarrow> s | JInt i \<Rightarrow> str_int i | JNull \<Rightarrow> ''None''
     | JBool b \<Rightarrow> (if b then ''True'' else ''False'') | _ \<Rightarrow> py_repr P v)"

text \<open>\<open>d.get(key)\<close> of an object; a missing key reads as \<open>None\<close>.\<close>

definition jget :: "(string \<times> json) list \<Rightarrow> string \<Rightarrow> json" where
  "jget d key = (case map_of d key of None \<Rightarrow> JNull | Some v \<Rightarrow> v)"

text \<open>\<open>str(x or "")\<close>.\<close>

definition str_or_empty :: "platform \<Rightarrow> json \<Rightarrow> string" where
  "str_or_empty P v = (if truthy v then py_str P v else [])"

definition int_of_json :: "json \<Rightarrow> int option" where
  "int_of_json v = (case v of JInt i \<Rightarrow> Some i | JBool b \<Rightarrow> Some (if b then 1 else 0) | _ \<Rightarrow> None)"

section \<open>Lists in Python order\<close>

lemma filter_dropWhile: "(\<And>x. Q x \<Longrightarrow> \<not> R x) \<Longrightarrow> filter R (dropWhile Q xs) = filter R xs"
  by (induction xs) auto

text \<open>\<open>tuple(dict.fromkeys(xs))\<close> keeps the first occurrence of each element.\<close>

primrec dedupe_from :: "'a list \<Rightarrow> 'a list \<Rightarrow> 'a list" where
  "dedupe_from seen [] = []"
| "dedupe_from seen (x # xs) =
     (if x \<in> set seen then dedupe_from seen xs else x # dedupe_from (x # seen) xs)"

definition dedupe :: "'a list \<Rightarrow> 'a list" where
  "dedupe xs = dedupe_from [] xs"

lemma set_dedupe_from: "set (dedupe_from seen xs) = set xs - set seen"
  by (induction xs arbitrary: seen) auto

lemma distinct_dedupe_from: "distinct (dedupe_from seen xs)"
  by (induction xs arbitrary: seen) (auto simp: set_dedupe_from)

lemma set_dedupe [simp]: "set (dedupe xs) = set xs"
  by (simp add: dedupe_def set_dedupe_from)

lemma distinct_dedupe [simp]: "distinct (dedupe xs)"
  by (simp add: dedupe_def distinct_dedupe_from)

lemma dedupe_eq_Nil_iff [simp]: "dedupe xs = [] \<longleftrightarrow> xs = []"
  by (metis set_dedupe set_empty)

fun traverse :: "('a \<Rightarrow> 'b option) \<Rightarrow> 'a list \<Rightarrow> 'b list option" where
  "traverse f [] = Some []"
| "traverse f (x # xs) =
     (case f x of None \<Rightarrow> None | Some y \<Rightarrow> map_option ((#) y) (traverse f xs))"

lemma traverse_set:
  "traverse f xs = Some ys \<Longrightarrow> y \<in> set ys \<longleftrightarrow> (\<exists>x \<in> set xs. f x = Some y)"
  by (induction xs arbitrary: ys) (auto split: option.splits)

lemma traverse_None_iff: "traverse f xs = None \<longleftrightarrow> (\<exists>x \<in> set xs. f x = None)"
  by (induction xs) (auto split: option.splits)

section \<open>Tables\<close>

text \<open>
  The statements the code sends to SQLite, on the list of rows of one table:
  \<open>UPDATE ... WHERE\<close>, the row count of a statement, \<open>DELETE ... WHERE\<close>,
  \<open>INSERT ... ON CONFLICT(key) DO UPDATE\<close>, \<open>INSERT OR IGNORE\<close>, the aggregates \<open>sum\<close>,
  \<open>count\<close>, \<open>min\<close> and \<open>max\<close>, and \<open>SELECT ... WHERE ... ORDER BY key LIMIT 1\<close>.
\<close>

definition sql_update :: "('r \<Rightarrow> bool) \<Rightarrow> ('r \<Rightarrow> 'r) \<Rightarrow> 'r list \<Rightarrow> 'r list" where
  "sql_update p f rows = map (\<lambda>r. if p r then f r else r) rows"

definition sql_count :: "('r \<Rightarrow> bool) \<Rightarrow> 'r list \<Rightarrow> int" where
  "sql_count p rows = int (length (filter p rows))"

definition sql_delete :: "('r \<Rightarrow> bool) \<Rightarrow> 'r list \<Rightarrow> 'r list" where
  "sql_delete p rows = filter (\<lambda>r. \<not> p r) rows"

definition sql_upsert :: "('r \<Rightarrow> 'k) \<Rightarrow> ('r \<Rightarrow> 'r) \<Rightarrow> 'r \<Rightarrow> 'r list \<Rightarrow> 'r list" where
  "sql_upsert key f new rows =
     (if key new \<in> key ` set rows then sql_update (\<lambda>r. key r = key new) f rows
      else rows @ [new])"

definition sql_insert_ignore :: "('r \<Rightarrow> bool) \<Rightarrow> 'r \<Rightarrow> 'r list \<Rightarrow> 'r list" where
  "sql_insert_ignore conflict new rows = (if list_ex conflict rows then rows else rows @ [new])"

definition sql_sum :: "('r \<Rightarrow> int) \<Rightarrow> ('r \<Rightarrow> bool) \<Rightarrow> 'r list \<Rightarrow> int" where
  "sql_sum w p rows = sum_list (map w (filter p rows))"

definition sql_min :: "('r \<Rightarrow> 'k::linorder option) \<Rightarrow> 'r list \<Rightarrow> 'k option" where
  "sql_min f rows = (case List.map_filter f rows of [] \<Rightarrow> None | x # xs \<Rightarrow> Some (Min (set (x # xs))))"

definition sql_max :: "('r \<Rightarrow> 'k::linorder option) \<Rightarrow> 'r list \<Rightarrow> 'k option" where
  "sql_max f rows = (case List.map_filter f rows of [] \<Rightarrow> None | x # xs \<Rightarrow> Some (Max (set (x # xs))))"

definition sql_first :: "('r \<Rightarrow> 'k::linorder) \<Rightarrow> ('r \<Rightarrow> bool) \<Rightarrow> 'r list \<Rightarrow> 'r option" where
  "sql_first key p rows = (case sort_key key (filter p rows) of [] \<Rightarrow> None | r # _ \<Rightarrow> Some r)"

subsection \<open>What the statements keep\<close>

lemma set_sql_update: "set (sql_update p f rows) = f ` {r \<in> set rows. p r} \<union> {r \<in> set rows. \<not> p r}"
  by (auto simp: sql_update_def)

lemma length_sql_update [table_simps]: "length (sql_update p f rows) = length rows"
  by (simp add: sql_update_def)

lemma map_sql_update [table_simps]:
  "(\<And>r. k (f r) = k r) \<Longrightarrow> map k (sql_update p f rows) = map k rows"
  by (simp add: sql_update_def)

lemma sql_update_id: "(\<And>r. r \<in> set rows \<Longrightarrow> \<not> p r) \<Longrightarrow> sql_update p f rows = rows"
  by (simp add: sql_update_def map_idI)

lemma sql_updateE:
  assumes "x \<in> set (sql_update p f rows)"
  obtains (changed) r where "r \<in> set rows" "p r" "x = f r" | (kept) "x \<in> set rows" "\<not> p x"
  using assms by (auto simp: set_sql_update)

lemma sql_update_memI:
  "r \<in> set rows \<Longrightarrow> p r \<Longrightarrow> f r \<in> set (sql_update p f rows)"
  "r \<in> set rows \<Longrightarrow> \<not> p r \<Longrightarrow> r \<in> set (sql_update p f rows)"
  by (auto simp: set_sql_update)

lemma sql_upsert_Nil [simp]: "sql_upsert key f new [] = [new]"
  by (simp add: sql_upsert_def)

lemma distinct_sql_upsert:
  assumes "\<And>r. key (f r) = key r" "distinct (map key rows)"
  shows "distinct (map key (sql_upsert key f new rows))"
  using assms by (auto simp: sql_upsert_def map_sql_update)

lemma sql_count_nonneg [simp]: "0 \<le> sql_count p rows"
  by (simp add: sql_count_def)

lemma sql_count_eq_0_iff: "sql_count p rows = 0 \<longleftrightarrow> (\<forall>r \<in> set rows. \<not> p r)"
  by (auto simp: sql_count_def filter_empty_conv)

lemma sql_count_pos_iff: "0 < sql_count p rows \<longleftrightarrow> (\<exists>r \<in> set rows. p r)"
  by (metis sql_count_eq_0_iff sql_count_nonneg order_le_less less_irrefl)

lemma sql_count_unique:
  assumes dist: "distinct (map key rows)" and r: "r \<in> set rows" "p r"
    and same: "\<And>q. p q \<Longrightarrow> key q = key r"
  shows "sql_count p rows = 1"
proof -
  have "filter p rows = filter (\<lambda>q. q = r) rows"
  proof (rule filter_cong [OF refl])
    fix q assume "q \<in> set rows"
    then show "p q = (q = r)"
      using dist r same [of q] by (auto simp: distinct_map inj_on_def)
  qed
  moreover have "length (filter (\<lambda>q. q = r) rows) = 1"
    using dist r(1) by (simp add: distinct_map distinct_length_filter Int_absorb2 Int_insert_right)
  ultimately show ?thesis by (simp add: sql_count_def)
qed

subsection \<open>Sums\<close>

lemma sql_sum_Nil [simp]: "sql_sum w p [] = 0"
  by (simp add: sql_sum_def)

lemma sql_sum_Cons [simp]:
  "sql_sum w p (r # rows) = (if p r then w r else 0) + sql_sum w p rows"
  by (simp add: sql_sum_def)

lemma sql_sum_append [simp]: "sql_sum w p (xs @ ys) = sql_sum w p xs + sql_sum w p ys"
  by (simp add: sql_sum_def)

lemma sql_sum_nonneg: "(\<And>r. r \<in> set rows \<Longrightarrow> 0 \<le> w r) \<Longrightarrow> 0 \<le> sql_sum w p rows"
  by (induction rows) auto

lemma sql_sum_mono_pred:
  "(\<And>r. r \<in> set rows \<Longrightarrow> 0 \<le> w r) \<Longrightarrow> (\<And>r. r \<in> set rows \<Longrightarrow> p r \<Longrightarrow> q r) \<Longrightarrow>
   sql_sum w p rows \<le> sql_sum w q rows"
proof (induction rows)
  case (Cons a rows)
  then have "sql_sum w p rows \<le> sql_sum w q rows" by simp
  with Cons.prems show ?case by fastforce
qed simp

lemma sql_sum_cong:
  "(\<And>r. r \<in> set rows \<Longrightarrow> p r = q r) \<Longrightarrow> (\<And>r. r \<in> set rows \<Longrightarrow> q r \<Longrightarrow> w r = v r) \<Longrightarrow>
   sql_sum w p rows = sql_sum v q rows"
  by (induction rows) auto

lemma sql_sum_none: "(\<And>r. r \<in> set rows \<Longrightarrow> \<not> p r) \<Longrightarrow> sql_sum w p rows = 0"
  by (induction rows) auto

lemma sql_sum_update_one:
  assumes dist: "distinct (map key rows)" and hit: "k \<in> key ` set rows"
    and same: "\<And>r. p (f r) = p r" and add: "\<And>r. w (f r) = w r + d"
    and pk: "\<And>r. key r = k \<Longrightarrow> p r = b"
  shows "sql_sum w p (sql_update (\<lambda>r. key r = k) f rows) = sql_sum w p rows + (if b then d else 0)"
  using dist hit
proof (induction rows)
  case Nil
  then show ?case by simp
next
  case (Cons a rows)
  show ?case
  proof (cases "key a = k")
    case True
    with Cons.prems have "k \<notin> key ` set rows" by auto
    then have rest: "sql_update (\<lambda>r. key r = k) f rows = rows"
      by (auto intro: sql_update_id)
    have "sql_update (\<lambda>r. key r = k) f (a # rows) = f a # rows"
      using True rest by (simp add: sql_update_def)
    moreover have "p a = b" by (rule pk [OF True])
    ultimately show ?thesis by (simp only: sql_sum_Cons same add) simp
  next
    case False
    then have "sql_update (\<lambda>r. key r = k) f (a # rows) = a # sql_update (\<lambda>r. key r = k) f rows"
      by (simp add: sql_update_def)
    moreover have "sql_sum w p (sql_update (\<lambda>r. key r = k) f rows)
        = sql_sum w p rows + (if b then d else 0)"
      by (rule Cons.IH) (use False Cons.prems in auto)
    ultimately show ?thesis by (simp only: sql_sum_Cons)
  qed
qed

lemma sql_sum_upsert:
  assumes dist: "distinct (map key rows)"
    and same: "\<And>r. p (f r) = p r" and add: "\<And>r. w (f r) = w r + w new"
    and pk: "\<And>r. key r = key new \<Longrightarrow> p r = p new"
  shows "sql_sum w p (sql_upsert key f new rows) = sql_sum w p rows + (if p new then w new else 0)"
proof (cases "key new \<in> key ` set rows")
  case True
  have "sql_sum w p (sql_update (\<lambda>r. key r = key new) f rows)
      = sql_sum w p rows + (if p new then w new else 0)"
    using dist True
  proof (rule sql_sum_update_one)
    show "p (f r) = p r" "w (f r) = w r + w new" for r by (rule same, rule add)
    show "p r = p new" if "key r = key new" for r using that by (rule pk)
  qed
  with True show ?thesis by (simp add: sql_upsert_def)
next
  case False
  then show ?thesis by (simp add: sql_upsert_def)
qed

subsection \<open>Selection of one row\<close>

lemma sql_first_None_iff: "sql_first key p rows = None \<longleftrightarrow> (\<forall>r \<in> set rows. \<not> p r)"
proof -
  have "set (sort_key key (filter p rows)) = {r \<in> set rows. p r}" by simp
  then show ?thesis
    by (cases "sort_key key (filter p rows)") (auto simp: sql_first_def)
qed

lemma sql_first_SomeD:
  assumes "sql_first key p rows = Some r"
  shows "r \<in> set rows" "p r" "\<And>q. q \<in> set rows \<Longrightarrow> p q \<Longrightarrow> key r \<le> key q"
proof -
  from assms obtain rest where srt: "sort_key key (filter p rows) = r # rest"
    by (auto simp: sql_first_def split: list.splits)
  then have eq: "set (filter p rows) = set (r # rest)" by (metis set_sort)
  then show "r \<in> set rows" "p r" by auto
  have "sorted (map key (r # rest))" using sorted_sort_key [of key "filter p rows"] srt by simp
  then show "\<And>q. q \<in> set rows \<Longrightarrow> p q \<Longrightarrow> key r \<le> key q" using eq by auto
qed

lemma sql_min_SomeD:
  assumes "sql_min f rows = Some m"
  shows "\<exists>r \<in> set rows. f r = Some m" "\<And>r x. r \<in> set rows \<Longrightarrow> f r = Some x \<Longrightarrow> m \<le> x"
proof -
  from assms obtain x xs where l: "List.map_filter f rows = x # xs" and m: "m = Min (set (x # xs))"
    by (auto simp: sql_min_def split: list.splits)
  have s: "set (x # xs) = {y. \<exists>r \<in> set rows. f r = Some y}"
    by (simp only: l [symmetric]) (auto simp: List.map_filter_def image_iff, force+)
  have "m \<in> set (x # xs)" using m by (metis Min_in finite_set list.distinct(1) set_empty)
  then show "\<exists>r \<in> set rows. f r = Some m" using s by auto
  show "\<And>r y. r \<in> set rows \<Longrightarrow> f r = Some y \<Longrightarrow> m \<le> y"
    using s m by (metis (mono_tags, lifting) List.finite_set Min_le mem_Collect_eq)
qed

subsection \<open>Looking up one row\<close>

lemma find_append_new: "\<forall>x \<in> set xs. \<not> p x \<Longrightarrow> p y \<Longrightarrow> find p (xs @ [y]) = Some y"
  by (induction xs) auto

lemma find_SomeD: "find p xs = Some x \<Longrightarrow> x \<in> set xs \<and> p x"
  by (auto simp: find_Some_iff)

lemma run_succeeds: "\<not> isl r \<Longrightarrow> r = Inr (fst (projr r), snd (projr r))"
  by simp

lemma find_ex: "x \<in> set xs \<Longrightarrow> p x \<Longrightarrow> \<exists>y. find p xs = Some y"
  by (induction xs) auto

lemma find_map_SomeD:
  "find p (map f xs) = Some y \<Longrightarrow> \<exists>x \<in> set xs. y = f x \<and> p y"
  by (induction xs) (auto split: if_splits)

lemma find_update_same:
  assumes "\<And>x. p x \<Longrightarrow> p (f x)"
  shows "find p (sql_update p f xs) = map_option f (find p xs)"
  using assms by (induction xs) (auto simp: sql_update_def)

lemma find_distinct:
  assumes "distinct (map k xs)" "x \<in> set xs"
  shows "find (\<lambda>y. k y = k x) xs = Some x"
  using assms
proof (induction xs)
  case (Cons a xs)
  then show ?case by (cases "a = x") (auto simp: rev_image_eqI)
qed simp

end
