(* ===== verification/Scheduler_Tables.thy ===== *)
theory Scheduler_Tables
  imports Forecaster_Prelude
begin

text \<open>
  The persistent state of \<^verbatim>\<open>xauusd_news/news/scheduler/state.py\<close>: its controlled
  vocabularies (the \<open>CHECK\<close> constraints of the schema), one record for the rows of each table
  of \<open>SCHEDULER_SCHEMA\<close>, the database as the record of its tables, and the data classes the
  operations exchange. The keys that the schema declares are the \<open>key\<close> functions below;
  \<open>keys_ok\<close> says that every table respects its primary key.
\<close>

section \<open>Controlled vocabularies\<close>

datatype task_type = ACTIVE_ANNOTATION | ACTIVE_IMPACT | TITLE_TRANSLATION

datatype priority = IMMEDIATE | FAST | NORMAL | BACKGROUND

datatype job_state = QUEUED | LEASED | BACKING_OFF | COMPLETED | DEAD_LETTER

datatype work_lane = LIVE | CONTRACT_BACKFILL

datatype workload_class = LIVE_OPERATIONAL | BACKFILL_WORKLOAD

datatype retry_mode =
    KEEP_ORIGINAL | RETRY_IMMEDIATE | DELAY_15_MIN | DELAY_1_HOUR | IDLE_CAPACITY | CUSTOM_TIME

datatype provider_outcome = PROVIDER_SUCCEEDED | PROVIDER_THROTTLED | PROVIDER_FAILED

datatype task_class = ANNOTATION | DAILY_BRIEF | EMBEDDING | IMPACT | TITLE_REPAIR

definition TASKS :: "task_type list" where
  "TASKS = [ACTIVE_ANNOTATION, ACTIVE_IMPACT, TITLE_TRANSLATION]"

definition WORK_LANES :: "work_lane list" where
  "WORK_LANES = [LIVE, CONTRACT_BACKFILL]"

fun task_name :: "task_type \<Rightarrow> string" where
  "task_name ACTIVE_ANNOTATION = ''ACTIVE_ANNOTATION''"
| "task_name ACTIVE_IMPACT = ''ACTIVE_IMPACT''"
| "task_name TITLE_TRANSLATION = ''TITLE_TRANSLATION''"

fun priority_name :: "priority \<Rightarrow> string" where
  "priority_name IMMEDIATE = ''IMMEDIATE''"
| "priority_name FAST = ''FAST''"
| "priority_name NORMAL = ''NORMAL''"
| "priority_name BACKGROUND = ''BACKGROUND''"

fun lane_name :: "work_lane \<Rightarrow> string" where
  "lane_name LIVE = ''LIVE''"
| "lane_name CONTRACT_BACKFILL = ''CONTRACT_BACKFILL''"

fun mode_name :: "retry_mode \<Rightarrow> string" where
  "mode_name KEEP_ORIGINAL = ''KEEP_ORIGINAL''"
| "mode_name RETRY_IMMEDIATE = ''IMMEDIATE''"
| "mode_name DELAY_15_MIN = ''DELAY_15_MIN''"
| "mode_name DELAY_1_HOUR = ''DELAY_1_HOUR''"
| "mode_name IDLE_CAPACITY = ''IDLE_CAPACITY''"
| "mode_name CUSTOM_TIME = ''CUSTOM_TIME''"

fun state_name :: "job_state \<Rightarrow> string" where
  "state_name QUEUED = ''QUEUED''"
| "state_name LEASED = ''LEASED''"
| "state_name BACKING_OFF = ''BACKING_OFF''"
| "state_name COMPLETED = ''COMPLETED''"
| "state_name DEAD_LETTER = ''DEAD_LETTER''"

fun outcome_name :: "provider_outcome \<Rightarrow> string" where
  "outcome_name PROVIDER_SUCCEEDED = ''PROVIDER_SUCCEEDED''"
| "outcome_name PROVIDER_THROTTLED = ''PROVIDER_THROTTLED''"
| "outcome_name PROVIDER_FAILED = ''PROVIDER_FAILED''"

fun workload_name :: "workload_class \<Rightarrow> string" where
  "workload_name LIVE_OPERATIONAL = ''LIVE_OPERATIONAL''"
| "workload_name BACKFILL_WORKLOAD = ''CONTRACT_BACKFILL''"

fun task_class_name :: "task_class \<Rightarrow> string" where
  "task_class_name ANNOTATION = ''ANNOTATION''"
| "task_class_name DAILY_BRIEF = ''DAILY_BRIEF''"
| "task_class_name EMBEDDING = ''EMBEDDING''"
| "task_class_name IMPACT = ''IMPACT''"
| "task_class_name TITLE_REPAIR = ''TITLE_REPAIR''"

text \<open>Membership of a text in a controlled vocabulary, as the guards of the code test it.\<close>

definition of_name :: "('a \<Rightarrow> string) \<Rightarrow> 'a list \<Rightarrow> string \<Rightarrow> 'a option" where
  "of_name name values s = find (\<lambda>v. name v = s) values"

lemma of_name_SomeD: "of_name name values s = Some v \<Longrightarrow> name v = s \<and> v \<in> set values"
  by (auto simp: of_name_def find_Some_iff)

lemma of_name_name:
  assumes "inj_on name (set values)" "v \<in> set values"
  shows "of_name name values (name v) = Some v"
proof (cases "of_name name values (name v)")
  case None
  with assms(2) show ?thesis by (auto simp: of_name_def find_None_iff)
next
  case (Some w)
  with of_name_SomeD [OF Some] assms show ?thesis by (metis inj_onD)
qed

definition task_of :: "string \<Rightarrow> task_type option" where
  "task_of s = of_name task_name TASKS s"

definition priority_of :: "string \<Rightarrow> priority option" where
  "priority_of s = of_name priority_name [IMMEDIATE, FAST, NORMAL, BACKGROUND] s"

definition lane_of :: "string \<Rightarrow> work_lane option" where
  "lane_of s = of_name lane_name WORK_LANES s"

definition mode_of :: "string \<Rightarrow> retry_mode option" where
  "mode_of s = of_name mode_name
     [KEEP_ORIGINAL, RETRY_IMMEDIATE, DELAY_15_MIN, DELAY_1_HOUR, IDLE_CAPACITY, CUSTOM_TIME] s"

definition outcome_of :: "string \<Rightarrow> provider_outcome option" where
  "outcome_of s = of_name outcome_name
     [PROVIDER_SUCCEEDED, PROVIDER_THROTTLED, PROVIDER_FAILED] s"

definition workload_of :: "string \<Rightarrow> workload_class option" where
  "workload_of s = of_name workload_name [LIVE_OPERATIONAL, BACKFILL_WORKLOAD] s"

lemma task_of_name [simp, parse_simps]: "task_of (task_name t) = Some t"
  unfolding task_of_def by (cases t) (simp_all add: of_name_def TASKS_def)

lemma task_name_eq_iff: "task_name s = task_name t \<longleftrightarrow> s = t"
  by (metis task_of_name option.inject)

lemma priority_of_SomeD: "priority_of s = Some p \<Longrightarrow> s = priority_name p"
  unfolding priority_of_def by (drule of_name_SomeD) simp

lemma priority_of_name [simp, parse_simps]: "priority_of (priority_name p) = Some p"
  unfolding priority_of_def by (cases p) (simp_all add: of_name_def)

lemma lane_of_name [simp, parse_simps]: "lane_of (lane_name l) = Some l"
  unfolding lane_of_def by (cases l) (simp_all add: of_name_def WORK_LANES_def)

lemma mode_of_name [simp, parse_simps]: "mode_of (mode_name m) = Some m"
  unfolding mode_of_def by (cases m) (simp_all add: of_name_def)

lemma outcome_of_name [simp, parse_simps]: "outcome_of (outcome_name r) = Some r"
  unfolding outcome_of_def by (cases r) (simp_all add: of_name_def)

lemma workload_of_name [simp, parse_simps]: "workload_of (workload_name w) = Some w"
  unfolding workload_of_def by (cases w) (simp_all add: of_name_def)

lemma task_of_SomeD: "task_of s = Some t \<Longrightarrow> s = task_name t"
  unfolding task_of_def by (drule of_name_SomeD) simp

lemma lane_of_SomeD: "lane_of s = Some l \<Longrightarrow> s = lane_name l"
  unfolding lane_of_def by (drule of_name_SomeD) simp

lemma mode_of_SomeD: "mode_of s = Some m \<Longrightarrow> s = mode_name m"
  unfolding mode_of_def by (drule of_name_SomeD) simp

text \<open>
  \<open>str(task_class)\<close> orders the provider task classes; the order of the type is that order.
\<close>

fun task_class_rank :: "task_class \<Rightarrow> nat" where
  "task_class_rank ANNOTATION = 0"
| "task_class_rank DAILY_BRIEF = 1"
| "task_class_rank EMBEDDING = 2"
| "task_class_rank IMPACT = 3"
| "task_class_rank TITLE_REPAIR = 4"

lemma task_class_rank_inj: "task_class_rank a = task_class_rank b \<Longrightarrow> a = b"
  by (cases a; cases b) simp_all

instantiation task_class :: linorder
begin

definition less_eq_task_class :: "task_class \<Rightarrow> task_class \<Rightarrow> bool" where
  "less_eq_task_class a b \<longleftrightarrow> task_class_rank a \<le> task_class_rank b"

definition less_task_class :: "task_class \<Rightarrow> task_class \<Rightarrow> bool" where
  "less_task_class a b \<longleftrightarrow> task_class_rank a < task_class_rank b"

instance
  by standard (auto simp: less_eq_task_class_def less_task_class_def dest: task_class_rank_inj)

end

lemma task_class_order_is_text_order:
  "a \<le> b \<longleftrightarrow> task_class_name a \<le> task_class_name b"
  by (cases a; cases b) (simp_all add: less_eq_task_class_def less_eq_char_def)

section \<open>Rows\<close>

record job =
  j_id :: string
  j_task :: task_type
  j_source :: string
  j_item :: string
  j_revision :: int
  j_annotation :: string
  j_prompt :: string
  j_priority :: priority
  j_state :: job_state
  j_available_at :: instant
  j_lease_owner :: "string option"
  j_lease_expires_at :: "instant option"
  j_attempt_count :: int
  j_last_error :: "string option"
  j_created_at :: instant
  j_updated_at :: instant
  j_completed_at :: "instant option"
  j_lane :: work_lane
  j_lane_classified :: bool
  j_provenance_resolved :: bool
  j_provenance_version :: "string option"
  j_origin_task :: "string option"
  j_origin_ref :: "string option"

text \<open>The columns of \<open>UNIQUE(task_type,source,source_item_id,...)\<close>.\<close>

definition job_identity :: "job \<Rightarrow> task_type \<times> string \<times> string \<times> int \<times> string \<times> string" where
  "job_identity j =
     (j_task j, j_source j, j_item j, j_revision j, j_annotation j, j_prompt j)"

record attempt =
  at_id :: string
  at_job :: string
  at_number :: int
  at_account :: string
  at_credential :: string
  at_outcome :: string
  at_failure_code :: "string option"
  at_error_type :: "string option"
  at_http_status :: "int option"
  at_error_detail :: "string option"
  at_attempted_at :: instant
  at_next_retry_at :: "string option"

record retry_override =
  ro_id :: string
  ro_request :: string
  ro_job :: string
  ro_task :: task_type
  ro_operator :: string
  ro_mode :: retry_mode
  ro_requested_at :: instant
  ro_original_available_at :: instant
  ro_previous_available_at :: instant
  ro_requested_available_at :: "instant option"
  ro_effective_available_at :: instant
  ro_reason :: string
  ro_observed_state :: job_state
  ro_resulting_state :: job_state
  ro_active :: bool

record deferral =
  df_id :: string
  df_job :: string
  df_task :: task_type
  df_account :: string
  df_failure_code :: string
  df_evidence :: "string option"
  df_deferred_at :: instant
  df_next_retry_at :: "string option"

record daily_usage =
  du_day :: int
  du_account :: string
  du_model :: string
  du_count :: int
  du_updated_at :: instant

definition daily_key :: "daily_usage \<Rightarrow> int \<times> string \<times> string" where
  "daily_key u = (du_day u, du_account u, du_model u)"

record minute_usage =
  mu_minute :: instant
  mu_account :: string
  mu_model :: string
  mu_count :: int
  mu_tokens :: int
  mu_updated_at :: instant

definition minute_key :: "minute_usage \<Rightarrow> instant \<times> string \<times> string" where
  "minute_key u = (mu_minute u, mu_account u, mu_model u)"

record request_usage =
  ru_id :: string
  ru_account :: string
  ru_model :: string
  ru_count :: int
  ru_tokens :: int
  ru_reserved_at :: instant
  ru_attempted_at :: "instant option"
  ru_outcome :: "provider_outcome option"
  ru_http_status :: "int option"
  ru_completed_at :: "instant option"
  ru_vectors_at :: "instant option"
  ru_prompt_tokens :: "int option"
  ru_candidates_tokens :: "int option"
  ru_total_tokens :: "int option"
  ru_requested_model :: "string option"
  ru_purpose :: "string option"
  ru_prompt_contract :: "string option"
  ru_estimator :: "string option"
  ru_base_tokens :: "int option"
  ru_admitted_tokens :: "int option"
  ru_calibration_model :: "string option"
  ru_calibration_ratio :: "pyfloat option"
  ru_provider_model :: "string option"
  ru_workload :: workload_class

record day_workload =
  dw_day :: int
  dw_hour :: int
  dw_account :: string
  dw_authority :: string
  dw_class :: workload_class
  dw_count :: int
  dw_updated_at :: instant

definition workload_key :: "day_workload \<Rightarrow> int \<times> int \<times> string \<times> string \<times> workload_class" where
  "workload_key w = (dw_day w, dw_hour w, dw_account w, dw_authority w, dw_class w)"

text \<open>
  The ratio window is kept as the list its JSON text denotes; \<open>None\<close> is a text that is not
  the JSON of a list of numbers.
\<close>

record calibration =
  ca_bucket :: string
  ca_requested_model :: string
  ca_purpose :: string
  ca_contract :: string
  ca_estimator :: string
  ca_provider_model :: string
  ca_lifetime :: int
  ca_effective :: int
  ca_ewma :: pyfloat
  ca_error :: pyfloat
  ca_window :: "pyfloat list option"
  ca_p99 :: pyfloat
  ca_safe :: pyfloat
  ca_updated_at :: instant

record calibration_route =
  cr_requested_model :: string
  cr_purpose :: string
  cr_contract :: string
  cr_estimator :: string
  cr_provider_model :: string
  cr_reserved_at :: instant
  cr_updated_at :: instant

definition route_key :: "calibration_route \<Rightarrow> string \<times> string \<times> string \<times> string" where
  "route_key r = (cr_requested_model r, cr_purpose r, cr_contract r, cr_estimator r)"

datatype dispatch_mark = DISPATCHED | Outcome provider_outcome

record dispatch_state =
  ds_scope :: string
  ds_next_eligible_at :: instant
  ds_interval_ms :: int
  ds_success_streak :: int
  ds_throttle_count :: int
  ds_cooldown_until :: "instant option"
  ds_last_outcome :: "dispatch_mark option"
  ds_updated_at :: instant

record pressure =
  pr_dependency_fanout :: int
  pr_oldest_age_ms :: int
  pr_retry_overdue_ms :: int
  pr_backlog :: int
  pr_drain_gap :: int

record dispatch_task =
  dt_class :: task_class
  dt_requested_at :: instant
  dt_demand_until :: instant
  dt_dispatched_at :: "instant option"
  dt_pressure :: pressure

section \<open>The database\<close>

record scheduler_db =
  db_jobs :: "job list"
  db_attempts :: "attempt list"
  db_overrides :: "retry_override list"
  db_deferrals :: "deferral list"
  db_daily :: "daily_usage list"
  db_minute :: "minute_usage list"
  db_requests :: "request_usage list"
  db_workload :: "day_workload list"
  db_calibration :: "calibration list"
  db_routes :: "calibration_route list"
  db_dispatch :: "dispatch_state list"
  db_dispatch_tasks :: "dispatch_task list"

definition empty_db :: scheduler_db where
  "empty_db = \<lparr>db_jobs = [], db_attempts = [], db_overrides = [], db_deferrals = [],
     db_daily = [], db_minute = [], db_requests = [], db_workload = [], db_calibration = [],
     db_routes = [], db_dispatch = [], db_dispatch_tasks = []\<rparr>"

definition keys_ok :: "scheduler_db \<Rightarrow> bool" where
  "keys_ok db \<longleftrightarrow>
     distinct (map j_id (db_jobs db)) \<and> distinct (map job_identity (db_jobs db)) \<and>
     distinct (map at_id (db_attempts db)) \<and> distinct (map ro_request (db_overrides db)) \<and>
     distinct (map df_id (db_deferrals db)) \<and> distinct (map daily_key (db_daily db)) \<and>
     distinct (map minute_key (db_minute db)) \<and> distinct (map ru_id (db_requests db)) \<and>
     distinct (map workload_key (db_workload db)) \<and> distinct (map ca_bucket (db_calibration db)) \<and>
     distinct (map route_key (db_routes db)) \<and> distinct (map ds_scope (db_dispatch db)) \<and>
     distinct (map dt_class (db_dispatch_tasks db))"

lemma keys_ok_empty [simp]: "keys_ok empty_db"
  by (simp add: keys_ok_def empty_db_def)

text \<open>
  \<open>EFFECTIVE_INPUT_TOKENS_SQL\<close>: what the provider counted, once it succeeded and reported a
  positive count, and what was admitted before that.
\<close>

definition effective_input_tokens :: "request_usage \<Rightarrow> int" where
  "effective_input_tokens r =
     (case ru_prompt_tokens r of
        Some n \<Rightarrow>
          if ru_outcome r = Some PROVIDER_SUCCEEDED \<and> 0 < n then n
          else (case ru_admitted_tokens r of Some a \<Rightarrow> a | None \<Rightarrow> ru_tokens r)
      | None \<Rightarrow> (case ru_admitted_tokens r of Some a \<Rightarrow> a | None \<Rightarrow> ru_tokens r))"

section \<open>Data classes\<close>

record api_credential =
  cred_account :: string
  cred_pool :: string
  cred_key :: string
  cred_id :: string

definition ROUTINE_POOL :: string where "ROUTINE_POOL = ''ROUTINE''"
definition PREEMPTIBLE_POOL :: string where "PREEMPTIBLE_POOL = ''PREEMPTIBLE''"

record work_provenance =
  wp_lane :: work_lane
  wp_origin_task :: string
  wp_origin_ref :: string

text \<open>The constructor of \<open>WorkProvenance\<close> with its \<open>__post_init__\<close>.\<close>

definition make_provenance :: "string \<Rightarrow> string \<Rightarrow> string \<Rightarrow> work_provenance outcome" where
  "make_provenance lane origin_task origin_ref =
     (case lane_of lane of
        None \<Rightarrow> Inl (ValueError ''work provenance lane is not controlled'')
      | Some l \<Rightarrow>
          if strip origin_task = [] \<or> strip origin_ref = []
          then Inl (ValueError ''work provenance origin is required'')
          else Inr \<lparr>wp_lane = l, wp_origin_task = origin_task, wp_origin_ref = origin_ref\<rparr>)"

definition workload_of_lane :: "work_lane \<Rightarrow> workload_class" where
  "workload_of_lane l = (if l = CONTRACT_BACKFILL then BACKFILL_WORKLOAD else LIVE_OPERATIONAL)"

definition provenance_workload :: "work_provenance \<Rightarrow> workload_class" where
  "provenance_workload p = workload_of_lane (wp_lane p)"

definition WORK_PROVENANCE_VERSION :: string where
  "WORK_PROVENANCE_VERSION = ''ai-work-provenance-v1''"

record scheduled_job =
  sj_id :: string
  sj_task :: task_type
  sj_source :: string
  sj_item :: string
  sj_revision :: int
  sj_annotation :: string
  sj_prompt :: string
  sj_priority :: priority
  sj_lane :: work_lane
  sj_provenance_resolved :: bool
  sj_provenance_version :: "string option"
  sj_origin_task :: "string option"
  sj_origin_ref :: "string option"
  sj_state :: job_state
  sj_available_at :: instant
  sj_lease_owner :: "string option"
  sj_lease_expires_at :: "instant option"
  sj_attempt_count :: int

definition job_from_row :: "job \<Rightarrow> scheduled_job" where
  "job_from_row j = \<lparr>sj_id = j_id j, sj_task = j_task j, sj_source = j_source j, sj_item = j_item j,
     sj_revision = j_revision j, sj_annotation = j_annotation j, sj_prompt = j_prompt j,
     sj_priority = j_priority j, sj_lane = j_lane j,
     sj_provenance_resolved = j_provenance_resolved j,
     sj_provenance_version = nonblank (j_provenance_version j),
     sj_origin_task = nonblank (j_origin_task j), sj_origin_ref = nonblank (j_origin_ref j),
     sj_state = j_state j, sj_available_at = j_available_at j,
     sj_lease_owner = nonblank (j_lease_owner j), sj_lease_expires_at = j_lease_expires_at j,
     sj_attempt_count = j_attempt_count j\<rparr>"

end
