(* ===== verification/Sample_Data.thy ===== *)
theory Sample_Data
  imports Scheduler_Tables
begin

text \<open>
  Concrete values for the witnesses: a platform whose rounding is exact and whose digests are
  readable, one job of each kind, and credentials. Nothing here models code; the witnesses of the
  component theories evaluate the operations on these values.
\<close>

definition sample_platform :: platform where
  "sample_platform = \<lparr>fl = (\<lambda>x. x), sha256_hex = (\<lambda>s. CHR ''#'' # s),
     derived_credential_id = (\<lambda>k. ''hmac-v1''), json_dumps = (\<lambda>_. ''json''),
     py_repr = (\<lambda>_. ''value''), iso_text = str_int,
     pacific = \<lparr>utc_offset_at = (\<lambda>_. - hours 8), wall_offset_at = (\<lambda>_. - hours 8)\<rparr>\<rparr>"

definition sample_job :: job where
  "sample_job = \<lparr>j_id = ''job-1'', j_task = ACTIVE_ANNOTATION, j_source = ''fed'', j_item = ''item'',
     j_revision = 1, j_annotation = [], j_prompt = ''v1'', j_priority = FAST, j_state = QUEUED,
     j_available_at = 0, j_lease_owner = None, j_lease_expires_at = None, j_attempt_count = 0,
     j_last_error = None, j_created_at = 0, j_updated_at = 0, j_completed_at = None, j_lane = LIVE,
     j_lane_classified = True, j_provenance_resolved = True,
     j_provenance_version = Some WORK_PROVENANCE_VERSION, j_origin_task = Some ''ACTIVE_ANNOTATION'',
     j_origin_ref = Some ''job-1''\<rparr>"

definition sample_db :: scheduler_db where
  "sample_db = empty_db\<lparr>db_jobs := [sample_job]\<rparr>"

definition sample_credential :: api_credential where
  "sample_credential = \<lparr>cred_account = ''acct'', cred_pool = ROUTINE_POOL, cred_key = ''k'',
     cred_id = ''cred-1''\<rparr>"

end
