(* ===== verification/Job_Queue.thy ===== *)
theory Job_Queue
  imports Sample_Data
begin

text \<open>
  The job queue of \<^verbatim>\<open>xauusd_news/news/scheduler/state.py\<close>: enqueueing, claiming a lease,
  and the transitions of a leased job. Each operation is the transaction the code runs: it takes
  the database and returns the new one, or an error and no database when the code raises and
  rolls back. The clock reading of an operation is an argument.
\<close>

section \<open>Enqueueing\<close>

definition job_hash :: "platform \<Rightarrow> string \<Rightarrow> string \<Rightarrow> string \<Rightarrow> int \<Rightarrow> string \<Rightarrow> string \<Rightarrow> string" where
  "job_hash P task source item revision annotation prompt =
     sha256_hex P (join ''|'' [task, source, item, str_int revision, annotation, prompt])"

record enqueue_request =
  eq_task :: string
  eq_source :: string
  eq_item :: string
  eq_revision :: int
  eq_prompt :: string
  eq_priority :: string
  eq_lane :: string
  eq_provenance :: "work_provenance option"
  eq_annotation :: string
  eq_reopen_completed :: bool

definition queued_or_backing_off :: "job \<Rightarrow> bool" where
  "queued_or_backing_off j \<longleftrightarrow> j_state j = QUEUED \<or> j_state j = BACKING_OFF"

definition insert_job :: "job \<Rightarrow> job list \<Rightarrow> job list" where
  "insert_job new jobs =
     sql_insert_ignore (\<lambda>j. j_id j = j_id new \<or> job_identity j = job_identity new) new jobs"

definition reclassify_job ::
    "string \<Rightarrow> work_lane \<Rightarrow> priority \<Rightarrow> work_provenance \<Rightarrow> job list \<Rightarrow> job list" where
  "reclassify_job jid lane prio prov jobs =
     sql_update (\<lambda>j. j_id j = jid \<and> queued_or_backing_off j)
       (\<lambda>j. j\<lparr>j_lane := lane, j_priority := prio, j_lane_classified := True,
              j_provenance_resolved := True,
              j_provenance_version := Some WORK_PROVENANCE_VERSION,
              j_origin_task := Some (wp_origin_task prov),
              j_origin_ref := Some (wp_origin_ref prov)\<rparr>) jobs"

definition reopen_job :: "string \<Rightarrow> instant \<Rightarrow> job list \<Rightarrow> job list" where
  "reopen_job jid now jobs =
     sql_update (\<lambda>j. j_id j = jid \<and> j_state j = COMPLETED)
       (\<lambda>j. j\<lparr>j_state := QUEUED, j_available_at := now, j_lease_owner := None,
              j_lease_expires_at := None, j_last_error := None, j_updated_at := now,
              j_completed_at := None\<rparr>) jobs"

definition new_job ::
    "enqueue_request \<Rightarrow> string \<Rightarrow> task_type \<Rightarrow> priority \<Rightarrow> work_lane \<Rightarrow> work_provenance \<Rightarrow> instant \<Rightarrow> job" where
  "new_job q jid task prio lane prov now =
     \<lparr>j_id = jid, j_task = task, j_source = eq_source q, j_item = eq_item q,
      j_revision = eq_revision q, j_annotation = eq_annotation q, j_prompt = eq_prompt q,
      j_priority = prio, j_state = QUEUED, j_available_at = now, j_lease_owner = None,
      j_lease_expires_at = None, j_attempt_count = 0, j_last_error = None, j_created_at = now,
      j_updated_at = now, j_completed_at = None, j_lane = lane, j_lane_classified = True,
      j_provenance_resolved = True, j_provenance_version = Some WORK_PROVENANCE_VERSION,
      j_origin_task = Some (wp_origin_task prov), j_origin_ref = Some (wp_origin_ref prov)\<rparr>"

definition enqueue_job ::
    "platform \<Rightarrow> enqueue_request \<Rightarrow> instant \<Rightarrow> scheduler_db \<Rightarrow> (string \<times> scheduler_db) outcome" where
  "enqueue_job P q now db =
     (case task_of (eq_task q) of
        None \<Rightarrow> Inl (ValueError ''scheduler task type is not controlled'')
      | Some task \<Rightarrow>
     (case priority_of (eq_priority q) of
        None \<Rightarrow> Inl (ValueError ''scheduler priority is not controlled'')
      | Some prio \<Rightarrow>
     (case lane_of (eq_lane q) of
        None \<Rightarrow> Inl (ValueError ''scheduler work lane is not controlled'')
      | Some lane \<Rightarrow>
     (let jid = job_hash P (eq_task q) (eq_source q) (eq_item q) (eq_revision q)
                  (eq_annotation q) (eq_prompt q)
      in bind_out (case eq_provenance q of
                     Some p \<Rightarrow> Inr p
                   | None \<Rightarrow> make_provenance (eq_lane q) (eq_task q) jid)
         (\<lambda>prov.
            if wp_lane prov \<noteq> lane
            then Inl (ValueError ''scheduler job lane disagrees with workload provenance'')
            else
              (let jobs1 = insert_job (new_job q jid task prio lane prov now) (db_jobs db);
                   jobs2 = reclassify_job jid lane prio prov jobs1;
                   jobs3 = (if eq_reopen_completed q then reopen_job jid now jobs2 else jobs2)
               in Inr (jid, db\<lparr>db_jobs := jobs3\<rparr>)))))))"

text \<open>\<open>enqueue_derived_ai_job\<close>: derived work inherits the lane of its parent.\<close>

definition enqueue_derived_ai_job ::
    "platform \<Rightarrow> work_provenance \<Rightarrow> enqueue_request \<Rightarrow> instant \<Rightarrow> scheduler_db \<Rightarrow>
     (string \<times> scheduler_db) outcome" where
  "enqueue_derived_ai_job P prov q now db =
     enqueue_job P
       (q\<lparr>eq_priority := (if wp_lane prov = CONTRACT_BACKFILL then ''BACKGROUND'' else eq_priority q),
          eq_lane := lane_name (wp_lane prov), eq_provenance := Some prov,
          eq_reopen_completed := False\<rparr>) now db"

section \<open>Claiming\<close>

definition PRIORITY_HEAD_START :: int where "PRIORITY_HEAD_START = minutes 1"
definition IDLE_CAPACITY_MAX_WAIT :: int where "IDLE_CAPACITY_MAX_WAIT = minutes 30"

definition urgent_priority :: "priority \<Rightarrow> bool" where
  "urgent_priority p \<longleftrightarrow> p = IMMEDIATE \<or> p = FAST"

definition requeue_expired :: "instant \<Rightarrow> job list \<Rightarrow> job list" where
  "requeue_expired now jobs =
     sql_update
       (\<lambda>j. j_state j = LEASED \<and>
             (case j_lease_expires_at j of None \<Rightarrow> False | Some e \<Rightarrow> e \<le> now))
       (\<lambda>j. j\<lparr>j_state := QUEUED, j_lease_owner := None, j_lease_expires_at := None,
              j_updated_at := now\<rparr>) jobs"

text \<open>\<open>LEFT JOIN ... retry_override ON job_id AND active=1\<close>.\<close>

definition active_overrides :: "retry_override list \<Rightarrow> job \<Rightarrow> retry_override list" where
  "active_overrides ros j = filter (\<lambda>r. ro_job r = j_id j \<and> ro_active r) ros"

definition override_columns :: "retry_override list \<Rightarrow> job \<Rightarrow> retry_override option list" where
  "override_columns ros j =
     (case active_overrides ros j of [] \<Rightarrow> [None] | r # rs \<Rightarrow> map Some (r # rs))"

definition join_overrides ::
    "retry_override list \<Rightarrow> job list \<Rightarrow> (job \<times> retry_override option) list" where
  "join_overrides ros jobs = concat (map (\<lambda>j. map (Pair j) (override_columns ros j)) jobs)"

record claim_query =
  cq_tasks :: "task_type list"
  cq_lanes :: "work_lane list"
  cq_preemptible :: bool
  cq_now :: instant
  cq_queued_before :: "instant option"

definition provenance_admits :: "job \<Rightarrow> bool" where
  "provenance_admits j \<longleftrightarrow>
     j_task j = ACTIVE_ANNOTATION \<or>
     (j_provenance_resolved j \<and> j_provenance_version j = Some WORK_PROVENANCE_VERSION)"

definition claimable :: "claim_query \<Rightarrow> job \<Rightarrow> bool" where
  "claimable q j \<longleftrightarrow>
     queued_or_backing_off j \<and> j_task j \<in> set (cq_tasks q) \<and> j_lane_classified j \<and>
     provenance_admits j \<and> j_lane j \<in> set (cq_lanes q) \<and> j_available_at j \<le> cq_now q \<and>
     (case cq_queued_before q of None \<Rightarrow> True | Some c \<Rightarrow> j_available_at j \<le> c) \<and>
     (cq_preemptible q \<longrightarrow> urgent_priority (j_priority j))"

fun priority_rank :: "priority \<Rightarrow> int" where
  "priority_rank IMMEDIATE = 0"
| "priority_rank FAST = 1"
| "priority_rank NORMAL = 2"
| "priority_rank BACKGROUND = 3"

fun claim_task_rank :: "task_type \<Rightarrow> int" where
  "claim_task_rank ACTIVE_IMPACT = 0"
| "claim_task_rank ACTIVE_ANNOTATION = 1"
| "claim_task_rank TITLE_TRANSLATION = 2"

definition idle_requested :: "retry_override option \<Rightarrow> instant option" where
  "idle_requested ro =
     (case ro of None \<Rightarrow> None
      | Some r \<Rightarrow> if ro_mode r = IDLE_CAPACITY then Some (ro_requested_at r) else None)"

text \<open>The \<open>ORDER BY\<close> list of the claim, one component for each term.\<close>

definition claim_key ::
    "instant \<Rightarrow> job \<times> retry_override option \<Rightarrow>
     int \<times> int \<times> int \<times> int \<times> int \<times> int option \<times> int \<times> int \<times> int \<times> string" where
  "claim_key now jr =
     (let j = fst jr; idle = idle_requested (snd jr);
          waited = now - IDLE_CAPACITY_MAX_WAIT; aged = now - PRIORITY_HEAD_START
      in ((case idle of Some t \<Rightarrow> if t \<le> waited then 0 else 1 | None \<Rightarrow> 1),
          (if j_lane j = LIVE then 0 else 1),
          (if j_task j = ACTIVE_ANNOTATION \<and> j_lane j = LIVE \<and> urgent_priority (j_priority j)
           then 0 else 1),
          (case idle of Some t \<Rightarrow> if waited < t then 1 else 0 | None \<Rightarrow> 0),
          (if j_available_at j \<le> aged then 0 else 1),
          (if j_available_at j \<le> aged then Some (j_available_at j) else None),
          priority_rank (j_priority j), claim_task_rank (j_task j),
          j_available_at j, j_id j))"

definition select_claim ::
    "claim_query \<Rightarrow> retry_override list \<Rightarrow> job list \<Rightarrow> job option" where
  "select_claim q ros jobs =
     map_option fst (sql_first (claim_key (cq_now q)) (\<lambda>jr. claimable q (fst jr))
       (join_overrides ros jobs))"

definition lease_job :: "string \<Rightarrow> string \<Rightarrow> instant \<Rightarrow> instant \<Rightarrow> job list \<Rightarrow> job list" where
  "lease_job jid worker expires now jobs =
     sql_update (\<lambda>j. j_id j = jid \<and> queued_or_backing_off j)
       (\<lambda>j. j\<lparr>j_state := LEASED, j_lease_owner := Some worker, j_lease_expires_at := Some expires,
              j_attempt_count := j_attempt_count j + 1, j_updated_at := now\<rparr>) jobs"

definition deactivate_overrides :: "string \<Rightarrow> retry_override list \<Rightarrow> retry_override list" where
  "deactivate_overrides jid ros =
     sql_update (\<lambda>r. ro_job r = jid \<and> ro_active r) (\<lambda>r. r\<lparr>ro_active := False\<rparr>) ros"

text \<open>The transaction between \<open>BEGIN IMMEDIATE\<close> and the commit or rollback.\<close>

definition claim_locked ::
    "claim_query \<Rightarrow> string \<Rightarrow> int \<Rightarrow> scheduler_db \<Rightarrow> scheduled_job option \<times> scheduler_db" where
  "claim_locked q worker lease_seconds db =
     (let now = cq_now q; jobs1 = requeue_expired now (db_jobs db)
      in case select_claim q (db_overrides db) jobs1 of
           None \<Rightarrow> (None, db\<lparr>db_jobs := jobs1\<rparr>)
         | Some row \<Rightarrow>
             if sql_count (\<lambda>j. j_id j = j_id row \<and> queued_or_backing_off j) jobs1 \<noteq> 1
             then (None, db)
             else
               (let jobs2 = lease_job (j_id row) worker
                              (now + seconds (max 30 lease_seconds)) now jobs1;
                    ros2 = deactivate_overrides (j_id row) (db_overrides db)
                in (map_option job_from_row (find (\<lambda>j. j_id j = j_id row) jobs2),
                    db\<lparr>db_jobs := jobs2, db_overrides := ros2\<rparr>)))"

record claim_args =
  cl_worker :: string
  cl_pool :: string
  cl_task_types :: "string list option"
  cl_excluded :: "string list"
  cl_lanes :: "string list"
  cl_lease_seconds :: int
  cl_queued_before :: "instant option"

text \<open>
  The guards of \<open>claim_job\<close>, in their order: the controlled query, no query when every task
  type is excluded, or the first violated guard.
\<close>

definition claim_query_of :: "claim_args \<Rightarrow> instant \<Rightarrow> claim_query option outcome" where
  "claim_query_of a now =
     (if cl_pool a \<noteq> ROUTINE_POOL \<and> cl_pool a \<noteq> PREEMPTIBLE_POOL
      then Inl (ValueError ''scheduler pool is not controlled'')
      else if strip (cl_worker a) = [] then Inl (ValueError ''scheduler worker_id is required'')
      else
        (case traverse task_of
                (dedupe (case cl_task_types a of None \<Rightarrow> map task_name TASKS | Some ts \<Rightarrow> ts)) of
           None \<Rightarrow> Inl (ValueError ''scheduler task type is not controlled'')
         | Some tasks \<Rightarrow>
        (case traverse task_of (cl_excluded a) of
           None \<Rightarrow> Inl (ValueError ''scheduler task exclusion is not controlled'')
         | Some excluded \<Rightarrow>
        (case traverse lane_of (dedupe (cl_lanes a)) of
           None \<Rightarrow> Inl (ValueError ''scheduler work lane is not controlled'')
         | Some lanes \<Rightarrow>
             if lanes = [] then Inl (ValueError ''scheduler work lane is not controlled'')
             else
               (let remaining = filter (\<lambda>t. t \<notin> set excluded) tasks
                in Inr (if remaining = [] then None
                        else Some \<lparr>cq_tasks = remaining, cq_lanes = lanes,
                               cq_preemptible = (cl_pool a = PREEMPTIBLE_POOL), cq_now = now,
                               cq_queued_before = cl_queued_before a\<rparr>))))))"

definition claim_job ::
    "claim_args \<Rightarrow> instant \<Rightarrow> scheduler_db \<Rightarrow> (scheduled_job option \<times> scheduler_db) outcome" where
  "claim_job a now db =
     bind_out (claim_query_of a now)
       (\<lambda>q. case q of
          None \<Rightarrow> Inr (None, db)
        | Some q' \<Rightarrow> Inr (claim_locked q' (cl_worker a) (cl_lease_seconds a) db))"

section \<open>Transitions of a leased job\<close>

definition owns_lease :: "string \<Rightarrow> string \<Rightarrow> job \<Rightarrow> bool" where
  "owns_lease jid worker j \<longleftrightarrow>
     j_id j = jid \<and> j_state j = LEASED \<and> j_lease_owner j = Some worker"

definition transition_leased_job ::
    "string \<Rightarrow> string \<Rightarrow> job_state \<Rightarrow> instant \<Rightarrow> string option \<Rightarrow> instant option \<Rightarrow> instant \<Rightarrow>
     scheduler_db \<Rightarrow> scheduler_db outcome" where
  "transition_leased_job jid worker st available err completed clock db =
     (if sql_count (owns_lease jid worker) (db_jobs db) \<noteq> 1
      then Inl (ValueError ''scheduler lease is not owned by this worker'')
      else Inr (db\<lparr>db_jobs :=
        sql_update (owns_lease jid worker)
          (\<lambda>j. j\<lparr>j_state := st, j_available_at := available, j_lease_owner := None,
                 j_lease_expires_at := None, j_last_error := err, j_updated_at := clock,
                 j_completed_at := completed\<rparr>) (db_jobs db)\<rparr>))"

definition complete_job ::
    "string \<Rightarrow> string \<Rightarrow> instant \<Rightarrow> instant \<Rightarrow> scheduler_db \<Rightarrow> scheduler_db outcome" where
  "complete_job jid worker now clock db =
     transition_leased_job jid worker COMPLETED now None (Some now) clock db"

definition release_job ::
    "string \<Rightarrow> string \<Rightarrow> instant \<Rightarrow> string option \<Rightarrow> instant \<Rightarrow> scheduler_db \<Rightarrow> scheduler_db outcome" where
  "release_job jid worker available err clock db =
     transition_leased_job jid worker QUEUED available err None clock db"

definition backoff_job ::
    "string \<Rightarrow> string \<Rightarrow> instant \<Rightarrow> string \<Rightarrow> bool \<Rightarrow> instant \<Rightarrow> scheduler_db \<Rightarrow> scheduler_db outcome" where
  "backoff_job jid worker available err terminal clock db =
     transition_leased_job jid worker (if terminal then DEAD_LETTER else BACKING_OFF)
       available (Some err) (if terminal then Some available else None) clock db"

definition defer_job_for_maintenance ::
    "string \<Rightarrow> string \<Rightarrow> instant \<Rightarrow> string \<Rightarrow> instant \<Rightarrow> scheduler_db \<Rightarrow> scheduler_db outcome" where
  "defer_job_for_maintenance jid worker available reason clock db =
     (let hit = (\<lambda>j. owns_lease jid worker j \<and> 0 < j_attempt_count j)
      in if sql_count hit (db_jobs db) \<noteq> 1
         then Inl (ValueError ''scheduler lease is not owned by this worker'')
         else Inr (db\<lparr>db_jobs :=
           sql_update hit
             (\<lambda>j. j\<lparr>j_state := QUEUED, j_available_at := available, j_lease_owner := None,
                    j_lease_expires_at := None, j_last_error := Some reason, j_updated_at := clock,
                    j_attempt_count := j_attempt_count j - 1\<rparr>) (db_jobs db)\<rparr>))"

section \<open>Attempts and deferrals\<close>

type_synonym status = "(string \<times> json) list"

definition optional_text :: "string \<Rightarrow> string option" where
  "optional_text s = (if s = [] then None else Some s)"

text \<open>The bounded evidence of a failure whose JSON is longer than 8192 characters.\<close>

definition truncated_evidence :: "platform \<Rightarrow> (string \<times> json) list \<Rightarrow> string \<Rightarrow> json" where
  "truncated_evidence P ev detail =
     JObj ([(''failure_code'', JStr (take 100 (str_or_empty P (jget ev ''failure_code'')))),
            (''failure_stage'', JStr (take 100 (str_or_empty P (jget ev ''failure_stage'')))),
            (''cause_type'', JStr (take 100 (str_or_empty P (jget ev ''cause_type'')))),
            (''cause'', JStr (take 500 (str_or_empty P (jget ev ''cause'')))),
            (''evidence_truncated'', JBool True)]
           @ (case map_of ev ''checkpoint_key'' of
                None \<Rightarrow> []
              | Some v \<Rightarrow> [(''checkpoint_key'', JStr (take 64 (py_str P v)))])
           @ [(''evidence_hash'', JStr (sha256_hex P detail))])"

definition attempt_error_detail :: "platform \<Rightarrow> status \<Rightarrow> string" where
  "attempt_error_detail P status =
     (case jget status ''failure_evidence'' of
        JObj ev \<Rightarrow>
          (let detail = json_dumps P (JObj ev)
           in if 8192 < length detail then json_dumps P (truncated_evidence P ev detail) else detail)
      | _ \<Rightarrow>
          take 500 (if truthy (jget status ''error'') then py_str P (jget status ''error'')
                    else str_or_empty P (jget status ''reason'')))"

definition record_job_attempt ::
    "platform \<Rightarrow> scheduled_job \<Rightarrow> api_credential \<Rightarrow> status \<Rightarrow> instant \<Rightarrow> scheduler_db \<Rightarrow>
     scheduler_db outcome" where
  "record_job_attempt P job cred status attempted_at db =
     (let new = \<lparr>at_id = sha256_hex P (join ''|'' [sj_id job, str_int (sj_attempt_count job),
                            cred_account cred, cred_id cred]),
                 at_job = sj_id job, at_number = sj_attempt_count job,
                 at_account = cred_account cred, at_credential = cred_id cred,
                 at_outcome = (if truthy (jget status ''status'') then py_str P (jget status ''status'')
                               else ''ERROR''),
                 at_failure_code = optional_text (str_or_empty P (jget status ''failure_code'')),
                 at_error_type = optional_text (str_or_empty P (jget status ''error_type'')),
                 at_http_status = int_of_json (jget status ''provider_http_status''),
                 at_error_detail = optional_text (attempt_error_detail P status),
                 at_attempted_at = attempted_at,
                 at_next_retry_at = optional_text (str_or_empty P (jget status ''next_retry_at''))\<rparr>
      in if sj_attempt_count job < 1 then Inr db
         else if list_ex (\<lambda>r. at_id r = at_id new \<or>
                   (at_job r, at_number r, at_account r, at_credential r)
                     = (at_job new, at_number new, at_account new, at_credential new))
                 (db_attempts db) then Inr db
         else if sj_id job \<notin> j_id ` set (db_jobs db)
         then Inl (IntegrityError ''FOREIGN KEY constraint failed'')
         else Inr (db\<lparr>db_attempts := db_attempts db @ [new]\<rparr>))"

definition SCHEDULER_DEFERRAL_RETENTION :: int where "SCHEDULER_DEFERRAL_RETENTION = hours 24"

definition deferral_identity ::
    "platform \<Rightarrow> scheduled_job \<Rightarrow> api_credential \<Rightarrow> string \<Rightarrow> instant \<Rightarrow> string" where
  "deferral_identity P job cred code deferred_at =
     sha256_hex P (join ''|'' [sj_id job, cred_account cred, code,
       (if code = ''BACKFILL_BUDGET_DEFERRED'' then ''coalesced'' else iso_text P deferred_at)])"

definition record_scheduler_deferral ::
    "platform \<Rightarrow> scheduled_job \<Rightarrow> api_credential \<Rightarrow> status \<Rightarrow> instant \<Rightarrow> scheduler_db \<Rightarrow>
     scheduler_db outcome" where
  "record_scheduler_deferral P job cred status deferred_at db =
     (let code = str_or_empty P (jget status ''failure_code'');
          serialized = (case jget status ''failure_evidence'' of
              JObj ev \<Rightarrow> Some (take 500 (json_dumps P (JObj ev))) | _ \<Rightarrow> None);
          did = deferral_identity P job cred code deferred_at;
          kept = sql_delete (\<lambda>d. df_deferred_at d \<le> deferred_at - SCHEDULER_DEFERRAL_RETENTION)
                   (db_deferrals db);
          new = \<lparr>df_id = did, df_job = sj_id job, df_task = sj_task job,
                 df_account = cred_account cred, df_failure_code = code, df_evidence = serialized,
                 df_deferred_at = deferred_at,
                 df_next_retry_at = optional_text (str_or_empty P (jget status ''next_retry_at''))\<rparr>
      in if code = ''BACKFILL_BUDGET_DEFERRED'' \<and>
            (case find (\<lambda>d. df_id d = did) kept of
               None \<Rightarrow> False | Some d \<Rightarrow> deferred_at - minutes 5 < df_deferred_at d)
         then Inr (db\<lparr>db_deferrals := kept\<rparr>)
         else if did \<notin> df_id ` set kept \<and> sj_id job \<notin> j_id ` set (db_jobs db)
         then Inl (IntegrityError ''FOREIGN KEY constraint failed'')
         else Inr (db\<lparr>db_deferrals :=
           sql_upsert df_id
             (\<lambda>d. d\<lparr>df_evidence := serialized, df_deferred_at := deferred_at,
                    df_next_retry_at := df_next_retry_at new\<rparr>) new kept\<rparr>))"

end
