(* ===== verification/Queue_Facts.thy ===== *)
theory Queue_Facts
  imports Job_Queue
begin

text \<open>
  The invariant of the job and override tables, the shape of every operation of
  \<^verbatim>\<open>Job_Queue\<close> (elimination rules), and the properties of enqueueing, claiming and the
  leased transitions.
\<close>

section \<open>The invariant of a job row\<close>

definition lease_ok :: "job \<Rightarrow> bool" where
  "lease_ok j \<longleftrightarrow>
     (if j_state j = LEASED
      then j_lease_owner j \<noteq> None \<and> j_lease_expires_at j \<noteq> None \<and> 1 \<le> j_attempt_count j
      else j_lease_owner j = None \<and> j_lease_expires_at j = None)"

definition terminal_state :: "job_state \<Rightarrow> bool" where
  "terminal_state s \<longleftrightarrow> s = COMPLETED \<or> s = DEAD_LETTER"

definition job_ok :: "job \<Rightarrow> bool" where
  "job_ok j \<longleftrightarrow> lease_ok j \<and> (j_completed_at j \<noteq> None \<longleftrightarrow> terminal_state (j_state j)) \<and>
     0 \<le> j_attempt_count j"

definition one_active_override :: "retry_override list \<Rightarrow> bool" where
  "one_active_override ros \<longleftrightarrow> distinct (map ro_job (filter ro_active ros))"

definition queue_inv :: "scheduler_db \<Rightarrow> bool" where
  "queue_inv db \<longleftrightarrow>
     distinct (map j_id (db_jobs db)) \<and> distinct (map job_identity (db_jobs db)) \<and>
     (\<forall>j \<in> set (db_jobs db). job_ok j) \<and> one_active_override (db_overrides db)"

lemmas job_inv_defs = job_ok_def lease_ok_def terminal_state_def queued_or_backing_off_def

text \<open>An update that keeps the identifying columns and the row invariant keeps the table invariant.\<close>

definition jobs_ok :: "job list \<Rightarrow> bool" where
  "jobs_ok jobs \<longleftrightarrow> distinct (map j_id jobs) \<and> distinct (map job_identity jobs) \<and> (\<forall>j \<in> set jobs. job_ok j)"

lemma queue_inv_iff:
  "queue_inv db \<longleftrightarrow> jobs_ok (db_jobs db) \<and> one_active_override (db_overrides db)"
  by (auto simp: queue_inv_def jobs_ok_def)

lemma jobs_ok_update:
  assumes "jobs_ok jobs" "\<And>j. j_id (f j) = j_id j" "\<And>j. job_identity (f j) = job_identity j"
    "\<And>j. p j \<Longrightarrow> job_ok j \<Longrightarrow> job_ok (f j)"
  shows "jobs_ok (sql_update p f jobs)"
  using assms by (auto simp: jobs_ok_def map_sql_update set_sql_update)

lemma jobs_ok_insert:
  assumes "jobs_ok jobs" "job_ok new"
  shows "jobs_ok (insert_job new jobs)"
  using assms by (auto simp: jobs_ok_def insert_job_def sql_insert_ignore_def list_ex_iff)

lemma jobs_ok_reclassify: "jobs_ok jobs \<Longrightarrow> jobs_ok (reclassify_job jid lane prio prov jobs)"
  unfolding reclassify_job_def
  by (rule jobs_ok_update) (auto simp: job_identity_def job_inv_defs)

lemma jobs_ok_reopen: "jobs_ok jobs \<Longrightarrow> jobs_ok (reopen_job jid now jobs)"
  unfolding reopen_job_def
  by (rule jobs_ok_update) (auto simp: job_identity_def job_inv_defs)

lemma jobs_ok_requeue: "jobs_ok jobs \<Longrightarrow> jobs_ok (requeue_expired now jobs)"
  unfolding requeue_expired_def
  by (rule jobs_ok_update) (auto simp: job_identity_def job_inv_defs split: option.splits if_splits)

lemma jobs_ok_lease: "jobs_ok jobs \<Longrightarrow> jobs_ok (lease_job jid worker e now jobs)"
  unfolding lease_job_def
  by (rule jobs_ok_update) (auto simp: job_identity_def job_inv_defs)

lemma one_active_deactivate:
  assumes "one_active_override ros"
  shows "one_active_override (deactivate_overrides jid ros)"
proof -
  have "filter ro_active (deactivate_overrides jid ros) = filter (\<lambda>r. ro_job r \<noteq> jid) (filter ro_active ros)"
    by (induction ros) (auto simp: deactivate_overrides_def sql_update_def)
  then show ?thesis
    using assms distinct_map_filter [of ro_job "filter ro_active ros"]
    by (simp add: one_active_override_def)
qed

lemma deactivated_none:
  "r \<in> set (deactivate_overrides jid ros) \<Longrightarrow> ro_job r = jid \<Longrightarrow> \<not> ro_active r"
  unfolding deactivate_overrides_def by (erule sql_updateE) simp_all

lemma deactivate_other [simp]:
  "ro_job r \<noteq> jid \<Longrightarrow> r \<in> set (deactivate_overrides jid ros) \<longleftrightarrow> r \<in> set ros"
  unfolding deactivate_overrides_def by (auto elim: sql_updateE intro: sql_update_memI)

section \<open>Enqueueing keeps the invariant and never touches a running or finished job\<close>

lemma enqueue_jobE:
  assumes "enqueue_job P q now db = Inr (jid, db')"
  obtains task prio lane prov where
    "task_of (eq_task q) = Some task" "priority_of (eq_priority q) = Some prio"
    "lane_of (eq_lane q) = Some lane" "wp_lane prov = lane"
    "jid = job_hash P (eq_task q) (eq_source q) (eq_item q) (eq_revision q) (eq_annotation q) (eq_prompt q)"
    "db' = db\<lparr>db_jobs :=
       (if eq_reopen_completed q
        then reopen_job jid now (reclassify_job jid lane prio prov
               (insert_job (new_job q jid task prio lane prov now) (db_jobs db)))
        else reclassify_job jid lane prio prov
               (insert_job (new_job q jid task prio lane prov now) (db_jobs db)))\<rparr>"
  using assms
  by (auto simp: enqueue_job_def Let_def bind_out_Inr_iff split: option.splits if_splits)

lemma job_ok_new_job: "job_ok (new_job q jid task prio lane prov now)"
  by (simp add: new_job_def job_inv_defs)

lemma enqueue_job_inv:
  assumes "enqueue_job P q now db = Inr (jid, db')" "queue_inv db"
  shows "queue_inv db'"
  using assms(1)
proof (cases rule: enqueue_jobE)
  case (1 task prio lane prov)
  have "jobs_ok (reclassify_job jid lane prio prov
          (insert_job (new_job q jid task prio lane prov now) (db_jobs db)))"
    using assms(2) by (simp add: queue_inv_iff jobs_ok_reclassify jobs_ok_insert job_ok_new_job)
  then show ?thesis
    using 1(6) assms(2) by (auto simp: queue_inv_iff jobs_ok_reopen)
qed

lemma insert_job_keeps: "j \<in> set jobs \<Longrightarrow> j \<in> set (insert_job new jobs)"
  by (simp add: insert_job_def sql_insert_ignore_def)

lemma enqueue_job_keeps_row:
  assumes "enqueue_job P q now db = Inr (jid, db')" "j \<in> set (db_jobs db)"
    "\<not> queued_or_backing_off j" "j_state j = COMPLETED \<Longrightarrow> \<not> eq_reopen_completed q \<or> j_id j \<noteq> jid"
  shows "j \<in> set (db_jobs db')"
  using assms(1)
proof (cases rule: enqueue_jobE)
  case (1 task prio lane prov)
  let ?new = "new_job q jid task prio lane prov now"
  let ?r = "reclassify_job jid lane prio prov (insert_job ?new (db_jobs db))"
  have r: "j \<in> set ?r" unfolding reclassify_job_def
    by (rule sql_update_memI(2) [OF insert_job_keeps [OF assms(2)]]) (use assms(3) in simp)
  show ?thesis
  proof (cases "eq_reopen_completed q")
    case True
    have "j \<in> set (reopen_job jid now ?r)" unfolding reopen_job_def
      by (rule sql_update_memI(2) [OF r]) (use assms(4) True in auto)
    with 1(6) True show ?thesis by simp
  next
    case False
    with 1(6) r show ?thesis by simp
  qed
qed

text \<open>Enqueueing the same work again adds no row.\<close>

definition conflicts :: "job \<Rightarrow> job list \<Rightarrow> bool" where
  "conflicts new jobs \<longleftrightarrow> (\<exists>j \<in> set jobs. j_id j = j_id new \<or> job_identity j = job_identity new)"

lemma insert_job_length:
  "length (insert_job new jobs) = (if conflicts new jobs then length jobs else Suc (length jobs))"
  by (auto simp: insert_job_def sql_insert_ignore_def list_ex_iff conflicts_def)

lemma insert_job_new: "\<not> conflicts new jobs \<Longrightarrow> insert_job new jobs = jobs @ [new]"
  by (auto simp: insert_job_def sql_insert_ignore_def list_ex_iff conflicts_def)

lemma conflicts_insert: "conflicts new (insert_job new jobs)"
  by (auto simp: insert_job_def sql_insert_ignore_def list_ex_iff conflicts_def)

lemma conflicts_update:
  assumes "\<And>j. j_id (f j) = j_id j" "\<And>j. job_identity (f j) = job_identity j"
  shows "conflicts new (sql_update p f jobs) \<longleftrightarrow> conflicts new jobs"
proof -
  have pairs: "conflicts new xs \<longleftrightarrow>
      (\<exists>(a, b) \<in> set (map (\<lambda>j. (j_id j, job_identity j)) xs). a = j_id new \<or> b = job_identity new)" for xs
    by (auto simp: conflicts_def)
  have "map (\<lambda>j. (j_id j, job_identity j)) (sql_update p f jobs) = map (\<lambda>j. (j_id j, job_identity j)) jobs"
    by (rule map_sql_update) (simp add: assms)
  then show ?thesis by (simp only: pairs)
qed

lemma conflicts_new_job:
  "conflicts (new_job q jid task prio lane prov now) jobs \<longleftrightarrow>
   conflicts (new_job q jid task prio' lane' prov' now') jobs"
  by (simp add: conflicts_def new_job_def job_identity_def)

lemma reclassify_conflicts [simp]:
  "conflicts new (reclassify_job jid lane prio prov jobs) = conflicts new jobs"
  unfolding reclassify_job_def by (rule conflicts_update) (simp_all add: job_identity_def)

lemma reopen_conflicts [simp]: "conflicts new (reopen_job jid now jobs) = conflicts new jobs"
  unfolding reopen_job_def by (rule conflicts_update) (simp_all add: job_identity_def)

lemma length_enqueue:
  assumes "enqueue_job P q now db = Inr (jid, db')"
  shows "length (db_jobs db) \<le> length (db_jobs db')" "length (db_jobs db') \<le> Suc (length (db_jobs db))"
  using assms
  by (cases rule: enqueue_jobE;
      simp add: reclassify_job_def reopen_job_def length_sql_update insert_job_length)+

lemma enqueue_again_length:
  assumes "enqueue_job P q now db = Inr (jid, db1)" "enqueue_job P q now' db1 = Inr (jid', db2)"
  shows "length (db_jobs db2) = length (db_jobs db1)"
  using assms(1)
proof (cases rule: enqueue_jobE)
  case (1 task prio lane prov)
  have c: "conflicts (new_job q jid task prio lane prov now) (db_jobs db1)"
    by (simp add: 1(6) conflicts_insert)
  from assms(2) show ?thesis
  proof (cases rule: enqueue_jobE)
    case inner: (1 task' prio' lane' prov')
    have "task' = task" "jid' = jid" using 1(1,5) inner(1,5) by simp_all
    with c have "conflicts (new_job q jid' task' prio' lane' prov' now') (db_jobs db1)"
      using conflicts_new_job by metis
    then show ?thesis
      by (simp add: inner(6) reclassify_job_def reopen_job_def length_sql_update insert_job_length)
  qed
qed

section \<open>What a claim does\<close>

lemma requeue_ids [table_simps]: "map j_id (requeue_expired now jobs) = map j_id jobs"
  unfolding requeue_expired_def by (rule map_sql_update) simp

lemma requeue_keeps_unexpired:
  "j \<in> set jobs \<Longrightarrow> j_lease_expires_at j = Some e \<Longrightarrow> now < e \<Longrightarrow> j \<in> set (requeue_expired now jobs)"
  unfolding requeue_expired_def by (rule sql_update_memI(2)) auto

lemma requeue_keeps_other:
  "j \<in> set jobs \<Longrightarrow> j_state j \<noteq> LEASED \<Longrightarrow> j \<in> set (requeue_expired now jobs)"
  unfolding requeue_expired_def by (rule sql_update_memI(2)) auto

text \<open>A row of the requeued table comes from a row that only its lease can distinguish from it.\<close>

lemma requeue_origin:
  assumes "j \<in> set (requeue_expired now jobs)"
  obtains "j \<in> set jobs"
  | (expired) j0 e where "j0 \<in> set jobs" "j_state j0 = LEASED" "j_lease_expires_at j0 = Some e" "e \<le> now"
      "j = j0\<lparr>j_state := QUEUED, j_lease_owner := None, j_lease_expires_at := None, j_updated_at := now\<rparr>"
  using assms unfolding requeue_expired_def
  by (elim sql_updateE) (auto split: option.splits)

lemma set_override_columns:
  "set (override_columns ros j) =
     (if active_overrides ros j = [] then {None} else Some ` set (active_overrides ros j))"
  by (cases "active_overrides ros j") (simp_all add: override_columns_def)

lemma set_join_overrides:
  "(j, ro) \<in> set (join_overrides ros jobs) \<longleftrightarrow> j \<in> set jobs \<and> ro \<in> set (override_columns ros j)"
  by (auto simp: join_overrides_def)

lemma join_overrides_ex: "j \<in> set jobs \<Longrightarrow> \<exists>ro. (j, ro) \<in> set (join_overrides ros jobs)"
proof -
  have "set (override_columns ros j) \<noteq> {}" by (simp add: set_override_columns)
  then show "j \<in> set jobs \<Longrightarrow> ?thesis" by (simp add: set_join_overrides ex_in_conv)
qed

lemma select_claim_None_iff: "select_claim q ros jobs = None \<longleftrightarrow> (\<forall>j \<in> set jobs. \<not> claimable q j)"
proof -
  have "select_claim q ros jobs = None \<longleftrightarrow>
      (\<forall>jr \<in> set (join_overrides ros jobs). \<not> claimable q (fst jr))"
    by (simp add: select_claim_def sql_first_None_iff)
  also have "\<dots> \<longleftrightarrow> (\<forall>j \<in> set jobs. \<not> claimable q j)"
    using join_overrides_ex by (metis fst_conv prod.collapse set_join_overrides)
  finally show ?thesis .
qed

lemma select_claim_SomeD:
  assumes "select_claim q ros jobs = Some j"
  shows "j \<in> set jobs" "claimable q j"
    "\<exists>ro. (j, ro) \<in> set (join_overrides ros jobs) \<and>
       (\<forall>jr' \<in> set (join_overrides ros jobs). claimable q (fst jr') \<longrightarrow>
          claim_key (cq_now q) (j, ro) \<le> claim_key (cq_now q) jr')"
proof -
  from assms obtain jr where jr: "sql_first (claim_key (cq_now q)) (\<lambda>jr. claimable q (fst jr))
      (join_overrides ros jobs) = Some jr" and j: "fst jr = j"
    by (auto simp: select_claim_def)
  note D = sql_first_SomeD [OF jr]
  show "j \<in> set jobs" using D(1) j by (metis prod.collapse set_join_overrides)
  show "claimable q j" using D(2) j by simp
  show "\<exists>ro. (j, ro) \<in> set (join_overrides ros jobs) \<and>
       (\<forall>jr' \<in> set (join_overrides ros jobs). claimable q (fst jr') \<longrightarrow>
          claim_key (cq_now q) (j, ro) \<le> claim_key (cq_now q) jr')"
    using D(1,3) j by (intro exI [of _ "snd jr"]) auto
qed

definition leased_row :: "string \<Rightarrow> instant \<Rightarrow> instant \<Rightarrow> job \<Rightarrow> job" where
  "leased_row worker expires now j =
     j\<lparr>j_state := LEASED, j_lease_owner := Some worker, j_lease_expires_at := Some expires,
       j_attempt_count := j_attempt_count j + 1, j_updated_at := now\<rparr>"

lemma lease_job_alt: "lease_job jid worker e now jobs =
    sql_update (\<lambda>j. j_id j = jid \<and> queued_or_backing_off j) (leased_row worker e now) jobs"
  unfolding lease_job_def leased_row_def [abs_def] by (rule refl)

lemma leased_row_simps [simp]:
  "j_id (leased_row w e n j) = j_id j" "j_state (leased_row w e n j) = LEASED"
  "j_lease_owner (leased_row w e n j) = Some w" "j_lease_expires_at (leased_row w e n j) = Some e"
  "j_attempt_count (leased_row w e n j) = j_attempt_count j + 1" "j_task (leased_row w e n j) = j_task j"
  "j_lane (leased_row w e n j) = j_lane j" "j_priority (leased_row w e n j) = j_priority j"
  by (simp_all add: leased_row_def)

text \<open>The shape of every claim: nothing to do, or exactly one row leased.\<close>

lemma claim_lockedE:
  assumes "claim_locked q worker ls db = (r, db')" "distinct (map j_id (db_jobs db))"
  obtains (none) "r = None" "select_claim q (db_overrides db) (requeue_expired (cq_now q) (db_jobs db)) = None"
      "db' = db\<lparr>db_jobs := requeue_expired (cq_now q) (db_jobs db)\<rparr>"
  | (claimed) row where
      "select_claim q (db_overrides db) (requeue_expired (cq_now q) (db_jobs db)) = Some row"
      "r = Some (job_from_row (leased_row worker (cq_now q + seconds (max 30 ls)) (cq_now q) row))"
      "db' = db\<lparr>db_jobs := lease_job (j_id row) worker (cq_now q + seconds (max 30 ls)) (cq_now q)
                            (requeue_expired (cq_now q) (db_jobs db)),
               db_overrides := deactivate_overrides (j_id row) (db_overrides db)\<rparr>"
proof (cases "select_claim q (db_overrides db) (requeue_expired (cq_now q) (db_jobs db))")
  case None
  with assms(1) show ?thesis by (intro none) (auto simp: claim_locked_def Let_def)
next
  case (Some row)
  let ?now = "cq_now q"
  let ?jobs = "requeue_expired ?now (db_jobs db)"
  let ?e = "?now + seconds (max 30 ls)"
  note D = select_claim_SomeD(1,2) [OF Some]
  have dist: "distinct (map j_id ?jobs)" using assms(2) by (simp add: requeue_ids)
  have qb: "queued_or_backing_off row" using D(2) by (simp add: claimable_def)
  have one: "sql_count (\<lambda>j. j_id j = j_id row \<and> queued_or_backing_off j) ?jobs = 1"
    by (rule sql_count_unique [OF dist D(1)]) (use qb in auto)
  have upd: "leased_row worker ?e ?now row \<in> set (lease_job (j_id row) worker ?e ?now ?jobs)"
    unfolding lease_job_alt by (rule sql_update_memI(1) [OF D(1)]) (use qb in simp)
  have dist': "distinct (map j_id (lease_job (j_id row) worker ?e ?now ?jobs))"
    unfolding lease_job_alt using dist by (simp add: map_sql_update)
  have "find (\<lambda>j. j_id j = j_id row) (lease_job (j_id row) worker ?e ?now ?jobs)
      = Some (leased_row worker ?e ?now row)"
    using find_distinct [OF dist' upd] by simp
  with Some one assms(1) show ?thesis
    by (intro claimed [OF Some]) (auto simp: claim_locked_def Let_def)
qed

lemma claim_locked_inv:
  assumes "claim_locked q worker ls db = (r, db')" "queue_inv db"
  shows "queue_inv db'"
proof -
  have "distinct (map j_id (db_jobs db))" using assms(2) by (simp add: queue_inv_def)
  with assms(1) show ?thesis
  proof (cases rule: claim_lockedE)
    case none
    with assms(2) show ?thesis by (simp add: queue_inv_iff jobs_ok_requeue)
  next
    case (claimed row)
    with assms(2) show ?thesis
      by (simp add: queue_inv_iff jobs_ok_requeue jobs_ok_lease one_active_deactivate)
  qed
qed

lemma claim_locked_keeps_row:
  assumes "claim_locked q worker ls db = (r, db')" "distinct (map j_id (db_jobs db))"
    "j \<in> set (db_jobs db)" "\<not> queued_or_backing_off j"
    "j_state j = LEASED \<Longrightarrow> \<exists>e. j_lease_expires_at j = Some e \<and> cq_now q < e"
  shows "j \<in> set (db_jobs db')"
proof -
  have kept: "j \<in> set (requeue_expired (cq_now q) (db_jobs db))"
    using assms(3,5) requeue_keeps_unexpired requeue_keeps_other by metis
  from assms(1,2) show ?thesis
  proof (cases rule: claim_lockedE)
    case none
    with kept show ?thesis by simp
  next
    case (claimed row)
    have "j \<in> set (lease_job (j_id row) worker (cq_now q + seconds (max 30 ls)) (cq_now q)
                  (requeue_expired (cq_now q) (db_jobs db)))"
      unfolding lease_job_def by (rule sql_update_memI(2) [OF kept]) (use assms(4) in simp)
    with claimed show ?thesis by simp
  qed
qed

lemma claim_query_ofE:
  assumes "claim_query_of a now = Inr (Some q)"
  obtains tasks excluded lanes where
    "traverse task_of (dedupe (case cl_task_types a of None \<Rightarrow> map task_name TASKS | Some ts \<Rightarrow> ts)) = Some tasks"
    "traverse task_of (cl_excluded a) = Some excluded"
    "traverse lane_of (dedupe (cl_lanes a)) = Some lanes" "lanes \<noteq> []"
    "filter (\<lambda>t. t \<notin> set excluded) tasks \<noteq> []"
    "q = \<lparr>cq_tasks = filter (\<lambda>t. t \<notin> set excluded) tasks, cq_lanes = lanes,
          cq_preemptible = (cl_pool a = PREEMPTIBLE_POOL), cq_now = now,
          cq_queued_before = cl_queued_before a\<rparr>"
  using assms
  by (auto simp: claim_query_of_def Let_def split: if_splits option.splits)

lemma claim_query_now: "claim_query_of a now = Inr (Some q) \<Longrightarrow> cq_now q = now"
  by (erule claim_query_ofE) simp

lemma claim_query_requested:
  assumes "claim_query_of a now = Inr (Some q)"
  shows "cq_preemptible q \<longleftrightarrow> cl_pool a = PREEMPTIBLE_POOL" "cq_queued_before q = cl_queued_before a"
    "l \<in> set (cq_lanes q) \<Longrightarrow> lane_name l \<in> set (cl_lanes a)"
    "t \<in> set (cq_tasks q) \<Longrightarrow> task_name t \<notin> set (cl_excluded a)"
    "t \<in> set (cq_tasks q) \<Longrightarrow> cl_task_types a = Some ts \<Longrightarrow> task_name t \<in> set ts"
  using assms
  by (cases rule: claim_query_ofE;
      force simp: traverse_set dest: task_of_SomeD lane_of_SomeD)+

lemma claim_jobE:
  assumes "claim_job a now db = Inr (r, db')"
  obtains (nothing) "claim_query_of a now = Inr None" "r = None" "db' = db"
  | (locked) q where "claim_query_of a now = Inr (Some q)" "cq_now q = now"
     "claim_locked q (cl_worker a) (cl_lease_seconds a) db = (r, db')"
proof -
  from assms obtain x where x: "claim_query_of a now = Inr x"
    and r: "(case x of None \<Rightarrow> Inr (None, db)
        | Some q \<Rightarrow> Inr (claim_locked q (cl_worker a) (cl_lease_seconds a) db))
        = (Inr (r, db') :: (scheduled_job option \<times> scheduler_db) outcome)"
    by (auto simp: claim_job_def bind_out_Inr_iff)
  show ?thesis
  proof (cases x)
    case None
    with r have "r = None" "db' = db" by simp_all
    moreover from x None have "claim_query_of a now = Inr None" by simp
    ultimately show ?thesis using that(1) by blast
  next
    case (Some q)
    with x r show ?thesis by (auto intro: locked [of q] dest: claim_query_now)
  qed
qed

lemma claim_job_inv: "claim_job a now db = Inr (r, db') \<Longrightarrow> queue_inv db \<Longrightarrow> queue_inv db'"
  by (erule claim_jobE) (auto dest: claim_locked_inv)

lemma claim_job_keeps_row:
  assumes "claim_job a now db = Inr (r, db')" "distinct (map j_id (db_jobs db))"
    "j \<in> set (db_jobs db)" "\<not> queued_or_backing_off j"
    "j_state j = LEASED \<Longrightarrow> \<exists>e. j_lease_expires_at j = Some e \<and> now < e"
  shows "j \<in> set (db_jobs db')"
  using assms(1)
proof (cases rule: claim_jobE)
  case nothing
  with assms(3) show ?thesis by simp
next
  case (locked q)
  show ?thesis by (rule claim_locked_keeps_row [OF locked(3) assms(2,3,4)]) (use assms(5) locked(2) in simp)
qed

section \<open>What a transition of a leased job does\<close>

lemma owns_lease_unique:
  assumes "distinct (map j_id jobs)" "j \<in> set jobs" "owns_lease jid worker j"
  shows "sql_count (owns_lease jid worker) jobs = 1"
  using assms by (rule sql_count_unique [where key = j_id]) (use assms(3) in \<open>simp add: owns_lease_def\<close>)

lemma transition_Inr_iff:
  assumes "distinct (map j_id (db_jobs db))"
  shows "(\<exists>db'. transition_leased_job jid worker st av err co clock db = Inr db') \<longleftrightarrow>
     (\<exists>j \<in> set (db_jobs db). owns_lease jid worker j)"
proof -
  have "sql_count (owns_lease jid worker) (db_jobs db) = 1 \<longleftrightarrow>
      (\<exists>j \<in> set (db_jobs db). owns_lease jid worker j)"
    using owns_lease_unique [OF assms] sql_count_pos_iff [of "owns_lease jid worker" "db_jobs db"]
    by (metis zero_less_one)
  then show ?thesis by (simp add: transition_leased_job_def)
qed

definition moved_row :: "job_state \<Rightarrow> instant \<Rightarrow> string option \<Rightarrow> instant option \<Rightarrow> instant \<Rightarrow> job \<Rightarrow> job" where
  "moved_row st available err completed clock j =
     j\<lparr>j_state := st, j_available_at := available, j_lease_owner := None, j_lease_expires_at := None,
       j_last_error := err, j_updated_at := clock, j_completed_at := completed\<rparr>"

lemma transitionE:
  assumes "transition_leased_job jid worker st av err co clock db = Inr db'"
  obtains j where "j \<in> set (db_jobs db)" "owns_lease jid worker j"
    "db' = db\<lparr>db_jobs := sql_update (owns_lease jid worker) (moved_row st av err co clock) (db_jobs db)\<rparr>"
proof -
  from assms have c: "sql_count (owns_lease jid worker) (db_jobs db) = 1"
    and d: "db' = db\<lparr>db_jobs := sql_update (owns_lease jid worker) (moved_row st av err co clock) (db_jobs db)\<rparr>"
    unfolding transition_leased_job_def moved_row_def [abs_def] by (auto split: if_splits)
  from c obtain j where "j \<in> set (db_jobs db)" "owns_lease jid worker j"
    using sql_count_pos_iff [of "owns_lease jid worker" "db_jobs db"] by force
  with d that show ?thesis by blast
qed

lemma transition_inv:
  assumes "transition_leased_job jid worker st av err co clock db = Inr db'" "queue_inv db"
    "st \<noteq> LEASED" "co \<noteq> None \<longleftrightarrow> terminal_state st"
  shows "queue_inv db'"
  using assms(1)
proof (cases rule: transitionE)
  case (1 j)
  have "jobs_ok (sql_update (owns_lease jid worker) (moved_row st av err co clock) (db_jobs db))"
    by (rule jobs_ok_update)
      (use assms(2-4) in \<open>auto simp: queue_inv_iff moved_row_def job_identity_def job_inv_defs\<close>)
  with 1(3) assms(2) show ?thesis by (simp add: queue_inv_iff)
qed

lemma transition_keeps_row:
  assumes "transition_leased_job jid worker st av err co clock db = Inr db'"
    "j \<in> set (db_jobs db)" "\<not> owns_lease jid worker j"
  shows "j \<in> set (db_jobs db')"
  using assms(1) by (cases rule: transitionE) (use assms(2,3) in \<open>auto intro: sql_update_memI(2)\<close>)

lemma complete_job_inv: "complete_job jid w now clock db = Inr db' \<Longrightarrow> queue_inv db \<Longrightarrow> queue_inv db'"
  unfolding complete_job_def by (erule transition_inv) (simp_all add: terminal_state_def)

lemma release_job_inv: "release_job jid w av err clock db = Inr db' \<Longrightarrow> queue_inv db \<Longrightarrow> queue_inv db'"
  unfolding release_job_def by (erule transition_inv) (simp_all add: terminal_state_def)

lemma backoff_job_inv: "backoff_job jid w av err t clock db = Inr db' \<Longrightarrow> queue_inv db \<Longrightarrow> queue_inv db'"
  unfolding backoff_job_def by (erule transition_inv) (simp_all add: terminal_state_def)

definition deferred_row :: "instant \<Rightarrow> string \<Rightarrow> instant \<Rightarrow> job \<Rightarrow> job" where
  "deferred_row available reason clock j =
     j\<lparr>j_state := QUEUED, j_available_at := available, j_lease_owner := None,
       j_lease_expires_at := None, j_last_error := Some reason, j_updated_at := clock,
       j_attempt_count := j_attempt_count j - 1\<rparr>"

lemma deferE:
  assumes "defer_job_for_maintenance jid worker av reason clock db = Inr db'"
  obtains j where "j \<in> set (db_jobs db)" "owns_lease jid worker j" "0 < j_attempt_count j"
    "db' = db\<lparr>db_jobs := sql_update (\<lambda>j. owns_lease jid worker j \<and> 0 < j_attempt_count j)
                (deferred_row av reason clock) (db_jobs db)\<rparr>"
proof -
  let ?hit = "\<lambda>j. owns_lease jid worker j \<and> 0 < j_attempt_count j"
  from assms have c: "sql_count ?hit (db_jobs db) = 1"
    and d: "db' = db\<lparr>db_jobs := sql_update ?hit (deferred_row av reason clock) (db_jobs db)\<rparr>"
    unfolding defer_job_for_maintenance_def deferred_row_def [abs_def] Let_def
    by (auto split: if_splits)
  from c obtain j where "j \<in> set (db_jobs db)" "?hit j"
    using sql_count_pos_iff [of ?hit "db_jobs db"] by force
  with d that show ?thesis by blast
qed

lemma defer_job_inv:
  assumes "defer_job_for_maintenance jid w av reason clock db = Inr db'" "queue_inv db"
  shows "queue_inv db'"
  using assms(1)
proof (cases rule: deferE)
  case (1 j)
  have "jobs_ok (sql_update (\<lambda>j. owns_lease jid w j \<and> 0 < j_attempt_count j)
          (deferred_row av reason clock) (db_jobs db))"
    by (rule jobs_ok_update)
      (use assms(2) in \<open>auto simp: queue_inv_iff deferred_row_def job_identity_def job_inv_defs owns_lease_def\<close>)
  with 1(4) assms(2) show ?thesis by (simp add: queue_inv_iff)
qed

lemma record_attempt_frame:
  "record_job_attempt P sj cr st t db = Inr db' \<Longrightarrow> db_jobs db' = db_jobs db \<and> db_overrides db' = db_overrides db"
  by (auto simp: record_job_attempt_def Let_def split: if_splits)

lemma record_deferral_frame:
  "record_scheduler_deferral P sj cr st t db = Inr db' \<Longrightarrow>
     db_jobs db' = db_jobs db \<and> db_overrides db' = db_overrides db"
  by (auto simp: record_scheduler_deferral_def Let_def split: if_splits)

section \<open>Properties of the queue\<close>

lemma claim_Some_row:
  assumes "claim_job a now db = Inr (Some sj, db')" "queue_inv db"
  obtains q row where
    "claim_query_of a now = Inr (Some q)" "cq_now q = now"
    "select_claim q (db_overrides db) (requeue_expired now (db_jobs db)) = Some row"
    "sj = job_from_row (leased_row (cl_worker a) (now + seconds (max 30 (cl_lease_seconds a))) now row)"
    "leased_row (cl_worker a) (now + seconds (max 30 (cl_lease_seconds a))) now row \<in> set (db_jobs db')"
    "row \<in> set (requeue_expired now (db_jobs db))" "claimable q row"
    "db_jobs db' = lease_job (j_id row) (cl_worker a) (now + seconds (max 30 (cl_lease_seconds a))) now
        (requeue_expired now (db_jobs db))"
    "db_overrides db' = deactivate_overrides (j_id row) (db_overrides db)"
proof -
  have dist: "distinct (map j_id (db_jobs db))" using assms(2) by (simp add: queue_inv_def)
  from assms(1) show ?thesis
  proof (cases rule: claim_jobE)
    case nothing
    then show ?thesis by simp
  next
    case (locked q)
    from locked(3) dist show ?thesis
    proof (cases rule: claim_lockedE)
      case none
      then show ?thesis by simp
    next
      case (claimed row)
      note D = select_claim_SomeD(1,2) [OF claimed(1)]
      have "leased_row (cl_worker a) (now + seconds (max 30 (cl_lease_seconds a))) now row
          \<in> set (db_jobs db')"
        unfolding claimed(3) lease_job_alt locked(2)
        by (simp, rule sql_update_memI(1)) (use D locked(2) in \<open>auto simp: claimable_def\<close>)
      with locked claimed D that show ?thesis by (auto simp: locked(2))
    qed
  qed
qed

lemma claim_lease_row:
  assumes "claim_job a now db = Inr (Some sj, db')" "queue_inv db"
  shows "\<exists>j0 \<in> set (db_jobs db). \<exists>j \<in> set (db_jobs db'). j_id j0 = sj_id sj \<and> j_id j = sj_id sj \<and>
     owns_lease (sj_id sj) (cl_worker a) j \<and> j_attempt_count j = j_attempt_count j0 + 1"
  using assms
proof (cases rule: claim_Some_row)
  case (1 q row)
  from 1(6) obtain j0 where "j0 \<in> set (db_jobs db)" "j_id j0 = j_id row" "j_attempt_count j0 = j_attempt_count row"
    by (elim requeue_origin) auto
  with 1(4,5) show ?thesis
    by (intro bexI [of _ j0] bexI [OF _ 1(5)]) (simp_all add: job_from_row_def owns_lease_def)
qed

text \<open>
  The table after a claim, row by row: the requeue followed by the lease is one pass over the
  table, because identifiers are unique.
\<close>

lemma lease_after_requeue:
  assumes "distinct (map j_id jobs)" "row \<in> set (requeue_expired now jobs)" "queued_or_backing_off row"
  shows "lease_job (j_id row) w e now (requeue_expired now jobs) =
     map (\<lambda>k. if j_id k = j_id row then leased_row w e now k
               else if j_state k = LEASED \<and> (\<exists>x. j_lease_expires_at k = Some x \<and> x \<le> now)
               then k\<lparr>j_state := QUEUED, j_lease_owner := None, j_lease_expires_at := None, j_updated_at := now\<rparr>
               else k) jobs"
proof -
  let ?r = "\<lambda>k. if j_state k = LEASED \<and> (case j_lease_expires_at k of None \<Rightarrow> False | Some x \<Rightarrow> x \<le> now)
     then k\<lparr>j_state := QUEUED, j_lease_owner := None, j_lease_expires_at := None, j_updated_at := now\<rparr> else k"
  have row: "?r k = row" if k: "k \<in> set jobs" "j_id k = j_id row" for k
  proof -
    have "?r k \<in> set (requeue_expired now jobs)" "j_id (?r k) = j_id row"
      using k by (auto simp: requeue_expired_def sql_update_def)
    moreover have "distinct (map j_id (requeue_expired now jobs))" using assms(1) by (simp only: requeue_ids)
    ultimately show ?thesis using assms(2) by (simp add: distinct_map inj_on_def)
  qed
  have "lease_job (j_id row) w e now (requeue_expired now jobs) =
      map (\<lambda>k. if j_id (?r k) = j_id row \<and> queued_or_backing_off (?r k) then leased_row w e now (?r k) else ?r k) jobs"
    by (simp add: lease_job_alt requeue_expired_def sql_update_def o_def)
  also have "\<dots> = map (\<lambda>k. if j_id k = j_id row then leased_row w e now k
               else if j_state k = LEASED \<and> (\<exists>x. j_lease_expires_at k = Some x \<and> x \<le> now)
               then k\<lparr>j_state := QUEUED, j_lease_owner := None, j_lease_expires_at := None, j_updated_at := now\<rparr>
               else k) jobs"
  proof (rule map_cong [OF refl])
    fix k assume k: "k \<in> set jobs"
    show "(if j_id (?r k) = j_id row \<and> queued_or_backing_off (?r k) then leased_row w e now (?r k) else ?r k) =
      (if j_id k = j_id row then leased_row w e now k
       else if j_state k = LEASED \<and> (\<exists>x. j_lease_expires_at k = Some x \<and> x \<le> now)
       then k\<lparr>j_state := QUEUED, j_lease_owner := None, j_lease_expires_at := None, j_updated_at := now\<rparr>
       else k)"
    proof (cases "j_id k = j_id row")
      case True
      then have "queued_or_backing_off (?r k)" using row [OF k True] assms(3) by (simp only:)
      moreover have "leased_row w e now (?r k) = leased_row w e now k" by (simp add: leased_row_def)
      ultimately show ?thesis using True by simp
    next
      case False
      then show ?thesis by (auto split: option.splits)
    qed
  qed
  finally show ?thesis .
qed

text \<open>
  C1: a claim that returns a job has leased exactly that job to the calling worker for the
  requested time (30 seconds at least), has counted one attempt, and took it from a row that was
  queued, backing off or under an expired lease, that was due and that satisfies the lane, task
  exclusion and urgency restrictions of the caller.  The job it returns is the leased row, its
  operator overrides are used up, the other rows whose lease has expired are queued again, and
  every other row of the table is untouched.
\<close>

theorem claim_grants_one_lease:
  assumes "claim_job a now db = Inr (Some sj, db')" "queue_inv db"
  shows "\<exists>j0 \<in> set (db_jobs db). \<exists>j \<in> set (db_jobs db').
      j_id j0 = sj_id sj \<and> j_id j = sj_id sj \<and> j_state j = LEASED \<and>
      j_lease_owner j = Some (cl_worker a) \<and>
      j_lease_expires_at j = Some (now + seconds (max 30 (cl_lease_seconds a))) \<and>
      j_attempt_count j = j_attempt_count j0 + 1 \<and> sj = job_from_row j \<and>
      (queued_or_backing_off j0 \<or>
        (j_state j0 = LEASED \<and> (\<exists>e. j_lease_expires_at j0 = Some e \<and> e \<le> now))) \<and>
      j_available_at j0 \<le> now \<and> lane_name (j_lane j0) \<in> set (cl_lanes a) \<and>
      task_name (j_task j0) \<notin> set (cl_excluded a) \<and>
      (cl_pool a = PREEMPTIBLE_POOL \<longrightarrow> urgent_priority (j_priority j0)) \<and>
      db_jobs db' = map (\<lambda>k.
         if j_id k = sj_id sj
         then k\<lparr>j_state := LEASED, j_lease_owner := Some (cl_worker a),
                j_lease_expires_at := Some (now + seconds (max 30 (cl_lease_seconds a))),
                j_attempt_count := j_attempt_count k + 1, j_updated_at := now\<rparr>
         else if j_state k = LEASED \<and> (\<exists>e. j_lease_expires_at k = Some e \<and> e \<le> now)
         then k\<lparr>j_state := QUEUED, j_lease_owner := None, j_lease_expires_at := None, j_updated_at := now\<rparr>
         else k) (db_jobs db) \<and>
      db_overrides db' =
        map (\<lambda>r. if ro_job r = sj_id sj then r\<lparr>ro_active := False\<rparr> else r) (db_overrides db)"
  using assms
proof (cases rule: claim_Some_row)
  case (1 q row)
  have dist: "distinct (map j_id (db_jobs db))" using assms(2) by (simp add: queue_inv_def)
  have due: "j_available_at row \<le> now" "lane_name (j_lane row) \<in> set (cl_lanes a)"
    "task_name (j_task row) \<notin> set (cl_excluded a)" "queued_or_backing_off row"
    "cl_pool a = PREEMPTIBLE_POOL \<longrightarrow> urgent_priority (j_priority row)"
    using 1(2,7) claim_query_requested [OF 1(1)] by (auto simp: claimable_def)
  from 1(6) obtain j0 where j0: "j0 \<in> set (db_jobs db)" "j_id j0 = j_id row"
    "j_attempt_count j0 = j_attempt_count row" "j_available_at j0 = j_available_at row"
    "j_lane j0 = j_lane row" "j_task j0 = j_task row" "j_priority j0 = j_priority row"
    "queued_or_backing_off j0 \<or> (j_state j0 = LEASED \<and> (\<exists>e. j_lease_expires_at j0 = Some e \<and> e \<le> now))"
    using due(4) by (elim requeue_origin) auto
  have sj: "sj_id sj = j_id row" by (simp add: 1(4) job_from_row_def)
  have table: "db_jobs db' = map (\<lambda>k.
         if j_id k = sj_id sj
         then leased_row (cl_worker a) (now + seconds (max 30 (cl_lease_seconds a))) now k
         else if j_state k = LEASED \<and> (\<exists>e. j_lease_expires_at k = Some e \<and> e \<le> now)
         then k\<lparr>j_state := QUEUED, j_lease_owner := None, j_lease_expires_at := None, j_updated_at := now\<rparr>
         else k) (db_jobs db)"
    unfolding 1(8) sj by (rule lease_after_requeue [OF dist 1(6) due(4)])
  have overrides: "db_overrides db' =
        map (\<lambda>r. if ro_job r = sj_id sj then r\<lparr>ro_active := False\<rparr> else r) (db_overrides db)"
    unfolding 1(9) sj by (auto simp: deactivate_overrides_def sql_update_def)
  show ?thesis
    by (rule bexI [OF _ j0(1)], rule bexI [OF _ 1(5)])
      (use j0 due sj 1(4) table [unfolded leased_row_def] overrides in simp)
qed

lemma claim_single:
  assumes "claim_query_of a now = Inr (Some q)" "db_jobs db = [j]" "db_overrides db = []" "claimable q j"
  shows "claim_job a now db =
     Inr (Some (job_from_row (leased_row (cl_worker a) (now + seconds (max 30 (cl_lease_seconds a))) now j)),
          db\<lparr>db_jobs := [leased_row (cl_worker a) (now + seconds (max 30 (cl_lease_seconds a))) now j]\<rparr>)"
proof -
  have now: "cq_now q = now" by (rule claim_query_now [OF assms(1)])
  have qb: "queued_or_backing_off j" using assms(4) by (simp add: claimable_def)
  then have jobs: "requeue_expired now [j] = [j]"
    by (auto simp: requeue_expired_def sql_update_def queued_or_backing_off_def)
  have sel: "select_claim q [] [j] = Some j"
    using assms(4) by (simp add: select_claim_def sql_first_def join_overrides_def override_columns_def
        active_overrides_def)
  show ?thesis
    using assms qb jobs sel now
    by (simp add: claim_job_def claim_locked_def Let_def sql_count_def lease_job_alt sql_update_def
        deactivate_overrides_def)
qed

definition sample_claim :: claim_args where
  "sample_claim = \<lparr>cl_worker = ''w'', cl_pool = ROUTINE_POOL, cl_task_types = None, cl_excluded = [],
     cl_lanes = [''LIVE'', ''CONTRACT_BACKFILL''], cl_lease_seconds = 180, cl_queued_before = None\<rparr>"

definition sample_query :: claim_query where
  "sample_query = \<lparr>cq_tasks = TASKS, cq_lanes = WORK_LANES, cq_preemptible = False,
     cq_now = seconds 10, cq_queued_before = None\<rparr>"

definition sample_leased :: job where
  "sample_leased = leased_row ''w'' (seconds 190) (seconds 10) sample_job"

definition sample_backfill_job :: job where
  "sample_backfill_job = sample_job\<lparr>j_lane := CONTRACT_BACKFILL, j_priority := BACKGROUND\<rparr>"

lemmas sample_defs = sample_job_def sample_db_def empty_db_def sample_leased_def sample_backfill_job_def

lemma sample_claim_fields [simp]:
  "cl_worker sample_claim = ''w''" "cl_lease_seconds sample_claim = 180"
  by (simp_all add: sample_claim_def)

lemma sample_query_ok: "claim_query_of sample_claim (seconds 10) = Inr (Some sample_query)"
  by (simp add: claim_query_of_def sample_claim_def sample_query_def ROUTINE_POOL_def
      PREEMPTIBLE_POOL_def strip_def is_space_def dedupe_def TASKS_def WORK_LANES_def task_of_def
      lane_of_def of_name_def)

lemma sample_claimable: "claimable sample_query sample_job" "claimable sample_query sample_backfill_job"
  by (simp_all add: claimable_def queued_or_backing_off_def provenance_admits_def sample_defs
      sample_query_def TASKS_def WORK_LANES_def)

lemma sample_requeue:
  "requeue_expired now [sample_job] = [sample_job]"
  "requeue_expired now [sample_backfill_job] = [sample_backfill_job]"
  by (simp_all add: requeue_expired_def sql_update_def sample_defs)

lemma sample_inv: "queue_inv sample_db" "queue_inv (sample_db\<lparr>db_jobs := [sample_backfill_job]\<rparr>)"
  by (simp_all add: queue_inv_def sample_defs job_ok_def lease_ok_def terminal_state_def
      one_active_override_def)

lemma sample_claimed:
  "claim_job sample_claim (seconds 10) sample_db =
     Inr (Some (job_from_row sample_leased), sample_db\<lparr>db_jobs := [sample_leased]\<rparr>)"
  using claim_single [OF sample_query_ok, of sample_db sample_job] sample_claimable(1)
  by (simp add: sample_db_def empty_db_def sample_leased_def)

lemma sample_backfill_claimed:
  "claim_job sample_claim (seconds 10) (sample_db\<lparr>db_jobs := [sample_backfill_job]\<rparr>) =
     Inr (Some (job_from_row (leased_row ''w'' (seconds 190) (seconds 10) sample_backfill_job)),
       sample_db\<lparr>db_jobs := [leased_row ''w'' (seconds 190) (seconds 10) sample_backfill_job]\<rparr>)"
  using claim_single [OF sample_query_ok, of "sample_db\<lparr>db_jobs := [sample_backfill_job]\<rparr>" sample_backfill_job]
    sample_claimable(2)
  by (simp add: sample_db_def empty_db_def)

theorem claim_grants_one_lease_witness:
  "\<exists>j \<in> set (db_jobs (sample_db\<lparr>db_jobs := [sample_leased]\<rparr>)).
     j_id j = ''job-1'' \<and> j_lease_owner j = Some ''w'' \<and> j_attempt_count j = 1"
  using claim_grants_one_lease [OF sample_claimed sample_inv(1)]
  by (auto simp: sample_defs job_from_row_def)

text \<open>
  The claim serves jobs in the order of its \<open>ORDER BY\<close>: no claimable job, under any of its
  active overrides, comes before the one it returns.
\<close>

theorem claim_takes_least:
  assumes "claim_query_of a now = Inr (Some q)" "claim_job a now db = Inr (Some sj, db')" "queue_inv db"
    "j \<in> set (requeue_expired now (db_jobs db))" "claimable q j"
    "ro \<in> set (override_columns (db_overrides db) j)"
  shows "\<exists>row \<in> set (requeue_expired now (db_jobs db)). j_id row = sj_id sj \<and> claimable q row \<and>
     (\<exists>ro' \<in> set (override_columns (db_overrides db) row). claim_key now (row, ro') \<le> claim_key now (j, ro))"
  using assms(2,3)
proof (cases rule: claim_Some_row)
  case (1 q' row)
  with assms(1) have q: "q' = q" by simp
  from select_claim_SomeD(3) [OF 1(3)] obtain ro' where ro':
    "(row, ro') \<in> set (join_overrides (db_overrides db) (requeue_expired now (db_jobs db)))"
    "\<And>jr. jr \<in> set (join_overrides (db_overrides db) (requeue_expired now (db_jobs db))) \<Longrightarrow>
        claimable q (fst jr) \<Longrightarrow> claim_key now (row, ro') \<le> claim_key now jr"
    using q 1(2) by auto
  have "claim_key now (row, ro') \<le> claim_key now (j, ro)"
    using ro'(2) [of "(j, ro)"] assms(4-6) by (simp add: set_join_overrides)
  with ro'(1) 1(4,6,7) q show ?thesis
    by (intro bexI [of _ row]) (auto simp: set_join_overrides job_from_row_def)
qed

theorem claim_takes_least_witness:
  "\<exists>row \<in> set (requeue_expired (seconds 10) (db_jobs sample_db)).
     j_id row = sj_id (job_from_row sample_leased) \<and> claimable sample_query row"
proof -
  have "sample_job \<in> set (requeue_expired (seconds 10) (db_jobs sample_db))"
    using sample_requeue(1) by (simp add: sample_db_def)
  moreover have "None \<in> set (override_columns (db_overrides sample_db) sample_job)"
    by (simp add: set_override_columns active_overrides_def sample_defs)
  ultimately show ?thesis
    using claim_takes_least [OF sample_query_ok sample_claimed sample_inv(1) _ sample_claimable(1)] by blast
qed

text \<open>
  C2: backfill work is never served before live work: when a claim returns a contract-backfill
  job that no operator has asked to run on idle capacity, no live job was claimable.
\<close>

theorem live_before_backfill:
  assumes "claim_query_of a now = Inr (Some q)" "claim_job a now db = Inr (Some sj, db')" "queue_inv db"
    "sj_lane sj = CONTRACT_BACKFILL"
    "\<forall>r \<in> set (db_overrides db). ro_job r = sj_id sj \<longrightarrow> ro_mode r \<noteq> IDLE_CAPACITY"
    "j \<in> set (requeue_expired now (db_jobs db))" "claimable q j"
  shows "j_lane j = CONTRACT_BACKFILL"
proof (rule ccontr)
  assume "j_lane j \<noteq> CONTRACT_BACKFILL"
  then have live: "j_lane j = LIVE" by (cases "j_lane j") auto
  from assms(2,3) show False
  proof (cases rule: claim_Some_row)
    case (1 q' row)
    with assms(1) have q: "q' = q" by simp
    obtain ro where ro: "(j, ro) \<in> set (join_overrides (db_overrides db) (requeue_expired now (db_jobs db)))"
      using join_overrides_ex [OF assms(6)] by blast
    from select_claim_SomeD(3) [OF 1(3)] obtain ro' where ro':
      "(row, ro') \<in> set (join_overrides (db_overrides db) (requeue_expired now (db_jobs db)))"
      and le: "claim_key now (row, ro') \<le> claim_key now (j, ro)"
      using q 1(2) ro assms(7) by fastforce
    have row: "j_id row = sj_id sj" "j_lane row = CONTRACT_BACKFILL"
      using 1(4) assms(4) by (simp_all add: job_from_row_def)
    have "idle_requested ro' = None"
      using ro' assms(5) row(1)
      by (auto simp: set_join_overrides set_override_columns active_overrides_def idle_requested_def
          split: if_splits)
    with le row(2) live show False
      by (auto simp: claim_key_def Let_def split: option.splits if_splits)
  qed
qed

theorem live_before_backfill_witness: "j_lane sample_backfill_job = CONTRACT_BACKFILL"
proof (rule live_before_backfill [OF sample_query_ok sample_backfill_claimed sample_inv(2) _ _ _ sample_claimable(2)])
  show "sample_backfill_job \<in> set (requeue_expired (seconds 10)
      (db_jobs (sample_db\<lparr>db_jobs := [sample_backfill_job]\<rparr>)))"
    using sample_requeue(2) by simp
qed (simp_all add: sample_defs job_from_row_def leased_row_def)

text \<open>
  A claim returns nothing only when nothing is claimable: after expired leases are requeued,
  no row satisfies the query.
\<close>

theorem claim_nothing_iff:
  assumes "claim_query_of a now = Inr (Some q)" "queue_inv db"
  shows "(\<exists>db'. claim_job a now db = Inr (None, db')) \<longleftrightarrow>
     (\<forall>j \<in> set (requeue_expired now (db_jobs db)). \<not> claimable q j)"
proof -
  have dist: "distinct (map j_id (db_jobs db))" using assms(2) by (simp add: queue_inv_def)
  have now: "cq_now q = now" by (rule claim_query_now [OF assms(1)])
  obtain r db' where r: "claim_locked q (cl_worker a) (cl_lease_seconds a) db = (r, db')" by fastforce
  have "r = None \<longleftrightarrow> select_claim q (db_overrides db) (requeue_expired now (db_jobs db)) = None"
    using r dist now by (cases rule: claim_lockedE) auto
  then show ?thesis
    using assms(1) r by (simp add: claim_job_def select_claim_None_iff)
qed

theorem claim_nothing_iff_witness:
  "\<not> (\<forall>j \<in> set (requeue_expired (seconds 10) (db_jobs sample_db)). \<not> claimable sample_query j)"
  using claim_nothing_iff [OF sample_query_ok sample_inv(1)] sample_claimed by simp

text \<open>
  A lease is used once: its owner can complete the job, and after that no worker can complete,
  release, back off or defer it under any name until it is claimed again.
\<close>

theorem lease_is_used_once:
  assumes "queue_inv db" "j \<in> set (db_jobs db)" "owns_lease jid worker j"
  shows "\<exists>db'. complete_job jid worker now clock db = Inr db' \<and>
     (\<forall>w st av err co clock'. \<exists>msg. transition_leased_job jid w st av err co clock' db' = Inl (ValueError msg)) \<and>
     (\<forall>w av reason clock'. \<exists>msg. defer_job_for_maintenance jid w av reason clock' db' = Inl (ValueError msg))"
proof -
  have dist: "distinct (map j_id (db_jobs db))" using assms(1) by (simp add: queue_inv_def)
  from assms obtain db' where db': "complete_job jid worker now clock db = Inr db'"
    using transition_Inr_iff [OF dist] unfolding complete_job_def by blast
  have free: "\<not> owns_lease jid w k" if k: "k \<in> set (db_jobs db')" for w k
    using db' unfolding complete_job_def
  proof (cases rule: transitionE)
    case (1 j')
    have jid: "j_id j' = jid" "j_state j' = LEASED" "j_lease_owner j' = Some worker"
      using 1(2) by (simp_all add: owns_lease_def)
    have only: "i = j'" if "i \<in> set (db_jobs db)" "j_id i = jid" for i
      using that dist 1(1) jid by (auto simp: distinct_map inj_on_def)
    from k 1(3) have "k \<in> set (sql_update (owns_lease jid worker)
        (moved_row COMPLETED now None (Some now) clock) (db_jobs db))" by simp
    then show ?thesis
    proof (cases rule: sql_updateE)
      case (changed r)
      then show ?thesis by (simp add: moved_row_def owns_lease_def)
    next
      case kept
      with only [of k] 1(2) show ?thesis by (auto simp: owns_lease_def)
    qed
  qed
  then have "sql_count (owns_lease jid w) (db_jobs db') = 0"
    "sql_count (\<lambda>k. owns_lease jid w k \<and> 0 < j_attempt_count k) (db_jobs db') = 0" for w
    by (simp_all add: sql_count_eq_0_iff)
  with db' show ?thesis
    by (auto simp: transition_leased_job_def defer_job_for_maintenance_def Let_def)
qed

lemma sample_leased_inv: "queue_inv (sample_db\<lparr>db_jobs := [sample_leased]\<rparr>)"
  using claim_job_inv [OF sample_claimed sample_inv(1)] .

theorem lease_is_used_once_witness:
  "\<exists>db'. complete_job ''job-1'' ''w'' 5 6 (sample_db\<lparr>db_jobs := [sample_leased]\<rparr>) = Inr db'"
  using lease_is_used_once [OF sample_leased_inv, of sample_leased "''job-1''" "''w''" 5 6]
  by (auto simp: owns_lease_def sample_defs leased_row_def)

text \<open>
  A job claimed and then deferred for maintenance is queued again at the requested time with
  the attempt count it had before the claim, so a shared prerequisite costs no attempt.
\<close>

theorem deferral_costs_no_attempt:
  assumes "claim_job a now db = Inr (Some sj, db1)" "queue_inv db"
  shows "\<exists>db2. defer_job_for_maintenance (sj_id sj) (cl_worker a) av reason clock db1 = Inr db2 \<and>
     (\<exists>j0 \<in> set (db_jobs db). \<exists>j \<in> set (db_jobs db2). j_id j0 = sj_id sj \<and> j_id j = sj_id sj \<and>
        j_state j = QUEUED \<and> j_available_at j = av \<and> j_last_error j = Some reason \<and>
        j_attempt_count j = j_attempt_count j0)"
proof -
  have inv1: "queue_inv db1" by (rule claim_job_inv [OF assms])
  then have dist: "distinct (map j_id (db_jobs db1))" by (simp add: queue_inv_def)
  from claim_lease_row [OF assms] obtain j0 j where
    j0: "j0 \<in> set (db_jobs db)" "j_id j0 = sj_id sj" "j_attempt_count j = j_attempt_count j0 + 1"
    and j: "j \<in> set (db_jobs db1)" "owns_lease (sj_id sj) (cl_worker a) j" "j_id j = sj_id sj" by blast
  let ?hit = "\<lambda>k. owns_lease (sj_id sj) (cl_worker a) k \<and> 0 < j_attempt_count k"
  have "1 \<le> j_attempt_count j"
    using inv1 j by (auto simp: queue_inv_def job_ok_def lease_ok_def owns_lease_def)
  with j(2) have hit: "?hit j" by simp
  have "sql_count ?hit (db_jobs db1) = 1"
    using dist j(1) hit by (rule sql_count_unique [where key = j_id]) (use j(3) in \<open>simp add: owns_lease_def\<close>)
  then have "defer_job_for_maintenance (sj_id sj) (cl_worker a) av reason clock db1 =
      Inr (db1\<lparr>db_jobs := sql_update ?hit (deferred_row av reason clock) (db_jobs db1)\<rparr>)"
    unfolding defer_job_for_maintenance_def deferred_row_def [abs_def] by simp
  moreover have "deferred_row av reason clock j \<in> set (sql_update ?hit (deferred_row av reason clock) (db_jobs db1))"
    by (rule sql_update_memI(1) [where p = ?hit, OF j(1) hit])
  ultimately show ?thesis
    using j0 j(3)
    by (intro exI conjI bexI [where x = j0] bexI [where x = "deferred_row av reason clock j"])
      (assumption | simp add: deferred_row_def)+
qed

theorem deferral_costs_no_attempt_witness:
  "\<exists>db2. defer_job_for_maintenance ''job-1'' ''w'' 7 ''wait'' 6 (sample_db\<lparr>db_jobs := [sample_leased]\<rparr>) = Inr db2"
  using deferral_costs_no_attempt [OF sample_claimed sample_inv(1), of 7 "''wait''" 6]
  by (auto simp: sample_defs job_from_row_def)

lemma enqueue_new_row:
  assumes "enqueue_job P q now db = Inr (jid, db')" "task_of (eq_task q) = Some task"
    "\<not> conflicts (new_job q jid task prio lane prov now) (db_jobs db)"
  shows "\<exists>n. db_jobs db' = db_jobs db @ [n] \<and> j_id n = jid \<and> j_task n = task \<and>
      j_source n = eq_source q \<and> j_item n = eq_item q \<and> j_revision n = eq_revision q \<and>
      j_annotation n = eq_annotation q \<and> j_prompt n = eq_prompt q \<and> j_state n = QUEUED \<and>
      j_available_at n = now \<and> j_attempt_count n = 0 \<and>
      priority_name (j_priority n) = eq_priority q \<and> lane_name (j_lane n) = eq_lane q"
  using assms(1)
proof (cases rule: enqueue_jobE)
  case (1 task' prio' lane' prov')
  let ?n = "new_job q jid task' prio' lane' prov' now"
  have task: "task' = task" using 1(1) assms(2) by simp
  have free: "\<not> conflicts ?n (db_jobs db)" using assms(3) conflicts_new_job task by metis
  then have old: "\<And>j. j \<in> set (db_jobs db) \<Longrightarrow> j_id j \<noteq> jid"
    by (auto simp: conflicts_def new_job_def)
  have "reclassify_job jid lane' prio' prov' (insert_job ?n (db_jobs db)) = db_jobs db @ [?n]"
    using free old by (auto simp: insert_job_new reclassify_job_def sql_update_def new_job_def intro: map_idI)
  moreover have "reopen_job jid now (db_jobs db @ [?n]) = db_jobs db @ [?n]"
    using old by (auto simp: reopen_job_def sql_update_def new_job_def intro: map_idI)
  ultimately have "db_jobs db' = db_jobs db @ [?n]" by (simp add: 1(6))
  moreover have "priority_name prio' = eq_priority q" "lane_name lane' = eq_lane q"
    using priority_of_SomeD [OF 1(2)] lane_of_SomeD [OF 1(3)] by simp_all
  ultimately show ?thesis using task by (auto simp: new_job_def)
qed

text \<open>
  C3: enqueueing is idempotent on identity: it reports the digest of the work's identity; when no
  row has that identifier or that identity it appends exactly one queued row that carries them,
  due at once; when one has, it adds none; enqueueing the same request again reports the same
  identifier and adds no row; and leased and dead-lettered rows (and completed ones, unless the
  caller reopens) stay as they are.
\<close>

theorem enqueue_idempotent:
  assumes "enqueue_job P q now db = Inr (jid, db1)" "enqueue_job P q now' db1 = Inr (jid', db2)"
    "queue_inv db"
  shows "jid = sha256_hex P (join ''|'' [eq_task q, eq_source q, eq_item q, str_int (eq_revision q),
            eq_annotation q, eq_prompt q]) \<and> jid' = jid \<and>
     (if \<exists>j \<in> set (db_jobs db). j_id j = jid \<or>
          (task_name (j_task j) = eq_task q \<and> j_source j = eq_source q \<and> j_item j = eq_item q \<and>
           j_revision j = eq_revision q \<and> j_annotation j = eq_annotation q \<and> j_prompt j = eq_prompt q)
      then length (db_jobs db1) = length (db_jobs db)
      else \<exists>n. db_jobs db1 = db_jobs db @ [n] \<and> j_id n = jid \<and> task_name (j_task n) = eq_task q \<and>
          j_source n = eq_source q \<and> j_item n = eq_item q \<and> j_revision n = eq_revision q \<and>
          j_annotation n = eq_annotation q \<and> j_prompt n = eq_prompt q \<and> j_state n = QUEUED \<and>
          j_available_at n = now \<and> j_attempt_count n = 0 \<and>
          priority_name (j_priority n) = eq_priority q \<and> lane_name (j_lane n) = eq_lane q) \<and>
     length (db_jobs db2) = length (db_jobs db1) \<and>
     queue_inv db2 \<and>
     (\<forall>j \<in> set (db_jobs db). j_state j = LEASED \<or> j_state j = DEAD_LETTER \<or>
        (j_state j = COMPLETED \<and> \<not> eq_reopen_completed q) \<longrightarrow> j \<in> set (db_jobs db2))"
  (is "?digest \<and> _ \<and> (if ?known then _ else ?appended) \<and> _")
proof -
  have inv1: "queue_inv db1" by (rule enqueue_job_inv [OF assms(1,3)])
  have jid: "?digest" "jid' = jid" using assms(1,2) by (elim enqueue_jobE, simp add: job_hash_def)+
  have len: "length (db_jobs db2) = length (db_jobs db1)"
    by (rule enqueue_again_length [OF assms(1,2)])
  have keep: "j \<in> set (db_jobs db2)"
    if "j \<in> set (db_jobs db)" "j_state j = LEASED \<or> j_state j = DEAD_LETTER \<or>
        (j_state j = COMPLETED \<and> \<not> eq_reopen_completed q)" for j
  proof -
    have "j \<in> set (db_jobs db1)"
      by (rule enqueue_job_keeps_row [OF assms(1) that(1)]) (use that(2) in \<open>auto simp: queued_or_backing_off_def\<close>)
    then show ?thesis
      by (rule enqueue_job_keeps_row [OF assms(2)]) (use that(2) in \<open>auto simp: queued_or_backing_off_def\<close>)
  qed
  have rows: "if ?known then length (db_jobs db1) = length (db_jobs db) else ?appended"
    using assms(1)
  proof (cases rule: enqueue_jobE)
    case (1 task prio lane prov)
    have name: "eq_task q = task_name task" by (rule task_of_SomeD [OF 1(1)])
    have known: "?known \<longleftrightarrow> conflicts (new_job q jid task prio lane prov now) (db_jobs db)"
      by (simp add: conflicts_def new_job_def job_identity_def name task_name_eq_iff)
    show ?thesis
    proof (cases ?known)
      case True
      then have "length (db_jobs db1) = length (db_jobs db)"
        using known 1(6) by (simp add: reclassify_job_def reopen_job_def length_sql_update insert_job_length)
      then show ?thesis by (simp only: True if_True)
    next
      case False
      then have free: "\<not> conflicts (new_job q jid task prio lane prov now) (db_jobs db)" using known by blast
      have "?appended" using enqueue_new_row [OF assms(1) 1(1) free] name by metis
      then show ?thesis by (simp only: False if_False)
    qed
  qed
  show ?thesis
    using jid rows len keep enqueue_job_inv [OF assms(2) inv1] by blast
qed

definition sample_enqueue :: enqueue_request where
  "sample_enqueue = \<lparr>eq_task = ''ACTIVE_IMPACT'', eq_source = ''fed'', eq_item = ''item'',
     eq_revision = 1, eq_prompt = ''v1'', eq_priority = ''NORMAL'', eq_lane = ''LIVE'',
     eq_provenance = None, eq_annotation = ''a'', eq_reopen_completed = False\<rparr>"

lemma sample_enqueue_ok:
  "\<exists>r. enqueue_job sample_platform sample_enqueue now db = Inr r"
  by (simp add: enqueue_job_def sample_enqueue_def task_of_def priority_of_def lane_of_def of_name_def
      TASKS_def WORK_LANES_def Let_def make_provenance_def strip_def is_space_def job_hash_def
      sample_platform_def)

theorem enqueue_idempotent_witness:
  "\<exists>jid db1 db2. enqueue_job sample_platform sample_enqueue 1 sample_db = Inr (jid, db1) \<and>
     enqueue_job sample_platform sample_enqueue 2 db1 = Inr (jid, db2) \<and>
     length (db_jobs db2) = length (db_jobs db1)"
proof -
  obtain jid db1 where 1: "enqueue_job sample_platform sample_enqueue 1 sample_db = Inr (jid, db1)"
    using sample_enqueue_ok by (metis surj_pair)
  obtain jid' db2 where 2: "enqueue_job sample_platform sample_enqueue 2 db1 = Inr (jid', db2)"
    using sample_enqueue_ok by (metis surj_pair)
  note same = enqueue_idempotent [OF 1 2 sample_inv(1)]
  have "jid' = jid" by (rule same [THEN conjunct2, THEN conjunct1])
  moreover have "length (db_jobs db2) = length (db_jobs db1)"
    by (rule same [THEN conjunct2, THEN conjunct2, THEN conjunct2, THEN conjunct1])
  ultimately show ?thesis using 1 2 by blast
qed

end
