(* ===== verification/Retry_Override.thy ===== *)
theory Retry_Override
  imports Queue_Facts
begin

text \<open>
  Audited operator overrides of retry times, \<^verbatim>\<open>_retry_job_snapshot\<close>,
  \<^verbatim>\<open>list_retry_schedule_jobs\<close> and \<^verbatim>\<open>apply_retry_schedule_override\<close> of
  \<^verbatim>\<open>xauusd_news/news/scheduler/state.py\<close>. Every applied request leaves an audit row; at most one row
  of a job is active, and it is the one that decided the job's current availability.
\<close>

section \<open>Snapshots\<close>

record retry_snapshot =
  rs_job :: string
  rs_task :: string
  rs_source :: string
  rs_item :: string
  rs_state :: string
  rs_priority :: string
  rs_available_at :: instant
  rs_attempt_count :: int
  rs_last_error :: "string option"
  rs_last_failure_at :: "instant option"
  rs_title :: string
  rs_lease_owner :: "string option"
  rs_lease_expires_at :: "instant option"
  rs_override_mode :: "string option"
  rs_override_requested_at :: "instant option"
  rs_original_available_at :: instant

text \<open>
  The columns a query adds to the row of the job; \<open>None\<close> is a column that the query does not
  select or that is null.
\<close>

record snapshot_columns =
  sc_last_failure_at :: "instant option"
  sc_title :: "string option"
  sc_mode :: "retry_mode option"
  sc_requested_at :: "instant option"
  sc_original :: "instant option"

definition no_columns :: snapshot_columns where
  "no_columns = \<lparr>sc_last_failure_at = None, sc_title = None, sc_mode = None,
     sc_requested_at = None, sc_original = None\<rparr>"

definition retry_job_snapshot :: "job \<Rightarrow> snapshot_columns \<Rightarrow> retry_snapshot" where
  "retry_job_snapshot j c =
     \<lparr>rs_job = j_id j, rs_task = task_name (j_task j), rs_source = j_source j, rs_item = j_item j,
      rs_state = state_name (j_state j), rs_priority = priority_name (j_priority j),
      rs_available_at = j_available_at j, rs_attempt_count = j_attempt_count j,
      rs_last_error = nonblank (j_last_error j), rs_last_failure_at = sc_last_failure_at c,
      rs_title = (case nonblank (sc_title c) of Some t \<Rightarrow> t | None \<Rightarrow> j_item j),
      rs_lease_owner = nonblank (j_lease_owner j), rs_lease_expires_at = j_lease_expires_at j,
      rs_override_mode = map_option mode_name (sc_mode c),
      rs_override_requested_at = sc_requested_at c,
      rs_original_available_at = (case sc_original c of Some t \<Rightarrow> t | None \<Rightarrow> j_available_at j)\<rparr>"

section \<open>Listing\<close>

text \<open>
  The news tables that hold titles belong to other components: a table that is absent is
  \<open>None\<close>, a present one gives the title of a job's revision when it has one.
\<close>

record title_tables =
  tt_translations :: "(job \<Rightarrow> string option) option"
  tt_revisions :: "(job \<Rightarrow> string option) option"

definition title_column :: "title_tables \<Rightarrow> job \<Rightarrow> string" where
  "title_column T j =
     (case tt_revisions T of
        None \<Rightarrow> j_item j
      | Some headline \<Rightarrow>
          (case (case tt_translations T of None \<Rightarrow> None | Some translated \<Rightarrow> translated j) of
             Some t \<Rightarrow> t
           | None \<Rightarrow> (case headline j of Some t \<Rightarrow> t | None \<Rightarrow> j_item j)))"

text \<open>SQLite's \<open>trim\<close> strips spaces only.\<close>

definition sql_blank :: "string \<Rightarrow> bool" where
  "sql_blank s \<longleftrightarrow> list_all (\<lambda>c. c = CHR '' '') s"

definition DEFERRAL_ERRORS :: "string list" where
  "DEFERRAL_ERRORS = [''BACKFILL_BUDGET_DEFERRED'', ''MODEL_CAPACITY_DEFERRED'',
     ''PROVIDER_DISPATCH_DEFERRED'', ''CURRENT_EVIDENCE_NOT_AVAILABLE'']"

definition operator_visible :: "job \<times> retry_override option \<Rightarrow> bool" where
  "operator_visible jr =
     (let j = fst jr
      in (j_state j = QUEUED \<or> j_state j = BACKING_OFF \<or> j_state j = LEASED) \<and>
         ((case j_last_error j of
             None \<Rightarrow> False
           | Some e \<Rightarrow> \<not> sql_blank e \<and> e \<notin> set DEFERRAL_ERRORS) \<or> snd jr \<noteq> None))"

definition retry_list_key :: "job \<times> retry_override option \<Rightarrow> int \<times> int \<times> int \<times> string" where
  "retry_list_key jr =
     (let j = fst jr
      in (if j_state j = BACKING_OFF then 0 else if j_state j = QUEUED then 1 else 2,
          j_available_at j, j_created_at j, j_id j))"

definition list_retry_schedule_jobs ::
    "title_tables \<Rightarrow> int \<Rightarrow> scheduler_db \<Rightarrow> retry_snapshot list" where
  "list_retry_schedule_jobs T limit db =
     (let bounded = max 1 (min 500 limit);
          rows = sort_key retry_list_key
                   (filter operator_visible (join_overrides (db_overrides db) (db_jobs db)))
      in map (\<lambda>jr. retry_job_snapshot (fst jr)
                \<lparr>sc_last_failure_at =
                   sql_max (\<lambda>a. if at_job a = j_id (fst jr) then Some (at_attempted_at a) else None)
                     (db_attempts db),
                 sc_title = Some (title_column T (fst jr)),
                 sc_mode = map_option ro_mode (snd jr),
                 sc_requested_at = map_option ro_requested_at (snd jr),
                 sc_original = map_option ro_original_available_at (snd jr)\<rparr>)
           (take (nat bounded) rows))"

section \<open>Overriding\<close>

datatype retry_error =
    RetryInvalid string
  | RetryScheduleConflict string "retry_snapshot option"
  | RetryIntegrity string

record override_request =
  oq_request_id :: string
  oq_job_id :: string
  oq_operator_id :: string
  oq_mode :: string
  oq_reason :: string
  oq_expected_state :: string
  oq_expected_available_at :: string
  oq_requested_available_at :: "instant option"

text \<open>The guards before the transaction, in their order: the controlled mode, or the error.\<close>

definition check_override_request :: "override_request \<Rightarrow> instant \<Rightarrow> string + retry_mode" where
  "check_override_request q now =
     (let rid = strip (oq_request_id q); op = strip (oq_operator_id q);
          reason = join '' '' (split_ws (oq_reason q))
      in if rid = [] \<or> 128 < length rid then Inl ''retry override request_id is invalid''
         else if op = [] \<or> 256 < length op then Inl ''retry override operator is invalid''
         else case mode_of (upper (strip (oq_mode q))) of
           None \<Rightarrow> Inl ''retry override mode is invalid''
         | Some mode \<Rightarrow>
             if reason = [] \<or> 500 < length reason then Inl ''retry override reason is invalid''
             else if mode = CUSTOM_TIME \<and> oq_requested_available_at q = None
             then Inl ''custom retry time is required''
             else if mode \<noteq> CUSTOM_TIME \<and> oq_requested_available_at q \<noteq> None
             then Inl ''requested retry time is only valid for custom mode''
             else if (case oq_requested_available_at q of
                        None \<Rightarrow> False | Some t \<Rightarrow> t < now - minutes 5)
             then Inl ''custom retry time is too far in the past''
             else Inr mode)"

definition existing_override ::
    "string \<Rightarrow> scheduler_db \<Rightarrow> (retry_override \<times> job) option" where
  "existing_override rid db =
     (case find (\<lambda>r. ro_request r = rid) (db_overrides db) of
        None \<Rightarrow> None
      | Some r \<Rightarrow> map_option (Pair r) (find (\<lambda>j. j_id j = ro_job r) (db_jobs db)))"

definition existing_snapshot :: "retry_override \<Rightarrow> job \<Rightarrow> retry_snapshot" where
  "existing_snapshot r j =
     retry_job_snapshot j
       (no_columns\<lparr>sc_mode := (if ro_active r then Some (ro_mode r) else None),
          sc_requested_at := (if ro_active r then Some (ro_requested_at r) else None),
          sc_original := Some (if ro_active r then ro_original_available_at r
                               else j_available_at j)\<rparr>)"

text \<open>The time a mode asks for: \<open>original\<close> is the availability before the first active override.\<close>

fun effective_time :: "retry_mode \<Rightarrow> instant \<Rightarrow> instant \<Rightarrow> instant option \<Rightarrow> instant option" where
  "effective_time KEEP_ORIGINAL original now custom = Some original"
| "effective_time RETRY_IMMEDIATE original now custom = Some now"
| "effective_time DELAY_15_MIN original now custom = Some (now + minutes 15)"
| "effective_time DELAY_1_HOUR original now custom = Some (now + hours 1)"
| "effective_time IDLE_CAPACITY original now custom = Some now"
| "effective_time CUSTOM_TIME original now custom = custom"

definition override_row ::
    "override_request \<Rightarrow> retry_mode \<Rightarrow> job \<Rightarrow> instant \<Rightarrow> instant \<Rightarrow> bool \<Rightarrow> instant \<Rightarrow> string \<Rightarrow>
     retry_override" where
  "override_row q mode row original effective active now uuid =
     \<lparr>ro_id = uuid, ro_request = strip (oq_request_id q), ro_job = oq_job_id q,
      ro_task = j_task row, ro_operator = strip (oq_operator_id q), ro_mode = mode,
      ro_requested_at = now, ro_original_available_at = original,
      ro_previous_available_at = j_available_at row,
      ro_requested_available_at = oq_requested_available_at q,
      ro_effective_available_at = effective,
      ro_reason = join '' '' (split_ws (oq_reason q)),
      ro_observed_state = j_state row, ro_resulting_state = j_state row, ro_active = active\<rparr>"

text \<open>\<open>INSERT INTO news_ai_retry_schedule_overrides_v1\<close> under its two unique keys.\<close>

definition insert_override ::
    "retry_override \<Rightarrow> retry_override list \<Rightarrow> (retry_error + retry_override list)" where
  "insert_override new ros =
     (if \<exists>r \<in> set ros. ro_id r = ro_id new \<or> ro_request r = ro_request new
      then Inl (RetryIntegrity ''UNIQUE constraint failed'')
      else Inr (ros @ [new]))"

definition still_expected :: "platform \<Rightarrow> override_request \<Rightarrow> job \<Rightarrow> bool" where
  "still_expected P q j \<longleftrightarrow>
     j_id j = oq_job_id q \<and> state_name (j_state j) = oq_expected_state q \<and>
     iso_text P (j_available_at j) = oq_expected_available_at q \<and> queued_or_backing_off j"

definition rescheduled_row :: "instant \<Rightarrow> instant \<Rightarrow> job \<Rightarrow> job" where
  "rescheduled_row effective now j = j\<lparr>j_available_at := effective, j_updated_at := now\<rparr>"

text \<open>
  The tail of the transaction, for a job that passed the checks: retire the active override, move
  the availability and append the new active override.
\<close>

definition replace_override ::
    "platform \<Rightarrow> override_request \<Rightarrow> retry_mode \<Rightarrow> job \<Rightarrow> instant \<Rightarrow> instant \<Rightarrow> instant \<Rightarrow> string \<Rightarrow>
     scheduler_db \<Rightarrow> (retry_error + (retry_snapshot \<times> scheduler_db))" where
  "replace_override P q mode row original effective now uuid db =
     (let ros1 = deactivate_overrides (oq_job_id q) (db_overrides db);
          jobs1 = sql_update (still_expected P q) (rescheduled_row effective now) (db_jobs db)
      in if sql_count (still_expected P q) (db_jobs db) \<noteq> 1
         then Inl (RetryScheduleConflict ''JOB_STATE_CHANGED''
           (map_option (\<lambda>j. retry_job_snapshot j no_columns)
              (find (\<lambda>j. j_id j = oq_job_id q) jobs1)))
         else case insert_override (override_row q mode row original effective True now uuid) ros1 of
           Inl e \<Rightarrow> Inl e
         | Inr ros2 \<Rightarrow>
             (case find (\<lambda>jr. j_id (fst jr) = oq_job_id q \<and> snd jr \<noteq> None)
                     (join_overrides ros2 jobs1) of
                Some (j, Some r) \<Rightarrow>
                  Inr (existing_snapshot r j, db\<lparr>db_jobs := jobs1, db_overrides := ros2\<rparr>)
              | _ \<Rightarrow> Inl (RetryIntegrity ''no row'')))"

definition override_locked ::
    "platform \<Rightarrow> override_request \<Rightarrow> retry_mode \<Rightarrow> instant \<Rightarrow> string \<Rightarrow> scheduler_db \<Rightarrow>
     (retry_error + (retry_snapshot \<times> scheduler_db))" where
  "override_locked P q mode now uuid db =
     (case existing_override (strip (oq_request_id q)) db of
        Some (r, j) \<Rightarrow>
          if j_id j \<noteq> oq_job_id q then Inl (RetryScheduleConflict ''IDEMPOTENCY_CONFLICT'' None)
          else Inr (existing_snapshot r j, db)
      | None \<Rightarrow>
     (case find (\<lambda>j. j_id j = oq_job_id q) (db_jobs db) of
        None \<Rightarrow> Inl (RetryScheduleConflict ''JOB_NOT_FOUND'' None)
      | Some row \<Rightarrow>
     (let current = retry_job_snapshot row no_columns
      in if \<not> queued_or_backing_off row
         then Inl (RetryScheduleConflict ''JOB_NOT_MUTABLE'' (Some current))
         else if state_name (j_state row) \<noteq> oq_expected_state q \<or>
                 iso_text P (j_available_at row) \<noteq> oq_expected_available_at q
         then Inl (RetryScheduleConflict ''JOB_STATE_CHANGED'' (Some current))
         else
           (let first = find (\<lambda>r. ro_job r = oq_job_id q \<and> ro_active r) (db_overrides db);
                original = (case first of Some r \<Rightarrow> ro_original_available_at r
                                        | None \<Rightarrow> j_available_at row)
            in case effective_time mode original now (oq_requested_available_at q) of
                 None \<Rightarrow> Inl (RetryIntegrity ''assertion failed'')
               | Some effective \<Rightarrow>
                   if mode = KEEP_ORIGINAL \<and> first = None
                   then (case insert_override
                             (override_row q mode row original effective False now uuid)
                             (db_overrides db) of
                           Inl e \<Rightarrow> Inl e
                         | Inr ros \<Rightarrow> Inr (current, db\<lparr>db_overrides := ros\<rparr>))
                   else replace_override P q mode row original effective now uuid db))))"

definition apply_retry_schedule_override ::
    "platform \<Rightarrow> override_request \<Rightarrow> instant \<Rightarrow> string \<Rightarrow> scheduler_db \<Rightarrow>
     (retry_error + (retry_snapshot \<times> scheduler_db))" where
  "apply_retry_schedule_override P q now uuid db =
     (case check_override_request q now of
        Inl msg \<Rightarrow> Inl (RetryInvalid msg)
      | Inr mode \<Rightarrow> override_locked P q mode now uuid db)"

section \<open>What an override does\<close>

lemmas override_defs = override_row_def rescheduled_row_def still_expected_def

lemma override_row_simps [simp]:
  "ro_request (override_row q m row t e a now u) = strip (oq_request_id q)"
  "ro_job (override_row q m row t e a now u) = oq_job_id q"
  "ro_active (override_row q m row t e a now u) = a"
  "ro_mode (override_row q m row t e a now u) = m"
  "ro_original_available_at (override_row q m row t e a now u) = t"
  "ro_effective_available_at (override_row q m row t e a now u) = e"
  "ro_previous_available_at (override_row q m row t e a now u) = j_available_at row"
  by (simp_all add: override_row_def)

lemma rescheduled_row_simps [simp]:
  "j_id (rescheduled_row e now j) = j_id j" "j_state (rescheduled_row e now j) = j_state j"
  "j_available_at (rescheduled_row e now j) = e"
  "j_attempt_count (rescheduled_row e now j) = j_attempt_count j"
  by (simp_all add: rescheduled_row_def)

lemma insert_override_Inr_iff:
  "insert_override new ros = Inr ros' \<longleftrightarrow>
     (\<forall>r \<in> set ros. ro_id r \<noteq> ro_id new \<and> ro_request r \<noteq> ro_request new) \<and> ros' = ros @ [new]"
  by (auto simp: insert_override_def)

text \<open>The three ways a request succeeds: replayed, recorded without effect, or applied.\<close>

lemma applyE:
  assumes "apply_retry_schedule_override P q now uuid db = Inr (s, db')"
  obtains (replay) mode r j where "check_override_request q now = Inr mode"
      "existing_override (strip (oq_request_id q)) db = Some (r, j)" "j_id j = oq_job_id q"
      "s = existing_snapshot r j" "db' = db"
  | (recorded) row where "check_override_request q now = Inr KEEP_ORIGINAL"
      "existing_override (strip (oq_request_id q)) db = None"
      "row \<in> set (db_jobs db)" "still_expected P q row"
      "find (\<lambda>r. ro_job r = oq_job_id q \<and> ro_active r) (db_overrides db) = None"
      "insert_override (override_row q KEEP_ORIGINAL row (j_available_at row) (j_available_at row) False now uuid)
         (db_overrides db) = Inr (db_overrides db')"
      "db' = db\<lparr>db_overrides := db_overrides db'\<rparr>"
  | (applied) mode row original effective r j where "check_override_request q now = Inr mode"
      "existing_override (strip (oq_request_id q)) db = None"
      "row \<in> set (db_jobs db)" "still_expected P q row"
      "original = (case find (\<lambda>r. ro_job r = oq_job_id q \<and> ro_active r) (db_overrides db) of
         Some r \<Rightarrow> ro_original_available_at r | None \<Rightarrow> j_available_at row)"
      "mode = KEEP_ORIGINAL \<Longrightarrow> find (\<lambda>r. ro_job r = oq_job_id q \<and> ro_active r) (db_overrides db) \<noteq> None"
      "effective_time mode original now (oq_requested_available_at q) = Some effective"
      "insert_override (override_row q mode row original effective True now uuid)
         (deactivate_overrides (oq_job_id q) (db_overrides db)) = Inr (db_overrides db')"
      "db' = db\<lparr>db_jobs := sql_update (still_expected P q) (rescheduled_row effective now) (db_jobs db),
               db_overrides := db_overrides db'\<rparr>"
      "s = existing_snapshot r j"
proof -
  from assms obtain mode where chk: "check_override_request q now = Inr mode"
    and l: "override_locked P q mode now uuid db = Inr (s, db')"
    by (auto simp: apply_retry_schedule_override_def split: sum.splits)
  show ?thesis
  proof (cases "existing_override (strip (oq_request_id q)) db")
    case (Some rj)
    then show ?thesis using l by (intro replay [OF chk, of "fst rj" "snd rj"])
      (auto simp: override_locked_def split: if_splits prod.splits)
  next
    case None
    from l None obtain row where f: "find (\<lambda>j. j_id j = oq_job_id q) (db_jobs db) = Some row"
      by (auto simp: override_locked_def split: option.splits)
    have row: "row \<in> set (db_jobs db)" "j_id row = oq_job_id q" using find_SomeD [OF f] by auto
    let ?first = "find (\<lambda>r. ro_job r = oq_job_id q \<and> ro_active r) (db_overrides db)"
    let ?original = "case ?first of Some r \<Rightarrow> ro_original_available_at r | None \<Rightarrow> j_available_at row"
    from l None f have exp: "still_expected P q row"
      by (auto simp: override_locked_def Let_def row still_expected_def split: if_splits)
    show ?thesis
    proof (cases "mode = KEEP_ORIGINAL \<and> ?first = None")
      case True
      with l None f exp show ?thesis
        by (intro recorded [OF _ None row(1) exp])
          (auto simp: override_locked_def Let_def still_expected_def chk split: sum.splits)
    next
      case False
      with l None f exp obtain effective where
        e: "effective_time mode ?original now (oq_requested_available_at q) = Some effective"
        and rep: "replace_override P q mode row ?original effective now uuid db = Inr (s, db')"
        by (auto simp: override_locked_def Let_def still_expected_def simp del: effective_time.simps
            split: option.splits if_splits)
      from rep obtain r j where
        ins: "insert_override (override_row q mode row ?original effective True now uuid)
         (deactivate_overrides (oq_job_id q) (db_overrides db)) = Inr (db_overrides db')"
        and db': "db' = db\<lparr>db_jobs := sql_update (still_expected P q) (rescheduled_row effective now) (db_jobs db),
               db_overrides := db_overrides db'\<rparr>" "s = existing_snapshot r j"
        by (auto simp: replace_override_def Let_def split: if_splits sum.splits option.splits)
      show ?thesis
        by (rule applied [OF chk None row(1) exp refl _ e ins db']) (use False in auto)
    qed
  qed
qed

text \<open>A request identifier that was appended last is found again, with its job.\<close>

lemma lookup_appended:
  assumes "j \<in> set (db_jobs db')" "j_id j = oq_job_id q"
    "db_overrides db' = ros @ [new]" "\<forall>r \<in> set ros. ro_request r \<noteq> ro_request new"
    "ro_request new = strip (oq_request_id q)" "ro_job new = oq_job_id q"
  shows "\<exists>r j. existing_override (strip (oq_request_id q)) db' = Some (r, j) \<and> j_id j = oq_job_id q"
proof -
  have "find (\<lambda>r. ro_request r = strip (oq_request_id q)) (db_overrides db') = Some new"
    unfolding assms(3) by (rule find_append_new) (use assms(4,5) in simp_all)
  moreover obtain j' where "find (\<lambda>j. j_id j = oq_job_id q) (db_jobs db') = Some j'" "j_id j' = oq_job_id q"
    using assms(1,2) find_None_iff [of "\<lambda>j. j_id j = oq_job_id q"] find_SomeD
    by (metis (mono_tags, lifting) not_None_eq)
  ultimately show ?thesis using assms(6) by (simp add: existing_override_def)
qed

lemma reschedule_jobs_ok: "jobs_ok jobs \<Longrightarrow> jobs_ok (sql_update p (rescheduled_row e now) jobs)"
  by (rule jobs_ok_update) (auto simp: rescheduled_row_def job_identity_def job_inv_defs)

lemma one_active_append:
  assumes "one_active_override ros" "ro_active new \<Longrightarrow> \<forall>r \<in> set ros. ro_job r = ro_job new \<longrightarrow> \<not> ro_active r"
  shows "one_active_override (ros @ [new])"
  using assms by (auto simp: one_active_override_def)

lemma active_unique:
  assumes "one_active_override ros" "r \<in> set ros" "r' \<in> set ros" "ro_active r" "ro_active r'" "ro_job r = ro_job r'"
  shows "r = r'"
  using assms by (auto simp: one_active_override_def distinct_map inj_on_def)

lemma find_active:
  assumes "one_active_override ros" "r \<in> set ros" "ro_job r = jid" "ro_active r"
  shows "find (\<lambda>r. ro_job r = jid \<and> ro_active r) ros = Some r"
proof (cases "find (\<lambda>r. ro_job r = jid \<and> ro_active r) ros")
  case None
  with assms show ?thesis by (auto simp: find_None_iff)
next
  case (Some r')
  then have "r' \<in> set ros" "ro_job r' = jid" "ro_active r'" by (auto dest: find_SomeD)
  then have "r = r'" using active_unique [OF assms(1,2)] assms(3,4) by simp
  with Some show ?thesis by simp
qed

lemma override_keeps_inv:
  assumes "apply_retry_schedule_override P q now uuid db = Inr (s, db')" "queue_inv db"
  shows "queue_inv db'"
  using assms(1)
proof (cases rule: applyE)
  case (replay mode r j)
  with assms(2) show ?thesis by simp
next
  case (recorded row)
  have "db_jobs db' = db_jobs db" by (subst recorded(7)) simp
  moreover have "db_overrides db' = db_overrides db @
      [override_row q KEEP_ORIGINAL row (j_available_at row) (j_available_at row) False now uuid]"
    using recorded(6) by (simp add: insert_override_Inr_iff)
  ultimately show ?thesis using assms(2) by (auto simp: queue_inv_iff intro!: one_active_append)
next
  case (applied mode row original effective r j)
  from applied(8) have ros: "db_overrides db' = deactivate_overrides (oq_job_id q) (db_overrides db) @
      [override_row q mode row original effective True now uuid]"
    by (simp add: insert_override_Inr_iff)
  have "one_active_override (db_overrides db')"
    unfolding ros by (rule one_active_append)
      (use assms(2) in \<open>auto simp: queue_inv_iff one_active_deactivate dest: deactivated_none\<close>)
  moreover have "db_jobs db' = sql_update (still_expected P q) (rescheduled_row effective now) (db_jobs db)"
    by (subst applied(9)) simp
  ultimately show ?thesis using assms(2) by (simp add: queue_inv_iff reschedule_jobs_ok)
qed


text \<open>An applied override, in terms of the tables.\<close>

lemma applied_tables:
  assumes "apply_retry_schedule_override P q now uuid db = Inr (s, db')" "queue_inv db"
    "strip (oq_request_id q) \<notin> ro_request ` set (db_overrides db)"
    "check_override_request q now = Inr mode" "mode \<noteq> KEEP_ORIGINAL \<or>
       (\<exists>r \<in> set (db_overrides db). ro_job r = oq_job_id q \<and> ro_active r)"
  obtains row original effective where
    "row \<in> set (db_jobs db)" "still_expected P q row"
    "\<And>r. r \<in> set (db_overrides db) \<Longrightarrow> ro_job r = oq_job_id q \<Longrightarrow> ro_active r \<Longrightarrow>
       original = ro_original_available_at r"
    "\<not> (\<exists>r \<in> set (db_overrides db). ro_job r = oq_job_id q \<and> ro_active r) \<Longrightarrow> original = j_available_at row"
    "effective_time mode original now (oq_requested_available_at q) = Some effective"
    "db_jobs db' = sql_update (still_expected P q) (rescheduled_row effective now) (db_jobs db)"
    "db_overrides db' = deactivate_overrides (oq_job_id q) (db_overrides db) @
       [override_row q mode row original effective True now uuid]"
  using assms(1)
proof (cases rule: applyE)
  case (replay m r j)
  then have "r \<in> set (db_overrides db)" "ro_request r = strip (oq_request_id q)"
    by (auto simp: existing_override_def split: option.splits dest: find_SomeD)
  with assms(3) show ?thesis by force
next
  case (recorded row)
  with assms(4,5) show ?thesis by (auto simp: find_None_iff)
next
  case (applied m row original effective r j)
  have one: "one_active_override (db_overrides db)" using assms(2) by (simp add: queue_inv_def)
  have m: "m = mode" using applied(1) assms(4) by simp
  have jobs: "db_jobs db' = sql_update (still_expected P q) (rescheduled_row effective now) (db_jobs db)"
    by (subst applied(9)) simp
  show ?thesis
  proof (rule that [OF applied(3,4) _ _ _ jobs])
    show "original = ro_original_available_at r"
      if "r \<in> set (db_overrides db)" "ro_job r = oq_job_id q" "ro_active r" for r
      using applied(5) find_active [OF one that] by simp
    show "original = j_available_at row"
      if "\<not> (\<exists>r \<in> set (db_overrides db). ro_job r = oq_job_id q \<and> ro_active r)"
      using applied(5) that find_None_iff [of _ "db_overrides db"]
      by (metis (mono_tags, lifting) option.simps(4))
  qed (use applied(7,8) m in \<open>simp_all add: insert_override_Inr_iff\<close>)
qed

lemma still_expected_unique:
  "queue_inv db \<Longrightarrow> row \<in> set (db_jobs db) \<Longrightarrow> still_expected P q row \<Longrightarrow> j \<in> set (db_jobs db) \<Longrightarrow>
   j_id j = oq_job_id q \<Longrightarrow> j = row"
  by (auto simp: queue_inv_def still_expected_def distinct_map inj_on_def)


section \<open>Properties of overrides\<close>

text \<open>
  An override that is applied moves the availability of exactly the job it names to the time
  its mode asks for, changes neither its state nor its attempt count nor any other job, retires
  the override that was active before and leaves one audit row, the only active one of the job.
\<close>

theorem override_moves_one_job:
  assumes "apply_retry_schedule_override P q now uuid db = Inr (s, db')" "queue_inv db"
    "strip (oq_request_id q) \<notin> ro_request ` set (db_overrides db)"
    "check_override_request q now = Inr mode" "mode \<noteq> KEEP_ORIGINAL"
  shows "\<exists>effective. \<exists>row \<in> set (db_jobs db). \<exists>r \<in> set (db_overrides db').
     effective_time mode (ro_original_available_at r) now (oq_requested_available_at q) = Some effective \<and>
     j_id row = oq_job_id q \<and> queued_or_backing_off row \<and>
     row\<lparr>j_available_at := effective, j_updated_at := now\<rparr> \<in> set (db_jobs db') \<and>
     (\<forall>j \<in> set (db_jobs db). j_id j \<noteq> oq_job_id q \<longrightarrow> j \<in> set (db_jobs db')) \<and>
     length (db_overrides db') = Suc (length (db_overrides db)) \<and>
     ro_request r = strip (oq_request_id q) \<and> ro_previous_available_at r = j_available_at row \<and>
     (\<forall>r' \<in> set (db_overrides db'). ro_job r' = oq_job_id q \<and> ro_active r' \<longleftrightarrow> r' = r) \<and>
     queue_inv db'"
proof -
  from assms have act0: "mode \<noteq> KEEP_ORIGINAL \<or>
       (\<exists>r \<in> set (db_overrides db). ro_job r = oq_job_id q \<and> ro_active r)" by simp
  obtain row original effective where
    row: "row \<in> set (db_jobs db)" "still_expected P q row"
    and origa: "\<And>r. r \<in> set (db_overrides db) \<Longrightarrow> ro_job r = oq_job_id q \<Longrightarrow> ro_active r \<Longrightarrow>
       original = ro_original_available_at r"
    and orig: "\<not> (\<exists>r \<in> set (db_overrides db). ro_job r = oq_job_id q \<and> ro_active r) \<Longrightarrow>
       original = j_available_at row"
    and e: "effective_time mode original now (oq_requested_available_at q) = Some effective"
    and jobs: "db_jobs db' = sql_update (still_expected P q) (rescheduled_row effective now) (db_jobs db)"
    and ros: "db_overrides db' = deactivate_overrides (oq_job_id q) (db_overrides db) @
       [override_row q mode row original effective True now uuid]"
    by (rule applied_tables [OF assms(1-4) act0], rule that)
  let ?r = "override_row q mode row original effective True now uuid"
  have moved: "rescheduled_row effective now row \<in> set (db_jobs db')"
    unfolding jobs by (rule sql_update_memI(1) [where p = "still_expected P q", OF row])
  have others: "j \<in> set (db_jobs db')" if "j \<in> set (db_jobs db)" "j_id j \<noteq> oq_job_id q" for j
    unfolding jobs by (rule sql_update_memI(2) [OF that(1)]) (use that(2) in \<open>simp add: still_expected_def\<close>)
  have only: "ro_job r' = oq_job_id q \<and> ro_active r' \<longleftrightarrow> r' = ?r"
    if "r' \<in> set (db_overrides db')" for r'
    using that unfolding ros by (auto dest: deactivated_none)
  have len: "length (db_overrides db') = Suc (length (db_overrides db))"
    by (simp add: ros deactivate_overrides_def length_sql_update)
  show ?thesis
    by (rule exI [of _ effective], rule bexI [OF _ row(1)], rule bexI [of _ ?r])
      (use row(2) e moved others only len override_keeps_inv [OF assms(1,2)] in
        \<open>simp_all add: ros still_expected_def rescheduled_row_def\<close>)
qed

text \<open>
  \<open>KEEP_ORIGINAL\<close> undoes an override: after any first override of a job, a request to keep
  the original schedule gives the job back the availability it had before that override.
\<close>

theorem keep_original_restores:
  assumes "queue_inv db" "row \<in> set (db_jobs db)" "j_id row = oq_job_id q"
    "\<forall>r \<in> set (db_overrides db). ro_job r = j_id row \<longrightarrow> \<not> ro_active r"
    "strip (oq_request_id q) \<notin> ro_request ` set (db_overrides db)"
    "check_override_request q now = Inr mode" "mode \<noteq> KEEP_ORIGINAL"
    "apply_retry_schedule_override P q now uuid db = Inr (s, db1)"
    "oq_job_id q2 = oq_job_id q" "strip (oq_request_id q2) \<notin> ro_request ` set (db_overrides db1)"
    "check_override_request q2 now2 = Inr KEEP_ORIGINAL"
    "apply_retry_schedule_override P q2 now2 uuid2 db1 = Inr (s2, db2)"
  shows "\<exists>j \<in> set (db_jobs db2). j_id j = j_id row \<and> j_available_at j = j_available_at row \<and>
     j_state j = j_state row \<and> j_attempt_count j = j_attempt_count row"
proof -
  from assms(7) have act0: "mode \<noteq> KEEP_ORIGINAL \<or>
       (\<exists>r \<in> set (db_overrides db). ro_job r = oq_job_id q \<and> ro_active r)" by simp
  obtain row1 original effective where
    row1: "row1 \<in> set (db_jobs db)" "still_expected P q row1"
    and origa: "\<And>r. r \<in> set (db_overrides db) \<Longrightarrow> ro_job r = oq_job_id q \<Longrightarrow> ro_active r \<Longrightarrow>
       original = ro_original_available_at r"
    and orig: "\<not> (\<exists>r \<in> set (db_overrides db). ro_job r = oq_job_id q \<and> ro_active r) \<Longrightarrow>
       original = j_available_at row1"
    and eff: "effective_time mode original now (oq_requested_available_at q) = Some effective"
    and jobs: "db_jobs db1 = sql_update (still_expected P q) (rescheduled_row effective now) (db_jobs db)"
    and ros: "db_overrides db1 = deactivate_overrides (oq_job_id q) (db_overrides db) @
       [override_row q mode row1 original effective True now uuid]"
    by (rule applied_tables [OF assms(8,1,5,6) act0], rule that)
  have same: "row1 = row" using still_expected_unique [OF assms(1) row1 assms(2,3)] by simp
  have original: "original = j_available_at row" using orig assms(3,4) same by auto
  have inv1: "queue_inv db1" by (rule override_keeps_inv [OF assms(8,1)])
  let ?r = "override_row q mode row1 original effective True now uuid"
  have r: "?r \<in> set (db_overrides db1)" by (simp add: ros)
  then have act: "KEEP_ORIGINAL \<noteq> KEEP_ORIGINAL \<or>
       (\<exists>r \<in> set (db_overrides db1). ro_job r = oq_job_id q2 \<and> ro_active r)"
    using assms(9) by (intro disjI2 bexI [OF _ r]) simp
  obtain row2 original2 effective2 where
    row2: "row2 \<in> set (db_jobs db1)" "still_expected P q2 row2"
    and orig2a: "\<And>r. r \<in> set (db_overrides db1) \<Longrightarrow> ro_job r = oq_job_id q2 \<Longrightarrow> ro_active r \<Longrightarrow>
       original2 = ro_original_available_at r"
    and orig2: "\<not> (\<exists>r \<in> set (db_overrides db1). ro_job r = oq_job_id q2 \<and> ro_active r) \<Longrightarrow>
       original2 = j_available_at row2"
    and eff2: "effective_time KEEP_ORIGINAL original2 now2 (oq_requested_available_at q2) = Some effective2"
    and jobs2: "db_jobs db2 = sql_update (still_expected P q2) (rescheduled_row effective2 now2) (db_jobs db1)"
    and ros2: "db_overrides db2 = deactivate_overrides (oq_job_id q2) (db_overrides db1) @
       [override_row q2 KEEP_ORIGINAL row2 original2 effective2 True now2 uuid2]"
    by (rule applied_tables [OF assms(12) inv1 assms(10,11) act], rule that)
  have "rescheduled_row effective now row \<in> set (db_jobs db1)"
    unfolding jobs by (rule sql_update_memI(1)) (use row1 same in simp_all)
  then have row2_eq: "rescheduled_row effective now row = row2"
    using still_expected_unique [OF inv1 row2] assms(3,9) by simp
  have "effective2 = j_available_at row"
    using orig2a [OF r] eff2 assms(9) original by simp
  moreover have "rescheduled_row effective2 now2 row2 \<in> set (db_jobs db2)"
    unfolding jobs2 by (rule sql_update_memI(1) [where p = "still_expected P q2", OF row2])
  ultimately show ?thesis by (intro bexI [of _ "rescheduled_row effective2 now2 row2"])
    (simp_all add: row2_eq [symmetric])
qed

text \<open>
  A request identifier is used once: repeating a successful request, at any later time its
  guards accept, returns the schedule and changes nothing.
\<close>

theorem override_request_is_idempotent:
  assumes "apply_retry_schedule_override P q now uuid db = Inr (s, db')" "queue_inv db"
    "check_override_request q now' = Inr mode'"
  shows "\<exists>s'. apply_retry_schedule_override P q now' uuid' db' = Inr (s', db')"
proof -
  have "\<exists>r j. existing_override (strip (oq_request_id q)) db' = Some (r, j) \<and> j_id j = oq_job_id q"
    using assms(1)
  proof (cases rule: applyE)
    case (replay mode r j)
    then show ?thesis by blast
  next
    case (recorded row)
    have jobs: "db_jobs db' = db_jobs db" by (subst recorded(7)) simp
    have "row \<in> set (db_jobs db')" "j_id row = oq_job_id q"
      using recorded(3,4) jobs by (simp_all add: still_expected_def)
    then show ?thesis using recorded(6) by (intro lookup_appended) (auto simp: insert_override_Inr_iff)
  next
    case (applied mode row original effective r j)
    have jobs: "db_jobs db' = sql_update (still_expected P q) (rescheduled_row effective now) (db_jobs db)"
      by (subst applied(9)) simp
    have "rescheduled_row effective now row \<in> set (db_jobs db')" unfolding jobs
      by (rule sql_update_memI(1) [where p = "still_expected P q", OF applied(3,4)])
    moreover have "j_id (rescheduled_row effective now row) = oq_job_id q"
      using applied(4) by (simp add: still_expected_def)
    ultimately show ?thesis using applied(8)
      by (intro lookup_appended [where j = "rescheduled_row effective now row"])
        (auto simp: insert_override_Inr_iff)
  qed
  with assms(3) show ?thesis
    by (auto simp: apply_retry_schedule_override_def override_locked_def)
qed

subsection \<open>Witnesses\<close>

definition sample_override :: "string \<Rightarrow> string \<Rightarrow> string \<Rightarrow> override_request" where
  "sample_override rid mode expected = \<lparr>oq_request_id = rid, oq_job_id = ''job-1'',
     oq_operator_id = ''op'', oq_mode = mode, oq_reason = ''why'', oq_expected_state = ''QUEUED'',
     oq_expected_available_at = expected, oq_requested_available_at = None\<rparr>"


lemma sample_texts:
  "strip ''r1'' = ''r1''" "strip ''r2'' = ''r2''" "strip ''op'' = ''op''"
  "join '' '' (split_ws ''why'') = ''why''"
  "mode_of (upper (strip ''immediate'')) = Some RETRY_IMMEDIATE"
  "mode_of (upper (strip ''KEEP_ORIGINAL'')) = Some KEEP_ORIGINAL"
  by code_simp+

lemma sample_override_checked:
  "check_override_request (sample_override ''r1'' ''immediate'' ''0'') now = Inr RETRY_IMMEDIATE"
  "check_override_request (sample_override ''r2'' ''KEEP_ORIGINAL'' ''70'') now = Inr KEEP_ORIGINAL"
  by (simp_all add: check_override_request_def sample_override_def Let_def sample_texts)

definition sample_overridden :: "retry_snapshot \<times> scheduler_db" where
  "sample_overridden =
     projr (apply_retry_schedule_override sample_platform (sample_override ''r1'' ''immediate'' ''0'') 70 ''u1''
       sample_db)"

lemma sample_overridden_runs:
  "\<not> isl (apply_retry_schedule_override sample_platform (sample_override ''r1'' ''immediate'' ''0'') 70 ''u1'' sample_db)"
  "\<not> isl (apply_retry_schedule_override sample_platform (sample_override ''r2'' ''KEEP_ORIGINAL'' ''70'') 80 ''u2''
     (snd sample_overridden))"
  "strip (oq_request_id (sample_override ''r2'' ''KEEP_ORIGINAL'' ''70'')) \<notin>
     ro_request ` set (db_overrides (snd sample_overridden))"
  by code_simp+

lemmas sample_overridden =
  run_succeeds [OF sample_overridden_runs(1), folded sample_overridden_def]
  run_succeeds [OF sample_overridden_runs(2)]

theorem override_moves_one_job_witness:
  "\<exists>r \<in> set (db_overrides (snd sample_overridden)). ro_previous_available_at r = 0"
proof -
  have "strip (oq_request_id (sample_override ''r1'' ''immediate'' ''0'')) \<notin> ro_request ` set (db_overrides sample_db)"
    by (simp add: sample_defs)
  from override_moves_one_job [OF sample_overridden(1) sample_inv(1) this sample_override_checked(1)]
  show ?thesis by (auto simp: sample_defs)
qed

theorem keep_original_restores_witness:
  "\<exists>db2 :: scheduler_db. \<exists>j \<in> set (db_jobs db2). j_id j = ''job-1'' \<and> j_available_at j = 0"
proof -
  obtain s2 db2 where b: "apply_retry_schedule_override sample_platform
      (sample_override ''r2'' ''KEEP_ORIGINAL'' ''70'') 80 ''u2'' (snd sample_overridden) = Inr (s2, db2)"
    by (rule that [OF sample_overridden(2)])
  note keep = keep_original_restores [OF sample_inv(1) _ _ _ _ sample_override_checked(1) _
      sample_overridden(1) _ sample_overridden_runs(3) sample_override_checked(2) b, of sample_job]
  have "sample_job \<in> set (db_jobs sample_db)" "\<forall>r \<in> set (db_overrides sample_db). ro_job r = j_id sample_job \<longrightarrow> \<not> ro_active r"
    "strip (oq_request_id (sample_override ''r1'' ''immediate'' ''0'')) \<notin> ro_request ` set (db_overrides sample_db)"
    by (simp_all add: sample_db_def empty_db_def)
  moreover have "j_id sample_job = oq_job_id (sample_override ''r1'' ''immediate'' ''0'')"
    "oq_job_id (sample_override ''r2'' ''KEEP_ORIGINAL'' ''70'') = oq_job_id (sample_override ''r1'' ''immediate'' ''0'')"
    by (simp_all add: sample_job_def sample_override_def)
  ultimately have "\<exists>j \<in> set (db_jobs db2). j_id j = j_id sample_job \<and> j_available_at j = j_available_at sample_job \<and>
     j_state j = j_state sample_job \<and> j_attempt_count j = j_attempt_count sample_job"
    by (intro keep) simp_all
  then have "\<exists>j \<in> set (db_jobs db2). j_id j = ''job-1'' \<and> j_available_at j = 0" by (auto simp: sample_defs)
  then show ?thesis by (rule exI [where x = db2])
qed

theorem override_request_is_idempotent_witness:
  "\<exists>s'. apply_retry_schedule_override sample_platform (sample_override ''r1'' ''immediate'' ''0'') 99 ''u9''
     (snd sample_overridden) = Inr (s', snd sample_overridden)"
proof -
  from override_request_is_idempotent [OF sample_overridden(1) sample_inv(1) sample_override_checked(1)] show ?thesis .
qed

end
