(* ===== verification/Job_Lifecycle.thy ===== *)
theory Job_Lifecycle
  imports Retry_Override
begin

text \<open>
  The queue as a state machine. Workers, the enqueuers and operators run their transactions in any
  order and with any clock readings; SQLite serialises them, so a history of the queue is a
  sequence of the operations of \<^verbatim>\<open>Job_Queue\<close> and \<^verbatim>\<open>Retry_Override\<close>. These nine actions are the
  workers', the enqueuers' and the operators'; the maintenance that \<open>sync_pending_jobs\<close> runs on the same
  table (lanes, provenance, recoveries, transitions, reconciliation) joins them in
  \<^verbatim>\<open>Scheduler_History\<close>, where the properties of leases and of the life cycle are stated. The abstract
  specification gives, for each action, the moves that it may make a job undergo.
\<close>

section \<open>Steps and histories\<close>

datatype queue_action =
    Enqueue enqueue_request instant
  | Claim claim_args instant
  | Complete string string instant instant
  | Release string string instant "string option" instant
  | Backoff string string instant string bool instant
  | Defer string string instant string instant
  | RecordAttempt scheduled_job api_credential status instant
  | RecordDeferral scheduled_job api_credential status instant
  | Override override_request instant string

inductive queue_step :: "platform \<Rightarrow> scheduler_db \<Rightarrow> queue_action \<Rightarrow> scheduler_db \<Rightarrow> bool"
  for P :: platform where
  enqueue: "enqueue_job P q now db = Inr (jid, db') \<Longrightarrow> queue_step P db (Enqueue q now) db'"
| claim: "claim_job a now db = Inr (r, db') \<Longrightarrow> queue_step P db (Claim a now) db'"
| complete: "complete_job jid w now clock db = Inr db' \<Longrightarrow> queue_step P db (Complete jid w now clock) db'"
| release: "release_job jid w av err clock db = Inr db' \<Longrightarrow> queue_step P db (Release jid w av err clock) db'"
| backoff: "backoff_job jid w av err dead clock db = Inr db' \<Longrightarrow>
    queue_step P db (Backoff jid w av err dead clock) db'"
| maintain: "defer_job_for_maintenance jid w av reason clock db = Inr db' \<Longrightarrow>
    queue_step P db (Defer jid w av reason clock) db'"
| attempt: "record_job_attempt P sj cr st t db = Inr db' \<Longrightarrow> queue_step P db (RecordAttempt sj cr st t) db'"
| deferral: "record_scheduler_deferral P sj cr st t db = Inr db' \<Longrightarrow>
    queue_step P db (RecordDeferral sj cr st t) db'"
| override: "apply_retry_schedule_override P q now uuid db = Inr (s, db') \<Longrightarrow>
    queue_step P db (Override q now uuid) db'"

inductive_simps queue_step_simps:
  "queue_step P db (Enqueue q now) db'"
  "queue_step P db (Claim a now) db'"
  "queue_step P db (Complete jid w now clock) db'"
  "queue_step P db (Release jid w av err clock) db'"
  "queue_step P db (Backoff jid w av err dead clock) db'"
  "queue_step P db (Defer jid w av reason clock) db'"
  "queue_step P db (Override q now uuid) db'"

inductive queue_history :: "platform \<Rightarrow> scheduler_db \<Rightarrow> queue_action list \<Rightarrow> scheduler_db \<Rightarrow> bool"
  for P :: platform where
  start: "queue_history P db [] db"
| then_step: "queue_history P db acts db1 \<Longrightarrow> queue_step P db1 a db2 \<Longrightarrow> queue_history P db (acts @ [a]) db2"

section \<open>The invariant of every history\<close>

lemma queue_step_inv: "queue_step P db a db' \<Longrightarrow> queue_inv db \<Longrightarrow> queue_inv db'"
proof (induction rule: queue_step.induct)
  case (attempt sj cr st t db db')
  then show ?case using record_attempt_frame by (metis queue_inv_def)
next
  case (deferral sj cr st t db db')
  then show ?case using record_deferral_frame by (metis queue_inv_def)
qed (blast intro: enqueue_job_inv claim_job_inv complete_job_inv release_job_inv backoff_job_inv
      defer_job_inv override_keeps_inv)+

lemma queue_history_inv: "queue_history P db acts db' \<Longrightarrow> queue_inv db \<Longrightarrow> queue_inv db'"
  by (induction rule: queue_history.induct) (auto intro: queue_step_inv)

section \<open>What an action does to a row\<close>

text \<open>
  One table evolves into another when each row keeps its place, its identifier and its identity, is
  changed as a relation on rows allows, and new rows follow; and when this keeps the table well formed.
\<close>

definition evolves :: "(job \<Rightarrow> job \<Rightarrow> bool) \<Rightarrow> job list \<Rightarrow> job list \<Rightarrow> bool" where
  "evolves R jobs jobs' \<longleftrightarrow>
     (\<exists>f new. jobs' = map f jobs @ new \<and>
        (\<forall>j \<in> set jobs. j_id (f j) = j_id j \<and> job_identity (f j) = job_identity j \<and> R j (f j))) \<and>
     (jobs_ok jobs \<longrightarrow> jobs_ok jobs')"

lemma evolvesE:
  assumes "evolves R jobs jobs'" "j \<in> set jobs"
  obtains k where "k \<in> set jobs'" "j_id k = j_id j" "job_identity k = job_identity j" "R j k"
  using assms by (fastforce simp: evolves_def)

lemma evolvesI:
  assumes "jobs' = map f jobs @ new"
    "\<And>j. j \<in> set jobs \<Longrightarrow> j_id (f j) = j_id j \<and> job_identity (f j) = job_identity j \<and> R j (f j)"
    "jobs_ok jobs \<Longrightarrow> jobs_ok jobs'"
  shows "evolves R jobs jobs'"
  using assms unfolding evolves_def by blast

lemma evolves_ok: "evolves R jobs jobs' \<Longrightarrow> jobs_ok jobs \<Longrightarrow> jobs_ok jobs'"
  by (simp add: evolves_def)

lemma evolves_refl: "(\<And>j. j \<in> set jobs \<Longrightarrow> R j j) \<Longrightarrow> evolves R jobs jobs"
  unfolding evolves_def by (intro conjI exI [of _ id] exI [of _ "[]"]) simp_all

lemma evolves_mono: "evolves R a b \<Longrightarrow> (\<And>x y. x \<in> set a \<Longrightarrow> R x y \<Longrightarrow> S x y) \<Longrightarrow> evolves S a b"
  unfolding evolves_def by (elim conjE exE, intro conjI exI) auto

lemma evolves_trans:
  assumes "evolves R a b" "evolves S b c" "\<And>x y z. x \<in> set a \<Longrightarrow> R x y \<Longrightarrow> S y z \<Longrightarrow> T x z"
  shows "evolves T a c"
proof -
  from assms(1) obtain f new where f: "b = map f a @ new"
    "\<forall>j \<in> set a. j_id (f j) = j_id j \<and> job_identity (f j) = job_identity j \<and> R j (f j)"
    by (auto simp: evolves_def)
  from assms(2) obtain g new' where g: "c = map g b @ new'"
    "\<forall>j \<in> set b. j_id (g j) = j_id j \<and> job_identity (g j) = job_identity j \<and> S j (g j)"
    by (auto simp: evolves_def)
  show ?thesis
  proof (rule evolvesI)
    show "c = map (\<lambda>j. g (f j)) a @ (map g new @ new')" by (simp add: f(1) g(1) comp_def)
  next
    fix j assume j: "j \<in> set a"
    then have "f j \<in> set b" by (simp add: f(1))
    with j f(2) g(2) assms(3) [OF j] show
      "j_id (g (f j)) = j_id j \<and> job_identity (g (f j)) = job_identity j \<and> T j (g (f j))" by metis
  qed (blast intro: evolves_ok [OF assms(1)] evolves_ok [OF assms(2)])
qed

lemma evolves_update:
  assumes "\<And>j. j_id (f j) = j_id j" "\<And>j. job_identity (f j) = job_identity j"
    "\<And>j. p j \<Longrightarrow> job_ok j \<Longrightarrow> job_ok (f j)"
    "\<And>j. j \<in> set jobs \<Longrightarrow> p j \<Longrightarrow> R j (f j)" "\<And>j. j \<in> set jobs \<Longrightarrow> \<not> p j \<Longrightarrow> R j j"
  shows "evolves R jobs (sql_update p f jobs)"
  unfolding evolves_def
proof (intro conjI exI impI)
  show "sql_update p f jobs = map (\<lambda>j. if p j then f j else j) jobs @ []" by (simp add: sql_update_def)
  show "jobs_ok (sql_update p f jobs)" if "jobs_ok jobs" by (rule jobs_ok_update [OF that assms(1,2,3)])
qed (use assms in simp)

lemma evolves_insert:
  assumes "job_ok new" "\<And>j. R j j"
  shows "evolves R jobs (insert_job new jobs)"
  unfolding evolves_def
proof (intro conjI exI impI)
  show "insert_job new jobs = map id jobs @ (if conflicts new jobs then [] else [new])"
    using insert_job_new [of new jobs]
    by (auto simp: insert_job_def sql_insert_ignore_def list_ex_iff conflicts_def)
  show "jobs_ok (insert_job new jobs)" if "jobs_ok jobs" by (rule jobs_ok_insert [OF that assms(1)])
qed (use assms(2) in simp)

section \<open>The abstract life cycle\<close>

text \<open>
  The moves of a job under each action, by its identifier and its state before and after. A transition
  of a lease moves the job it names and no other; a claim may lease a waiting job and gives back
  expired leases; an enqueue reopens completed work only when it asks for it.
\<close>

fun queue_moves :: "queue_action \<Rightarrow> string \<Rightarrow> job_state \<Rightarrow> job_state \<Rightarrow> bool" where
  "queue_moves (Enqueue q now) jid s s' = (s' = s \<or> (s = COMPLETED \<and> eq_reopen_completed q \<and> s' = QUEUED))"
| "queue_moves (Claim a now) jid s s' =
     (s' = s \<or> (s = LEASED \<and> s' = QUEUED) \<or> ((s = QUEUED \<or> s = BACKING_OFF) \<and> s' = LEASED))"
| "queue_moves (Complete i w now clock) jid s s' = (if jid = i then s = LEASED \<and> s' = COMPLETED else s' = s)"
| "queue_moves (Release i w av err clock) jid s s' = (if jid = i then s = LEASED \<and> s' = QUEUED else s' = s)"
| "queue_moves (Backoff i w av err dead clock) jid s s' =
     (if jid = i then s = LEASED \<and> s' = (if dead then DEAD_LETTER else BACKING_OFF) else s' = s)"
| "queue_moves (Defer i w av reason clock) jid s s' = (if jid = i then s = LEASED \<and> s' = QUEUED else s' = s)"
| "queue_moves (RecordAttempt sj cr st t) jid s s' = (s' = s)"
| "queue_moves (RecordDeferral sj cr st t) jid s s' = (s' = s)"
| "queue_moves (Override q now uuid) jid s s' = (s' = s)"

text \<open>The leased and final rows that an action may change.\<close>

fun queue_touches :: "queue_action \<Rightarrow> job \<Rightarrow> bool" where
  "queue_touches (Enqueue q now) j = (j_state j = COMPLETED \<and> eq_reopen_completed q)"
| "queue_touches (Claim a now) j = (j_state j = LEASED \<and> (\<exists>e. j_lease_expires_at j = Some e \<and> e \<le> now))"
| "queue_touches (Complete i w now clock) j = owns_lease i w j"
| "queue_touches (Release i w av err clock) j = owns_lease i w j"
| "queue_touches (Backoff i w av err dead clock) j = owns_lease i w j"
| "queue_touches (Defer i w av reason clock) j = owns_lease i w j"
| "queue_touches _ j = False"

definition queue_turn :: "queue_action \<Rightarrow> job \<Rightarrow> job \<Rightarrow> bool" where
  "queue_turn a j k \<longleftrightarrow> queue_moves a (j_id j) (j_state j) (j_state k) \<and>
     (queued_or_backing_off j \<or> queue_touches a j \<or> k = j)"

lemma evolves_requeue:
  "evolves (\<lambda>j k. k = j \<or> (queue_touches (Claim a now) j \<and> j_state k = QUEUED)) jobs (requeue_expired now jobs)"
  unfolding requeue_expired_def
  by (rule evolves_update) (auto simp: job_identity_def job_inv_defs split: option.splits)

lemma evolves_lease:
  "evolves (\<lambda>j k. k = j \<or> (queued_or_backing_off j \<and> j_state k = LEASED)) jobs (lease_job jid w e now jobs)"
  unfolding lease_job_def
  by (rule evolves_update) (auto simp: job_identity_def job_inv_defs)

lemma claim_evolves:
  assumes "claim_job a now db = Inr (r, db')" "queue_inv db"
  shows "evolves (queue_turn (Claim a now)) (db_jobs db) (db_jobs db')"
  using assms(1)
proof (cases rule: claim_jobE)
  case nothing
  then show ?thesis by (simp add: evolves_refl queue_turn_def)
next
  case (locked q)
  have dist: "distinct (map j_id (db_jobs db))" using assms(2) by (simp add: queue_inv_def)
  from locked(3) dist show ?thesis
  proof (cases rule: claim_lockedE)
    case none
    have "evolves (queue_turn (Claim a now)) (db_jobs db) (requeue_expired now (db_jobs db))"
      by (rule evolves_mono [OF evolves_requeue [of a]]) (auto simp: queue_turn_def)
    with none locked(2) show ?thesis by simp
  next
    case (claimed row)
    have "evolves (queue_turn (Claim a now)) (db_jobs db)
       (lease_job (j_id row) (cl_worker a) (now + seconds (max 30 (cl_lease_seconds a))) now (requeue_expired now (db_jobs db)))"
      by (rule evolves_trans [OF evolves_requeue [of a] evolves_lease])
        (auto simp: queue_turn_def queued_or_backing_off_def)
    with claimed locked(2) show ?thesis by simp
  qed
qed

text \<open>The row of a lease that a transition names is the only one with its identifier.\<close>

lemma named_row:
  assumes "queue_inv db" "k \<in> set (db_jobs db)" "owns_lease jid w k" "j \<in> set (db_jobs db)" "j_id j = jid"
  shows "j = k"
  using assms by (auto simp: queue_inv_def distinct_map inj_on_def owns_lease_def)

lemma transition_evolves:
  assumes "transition_leased_job jid w st av err co clock db = Inr db'" "queue_inv db"
    "st \<noteq> LEASED" "co \<noteq> None \<longleftrightarrow> terminal_state st"
  shows "evolves (\<lambda>j k. if j_id j = jid then owns_lease jid w j \<and> j_state j = LEASED \<and> j_state k = st else k = j)
     (db_jobs db) (db_jobs db')"
  using assms(1)
proof (cases rule: transitionE)
  case (1 j)
  have "evolves (\<lambda>j k. if j_id j = jid then owns_lease jid w j \<and> j_state j = LEASED \<and> j_state k = st else k = j)
      (db_jobs db) (sql_update (owns_lease jid w) (moved_row st av err co clock) (db_jobs db))"
  proof (rule evolves_update)
    show "if j_id k = jid then owns_lease jid w k \<and> j_state k = LEASED \<and> j_state k = st else k = k"
      if "k \<in> set (db_jobs db)" "\<not> owns_lease jid w k" for k
      using named_row [OF assms(2) 1(1,2) that(1)] that(2) 1(2) by auto
  qed (use assms(3,4) in \<open>auto simp: moved_row_def job_identity_def job_inv_defs owns_lease_def\<close>)
  with 1(3) show ?thesis by simp
qed

lemma defer_evolves:
  assumes "defer_job_for_maintenance jid w av reason clock db = Inr db'" "queue_inv db"
  shows "evolves (queue_turn (Defer jid w av reason clock)) (db_jobs db) (db_jobs db')"
  using assms(1)
proof (cases rule: deferE)
  case (1 j)
  let ?hit = "\<lambda>j. owns_lease jid w j \<and> 0 < j_attempt_count j"
  have "evolves (queue_turn (Defer jid w av reason clock)) (db_jobs db)
      (sql_update ?hit (deferred_row av reason clock) (db_jobs db))"
  proof (rule evolves_update)
    show "queue_turn (Defer jid w av reason clock) k k"
      if "k \<in> set (db_jobs db)" "\<not> ?hit k" for k
      using named_row [OF assms(2) 1(1,2) that(1)] that(2) 1(2,3) by (auto simp: queue_turn_def)
  qed (auto simp: queue_turn_def deferred_row_def job_identity_def job_inv_defs owns_lease_def)
  with 1(4) show ?thesis by simp
qed

lemma override_evolves:
  assumes "apply_retry_schedule_override P q now uuid db = Inr (s, db')"
  shows "evolves (queue_turn (Override q now uuid)) (db_jobs db) (db_jobs db')"
  using assms
proof (cases rule: applyE)
  case (replay mode r j)
  then show ?thesis by (simp add: evolves_refl queue_turn_def)
next
  case (recorded row)
  have "db_jobs db' = db_jobs db" by (subst recorded(7)) simp
  then show ?thesis by (simp add: evolves_refl queue_turn_def)
next
  case (applied mode row original effective r j)
  have "db_jobs db' = sql_update (still_expected P q) (rescheduled_row effective now) (db_jobs db)"
    by (subst applied(9)) simp
  moreover have "evolves (queue_turn (Override q now uuid)) (db_jobs db)
      (sql_update (still_expected P q) (rescheduled_row effective now) (db_jobs db))"
    by (rule evolves_update)
      (auto simp: queue_turn_def rescheduled_row_def job_identity_def job_inv_defs still_expected_def)
  ultimately show ?thesis by simp
qed

lemma evolves_reclassify:
  "evolves (\<lambda>j k. k = j \<or> (queued_or_backing_off j \<and> j_state k = j_state j)) jobs
     (reclassify_job jid lane prio prov jobs)"
  unfolding reclassify_job_def by (rule evolves_update) (auto simp: job_identity_def job_inv_defs)

lemma evolves_reopen:
  "evolves (\<lambda>j k. k = j \<or> (j_state j = COMPLETED \<and> j_state k = QUEUED)) jobs (reopen_job jid now jobs)"
  unfolding reopen_job_def by (rule evolves_update) (auto simp: job_identity_def job_inv_defs)

lemma enqueue_evolves:
  assumes "enqueue_job P q now db = Inr (jid, db')"
  shows "evolves (queue_turn (Enqueue q now)) (db_jobs db) (db_jobs db')"
  using assms
proof (cases rule: enqueue_jobE)
  case (1 task prio lane prov)
  have a: "evolves (\<lambda>j k. k = j \<or> (queued_or_backing_off j \<and> j_state k = j_state j)) (db_jobs db)
      (reclassify_job jid lane prio prov (insert_job (new_job q jid task prio lane prov now) (db_jobs db)))"
    by (rule evolves_trans [OF evolves_insert [where R = "(=)"] evolves_reclassify]) (simp_all add: job_ok_new_job)
  show ?thesis
  proof (cases "eq_reopen_completed q")
    case True
    have "evolves (queue_turn (Enqueue q now)) (db_jobs db)
      (reopen_job jid now (reclassify_job jid lane prio prov (insert_job (new_job q jid task prio lane prov now) (db_jobs db))))"
      by (rule evolves_trans [OF a evolves_reopen]) (use True in \<open>auto simp: queue_turn_def queued_or_backing_off_def\<close>)
    with True 1(6) show ?thesis by simp
  next
    case False
    have "evolves (queue_turn (Enqueue q now)) (db_jobs db)
      (reclassify_job jid lane prio prov (insert_job (new_job q jid task prio lane prov now) (db_jobs db)))"
      by (rule evolves_mono [OF a]) (auto simp: queue_turn_def)
    with False 1(6) show ?thesis by simp
  qed
qed

lemma queue_step_evolves:
  assumes "queue_step P db a db'" "queue_inv db"
  shows "evolves (queue_turn a) (db_jobs db) (db_jobs db')"
  using assms
proof (induction rule: queue_step.induct)
  case (attempt sj cr st t db db')
  then show ?case using record_attempt_frame [OF attempt(1)] by (simp add: evolves_refl queue_turn_def)
next
  case (deferral sj cr st t db db')
  then show ?case using record_deferral_frame [OF deferral(1)] by (simp add: evolves_refl queue_turn_def)
next
  case (complete jid w now clock db db')
  show ?case
    by (rule evolves_mono [OF transition_evolves [OF complete(1) [unfolded complete_job_def] complete(2)]])
      (auto simp: terminal_state_def queue_turn_def split: if_splits)
next
  case (release jid w av err clock db db')
  show ?case
    by (rule evolves_mono [OF transition_evolves [OF release(1) [unfolded release_job_def] release(2)]])
      (auto simp: terminal_state_def queue_turn_def split: if_splits)
next
  case (backoff jid w av err dead clock db db')
  show ?case
    by (rule evolves_mono [OF transition_evolves [OF backoff(1) [unfolded backoff_job_def] backoff(2)]])
      (auto simp: terminal_state_def queue_turn_def split: if_splits)
qed (auto intro: enqueue_evolves claim_evolves defer_evolves override_evolves)

section \<open>Final states along a history\<close>

definition may_reopen :: "queue_action \<Rightarrow> bool" where
  "may_reopen a = (case a of Enqueue q _ \<Rightarrow> eq_reopen_completed q | _ \<Rightarrow> False)"

lemma final_touched:
  "queue_touches a j \<Longrightarrow> terminal_state (j_state j) \<Longrightarrow> j_state j = COMPLETED \<and> may_reopen a"
  by (cases a) (simp_all add: may_reopen_def owns_lease_def terminal_state_def)

text \<open>
  A final job stays final under the nine actions above: no history of them changes a dead-lettered
  row, or a completed row unless one of its enqueues asks to reopen completed work; and every history
  keeps the table invariant. (The maintenance of \<^verbatim>\<open>Scheduler_History\<close> can reopen both.)
\<close>

theorem final_jobs_stay:
  assumes "queue_history P db acts db'" "queue_inv db"
  shows "queue_inv db' \<and>
     (\<forall>j \<in> set (db_jobs db). j_state j = DEAD_LETTER \<or>
        (j_state j = COMPLETED \<and> (\<forall>a \<in> set acts. \<not> may_reopen a)) \<longrightarrow> j \<in> set (db_jobs db'))"
proof (intro conjI ballI impI)
  show "queue_inv db'" by (rule queue_history_inv [OF assms])
next
  fix j
  assume "j \<in> set (db_jobs db)" "j_state j = DEAD_LETTER \<or>
      (j_state j = COMPLETED \<and> (\<forall>a \<in> set acts. \<not> may_reopen a))"
  with assms show "j \<in> set (db_jobs db')"
  proof (induction rule: queue_history.induct)
    case (start db)
    then show ?case by simp
  next
    case (then_step db acts db1 a db2)
    have inv1: "queue_inv db1" by (rule queue_history_inv [OF then_step(1,4)])
    have j1: "j \<in> set (db_jobs db1)" using then_step by auto
    obtain k where k: "k \<in> set (db_jobs db2)" "queue_turn a j k"
      by (rule evolvesE [OF queue_step_evolves [OF then_step(2) inv1] j1])
    have "terminal_state (j_state j)" "\<not> queued_or_backing_off j"
      using then_step(6) by (auto simp: terminal_state_def queued_or_backing_off_def)
    with k(2) final_touched [of a j] then_step(6) have "k = j" by (auto simp: queue_turn_def)
    with k(1) show ?case by simp
  qed
qed

subsection \<open>Witnesses\<close>

definition sample_rival :: claim_args where
  "sample_rival = sample_claim\<lparr>cl_worker := ''rival''\<rparr>"


definition sample_leased_db :: scheduler_db where
  "sample_leased_db = sample_db\<lparr>db_jobs := [sample_leased]\<rparr>"

lemma sample_leased_db: "queue_inv sample_leased_db" "sample_leased \<in> set (db_jobs sample_leased_db)"
  using sample_leased_inv by (simp_all add: sample_leased_db_def)

lemma sample_rival_runs: "\<not> isl (claim_job sample_rival (seconds 20) sample_leased_db)"
  by code_simp

lemma sample_history:
  obtains db' where "queue_history P sample_leased_db [Claim sample_rival (seconds 20)] db'"
proof -
  have "queue_step P sample_leased_db (Claim sample_rival (seconds 20))
      (snd (projr (claim_job sample_rival (seconds 20) sample_leased_db)))"
    by (rule queue_step.claim [OF run_succeeds [OF sample_rival_runs]])
  with queue_history.then_step [OF queue_history.start] that show ?thesis by fastforce
qed

definition sample_dead :: job where
  "sample_dead = sample_job\<lparr>j_state := DEAD_LETTER, j_completed_at := Some 5\<rparr>"

definition sample_dead_db :: scheduler_db where
  "sample_dead_db = sample_db\<lparr>db_jobs := [sample_dead]\<rparr>"

lemma sample_dead_runs: "\<not> isl (claim_job sample_claim (seconds 20) sample_dead_db)"
  by code_simp

theorem final_jobs_stay_witness:
  "\<exists>db' :: scheduler_db. queue_inv db' \<and> sample_dead \<in> set (db_jobs db')"
proof -
  have "queue_step sample_platform sample_dead_db (Claim sample_claim (seconds 20))
      (snd (projr (claim_job sample_claim (seconds 20) sample_dead_db)))"
    by (rule queue_step.claim [OF run_succeeds [OF sample_dead_runs]])
  with queue_history.then_step [OF queue_history.start] obtain db' where
    h: "queue_history sample_platform sample_dead_db [Claim sample_claim (seconds 20)] db'" by fastforce
  have "queue_inv sample_dead_db" "sample_dead \<in> set (db_jobs sample_dead_db)" "j_state sample_dead = DEAD_LETTER"
    by (simp_all add: queue_inv_def sample_dead_db_def sample_dead_def sample_defs job_inv_defs
        one_active_override_def)
  with final_jobs_stay [OF h] show ?thesis by (intro exI [where x = db']) simp
qed

end
