(* ===== verification/Token_Calibration.thy ===== *)
theory Token_Calibration
  imports Sample_Data "HOL-Library.Multiset"
begin

text \<open>
  Rolling usage and token calibration of \<^verbatim>\<open>xauusd_news/news/scheduler/state.py\<close>: the requests and
  tokens of the trailing minute, the first instant at which a request fits it, and the learned
  ratio between estimated and provider-counted input tokens. Float arithmetic is real arithmetic
  rounded by \<open>fl\<close>; the laws of rounding that the bounds rely on are \<open>binary64_rounding\<close>.
\<close>

section \<open>The rolling minute\<close>

definition usage_in_scope :: "string \<Rightarrow> string list \<Rightarrow> bool \<Rightarrow> request_usage \<Rightarrow> bool" where
  "usage_in_scope account families share r \<longleftrightarrow>
     (share \<or> ru_account r = account) \<and> ru_model r \<in> set families"

definition rolling_account_usage ::
    "string \<Rightarrow> string list \<Rightarrow> instant \<Rightarrow> bool \<Rightarrow> request_usage list \<Rightarrow> int \<times> int" where
  "rolling_account_usage account families now share rows =
     (let window = (\<lambda>r. now - seconds 60 < ru_reserved_at r \<and> ru_reserved_at r \<le> now \<and>
                        usage_in_scope account (dedupe families) share r)
      in (sql_sum ru_count window rows, sql_sum effective_input_tokens window rows))"

text \<open>The loop of \<open>_minute_capacity_next_eligible\<close> over the expiries of the recorded requests.\<close>

definition admits_at ::
    "request_usage list \<Rightarrow> int \<Rightarrow> int \<Rightarrow> int \<Rightarrow> int option \<Rightarrow> instant \<Rightarrow> bool" where
  "admits_at rows requested_requests requested_tokens rpm tpm candidate \<longleftrightarrow>
     (let remaining = filter (\<lambda>r. candidate - seconds 60 < ru_reserved_at r) rows
      in sum_list (map ru_count remaining) + requested_requests \<le> rpm \<and>
         (case tpm of None \<Rightarrow> True
          | Some limit \<Rightarrow> sum_list (map effective_input_tokens remaining) + requested_tokens \<le> limit))"

definition minute_capacity_next_eligible ::
    "string \<Rightarrow> string list \<Rightarrow> instant \<Rightarrow> bool \<Rightarrow> int \<Rightarrow> int \<Rightarrow> int \<Rightarrow> int option \<Rightarrow>
     request_usage list \<Rightarrow> instant option" where
  "minute_capacity_next_eligible account families now share requested_requests requested_tokens rpm tpm usage =
     (let rows = sort_key ru_reserved_at
                   (filter (\<lambda>r. now - seconds 60 < ru_reserved_at r \<and> usage_in_scope account families share r) usage)
      in find (admits_at rows requested_requests requested_tokens rpm tpm)
           (map (\<lambda>r. ru_reserved_at r + seconds 60) rows))"

section \<open>Calibration\<close>

definition calibration_identity :: "platform \<Rightarrow> string \<Rightarrow> string \<Rightarrow> string \<Rightarrow> string \<Rightarrow> string \<Rightarrow> string" where
  "calibration_identity P requested purpose contract estimator model =
     ''token-calibration-'' @
     take 32 (sha256_hex P (join [char_of (31 :: nat)] [requested, purpose, contract, estimator, model]))"

definition controlled_calibration_key :: "string \<Rightarrow> string outcome" where
  "controlled_calibration_key value =
     (let normalized = strip value
      in if normalized = [] \<or> 200 < length normalized
         then Inl (ValueError ''not a bounded calibration key'') else Inr normalized)"

type_synonym calibration_key = "string \<times> string \<times> string \<times> string"

definition controlled_keys :: "string \<Rightarrow> string \<Rightarrow> string \<Rightarrow> string \<Rightarrow> calibration_key outcome" where
  "controlled_keys requested purpose contract estimator =
     bind_out (controlled_calibration_key requested) (\<lambda>a.
     bind_out (controlled_calibration_key purpose) (\<lambda>b.
     bind_out (controlled_calibration_key contract) (\<lambda>c.
     bind_out (controlled_calibration_key estimator) (\<lambda>d. Inr (a, b, c, d)))))"

definition bucket_key :: "calibration \<Rightarrow> calibration_key" where
  "bucket_key c = (ca_requested_model c, ca_purpose c, ca_contract c, ca_estimator c)"

definition calibration_row :: "scheduler_db \<Rightarrow> calibration_key \<Rightarrow> (calibration_route \<times> calibration) option" where
  "calibration_row db key =
     (case find (\<lambda>r. route_key r = key) (db_routes db) of
        None \<Rightarrow> None
      | Some r \<Rightarrow> map_option (Pair r)
          (find (\<lambda>c. bucket_key c = key \<and> ca_provider_model c = cr_provider_model r) (db_calibration db)))"

definition MIN_RATIO :: real where "MIN_RATIO = 1 / 2"
definition MAX_RATIO :: real where "MAX_RATIO = 8"
definition RECENT_LIMIT :: nat where "RECENT_LIMIT = 128"

definition admitted_tokens ::
    "platform \<Rightarrow> int \<Rightarrow> (calibration_route \<times> calibration) option \<Rightarrow> int \<times> string option \<times> real" where
  "admitted_tokens P tokens row =
     (case row of
        None \<Rightarrow> (tokens, None, 1)
      | Some (r, c) \<Rightarrow>
          (case ca_safe c of
             Finite s \<Rightarrow>
               if MIN_RATIO \<le> s \<and> s \<le> MAX_RATIO
               then (\<lceil>fl P (of_int tokens * s)\<rceil>, Some (cr_provider_model r), s)
               else (tokens, None, 1)
           | _ \<Rightarrow> (tokens, None, 1)))"

definition calibrated_input_tokens ::
    "platform \<Rightarrow> string \<Rightarrow> string \<Rightarrow> string \<Rightarrow> string \<Rightarrow> int \<Rightarrow> scheduler_db \<Rightarrow>
     (int \<times> string option \<times> real) outcome" where
  "calibrated_input_tokens P requested purpose contract estimator base db =
     bind_out (controlled_keys requested purpose contract estimator)
       (\<lambda>key. Inr (admitted_tokens P (max 0 base) (calibration_row db key)))"

definition recent_p99 :: "platform \<Rightarrow> real list \<Rightarrow> real" where
  "recent_p99 P values =
     (let ordered = sort values;
          index = max 0 (\<lceil>fl P (fl P (99 / 100) * of_nat (length ordered))\<rceil> - 1)
      in ordered ! nat index)"

definition calibration_floor :: "platform \<Rightarrow> int \<Rightarrow> real" where
  "calibration_floor P n = (if n < 5 then 1 else if n < 20 then fl P (9 / 10) else MIN_RATIO)"

fun float_value :: "pyfloat \<Rightarrow> real" where
  "float_value (Finite x) = x"
| "float_value _ = 0"

definition ratio_in_range :: "real \<Rightarrow> bool" where
  "ratio_in_range x \<longleftrightarrow> MIN_RATIO / 2 \<le> x \<and> x \<le> MAX_RATIO"

definition take_last :: "nat \<Rightarrow> 'a list \<Rightarrow> 'a list" where
  "take_last n xs = drop (length xs - n) xs"

record calibration_history =
  ch_recent :: "real list"
  ch_count :: int
  ch_ewma :: real
  ch_error :: real
  ch_safe :: "real option"

definition fresh_history :: "real \<Rightarrow> calibration_history" where
  "fresh_history ratio = \<lparr>ch_recent = [], ch_count = 0, ch_ewma = ratio, ch_error = 0, ch_safe = None\<rparr>"

text \<open>\<open>max(0.0, x)\<close>: a NaN compares false, so the result is \<open>0.0\<close>.\<close>

definition nonnegative :: "pyfloat \<Rightarrow> pyfloat" where
  "nonnegative x = (case x of Finite v \<Rightarrow> Finite (max 0 v) | PosInf \<Rightarrow> PosInf | _ \<Rightarrow> Finite 0)"

text \<open>What the stored bucket contributes; an unreadable bucket starts over.\<close>

definition load_history :: "real \<Rightarrow> calibration option \<Rightarrow> calibration_history" where
  "load_history ratio existing =
     (case existing of
        None \<Rightarrow> fresh_history ratio
      | Some c \<Rightarrow>
          (case ca_window c of
             None \<Rightarrow> fresh_history ratio
           | Some w \<Rightarrow>
               if list_all (\<lambda>x. is_finite x \<and> ratio_in_range (float_value x)) w \<and>
                  is_finite (ca_ewma c) \<and> is_finite (nonnegative (ca_error c)) \<and> is_finite (ca_safe c)
               then \<lparr>ch_recent = take_last RECENT_LIMIT (map float_value w),
                     ch_count = max 0 (ca_lifetime c), ch_ewma = float_value (ca_ewma c),
                     ch_error = float_value (nonnegative (ca_error c)),
                     ch_safe = Some (float_value (ca_safe c))\<rparr>
               else fresh_history ratio))"

text \<open>The statistics after one more ratio.\<close>

record calibration_update =
  cu_recent :: "real list"
  cu_count :: int
  cu_ewma :: real
  cu_error :: real
  cu_p99 :: real
  cu_safe :: real

definition update_history :: "platform \<Rightarrow> real \<Rightarrow> calibration_history \<Rightarrow> calibration_update" where
  "update_history P ratio h =
     (let r = fl P; alpha = r (5 / 100); keep = r (1 - alpha); margin = r (105 / 100);
          n = ch_count h + 1;
          ewma = (if ch_count h = 0 then ratio else r (r (alpha * ratio) + r (keep * ch_ewma h)));
          err = (if ch_count h = 0 then 0
                 else r (r (alpha * \<bar>r (ratio - ch_ewma h)\<bar>) + r (keep * ch_error h)));
          recent = take_last RECENT_LIMIT (ch_recent h @ [ratio]);
          p99 = recent_p99 P recent;
          measured = max (max (r (ratio * margin)) (r (p99 * margin))) (r (ewma + r (3 * err)));
          safe1 = max (calibration_floor P n) measured;
          safe2 = (case ch_safe h of None \<Rightarrow> safe1
                   | Some old \<Rightarrow> max safe1 (r (old * r (1 - r (1 / 100)))))
      in \<lparr>cu_recent = recent, cu_count = n, cu_ewma = ewma, cu_error = err, cu_p99 = p99,
          cu_safe = min MAX_RATIO safe2\<rparr>)"

definition upsert_calibration ::
    "string \<Rightarrow> calibration_key \<Rightarrow> string \<Rightarrow> calibration_update \<Rightarrow> instant \<Rightarrow> calibration list \<Rightarrow> calibration list" where
  "upsert_calibration bucket key model u updated_at rows =
     (case key of (requested, purpose, contract, estimator) \<Rightarrow>
        sql_upsert ca_bucket
          (\<lambda>c. c\<lparr>ca_lifetime := cu_count u, ca_effective := int (length (cu_recent u)),
                 ca_ewma := Finite (cu_ewma u), ca_error := Finite (cu_error u),
                 ca_window := Some (map Finite (cu_recent u)), ca_p99 := Finite (cu_p99 u),
                 ca_safe := Finite (cu_safe u), ca_updated_at := updated_at\<rparr>)
          \<lparr>ca_bucket = bucket, ca_requested_model = requested, ca_purpose = purpose,
           ca_contract = contract, ca_estimator = estimator, ca_provider_model = model,
           ca_lifetime = cu_count u, ca_effective = int (length (cu_recent u)),
           ca_ewma = Finite (cu_ewma u), ca_error = Finite (cu_error u),
           ca_window = Some (map Finite (cu_recent u)), ca_p99 = Finite (cu_p99 u),
           ca_safe = Finite (cu_safe u), ca_updated_at = updated_at\<rparr> rows)"

definition upsert_route ::
    "calibration_key \<Rightarrow> string \<Rightarrow> instant \<Rightarrow> instant \<Rightarrow> calibration_route list \<Rightarrow> calibration_route list" where
  "upsert_route key model reserved_at updated_at rows =
     (case key of (requested, purpose, contract, estimator) \<Rightarrow>
        sql_upsert route_key
          (\<lambda>r. r\<lparr>cr_provider_model := (if cr_reserved_at r \<le> reserved_at then model else cr_provider_model r),
                 cr_reserved_at := max (cr_reserved_at r) reserved_at,
                 cr_updated_at := (if cr_reserved_at r \<le> reserved_at then updated_at else cr_updated_at r)\<rparr>)
          \<lparr>cr_requested_model = requested, cr_purpose = purpose, cr_contract = contract,
           cr_estimator = estimator, cr_provider_model = model, cr_reserved_at = reserved_at,
           cr_updated_at = updated_at\<rparr> rows)"

definition text_or_empty :: "string option \<Rightarrow> string" where
  "text_or_empty x = (case x of None \<Rightarrow> [] | Some s \<Rightarrow> s)"

definition bucket_of :: "platform \<Rightarrow> calibration_key \<Rightarrow> string \<Rightarrow> string" where
  "bucket_of P key exact = (case key of (a, b, c, d) \<Rightarrow> calibration_identity P a b c d exact)"

definition store_calibration ::
    "platform \<Rightarrow> real \<Rightarrow> calibration_key \<Rightarrow> string \<Rightarrow> instant \<Rightarrow> instant \<Rightarrow> scheduler_db \<Rightarrow> scheduler_db" where
  "store_calibration P ratio key exact reserved_at updated_at db =
     (let bucket = bucket_of P key exact;
          existing = find (\<lambda>c. ca_bucket c = bucket) (db_calibration db);
          u = update_history P ratio (load_history ratio existing)
      in db\<lparr>db_calibration := upsert_calibration bucket key exact u updated_at (db_calibration db),
            db_routes := upsert_route key exact reserved_at updated_at (db_routes db)\<rparr>)"

text \<open>The second unique key of the table, which \<open>ON CONFLICT(bucket_id)\<close> does not cover.\<close>

definition bucket_clash :: "platform \<Rightarrow> calibration_key \<Rightarrow> string \<Rightarrow> scheduler_db \<Rightarrow> bool" where
  "bucket_clash P key exact db \<longleftrightarrow>
     bucket_of P key exact \<notin> ca_bucket ` set (db_calibration db) \<and>
     (\<exists>c \<in> set (db_calibration db). bucket_key c = key \<and> ca_provider_model c = exact)"

definition record_token_calibration_sample ::
    "platform \<Rightarrow> request_usage \<Rightarrow> int \<Rightarrow> string \<Rightarrow> instant \<Rightarrow> scheduler_db \<Rightarrow> scheduler_db outcome" where
  "record_token_calibration_sample P usage actual model updated_at db =
     (let base = (case ru_base_tokens usage of None \<Rightarrow> 0 | Some b \<Rightarrow> b);
          ratio = fl P (of_int actual / of_int base)
      in if base \<le> 0 \<or> actual \<le> 0 then Inr db
         else if \<not> ratio_in_range ratio then Inr db
         else
           bind_out (controlled_keys (text_or_empty (ru_requested_model usage)) (text_or_empty (ru_purpose usage))
                       (text_or_empty (ru_prompt_contract usage)) (text_or_empty (ru_estimator usage)))
           (\<lambda>key. bind_out (controlled_calibration_key model)
           (\<lambda>exact.
              if bucket_clash P key exact db then Inl (IntegrityError ''UNIQUE constraint failed'')
              else Inr (store_calibration P ratio key exact (ru_reserved_at usage) updated_at db))))"

section \<open>The first instant at which a request fits\<close>

definition usage_ok :: "request_usage \<Rightarrow> bool" where
  "usage_ok r \<longleftrightarrow> 0 < ru_count r \<and> 0 \<le> ru_tokens r \<and> (\<forall>n. ru_admitted_tokens r = Some n \<longrightarrow> 0 \<le> n)"

lemma effective_nonneg: "usage_ok r \<Longrightarrow> 0 \<le> effective_input_tokens r"
  by (auto simp: usage_ok_def effective_input_tokens_def split: option.splits)

lemma sum_list_sort_key: "sum_list (map w (filter p (sort_key k xs))) = sql_sum w p (xs :: 'r list)"
  for w :: "'r \<Rightarrow> int"
proof -
  have "mset (map w (filter p (sort_key k xs))) = mset (map w (filter p xs))"
    by (simp add: mset_map mset_filter)
  then show ?thesis unfolding sql_sum_def by (metis sum_mset_sum_list)
qed

lemma sql_sum_filter: "sql_sum w p (filter q xs) = sql_sum w (\<lambda>r. q r \<and> p r) xs"
  by (simp add: sql_sum_def conj_commute)

lemma window_sum_le:
  assumes "\<And>r. r \<in> set usage \<Longrightarrow> 0 \<le> w r" "now < c"
  shows "sql_sum w (\<lambda>r. c - seconds 60 < ru_reserved_at r \<and> ru_reserved_at r \<le> c \<and>
            usage_in_scope account (dedupe families) share r) usage
     \<le> sum_list (map w (filter (\<lambda>r. c - seconds 60 < ru_reserved_at r)
          (sort_key ru_reserved_at (filter (\<lambda>r. now - seconds 60 < ru_reserved_at r \<and>
            usage_in_scope account families share r) usage))))"
  unfolding sum_list_sort_key sql_sum_filter
  by (rule sql_sum_mono_pred) (use assms in \<open>auto simp: usage_in_scope_def\<close>)

text \<open>
  C8: waiting for minute capacity ends: when requests of the trailing minute stand in the way of
  one that the limits admit by itself, the code names an instant in the future, within 60 seconds
  of the newest of them, at which the rolling usage leaves room for it if nothing else is reserved.
\<close>

theorem minute_wait_ends:
  assumes "\<forall>r \<in> set usage. usage_ok r" "requested_requests \<le> rpm"
    "\<forall>limit. tpm = Some limit \<longrightarrow> requested_tokens \<le> limit"
    "r0 \<in> set usage" "usage_in_scope account families share r0" "now - seconds 60 < ru_reserved_at r0"
  shows "\<exists>c. minute_capacity_next_eligible account families now share requested_requests requested_tokens
         rpm tpm usage = Some c \<and> now < c \<and>
     (\<exists>r \<in> set usage. usage_in_scope account families share r \<and> c = ru_reserved_at r + seconds 60) \<and>
     fst (rolling_account_usage account families c share usage) + requested_requests \<le> rpm \<and>
     (\<forall>limit. tpm = Some limit \<longrightarrow>
        snd (rolling_account_usage account families c share usage) + requested_tokens \<le> limit)"
proof -
  let ?rows = "sort_key ru_reserved_at (filter (\<lambda>r. now - seconds 60 < ru_reserved_at r \<and>
      usage_in_scope account families share r) usage)"
  let ?adm = "admits_at ?rows requested_requests requested_tokens rpm tpm"
  have r0: "r0 \<in> set ?rows" using assms(4-6) by simp
  then have ne: "ru_reserved_at ` set ?rows \<noteq> {}" "finite (ru_reserved_at ` set ?rows)" by auto
  define m where "m = Max (ru_reserved_at ` set ?rows)"
  have m: "m \<in> ru_reserved_at ` set ?rows" "\<And>r. r \<in> set ?rows \<Longrightarrow> ru_reserved_at r \<le> m"
    unfolding m_def using ne by (simp_all only: Max_in Max_ge imageI simp_thms)
  then have "filter (\<lambda>r. m + seconds 60 - seconds 60 < ru_reserved_at r) ?rows = []"
    by (fastforce simp: filter_empty_conv)
  then have "?adm (m + seconds 60)"
    using assms(2,3) by (simp add: admits_at_def split: option.splits)
  moreover have "m + seconds 60 \<in> set (map (\<lambda>r. ru_reserved_at r + seconds 60) ?rows)"
    using m(1) by auto
  ultimately obtain c where c: "find ?adm (map (\<lambda>r. ru_reserved_at r + seconds 60) ?rows) = Some c"
    using find_ex [of "m + seconds 60" _ ?adm] by blast
  from find_map_SomeD [OF c] obtain r where r: "r \<in> set usage" "usage_in_scope account families share r"
    "now - seconds 60 < ru_reserved_at r" "c = ru_reserved_at r + seconds 60" and adm: "?adm c" by auto
  have now: "now < c" using r(3,4) by simp
  have nonneg: "0 \<le> ru_count r" "0 \<le> effective_input_tokens r" if "r \<in> set usage" for r
    using assms(1) that effective_nonneg by (force simp: usage_ok_def)+
  have req: "fst (rolling_account_usage account families c share usage) + requested_requests \<le> rpm"
    using window_sum_le [where w = ru_count and usage = usage and account = account and families = families
        and share = share, OF nonneg(1) now] adm
    by (simp add: rolling_account_usage_def admits_at_def Let_def)
  have tok: "snd (rolling_account_usage account families c share usage) + requested_tokens \<le> limit"
    if "tpm = Some limit" for limit
    using window_sum_le [where w = effective_input_tokens and usage = usage and account = account and families = families
        and share = share, OF nonneg(2) now] adm that
    by (simp add: rolling_account_usage_def admits_at_def Let_def)
  show ?thesis using c now r req tok unfolding minute_capacity_next_eligible_def Let_def by blast
qed

section \<open>What calibration guarantees\<close>

definition calibration_ok :: "calibration \<Rightarrow> bool" where
  "calibration_ok c \<longleftrightarrow>
     (\<exists>w. ca_window c = Some (map Finite w) \<and> w \<noteq> [] \<and> length w \<le> RECENT_LIMIT \<and> list_all ratio_in_range w) \<and>
     (\<exists>s. ca_safe c = Finite s \<and> MIN_RATIO \<le> s \<and> s \<le> MAX_RATIO)"

lemmas ratio_defs = MIN_RATIO_def MAX_RATIO_def ratio_in_range_def

lemma length_take_last: "length (take_last n xs) = min n (length xs)"
  by (simp add: take_last_def)

lemma set_take_last: "set (take_last n xs) \<subseteq> set xs"
  by (simp add: take_last_def set_drop_subset)

lemma load_history_range:
  "list_all ratio_in_range (ch_recent (load_history ratio existing))"
  "0 \<le> ch_count (load_history ratio existing)"
proof -
  have "list_all ratio_in_range (take_last n (map float_value w))"
    if "list_all (\<lambda>x. is_finite x \<and> ratio_in_range (float_value x)) w" for n w
    using that set_take_last [of n "map float_value w"] by (fastforce simp: list_all_iff)
  then show "list_all ratio_in_range (ch_recent (load_history ratio existing))"
    by (auto simp: load_history_def fresh_history_def split: option.splits)
  show "0 \<le> ch_count (load_history ratio existing)"
    by (auto simp: load_history_def fresh_history_def split: option.splits)
qed

lemma floor_min: "binary64_rounding (fl P) \<Longrightarrow> MIN_RATIO \<le> calibration_floor P n"
  using rounding_mono [of "fl P" "1 / 2" "9 / 10"] rounding_half [of "fl P" 1]
  by (simp add: calibration_floor_def ratio_defs)

lemma floor_max: "binary64_rounding (fl P) \<Longrightarrow> calibration_floor P n \<le> MAX_RATIO"
  using rounding_mono [of "fl P" "9 / 10" 1] rounding_int [of "fl P" 1]
  by (simp add: calibration_floor_def ratio_defs)

lemma margin_raises:
  assumes "binary64_rounding (fl P)" "fl P x = x" "0 \<le> x"
  shows "x \<le> fl P (x * fl P (105 / 100))"
proof -
  have "fl P 1 \<le> fl P (105 / 100)" by (rule rounding_mono [OF assms(1)]) simp
  then have "1 \<le> fl P (105 / 100)" using rounding_int [OF assms(1), of 1] by simp
  then have "x \<le> x * fl P (105 / 100)" using assms(3) by (simp add: mult_le_cancel_left1)
  from rounding_mono [OF assms(1) this] assms(2) show ?thesis by simp
qed

lemma update_history_bounds:
  assumes "binary64_rounding (fl P)"
  shows "MIN_RATIO \<le> cu_safe (update_history P ratio h)" "cu_safe (update_history P ratio h) \<le> MAX_RATIO"
    "calibration_floor P (ch_count h + 1) \<le> MAX_RATIO \<Longrightarrow>
       calibration_floor P (ch_count h + 1) \<le> cu_safe (update_history P ratio h)"
    "fl P ratio = ratio \<Longrightarrow> 0 \<le> ratio \<Longrightarrow> ratio \<le> MAX_RATIO \<Longrightarrow> ratio \<le> cu_safe (update_history P ratio h)"
    "ch_safe h = Some old \<Longrightarrow>
       min MAX_RATIO (fl P (old * fl P (1 - fl P (1 / 100)))) \<le> cu_safe (update_history P ratio h)"
  using floor_min [OF assms, of "ch_count h + 1"] margin_raises [OF assms, of ratio]
  by (auto simp: update_history_def Let_def ratio_defs min_def max_def split: option.splits)

lemma update_history_window:
  assumes "list_all ratio_in_range (ch_recent h)" "ratio_in_range ratio"
  shows "list_all ratio_in_range (cu_recent (update_history P ratio h))"
    "length (cu_recent (update_history P ratio h)) \<le> RECENT_LIMIT" "cu_recent (update_history P ratio h) \<noteq> []"
    "cu_count (update_history P ratio h) = ch_count h + 1"
proof -
  have eq: "cu_recent (update_history P ratio h) = take_last RECENT_LIMIT (ch_recent h @ [ratio])"
    by (simp add: update_history_def Let_def)
  show "list_all ratio_in_range (cu_recent (update_history P ratio h))"
    unfolding eq using assms set_take_last [of RECENT_LIMIT "ch_recent h @ [ratio]"] by (fastforce simp: list_all_iff)
  show "length (cu_recent (update_history P ratio h)) \<le> RECENT_LIMIT"
    unfolding eq by (simp add: length_take_last)
  show "cu_recent (update_history P ratio h) \<noteq> []"
    unfolding eq by (simp add: take_last_def RECENT_LIMIT_def)
  show "cu_count (update_history P ratio h) = ch_count h + 1"
    by (simp add: update_history_def Let_def)
qed

lemma record_sampleE:
  assumes "record_token_calibration_sample P usage actual model updated_at db = Inr db'"
  obtains (ignored) "db' = db"
  | (recorded) base key exact where
    "ru_base_tokens usage = Some base" "0 < base" "0 < actual" "ratio_in_range (fl P (of_int actual / of_int base))"
    "\<not> bucket_clash P key exact db"
    "controlled_calibration_key model = Inr exact"
    "db' = store_calibration P (fl P (of_int actual / of_int base)) key exact (ru_reserved_at usage) updated_at db"
proof -
  define base where "base = (case ru_base_tokens usage of None \<Rightarrow> 0 | Some b \<Rightarrow> b)"
  define ratio where "ratio = fl P (of_int actual / of_int base)"
  note d = assms [unfolded record_token_calibration_sample_def Let_def, folded base_def, folded ratio_def]
  show ?thesis
  proof (cases "base \<le> 0 \<or> actual \<le> 0 \<or> \<not> ratio_in_range ratio")
    case True
    with d have "db' = db" by (auto split: if_splits)
    then show ?thesis by (rule ignored)
  next
    case False
    with d obtain key exact where k: "controlled_calibration_key model = Inr exact"
      "\<not> bucket_clash P key exact db"
      "store_calibration P ratio key exact (ru_reserved_at usage) updated_at db = db'"
      by (auto simp: bind_out_Inr_iff split: if_splits)
    have "ru_base_tokens usage = Some base" using False by (simp add: base_def split: option.splits)
    with False k show ?thesis by (intro recorded [of base key exact]) (simp_all add: ratio_def)
  qed
qed


lemma upsert_calibration_set:
  assumes "c \<in> set (upsert_calibration bucket key exact u t rows)"
  shows "(ca_bucket c = bucket \<and> ca_window c = Some (map Finite (cu_recent u)) \<and>
      ca_safe c = Finite (cu_safe u) \<and> ca_lifetime c = cu_count u) \<or> c \<in> set rows \<and> ca_bucket c \<noteq> bucket"
  using assms
  by (cases key) (auto simp: upsert_calibration_def sql_upsert_def split: if_splits elim!: sql_updateE)

lemma upsert_calibration_hit:
  "\<exists>c \<in> set (upsert_calibration bucket key exact u t rows). ca_bucket c = bucket \<and>
     ca_safe c = Finite (cu_safe u) \<and> ca_lifetime c = cu_count u"
proof (cases "bucket \<in> ca_bucket ` set rows")
  case True
  then obtain c where c: "c \<in> set rows" "ca_bucket c = bucket" by auto
  obtain a1 a2 a3 a4 where k: "key = (a1, a2, a3, a4)" by (cases key)
  let ?f = "\<lambda>c. c\<lparr>ca_lifetime := cu_count u, ca_effective := int (length (cu_recent u)),
      ca_ewma := Finite (cu_ewma u), ca_error := Finite (cu_error u),
      ca_window := Some (map Finite (cu_recent u)), ca_p99 := Finite (cu_p99 u),
      ca_safe := Finite (cu_safe u), ca_updated_at := t\<rparr>"
  have "?f c \<in> set (sql_update (\<lambda>c. ca_bucket c = bucket) ?f rows)"
    using sql_update_memI(1) [of c rows "\<lambda>c. ca_bucket c = bucket" ?f] c by simp
  then have "?f c \<in> set (upsert_calibration bucket key exact u t rows)"
    using True by (simp add: upsert_calibration_def sql_upsert_def k)
  then show ?thesis using c(2) by (intro bexI [of _ "?f c"]) simp_all
next
  case False
  then show ?thesis by (cases key) (auto simp: upsert_calibration_def sql_upsert_def)
qed

lemma calibration_stored:
  "db_calibration (store_calibration P ratio key exact r t db) =
     upsert_calibration (bucket_of P key exact) key exact
       (update_history P ratio (load_history ratio
          (find (\<lambda>c. ca_bucket c = bucket_of P key exact) (db_calibration db)))) t (db_calibration db)"
  "db_routes (store_calibration P ratio key exact r t db) = upsert_route key exact r t (db_routes db)"
  by (simp_all add: store_calibration_def Let_def)

text \<open>
  C9: every recorded sample leaves every calibration bucket well formed: a window of at most 128
  plausible ratios and a safety ratio between one half and eight. The bucket it updates does not
  undercut the ratio just observed, is never below the floor of its sample count (one for its
  first four samples, nine tenths up to the nineteenth, one half from then on), and is at most one
  percent (as rounded) below what it was.
\<close>

theorem calibration_stays_safe:
  assumes "record_token_calibration_sample P usage actual model t db = Inr db'"
    "binary64_rounding (fl P)" "\<forall>c \<in> set (db_calibration db). calibration_ok c"
  shows "(\<forall>c \<in> set (db_calibration db'). calibration_ok c) \<and>
     (db' = db \<or> (\<exists>base ratio c s. ru_base_tokens usage = Some base \<and>
        ratio = fl P (of_int actual / of_int base) \<and>
        c \<in> set (db_calibration db') \<and> ca_safe c = Finite s \<and> ratio \<le> s \<and>
        (if ca_lifetime c < 5 then 1 else if ca_lifetime c < 20 then fl P (9 / 10) else 1 / 2) \<le> s \<and>
        (\<forall>c0 \<in> set (db_calibration db). ca_bucket c0 \<noteq> ca_bucket c \<longrightarrow> c0 \<in> set (db_calibration db')) \<and>
        (\<forall>c0 s0. find (\<lambda>c0. ca_bucket c0 = ca_bucket c) (db_calibration db) = Some c0 \<and>
            is_finite (ca_ewma c0) \<and> is_finite (ca_error c0) \<and> ca_safe c0 = Finite s0 \<longrightarrow>
            ca_lifetime c = max 0 (ca_lifetime c0) + 1 \<and>
            min MAX_RATIO (fl P (s0 * fl P (1 - fl P (1 / 100)))) \<le> s)))"
  using assms(1)
proof (cases rule: record_sampleE)
  case ignored
  with assms(3) show ?thesis by simp
next
  case (recorded base key exact)
  let ?ratio = "fl P (of_int actual / of_int base)"
  let ?b = "bucket_of P key exact"
  let ?h = "load_history ?ratio (find (\<lambda>c. ca_bucket c = ?b) (db_calibration db))"
  let ?u = "update_history P ?ratio ?h"
  have cal: "db_calibration db' = upsert_calibration ?b key exact ?u t (db_calibration db)"
    unfolding recorded(7) by (rule calibration_stored(1))
  note w = update_history_window [OF load_history_range(1) recorded(4), where P = P]
  note bnd = update_history_bounds [OF assms(2), where ratio = ?ratio and h = ?h]
  have ok: "calibration_ok c" if "c \<in> set (db_calibration db')" for c
    using upsert_calibration_set [OF that [unfolded cal]] w bnd(1,2) assms(3)
    unfolding calibration_ok_def by blast
  obtain c where c: "c \<in> set (db_calibration db')" "ca_bucket c = ?b" "ca_safe c = Finite (cu_safe ?u)"
    "ca_lifetime c = cu_count ?u"
    using upsert_calibration_hit [of ?b key exact ?u t "db_calibration db"] unfolding cal by blast
  have low: "?ratio \<le> cu_safe ?u"
    using bnd(4) rounding_idem [OF assms(2)] recorded(4) by (simp add: ratio_defs)
  have floor: "(if ca_lifetime c < 5 then 1 else if ca_lifetime c < 20 then fl P (9 / 10) else 1 / 2) \<le> cu_safe ?u"
    using bnd(3) [OF floor_max [OF assms(2)]] unfolding c(4) w(4)
    by (simp only: calibration_floor_def MIN_RATIO_def)
  have others: "c0 \<in> set (db_calibration db')" if "c0 \<in> set (db_calibration db)" "ca_bucket c0 \<noteq> ?b" for c0
    unfolding cal using that
    by (cases key) (auto simp: upsert_calibration_def sql_upsert_def intro: sql_update_memI(2))
  have prior: "ca_lifetime c = max 0 (ca_lifetime c0) + 1 \<and>
      min MAX_RATIO (fl P (s0 * fl P (1 - fl P (1 / 100)))) \<le> cu_safe ?u"
    if "find (\<lambda>c0. ca_bucket c0 = ?b) (db_calibration db) = Some c0"
      "is_finite (ca_ewma c0)" "is_finite (ca_error c0)" "ca_safe c0 = Finite s0" for c0 s0
  proof -
    have "c0 \<in> set (db_calibration db)" using find_SomeD [OF that(1)] by simp
    with assms(3) obtain ws where ws: "ca_window c0 = Some (map Finite ws)" "list_all ratio_in_range ws"
      by (auto simp: calibration_ok_def)
    from that(3) obtain e where "ca_error c0 = Finite e" by (cases "ca_error c0") simp_all
    with that ws have "ch_count ?h = max 0 (ca_lifetime c0)" "ch_safe ?h = Some s0"
      by (simp_all add: load_history_def list_all_iff nonnegative_def)
    with bnd(5) w(4) c(4) show ?thesis by simp
  qed
  have "\<forall>c0 \<in> set (db_calibration db). ca_bucket c0 \<noteq> ca_bucket c \<longrightarrow> c0 \<in> set (db_calibration db')"
    unfolding c(2) using others by blast
  moreover have "\<forall>c0 s0. find (\<lambda>c0. ca_bucket c0 = ca_bucket c) (db_calibration db) = Some c0 \<and>
      is_finite (ca_ewma c0) \<and> is_finite (ca_error c0) \<and> ca_safe c0 = Finite s0 \<longrightarrow>
      ca_lifetime c = max 0 (ca_lifetime c0) + 1 \<and>
      min MAX_RATIO (fl P (s0 * fl P (1 - fl P (1 / 100)))) \<le> cu_safe ?u"
    unfolding c(2) using prior by blast
  ultimately show ?thesis
    using low floor recorded(1) c(1,3) ok
    by (intro conjI ballI disjI2 exI [of _ base] exI [of _ ?ratio] exI [of _ c] exI [of _ "cu_safe ?u"])
      (assumption | rule refl | blast)+
qed

text \<open>
  Admission is bounded: a request is never admitted below half or above eight times the
  estimate, and exactly at the estimate when no usable calibration is stored.
\<close>

theorem admission_is_bounded:
  assumes "calibrated_input_tokens P requested purpose contract estimator base db = Inr (tokens, model, ratio)"
    "binary64_rounding (fl P)" "base \<le> 2 ^ 40"
  shows "max 0 base \<le> 2 * tokens \<and> tokens \<le> 8 * max 0 base \<and> MIN_RATIO \<le> ratio \<and> ratio \<le> MAX_RATIO \<and>
     (model = None \<longrightarrow> tokens = max 0 base \<and> ratio = 1) \<and>
     (\<forall>m. model = Some m \<longrightarrow> (\<exists>c \<in> set (db_calibration db). ca_provider_model c = m \<and> ca_safe c = Finite ratio))"
proof -
  let ?b = "max 0 base"
  have plain: ?thesis if "tokens = ?b" "model = None" "ratio = 1"
    using that by (auto simp: ratio_defs)
  from assms(1) obtain key where key: "admitted_tokens P ?b (calibration_row db key) = (tokens, model, ratio)"
    by (auto simp: calibrated_input_tokens_def bind_out_Inr_iff)
  show ?thesis
  proof (cases "model = None")
    case True
    with key have "tokens = ?b \<and> ratio = 1"
      by (auto simp: admitted_tokens_def split: option.splits pyfloat.splits if_splits prod.splits)
    with True plain show ?thesis by simp
  next
    case False
    with key obtain r c where rc: "calibration_row db key = Some (r, c)" "ca_safe c = Finite ratio"
      "MIN_RATIO \<le> ratio" "ratio \<le> MAX_RATIO" "tokens = \<lceil>fl P (of_int ?b * ratio)\<rceil>"
      "model = Some (cr_provider_model r)"
      by (auto simp: admitted_tokens_def split: option.splits pyfloat.splits if_splits prod.splits)
    have small: "\<bar>?b\<bar> \<le> 2 ^ 47" "\<bar>8 * ?b\<bar> \<le> 2 ^ 47" using assms(3) by auto
    have "of_int ?b / 2 \<le> of_int ?b * ratio" "of_int ?b * ratio \<le> of_int (8 * ?b)"
      using mult_left_mono [OF rc(3), of "of_int ?b"] mult_left_mono [OF rc(4), of "of_int ?b"]
      by (simp_all add: ratio_defs)
    from rounding_mono [OF assms(2) this(1)] rounding_mono [OF assms(2) this(2)]
    have "of_int ?b / 2 \<le> fl P (of_int ?b * ratio)" "fl P (of_int ?b * ratio) \<le> of_int (8 * ?b)"
      using rounding_half [OF assms(2) small(1)] rounding_int [OF assms(2) small(2)] by simp_all
    then have "?b \<le> 2 * tokens" "tokens \<le> 8 * ?b" unfolding rc(5) by linarith+
    moreover have "c \<in> set (db_calibration db)" "ca_provider_model c = cr_provider_model r"
      using rc(1) by (auto simp: calibration_row_def split: option.splits dest: find_SomeD)
    ultimately show ?thesis using rc by auto
  qed
qed

text \<open>
  A late report never overrides a newer one: the instant of the newest report of a route
  never decreases, and the route keeps its provider model version when the report that arrives
  belongs to an older reservation.
\<close>

theorem calibration_routes_are_monotone:
  assumes "record_token_calibration_sample P usage actual model t db = Inr db'"
    "r \<in> set (db_routes db)"
  shows "\<exists>r' \<in> set (db_routes db'). route_key r' = route_key r \<and> cr_reserved_at r \<le> cr_reserved_at r' \<and>
     (ru_reserved_at usage < cr_reserved_at r \<longrightarrow> r' = r)"
  using assms(1)
proof (cases rule: record_sampleE)
  case ignored
  with assms(2) show ?thesis by blast
next
  case (recorded base key exact)
  obtain a1 a2 a3 a4 where k: "key = (a1, a2, a3, a4)" by (cases key)
  let ?at = "ru_reserved_at usage"
  let ?f = "\<lambda>r. r\<lparr>cr_provider_model := (if cr_reserved_at r \<le> ?at then exact else cr_provider_model r),
      cr_reserved_at := max (cr_reserved_at r) ?at,
      cr_updated_at := (if cr_reserved_at r \<le> ?at then t else cr_updated_at r)\<rparr>"
  have routes: "db_routes db' = upsert_route key exact ?at t (db_routes db)"
    unfolding recorded(7) by (rule calibration_stored(2))
  show ?thesis
  proof (cases "route_key r = key")
    case True
    then have "key \<in> route_key ` set (db_routes db)" using assms(2) by auto
    then have "db_routes db' = sql_update (\<lambda>r. route_key r = key) ?f (db_routes db)"
      by (simp add: routes upsert_route_def sql_upsert_def k route_key_def)
    then have "?f r \<in> set (db_routes db')"
      using sql_update_memI(1) [of r "db_routes db" "\<lambda>r. route_key r = key" ?f] assms(2) True by simp
    then show ?thesis by (rule bexI [rotated]) (simp add: route_key_def max_def)
  next
    case False
    then have "r \<in> set (db_routes db')"
      using assms(2) unfolding routes upsert_route_def k
      by (auto simp: sql_upsert_def route_key_def intro: sql_update_memI(2))
    then show ?thesis by blast
  qed
qed


subsection \<open>Witnesses\<close>

lemma exact_rounding [simp]: "binary64_rounding (fl sample_platform)"
  by (simp add: binary64_rounding_def sample_platform_def)

definition sample_usage :: request_usage where
  "sample_usage = \<lparr>ru_id = ''u1'', ru_account = ''acct'', ru_model = ''gemma'', ru_count = 1, ru_tokens = 100,
     ru_reserved_at = 0, ru_attempted_at = None, ru_outcome = None, ru_http_status = None,
     ru_completed_at = None, ru_vectors_at = None, ru_prompt_tokens = None, ru_candidates_tokens = None,
     ru_total_tokens = None, ru_requested_model = Some ''gemma'', ru_purpose = Some ''impact'',
     ru_prompt_contract = Some ''v1'', ru_estimator = Some ''e1'', ru_base_tokens = Some 100,
     ru_admitted_tokens = Some 100, ru_calibration_model = None, ru_calibration_ratio = None,
     ru_provider_model = None, ru_workload = LIVE_OPERATIONAL\<rparr>"

theorem minute_wait_ends_witness:
  "\<exists>c. minute_capacity_next_eligible ''acct'' [''gemma''] (seconds 10) False 1 50 1 (Some 100) [sample_usage]
     = Some c \<and> seconds 10 < c"
  using minute_wait_ends [of "[sample_usage]" 1 1 "Some 100" 50 sample_usage "''acct''" "[''gemma'']" False "seconds 10"]
  by (auto simp: usage_ok_def sample_usage_def usage_in_scope_def)

lemma sample_keys [simp]:
  "controlled_calibration_key ''gemma'' = Inr ''gemma''" "controlled_calibration_key ''impact'' = Inr ''impact''"
  "controlled_calibration_key ''v1'' = Inr ''v1''" "controlled_calibration_key ''e1'' = Inr ''e1''"
  "controlled_calibration_key ''gemma-1'' = Inr ''gemma-1''"
  by code_simp+

lemma sample_sample:
  "record_token_calibration_sample sample_platform sample_usage 120 ''gemma-1'' 5 empty_db =
     Inr (store_calibration sample_platform (6 / 5) (''gemma'', ''impact'', ''v1'', ''e1'') ''gemma-1'' 0 5 empty_db)"
  by (simp add: record_token_calibration_sample_def sample_usage_def Let_def controlled_keys_def
      text_or_empty_def ratio_defs sample_platform_def bucket_clash_def empty_db_def)

theorem calibration_stays_safe_witness:
  "list_all calibration_ok (db_calibration (store_calibration sample_platform (6 / 5)
      (''gemma'', ''impact'', ''v1'', ''e1'') ''gemma-1'' 0 5 empty_db))"
  using calibration_stays_safe [OF sample_sample exact_rounding] by (simp add: empty_db_def list_all_iff)

theorem admission_is_bounded_witness:
  "\<exists>tokens model ratio. calibrated_input_tokens sample_platform ''gemma'' ''impact'' ''v1'' ''e1'' 100 empty_db
     = Inr (tokens, model, ratio) \<and> 50 \<le> tokens"
proof -
  have r: "calibrated_input_tokens sample_platform ''gemma'' ''impact'' ''v1'' ''e1'' 100 empty_db = Inr (100, None, 1)"
    by (simp add: calibrated_input_tokens_def controlled_keys_def calibration_row_def admitted_tokens_def empty_db_def)
  from admission_is_bounded [OF r exact_rounding] r show ?thesis by auto
qed

theorem calibration_routes_are_monotone_witness:
  "\<exists>db' :: scheduler_db. \<exists>r' \<in> set (db_routes db'). cr_reserved_at r' = 9 \<and> cr_provider_model r' = ''newer''"
proof -
  let ?r = "\<lparr>cr_requested_model = ''gemma'', cr_purpose = ''impact'', cr_contract = ''v1'', cr_estimator = ''e1'',
     cr_provider_model = ''newer'', cr_reserved_at = 9, cr_updated_at = 9\<rparr>"
  have "record_token_calibration_sample sample_platform sample_usage 120 ''gemma-1'' 5 (empty_db\<lparr>db_routes := [?r]\<rparr>) =
     Inr (store_calibration sample_platform (6 / 5) (''gemma'', ''impact'', ''v1'', ''e1'') ''gemma-1'' 0 5
       (empty_db\<lparr>db_routes := [?r]\<rparr>))"
    by (simp add: record_token_calibration_sample_def sample_usage_def Let_def controlled_keys_def
      text_or_empty_def ratio_defs sample_platform_def bucket_clash_def empty_db_def)
  from calibration_routes_are_monotone [OF this, of ?r] show ?thesis
    by (intro exI) (force simp: sample_usage_def)
qed

end
