(* ===== verification/Provider_Dispatch.thy ===== *)
theory Provider_Dispatch
  imports Token_Calibration
begin

text \<open>
  The shared dispatch governor of \<^verbatim>\<open>xauusd_news/news/scheduler/state.py\<close>: one row of state paces
  every request to the provider, one row for each class of work records its demand and its
  pressure, and a slot goes to a class on the Pareto frontier of the pressures.
\<close>

section \<open>Task classes and pressure\<close>

definition GOOGLE_PROVIDER_SCOPE :: string where
  "GOOGLE_PROVIDER_SCOPE = ''GOOGLE_GENERATIVE_LANGUAGE''"

definition INITIAL_INTERVAL_MS :: int where "INITIAL_INTERVAL_MS = 250"
definition MIN_INTERVAL_MS :: int where "MIN_INTERVAL_MS = 120"
definition MAX_INTERVAL_MS :: int where "MAX_INTERVAL_MS = 5000"
definition DEMAND_TTL :: int where "DEMAND_TTL = seconds 2"

definition provider_task_class :: "string \<Rightarrow> task_class" where
  "provider_task_class task =
     (let n = map (\<lambda>c. if c = CHR ''-'' then CHR ''_'' else c) (upper (strip task))
      in if contains ''DAILY'' n \<and> contains ''BRIEF'' n then DAILY_BRIEF
         else if contains ''EMBEDDING'' n then EMBEDDING
         else if contains ''IMPACT'' n then IMPACT
         else if contains ''TITLE'' n \<or> contains ''TRANSLATION'' n then TITLE_REPAIR
         else ANNOTATION)"

text \<open>
  SQLite's \<open>LIKE\<close> against a pattern that ends in \<open>%\<close>: an underscore stands for any character
  and ASCII letters match in either case.
\<close>

fun like_prefix :: "string \<Rightarrow> string \<Rightarrow> bool" where
  "like_prefix [] s = True"
| "like_prefix (p # ps) [] = False"
| "like_prefix (p # ps) (c # cs) = ((p = CHR ''_'' \<or> upper_char p = upper_char c) \<and> like_prefix ps cs)"

definition open_job :: "instant \<Rightarrow> job \<Rightarrow> bool" where
  "open_job now j \<longleftrightarrow>
     (j_state j = QUEUED \<or> j_state j = LEASED \<or> j_state j = BACKING_OFF) \<and>
     (j_state j = LEASED \<or> j_available_at j \<le> now)"

definition waits_for_embedding :: "job \<Rightarrow> bool" where
  "waits_for_embedding j \<longleftrightarrow>
     (case j_last_error j of
        None \<Rightarrow> False
      | Some e \<Rightarrow> like_prefix ''NEWS_EMBEDDING_'' e \<or> e = ''PROVIDER_DISPATCH_DEFERRED'')"

fun class_task :: "task_class \<Rightarrow> task_type" where
  "class_task ANNOTATION = ACTIVE_ANNOTATION"
| "class_task TITLE_REPAIR = TITLE_TRANSLATION"
| "class_task _ = ACTIVE_IMPACT"

text \<open>\<open>int((now - then).total_seconds() * 1000)\<close>, clipped at zero.\<close>

definition age_ms :: "platform \<Rightarrow> instant \<Rightarrow> instant option \<Rightarrow> int" where
  "age_ms P now since =
     (let d = now - (case since of None \<Rightarrow> now | Some t \<Rightarrow> t)
      in max 0 (py_int (fl P (fl P (of_int d / 1000000) * 1000))))"

definition stored_pressure :: "dispatch_task list \<Rightarrow> pressure" where
  "stored_pressure tasks =
     (case find (\<lambda>t. dt_class t = DAILY_BRIEF) tasks of
        None \<Rightarrow> \<lparr>pr_dependency_fanout = 0, pr_oldest_age_ms = 0, pr_retry_overdue_ms = 0,
                 pr_backlog = max 1 0, pr_drain_gap = 0\<rparr>
      | Some t \<Rightarrow> (let p = dt_pressure t in
          \<lparr>pr_dependency_fanout = max 0 (pr_dependency_fanout p),
           pr_oldest_age_ms = max 0 (pr_oldest_age_ms p),
           pr_retry_overdue_ms = max 0 (pr_retry_overdue_ms p),
           pr_backlog = max 1 (pr_backlog p), pr_drain_gap = max 0 (pr_drain_gap p)\<rparr>))"

definition queue_pressure :: "platform \<Rightarrow> job list \<Rightarrow> task_class \<Rightarrow> instant \<Rightarrow> pressure" where
  "queue_pressure P jobs cls now =
     (let rows = filter (\<lambda>j. j_task j = class_task cls \<and> open_job now j \<and>
                           (cls = EMBEDDING \<longrightarrow> waits_for_embedding j)) jobs;
          fanout = (if cls = EMBEDDING then int (length rows) else 0);
          backlog = max 1 (int (length rows));
          completed = sql_count (\<lambda>j. j_task j = class_task cls \<and> j_state j = COMPLETED \<and>
              (case j_completed_at j of None \<Rightarrow> False | Some t \<Rightarrow> now - minutes 15 \<le> t)) jobs
      in \<lparr>pr_dependency_fanout = fanout,
          pr_oldest_age_ms = age_ms P now (sql_min (\<lambda>j. Some (j_created_at j)) rows),
          pr_retry_overdue_ms = age_ms P now (sql_min (\<lambda>j. Some (j_available_at j)) rows),
          pr_backlog = backlog, pr_drain_gap = max 0 (backlog - completed)\<rparr>)"

definition provider_pressure :: "platform \<Rightarrow> task_class \<Rightarrow> instant \<Rightarrow> scheduler_db \<Rightarrow> pressure" where
  "provider_pressure P cls now db =
     (if cls = DAILY_BRIEF then stored_pressure (db_dispatch_tasks db)
      else queue_pressure P (db_jobs db) cls now)"

section \<open>Demand and selection\<close>

definition register_provider_demand ::
    "platform \<Rightarrow> task_class \<Rightarrow> instant \<Rightarrow> pressure option \<Rightarrow> scheduler_db \<Rightarrow> scheduler_db" where
  "register_provider_demand P cls now given db =
     (let p = (case given of Some p \<Rightarrow> p | None \<Rightarrow> provider_pressure P cls now db)
      in db\<lparr>db_dispatch_tasks :=
           sql_upsert dt_class
             (\<lambda>t. t\<lparr>dt_requested_at := now, dt_demand_until := now + DEMAND_TTL, dt_pressure := p\<rparr>)
             \<lparr>dt_class = cls, dt_requested_at = now, dt_demand_until = now + DEMAND_TTL,
              dt_dispatched_at = None, dt_pressure = p\<rparr> (db_dispatch_tasks db)\<rparr>)"

definition pressure_values :: "pressure \<Rightarrow> int list" where
  "pressure_values p =
     [pr_dependency_fanout p, pr_oldest_age_ms p, pr_retry_overdue_ms p, pr_backlog p, pr_drain_gap p]"

definition dominates :: "dispatch_task \<Rightarrow> dispatch_task \<Rightarrow> bool" where
  "dominates l r \<longleftrightarrow>
     list_all2 (\<ge>) (pressure_values (dt_pressure l)) (pressure_values (dt_pressure r)) \<and>
     (\<exists>(x, y) \<in> set (zip (pressure_values (dt_pressure l)) (pressure_values (dt_pressure r))). y < x)"

definition refresh_pressure :: "platform \<Rightarrow> instant \<Rightarrow> scheduler_db \<Rightarrow> scheduler_db" where
  "refresh_pressure P now db =
     db\<lparr>db_dispatch_tasks :=
       sql_update (\<lambda>t. now \<le> dt_demand_until t)
         (\<lambda>t. t\<lparr>dt_pressure := provider_pressure P (dt_class t) now db\<rparr>) (db_dispatch_tasks db)\<rparr>"

definition dispatch_candidates :: "instant \<Rightarrow> scheduler_db \<Rightarrow> dispatch_task list" where
  "dispatch_candidates now db = filter (\<lambda>t. now \<le> dt_demand_until t) (db_dispatch_tasks db)"

definition frontier :: "dispatch_task list \<Rightarrow> dispatch_task list" where
  "frontier candidates =
     filter (\<lambda>c. \<not> (\<exists>d \<in> set candidates. dt_class d \<noteq> dt_class c \<and> dominates d c)) candidates"

definition rotation_key :: "dispatch_task \<Rightarrow> bool \<times> instant \<times> task_class" where
  "rotation_key t =
     (case dt_dispatched_at t of None \<Rightarrow> (False, 0, dt_class t) | Some d \<Rightarrow> (True, d, dt_class t))"

definition selected_provider_task ::
    "platform \<Rightarrow> instant \<Rightarrow> scheduler_db \<Rightarrow> (task_class \<times> scheduler_db) outcome" where
  "selected_provider_task P now db =
     (let db1 = refresh_pressure P now db
      in case sql_first rotation_key (\<lambda>_. True) (frontier (dispatch_candidates now db1)) of
           None \<Rightarrow> Inl (ValueError ''min() iterable argument is empty'')
         | Some t \<Rightarrow> Inr (dt_class t, db1))"

section \<open>Slots\<close>

definition provider_dispatch_row :: "scheduler_db \<Rightarrow> dispatch_state option" where
  "provider_dispatch_row db = find (\<lambda>s. ds_scope s = GOOGLE_PROVIDER_SCOPE) (db_dispatch db)"

text \<open>The earliest instant at which the stored row lets a request go.\<close>

definition eligible_at :: "dispatch_state option \<Rightarrow> instant \<Rightarrow> instant" where
  "eligible_at row now =
     (case row of
        None \<Rightarrow> max now now
      | Some s \<Rightarrow> max (ds_next_eligible_at s)
                     (case ds_cooldown_until s of None \<Rightarrow> now | Some c \<Rightarrow> c))"

definition grant_slot :: "task_class \<Rightarrow> int \<Rightarrow> instant \<Rightarrow> scheduler_db \<Rightarrow> scheduler_db" where
  "grant_slot cls interval now db =
     db\<lparr>db_dispatch :=
          sql_upsert ds_scope
            (\<lambda>s. s\<lparr>ds_next_eligible_at := now + milliseconds interval, ds_last_outcome := Some DISPATCHED,
                   ds_updated_at := now\<rparr>)
            \<lparr>ds_scope = GOOGLE_PROVIDER_SCOPE, ds_next_eligible_at = now + milliseconds interval,
             ds_interval_ms = interval, ds_success_streak = 0, ds_throttle_count = 0,
             ds_cooldown_until = None, ds_last_outcome = Some DISPATCHED, ds_updated_at = now\<rparr>
            (db_dispatch db),
        db_dispatch_tasks :=
          sql_update (\<lambda>t. dt_class t = cls) (\<lambda>t. t\<lparr>dt_dispatched_at := Some now\<rparr>) (db_dispatch_tasks db)\<rparr>"

definition reserve_provider_dispatch_locked ::
    "platform \<Rightarrow> string \<Rightarrow> instant \<Rightarrow> scheduler_db \<Rightarrow> ((bool \<times> instant) \<times> scheduler_db) outcome" where
  "reserve_provider_dispatch_locked P provider_task now db =
     (let cls = provider_task_class provider_task;
          db1 = register_provider_demand P cls now None db;
          row = provider_dispatch_row db1;
          interval = (case row of None \<Rightarrow> INITIAL_INTERVAL_MS | Some s \<Rightarrow> ds_interval_ms s)
      in if now < eligible_at row now then Inr ((False, eligible_at row now), db1)
         else bind_out (selected_provider_task P now db1)
           (\<lambda>(selected, db2).
              if selected \<noteq> cls then Inr ((False, now + milliseconds interval), db2)
              else Inr ((True, now + milliseconds interval), grant_slot cls interval now db2)))"

definition reserve_provider_dispatch ::
    "platform \<Rightarrow> string \<Rightarrow> instant \<Rightarrow> scheduler_db \<Rightarrow> ((bool \<times> instant) \<times> scheduler_db) outcome" where
  "reserve_provider_dispatch P provider_task now db = reserve_provider_dispatch_locked P provider_task now db"

definition register_provider_dispatch_demand ::
    "platform \<Rightarrow> string \<Rightarrow> instant \<Rightarrow> pressure option \<Rightarrow> scheduler_db \<Rightarrow> scheduler_db" where
  "register_provider_dispatch_demand P provider_task now given db =
     register_provider_demand P (provider_task_class provider_task) now given db"

definition provider_dispatch_next_eligible :: "scheduler_db \<Rightarrow> instant option" where
  "provider_dispatch_next_eligible db = map_option ds_next_eligible_at (provider_dispatch_row db)"

section \<open>Outcomes\<close>

definition bounded_wait :: "int \<Rightarrow> int" where
  "bounded_wait s = seconds (max 1 (min 86400 s))"

text \<open>
  The row after an outcome. A wait of \<open>interval_ms / 1000\<close> seconds becomes a \<open>timedelta\<close>, which
  rounds to whole microseconds and so is \<open>interval_ms\<close> milliseconds.
\<close>

definition dispatch_after ::
    "platform \<Rightarrow> provider_outcome \<Rightarrow> int option \<Rightarrow> instant \<Rightarrow> dispatch_state \<Rightarrow> dispatch_state" where
  "dispatch_after P result retry_after now s =
     (let base = s\<lparr>ds_last_outcome := Some (Outcome result), ds_updated_at := now\<rparr>
      in if result = PROVIDER_THROTTLED then
           (let interval = min MAX_INTERVAL_MS (max INITIAL_INTERVAL_MS (ds_interval_ms s * 2));
                cooldown = now + (case retry_after of Some n \<Rightarrow> bounded_wait n | None \<Rightarrow> milliseconds interval)
            in base\<lparr>ds_interval_ms := interval, ds_success_streak := 0,
                    ds_throttle_count := ds_throttle_count s + 1, ds_cooldown_until := Some cooldown,
                    ds_next_eligible_at := max (ds_next_eligible_at s) cooldown\<rparr>)
         else case (result, retry_after) of
           (PROVIDER_FAILED, Some n) \<Rightarrow>
             (let cooldown = now + bounded_wait n
              in base\<lparr>ds_cooldown_until := Some cooldown,
                      ds_next_eligible_at := max (ds_next_eligible_at s) cooldown, ds_success_streak := 0\<rparr>)
         | _ \<Rightarrow>
             if result = PROVIDER_SUCCEEDED \<and>
                (case ds_cooldown_until s of None \<Rightarrow> True | Some c \<Rightarrow> c \<le> now)
             then base\<lparr>ds_success_streak := ds_success_streak s + 1,
                       ds_interval_ms := max MIN_INTERVAL_MS
                         (py_round (fl P (of_int (ds_interval_ms s) * fl P (9 / 10)))),
                       ds_cooldown_until := None\<rparr>
             else base\<lparr>ds_success_streak := 0\<rparr>)"

definition record_provider_dispatch_outcome ::
    "platform \<Rightarrow> string \<Rightarrow> int option \<Rightarrow> instant \<Rightarrow> scheduler_db \<Rightarrow> scheduler_db outcome" where
  "record_provider_dispatch_outcome P result retry_after now db =
     (case outcome_of result of
        None \<Rightarrow> Inl (ValueError ''provider dispatch outcome is not controlled'')
      | Some r \<Rightarrow>
          (case provider_dispatch_row db of
             None \<Rightarrow> Inr db
           | Some s \<Rightarrow> Inr (db\<lparr>db_dispatch :=
               sql_update (\<lambda>s'. ds_scope s' = GOOGLE_PROVIDER_SCOPE) (\<lambda>_. dispatch_after P r retry_after now s)
                 (db_dispatch db)\<rparr>)))"

section \<open>The interface of a paced resource\<close>

text \<open>
  A resource that grants slots and keeps the instant before which it grants none: that instant
  never moves back, no grant precedes it, and a grant moves it on by a gap at least.
\<close>

locale paced_resource =
  fixes run :: "'s \<Rightarrow> 'a \<Rightarrow> 's"
    and granted :: "'s \<Rightarrow> 'a \<Rightarrow> instant option"
    and next_at :: "'s \<Rightarrow> instant option"
    and wf :: "'s \<Rightarrow> bool"
    and gap :: int
  assumes wf_run: "wf s \<Longrightarrow> wf (run s a)"
    and never_back: "wf s \<Longrightarrow> next_at s = Some t \<Longrightarrow> \<exists>t'. next_at (run s a) = Some t' \<and> t \<le> t'"
    and gate: "wf s \<Longrightarrow> granted s a = Some now \<Longrightarrow> next_at s = Some t \<Longrightarrow> t \<le> now"
    and moves_on: "wf s \<Longrightarrow> granted s a = Some now \<Longrightarrow> \<exists>t. next_at (run s a) = Some t \<and> now + gap \<le> t"
begin

fun grants :: "'s \<Rightarrow> 'a list \<Rightarrow> instant list" where
  "grants s [] = []"
| "grants s (a # as) = (case granted s a of None \<Rightarrow> [] | Some t \<Rightarrow> [t]) @ grants (run s a) as"

lemma blocked: "wf s \<Longrightarrow> next_at s = Some t \<Longrightarrow> g \<in> set (grants s as) \<Longrightarrow> t \<le> g"
proof (induction as arbitrary: s t)
  case (Cons a as)
  from never_back [OF Cons.prems(1,2)] obtain t' where t': "next_at (run s a) = Some t'" "t \<le> t'" by blast
  from Cons.prems(3) consider "granted s a = Some g" | "g \<in> set (grants (run s a) as)"
    by (auto split: option.splits)
  then show ?case
  proof cases
    case 1
    then show ?thesis using gate Cons.prems by blast
  next
    case 2
    with Cons.IH [OF wf_run [OF Cons.prems(1)] t'(1)] t'(2) show ?thesis by simp
  qed
qed simp

lemma spaced: "wf s \<Longrightarrow> sorted_wrt (\<lambda>x y. x + gap \<le> y) (grants s as)"
proof (induction as arbitrary: s)
  case (Cons a as)
  note rest = Cons.IH [OF wf_run [OF Cons.prems, of a]]
  show ?case
  proof (cases "granted s a")
    case (Some now)
    from moves_on [OF Cons.prems Some] obtain t where "next_at (run s a) = Some t" "now + gap \<le> t" by blast
    with blocked [OF wf_run [OF Cons.prems]] have "\<forall>g \<in> set (grants (run s a) as). now + gap \<le> g"
      by fastforce
    with rest Some show ?thesis by simp
  qed (use rest in simp)
qed simp

end

section \<open>The governor is a paced resource\<close>

datatype dispatch_action =
    Reserve string instant
  | Demand string instant "pressure option"
  | Report string "int option" instant

definition dispatch_run :: "platform \<Rightarrow> scheduler_db \<Rightarrow> dispatch_action \<Rightarrow> scheduler_db" where
  "dispatch_run P db a =
     (case a of
        Reserve task now \<Rightarrow>
          (case reserve_provider_dispatch P task now db of Inl _ \<Rightarrow> db | Inr (_, db') \<Rightarrow> db')
      | Demand task now given \<Rightarrow> register_provider_dispatch_demand P task now given db
      | Report result retry now \<Rightarrow>
          (case record_provider_dispatch_outcome P result retry now db of Inl _ \<Rightarrow> db | Inr db' \<Rightarrow> db'))"

definition dispatch_granted :: "platform \<Rightarrow> scheduler_db \<Rightarrow> dispatch_action \<Rightarrow> instant option" where
  "dispatch_granted P db a =
     (case a of
        Reserve task now \<Rightarrow>
          (case reserve_provider_dispatch P task now db of
             Inr ((True, _), _) \<Rightarrow> Some now | _ \<Rightarrow> None)
      | _ \<Rightarrow> None)"

definition dispatch_ok :: "scheduler_db \<Rightarrow> bool" where
  "dispatch_ok db \<longleftrightarrow> (\<forall>s. provider_dispatch_row db = Some s \<longrightarrow> MIN_INTERVAL_MS \<le> ds_interval_ms s)"

lemmas interval_defs = INITIAL_INTERVAL_MS_def MIN_INTERVAL_MS_def MAX_INTERVAL_MS_def

lemma row_SomeD: "provider_dispatch_row db = Some s \<Longrightarrow> ds_scope s = GOOGLE_PROVIDER_SCOPE"
  by (auto simp: provider_dispatch_row_def dest: find_SomeD)

lemma row_unchanged [simp]:
  "provider_dispatch_row (register_provider_demand P cls now g db) = provider_dispatch_row db"
  "provider_dispatch_row (refresh_pressure P now db) = provider_dispatch_row db"
  by (simp_all add: provider_dispatch_row_def register_provider_demand_def refresh_pressure_def Let_def)

lemma row_grant:
  "provider_dispatch_row (grant_slot cls interval now db) =
     Some (case provider_dispatch_row db of
        None \<Rightarrow> \<lparr>ds_scope = GOOGLE_PROVIDER_SCOPE, ds_next_eligible_at = now + milliseconds interval,
           ds_interval_ms = interval, ds_success_streak = 0, ds_throttle_count = 0,
           ds_cooldown_until = None, ds_last_outcome = Some DISPATCHED, ds_updated_at = now\<rparr>
      | Some s \<Rightarrow> s\<lparr>ds_next_eligible_at := now + milliseconds interval, ds_last_outcome := Some DISPATCHED,
           ds_updated_at := now\<rparr>)"
proof (cases "provider_dispatch_row db")
  case None
  then have nin: "GOOGLE_PROVIDER_SCOPE \<notin> ds_scope ` set (db_dispatch db)"
    by (auto simp: provider_dispatch_row_def find_None_iff)
  then have "\<forall>s \<in> set (db_dispatch db). ds_scope s \<noteq> GOOGLE_PROVIDER_SCOPE" by (metis imageI)
  with None nin show ?thesis
    by (simp add: provider_dispatch_row_def grant_slot_def sql_upsert_def find_append_new)
next
  case (Some s)
  then have "s \<in> set (db_dispatch db)" "ds_scope s = GOOGLE_PROVIDER_SCOPE"
    by (auto simp: provider_dispatch_row_def dest: find_SomeD)
  then have "GOOGLE_PROVIDER_SCOPE \<in> ds_scope ` set (db_dispatch db)" by (metis imageI)
  with Some show ?thesis
    by (simp add: provider_dispatch_row_def grant_slot_def sql_upsert_def find_update_same)
qed

lemma row_after_report:
  assumes "record_provider_dispatch_outcome P result retry now db = Inr db'" "provider_dispatch_row db = Some s"
  shows "\<exists>r. outcome_of result = Some r \<and> provider_dispatch_row db' = Some (dispatch_after P r retry now s)"
proof -
  have "ds_scope (dispatch_after P r retry now s) = GOOGLE_PROVIDER_SCOPE" for r
    using row_SomeD [OF assms(2)] by (auto simp: dispatch_after_def Let_def split: option.splits provider_outcome.splits)
  with assms show ?thesis
    by (auto simp: record_provider_dispatch_outcome_def provider_dispatch_row_def find_update_same
        split: option.splits)
qed

text \<open>The two outcomes of a reservation.\<close>

lemma reserveE:
  assumes "reserve_provider_dispatch P task now db = Inr ((b, t), db')"
  obtains (refused) "\<not> b" "provider_dispatch_row db' = provider_dispatch_row db"
  | (granted) interval db2 where "b" "t = now + milliseconds interval"
      "interval = (case provider_dispatch_row db of None \<Rightarrow> INITIAL_INTERVAL_MS | Some s \<Rightarrow> ds_interval_ms s)"
      "eligible_at (provider_dispatch_row db) now \<le> now"
      "selected_provider_task P now (register_provider_demand P (provider_task_class task) now None db)
         = Inr (provider_task_class task, db2)"
      "db' = grant_slot (provider_task_class task) interval now db2"
      "provider_dispatch_row db2 = provider_dispatch_row db"
proof (cases b)
  case False
  with assms have "provider_dispatch_row db' = provider_dispatch_row db"
    by (auto simp: reserve_provider_dispatch_def reserve_provider_dispatch_locked_def Let_def
        bind_out_Inr_iff selected_provider_task_def split: if_splits option.splits)
  with False show ?thesis by (rule refused)
next
  case True
  let ?db1 = "register_provider_demand P (provider_task_class task) now None db"
  from assms True obtain db2 where
    e: "eligible_at (provider_dispatch_row db) now \<le> now"
    and sel: "selected_provider_task P now ?db1 = Inr (provider_task_class task, db2)"
    and t: "t = now + milliseconds (case provider_dispatch_row db of None \<Rightarrow> INITIAL_INTERVAL_MS | Some s \<Rightarrow> ds_interval_ms s)"
    and db': "db' = grant_slot (provider_task_class task)
        (case provider_dispatch_row db of None \<Rightarrow> INITIAL_INTERVAL_MS | Some s \<Rightarrow> ds_interval_ms s) now db2"
    by (auto simp: reserve_provider_dispatch_def reserve_provider_dispatch_locked_def Let_def
        bind_out_Inr_iff split: if_splits)
  have "provider_dispatch_row db2 = provider_dispatch_row db"
    using sel by (auto simp: selected_provider_task_def Let_def split: option.splits)
  then show ?thesis by (rule granted [OF True t refl e sel db'])
qed

lemma dispatch_after_interval:
  "MIN_INTERVAL_MS \<le> ds_interval_ms s \<Longrightarrow> MIN_INTERVAL_MS \<le> ds_interval_ms (dispatch_after P r retry now s)"
  by (auto simp: dispatch_after_def Let_def interval_defs split: option.splits provider_outcome.splits)

lemma dispatch_after_next:
  "ds_next_eligible_at s \<le> ds_next_eligible_at (dispatch_after P r retry now s)"
  by (auto simp: dispatch_after_def Let_def split: option.splits provider_outcome.splits)

lemma row_run_report:
  assumes "provider_dispatch_row db = Some s"
  shows "\<exists>s'. provider_dispatch_row (dispatch_run P db (Report result retry now)) = Some s' \<and>
     (s' = s \<or> (\<exists>r. s' = dispatch_after P r retry now s))"
proof (cases "record_provider_dispatch_outcome P result retry now db")
  case (Inl e)
  with assms show ?thesis by (simp add: dispatch_run_def)
next
  case (Inr db')
  with row_after_report [OF this assms] show ?thesis by (auto simp: dispatch_run_def)
qed

lemma row_run_None:
  assumes "provider_dispatch_row db = None"
  shows "provider_dispatch_row (dispatch_run P db (Report result retry now)) = None"
  using assms by (simp add: dispatch_run_def record_provider_dispatch_outcome_def split: option.splits)

lemma dispatch_granted_iff:
  "dispatch_granted P db a = Some now \<longleftrightarrow>
     (\<exists>task t db'. a = Reserve task now \<and> reserve_provider_dispatch P task now db = Inr ((True, t), db'))"
  by (auto simp: dispatch_granted_def split: dispatch_action.splits sum.splits bool.splits)

lemma dispatch_run_row:
  assumes "dispatch_ok db"
  shows "dispatch_ok (dispatch_run P db a) \<and>
     (\<forall>s. provider_dispatch_row db = Some s \<longrightarrow>
        (\<exists>s'. provider_dispatch_row (dispatch_run P db a) = Some s' \<and> ds_next_eligible_at s \<le> ds_next_eligible_at s')) \<and>
     (\<forall>now. dispatch_granted P db a = Some now \<longrightarrow>
        (\<exists>s'. provider_dispatch_row (dispatch_run P db a) = Some s' \<and>
           now + milliseconds MIN_INTERVAL_MS \<le> ds_next_eligible_at s'))"
proof (cases a)
  case (Reserve task now)
  show ?thesis
  proof (cases "reserve_provider_dispatch P task now db")
    case (Inl e)
    with Reserve assms show ?thesis by (simp add: dispatch_run_def dispatch_granted_def)
  next
    case (Inr r)
    then obtain b t db' where r: "reserve_provider_dispatch P task now db = Inr ((b, t), db')" by (cases r) auto
    with Reserve have run: "dispatch_run P db a = db'" by (simp add: dispatch_run_def)
    from r show ?thesis
    proof (cases rule: reserveE)
      case refused
      with r Reserve run assms show ?thesis by (simp add: dispatch_granted_def dispatch_ok_def)
    next
      case (granted interval db2)
      have i: "MIN_INTERVAL_MS \<le> interval"
        using granted(3) assms by (auto simp: dispatch_ok_def interval_defs split: option.splits)
      then have "0 \<le> interval" by (simp add: interval_defs)
      with i granted(3,4,7) Reserve run granted(6) show ?thesis
        by (auto simp: row_grant dispatch_ok_def eligible_at_def dispatch_granted_iff split: option.splits)
    qed
  qed
next
  case (Demand task now given)
  then have "provider_dispatch_row (dispatch_run P db a) = provider_dispatch_row db"
    by (simp add: dispatch_run_def register_provider_dispatch_demand_def)
  with Demand assms show ?thesis by (simp add: dispatch_ok_def dispatch_granted_def)
next
  case (Report result retry now)
  show ?thesis
  proof (cases "provider_dispatch_row db")
    case None
    with Report row_run_None [OF None] show ?thesis by (simp add: dispatch_ok_def dispatch_granted_def)
  next
    case (Some s)
    from row_run_report [OF Some, of P result retry now] Report obtain s' where
      s': "provider_dispatch_row (dispatch_run P db a) = Some s'"
      and from_s: "s' = s \<or> (\<exists>r. s' = dispatch_after P r retry now s)" by auto
    have "MIN_INTERVAL_MS \<le> ds_interval_ms s'"
      using from_s assms Some dispatch_after_interval by (auto simp: dispatch_ok_def)
    moreover have "ds_next_eligible_at s \<le> ds_next_eligible_at s'"
      using from_s dispatch_after_next by auto
    ultimately show ?thesis using s' Some Report by (simp add: dispatch_ok_def dispatch_granted_def)
  qed
qed

interpretation governor: paced_resource "dispatch_run P" "dispatch_granted P"
  provider_dispatch_next_eligible dispatch_ok "milliseconds MIN_INTERVAL_MS" for P
proof
  fix s a now t
  assume wf: "dispatch_ok s"
  show "dispatch_ok (dispatch_run P s a)" using dispatch_run_row [OF wf] by blast
  show "\<exists>t'. provider_dispatch_next_eligible (dispatch_run P s a) = Some t' \<and> t \<le> t'"
    if "provider_dispatch_next_eligible s = Some t"
    using that dispatch_run_row [OF wf, of P a] by (auto simp: provider_dispatch_next_eligible_def)
  show "t \<le> now" if "dispatch_granted P s a = Some now" "provider_dispatch_next_eligible s = Some t"
  proof -
    from that(1) obtain task t' db' where "reserve_provider_dispatch P task now s = Inr ((True, t'), db')"
      by (auto simp: dispatch_granted_iff)
    then show ?thesis
      by (cases rule: reserveE) (use that(2) in \<open>auto simp: provider_dispatch_next_eligible_def eligible_at_def\<close>)
  qed
  show "\<exists>t. provider_dispatch_next_eligible (dispatch_run P s a) = Some t \<and> now + milliseconds MIN_INTERVAL_MS \<le> t"
    if "dispatch_granted P s a = Some now"
    using that dispatch_run_row [OF wf, of P a] by (auto simp: provider_dispatch_next_eligible_def)
qed


section \<open>Selection\<close>

lemma dominates_sum:
  assumes "dominates l r"
  shows "sum_list (pressure_values (dt_pressure r)) < sum_list (pressure_values (dt_pressure l))"
  using assms by (auto simp: dominates_def pressure_values_def)

lemma frontier_not_empty:
  assumes "candidates \<noteq> []"
  shows "frontier candidates \<noteq> []"
proof -
  let ?w = "\<lambda>c. sum_list (pressure_values (dt_pressure c))"
  let ?m = "Max (?w ` set candidates)"
  have "?m \<in> ?w ` set candidates" using assms by (intro Max_in) simp_all
  then obtain c where c: "c \<in> set candidates" "?w c = ?m" by auto
  have "\<not> dominates d c" if "d \<in> set candidates" for d
  proof
    assume "dominates d c"
    then have "?w c < ?w d" by (rule dominates_sum)
    moreover have "?w d \<le> ?m" using that by (intro Max_ge) simp_all
    ultimately show False using c(2) by simp
  qed
  with c(1) have "c \<in> set (frontier candidates)" by (auto simp: frontier_def)
  then show ?thesis by (metis length_pos_if_in_set list.size(3) less_irrefl)
qed

lemma selected_SomeD:
  assumes "selected_provider_task P now db = Inr (cls, db')"
  obtains t where "db' = refresh_pressure P now db" "t \<in> set (dispatch_candidates now db')" "dt_class t = cls"
    "\<And>d. d \<in> set (dispatch_candidates now db') \<Longrightarrow> dt_class d \<noteq> dt_class t \<Longrightarrow> \<not> dominates d t"
    "\<And>d. d \<in> set (frontier (dispatch_candidates now db')) \<Longrightarrow> rotation_key t \<le> rotation_key d"
proof -
  let ?c = "dispatch_candidates now (refresh_pressure P now db)"
  from assms obtain t where t: "sql_first rotation_key (\<lambda>_. True) (frontier ?c) = Some t"
    "cls = dt_class t" "db' = refresh_pressure P now db"
    by (auto simp: selected_provider_task_def Let_def split: option.splits)
  note D = sql_first_SomeD [OF t(1)]
  show ?thesis
  proof (rule that [OF t(3)])
    show "t \<in> set (dispatch_candidates now db')" using D(1) t(3) by (simp add: frontier_def)
    show "dt_class t = cls" using t(2) by simp
    show "\<not> dominates d t" if "d \<in> set (dispatch_candidates now db')" "dt_class d \<noteq> dt_class t" for d
      using D(1) that t(3) by (auto simp: frontier_def)
    show "rotation_key t \<le> rotation_key d" if "d \<in> set (frontier (dispatch_candidates now db'))" for d
      using D(3) that t(3) by simp
  qed
qed

lemma own_demand_registered:
  "\<exists>t \<in> set (dispatch_candidates now (register_provider_demand P cls now g db)). dt_class t = cls"
proof -
  let ?p = "case g of Some p \<Rightarrow> p | None \<Rightarrow> provider_pressure P cls now db"
  let ?f = "\<lambda>t. t\<lparr>dt_requested_at := now, dt_demand_until := now + DEMAND_TTL, dt_pressure := ?p\<rparr>"
  show ?thesis
  proof (cases "cls \<in> dt_class ` set (db_dispatch_tasks db)")
    case True
    then obtain t where t: "t \<in> set (db_dispatch_tasks db)" "dt_class t = cls" by auto
    have "?f t \<in> set (sql_update (\<lambda>t. dt_class t = cls) ?f (db_dispatch_tasks db))"
      using sql_update_memI(1) [of t "db_dispatch_tasks db" "\<lambda>t. dt_class t = cls" ?f] t by simp
    with True have "?f t \<in> set (dispatch_candidates now (register_provider_demand P cls now g db))"
      by (simp add: dispatch_candidates_def register_provider_demand_def Let_def sql_upsert_def DEMAND_TTL_def)
    with t(2) show ?thesis by (intro bexI) simp_all
  next
    case False
    then show ?thesis
      by (simp add: dispatch_candidates_def register_provider_demand_def Let_def sql_upsert_def DEMAND_TTL_def)
  qed
qed

lemma refresh_candidates:
  "map dt_class (dispatch_candidates now (refresh_pressure P now db)) = map dt_class (dispatch_candidates now db)"
proof -
  have "map dt_class (filter (\<lambda>t. now \<le> dt_demand_until t) (sql_update (\<lambda>t. now \<le> dt_demand_until t)
      (\<lambda>t. t\<lparr>dt_pressure := f t\<rparr>) ts)) = map dt_class (filter (\<lambda>t. now \<le> dt_demand_until t) ts)" for f ts
    by (induction ts) (simp_all add: sql_update_def)
  then show ?thesis by (simp add: dispatch_candidates_def refresh_pressure_def)
qed

lemma selection_never_fails:
  "\<exists>cls' db'. selected_provider_task P now (register_provider_demand P cls now g db) = Inr (cls', db')"
proof -
  let ?db = "register_provider_demand P cls now g db"
  have "dispatch_candidates now ?db \<noteq> []" using own_demand_registered [of now P cls g db] by auto
  then have "dispatch_candidates now (refresh_pressure P now ?db) \<noteq> []"
    using refresh_candidates [of now P ?db] by (metis map_is_Nil_conv)
  from frontier_not_empty [OF this] obtain t where
    "sql_first rotation_key (\<lambda>_. True) (frontier (dispatch_candidates now (refresh_pressure P now ?db))) = Some t"
    using sql_first_None_iff [of rotation_key "\<lambda>_. True"] by (metis last_in_set not_None_eq)
  then show ?thesis by (simp add: selected_provider_task_def Let_def)
qed

section \<open>Properties of the governor\<close>

fun dispatch_grants :: "platform \<Rightarrow> scheduler_db \<Rightarrow> dispatch_action list \<Rightarrow> instant list" where
  "dispatch_grants P db [] = []"
| "dispatch_grants P db (a # as) =
     (case dispatch_granted P db a of None \<Rightarrow> [] | Some t \<Rightarrow> [t]) @ dispatch_grants P (dispatch_run P db a) as"

lemma dispatch_grants_eq: "dispatch_grants P db as = governor.grants P db as"
  by (induction as arbitrary: db) simp_all

text \<open>
  C10: dispatches are paced across all workers and task classes: in any sequence of reservations,
  demands and provider reports, with any clock readings, two granted slots are at least the
  minimum interval of 120 milliseconds apart.
\<close>

theorem dispatches_are_paced:
  assumes "dispatch_ok db"
  shows "sorted_wrt (\<lambda>x y. x + milliseconds MIN_INTERVAL_MS \<le> y) (dispatch_grants P db actions)"
  unfolding dispatch_grants_eq by (rule governor.spaced [OF assms])

text \<open>
  A throttled provider is left alone: after a report of throttling at an instant, no slot is
  granted, whatever happens next, before the requested wait (at least one second, at most a day)
  or, when the provider named none, before the doubled interval has passed.
\<close>

theorem throttling_is_respected:
  assumes "dispatch_ok db" "provider_dispatch_row db = Some s"
    "g \<in> set (dispatch_grants P (dispatch_run P db (Report ''PROVIDER_THROTTLED'' retry now)) actions)"
  shows "now + (case retry of Some n \<Rightarrow> bounded_wait n
     | None \<Rightarrow> milliseconds (min MAX_INTERVAL_MS (max INITIAL_INTERVAL_MS (ds_interval_ms s * 2)))) \<le> g"
proof -
  let ?db' = "dispatch_run P db (Report ''PROVIDER_THROTTLED'' retry now)"
  have "outcome_of ''PROVIDER_THROTTLED'' = Some PROVIDER_THROTTLED"
    using outcome_of_name [of PROVIDER_THROTTLED] by simp
  then obtain db' where r: "record_provider_dispatch_outcome P ''PROVIDER_THROTTLED'' retry now db = Inr db'"
    by (simp add: record_provider_dispatch_outcome_def assms(2))
  from row_after_report [OF r assms(2)] have row: "provider_dispatch_row ?db' =
      Some (dispatch_after P PROVIDER_THROTTLED retry now s)"
    using r by (auto simp: dispatch_run_def outcome_of_def of_name_def)
  have ok: "dispatch_ok ?db'" using dispatch_run_row [OF assms(1)] by blast
  from row have "provider_dispatch_next_eligible ?db' =
      Some (ds_next_eligible_at (dispatch_after P PROVIDER_THROTTLED retry now s))"
    by (simp add: provider_dispatch_next_eligible_def)
  from governor.blocked [OF ok this assms(3) [unfolded dispatch_grants_eq]]
  show ?thesis by (auto simp: dispatch_after_def Let_def split: option.splits)
qed

text \<open>
  The pacing interval adapts within its bounds: throttling doubles it (250 milliseconds at
  least, 5 seconds at most), a success outside a cooldown shrinks it and never below 120
  milliseconds, other reports keep it, and it satisfies the constraint of its column for ever.
\<close>

theorem interval_adapts_within_bounds:
  assumes "binary64_rounding (fl P)" "ds_interval_ms s \<in> {MIN_INTERVAL_MS..MAX_INTERVAL_MS}"
  shows "ds_interval_ms (dispatch_after P r retry now s) \<in> {MIN_INTERVAL_MS..MAX_INTERVAL_MS} \<and>
     (r = PROVIDER_THROTTLED \<longrightarrow> ds_interval_ms s \<le> ds_interval_ms (dispatch_after P r retry now s)) \<and>
     (r = PROVIDER_SUCCEEDED \<longrightarrow> ds_interval_ms (dispatch_after P r retry now s) \<le> ds_interval_ms s) \<and>
     (r = PROVIDER_FAILED \<longrightarrow> ds_interval_ms (dispatch_after P r retry now s) = ds_interval_ms s)"
proof -
  let ?i = "ds_interval_ms s"
  let ?shrunk = "py_round (fl P (of_int ?i * fl P (9 / 10)))"
  have i: "120 \<le> ?i" "?i \<le> 5000" using assms(2) by (simp_all add: interval_defs)
  have "fl P (9 / 10) \<le> fl P 1" by (rule rounding_mono [OF assms(1)]) simp
  then have "fl P (9 / 10) \<le> 1" using rounding_int [OF assms(1), of 1] by simp
  then have "of_int ?i * fl P (9 / 10) \<le> of_int ?i" using i by (simp add: mult_left_le)
  from rounding_mono [OF assms(1) this] have "fl P (of_int ?i * fl P (9 / 10)) \<le> of_int ?i"
    using rounding_int [OF assms(1), of ?i] i by simp
  then have "?shrunk \<le> ?i" by (rule py_round_le_int)
  then show ?thesis
    using i by (cases r) (auto simp: dispatch_after_def Let_def interval_defs split: option.splits)
qed

text \<open>
  A slot goes where the pressure is: when a reservation is granted, no other class with live
  demand dominates the pressure of the class that gets the slot, and among the undominated classes
  it is one that was never dispatched or the one dispatched least recently. A reservation never
  fails: it is granted or answered with an instant to come back.
\<close>

theorem slot_follows_pressure:
  "\<exists>b t db'. reserve_provider_dispatch P task now db = Inr ((b, t), db') \<and>
     (b \<longrightarrow> (\<exists>db2 w. db2 = refresh_pressure P now
            (register_provider_demand P (provider_task_class task) now None db) \<and>
        w \<in> set (dispatch_candidates now db2) \<and> dt_class w = provider_task_class task \<and>
        (\<forall>d \<in> set (dispatch_candidates now db2). dt_class d \<noteq> dt_class w \<longrightarrow> \<not> dominates d w) \<and>
        (\<forall>d \<in> set (frontier (dispatch_candidates now db2)). rotation_key w \<le> rotation_key d)))"
proof -
  let ?db1 = "register_provider_demand P (provider_task_class task) now None db"
  obtain cls db2 where sel: "selected_provider_task P now ?db1 = Inr (cls, db2)"
    using selection_never_fails by blast
  then obtain b t db' where r: "reserve_provider_dispatch P task now db = Inr ((b, t), db')"
    by (cases "reserve_provider_dispatch P task now db")
      (auto simp: reserve_provider_dispatch_def reserve_provider_dispatch_locked_def Let_def split: if_splits)
  from r show ?thesis
  proof (cases rule: reserveE)
    case refused
    with r show ?thesis by blast
  next
    case (granted interval db3)
    from granted(5) obtain w where
      "db3 = refresh_pressure P now ?db1" "w \<in> set (dispatch_candidates now db3)"
      "dt_class w = provider_task_class task"
      "\<And>d. d \<in> set (dispatch_candidates now db3) \<Longrightarrow> dt_class d \<noteq> dt_class w \<Longrightarrow> \<not> dominates d w"
      "\<And>d. d \<in> set (frontier (dispatch_candidates now db3)) \<Longrightarrow> rotation_key w \<le> rotation_key d"
      by (rule selected_SomeD) blast
    with r show ?thesis by blast
  qed
qed

subsection \<open>Witnesses\<close>

definition sample_dispatch :: dispatch_state where
  "sample_dispatch = \<lparr>ds_scope = GOOGLE_PROVIDER_SCOPE, ds_next_eligible_at = 0, ds_interval_ms = 250,
     ds_success_streak = 0, ds_throttle_count = 0, ds_cooldown_until = None, ds_last_outcome = None,
     ds_updated_at = 0\<rparr>"

definition sample_dispatch_db :: scheduler_db where
  "sample_dispatch_db = empty_db\<lparr>db_dispatch := [sample_dispatch]\<rparr>"

lemma sample_dispatch_ok: "dispatch_ok sample_dispatch_db" "provider_dispatch_row sample_dispatch_db = Some sample_dispatch"
  by (simp_all add: dispatch_ok_def provider_dispatch_row_def sample_dispatch_db_def sample_dispatch_def
      interval_defs)

theorem dispatches_are_paced_witness:
  "sorted_wrt (\<lambda>x y. x + milliseconds MIN_INTERVAL_MS \<le> y)
     (dispatch_grants sample_platform sample_dispatch_db [Reserve ''impact'' 5, Reserve ''title'' (seconds 1)])"
  by (rule dispatches_are_paced [OF sample_dispatch_ok(1)])

theorem throttling_is_respected_witness:
  "\<exists>g \<in> set (dispatch_grants sample_platform (dispatch_run sample_platform sample_dispatch_db
      (Report ''PROVIDER_THROTTLED'' (Some 30) 0)) [Reserve ''impact'' (seconds 40)]). seconds 30 \<le> g"
proof -
  have g: "seconds 40 \<in> set (dispatch_grants sample_platform (dispatch_run sample_platform sample_dispatch_db
      (Report ''PROVIDER_THROTTLED'' (Some 30) 0)) [Reserve ''impact'' (seconds 40)])"
    by code_simp
  from throttling_is_respected [OF sample_dispatch_ok g] have "seconds 30 \<le> seconds 40"
    by (simp add: bounded_wait_def)
  with g show ?thesis by blast
qed

theorem interval_adapts_within_bounds_witness:
  "ds_interval_ms (dispatch_after sample_platform PROVIDER_SUCCEEDED None 0 sample_dispatch) \<le> 250"
  using interval_adapts_within_bounds [OF exact_rounding, of sample_dispatch PROVIDER_SUCCEEDED None 0]
  by (simp add: sample_dispatch_def interval_defs)

end
