(* ===== verification/Provider_Registry.thy ===== *)
theory Provider_Registry
  imports Provider_Dispatch
begin

text \<open>
  The registries of authorised provider surfaces and of scheduler task routes,
  \<^verbatim>\<open>xauusd_news/ai/provider_registry.py\<close>, \<^verbatim>\<open>xauusd_news/ai/model_limits.py\<close> and
  \<^verbatim>\<open>xauusd_news/news/scheduler/task_registry.py\<close>.
\<close>

section \<open>Models, endpoints and quota surfaces\<close>

definition DEFAULT_GEMINI_MODEL :: string where "DEFAULT_GEMINI_MODEL = ''gemini-3.5-flash-lite''"
definition FALLBACK_GEMINI_MODEL :: string where "FALLBACK_GEMINI_MODEL = ''gemini-3.1-flash-lite''"
definition DEFAULT_GEMMA_MODEL :: string where "DEFAULT_GEMMA_MODEL = ''gemma-4-31b-it''"
definition IMPACT_MODEL :: string where "IMPACT_MODEL = ''gemma-4-31b-it''"
definition GEMINI_EMBEDDING_MODEL :: string where "GEMINI_EMBEDDING_MODEL = ''gemini-embedding-2''"
definition GEMINI_DAILY_PRIORITY_RESERVE :: int where "GEMINI_DAILY_PRIORITY_RESERVE = 150"

lemmas model_defs = DEFAULT_GEMINI_MODEL_def FALLBACK_GEMINI_MODEL_def DEFAULT_GEMMA_MODEL_def
  IMPACT_MODEL_def GEMINI_EMBEDDING_MODEL_def

definition GENERATION_ENDPOINTS :: "(string \<times> string) list" where
  "GENERATION_ENDPOINTS =
     (let base = ''https://generativelanguage.googleapis.com/v1beta/models/''
      in [(DEFAULT_GEMINI_MODEL, base @ ''gemini-3.5-flash-lite:generateContent''),
          (FALLBACK_GEMINI_MODEL, base @ ''gemini-3.1-flash-lite:generateContent''),
          (DEFAULT_GEMMA_MODEL, base @ ''gemma-4-31b-it:generateContent'')])"

definition EMBEDDING_ENDPOINTS :: "(string \<times> string) list" where
  "EMBEDDING_ENDPOINTS =
     [(GEMINI_EMBEDDING_MODEL,
       ''https://generativelanguage.googleapis.com/v1beta/models/gemini-embedding-2:batchEmbedContents'')]"

record quota_surface =
  qs_payload_key :: string
  qs_families :: "string list"
  qs_daily_limit :: int
  qs_rpm :: int
  qs_tpm :: int
  qs_share_minute :: bool

definition AI_QUOTA_SURFACES :: "quota_surface list" where
  "AI_QUOTA_SURFACES =
     [\<lparr>qs_payload_key = ''gemini_quota'', qs_families = [DEFAULT_GEMINI_MODEL], qs_daily_limit = 500,
       qs_rpm = 12, qs_tpm = 225000, qs_share_minute = False\<rparr>,
      \<lparr>qs_payload_key = ''gemini_31_quota'', qs_families = [FALLBACK_GEMINI_MODEL], qs_daily_limit = 500,
       qs_rpm = 12, qs_tpm = 225000, qs_share_minute = False\<rparr>,
      \<lparr>qs_payload_key = ''gemma_quota'', qs_families = [DEFAULT_GEMMA_MODEL, ''gemma-impact'', ''gemma-title''],
       qs_daily_limit = 15000, qs_rpm = 20, qs_tpm = 15000, qs_share_minute = False\<rparr>,
      \<lparr>qs_payload_key = ''gemini_embedding_quota'', qs_families = [GEMINI_EMBEDDING_MODEL],
       qs_daily_limit = 1000, qs_rpm = 100, qs_tpm = 30000, qs_share_minute = False\<rparr>]"

definition quota_surface_for_model :: "string \<Rightarrow> quota_surface outcome" where
  "quota_surface_for_model model =
     (case filter (\<lambda>s. model \<in> set (qs_families s)) AI_QUOTA_SURFACES of
        [s] \<Rightarrow> Inr s
      | _ \<Rightarrow> Inl (ValueError (''model has no unique quota policy: '' @ model)))"

definition google_generation_endpoint_for_model :: "string \<Rightarrow> string outcome" where
  "google_generation_endpoint_for_model model =
     (case map_of GENERATION_ENDPOINTS model of
        Some e \<Rightarrow> Inr e
      | None \<Rightarrow> Inl (ValueError ''model is not authorized for Google generation''))"

definition google_embedding_endpoint_for_model :: "string \<Rightarrow> string outcome" where
  "google_embedding_endpoint_for_model model =
     (case map_of EMBEDDING_ENDPOINTS model of
        Some e \<Rightarrow> Inr e
      | None \<Rightarrow> Inl (ValueError ''model is not authorized for Google embedding''))"

section \<open>Task routes\<close>

record ai_task_route =
  tr_task :: string
  tr_models :: "string list"
  tr_owner :: string
  tr_reserve_models :: "string list"
  tr_provenance :: string
  tr_pressure_tasks :: "string list"

definition AI_TASK_ROUTES :: "ai_task_route list" where
  "AI_TASK_ROUTES =
     [\<lparr>tr_task = ''ACTIVE_ANNOTATION'', tr_models = [DEFAULT_GEMINI_MODEL, FALLBACK_GEMINI_MODEL],
       tr_owner = ''NEWS_SEMANTICS'', tr_reserve_models = [DEFAULT_GEMINI_MODEL],
       tr_provenance = ''SOURCE_RECEIPT_TIME'', tr_pressure_tasks = [''ACTIVE_ANNOTATION'']\<rparr>,
      \<lparr>tr_task = ''ACTIVE_IMPACT'', tr_models = [IMPACT_MODEL], tr_owner = ''NEWS_EVENT_IDENTITY'',
       tr_reserve_models = [], tr_provenance = ''ACTIVE_ANNOTATION'', tr_pressure_tasks = [''ACTIVE_IMPACT'']\<rparr>,
      \<lparr>tr_task = ''TITLE_TRANSLATION'', tr_models = [DEFAULT_GEMMA_MODEL], tr_owner = ''DISPLAY_ONLY'',
       tr_reserve_models = [], tr_provenance = ''ACTIVE_ANNOTATION'',
       tr_pressure_tasks = [''TITLE_TRANSLATION'']\<rparr>,
      \<lparr>tr_task = ''DAILY_BRIEF'', tr_models = [DEFAULT_GEMMA_MODEL], tr_owner = ''DISPLAY_ONLY'',
       tr_reserve_models = [], tr_provenance = ''INHERENT_LIVE'', tr_pressure_tasks = []\<rparr>,
      \<lparr>tr_task = ''NEWS_EMBEDDING'', tr_models = [GEMINI_EMBEDDING_MODEL],
       tr_owner = ''NEWS_IDENTITY_RETRIEVAL'', tr_reserve_models = [],
       tr_provenance = ''CALLER_OPERATION'', tr_pressure_tasks = [''ACTIVE_IMPACT'']\<rparr>]"

definition route_for_task :: "string \<Rightarrow> ai_task_route outcome" where
  "route_for_task task =
     (case find (\<lambda>r. tr_task r = task) AI_TASK_ROUTES of
        Some r \<Rightarrow> Inr r
      | None \<Rightarrow> Inl (ValueError (''scheduler task has no model route: '' @ task)))"

text \<open>
  \<open>_live_pressure_tasks_for_quota\<close> of the scheduler: the persisted tasks whose live demand
  competes for a quota. Every model of the registry has a surface (\<open>registry_models_have_surfaces\<close>),
  so the lookup inside does not raise.
\<close>

definition serves_quota :: "string \<Rightarrow> string \<Rightarrow> bool" where
  "serves_quota authority model =
     (case quota_surface_for_model model of Inr s \<Rightarrow> qs_payload_key s = authority | Inl _ \<Rightarrow> False)"

definition live_pressure_tasks_for_quota :: "string \<Rightarrow> string list" where
  "live_pressure_tasks_for_quota authority =
     dedupe (concat (map (\<lambda>r. if list_ex (serves_quota authority) (tr_models r) then tr_pressure_tasks r else [])
       AI_TASK_ROUTES))"

section \<open>What the registries guarantee\<close>

lemma surfaces:
  "quota_surface_for_model DEFAULT_GEMINI_MODEL = Inr (AI_QUOTA_SURFACES ! 0)"
  "quota_surface_for_model FALLBACK_GEMINI_MODEL = Inr (AI_QUOTA_SURFACES ! 1)"
  "quota_surface_for_model DEFAULT_GEMMA_MODEL = Inr (AI_QUOTA_SURFACES ! 2)"
  "quota_surface_for_model IMPACT_MODEL = Inr (AI_QUOTA_SURFACES ! 2)"
  "quota_surface_for_model GEMINI_EMBEDDING_MODEL = Inr (AI_QUOTA_SURFACES ! 3)"
  by (simp_all add: quota_surface_for_model_def AI_QUOTA_SURFACES_def model_defs)

lemma registry_models_have_surfaces:
  "r \<in> set AI_TASK_ROUTES \<Longrightarrow> m \<in> set (tr_models r) \<Longrightarrow> \<exists>s. quota_surface_for_model m = Inr s"
  by (auto simp: AI_TASK_ROUTES_def surfaces)

lemma quota_surface_SomeD:
  "quota_surface_for_model model = Inr s \<Longrightarrow> s \<in> set AI_QUOTA_SURFACES \<and> model \<in> set (qs_families s)"
proof -
  assume a: "quota_surface_for_model model = Inr s"
  then have "filter (\<lambda>s. model \<in> set (qs_families s)) AI_QUOTA_SURFACES = [s]"
    by (auto simp: quota_surface_for_model_def split: list.splits)
  then have "s \<in> set (filter (\<lambda>s. model \<in> set (qs_families s)) AI_QUOTA_SURFACES)" by simp
  then show ?thesis by simp
qed

lemma surface_limits:
  "s \<in> set AI_QUOTA_SURFACES \<Longrightarrow>
     0 < qs_daily_limit s \<and> 0 < qs_rpm s \<and> 0 < qs_tpm s \<and> qs_families s \<noteq> [] \<and> distinct (qs_families s)"
  by (auto simp: AI_QUOTA_SURFACES_def model_defs)

lemma route_for_task_InrD: "route_for_task t = Inr r \<Longrightarrow> r \<in> set AI_TASK_ROUTES \<and> tr_task r = t"
  by (auto simp: route_for_task_def split: option.splits dest: find_SomeD)

lemma pressure_tasks:
  "live_pressure_tasks_for_quota ''gemini_quota'' = [''ACTIVE_ANNOTATION'']"
  "live_pressure_tasks_for_quota ''gemini_31_quota'' = [''ACTIVE_ANNOTATION'']"
  "live_pressure_tasks_for_quota ''gemma_quota'' = [''ACTIVE_IMPACT'', ''TITLE_TRANSLATION'']"
  "live_pressure_tasks_for_quota ''gemini_embedding_quota'' = [''ACTIVE_IMPACT'']"
  by code_simp+

end
