(* ===== verification/Request_Quota.thy ===== *)
theory Request_Quota
  imports Provider_Registry Job_Queue
begin

text \<open>
  Admission of provider requests against the account quotas, \<^verbatim>\<open>xauusd_news/news/scheduler/state.py\<close>:
  the forecast that limits contract backfill, \<^verbatim>\<open>reserve_account_request\<close> with its gate, the shared
  dispatch slot and its four ledgers, the ranking of accounts and the quota snapshot. Clock readings
  are instants in UTC, as the callers pass them, so the ISO texts the statements compare are
  ordered as the instants.
\<close>

section \<open>The backfill forecast\<close>

definition FORECAST_DAYS :: int where "FORECAST_DAYS = 14"
definition MIN_COMPLETE_DAYS :: int where "MIN_COMPLETE_DAYS = 7"
definition MAX_SHARE_DENOMINATOR :: int where "MAX_SHARE_DENOMINATOR = 10"
definition BACKFILL_LIVE_SLA :: int where "BACKFILL_LIVE_SLA = minutes 15"

definition nearest_rank_p95 :: "platform \<Rightarrow> int list \<Rightarrow> int" where
  "nearest_rank_p95 P values =
     (if values = [] then 0
      else sort values ! nat (max 0 (\<lceil>fl P (fl P (95 / 100) * of_nat (length values))\<rceil> - 1)))"

definition forecast_safe_backfill_budget :: "int \<Rightarrow> int \<Rightarrow> int \<Rightarrow> int \<Rightarrow> int" where
  "forecast_safe_backfill_budget remaining predicted reserve safety =
     max 0 (remaining - predicted - reserve - safety)"

text \<open>The history query: one value for each complete day that has a row.\<close>

definition in_history :: "string \<Rightarrow> string \<Rightarrow> int \<Rightarrow> day_workload \<Rightarrow> bool" where
  "in_history account authority today w \<longleftrightarrow>
     dw_account w = account \<and> dw_authority w = authority \<and> today - FORECAST_DAYS \<le> dw_day w \<and> dw_day w < today"

definition remaining_live :: "string \<Rightarrow> string \<Rightarrow> int \<Rightarrow> day_workload list \<Rightarrow> int \<Rightarrow> int" where
  "remaining_live account authority hour rows day =
     sql_sum dw_count (\<lambda>w. dw_day w = day \<and> dw_account w = account \<and> dw_authority w = authority \<and>
       dw_class w = LIVE_OPERATIONAL \<and> hour \<le> dw_hour w) rows"

definition live_history :: "string \<Rightarrow> string \<Rightarrow> int \<Rightarrow> int \<Rightarrow> day_workload list \<Rightarrow> int list" where
  "live_history account authority today hour rows =
     map (remaining_live account authority hour rows)
       (dedupe (map dw_day (filter (in_history account authority today) rows)))"

definition share_ratio :: "platform \<Rightarrow> int \<Rightarrow> int" where
  "share_ratio P daily_limit = \<lceil>fl P (of_int daily_limit * fl P (8 / 100))\<rceil>"

text \<open>Live work of the tasks that compete for the quota.\<close>

definition live_work :: "string list \<Rightarrow> job \<Rightarrow> bool" where
  "live_work tasks j \<longleftrightarrow>
     task_name (j_task j) \<in> set tasks \<and> j_lane_classified j \<and> j_lane j = LIVE \<and> provenance_admits j"

definition live_open :: "string list \<Rightarrow> job \<Rightarrow> bool" where
  "live_open tasks j \<longleftrightarrow> live_work tasks j \<and> j_state j \<noteq> DEAD_LETTER"

definition due :: "instant \<Rightarrow> job \<Rightarrow> bool" where
  "due now j \<longleftrightarrow> j_state j = LEASED \<or> j_available_at j \<le> now"

record live_pressure =
  lp_claimable :: int
  lp_overdue :: bool
  lp_increasing :: bool
  lp_throttled :: int
  lp_deferred :: int
  lp_backfill_60s :: int
  lp_total_60s :: int

definition at_or_after :: "instant \<Rightarrow> instant option \<Rightarrow> bool" where
  "at_or_after t x \<longleftrightarrow> (case x of None \<Rightarrow> False | Some y \<Rightarrow> t \<le> y)"

definition measure_live_pressure ::
    "string \<Rightarrow> string list \<Rightarrow> string list \<Rightarrow> instant \<Rightarrow> scheduler_db \<Rightarrow> live_pressure" where
  "measure_live_pressure account tasks families now db =
     (let cutoff = now - minutes 15; jobs = filter (live_open tasks) (db_jobs db);
          oldest = sql_min (\<lambda>j. if due now j then Some (j_created_at j) else None) jobs;
          mine = (\<lambda>r. ru_account r = account \<and> ru_model r \<in> set families);
          recent = (\<lambda>r. mine r \<and> now - seconds 60 < ru_reserved_at r)
      in \<lparr>lp_claimable = sql_count (due now) jobs,
          lp_overdue = (case oldest of None \<Rightarrow> False | Some t \<Rightarrow> BACKFILL_LIVE_SLA \<le> now - t),
          lp_increasing = (sql_count (\<lambda>j. at_or_after cutoff (j_completed_at j)) jobs
                             < sql_count (\<lambda>j. cutoff \<le> j_created_at j) jobs),
          lp_throttled = sql_count (\<lambda>r. mine r \<and> cutoff \<le> ru_reserved_at r \<and>
                             ru_outcome r = Some PROVIDER_THROTTLED) (db_requests db),
          lp_deferred = sql_count (\<lambda>d. cutoff \<le> df_deferred_at d \<and>
                             (df_failure_code d = ''MODEL_CAPACITY_DEFERRED'' \<or>
                              df_failure_code d = ''PROVIDER_DISPATCH_DEFERRED'') \<and>
                             (case find (\<lambda>j. j_id j = df_job d) (db_jobs db) of
                                None \<Rightarrow> False | Some j \<Rightarrow> live_work tasks j)) (db_deferrals db),
          lp_backfill_60s = sql_sum ru_count (\<lambda>r. recent r \<and> ru_workload r = BACKFILL_WORKLOAD) (db_requests db),
          lp_total_60s = sql_sum ru_count recent (db_requests db)\<rparr>)"

definition share_blocked :: "live_pressure \<Rightarrow> bool" where
  "share_blocked p \<longleftrightarrow> max 1 ((lp_total_60s p + 1) div MAX_SHARE_DENOMINATOR) \<le> lp_backfill_60s p"

text \<open>The first blocker in the order of the code.\<close>

definition backfill_blocker :: "live_pressure \<Rightarrow> int \<Rightarrow> int \<Rightarrow> string option" where
  "backfill_blocker p budget requested =
     map_option snd (find fst
       [(0 < lp_claimable p, ''LIVE_CLAIMABLE''), (lp_overdue p, ''LIVE_SLA_PRESSURE''),
        (lp_increasing p, ''LIVE_BACKLOG_INCREASING''), (0 < lp_throttled p, ''PROVIDER_THROTTLED''),
        (0 < lp_deferred p, ''LIVE_CAPACITY_DEFERRED''), (share_blocked p, ''INSTANTANEOUS_SHARE''),
        (budget < requested, ''NO_SAFE_DAILY_BUDGET'')])"

record backfill_decision =
  bf_admitted :: bool
  bf_reason :: string
  bf_authority :: string
  bf_history_days :: int
  bf_predicted :: int
  bf_reserve :: int
  bf_safety :: int
  bf_remaining :: int
  bf_budget :: int
  bf_next_retry :: instant
  bf_pressure :: "live_pressure option"

definition backfill_admission ::
    "platform \<Rightarrow> string \<Rightarrow> string \<Rightarrow> string list \<Rightarrow> int \<Rightarrow> int \<Rightarrow> int \<Rightarrow> instant \<Rightarrow> scheduler_db \<Rightarrow> backfill_decision" where
  "backfill_admission P account authority families daily_limit daily_count requested now db =
     (let today = local_date (pacific P) now;
          values = live_history account authority today (local_hour (pacific P) now) (db_workload db);
          predicted = nearest_rank_p95 P values;
          reserve = share_ratio P daily_limit; safety = share_ratio P daily_limit;
          remaining = max 0 (daily_limit - daily_count);
          budget = forecast_safe_backfill_budget remaining predicted reserve safety;
          tasks = live_pressure_tasks_for_quota authority;
          evidence = \<lparr>bf_admitted = False, bf_reason = ''SAFE_BUDGET_AVAILABLE'', bf_authority = authority,
            bf_history_days = int (length values), bf_predicted = predicted, bf_reserve = reserve,
            bf_safety = safety, bf_remaining = remaining, bf_budget = budget,
            bf_next_retry = now + minutes 1, bf_pressure = None\<rparr>
      in if int (length values) < MIN_COMPLETE_DAYS then evidence\<lparr>bf_reason := ''COLD_START_HISTORY''\<rparr>
         else if tasks = [] then evidence\<lparr>bf_reason := ''UNCLASSIFIED_LIVE_PRESSURE_ROUTE''\<rparr>
         else
           (let p = measure_live_pressure account tasks families now db;
                e = evidence\<lparr>bf_pressure := Some p\<rparr>
            in case backfill_blocker p budget requested of
                 Some reason \<Rightarrow>
                   e\<lparr>bf_reason := reason,
                     bf_next_retry := (if reason = ''NO_SAFE_DAILY_BUDGET''
                                       then next_local_midnight (pacific P) now else now + minutes 1)\<rparr>
               | None \<Rightarrow> e\<lparr>bf_admitted := True\<rparr>))"

section \<open>Reservations\<close>

record reservation =
  rr_account :: string
  rr_model :: string
  rr_daily_limit :: int
  rr_rpm :: int
  rr_count :: int
  rr_tokens :: int
  rr_tpm :: "int option"
  rr_tpd :: "int option"
  rr_shared :: "string list option"
  rr_share_minute :: bool
  rr_reserve_total :: int
  rr_urgent :: bool
  rr_usage_id :: "string option"
  rr_provider_task :: "string option"
  rr_requested_model :: "string option"
  rr_purpose :: "string option"
  rr_contract :: "string option"
  rr_estimator :: "string option"
  rr_base_tokens :: "int option"
  rr_calibration_model :: "string option"
  rr_calibration_ratio :: "pyfloat option"
  rr_workload :: string
  rr_authority :: "string option"
  rr_zone :: zone
  rr_scope :: "string option"

datatype quota_dimension = RPD | RPM | TPM

record capacity_denial =
  cd_dimensions :: "quota_dimension list"
  cd_current :: int
  cd_requested :: int
  cd_limit :: "int option"
  cd_requests_60s :: int
  cd_tokens_60s :: int
  cd_requests_day :: int
  cd_base_tokens :: int
  cd_admitted_tokens :: int
  cd_next_retry :: "instant option"

datatype reservation_decision =
    Granted
  | ProviderDispatchDeferred instant
  | TokenDayDeferred int int int
  | BackfillDeferred backfill_decision
  | CapacityDeferred capacity_denial

text \<open>The values the function computes before it takes the lock.\<close>

definition estimated_tokens :: "reservation \<Rightarrow> int" where
  "estimated_tokens q = max 0 (rr_tokens q)"

definition base_tokens :: "reservation \<Rightarrow> int" where
  "base_tokens q = max 0 (case rr_base_tokens q of None \<Rightarrow> estimated_tokens q | Some b \<Rightarrow> b)"

definition quota_families :: "reservation \<Rightarrow> string list" where
  "quota_families q =
     dedupe (case rr_shared q of None \<Rightarrow> [rr_model q] | Some fs \<Rightarrow> if fs = [] then [rr_model q] else fs)"

definition quota_authority :: "reservation \<Rightarrow> string" where
  "quota_authority q = (case nonblank (rr_authority q) of Some a \<Rightarrow> a | None \<Rightarrow> rr_model q)"

definition usable_daily_limit :: "reservation \<Rightarrow> int" where
  "usable_daily_limit q =
     (if rr_urgent q then rr_daily_limit q else max 0 (rr_daily_limit q - rr_reserve_total q))"

definition daily_usage_of :: "int \<Rightarrow> string \<Rightarrow> string list \<Rightarrow> daily_usage list \<Rightarrow> int" where
  "daily_usage_of day account families rows =
     sql_sum du_count (\<lambda>u. du_day u = day \<and> du_account u = account \<and> du_model u \<in> set families) rows"

definition token_day_usage :: "string \<Rightarrow> string list \<Rightarrow> instant \<Rightarrow> request_usage list \<Rightarrow> int" where
  "token_day_usage account families now rows =
     sql_sum ru_tokens (\<lambda>r. ru_account r = account \<and> ru_model r \<in> set families \<and>
       now - days 1 < ru_reserved_at r \<and> ru_reserved_at r \<le> now) rows"

definition exceeds :: "int \<Rightarrow> int option \<Rightarrow> bool" where
  "exceeds n limit \<longleftrightarrow> (case limit of None \<Rightarrow> False | Some l \<Rightarrow> l < n)"

text \<open>The three quota dimensions, and the report of an exhausted one.\<close>

definition exhausted_dimensions :: "reservation \<Rightarrow> int \<Rightarrow> int \<Rightarrow> int \<Rightarrow> quota_dimension list" where
  "exhausted_dimensions q daily_count minute_count minute_tokens =
     (if usable_daily_limit q < daily_count + rr_count q then [RPD] else []) @
     (if rr_rpm q < minute_count + rr_count q then [RPM] else []) @
     (if exceeds (minute_tokens + estimated_tokens q) (rr_tpm q) then [TPM] else [])"

definition capacity_retry ::
    "reservation \<Rightarrow> quota_dimension list \<Rightarrow> instant \<Rightarrow> scheduler_db \<Rightarrow> instant option" where
  "capacity_retry q dims now db =
     (if RPD \<in> set dims then Some (next_local_midnight (rr_zone q) now)
      else if rr_rpm q < rr_count q \<or> exceeds (estimated_tokens q) (rr_tpm q) then None
      else minute_capacity_next_eligible (rr_account q) (quota_families q) now (rr_share_minute q)
             (rr_count q) (estimated_tokens q) (rr_rpm q) (rr_tpm q) (db_requests db))"

definition capacity_report ::
    "reservation \<Rightarrow> quota_dimension list \<Rightarrow> int \<Rightarrow> int \<Rightarrow> int \<Rightarrow> instant \<Rightarrow> scheduler_db \<Rightarrow> capacity_denial" where
  "capacity_report q dims daily_count minute_count minute_tokens now db =
     (let primary = hd dims
      in \<lparr>cd_dimensions = dims,
          cd_current = (case primary of RPD \<Rightarrow> daily_count | RPM \<Rightarrow> minute_count | TPM \<Rightarrow> minute_tokens),
          cd_requested = (if primary = RPD \<or> primary = RPM then rr_count q else estimated_tokens q),
          cd_limit = (case primary of RPD \<Rightarrow> Some (usable_daily_limit q) | RPM \<Rightarrow> Some (rr_rpm q) | TPM \<Rightarrow> rr_tpm q),
          cd_requests_60s = minute_count, cd_tokens_60s = minute_tokens, cd_requests_day = daily_count,
          cd_base_tokens = base_tokens q, cd_admitted_tokens = estimated_tokens q,
          cd_next_retry = capacity_retry q dims now db\<rparr>)"

text \<open>
  The checks under the write lock that end in a rollback: the cooldown of an independent provider,
  the tokens of the last 24 hours, the backfill forecast, and the three quota dimensions.
\<close>

definition scope_cooldown :: "string option \<Rightarrow> scheduler_db \<Rightarrow> instant option" where
  "scope_cooldown scope db =
     (case scope of None \<Rightarrow> None
      | Some s \<Rightarrow> map_option ds_next_eligible_at (find (\<lambda>d. ds_scope d = s) (db_dispatch db)))"

fun first_some :: "'a option list \<Rightarrow> 'a option" where
  "first_some [] = None"
| "first_some (Some x # xs) = Some x"
| "first_some (None # xs) = first_some xs"

definition cooldown_check :: "reservation \<Rightarrow> instant \<Rightarrow> scheduler_db \<Rightarrow> reservation_decision option" where
  "cooldown_check q now db =
     (case scope_cooldown (rr_scope q) db of
        Some t \<Rightarrow> if now < t then Some (ProviderDispatchDeferred t) else None
      | None \<Rightarrow> None)"

definition token_day_check :: "reservation \<Rightarrow> instant \<Rightarrow> scheduler_db \<Rightarrow> reservation_decision option" where
  "token_day_check q now db =
     (case rr_tpd q of
        None \<Rightarrow> None
      | Some limit \<Rightarrow>
          (let used = token_day_usage (rr_account q) (quota_families q) now (db_requests db)
           in if limit < used + estimated_tokens q
              then Some (TokenDayDeferred used (estimated_tokens q) limit) else None))"

definition request_daily_count :: "reservation \<Rightarrow> instant \<Rightarrow> scheduler_db \<Rightarrow> int" where
  "request_daily_count q now db =
     daily_usage_of (local_date (rr_zone q) now) (rr_account q) (quota_families q) (db_daily db)"

definition backfill_check ::
    "platform \<Rightarrow> reservation \<Rightarrow> workload_class \<Rightarrow> instant \<Rightarrow> scheduler_db \<Rightarrow> reservation_decision option" where
  "backfill_check P q workload now db =
     (if workload = BACKFILL_WORKLOAD
      then (let d = backfill_admission P (rr_account q) (quota_authority q) (quota_families q)
                      (rr_daily_limit q) (request_daily_count q now db) (rr_count q) now db
            in if bf_admitted d then None else Some (BackfillDeferred d))
      else None)"

definition capacity_check :: "reservation \<Rightarrow> instant \<Rightarrow> scheduler_db \<Rightarrow> reservation_decision option" where
  "capacity_check q now db =
     (let daily_count = request_daily_count q now db;
          (minute_count, minute_tokens) =
            rolling_account_usage (rr_account q) (quota_families q) now (rr_share_minute q) (db_requests db);
          dims = exhausted_dimensions q daily_count minute_count minute_tokens
      in if dims = [] then None
         else Some (CapacityDeferred (capacity_report q dims daily_count minute_count minute_tokens now db)))"

definition reservation_gate ::
    "platform \<Rightarrow> reservation \<Rightarrow> workload_class \<Rightarrow> instant \<Rightarrow> scheduler_db \<Rightarrow> reservation_decision option" where
  "reservation_gate P q workload now db =
     first_some [cooldown_check q now db, token_day_check q now db, backfill_check P q workload now db,
                 capacity_check q now db]"

text \<open>The four ledgers a granted request is entered in.\<close>

definition add_daily :: "reservation \<Rightarrow> instant \<Rightarrow> daily_usage list \<Rightarrow> daily_usage list" where
  "add_daily q now rows =
     sql_upsert daily_key
       (\<lambda>u. u\<lparr>du_count := du_count u + rr_count q, du_updated_at := now\<rparr>)
       \<lparr>du_day = local_date (rr_zone q) now, du_account = rr_account q, du_model = rr_model q,
        du_count = rr_count q, du_updated_at = now\<rparr> rows"

definition add_minute :: "reservation \<Rightarrow> instant \<Rightarrow> minute_usage list \<Rightarrow> minute_usage list" where
  "add_minute q now rows =
     sql_upsert minute_key
       (\<lambda>u. u\<lparr>mu_count := mu_count u + rr_count q, mu_tokens := mu_tokens u + estimated_tokens q,
              mu_updated_at := now\<rparr>)
       \<lparr>mu_minute = minute_bucket now, mu_account = rr_account q, mu_model = rr_model q,
        mu_count = rr_count q, mu_tokens = estimated_tokens q, mu_updated_at = now\<rparr> rows"

definition add_workload :: "reservation \<Rightarrow> workload_class \<Rightarrow> instant \<Rightarrow> day_workload list \<Rightarrow> day_workload list" where
  "add_workload q workload now rows =
     sql_upsert workload_key
       (\<lambda>w. w\<lparr>dw_count := dw_count w + rr_count q, dw_updated_at := now\<rparr>)
       \<lparr>dw_day = local_date (rr_zone q) now, dw_hour = local_hour (rr_zone q) now,
        dw_account = rr_account q, dw_authority = quota_authority q, dw_class = workload,
        dw_count = rr_count q, dw_updated_at = now\<rparr> rows"

definition admitted_request :: "reservation \<Rightarrow> workload_class \<Rightarrow> instant \<Rightarrow> string \<Rightarrow> request_usage" where
  "admitted_request q workload now uuid =
     \<lparr>ru_id = (case nonblank (rr_usage_id q) of Some u \<Rightarrow> u | None \<Rightarrow> uuid), ru_account = rr_account q,
      ru_model = rr_model q, ru_count = rr_count q, ru_tokens = estimated_tokens q, ru_reserved_at = now,
      ru_attempted_at = None, ru_outcome = None, ru_http_status = None, ru_completed_at = None,
      ru_vectors_at = None, ru_prompt_tokens = None, ru_candidates_tokens = None, ru_total_tokens = None,
      ru_requested_model = Some (case nonblank (rr_requested_model q) of Some m \<Rightarrow> m | None \<Rightarrow> rr_model q),
      ru_purpose = rr_purpose q, ru_prompt_contract = rr_contract q, ru_estimator = rr_estimator q,
      ru_base_tokens = Some (base_tokens q), ru_admitted_tokens = Some (estimated_tokens q),
      ru_calibration_model = rr_calibration_model q, ru_calibration_ratio = rr_calibration_ratio q,
      ru_provider_model = None, ru_workload = workload\<rparr>"

definition commit_reservation ::
    "reservation \<Rightarrow> workload_class \<Rightarrow> instant \<Rightarrow> string \<Rightarrow> scheduler_db \<Rightarrow> scheduler_db outcome" where
  "commit_reservation q workload now uuid db =
     (let new = admitted_request q workload now uuid
      in if ru_id new \<in> ru_id ` set (db_requests db)
         then Inl (IntegrityError ''UNIQUE constraint failed'')
         else Inr (db\<lparr>db_daily := add_daily q now (db_daily db), db_minute := add_minute q now (db_minute db),
                      db_requests := db_requests db @ [new],
                      db_workload := add_workload q workload now (db_workload db)\<rparr>))"

definition reserve_account_request ::
    "platform \<Rightarrow> reservation \<Rightarrow> instant \<Rightarrow> string \<Rightarrow> scheduler_db \<Rightarrow>
     (reservation_decision \<times> scheduler_db) outcome" where
  "reserve_account_request P q now uuid db =
     (if rr_count q < 1 then Inl (ValueError ''request_count must be positive'')
      else case workload_of (rr_workload q) of
        None \<Rightarrow> Inl (ValueError ''unknown request workload class'')
      | Some workload \<Rightarrow>
          (case reservation_gate P q workload now db of
             Some denial \<Rightarrow> Inr (denial, db)
           | None \<Rightarrow>
               bind_out (case (rr_provider_task q, rr_scope q) of
                           (Some task, None) \<Rightarrow> reserve_provider_dispatch_locked P task now db
                         | _ \<Rightarrow> Inr ((True, now), db))
                 (\<lambda>((slot, eligible), db1).
                    if \<not> slot then Inr (ProviderDispatchDeferred eligible, db1)
                    else bind_out (commit_reservation q workload now uuid db1)
                      (\<lambda>db2. Inr (Granted, db2)))))"

section \<open>Ranking and snapshots\<close>

definition ratio_left :: "platform \<Rightarrow> int \<Rightarrow> int \<Rightarrow> real" where
  "ratio_left P limit used = max 0 (fl P (of_int (limit - used) / of_int (max 1 limit)))"

definition model_headroom ::
    "platform \<Rightarrow> string list \<Rightarrow> bool \<Rightarrow> instant \<Rightarrow> scheduler_db \<Rightarrow> string \<Rightarrow> string \<Rightarrow> real outcome" where
  "model_headroom P reserve_models urgent now db account model =
     bind_out (quota_surface_for_model model)
       (\<lambda>s. let reserve = (if \<not> urgent \<and> model \<in> set reserve_models then GEMINI_DAILY_PRIORITY_RESERVE else 0);
                limit = max 0 (qs_daily_limit s - reserve);
                used = daily_usage_of (quota_day P now) account (qs_families s) (db_daily db);
                (requests, tokens) = rolling_account_usage account (qs_families s) now (qs_share_minute s) (db_requests db)
            in Inr (min (ratio_left P limit used)
                      (min (ratio_left P (qs_rpm s) requests) (ratio_left P (qs_tpm s) tokens))))"

fun collect :: "'a outcome list \<Rightarrow> 'a list outcome" where
  "collect [] = Inr []"
| "collect (x # xs) = bind_out x (\<lambda>y. bind_out (collect xs) (\<lambda>ys. Inr (y # ys)))"

definition account_score ::
    "platform \<Rightarrow> string list \<Rightarrow> string list \<Rightarrow> bool \<Rightarrow> instant \<Rightarrow> scheduler_db \<Rightarrow> string \<Rightarrow> real outcome" where
  "account_score P models reserve_models urgent now db account =
     bind_out (collect (map (model_headroom P reserve_models urgent now db account) (dedupe models)))
       (\<lambda>scores. Inr (if scores = [] then 0 else Max (set scores)))"

text \<open>Sorting by \<open>(-score, position)\<close> is the stable sort by the negated score.\<close>

definition rank_accounts_for_models ::
    "platform \<Rightarrow> api_credential list \<Rightarrow> string list \<Rightarrow> string list \<Rightarrow> bool \<Rightarrow> instant \<Rightarrow> scheduler_db \<Rightarrow>
     string list outcome" where
  "rank_accounts_for_models P credentials models reserve_models urgent now db =
     (let accounts = dedupe (map cred_account credentials)
      in bind_out (collect (map (account_score P models reserve_models urgent now db) accounts))
           (\<lambda>scores. Inr (map fst (sort_key (\<lambda>x. - snd x) (zip accounts scores)))))"

definition credentials_for_background_task ::
    "platform \<Rightarrow> api_credential list \<Rightarrow> string \<Rightarrow> instant \<Rightarrow> scheduler_db \<Rightarrow> api_credential list outcome" where
  "credentials_for_background_task P credentials task now db =
     (let eligible = filter (\<lambda>c. cred_pool c = ROUTINE_POOL) credentials
      in if eligible = [] then Inr []
         else bind_out (route_for_task task)
           (\<lambda>route. bind_out (rank_accounts_for_models P eligible (tr_models route) (tr_reserve_models route) False now db)
             (\<lambda>accounts. Inr (concat (map (\<lambda>a. sort_key cred_id (filter (\<lambda>c. cred_account c = a) eligible)) accounts)))))"

record key_snapshot =
  ks_slot :: int
  ks_fingerprint :: string
  ks_sent :: int
  ks_remaining :: int
  ks_status :: string
  ks_backfill :: "(backfill_decision \<times> int) option"

record quota_snapshot =
  sn_day :: int
  sn_daily_limit :: int
  sn_next_reset :: instant
  sn_keys :: "key_snapshot list"
  sn_total_sent :: int
  sn_total_remaining :: int

definition key_snapshot_of ::
    "platform \<Rightarrow> api_credential list \<Rightarrow> string list \<Rightarrow> int \<Rightarrow> string option \<Rightarrow> instant \<Rightarrow> scheduler_db \<Rightarrow>
     nat \<times> string \<Rightarrow> key_snapshot" where
  "key_snapshot_of P credentials families daily_limit authority now db sa =
     (case sa of (slot, account) \<Rightarrow>
      let sent = daily_usage_of (quota_day P now) account families (db_daily db);
          own = filter (\<lambda>c. cred_account c = account) credentials
      in \<lparr>ks_slot = int slot + 1,
          ks_fingerprint = (case own of [c] \<Rightarrow> cred_id c | _ \<Rightarrow> take 12 (sha256_hex P account)),
          ks_sent = sent, ks_remaining = max 0 (daily_limit - sent),
          ks_status = (if sent < daily_limit then ''AVAILABLE'' else ''DAILY_LIMIT''),
          ks_backfill =
            (case authority of
               Some a \<Rightarrow> if a = ''gemini_quota'' \<or> a = ''gemini_31_quota''
                 then Some (backfill_admission P account a families daily_limit sent 1 now db,
                            sql_sum dw_count (\<lambda>w. dw_day w = quota_day P now \<and> dw_account w = account \<and>
                              dw_authority w = a \<and> dw_class w = BACKFILL_WORKLOAD) (db_workload db))
                 else None
             | None \<Rightarrow> None)\<rparr>)"

definition account_quota_snapshot ::
    "platform \<Rightarrow> api_credential list \<Rightarrow> string list \<Rightarrow> int \<Rightarrow> string option \<Rightarrow> instant \<Rightarrow> scheduler_db \<Rightarrow>
     quota_snapshot" where
  "account_quota_snapshot P credentials families daily_limit authority now db =
     (let keys = map (key_snapshot_of P credentials (dedupe families) daily_limit authority now db)
                   (enumerate 0 (dedupe (map cred_account credentials)))
      in \<lparr>sn_day = quota_day P now, sn_daily_limit = daily_limit,
          sn_next_reset = next_local_midnight (pacific P) now, sn_keys = keys,
          sn_total_sent = sum_list (map ks_sent keys), sn_total_remaining = sum_list (map ks_remaining keys)\<rparr>)"

section \<open>The interface of a ledger\<close>

text \<open>
  A table of counters under a primary key: posting an entry adds its amount to the row of its key,
  or opens that row. The totals of a ledger over any set of keys grow by the amount posted to them.
\<close>

locale keyed_ledger =
  fixes key :: "'r \<Rightarrow> 'k"
    and amount :: "'r \<Rightarrow> int"
    and add :: "'r \<Rightarrow> 'r \<Rightarrow> 'r"
  assumes key_add: "key (add new r) = key r"
    and amount_add: "amount (add new r) = amount r + amount new"
begin

definition post :: "'r \<Rightarrow> 'r list \<Rightarrow> 'r list" where
  "post new rows = sql_upsert key (add new) new rows"

lemma post_distinct: "distinct (map key rows) \<Longrightarrow> distinct (map key (post new rows))"
  unfolding post_def by (rule distinct_sql_upsert) (rule key_add)

lemma post_sum:
  assumes "distinct (map key rows)"
  shows "sql_sum amount (\<lambda>r. p (key r)) (post new rows) =
     sql_sum amount (\<lambda>r. p (key r)) rows + (if p (key new) then amount new else 0)"
  unfolding post_def by (rule sql_sum_upsert [OF assms]) (simp_all add: key_add amount_add)

end

interpretation daily_ledger: keyed_ledger daily_key du_count
  "\<lambda>new u. u\<lparr>du_count := du_count u + du_count new, du_updated_at := du_updated_at new\<rparr>"
  by unfold_locales (simp_all add: daily_key_def)

interpretation minute_ledger: keyed_ledger minute_key mu_count
  "\<lambda>new u. u\<lparr>mu_count := mu_count u + mu_count new, mu_tokens := mu_tokens u + mu_tokens new,
       mu_updated_at := mu_updated_at new\<rparr>"
  by unfold_locales (simp_all add: minute_key_def)

interpretation workload_ledger: keyed_ledger workload_key dw_count
  "\<lambda>new w. w\<lparr>dw_count := dw_count w + dw_count new, dw_updated_at := dw_updated_at new\<rparr>"
  by unfold_locales (simp_all add: workload_key_def)

lemma add_daily_post:
  "add_daily q now rows = daily_ledger.post
     \<lparr>du_day = local_date (rr_zone q) now, du_account = rr_account q, du_model = rr_model q,
      du_count = rr_count q, du_updated_at = now\<rparr> rows"
  by (simp add: add_daily_def daily_ledger.post_def)

lemma add_minute_post:
  "add_minute q now rows = minute_ledger.post
     \<lparr>mu_minute = minute_bucket now, mu_account = rr_account q, mu_model = rr_model q,
      mu_count = rr_count q, mu_tokens = estimated_tokens q, mu_updated_at = now\<rparr> rows"
  by (simp add: add_minute_def minute_ledger.post_def)

lemma add_workload_post:
  "add_workload q workload now rows = workload_ledger.post
     \<lparr>dw_day = local_date (rr_zone q) now, dw_hour = local_hour (rr_zone q) now,
      dw_account = rr_account q, dw_authority = quota_authority q, dw_class = workload,
      dw_count = rr_count q, dw_updated_at = now\<rparr> rows"
  by (simp add: add_workload_def workload_ledger.post_def)

lemma daily_sum:
  assumes "distinct (map daily_key rows)"
  shows "sql_sum du_count (\<lambda>u. p (du_day u) (du_account u) (du_model u)) (add_daily q now rows) =
     sql_sum du_count (\<lambda>u. p (du_day u) (du_account u) (du_model u)) rows +
     (if p (local_date (rr_zone q) now) (rr_account q) (rr_model q) then rr_count q else 0)"
  unfolding add_daily_post
  using daily_ledger.post_sum [OF assms, of "\<lambda>(d, a, m). p d a m"] by (simp add: daily_key_def)

lemma minute_sum:
  assumes "distinct (map minute_key rows)"
  shows "sql_sum mu_count (\<lambda>u. p (mu_account u) (mu_model u)) (add_minute q now rows) =
     sql_sum mu_count (\<lambda>u. p (mu_account u) (mu_model u)) rows +
     (if p (rr_account q) (rr_model q) then rr_count q else 0)"
  unfolding add_minute_post
  using minute_ledger.post_sum [OF assms, of "\<lambda>(d, a, m). p a m"] by (simp add: minute_key_def)

lemma workload_sum:
  assumes "distinct (map workload_key rows)"
  shows "sql_sum dw_count (\<lambda>w. p (dw_account w) (dw_class w)) (add_workload q workload now rows) =
     sql_sum dw_count (\<lambda>w. p (dw_account w) (dw_class w)) rows +
     (if p (rr_account q) workload then rr_count q else 0)"
  unfolding add_workload_post
  using workload_ledger.post_sum [OF assms, of "\<lambda>(d, h, a, t, c). p a c"] by (simp add: workload_key_def)

section \<open>The shape of a reservation\<close>

lemma first_some_None_iff: "first_some xs = None \<longleftrightarrow> (\<forall>x \<in> set xs. x = None)"
  by (induction xs rule: first_some.induct) auto

text \<open>A dispatch reservation touches the two dispatch tables only.\<close>

definition same_ledgers :: "scheduler_db \<Rightarrow> scheduler_db \<Rightarrow> bool" where
  "same_ledgers db db' \<longleftrightarrow>
     db_daily db' = db_daily db \<and> db_minute db' = db_minute db \<and> db_requests db' = db_requests db \<and>
     db_workload db' = db_workload db \<and> db_jobs db' = db_jobs db \<and> db_attempts db' = db_attempts db \<and>
     db_overrides db' = db_overrides db \<and> db_deferrals db' = db_deferrals db \<and>
     db_calibration db' = db_calibration db \<and> db_routes db' = db_routes db"

lemma same_ledgers_refl [simp]: "same_ledgers db db"
  by (simp add: same_ledgers_def)

lemma same_ledgers_dispatch [simp]:
  "same_ledgers db (register_provider_demand P cls now g db)"
  "same_ledgers db (refresh_pressure P now db)"
  "same_ledgers db (grant_slot cls interval now db)"
  by (simp_all add: same_ledgers_def register_provider_demand_def refresh_pressure_def grant_slot_def Let_def)

lemma same_ledgers_trans: "same_ledgers a b \<Longrightarrow> same_ledgers b c \<Longrightarrow> same_ledgers a c"
  by (simp add: same_ledgers_def)

definition dispatch_keys :: "scheduler_db \<Rightarrow> bool" where
  "dispatch_keys db \<longleftrightarrow> distinct (map ds_scope (db_dispatch db)) \<and> distinct (map dt_class (db_dispatch_tasks db))"

lemma dispatch_keys_steps:
  "dispatch_keys db \<Longrightarrow> dispatch_keys (register_provider_demand P cls now g db)"
  "dispatch_keys db \<Longrightarrow> dispatch_keys (refresh_pressure P now db)"
  "dispatch_keys db \<Longrightarrow> dispatch_keys (grant_slot cls interval now db)"
  by (simp_all add: dispatch_keys_def register_provider_demand_def refresh_pressure_def grant_slot_def
      Let_def distinct_sql_upsert map_sql_update)

lemma dispatch_frame:
  assumes "reserve_provider_dispatch_locked P task now db = Inr (r, db')"
  shows "same_ledgers db db'" "dispatch_keys db \<Longrightarrow> dispatch_keys db'"
proof -
  let ?c = "provider_task_class task"
  let ?db1 = "register_provider_demand P ?c now None db"
  have "db' = ?db1 \<or> db' = refresh_pressure P now ?db1 \<or>
      (\<exists>i. db' = grant_slot ?c i now (refresh_pressure P now ?db1))"
    using assms by (auto simp: reserve_provider_dispatch_locked_def Let_def bind_out_Inr_iff
        selected_provider_task_def split: if_splits option.splits)
  moreover have a: "same_ledgers db (refresh_pressure P now ?db1)"
    by (rule same_ledgers_trans [of _ ?db1]) simp_all
  moreover have "same_ledgers db (grant_slot ?c i now (refresh_pressure P now ?db1))" for i
    by (rule same_ledgers_trans [OF a]) simp
  ultimately show "same_ledgers db db'" "dispatch_keys db \<Longrightarrow> dispatch_keys db'"
    by (auto simp: dispatch_keys_steps)
qed

lemma keys_ok_split:
  "keys_ok db \<longleftrightarrow> distinct (map j_id (db_jobs db)) \<and> distinct (map job_identity (db_jobs db)) \<and>
     distinct (map at_id (db_attempts db)) \<and> distinct (map ro_request (db_overrides db)) \<and>
     distinct (map df_id (db_deferrals db)) \<and> distinct (map daily_key (db_daily db)) \<and>
     distinct (map minute_key (db_minute db)) \<and> distinct (map ru_id (db_requests db)) \<and>
     distinct (map workload_key (db_workload db)) \<and> distinct (map ca_bucket (db_calibration db)) \<and>
     distinct (map route_key (db_routes db)) \<and> dispatch_keys db"
  by (auto simp: keys_ok_def dispatch_keys_def)

lemma keys_ok_same: "same_ledgers db db' \<Longrightarrow> dispatch_keys db' \<Longrightarrow> keys_ok db \<Longrightarrow> keys_ok db'"
  by (simp add: keys_ok_split same_ledgers_def)

lemma reserveE_quota:
  assumes "reserve_account_request P q now uuid db = Inr (d, db')"
  obtains (denied) workload where "workload_of (rr_workload q) = Some workload"
      "reservation_gate P q workload now db = Some d" "db' = db"
  | (no_slot) task t where "rr_provider_task q = Some task" "d = ProviderDispatchDeferred t"
      "reserve_provider_dispatch_locked P task now db = Inr ((False, t), db')"
  | (granted) workload db1 where "d = Granted" "1 \<le> rr_count q" "workload_of (rr_workload q) = Some workload"
      "reservation_gate P q workload now db = None" "same_ledgers db db1" "dispatch_keys db \<Longrightarrow> dispatch_keys db1"
      "commit_reservation q workload now uuid db1 = Inr db'"
proof -
  from assms obtain workload where pos: "1 \<le> rr_count q" and w: "workload_of (rr_workload q) = Some workload"
    by (auto simp: reserve_account_request_def split: if_splits option.splits)
  let ?slot = "case (rr_provider_task q, rr_scope q) of
      (Some task, None) \<Rightarrow> reserve_provider_dispatch_locked P task now db | _ \<Rightarrow> Inr ((True, now), db)"
  show ?thesis
  proof (cases "reservation_gate P q workload now db")
    case (Some denial)
    with assms pos w show ?thesis by (intro denied [OF w]) (auto simp: reserve_account_request_def)
  next
    case None
    with assms pos w obtain slot t db1 where s: "?slot = Inr ((slot, t), db1)"
      and rest: "(if \<not> slot then Inr (ProviderDispatchDeferred t, db1)
          else bind_out (commit_reservation q workload now uuid db1) (\<lambda>db2. Inr (Granted, db2))) = Inr (d, db')"
      by (auto simp: reserve_account_request_def bind_out_Inr_iff)
    have frame: "same_ledgers db db1" "dispatch_keys db \<Longrightarrow> dispatch_keys db1"
      using s dispatch_frame by (auto split: option.splits)
    show ?thesis
    proof (cases slot)
      case True
      with rest frame None w pos show ?thesis by (intro granted) (auto simp: bind_out_Inr_iff)
    next
      case False
      with rest s obtain task where "rr_provider_task q = Some task" "d = ProviderDispatchDeferred t"
        "reserve_provider_dispatch_locked P task now db = Inr ((False, t), db')"
        by (auto split: option.splits)
      then show ?thesis by (rule no_slot)
    qed
  qed
qed


section \<open>Properties of admission\<close>

lemma gate_open:
  assumes "reservation_gate P q workload now db = None"
  shows "cooldown_check q now db = None" "token_day_check q now db = None"
    "backfill_check P q workload now db = None" "capacity_check q now db = None"
  using assms by (simp_all add: reservation_gate_def first_some_None_iff)

lemma capacity_openD:
  assumes "capacity_check q now db = None"
  shows "request_daily_count q now db + rr_count q \<le> usable_daily_limit q"
    "fst (rolling_account_usage (rr_account q) (quota_families q) now (rr_share_minute q) (db_requests db))
       + rr_count q \<le> rr_rpm q"
    "rr_tpm q = Some limit \<Longrightarrow>
       snd (rolling_account_usage (rr_account q) (quota_families q) now (rr_share_minute q) (db_requests db))
         + estimated_tokens q \<le> limit"
  using assms
  by (auto simp: capacity_check_def exhausted_dimensions_def exceeds_def Let_def split: if_splits prod.splits)

lemma commitE:
  assumes "commit_reservation q workload now uuid db = Inr db'"
  shows "db_daily db' = add_daily q now (db_daily db)" "db_minute db' = add_minute q now (db_minute db)"
    "db_requests db' = db_requests db @ [admitted_request q workload now uuid]"
    "db_workload db' = add_workload q workload now (db_workload db)"
    "ru_id (admitted_request q workload now uuid) \<notin> ru_id ` set (db_requests db)"
    "db_dispatch db' = db_dispatch db" "db_dispatch_tasks db' = db_dispatch_tasks db" "db_jobs db' = db_jobs db"
    "db_attempts db' = db_attempts db" "db_overrides db' = db_overrides db" "db_deferrals db' = db_deferrals db"
    "db_calibration db' = db_calibration db" "db_routes db' = db_routes db"
  using assms by (auto simp: commit_reservation_def Let_def split: if_splits)

lemma admitted_request_simps [simp]:
  "ru_account (admitted_request q w now u) = rr_account q" "ru_model (admitted_request q w now u) = rr_model q"
  "ru_count (admitted_request q w now u) = rr_count q" "ru_tokens (admitted_request q w now u) = estimated_tokens q"
  "ru_reserved_at (admitted_request q w now u) = now" "ru_workload (admitted_request q w now u) = w"
  "effective_input_tokens (admitted_request q w now u) = estimated_tokens q"
  "ru_attempted_at (admitted_request q w now u) = None"
  by (simp_all add: admitted_request_def effective_input_tokens_def)

text \<open>
  C11: quotas are never exceeded: once a request is admitted, the usage recorded for the account,
  the new request included, is within the usable daily limit (the priority reserve kept back from
  routine work), the requests and tokens of the trailing minute are within their limits, and so
  are the tokens of the last 24 hours.
\<close>

theorem quotas_are_never_exceeded:
  assumes "reserve_account_request P q now uuid db = Inr (Granted, db')" "keys_ok db"
  shows "daily_usage_of (local_date (rr_zone q) now) (rr_account q) (quota_families q) (db_daily db')
       \<le> usable_daily_limit q \<and>
     fst (rolling_account_usage (rr_account q) (quota_families q) now (rr_share_minute q) (db_requests db'))
       \<le> rr_rpm q \<and>
     (\<forall>limit. rr_tpm q = Some limit \<longrightarrow>
        snd (rolling_account_usage (rr_account q) (quota_families q) now (rr_share_minute q) (db_requests db'))
          \<le> limit) \<and>
     (\<forall>limit. rr_tpd q = Some limit \<longrightarrow>
        token_day_usage (rr_account q) (quota_families q) now (db_requests db') \<le> limit)"
  using assms(1)
proof (cases rule: reserveE_quota)
  case (denied workload)
  then have False
    by (auto simp: reservation_gate_def cooldown_check_def token_day_check_def backfill_check_def
        capacity_check_def Let_def split: option.splits if_splits prod.splits)
  then show ?thesis ..
next
  case (no_slot task t)
  then show ?thesis by simp
next
  case (granted workload db1)
  note same = granted(5) [unfolded same_ledgers_def]
  note c = commitE [OF granted(7)]
  note g = gate_open [OF granted(4)]
  note cap = capacity_openD [OF g(4)]
  have dist: "distinct (map daily_key (db_daily db))" using assms(2) by (simp add: keys_ok_def)
  have est: "0 \<le> estimated_tokens q" by (simp add: estimated_tokens_def)
  have day: "daily_usage_of (local_date (rr_zone q) now) (rr_account q) (quota_families q) (db_daily db')
      \<le> request_daily_count q now db + rr_count q"
    using daily_sum [OF dist, of "\<lambda>d a m. d = local_date (rr_zone q) now \<and> a = rr_account q \<and> m \<in> set (quota_families q)" q now]
      same granted(2)
    by (simp add: c(1) daily_usage_of_def request_daily_count_def split: if_splits)
  have roll: "fst (rolling_account_usage (rr_account q) (quota_families q) now (rr_share_minute q) (db_requests db'))
      \<le> fst (rolling_account_usage (rr_account q) (quota_families q) now (rr_share_minute q) (db_requests db)) + rr_count q"
    "snd (rolling_account_usage (rr_account q) (quota_families q) now (rr_share_minute q) (db_requests db'))
      \<le> snd (rolling_account_usage (rr_account q) (quota_families q) now (rr_share_minute q) (db_requests db)) + estimated_tokens q"
    using same granted(2) est by (simp_all add: c(3) rolling_account_usage_def Let_def)
  have tok: "token_day_usage (rr_account q) (quota_families q) now (db_requests db')
      \<le> token_day_usage (rr_account q) (quota_families q) now (db_requests db) + estimated_tokens q"
    using same est by (simp add: c(3) token_day_usage_def)
  have tpd: "token_day_usage (rr_account q) (quota_families q) now (db_requests db) + estimated_tokens q \<le> limit"
    if "rr_tpd q = Some limit" for limit
    using g(2) that by (auto simp: token_day_check_def Let_def split: if_splits)
  show ?thesis
    using day cap(1) roll cap(2) cap(3) tok tpd by force
qed

definition requests_of :: "string \<Rightarrow> string \<Rightarrow> scheduler_db \<Rightarrow> int" where
  "requests_of account model db = sql_sum ru_count (\<lambda>r. ru_account r = account \<and> ru_model r = model) (db_requests db)"

definition ledgers_agree :: "scheduler_db \<Rightarrow> bool" where
  "ledgers_agree db \<longleftrightarrow>
     (\<forall>account model.
        sql_sum du_count (\<lambda>u. du_account u = account \<and> du_model u = model) (db_daily db) = requests_of account model db \<and>
        sql_sum mu_count (\<lambda>u. mu_account u = account \<and> mu_model u = model) (db_minute db) = requests_of account model db) \<and>
     (\<forall>account workload.
        sql_sum dw_count (\<lambda>w. dw_account w = account \<and> dw_class w = workload) (db_workload db) =
        sql_sum ru_count (\<lambda>r. ru_account r = account \<and> ru_workload r = workload) (db_requests db))"

text \<open>
  C12: the books balance: a reservation, whatever its answer, keeps the keys of every table and
  the agreement of the four ledgers: for each account and model the daily and the minute counters
  and the recorded requests have the same total, and so have the workload counters and the
  requests of each workload class.
\<close>

theorem ledgers_balance:
  assumes "reserve_account_request P q now uuid db = Inr (d, db')" "keys_ok db" "ledgers_agree db"
  shows "keys_ok db' \<and> ledgers_agree db'"
  using assms(1)
proof (cases rule: reserveE_quota)
  case (denied workload)
  with assms show ?thesis by simp
next
  case (no_slot task t)
  note f = dispatch_frame [OF no_slot(3)]
  have "dispatch_keys db'" using f(2) assms(2) by (simp add: keys_ok_split)
  with keys_ok_same [OF f(1)] f(1) assms(2,3) show ?thesis
    by (simp add: ledgers_agree_def requests_of_def same_ledgers_def)
next
  case (granted workload db1)
  note c = commitE [OF granted(7)]
  have dk: "dispatch_keys db1" using granted(6) assms(2) by (simp add: keys_ok_split)
  have k1: "keys_ok db1" by (rule keys_ok_same [OF granted(5) dk assms(2)])
  then have dist: "distinct (map daily_key (db_daily db1))" "distinct (map minute_key (db_minute db1))"
    "distinct (map workload_key (db_workload db1))" by (simp_all add: keys_ok_def)
  have keys: "keys_ok db'"
    using k1 c by (simp add: keys_ok_def add_daily_post add_minute_post add_workload_post
        daily_ledger.post_distinct minute_ledger.post_distinct workload_ledger.post_distinct)
  have agree1: "ledgers_agree db1" using assms(3) granted(5)
    by (simp add: ledgers_agree_def requests_of_def same_ledgers_def)
  have "ledgers_agree db'"
    using agree1 daily_sum [OF dist(1), of "\<lambda>_ a m. a = account \<and> m = model" for account model]
      minute_sum [OF dist(2), of "\<lambda>a m. a = account \<and> m = model" for account model]
      workload_sum [OF dist(3), of "\<lambda>a c. a = account \<and> c = wl" for account wl]
    by (simp add: ledgers_agree_def requests_of_def c)
  with keys show ?thesis ..
qed

text \<open>
  C13: a refused request is not charged: when a reservation answers with a deferral no ledger and
  no job changes, and unless it was refused a dispatch slot the database is exactly what it was.
\<close>

theorem refusal_is_free:
  assumes "reserve_account_request P q now uuid db = Inr (d, db')" "d \<noteq> Granted"
  shows "same_ledgers db db' \<and> (db' = db \<or> (\<exists>task t. rr_provider_task q = Some task \<and> d = ProviderDispatchDeferred t))"
  using assms(1)
proof (cases rule: reserveE_quota)
  case (no_slot task t)
  then show ?thesis using dispatch_frame(1) [OF no_slot(3)] by blast
qed (use assms(2) in simp_all)

text \<open>
  C14: backfill yields to live work: a contract-backfill request is admitted only when no live job
  of the tasks that share its quota is due, at least seven complete days of history exist, no
  request of the account was throttled in the last quarter of an hour, the predicted live demand
  of the rest of the quota day and both reserves still fit the daily limit after it, and backfill
  is less than a tenth of the account's last minute (or its first request in it).
\<close>

theorem backfill_yields_to_live:
  assumes "reserve_account_request P q now uuid db = Inr (Granted, db')" "rr_workload q = ''CONTRACT_BACKFILL''"
  shows "\<exists>predicted p values. live_pressure_tasks_for_quota (quota_authority q) \<noteq> [] \<and>
     (\<forall>j \<in> set (db_jobs db). \<not> (live_open (live_pressure_tasks_for_quota (quota_authority q)) j \<and> due now j)) \<and>
     values = live_history (rr_account q) (quota_authority q) (local_date (pacific P) now)
       (local_hour (pacific P) now) (db_workload db) \<and> 7 \<le> length values \<and>
     predicted = nearest_rank_p95 P values \<and>
     rr_count q + predicted + 2 * share_ratio P (rr_daily_limit q) \<le>
       max 0 (rr_daily_limit q - request_daily_count q now db) \<and>
     p = measure_live_pressure (rr_account q) (live_pressure_tasks_for_quota (quota_authority q)) (quota_families q) now db \<and>
     \<not> 0 < lp_throttled p \<and> \<not> lp_increasing p \<and>
     (lp_backfill_60s p < 1 \<or> lp_backfill_60s p < (lp_total_60s p + 1) div 10)"
  using assms(1)
proof (cases rule: reserveE_quota)
  case (denied workload)
  then have False
    by (auto simp: reservation_gate_def cooldown_check_def token_day_check_def backfill_check_def
        capacity_check_def Let_def split: option.splits if_splits prod.splits)
  then show ?thesis ..
next
  case (no_slot task t)
  then show ?thesis by simp
next
  case (granted workload db1)
  let ?tasks = "live_pressure_tasks_for_quota (quota_authority q)"
  let ?hist = "live_history (rr_account q) (quota_authority q) (local_date (pacific P) now)
       (local_hour (pacific P) now) (db_workload db)"
  let ?p = "measure_live_pressure (rr_account q) ?tasks (quota_families q) now db"
  have "workload = BACKFILL_WORKLOAD"
    using granted(3) assms(2) workload_of_name [of BACKFILL_WORKLOAD] by simp
  then have adm: "bf_admitted (backfill_admission P (rr_account q) (quota_authority q) (quota_families q)
      (rr_daily_limit q) (request_daily_count q now db) (rr_count q) now db)"
    using gate_open(3) [OF granted(4)] by (auto simp: backfill_check_def Let_def split: if_splits)
  then have hist: "MIN_COMPLETE_DAYS \<le> int (length ?hist)" and tasks: "?tasks \<noteq> []"
    and block: "backfill_blocker ?p (forecast_safe_backfill_budget
        (max 0 (rr_daily_limit q - request_daily_count q now db)) (nearest_rank_p95 P ?hist)
        (share_ratio P (rr_daily_limit q)) (share_ratio P (rr_daily_limit q))) (rr_count q) = None"
    by (auto simp: backfill_admission_def Let_def split: if_splits option.splits)
  from block have b: "\<not> 0 < lp_claimable ?p" "\<not> lp_increasing ?p" "\<not> 0 < lp_throttled ?p" "\<not> share_blocked ?p"
    "rr_count q \<le> forecast_safe_backfill_budget
        (max 0 (rr_daily_limit q - request_daily_count q now db)) (nearest_rank_p95 P ?hist)
        (share_ratio P (rr_daily_limit q)) (share_ratio P (rr_daily_limit q))"
    by (simp_all add: backfill_blocker_def split: if_splits)
  have "\<forall>j \<in> set (filter (live_open ?tasks) (db_jobs db)). \<not> due now j"
    using b(1) sql_count_pos_iff [of "due now" "filter (live_open ?tasks) (db_jobs db)"]
    by (simp add: measure_live_pressure_def Let_def)
  moreover have "rr_count q + nearest_rank_p95 P ?hist + 2 * share_ratio P (rr_daily_limit q) \<le>
       max 0 (rr_daily_limit q - request_daily_count q now db)"
    using b(5) granted(2) by (auto simp: forecast_safe_backfill_budget_def max_def split: if_splits)
  moreover have "lp_backfill_60s ?p < 1 \<or> lp_backfill_60s ?p < (lp_total_60s ?p + 1) div 10"
    using b(4) by (auto simp: share_blocked_def MAX_SHARE_DENOMINATOR_def)
  ultimately show ?thesis using hist tasks b(2,3) by (intro exI conjI) (auto simp: MIN_COMPLETE_DAYS_def)
qed


section \<open>Properties of rankings and snapshots\<close>

lemma collect_Inr_iff: "collect xs = Inr ys \<longleftrightarrow> xs = map Inr ys"
  by (induction xs arbitrary: ys) (auto simp: bind_out_Inr_iff)

lemma rankE:
  assumes "rank_accounts_for_models P credentials models reserve_models urgent now db = Inr accounts"
  obtains scores where
    "map (account_score P models reserve_models urgent now db) (dedupe (map cred_account credentials)) = map Inr scores"
    "accounts = map fst (sort_key (\<lambda>x. - snd x) (zip (dedupe (map cred_account credentials)) scores))"
  using assms by (auto simp: rank_accounts_for_models_def Let_def bind_out_Inr_iff collect_Inr_iff)

lemma rank_mset:
  assumes "rank_accounts_for_models P credentials models reserve_models urgent now db = Inr accounts"
  shows "mset accounts = mset (dedupe (map cred_account credentials))"
  using assms
proof (cases rule: rankE)
  case (1 scores)
  have "length scores = length (dedupe (map cred_account credentials))"
    using 1(1) by (metis length_map)
  then show ?thesis by (simp add: 1(2) mset_map [symmetric])
qed

text \<open>
  Accounts are ranked by headroom: the ranking lists every configured account exactly once,
  however many keys it has, and never puts an account before one with a larger score.
\<close>

theorem ranking_orders_accounts:
  assumes "rank_accounts_for_models P credentials models reserve_models urgent now db = Inr accounts"
  shows "mset accounts = mset (dedupe (map cred_account credentials)) \<and>
     sorted_wrt (\<lambda>a b. \<exists>x y. account_score P models reserve_models urgent now db a = Inr x \<and>
        account_score P models reserve_models urgent now db b = Inr y \<and> y \<le> x) accounts"
proof
  show "mset accounts = mset (dedupe (map cred_account credentials))" by (rule rank_mset [OF assms])
  let ?score = "account_score P models reserve_models urgent now db"
  from assms show "sorted_wrt (\<lambda>a b. \<exists>x y. ?score a = Inr x \<and> ?score b = Inr y \<and> y \<le> x) accounts"
  proof (cases rule: rankE)
    case (1 scores)
    let ?ranked = "sort_key (\<lambda>x. - snd x) (zip (dedupe (map cred_account credentials)) scores)"
    have score: "?score (fst x) = Inr (snd x)" if "x \<in> set ?ranked" for x
    proof -
      from that have "x \<in> set (zip (dedupe (map cred_account credentials)) scores)" by simp
      then obtain i where i: "i < length (dedupe (map cred_account credentials))" "i < length scores"
        "x = (dedupe (map cred_account credentials) ! i, scores ! i)" by (auto simp: set_zip)
      have "map ?score (dedupe (map cred_account credentials)) ! i = map Inr scores ! i" using 1(1) by simp
      with i show ?thesis by simp
    qed
    have "sorted_wrt (\<lambda>x y. - snd x \<le> - snd y) ?ranked"
      using sorted_sort_key [of "\<lambda>x. - snd x" "zip (dedupe (map cred_account credentials)) scores"]
      by (simp add: sorted_map)
    then have "sorted_wrt (\<lambda>x y. \<exists>a b. ?score (fst x) = Inr a \<and> ?score (fst y) = Inr b \<and> b \<le> a) ?ranked"
      by (rule sorted_wrt_mono_rel [rotated]) (simp add: score)
    then show ?thesis by (simp add: 1(2) sorted_wrt_map)
  qed
qed

lemma mset_by_account:
  assumes "distinct accounts"
  shows "mset (concat (map (\<lambda>a. sort_key cred_id (filter (\<lambda>c. cred_account c = a) cs)) accounts)) =
     mset (filter (\<lambda>c. cred_account c \<in> set accounts) cs)"
  using assms
proof (induction accounts)
  case (Cons a accounts)
  then have "a \<notin> set accounts" by simp
  then have "mset (filter (\<lambda>c. cred_account c = a) cs) + mset (filter (\<lambda>c. cred_account c \<in> set accounts) cs)
      = mset (filter (\<lambda>c. cred_account c \<in> set (a # accounts)) cs)"
    by (induction cs) auto
  with Cons show ?case by simp
qed simp

text \<open>
  A background task is given every ROUTINE credential exactly once and no PREEMPTIBLE one.
\<close>

theorem background_uses_routine_credentials:
  assumes "credentials_for_background_task P credentials task now db = Inr chosen"
  shows "mset chosen = mset (filter (\<lambda>c. cred_pool c = ROUTINE_POOL) credentials)"
proof -
  let ?eligible = "filter (\<lambda>c. cred_pool c = ROUTINE_POOL) credentials"
  show ?thesis
  proof (cases "?eligible = []")
    case True
    with assms show ?thesis by (simp add: credentials_for_background_task_def)
  next
    case False
    with assms obtain models reserve accounts where
      r: "rank_accounts_for_models P ?eligible models reserve False now db = Inr accounts"
      and c: "chosen = concat (map (\<lambda>a. sort_key cred_id (filter (\<lambda>c. cred_account c = a) ?eligible)) accounts)"
      by (auto simp: credentials_for_background_task_def Let_def bind_out_Inr_iff)
    have accounts: "mset accounts = mset (dedupe (map cred_account ?eligible))" by (rule rank_mset [OF r])
    then have "distinct accounts" by (metis distinct_dedupe mset_eq_imp_distinct_iff)
    moreover have "set accounts = cred_account ` set ?eligible"
      using mset_eq_setD [OF accounts] by simp
    moreover have "filter (\<lambda>c. cred_account c \<in> cred_account ` set ?eligible) ?eligible = ?eligible"
      by (rule filter_True) blast
    ultimately show ?thesis unfolding c by (simp only: mset_by_account)
  qed
qed

lemma sum_by_account:
  assumes "distinct accounts"
  shows "(\<Sum>a\<leftarrow>accounts. daily_usage_of day a families rows) =
     sql_sum du_count (\<lambda>u. du_day u = day \<and> du_account u \<in> set accounts \<and> du_model u \<in> set families) rows"
proof -
  have one: "(\<Sum>a\<leftarrow>accounts. if du_day u = day \<and> du_account u = a \<and> du_model u \<in> set families then du_count u else 0) =
      (if du_day u = day \<and> du_account u \<in> set accounts \<and> du_model u \<in> set families then du_count u else 0)" for u
    using assms by (induction accounts) auto
  show ?thesis
  proof (induction rows)
    case Nil
    then show ?case by (simp add: daily_usage_of_def)
  next
    case (Cons u rows)
    have "(\<Sum>a\<leftarrow>accounts. daily_usage_of day a families (u # rows)) =
        (\<Sum>a\<leftarrow>accounts. if du_day u = day \<and> du_account u = a \<and> du_model u \<in> set families then du_count u else 0) +
        (\<Sum>a\<leftarrow>accounts. daily_usage_of day a families rows)"
      by (simp add: daily_usage_of_def sum_list_addf)
    then show ?case by (simp only: one Cons sql_sum_Cons)
  qed
qed

text \<open>
  The snapshot counts accounts, not keys: it has one entry for each configured account, and
  its total is what the daily ledger records today for those accounts and model families; an entry
  is available exactly when something remains of its limit.
\<close>

theorem snapshot_counts_accounts:
  "length (sn_keys (account_quota_snapshot P credentials families daily_limit authority now db))
     = card (cred_account ` set credentials) \<and>
   sn_total_sent (account_quota_snapshot P credentials families daily_limit authority now db) =
     sql_sum du_count (\<lambda>u. du_day u = quota_day P now \<and> du_account u \<in> cred_account ` set credentials \<and>
       du_model u \<in> set families) (db_daily db) \<and>
   list_all (\<lambda>k. ks_status k = ''AVAILABLE'' \<longleftrightarrow> 0 < ks_remaining k)
     (sn_keys (account_quota_snapshot P credentials families daily_limit authority now db))"
proof (intro conjI)
  let ?accounts = "dedupe (map cred_account credentials)"
  have "card (set ?accounts) = length ?accounts" by (rule distinct_card) simp
  then show "length (sn_keys (account_quota_snapshot P credentials families daily_limit authority now db))
     = card (cred_account ` set credentials)"
    by (simp add: account_quota_snapshot_def Let_def)
  have sent: "ks_sent (key_snapshot_of P credentials fs daily_limit authority now db sa) =
      daily_usage_of (quota_day P now) (snd sa) fs (db_daily db)" for fs sa
    by (cases sa) (simp add: key_snapshot_of_def Let_def)
  have "map (\<lambda>sa. daily_usage_of (quota_day P now) (snd sa) (dedupe families) (db_daily db)) (enumerate 0 ?accounts)
      = map (\<lambda>a. daily_usage_of (quota_day P now) a (dedupe families) (db_daily db)) ?accounts"
  proof -
    have "map (\<lambda>a. daily_usage_of (quota_day P now) a (dedupe families) (db_daily db)) (map snd (enumerate 0 ?accounts))
        = map (\<lambda>a. daily_usage_of (quota_day P now) a (dedupe families) (db_daily db)) ?accounts"
      by (simp only: map_snd_enumerate)
    then show ?thesis by (simp only: map_map comp_def)
  qed
  then show "sn_total_sent (account_quota_snapshot P credentials families daily_limit authority now db) =
     sql_sum du_count (\<lambda>u. du_day u = quota_day P now \<and> du_account u \<in> cred_account ` set credentials \<and>
       du_model u \<in> set families) (db_daily db)"
    using sum_by_account [of ?accounts "quota_day P now" "dedupe families" "db_daily db"]
    by (simp add: account_quota_snapshot_def Let_def sent comp_def)
  show "list_all (\<lambda>k. ks_status k = ''AVAILABLE'' \<longleftrightarrow> 0 < ks_remaining k)
     (sn_keys (account_quota_snapshot P credentials families daily_limit authority now db))"
    by (auto simp: account_quota_snapshot_def Let_def list_all_iff key_snapshot_of_def split: prod.splits)
qed

subsection \<open>Witnesses\<close>

definition sample_reservation :: reservation where
  "sample_reservation = \<lparr>rr_account = ''acct'', rr_model = ''gemma-4-31b-it'', rr_daily_limit = 100, rr_rpm = 5,
     rr_count = 1, rr_tokens = 40, rr_tpm = Some 100, rr_tpd = None, rr_shared = None, rr_share_minute = False,
     rr_reserve_total = 10, rr_urgent = False, rr_usage_id = Some ''u1'', rr_provider_task = Some ''impact'',
     rr_requested_model = None, rr_purpose = None, rr_contract = None, rr_estimator = None, rr_base_tokens = None,
     rr_calibration_model = None, rr_calibration_ratio = None, rr_workload = ''LIVE_OPERATIONAL'',
     rr_authority = Some ''gemma_quota'', rr_zone = pacific sample_platform, rr_scope = None\<rparr>"

lemma sample_reservation_runs:
  "\<not> isl (reserve_account_request sample_platform sample_reservation 5 ''x'' empty_db)"
  "fst (projr (reserve_account_request sample_platform sample_reservation 5 ''x'' empty_db)) = Granted"
  by code_simp+

definition sample_charged_db :: scheduler_db where
  "sample_charged_db = snd (projr (reserve_account_request sample_platform sample_reservation 5 ''x'' empty_db))"

lemma sample_granted:
  "reserve_account_request sample_platform sample_reservation 5 ''x'' empty_db = Inr (Granted, sample_charged_db)"
  using run_succeeds [OF sample_reservation_runs(1), unfolded sample_reservation_runs(2), folded sample_charged_db_def] .

lemma empty_ledgers_agree: "ledgers_agree empty_db"
  by (simp add: ledgers_agree_def requests_of_def empty_db_def)

theorem quotas_are_never_exceeded_witness:
  "daily_usage_of (local_date (rr_zone sample_reservation) 5) ''acct'' [''gemma-4-31b-it''] (db_daily sample_charged_db) \<le> 90"
  using quotas_are_never_exceeded [OF sample_granted keys_ok_empty]
  by (simp add: sample_reservation_def usable_daily_limit_def quota_families_def dedupe_def)

theorem ledgers_balance_witness: "keys_ok sample_charged_db \<and> ledgers_agree sample_charged_db"
  by (rule ledgers_balance [OF sample_granted keys_ok_empty empty_ledgers_agree])

definition sample_zero_limit :: reservation where
  "sample_zero_limit = sample_reservation\<lparr>rr_daily_limit := 5\<rparr>"

lemma sample_refused:
  "\<not> isl (reserve_account_request sample_platform sample_zero_limit 5 ''x'' empty_db)"
  "fst (projr (reserve_account_request sample_platform sample_zero_limit 5 ''x'' empty_db)) \<noteq> Granted"
  by code_simp+

theorem refusal_is_free_witness:
  "same_ledgers empty_db (snd (projr (reserve_account_request sample_platform sample_zero_limit 5 ''x'' empty_db)))"
  using refusal_is_free [OF run_succeeds [OF sample_refused(1)] sample_refused(2)] by blast


definition sample_workload :: "int \<Rightarrow> day_workload" where
  "sample_workload day = \<lparr>dw_day = day, dw_hour = 18, dw_account = ''acct'', dw_authority = ''gemini_quota'',
     dw_class = LIVE_OPERATIONAL, dw_count = 3, dw_updated_at = 0\<rparr>"

definition sample_history_db :: scheduler_db where
  "sample_history_db = empty_db\<lparr>db_workload := map sample_workload [-9, -8, -7, -6, -5, -4, -3, -2]\<rparr>"

definition sample_backfill :: reservation where
  "sample_backfill = sample_reservation\<lparr>rr_workload := ''CONTRACT_BACKFILL'', rr_authority := Some ''gemini_quota''\<rparr>"

lemma sample_backfill_runs:
  "\<not> isl (reserve_account_request sample_platform sample_backfill 5 ''x'' sample_history_db)"
  "fst (projr (reserve_account_request sample_platform sample_backfill 5 ''x'' sample_history_db)) = Granted"
  by code_simp+

theorem backfill_yields_to_live_witness:
  "7 \<le> length (live_history ''acct'' ''gemini_quota'' (local_date (pacific sample_platform) 5)
     (local_hour (pacific sample_platform) 5) (db_workload sample_history_db))"
  using backfill_yields_to_live
    [OF run_succeeds [OF sample_backfill_runs(1), unfolded sample_backfill_runs(2)]]
  by (auto simp: sample_backfill_def sample_reservation_def quota_authority_def nonblank_def)

definition sample_spare :: api_credential where
  "sample_spare = sample_credential\<lparr>cred_account := ''spare'', cred_id := ''cred-2''\<rparr>"

lemma sample_ranking:
  "\<not> isl (rank_accounts_for_models sample_platform [sample_credential, sample_spare] [''gemma-4-31b-it''] [] False 5
     sample_charged_db)"
  "projr (rank_accounts_for_models sample_platform [sample_credential, sample_spare] [''gemma-4-31b-it''] [] False 5
     sample_charged_db) = [''spare'', ''acct'']"
  "\<not> isl (credentials_for_background_task sample_platform [sample_credential, sample_spare] ''ACTIVE_IMPACT'' 5
     sample_charged_db)"
  by code_simp+

theorem ranking_orders_accounts_witness:
  "mset [''spare'', ''acct''] = mset (dedupe (map cred_account [sample_credential, sample_spare]))"
proof -
  have "rank_accounts_for_models sample_platform [sample_credential, sample_spare] [''gemma-4-31b-it''] [] False 5
     sample_charged_db = Inr [''spare'', ''acct'']"
    using sample_ranking(1,2) by (metis sum.collapse(2))
  from ranking_orders_accounts [OF this] show ?thesis by blast
qed

theorem background_uses_routine_credentials_witness:
  "mset (projr (credentials_for_background_task sample_platform [sample_credential, sample_spare] ''ACTIVE_IMPACT'' 5
     sample_charged_db)) = mset [sample_credential, sample_spare]"
proof -
  have "credentials_for_background_task sample_platform [sample_credential, sample_spare] ''ACTIVE_IMPACT'' 5
     sample_charged_db = Inr (projr (credentials_for_background_task sample_platform
       [sample_credential, sample_spare] ''ACTIVE_IMPACT'' 5 sample_charged_db))"
    using sample_ranking(3) by simp
  from background_uses_routine_credentials [OF this] show ?thesis
    by (simp add: sample_spare_def sample_credential_def)
qed

end
