(* ===== verification/Request_Outcome.thy ===== *)
theory Request_Outcome
  imports Request_Quota
begin

text \<open>
  What happens to an admitted request, \<^verbatim>\<open>mark_account_request_attempted\<close>,
  \<^verbatim>\<open>record_account_request_outcome\<close>, \<^verbatim>\<open>record_account_vectors_committed\<close> and \<^verbatim>\<open>scheduler_counts\<close> of
  \<^verbatim>\<open>xauusd_news/news/scheduler/state.py\<close>: it is attempted, its outcome is recorded once, and
  the vectors of a successful embedding request are committed once.
\<close>

section \<open>Operations\<close>

definition attempted_row :: "instant \<Rightarrow> request_usage \<Rightarrow> request_usage" where
  "attempted_row now r =
     r\<lparr>ru_attempted_at := (case ru_attempted_at r of None \<Rightarrow> Some now | Some t \<Rightarrow> Some t)\<rparr>"

definition mark_account_request_attempted ::
    "string \<Rightarrow> instant \<Rightarrow> scheduler_db \<Rightarrow> scheduler_db outcome" where
  "mark_account_request_attempted uid now db =
     (if sql_count (\<lambda>r. ru_id r = uid) (db_requests db) \<noteq> 1
      then Inl (ValueError ''model request admission is missing'')
      else Inr (db\<lparr>db_requests := sql_update (\<lambda>r. ru_id r = uid) (attempted_row now) (db_requests db)\<rparr>))"

record usage_metadata =
  um_prompt :: "int option"
  um_candidates :: "int option"
  um_total :: "int option"

definition no_metadata :: usage_metadata where
  "no_metadata = \<lparr>um_prompt = None, um_candidates = None, um_total = None\<rparr>"

record outcome_report =
  op_outcome :: string
  op_http_status :: "int option"
  op_retry_after :: "int option"
  op_metadata :: "usage_metadata option"
  op_model_version :: "string option"
  op_scope :: "string option"

definition report_metadata :: "outcome_report \<Rightarrow> usage_metadata" where
  "report_metadata p = (case op_metadata p of None \<Rightarrow> no_metadata | Some m \<Rightarrow> m)"

definition outcome_open :: "string \<Rightarrow> request_usage \<Rightarrow> bool" where
  "outcome_open uid r \<longleftrightarrow> ru_id r = uid \<and> ru_attempted_at r \<noteq> None \<and> ru_outcome r = None"

definition outcome_row :: "outcome_report \<Rightarrow> provider_outcome \<Rightarrow> instant \<Rightarrow> request_usage \<Rightarrow> request_usage" where
  "outcome_row p result now r =
     r\<lparr>ru_outcome := Some result, ru_http_status := op_http_status p, ru_completed_at := Some now,
       ru_prompt_tokens := um_prompt (report_metadata p),
       ru_candidates_tokens := um_candidates (report_metadata p),
       ru_total_tokens := um_total (report_metadata p), ru_provider_model := op_model_version p\<rparr>"

definition calibrate_from_report ::
    "platform \<Rightarrow> outcome_report \<Rightarrow> provider_outcome \<Rightarrow> request_usage \<Rightarrow> instant \<Rightarrow> scheduler_db \<Rightarrow>
     scheduler_db outcome" where
  "calibrate_from_report P p result row now db =
     (case (um_prompt (report_metadata p), nonblank (op_model_version p)) of
        (Some tokens, Some version) \<Rightarrow>
          if result = PROVIDER_SUCCEEDED \<and> 0 < tokens
          then record_token_calibration_sample P row tokens version now db else Inr db
      | _ \<Rightarrow> Inr db)"

definition extend_scope_cooldown :: "string \<Rightarrow> instant \<Rightarrow> provider_outcome \<Rightarrow> instant \<Rightarrow> scheduler_db \<Rightarrow> scheduler_db" where
  "extend_scope_cooldown scope deadline result now db =
     db\<lparr>db_dispatch :=
       sql_upsert ds_scope
         (\<lambda>s. s\<lparr>ds_next_eligible_at := max (ds_next_eligible_at s) deadline,
                ds_cooldown_until := Some (case ds_cooldown_until s of None \<Rightarrow> deadline | Some c \<Rightarrow> max c deadline),
                ds_last_outcome := Some (Outcome result), ds_updated_at := now\<rparr>)
         \<lparr>ds_scope = scope, ds_next_eligible_at = deadline, ds_interval_ms = 250, ds_success_streak = 0,
          ds_throttle_count = 0, ds_cooldown_until = Some deadline, ds_last_outcome = Some (Outcome result),
          ds_updated_at = now\<rparr> (db_dispatch db)\<rparr>"

definition scope_cooldown_update ::
    "outcome_report \<Rightarrow> provider_outcome \<Rightarrow> instant \<Rightarrow> scheduler_db \<Rightarrow> scheduler_db" where
  "scope_cooldown_update p result now db =
     (case (op_scope p, op_retry_after p) of
        (Some scope, Some n) \<Rightarrow>
          if n \<noteq> 0 then extend_scope_cooldown scope (now + bounded_wait n) result now db else db
      | _ \<Rightarrow> db)"

text \<open>The first transaction: the row, the calibration sample and an independent provider's cooldown.\<close>

definition outcome_transaction ::
    "platform \<Rightarrow> string \<Rightarrow> outcome_report \<Rightarrow> provider_outcome \<Rightarrow> instant \<Rightarrow> scheduler_db \<Rightarrow> scheduler_db outcome" where
  "outcome_transaction P uid p result now db =
     (case find (\<lambda>r. ru_id r = uid) (db_requests db) of
        None \<Rightarrow> Inl (ValueError ''model request admission is missing'')
      | Some row \<Rightarrow>
          if sql_count (outcome_open uid) (db_requests db) \<noteq> 1
          then Inl (ValueError ''model request outcome is not claimable'')
          else
            bind_out (calibrate_from_report P p result row now
                        (db\<lparr>db_requests := sql_update (outcome_open uid) (outcome_row p result now) (db_requests db)\<rparr>))
              (\<lambda>db1. Inr (scope_cooldown_update p result now db1)))"

definition record_account_request_outcome ::
    "platform \<Rightarrow> string \<Rightarrow> outcome_report \<Rightarrow> instant \<Rightarrow> scheduler_db \<Rightarrow> scheduler_db outcome" where
  "record_account_request_outcome P uid p now db =
     (case outcome_of (op_outcome p) of
        None \<Rightarrow> Inl (ValueError ''provider request outcome is not controlled'')
      | Some result \<Rightarrow>
          bind_out (outcome_transaction P uid p result now db)
            (\<lambda>db1. if op_scope p \<noteq> None then Inr db1
                   else record_provider_dispatch_outcome P (op_outcome p) (op_retry_after p) now db1))"

definition vectors_open :: "string list \<Rightarrow> request_usage \<Rightarrow> bool" where
  "vectors_open ids r \<longleftrightarrow>
     ru_id r \<in> set ids \<and> ru_outcome r = Some PROVIDER_SUCCEEDED \<and> ru_vectors_at r = None"

definition record_account_vectors_committed ::
    "string list \<Rightarrow> instant \<Rightarrow> scheduler_db \<Rightarrow> scheduler_db outcome" where
  "record_account_vectors_committed ids now db =
     (if ids = [] then Inr db
      else if sql_count (vectors_open ids) (db_requests db) \<noteq> int (length ids)
      then Inl (ValueError ''successful embedding admissions are incomplete'')
      else Inr (db\<lparr>db_requests :=
             sql_update (vectors_open ids) (\<lambda>r. r\<lparr>ru_vectors_at := Some now\<rparr>) (db_requests db)\<rparr>))"

section \<open>Counts\<close>

record queue_counts =
  ct_state :: "job_state \<Rightarrow> int"
  ct_obsolete :: int
  ct_lane :: "task_type \<Rightarrow> work_lane \<Rightarrow> job_state \<Rightarrow> int"
  ct_unclassified :: int
  ct_unresolved :: int

definition counted :: "job \<Rightarrow> bool" where
  "counted j \<longleftrightarrow> j_lane_classified j \<and> text_or_empty (j_last_error j) \<noteq> ''PROVIDER_PROHIBITED_CONTENT'' \<and>
     provenance_admits j"

definition scheduler_counts :: "job list \<Rightarrow> queue_counts" where
  "scheduler_counts jobs =
     (let count_state = (\<lambda>s. sql_count (\<lambda>j. counted j \<and> j_state j = s) jobs);
          obsolete = sql_count (\<lambda>j. j_state j = DEAD_LETTER \<and> counted j \<and>
                       j_last_error j = Some ''CURRENT_EVIDENCE_NO_LONGER_ELIGIBLE'') jobs
      in \<lparr>ct_state = (\<lambda>s. if s = DEAD_LETTER then max 0 (count_state s - obsolete) else count_state s),
          ct_obsolete = obsolete,
          ct_lane = (\<lambda>t l s. sql_count (\<lambda>j. counted j \<and> j_task j = t \<and> j_lane j = l \<and> j_state j = s) jobs),
          ct_unclassified = sql_count (\<lambda>j. j_task j = ACTIVE_ANNOTATION \<and> \<not> j_lane_classified j) jobs,
          ct_unresolved = sql_count (\<lambda>j. (j_task j = ACTIVE_IMPACT \<or> j_task j = TITLE_TRANSLATION) \<and>
             (\<not> j_lane_classified j \<or> \<not> j_provenance_resolved j \<or>
              text_or_empty (j_provenance_version j) \<noteq> WORK_PROVENANCE_VERSION)) jobs\<rparr>)"

section \<open>Facts\<close>

lemmas request_row_defs = attempted_row_def outcome_row_def

lemma one_open_row:
  assumes "sql_count p rows = 1"
  obtains r where "r \<in> set rows" "p r"
  using assms sql_count_pos_iff [of p rows] by (metis zero_less_one)

text \<open>Calibration and the dispatch tables leave the requests as they are.\<close>

lemma calibrate_requests:
  "calibrate_from_report P p result row now db = Inr db' \<Longrightarrow> db_requests db' = db_requests db"
  by (auto simp: calibrate_from_report_def store_calibration_def Let_def
      split: option.splits if_splits elim!: record_sampleE)

lemma dispatch_outcome_requests:
  "record_provider_dispatch_outcome P result retry now db = Inr db' \<Longrightarrow> db_requests db' = db_requests db"
  by (auto simp: record_provider_dispatch_outcome_def split: option.splits)

lemma scope_update_requests [simp]:
  "db_requests (scope_cooldown_update p result now db) = db_requests db"
  by (simp add: scope_cooldown_update_def extend_scope_cooldown_def split: option.splits)

lemma outcomeE:
  assumes "record_account_request_outcome P uid p now db = Inr db'"
  obtains result r where "outcome_of (op_outcome p) = Some result" "r \<in> set (db_requests db)" "outcome_open uid r"
    "db_requests db' = sql_update (outcome_open uid) (outcome_row p result now) (db_requests db)"
proof -
  from assms obtain result where o: "outcome_of (op_outcome p) = Some result"
    by (auto simp: record_account_request_outcome_def split: option.splits)
  with assms obtain db1 where t: "outcome_transaction P uid p result now db = Inr db1"
    and rest: "(if op_scope p \<noteq> None then Inr db1
       else record_provider_dispatch_outcome P (op_outcome p) (op_retry_after p) now db1) = Inr db'"
    by (auto simp: record_account_request_outcome_def bind_out_Inr_iff)
  from t obtain row db2 where one: "sql_count (outcome_open uid) (db_requests db) = 1"
    and c: "calibrate_from_report P p result row now
       (db\<lparr>db_requests := sql_update (outcome_open uid) (outcome_row p result now) (db_requests db)\<rparr>) = Inr db2"
    and d: "db1 = scope_cooldown_update p result now db2"
    by (auto simp: outcome_transaction_def bind_out_Inr_iff split: option.splits if_splits)
  from one obtain r where "r \<in> set (db_requests db)" "outcome_open uid r" by (rule one_open_row)
  moreover have "db_requests db' = sql_update (outcome_open uid) (outcome_row p result now) (db_requests db)"
    using rest d calibrate_requests [OF c] scope_update_requests dispatch_outcome_requests
    by (auto split: if_splits)
  ultimately show ?thesis using that o by blast
qed

text \<open>
  A request has one outcome: a report is accepted only for a request that was attempted and
  has no outcome yet, it completes exactly that request, and every later report for it is refused.
\<close>

theorem outcome_is_recorded_once:
  assumes "record_account_request_outcome P uid p now db = Inr db'" "keys_ok db"
  shows "\<exists>result. \<exists>r \<in> set (db_requests db). outcome_of (op_outcome p) = Some result \<and> ru_id r = uid \<and>
     ru_attempted_at r \<noteq> None \<and> ru_outcome r = None \<and>
     db_requests db' = map (\<lambda>k. if ru_id k = uid then outcome_row p result now k else k) (db_requests db) \<and>
     (\<forall>p' now'. \<exists>msg. record_account_request_outcome P uid p' now' db' = Inl (ValueError msg))"
  using assms(1)
proof (cases rule: outcomeE)
  case (1 result r)
  have dist: "distinct (map ru_id (db_requests db))" using assms(2) by (simp add: keys_ok_def)
  have same: "outcome_open uid k \<longleftrightarrow> ru_id k = uid" if "k \<in> set (db_requests db)" for k
    using dist that 1(2,3) by (auto simp: outcome_open_def distinct_map inj_on_def)
  have req: "db_requests db' = map (\<lambda>k. if ru_id k = uid then outcome_row p result now k else k) (db_requests db)"
    unfolding 1(4) sql_update_def using same by auto
  have "\<not> outcome_open uid k" if k: "k \<in> set (db_requests db')" for k
  proof -
    have closed: "\<not> outcome_open uid (outcome_row p result now j)" for j
      by (simp add: outcome_open_def outcome_row_def)
    have "k \<in> set (sql_update (outcome_open uid) (outcome_row p result now) (db_requests db))"
      using k 1(4) by simp
    then show ?thesis by (cases rule: sql_updateE) (simp_all add: closed)
  qed
  then have none: "sql_count (outcome_open uid) (db_requests db') = 0" by (simp add: sql_count_eq_0_iff)
  have refused: "\<exists>msg. outcome_transaction P uid p' result' now' db' = Inl (ValueError msg)" for p' result' now'
    using none by (cases "find (\<lambda>r. ru_id r = uid) (db_requests db')") (simp_all add: outcome_transaction_def)
  have "\<exists>msg. record_account_request_outcome P uid p' now' db' = Inl (ValueError msg)" for p' now'
  proof (cases "outcome_of (op_outcome p')")
    case None
    then show ?thesis by (simp add: record_account_request_outcome_def)
  next
    case (Some result')
    with refused [of p' result' now'] show ?thesis by (auto simp: record_account_request_outcome_def)
  qed
  with 1 req show ?thesis
    by (intro exI [of _ result] bexI [OF _ 1(2)] conjI) (simp_all add: outcome_open_def)
qed

lemma distinct_hits:
  assumes "distinct (map k rows)" "sql_count p rows = int (length ids)" "\<And>r. p r \<Longrightarrow> k r \<in> set ids"
  shows "set ids = k ` {r \<in> set rows. p r}"
proof -
  have d: "distinct (map k (filter p rows))" using assms(1) by (rule distinct_map_filter)
  have sub: "set (map k (filter p rows)) \<subseteq> set ids" using assms(3) by auto
  have "card (set (map k (filter p rows))) = length (map k (filter p rows))" by (rule distinct_card [OF d])
  then have "card (set ids) \<le> card (set (map k (filter p rows)))"
    using assms(2) card_length [of ids] by (simp add: sql_count_def)
  then have "set (map k (filter p rows)) = set ids" using sub by (metis card_seteq finite_set)
  then show ?thesis by auto
qed

text \<open>
  Vectors are committed all or none, and once: a commit is accepted only when every named
  request succeeded and has no vectors yet, it stamps exactly those requests, and a commit that
  names any of them again is refused.
\<close>

theorem vectors_are_committed_once:
  assumes "record_account_vectors_committed ids now db = Inr db'" "keys_ok db" "uid \<in> set ids"
  shows "(\<exists>r \<in> set (db_requests db). ru_id r = uid \<and> ru_outcome r = Some PROVIDER_SUCCEEDED \<and> ru_vectors_at r = None \<and>
        r\<lparr>ru_vectors_at := Some now\<rparr> \<in> set (db_requests db')) \<and>
     (\<forall>k \<in> set (db_requests db). ru_id k \<notin> set ids \<longrightarrow> k \<in> set (db_requests db')) \<and>
     (\<forall>ids' now'. uid \<in> set ids' \<longrightarrow>
        record_account_vectors_committed ids' now' db' =
          Inl (ValueError ''successful embedding admissions are incomplete''))"
proof -
  let ?f = "\<lambda>r. r\<lparr>ru_vectors_at := Some now\<rparr>"
  have count: "sql_count (vectors_open ids) (db_requests db) = int (length ids)"
    and req: "db_requests db' = sql_update (vectors_open ids) ?f (db_requests db)"
    using assms(1,3) by (auto simp: record_account_vectors_committed_def split: if_splits)
  have dist: "distinct (map ru_id (db_requests db))" using assms(2) by (simp add: keys_ok_def)
  have hits: "set ids = ru_id ` {r \<in> set (db_requests db). vectors_open ids r}"
    by (rule distinct_hits [OF dist count]) (simp add: vectors_open_def)
  with assms(3) obtain r where r: "r \<in> set (db_requests db)" "vectors_open ids r" "ru_id r = uid" by auto
  have stamped: "?f r \<in> set (db_requests db')"
    unfolding req by (rule sql_update_memI(1) [where p = "vectors_open ids", OF r(1,2)])
  have others: "k \<in> set (db_requests db')" if "k \<in> set (db_requests db)" "ru_id k \<notin> set ids" for k
    unfolding req by (rule sql_update_memI(2) [OF that(1)]) (use that(2) in \<open>simp add: vectors_open_def\<close>)
  have dist': "distinct (map ru_id (db_requests db'))"
    unfolding req using dist by (simp add: map_sql_update)
  have again: "record_account_vectors_committed ids' now' db' =
      Inl (ValueError ''successful embedding admissions are incomplete'')" if u: "uid \<in> set ids'" for ids' now'
  proof -
    have "sql_count (vectors_open ids') (db_requests db') \<noteq> int (length ids')"
    proof
      assume "sql_count (vectors_open ids') (db_requests db') = int (length ids')"
      then have "set ids' = ru_id ` {k \<in> set (db_requests db'). vectors_open ids' k}"
        by (rule distinct_hits [OF dist']) (simp add: vectors_open_def)
      with u obtain k where k: "k \<in> set (db_requests db')" "vectors_open ids' k" "ru_id k = uid" by auto
      with stamped r(3) dist' have "k = ?f r" by (auto simp: distinct_map inj_on_def)
      with k(2) show False by (simp add: vectors_open_def)
    qed
    with u show ?thesis by (auto simp: record_account_vectors_committed_def)
  qed
  show ?thesis using r stamped others again by (auto simp: vectors_open_def)
qed

lemma sql_count_Cons: "sql_count p (r # rows) = (if p r then 1 else 0) + sql_count p rows"
  by (simp add: sql_count_def)

lemma sql_count_mono: "(\<And>r. p r \<Longrightarrow> q r) \<Longrightarrow> sql_count p rows \<le> sql_count q rows"
  by (induction rows) (auto simp: sql_count_Cons sql_count_def)

lemma sum_sql_count:
  assumes "distinct ks" "\<And>r. key r \<in> set ks"
  shows "(\<Sum>k\<leftarrow>ks. sql_count (\<lambda>r. P r \<and> key r = k) rows) = sql_count P rows"
proof (induction rows)
  case (Cons r rows)
  have "(\<Sum>k\<leftarrow>ks. if P r \<and> key r = k then 1 else 0) = (if P r then 1 else (0 :: int))"
    using assms by (simp add: sum_list_distinct_conv_sum_set)
  with Cons show ?case by (simp add: sql_count_Cons sum_list_addf)
qed (simp add: sql_count_def)

definition STATES :: "job_state list" where
  "STATES = [QUEUED, LEASED, BACKING_OFF, COMPLETED, DEAD_LETTER]"

text \<open>
  The counts partition the visible queue: the totals of the five states and of the obsolete
  jobs add up to the number of counted jobs, and so do the counters of every task, lane and state.
\<close>

theorem counts_partition_the_queue:
  "(\<Sum>s\<leftarrow>STATES. ct_state (scheduler_counts jobs) s) + ct_obsolete (scheduler_counts jobs) = sql_count counted jobs \<and>
   (\<Sum>t\<leftarrow>TASKS. \<Sum>l\<leftarrow>WORK_LANES. \<Sum>s\<leftarrow>STATES. ct_lane (scheduler_counts jobs) t l s) = sql_count counted jobs"
proof
  let ?c = "\<lambda>s. sql_count (\<lambda>j. counted j \<and> j_state j = s) jobs"
  have "ct_obsolete (scheduler_counts jobs) \<le> ?c DEAD_LETTER"
    by (auto simp: scheduler_counts_def Let_def intro: sql_count_mono)
  moreover have "(\<Sum>s\<leftarrow>STATES. ?c s) = sql_count counted jobs"
  proof (induction jobs)
    case (Cons j jobs)
    then show ?case by (cases "j_state j") (simp_all add: STATES_def sql_count_Cons)
  qed (simp add: STATES_def sql_count_def)
  ultimately show "(\<Sum>s\<leftarrow>STATES. ct_state (scheduler_counts jobs) s) + ct_obsolete (scheduler_counts jobs)
      = sql_count counted jobs"
    by (simp add: scheduler_counts_def Let_def STATES_def)
  have states: "(\<Sum>s\<leftarrow>STATES. sql_count (\<lambda>j. P j \<and> j_state j = s) jobs) = sql_count P jobs" for P
    by (rule sum_sql_count) (auto simp: STATES_def intro: job_state.exhaust)
  have lanes: "(\<Sum>l\<leftarrow>WORK_LANES. sql_count (\<lambda>j. P j \<and> j_lane j = l) jobs) = sql_count P jobs" for P
    by (rule sum_sql_count) (auto simp: WORK_LANES_def intro: work_lane.exhaust)
  have tasks: "(\<Sum>t\<leftarrow>TASKS. sql_count (\<lambda>j. P j \<and> j_task j = t) jobs) = sql_count P jobs" for P
    by (rule sum_sql_count) (auto simp: TASKS_def intro: task_type.exhaust)
  have lane: "ct_lane (scheduler_counts jobs) t l s =
      sql_count (\<lambda>j. ((counted j \<and> j_task j = t) \<and> j_lane j = l) \<and> j_state j = s) jobs" for t l s
    by (simp add: scheduler_counts_def Let_def conj_ac)
  show "(\<Sum>t\<leftarrow>TASKS. \<Sum>l\<leftarrow>WORK_LANES. \<Sum>s\<leftarrow>STATES. ct_lane (scheduler_counts jobs) t l s) = sql_count counted jobs"
    unfolding lane states lanes tasks ..
qed

subsection \<open>Witnesses\<close>

definition sample_report :: outcome_report where
  "sample_report = \<lparr>op_outcome = ''PROVIDER_SUCCEEDED'', op_http_status = Some 200, op_retry_after = None,
     op_metadata = Some \<lparr>um_prompt = Some 120, um_candidates = Some 10, um_total = Some 130\<rparr>,
     op_model_version = Some ''gemma-1'', op_scope = None\<rparr>"

definition sample_attempted_db :: scheduler_db where
  "sample_attempted_db = empty_db\<lparr>db_requests := [sample_usage\<lparr>ru_attempted_at := Some 1\<rparr>]\<rparr>"

lemma sample_attempted_keys: "keys_ok sample_attempted_db"
  by (simp add: keys_ok_def sample_attempted_db_def empty_db_def)

lemma sample_outcome:
  "\<exists>db'. record_account_request_outcome sample_platform ''u1'' sample_report 9 sample_attempted_db = Inr db'"
proof -
  have "\<not> bucket_clash sample_platform key exact (sample_attempted_db\<lparr>db_requests := rows\<rparr>)" for key exact rows
    by (simp add: bucket_clash_def sample_attempted_db_def empty_db_def)
  then show ?thesis
    by (simp add: record_account_request_outcome_def sample_report_def outcome_transaction_def
        sample_attempted_db_def sample_usage_def empty_db_def sql_count_def outcome_open_def
        scope_cooldown_update_def calibrate_from_report_def report_metadata_def nonblank_def record_token_calibration_sample_def
        controlled_keys_def text_or_empty_def ratio_defs sample_platform_def Let_def
        record_provider_dispatch_outcome_def outcome_of_def of_name_def provider_dispatch_row_def
        store_calibration_def)
qed

theorem outcome_is_recorded_once_witness:
  "\<exists>db'. record_account_request_outcome sample_platform ''u1'' sample_report 9 sample_attempted_db = Inr db' \<and>
     (\<exists>msg. record_account_request_outcome sample_platform ''u1'' sample_report 10 db' = Inl (ValueError msg))"
  using sample_outcome outcome_is_recorded_once [OF _ sample_attempted_keys] by blast

definition sample_embedded_db :: scheduler_db where
  "sample_embedded_db = empty_db\<lparr>db_requests := [sample_usage\<lparr>ru_attempted_at := Some 1,
     ru_outcome := Some PROVIDER_SUCCEEDED\<rparr>]\<rparr>"

theorem vectors_are_committed_once_witness:
  "\<exists>db'. record_account_vectors_committed [''u1''] 9 sample_embedded_db = Inr db' \<and>
     record_account_vectors_committed [''u1''] 10 db' =
       Inl (ValueError ''successful embedding admissions are incomplete'')"
proof -
  have "keys_ok sample_embedded_db" by (simp add: keys_ok_def sample_embedded_db_def empty_db_def)
  moreover have "\<exists>db'. record_account_vectors_committed [''u1''] 9 sample_embedded_db = Inr db'"
    by (simp add: record_account_vectors_committed_def sample_embedded_db_def empty_db_def sample_usage_def
        vectors_open_def sql_count_def)
  ultimately show ?thesis using vectors_are_committed_once [of "[''u1'']" 9 sample_embedded_db _ "''u1''"] by force
qed

end
