(* ===== verification/Job_Counts.thy ===== *)
theory Job_Counts
  imports Job_Lifecycle Request_Outcome
begin

text \<open>
  What the dashboard keeps beside the job queue, \<^verbatim>\<open>xauusd_news/news/semantics/critical_state.py\<close>: the
  triggers on \<open>news_ai_jobs_v1\<close> that maintain the table of job counts, the input revision in
  \<open>runtime_metadata\<close> and the synthesis caches of the daily briefs, and the readers of these tables.
  Every statement that the queue operations send to the job table is run with its triggers; the
  counts agree with the jobs, and an unchanged revision means unchanged input.

  The model is that of a complete installation. A database without \<open>runtime_metadata\<close> or without the
  brief cache is one whose \<open>dv_revision\<close> is \<open>None\<close> or whose \<open>dv_briefs\<close> is empty.
\<close>

section \<open>The maintained tables\<close>

definition RETIRED_ERROR :: string where "RETIRED_ERROR = ''CURRENT_EVIDENCE_NO_LONGER_ELIGIBLE''"

definition RETIRED_ERRORS :: "string list" where "RETIRED_ERRORS = [RETIRED_ERROR, ''PROVIDER_PROHIBITED_CONTENT'']"

definition retired :: "job \<Rightarrow> bool" where
  "retired j \<longleftrightarrow> (case j_last_error j of None \<Rightarrow> False | Some e \<Rightarrow> e \<in> set RETIRED_ERRORS)"

text \<open>The primary key of \<open>dashboard_annotation_job_counts_v1\<close>.\<close>

record count_key =
  ck_task :: task_type
  ck_prompt :: string
  ck_classified :: bool
  ck_resolved :: bool
  ck_version :: string
  ck_lane :: work_lane
  ck_state :: job_state
  ck_retired :: bool

definition count_key_of :: "job \<Rightarrow> count_key" where
  "count_key_of j =
     \<lparr>ck_task = j_task j, ck_prompt = j_prompt j, ck_classified = j_lane_classified j,
      ck_resolved = j_provenance_resolved j, ck_version = text_or_empty (j_provenance_version j),
      ck_lane = j_lane j, ck_state = j_state j, ck_retired = retired j\<rparr>"

record count_row =
  jc_key :: count_key
  jc_count :: int

record brief_cache =
  bc_date :: string
  bc_sources :: "string option"

record derived =
  dv_counts :: "count_row list"
  dv_revision :: "string option"
  dv_briefs :: "brief_cache list"

section \<open>Triggers\<close>

definition count_in :: "count_key \<Rightarrow> count_row list \<Rightarrow> count_row list" where
  "count_in k rows = sql_upsert jc_key (\<lambda>r. r\<lparr>jc_count := jc_count r + 1\<rparr>) \<lparr>jc_key = k, jc_count = 1\<rparr> rows"

text \<open>\<open>CHECK(job_count >= 0)\<close> aborts the statement.\<close>

definition count_out :: "count_key \<Rightarrow> count_row list \<Rightarrow> count_row list outcome" where
  "count_out k rows =
     (if list_ex (\<lambda>r. jc_key r = k \<and> jc_count r - 1 < 0) rows then Inl (IntegrityError ''CHECK constraint failed'')
      else Inr (sql_update (\<lambda>r. jc_key r = k) (\<lambda>r. r\<lparr>jc_count := jc_count r - 1\<rparr>) rows))"

definition decimal_digit :: "char \<Rightarrow> bool" where
  "decimal_digit c \<longleftrightarrow> CHR ''0'' \<le> c \<and> c \<le> CHR ''9''"

definition digits_value :: "string \<Rightarrow> int" where
  "digits_value s = foldl (\<lambda>n c. 10 * n + (int (of_char c) - 48)) 0 s"

definition MAX_INTEGER :: int where "MAX_INTEGER = 9223372036854775807"

text \<open>\<open>CAST(value AS INTEGER)\<close> of a text of digits saturates at the largest 64-bit integer.\<close>

definition cast_integer :: "string \<Rightarrow> int" where
  "cast_integer s = min MAX_INTEGER (digits_value s)"

definition canonical_counter :: "string \<Rightarrow> bool" where
  "canonical_counter v \<longleftrightarrow> v \<noteq> [] \<and> list_all decimal_digit v \<and> length v \<le> 19 \<and> str_int (cast_integer v) = v"

text \<open>The sum overflows to a real number, whose text is not a canonical counter.\<close>

definition bump_revision :: "string \<Rightarrow> string" where
  "bump_revision v =
     (if canonical_counter v
      then (if cast_integer v = MAX_INTEGER then ''9.22337203685478e+18'' else str_int (cast_integer v + 1))
      else ''INVALID'')"

definition bump :: "derived \<Rightarrow> derived" where
  "bump d = d\<lparr>dv_revision := map_option bump_revision (dv_revision d)\<rparr>"

text \<open>The receipt day of a revision, the subquery on \<open>news_revisions\<close>, is an argument.\<close>

type_synonym receipt_day = "string \<times> string \<times> int \<Rightarrow> string option"

definition revision_of :: "job \<Rightarrow> string \<times> string \<times> int" where
  "revision_of j = (j_source j, j_item j, j_revision j)"

definition dead_annotation :: "job \<Rightarrow> bool" where
  "dead_annotation j \<longleftrightarrow> j_task j = ACTIVE_ANNOTATION \<and> j_state j = DEAD_LETTER"

definition invalidate_brief :: "receipt_day \<Rightarrow> job \<Rightarrow> bool \<Rightarrow> derived \<Rightarrow> derived" where
  "invalidate_brief day j condition d =
     d\<lparr>dv_briefs := sql_update (\<lambda>b. bc_sources b \<noteq> None \<and> condition \<and> day (revision_of j) = Some (bc_date b))
                     (\<lambda>b. b\<lparr>bc_sources := None\<rparr>) (dv_briefs d)\<rparr>"

text \<open>The columns whose change is a new input revision.\<close>

definition tracked :: "job \<Rightarrow> task_type \<times> string \<times> string \<times> int \<times> string \<times> string \<times> job_state \<times> string option" where
  "tracked j = (j_task j, j_source j, j_item j, j_revision j, j_annotation j, j_prompt j, j_state j, j_last_error j)"

datatype job_change = Inserted job | Updated job job | Deleted job

fun fire :: "receipt_day \<Rightarrow> job_change \<Rightarrow> derived \<Rightarrow> derived outcome" where
  "fire day (Inserted j) d =
     Inr (invalidate_brief day j (dead_annotation j) (bump (d\<lparr>dv_counts := count_in (count_key_of j) (dv_counts d)\<rparr>)))"
| "fire day (Updated old new) d =
     bind_out (count_out (count_key_of old) (dv_counts d)) (\<lambda>rows.
       (let changed = tracked old \<noteq> tracked new;
            d1 = d\<lparr>dv_counts := count_in (count_key_of new) rows\<rparr>;
            d2 = (if changed then bump d1 else d1)
        in Inr (invalidate_brief day new (changed \<and> dead_annotation new)
             (invalidate_brief day old (changed \<and> dead_annotation old) d2))))"
| "fire day (Deleted j) d =
     bind_out (count_out (count_key_of j) (dv_counts d)) (\<lambda>rows.
       Inr (invalidate_brief day j (dead_annotation j) (bump (d\<lparr>dv_counts := rows\<rparr>))))"

section \<open>Statements of the queue and the rows they change\<close>

text \<open>
  The statements that the operations of the queue send to \<open>news_ai_jobs_v1\<close>. The update trigger
  names the columns it watches; the statement that moves only \<open>available_at\<close> does not fire it.
\<close>

datatype job_statement =
    InsertJob job
  | UpdateJobs "job \<Rightarrow> bool" "job \<Rightarrow> job"
  | RescheduleJobs "job \<Rightarrow> bool" instant instant
  | DeleteJobs "job \<Rightarrow> bool"

fun apply_statement :: "job_statement \<Rightarrow> job list \<Rightarrow> job list" where
  "apply_statement (InsertJob new) jobs = insert_job new jobs"
| "apply_statement (UpdateJobs p f) jobs = sql_update p f jobs"
| "apply_statement (RescheduleJobs p effective now) jobs = sql_update p (rescheduled_row effective now) jobs"
| "apply_statement (DeleteJobs p) jobs = sql_delete p jobs"

fun statement_changes :: "job_statement \<Rightarrow> job list \<Rightarrow> job_change list" where
  "statement_changes (InsertJob new) jobs =
     (if list_ex (\<lambda>j. j_id j = j_id new \<or> job_identity j = job_identity new) jobs then [] else [Inserted new])"
| "statement_changes (UpdateJobs p f) jobs = map (\<lambda>j. Updated j (f j)) (filter p jobs)"
| "statement_changes (RescheduleJobs p effective now) jobs = []"
| "statement_changes (DeleteJobs p) jobs = map Deleted (filter p jobs)"

definition run_statement :: "receipt_day \<Rightarrow> job_statement \<Rightarrow> job list \<times> derived \<Rightarrow> (job list \<times> derived) outcome" where
  "run_statement day st s =
     bind_out (fold_out (fire day) (statement_changes st (fst s)) (snd s))
       (\<lambda>d. Inr (apply_statement st (fst s), d))"

definition run_statements ::
    "receipt_day \<Rightarrow> job_statement list \<Rightarrow> job list \<times> derived \<Rightarrow> (job list \<times> derived) outcome" where
  "run_statements day sts s = fold_out (run_statement day) sts s"

section \<open>Installation and readers\<close>

text \<open>\<open>INSERT ... SELECT ... GROUP BY\<close>: the table of a database that had none.\<close>

definition rebuild_counts :: "job list \<Rightarrow> count_row list" where
  "rebuild_counts jobs =
     map (\<lambda>k. \<lparr>jc_key = k, jc_count = sql_count (\<lambda>j. count_key_of j = k) jobs\<rparr>) (dedupe (map count_key_of jobs))"

text \<open>
  \<open>int(row[0])\<close> followed by \<open>str(value) == row[0]\<close> accepts exactly the decimal text of the number.
  Whether the installed trigger text is the current one is an argument.
\<close>

definition news_job_input_revision :: "bool \<Rightarrow> string option \<Rightarrow> int option" where
  "news_job_input_revision hooks_current value =
     (case value of
        None \<Rightarrow> None
      | Some v \<Rightarrow>
          if v \<noteq> [] \<and> list_all decimal_digit v \<and> length v \<le> 19 \<and> str_int (digits_value v) = v \<and>
             digits_value v < 2 ^ 63 \<and> hooks_current
          then Some (digits_value v) else None)"

record annotation_queue =
  an_queued :: int
  an_backing_off :: int
  an_dead_letter :: int
  an_backfill_queued :: int
  an_unclassified :: int

definition annotation_rows :: "string \<Rightarrow> (count_key \<Rightarrow> bool) \<Rightarrow> count_row list \<Rightarrow> int" where
  "annotation_rows prompt p rows =
     sql_sum jc_count (\<lambda>r. ck_task (jc_key r) = ACTIVE_ANNOTATION \<and> ck_prompt (jc_key r) = prompt \<and> p (jc_key r)) rows"

definition live_in :: "job_state \<Rightarrow> count_key \<Rightarrow> bool" where
  "live_in s k \<longleftrightarrow> ck_classified k \<and> ck_lane k = LIVE \<and> ck_state k = s \<and> \<not> ck_retired k"

definition backfill_queued :: "count_key \<Rightarrow> bool" where
  "backfill_queued k \<longleftrightarrow> ck_classified k \<and> ck_lane k = CONTRACT_BACKFILL \<and> ck_state k = QUEUED \<and> \<not> ck_retired k"

definition annotation_queue_snapshot :: "string \<Rightarrow> count_row list \<Rightarrow> annotation_queue" where
  "annotation_queue_snapshot prompt rows =
     \<lparr>an_queued = annotation_rows prompt (live_in QUEUED) rows,
      an_backing_off = annotation_rows prompt (live_in BACKING_OFF) rows,
      an_dead_letter = annotation_rows prompt (live_in DEAD_LETTER) rows,
      an_backfill_queued = annotation_rows prompt backfill_queued rows,
      an_unclassified = annotation_rows prompt (\<lambda>k. \<not> ck_classified k) rows\<rparr>"

text \<open>The totals by task and state of \<open>scheduler_state_counts\<close>.\<close>

definition state_counted :: "count_key \<Rightarrow> bool" where
  "state_counted k \<longleftrightarrow>
     \<not> ck_retired k \<and> ck_classified k \<and> ck_lane k = LIVE \<and>
     (ck_task k = ACTIVE_ANNOTATION \<or> ck_resolved k \<and> ck_version k = WORK_PROVENANCE_VERSION)"

definition scheduler_state_counts :: "count_row list \<Rightarrow> (task_type \<times> job_state \<times> int) list" where
  "scheduler_state_counts rows =
     (let group = (\<lambda>r. (ck_task (jc_key r), ck_state (jc_key r))); kept = filter (\<lambda>r. state_counted (jc_key r)) rows
      in map (\<lambda>g. (fst g, snd g, sql_sum jc_count (\<lambda>r. group r = g) kept)) (dedupe (map group kept)))"

section \<open>The statements of each operation\<close>

definition enqueue_statements ::
    "enqueue_request \<Rightarrow> string \<Rightarrow> task_type \<Rightarrow> priority \<Rightarrow> work_lane \<Rightarrow> work_provenance \<Rightarrow> instant \<Rightarrow> job_statement list" where
  "enqueue_statements q jid task prio lane prov now =
     [InsertJob (new_job q jid task prio lane prov now),
      UpdateJobs (\<lambda>j. j_id j = jid \<and> queued_or_backing_off j)
        (\<lambda>j. j\<lparr>j_lane := lane, j_priority := prio, j_lane_classified := True, j_provenance_resolved := True,
               j_provenance_version := Some WORK_PROVENANCE_VERSION, j_origin_task := Some (wp_origin_task prov),
               j_origin_ref := Some (wp_origin_ref prov)\<rparr>)] @
     (if eq_reopen_completed q
      then [UpdateJobs (\<lambda>j. j_id j = jid \<and> j_state j = COMPLETED)
              (\<lambda>j. j\<lparr>j_state := QUEUED, j_available_at := now, j_lease_owner := None, j_lease_expires_at := None,
                     j_last_error := None, j_updated_at := now, j_completed_at := None\<rparr>)]
      else [])"

definition requeue_statement :: "instant \<Rightarrow> job_statement" where
  "requeue_statement now =
     UpdateJobs (\<lambda>j. j_state j = LEASED \<and> (case j_lease_expires_at j of None \<Rightarrow> False | Some e \<Rightarrow> e \<le> now))
       (\<lambda>j. j\<lparr>j_state := QUEUED, j_lease_owner := None, j_lease_expires_at := None, j_updated_at := now\<rparr>)"

definition lease_statement :: "string \<Rightarrow> string \<Rightarrow> instant \<Rightarrow> instant \<Rightarrow> job_statement" where
  "lease_statement jid worker expires now =
     UpdateJobs (\<lambda>j. j_id j = jid \<and> queued_or_backing_off j)
       (\<lambda>j. j\<lparr>j_state := LEASED, j_lease_owner := Some worker, j_lease_expires_at := Some expires,
              j_attempt_count := j_attempt_count j + 1, j_updated_at := now\<rparr>)"

definition transition_statement ::
    "string \<Rightarrow> string \<Rightarrow> job_state \<Rightarrow> instant \<Rightarrow> string option \<Rightarrow> instant option \<Rightarrow> instant \<Rightarrow> job_statement" where
  "transition_statement jid worker st available err completed clock =
     UpdateJobs (owns_lease jid worker)
       (\<lambda>j. j\<lparr>j_state := st, j_available_at := available, j_lease_owner := None, j_lease_expires_at := None,
              j_last_error := err, j_updated_at := clock, j_completed_at := completed\<rparr>)"

definition defer_statement :: "string \<Rightarrow> string \<Rightarrow> instant \<Rightarrow> string \<Rightarrow> instant \<Rightarrow> job_statement" where
  "defer_statement jid worker available reason clock =
     UpdateJobs (\<lambda>j. owns_lease jid worker j \<and> 0 < j_attempt_count j)
       (\<lambda>j. j\<lparr>j_state := QUEUED, j_available_at := available, j_lease_owner := None, j_lease_expires_at := None,
              j_last_error := Some reason, j_updated_at := clock, j_attempt_count := j_attempt_count j - 1\<rparr>)"

inductive action_statements :: "platform \<Rightarrow> scheduler_db \<Rightarrow> queue_action \<Rightarrow> job_statement list \<Rightarrow> bool"
  for P :: platform and db :: scheduler_db where
  enqueue_writes: "task_of (eq_task q) = Some task \<Longrightarrow> priority_of (eq_priority q) = Some prio \<Longrightarrow>
    lane_of (eq_lane q) = Some lane \<Longrightarrow> wp_lane prov = lane \<Longrightarrow>
    jid = job_hash P (eq_task q) (eq_source q) (eq_item q) (eq_revision q) (eq_annotation q) (eq_prompt q) \<Longrightarrow>
    action_statements P db (Enqueue q now) (enqueue_statements q jid task prio lane prov now)"
| excluded_claim_writes: "claim_query_of a now = Inr None \<Longrightarrow> action_statements P db (Claim a now) []"
| idle_claim_writes: "claim_query_of a now = Inr (Some q) \<Longrightarrow>
    select_claim q (db_overrides db) (requeue_expired now (db_jobs db)) = None \<Longrightarrow>
    action_statements P db (Claim a now) [requeue_statement now]"
| claim_writes: "claim_query_of a now = Inr (Some q) \<Longrightarrow>
    select_claim q (db_overrides db) (requeue_expired now (db_jobs db)) = Some row \<Longrightarrow>
    action_statements P db (Claim a now)
      [requeue_statement now, lease_statement (j_id row) (cl_worker a) (now + seconds (max 30 (cl_lease_seconds a))) now]"
| complete_writes: "action_statements P db (Complete jid w now clock)
    [transition_statement jid w COMPLETED now None (Some now) clock]"
| release_writes: "action_statements P db (Release jid w av err clock) [transition_statement jid w QUEUED av err None clock]"
| backoff_writes: "action_statements P db (Backoff jid w av err dead clock)
    [transition_statement jid w (if dead then DEAD_LETTER else BACKING_OFF) av (Some err)
       (if dead then Some av else None) clock]"
| defer_writes: "action_statements P db (Defer jid w av reason clock) [defer_statement jid w av reason clock]"
| attempt_writes: "action_statements P db (RecordAttempt sj cr st t) []"
| deferral_writes: "action_statements P db (RecordDeferral sj cr st t) []"
| kept_override_writes: "action_statements P db (Override q now uuid) []"
| override_writes: "check_override_request q now = Inr mode \<Longrightarrow>
    effective_time mode original now (oq_requested_available_at q) = Some effective \<Longrightarrow>
    action_statements P db (Override q now uuid) [RescheduleJobs (still_expected P q) effective now]"

text \<open>A history of the queue together with what the triggers of its statements leave.\<close>

inductive counted_history ::
    "platform \<Rightarrow> receipt_day \<Rightarrow> scheduler_db \<Rightarrow> derived \<Rightarrow> scheduler_db \<Rightarrow> derived \<Rightarrow> bool"
  for P :: platform and day :: receipt_day and db0 :: scheduler_db and d0 :: derived where
  counted_start: "counted_history P day db0 d0 db0 d0"
| counted_step: "counted_history P day db0 d0 db d \<Longrightarrow> queue_step P db a db' \<Longrightarrow> action_statements P db a sts \<Longrightarrow>
    run_statements day sts (db_jobs db, d) = Inr (db_jobs db', d') \<Longrightarrow> counted_history P day db0 d0 db' d'"

section \<open>The counts agree with the jobs\<close>

abbreviation tally :: "count_key \<Rightarrow> count_row list \<Rightarrow> int" where
  "tally k rows \<equiv> sql_sum jc_count (\<lambda>r. jc_key r = k) rows"

abbreviation keyed :: "count_key \<Rightarrow> job list \<Rightarrow> int" where
  "keyed k jobs \<equiv> sql_count (\<lambda>j. count_key_of j = k) jobs"

definition tallies :: "(count_key \<Rightarrow> int) \<Rightarrow> count_row list \<Rightarrow> bool" where
  "tallies c rows \<longleftrightarrow> distinct (map jc_key rows) \<and> (\<forall>r \<in> set rows. 0 \<le> jc_count r) \<and> (\<forall>k. tally k rows = c k)"

definition counts_agree :: "job list \<Rightarrow> count_row list \<Rightarrow> bool" where
  "counts_agree jobs rows \<longleftrightarrow> tallies (\<lambda>k. keyed k jobs) rows"

lemma tally_absent: "k \<notin> jc_key ` set rows \<Longrightarrow> tally k rows = 0"
  by (induction rows) auto

lemma tally_row:
  assumes "distinct (map jc_key rows)" "r \<in> set rows"
  shows "tally (jc_key r) rows = jc_count r"
  using assms by (induction rows) (auto simp: tally_absent)

lemma tally_update:
  assumes "distinct (map jc_key rows)"
  shows "tally k' (sql_update (\<lambda>r. jc_key r = k) (\<lambda>r. r\<lparr>jc_count := g (jc_count r)\<rparr>) rows) =
    (if k' = k \<and> k \<in> jc_key ` set rows then g (tally k rows) else tally k' rows)"
  using assms
proof (induction rows)
  case (Cons r rows)
  have new: "jc_key r \<notin> jc_key ` set rows" using Cons.prems by simp
  have "sql_update (\<lambda>r. jc_key r = k) (\<lambda>r. r\<lparr>jc_count := g (jc_count r)\<rparr>) rows = rows" if "jc_key r = k"
    by (rule sql_update_id) (use that new in \<open>metis imageI\<close>)
  moreover have "tally (jc_key r) rows = 0" by (rule tally_absent [OF new])
  ultimately show ?case using Cons by (cases "jc_key r = k") (auto simp: sql_update_def)
qed (simp add: sql_update_def)

lemma distinct_count_update:
  "map jc_key (sql_update p (\<lambda>r. r\<lparr>jc_count := g r\<rparr>) rows) = map jc_key rows"
  by (rule map_sql_update) simp

lemma tallies_cong: "tallies c rows \<Longrightarrow> (\<And>k. c k = c' k) \<Longrightarrow> tallies c' rows"
  by (simp add: tallies_def)

lemma tallies_in:
  assumes "tallies c rows"
  shows "tallies (c(k := c k + 1)) (count_in k rows)"
proof -
  let ?f = "\<lambda>r. r\<lparr>jc_count := jc_count r + 1\<rparr>"
  have d: "distinct (map jc_key rows)" and n: "\<forall>r \<in> set rows. 0 \<le> jc_count r" and t: "tally k' rows = c k'" for k'
    using assms by (simp_all add: tallies_def)
  show ?thesis
  proof (cases "k \<in> jc_key ` set rows")
    case True
    then have i: "count_in k rows = sql_update (\<lambda>r. jc_key r = k) ?f rows" by (simp add: count_in_def sql_upsert_def)
    have "\<forall>r \<in> set (count_in k rows). 0 \<le> jc_count r" unfolding i using n by (auto elim!: sql_updateE)
    with d t True show ?thesis
      by (simp add: tallies_def i tally_update [OF d, of _ k "\<lambda>n. n + 1"] distinct_count_update)
  next
    case False
    then have i: "count_in k rows = rows @ [\<lparr>jc_key = k, jc_count = 1\<rparr>]" by (simp add: count_in_def sql_upsert_def)
    have "c k = 0" using t [of k] tally_absent [OF False] by simp
    with d n t False show ?thesis by (auto simp: tallies_def i sql_sum_def)
  qed
qed

lemma tallies_out:
  assumes "tallies c rows" "0 < c k"
  obtains rows' where "count_out k rows = Inr rows'" "tallies (c(k := c k - 1)) rows'"
proof -
  have d: "distinct (map jc_key rows)" and n: "\<forall>r \<in> set rows. 0 \<le> jc_count r" and t: "tally k' rows = c k'" for k'
    using assms(1) by (simp_all add: tallies_def)
  have big: "1 \<le> jc_count r" if "r \<in> set rows" "jc_key r = k" for r
    using tally_row [OF d that(1)] t [of k] that(2) assms(2) by simp
  have mem: "k \<in> jc_key ` set rows" using tally_absent [of k rows] t [of k] assms(2) by fastforce
  let ?rows = "sql_update (\<lambda>r. jc_key r = k) (\<lambda>r. r\<lparr>jc_count := jc_count r - 1\<rparr>) rows"
  have "\<not> list_ex (\<lambda>r. jc_key r = k \<and> jc_count r - 1 < 0) rows" using big by (force simp: list_ex_iff)
  then have o: "count_out k rows = Inr ?rows" by (simp add: count_out_def)
  have "\<forall>r \<in> set ?rows. 0 \<le> jc_count r" using n big by (force elim!: sql_updateE)
  with d t mem have "tallies (c(k := c k - 1)) ?rows"
    by (simp add: tallies_def tally_update [OF d, of _ k "\<lambda>n. n - 1"] distinct_count_update)
  with o that show ?thesis by blast
qed

text \<open>What one change does to the counts, the revision and the caches.\<close>

lemma frame_simps [simp]:
  "dv_counts (bump d) = dv_counts d" "dv_briefs (bump d) = dv_briefs d"
  "dv_revision (bump d) = map_option bump_revision (dv_revision d)"
  "dv_counts (invalidate_brief day j c d) = dv_counts d" "dv_revision (invalidate_brief day j c d) = dv_revision d"
  by (simp_all add: bump_def invalidate_brief_def)

lemma fire_inserted:
  assumes "tallies c (dv_counts d)"
  obtains d' where "fire day (Inserted j) d = Inr d'" "tallies (c(count_key_of j := c (count_key_of j) + 1)) (dv_counts d')"
  using tallies_in [OF assms] by simp

lemma fire_deleted:
  assumes "tallies c (dv_counts d)" "0 < c (count_key_of j)"
  obtains d' where "fire day (Deleted j) d = Inr d'" "tallies (c(count_key_of j := c (count_key_of j) - 1)) (dv_counts d')"
  by (rule tallies_out [OF assms]) (simp add: bind_out_def that)

lemma fire_updated:
  assumes "tallies c (dv_counts d)" "0 < c (count_key_of old)"
  obtains d' where "fire day (Updated old new) d = Inr d'"
    "tallies (\<lambda>k. c k - (if k = count_key_of old then 1 else 0) + (if k = count_key_of new then 1 else 0)) (dv_counts d')"
proof -
  obtain rows where o: "count_out (count_key_of old) (dv_counts d) = Inr rows"
    and t: "tallies (c(count_key_of old := c (count_key_of old) - 1)) rows"
    by (rule tallies_out [OF assms])
  let ?c = "c(count_key_of old := c (count_key_of old) - 1)"
  have "?c(count_key_of new := ?c (count_key_of new) + 1) =
      (\<lambda>k. c k - (if k = count_key_of old then 1 else 0) + (if k = count_key_of new then 1 else 0))"
    by (auto simp: fun_eq_iff)
  with tallies_in [OF t, of "count_key_of new"] show ?thesis
    by (intro that) (auto simp: o bind_out_def Let_def)
qed

text \<open>All the changes of one statement: the rows already rewritten come first.\<close>

lemma sql_count_append: "sql_count p (xs @ ys) = sql_count p xs + sql_count p ys"
  by (simp add: sql_count_def)

lemma keyed_pos: "j \<in> set jobs \<Longrightarrow> 0 < keyed (count_key_of j) jobs"
  by (auto simp: sql_count_pos_iff)

lemma counts_step:
  assumes "tallies (\<lambda>k. keyed k jobs) (dv_counts d)"
    "fire day ch d = Inr d'" "case ch of Inserted j \<Rightarrow> True | Updated old new \<Rightarrow> old \<in> set jobs | Deleted j \<Rightarrow> j \<in> set jobs"
  shows "tallies (\<lambda>k. keyed k jobs +
    (case ch of Inserted j \<Rightarrow> (if k = count_key_of j then 1 else 0)
     | Updated old new \<Rightarrow> (if k = count_key_of new then 1 else 0) - (if k = count_key_of old then 1 else 0)
     | Deleted j \<Rightarrow> - (if k = count_key_of j then 1 else 0))) (dv_counts d')"
proof (cases ch)
  case (Inserted j)
  have "tallies ((\<lambda>k. keyed k jobs)(count_key_of j := keyed (count_key_of j) jobs + 1)) (dv_counts d')"
    by (rule fire_inserted [OF assms(1), of day j]) (use assms(2) Inserted in simp)
  moreover have "(\<lambda>k. keyed k jobs)(count_key_of j := keyed (count_key_of j) jobs + 1) =
      (\<lambda>k. keyed k jobs + (if k = count_key_of j then 1 else 0))" by (simp add: fun_eq_iff)
  ultimately show ?thesis using Inserted by simp
next
  case (Updated old new)
  with assms(3) have "0 < keyed (count_key_of old) jobs" by (simp add: keyed_pos)
  from assms(1) this obtain d2 where "fire day (Updated old new) d = Inr d2"
    "tallies (\<lambda>k. keyed k jobs - (if k = count_key_of old then 1 else 0) + (if k = count_key_of new then 1 else 0)) (dv_counts d2)"
    by (rule fire_updated)
  moreover from this(1) have "d2 = d'" using assms(2) Updated by simp
  ultimately show ?thesis using Updated by (simp add: algebra_simps)
next
  case (Deleted j)
  with assms(3) have "0 < keyed (count_key_of j) jobs" by (simp add: keyed_pos)
  from assms(1) this obtain d2 where "fire day (Deleted j) d = Inr d2"
    "tallies ((\<lambda>k. keyed k jobs)(count_key_of j := keyed (count_key_of j) jobs - 1)) (dv_counts d2)"
    by (rule fire_deleted)
  moreover from this(1) have "d2 = d'" using assms(2) Deleted by simp
  moreover have "(\<lambda>k. keyed k jobs)(count_key_of j := keyed (count_key_of j) jobs - 1) =
      (\<lambda>k. keyed k jobs + - (if k = count_key_of j then 1 else 0))" by (simp add: fun_eq_iff)
  ultimately show ?thesis using Deleted by simp
qed

lemma fire_succeeds:
  assumes "tallies (\<lambda>k. keyed k jobs) (dv_counts d)"
    "case ch of Inserted j \<Rightarrow> True | Updated old new \<Rightarrow> old \<in> set jobs | Deleted j \<Rightarrow> j \<in> set jobs"
  shows "\<exists>d'. fire day ch d = Inr d'"
proof (cases ch)
  case (Updated old new)
  with assms(2) have "0 < keyed (count_key_of old) jobs" by (simp add: keyed_pos)
  from assms(1) this obtain d' where "fire day (Updated old new) d = Inr d'" by (rule fire_updated)
  then show ?thesis unfolding Updated ..
next
  case (Deleted j)
  with assms(2) have "0 < keyed (count_key_of j) jobs" by (simp add: keyed_pos)
  from assms(1) this obtain d' where "fire day (Deleted j) d = Inr d'" by (rule fire_deleted)
  then show ?thesis unfolding Deleted ..
qed simp

lemma fire_updates:
  assumes "tallies (\<lambda>k. keyed k (front @ jobs)) (dv_counts d)"
  shows "\<exists>d'. fold_out (fire day) (map (\<lambda>j. Updated j (f j)) (filter p jobs)) d = Inr d' \<and>
    tallies (\<lambda>k. keyed k (front @ sql_update p f jobs)) (dv_counts d')"
  using assms
proof (induction jobs arbitrary: front d)
  case (Cons j jobs)
  show ?case
  proof (cases "p j")
    case True
    obtain d1 where d1: "fire day (Updated j (f j)) d = Inr d1"
      using fire_succeeds [OF Cons.prems, of "Updated j (f j)" day] by auto
    have "tallies (\<lambda>k. keyed k ((front @ [f j]) @ jobs)) (dv_counts d1)"
      by (rule tallies_cong [OF counts_step [OF Cons.prems d1]]) (auto simp: sql_count_append sql_count_Cons)
    from Cons.IH [OF this] d1 True show ?thesis by (auto simp: sql_update_def bind_out_def)
  next
    case False
    have "tallies (\<lambda>k. keyed k ((front @ [j]) @ jobs)) (dv_counts d)" using Cons.prems by simp
    from Cons.IH [OF this] False show ?thesis by (auto simp: sql_update_def)
  qed
qed (simp add: sql_update_def)

lemma fire_deletes:
  assumes "tallies (\<lambda>k. keyed k (front @ jobs)) (dv_counts d)"
  shows "\<exists>d'. fold_out (fire day) (map Deleted (filter p jobs)) d = Inr d' \<and>
    tallies (\<lambda>k. keyed k (front @ sql_delete p jobs)) (dv_counts d')"
  using assms
proof (induction jobs arbitrary: front d)
  case (Cons j jobs)
  show ?case
  proof (cases "p j")
    case True
    obtain d1 where d1: "fire day (Deleted j) d = Inr d1"
      using fire_succeeds [OF Cons.prems, of "Deleted j" day] by auto
    have "tallies (\<lambda>k. keyed k (front @ jobs)) (dv_counts d1)"
      by (rule tallies_cong [OF counts_step [OF Cons.prems d1]]) (auto simp: sql_count_append sql_count_Cons)
    from Cons.IH [OF this] d1 True show ?thesis by (auto simp: sql_delete_def bind_out_def)
  next
    case False
    have "tallies (\<lambda>k. keyed k ((front @ [j]) @ jobs)) (dv_counts d)" using Cons.prems by simp
    from Cons.IH [OF this] False show ?thesis by (auto simp: sql_delete_def)
  qed
qed (simp add: sql_delete_def)

lemma count_key_rescheduled [simp]: "count_key_of (rescheduled_row effective now j) = count_key_of j"
  by (simp add: count_key_of_def rescheduled_row_def retired_def)

lemma keyed_rescheduled: "keyed k (sql_update p (rescheduled_row effective now) jobs) = keyed k jobs"
  by (induction jobs) (simp_all add: sql_update_def sql_count_Cons)

text \<open>A statement with its triggers is the statement, and the counts follow it.\<close>

lemma statement_counts:
  assumes "counts_agree jobs (dv_counts d)"
  shows "\<exists>d'. run_statement day st (jobs, d) = Inr (apply_statement st jobs, d') \<and>
    counts_agree (apply_statement st jobs) (dv_counts d')"
proof (cases st)
  case (InsertJob new)
  show ?thesis
  proof (cases "list_ex (\<lambda>j. j_id j = j_id new \<or> job_identity j = job_identity new) jobs")
    case True
    then show ?thesis using assms InsertJob by (simp add: run_statement_def insert_job_def sql_insert_ignore_def bind_out_def)
  next
    case False
    from assms have t: "tallies (\<lambda>k. keyed k jobs) (dv_counts d)" by (simp add: counts_agree_def)
    obtain d1 where d1: "fire day (Inserted new) d = Inr d1" by simp
    have "counts_agree (jobs @ [new]) (dv_counts d1)"
      unfolding counts_agree_def
      by (rule tallies_cong [OF counts_step [OF t d1]]) (auto simp: sql_count_append sql_count_Cons sql_count_def)
    with False d1 InsertJob show ?thesis
      by (simp add: run_statement_def insert_job_def sql_insert_ignore_def bind_out_def)
  qed
next
  case (UpdateJobs p f)
  with fire_updates [of "[]" jobs d day f p] assms show ?thesis
    by (auto simp: run_statement_def counts_agree_def bind_out_def)
next
  case (RescheduleJobs p effective now)
  with assms show ?thesis by (simp add: run_statement_def counts_agree_def bind_out_def keyed_rescheduled)
next
  case (DeleteJobs p)
  with fire_deletes [of "[]" jobs d day p] assms show ?thesis
    by (auto simp: run_statement_def counts_agree_def bind_out_def)
qed

lemma statements_counts:
  assumes "counts_agree jobs (dv_counts d)"
  shows "\<exists>d'. run_statements day sts (jobs, d) = Inr (fold apply_statement sts jobs, d') \<and>
    counts_agree (fold apply_statement sts jobs) (dv_counts d')"
  using assms
proof (induction sts arbitrary: jobs d)
  case (Cons st sts)
  obtain d1 where d1: "run_statement day st (jobs, d) = Inr (apply_statement st jobs, d1)"
    "counts_agree (apply_statement st jobs) (dv_counts d1)"
    using statement_counts [OF Cons.prems] by blast
  from Cons.IH [OF d1(2)] d1(1) show ?case by (simp add: run_statements_def bind_out_def)
qed (simp add: run_statements_def)

section \<open>Every operation is its statements\<close>

lemma apply_statement_simps [simp]:
  "apply_statement (requeue_statement now) jobs = requeue_expired now jobs"
  "apply_statement (lease_statement jid w e now) jobs = lease_job jid w e now jobs"
  "apply_statement (transition_statement jid w st av err co clock) jobs =
     sql_update (owns_lease jid w) (moved_row st av err co clock) jobs"
  "apply_statement (defer_statement jid w av reason clock) jobs =
     sql_update (\<lambda>j. owns_lease jid w j \<and> 0 < j_attempt_count j) (deferred_row av reason clock) jobs"
  by (simp_all add: requeue_statement_def requeue_expired_def lease_statement_def lease_job_def
      transition_statement_def moved_row_def [abs_def] defer_statement_def deferred_row_def [abs_def])

lemma transition_applies:
  "transition_leased_job jid w st av err co clock db = Inr db' \<Longrightarrow>
    fold apply_statement [transition_statement jid w st av err co clock] (db_jobs db) = db_jobs db'"
  by (erule transitionE) simp

lemma claim_applies:
  assumes "claim_job a now db = Inr (r, db')" "queue_inv db"
  shows "\<exists>sts. action_statements P db (Claim a now) sts \<and> fold apply_statement sts (db_jobs db) = db_jobs db'"
  using assms(1)
proof (cases rule: claim_jobE)
  case nothing
  then show ?thesis by (intro exI [of _ "[]"]) (simp add: excluded_claim_writes)
next
  case (locked q)
  have dist: "distinct (map j_id (db_jobs db))" using assms(2) by (simp add: queue_inv_def)
  from locked(3) dist show ?thesis
  proof (cases rule: claim_lockedE)
    case none
    then show ?thesis using locked(1,2)
      by (intro exI [of _ "[requeue_statement now]"])
        (simp add: idle_claim_writes)
  next
    case (claimed row)
    let ?e = "now + seconds (max 30 (cl_lease_seconds a))"
    from claimed locked(1,2) show ?thesis
      by (intro exI [of _ "[requeue_statement now, lease_statement (j_id row) (cl_worker a) ?e now]"])
        (simp add: claim_writes)
  qed
qed

lemma override_applies:
  assumes "apply_retry_schedule_override P q now uuid db = Inr (s, db')"
  shows "\<exists>sts. action_statements P db (Override q now uuid) sts \<and> fold apply_statement sts (db_jobs db) = db_jobs db'"
  using assms
proof (cases rule: applyE)
  case (replay mode r j)
  then show ?thesis by (intro exI [of _ "[]"]) (simp add: kept_override_writes)
next
  case (recorded row)
  have "db_jobs db' = db_jobs db" by (subst recorded(7)) simp
  then show ?thesis by (intro exI [of _ "[]"]) (simp add: kept_override_writes)
next
  case (applied mode row original effective r j)
  have "db_jobs db' = sql_update (still_expected P q) (rescheduled_row effective now) (db_jobs db)"
    by (subst applied(9)) simp
  then show ?thesis using override_writes [OF applied(1,7)]
    by (intro exI [of _ "[RescheduleJobs (still_expected P q) effective now]"]) simp
qed

lemma enqueue_applies:
  assumes "enqueue_job P q now db = Inr (jid, db')"
  shows "\<exists>sts. action_statements P db (Enqueue q now) sts \<and> fold apply_statement sts (db_jobs db) = db_jobs db'"
  using assms
proof (cases rule: enqueue_jobE)
  case (1 task prio lane prov)
  from enqueue_writes [OF 1(1-3,4,5)] 1(6) show ?thesis
    by (intro exI [of _ "enqueue_statements q jid task prio lane prov now"])
      (simp add: enqueue_statements_def reclassify_job_def reopen_job_def)
qed

lemma step_applies:
  assumes "queue_step P db a db'" "queue_inv db"
  shows "\<exists>sts. action_statements P db a sts \<and> fold apply_statement sts (db_jobs db) = db_jobs db'"
  using assms
proof (cases rule: queue_step.cases)
  case (maintain jid w av reason clock)
  then show ?thesis
    by (intro exI [of _ "[defer_statement jid w av reason clock]"]) (auto simp: defer_writes elim!: deferE)
next
  case (attempt sj cr st t)
  then show ?thesis using record_attempt_frame by (intro exI [of _ "[]"]) (auto simp: attempt_writes)
next
  case (deferral sj cr st t)
  then show ?thesis using record_deferral_frame by (intro exI [of _ "[]"]) (auto simp: deferral_writes)
qed (use assms(2) in \<open>simp_all add: enqueue_applies claim_applies override_applies\<close>,
   (fastforce simp: complete_job_def release_job_def backoff_job_def
     intro: complete_writes release_writes backoff_writes dest: transition_applies)+)

section \<open>Reading the counts\<close>

lemma sum_by_key:
  assumes "distinct (map jc_key rows)"
  shows "sql_sum jc_count (\<lambda>r. p (jc_key r)) rows = (\<Sum>k \<in> {k \<in> jc_key ` set rows. p k}. tally k rows)"
  using assms
proof (induction rows)
  case (Cons r rows)
  let ?K = "{k \<in> jc_key ` set rows. p k}"
  have new: "jc_key r \<notin> jc_key ` set rows" using Cons.prems by simp
  have same: "(\<Sum>k \<in> ?K. tally k (r # rows)) = (\<Sum>k \<in> ?K. tally k rows)"
    by (rule sum.cong) (use new in auto)
  have keys: "{k \<in> jc_key ` set (r # rows). p k} = (if p (jc_key r) then insert (jc_key r) ?K else ?K)" by auto
  have "sql_sum jc_count (\<lambda>r. p (jc_key r)) (r # rows) =
      (if p (jc_key r) then jc_count r else 0) + (\<Sum>k \<in> ?K. tally k (r # rows))"
    unfolding same using Cons by simp
  also have "\<dots> = (\<Sum>k \<in> {k \<in> jc_key ` set (r # rows). p k}. tally k (r # rows))"
    unfolding keys using new by (simp add: tally_absent)
  finally show ?case .
qed simp

lemma count_by_key:
  assumes "finite K" "\<And>j. j \<in> set jobs \<Longrightarrow> p (count_key_of j) \<Longrightarrow> count_key_of j \<in> K" "\<And>k. k \<in> K \<Longrightarrow> p k"
  shows "(\<Sum>k \<in> K. keyed k jobs) = sql_count (\<lambda>j. p (count_key_of j)) jobs"
  using assms(2)
proof (induction jobs)
  case (Cons j jobs)
  have "(\<Sum>k \<in> K. if count_key_of j = k then 1 else 0 :: int) = (if p (count_key_of j) then 1 else 0)"
    using assms(1,3) Cons.prems [of j] by (auto simp: sum.delta)
  with Cons show ?case by (simp add: sql_count_Cons sum.distrib)
qed (simp add: sql_count_def)

lemma counts_read:
  assumes "counts_agree jobs rows"
  shows "sql_sum jc_count (\<lambda>r. p (jc_key r)) rows = sql_count (\<lambda>j. p (count_key_of j)) jobs"
proof -
  let ?K = "{k \<in> jc_key ` set rows. p k}"
  have d: "distinct (map jc_key rows)" and t: "tally k rows = keyed k jobs" for k
    using assms by (simp_all add: counts_agree_def tallies_def)
  have "count_key_of j \<in> jc_key ` set rows" if "j \<in> set jobs" for j
    using tally_absent [of "count_key_of j" rows] t [of "count_key_of j"] keyed_pos [OF that] by fastforce
  then have "(\<Sum>k \<in> ?K. keyed k jobs) = sql_count (\<lambda>j. p (count_key_of j)) jobs"
    by (intro count_by_key) auto
  then show ?thesis by (simp add: sum_by_key [OF d] t)
qed

text \<open>The same numbers read off the job table.\<close>

definition annotation_jobs :: "string \<Rightarrow> (job \<Rightarrow> bool) \<Rightarrow> job list \<Rightarrow> int" where
  "annotation_jobs prompt p jobs = sql_count (\<lambda>j. j_task j = ACTIVE_ANNOTATION \<and> j_prompt j = prompt \<and> p j) jobs"

definition scanned_queue :: "string \<Rightarrow> job list \<Rightarrow> annotation_queue" where
  "scanned_queue prompt jobs =
     (let live = (\<lambda>s j. j_lane_classified j \<and> j_lane j = LIVE \<and> j_state j = s \<and> \<not> retired j)
      in \<lparr>an_queued = annotation_jobs prompt (live QUEUED) jobs,
          an_backing_off = annotation_jobs prompt (live BACKING_OFF) jobs,
          an_dead_letter = annotation_jobs prompt (live DEAD_LETTER) jobs,
          an_backfill_queued = annotation_jobs prompt
            (\<lambda>j. j_lane_classified j \<and> j_lane j = CONTRACT_BACKFILL \<and> j_state j = QUEUED \<and> \<not> retired j) jobs,
          an_unclassified = annotation_jobs prompt (\<lambda>j. \<not> j_lane_classified j) jobs\<rparr>)"

lemma annotation_read:
  assumes "counts_agree jobs rows" "\<And>j. q (count_key_of j) = p j"
  shows "annotation_rows prompt q rows = annotation_jobs prompt p jobs"
  unfolding annotation_rows_def annotation_jobs_def
    counts_read [OF assms(1), of "\<lambda>k. ck_task k = ACTIVE_ANNOTATION \<and> ck_prompt k = prompt \<and> q k"] assms(2)
  by (simp add: count_key_of_def)

lemma snapshot_scanned:
  assumes "counts_agree jobs rows"
  shows "annotation_queue_snapshot prompt rows = scanned_queue prompt jobs"
  by (simp add: annotation_queue_snapshot_def scanned_queue_def Let_def)
    (intro conjI annotation_read [OF assms]; simp add: live_in_def backfill_queued_def count_key_of_def)

lemma state_counted_job: "state_counted (count_key_of j) \<longleftrightarrow>
    \<not> retired j \<and> j_lane_classified j \<and> j_lane j = LIVE \<and> provenance_admits j"
  by (cases "j_provenance_version j")
    (auto simp: state_counted_def count_key_of_def provenance_admits_def WORK_PROVENANCE_VERSION_def text_or_empty_def)

lemma totals_scanned:
  assumes "counts_agree jobs rows" "(t, s, n) \<in> set (scheduler_state_counts rows)"
  shows "n = sql_count (\<lambda>j. \<not> retired j \<and> j_lane_classified j \<and> j_lane j = LIVE \<and> provenance_admits j \<and>
    j_task j = t \<and> j_state j = s) jobs"
proof -
  have "n = sql_sum jc_count (\<lambda>r. state_counted (jc_key r) \<and> ck_task (jc_key r) = t \<and> ck_state (jc_key r) = s) rows"
    using assms(2) by (auto simp: scheduler_state_counts_def Let_def sql_sum_def filter_filter conj_ac)
  then show ?thesis
    by (simp add: counts_read [OF assms(1), of "\<lambda>k. state_counted k \<and> ck_task k = t \<and> ck_state k = s"]
        state_counted_job) (simp add: count_key_of_def)
qed

lemma history_counts:
  assumes "counted_history P day db d db' d'" "counts_agree (db_jobs db) (dv_counts d)"
  shows "counts_agree (db_jobs db') (dv_counts d')"
  using assms
proof (induction rule: counted_history.induct)
  case (counted_step db1 d1 a db2 sts d2)
  then have "counts_agree (db_jobs db1) (dv_counts d1)" by simp
  from statements_counts [OF this, of day sts] counted_step.hyps(4) show ?case by auto
qed simp

lemma history_runs:
  assumes "queue_history P db acts db'" "queue_inv db" "counts_agree (db_jobs db) (dv_counts d)"
  shows "\<exists>d'. counted_history P day db d db' d'"
  using assms
proof (induction rule: queue_history.induct)
  case (start db)
  show ?case by (intro exI) (rule counted_start)
next
  case (then_step db acts db1 a db2)
  then obtain d1 where d1: "counted_history P day db d db1 d1" by blast
  have "queue_inv db1" using queue_history_inv then_step.hyps(1) then_step.prems(1) by blast
  with then_step.hyps(2) obtain sts where sts: "action_statements P db1 a sts"
    "fold apply_statement sts (db_jobs db1) = db_jobs db2" using step_applies by blast
  from statements_counts [OF history_counts [OF d1 then_step.prems(2)], of day sts] obtain d2 where
    "run_statements day sts (db_jobs db1, d1) = Inr (db_jobs db2, d2)" by (auto simp: sts(2))
  from counted_step [OF d1 then_step.hyps(2) sts(1) this] show ?case by blast
qed

text \<open>
  C25: the dashboard counts follow the queue: along every history of the queue the triggers never
  abort an operation, and whatever the operations were, the annotation queue and the totals by task
  and state that the dashboard reads from the maintained counts are those of the job table itself.
\<close>

theorem counts_follow_the_queue:
  assumes "queue_history P db acts db'" "queue_inv db" "counts_agree (db_jobs db) (dv_counts d)"
  shows "(\<exists>d'. counted_history P day db d db' d') \<and>
    (\<forall>d'. counted_history P day db d db' d' \<longrightarrow>
       annotation_queue_snapshot prompt (dv_counts d') = scanned_queue prompt (db_jobs db') \<and>
       list_all (\<lambda>(t, s, n). n = sql_count (\<lambda>j. \<not> retired j \<and> j_lane_classified j \<and> j_lane j = LIVE \<and>
         provenance_admits j \<and> j_task j = t \<and> j_state j = s) (db_jobs db'))
         (scheduler_state_counts (dv_counts d')))"
  using history_runs [OF assms] history_counts [OF _ assms(3)] snapshot_scanned totals_scanned
  by (fastforce simp: list_all_iff)

text \<open>
  Installing is as good as maintaining: the counts rebuilt by grouping the jobs agree with them,
  so what the dashboard reads after an installation is what it reads after any history.
\<close>

theorem rebuilt_counts_agree:
  "counts_agree jobs (rebuild_counts jobs) \<and>
   annotation_queue_snapshot prompt (rebuild_counts jobs) = scanned_queue prompt jobs"
proof -
  have tally: "tally k (map (\<lambda>k. \<lparr>jc_key = k, jc_count = c k\<rparr>) ks) = (if k \<in> set ks then c k else 0)"
    if "distinct ks" for k ks and c :: "count_key \<Rightarrow> int"
    using that by (induction ks) auto
  have "keyed k jobs = 0" if "k \<notin> count_key_of ` set jobs" for k
    using that by (auto simp: sql_count_eq_0_iff)
  then have "counts_agree jobs (rebuild_counts jobs)"
    by (auto simp: counts_agree_def tallies_def rebuild_counts_def tally comp_def)
  then show ?thesis by (simp add: snapshot_scanned)
qed

section \<open>The input revision\<close>

lemma decimal_digit_char:
  fixes n :: nat
  assumes "n < 10"
  shows "decimal_digit (char_of (48 + n))" "int (of_char (char_of (48 + n))) = 48 + int n"
proof -
  have "n = 0 \<or> n = 1 \<or> n = 2 \<or> n = 3 \<or> n = 4 \<or> n = 5 \<or> n = 6 \<or> n = 7 \<or> n = 8 \<or> n = 9" using assms by presburger
  then show "decimal_digit (char_of (48 + n))" by (elim disjE) (simp_all add: decimal_digit_def less_eq_char_def)
  show "int (of_char (char_of (48 + n))) = 48 + int n" using assms by (simp add: of_char_of)
qed

lemma digits_nat_digits: "list_all decimal_digit (nat_digits n) \<and> digits_value (nat_digits n) = int n"
proof (induction n rule: nat_digits.induct)
  case (1 n)
  show ?case
  proof (cases "n < 10")
    case True
    then show ?thesis using decimal_digit_char [OF True] by (simp add: nat_digits.simps [of n] digits_value_def)
  next
    case False
    have m: "n mod 10 < 10" by simp
    from 1 [OF False] False show ?thesis
      using decimal_digit_char [OF m] by (simp add: nat_digits.simps [of n] digits_value_def) presburger
  qed
qed

lemma digits_str_int: "0 \<le> n \<Longrightarrow> digits_value (str_int n) = n \<and> list_all decimal_digit (str_int n)"
  using digits_nat_digits [of "nat n"] by (simp add: str_int_def)

lemma read_before_bump:
  assumes "news_job_input_revision h (Some (bump_revision v)) = Some w"
  shows "news_job_input_revision h (Some v) = Some (w - 1)"
proof -
  have canon: "canonical_counter v" and small: "cast_integer v \<noteq> MAX_INTEGER"
    using assms by (auto simp: bump_revision_def news_job_input_revision_def decimal_digit_def less_eq_char_def
        split: if_splits)
  then have eq: "cast_integer v = digits_value v" and dig: "list_all decimal_digit v" and "v \<noteq> []" "length v \<le> 19"
    "str_int (digits_value v) = v" "digits_value v < MAX_INTEGER"
    by (auto simp: canonical_counter_def cast_integer_def min_def split: if_splits)
  have "0 \<le> digits_value v"
  proof (rule ccontr)
    assume "\<not> 0 \<le> digits_value v"
    then have "str_int (digits_value v) = CHR ''-'' # nat_digits (nat (- digits_value v))" by (simp add: str_int_def)
    with \<open>str_int (digits_value v) = v\<close> dig have "decimal_digit (CHR ''-'')" by (metis list.pred_inject(2))
    then show False by (simp add: decimal_digit_def less_eq_char_def)
  qed
  then have "bump_revision v = str_int (digits_value v + 1)" "digits_value (str_int (digits_value v + 1)) = digits_value v + 1"
    using canon small eq digits_str_int [of "digits_value v + 1"] by (simp_all add: bump_revision_def)
  then have "w = digits_value v + 1" "h"
    using assms by (auto simp: news_job_input_revision_def split: if_splits)
  then show ?thesis
    using \<open>v \<noteq> []\<close> dig \<open>length v \<le> 19\<close> \<open>str_int (digits_value v) = v\<close> \<open>digits_value v < MAX_INTEGER\<close>
    by (simp add: news_job_input_revision_def MAX_INTEGER_def)
qed

fun bumps :: "job_change \<Rightarrow> bool" where
  "bumps (Inserted j) = True"
| "bumps (Updated old new) = (tracked old \<noteq> tracked new)"
| "bumps (Deleted j) = True"

definition later_by :: "nat \<Rightarrow> string option \<Rightarrow> string option \<Rightarrow> bool" where
  "later_by n v v' \<longleftrightarrow> (\<forall>h w. news_job_input_revision h v' = Some w \<longrightarrow> news_job_input_revision h v = Some (w - int n))"

lemma later_refl: "later_by 0 v v"
  by (simp add: later_by_def)

lemma later_trans: "later_by n a b \<Longrightarrow> later_by m b c \<Longrightarrow> later_by (n + m) a c"
  unfolding later_by_def
proof (intro allI impI)
  fix h w
  assume ab: "\<forall>h w. news_job_input_revision h b = Some w \<longrightarrow> news_job_input_revision h a = Some (w - int n)"
    and bc: "\<forall>h w. news_job_input_revision h c = Some w \<longrightarrow> news_job_input_revision h b = Some (w - int m)"
    and "news_job_input_revision h c = Some w"
  then have "news_job_input_revision h a = Some (w - int m - int n)" by blast
  then show "news_job_input_revision h a = Some (w - int (n + m))" by (simp add: algebra_simps)
qed

lemma later_bump: "later_by 1 v (map_option bump_revision v)"
  by (cases v) (auto simp: later_by_def read_before_bump, simp add: news_job_input_revision_def)

lemma fire_revision:
  "fire day ch d = Inr d' \<Longrightarrow> dv_revision d' = (if bumps ch then map_option bump_revision (dv_revision d) else dv_revision d)"
  by (cases ch) (auto simp: Let_def bind_out_Inr_iff)

lemma fires_revision:
  "fold_out (fire day) chs d = Inr d' \<Longrightarrow> later_by (length (filter bumps chs)) (dv_revision d) (dv_revision d')"
proof (induction chs arbitrary: d)
  case (Cons ch chs)
  then obtain d1 where d1: "fire day ch d = Inr d1" "fold_out (fire day) chs d1 = Inr d'"
    by (auto simp: bind_out_Inr_iff)
  have "later_by (if bumps ch then 1 else 0) (dv_revision d) (dv_revision d1)"
    using fire_revision [OF d1(1)] later_bump by (simp add: later_refl)
  from later_trans [OF this Cons.IH [OF d1(2)]] show ?case by (auto split: if_splits)
qed (simp add: later_refl)

lemma tracked_rescheduled [simp]: "tracked (rescheduled_row e now j) = tracked j"
  by (simp add: tracked_def rescheduled_row_def)

lemma no_bump_no_change:
  assumes "filter bumps (statement_changes st jobs) = []"
  shows "map tracked (apply_statement st jobs) = map tracked jobs"
proof (cases st)
  case (InsertJob new)
  with assms show ?thesis by (simp add: insert_job_def sql_insert_ignore_def split: if_splits)
next
  case (UpdateJobs p f)
  with assms have "\<forall>j \<in> set jobs. p j \<longrightarrow> tracked (f j) = tracked j" by (force simp: filter_empty_conv)
  with UpdateJobs show ?thesis by (simp add: sql_update_def)
next
  case (RescheduleJobs p e now)
  then show ?thesis by (simp add: sql_update_def)
next
  case (DeleteJobs p)
  with assms have "\<forall>j \<in> set jobs. \<not> p j" by (force simp: filter_empty_conv)
  with DeleteJobs show ?thesis by (simp add: sql_delete_def)
qed

lemma statements_revision:
  assumes "run_statements day sts (jobs, d) = Inr (jobs', d')"
  shows "\<exists>n. later_by n (dv_revision d) (dv_revision d') \<and> (n = 0 \<longrightarrow> map tracked jobs' = map tracked jobs)"
  using assms
proof (induction sts arbitrary: jobs d)
  case (Cons st sts)
  then obtain d1 where d1: "fold_out (fire day) (statement_changes st jobs) d = Inr d1"
    "run_statements day sts (apply_statement st jobs, d1) = Inr (jobs', d')"
    by (auto simp: run_statements_def run_statement_def bind_out_Inr_iff)
  from Cons.IH [OF d1(2)] obtain n where n: "later_by n (dv_revision d1) (dv_revision d')"
    "n = 0 \<longrightarrow> map tracked jobs' = map tracked (apply_statement st jobs)" by blast
  let ?m = "length (filter bumps (statement_changes st jobs))"
  from later_trans [OF fires_revision [OF d1(1)] n(1)] n(2) no_bump_no_change [of st jobs]
  show ?case by (intro exI [of _ "?m + n"]) auto
qed (auto simp: run_statements_def intro!: exI [of _ 0] later_refl)

lemma history_revision:
  assumes "counted_history P day db d db' d'"
  shows "\<exists>n. later_by n (dv_revision d) (dv_revision d') \<and>
    (n = 0 \<longrightarrow> map tracked (db_jobs db') = map tracked (db_jobs db))"
  using assms
proof (induction rule: counted_history.induct)
  case counted_start
  show ?case by (intro exI [of _ 0]) (simp add: later_refl)
next
  case (counted_step db1 d1 a db2 sts d2)
  then obtain n where n: "later_by n (dv_revision d) (dv_revision d1)"
    "n = 0 \<longrightarrow> map tracked (db_jobs db1) = map tracked (db_jobs db)" by blast
  from statements_revision [OF counted_step.hyps(4)] obtain m where
    m: "later_by m (dv_revision d1) (dv_revision d2)" "m = 0 \<longrightarrow> map tracked (db_jobs db2) = map tracked (db_jobs db1)" by blast
  from later_trans [OF n(1) m(1)] n(2) m(2) show ?case by (intro exI [of _ "n + m"]) simp
qed

text \<open>
  The input revision names the input: a reader that finds the revision it remembers may keep what
  it computed, because no job was added or removed and no watched column of any job has another value;
  and the revision that a reader finds never goes back.
\<close>

theorem revision_names_the_input:
  assumes "counted_history P day db d db' d'"
    "news_job_input_revision h (dv_revision d) = Some v" "news_job_input_revision h' (dv_revision d') = Some v'"
  shows "v \<le> v' \<and> (v = v' \<longrightarrow> map tracked (db_jobs db') = map tracked (db_jobs db))"
proof -
  obtain n where n: "later_by n (dv_revision d) (dv_revision d')"
    "n = 0 \<longrightarrow> map tracked (db_jobs db') = map tracked (db_jobs db)"
    using history_revision [OF assms(1)] by blast
  have "news_job_input_revision h' (dv_revision d) = Some (v' - int n)"
    using n(1) assms(3) by (simp add: later_by_def)
  moreover have "news_job_input_revision h' (dv_revision d) = Some v"
    using assms(2) calculation by (auto simp: news_job_input_revision_def split: option.splits if_splits)
  ultimately show ?thesis using n(2) by auto
qed

section \<open>The caches of the daily briefs\<close>

definition dead_on :: "receipt_day \<Rightarrow> string \<Rightarrow> job \<Rightarrow> bool" where
  "dead_on day date j \<longleftrightarrow> dead_annotation j \<and> day (revision_of j) = Some date"

fun touches :: "receipt_day \<Rightarrow> string \<Rightarrow> job_change \<Rightarrow> bool" where
  "touches day date (Inserted j) = dead_on day date j"
| "touches day date (Updated old new) = (tracked old \<noteq> tracked new \<and> (dead_on day date old \<or> dead_on day date new))"
| "touches day date (Deleted j) = dead_on day date j"

lemma invalidate_keeps:
  assumes "b \<in> set (dv_briefs (invalidate_brief day j c d))" "bc_sources b \<noteq> None"
  shows "b \<in> set (dv_briefs d) \<and> \<not> (c \<and> day (revision_of j) = Some (bc_date b))"
  using assms by (auto simp: invalidate_brief_def elim!: sql_updateE)

lemma fire_briefs:
  assumes "fire day ch d = Inr d'" "b \<in> set (dv_briefs d')" "bc_sources b \<noteq> None"
  shows "b \<in> set (dv_briefs d) \<and> \<not> touches day (bc_date b) ch"
proof (cases ch)
  case (Inserted j)
  let ?d = "bump (d\<lparr>dv_counts := count_in (count_key_of j) (dv_counts d)\<rparr>)"
  from assms(1) Inserted have "d' = invalidate_brief day j (dead_annotation j) ?d" by simp
  with assms(2,3) invalidate_keeps [of b day j "dead_annotation j" ?d] Inserted show ?thesis by (auto simp: dead_on_def)
next
  case (Updated old new)
  let ?c = "tracked old \<noteq> tracked new"
  from assms(1) Updated obtain d2 where d2: "d' = invalidate_brief day new (?c \<and> dead_annotation new)
      (invalidate_brief day old (?c \<and> dead_annotation old) d2)" "dv_briefs d2 = dv_briefs d"
    by (auto simp: bind_out_Inr_iff Let_def)
  from invalidate_keeps [OF assms(2) [unfolded d2(1)] assms(3)]
  have new: "\<not> ((?c \<and> dead_annotation new) \<and> day (revision_of new) = Some (bc_date b))"
    and mid: "b \<in> set (dv_briefs (invalidate_brief day old (?c \<and> dead_annotation old) d2))" by blast+
  from invalidate_keeps [OF mid assms(3)] new d2(2) Updated show ?thesis by (auto simp: dead_on_def)
next
  case (Deleted j)
  with assms(1) obtain rows where "d' = invalidate_brief day j (dead_annotation j) (bump (d\<lparr>dv_counts := rows\<rparr>))"
    by (auto simp: bind_out_Inr_iff)
  with assms(2,3) invalidate_keeps [of b day j "dead_annotation j" "bump (d\<lparr>dv_counts := rows\<rparr>)"] Deleted
  show ?thesis by (auto simp: dead_on_def)
qed

lemma fires_briefs:
  assumes "fold_out (fire day) chs d = Inr d'" "b \<in> set (dv_briefs d')" "bc_sources b \<noteq> None"
  shows "b \<in> set (dv_briefs d) \<and> (\<forall>ch \<in> set chs. \<not> touches day (bc_date b) ch)"
  using assms(1)
proof (induction chs arbitrary: d)
  case Nil
  with assms(2) show ?case by simp
next
  case (Cons ch chs)
  then obtain d1 where d1: "fire day ch d = Inr d1" "fold_out (fire day) chs d1 = Inr d'"
    by (auto simp: bind_out_Inr_iff)
  from Cons.IH [OF d1(2)] fire_briefs [OF d1(1) _ assms(3)] show ?case by auto
qed

abbreviation dead_inputs :: "receipt_day \<Rightarrow> string \<Rightarrow> job list \<Rightarrow>
    (task_type \<times> string \<times> string \<times> int \<times> string \<times> string \<times> job_state \<times> string option) list" where
  "dead_inputs day date jobs \<equiv> map tracked (filter (dead_on day date) jobs)"

lemma dead_on_tracked: "tracked a = tracked b \<Longrightarrow> dead_on day date a = dead_on day date b"
  by (simp add: tracked_def dead_on_def dead_annotation_def revision_of_def)

lemma dead_inputs_map:
  assumes "\<And>j. j \<in> set jobs \<Longrightarrow> tracked (g j) = tracked j \<or> \<not> dead_on day date j \<and> \<not> dead_on day date (g j)"
  shows "dead_inputs day date (map g jobs) = dead_inputs day date jobs"
  using assms
proof (induction jobs)
  case (Cons j jobs)
  have "dead_inputs day date (map g jobs) = dead_inputs day date jobs" using Cons by simp
  with Cons.prems [of j] show ?case using dead_on_tracked [of "g j" j day date] by auto
qed simp

lemma untouched_no_change:
  assumes "\<forall>ch \<in> set (statement_changes st jobs). \<not> touches day date ch"
  shows "dead_inputs day date (apply_statement st jobs) = dead_inputs day date jobs"
proof (cases st)
  case (InsertJob new)
  with assms show ?thesis by (auto simp: insert_job_def sql_insert_ignore_def split: if_splits)
next
  case (UpdateJobs p f)
  have "dead_inputs day date (map (\<lambda>j. if p j then f j else j) jobs) = dead_inputs day date jobs"
  proof (rule dead_inputs_map)
    fix j assume "j \<in> set jobs"
    then show "tracked (if p j then f j else j) = tracked j \<or>
        \<not> dead_on day date j \<and> \<not> dead_on day date (if p j then f j else j)"
      using assms UpdateJobs by (cases "p j") auto
  qed
  with UpdateJobs show ?thesis by (simp add: sql_update_def)
next
  case (RescheduleJobs p e now)
  have "dead_inputs day date (map (\<lambda>j. if p j then rescheduled_row e now j else j) jobs) = dead_inputs day date jobs"
    by (rule dead_inputs_map) simp
  with RescheduleJobs show ?thesis by (simp add: sql_update_def)
next
  case (DeleteJobs p)
  with assms have "\<forall>j \<in> set jobs. dead_on day date j \<longrightarrow> \<not> p j" by auto
  then have "filter (dead_on day date) (sql_delete p jobs) = filter (dead_on day date) jobs"
    by (auto simp: sql_delete_def filter_filter intro: filter_cong)
  with DeleteJobs show ?thesis by simp
qed

lemma statements_briefs:
  assumes "run_statements day sts (jobs, d) = Inr (jobs', d')" "b \<in> set (dv_briefs d')" "bc_sources b \<noteq> None"
  shows "b \<in> set (dv_briefs d) \<and> dead_inputs day (bc_date b) jobs' = dead_inputs day (bc_date b) jobs"
  using assms(1)
proof (induction sts arbitrary: jobs d)
  case Nil
  with assms(2) show ?case by (simp add: run_statements_def)
next
  case (Cons st sts)
  then obtain d1 where d1: "fold_out (fire day) (statement_changes st jobs) d = Inr d1"
    "run_statements day sts (apply_statement st jobs, d1) = Inr (jobs', d')"
    by (auto simp: run_statements_def run_statement_def bind_out_Inr_iff)
  from Cons.IH [OF d1(2)] have "b \<in> set (dv_briefs d1)"
    "dead_inputs day (bc_date b) jobs' = dead_inputs day (bc_date b) (apply_statement st jobs)" by simp_all
  with fires_briefs [OF d1(1) _ assms(3)] untouched_no_change [of st jobs day "bc_date b"] show ?case by simp
qed

text \<open>
  A cache of a daily brief that survives is current: whatever ran in between, the articles of
  that day whose annotation was given up are the same, in the same state and with the same error, as
  when the cache was there before.
\<close>

theorem surviving_brief_is_current:
  assumes "counted_history P day db d db' d'" "b \<in> set (dv_briefs d')" "bc_sources b \<noteq> None"
  shows "b \<in> set (dv_briefs d) \<and>
    dead_inputs day (bc_date b) (db_jobs db') = dead_inputs day (bc_date b) (db_jobs db)"
  using assms(1,2)
proof (induction rule: counted_history.induct)
  case (counted_step db1 d1 a db2 sts d2)
  from statements_briefs [OF counted_step.hyps(4) counted_step.prems assms(3)] counted_step.IH show ?case by simp
qed simp

subsection \<open>Witnesses\<close>

definition sample_derived :: derived where
  "sample_derived = \<lparr>dv_counts = rebuild_counts (db_jobs sample_db), dv_revision = Some ''41'',
     dv_briefs = [\<lparr>bc_date = ''2026-01-02'', bc_sources = Some ''cache''\<rparr>]\<rparr>"

definition sample_day :: receipt_day where "sample_day = (\<lambda>_. Some ''2026-01-02'')"

lemma sample_derived_agrees: "counts_agree (db_jobs sample_db) (dv_counts sample_derived)"
  using rebuilt_counts_agree by (simp add: sample_derived_def)

abbreviation sample_statements :: "job_statement list" where
  "sample_statements \<equiv> [requeue_statement (seconds 10),
     lease_statement (j_id sample_job) (cl_worker sample_claim)
       (seconds 10 + seconds (max 30 (cl_lease_seconds sample_claim))) (seconds 10)]"

definition sample_counted :: derived where
  "sample_counted = snd (projr (run_statements sample_day sample_statements (db_jobs sample_db, sample_derived)))"

lemma sample_counted_runs:
  "\<not> isl (run_statements sample_day sample_statements (db_jobs sample_db, sample_derived))"
  "fst (projr (run_statements sample_day sample_statements (db_jobs sample_db, sample_derived))) = [sample_leased]"
  "dv_briefs sample_counted = dv_briefs sample_derived"
  "dv_revision sample_counted = Some ''42''"
  by code_simp+

lemma sample_claim_step:
  "queue_step sample_platform sample_db (Claim sample_claim (seconds 10)) (sample_db\<lparr>db_jobs := [sample_leased]\<rparr>)"
  by (rule queue_step.claim [OF sample_claimed])

lemma sample_counted_history:
  "counted_history sample_platform sample_day sample_db sample_derived (sample_db\<lparr>db_jobs := [sample_leased]\<rparr>) sample_counted"
proof (rule counted_step [OF counted_start sample_claim_step claim_writes])
  show "claim_query_of sample_claim (seconds 10) = Inr (Some sample_query)" by (rule sample_query_ok)
  show "select_claim sample_query (db_overrides sample_db) (requeue_expired (seconds 10) (db_jobs sample_db)) = Some sample_job"
    by code_simp
  show "run_statements sample_day sample_statements (db_jobs sample_db, sample_derived) =
      Inr (db_jobs (sample_db\<lparr>db_jobs := [sample_leased]\<rparr>), sample_counted)"
    using sample_counted_runs(1,2) unfolding sample_counted_def
    by (cases "run_statements sample_day sample_statements (db_jobs sample_db, sample_derived)") auto
qed

theorem counts_follow_the_queue_witness:
  "an_queued (annotation_queue_snapshot ''v1'' (dv_counts sample_derived)) = 1 \<and>
   an_queued (annotation_queue_snapshot ''v1'' (dv_counts sample_counted)) = 0"
proof -
  have "queue_history sample_platform sample_db [Claim sample_claim (seconds 10)] (sample_db\<lparr>db_jobs := [sample_leased]\<rparr>)"
    using queue_history.then_step [OF queue_history.start sample_claim_step] by simp
  from counts_follow_the_queue [OF this sample_inv(1) sample_derived_agrees, of sample_day "''v1''"] sample_counted_history
  have "annotation_queue_snapshot ''v1'' (dv_counts sample_counted) = scanned_queue ''v1'' [sample_leased]" by simp
  moreover have "an_queued (scanned_queue ''v1'' [sample_leased]) = 0" "an_queued (scanned_queue ''v1'' [sample_job]) = 1"
    by code_simp+
  ultimately show ?thesis using snapshot_scanned [OF sample_derived_agrees] by (simp add: sample_db_def)
qed

theorem revision_names_the_input_witness: "news_job_input_revision True (dv_revision sample_counted) \<noteq> Some 41"
proof
  assume later: "news_job_input_revision True (dv_revision sample_counted) = Some 41"
  have before: "news_job_input_revision True (dv_revision sample_derived) = Some 41" by code_simp
  from revision_names_the_input [OF sample_counted_history before later]
  have "j_state sample_leased = j_state sample_job" by (simp add: sample_db_def tracked_def)
  moreover have "j_state sample_leased \<noteq> j_state sample_job" by code_simp
  ultimately show False by simp
qed

theorem surviving_brief_is_current_witness:
  "dead_inputs sample_day ''2026-01-02'' [sample_leased] = dead_inputs sample_day ''2026-01-02'' [sample_job]"
  using surviving_brief_is_current [OF sample_counted_history,
      of "\<lparr>bc_date = ''2026-01-02'', bc_sources = Some ''cache''\<rparr>"] sample_counted_runs(3)
  by (simp add: sample_derived_def sample_db_def)

end
