(* ===== verification/Market_Data.thy ===== *)
theory Market_Data
  imports Sample_Data "HOL-Library.Word"
begin

text \<open>
  The market adapter, \<^verbatim>\<open>xauusd_news/market.py\<close>: quotes and broker sessions as they are received, the
  provider that follows a growing JSONL file of the quote bridge, and the snapshot of the market at
  a decision time. What a snapshot shows was received before the decision.

  Files are lists of bytes. Decoding a record (UTF-8 and \<open>json.loads\<close>), \<open>datetime.fromisoformat\<close>,
  \<open>float\<close>, the logarithm, the built-in \<open>sum\<close> and the NumPy reductions are the parameters of a \<open>market_library\<close>. Prices
  are finite: the literals \<open>NaN\<close> and \<open>Infinity\<close>, which \<open>json.loads\<close> also reads, are not represented.
\<close>

section \<open>Quotes and sessions\<close>

type_synonym byte = "8 word"

record market_observation =
  mo_event :: instant
  mo_received :: instant
  mo_bid :: real
  mo_ask :: real

text \<open>A parsed \<open>datetime\<close>: with a UTC offset, or without one.\<close>

datatype iso_time = Aware instant | Naive int

record market_library =
  decode_json :: "byte list \<Rightarrow> json option"
  parse_iso :: "string \<Rightarrow> iso_time option"
  casefold :: "string \<Rightarrow> string"
  parse_float :: "json \<Rightarrow> real outcome"
  micros_of_seconds :: "real \<Rightarrow> int"
  math_log :: "real \<Rightarrow> real"
  np_sqrt :: "real \<Rightarrow> real"
  np_sum :: "real list \<Rightarrow> real"
  py_sum :: "real list \<Rightarrow> real"
  stamp_text :: "instant \<Rightarrow> string"

definition make_observation :: "iso_time \<Rightarrow> iso_time \<Rightarrow> real \<Rightarrow> real \<Rightarrow> market_observation outcome" where
  "make_observation event received bid ask =
     (if bid \<le> 0 \<or> ask < bid then Inl (ValueError ''market observation must be positive and non-crossed'')
      else case (event, received) of
        (Aware e, Aware r) \<Rightarrow> Inr \<lparr>mo_event = e, mo_received = r, mo_bid = bid, mo_ask = ask\<rparr>
      | _ \<Rightarrow> Inl (ValueError ''market observation times must be timezone-aware''))"

text \<open>\<open>d[key]\<close> and \<open>d.get(key, default)\<close>.\<close>

definition item_at :: "(string \<times> json) list \<Rightarrow> string \<Rightarrow> json outcome" where
  "item_at d key = (case map_of d key of None \<Rightarrow> Inl (KeyError key) | Some v \<Rightarrow> Inr v)"

definition replace_z :: "string \<Rightarrow> string" where
  "replace_z s = concat (map (\<lambda>c. if c = CHR ''Z'' then ''+00:00'' else [c]) s)"

definition iso_of :: "market_library \<Rightarrow> string \<Rightarrow> iso_time outcome" where
  "iso_of M s = (case parse_iso M (replace_z s) of None \<Rightarrow> Inl (ValueError ''Invalid isoformat string'') | Some t \<Rightarrow> Inr t)"

definition text_item :: "json \<Rightarrow> string outcome" where
  "text_item v = (case v of JStr s \<Rightarrow> Inr s | _ \<Rightarrow> Inl (OtherError ''AttributeError''))"

definition parse_quote_line :: "platform \<Rightarrow> market_library \<Rightarrow> string \<Rightarrow> json \<Rightarrow> market_observation outcome" where
  "parse_quote_line P M expected v =
     (case v of
        JObj item \<Rightarrow>
          (let symbol = (case map_of item ''symbol'' of None \<Rightarrow> expected | Some s \<Rightarrow> py_str P s)
           in if casefold M symbol \<noteq> casefold M expected then Inl (ValueError ''unexpected quote symbol'')
              else
                bind_out (bind_out (item_at item ''event_time'') (\<lambda>x. bind_out (text_item x) (iso_of M))) (\<lambda>event.
                bind_out (bind_out (item_at item ''received_time'') (\<lambda>x. bind_out (text_item x) (iso_of M))) (\<lambda>received.
                bind_out (bind_out (item_at item ''bid'') (parse_float M)) (\<lambda>bid.
                bind_out (bind_out (item_at item ''ask'') (parse_float M)) (\<lambda>ask.
                  make_observation event received bid ask)))))
      | _ \<Rightarrow> Inl (OtherError ''AttributeError''))"

record broker_session =
  bs_observed_at :: instant
  bs_server_time :: instant
  bs_open :: bool
  bs_till_open :: int
  bs_till_close :: int
  bs_next_open :: "iso_time option"
  bs_next_close :: "iso_time option"

definition session_is_fresh :: "broker_session \<Rightarrow> instant \<Rightarrow> bool" where
  "session_is_fresh s now = (let age = now - bs_observed_at s in - seconds 5 \<le> age \<and> age \<le> seconds 20)"

definition make_session ::
    "iso_time \<Rightarrow> iso_time \<Rightarrow> bool \<Rightarrow> int \<Rightarrow> int \<Rightarrow> iso_time option \<Rightarrow> iso_time option \<Rightarrow> broker_session outcome" where
  "make_session observed server is_open till_open till_close next_open next_close =
     (case (observed, server) of
        (Aware o', Aware s) \<Rightarrow>
          if till_open < 0 \<or> till_close < 0 then Inl (ValueError ''market-session durations must not be negative'')
          else Inr \<lparr>bs_observed_at = o', bs_server_time = s, bs_open = is_open, bs_till_open = till_open,
                    bs_till_close = till_close, bs_next_open = next_open, bs_next_close = next_close\<rparr>
      | _ \<Rightarrow> Inl (ValueError ''market-session times must be timezone-aware''))"

definition session_time :: "platform \<Rightarrow> market_library \<Rightarrow> (string \<times> json) list \<Rightarrow> string \<Rightarrow> iso_time outcome" where
  "session_time P M item name = bind_out (item_at item name) (\<lambda>v. iso_of M (py_str P v))"

definition optional_session_time ::
    "platform \<Rightarrow> market_library \<Rightarrow> (string \<times> json) list \<Rightarrow> string \<Rightarrow> iso_time option outcome" where
  "optional_session_time P M item name =
     (let v = jget item name
      in if truthy v then bind_out (iso_of M (py_str P v)) (\<lambda>t. Inr (Some t)) else Inr None)"

definition session_duration :: "market_library \<Rightarrow> (string \<times> json) list \<Rightarrow> string \<Rightarrow> int outcome" where
  "session_duration M item name =
     bind_out (bind_out (item_at item name) (parse_float M)) (\<lambda>x. Inr (micros_of_seconds M (max 0 x)))"

text \<open>\<open>market_session\<close>; the first argument is the content of the session file, if it exists.\<close>

definition market_session ::
    "byte list option \<Rightarrow> platform \<Rightarrow> market_library \<Rightarrow> string \<Rightarrow> broker_session option outcome" where
  "market_session content P M expected =
     (case content of
        None \<Rightarrow> Inr None
      | Some raw \<Rightarrow>
          (case decode_json M raw of
             None \<Rightarrow> Inl (ValueError ''JSONDecodeError'')
           | Some (JObj item) \<Rightarrow>
               if jget item ''schema'' \<noteq> JStr ''xauusd.forward.market-session.v1''
               then Inl (ValueError ''unexpected market-session schema'')
               else if casefold M (case map_of item ''symbol'' of None \<Rightarrow> [] | Some s \<Rightarrow> py_str P s) \<noteq> casefold M expected
               then Inl (ValueError ''unexpected market-session symbol'')
               else
                 bind_out (session_time P M item ''observed_at'') (\<lambda>observed.
                 bind_out (session_time P M item ''server_time'') (\<lambda>server.
                 bind_out (item_at item ''is_open'') (\<lambda>is_open.
                 bind_out (session_duration M item ''time_till_open_seconds'') (\<lambda>till_open.
                 bind_out (session_duration M item ''time_till_close_seconds'') (\<lambda>till_close.
                 bind_out (optional_session_time P M item ''next_open_time'') (\<lambda>next_open.
                 bind_out (optional_session_time P M item ''next_close_time'') (\<lambda>next_close.
                 bind_out (make_session observed server (truthy is_open) till_open till_close next_open next_close)
                   (\<lambda>s. Inr (Some s)))))))))
           | Some _ \<Rightarrow> Inl (OtherError ''AttributeError'')))"

section \<open>Following the quote files\<close>

definition newline :: byte where "newline = 10"

text \<open>\<open>handle.readline()\<close>: the bytes up to and with the next line feed, and the rest.\<close>

fun next_line :: "byte list \<Rightarrow> byte list \<times> byte list" where
  "next_line [] = ([], [])"
| "next_line (b # bs) =
     (if b = newline then ([b], bs) else (let (line, rest) = next_line bs in (b # line, rest)))"

definition terminated :: "byte list \<Rightarrow> bool" where
  "terminated line \<longleftrightarrow> line \<noteq> [] \<and> last line = newline"

definition append_record ::
    "platform \<Rightarrow> market_library \<Rightarrow> string \<Rightarrow> byte list \<Rightarrow> market_observation list \<Rightarrow> market_observation list outcome" where
  "append_record P M expected raw cache =
     (case decode_json M raw of
        None \<Rightarrow> Inr cache
      | Some v \<Rightarrow> bind_out (parse_quote_line P M expected v) (\<lambda>x. Inr (cache @ [x])))"

lemma next_line_split: "next_line bs = (line, rest) \<Longrightarrow> bs = line @ rest"
  by (induction bs arbitrary: line rest) (auto split: if_splits prod.splits)

lemma next_line_shorter: "(line, rest) = next_line bs \<Longrightarrow> line \<noteq> [] \<Longrightarrow> length rest < length bs"
  by (drule sym [THEN next_line_split]) simp

text \<open>
  The loop of \<open>_load_incremental\<close>: it stops before a line without its line feed, and a record that
  raises leaves the records before it in the cache.
\<close>

function read_lines ::
    "platform \<Rightarrow> market_library \<Rightarrow> string \<Rightarrow> byte list \<Rightarrow> nat \<Rightarrow> market_observation list \<Rightarrow>
     nat outcome \<times> market_observation list" where
  "read_lines P M expected bs pos cache =
     (case next_line bs of (line, rest) \<Rightarrow>
        if \<not> terminated line then (Inr pos, cache)
        else case append_record P M expected line cache of
          Inl e \<Rightarrow> (Inl e, cache)
        | Inr cache' \<Rightarrow> read_lines P M expected rest (pos + length line) cache')"
  by pat_completeness auto

termination
  by (relation "measure (\<lambda>(P, M, expected, bs, pos, cache). length bs)")
    (auto simp: terminated_def dest: next_line_shorter)

declare read_lines.simps [simp del]

text \<open>The loop of \<open>_load_gzip_once\<close>, which also takes a last line without its line feed.\<close>

function read_all_lines ::
    "platform \<Rightarrow> market_library \<Rightarrow> string \<Rightarrow> byte list \<Rightarrow> market_observation list \<Rightarrow>
     unit outcome \<times> market_observation list" where
  "read_all_lines P M expected bs cache =
     (case next_line bs of (line, rest) \<Rightarrow>
        if line = [] then (Inr (), cache)
        else case append_record P M expected line cache of
          Inl e \<Rightarrow> (Inl e, cache)
        | Inr cache' \<Rightarrow> read_all_lines P M expected rest cache')"
  by pat_completeness auto

termination
  by (relation "measure (\<lambda>(P, M, expected, bs, cache). length bs)") (auto dest: next_line_shorter)

declare read_all_lines.simps [simp del]

record provider =
  pv_symbol :: string
  pv_offsets :: "string \<rightharpoonup> nat"
  pv_gzip :: "string list"
  pv_cache :: "market_observation list"

definition new_provider :: "string \<Rightarrow> provider" where
  "new_provider symbol = \<lparr>pv_symbol = symbol, pv_offsets = Map.empty, pv_gzip = [], pv_cache = []\<rparr>"

record source_file =
  sf_name :: string
  sf_bytes :: "byte list"

datatype quote_path = MissingPath | SingleFile source_file | Directory "source_file list"

definition ends_with :: "string \<Rightarrow> string \<Rightarrow> bool" where
  "ends_with suffix s \<longleftrightarrow> starts_with (rev suffix) (rev s)"

definition source_files :: "quote_path \<Rightarrow> source_file list" where
  "source_files path =
     (case path of
        MissingPath \<Rightarrow> []
      | SingleFile f \<Rightarrow> [f]
      | Directory fs \<Rightarrow>
          (let files = sort_key sf_name (filter (\<lambda>f. ends_with ''.jsonl'' (sf_name f)) fs @
                                         filter (\<lambda>f. ends_with ''.jsonl.gz'' (sf_name f)) fs)
           in drop (length files - 2) files))"

text \<open>A load returns the error it raises, if any, and the provider it leaves behind.\<close>

definition load_gzip_once :: "platform \<Rightarrow> market_library \<Rightarrow> source_file \<Rightarrow> provider \<Rightarrow> unit outcome \<times> provider" where
  "load_gzip_once P M f pv =
     (if sf_name f \<in> set (pv_gzip pv) then (Inr (), pv)
      else case read_all_lines P M (pv_symbol pv) (sf_bytes f) (pv_cache pv) of
        (Inl e, cache) \<Rightarrow> (Inl e, pv\<lparr>pv_cache := cache\<rparr>)
      | (Inr _, cache) \<Rightarrow> (Inr (), pv\<lparr>pv_cache := cache, pv_gzip := sf_name f # pv_gzip pv\<rparr>))"

definition offset_of :: "provider \<Rightarrow> string \<Rightarrow> nat" where
  "offset_of pv name = (case pv_offsets pv name of None \<Rightarrow> 0 | Some n \<Rightarrow> n)"

definition load_incremental :: "platform \<Rightarrow> market_library \<Rightarrow> source_file \<Rightarrow> provider \<Rightarrow> unit outcome \<times> provider" where
  "load_incremental P M f pv =
     (let offset = offset_of pv (sf_name f)
      in if length (sf_bytes f) < offset then (Inl (ValueError ''live quote file was truncated''), pv)
         else case read_lines P M (pv_symbol pv) (drop offset (sf_bytes f)) offset (pv_cache pv) of
           (Inl e, cache) \<Rightarrow> (Inl e, pv\<lparr>pv_cache := cache\<rparr>)
         | (Inr pos, cache) \<Rightarrow> (Inr (), pv\<lparr>pv_cache := cache, pv_offsets := (pv_offsets pv)(sf_name f \<mapsto> pos)\<rparr>))"

definition load_file :: "platform \<Rightarrow> market_library \<Rightarrow> source_file \<Rightarrow> provider \<Rightarrow> unit outcome \<times> provider" where
  "load_file P M f = (if ends_with ''.gz'' (sf_name f) then load_gzip_once P M f else load_incremental P M f)"

fun load_files :: "platform \<Rightarrow> market_library \<Rightarrow> source_file list \<Rightarrow> provider \<Rightarrow> unit outcome \<times> provider" where
  "load_files P M [] pv = (Inr (), pv)"
| "load_files P M (f # fs) pv =
     (case load_file P M f pv of (Inl e, pv') \<Rightarrow> (Inl e, pv') | (Inr _, pv') \<Rightarrow> load_files P M fs pv')"

definition LIVE_QUOTE_OBSERVATION_LOOKBACK :: int where
  "LIVE_QUOTE_OBSERVATION_LOOKBACK = minutes 61"

definition received_by :: "instant \<Rightarrow> market_observation \<Rightarrow> bool" where
  "received_by t x \<longleftrightarrow> t - LIVE_QUOTE_OBSERVATION_LOOKBACK \<le> mo_event x \<and> mo_event x \<le> t \<and> mo_received x \<le> t"

definition window_of :: "instant \<Rightarrow> market_observation list \<Rightarrow> market_observation list" where
  "window_of t cache = sort_key (\<lambda>x. (mo_event x, mo_received x)) (filter (received_by t) cache)"

definition observations ::
    "platform \<Rightarrow> market_library \<Rightarrow> quote_path \<Rightarrow> instant \<Rightarrow> provider \<Rightarrow> market_observation list outcome \<times> provider" where
  "observations P M path t pv =
     (if path = MissingPath then (Inr [], pv)
      else case load_files P M (source_files path) pv of
        (Inl e, pv') \<Rightarrow> (Inl e, pv')
      | (Inr _, pv') \<Rightarrow>
          (let cache = dropWhile (\<lambda>x. mo_event x < t - LIVE_QUOTE_OBSERVATION_LOOKBACK) (pv_cache pv')
           in (Inr (window_of t cache), pv'\<lparr>pv_cache := cache\<rparr>)))"

section \<open>The forward snapshot\<close>

definition visible_at :: "instant \<Rightarrow> market_observation \<Rightarrow> bool" where
  "visible_at t x \<longleftrightarrow> mo_event x \<le> t \<and> mo_received x \<le> t"

definition FEATURE_VERSION :: string where "FEATURE_VERSION = ''forward-market-v1''"

definition total_seconds :: "platform \<Rightarrow> int \<Rightarrow> real" where
  "total_seconds P micros = fl P (of_int micros / 1000000)"

definition midpoint :: "platform \<Rightarrow> market_observation \<Rightarrow> real" where
  "midpoint P x = fl P (fl P (mo_bid x + mo_ask x) / 2)"

definition at_or_before :: "market_observation list \<Rightarrow> instant \<Rightarrow> market_observation option" where
  "at_or_before xs target =
     (case filter (\<lambda>x. mo_event x \<le> target) xs of [] \<Rightarrow> None | y # ys \<Rightarrow> Some (last (y # ys)))"

fun diffs :: "platform \<Rightarrow> real list \<Rightarrow> real list" where
  "diffs P (x # y # zs) = fl P (y - x) # diffs P (y # zs)"
| "diffs P _ = []"

text \<open>The return over a horizon, \<open>None\<close> when no quote lies within a minute of its start.\<close>

definition horizon_return ::
    "platform \<Rightarrow> market_library \<Rightarrow> market_observation list \<Rightarrow> market_observation \<Rightarrow> instant \<Rightarrow> int \<Rightarrow> real option" where
  "horizon_return P M visible latest t horizon =
     (case at_or_before visible (t - minutes horizon) of
        None \<Rightarrow> None
      | Some prior \<Rightarrow>
          if 60 < \<bar>total_seconds P (t - minutes horizon - mo_event prior)\<bar> then None
          else Some (math_log M (fl P (midpoint P latest / midpoint P prior))))"

definition HORIZONS :: "int list" where "HORIZONS = [1, 5, 15, 30, 60]"

definition optional_float :: "real option \<Rightarrow> json" where
  "optional_float x = (case x of None \<Rightarrow> JNull | Some r \<Rightarrow> JFloat (Finite r))"

definition return_features ::
    "platform \<Rightarrow> market_library \<Rightarrow> market_observation list \<Rightarrow> market_observation \<Rightarrow> instant \<Rightarrow> (string \<times> json) list" where
  "return_features P M visible latest t =
     map (\<lambda>h. (''return_'' @ str_int h @ ''m'', optional_float (horizon_return P M visible latest t h))) HORIZONS"

definition quote_imbalance :: "platform \<Rightarrow> real list \<Rightarrow> real option" where
  "quote_imbalance P changes =
     (let up = int (length (filter (\<lambda>d. 0 < d) changes)); down = int (length (filter (\<lambda>d. d < 0) changes))
      in if up + down \<noteq> 0 then Some (fl P (of_int (up - down) / of_int (up + down))) else None)"

definition realized_volatility :: "platform \<Rightarrow> market_library \<Rightarrow> real list \<Rightarrow> real option" where
  "realized_volatility P M mids =
     (let rs = diffs P (map (math_log M) mids)
      in if rs = [] then None else Some (np_sqrt M (np_sum M (map (\<lambda>r. fl P (r * r)) rs))))"

definition ticks_since :: "market_observation list \<Rightarrow> instant \<Rightarrow> int" where
  "ticks_since visible t = int (length (filter (\<lambda>x. t < mo_event x) visible))"

definition snapshot_features ::
    "platform \<Rightarrow> market_library \<Rightarrow> market_observation list \<Rightarrow> market_observation \<Rightarrow> instant \<Rightarrow> (string \<times> json) list" where
  "snapshot_features P M visible latest t =
     (let mids = map (midpoint P) visible
      in return_features P M visible latest t @
         [(''tick_count_1m'', JInt (ticks_since visible (t - minutes 1))),
          (''tick_count_5m'', JInt (ticks_since visible (t - minutes 5))),
          (''tick_speed_5m_per_second'', JFloat (Finite (fl P (of_int (ticks_since visible (t - minutes 5)) / 300)))),
          (''quote_imbalance_60m'', optional_float (quote_imbalance P (diffs P mids))),
          (''realized_volatility_60m'', optional_float (realized_volatility P M mids)),
          (''source_staleness_seconds'', JFloat (Finite (total_seconds P (t - mo_received latest))))])"

definition snapshot_reasons ::
    "platform \<Rightarrow> market_library \<Rightarrow> market_observation list \<Rightarrow> market_observation \<Rightarrow> instant \<Rightarrow> string list" where
  "snapshot_reasons P M visible latest t =
     (if total_seconds P (t - mo_received latest) \<le> 20 then [] else [''MARKET_DATA_STALE'']) @
     List.map_filter
       (\<lambda>h. if horizon_return P M visible latest t h = None then Some (''RETURN_'' @ str_int h @ ''M_UNAVAILABLE'') else None)
       HORIZONS"

record forward_snapshot =
  fs_id :: string
  fs_decision :: instant
  fs_collected :: instant
  fs_source :: string
  fs_latest :: "market_observation option"
  fs_spread :: "real option"
  fs_features :: "(string \<times> json) list"
  fs_u5 :: "real option"
  fs_u5_status :: string
  fs_health :: string
  fs_active :: bool
  fs_reasons :: "string list"
  fs_hash :: string

definition canonical_hash :: "platform \<Rightarrow> json \<Rightarrow> string" where
  "canonical_hash P v = sha256_hex P (json_dumps P v)"

definition usable_u5 :: "pyfloat option \<Rightarrow> real option" where
  "usable_u5 u5 = (case u5 of Some (Finite r) \<Rightarrow> if r \<le> 0 then None else Some r | _ \<Rightarrow> None)"

definition build_forward_snapshot ::
    "platform \<Rightarrow> market_library \<Rightarrow> market_observation list \<Rightarrow> instant \<Rightarrow> instant \<Rightarrow> string \<Rightarrow> pyfloat option \<Rightarrow> string \<Rightarrow>
     bool \<Rightarrow> forward_snapshot" where
  "build_forward_snapshot P M xs t collected source u5 u5_status active =
     (let visible = filter (visible_at t) xs;
          latest = (if visible = [] then None else Some (last visible));
          features = (case latest of None \<Rightarrow> [] | Some x \<Rightarrow> snapshot_features P M visible x t);
          reasons = (case latest of None \<Rightarrow> [''MARKET_DATA_MISSING''] | Some x \<Rightarrow> snapshot_reasons P M visible x t);
          usable = usable_u5 u5
      in \<lparr>fs_id = ''XAU-SNAPSHOT-'' @ stamp_text M t, fs_decision = t, fs_collected = collected,
          fs_source = source, fs_latest = latest,
          fs_spread = map_option (\<lambda>x. fl P (mo_ask x - mo_bid x)) latest,
          fs_features = features, fs_u5 = usable,
          fs_u5_status = (if usable = None then ''WARMUP'' else u5_status),
          fs_health = (case latest of None \<Rightarrow> ''MISSING''
             | Some x \<Rightarrow> if total_seconds P (t - mo_received x) \<le> 20 then ''OK'' else ''STALE''),
          fs_active = active,
          fs_reasons = dedupe (reasons @ (if usable = None then [''U5_WARMUP''] else [])),
          fs_hash = canonical_hash P (JObj features)\<rparr>)"

text \<open>The staleness of the last visible quote is never negative, so the code's check does not raise.\<close>

lemma latest_visible:
  assumes "fs_latest (build_forward_snapshot P M xs t collected source u5 u5_status active) = Some x"
  shows "x \<in> set xs" "mo_event x \<le> t" "mo_received x \<le> t"
proof -
  let ?visible = "filter (visible_at t) xs"
  from assms have "?visible \<noteq> []" "x = last ?visible"
    by (simp_all add: build_forward_snapshot_def Let_def split: if_splits)
  then have "x \<in> set ?visible" by (metis last_in_set)
  then show "x \<in> set xs" "mo_event x \<le> t" "mo_received x \<le> t" by (auto simp: visible_at_def)
qed

section \<open>Polling a growing file reads it once\<close>

function complete_lines :: "byte list \<Rightarrow> byte list list" where
  "complete_lines bs =
     (case next_line bs of (line, rest) \<Rightarrow> if terminated line then line # complete_lines rest else [])"
  by pat_completeness auto

termination
  by (relation "measure length") (auto simp: terminated_def dest: next_line_shorter)

declare complete_lines.simps [simp del]

text \<open>The quotes of a file, as one pass over its complete lines reads them.\<close>

definition line_quote :: "platform \<Rightarrow> market_library \<Rightarrow> string \<Rightarrow> byte list \<Rightarrow> market_observation option" where
  "line_quote P M expected raw =
     (case decode_json M raw of
        None \<Rightarrow> None
      | Some v \<Rightarrow> (case parse_quote_line P M expected v of Inl _ \<Rightarrow> None | Inr x \<Rightarrow> Some x))"

definition file_quotes :: "platform \<Rightarrow> market_library \<Rightarrow> string \<Rightarrow> byte list \<Rightarrow> market_observation list" where
  "file_quotes P M expected bs = List.map_filter (line_quote P M expected) (complete_lines bs)"

definition consumed :: "byte list \<Rightarrow> nat" where
  "consumed bs = length (concat (complete_lines bs))"

lemma next_line_append: "next_line bs = (line, rest) \<Longrightarrow> terminated line \<Longrightarrow> next_line (bs @ cs) = (line, rest @ cs)"
proof (induction bs arbitrary: line rest)
  case Nil
  then show ?case by (simp add: terminated_def)
next
  case (Cons b bs)
  show ?case
  proof (cases "b = newline")
    case False
    obtain l r where lr: "next_line bs = (l, r)" by (cases "next_line bs")
    with Cons.prems False have eq: "line = b # l" "rest = r" by auto
    with Cons.prems(2) False have "terminated l" by (auto simp: terminated_def split: if_splits)
    with Cons.IH lr have "next_line (bs @ cs) = (l, r @ cs)" by blast
    with False eq show ?thesis by simp
  qed (use Cons.prems in auto)
qed

lemma complete_lines_prefix: "bs = concat (complete_lines bs) @ drop (consumed bs) bs"
proof (induction bs rule: complete_lines.induct)
  case (1 bs)
  obtain line rest where n: "next_line bs = (line, rest)" by (cases "next_line bs")
  then have b: "bs = line @ rest" by (rule next_line_split)
  show ?case
  proof (cases "terminated line")
    case True
    with n have c: "complete_lines bs = line # complete_lines rest" by (subst complete_lines.simps) simp
    have "rest = concat (complete_lines rest) @ drop (consumed rest) rest" using 1 [OF n [symmetric] True] by simp
    with b c show ?thesis by (simp add: consumed_def)
  next
    case False
    with n have "complete_lines bs = []" by (subst complete_lines.simps) simp
    then show ?thesis by (simp add: consumed_def)
  qed
qed

lemma complete_lines_append:
  "complete_lines (bs @ cs) = complete_lines bs @ complete_lines (drop (consumed bs) bs @ cs)"
proof (induction bs rule: complete_lines.induct)
  case (1 bs)
  obtain line rest where n: "next_line bs = (line, rest)" by (cases "next_line bs")
  then have b: "bs = line @ rest" by (rule next_line_split)
  show ?case
  proof (cases "terminated line")
    case True
    with n have c: "complete_lines bs = line # complete_lines rest" by (subst complete_lines.simps) simp
    have "complete_lines (bs @ cs) = line # complete_lines (rest @ cs)"
      using next_line_append [OF n True] True by (subst complete_lines.simps) simp
    also have "complete_lines (rest @ cs) = complete_lines rest @ complete_lines (drop (consumed rest) rest @ cs)"
      using 1 [OF n [symmetric] True] by simp
    finally show ?thesis using b c by (simp add: consumed_def)
  next
    case False
    with n have "complete_lines bs = []" by (subst complete_lines.simps) simp
    then show ?thesis by (simp add: consumed_def)
  qed
qed

lemma append_record_quotes:
  "append_record P M e raw cache = Inr cache' \<Longrightarrow> cache' = cache @ List.map_filter (line_quote P M e) [raw]"
  by (auto simp: append_record_def line_quote_def List.map_filter_simps bind_out_Inr_iff split: option.splits)

lemma append_records_quotes:
  "fold_out (append_record P M e) raws cache = Inr cache' \<Longrightarrow>
   cache' = cache @ List.map_filter (line_quote P M e) raws"
proof (induction raws arbitrary: cache)
  case (Cons raw raws)
  then obtain c where c: "append_record P M e raw cache = Inr c" "fold_out (append_record P M e) raws c = Inr cache'"
    by (auto simp: bind_out_Inr_iff)
  from append_record_quotes [OF c(1)] Cons.IH [OF c(2)] show ?case
    by (simp add: List.map_filter_simps split: option.splits)
qed (simp add: List.map_filter_simps)

lemma read_lines_complete:
  "read_lines P M e bs pos cache = (Inr pos', cache') \<longleftrightarrow>
   fold_out (append_record P M e) (complete_lines bs) cache = Inr cache' \<and> pos' = pos + consumed bs"
proof (induction P M e bs pos cache rule: read_lines.induct)
  case (1 P M e bs pos cache)
  obtain line rest where n: "next_line bs = (line, rest)" by (cases "next_line bs")
  show ?case
  proof (cases "terminated line")
    case True
    with n have c: "complete_lines bs = line # complete_lines rest" by (subst complete_lines.simps) simp
    show ?thesis
    proof (cases "append_record P M e line cache")
      case (Inl err)
      with n True c show ?thesis by (subst read_lines.simps) simp
    next
      case (Inr c1)
      from 1 [OF n [symmetric] _ Inr] True n Inr c show ?thesis
        by (subst read_lines.simps) (auto simp: consumed_def)
    qed
  next
    case False
    with n have "complete_lines bs = []" by (subst complete_lines.simps) simp
    with n False show ?thesis by (subst read_lines.simps) (auto simp: consumed_def)
  qed
qed

text \<open>A load that succeeds, written over the lines it consumes.\<close>

lemma load_incremental_ok:
  "load_incremental P M \<lparr>sf_name = name, sf_bytes = bs\<rparr> pv = (Inr u, pv') \<longleftrightarrow>
   offset_of pv name \<le> length bs \<and>
   (\<exists>cache. fold_out (append_record P M (pv_symbol pv)) (complete_lines (drop (offset_of pv name) bs)) (pv_cache pv) =
        Inr cache \<and>
      pv' = pv\<lparr>pv_cache := cache,
              pv_offsets := (pv_offsets pv)(name \<mapsto> offset_of pv name + consumed (drop (offset_of pv name) bs))\<rparr>)"
  (is "?l = ?r")
proof -
  obtain p cache where rl: "read_lines P M (pv_symbol pv) (drop (offset_of pv name) bs) (offset_of pv name) (pv_cache pv) =
      (p, cache)" by (cases "read_lines P M (pv_symbol pv) (drop (offset_of pv name) bs) (offset_of pv name) (pv_cache pv)")
  show ?thesis
  proof (cases p)
    case (Inl err)
    with rl have "fold_out (append_record P M (pv_symbol pv)) (complete_lines (drop (offset_of pv name) bs)) (pv_cache pv)
        \<noteq> Inr c" for c using read_lines_complete [of P M "pv_symbol pv"] by (metis Pair_inject sum.distinct(1))
    with rl Inl show ?thesis by (simp add: load_incremental_def Let_def)
  next
    case (Inr pos)
    with rl read_lines_complete have
      "fold_out (append_record P M (pv_symbol pv)) (complete_lines (drop (offset_of pv name) bs)) (pv_cache pv) = Inr cache"
      "pos = offset_of pv name + consumed (drop (offset_of pv name) bs)" by blast+
    with rl Inr show ?thesis by (auto simp: load_incremental_def Let_def)
  qed
qed

text \<open>Polls of a file while it grows chunk by chunk.\<close>

fun poll_growth ::
    "platform \<Rightarrow> market_library \<Rightarrow> string \<Rightarrow> byte list \<Rightarrow> byte list list \<Rightarrow> provider \<Rightarrow> unit outcome \<times> provider" where
  "poll_growth P M name sofar [] pv = (Inr (), pv)"
| "poll_growth P M name sofar (c # cs) pv =
     (case load_incremental P M \<lparr>sf_name = name, sf_bytes = sofar @ c\<rparr> pv of
        (Inl e, pv') \<Rightarrow> (Inl e, pv')
      | (Inr _, pv') \<Rightarrow> poll_growth P M name (sofar @ c) cs pv')"

lemma load_after_load:
  assumes "load_incremental P M \<lparr>sf_name = name, sf_bytes = bs\<rparr> pv = (Inr u, pv1)"
    "load_incremental P M \<lparr>sf_name = name, sf_bytes = bs @ cs\<rparr> pv1 = (Inr v, pv2)"
  shows "load_incremental P M \<lparr>sf_name = name, sf_bytes = bs @ cs\<rparr> pv = (Inr (), pv2)"
proof -
  let ?o = "offset_of pv name" and ?f = "append_record P M (pv_symbol pv)"
  let ?rest = "drop ?o bs"
  from assms(1) obtain cache1 where one: "?o \<le> length bs"
    "fold_out ?f (complete_lines ?rest) (pv_cache pv) = Inr cache1"
    "pv1 = pv\<lparr>pv_cache := cache1, pv_offsets := (pv_offsets pv)(name \<mapsto> ?o + consumed ?rest)\<rparr>"
    unfolding load_incremental_ok by blast
  have o1: "offset_of pv1 name = ?o + consumed ?rest" "pv_symbol pv1 = pv_symbol pv" "pv_cache pv1 = cache1"
    using one(3) by (simp_all add: offset_of_def)
  have len: "consumed ?rest \<le> length ?rest"
    using arg_cong [OF complete_lines_prefix [of ?rest], of length] by (simp add: consumed_def)
  then have d: "drop (?o + consumed ?rest) (bs @ cs) = drop (consumed ?rest) ?rest @ cs" using one(1)
    by (simp add: add.commute)
  from assms(2) obtain cache2 where two:
    "fold_out ?f (complete_lines (drop (consumed ?rest) ?rest @ cs)) cache1 = Inr cache2"
    "pv2 = pv1\<lparr>pv_cache := cache2, pv_offsets := (pv_offsets pv1)
       (name \<mapsto> ?o + consumed ?rest + consumed (drop (consumed ?rest) ?rest @ cs))\<rparr>"
    unfolding load_incremental_ok o1 d by blast
  have whole: "complete_lines (?rest @ cs) = complete_lines ?rest @ complete_lines (drop (consumed ?rest) ?rest @ cs)"
    by (rule complete_lines_append)
  then have c: "consumed (?rest @ cs) = consumed ?rest + consumed (drop (consumed ?rest) ?rest @ cs)"
    by (simp add: consumed_def)
  have "fold_out ?f (complete_lines (?rest @ cs)) (pv_cache pv) = Inr cache2"
    using one(2) two(1) by (simp add: whole fold_out_append)
  moreover have "drop ?o (bs @ cs) = ?rest @ cs" using one(1) by simp
  moreover have "pv2 = pv\<lparr>pv_cache := cache2, pv_offsets := (pv_offsets pv)(name \<mapsto> ?o + consumed (?rest @ cs))\<rparr>"
    using two(2) one(3) c by (simp add: add.assoc)
  ultimately show ?thesis using one(1) unfolding load_incremental_ok by simp
qed

text \<open>
  Polling reads a growing file once: however the growth of a quote file is cut into polls, through
  the middle of records included, the provider ends in the state in which one load of the final file
  leaves it.
\<close>

theorem polling_reads_once:
  assumes "chunks \<noteq> []" "poll_growth P M name sofar chunks pv = (Inr (), pv')"
  shows "load_incremental P M \<lparr>sf_name = name, sf_bytes = sofar @ concat chunks\<rparr> pv = (Inr (), pv')"
  using assms
proof (induction chunks arbitrary: sofar pv)
  case (Cons c cs)
  then obtain pv1 where one: "load_incremental P M \<lparr>sf_name = name, sf_bytes = sofar @ c\<rparr> pv = (Inr (), pv1)"
    "poll_growth P M name (sofar @ c) cs pv1 = (Inr (), pv')"
    by (auto split: prod.splits sum.splits)
  show ?case
  proof (cases "cs = []")
    case False
    with Cons.IH [OF _ one(2)] have
      "load_incremental P M \<lparr>sf_name = name, sf_bytes = (sofar @ c) @ concat cs\<rparr> pv1 = (Inr (), pv')" by simp
    from load_after_load [OF one(1) this] show ?thesis by simp
  qed (use one in auto)
qed simp

lemma load_quotes:
  assumes "load_incremental P M \<lparr>sf_name = name, sf_bytes = bs\<rparr> pv = (Inr u, pv')" "pv_offsets pv name = None"
  shows "pv_cache pv' = pv_cache pv @ file_quotes P M (pv_symbol pv) bs"
  using assms append_records_quotes unfolding load_incremental_ok
  by (fastforce simp: offset_of_def file_quotes_def)

lemma window_after_trim:
  "window_of t (dropWhile (\<lambda>x. mo_event x < t - LIVE_QUOTE_OBSERVATION_LOOKBACK) cache) = window_of t cache"
  unfolding window_of_def by (subst filter_dropWhile) (auto simp: received_by_def)

lemma observed_file:
  assumes "observations P M (SingleFile \<lparr>sf_name = name, sf_bytes = bs\<rparr>) t pv = (Inr xs, pv')"
    "\<not> ends_with ''.gz'' name" "pv_offsets pv name = None"
  shows "xs = window_of t (pv_cache pv @ file_quotes P M (pv_symbol pv) bs)"
proof -
  from assms obtain pv1 where l: "load_incremental P M \<lparr>sf_name = name, sf_bytes = bs\<rparr> pv = (Inr (), pv1)"
    "xs = window_of t (pv_cache pv1)"
    by (auto simp: observations_def source_files_def load_file_def window_after_trim Let_def
        split: prod.splits sum.splits)
  with load_quotes [OF l(1) assms(3)] show ?thesis by simp
qed


subsection \<open>Witnesses\<close>

definition sample_library :: market_library where
  "sample_library =
     \<lparr>decode_json = (\<lambda>raw. case raw of
        [e, r, _] \<Rightarrow> Some (JObj [(''event_time'', JStr (replicate (unat e) CHR ''e'')),
          (''received_time'', JStr (replicate (unat r) CHR ''r'')), (''bid'', JInt 2000), (''ask'', JInt 2001)])
      | _ \<Rightarrow> None),
      parse_iso = (\<lambda>s. Some (Aware (seconds (int (length s))))), casefold = (\<lambda>s. s),
      parse_float = (\<lambda>v. case v of JInt i \<Rightarrow> Inr (of_int i) | _ \<Rightarrow> Inl (ValueError [])),
      micros_of_seconds = (\<lambda>x. \<lfloor>x * 1000000\<rfloor>), math_log = (\<lambda>x. x - 1), np_sqrt = (\<lambda>x. x),
      np_sum = sum_list, py_sum = sum_list, stamp_text = str_int\<rparr>"

definition sample_chunks :: "byte list list" where "sample_chunks = [[5, 5, 10, 7], [90, 10]]"

definition sample_polled :: "unit outcome \<times> provider" where
  "sample_polled = poll_growth sample_platform sample_library ''q.jsonl'' [] sample_chunks (new_provider ''XAUUSD'')"

lemma sample_polled_runs: "fst sample_polled = Inr () \<and> length (pv_cache (snd sample_polled)) = 2"
  by code_simp

theorem polling_reads_once_witness:
  "load_incremental sample_platform sample_library \<lparr>sf_name = ''q.jsonl'', sf_bytes = [5, 5, 10, 7, 90, 10]\<rparr>
     (new_provider ''XAUUSD'') = (Inr (), snd sample_polled) \<and> length (pv_cache (snd sample_polled)) = 2"
proof -
  have "poll_growth sample_platform sample_library ''q.jsonl'' [] sample_chunks (new_provider ''XAUUSD'') =
      (Inr (), snd sample_polled)"
    using sample_polled_runs unfolding sample_polled_def by (metis prod.collapse)
  from polling_reads_once [OF _ this] sample_polled_runs show ?thesis by (simp add: sample_chunks_def)
qed

definition sample_observed :: "byte list \<Rightarrow> market_observation list outcome \<times> provider" where
  "sample_observed bs = observations sample_platform sample_library
     (SingleFile \<lparr>sf_name = ''q.jsonl'', sf_bytes = bs\<rparr>) (seconds 60) (new_provider ''XAUUSD'')"

definition sample_quote :: market_observation where
  "sample_quote = \<lparr>mo_event = seconds 5, mo_received = seconds 5, mo_bid = 2000, mo_ask = 2001\<rparr>"

lemma sample_observed_runs:
  "fst (sample_observed [5, 5, 10, 7]) = Inr [sample_quote]" "fst (sample_observed [5, 5, 10, 7, 90, 10]) = Inr [sample_quote]"
  by code_simp+

definition sample_snapshot :: "byte list \<Rightarrow> forward_snapshot" where
  "sample_snapshot bs = build_forward_snapshot sample_platform sample_library
     (case fst (sample_observed bs) of Inr xs \<Rightarrow> xs | Inl _ \<Rightarrow> []) (seconds 60) 0 [] None [] False"


end
