(* ===== verification/Market_Session.thy ===== *)
theory Market_Session
  imports Market_Data "HOL-Library.While_Combinator"
begin

text \<open>
  The weekly closure of the market and the freshness of its quotes,
  \<^verbatim>\<open>xauusd_news/market_session.py\<close>: the clock that leaves the weekend out of the age of news, and
  the reasons for which a decision grid is skipped.

  New York time is a \<open>zone\<close>. What the clock relies on is stated as \<open>session_zone\<close>: the two
  wall-clock times of a closure, Friday 17:00 and Sunday 18:00, are never ambiguous or skipped, and
  a weekend changes the offset by at most one hour.
\<close>

section \<open>The closure\<close>

text \<open>Day 0 is a Thursday; \<open>date.weekday()\<close> counts from Monday.\<close>

definition weekday :: "int \<Rightarrow> int" where
  "weekday d = (d + 3) mod 7"

definition expected_weekly_closure :: "zone \<Rightarrow> instant \<Rightarrow> bool" where
  "expected_weekly_closure z t =
     (let day = weekday (local_date z t); hour = local_hour z t
      in (day = 4 \<and> 17 \<le> hour) \<or> day = 5 \<or> (day = 6 \<and> hour < 18))"

text \<open>\<open>datetime.combine(date, time(h, 0), tzinfo=NEW_YORK).astimezone(UTC)\<close>\<close>

definition combine :: "zone \<Rightarrow> int \<Rightarrow> int \<Rightarrow> instant" where
  "combine z d h = (let wall = days d + hours h in wall - wall_offset_at z wall)"

definition closure_start :: "zone \<Rightarrow> int \<Rightarrow> instant" where
  "closure_start z d = combine z d 17"

definition closure_end :: "zone \<Rightarrow> int \<Rightarrow> instant" where
  "closure_end z d = combine z (d + 2) 18"

text \<open>The overlap that the body of the loop adds for a date.\<close>

definition closure_overlap :: "zone \<Rightarrow> instant \<Rightarrow> instant \<Rightarrow> int \<Rightarrow> int" where
  "closure_overlap z s e d =
     (if weekday d = 4
      then (let overlap_start = max s (closure_start z d); overlap_end = min e (closure_end z d)
            in if overlap_start < overlap_end then overlap_end - overlap_start else 0)
      else 0)"

function closed_time :: "zone \<Rightarrow> instant \<Rightarrow> instant \<Rightarrow> int \<Rightarrow> int \<Rightarrow> int \<Rightarrow> int" where
  "closed_time z s e final cursor acc =
     (if cursor \<le> final
      then closed_time z s e final (cursor + 1) (acc + closure_overlap z s e cursor)
      else acc)"
  by pat_completeness auto

termination
  by (relation "measure (\<lambda>(z, s, e, final, cursor, acc). nat (final + 1 - cursor))") auto

declare closed_time.simps [simp del]

definition market_open_elapsed :: "zone \<Rightarrow> instant \<Rightarrow> instant \<Rightarrow> int outcome" where
  "market_open_elapsed z s e =
     (if e < s then Inl (ValueError ''end must not be before start'')
      else Inr (e - s - closed_time z s e (local_date z e) (local_date z s - 7) 0))"

definition horizon_crosses_weekly_closure :: "zone \<Rightarrow> instant \<Rightarrow> int \<Rightarrow> bool outcome" where
  "horizon_crosses_weekly_closure z t horizon =
     (if horizon \<le> 0 then Inl (ValueError ''horizon must be positive'')
      else if expected_weekly_closure z t then Inr True
      else Inr (expected_weekly_closure z (t + horizon)))"

text \<open>The loop as it is written, which a priori may not end: the date it stops at and what it added up.\<close>

definition closure_loop :: "zone \<Rightarrow> instant \<Rightarrow> instant \<Rightarrow> int \<Rightarrow> int \<times> int \<Rightarrow> (int \<times> int) option" where
  "closure_loop z s e final start =
     while_option (\<lambda>(cursor, acc). cursor \<le> final) (\<lambda>(cursor, acc). (cursor + 1, acc + closure_overlap z s e cursor)) start"

text \<open>
  The loop over the dates of an interval ends, whatever the interval and the time zone, and leaves
  the sum that the recursive definition computes.
\<close>

theorem closure_loop_ends:
  "closure_loop z s e final (cursor, acc) = Some (max cursor (final + 1), closed_time z s e final cursor acc)"
proof (induction z s e final cursor acc rule: closed_time.induct)
  case (1 z s e final cursor acc)
  show ?case
  proof (cases "cursor \<le> final")
    case True
    then have "closure_loop z s e final (cursor, acc) =
        closure_loop z s e final (cursor + 1, acc + closure_overlap z s e cursor)"
      unfolding closure_loop_def by (subst while_option_unfold) simp
    with 1 [OF True] True show ?thesis by (subst closed_time.simps) simp
  next
    case False
    then show ?thesis unfolding closure_loop_def by (subst while_option_unfold, subst closed_time.simps) simp
  qed
qed

section \<open>Quotes\<close>

definition has_fresh_quote :: "market_observation list \<Rightarrow> instant \<Rightarrow> int \<Rightarrow> bool" where
  "has_fresh_quote quotes t max_age =
     (case filter (visible_at t) quotes of
        [] \<Rightarrow> False
      | x # xs \<Rightarrow> (let age = t - mo_received (last (x # xs)) in 0 \<le> age \<and> age \<le> max_age))"

definition skipped_grid_reason ::
    "instant \<Rightarrow> instant \<Rightarrow> market_observation list \<Rightarrow> broker_session option \<Rightarrow> instant option \<Rightarrow> string option" where
  "skipped_grid_reason decision boundary quotes session observed_at =
     (let clock = (case observed_at of Some t \<Rightarrow> t | None \<Rightarrow> boundary)
      in case session of
           None \<Rightarrow> Some ''BROKER_MARKET_STATUS_UNAVAILABLE''
         | Some s \<Rightarrow>
             if \<not> session_is_fresh s clock then Some ''BROKER_MARKET_STATUS_UNAVAILABLE''
             else if \<not> bs_open s then Some ''BROKER_MARKET_CLOSED''
             else if bs_observed_at s + bs_till_close s \<le> decision + minutes 30
             then Some ''FIXED_HORIZON_CROSSES_BROKER_CLOSE''
             else if has_fresh_quote quotes decision (seconds 20) then None
             else if decision < boundary - minutes 10 then Some ''MISSED_GRID_WITHOUT_POINT_IN_TIME_QUOTE''
             else Some ''CURRENT_GRID_WITHOUT_FRESH_QUOTE'')"

section \<open>The clock counts the open time\<close>

definition session_zone :: "zone \<Rightarrow> bool" where
  "session_zone z \<longleftrightarrow>
     (\<forall>t d. weekday d = 4 \<longrightarrow>
        (t < closure_start z d \<longleftrightarrow> local_time z t < days d + hours 17) \<and>
        (t < closure_end z d \<longleftrightarrow> local_time z t < days (d + 2) + hours 18) \<and>
        hours 48 \<le> closure_end z d - closure_start z d)"

definition closure_span :: "zone \<Rightarrow> int \<Rightarrow> instant set" where
  "closure_span z d = (if weekday d = 4 then {closure_start z d ..< closure_end z d} else {})"

lemma weekday_bounds: "0 \<le> weekday d" "weekday d \<le> 6"
  unfolding weekday_def by (auto intro: order.strict_implies_order)

lemma le_div_int_iff:
  assumes "0 < (b::int)"
  shows "n \<le> r div b \<longleftrightarrow> n * b \<le> r"
proof
  assume "n \<le> r div b"
  then have "n * b \<le> r div b * b" using assms by simp
  also have "\<dots> \<le> r" using assms by (simp add: minus_mod_eq_div_mult [symmetric])
  finally show "n * b \<le> r" .
next
  assume "n * b \<le> r"
  then have "n * b div b \<le> r div b" using assms by (rule zdiv_mono1)
  then show "n \<le> r div b" using assms by simp
qed

lemma span_iff_local:
  assumes "session_zone z" "weekday d = 4"
  shows "t \<in> closure_span z d \<longleftrightarrow> days d + hours 17 \<le> local_time z t \<and> local_time z t < days (d + 2) + hours 18"
  using assms unfolding session_zone_def closure_span_def by (simp add: not_less [symmetric])

text \<open>An instant is in the closure when it lies in the span of some Friday, and only one.\<close>

lemma closure_iff_span:
  assumes "session_zone z"
  shows "expected_weekly_closure z t \<longleftrightarrow> (\<exists>d. t \<in> closure_span z d)"
proof -
  define l where "l = local_time z t"
  define d where "d = l div days 1"
  define r where "r = l mod days 1"
  have l: "l = d * days 1 + r" "0 \<le> r" "r < days 1" by (simp_all add: d_def r_def)
  have h: "local_hour z t = r div hours 1" "local_date z t = d"
    by (simp_all add: local_hour_def local_date_def l_def d_def r_def)
  have hour: "17 \<le> r div hours 1 \<longleftrightarrow> hours 17 \<le> r" "r div hours 1 < 18 \<longleftrightarrow> r < hours 18"
    using le_div_int_iff [of "hours 1" 17 r] le_div_int_iff [of "hours 1" 18 r] by auto
  show ?thesis
  proof
    assume "expected_weekly_closure z t"
    then consider "weekday d = 4" "hours 17 \<le> r" | "weekday d = 5" | "weekday d = 6" "r < hours 18"
      unfolding expected_weekly_closure_def Let_def h hour by blast
    then show "\<exists>d. t \<in> closure_span z d"
    proof cases
      case 1
      then show ?thesis using span_iff_local [OF assms, of d t] l by (intro exI [of _ d]) (simp add: l_def [symmetric])
    next
      case 2
      then have "weekday (d - 1) = 4" unfolding weekday_def by presburger
      then show ?thesis using span_iff_local [OF assms, of "d - 1" t] l
        by (intro exI [of _ "d - 1"]) (simp add: l_def [symmetric] algebra_simps)
    next
      case 3
      then have "weekday (d - 2) = 4" unfolding weekday_def by presburger
      then show ?thesis using 3 span_iff_local [OF assms, of "d - 2" t] l
        by (intro exI [of _ "d - 2"]) (simp add: l_def [symmetric] algebra_simps)
    qed
  next
    assume "\<exists>d. t \<in> closure_span z d"
    then obtain f where f: "t \<in> closure_span z f" by blast
    then have w: "weekday f = 4" by (auto simp: closure_span_def split: if_splits)
    with f have b: "days f + hours 17 \<le> l" "l < days (f + 2) + hours 18"
      using span_iff_local [OF assms] by (simp_all add: l_def)
    then have "f \<le> d" "d \<le> f + 2" using l by simp_all
    then consider "d = f" | "d = f + 1" | "d = f + 2" by linarith
    then show "expected_weekly_closure z t"
    proof cases
      case 1
      with b l w show ?thesis unfolding expected_weekly_closure_def Let_def h hour by simp
    next
      case 2
      with w have "weekday d = 5" unfolding weekday_def by presburger
      then show ?thesis unfolding expected_weekly_closure_def Let_def h by simp
    next
      case 3
      with w have "weekday d = 6" unfolding weekday_def by presburger
      with 3 b l show ?thesis unfolding expected_weekly_closure_def Let_def h hour by simp
    qed
  qed
qed
lemma span_week: "t \<in> closure_span z d \<Longrightarrow> weekday d = 4"
  by (auto simp: closure_span_def split: if_splits)

lemma span_unique:
  assumes "session_zone z" "t \<in> closure_span z d" "t \<in> closure_span z d'"
  shows "d = d'"
proof -
  have w: "weekday d = 4" "weekday d' = 4" using assms(2,3) by (auto dest: span_week)
  then have "days d + hours 17 \<le> local_time z t" "local_time z t < days (d + 2) + hours 18"
    "days d' + hours 17 \<le> local_time z t" "local_time z t < days (d' + 2) + hours 18"
    using assms span_iff_local by blast+
  then have "d < d' + 3" "d' < d + 3" by simp_all
  with w show ?thesis unfolding weekday_def by presburger
qed

lemma overlap_card: "closure_overlap z s e d = int (card ({s ..< e} \<inter> closure_span z d))"
  by (auto simp: closure_overlap_def closure_span_def Let_def max_def min_def)

lemma closed_time_sum: "closed_time z s e final cursor acc = acc + (\<Sum>d \<in> {cursor..final}. closure_overlap z s e d)"
proof (induction z s e final cursor acc rule: closed_time.induct)
  case (1 z s e final cursor acc)
  show ?case
  proof (cases "cursor \<le> final")
    case True
    then have "{cursor..final} = insert cursor {cursor + 1..final}" by auto
    with 1 [OF True] True show ?thesis by (subst closed_time.simps) simp
  qed (subst closed_time.simps, simp)
qed

lemma spans_in_loop:
  assumes "session_zone z" "s \<le> t" "t < e" "t \<in> closure_span z d"
  shows "local_date z s - 7 \<le> d" "d \<le> local_date z e"
proof -
  have w: "weekday d = 4" and b: "closure_start z d \<le> t" "t < closure_end z d"
    using assms(4) by (auto simp: closure_span_def split: if_splits)
  have "s < closure_end z d" "\<not> e < closure_start z d" using assms(2,3) b by simp_all
  then have "local_time z s < days (d + 2) + hours 18" "days d + hours 17 \<le> local_time z e"
    using assms(1) w unfolding session_zone_def by (simp_all add: not_less [symmetric])
  then have "local_time z s < (d + 3) * days 1" "d * days 1 \<le> local_time z e" by simp_all
  then have "\<not> d + 3 \<le> local_date z s" "d \<le> local_date z e"
    unfolding local_date_def by (simp_all add: le_div_int_iff)
  then show "local_date z s - 7 \<le> d" "d \<le> local_date z e" by simp_all
qed

lemma closed_time_card:
  assumes "session_zone z"
  shows "closed_time z s e (local_date z e) (local_date z s - 7) 0 =
      int (card {t \<in> {s ..< e}. expected_weekly_closure z t})"
proof -
  let ?I = "{local_date z s - 7..local_date z e}" and ?A = "\<lambda>d. {s ..< e} \<inter> closure_span z d"
  have "{t \<in> {s ..< e}. expected_weekly_closure z t} = (\<Union>d \<in> ?I. ?A d)"
  proof (intro set_eqI iffI)
    fix t assume "t \<in> {t \<in> {s ..< e}. expected_weekly_closure z t}"
    then obtain d where t: "s \<le> t" "t < e" "t \<in> closure_span z d" by (auto simp: closure_iff_span [OF assms])
    from spans_in_loop [OF assms t] t show "t \<in> (\<Union>d \<in> ?I. ?A d)" by (intro UN_I [of d]) simp_all
  qed (auto simp: closure_iff_span [OF assms])
  moreover have "card (\<Union>d \<in> ?I. ?A d) = (\<Sum>d \<in> ?I. card (?A d))"
    by (rule card_UN_disjoint) (auto dest: span_unique [OF assms])
  ultimately show ?thesis by (simp add: closed_time_sum overlap_card)
qed

text \<open>
  C19: the clock that skips weekends counts the open time: the elapsed time that the loop computes by
  subtracting the overlaps with each weekend is the number of microseconds of the interval at which
  the market is not in its weekly closure, whatever the changes of the clock of New York in between.
\<close>

theorem open_clock_counts_open_instants:
  assumes "session_zone z" "s \<le> e"
  shows "market_open_elapsed z s e = Inr (int (card {t \<in> {s ..< e}. \<not> expected_weekly_closure z t}))"
proof -
  let ?C = "{t \<in> {s ..< e}. expected_weekly_closure z t}" and ?O = "{t \<in> {s ..< e}. \<not> expected_weekly_closure z t}"
  have f: "finite ?C" "finite ?O" by (auto intro: finite_subset [of _ "{s ..< e}"])
  have "{s ..< e} = ?C \<union> ?O" "?C \<inter> ?O = {}" by auto
  then have "card {s ..< e} = card ?C + card ?O" using card_Un_disjoint [OF f] by metis
  then have "e - s = int (card ?C) + int (card ?O)" using assms(2) by simp
  then show ?thesis using assms(2) by (simp add: market_open_elapsed_def closed_time_card [OF assms(1)])
qed

lemma open_elapsed_bounds:
  assumes "session_zone z" "market_open_elapsed z s e = Inr v"
  shows "0 \<le> v" "v \<le> e - s"
proof -
  have se: "s \<le> e" using assms(2) by (auto simp: market_open_elapsed_def split: if_splits)
  then have v: "v = int (card {t \<in> {s ..< e}. \<not> expected_weekly_closure z t})"
    using open_clock_counts_open_instants [OF assms(1) se] assms(2) by simp
  then show "0 \<le> v" by simp
  have "card {t \<in> {s ..< e}. \<not> expected_weekly_closure z t} \<le> card {s ..< e}" by (rule card_mono) auto
  with v se show "v \<le> e - s" by simp
qed

text \<open>
  A horizon that is said not to cross the closure stays clear of it: the two instants that are
  tested suffice for every horizon of at most two days.
\<close>

theorem clear_horizon_stays_open:
  assumes "session_zone z" "horizon \<le> hours 48" "horizon_crosses_weekly_closure z t horizon = Inr False"
    "t \<le> u" "u \<le> t + horizon"
  shows "\<not> expected_weekly_closure z u"
proof
  assume "expected_weekly_closure z u"
  then obtain d where d: "u \<in> closure_span z d" using closure_iff_span [OF assms(1)] by blast
  then have w: "weekday d = 4" and b: "closure_start z d \<le> u" "u < closure_end z d"
    by (auto simp: closure_span_def split: if_splits)
  have "t \<notin> closure_span z d" "t + horizon \<notin> closure_span z d"
    using assms(3) closure_iff_span [OF assms(1)]
    by (auto simp: horizon_crosses_weekly_closure_def split: if_splits)
  then have "t < closure_start z d" "closure_end z d \<le> t + horizon"
    using b w assms(4,5) by (auto simp: closure_span_def)
  moreover have "hours 48 \<le> closure_end z d - closure_start z d" using assms(1) w unfolding session_zone_def by blast
  ultimately show False using assms(2) by simp
qed

section \<open>A kept grid has a healthy market\<close>

text \<open>
  No grid is decided blind: when there is no reason to skip a decision, the broker reported an open
  session by a fresh heartbeat whose close lies more than half an hour after the decision, and the
  snapshot of the market at the decision is healthy, its quote received at most twenty seconds
  before.
\<close>

theorem kept_grid_is_healthy:
  assumes "skipped_grid_reason decision boundary quotes session observed_at = None" "binary64_rounding (fl P)"
  shows "fs_health (build_forward_snapshot P M quotes decision collected source u5 status active) = ''OK'' \<and>
    (\<exists>s. session = Some s \<and> bs_open s \<and>
       session_is_fresh s (case observed_at of Some t \<Rightarrow> t | None \<Rightarrow> boundary) \<and>
       decision + minutes 30 < bs_observed_at s + bs_till_close s)"
proof -
  from assms(1) obtain s where s: "session = Some s" "bs_open s"
    "session_is_fresh s (case observed_at of Some t \<Rightarrow> t | None \<Rightarrow> boundary)"
    "decision + minutes 30 < bs_observed_at s + bs_till_close s" "has_fresh_quote quotes decision (seconds 20)"
    by (auto simp: skipped_grid_reason_def Let_def not_le split: option.splits if_splits)
  let ?visible = "filter (visible_at decision) quotes"
  from s(5) have v: "?visible \<noteq> []" "decision - mo_received (last ?visible) \<le> seconds 20"
    unfolding has_fresh_quote_def Let_def by (auto split: list.splits)
  have "total_seconds P (decision - mo_received (last ?visible)) \<le> fl P (of_int 20)"
    unfolding total_seconds_def using v(2) by (intro rounding_mono [OF assms(2)]) simp
  also have "\<dots> = 20" using rounding_int [OF assms(2), of 20] by simp
  finally show ?thesis using v(1) s by (simp add: build_forward_snapshot_def Let_def)
qed

subsection \<open>Witnesses\<close>

text \<open>A zone that changes its clock on the second Sunday of 1970, at 2:00 local time.\<close>

definition sample_zone :: zone where
  "sample_zone = \<lparr>utc_offset_at = (\<lambda>t. if t < days 10 + hours 6 then - hours 4 else - hours 5),
     wall_offset_at = (\<lambda>w. if w < days 10 + hours 2 then - hours 4 else - hours 5)\<rparr>"

lemma sample_zone_ok: "session_zone sample_zone"
proof -
  have walls: "d \<le> 8 \<or> 15 \<le> d" if "weekday d = 4" for d using that unfolding weekday_def by presburger
  show ?thesis
    unfolding session_zone_def closure_start_def closure_end_def combine_def local_time_def sample_zone_def Let_def
    using walls by (auto split: if_splits)
qed

theorem open_clock_counts_open_instants_witness:
  "card {t \<in> {days 8 ..< days 12}. \<not> expected_weekly_closure sample_zone t} = nat (hours 46)"
proof -
  have "market_open_elapsed sample_zone (days 8) (days 12) = Inr (hours 46)" by code_simp
  with open_clock_counts_open_instants [OF sample_zone_ok, of "days 8" "days 12"] show ?thesis by simp
qed

theorem clear_horizon_stays_open_witness:
  "\<not> expected_weekly_closure sample_zone (days 8 + hours 20)"
proof -
  have "horizon_crosses_weekly_closure sample_zone (days 8) (hours 20) = Inr False" by code_simp
  from clear_horizon_stays_open [OF sample_zone_ok _ this, of "days 8 + hours 20"] show ?thesis by simp
qed

definition sample_session :: broker_session where
  "sample_session = \<lparr>bs_observed_at = seconds 55, bs_server_time = seconds 55, bs_open = True, bs_till_open = 0,
     bs_till_close = hours 2, bs_next_open = None, bs_next_close = None\<rparr>"

theorem kept_grid_is_healthy_witness:
  "fs_health (build_forward_snapshot sample_platform sample_library [sample_quote] (seconds 20) 0 [] None [] False) = ''OK'' \<and>
   bs_open sample_session"
proof -
  have "skipped_grid_reason (seconds 20) (seconds 60) [sample_quote] (Some sample_session) None = None" by code_simp
  moreover have "binary64_rounding (fl sample_platform)" by (simp add: binary64_rounding_def sample_platform_def)
  ultimately show ?thesis using kept_grid_is_healthy by blast
qed

end
