(* ===== verification/News_Time.thy ===== *)
theory News_Time
  imports Market_Session
begin

text \<open>
  Point-in-time and economic-time rules of news, \<^verbatim>\<open>xauusd_news/news/semantics/time.py\<close>: whether a
  piece of news is visible, fresh and inside the forward epoch at a decision, and whether received
  evidence may be read by the semantic model. Freshness can be measured on the clock that leaves the
  weekly closure out.
\<close>

section \<open>Times of a row\<close>

definition MAX_ACTIONABLE_NEWS_AGE :: int where "MAX_ACTIONABLE_NEWS_AGE = hours 72"
definition MAX_ACTIONABLE_DISCOVERY_DELAY :: int where "MAX_ACTIONABLE_DISCOVERY_DELAY = hours 1"
definition MAX_PUBLICATION_CLOCK_SKEW :: int where "MAX_PUBLICATION_CLOCK_SKEW = minutes 10"

definition SOURCE_REPORTED_TIME :: string where "SOURCE_REPORTED_TIME = ''SOURCE_REPORTED''"
definition MIXED_PRECISE_OR_BATCH_PROXY_TIME :: string where
  "MIXED_PRECISE_OR_BATCH_PROXY_TIME = ''MIXED_PRECISE_OR_BATCH_PROXY''"
definition COARSE_PUBLICATION_TIME_SOURCES :: "string list" where
  "COARSE_PUBLICATION_TIME_SOURCES = [''gdelt_gold_geopolitics'']"

definition CATEGORY_TIME_RULES :: "(string \<times> int \<times> real) list" where
  "CATEGORY_TIME_RULES =
     [(''inflation_employment'', hours 24, 180), (''rates_fed'', hours 72, 360), (''growth_economy'', hours 48, 360),
      (''usd_liquidity'', hours 48, 360), (''oil_energy'', hours 48, 360), (''war_geopolitics'', hours 36, 360),
      (''central_bank_gold'', days 7, 1440), (''risk_sentiment'', hours 24, 180)]"

definition category_time_rule :: "string option \<Rightarrow> int \<times> real" where
  "category_time_rule category =
     (case map_of CATEGORY_TIME_RULES (case category of None \<Rightarrow> [] | Some c \<Rightarrow> c) of
        Some rule \<Rightarrow> rule
      | None \<Rightarrow> (MAX_ACTIONABLE_NEWS_AGE, 360))"

text \<open>The columns that the rules read; a missing column reads as \<open>None\<close>.\<close>

record news_row =
  nr_source :: "string option"
  nr_published :: "string option"
  nr_first_seen :: "string option"

definition time_of :: "market_library \<Rightarrow> string option \<Rightarrow> instant option outcome" where
  "time_of M v =
     (case v of
        None \<Rightarrow> Inr None
      | Some s \<Rightarrow>
          if s = [] then Inr None
          else case parse_iso M s of
            None \<Rightarrow> Inl (ValueError ''Invalid isoformat string'')
          | Some (Aware t) \<Rightarrow> Inr (Some t)
          | Some (Naive n) \<Rightarrow> Inr (Some n))"

section \<open>Assessments\<close>

record news_time_assessment =
  na_eligible :: bool
  na_event :: "instant option"
  na_age :: "real option"
  na_delay :: "real option"
  na_reason :: string

definition assessment :: "bool \<Rightarrow> instant option \<Rightarrow> real option \<Rightarrow> real option \<Rightarrow> string \<Rightarrow> news_time_assessment" where
  "assessment ok event age delay reason =
     \<lparr>na_eligible = ok, na_event = event, na_age = age, na_delay = delay, na_reason = reason\<rparr>"

record clock_assessment =
  ca_eligible :: bool
  ca_follows :: bool

definition publication_clock :: "instant \<Rightarrow> instant \<Rightarrow> clock_assessment" where
  "publication_clock published received =
     (let follows = received < published
      in \<lparr>ca_eligible = (\<not> follows \<or> published - received \<le> MAX_PUBLICATION_CLOCK_SKEW), ca_follows = follows\<rparr>)"

definition assess_publication_receipt_clock ::
    "market_library \<Rightarrow> string option \<Rightarrow> string option \<Rightarrow> clock_assessment outcome" where
  "assess_publication_receipt_clock M published_at received_at =
     bind_out (time_of M published_at) (\<lambda>published.
     bind_out (time_of M received_at) (\<lambda>received.
       case (published, received) of
         (Some p, Some r) \<Rightarrow> Inr (publication_clock p r)
       | _ \<Rightarrow> Inl (ValueError ''published_at and received_at require timestamps'')))"

record time_policy =
  tp_max_age :: int
  tp_max_delay :: "int option"
  tp_pre_forward :: bool
  tp_weekly :: bool

definition default_time_policy :: time_policy where
  "default_time_policy =
     \<lparr>tp_max_age = MAX_ACTIONABLE_NEWS_AGE, tp_max_delay = Some MAX_ACTIONABLE_DISCOVERY_DELAY,
      tp_pre_forward = False, tp_weekly = False\<rparr>"

definition news_elapsed :: "zone \<Rightarrow> time_policy \<Rightarrow> instant \<Rightarrow> instant \<Rightarrow> int outcome" where
  "news_elapsed z pol published decision =
     (if tp_weekly pol \<and> published \<le> decision then market_open_elapsed z published decision
      else Inr (decision - published))"

definition judge_news_time ::
    "platform \<Rightarrow> time_policy \<Rightarrow> instant \<Rightarrow> instant \<Rightarrow> instant \<Rightarrow> instant \<Rightarrow> int \<Rightarrow> news_time_assessment" where
  "judge_news_time P pol decision epoch first_seen published elapsed =
     (let delay = Some (total_seconds P (first_seen - published));
          age = fl P (total_seconds P elapsed / 60)
      in if published < epoch \<and> \<not> tp_pre_forward pol
         then assessment False (Some published) (Some age) delay ''PRE_FORWARD_PUBLICATION''
         else if decision < published
         then assessment False (Some published) (Some age) delay ''PUBLISHED_AFTER_DECISION''
         else if (case tp_max_delay pol of None \<Rightarrow> False | Some d \<Rightarrow> d < first_seen - published)
         then assessment False (Some published) (Some age) delay ''LATE_DISCOVERY''
         else if tp_max_age pol < elapsed
         then assessment False (Some published) (Some age) delay ''STALE_EVENT''
         else assessment True (Some published) (Some (max 0 age)) delay ''CURRENT_EVENT'')"

definition assess_news_time ::
    "platform \<Rightarrow> market_library \<Rightarrow> zone \<Rightarrow> time_policy \<Rightarrow> news_row \<Rightarrow> instant \<Rightarrow> instant \<Rightarrow> news_time_assessment outcome" where
  "assess_news_time P M z pol row decision epoch =
     bind_out (time_of M (nr_first_seen row)) (\<lambda>seen.
     bind_out (time_of M (nr_published row)) (\<lambda>pub.
       case seen of
         None \<Rightarrow> Inl (ValueError ''decision_time, forward_epoch, and first_seen require timestamps'')
       | Some first_seen \<Rightarrow>
           if decision < first_seen then Inr (assessment False pub None None ''NOT_YET_VISIBLE'')
           else (case pub of
             None \<Rightarrow> Inr (assessment False None None None ''PUBLISHED_TIME_MISSING'')
           | Some published \<Rightarrow>
               bind_out (news_elapsed z pol published decision) (\<lambda>elapsed.
                 Inr (judge_news_time P pol decision epoch first_seen published elapsed)))))"

record semantic_eligibility =
  se_eligible :: bool
  se_reason :: string
  se_timing :: "string list"
  se_reliability :: string

definition source_reliability :: "news_row \<Rightarrow> string" where
  "source_reliability row =
     (if (case nr_source row of None \<Rightarrow> [] | Some s \<Rightarrow> s) \<in> set COARSE_PUBLICATION_TIME_SOURCES
      then MIXED_PRECISE_OR_BATCH_PROXY_TIME else SOURCE_REPORTED_TIME)"

definition timing_reasons :: "int \<Rightarrow> string list" where
  "timing_reasons delay =
     (if MAX_ACTIONABLE_DISCOVERY_DELAY < delay then [''LATE_DISCOVERY''] else []) @
     (if MAX_ACTIONABLE_NEWS_AGE < delay then [''STALE_EVENT''] else [])"

definition judge_semantic :: "string \<Rightarrow> instant \<Rightarrow> instant \<Rightarrow> instant option \<Rightarrow> semantic_eligibility" where
  "judge_semantic reliability epoch first_seen pub =
     (let refused = (\<lambda>reason timing. \<lparr>se_eligible = False, se_reason = reason, se_timing = timing,
                                       se_reliability = reliability\<rparr>);
          allowed = (\<lambda>timing. \<lparr>se_eligible = True, se_reason = ''SEMANTIC_ELIGIBLE'',
                                se_timing = (if timing = [] then [''CURRENT_EVENT''] else timing),
                                se_reliability = reliability\<rparr>)
      in if first_seen < epoch then refused ''PRE_FORWARD_RECEIPT'' []
         else case pub of
           None \<Rightarrow> refused ''PUBLISHED_TIME_MISSING'' []
         | Some published \<Rightarrow>
             if published < epoch then refused ''PRE_FORWARD_PUBLICATION'' []
             else let clock = publication_clock published first_seen
                  in if ca_follows clock
                     then if ca_eligible clock then allowed [''PUBLISHED_AFTER_RECEIPT'']
                          else refused ''PUBLISHED_AFTER_DECISION'' [''PUBLISHED_AFTER_RECEIPT'']
                     else allowed (timing_reasons (first_seen - published)))"

definition assess_news_semantic_eligibility ::
    "market_library \<Rightarrow> news_row \<Rightarrow> instant option \<Rightarrow> semantic_eligibility outcome" where
  "assess_news_semantic_eligibility M row epoch =
     bind_out (time_of M (nr_first_seen row)) (\<lambda>seen.
       case seen of
         None \<Rightarrow> Inl (ValueError ''collector_first_seen_time requires a timestamp'')
       | Some first_seen \<Rightarrow>
           (case epoch of
              None \<Rightarrow> Inl (ValueError ''forward_epoch requires a timestamp'')
            | Some start \<Rightarrow>
                bind_out (time_of M (nr_published row)) (\<lambda>pub.
                  Inr (judge_semantic (source_reliability row) start first_seen pub))))"

text \<open>The SQL function \<open>news_semantic_is_eligible\<close>, which never raises.\<close>

definition semantic_is_eligible_sql :: "market_library \<Rightarrow> news_row \<Rightarrow> string option \<Rightarrow> int" where
  "semantic_is_eligible_sql M row epoch =
     (case bind_out (time_of M epoch) (assess_news_semantic_eligibility M row) of
        Inl _ \<Rightarrow> 0
      | Inr a \<Rightarrow> if se_eligible a then 1 else 0)"

section \<open>What an assessment means\<close>

text \<open>
  News acts only when it was visible and fresh: a row is eligible exactly when it was first seen and
  published by the decision, published inside the forward epoch unless that is waived, discovered
  within the allowed delay, and no older on the chosen clock than allowed.
\<close>

theorem eligible_news_is_visible_and_fresh:
  assumes "time_of M (nr_first_seen row) = Inr (Some first_seen)" "time_of M (nr_published row) = Inr (Some published)"
    "assess_news_time P M z pol row decision epoch = Inr a"
  shows "na_eligible a \<longleftrightarrow>
    first_seen \<le> decision \<and> published \<le> decision \<and> (epoch \<le> published \<or> tp_pre_forward pol) \<and>
    (case tp_max_delay pol of None \<Rightarrow> True | Some d \<Rightarrow> first_seen - published \<le> d) \<and>
    (case news_elapsed z pol published decision of Inl _ \<Rightarrow> False | Inr elapsed \<Rightarrow> elapsed \<le> tp_max_age pol)"
  using assms
  by (cases "news_elapsed z pol published decision"; cases "tp_max_delay pol")
    (auto simp: assess_news_time_def judge_news_time_def assessment_def Let_def split: if_splits)

text \<open>
  The weekend does not age news: whatever is eligible on the calendar clock is eligible on the clock
  that leaves the weekly closure out, and is at most as old there.
\<close>

theorem weekend_does_not_age_news:
  assumes "session_zone z" "binary64_rounding (fl P)"
    "assess_news_time P M z (pol\<lparr>tp_weekly := False\<rparr>) row decision epoch = Inr a" "na_eligible a"
  shows "\<exists>b. assess_news_time P M z (pol\<lparr>tp_weekly := True\<rparr>) row decision epoch = Inr b \<and> na_eligible b \<and>
    the (na_age b) \<le> the (na_age a)"
proof -
  from assms(3) obtain seen pub where t: "time_of M (nr_first_seen row) = Inr seen" "time_of M (nr_published row) = Inr pub"
    by (auto simp: assess_news_time_def bind_out_Inr_iff)
  obtain first_seen published where s: "seen = Some first_seen" "pub = Some published" "first_seen \<le> decision"
    using assms(3,4) t by (auto simp: assess_news_time_def assessment_def split: option.splits if_splits)
  have a: "a = judge_news_time P (pol\<lparr>tp_weekly := False\<rparr>) decision epoch first_seen published (decision - published)"
    using assms(3) t s by (simp add: assess_news_time_def news_elapsed_def)
  then have p: "published \<le> decision" using assms(4) by (auto simp: judge_news_time_def assessment_def Let_def split: if_splits)
  then obtain v where v: "market_open_elapsed z published decision = Inr v" by (simp add: market_open_elapsed_def)
  have le: "v \<le> decision - published" using open_elapsed_bounds [OF assms(1) v] by simp
  let ?b = "judge_news_time P (pol\<lparr>tp_weekly := True\<rparr>) decision epoch first_seen published v"
  have "assess_news_time P M z (pol\<lparr>tp_weekly := True\<rparr>) row decision epoch = Inr ?b"
    using t s v p by (simp add: assess_news_time_def news_elapsed_def)
  moreover have "na_eligible ?b" using a assms(4) le
    by (auto simp: judge_news_time_def assessment_def Let_def split: if_splits)
  moreover have "fl P (total_seconds P v / 60) \<le> fl P (total_seconds P (decision - published) / 60)"
    unfolding total_seconds_def using le
    by (intro rounding_mono [OF assms(2)] divide_right_mono) simp_all
  then have "the (na_age ?b) \<le> the (na_age a)" using a assms(4) \<open>na_eligible ?b\<close>
    by (auto simp: judge_news_time_def assessment_def Let_def max_def split: if_splits)
  ultimately show ?thesis by blast
qed

text \<open>
  The semantic gate refuses for three reasons only: evidence is understood exactly when it was
  received and published inside the forward epoch and its publication does not follow its receipt
  by more than the allowed skew; lateness never refuses it but is recorded; and the SQL function
  that the queries use decides the same.
\<close>

theorem semantic_gate_decides:
  assumes "time_of M (nr_first_seen row) = Inr (Some first_seen)" "time_of M (nr_published row) = Inr (Some published)"
    "time_of M epoch_text = Inr (Some epoch)"
  shows "\<exists>a. assess_news_semantic_eligibility M row (Some epoch) = Inr a \<and>
    (se_eligible a \<longleftrightarrow> epoch \<le> first_seen \<and> epoch \<le> published \<and> published - first_seen \<le> MAX_PUBLICATION_CLOCK_SKEW) \<and>
    (se_eligible a \<and> published \<le> first_seen \<longrightarrow>
       (''LATE_DISCOVERY'' \<in> set (se_timing a)) = (MAX_ACTIONABLE_DISCOVERY_DELAY < first_seen - published)) \<and>
    semantic_is_eligible_sql M row epoch_text = (if se_eligible a then 1 else 0)"
proof -
  let ?a = "judge_semantic (source_reliability row) epoch first_seen (Some published)"
  have skew: "0 \<le> MAX_PUBLICATION_CLOCK_SKEW" by (simp add: MAX_PUBLICATION_CLOCK_SKEW_def)
  have a: "assess_news_semantic_eligibility M row (Some epoch) = Inr ?a"
    using assms by (simp add: assess_news_semantic_eligibility_def)
  moreover have "se_eligible ?a \<longleftrightarrow>
      epoch \<le> first_seen \<and> epoch \<le> published \<and> published - first_seen \<le> MAX_PUBLICATION_CLOCK_SKEW"
    using skew by (auto simp: judge_semantic_def publication_clock_def Let_def)
  moreover have "se_eligible ?a \<Longrightarrow> published \<le> first_seen \<Longrightarrow>
      (''LATE_DISCOVERY'' \<in> set (se_timing ?a)) = (MAX_ACTIONABLE_DISCOVERY_DELAY < first_seen - published)"
    by (auto simp: judge_semantic_def publication_clock_def timing_reasons_def Let_def split: if_splits)
  moreover have "semantic_is_eligible_sql M row epoch_text = (if se_eligible ?a then 1 else 0)"
    using a assms(3) by (simp add: semantic_is_eligible_sql_def)
  ultimately show ?thesis by blast
qed

subsection \<open>Witnesses\<close>

text \<open>Times are as many seconds as their text has characters.\<close>

definition sample_row :: "nat \<Rightarrow> nat \<Rightarrow> news_row" where
  "sample_row published seen = \<lparr>nr_source = Some ''fed'', nr_published = Some (replicate published CHR ''t''),
     nr_first_seen = Some (replicate seen CHR ''t'')\<rparr>"

lemma sample_time: "n \<noteq> 0 \<Longrightarrow> time_of sample_library (Some (replicate n c)) = Inr (Some (seconds (int n)))"
  by (simp add: time_of_def sample_library_def)

definition sample_assessment :: "bool \<Rightarrow> news_time_assessment outcome" where
  "sample_assessment weekly = assess_news_time sample_platform sample_library sample_zone
     (default_time_policy\<lparr>tp_weekly := weekly\<rparr>) (sample_row 2 5) (days 3) 0"

lemma sample_assessment_eq:
  "sample_assessment False = Inr (judge_news_time sample_platform (default_time_policy\<lparr>tp_weekly := False\<rparr>)
     (days 3) 0 (seconds 5) (seconds 2) (days 3 - seconds 2))"
  unfolding sample_assessment_def assess_news_time_def sample_row_def
  by (simp add: sample_time news_elapsed_def del: replicate.simps)

lemma sample_eligible:
  "na_eligible (judge_news_time sample_platform (default_time_policy\<lparr>tp_weekly := False\<rparr>)
     (days 3) 0 (seconds 5) (seconds 2) (days 3 - seconds 2))"
  by (simp add: judge_news_time_def assessment_def default_time_policy_def Let_def
      MAX_ACTIONABLE_NEWS_AGE_def MAX_ACTIONABLE_DISCOVERY_DELAY_def)

theorem eligible_news_is_visible_and_fresh_witness:
  "\<exists>a. sample_assessment False = Inr a \<and> na_eligible a"
proof -
  let ?pol = "default_time_policy\<lparr>tp_weekly := False\<rparr>"
  let ?a = "judge_news_time sample_platform ?pol (days 3) 0 (seconds 5) (seconds 2) (days 3 - seconds 2)"
  have t: "time_of sample_library (nr_first_seen (sample_row 2 5)) = Inr (Some (seconds 5))"
    "time_of sample_library (nr_published (sample_row 2 5)) = Inr (Some (seconds 2))"
    by (simp_all add: sample_row_def sample_time del: replicate.simps)
  have "na_eligible ?a \<longleftrightarrow>
    seconds 5 \<le> days 3 \<and> seconds 2 \<le> days 3 \<and> (0 \<le> seconds 2 \<or> tp_pre_forward ?pol) \<and>
    (case tp_max_delay ?pol of None \<Rightarrow> True | Some d \<Rightarrow> seconds 5 - seconds 2 \<le> d) \<and>
    (case news_elapsed sample_zone ?pol (seconds 2) (days 3) of Inl _ \<Rightarrow> False | Inr v \<Rightarrow> v \<le> tp_max_age ?pol)"
    by (rule eligible_news_is_visible_and_fresh
        [OF t sample_assessment_eq [unfolded sample_assessment_def]])
  then have "na_eligible ?a"
    by (simp add: news_elapsed_def default_time_policy_def MAX_ACTIONABLE_NEWS_AGE_def MAX_ACTIONABLE_DISCOVERY_DELAY_def)
  with sample_assessment_eq show ?thesis by blast
qed

theorem weekend_does_not_age_news_witness:
  "\<exists>b. sample_assessment True = Inr b \<and> na_eligible b"
proof -
  have "binary64_rounding (fl sample_platform)" by (simp add: binary64_rounding_def sample_platform_def)
  from weekend_does_not_age_news [OF sample_zone_ok this
      sample_assessment_eq [unfolded sample_assessment_def] sample_eligible]
  show ?thesis unfolding sample_assessment_def by blast
qed

theorem semantic_gate_decides_witness:
  "semantic_is_eligible_sql sample_library (sample_row 20 5) (Some ''tt'') = 1"
proof -
  have t: "time_of sample_library (nr_first_seen (sample_row 20 5)) = Inr (Some (seconds 5))"
    "time_of sample_library (nr_published (sample_row 20 5)) = Inr (Some (seconds 20))"
    "time_of sample_library (Some ''tt'') = Inr (Some (seconds 2))"
    using sample_time [of 2 "CHR ''t''"]
    by (simp_all add: sample_row_def sample_time numeral_2_eq_2 del: replicate.simps) (simp add: time_of_def sample_library_def)
  from semantic_gate_decides [OF t] show ?thesis by (auto simp: MAX_PUBLICATION_CLOCK_SKEW_def)
qed

end
