(* ===== verification/News_Ledger.thy ===== *)
theory News_Ledger
  imports Job_Counts News_Time "HOL-Library.Sublist"
begin

text \<open>
  The append-only evidence of the news, \<^verbatim>\<open>ForwardLedger\<close> of \<^verbatim>\<open>xauusd_news/evidence/ledger.py\<close>, and the
  current state of every cluster that \<^verbatim>\<open>xauusd_news/news/semantics/critical_state.py\<close> keeps for the
  dashboard: its representative, its content and annotation state, and their totals. Whatever is
  appended, the current state is that of a recomputation, and what was visible at a decision stays so.

  The times of a record are instants: a naive \<open>datetime\<close> raises before anything is written. Of an
  annotation the columns and the two fields of its JSON that other parts query are kept: the reason,
  by the prefix the predicates look for, and the relevance.
\<close>

section \<open>Tables\<close>

record revision =
  vn_source :: string
  vn_item :: string
  vn_number :: int
  vn_published :: "instant option"
  vn_first_seen :: instant
  vn_item_first_seen :: instant
  vn_fetched :: instant
  vn_headline :: string
  vn_body :: "string option"
  vn_link :: "string option"
  vn_hash :: string
  vn_cluster :: string
  vn_latency :: "real option"

text \<open>The key of a revision, and the article it is a revision of.\<close>

type_synonym source_key = "string \<times> string \<times> int"

definition key_of :: "revision \<Rightarrow> source_key" where
  "key_of n = (vn_source n, vn_item n, vn_number n)"

definition article :: "revision \<Rightarrow> string \<times> string" where
  "article n = (vn_source n, vn_item n)"

datatype reason_kind = LegacyInvalid | DisplayFallback | SoundReason

record annotation_row =
  nn_id :: string
  nn_key :: source_key
  nn_hash :: string
  nn_model :: string
  nn_prompt :: string
  nn_started :: instant
  nn_parsed :: instant
  nn_reason :: reason_kind
  nn_relevance :: "string option"

record content_failure =
  cf_id :: string
  cf_key :: source_key
  cf_hash :: string
  cf_attempt :: int
  cf_error_type :: string
  cf_signature :: string
  cf_error :: string
  cf_failed_at :: instant
  cf_next_retry :: "instant option"
  cf_terminal :: bool

record title_translation =
  tt_id :: string
  tt_key :: source_key
  tt_hash :: string
  tt_headline :: string
  tt_model :: string
  tt_prompt :: string
  tt_started :: instant
  tt_parsed :: instant

record macro_observation =
  ma_source :: string
  ma_series :: string
  ma_period :: string
  ma_number :: int
  ma_first_seen :: instant
  ma_fetched :: instant
  ma_value :: real
  ma_unit :: string
  ma_footnotes :: json
  ma_payload :: json
  ma_hash :: string

record source_poll =
  sp_id :: string
  sp_source :: string
  sp_fetched :: instant
  sp_status :: string
  sp_payload_hash :: "string option"
  sp_error_type :: "string option"
  sp_error :: "string option"
  sp_http_status :: "int option"
  sp_retry_after :: "int option"

record discovery_failure =
  xf_id :: string
  xf_source :: string
  xf_item :: string
  xf_attempt :: int
  xf_error_type :: string
  xf_error :: string
  xf_failed_at :: instant
  xf_next_retry :: instant

record intake_rejection =
  ir_id :: string
  ir_source :: string
  ir_poll :: string
  ir_batch :: string
  ir_row :: int
  ir_row_hash :: string
  ir_reason :: string
  ir_diagnostics :: json
  ir_rejected_at :: instant

datatype content_state = AVAILABLE | WAITING | UNAVAILABLE

datatype annotation_state = READY | PENDING | NONE_DUE

record current_row =
  cu_cluster :: string
  cu_key :: source_key
  cu_content :: content_state
  cu_invalid :: bool
  cu_annotation :: annotation_state

record current_totals =
  cc_waiting :: int
  cc_unavailable :: int
  cc_invalid :: int
  cc_ready :: int
  cc_pending :: int

record ledger_db =
  ld_epoch :: "instant option"
  ld_revisions :: "revision list"
  ld_annotations :: "annotation_row list"
  ld_content_failures :: "content_failure list"
  ld_translations :: "title_translation list"
  ld_macro :: "macro_observation list"
  ld_polls :: "source_poll list"
  ld_discovery_failures :: "discovery_failure list"
  ld_rejections :: "intake_rejection list"
  ld_current :: "current_row list"
  ld_totals :: current_totals
  ld_jobs :: "job list"

section \<open>The current state of a cluster\<close>

definition body_length :: "revision \<Rightarrow> nat" where
  "body_length n = (case vn_body n of None \<Rightarrow> 0 | Some b \<Rightarrow> length b)"

text \<open>\<open>preferred_cluster_peer_predicate\<close>: a longer body, or the smaller identity among equal ones.\<close>

definition preferred_peer :: "revision \<Rightarrow> revision \<Rightarrow> bool" where
  "preferred_peer p n \<longleftrightarrow>
     body_length n < body_length p \<or>
     (body_length p = body_length n \<and>
      (vn_source p < vn_source n \<or> (vn_source p = vn_source n \<and> vn_item p < vn_item n)))"

text \<open>\<open>news_representative_key\<close>, the Python spelling of the same order.\<close>

definition representative_key :: "revision \<Rightarrow> int \<times> string \<times> string" where
  "representative_key n = (- int (body_length n), vn_source n, vn_item n)"

definition is_latest :: "revision list \<Rightarrow> revision \<Rightarrow> bool" where
  "is_latest revs n \<longleftrightarrow> \<not> list_ex (\<lambda>m. article m = article n \<and> vn_number n < vn_number m) revs"

definition current_in :: "revision list \<Rightarrow> string \<Rightarrow> revision \<Rightarrow> bool" where
  "current_in revs c n \<longleftrightarrow> vn_cluster n = c \<and> is_latest revs n"

definition preferred_cluster_row :: "revision list \<Rightarrow> string \<Rightarrow> revision option" where
  "preferred_cluster_row revs c =
     find (\<lambda>n. current_in revs c n \<and> \<not> list_ex (\<lambda>p. current_in revs c p \<and> preferred_peer p n) revs) revs"

definition ANNOTATION_BODY_MIN_CHARACTERS :: nat where "ANNOTATION_BODY_MIN_CHARACTERS = 240"

definition body_is_complete :: "revision \<Rightarrow> bool" where
  "body_is_complete n \<longleftrightarrow>
     ANNOTATION_BODY_MIN_CHARACTERS \<le> length (strip (case vn_body n of None \<Rightarrow> [] | Some b \<Rightarrow> b))"

definition content_state_of :: "content_failure list \<Rightarrow> revision \<Rightarrow> content_state" where
  "content_state_of failures n =
     (if body_is_complete n then AVAILABLE
      else case sql_first (\<lambda>f. - cf_attempt f) (\<lambda>f. cf_key f = key_of n) failures of
        None \<Rightarrow> WAITING
      | Some f \<Rightarrow> if cf_terminal f then UNAVAILABLE else WAITING)"

text \<open>\<open>model_usable_annotation_predicate\<close> and \<open>display_repair_checkpoint_predicate\<close>.\<close>

definition usable_annotation :: "annotation_row \<Rightarrow> bool" where
  "usable_annotation a \<longleftrightarrow> nn_reason a \<noteq> LegacyInvalid \<and> nn_reason a \<noteq> DisplayFallback"

definition repair_checkpoint :: "annotation_row \<Rightarrow> bool" where
  "repair_checkpoint a \<longleftrightarrow> nn_reason a = DisplayFallback"

definition CURRENT_NEWS_PROMPT_VERSION :: string where
  "CURRENT_NEWS_PROMPT_VERSION = ''news-json-v17-source-grounded-latin-display''"

definition SUPPORTED_GEMINI_MODELS :: "string list" where
  "SUPPORTED_GEMINI_MODELS = [DEFAULT_GEMINI_MODEL, FALLBACK_GEMINI_MODEL]"

text \<open>The ledger stores the text of each instant, which reads back as the instant.\<close>

definition semantically_eligible :: "instant \<Rightarrow> revision \<Rightarrow> bool" where
  "semantically_eligible epoch n =
     se_eligible (judge_semantic
       (source_reliability \<lparr>nr_source = Some (vn_source n), nr_published = None, nr_first_seen = None\<rparr>)
       epoch (vn_first_seen n) (vn_published n))"

definition annotation_state_of :: "instant option \<Rightarrow> annotation_row list \<Rightarrow> revision \<Rightarrow> annotation_state" where
  "annotation_state_of epoch annotations n =
     (if \<not> body_is_complete n then NONE_DUE
      else case epoch of
        None \<Rightarrow> NONE_DUE
      | Some t \<Rightarrow>
          if \<not> semantically_eligible t n then NONE_DUE
          else if list_ex (\<lambda>a. nn_key a = key_of n \<and> nn_model a \<in> set SUPPORTED_GEMINI_MODELS \<and>
                    nn_prompt a = CURRENT_NEWS_PROMPT_VERSION \<and> usable_annotation a) annotations
          then READY else PENDING)"

definition has_invalid_display :: "annotation_row list \<Rightarrow> revision \<Rightarrow> bool" where
  "has_invalid_display annotations n =
     list_ex (\<lambda>f. nn_key f = key_of n \<and> repair_checkpoint f \<and>
       (case nn_relevance f of None \<Rightarrow> ''IRRELEVANT'' | Some r \<Rightarrow> r) \<noteq> ''IRRELEVANT'' \<and>
       \<not> list_ex (\<lambda>a. nn_key a = nn_key f \<and> nn_prompt a = nn_prompt f \<and> nn_parsed f < nn_parsed a \<and>
            usable_annotation a) annotations) annotations"

definition state_row :: "ledger_db \<Rightarrow> string \<Rightarrow> revision \<Rightarrow> current_row" where
  "state_row db c n =
     \<lparr>cu_cluster = c, cu_key = key_of n, cu_content = content_state_of (ld_content_failures db) n,
      cu_invalid = has_invalid_display (ld_annotations db) n,
      cu_annotation = annotation_state_of (ld_epoch db) (ld_annotations db) n\<rparr>"

text \<open>The triggers on \<open>dashboard_news_current_state_v1\<close> add and subtract a row's share.\<close>

definition share :: "current_row \<Rightarrow> current_totals" where
  "share r = \<lparr>cc_waiting = of_bool (cu_content r = WAITING), cc_unavailable = of_bool (cu_content r = UNAVAILABLE),
     cc_invalid = of_bool (cu_invalid r), cc_ready = of_bool (cu_annotation r = READY),
     cc_pending = of_bool (cu_annotation r = PENDING)\<rparr>"

definition add_share :: "int \<Rightarrow> current_row \<Rightarrow> current_totals \<Rightarrow> current_totals" where
  "add_share k r t = (let s = share r in
     \<lparr>cc_waiting = cc_waiting t + k * cc_waiting s, cc_unavailable = cc_unavailable t + k * cc_unavailable s,
      cc_invalid = cc_invalid t + k * cc_invalid s, cc_ready = cc_ready t + k * cc_ready s,
      cc_pending = cc_pending t + k * cc_pending s\<rparr>)"

definition delete_current :: "string \<Rightarrow> ledger_db \<Rightarrow> ledger_db" where
  "delete_current c db =
     db\<lparr>ld_current := sql_delete (\<lambda>r. cu_cluster r = c) (ld_current db),
        ld_totals := fold (add_share (- 1)) (filter (\<lambda>r. cu_cluster r = c) (ld_current db)) (ld_totals db)\<rparr>"

definition store_current :: "current_row \<Rightarrow> ledger_db \<Rightarrow> ledger_db" where
  "store_current new db =
     db\<lparr>ld_current := sql_upsert cu_cluster (\<lambda>_. new) new (ld_current db),
        ld_totals :=
          (case find (\<lambda>r. cu_cluster r = cu_cluster new) (ld_current db) of
             None \<Rightarrow> add_share 1 new (ld_totals db)
           | Some old \<Rightarrow> add_share 1 new (add_share (- 1) old (ld_totals db)))\<rparr>"

definition refresh_news_cluster_state :: "string option \<Rightarrow> ledger_db \<Rightarrow> ledger_db" where
  "refresh_news_cluster_state cluster db =
     (case cluster of
        None \<Rightarrow> db
      | Some c \<Rightarrow>
          if c = [] then db
          else case preferred_cluster_row (ld_revisions db) c of
            None \<Rightarrow> delete_current c db
          | Some n \<Rightarrow> store_current (state_row db c n) db)"

definition refresh_news_revision_state :: "source_key \<Rightarrow> ledger_db \<Rightarrow> ledger_db" where
  "refresh_news_revision_state key db =
     (case find (\<lambda>n. key_of n = key) (ld_revisions db) of
        None \<Rightarrow> db
      | Some n \<Rightarrow> refresh_news_cluster_state (Some (vn_cluster n)) db)"

section \<open>Appending\<close>

text \<open>A new revision of an article; a content that the article already had is not appended again.\<close>

record revision_record =
  rr_source_name :: string
  rr_item :: string
  rr_published :: "instant option"
  rr_first_seen :: instant
  rr_fetched :: instant
  rr_headline :: string
  rr_body :: "string option"
  rr_link :: "string option"
  rr_hash :: string
  rr_cluster :: string

definition latest_revision :: "revision list \<Rightarrow> string \<times> string \<Rightarrow> revision option" where
  "latest_revision revs a = sql_first (\<lambda>n. - vn_number n) (\<lambda>n. article n = a) revs"

definition new_revision :: "platform \<Rightarrow> revision_record \<Rightarrow> revision option \<Rightarrow> revision" where
  "new_revision P q latest =
     \<lparr>vn_source = rr_source_name q, vn_item = rr_item q,
      vn_number = (case latest of None \<Rightarrow> 1 | Some l \<Rightarrow> vn_number l + 1),
      vn_published = rr_published q, vn_first_seen = rr_first_seen q,
      vn_item_first_seen = (case latest of None \<Rightarrow> rr_first_seen q | Some l \<Rightarrow> vn_item_first_seen l),
      vn_fetched = rr_fetched q, vn_headline = rr_headline q, vn_body = rr_body q, vn_link = rr_link q,
      vn_hash = rr_hash q, vn_cluster = rr_cluster q,
      vn_latency = map_option (\<lambda>p. total_seconds P (rr_first_seen q - p)) (rr_published q)\<rparr>"

definition append_news_revision ::
    "platform \<Rightarrow> revision_record \<Rightarrow> ledger_db \<Rightarrow> ((int \<times> bool) \<times> ledger_db) outcome" where
  "append_news_revision P q db =
     (let a = (rr_source_name q, rr_item q)
      in if rr_fetched q < rr_first_seen q then Inl (ValueError ''news first-seen time cannot follow fetched time'')
         else case find (\<lambda>n. article n = a \<and> vn_hash n = rr_hash q) (ld_revisions db) of
           Some n \<Rightarrow> Inr ((vn_number n, False), db)
         | None \<Rightarrow>
             (let latest = latest_revision (ld_revisions db) a;
                  n = new_revision P q latest;
                  db1 = db\<lparr>ld_revisions := ld_revisions db @ [n]\<rparr>;
                  db2 = refresh_news_cluster_state (map_option vn_cluster latest) db1
              in Inr ((vn_number n, True), refresh_news_cluster_state (Some (rr_cluster q)) db2)))"

text \<open>The guard that ties a derived row to the revision it was derived from.\<close>

definition matches_revision :: "source_key \<Rightarrow> string \<Rightarrow> ledger_db \<Rightarrow> bool" where
  "matches_revision key hash db =
     (case find (\<lambda>n. key_of n = key) (ld_revisions db) of None \<Rightarrow> False | Some n \<Rightarrow> vn_hash n = hash)"

definition append_content_failure :: "content_failure \<Rightarrow> ledger_db \<Rightarrow> ledger_db outcome" where
  "append_content_failure f db =
     (if \<not> matches_revision (cf_key f) (cf_hash f) db
      then Inl (ValueError ''content failure does not match an immutable news revision'')
      else if (case cf_next_retry f of None \<Rightarrow> False | Some t \<Rightarrow> t < cf_failed_at f)
      then Inl (ValueError ''content retry time precedes failure time'')
      else if cf_terminal f \<and> cf_next_retry f \<noteq> None
      then Inl (ValueError ''terminal content failure cannot have a retry time'')
      else if list_ex (\<lambda>g. cf_id g = cf_id f \<or> cf_key g = cf_key f \<and> cf_attempt g = cf_attempt f) (ld_content_failures db)
      then Inl (IntegrityError ''UNIQUE constraint failed'')
      else if cf_attempt f < 1 then Inl (IntegrityError ''CHECK constraint failed'')
      else Inr (refresh_news_revision_state (cf_key f)
             (db\<lparr>ld_content_failures := ld_content_failures db @ [f]\<rparr>)))"

text \<open>A completion that did not come through a leased job; it never touches a leased one.\<close>

definition completed_job ::
    "platform \<Rightarrow> source_key \<Rightarrow> string \<Rightarrow> instant \<Rightarrow> work_provenance option \<Rightarrow> job list \<Rightarrow> job" where
  "completed_job P key prompt completed_at provenance jobs =
     (case key of (source, item, number) \<Rightarrow>
        let jid = job_hash P (task_name ACTIVE_ANNOTATION) source item number [] prompt;
            resolved = (case provenance of
                Some w \<Rightarrow> Some w
              | None \<Rightarrow> (case find (\<lambda>j. j_id j = jid) jobs of
                  Some j \<Rightarrow> if j_lane_classified j
                            then Some \<lparr>wp_lane = j_lane j, wp_origin_task = task_name ACTIVE_ANNOTATION, wp_origin_ref = jid\<rparr>
                            else None
                | None \<Rightarrow> None));
            lane = (case resolved of Some w \<Rightarrow> wp_lane w | None \<Rightarrow> LIVE);
            known = (resolved \<noteq> None)
        in \<lparr>j_id = jid, j_task = ACTIVE_ANNOTATION, j_source = source, j_item = item, j_revision = number,
            j_annotation = [], j_prompt = prompt,
            j_priority = (if lane = CONTRACT_BACKFILL then BACKGROUND else NORMAL), j_state = COMPLETED,
            j_available_at = completed_at, j_lease_owner = None, j_lease_expires_at = None, j_attempt_count = 0,
            j_last_error = None, j_created_at = completed_at, j_updated_at = completed_at,
            j_completed_at = Some completed_at, j_lane = lane, j_lane_classified = known,
            j_provenance_resolved = known,
            j_provenance_version = (if known then Some WORK_PROVENANCE_VERSION else None),
            j_origin_task = map_option wp_origin_task resolved, j_origin_ref = map_option wp_origin_ref resolved\<rparr>)"

definition complete_row :: "job \<Rightarrow> job \<Rightarrow> job" where
  "complete_row new j =
     j\<lparr>j_state := COMPLETED, j_available_at := j_available_at new, j_lease_owner := None, j_lease_expires_at := None,
       j_last_error := None, j_updated_at := j_updated_at new, j_completed_at := j_completed_at new,
       j_priority := j_priority new, j_lane := j_lane new, j_lane_classified := j_lane_classified new,
       j_provenance_resolved := j_provenance_resolved new, j_provenance_version := j_provenance_version new,
       j_origin_task := j_origin_task new, j_origin_ref := j_origin_ref new\<rparr>"

definition record_annotation_completion ::
    "platform \<Rightarrow> source_key \<Rightarrow> string \<Rightarrow> instant \<Rightarrow> work_provenance option \<Rightarrow> ledger_db \<Rightarrow> ledger_db outcome" where
  "record_annotation_completion P key prompt completed_at provenance db =
     (if \<not> list_ex (\<lambda>a. nn_key a = key \<and> nn_prompt a = prompt \<and> usable_annotation a) (ld_annotations db)
      then Inr db
      else
        (let new = completed_job P key prompt completed_at provenance (ld_jobs db)
         in if list_ex (\<lambda>j. j_id j = j_id new) (ld_jobs db)
            then Inr (db\<lparr>ld_jobs := sql_update (\<lambda>j. j_id j = j_id new \<and> j_state j \<noteq> LEASED) (complete_row new) (ld_jobs db)\<rparr>)
            else if list_ex (\<lambda>j. job_identity j = job_identity new) (ld_jobs db)
            then Inl (IntegrityError ''UNIQUE constraint failed'')
            else Inr (db\<lparr>ld_jobs := ld_jobs db @ [new]\<rparr>)))"

text \<open>
  \<open>append_annotation\<close> for an annotation whose vector has passed the validation of its fields, which is
  not modelled.
\<close>

definition append_annotation :: "platform \<Rightarrow> annotation_row \<Rightarrow> ledger_db \<Rightarrow> ledger_db outcome" where
  "append_annotation P a db =
     (if \<not> matches_revision (nn_key a) (nn_hash a) db
      then Inl (ValueError ''annotation does not match an immutable news revision'')
      else if nn_parsed a < nn_started a then Inl (ValueError ''annotation parse completion precedes parse start'')
      else if list_ex (\<lambda>b. nn_id b = nn_id a) (ld_annotations db) then Inl (IntegrityError ''UNIQUE constraint failed'')
      else
        bind_out (record_annotation_completion P (nn_key a) (nn_prompt a) (nn_parsed a) None
                    (db\<lparr>ld_annotations := ld_annotations db @ [a]\<rparr>))
          (\<lambda>db1. Inr (refresh_news_revision_state (nn_key a) db1)))"

definition append_title_translation :: "title_translation \<Rightarrow> ledger_db \<Rightarrow> ledger_db outcome" where
  "append_title_translation t db =
     (if \<not> matches_revision (tt_key t) (tt_hash t) db
      then Inl (ValueError ''title translation does not match an immutable news revision'')
      else if tt_parsed t < tt_started t then Inl (ValueError ''title translation completion precedes start'')
      else if strip (tt_headline t) = [] then Inl (ValueError ''translated headline is empty'')
      else if list_ex (\<lambda>u. tt_id u = tt_id t) (ld_translations db) then Inl (IntegrityError ''UNIQUE constraint failed'')
      else Inr (db\<lparr>ld_translations := ld_translations db @ [t\<lparr>tt_headline := strip (tt_headline t)\<rparr>]\<rparr>))"

text \<open>A later published value of an observation; only the latest one is compared.\<close>

definition append_macro_observation :: "macro_observation \<Rightarrow> ledger_db \<Rightarrow> ((int \<times> bool) \<times> ledger_db) outcome" where
  "append_macro_observation q db =
     (let same = (\<lambda>m. ma_source m = ma_source q \<and> ma_series m = ma_series q \<and> ma_period m = ma_period q);
          store = (\<lambda>number.
             if list_ex (\<lambda>m. same m \<and> ma_hash m = ma_hash q) (ld_macro db)
             then Inl (IntegrityError ''UNIQUE constraint failed'')
             else Inr ((number, True), db\<lparr>ld_macro := ld_macro db @ [q\<lparr>ma_number := number\<rparr>]\<rparr>))
      in case sql_first (\<lambda>m. - ma_number m) same (ld_macro db) of
           None \<Rightarrow> store 1
         | Some l \<Rightarrow> if ma_hash l = ma_hash q then Inr ((ma_number l, False), db) else store (ma_number l + 1))"

definition append_source_poll :: "source_poll \<Rightarrow> ledger_db \<Rightarrow> ledger_db outcome" where
  "append_source_poll p db =
     (if list_ex (\<lambda>q. sp_id q = sp_id p) (ld_polls db) then Inl (IntegrityError ''UNIQUE constraint failed'')
      else Inr (db\<lparr>ld_polls := ld_polls db @ [p]\<rparr>))"

definition append_discovery_failure :: "discovery_failure \<Rightarrow> ledger_db \<Rightarrow> ledger_db outcome" where
  "append_discovery_failure f db =
     (if xf_next_retry f \<le> xf_failed_at f then Inl (ValueError ''discovery retry time must follow failure time'')
      else if list_ex (\<lambda>g. xf_id g = xf_id f \<or>
                (xf_source g, xf_item g, xf_attempt g) = (xf_source f, xf_item f, xf_attempt f)) (ld_discovery_failures db)
      then Inl (IntegrityError ''UNIQUE constraint failed'')
      else if xf_attempt f < 1 then Inl (IntegrityError ''CHECK constraint failed'')
      else Inr (db\<lparr>ld_discovery_failures := ld_discovery_failures db @ [f]\<rparr>))"

definition append_intake_rejection :: "platform \<Rightarrow> intake_rejection \<Rightarrow> ledger_db \<Rightarrow> ledger_db outcome" where
  "append_intake_rejection P r db =
     (if 1024 < length (json_dumps P (ir_diagnostics r))
      then Inl (ValueError ''news intake rejection diagnostics exceed bounded storage'')
      else if list_ex (\<lambda>q. ir_id q = ir_id r \<or>
                (ir_source q, ir_poll q, ir_row q) = (ir_source r, ir_poll r, ir_row r)) (ld_rejections db)
      then Inl (IntegrityError ''UNIQUE constraint failed'')
      else if ir_row r < 1 then Inl (IntegrityError ''CHECK constraint failed'')
      else if \<not> list_ex (\<lambda>p. sp_id p = ir_poll r) (ld_polls db)
      then Inl (IntegrityError ''FOREIGN KEY constraint failed'')
      else Inr (db\<lparr>ld_rejections := ld_rejections db @ [r]\<rparr>))"

section \<open>Reading\<close>

definition latest_successful_source_poll_time :: "string \<Rightarrow> ledger_db \<Rightarrow> instant option" where
  "latest_successful_source_poll_time source db =
     map_option sp_fetched
       (case sort_key (\<lambda>p. (sp_fetched p, sp_id p)) (filter (\<lambda>p. sp_source p = source \<and> sp_status p = ''OK'') (ld_polls db)) of
          [] \<Rightarrow> None | p # ps \<Rightarrow> Some (last (p # ps)))"

definition visible_revision :: "instant \<Rightarrow> revision list \<Rightarrow> revision \<Rightarrow> bool" where
  "visible_revision t revs n \<longleftrightarrow>
     vn_first_seen n \<le> t \<and>
     \<not> list_ex (\<lambda>m. article m = article n \<and> vn_number n < vn_number m \<and> vn_first_seen m \<le> t) revs"

definition visible_news :: "instant \<Rightarrow> ledger_db \<Rightarrow> revision list" where
  "visible_news t db = sort_key article (filter (visible_revision t (ld_revisions db)) (ld_revisions db))"

definition visible_annotation :: "instant \<Rightarrow> revision list \<Rightarrow> annotation_row \<Rightarrow> bool" where
  "visible_annotation t revs a \<longleftrightarrow>
     nn_parsed a \<le> t \<and> list_ex (\<lambda>n. key_of n = nn_key a \<and> vn_first_seen n \<le> t \<and> nn_hash a = vn_hash n) revs"

definition visible_annotations :: "instant \<Rightarrow> ledger_db \<Rightarrow> annotation_row list" where
  "visible_annotations t db =
     sort_key nn_key (filter (visible_annotation t (ld_revisions db)) (ld_annotations db))"

definition news_current_counts :: "ledger_db \<Rightarrow> int \<times> int \<times> int" where
  "news_current_counts db = (cc_waiting (ld_totals db), cc_unavailable (ld_totals db), cc_invalid (ld_totals db))"

section \<open>The current state is that of a recomputation\<close>

subsection \<open>Totals\<close>

definition totals_ok :: "current_totals \<Rightarrow> current_row list \<Rightarrow> bool" where
  "totals_ok t rows \<longleftrightarrow>
     cc_waiting t = sql_count (\<lambda>r. cu_content r = WAITING) rows \<and>
     cc_unavailable t = sql_count (\<lambda>r. cu_content r = UNAVAILABLE) rows \<and>
     cc_invalid t = sql_count cu_invalid rows \<and>
     cc_ready t = sql_count (\<lambda>r. cu_annotation r = READY) rows \<and>
     cc_pending t = sql_count (\<lambda>r. cu_annotation r = PENDING) rows"

lemma count_replaced:
  assumes "distinct (map cu_cluster rows)" "find (\<lambda>r. cu_cluster r = c) rows = Some old"
  shows "sql_count p (sql_update (\<lambda>r. cu_cluster r = c) (\<lambda>_. new) rows) =
    sql_count p rows - of_bool (p old) + of_bool (p new)"
  using assms
proof (induction rows)
  case (Cons r rows)
  show ?case
  proof (cases "cu_cluster r = c")
    case True
    have "cu_cluster x \<noteq> c" if "x \<in> set rows" for x using that True Cons.prems(1) by (metis distinct.simps(2) imageI list.simps(9) list.set_map)
    then have "sql_update (\<lambda>r. cu_cluster r = c) (\<lambda>_. new) rows = rows" by (intro sql_update_id) auto
    with True Cons.prems(2) show ?thesis by (auto simp: sql_update_def sql_count_Cons)
  next
    case False
    with Cons show ?thesis by (simp add: sql_update_def sql_count_Cons)
  qed
qed simp

lemma count_deleted: "sql_count p (sql_delete q rows) = sql_count p rows - sql_count (\<lambda>r. q r \<and> p r) rows"
  by (induction rows) (auto simp: sql_delete_def sql_count_Cons sql_count_def)

lemma totals_new: "totals_ok t rows \<Longrightarrow> totals_ok (add_share 1 r t) (rows @ [r])"
  by (simp add: totals_ok_def add_share_def share_def Let_def sql_count_append sql_count_Cons) (simp add: sql_count_def)

lemma totals_replaced:
  assumes "totals_ok t rows" "distinct (map cu_cluster rows)" "find (\<lambda>r. cu_cluster r = c) rows = Some old"
  shows "totals_ok (add_share 1 new (add_share (- 1) old t)) (sql_update (\<lambda>r. cu_cluster r = c) (\<lambda>_. new) rows)"
  using assms(1) by (simp add: totals_ok_def add_share_def share_def Let_def count_replaced [OF assms(2,3)])

lemma totals_removed: "fold (add_share (- 1)) rows t =
   \<lparr>cc_waiting = cc_waiting t - sql_count (\<lambda>r. cu_content r = WAITING) rows,
    cc_unavailable = cc_unavailable t - sql_count (\<lambda>r. cu_content r = UNAVAILABLE) rows,
    cc_invalid = cc_invalid t - sql_count cu_invalid rows,
    cc_ready = cc_ready t - sql_count (\<lambda>r. cu_annotation r = READY) rows,
    cc_pending = cc_pending t - sql_count (\<lambda>r. cu_annotation r = PENDING) rows\<rparr>"
  by (induction rows arbitrary: t) (auto simp: add_share_def share_def Let_def sql_count_Cons sql_count_def)

lemma totals_deleted:
  assumes "totals_ok t rows"
  shows "totals_ok (fold (add_share (- 1)) (filter q rows) t) (sql_delete q rows)"
  using assms unfolding totals_removed totals_ok_def count_deleted by (simp add: sql_count_def filter_filter conj_commute)

subsection \<open>Refreshing\<close>

definition expected_row :: "ledger_db \<Rightarrow> string \<Rightarrow> current_row option" where
  "expected_row db c = map_option (state_row db c) (preferred_cluster_row (ld_revisions db) c)"

definition exact_except :: "string set \<Rightarrow> ledger_db \<Rightarrow> bool" where
  "exact_except C db \<longleftrightarrow>
     distinct (map cu_cluster (ld_current db)) \<and> totals_ok (ld_totals db) (ld_current db) \<and>
     (\<forall>c. c \<noteq> [] \<longrightarrow> c \<notin> C \<longrightarrow> find (\<lambda>r. cu_cluster r = c) (ld_current db) = expected_row db c)"

lemma refresh_keeps [simp]:
  "ld_revisions (refresh_news_cluster_state c db) = ld_revisions db"
  "ld_annotations (refresh_news_cluster_state c db) = ld_annotations db"
  "ld_content_failures (refresh_news_cluster_state c db) = ld_content_failures db"
  "ld_epoch (refresh_news_cluster_state c db) = ld_epoch db"
  "ld_jobs (refresh_news_cluster_state c db) = ld_jobs db"
  "ld_translations (refresh_news_cluster_state c db) = ld_translations db"
  "ld_macro (refresh_news_cluster_state c db) = ld_macro db"
  "ld_polls (refresh_news_cluster_state c db) = ld_polls db"
  "ld_discovery_failures (refresh_news_cluster_state c db) = ld_discovery_failures db"
  "ld_rejections (refresh_news_cluster_state c db) = ld_rejections db"
  by (auto simp: refresh_news_cluster_state_def delete_current_def store_current_def split: option.splits)

lemma state_row_refresh [simp]: "state_row (refresh_news_cluster_state c db) = state_row db"
  by (simp add: state_row_def fun_eq_iff)

lemma expected_refresh [simp]: "expected_row (refresh_news_cluster_state c db) = expected_row db"
  by (simp add: expected_row_def fun_eq_iff)

lemma find_upsert_other:
  assumes "cu_cluster new \<noteq> c"
  shows "find (\<lambda>r. cu_cluster r = c) (sql_upsert cu_cluster (\<lambda>_. new) new rows) = find (\<lambda>r. cu_cluster r = c) rows"
proof -
  have "find (\<lambda>r. cu_cluster r = c) (map (\<lambda>r. if cu_cluster r = cu_cluster new then new else r) rows) =
      find (\<lambda>r. cu_cluster r = c) rows"
    using assms by (induction rows) auto
  moreover have "find (\<lambda>r. cu_cluster r = c) (rows @ [new]) = find (\<lambda>r. cu_cluster r = c) rows"
    using assms by (induction rows) auto
  ultimately show ?thesis by (simp add: sql_upsert_def sql_update_def)
qed

lemma find_upsert_new: "find (\<lambda>r. cu_cluster r = cu_cluster new) (sql_upsert cu_cluster (\<lambda>_. new) new rows) = Some new"
proof (cases "cu_cluster new \<in> cu_cluster ` set rows")
  case True
  then have "find (\<lambda>r. cu_cluster r = cu_cluster new) (map (\<lambda>r. if cu_cluster r = cu_cluster new then new else r) rows) = Some new"
    by (induction rows) auto
  with True show ?thesis by (simp add: sql_upsert_def sql_update_def)
next
  case False
  then have "find (\<lambda>r. cu_cluster r = cu_cluster new) (rows @ [new]) = Some new" by (induction rows) auto
  with False show ?thesis by (simp add: sql_upsert_def)
qed

lemma find_delete: "find (\<lambda>r. cu_cluster r = c') (sql_delete (\<lambda>r. cu_cluster r = c) rows) =
   (if c' = c then None else find (\<lambda>r. cu_cluster r = c') rows)"
  by (induction rows) (auto simp: sql_delete_def)

lemma find_cluster_None: "find (\<lambda>r. cu_cluster r = c) rows = None \<Longrightarrow> c \<notin> cu_cluster ` set rows"
  by (auto simp: find_None_iff)

lemma refresh_exact:
  assumes "exact_except C db"
  shows "exact_except (C - {c}) (refresh_news_cluster_state (Some c) db)"
proof (cases "c = []")
  case True
  with assms show ?thesis by (auto simp: refresh_news_cluster_state_def exact_except_def)
next
  case False
  have d: "distinct (map cu_cluster (ld_current db))" and t: "totals_ok (ld_totals db) (ld_current db)"
    and e: "c' \<noteq> [] \<Longrightarrow> c' \<notin> C \<Longrightarrow> find (\<lambda>r. cu_cluster r = c') (ld_current db) = expected_row db c'" for c'
    using assms by (auto simp: exact_except_def)
  show ?thesis
  proof (cases "preferred_cluster_row (ld_revisions db) c")
    case None
    then have r: "refresh_news_cluster_state (Some c) db = delete_current c db"
      using False by (simp add: refresh_news_cluster_state_def)
    have "distinct (map cu_cluster (ld_current (delete_current c db)))"
      using d by (simp add: delete_current_def sql_delete_def distinct_map_filter)
    moreover have "totals_ok (ld_totals (delete_current c db)) (ld_current (delete_current c db))"
      using totals_deleted [OF t] by (simp add: delete_current_def)
    moreover have "find (\<lambda>r. cu_cluster r = c') (ld_current (delete_current c db)) = expected_row db c'"
      if "c' \<noteq> []" "c' \<notin> C - {c}" for c'
      using that e [of c'] None by (auto simp: delete_current_def find_delete expected_row_def)
    ultimately show ?thesis using expected_refresh [of "Some c" db] unfolding exact_except_def r by metis
  next
    case (Some n)
    let ?new = "state_row db c n"
    have k: "cu_cluster ?new = c" by (simp add: state_row_def)
    from Some have r: "refresh_news_cluster_state (Some c) db = store_current ?new db"
      using False by (simp add: refresh_news_cluster_state_def)
    have "distinct (map cu_cluster (ld_current (store_current ?new db)))"
    proof (cases "c \<in> cu_cluster ` set (ld_current db)")
      case True
      have "map cu_cluster (sql_update (\<lambda>r. cu_cluster r = c) (\<lambda>_. ?new) (ld_current db)) = map cu_cluster (ld_current db)"
        by (simp add: sql_update_def k)
      with d True show ?thesis by (simp add: store_current_def sql_upsert_def k)
    next
      case False
      with d show ?thesis by (simp add: store_current_def sql_upsert_def k)
    qed
    moreover have "totals_ok (ld_totals (store_current ?new db)) (ld_current (store_current ?new db))"
    proof (cases "find (\<lambda>r. cu_cluster r = c) (ld_current db)")
      case None
      then show ?thesis using totals_new [OF t] find_cluster_None [OF None] by (simp add: store_current_def sql_upsert_def k)
    next
      case (Some old)
      then have "c \<in> cu_cluster ` set (ld_current db)" by (auto simp: find_Some_iff)
      with Some show ?thesis using totals_replaced [OF t d Some] by (simp add: store_current_def sql_upsert_def k)
    qed
    moreover have "find (\<lambda>r. cu_cluster r = c') (ld_current (store_current ?new db)) = expected_row db c'"
      if "c' \<noteq> []" "c' \<notin> C - {c}" for c'
      using that e [of c'] find_upsert_new [of ?new "ld_current db"] find_upsert_other [of ?new c' "ld_current db"] Some k
      by (cases "c' = c") (auto simp: store_current_def expected_row_def)
    ultimately show ?thesis using expected_refresh [of "Some c" db] unfolding exact_except_def r by metis
  qed
qed

subsection \<open>Revisions\<close>

text \<open>The revisions of an article are numbered one after the other, and none repeats a content.\<close>

definition revisions_ok :: "revision list \<Rightarrow> bool" where
  "revisions_ok revs \<longleftrightarrow>
     (\<forall>a. map vn_number (filter (\<lambda>n. article n = a) revs) = map (\<lambda>i. int i + 1) [0 ..< length (filter (\<lambda>n. article n = a) revs)]) \<and>
     distinct (map (\<lambda>n. (article n, vn_hash n)) revs)"

lemma revisions_okD:
  assumes "revisions_ok revs"
  shows "map vn_number (filter (\<lambda>n. article n = a) revs) = map (\<lambda>i. int i + 1) [0 ..< length (filter (\<lambda>n. article n = a) revs)]"
    "distinct (map (\<lambda>n. (article n, vn_hash n)) revs)"
  using assms unfolding revisions_ok_def by blast+

lemma find_snoc: "\<not> P y \<Longrightarrow> find P (xs @ [y]) = find P xs"
  by (induction xs) auto

lemma find_snoc_new: "find P xs = None \<Longrightarrow> P y \<Longrightarrow> find P (xs @ [y]) = Some y"
  by (induction xs) (auto split: if_splits)

lemma numbers_of_article:
  assumes "revisions_ok revs"
  shows "vn_number ` {n \<in> set revs. article n = a} = {1 .. int (length (filter (\<lambda>n. article n = a) revs))}"
proof -
  let ?rows = "filter (\<lambda>n. article n = a) revs"
  have "vn_number ` {n \<in> set revs. article n = a} = set (map vn_number ?rows)" by auto
  also have "\<dots> = (\<lambda>i. int i + 1) ` {0 ..< length ?rows}" unfolding revisions_okD(1) [OF assms] by simp
  also have "\<dots> = {1 .. int (length ?rows)}"
  proof (intro equalityI subsetI)
    fix x assume "x \<in> {1 .. int (length ?rows)}"
    then have "x = int (nat (x - 1)) + 1" "nat (x - 1) \<in> {0 ..< length ?rows}" by auto
    then show "x \<in> (\<lambda>i. int i + 1) ` {0 ..< length ?rows}" by (rule image_eqI)
  qed auto
  finally show ?thesis .
qed

lemma latest_revision_None: "latest_revision revs a = None \<longleftrightarrow> filter (\<lambda>n. article n = a) revs = []"
  by (auto simp: latest_revision_def sql_first_None_iff filter_empty_conv)

lemma latest_revision_Some:
  assumes "latest_revision revs a = Some l"
  shows "l \<in> set revs" "article l = a" "n \<in> set revs \<Longrightarrow> article n = a \<Longrightarrow> vn_number n \<le> vn_number l"
  using sql_first_SomeD [OF assms [unfolded latest_revision_def]] by fastforce+

lemma latest_number:
  assumes "revisions_ok revs"
  shows "(case latest_revision revs a of None \<Rightarrow> 0 | Some l \<Rightarrow> vn_number l) = int (length (filter (\<lambda>n. article n = a) revs))"
proof (cases "latest_revision revs a")
  case None
  then have "filter (\<lambda>n. article n = a) revs = []" by (simp add: latest_revision_None)
  with None show ?thesis by simp
next
  case (Some l)
  let ?k = "int (length (filter (\<lambda>n. article n = a) revs))"
  note L = latest_revision_Some [OF Some]
  note N = numbers_of_article [OF assms, of a]
  have "filter (\<lambda>n. article n = a) revs \<noteq> []" using Some by (simp flip: latest_revision_None)
  then have "?k \<in> {1 .. ?k}" by (cases "filter (\<lambda>n. article n = a) revs") auto
  then obtain n where "n \<in> set revs" "article n = a" "vn_number n = ?k" unfolding N [symmetric] by auto
  then have "?k \<le> vn_number l" using L(3) by fastforce
  moreover have "vn_number l \<in> {1 .. ?k}" unfolding N [symmetric] using L by auto
  ultimately show ?thesis using Some by simp
qed

lemma article_new [simp]: "article (new_revision P q l) = (rr_source_name q, rr_item q)"
  "vn_cluster (new_revision P q l) = rr_cluster q" "vn_hash (new_revision P q l) = rr_hash q"
  "vn_first_seen (new_revision P q l) = rr_first_seen q"
  by (simp_all add: article_def new_revision_def)

lemma new_number:
  assumes "revisions_ok revs"
  shows "vn_number (new_revision P q (latest_revision revs a)) = int (length (filter (\<lambda>n. article n = a) revs)) + 1"
  using latest_number [OF assms, of a] by (simp add: new_revision_def split: option.splits)

lemma revisions_ok_append:
  assumes "revisions_ok revs" "find (\<lambda>n. article n = a \<and> vn_hash n = rr_hash q) revs = None"
    "a = (rr_source_name q, rr_item q)"
  shows "revisions_ok (revs @ [new_revision P q (latest_revision revs a)])"
proof -
  let ?n = "new_revision P q (latest_revision revs a)"
  have "(a, rr_hash q) \<notin> (\<lambda>n. (article n, vn_hash n)) ` set revs" using assms(2) by (auto simp: find_None_iff)
  then have "distinct (map (\<lambda>n. (article n, vn_hash n)) (revs @ [?n]))" using revisions_okD(2) [OF assms(1)] assms(3) by simp
  moreover have "map vn_number (filter (\<lambda>n. article n = b) (revs @ [?n])) =
      map (\<lambda>i. int i + 1) [0 ..< length (filter (\<lambda>n. article n = b) (revs @ [?n]))]" for b
    using revisions_okD(1) [OF assms(1), of b] new_number [OF assms(1), of P q a] assms(3) by (cases "a = b") simp_all
  ultimately show ?thesis unfolding revisions_ok_def by blast
qed

lemma key_unique:
  assumes "revisions_ok revs" "m \<in> set revs" "n \<in> set revs" "key_of m = key_of n"
  shows "m = n"
proof -
  let ?rows = "filter (\<lambda>k. article k = article n) revs"
  have "distinct (map vn_number ?rows)"
    unfolding revisions_okD(1) [OF assms(1)] by (simp add: distinct_map inj_on_def)
  moreover have "m \<in> set ?rows" "n \<in> set ?rows" "vn_number m = vn_number n"
    using assms(2-4) by (auto simp: key_of_def article_def)
  ultimately show ?thesis by (auto simp: distinct_map inj_on_def)
qed

lemma is_latest_iff:
  assumes "n \<in> set revs"
  shows "is_latest revs n \<longleftrightarrow> (\<forall>m \<in> set revs. article m = article n \<longrightarrow> vn_number m \<le> vn_number n)"
  by (auto simp: is_latest_def list_ex_iff not_less)

text \<open>A new revision only changes the clusters of the article's latest revisions.\<close>

lemma preferred_append:
  assumes "revisions_ok revs" "a = (rr_source_name q, rr_item q)" "c \<noteq> rr_cluster q"
    "\<And>l. latest_revision revs a = Some l \<Longrightarrow> c \<noteq> vn_cluster l"
  shows "preferred_cluster_row (revs @ [new_revision P q (latest_revision revs a)]) c = preferred_cluster_row revs c"
proof -
  let ?n = "new_revision P q (latest_revision revs a)"
  have cur: "current_in (revs @ [?n]) c m \<longleftrightarrow> current_in revs c m" if m: "m \<in> set revs" for m
  proof (cases "article m = a \<and> vn_cluster m = c")
    case True
    then obtain l where l: "latest_revision revs a = Some l"
      using m latest_revision_None [of revs a] by (cases "latest_revision revs a") (auto simp: filter_empty_conv)
    note L = latest_revision_Some [OF l]
    have "m \<noteq> l" using True assms(4) [OF l] by auto
    then have "vn_number m \<noteq> vn_number l"
      using key_unique [OF assms(1) m L(1)] True L(2) by (auto simp: key_of_def article_def)
    then have "vn_number m < vn_number l" using L(3) [OF m] True by simp
    then have "\<not> is_latest revs m" "\<not> is_latest (revs @ [?n]) m"
      using L(1,2) True by (auto simp: is_latest_def list_ex_iff)
    then show ?thesis by (simp add: current_in_def)
  next
    case False
    then show ?thesis using assms(2) by (auto simp: current_in_def is_latest_def)
  qed
  have new: "\<not> current_in (revs @ [?n]) c ?n" using assms(3) by (simp add: current_in_def)
  have peers: "list_ex (\<lambda>p. current_in (revs @ [?n]) c p \<and> preferred_peer p m) (revs @ [?n]) \<longleftrightarrow>
      list_ex (\<lambda>p. current_in revs c p \<and> preferred_peer p m) revs" for m
    using cur new by (auto simp: list_ex_iff)
  have "find (\<lambda>m. current_in (revs @ [?n]) c m \<and> \<not> list_ex (\<lambda>p. current_in (revs @ [?n]) c p \<and> preferred_peer p m) (revs @ [?n])) (revs @ [?n]) =
      find (\<lambda>m. current_in revs c m \<and> \<not> list_ex (\<lambda>p. current_in revs c p \<and> preferred_peer p m) revs) (revs @ [?n])"
    unfolding peers by (rule find_cong) (use cur new assms(3) in \<open>auto simp: current_in_def\<close>)
  also have "\<dots> = find (\<lambda>m. current_in revs c m \<and> \<not> list_ex (\<lambda>p. current_in revs c p \<and> preferred_peer p m) revs) revs"
    by (rule find_snoc) (use assms(3) in \<open>simp add: current_in_def\<close>)
  finally show ?thesis by (simp add: preferred_cluster_row_def)
qed

subsection \<open>Every append keeps the current state exact\<close>

definition ledger_ok :: "ledger_db \<Rightarrow> bool" where
  "ledger_ok db \<longleftrightarrow> revisions_ok (ld_revisions db) \<and> exact_except {} db"

definition same_evidence :: "ledger_db \<Rightarrow> ledger_db \<Rightarrow> bool" where
  "same_evidence db db' \<longleftrightarrow>
     ld_revisions db' = ld_revisions db \<and> ld_annotations db' = ld_annotations db \<and>
     ld_content_failures db' = ld_content_failures db \<and> ld_epoch db' = ld_epoch db \<and>
     ld_current db' = ld_current db \<and> ld_totals db' = ld_totals db"

lemma state_row_cong:
  "ld_annotations db' = ld_annotations db \<Longrightarrow> ld_content_failures db' = ld_content_failures db \<Longrightarrow>
    ld_epoch db' = ld_epoch db \<Longrightarrow> state_row db' = state_row db"
  by (simp add: state_row_def fun_eq_iff)

lemma same_evidence_exact: "same_evidence db db' \<Longrightarrow> exact_except C db' = exact_except C db"
  using state_row_cong [of db' db] by (simp add: same_evidence_def exact_except_def expected_row_def)

lemma same_evidence_ok: "same_evidence db db' \<Longrightarrow> ledger_ok db' = ledger_ok db"
  using same_evidence_exact [of db db' "{}"] by (simp add: ledger_ok_def same_evidence_def)

lemma exact_mono: "exact_except C db \<Longrightarrow> C \<subseteq> D \<Longrightarrow> exact_except D db"
  by (auto simp: exact_except_def)

lemma exact_extend:
  assumes "exact_except {} db" "ld_current db' = ld_current db" "ld_totals db' = ld_totals db"
    "\<And>c. c \<notin> C \<Longrightarrow> expected_row db' c = expected_row db c"
  shows "exact_except C db'"
  using assms by (auto simp: exact_except_def)

lemma refresh_exact_option:
  assumes "exact_except C db"
  shows "exact_except (C - set_option c) (refresh_news_cluster_state c db)"
  using refresh_exact [OF assms] assms by (cases c) (auto simp: refresh_news_cluster_state_def)

lemma append_revision_ok:
  assumes "append_news_revision P q db = Inr (r, db')" "ledger_ok db"
  shows "ledger_ok db'"
proof (cases "find (\<lambda>n. article n = (rr_source_name q, rr_item q) \<and> vn_hash n = rr_hash q) (ld_revisions db)")
  case (Some n)
  with assms show ?thesis by (auto simp: append_news_revision_def Let_def split: if_splits)
next
  case None
  let ?a = "(rr_source_name q, rr_item q)" and ?revs = "ld_revisions db"
  let ?l = "latest_revision ?revs ?a"
  let ?db1 = "db\<lparr>ld_revisions := ?revs @ [new_revision P q ?l]\<rparr>"
  from assms None have db': "db' = refresh_news_cluster_state (Some (rr_cluster q))
      (refresh_news_cluster_state (map_option vn_cluster ?l) ?db1)"
    by (auto simp: append_news_revision_def Let_def split: if_splits)
  have ok: "revisions_ok ?revs" and ex: "exact_except {} db" using assms(2) by (simp_all add: ledger_ok_def)
  let ?C = "{rr_cluster q} \<union> set_option (map_option vn_cluster ?l)"
  have "exact_except ?C ?db1"
  proof (rule exact_extend [OF ex])
    fix c assume "c \<notin> ?C"
    then have "preferred_cluster_row (?revs @ [new_revision P q ?l]) c = preferred_cluster_row ?revs c"
      by (intro preferred_append [OF ok]) auto
    then show "expected_row ?db1 c = expected_row db c" using state_row_cong [of ?db1 db] by (simp add: expected_row_def)
  qed simp_all
  from refresh_exact [OF refresh_exact_option [OF this]] have "exact_except {} db'" unfolding db'
    by (rule exact_mono) auto
  moreover have "revisions_ok (ld_revisions db')" unfolding db' using revisions_ok_append [OF ok None refl, of P] by simp
  ultimately show ?thesis by (simp add: ledger_ok_def)
qed

lemma preferred_row_mem:
  assumes "preferred_cluster_row revs c = Some n"
  shows "n \<in> set revs" "vn_cluster n = c"
  using assms by (auto simp: preferred_cluster_row_def find_Some_iff current_in_def)

lemma expected_other:
  assumes "ld_revisions db' = ld_revisions db" "ld_epoch db' = ld_epoch db"
    "\<And>n. n \<in> set (ld_revisions db) \<Longrightarrow> vn_cluster n = c \<Longrightarrow>
       content_state_of (ld_content_failures db') n = content_state_of (ld_content_failures db) n \<and>
       has_invalid_display (ld_annotations db') n = has_invalid_display (ld_annotations db) n \<and>
       annotation_state_of (ld_epoch db) (ld_annotations db') n = annotation_state_of (ld_epoch db) (ld_annotations db) n"
  shows "expected_row db' c = expected_row db c"
  using assms preferred_row_mem [of "ld_revisions db" c]
  by (cases "preferred_cluster_row (ld_revisions db) c") (auto simp: expected_row_def state_row_def)

lemma matches_revisionE:
  assumes "matches_revision key hash db"
  obtains n where "find (\<lambda>n. key_of n = key) (ld_revisions db) = Some n" "n \<in> set (ld_revisions db)" "key_of n = key"
proof (cases "find (\<lambda>n. key_of n = key) (ld_revisions db)")
  case None
  with assms show ?thesis by (simp add: matches_revision_def)
next
  case (Some n)
  then have "n \<in> set (ld_revisions db)" "key_of n = key" by (auto simp: find_Some_iff)
  with Some that show ?thesis by blast
qed

text \<open>A row derived from one revision changes the cluster of that revision only.\<close>

lemma derived_row_ok:
  assumes "ledger_ok db" "find (\<lambda>n. key_of n = key) (ld_revisions db) = Some n"
    "ld_revisions db1 = ld_revisions db" "ld_epoch db1 = ld_epoch db" "ld_current db1 = ld_current db"
    "ld_totals db1 = ld_totals db"
    "\<And>m. key_of m \<noteq> key \<Longrightarrow>
       content_state_of (ld_content_failures db1) m = content_state_of (ld_content_failures db) m \<and>
       has_invalid_display (ld_annotations db1) m = has_invalid_display (ld_annotations db) m \<and>
       annotation_state_of (ld_epoch db) (ld_annotations db1) m = annotation_state_of (ld_epoch db) (ld_annotations db) m"
  shows "ledger_ok (refresh_news_revision_state key db1)"
proof -
  have ok: "revisions_ok (ld_revisions db)" and ex: "exact_except {} db" using assms(1) by (simp_all add: ledger_ok_def)
  have n: "n \<in> set (ld_revisions db)" "key_of n = key" using assms(2) by (auto simp: find_Some_iff)
  have "exact_except {vn_cluster n} db1"
  proof (rule exact_extend [OF ex assms(5,6)])
    fix c assume c: "c \<notin> {vn_cluster n}"
    show "expected_row db1 c = expected_row db c"
    proof (rule expected_other [OF assms(3,4)])
      fix m assume "m \<in> set (ld_revisions db)" "vn_cluster m = c"
      then have "key_of m \<noteq> key" using key_unique [OF ok _ n(1), of m] n(2) c by auto
      then show "content_state_of (ld_content_failures db1) m = content_state_of (ld_content_failures db) m \<and>
         has_invalid_display (ld_annotations db1) m = has_invalid_display (ld_annotations db) m \<and>
         annotation_state_of (ld_epoch db) (ld_annotations db1) m = annotation_state_of (ld_epoch db) (ld_annotations db) m"
        by (rule assms(7))
    qed
  qed
  from refresh_exact [OF this, of "vn_cluster n"] ok assms(2,3) show ?thesis
    by (simp add: refresh_news_revision_state_def ledger_ok_def)
qed

lemma append_content_failure_ok:
  assumes "append_content_failure f db = Inr db'" "ledger_ok db"
  shows "ledger_ok db'"
proof -
  from assms(1) have m: "matches_revision (cf_key f) (cf_hash f) db"
    and db': "db' = refresh_news_revision_state (cf_key f) (db\<lparr>ld_content_failures := ld_content_failures db @ [f]\<rparr>)"
    by (auto simp: append_content_failure_def split: if_splits)
  obtain n where n: "find (\<lambda>n. key_of n = cf_key f) (ld_revisions db) = Some n" using m by (rule matches_revisionE)
  show ?thesis unfolding db'
    by (rule derived_row_ok [OF assms(2) n]) (auto simp: content_state_of_def sql_first_def)
qed

lemma completion_keeps:
  assumes "record_annotation_completion P key prompt t w db = Inr db'"
  shows "db' = db\<lparr>ld_jobs := ld_jobs db'\<rparr>"
  using assms by (auto simp: record_annotation_completion_def Let_def split: if_splits)

lemma display_other:
  assumes "nn_key a \<noteq> key_of m"
  shows "has_invalid_display (annotations @ [a]) m = has_invalid_display annotations m"
proof -
  let ?repaired = "\<lambda>rows f. list_ex (\<lambda>b. nn_key b = nn_key f \<and> nn_prompt b = nn_prompt f \<and>
      nn_parsed f < nn_parsed b \<and> usable_annotation b) rows"
  let ?shown = "\<lambda>f. (case nn_relevance f of None \<Rightarrow> ''IRRELEVANT'' | Some r \<Rightarrow> r) \<noteq> ''IRRELEVANT''"
  have "has_invalid_display (annotations @ [a]) m =
      list_ex (\<lambda>f. nn_key f = key_of m \<and> repair_checkpoint f \<and> ?shown f \<and> \<not> ?repaired (annotations @ [a]) f) annotations"
    using assms by (simp add: has_invalid_display_def)
  also have "\<dots> = has_invalid_display annotations m"
    unfolding has_invalid_display_def by (rule list_ex_cong [OF refl]) (use assms in auto)
  finally show ?thesis .
qed

lemma due_other:
  "nn_key a \<noteq> key_of m \<Longrightarrow> annotation_state_of epoch (annotations @ [a]) m = annotation_state_of epoch annotations m"
  by (simp add: annotation_state_of_def split: option.splits)

lemma append_annotation_ok:
  assumes "append_annotation P a db = Inr db'" "ledger_ok db"
  shows "ledger_ok db'"
proof -
  let ?db1 = "db\<lparr>ld_annotations := ld_annotations db @ [a]\<rparr>"
  from assms(1) obtain db2 where m: "matches_revision (nn_key a) (nn_hash a) db"
    and c: "record_annotation_completion P (nn_key a) (nn_prompt a) (nn_parsed a) None ?db1 = Inr db2"
    and db': "db' = refresh_news_revision_state (nn_key a) db2"
    by (auto simp: append_annotation_def bind_out_Inr_iff split: if_splits)
  obtain n where n: "find (\<lambda>n. key_of n = nn_key a) (ld_revisions db) = Some n" using m by (rule matches_revisionE)
  from completion_keeps [OF c] have db2: "db2 = ?db1\<lparr>ld_jobs := ld_jobs db2\<rparr>" .
  show ?thesis unfolding db'
  proof (rule derived_row_ok [OF assms(2) n])
    show "ld_revisions db2 = ld_revisions db" "ld_epoch db2 = ld_epoch db" "ld_current db2 = ld_current db"
      "ld_totals db2 = ld_totals db" by (subst db2, simp)+
    have a: "ld_annotations db2 = ld_annotations db @ [a]" "ld_content_failures db2 = ld_content_failures db"
      by (subst db2, simp)+
    fix m assume "key_of m \<noteq> nn_key a"
    then show "content_state_of (ld_content_failures db2) m = content_state_of (ld_content_failures db) m \<and>
         has_invalid_display (ld_annotations db2) m = has_invalid_display (ld_annotations db) m \<and>
         annotation_state_of (ld_epoch db) (ld_annotations db2) m = annotation_state_of (ld_epoch db) (ld_annotations db) m"
      unfolding a by (simp add: display_other due_other)
  qed
qed

section \<open>Histories of the ledger\<close>

datatype ledger_action =
    AppendRevision revision_record
  | AppendContentFailure content_failure
  | AppendAnnotation annotation_row
  | AppendTranslation title_translation
  | AppendMacro macro_observation
  | AppendPoll source_poll
  | AppendDiscoveryFailure discovery_failure
  | AppendRejection intake_rejection

fun run_append :: "platform \<Rightarrow> ledger_action \<Rightarrow> ledger_db \<Rightarrow> ledger_db outcome" where
  "run_append P (AppendRevision q) db = map_sum id snd (append_news_revision P q db)"
| "run_append P (AppendContentFailure f) db = append_content_failure f db"
| "run_append P (AppendAnnotation a) db = append_annotation P a db"
| "run_append P (AppendTranslation t) db = append_title_translation t db"
| "run_append P (AppendMacro m) db = map_sum id snd (append_macro_observation m db)"
| "run_append P (AppendPoll p) db = append_source_poll p db"
| "run_append P (AppendDiscoveryFailure f) db = append_discovery_failure f db"
| "run_append P (AppendRejection r) db = append_intake_rejection P r db"

lemma map_sum_Inr: "map_sum id f x = Inr y \<longleftrightarrow> (\<exists>z. x = Inr z \<and> y = f z)"
  by (cases x) auto

lemma side_table_shapes:
  "append_title_translation t db = Inr db' \<Longrightarrow>
     db' = db\<lparr>ld_translations := ld_translations db @ [t\<lparr>tt_headline := strip (tt_headline t)\<rparr>]\<rparr>"
  "append_source_poll p db = Inr db' \<Longrightarrow> db' = db\<lparr>ld_polls := ld_polls db @ [p]\<rparr>"
  "append_discovery_failure f db = Inr db' \<Longrightarrow> db' = db\<lparr>ld_discovery_failures := ld_discovery_failures db @ [f]\<rparr>"
  "append_intake_rejection P r db = Inr db' \<Longrightarrow> db' = db\<lparr>ld_rejections := ld_rejections db @ [r]\<rparr>"
  by (auto simp: append_title_translation_def append_source_poll_def append_discovery_failure_def
      append_intake_rejection_def split: if_splits)

lemma macro_shape:
  assumes "append_macro_observation q db = Inr (r, db')"
  obtains (known) "db' = db" | (new) m where "db' = db\<lparr>ld_macro := ld_macro db @ [m]\<rparr>"
  using assms by (auto simp: append_macro_observation_def Let_def split: option.splits if_splits)

lemma run_append_ok:
  assumes "run_append P act db = Inr db'" "ledger_ok db"
  shows "ledger_ok db'"
proof (cases act)
  case (AppendRevision q)
  with assms append_revision_ok show ?thesis by (auto simp: map_sum_Inr)
next
  case (AppendContentFailure f)
  with assms append_content_failure_ok show ?thesis by simp
next
  case (AppendAnnotation a)
  with assms append_annotation_ok show ?thesis by simp
next
  case (AppendMacro m)
  with assms(1) obtain r where "append_macro_observation m db = Inr (r, db')" by (auto simp: map_sum_Inr)
  then have "same_evidence db db'" by (cases rule: macro_shape) (auto simp: same_evidence_def)
  with assms(2) show ?thesis by (simp add: same_evidence_ok)
next
  case (AppendTranslation t)
  with assms(1) have "same_evidence db db'" using side_table_shapes(1) [of t db db'] by (simp add: same_evidence_def)
  with assms(2) show ?thesis by (simp add: same_evidence_ok)
next
  case (AppendPoll p)
  with assms(1) have "same_evidence db db'" using side_table_shapes(2) [of p db db'] by (simp add: same_evidence_def)
  with assms(2) show ?thesis by (simp add: same_evidence_ok)
next
  case (AppendDiscoveryFailure f)
  with assms(1) have "same_evidence db db'" using side_table_shapes(3) [of f db db'] by (simp add: same_evidence_def)
  with assms(2) show ?thesis by (simp add: same_evidence_ok)
next
  case (AppendRejection r)
  with assms(1) have "same_evidence db db'" using side_table_shapes(4) [of P r db db'] by (simp add: same_evidence_def)
  with assms(2) show ?thesis by (simp add: same_evidence_ok)
qed

lemma history_ok: "fold_out (run_append P) acts db = Inr db' \<Longrightarrow> ledger_ok db \<Longrightarrow> ledger_ok db'"
  by (induction acts arbitrary: db) (auto simp: bind_out_Inr_iff run_append_ok)

text \<open>What an append leaves of the tables of evidence.\<close>

lemma refresh_revision_keeps [simp]:
  "ld_revisions (refresh_news_revision_state k db) = ld_revisions db"
  "ld_annotations (refresh_news_revision_state k db) = ld_annotations db"
  "ld_content_failures (refresh_news_revision_state k db) = ld_content_failures db"
  "ld_translations (refresh_news_revision_state k db) = ld_translations db"
  "ld_macro (refresh_news_revision_state k db) = ld_macro db"
  "ld_polls (refresh_news_revision_state k db) = ld_polls db"
  "ld_discovery_failures (refresh_news_revision_state k db) = ld_discovery_failures db"
  "ld_rejections (refresh_news_revision_state k db) = ld_rejections db"
  by (simp_all add: refresh_news_revision_state_def split: option.splits)

definition extends :: "ledger_db \<Rightarrow> ledger_db \<Rightarrow> bool" where
  "extends db db' \<longleftrightarrow>
     prefix (ld_revisions db) (ld_revisions db') \<and> prefix (ld_annotations db) (ld_annotations db') \<and>
     prefix (ld_content_failures db) (ld_content_failures db') \<and> prefix (ld_translations db) (ld_translations db') \<and>
     prefix (ld_macro db) (ld_macro db') \<and> prefix (ld_polls db) (ld_polls db') \<and>
     prefix (ld_discovery_failures db) (ld_discovery_failures db') \<and> prefix (ld_rejections db) (ld_rejections db')"

lemma extends_trans: "extends a b \<Longrightarrow> extends b c \<Longrightarrow> extends a c"
  unfolding extends_def by (meson prefix_order.trans)

lemma append_revision_shape:
  assumes "append_news_revision P q db = Inr (r, db')"
  obtains (known) n where "find (\<lambda>n. article n = (rr_source_name q, rr_item q) \<and> vn_hash n = rr_hash q) (ld_revisions db) = Some n"
      "r = (vn_number n, False)" "db' = db"
  | (new) n where "find (\<lambda>n. article n = (rr_source_name q, rr_item q) \<and> vn_hash n = rr_hash q) (ld_revisions db) = None"
      "n = new_revision P q (latest_revision (ld_revisions db) (rr_source_name q, rr_item q))" "r = (vn_number n, True)"
      "db' = refresh_news_cluster_state (Some (rr_cluster q)) (refresh_news_cluster_state
         (map_option vn_cluster (latest_revision (ld_revisions db) (rr_source_name q, rr_item q)))
         (db\<lparr>ld_revisions := ld_revisions db @ [n]\<rparr>))"
  using assms by (auto simp: append_news_revision_def Let_def split: if_splits option.splits)

lemma annotation_shape:
  assumes "append_annotation P a db = Inr db'"
  shows "ld_revisions db' = ld_revisions db \<and> ld_annotations db' = ld_annotations db @ [a] \<and>
    ld_content_failures db' = ld_content_failures db \<and> ld_translations db' = ld_translations db \<and>
    ld_macro db' = ld_macro db \<and> ld_polls db' = ld_polls db \<and>
    ld_discovery_failures db' = ld_discovery_failures db \<and> ld_rejections db' = ld_rejections db"
proof -
  from assms obtain db2 where
    c: "record_annotation_completion P (nn_key a) (nn_prompt a) (nn_parsed a) None
          (db\<lparr>ld_annotations := ld_annotations db @ [a]\<rparr>) = Inr db2"
    and db': "db' = refresh_news_revision_state (nn_key a) db2"
    by (auto simp: append_annotation_def bind_out_Inr_iff split: if_splits)
  show ?thesis unfolding db' by (subst completion_keeps [OF c], simp)+
qed

lemma run_append_extends:
  assumes "run_append P act db = Inr db'"
  shows "extends db db'"
proof (cases act)
  case (AppendRevision q)
  with assms obtain r where "append_news_revision P q db = Inr (r, db')" by (auto simp: map_sum_Inr)
  then show ?thesis by (cases rule: append_revision_shape) (auto simp: extends_def)
next
  case (AppendContentFailure f)
  with assms show ?thesis by (auto simp: append_content_failure_def extends_def split: if_splits)
next
  case (AppendAnnotation a)
  with assms annotation_shape [of P a db db'] show ?thesis by (simp add: extends_def)
next
  case (AppendMacro m)
  with assms obtain r where "append_macro_observation m db = Inr (r, db')" by (auto simp: map_sum_Inr)
  then show ?thesis by (cases rule: macro_shape) (auto simp: extends_def)
qed (use assms in \<open>auto simp: extends_def dest!: side_table_shapes\<close>)

section \<open>Properties\<close>

text \<open>
  C26: the dashboard state is that of a recomputation: after any sequence of appends the row of every
  cluster is the one computed from its representative, its failures and its annotations, a cluster
  without a current revision has none, and the totals are those of the rows.
\<close>

theorem current_state_is_recomputed:
  assumes "fold_out (run_append P) acts db = Inr db'" "ledger_ok db" "c \<noteq> []"
  shows "find (\<lambda>r. cu_cluster r = c) (ld_current db') =
      map_option (state_row db' c) (preferred_cluster_row (ld_revisions db') c) \<and>
    news_current_counts db' =
      (sql_count (\<lambda>r. cu_content r = WAITING) (ld_current db'),
       sql_count (\<lambda>r. cu_content r = UNAVAILABLE) (ld_current db'), sql_count cu_invalid (ld_current db')) \<and>
    cc_ready (ld_totals db') = sql_count (\<lambda>r. cu_annotation r = READY) (ld_current db') \<and>
    cc_pending (ld_totals db') = sql_count (\<lambda>r. cu_annotation r = PENDING) (ld_current db')"
  using history_ok [OF assms(1,2)] assms(3)
  by (simp add: ledger_ok_def exact_except_def expected_row_def totals_ok_def news_current_counts_def)

text \<open>The two spellings of the representative order.\<close>

lemma preferred_peer_iff: "preferred_peer p n \<longleftrightarrow> representative_key p < representative_key n"
  by (auto simp: preferred_peer_def representative_key_def less_prod_def)

lemma least_exists:
  fixes k :: "'a \<Rightarrow> 'k :: linorder"
  assumes "x \<in> A" "finite A"
  shows "\<exists>m \<in> A. \<forall>y \<in> A. k m \<le> k y"
  using assms by (intro bexI [of _ "arg_min_on k A"]) (auto intro: arg_min_least arg_min_if_finite)

text \<open>
  One representative for each cluster, and both spellings of the order agree on it: a cluster with
  a current revision has exactly one representative, it is a current revision, and by the Python key
  it is below every other one.
\<close>

theorem representative_is_least:
  assumes "revisions_ok revs" "n \<in> set revs"
  shows "(preferred_cluster_row revs c = Some n) =
    (current_in revs c n \<and> (\<forall>m \<in> set revs. current_in revs c m \<longrightarrow> m = n \<or> representative_key n < representative_key m)) \<and>
    ((preferred_cluster_row revs c = None) = (\<forall>m \<in> set revs. \<not> current_in revs c m))"
proof -
  let ?A = "{m \<in> set revs. current_in revs c m}"
  let ?best = "\<lambda>n. current_in revs c n \<and> \<not> list_ex (\<lambda>p. current_in revs c p \<and> preferred_peer p n) revs"
  have same: "m = n" if "m \<in> set revs" "n \<in> set revs" "current_in revs c m" "current_in revs c n"
      "representative_key m = representative_key n" for m n
  proof -
    have "article m = article n" using that(5) by (simp add: representative_key_def article_def)
    then have "vn_number m = vn_number n" using that(1-4)
      by (auto simp: current_in_def is_latest_iff intro: antisym)
    then show ?thesis using key_unique [OF assms(1) that(1,2)] \<open>article m = article n\<close>
      by (simp add: key_of_def article_def)
  qed
  have best: "?best n \<longleftrightarrow> current_in revs c n \<and>
      (\<forall>m \<in> set revs. current_in revs c m \<longrightarrow> m = n \<or> representative_key n < representative_key m)"
    if "n \<in> set revs" for n
    using same [OF _ that] by (auto simp: list_ex_iff preferred_peer_iff not_less)
  have unique: "m = n" if "m \<in> set revs" "n \<in> set revs" "?best m" "?best n" for m n
    using best [OF that(1)] best [OF that(2)] that less_asym by blast
  have none: "preferred_cluster_row revs c = None \<longleftrightarrow> (\<forall>m \<in> set revs. \<not> ?best m)"
    by (auto simp: preferred_cluster_row_def find_None_iff)
  have "\<exists>m \<in> set revs. ?best m" if "m0 \<in> set revs" "current_in revs c m0" for m0
  proof -
    from that have "\<exists>m \<in> ?A. \<forall>y \<in> ?A. representative_key m \<le> representative_key y"
      by (intro least_exists [of m0]) auto
    then show ?thesis by (auto simp: list_ex_iff preferred_peer_iff not_less)
  qed
  then have "(preferred_cluster_row revs c = None) = (\<forall>m \<in> set revs. \<not> current_in revs c m)"
    using none by blast
  moreover have "preferred_cluster_row revs c = Some n \<longleftrightarrow> ?best n"
  proof
    assume "preferred_cluster_row revs c = Some n"
    then show "?best n" by (auto simp: preferred_cluster_row_def find_Some_iff)
  next
    assume b: "?best n"
    with none assms(2) obtain m where m: "preferred_cluster_row revs c = Some m"
      by (cases "preferred_cluster_row revs c") auto
    then have "m \<in> set revs" "?best m" by (auto simp: preferred_cluster_row_def find_Some_iff)
    with unique [OF _ assms(2) _ b] m show "preferred_cluster_row revs c = Some n" by auto
  qed
  ultimately show ?thesis using best [OF assms(2)] by simp
qed

text \<open>
  Evidence is append-only: whatever is appended, no row of evidence is changed, removed or moved,
  and the revisions of an article stay numbered one after the other.
\<close>

theorem evidence_is_append_only:
  assumes "fold_out (run_append P) acts db = Inr db'" "ledger_ok db"
  shows "extends db db' \<and>
    map vn_number (filter (\<lambda>n. article n = a) (ld_revisions db')) =
      map (\<lambda>i. int i + 1) [0 ..< length (filter (\<lambda>n. article n = a) (ld_revisions db'))]"
proof
  have "extends db db" by (simp add: extends_def)
  moreover have "extends db1 db'" if "fold_out (run_append P) acts db1 = Inr db'" for db1
    using that
  proof (induction acts arbitrary: db1)
    case (Cons act acts)
    then obtain db2 where "run_append P act db1 = Inr db2" "fold_out (run_append P) acts db2 = Inr db'"
      by (auto simp: bind_out_Inr_iff)
    with run_append_extends Cons.IH extends_trans show ?case by blast
  qed (simp add: extends_def)
  ultimately show "extends db db'" using assms(1) by blast
  show "map vn_number (filter (\<lambda>n. article n = a) (ld_revisions db')) =
      map (\<lambda>i. int i + 1) [0 ..< length (filter (\<lambda>n. article n = a) (ld_revisions db'))]"
    using history_ok [OF assms] by (intro revisions_okD) (simp add: ledger_ok_def)
qed

text \<open>
  An append is idempotent: appending the record of a revision again, right after, appends nothing
  and answers with the same number, which is 1 for a new article and one more than the latest before.
\<close>

theorem revision_append_is_idempotent:
  assumes "append_news_revision P q db = Inr ((k, fresh), db')" "ledger_ok db"
  shows "append_news_revision P q db' = Inr ((k, False), db') \<and>
    (if fresh then k = 1 + int (length (filter (\<lambda>n. article n = (rr_source_name q, rr_item q)) (ld_revisions db)))
     else db' = db)"
  using assms(1)
proof (cases rule: append_revision_shape)
  case (known n)
  with assms(1) show ?thesis by (auto simp: append_news_revision_def split: if_splits)
next
  case (new n)
  let ?a = "(rr_source_name q, rr_item q)"
  have "find (\<lambda>n. article n = ?a \<and> vn_hash n = rr_hash q) (ld_revisions db @ [n]) = Some n"
    by (rule find_snoc_new [OF new(1)]) (simp add: new(2))
  moreover have "ld_revisions db' = ld_revisions db @ [n]" using new(4) by simp
  moreover have "\<not> rr_fetched q < rr_first_seen q" using assms(1) by (auto simp: append_news_revision_def Let_def split: if_splits)
  ultimately have "append_news_revision P q db' = Inr ((vn_number n, False), db')"
    by (simp add: append_news_revision_def Let_def)
  with new(2,3) new_number [of "ld_revisions db" P q ?a] assms(2) show ?thesis by (simp add: ledger_ok_def)
qed

text \<open>Appends that are all later than an instant.\<close>

fun appended_after :: "instant \<Rightarrow> ledger_action \<Rightarrow> bool" where
  "appended_after t (AppendRevision q) = (t < rr_first_seen q)"
| "appended_after t (AppendAnnotation a) = (t < nn_parsed a)"
| "appended_after t _ = True"

lemma later_step:
  assumes "run_append P act db = Inr db'" "appended_after t act"
  shows "\<exists>ns as. ld_revisions db' = ld_revisions db @ ns \<and> ld_annotations db' = ld_annotations db @ as \<and>
    (\<forall>n \<in> set ns. t < vn_first_seen n) \<and> (\<forall>a \<in> set as. t < nn_parsed a)"
proof (cases act)
  case (AppendRevision q)
  with assms(1) obtain r where "append_news_revision P q db = Inr (r, db')" by (auto simp: map_sum_Inr)
  then show ?thesis
  proof (cases rule: append_revision_shape)
    case (known n)
    then show ?thesis by (intro exI [of _ "[]"]) simp
  next
    case (new n)
    with assms(2) AppendRevision show ?thesis by (intro exI [of _ "[n]"] exI [of _ "[]"]) simp
  qed
next
  case (AppendAnnotation a)
  with assms annotation_shape [of P a db db'] show ?thesis by (intro exI [of _ "[]"] exI [of _ "[a]"]) simp
next
  case (AppendContentFailure f)
  with assms show ?thesis by (auto simp: append_content_failure_def split: if_splits)
next
  case (AppendMacro m)
  with assms(1) obtain r where "append_macro_observation m db = Inr (r, db')" by (auto simp: map_sum_Inr)
  then show ?thesis by (cases rule: macro_shape) auto
qed (use assms in \<open>auto dest!: side_table_shapes\<close>)

lemma later_history:
  assumes "fold_out (run_append P) acts db = Inr db'" "list_all (appended_after t) acts"
  shows "\<exists>ns as. ld_revisions db' = ld_revisions db @ ns \<and> ld_annotations db' = ld_annotations db @ as \<and>
    (\<forall>n \<in> set ns. t < vn_first_seen n) \<and> (\<forall>a \<in> set as. t < nn_parsed a)"
  using assms
proof (induction acts arbitrary: db)
  case (Cons act acts)
  then obtain db1 where db1: "run_append P act db = Inr db1" "fold_out (run_append P) acts db1 = Inr db'"
    by (auto simp: bind_out_Inr_iff)
  obtain ns as where a: "ld_revisions db1 = ld_revisions db @ ns" "ld_annotations db1 = ld_annotations db @ as"
    "\<forall>n \<in> set ns. t < vn_first_seen n" "\<forall>a \<in> set as. t < nn_parsed a"
    using later_step [OF db1(1), of t] Cons.prems(2) by auto
  obtain ns' as' where b: "ld_revisions db' = ld_revisions db1 @ ns'" "ld_annotations db' = ld_annotations db1 @ as'"
    "\<forall>n \<in> set ns'. t < vn_first_seen n" "\<forall>a \<in> set as'. t < nn_parsed a"
    using Cons.IH [OF db1(2)] Cons.prems(2) by auto
  from a b show ?case by (intro exI [of _ "ns @ ns'"] exI [of _ "as @ as'"]) auto
qed simp

text \<open>
  What a decision saw is frozen: appends that arrive after a decision time leave the news and the
  annotations visible at it as they are; the visible news are, of every article seen by then, exactly
  its newest revision seen by then, in the order of the articles.
\<close>

theorem visible_news_is_frozen:
  assumes "fold_out (run_append P) acts db = Inr db'" "list_all (appended_after t) acts" "ledger_ok db"
  shows "visible_news t db' = visible_news t db \<and> visible_annotations t db' = visible_annotations t db \<and>
    sorted (map article (visible_news t db)) \<and> distinct (map article (visible_news t db)) \<and>
    set (visible_news t db) = {n \<in> set (ld_revisions db). vn_first_seen n \<le> t \<and>
      (\<forall>m \<in> set (ld_revisions db). article m = article n \<longrightarrow> vn_first_seen m \<le> t \<longrightarrow> vn_number m \<le> vn_number n)}"
proof -
  let ?revs = "ld_revisions db"
  obtain ns as where l: "ld_revisions db' = ?revs @ ns" "ld_annotations db' = ld_annotations db @ as"
    "\<forall>n \<in> set ns. t < vn_first_seen n" "\<forall>a \<in> set as. t < nn_parsed a"
    using later_history [OF assms(1,2)] by blast
  have "filter (visible_revision t (?revs @ ns)) (?revs @ ns) = filter (visible_revision t ?revs) ?revs"
  proof -
    have "filter (visible_revision t (?revs @ ns)) ns = []" using l(3) by (auto simp: visible_revision_def filter_empty_conv)
    moreover have "visible_revision t (?revs @ ns) = visible_revision t ?revs"
      using l(3) by (auto simp: visible_revision_def list_ex_iff fun_eq_iff)
    ultimately show ?thesis by simp
  qed
  then have news: "visible_news t db' = visible_news t db" by (simp add: visible_news_def l(1))
  have "filter (visible_annotation t (?revs @ ns)) (ld_annotations db @ as) =
      filter (visible_annotation t ?revs) (ld_annotations db)"
  proof -
    have "filter (visible_annotation t (?revs @ ns)) as = []" using l(4) by (auto simp: visible_annotation_def filter_empty_conv)
    moreover have "visible_annotation t (?revs @ ns) = visible_annotation t ?revs"
      using l(3) by (auto simp: visible_annotation_def list_ex_iff fun_eq_iff)
    ultimately show ?thesis by simp
  qed
  then have annotations: "visible_annotations t db' = visible_annotations t db" by (simp add: visible_annotations_def l)
  have ok: "revisions_ok ?revs" using assms(3) by (simp add: ledger_ok_def)
  have newest: "set (visible_news t db) = {n \<in> set ?revs. vn_first_seen n \<le> t \<and>
      (\<forall>m \<in> set ?revs. article m = article n \<longrightarrow> vn_first_seen m \<le> t \<longrightarrow> vn_number m \<le> vn_number n)}"
    by (auto simp: visible_news_def visible_revision_def list_ex_iff not_less)
  have "m = n" if "m \<in> set (visible_news t db)" "n \<in> set (visible_news t db)" "article m = article n" for m n
  proof -
    from that have "vn_number m = vn_number n" unfolding newest by (intro antisym) auto
    with that show ?thesis using key_unique [OF ok, of m n] unfolding newest by (auto simp: key_of_def article_def)
  qed
  moreover have "distinct (visible_news t db)"
    using revisions_okD(2) [OF ok] by (auto simp: visible_news_def distinct_map intro: distinct_filter)
  ultimately have "distinct (map article (visible_news t db))" by (auto simp: distinct_map inj_on_def)
  moreover have "sorted (map article (visible_news t db))" by (simp add: visible_news_def)
  ultimately show ?thesis using news annotations newest by blast
qed

text \<open>
  A completion recorded beside the queue spares the workers: it changes no leased job and no job
  but the one it names, and when it succeeds on a usable annotation that job is completed or leased.
\<close>

theorem completion_spares_leases:
  assumes "record_annotation_completion P key prompt t w db = Inr db'" "j \<in> set (ld_jobs db)"
  shows "(j_state j = LEASED \<or> j_id j \<noteq> j_id (completed_job P key prompt t w (ld_jobs db)) \<longrightarrow> j \<in> set (ld_jobs db')) \<and>
    (list_ex (\<lambda>a. nn_key a = key \<and> nn_prompt a = prompt \<and> usable_annotation a) (ld_annotations db) \<longrightarrow>
       list_ex (\<lambda>k. j_id k = j_id (completed_job P key prompt t w (ld_jobs db)) \<and>
         (j_state k = COMPLETED \<or> j_state k = LEASED)) (ld_jobs db'))"
proof (cases "list_ex (\<lambda>a. nn_key a = key \<and> nn_prompt a = prompt \<and> usable_annotation a) (ld_annotations db)")
  case False
  with assms show ?thesis by (auto simp: record_annotation_completion_def)
next
  case True
  let ?new = "completed_job P key prompt t w (ld_jobs db)"
  let ?p = "\<lambda>j. j_id j = j_id ?new \<and> j_state j \<noteq> LEASED"
  have done_new: "j_state ?new = COMPLETED" by (simp add: completed_job_def Let_def split: prod.splits)
  show ?thesis
  proof (cases "list_ex (\<lambda>j. j_id j = j_id ?new) (ld_jobs db)")
    case ex: True
    with True assms(1) have jobs: "ld_jobs db' = sql_update ?p (complete_row ?new) (ld_jobs db)"
      by (auto simp: record_annotation_completion_def Let_def)
    obtain k where k: "k \<in> set (ld_jobs db)" "j_id k = j_id ?new" using ex by (auto simp: list_ex_iff)
    have "\<exists>k' \<in> set (ld_jobs db'). j_id k' = j_id ?new \<and> (j_state k' = COMPLETED \<or> j_state k' = LEASED)"
    proof (cases "j_state k = LEASED")
      case True
      then show ?thesis unfolding jobs using k by (intro bexI [of _ k] sql_update_memI(2)) auto
    next
      case False
      with k have "complete_row ?new k \<in> set (ld_jobs db')" unfolding jobs by (intro sql_update_memI(1)) auto
      then show ?thesis using k by (intro bexI [of _ "complete_row ?new k"]) (simp_all add: complete_row_def)
    qed
    moreover have "j \<in> set (ld_jobs db')" if "j_state j = LEASED \<or> j_id j \<noteq> j_id ?new"
      unfolding jobs using that assms(2) by (intro sql_update_memI(2)) auto
    ultimately show ?thesis by (auto simp: list_ex_iff)
  next
    case False
    with True assms(1) have "ld_jobs db' = ld_jobs db @ [?new]"
      by (auto simp: record_annotation_completion_def Let_def split: if_splits)
    with assms(2) done_new show ?thesis by simp
  qed
qed

text \<open>
  A published value that returns to an earlier one is refused by the unique key on the content, so
  the ledger keeps showing the value in between.
\<close>

definition no_totals :: current_totals where
  "no_totals = \<lparr>cc_waiting = 0, cc_unavailable = 0, cc_invalid = 0, cc_ready = 0, cc_pending = 0\<rparr>"

definition empty_ledger :: ledger_db where
  "empty_ledger = \<lparr>ld_epoch = Some 0, ld_revisions = [], ld_annotations = [], ld_content_failures = [],
     ld_translations = [], ld_macro = [], ld_polls = [], ld_discovery_failures = [], ld_rejections = [],
     ld_current = [], ld_totals = no_totals, ld_jobs = []\<rparr>"

definition sample_macro :: "string \<Rightarrow> macro_observation" where
  "sample_macro hash = \<lparr>ma_source = ''bls'', ma_series = ''cpi'', ma_period = ''2026-01'', ma_number = 0, ma_first_seen = 0,
     ma_fetched = 0, ma_value = 0, ma_unit = ''index'', ma_footnotes = JNull, ma_payload = JNull, ma_hash = hash\<rparr>"

lemma macro_reversion_is_refused:
  "fold_out (run_append sample_platform) [AppendMacro (sample_macro ''a''), AppendMacro (sample_macro ''b''),
     AppendMacro (sample_macro ''a'')] empty_ledger = Inl (IntegrityError ''UNIQUE constraint failed'')"
  by code_simp

subsection \<open>Witnesses\<close>

definition sample_revision :: "string \<Rightarrow> string \<Rightarrow> string \<Rightarrow> instant \<Rightarrow> revision_record" where
  "sample_revision item hash cluster seen = \<lparr>rr_source_name = ''fed'', rr_item = item, rr_published = None,
     rr_first_seen = seen, rr_fetched = seen + 1, rr_headline = ''head'', rr_body = Some hash, rr_link = None,
     rr_hash = hash, rr_cluster = cluster\<rparr>"

definition sample_annotation :: annotation_row where
  "sample_annotation = \<lparr>nn_id = ''n1'', nn_key = (''fed'', ''a'', 2), nn_hash = ''long body'', nn_model = ''gemini'',
     nn_prompt = CURRENT_NEWS_PROMPT_VERSION, nn_started = 30, nn_parsed = 40, nn_reason = SoundReason,
     nn_relevance = None\<rparr>"

definition sample_appends :: "ledger_action list" where
  "sample_appends = [AppendRevision (sample_revision ''a'' ''body'' ''one'' 10), AppendRevision (sample_revision ''b'' ''body'' ''two'' 12),
     AppendRevision (sample_revision ''a'' ''long body'' ''two'' 20), AppendAnnotation sample_annotation]"

lemma empty_ledger_ok: "ledger_ok empty_ledger"
  by (simp add: ledger_ok_def revisions_ok_def exact_except_def empty_ledger_def totals_ok_def no_totals_def
      sql_count_def expected_row_def preferred_cluster_row_def)

definition sample_ledger :: "ledger_action list \<Rightarrow> ledger_db" where
  "sample_ledger acts = projr (fold_out (run_append sample_platform) acts empty_ledger)"

lemma sample_ledger_runs:
  "fold_out (run_append sample_platform) sample_appends empty_ledger = Inr (sample_ledger sample_appends)"
proof -
  have "\<not> isl (fold_out (run_append sample_platform) sample_appends empty_ledger)" by code_simp
  then show ?thesis by (simp add: sample_ledger_def)
qed

lemma sample_ledger_facts:
  "find (\<lambda>r. cu_cluster r = ''one'') (ld_current (sample_ledger sample_appends)) = None"
  "map_option key_of (preferred_cluster_row (ld_revisions (sample_ledger sample_appends)) ''two'') = Some (''fed'', ''a'', 2)"
  "map key_of (ld_revisions (sample_ledger sample_appends)) = [(''fed'', ''a'', 1), (''fed'', ''b'', 1), (''fed'', ''a'', 2)]"
  by code_simp+

lemma sample_ledger_ok: "ledger_ok (sample_ledger sample_appends)"
  by (rule history_ok [OF sample_ledger_runs empty_ledger_ok])

theorem current_state_is_recomputed_witness:
  "preferred_cluster_row (ld_revisions (sample_ledger sample_appends)) ''one'' = None \<and>
   cc_pending (ld_totals (sample_ledger sample_appends)) =
     sql_count (\<lambda>r. cu_annotation r = PENDING) (ld_current (sample_ledger sample_appends))"
  using current_state_is_recomputed [OF sample_ledger_runs empty_ledger_ok, of "''one''"] sample_ledger_facts(1) by simp

theorem representative_is_least_witness:
  "\<exists>n. preferred_cluster_row (ld_revisions (sample_ledger sample_appends)) ''two'' = Some n \<and>
     representative_key n = (- 9, ''fed'', ''a'')"
proof -
  obtain n where n: "preferred_cluster_row (ld_revisions (sample_ledger sample_appends)) ''two'' = Some n"
    using sample_ledger_facts(2) by auto
  have "revisions_ok (ld_revisions (sample_ledger sample_appends))" using sample_ledger_ok by (simp add: ledger_ok_def)
  from representative_is_least [OF this preferred_row_mem(1) [OF n]] n
  have "current_in (ld_revisions (sample_ledger sample_appends)) ''two'' n" by blast
  moreover have "list_all (\<lambda>n. current_in (ld_revisions (sample_ledger sample_appends)) ''two'' n \<longrightarrow>
      key_of n = (''fed'', ''a'', 2) \<longrightarrow> representative_key n = (- 9, ''fed'', ''a'')) (ld_revisions (sample_ledger sample_appends))"
    by code_simp
  ultimately show ?thesis using n preferred_row_mem(1) [OF n] sample_ledger_facts(2) by (auto simp: list_all_iff)
qed

theorem evidence_is_append_only_witness:
  "extends empty_ledger (sample_ledger sample_appends) \<and>
   map vn_number (filter (\<lambda>n. article n = (''fed'', ''a'')) (ld_revisions (sample_ledger sample_appends))) = [1, 2]"
proof -
  have "length (filter (\<lambda>n. article n = (''fed'', ''a'')) (ld_revisions (sample_ledger sample_appends))) = 2" by code_simp
  with evidence_is_append_only [OF sample_ledger_runs empty_ledger_ok, of "(''fed'', ''a'')"] show ?thesis
    by (simp add: upt_rec)
qed

theorem revision_append_is_idempotent_witness:
  "\<exists>db. append_news_revision sample_platform (sample_revision ''c'' ''x'' ''one'' 50) (sample_ledger sample_appends) =
      Inr ((1, True), db) \<and>
    append_news_revision sample_platform (sample_revision ''c'' ''x'' ''one'' 50) db = Inr ((1, False), db)"
proof -
  let ?r = "append_news_revision sample_platform (sample_revision ''c'' ''x'' ''one'' 50) (sample_ledger sample_appends)"
  have "\<not> isl ?r" "fst (projr ?r) = (1, True)" by code_simp+
  then have "?r = Inr ((1, True), snd (projr ?r))" by (cases ?r) auto
  with revision_append_is_idempotent [OF this sample_ledger_ok] show ?thesis by blast
qed

theorem visible_news_is_frozen_witness:
  "visible_news 5 (sample_ledger sample_appends) = visible_news 5 empty_ledger"
proof -
  have "list_all (appended_after 5) sample_appends" by code_simp
  from visible_news_is_frozen [OF sample_ledger_runs this empty_ledger_ok] show ?thesis by blast
qed

definition sample_completion :: ledger_db where
  "sample_completion = (sample_ledger sample_appends)\<lparr>ld_jobs := [sample_leased]\<rparr>"

theorem completion_spares_leases_witness:
  "\<exists>db. record_annotation_completion sample_platform (''fed'', ''a'', 2) CURRENT_NEWS_PROMPT_VERSION 60 None sample_completion = Inr db \<and>
     sample_leased \<in> set (ld_jobs db)"
proof -
  let ?r = "record_annotation_completion sample_platform (''fed'', ''a'', 2) CURRENT_NEWS_PROMPT_VERSION 60 None sample_completion"
  have "\<not> isl ?r" by code_simp
  then have r: "?r = Inr (projr ?r)" by (cases ?r) auto
  have "sample_leased \<in> set (ld_jobs sample_completion)" "j_state sample_leased = LEASED"
    by (simp_all add: sample_completion_def) code_simp
  with completion_spares_leases [OF r, of sample_leased] r show ?thesis by blast
qed

end
