(* ===== verification/Work_Lanes.thy ===== *)
theory Work_Lanes
  imports News_Ledger Job_Lifecycle
begin

text \<open>
  The two repairs of the job table that \<open>sync_pending_jobs\<close> runs one bounded page at a time,
  \<open>_install_annotation_contract_lanes\<close> and \<open>_install_downstream_work_provenance\<close> of
  \<^verbatim>\<open>xauusd_news/news/scheduler/state.py\<close>, with \<open>resolve_work_provenance\<close>, which every derived job
  asks for its lane. A change of the annotation contract divides the annotation jobs by the receipt of
  their revision into the live lane and the backfill, retires the backfill that can no longer affect a
  decision, and then gives every impact and title job the lane of the annotation it derives from.
  Each repair keeps a cursor and is proved to finish, whatever page it stands on.

  The functions commit more than one transaction, so they return the database beside their result:
  an exception keeps what was committed before it. A database holds the ledger of
  \<^verbatim>\<open>News_Ledger\<close> (its jobs, annotations, revisions and epoch), what \<open>json.loads\<close> makes of the
  \<open>annotation_json\<close> of an annotation (\<open>None\<close> where it raises), and the four migration tables.
\<close>

section \<open>The migration tables\<close>

datatype migration_state = ACTIVE | WAITING_INPUT | COMPLETE

type_synonym page_cursor = "(instant \<times> string) option"

record lane_migration =
  lm_prompt :: string
  lm_activated :: instant
  lm_cursor :: page_cursor
  lm_processed :: int
  lm_state :: migration_state
  lm_updated :: instant

record contract_backfill =
  bf_prompt :: string
  bf_activated :: instant
  bf_cursor :: "(instant \<times> string \<times> string \<times> int) option"
  bf_state :: migration_state
  bf_updated :: instant

record provenance_migration =
  pm_version :: string
  pm_cursor :: page_cursor
  pm_processed :: int
  pm_resolved :: int
  pm_unresolved :: int
  pm_leased :: int
  pm_pass :: int
  pm_state :: migration_state
  pm_updated :: instant

text \<open>Of a transition projection, the columns that its readers use.\<close>

record transition_projection =
  tj_target :: string
  tj_source :: string
  tj_fingerprint :: string
  tj_from :: string
  tj_to :: string

record lane_db =
  wl_ledger :: ledger_db
  wl_json :: "string \<Rightarrow> json option"
  wl_projections :: "transition_projection list"
  wl_backfills :: "contract_backfill list"
  wl_lanes :: "lane_migration list"
  wl_downstream :: "provenance_migration list"
  wl_marks :: "(string \<times> instant) list"

abbreviation wl_jobs :: "lane_db \<Rightarrow> job list" where
  "wl_jobs db \<equiv> ld_jobs (wl_ledger db)"

definition set_jobs_of :: "job list \<Rightarrow> lane_db \<Rightarrow> lane_db" where
  "set_jobs_of jobs db = db\<lparr>wl_ledger := (wl_ledger db)\<lparr>ld_jobs := jobs\<rparr>\<rparr>"

lemma set_jobs_of_simps [simp]:
  "wl_jobs (set_jobs_of jobs db) = jobs" "wl_json (set_jobs_of jobs db) = wl_json db"
  "wl_projections (set_jobs_of jobs db) = wl_projections db" "wl_lanes (set_jobs_of jobs db) = wl_lanes db"
  "wl_downstream (set_jobs_of jobs db) = wl_downstream db" "wl_backfills (set_jobs_of jobs db) = wl_backfills db"
  "ld_annotations (wl_ledger (set_jobs_of jobs db)) = ld_annotations (wl_ledger db)"
  "ld_revisions (wl_ledger (set_jobs_of jobs db)) = ld_revisions (wl_ledger db)"
  "ld_epoch (wl_ledger (set_jobs_of jobs db)) = ld_epoch (wl_ledger db)"
  "set_jobs_of jobs' (set_jobs_of jobs db) = set_jobs_of jobs' db"
  by (simp_all add: set_jobs_of_def)

definition CONTRACT_BACKFILL_PAGE_SIZE :: nat where "CONTRACT_BACKFILL_PAGE_SIZE = 50"
definition EXISTING_JOB_LANE_PAGE_SIZE :: nat where "EXISTING_JOB_LANE_PAGE_SIZE = 100"
definition DOWNSTREAM_PROVENANCE_PAGE_SIZE :: nat where "DOWNSTREAM_PROVENANCE_PAGE_SIZE = 100"

text \<open>\<open>ORDER BY created_at,job_id LIMIT ?\<close> over the rows that a condition selects.\<close>

definition position :: "job \<Rightarrow> instant \<times> string" where
  "position j = (j_created_at j, j_id j)"

definition job_page :: "nat \<Rightarrow> (job \<Rightarrow> bool) \<Rightarrow> job list \<Rightarrow> job list" where
  "job_page n p jobs = take n (sort_key position (filter p jobs))"

definition beyond :: "page_cursor \<Rightarrow> job \<Rightarrow> bool" where
  "beyond cursor j \<longleftrightarrow> (case cursor of None \<Rightarrow> True | Some c \<Rightarrow> c < position j)"

definition job_source_key :: "job \<Rightarrow> source_key" where
  "job_source_key j = (j_source j, j_item j, j_revision j)"

section \<open>What migration work is still worth\<close>

text \<open>
  \<open>assess_news_time(...).eligible\<close> with its \<open>TypeError\<close> and \<open>ValueError\<close> caught, on stored times.
\<close>

definition timely ::
    "platform \<Rightarrow> zone \<Rightarrow> time_policy \<Rightarrow> instant \<Rightarrow> instant \<Rightarrow> instant \<Rightarrow> instant option \<Rightarrow> bool" where
  "timely P z pol decision epoch first_seen published =
     (if decision < first_seen then False
      else case published of
        None \<Rightarrow> False
      | Some p \<Rightarrow>
          (case news_elapsed z pol p decision of
             Inl _ \<Rightarrow> False
           | Inr elapsed \<Rightarrow> na_eligible (judge_news_time P pol decision epoch first_seen p elapsed)))"

text \<open>The judgement is the one of \<open>assess_news_time\<close> on the texts that denote those times.\<close>

lemma timely_is_assess_news_time:
  assumes "time_of M (nr_first_seen row) = Inr (Some first_seen)" "time_of M (nr_published row) = Inr published"
  shows "timely P z pol decision epoch first_seen published =
    (case assess_news_time P M z pol row decision epoch of Inl _ \<Rightarrow> False | Inr a \<Rightarrow> na_eligible a)"
  using assms
  by (cases published)
    (auto simp: timely_def assess_news_time_def assessment_def bind_out_def split: sum.splits)

definition backfill_policy :: "string option \<Rightarrow> time_policy" where
  "backfill_policy category =
     default_time_policy\<lparr>tp_max_age := fst (category_time_rule category), tp_max_delay := None\<rparr>"

definition prior_annotation :: "string \<Rightarrow> source_key \<Rightarrow> annotation_row list \<Rightarrow> annotation_row option" where
  "prior_annotation prompt key rows =
     sql_first (\<lambda>a. - nn_parsed a) (\<lambda>a. nn_key a = key \<and> nn_prompt a \<noteq> prompt) rows"

definition timely_backfill ::
    "platform \<Rightarrow> zone \<Rightarrow> instant \<Rightarrow> lane_db \<Rightarrow> revision \<Rightarrow> string option \<Rightarrow> bool outcome" where
  "timely_backfill P z activated db n category =
     (case ld_epoch (wl_ledger db) of
        None \<Rightarrow> Inl (OtherError ''TypeError'')
      | Some epoch \<Rightarrow>
          Inr (timely P z (backfill_policy category) activated epoch (vn_first_seen n) (vn_published n)))"

definition contract_backfill_has_current_value ::
    "platform \<Rightarrow> zone \<Rightarrow> instant \<Rightarrow> string \<Rightarrow> lane_db \<Rightarrow> revision \<Rightarrow> bool outcome" where
  "contract_backfill_has_current_value P z activated prompt db n =
     (case prior_annotation prompt (key_of n) (ld_annotations (wl_ledger db)) of
        None \<Rightarrow> timely_backfill P z activated db n None
      | Some a \<Rightarrow>
          (case wl_json db (nn_id a) of
             None \<Rightarrow> Inr False
           | Some (JObj d) \<Rightarrow>
               if str_or_empty P (jget d ''xauusd_relevance'') = ''IRRELEVANT'' then Inr False
               else timely_backfill P z activated db n
                      (let c = str_or_empty P (jget d ''primary_category'') in if c = [] then None else Some c)
           | Some _ \<Rightarrow> Inl (OtherError ''AttributeError'')))"

section \<open>The lanes of the annotation jobs\<close>

definition find_lane :: "string \<Rightarrow> lane_db \<Rightarrow> lane_migration option" where
  "find_lane prompt db = find (\<lambda>m. lm_prompt m = prompt) (wl_lanes db)"

definition find_backfill :: "string \<Rightarrow> lane_db \<Rightarrow> contract_backfill option" where
  "find_backfill prompt db = find (\<lambda>b. bf_prompt b = prompt) (wl_backfills db)"

definition annotation_job :: "string \<Rightarrow> job \<Rightarrow> bool" where
  "annotation_job prompt j \<longleftrightarrow> j_task j = ACTIVE_ANNOTATION \<and> j_prompt j = prompt"

text \<open>When the contract took effect: as recorded, else the first job of it, else now.\<close>

definition activation :: "string \<Rightarrow> instant \<Rightarrow> lane_db \<Rightarrow> instant" where
  "activation prompt now db =
     (case find_lane prompt db of
        Some m \<Rightarrow> lm_activated m
      | None \<Rightarrow>
          (case find_backfill prompt db of
             Some b \<Rightarrow> bf_activated b
           | None \<Rightarrow>
               (case map j_created_at (filter (annotation_job prompt) (wl_jobs db)) of
                  [] \<Rightarrow> now
                | t # ts \<Rightarrow> Min (set (t # ts)))))"

definition open_lane_migration :: "string \<Rightarrow> instant \<Rightarrow> lane_db \<Rightarrow> lane_db" where
  "open_lane_migration prompt now db =
     (let activated = activation prompt now db in
      db\<lparr>wl_backfills := wl_backfills db @
           (if find_backfill prompt db = None
            then [\<lparr>bf_prompt = prompt, bf_activated = activated, bf_cursor = None, bf_state = ACTIVE,
                   bf_updated = now\<rparr>] else []),
         wl_lanes := wl_lanes db @
           (if find_lane prompt db = None
            then [\<lparr>lm_prompt = prompt, lm_activated = activated, lm_cursor = None, lm_processed = 0,
                   lm_state = ACTIVE, lm_updated = now\<rparr>] else [])\<rparr>)"

definition evidence_of_job :: "lane_db \<Rightarrow> job \<Rightarrow> revision option" where
  "evidence_of_job db j = find (\<lambda>n. key_of n = job_source_key j) (ld_revisions (wl_ledger db))"

definition historical :: "instant \<Rightarrow> lane_db \<Rightarrow> job \<Rightarrow> bool" where
  "historical activated db j \<longleftrightarrow>
     (case evidence_of_job db j of None \<Rightarrow> True | Some n \<Rightarrow> vn_first_seen n < activated)"

text \<open>Waiting backfill without a revision, or whose revision has no value any more, is retired.\<close>

definition retires ::
    "platform \<Rightarrow> zone \<Rightarrow> instant \<Rightarrow> string \<Rightarrow> lane_db \<Rightarrow> job \<Rightarrow> bool outcome" where
  "retires P z activated prompt db j =
     (if historical activated db j \<and> queued_or_backing_off j
      then (case evidence_of_job db j of
              None \<Rightarrow> Inr True
            | Some n \<Rightarrow> bind_out (contract_backfill_has_current_value P z activated prompt db n) (\<lambda>v. Inr (\<not> v)))
      else Inr False)"

definition classified_row :: "bool \<Rightarrow> bool \<Rightarrow> instant \<Rightarrow> job \<Rightarrow> job" where
  "classified_row hist gone now j =
     j\<lparr>j_lane := (if hist then CONTRACT_BACKFILL else LIVE), j_priority := (if hist then BACKGROUND else FAST),
       j_lane_classified := True,
       j_state := (if gone then DEAD_LETTER else j_state j),
       j_last_error := (if gone then Some ''CURRENT_EVIDENCE_NO_LONGER_ELIGIBLE'' else j_last_error j),
       j_lease_owner := (if gone then None else j_lease_owner j),
       j_lease_expires_at := (if gone then None else j_lease_expires_at j),
       j_updated_at := (if gone then now else j_updated_at j),
       j_completed_at := (if gone then Some now else j_completed_at j)\<rparr>"

definition classify_job ::
    "platform \<Rightarrow> zone \<Rightarrow> instant \<Rightarrow> string \<Rightarrow> instant \<Rightarrow> job \<Rightarrow> lane_db \<Rightarrow> lane_db outcome" where
  "classify_job P z activated prompt now row db =
     bind_out (retires P z activated prompt db row) (\<lambda>gone.
       Inr (set_jobs_of (sql_update (\<lambda>j. j_id j = j_id row \<and> \<not> j_lane_classified j)
              (classified_row (historical activated db row) gone now) (wl_jobs db)) db))"

definition unclassified :: "string \<Rightarrow> job \<Rightarrow> bool" where
  "unclassified prompt j \<longleftrightarrow> annotation_job prompt j \<and> \<not> j_lane_classified j"

definition update_lane :: "string \<Rightarrow> (lane_migration \<Rightarrow> lane_migration) \<Rightarrow> lane_db \<Rightarrow> lane_db" where
  "update_lane prompt f db = db\<lparr>wl_lanes := sql_update (\<lambda>m. lm_prompt m = prompt) f (wl_lanes db)\<rparr>"

definition lane_marker :: "string \<Rightarrow> string" where
  "lane_marker prompt = ''annotation-work-lanes:'' @ prompt"

text \<open>The second transaction: a page of jobs, the cursor behind it, and the end of the migration.\<close>

definition lane_transaction ::
    "platform \<Rightarrow> zone \<Rightarrow> instant \<Rightarrow> string \<Rightarrow> instant \<Rightarrow> lane_migration \<Rightarrow> lane_db \<Rightarrow> lane_db outcome" where
  "lane_transaction P z activated prompt now m db =
     (let rows = job_page EXISTING_JOB_LANE_PAGE_SIZE
                   (\<lambda>j. unclassified prompt j \<and> beyond (lm_cursor m) j) (wl_jobs db) in
      bind_out (fold_out (classify_job P z activated prompt now) rows db) (\<lambda>db.
        let db = (if rows = [] then db
                  else update_lane prompt (\<lambda>m. m\<lparr>lm_cursor := Some (position (last rows)),
                         lm_processed := lm_processed m + int (length rows), lm_updated := now\<rparr>) db)
        in Inr (if length rows < EXISTING_JOB_LANE_PAGE_SIZE
                then (update_lane prompt (\<lambda>m. m\<lparr>lm_state := COMPLETE, lm_updated := now\<rparr>) db)
                       \<lparr>wl_marks := sql_insert_ignore (\<lambda>k. fst k = lane_marker prompt)
                          (lane_marker prompt, now) (wl_marks db)\<rparr>
                else db)))"

definition install_annotation_contract_lanes ::
    "platform \<Rightarrow> zone \<Rightarrow> string \<Rightarrow> instant \<Rightarrow> lane_db \<Rightarrow> instant outcome \<times> lane_db" where
  "install_annotation_contract_lanes P z prompt now db =
     (let activated = activation prompt now db;
          db = open_lane_migration prompt now db in
      case find_lane prompt db of
        None \<Rightarrow> (Inl (OtherError ''TypeError''), db)
      | Some m \<Rightarrow>
          if lm_state m = COMPLETE then (Inr activated, db)
          else (case lane_transaction P z activated prompt now m db of
                  Inl e \<Rightarrow> (Inl e, db)
                | Inr db' \<Rightarrow> (Inr activated, db')))"

section \<open>The provenance of derived work\<close>

definition lane_annotation :: "string \<Rightarrow> source_key \<Rightarrow> string \<Rightarrow> annotation_row \<Rightarrow> bool" where
  "lane_annotation prompt key aid a \<longleftrightarrow>
     nn_key a = key \<and> nn_prompt a = prompt \<and> (aid = [] \<or> nn_id a = aid)"

text \<open>
  The projections that made the current annotation, and the classified jobs that own it. Only whether
  there is one of each matters, so the order of the first query is left out.
\<close>

definition projections_of :: "string \<Rightarrow> source_key \<Rightarrow> string \<Rightarrow> lane_db \<Rightarrow> transition_projection list" where
  "projections_of prompt key aid db =
     concat (map (\<lambda>a. filter (\<lambda>p. tj_target p = nn_id a) (wl_projections db))
       (filter (lane_annotation prompt key aid) (ld_annotations (wl_ledger db))))"

definition owners_of :: "string \<Rightarrow> source_key \<Rightarrow> string \<Rightarrow> lane_db \<Rightarrow> job list" where
  "owners_of prompt key aid db =
     filter (\<lambda>j. annotation_job prompt j \<and> job_source_key j = key \<and> j_lane_classified j \<and>
                 list_ex (lane_annotation prompt key aid) (ld_annotations (wl_ledger db))) (wl_jobs db)"

definition resolve_work_provenance ::
    "string \<Rightarrow> source_key \<Rightarrow> string \<Rightarrow> lane_db \<Rightarrow> work_provenance option outcome" where
  "resolve_work_provenance prompt key aid db =
     (case owners_of prompt key aid db of
        [owner] \<Rightarrow>
          (case projections_of prompt key aid db of
             [] \<Rightarrow>
               bind_out (make_provenance (lane_name (j_lane owner)) ''ACTIVE_ANNOTATION'' (j_id owner))
                 (\<lambda>p. Inr (Some p))
           | [p] \<Rightarrow>
               bind_out (make_provenance ''CONTRACT_BACKFILL'' ''SEMANTIC_TRANSITION''
                   (tj_fingerprint p @ '':'' @ tj_source p))
                 (\<lambda>p. Inr (Some p))
           | _ \<Rightarrow> Inr None)
      | _ \<Rightarrow> Inr None)"

section \<open>The repair of the downstream jobs\<close>

definition downstream :: "job \<Rightarrow> bool" where
  "downstream j \<longleftrightarrow> j_task j = ACTIVE_IMPACT \<or> j_task j = TITLE_TRANSLATION"

definition unversioned :: "job \<Rightarrow> bool" where
  "unversioned j \<longleftrightarrow> downstream j \<and> j_provenance_version j \<noteq> Some WORK_PROVENANCE_VERSION"

record repair_report =
  rp_state :: migration_state
  rp_processed :: int
  rp_resolved :: int
  rp_unresolved :: int
  rp_leased :: int

definition unresolved_row :: "instant \<Rightarrow> job \<Rightarrow> job" where
  "unresolved_row now j =
     j\<lparr>j_lane_classified := False, j_provenance_resolved := False,
       j_provenance_version := Some WORK_PROVENANCE_VERSION, j_origin_task := Some ''UNRESOLVED'',
       j_origin_ref := Some (''unresolved:'' @ j_id j), j_updated_at := now\<rparr>"

definition resolved_row :: "work_provenance \<Rightarrow> instant \<Rightarrow> job \<Rightarrow> job" where
  "resolved_row p now j =
     j\<lparr>j_lane := wp_lane p, j_priority := (if wp_lane p = CONTRACT_BACKFILL then BACKGROUND else j_priority j),
       j_lane_classified := True, j_provenance_resolved := True,
       j_provenance_version := Some WORK_PROVENANCE_VERSION, j_origin_task := Some (wp_origin_task p),
       j_origin_ref := Some (wp_origin_ref p), j_updated_at := now\<rparr>"

record repair_counts =
  rc_resolved :: int
  rc_unresolved :: int
  rc_leased :: int

definition repair_job ::
    "string \<Rightarrow> bool \<Rightarrow> instant \<Rightarrow> job \<Rightarrow> lane_db \<times> repair_counts \<Rightarrow> (lane_db \<times> repair_counts) outcome" where
  "repair_job prompt parents now row st =
     (case st of (db, c) \<Rightarrow>
        if j_state row = LEASED then Inr (db, c\<lparr>rc_leased := rc_leased c + 1\<rparr>)
        else bind_out (resolve_work_provenance prompt (job_source_key row) (j_annotation row) db) (\<lambda>found.
          let write = (\<lambda>f. set_jobs_of (sql_update (\<lambda>j. j_id j = j_id row \<and> j_state j \<noteq> LEASED) f (wl_jobs db)) db)
          in case found of
               None \<Rightarrow>
                 if \<not> parents then Inr (db, c)
                 else Inr (write (unresolved_row now), c\<lparr>rc_unresolved := rc_unresolved c + 1\<rparr>)
             | Some p \<Rightarrow> Inr (write (resolved_row p now), c\<lparr>rc_resolved := rc_resolved c + 1\<rparr>)))"

definition find_downstream :: "lane_db \<Rightarrow> provenance_migration option" where
  "find_downstream db = find (\<lambda>m. pm_version m = WORK_PROVENANCE_VERSION) (wl_downstream db)"

definition open_provenance_migration :: "instant \<Rightarrow> lane_db \<Rightarrow> lane_db" where
  "open_provenance_migration now db =
     (if find_downstream db = None
      then db\<lparr>wl_downstream := wl_downstream db @
             [\<lparr>pm_version = WORK_PROVENANCE_VERSION, pm_cursor = None, pm_processed = 0, pm_resolved = 0,
               pm_unresolved = 0, pm_leased = 0, pm_pass = 0, pm_state = ACTIVE, pm_updated = now\<rparr>]\<rparr>
      else db)"

definition parents_complete :: "string \<Rightarrow> lane_db \<Rightarrow> bool" where
  "parents_complete prompt db \<longleftrightarrow>
     (case find_lane prompt db of None \<Rightarrow> False | Some m \<Rightarrow> lm_state m = COMPLETE)"

text \<open>Once the parents are classified, waiting work goes first and leaves the cursor where it is.\<close>

definition priority_rows :: "string \<Rightarrow> lane_db \<Rightarrow> job list" where
  "priority_rows prompt db =
     (if parents_complete prompt db
      then job_page DOWNSTREAM_PROVENANCE_PAGE_SIZE (\<lambda>j. unversioned j \<and> queued_or_backing_off j) (wl_jobs db)
      else [])"

definition repair_rows :: "string \<Rightarrow> provenance_migration \<Rightarrow> lane_db \<Rightarrow> job list" where
  "repair_rows prompt m db =
     (if priority_rows prompt db \<noteq> [] then priority_rows prompt db
      else job_page DOWNSTREAM_PROVENANCE_PAGE_SIZE (\<lambda>j. unversioned j \<and> beyond (pm_cursor m) j) (wl_jobs db))"

definition update_downstream :: "(provenance_migration \<Rightarrow> provenance_migration) \<Rightarrow> lane_db \<Rightarrow> lane_db" where
  "update_downstream f db =
     db\<lparr>wl_downstream := sql_update (\<lambda>m. pm_version m = WORK_PROVENANCE_VERSION) f (wl_downstream db)\<rparr>"

definition add_counts :: "repair_counts \<Rightarrow> instant \<Rightarrow> provenance_migration \<Rightarrow> provenance_migration" where
  "add_counts c now m =
     m\<lparr>pm_processed := pm_processed m + (rc_resolved c + rc_unresolved c), pm_resolved := pm_resolved m + rc_resolved c,
       pm_unresolved := pm_unresolved m + rc_unresolved c, pm_leased := pm_leased m + rc_leased c,
       pm_state := ACTIVE, pm_updated := now\<rparr>"

definition end_pass :: "bool \<Rightarrow> instant \<Rightarrow> provenance_migration \<Rightarrow> provenance_migration" where
  "end_pass remaining now m =
     m\<lparr>pm_cursor := None, pm_pass := pm_pass m + 1,
       pm_state := (if remaining then WAITING_INPUT else COMPLETE), pm_updated := now\<rparr>"

definition provenance_transaction ::
    "string \<Rightarrow> instant \<Rightarrow> provenance_migration \<Rightarrow> lane_db \<Rightarrow> (lane_db \<times> repair_counts) outcome" where
  "provenance_transaction prompt now m db =
     (let rows = repair_rows prompt m db; first = (priority_rows prompt db \<noteq> []) in
      bind_out (fold_out (repair_job prompt (parents_complete prompt db) now) rows
                  (db, \<lparr>rc_resolved = 0, rc_unresolved = 0, rc_leased = 0\<rparr>)) (\<lambda>(db, c).
        let db = (if rows = [] then db
                  else if first then update_downstream (add_counts c now) db
                  else update_downstream (\<lambda>m. (add_counts c now m)\<lparr>pm_cursor := Some (position (last rows))\<rparr>) db)
        in Inr (if \<not> first \<and> length rows < DOWNSTREAM_PROVENANCE_PAGE_SIZE
                then update_downstream (end_pass (list_ex unversioned (wl_jobs db)) now) db
                else db, c)))"

definition install_downstream_work_provenance ::
    "string \<Rightarrow> instant \<Rightarrow> lane_db \<Rightarrow> repair_report outcome \<times> lane_db" where
  "install_downstream_work_provenance prompt now db =
     (let db = open_provenance_migration now db in
      case find_downstream db of
        None \<Rightarrow> (Inl (OtherError ''TypeError''), db)
      | Some m \<Rightarrow>
          if pm_state m = COMPLETE
          then (Inr \<lparr>rp_state = COMPLETE, rp_processed = 0, rp_resolved = 0, rp_unresolved = 0, rp_leased = 0\<rparr>, db)
          else (case provenance_transaction prompt now m db of
                  Inl e \<Rightarrow> (Inl e, db)
                | Inr (db', c) \<Rightarrow>
                    (case find_downstream db' of
                       None \<Rightarrow> (Inl (OtherError ''TypeError''), db')
                     | Some m' \<Rightarrow>
                         (Inr \<lparr>rp_state = pm_state m', rp_processed = rc_resolved c + rc_unresolved c,
                               rp_resolved = rc_resolved c, rp_unresolved = rc_unresolved c,
                               rp_leased = rc_leased c\<rparr>, db'))))"

section \<open>Pages and sweeps\<close>

lemma sort_take_order:
  assumes "sorted (map k s)" "r \<in> set (take n s)" "q \<in> set (drop n s)"
  shows "k r \<le> k q"
proof -
  have "sorted (map k (take n s) @ map k (drop n s))" using assms(1) by (metis append_take_drop_id map_append)
  then show ?thesis using assms(2,3) by (auto simp: sorted_append)
qed

lemma job_page_mem: "j \<in> set (job_page n p jobs) \<Longrightarrow> j \<in> set jobs \<and> p j"
  unfolding job_page_def by (drule in_set_takeD) simp

lemma job_page_all:
  assumes "length (job_page n p jobs) < n"
  shows "set (job_page n p jobs) = {j \<in> set jobs. p j}"
proof -
  have "length (sort_key position (filter p jobs)) \<le> n" using assms by (simp add: job_page_def)
  then have "job_page n p jobs = sort_key position (filter p jobs)" by (simp add: job_page_def)
  then show ?thesis by simp
qed

lemma job_page_length: "length (job_page n p jobs) \<le> n"
  by (simp add: job_page_def)

lemma job_page_Nil: "0 < n \<Longrightarrow> job_page n p jobs = [] \<longleftrightarrow> (\<forall>j \<in> set jobs. \<not> p j)"
  using job_page_all [of n p jobs] job_page_mem [of _ n p jobs] by (cases "job_page n p jobs") auto

lemma distinct_job_page: "distinct jobs \<Longrightarrow> distinct (job_page n p jobs)"
  by (simp add: job_page_def)

lemma job_page_rest:
  assumes "job_page n p jobs \<noteq> []" "q \<in> set jobs" "p q" "q \<notin> set (job_page n p jobs)"
  shows "position (last (job_page n p jobs)) \<le> position q"
proof -
  let ?s = "sort_key position (filter p jobs)"
  have "q \<in> set (take n ?s) \<union> set (drop n ?s)" using assms(2,3) by (simp flip: set_append)
  then have "q \<in> set (drop n ?s)" using assms(4) unfolding job_page_def by blast
  moreover have "last (job_page n p jobs) \<in> set (take n ?s)" using last_in_set [OF assms(1)] by (simp add: job_page_def)
  ultimately show ?thesis by (intro sort_take_order [OF sorted_sort_key]) (simp_all add: job_page_def)
qed

definition distinct_ids :: "job list \<Rightarrow> bool" where
  "distinct_ids jobs \<longleftrightarrow> distinct (map j_id jobs)"

lemma distinct_idsD:
  "distinct_ids jobs \<Longrightarrow> distinct jobs"
  "distinct_ids jobs \<Longrightarrow> i \<in> set jobs \<Longrightarrow> j \<in> set jobs \<Longrightarrow> j_id i = j_id j \<longleftrightarrow> i = j"
  unfolding distinct_ids_def by (auto simp: distinct_map dest: inj_onD)

lemma distinct_ids_map: "(\<And>j. j_id (f j) = j_id j) \<Longrightarrow> distinct_ids (map f jobs) \<longleftrightarrow> distinct_ids jobs"
  unfolding distinct_ids_def by (simp add: comp_def)

lemma update_one_job:
  assumes "distinct_ids jobs" "row \<in> set jobs" "p row"
  shows "sql_update (\<lambda>j. j_id j = j_id row \<and> p j) f jobs = map (\<lambda>j. if j = row then f row else j) jobs"
  unfolding sql_update_def using assms by (intro map_cong) (auto simp: distinct_idsD)

text \<open>
  A sweep handles a list of rows one after the other; a step rewrites its own row only, to one that is
  finished, or leaves it. The sweep then rewrites exactly the rows it was given.
\<close>

lemma sweep_rows:
  assumes step: "\<And>row s. ok s \<Longrightarrow> row \<in> set (jobs_of s) \<Longrightarrow> \<not> fin row \<Longrightarrow>
      \<exists>s'. step row s = Inr s' \<and> ok s' \<and> jobs_of s' = map (\<lambda>j. if j = row then new row else j) (jobs_of s)"
    and new: "\<And>row. new row = row \<or> fin (new row)"
    and start: "ok s" "set rows \<subseteq> set (jobs_of s)" "\<forall>r \<in> set rows. \<not> fin r" "distinct rows"
  shows "\<exists>s'. fold_out step rows s = Inr s' \<and> ok s' \<and> jobs_of s' = map (\<lambda>j. if j \<in> set rows then new j else j) (jobs_of s)"
  using start
proof (induction rows arbitrary: s)
  case (Cons row rows)
  from Cons.prems obtain s1 where s1: "step row s = Inr s1" "ok s1"
      "jobs_of s1 = map (\<lambda>j. if j = row then new row else j) (jobs_of s)"
    using step [of s row] by auto
  have "set rows \<subseteq> set (jobs_of s1)" using Cons.prems s1(3) by (auto simp: image_iff)
  with Cons.IH [OF s1(2)] Cons.prems obtain s2 where s2: "fold_out step rows s1 = Inr s2" "ok s2"
      "jobs_of s2 = map (\<lambda>j. if j \<in> set rows then new j else j) (jobs_of s1)"
    by auto
  have "(if (if j = row then new row else j) \<in> set rows then new (if j = row then new row else j)
         else (if j = row then new row else j)) = (if j \<in> set (row # rows) then new j else j)" for j
    using Cons.prems(3,4) new [of row] by auto
  then have "jobs_of s2 = map (\<lambda>j. if j \<in> set (row # rows) then new j else j) (jobs_of s)"
    using s2(3) s1(3) by (simp add: comp_def)
  then show ?case using s1(1) s2 by simp
qed simp

lemma count_after_sweep:
  assumes "distinct_ids jobs" "set rows \<subseteq> {j \<in> set jobs. p j}" "distinct rows"
    "\<And>j. j \<in> set rows \<Longrightarrow> \<not> p (new j)"
  shows "length (filter p (map (\<lambda>j. if j \<in> set rows then new j else j) jobs)) + length rows = length (filter p jobs)"
proof -
  let ?g = "\<lambda>j. if j \<in> set rows then new j else j"
  have d: "distinct jobs" using assms(1) by (rule distinct_idsD)
  have "length (filter p (map ?g jobs)) = length (filter (\<lambda>j. p j \<and> j \<notin> set rows) jobs)"
  proof -
    have "filter p (map ?g jobs) = map ?g (filter (p \<circ> ?g) jobs)" by (simp add: filter_map)
    moreover have "p (?g j) = (p j \<and> j \<notin> set rows)" for j using assms(4) by auto
    ultimately show ?thesis by (simp add: comp_def)
  qed
  also have "\<dots> = card ({j \<in> set jobs. p j} - set rows)"
    using d by (simp add: distinct_length_filter set_diff_eq Int_def conj_commute conj_left_commute)
  finally have 1: "length (filter p (map ?g jobs)) = card ({j \<in> set jobs. p j} - set rows)" .
  have "card ({j \<in> set jobs. p j} - set rows) = card {j \<in> set jobs. p j} - card (set rows)"
    using assms(2) by (simp add: card_Diff_subset)
  moreover have "card (set rows) \<le> card {j \<in> set jobs. p j}" using assms(2) by (simp add: card_mono)
  moreover have "length (filter p jobs) = card {j \<in> set jobs. p j}"
    using d by (simp add: distinct_length_filter Int_def conj_commute)
  ultimately show ?thesis using 1 assms(3) by (simp add: distinct_card)
qed

section \<open>The lanes are assigned\<close>

text \<open>What the repairs read and never write.\<close>

definition lane_evidence :: "lane_db \<Rightarrow> lane_db \<Rightarrow> bool" where
  "lane_evidence db db' \<longleftrightarrow>
     ld_epoch (wl_ledger db') = ld_epoch (wl_ledger db) \<and>
     ld_annotations (wl_ledger db') = ld_annotations (wl_ledger db) \<and>
     ld_revisions (wl_ledger db') = ld_revisions (wl_ledger db) \<and>
     wl_json db' = wl_json db \<and> wl_projections db' = wl_projections db"

lemma lane_evidence_refl [simp]: "lane_evidence db db"
  by (simp add: lane_evidence_def)

lemma lane_evidence_trans: "lane_evidence a b \<Longrightarrow> lane_evidence b c \<Longrightarrow> lane_evidence a c"
  by (simp add: lane_evidence_def)

lemma set_jobs_evidence [simp]: "lane_evidence db (set_jobs_of jobs db')= lane_evidence db db'"
  by (simp add: lane_evidence_def)

lemma current_value_cong:
  assumes "lane_evidence db db'"
  shows "contract_backfill_has_current_value P z activated prompt db' n =
    contract_backfill_has_current_value P z activated prompt db n"
proof -
  have t: "timely_backfill P z activated db' n c = timely_backfill P z activated db n c" for c
    using assms by (simp add: timely_backfill_def lane_evidence_def)
  have e: "wl_json db' = wl_json db" "ld_annotations (wl_ledger db') = ld_annotations (wl_ledger db)"
    using assms by (simp_all add: lane_evidence_def)
  show ?thesis unfolding contract_backfill_has_current_value_def e t ..
qed

lemma retires_cong:
  assumes "lane_evidence db db'"
  shows "retires P z activated prompt db' j = retires P z activated prompt db j"
    "historical activated db' j = historical activated db j"
proof -
  have r: "evidence_of_job db' j = evidence_of_job db j" using assms by (simp add: evidence_of_job_def lane_evidence_def)
  then show h: "historical activated db' j = historical activated db j" by (simp add: historical_def)
  show "retires P z activated prompt db' j = retires P z activated prompt db j"
    unfolding retires_def r h current_value_cong [OF assms] ..
qed

text \<open>The database is installed, and every annotation that can be parsed is an object.\<close>

definition lanes_ready :: "lane_db \<Rightarrow> bool" where
  "lanes_ready db \<longleftrightarrow> distinct_ids (wl_jobs db) \<and> ld_epoch (wl_ledger db) \<noteq> None \<and>
     (\<forall>a \<in> set (ld_annotations (wl_ledger db)). \<forall>v. wl_json db (nn_id a) = Some v \<longrightarrow> (\<exists>d. v = JObj d))"

lemma lanes_ready_cong:
  "lane_evidence db db' \<Longrightarrow> distinct_ids (wl_jobs db') \<Longrightarrow> lanes_ready db \<Longrightarrow> lanes_ready db'"
  by (simp add: lanes_ready_def lane_evidence_def)

lemma timely_backfill_total: "lanes_ready db \<Longrightarrow> \<exists>v. timely_backfill P z activated db n c = Inr v"
  by (auto simp: timely_backfill_def lanes_ready_def)

lemma current_value_total:
  assumes "lanes_ready db"
  shows "\<exists>v. contract_backfill_has_current_value P z activated prompt db n = Inr v"
proof (cases "prior_annotation prompt (key_of n) (ld_annotations (wl_ledger db))")
  case None
  then show ?thesis using timely_backfill_total [OF assms] by (simp add: contract_backfill_has_current_value_def)
next
  case (Some a)
  then have a: "a \<in> set (ld_annotations (wl_ledger db))"
    unfolding prior_annotation_def by (rule sql_first_SomeD)
  show ?thesis
  proof (cases "wl_json db (nn_id a)")
    case None
    then show ?thesis using Some by (intro exI [of _ False]) (simp add: contract_backfill_has_current_value_def)
  next
    case (Some v)
    then obtain d where "v = JObj d" using assms a by (auto simp: lanes_ready_def)
    then show ?thesis using \<open>prior_annotation _ _ _ = Some a\<close> Some timely_backfill_total [OF assms]
      by (auto simp: contract_backfill_has_current_value_def)
  qed
qed

lemma retires_total:
  assumes "lanes_ready db"
  shows "\<exists>v. retires P z activated prompt db j = Inr v"
proof (cases "evidence_of_job db j")
  case None
  then show ?thesis by (auto simp: retires_def)
next
  case (Some n)
  obtain v where "contract_backfill_has_current_value P z activated prompt db n = Inr v"
    using current_value_total [OF assms] by blast
  then show ?thesis using Some by (auto simp: retires_def)
qed

definition lane_row :: "platform \<Rightarrow> zone \<Rightarrow> instant \<Rightarrow> string \<Rightarrow> instant \<Rightarrow> lane_db \<Rightarrow> job \<Rightarrow> job" where
  "lane_row P z activated prompt now db j =
     classified_row (historical activated db j) (retires P z activated prompt db j = Inr True) now j"

lemma lane_row_simps [simp]:
  "j_lane_classified (lane_row P z activated prompt now db j)"
  "j_id (lane_row P z activated prompt now db j) = j_id j"
  "\<not> unclassified prompt' (lane_row P z activated prompt now db j)"
  by (simp_all add: lane_row_def classified_row_def unclassified_def)

lemma classify_job_step:
  assumes "lanes_ready db" "row \<in> set (wl_jobs db)" "\<not> j_lane_classified row"
  shows "classify_job P z activated prompt now row db =
    Inr (set_jobs_of (map (\<lambda>j. if j = row then lane_row P z activated prompt now db row else j) (wl_jobs db)) db)"
proof -
  obtain v where v: "retires P z activated prompt db row = Inr v" using retires_total [OF assms(1)] by blast
  then have row: "classified_row (historical activated db row) v now row = lane_row P z activated prompt now db row"
    by (simp add: lane_row_def)
  have "sql_update (\<lambda>j. j_id j = j_id row \<and> \<not> j_lane_classified j) (classified_row (historical activated db row) v now)
      (wl_jobs db) = map (\<lambda>j. if j = row then lane_row P z activated prompt now db row else j) (wl_jobs db)"
    using assms unfolding row [symmetric] by (intro update_one_job) (simp_all add: lanes_ready_def)
  then show ?thesis by (simp add: classify_job_def v)
qed

definition lane_state_of :: "lane_db \<Rightarrow> lane_migration list \<times> contract_backfill list" where
  "lane_state_of db = (wl_lanes db, wl_backfills db)"

lemma classify_sweep:
  assumes "lanes_ready db" "set rows \<subseteq> set (wl_jobs db)" "\<forall>r \<in> set rows. \<not> j_lane_classified r" "distinct rows"
  shows "\<exists>db'. fold_out (classify_job P z activated prompt now) rows db = Inr db' \<and>
    (lanes_ready db' \<and> lane_evidence db db' \<and> lane_state_of db' = lane_state_of db) \<and>
    wl_jobs db' = map (\<lambda>j. if j \<in> set rows then lane_row P z activated prompt now db j else j) (wl_jobs db)"
proof (rule sweep_rows [where fin = j_lane_classified and jobs_of = wl_jobs
      and ok = "\<lambda>s. lanes_ready s \<and> lane_evidence db s \<and> lane_state_of s = lane_state_of db"])
  fix row s assume s: "lanes_ready s \<and> lane_evidence db s \<and> lane_state_of s = lane_state_of db"
    and row: "row \<in> set (wl_jobs s)" "\<not> j_lane_classified row"
  have eq: "lane_row P z activated prompt now s row = lane_row P z activated prompt now db row"
    using s by (simp add: lane_row_def retires_cong [of db s])
  let ?jobs = "map (\<lambda>j. if j = row then lane_row P z activated prompt now db row else j) (wl_jobs s)"
  have "j_id (if j = row then lane_row P z activated prompt now db row else j) = j_id j" for j by simp
  then have "distinct_ids ?jobs" using s distinct_ids_map [of "\<lambda>j. if j = row then lane_row P z activated prompt now db row else j"]
    by (simp add: lanes_ready_def)
  then have "distinct_ids (wl_jobs (set_jobs_of ?jobs s))" by (simp only: set_jobs_of_simps)
  moreover have "lane_evidence s (set_jobs_of ?jobs s)" by simp
  ultimately have "lanes_ready (set_jobs_of ?jobs s)" using s lanes_ready_cong by blast
  moreover have "lane_state_of (set_jobs_of ?jobs s) = lane_state_of db" using s by (simp add: lane_state_of_def)
  moreover have "lane_evidence db (set_jobs_of ?jobs s)" using s by simp
  moreover have "classify_job P z activated prompt now row s = Inr (set_jobs_of ?jobs s)"
    using classify_job_step [of s row P z activated prompt now] s row unfolding eq by blast
  ultimately show "\<exists>s'. classify_job P z activated prompt now row s = Inr s' \<and>
      (lanes_ready s' \<and> lane_evidence db s' \<and> lane_state_of s' = lane_state_of db) \<and> wl_jobs s' = ?jobs"
    using set_jobs_of_simps(1) by blast
qed (use assms in \<open>auto simp: lane_state_of_def\<close>)

text \<open>The jobs that a migration has before it: unclassified, beyond its cursor, and it is not complete.\<close>

definition ahead :: "string \<Rightarrow> lane_migration \<Rightarrow> job \<Rightarrow> bool" where
  "ahead prompt m j \<longleftrightarrow> unclassified prompt j \<and> lm_state m \<noteq> COMPLETE \<and> beyond (lm_cursor m) j"

definition ahead_count :: "string \<Rightarrow> lane_migration \<Rightarrow> lane_db \<Rightarrow> nat" where
  "ahead_count prompt m db = length (filter (ahead prompt m) (wl_jobs db))"

definition lane_rows :: "string \<Rightarrow> lane_migration \<Rightarrow> lane_db \<Rightarrow> job list" where
  "lane_rows prompt m db =
     job_page EXISTING_JOB_LANE_PAGE_SIZE (\<lambda>j. unclassified prompt j \<and> beyond (lm_cursor m) j) (wl_jobs db)"

lemma find_update_lane [simp]:
  "(\<And>m. lm_prompt (f m) = lm_prompt m) \<Longrightarrow> find_lane prompt (update_lane prompt f db) = map_option f (find_lane prompt db)"
  unfolding find_lane_def update_lane_def by (simp add: find_update_same)

lemma update_lane_frame [simp]:
  "wl_ledger (update_lane prompt f db) = wl_ledger db" "wl_json (update_lane prompt f db) = wl_json db"
  "wl_projections (update_lane prompt f db) = wl_projections db"
  by (simp_all add: update_lane_def)

lemma lane_transaction_works:
  fixes P :: platform and z :: zone and activated now :: instant
  assumes ready: "lanes_ready db" and m: "find_lane prompt db = Some m" "lm_state m \<noteq> COMPLETE"
  defines "rows \<equiv> lane_rows prompt m db"
  defines "g \<equiv> \<lambda>j. if j \<in> set rows then lane_row P z activated prompt now db j else j"
  shows "\<exists>db' m'. lane_transaction P z activated prompt now m db = Inr db' \<and> lane_evidence db db' \<and>
    lanes_ready db' \<and> wl_jobs db' = map g (wl_jobs db) \<and> find_lane prompt db' = Some m' \<and>
    lm_activated m' = lm_activated m \<and>
    (\<forall>j \<in> set (wl_jobs db). j \<notin> set rows \<longrightarrow> ahead prompt m' j = ahead prompt m j) \<and>
    (lm_state m' = COMPLETE \<longleftrightarrow> length rows < EXISTING_JOB_LANE_PAGE_SIZE)"
proof -
  let ?p = "\<lambda>j. unclassified prompt j \<and> beyond (lm_cursor m) j"
  have mem: "set rows \<subseteq> {j \<in> set (wl_jobs db). ?p j}" using job_page_mem unfolding rows_def lane_rows_def by blast
  have d: "distinct rows" using ready unfolding rows_def lane_rows_def lanes_ready_def
    by (intro distinct_job_page distinct_idsD(1)) simp
  obtain db1 where db1: "fold_out (classify_job P z activated prompt now) rows db = Inr db1"
    "lanes_ready db1" "lane_evidence db db1" "lane_state_of db1 = lane_state_of db" "wl_jobs db1 = map g (wl_jobs db)"
    using classify_sweep [OF ready, of rows P z activated prompt now] mem d unfolding g_def
    by (auto simp: unclassified_def)
  have find1: "find_lane prompt db1 = Some m" using m(1) db1(4) by (simp add: find_lane_def lane_state_of_def)
  define moved :: "lane_migration \<Rightarrow> lane_migration" where "moved = (\<lambda>m. m\<lparr>lm_cursor := Some (position (last rows)),
      lm_processed := lm_processed m + int (length rows), lm_updated := now\<rparr>)"
  define db2 where "db2 = (if rows = [] then db1 else update_lane prompt moved db1)"
  define m2 where "m2 = (if rows = [] then m else moved m)"
  have find2: "find_lane prompt db2 = Some m2" using find1 by (simp add: db2_def m2_def moved_def)
  have frame2: "lane_evidence db db2" "wl_jobs db2 = map g (wl_jobs db)" "lanes_ready db2"
    using db1(2,3,5) by (simp_all add: db2_def lane_evidence_def lanes_ready_def)
  define short where "short \<longleftrightarrow> length rows < EXISTING_JOB_LANE_PAGE_SIZE"
  define db3 where "db3 = (if short
      then (update_lane prompt (\<lambda>m. m\<lparr>lm_state := COMPLETE, lm_updated := now\<rparr>) db2)
             \<lparr>wl_marks := sql_insert_ignore (\<lambda>k. fst k = lane_marker prompt) (lane_marker prompt, now) (wl_marks db2)\<rparr>
      else db2)"
  define m3 where "m3 = (if short then m2\<lparr>lm_state := COMPLETE, lm_updated := now\<rparr> else m2)"
  have tr: "lane_transaction P z activated prompt now m db = Inr db3"
    using db1(1) unfolding lane_transaction_def rows_def [unfolded lane_rows_def, symmetric]
    by (simp add: db2_def db3_def moved_def short_def Let_def update_lane_def)
  have find3: "find_lane prompt db3 = Some m3"
  proof (cases short)
    case True
    have "find_lane prompt (update_lane prompt (\<lambda>m. m\<lparr>lm_state := COMPLETE, lm_updated := now\<rparr>) db2) = Some m3"
      using find2 True by (simp add: m3_def)
    then show ?thesis using True by (simp add: db3_def find_lane_def)
  qed (use find2 in \<open>simp add: db3_def m3_def\<close>)
  have frame3: "lane_evidence db db3" "wl_jobs db3 = map g (wl_jobs db)" "lanes_ready db3"
    using frame2 by (simp_all add: db3_def lane_evidence_def lanes_ready_def)
  have state: "lm_state m3 = COMPLETE \<longleftrightarrow> short" using m(2) by (simp add: m3_def m2_def moved_def)
  have "ahead prompt m3 j = ahead prompt m j" if j: "j \<in> set (wl_jobs db)" "j \<notin> set rows" for j
  proof (cases "?p j")
    case True
    then have "\<not> short" using job_page_all j unfolding short_def rows_def lane_rows_def by blast
    then have some: "rows \<noteq> []" by (auto simp: short_def EXISTING_JOB_LANE_PAGE_SIZE_def)
    have "position (last rows) \<le> position j"
      using job_page_rest [of _ ?p "wl_jobs db" j] some j True unfolding rows_def lane_rows_def by blast
    moreover have "last rows \<noteq> j" using some j by (metis last_in_set)
    moreover have "last rows \<in> set (wl_jobs db)" using some mem last_in_set by blast
    ultimately have "position (last rows) < position j"
      using distinct_idsD(2) [of "wl_jobs db" "last rows" j] ready j unfolding lanes_ready_def position_def by force
    then show ?thesis using True some \<open>\<not> short\<close> state m(2) by (simp add: ahead_def beyond_def m3_def m2_def moved_def)
  next
    case False
    have "\<not> ahead prompt m3 j"
    proof
      assume a: "ahead prompt m3 j"
      then have "\<not> short" using state by (simp add: ahead_def)
      then have some: "rows \<noteq> []" by (auto simp: short_def EXISTING_JOB_LANE_PAGE_SIZE_def)
      then have "?p (last rows)" using mem last_in_set by blast
      moreover have "position (last rows) < position j" using a some \<open>\<not> short\<close>
        by (simp add: ahead_def beyond_def m3_def m2_def moved_def)
      ultimately have "beyond (lm_cursor m) j" by (auto simp: beyond_def split: option.splits)
      with a False show False by (simp add: ahead_def)
    qed
    with False show ?thesis unfolding ahead_def by blast
  qed
  then show ?thesis using tr frame3 find3 state by (auto simp: m3_def m2_def moved_def short_def)
qed

text \<open>One call, on a migration that is open.\<close>

lemma lane_tick:
  fixes P :: platform and z :: zone and now :: instant
  assumes ready: "lanes_ready db" and m: "find_lane prompt db = Some m"
  defines "rows \<equiv> if lm_state m = COMPLETE then [] else lane_rows prompt m db"
  defines "g \<equiv> \<lambda>j. if j \<in> set rows then lane_row P z (lm_activated m) prompt now db j else j"
  shows "\<exists>db' m'. install_annotation_contract_lanes P z prompt now db = (Inr (lm_activated m), db') \<and>
    lane_evidence db db' \<and> lanes_ready db' \<and> wl_jobs db' = map g (wl_jobs db) \<and> find_lane prompt db' = Some m' \<and>
    lm_activated m' = lm_activated m \<and>
    (\<forall>j \<in> set (wl_jobs db). j \<notin> set rows \<longrightarrow> ahead prompt m' j = ahead prompt m j) \<and>
    (lm_state m' = COMPLETE \<longleftrightarrow> length rows < EXISTING_JOB_LANE_PAGE_SIZE)"
proof -
  let ?db = "open_lane_migration prompt now db"
  have act: "activation prompt now db = lm_activated m" using m by (simp add: activation_def)
  have same: "lane_evidence db ?db" "wl_jobs ?db = wl_jobs db" "find_lane prompt ?db = Some m"
    using m by (simp_all add: open_lane_migration_def lane_evidence_def find_lane_def Let_def)
  have ready': "lanes_ready ?db" using ready same by (simp add: lanes_ready_def lane_evidence_def)
  show ?thesis
  proof (cases "lm_state m = COMPLETE")
    case True
    then show ?thesis using act same ready' m
      by (simp add: install_annotation_contract_lanes_def rows_def g_def EXISTING_JOB_LANE_PAGE_SIZE_def)
  next
    case False
    have rows: "lane_rows prompt m ?db = rows" using same False by (simp add: lane_rows_def rows_def)
    have "lane_row P z (lm_activated m) prompt now ?db j = lane_row P z (lm_activated m) prompt now db j" for j
      using same by (simp add: lane_row_def retires_cong [OF same(1)])
    with lane_transaction_works [OF ready' same(3) False, where activated = "lm_activated m" and now = now and P = P and z = z]
    obtain db' m' where "lane_transaction P z (lm_activated m) prompt now m ?db = Inr db'" "lane_evidence ?db db'"
      "lanes_ready db'" "wl_jobs db' = map g (wl_jobs db)" "find_lane prompt db' = Some m'"
      "lm_activated m' = lm_activated m" "\<forall>j \<in> set (wl_jobs db). j \<notin> set rows \<longrightarrow> ahead prompt m' j = ahead prompt m j"
      "lm_state m' = COMPLETE \<longleftrightarrow> length rows < EXISTING_JOB_LANE_PAGE_SIZE"
      unfolding rows g_def same(2) by auto
    then show ?thesis using act same False lane_evidence_trans [OF same(1)]
      by (auto simp: install_annotation_contract_lanes_def Let_def)
  qed
qed

fun contract_lane_calls :: "platform \<Rightarrow> zone \<Rightarrow> string \<Rightarrow> instant list \<Rightarrow> lane_db \<Rightarrow> lane_db" where
  "contract_lane_calls P z prompt [] db = db"
| "contract_lane_calls P z prompt (now # nows) db =
     contract_lane_calls P z prompt nows (snd (install_annotation_contract_lanes P z prompt now db))"

lemma ahead_after_tick:
  assumes "lanes_ready db" "lm_state m \<noteq> COMPLETE"
    "wl_jobs db' = map (\<lambda>j. if j \<in> set (lane_rows prompt m db) then lane_row P z a prompt now db j else j) (wl_jobs db)"
    "\<forall>j \<in> set (wl_jobs db). j \<notin> set (lane_rows prompt m db) \<longrightarrow> ahead prompt m' j = ahead prompt m j"
  shows "ahead_count prompt m' db' + length (lane_rows prompt m db) = ahead_count prompt m db"
proof -
  have "filter (ahead prompt m') (wl_jobs db') = filter (ahead prompt m) (wl_jobs db')"
    by (rule filter_cong [OF refl]) (use assms(3,4) in \<open>auto simp: ahead_def\<close>)
  then have "ahead_count prompt m' db' = length (filter (ahead prompt m)
      (map (\<lambda>j. if j \<in> set (lane_rows prompt m db) then lane_row P z a prompt now db j else j) (wl_jobs db)))"
    by (simp add: ahead_count_def assms(3))
  moreover have "set (lane_rows prompt m db) \<subseteq> {j \<in> set (wl_jobs db). ahead prompt m j}"
    unfolding lane_rows_def using job_page_mem assms(2) by (fastforce simp: ahead_def)
  moreover have "distinct (lane_rows prompt m db)"
    using assms(1) unfolding lane_rows_def lanes_ready_def by (intro distinct_job_page distinct_idsD(1)) simp
  ultimately show ?thesis
    using assms(1) count_after_sweep [of "wl_jobs db" "lane_rows prompt m db" "ahead prompt m" "lane_row P z a prompt now db"]
    by (simp add: ahead_count_def lanes_ready_def ahead_def)
qed

lemma lane_row_cong: "lane_evidence db db' \<Longrightarrow> lane_row P z a prompt now db' j = lane_row P z a prompt now db j"
  by (simp add: lane_row_def retires_cong)

definition lane_fate ::
    "platform \<Rightarrow> zone \<Rightarrow> instant \<Rightarrow> string \<Rightarrow> instant list \<Rightarrow> lane_migration \<Rightarrow> lane_db \<Rightarrow> (job \<Rightarrow> job) \<Rightarrow> bool" where
  "lane_fate P z activated prompt nows m db f \<longleftrightarrow> (\<forall>j \<in> set (wl_jobs db).
     if ahead prompt m j then \<exists>now \<in> set nows. f j = lane_row P z activated prompt now db j else f j = j)"

lemma lane_calls_open:
  assumes "lanes_ready db" "find_lane prompt db = Some m"
    "lm_state m = COMPLETE \<or> ahead_count prompt m db < EXISTING_JOB_LANE_PAGE_SIZE * length nows"
  shows "\<exists>f m'. wl_jobs (contract_lane_calls P z prompt nows db) = map f (wl_jobs db) \<and>
    lane_fate P z (lm_activated m) prompt nows m db f \<and>
    find_lane prompt (contract_lane_calls P z prompt nows db) = Some m' \<and> lm_state m' = COMPLETE \<and>
    lm_activated m' = lm_activated m"
  using assms
proof (induction nows arbitrary: db m)
  case Nil
  then have "lane_fate P z (lm_activated m) prompt [] m db (\<lambda>j. j)" by (simp add: lane_fate_def ahead_def)
  then show ?case using Nil by (intro exI [of _ "\<lambda>j. j"] exI [of _ m]) simp
next
  case (Cons now nows)
  let ?a = "lm_activated m"
  define rows where "rows = (if lm_state m = COMPLETE then [] else lane_rows prompt m db)"
  define g where "g = (\<lambda>j. if j \<in> set rows then lane_row P z ?a prompt now db j else j)"
  obtain db' m' where t: "install_annotation_contract_lanes P z prompt now db = (Inr ?a, db')" "lane_evidence db db'"
    "lanes_ready db'" "wl_jobs db' = map g (wl_jobs db)" "find_lane prompt db' = Some m'" "lm_activated m' = ?a"
    "\<forall>j \<in> set (wl_jobs db). j \<notin> set rows \<longrightarrow> ahead prompt m' j = ahead prompt m j"
    "lm_state m' = COMPLETE \<longleftrightarrow> length rows < EXISTING_JOB_LANE_PAGE_SIZE"
    using lane_tick [OF Cons.prems(1,2), of P z now] unfolding rows_def g_def by blast
  have "lm_state m' = COMPLETE \<or> ahead_count prompt m' db' < EXISTING_JOB_LANE_PAGE_SIZE * length nows"
  proof (cases "lm_state m' = COMPLETE")
    case False
    then have long: "lm_state m \<noteq> COMPLETE" "EXISTING_JOB_LANE_PAGE_SIZE \<le> length rows"
      using t(8) by (auto simp: rows_def EXISTING_JOB_LANE_PAGE_SIZE_def)
    have "ahead_count prompt m' db' + length rows = ahead_count prompt m db"
      using ahead_after_tick [OF Cons.prems(1) long(1), of db' prompt P z ?a now m'] t(4,7) long(1)
      by (simp add: rows_def g_def)
    then show ?thesis using Cons.prems(3) long by (simp add: EXISTING_JOB_LANE_PAGE_SIZE_def)
  qed simp
  from Cons.IH [OF t(3,5) this] t(6) obtain f m'' where f:
    "wl_jobs (contract_lane_calls P z prompt nows db') = map f (wl_jobs db')" "lane_fate P z ?a prompt nows m' db' f"
    "find_lane prompt (contract_lane_calls P z prompt nows db') = Some m''" "lm_state m'' = COMPLETE" "lm_activated m'' = ?a"
    by auto
  have "lane_fate P z ?a prompt (now # nows) m db (\<lambda>j. f (g j))"
    unfolding lane_fate_def
  proof
    fix j assume j: "j \<in> set (wl_jobs db)"
    then have "g j \<in> set (wl_jobs db')" using t(4) by simp
    then have fate: "if ahead prompt m' (g j) then \<exists>now \<in> set nows. f (g j) = lane_row P z ?a prompt now db (g j)
        else f (g j) = g j" using f(2) unfolding lane_fate_def lane_row_cong [OF t(2)] by blast
    show "if ahead prompt m j then \<exists>now \<in> set (now # nows). f (g j) = lane_row P z ?a prompt now db j
        else f (g j) = j"
    proof (cases "j \<in> set rows")
      case True
      then have "ahead prompt m j" using job_page_mem unfolding rows_def lane_rows_def
        by (fastforce simp: ahead_def split: if_splits)
      moreover have "f (g j) = lane_row P z ?a prompt now db j" using fate True by (simp add: g_def ahead_def)
      ultimately show ?thesis by simp
    next
      case False
      then show ?thesis using fate t(7) j by (simp add: g_def split: if_splits)
    qed
  qed
  then show ?case using t f by (intro exI [of _ "\<lambda>j. f (g j)"] exI [of _ m'']) simp
qed

text \<open>A call installs a migration that is not there yet, and goes on with one that is.\<close>

definition awaiting :: "string \<Rightarrow> lane_db \<Rightarrow> job \<Rightarrow> bool" where
  "awaiting prompt db j \<longleftrightarrow> (case find_lane prompt db of None \<Rightarrow> unclassified prompt j | Some m \<Rightarrow> ahead prompt m j)"

lemma opened_stays:
  "find_backfill prompt db \<noteq> None \<Longrightarrow> find_lane prompt db \<noteq> None \<Longrightarrow> open_lane_migration prompt now db = db"
  by (simp add: open_lane_migration_def Let_def)

lemma opened_lane:
  obtains m where "find_lane prompt (open_lane_migration prompt now db) = Some m"
    "lm_activated m = activation prompt now db"
    "ahead prompt m = awaiting prompt db"
    "install_annotation_contract_lanes P z prompt now (open_lane_migration prompt now db) =
       install_annotation_contract_lanes P z prompt now db"
proof -
  let ?db = "open_lane_migration prompt now db"
  obtain m where m: "find_lane prompt ?db = Some m" "lm_activated m = activation prompt now db"
    "find_lane prompt db \<noteq> None \<Longrightarrow> find_lane prompt db = Some m"
    "find_lane prompt db = None \<Longrightarrow> lm_state m = ACTIVE \<and> lm_cursor m = None"
  proof (cases "find_lane prompt db")
    case None
    let ?m = "\<lparr>lm_prompt = prompt, lm_activated = activation prompt now db, lm_cursor = None,
        lm_processed = 0, lm_state = ACTIVE, lm_updated = now\<rparr>"
    have "wl_lanes ?db = wl_lanes db @ [?m]" using None by (simp add: open_lane_migration_def Let_def)
    then have "find_lane prompt ?db = Some ?m" using None by (simp add: find_lane_def find_None_iff find_append_new)
    then show ?thesis using that None by simp
  next
    case (Some m)
    then have "find_lane prompt ?db = Some m" by (simp add: open_lane_migration_def Let_def find_lane_def)
    then show ?thesis using that Some by (simp add: activation_def)
  qed
  have "find_backfill prompt ?db \<noteq> None"
  proof (cases "find_backfill prompt db")
    case None
    then have "\<exists>b. wl_backfills ?db = wl_backfills db @ [b] \<and> bf_prompt b = prompt"
      by (simp add: open_lane_migration_def Let_def)
    then show ?thesis by (auto simp: find_backfill_def find_None_iff)
  next
    case (Some b)
    then have "wl_backfills ?db = wl_backfills db" by (simp add: open_lane_migration_def Let_def)
    then show ?thesis using Some by (simp add: find_backfill_def)
  qed
  then have "open_lane_migration prompt now ?db = ?db"
    using m(1) opened_stays by (metis option.distinct(1))
  moreover have "activation prompt now ?db = activation prompt now db" using m(1,2) by (simp add: activation_def)
  ultimately have "install_annotation_contract_lanes P z prompt now ?db = install_annotation_contract_lanes P z prompt now db"
    unfolding install_annotation_contract_lanes_def by simp
  moreover have "ahead prompt m = awaiting prompt db"
    by (cases "find_lane prompt db") (use m(3,4) in \<open>auto simp: awaiting_def ahead_def beyond_def intro!: ext\<close>)
  ultimately show ?thesis using that m(1,2) by blast
qed

text \<open>
  C39: The division of a contract's annotation jobs into live work and backfill finishes. In an installed database,
  whose jobs have distinct identifiers and whose annotations are objects where they are JSON, a job awaits it when its
  lane is undecided and it is before the recorded migration: beyond its cursor, and the migration not complete, or there
  is none yet. Repeated often enough, one call for every hundred jobs that await it and one more,
  \<open>_install_annotation_contract_lanes\<close> completes its migration, and every job that awaited it has been decided once, by
  the instant at which the contract took effect: it is backfill when its revision is missing or was received before that
  instant and live otherwise; a waiting backfill job is retired when its revision no longer has value; a leased job
  keeps its state and lease. No other job is touched, an undecided one behind the cursor or under a complete migration
  no more than the rest.
\<close>

theorem annotation_lanes_are_settled:
  assumes "lanes_ready db"
    "length (filter (awaiting prompt db) (wl_jobs db)) div EXISTING_JOB_LANE_PAGE_SIZE < length nows"
  shows "\<exists>f m. wl_jobs (contract_lane_calls P z prompt nows db) = map f (wl_jobs db) \<and>
    find_lane prompt (contract_lane_calls P z prompt nows db) = Some m \<and> lm_state m = COMPLETE \<and>
    (\<forall>j \<in> set (wl_jobs db).
       if awaiting prompt db j
       then \<exists>now \<in> set nows. \<exists>gone. retires P z (activation prompt (hd nows) db) prompt db j = Inr gone \<and>
              f j = classified_row (historical (activation prompt (hd nows) db) db j) gone now j
       else f j = j)"
proof -
  obtain now rest where nows: "nows = now # rest" using assms(2) by (cases nows) auto
  let ?a = "activation prompt now db" and ?db = "open_lane_migration prompt now db"
  obtain m where m: "find_lane prompt ?db = Some m" "lm_activated m = ?a" "ahead prompt m = awaiting prompt db"
    "install_annotation_contract_lanes P z prompt now ?db = install_annotation_contract_lanes P z prompt now db"
    using opened_lane [of prompt now db P z] by metis
  have same: "lane_evidence db ?db" "wl_jobs ?db = wl_jobs db"
    by (simp_all add: lane_evidence_def open_lane_migration_def Let_def)
  then have ready: "lanes_ready ?db" using assms(1) lanes_ready_cong [of db ?db] by (simp add: lanes_ready_def)
  have count: "ahead_count prompt m ?db < EXISTING_JOB_LANE_PAGE_SIZE * length nows"
    using assms(2) same(2) by (simp add: ahead_count_def m(3) EXISTING_JOB_LANE_PAGE_SIZE_def div_less_iff_less_mult mult.commute)
  have calls: "contract_lane_calls P z prompt nows ?db = contract_lane_calls P z prompt nows db"
    unfolding nows by (simp add: m(4))
  from lane_calls_open [OF ready m(1) disjI2 [OF count], of P z, unfolded calls m(2) same(2)]
  obtain f m' where f: "wl_jobs (contract_lane_calls P z prompt nows db) = map f (wl_jobs db)"
    "lane_fate P z ?a prompt nows m ?db f" "find_lane prompt (contract_lane_calls P z prompt nows db) = Some m'"
    "lm_state m' = COMPLETE"
    by blast
  have "if awaiting prompt db j
       then \<exists>now \<in> set nows. \<exists>gone. retires P z ?a prompt db j = Inr gone \<and> f j = classified_row (historical ?a db j) gone now j
       else f j = j" if "j \<in> set (wl_jobs db)" for j
  proof -
    obtain r where r: "retires P z ?a prompt db j = Inr r" using retires_total [OF assms(1)] by blast
    have "lane_row P z ?a prompt now db j = classified_row (historical ?a db j) r now j" for now
      by (simp add: lane_row_def r)
    moreover have "if awaiting prompt db j then \<exists>now \<in> set nows. f j = lane_row P z ?a prompt now db j else f j = j"
      using f(2) that same(2) unfolding lane_fate_def lane_row_cong [OF same(1)] m(3) by simp
    ultimately show ?thesis using r by (simp split: if_splits)
  qed
  then have "\<forall>j \<in> set (wl_jobs db). if awaiting prompt db j
       then \<exists>now \<in> set nows. \<exists>gone. retires P z ?a prompt db j = Inr gone \<and> f j = classified_row (historical ?a db j) gone now j
       else f j = j" by blast
  moreover have "hd nows = now" by (simp add: nows)
  ultimately show ?thesis using f by auto
qed

section \<open>The provenance is repaired\<close>

definition provenance_ready :: "lane_db \<Rightarrow> bool" where
  "provenance_ready db \<longleftrightarrow> distinct_ids (wl_jobs db) \<and> (\<forall>j \<in> set (wl_jobs db). strip (j_id j) \<noteq> [])"

lemma strip_nonblank:
  assumes "c \<in> set s" "\<not> is_space c"
  shows "strip s \<noteq> []"
proof
  have m: "c \<in> set (dropWhile is_space s)" using assms by (induction s) auto
  assume "strip s = []"
  then have "\<forall>c \<in> set (rev (dropWhile is_space s)). is_space c"
    by (simp only: strip_def rev_is_Nil_conv dropWhile_eq_Nil_conv)
  then show False using m assms(2) by simp
qed

lemma strip_colon: "strip (a @ '':'' @ b) \<noteq> []"
proof -
  have "\<not> is_space (CHR '':'')" by code_simp
  then show ?thesis by (intro strip_nonblank [of "CHR '':''"]) simp_all
qed

lemma filter_map_fixed:
  "(\<And>x. p (f x) = p x) \<Longrightarrow> (\<And>x. p x \<Longrightarrow> f x = x) \<Longrightarrow> filter p (map f xs) = filter p xs"
  by (induction xs) simp_all

lemma resolve_total:
  assumes "provenance_ready db"
  shows "\<exists>p. resolve_work_provenance prompt key aid db = Inr p"
proof -
  have "\<exists>p. make_provenance (lane_name (j_lane j)) ''ACTIVE_ANNOTATION'' (j_id j) = Inr p"
    if "owners_of prompt key aid db = [j]" for j
  proof -
    have "j \<in> set (owners_of prompt key aid db)" using that by simp
    then have "strip (j_id j) \<noteq> []" using assms by (simp add: provenance_ready_def owners_of_def)
    moreover have "strip ''ACTIVE_ANNOTATION'' \<noteq> []" by code_simp
    ultimately show ?thesis by (simp add: make_provenance_def strip_Nil)
  qed
  moreover have "\<exists>p. make_provenance ''CONTRACT_BACKFILL'' ''SEMANTIC_TRANSITION'' (a @ '':'' @ b) = Inr p" for a b
  proof -
    have "strip ''SEMANTIC_TRANSITION'' \<noteq> []" "lane_of ''CONTRACT_BACKFILL'' = Some CONTRACT_BACKFILL" by code_simp+
    then show ?thesis using strip_colon [of a b] by (simp add: make_provenance_def)
  qed
  ultimately show ?thesis
    by (auto simp: resolve_work_provenance_def split: list.splits) (metis bind_out_simps(2))+
qed

definition repaired_row :: "string \<Rightarrow> bool \<Rightarrow> instant \<Rightarrow> lane_db \<Rightarrow> job \<Rightarrow> job" where
  "repaired_row prompt parents now db j =
     (if j_state j = LEASED then j
      else case resolve_work_provenance prompt (job_source_key j) (j_annotation j) db of
        Inr (Some p) \<Rightarrow> resolved_row p now j
      | _ \<Rightarrow> if parents then unresolved_row now j else j)"

lemma repaired_row_keeps:
  "j_id (repaired_row prompt parents now db j) = j_id j" "j_task (repaired_row prompt parents now db j) = j_task j"
  "j_state (repaired_row prompt parents now db j) = j_state j"
  "repaired_row prompt parents now db j = j \<or> \<not> unversioned (repaired_row prompt parents now db j)"
  by (auto simp: repaired_row_def resolved_row_def unresolved_row_def unversioned_def split: sum.splits option.splits)

lemma repaired_row_versioned:
  "j_state j \<noteq> LEASED \<Longrightarrow> \<not> unversioned (repaired_row prompt True now db j)"
  by (auto simp: repaired_row_def resolved_row_def unresolved_row_def unversioned_def split: sum.splits option.splits)

lemma downstream_not_annotation: "downstream j \<Longrightarrow> \<not> annotation_job prompt j"
  by (auto simp: downstream_def annotation_job_def)

definition parent_jobs :: "string \<Rightarrow> lane_db \<Rightarrow> job list" where
  "parent_jobs prompt db = filter (annotation_job prompt) (wl_jobs db)"

lemma resolve_cong:
  assumes "lane_evidence db db'" "parent_jobs prompt db' = parent_jobs prompt db"
  shows "resolve_work_provenance prompt key aid db' = resolve_work_provenance prompt key aid db"
proof -
  have "owners_of prompt key aid d = filter (\<lambda>j. job_source_key j = key \<and> j_lane_classified j \<and>
      list_ex (lane_annotation prompt key aid) (ld_annotations (wl_ledger d))) (parent_jobs prompt d)" for d
    unfolding owners_of_def parent_jobs_def filter_filter by (rule filter_cong) auto
  then have "owners_of prompt key aid db' = owners_of prompt key aid db"
    using assms by (simp add: lane_evidence_def)
  moreover have "projections_of prompt key aid db' = projections_of prompt key aid db"
    using assms by (simp add: projections_of_def lane_evidence_def)
  ultimately show ?thesis unfolding resolve_work_provenance_def by (simp only:)
qed

lemma repaired_row_cong:
  "lane_evidence db db' \<Longrightarrow> parent_jobs prompt db' = parent_jobs prompt db \<Longrightarrow>
    repaired_row prompt parents now db' j = repaired_row prompt parents now db j"
  by (simp add: repaired_row_def resolve_cong)

text \<open>What a sweep of the downstream jobs leaves alone.\<close>

definition repair_frame :: "string \<Rightarrow> lane_db \<Rightarrow> lane_db \<Rightarrow> bool" where
  "repair_frame prompt db db' \<longleftrightarrow> lane_evidence db db' \<and> parent_jobs prompt db' = parent_jobs prompt db \<and>
     provenance_ready db' \<and> wl_lanes db' = wl_lanes db"

lemma repair_frame_map:
  assumes "repair_frame prompt db s" "\<And>j. j_id (f j) = j_id j" "\<And>j. j_task (f j) = j_task j"
    "\<And>j. f j \<noteq> j \<Longrightarrow> downstream j"
  shows "repair_frame prompt db (set_jobs_of (map f (wl_jobs s)) s)"
proof -
  have a: "annotation_job prompt (f j) = annotation_job prompt j" for j
    using assms(3,4) [of j] downstream_not_annotation [of j prompt]
    by (cases "f j = j") (auto simp: annotation_job_def downstream_def)
  have "f j = j" if "annotation_job prompt j" for j
    using that assms(4) downstream_not_annotation by blast
  with a have "filter (annotation_job prompt) (map f (wl_jobs s)) = filter (annotation_job prompt) (wl_jobs s)"
    by (intro filter_map_fixed)
  then show ?thesis using assms(1,2) distinct_ids_map [of f "wl_jobs s"]
    by (auto simp: repair_frame_def parent_jobs_def provenance_ready_def lane_evidence_def set_jobs_of_def)
qed

lemma repair_job_step:
  assumes "provenance_ready db" "row \<in> set (wl_jobs db)"
  shows "\<exists>c'. repair_job prompt parents now row (db, c) =
    Inr (set_jobs_of (map (\<lambda>j. if j = row then repaired_row prompt parents now db row else j) (wl_jobs db)) db, c')"
proof -
  obtain found where found: "resolve_work_provenance prompt (job_source_key row) (j_annotation row) db = Inr found"
    using resolve_total [OF assms(1)] by blast
  have "map (\<lambda>j. if j = row then row else j) (wl_jobs db) = wl_jobs db" by (rule map_idI) simp
  then have same: "set_jobs_of (map (\<lambda>j. if j = row then row else j) (wl_jobs db)) db = db"
    by (simp add: set_jobs_of_def)
  have upd: "sql_update (\<lambda>j. j_id j = j_id row \<and> j_state j \<noteq> LEASED) f (wl_jobs db) =
      map (\<lambda>j. if j = row then f row else j) (wl_jobs db)" if "j_state row \<noteq> LEASED" for f
    using that assms by (intro update_one_job) (simp_all add: provenance_ready_def)
  show ?thesis
  proof (cases "j_state row = LEASED")
    case True
    then have eq: "repaired_row prompt parents now db row = row" by (simp add: repaired_row_def)
    show ?thesis unfolding eq same by (simp add: repair_job_def True)
  next
    case free: False
    show ?thesis
    proof (cases found)
      case None
      have eq: "repaired_row prompt parents now db row = (if parents then unresolved_row now row else row)"
        using free found None by (simp add: repaired_row_def)
      show ?thesis
      proof (cases parents)
        case True
        then have eq': "repaired_row prompt parents now db row = unresolved_row now row" using eq by simp
        show ?thesis unfolding eq' using True free found None upd [OF free] by (simp add: repair_job_def)
      next
        case False
        then have eq': "repaired_row prompt parents now db row = row" using eq by simp
        show ?thesis unfolding eq' same using False free found None by (simp add: repair_job_def)
      qed
    next
      case (Some p)
      have eq: "repaired_row prompt parents now db row = resolved_row p now row"
        using free found Some by (simp add: repaired_row_def)
      show ?thesis unfolding eq using free found Some upd [OF free] by (simp add: repair_job_def)
    qed
  qed
qed

lemma repair_sweep:
  assumes "provenance_ready db" "set rows \<subseteq> set (wl_jobs db)" "\<forall>r \<in> set rows. unversioned r" "distinct rows"
  shows "\<exists>db' c'. fold_out (repair_job prompt parents now) rows (db, c) = Inr (db', c') \<and>
    repair_frame prompt db db' \<and> wl_downstream db' = wl_downstream db \<and>
    wl_jobs db' = map (\<lambda>j. if j \<in> set rows then repaired_row prompt parents now db j else j) (wl_jobs db)"
proof -
  let ?ok = "\<lambda>s. repair_frame prompt db (fst s) \<and> wl_downstream (fst s) = wl_downstream db"
  have "\<exists>s'. fold_out (repair_job prompt parents now) rows (db, c) = Inr s' \<and> ?ok s' \<and>
    wl_jobs (fst s') = map (\<lambda>j. if j \<in> set rows then repaired_row prompt parents now db j else j) (wl_jobs (fst (db, c)))"
  proof (rule sweep_rows [where fin = "\<lambda>j. \<not> unversioned j" and jobs_of = "\<lambda>s. wl_jobs (fst s)" and ok = ?ok])
    fix row and s :: "lane_db \<times> repair_counts" assume s: "?ok s" and row: "row \<in> set (wl_jobs (fst s))" "\<not> \<not> unversioned row"
    let ?f = "\<lambda>j. if j = row then repaired_row prompt parents now db row else j"
    have eq: "repaired_row prompt parents now (fst s) row = repaired_row prompt parents now db row"
      using s by (intro repaired_row_cong) (simp_all add: repair_frame_def)
    have ready: "provenance_ready (fst s)" using s by (simp add: repair_frame_def)
    obtain c' where "repair_job prompt parents now row (fst s, snd s) = Inr (set_jobs_of (map ?f (wl_jobs (fst s))) (fst s), c')"
      using repair_job_step [OF ready row(1), of prompt parents now "snd s"] unfolding eq by blast
    moreover have "repair_frame prompt db (set_jobs_of (map ?f (wl_jobs (fst s))) (fst s))"
    proof (rule repair_frame_map)
      show "repair_frame prompt db (fst s)" using s by simp
      show "j_id (?f j) = j_id j" "j_task (?f j) = j_task j" for j by (simp_all add: repaired_row_keeps)
      show "downstream j" if "?f j \<noteq> j" for j using that row(2) by (auto simp: unversioned_def split: if_splits)
    qed
    ultimately show "\<exists>s'. repair_job prompt parents now row s = Inr s' \<and> ?ok s' \<and> wl_jobs (fst s') = map ?f (wl_jobs (fst s))"
      using s by (intro exI [of _ "(set_jobs_of (map ?f (wl_jobs (fst s))) (fst s), c')"]) simp
  next
    fix row show "repaired_row prompt parents now db row = row \<or> \<not> unversioned (repaired_row prompt parents now db row)"
      by (rule repaired_row_keeps(4))
  qed (use assms in \<open>auto simp: repair_frame_def lane_evidence_def\<close>)
  then show ?thesis by auto
qed

lemma find_update_downstream [simp]:
  "(\<And>m. pm_version (f m) = pm_version m) \<Longrightarrow> find_downstream (update_downstream f db) = map_option f (find_downstream db)"
  unfolding find_downstream_def update_downstream_def by (simp add: find_update_same)

lemma update_downstream_frame [simp]:
  "wl_ledger (update_downstream f db) = wl_ledger db" "wl_json (update_downstream f db) = wl_json db"
  "wl_projections (update_downstream f db) = wl_projections db" "wl_lanes (update_downstream f db) = wl_lanes db"
  by (simp_all add: update_downstream_def)

lemma repair_frame_update [simp]: "repair_frame prompt db (update_downstream f db') = repair_frame prompt db db'"
  by (simp add: repair_frame_def lane_evidence_def parent_jobs_def provenance_ready_def)

lemma repair_rows_mem:
  "set (repair_rows prompt m db) \<subseteq> {j \<in> set (wl_jobs db). unversioned j}"
  by (auto simp: repair_rows_def priority_rows_def dest: job_page_mem split: if_splits)

text \<open>The migration row after a call, by the kind of page it handled.\<close>

definition migration_follows :: "string \<Rightarrow> provenance_migration \<Rightarrow> lane_db \<Rightarrow> provenance_migration \<Rightarrow> lane_db \<Rightarrow> bool" where
  "migration_follows prompt m db m' db' \<longleftrightarrow>
     (let rows = repair_rows prompt m db in
      if priority_rows prompt db \<noteq> [] then pm_state m' = ACTIVE \<and> pm_cursor m' = pm_cursor m
      else if length rows < DOWNSTREAM_PROVENANCE_PAGE_SIZE
      then pm_cursor m' = None \<and>
           pm_state m' = (if \<exists>j \<in> set (wl_jobs db'). unversioned j then WAITING_INPUT else COMPLETE)
      else pm_state m' = ACTIVE \<and> pm_cursor m' = Some (position (last rows)))"

lemma provenance_transaction_works:
  assumes ready: "provenance_ready db" and m: "find_downstream db = Some m"
  shows "\<exists>db' c m'. provenance_transaction prompt now m db = Inr (db', c) \<and> repair_frame prompt db db' \<and>
    wl_jobs db' = map (\<lambda>j. if j \<in> set (repair_rows prompt m db)
      then repaired_row prompt (parents_complete prompt db) now db j else j) (wl_jobs db) \<and>
    find_downstream db' = Some m' \<and> migration_follows prompt m db m' db'"
proof -
  let ?rows = "repair_rows prompt m db" and ?first = "priority_rows prompt db \<noteq> []"
  have d: "distinct ?rows" using ready unfolding repair_rows_def priority_rows_def provenance_ready_def
    by (auto intro: distinct_job_page distinct_idsD(1))
  obtain db1 c where s: "fold_out (repair_job prompt (parents_complete prompt db) now) ?rows
      (db, \<lparr>rc_resolved = 0, rc_unresolved = 0, rc_leased = 0\<rparr>) = Inr (db1, c)" "repair_frame prompt db db1"
    "wl_downstream db1 = wl_downstream db"
    "wl_jobs db1 = map (\<lambda>j. if j \<in> set ?rows then repaired_row prompt (parents_complete prompt db) now db j else j) (wl_jobs db)"
    using repair_sweep [OF ready, of ?rows prompt "parents_complete prompt db" now] repair_rows_mem d by blast
  have m1: "find_downstream db1 = Some m" using m s(3) by (simp add: find_downstream_def)
  define f where "f = (if ?rows = [] then (\<lambda>m. m) else if ?first then add_counts c now
      else (\<lambda>m. (add_counts c now m)\<lparr>pm_cursor := Some (position (last ?rows))\<rparr>))"
  define db2 where "db2 = (if ?rows = [] then db1 else if ?first then update_downstream (add_counts c now) db1
      else update_downstream (\<lambda>m. (add_counts c now m)\<lparr>pm_cursor := Some (position (last ?rows))\<rparr>) db1)"
  have m2: "find_downstream db2 = Some (f m)" using m1 by (simp add: db2_def f_def add_counts_def)
  have frame2: "repair_frame prompt db db2" "wl_jobs db2 = wl_jobs db1" using s(2) by (simp_all add: db2_def)
  define ends where "ends \<longleftrightarrow> \<not> ?first \<and> length ?rows < DOWNSTREAM_PROVENANCE_PAGE_SIZE"
  define left where "left = list_ex unversioned (wl_jobs db2)"
  define db3 where "db3 = (if ends then update_downstream (end_pass left now) db2 else db2)"
  define m3 where "m3 = (if ends then end_pass left now (f m) else f m)"
  have tr: "provenance_transaction prompt now m db = Inr (db3, c)"
    unfolding provenance_transaction_def Let_def s(1) bind_out_simps prod.case db2_def [symmetric] left_def [symmetric]
    by (simp add: db3_def ends_def)
  have m3: "find_downstream db3 = Some m3" using m2 by (simp add: db3_def m3_def end_pass_def)
  have frame3: "repair_frame prompt db db3" "wl_jobs db3 = wl_jobs db1" using frame2 by (simp_all add: db3_def)
  have "?rows \<noteq> []" if ?first using that by (simp add: repair_rows_def)
  moreover have "?rows \<noteq> []" if "\<not> ends" "\<not> ?first" using that by (auto simp: ends_def DOWNSTREAM_PROVENANCE_PAGE_SIZE_def)
  moreover have "left \<longleftrightarrow> (\<exists>j \<in> set (wl_jobs db3). unversioned j)" using frame2 frame3 by (simp add: left_def list_ex_iff)
  ultimately have "migration_follows prompt m db m3 db3"
    unfolding migration_follows_def by (auto simp: m3_def f_def ends_def end_pass_def add_counts_def Let_def)
  then show ?thesis using tr frame3 s(4) m3 by auto
qed

lemma provenance_tick:
  assumes ready: "provenance_ready db" and m: "find_downstream db = Some m" and running: "pm_state m \<noteq> COMPLETE"
  shows "\<exists>db' rep m'. install_downstream_work_provenance prompt now db = (Inr rep, db') \<and> repair_frame prompt db db' \<and>
    wl_jobs db' = map (\<lambda>j. if j \<in> set (repair_rows prompt m db)
      then repaired_row prompt (parents_complete prompt db) now db j else j) (wl_jobs db) \<and>
    find_downstream db' = Some m' \<and> rp_state rep = pm_state m' \<and> migration_follows prompt m db m' db'"
proof -
  have o: "open_provenance_migration now db = db" using m by (simp add: open_provenance_migration_def)
  obtain db' c m' where t: "provenance_transaction prompt now m db = Inr (db', c)" "repair_frame prompt db db'"
    "wl_jobs db' = map (\<lambda>j. if j \<in> set (repair_rows prompt m db)
      then repaired_row prompt (parents_complete prompt db) now db j else j) (wl_jobs db)"
    "find_downstream db' = Some m'" "migration_follows prompt m db m' db'"
    using provenance_transaction_works [OF ready m, of prompt now] by blast
  have "install_downstream_work_provenance prompt now db =
      (Inr \<lparr>rp_state = pm_state m', rp_processed = rc_resolved c + rc_unresolved c, rp_resolved = rc_resolved c,
            rp_unresolved = rc_unresolved c, rp_leased = rc_leased c\<rparr>, db')"
    unfolding install_downstream_work_provenance_def o Let_def using m running t(1,4) by simp
  then show ?thesis using t by auto
qed

subsection \<open>How many calls it takes\<close>

definition unversioned_count :: "lane_db \<Rightarrow> nat" where
  "unversioned_count db = length (filter unversioned (wl_jobs db))"

definition waiting_work :: "lane_db \<Rightarrow> bool" where
  "waiting_work db \<longleftrightarrow> (\<exists>j \<in> set (wl_jobs db). unversioned j \<and> queued_or_backing_off j)"

definition passed_over :: "provenance_migration \<Rightarrow> lane_db \<Rightarrow> bool" where
  "passed_over m db \<longleftrightarrow> (\<exists>j \<in> set (wl_jobs db). unversioned j \<and> \<not> beyond (pm_cursor m) j)"

definition calls_left :: "provenance_migration \<Rightarrow> lane_db \<Rightarrow> nat" where
  "calls_left m db =
     (if pm_state m = COMPLETE then 0
      else unversioned_count db div DOWNSTREAM_PROVENANCE_PAGE_SIZE + of_bool (waiting_work db) +
           of_bool (passed_over m db) + 1)"

definition none_leased :: "lane_db \<Rightarrow> bool" where
  "none_leased db \<longleftrightarrow> (\<forall>j \<in> set (wl_jobs db). unversioned j \<longrightarrow> j_state j \<noteq> LEASED)"

lemma page_step:
  assumes "distinct_ids (wl_jobs db)" "none_leased db" "set rows \<subseteq> {j \<in> set (wl_jobs db). unversioned j}" "distinct rows"
    "wl_jobs db' = map (\<lambda>j. if j \<in> set rows then repaired_row prompt True now db0 j else j) (wl_jobs db)"
  shows "unversioned_count db' + length rows = unversioned_count db"
    "j \<in> set (wl_jobs db') \<Longrightarrow> unversioned j \<Longrightarrow> j \<in> set (wl_jobs db) \<and> j \<notin> set rows"
    "none_leased db'"
proof -
  have gone: "\<not> unversioned (repaired_row prompt True now db0 j)" if "j \<in> set rows" for j
    using that assms(2,3) by (intro repaired_row_versioned) (auto simp: none_leased_def)
  then show "unversioned_count db' + length rows = unversioned_count db"
    using count_after_sweep [OF assms(1,3,4)] unfolding unversioned_count_def assms(5) by blast
  show left: "j \<in> set (wl_jobs db) \<and> j \<notin> set rows" if "j \<in> set (wl_jobs db')" "unversioned j" for j
    using that gone unfolding assms(5) by (auto split: if_splits)
  show "none_leased db'" using left assms(2) by (auto simp: none_leased_def)
qed

lemma provenance_tick_decreases:
  assumes ready: "provenance_ready db" "none_leased db" and parents: "parents_complete prompt db"
    and run: "pm_state m \<noteq> COMPLETE" and follows: "migration_follows prompt m db m' db'"
    and jobs: "wl_jobs db' = map (\<lambda>j. if j \<in> set (repair_rows prompt m db)
      then repaired_row prompt True now db j else j) (wl_jobs db)"
  shows "calls_left m' db' < calls_left m db" "none_leased db'"
proof -
  let ?rows = "repair_rows prompt m db"
  have ids: "distinct_ids (wl_jobs db)" using ready(1) by (simp add: provenance_ready_def)
  have d: "distinct ?rows" using ids unfolding repair_rows_def priority_rows_def
    by (auto intro: distinct_job_page distinct_idsD(1))
  note p = page_step [OF ids ready(2) repair_rows_mem d jobs]
  show "none_leased db'" by (rule p(3))
  have long: "length ?rows \<le> DOWNSTREAM_PROVENANCE_PAGE_SIZE"
    unfolding repair_rows_def priority_rows_def using job_page_length by (auto simp: DOWNSTREAM_PROVENANCE_PAGE_SIZE_def)
  have w: "waiting_work db' \<Longrightarrow> waiting_work db" using p(2) by (auto simp: waiting_work_def)
  have full: "unversioned_count db' div 100 + 1 = unversioned_count db div 100" if "\<not> length ?rows < DOWNSTREAM_PROVENANCE_PAGE_SIZE"
    using that long p(1) by (simp add: DOWNSTREAM_PROVENANCE_PAGE_SIZE_def)
  have le: "unversioned_count db' div 100 \<le> unversioned_count db div 100" using p(1) by (intro div_le_mono) simp
  show "calls_left m' db' < calls_left m db"
  proof (cases "priority_rows prompt db = []")
    case False
    then have m': "pm_state m' = ACTIVE" "pm_cursor m' = pm_cursor m" using follows by (auto simp: migration_follows_def Let_def)
    have over: "passed_over m' db' \<Longrightarrow> passed_over m db" using p(2) m'(2) by (auto simp: passed_over_def)
    have rows: "?rows = job_page DOWNSTREAM_PROVENANCE_PAGE_SIZE (\<lambda>j. unversioned j \<and> queued_or_backing_off j) (wl_jobs db)"
      using False parents by (simp add: repair_rows_def priority_rows_def)
    have "\<not> waiting_work db' \<and> waiting_work db" if short: "length ?rows < DOWNSTREAM_PROVENANCE_PAGE_SIZE"
    proof -
      have "set ?rows = {j \<in> set (wl_jobs db). unversioned j \<and> queued_or_backing_off j}"
        using job_page_all short unfolding rows by blast
      moreover have "?rows \<noteq> []" using False by (simp add: repair_rows_def)
      then have "set ?rows \<noteq> {}" by simp
      ultimately show ?thesis using p(2) by (auto simp: waiting_work_def)
    qed
    then show ?thesis using run m' w over full le
      by (cases "length ?rows < DOWNSTREAM_PROVENANCE_PAGE_SIZE") (auto simp: calls_left_def DOWNSTREAM_PROVENANCE_PAGE_SIZE_def)
  next
    case True
    then have rows: "?rows = job_page DOWNSTREAM_PROVENANCE_PAGE_SIZE (\<lambda>j. unversioned j \<and> beyond (pm_cursor m) j) (wl_jobs db)"
      by (simp add: repair_rows_def)
    show ?thesis
    proof (cases "length ?rows < DOWNSTREAM_PROVENANCE_PAGE_SIZE")
      case short: True
      have m': "pm_cursor m' = None" "pm_state m' = (if \<exists>j \<in> set (wl_jobs db'). unversioned j then WAITING_INPUT else COMPLETE)"
        using follows True short by (auto simp: migration_follows_def Let_def)
      have "set ?rows = {j \<in> set (wl_jobs db). unversioned j \<and> beyond (pm_cursor m) j}"
        using job_page_all short unfolding rows by blast
      then have "passed_over m db" if "\<exists>j \<in> set (wl_jobs db'). unversioned j" using that p(2) by (auto simp: passed_over_def)
      moreover have "\<not> passed_over m' db'" using m'(1) by (simp add: passed_over_def beyond_def)
      ultimately show ?thesis using m'(2) run w le
        by (auto simp: calls_left_def DOWNSTREAM_PROVENANCE_PAGE_SIZE_def)
    next
      case False
      then have m': "pm_state m' = ACTIVE" "pm_cursor m' = Some (position (last ?rows))"
        using follows True by (auto simp: migration_follows_def Let_def)
      have ne: "?rows \<noteq> []" using False by (auto simp: DOWNSTREAM_PROVENANCE_PAGE_SIZE_def)
      have "passed_over m db" if over: "passed_over m' db'"
      proof -
        obtain j where j: "j \<in> set (wl_jobs db)" "j \<notin> set ?rows" "unversioned j" "\<not> position (last ?rows) < position j"
          using over p(2) m'(2) by (auto simp: passed_over_def beyond_def)
        have "\<not> beyond (pm_cursor m) j"
        proof
          assume "beyond (pm_cursor m) j"
          then have "position (last ?rows) \<le> position j" using job_page_rest j ne unfolding rows by blast
          moreover have "last ?rows \<in> set (wl_jobs db)" "last ?rows \<noteq> j" using ne repair_rows_mem j(2) last_in_set by blast+
          ultimately show False using j(1,4) distinct_idsD(2) [OF ids] unfolding position_def by force
        qed
        then show ?thesis using j by (auto simp: passed_over_def)
      qed
      then show ?thesis using run m' w full [OF False] by (auto simp: calls_left_def DOWNSTREAM_PROVENANCE_PAGE_SIZE_def)
    qed
  qed
qed

fun provenance_calls :: "string \<Rightarrow> instant list \<Rightarrow> lane_db \<Rightarrow> lane_db" where
  "provenance_calls prompt [] db = db"
| "provenance_calls prompt (now # nows) db =
     provenance_calls prompt nows (snd (install_downstream_work_provenance prompt now db))"

definition repair_fate :: "string \<Rightarrow> instant list \<Rightarrow> lane_db \<Rightarrow> (job \<Rightarrow> job) \<Rightarrow> bool" where
  "repair_fate prompt nows db f \<longleftrightarrow> (\<forall>j \<in> set (wl_jobs db).
     if unversioned j then \<exists>now \<in> set nows. f j = repaired_row prompt True now db j else f j = j)"

lemma provenance_calls_open:
  assumes "provenance_ready db" "none_leased db" "parents_complete prompt db" "find_downstream db = Some m"
    "pm_state m = COMPLETE \<Longrightarrow> \<forall>j \<in> set (wl_jobs db). \<not> unversioned j" "calls_left m db \<le> length nows"
  shows "\<exists>f m'. wl_jobs (provenance_calls prompt nows db) = map f (wl_jobs db) \<and> repair_fate prompt nows db f \<and>
    find_downstream (provenance_calls prompt nows db) = Some m' \<and> pm_state m' = COMPLETE"
  using assms
proof (induction nows arbitrary: db m)
  case Nil
  then have c: "pm_state m = COMPLETE" by (auto simp: calls_left_def split: if_splits)
  then have "repair_fate prompt [] db (\<lambda>j. j)" using Nil.prems(5) by (simp add: repair_fate_def)
  then show ?case using c Nil.prems(4) by (intro exI [of _ "\<lambda>j. j"] exI [of _ m]) simp
next
  case (Cons now nows)
  show ?case
  proof (cases "pm_state m = COMPLETE")
    case True
    then have same: "snd (install_downstream_work_provenance prompt now db) = db"
      using Cons.prems(4) by (simp add: install_downstream_work_provenance_def open_provenance_migration_def)
    have "calls_left m db \<le> length nows" using True by (simp add: calls_left_def)
    from Cons.IH [OF Cons.prems(1-5) this] obtain f m' where f:
      "wl_jobs (provenance_calls prompt nows db) = map f (wl_jobs db)" "repair_fate prompt nows db f"
      "find_downstream (provenance_calls prompt nows db) = Some m'" "pm_state m' = COMPLETE" by blast
    have "repair_fate prompt (now # nows) db f" using f(2) Cons.prems(5) [OF True] by (simp add: repair_fate_def)
    then show ?thesis using f by (intro exI [of _ f] exI [of _ m']) (simp add: same)
  next
    case False
    let ?rows = "repair_rows prompt m db"
    define g where "g = (\<lambda>j. if j \<in> set ?rows then repaired_row prompt True now db j else j)"
    obtain db' rep m' where t: "install_downstream_work_provenance prompt now db = (Inr rep, db')" "repair_frame prompt db db'"
      "wl_jobs db' = map g (wl_jobs db)" "find_downstream db' = Some m'" "migration_follows prompt m db m' db'"
      using provenance_tick [OF Cons.prems(1,4) False, of prompt now] Cons.prems(3) unfolding g_def by auto
    note less = provenance_tick_decreases [OF Cons.prems(1-3) False t(5) t(3) [unfolded g_def]]
    have ready: "provenance_ready db'" "parents_complete prompt db'"
      using t(2) Cons.prems(3) by (simp_all add: repair_frame_def parents_complete_def find_lane_def)
    have ended: "\<forall>j \<in> set (wl_jobs db'). \<not> unversioned j" if "pm_state m' = COMPLETE"
      using t(5) that by (auto simp: migration_follows_def Let_def split: if_splits)
    have "calls_left m' db' \<le> length nows" using less(1) Cons.prems(6) by simp
    from Cons.IH [OF ready(1) less(2) ready(2) t(4) ended this] obtain f m'' where f:
      "wl_jobs (provenance_calls prompt nows db') = map f (wl_jobs db')" "repair_fate prompt nows db' f"
      "find_downstream (provenance_calls prompt nows db') = Some m''" "pm_state m'' = COMPLETE" by blast
    have "repair_fate prompt (now # nows) db (\<lambda>j. f (g j))"
      unfolding repair_fate_def
    proof
      fix j assume j: "j \<in> set (wl_jobs db)"
      have c: "repaired_row prompt True t db' i = repaired_row prompt True t db i" for t i
        using t(2) by (intro repaired_row_cong) (simp_all add: repair_frame_def)
      from j have "g j \<in> set (wl_jobs db')" using t(3) by simp
      then have fate: "if unversioned (g j) then \<exists>now \<in> set nows. f (g j) = repaired_row prompt True now db (g j)
          else f (g j) = g j" using f(2) unfolding repair_fate_def c by blast
      show "if unversioned j then \<exists>now \<in> set (now # nows). f (g j) = repaired_row prompt True now db j
          else f (g j) = j"
      proof (cases "j \<in> set ?rows")
        case True
        then have u: "unversioned j" using repair_rows_mem by blast
        then have "\<not> unversioned (g j)" using True j Cons.prems(2) repaired_row_versioned
          by (auto simp: g_def none_leased_def)
        then show ?thesis using fate True u by (simp add: g_def)
      next
        case False
        then show ?thesis using fate by (simp add: g_def split: if_splits)
      qed
    qed
    then show ?thesis using t(1,3) f by (intro exI [of _ "\<lambda>j. f (g j)"] exI [of _ m'']) simp
  qed
qed

lemma reopened_provenance: "find_downstream db = Some m \<Longrightarrow> open_provenance_migration now db = db"
  by (simp add: open_provenance_migration_def)

lemma opened_provenance:
  obtains m where "find_downstream (open_provenance_migration now db) = Some m"
    "find_downstream db = None \<Longrightarrow> pm_state m = ACTIVE \<and> pm_cursor m = None"
    "\<And>m'. find_downstream db = Some m' \<Longrightarrow> m = m'"
    "install_downstream_work_provenance prompt now (open_provenance_migration now db) =
       install_downstream_work_provenance prompt now db"
proof -
  obtain m where m: "find_downstream (open_provenance_migration now db) = Some m"
    "find_downstream db = None \<Longrightarrow> pm_state m = ACTIVE \<and> pm_cursor m = None" "\<And>m'. find_downstream db = Some m' \<Longrightarrow> m = m'"
  proof (cases "find_downstream db")
    case None
    let ?m = "\<lparr>pm_version = WORK_PROVENANCE_VERSION, pm_cursor = None, pm_processed = 0, pm_resolved = 0,
               pm_unresolved = 0, pm_leased = 0, pm_pass = 0, pm_state = ACTIVE, pm_updated = now\<rparr>"
    have "wl_downstream (open_provenance_migration now db) = wl_downstream db @ [?m]"
      using None by (simp add: open_provenance_migration_def)
    then have "find_downstream (open_provenance_migration now db) = Some ?m"
      using None by (simp add: find_downstream_def find_None_iff find_append_new)
    then show ?thesis using that None by simp
  qed (use that in \<open>simp add: open_provenance_migration_def\<close>)
  have "open_provenance_migration now (open_provenance_migration now db) = open_provenance_migration now db"
    using m(1) by (rule reopened_provenance)
  then have e: "install_downstream_work_provenance prompt now (open_provenance_migration now db) =
       install_downstream_work_provenance prompt now db"
    unfolding install_downstream_work_provenance_def Let_def by (simp only:)
  show ?thesis by (rule that [OF m(1) _ _ e]) (fact m(2), fact m(3))
qed

text \<open>
  The repair of the derived jobs finishes, although it works on bounded pages, takes waiting work out of order
  and resumes behind a cursor of an earlier pass. Once the annotation jobs have their lanes and no derived job is
  leased, one call of \<open>_install_downstream_work_provenance\<close> for every hundred jobs without a provenance and
  three more complete it; every such job then has the provenance that \<open>resolve_work_provenance\<close> gives it (and the
  background priority on the backfill lane), or is marked unresolved and unclassified where there is none. No
  other job is touched.
\<close>

theorem provenance_repair_finishes:
  assumes "provenance_ready db" "none_leased db" "parents_complete prompt db"
    "\<forall>m. find_downstream db = Some m \<longrightarrow> pm_state m \<noteq> COMPLETE"
    "unversioned_count db div DOWNSTREAM_PROVENANCE_PAGE_SIZE + 2 < length nows"
  shows "\<exists>f m. wl_jobs (provenance_calls prompt nows db) = map f (wl_jobs db) \<and>
    find_downstream (provenance_calls prompt nows db) = Some m \<and> pm_state m = COMPLETE \<and>
    (\<forall>j \<in> set (wl_jobs db).
       if unversioned j
       then \<exists>now \<in> set nows. \<exists>found. resolve_work_provenance prompt (job_source_key j) (j_annotation j) db = Inr found \<and>
              f j = (case found of Some p \<Rightarrow> resolved_row p now j | None \<Rightarrow> unresolved_row now j)
       else f j = j)"
proof -
  obtain now rest where nows: "nows = now # rest" using assms(5) by (cases nows) auto
  let ?db = "open_provenance_migration now db"
  obtain m where m: "find_downstream ?db = Some m" "pm_state m \<noteq> COMPLETE"
    "install_downstream_work_provenance prompt now ?db = install_downstream_work_provenance prompt now db"
    using opened_provenance [of now db prompt] assms(4) by (metis migration_state.distinct(3) option.exhaust)
  have same: "lane_evidence db ?db" "wl_jobs ?db = wl_jobs db" "wl_lanes ?db = wl_lanes db"
    by (simp_all add: lane_evidence_def open_provenance_migration_def)
  have ready: "provenance_ready ?db" "none_leased ?db" "parents_complete prompt ?db"
    using assms(1-3) same by (simp_all add: provenance_ready_def none_leased_def parents_complete_def find_lane_def)
  have "calls_left m ?db \<le> length nows"
    using assms(5) same(2) by (simp add: calls_left_def unversioned_count_def of_bool_def)
  moreover have "provenance_calls prompt nows ?db = provenance_calls prompt nows db"
    unfolding nows by (simp add: m(3))
  ultimately obtain f m' where f: "wl_jobs (provenance_calls prompt nows db) = map f (wl_jobs db)"
    "repair_fate prompt nows ?db f" "find_downstream (provenance_calls prompt nows db) = Some m'" "pm_state m' = COMPLETE"
    using provenance_calls_open [OF ready m(1), of nows] m(2) same(2) by auto
  have "if unversioned j
       then \<exists>now \<in> set nows. \<exists>found. resolve_work_provenance prompt (job_source_key j) (j_annotation j) db = Inr found \<and>
              f j = (case found of Some p \<Rightarrow> resolved_row p now j | None \<Rightarrow> unresolved_row now j)
       else f j = j" if j: "j \<in> set (wl_jobs db)" for j
  proof -
    obtain found where r: "resolve_work_provenance prompt (job_source_key j) (j_annotation j) db = Inr found"
      using resolve_total [OF assms(1)] by blast
    have c: "repaired_row prompt True now ?db j = repaired_row prompt True now db j" for now j
      using same by (intro repaired_row_cong) (simp_all add: parent_jobs_def)
    have "if unversioned j then \<exists>now \<in> set nows. f j = repaired_row prompt True now db j else f j = j"
      using f(2) j same(2) unfolding repair_fate_def c by simp
    moreover have "repaired_row prompt True now db j =
        (case found of Some p \<Rightarrow> resolved_row p now j | None \<Rightarrow> unresolved_row now j)" if "unversioned j" for now
      using that assms(2) j r by (simp add: repaired_row_def none_leased_def split: option.splits)
    ultimately show ?thesis using r by (simp split: if_splits)
  qed
  then show ?thesis using f by blast
qed

section \<open>The repairs on a database\<close>

definition sample_waiting :: job where
  "sample_waiting = sample_job\<lparr>j_id := ''job-2'', j_item := ''old'', j_lane_classified := False\<rparr>"

definition sample_lane_db :: lane_db where
  "sample_lane_db = \<lparr>wl_ledger = empty_ledger\<lparr>ld_epoch := Some 0, ld_jobs := [sample_job, sample_waiting]\<rparr>,
     wl_json = (\<lambda>_. None), wl_projections = [], wl_backfills = [], wl_lanes = [], wl_downstream = [], wl_marks = []\<rparr>"

definition sample_impact :: job where
  "sample_impact = sample_job\<lparr>j_id := ''job-3'', j_task := ACTIVE_IMPACT, j_annotation := ''a'', j_prompt := ''impact'',
     j_provenance_version := None\<rparr>"

definition sample_parents :: lane_db where
  "sample_parents = sample_lane_db\<lparr>
     wl_ledger := empty_ledger\<lparr>ld_jobs := [sample_job, sample_impact],
       ld_annotations := [sample_annotation\<lparr>nn_id := ''a'', nn_key := (''fed'', ''item'', 1), nn_prompt := ''v1''\<rparr>]\<rparr>,
     wl_lanes := [\<lparr>lm_prompt = ''v1'', lm_activated = 0, lm_cursor = None, lm_processed = 0, lm_state = COMPLETE,
       lm_updated = 0\<rparr>]\<rparr>"

lemmas sample_lane_defs = sample_lane_db_def sample_parents_def sample_waiting_def sample_impact_def sample_job_def
  empty_ledger_def

lemma sample_lane_ready: "lanes_ready sample_lane_db"
    "length (filter (awaiting ''v1'' sample_lane_db) (wl_jobs sample_lane_db)) div EXISTING_JOB_LANE_PAGE_SIZE <
       length [100 :: instant]"
  by (simp_all add: sample_lane_defs lanes_ready_def awaiting_def distinct_ids_def find_lane_def unclassified_def annotation_job_def EXISTING_JOB_LANE_PAGE_SIZE_def)

theorem annotation_lanes_are_settled_witness:
  "\<exists>f m. wl_jobs (contract_lane_calls sample_platform sample_zone ''v1'' [100] sample_lane_db) = map f (wl_jobs sample_lane_db) \<and>
    find_lane ''v1'' (contract_lane_calls sample_platform sample_zone ''v1'' [100] sample_lane_db) = Some m \<and>
    lm_state m = COMPLETE \<and> f sample_job = sample_job \<and>
    f sample_waiting = sample_waiting\<lparr>j_lane := CONTRACT_BACKFILL, j_priority := BACKGROUND, j_lane_classified := True,
      j_state := DEAD_LETTER, j_last_error := Some ''CURRENT_EVIDENCE_NO_LONGER_ELIGIBLE'', j_updated_at := 100,
      j_completed_at := Some 100\<rparr>"
proof -
  obtain f m where f: "wl_jobs (contract_lane_calls sample_platform sample_zone ''v1'' [100] sample_lane_db) =
      map f (wl_jobs sample_lane_db)"
    "find_lane ''v1'' (contract_lane_calls sample_platform sample_zone ''v1'' [100] sample_lane_db) = Some m"
    "lm_state m = COMPLETE" and fate: "\<forall>j \<in> set (wl_jobs sample_lane_db).
       if awaiting ''v1'' sample_lane_db j
       then \<exists>now \<in> set [100]. \<exists>gone. retires sample_platform sample_zone (activation ''v1'' (hd [100]) sample_lane_db)
                ''v1'' sample_lane_db j = Inr gone \<and>
              f j = classified_row (historical (activation ''v1'' (hd [100]) sample_lane_db) sample_lane_db j) gone now j
       else f j = j"
    using annotation_lanes_are_settled [OF sample_lane_ready, of sample_platform sample_zone] by blast
  have "retires sample_platform sample_zone t ''v1'' sample_lane_db sample_waiting = Inr True"
    "historical t sample_lane_db sample_waiting" for t
    by (simp_all add: retires_def historical_def evidence_of_job_def sample_lane_defs queued_or_backing_off_def)
  moreover have "awaiting ''v1'' sample_lane_db sample_waiting" "\<not> awaiting ''v1'' sample_lane_db sample_job"
    by (simp_all add: awaiting_def find_lane_def unclassified_def annotation_job_def sample_lane_defs)
  ultimately have "f sample_job = sample_job" "f sample_waiting = classified_row True True 100 sample_waiting"
    using fate by (auto simp: sample_lane_db_def)
  then show ?thesis using f by (auto simp: classified_row_def sample_waiting_def sample_job_def)
qed

lemma sample_parents_ready: "provenance_ready sample_parents" "none_leased sample_parents" "parents_complete ''v1'' sample_parents"
    "\<forall>m. find_downstream sample_parents = Some m \<longrightarrow> pm_state m \<noteq> COMPLETE"
    "unversioned_count sample_parents div DOWNSTREAM_PROVENANCE_PAGE_SIZE + 2 < length [1, 2, 3 :: instant]"
proof -
  have "strip ''job-1'' \<noteq> []" "strip ''job-3'' \<noteq> []" by code_simp+
  then show "provenance_ready sample_parents" by (simp add: sample_lane_defs provenance_ready_def distinct_ids_def)
qed (simp_all add: sample_lane_defs none_leased_def parents_complete_def find_lane_def find_downstream_def
       unversioned_count_def unversioned_def downstream_def DOWNSTREAM_PROVENANCE_PAGE_SIZE_def)

lemma sample_impact_resolves:
  "resolve_work_provenance ''v1'' (job_source_key sample_impact) (j_annotation sample_impact) sample_parents =
    Inr (Some \<lparr>wp_lane = LIVE, wp_origin_task = ''ACTIVE_ANNOTATION'', wp_origin_ref = ''job-1''\<rparr>)"
proof -
  have "strip ''job-1'' \<noteq> []" "strip ''ACTIVE_ANNOTATION'' \<noteq> []" by code_simp+
  moreover have "owners_of ''v1'' (job_source_key sample_impact) (j_annotation sample_impact) sample_parents = [sample_job]"
    by (simp add: owners_of_def sample_lane_defs annotation_job_def job_source_key_def lane_annotation_def sample_annotation_def)
  moreover have "projections_of ''v1'' (job_source_key sample_impact) (j_annotation sample_impact) sample_parents = []"
    by (simp add: projections_of_def sample_lane_defs)
  moreover have "j_lane sample_job = LIVE" "j_id sample_job = ''job-1''" by (simp_all add: sample_job_def)
  ultimately show ?thesis using lane_of_name [of LIVE] by (simp add: resolve_work_provenance_def make_provenance_def)
qed

theorem provenance_repair_finishes_witness:
  "\<exists>f m t. wl_jobs (provenance_calls ''v1'' [1, 2, 3] sample_parents) = map f (wl_jobs sample_parents) \<and>
    find_downstream (provenance_calls ''v1'' [1, 2, 3] sample_parents) = Some m \<and> pm_state m = COMPLETE \<and>
    f sample_impact = resolved_row \<lparr>wp_lane = LIVE, wp_origin_task = ''ACTIVE_ANNOTATION'', wp_origin_ref = ''job-1''\<rparr> t sample_impact"
proof -
  obtain f m where f: "wl_jobs (provenance_calls ''v1'' [1, 2, 3] sample_parents) = map f (wl_jobs sample_parents)"
    "find_downstream (provenance_calls ''v1'' [1, 2, 3] sample_parents) = Some m" "pm_state m = COMPLETE"
    and fate: "\<forall>j \<in> set (wl_jobs sample_parents). if unversioned j
       then \<exists>now \<in> set [1, 2, 3]. \<exists>found. resolve_work_provenance ''v1'' (job_source_key j) (j_annotation j) sample_parents = Inr found \<and>
              f j = (case found of Some p \<Rightarrow> resolved_row p now j | None \<Rightarrow> unresolved_row now j)
       else f j = j"
    using provenance_repair_finishes [OF sample_parents_ready] by blast
  have "unversioned sample_impact" "sample_impact \<in> set (wl_jobs sample_parents)"
    by (simp_all add: unversioned_def downstream_def sample_impact_def sample_parents_def)
  then have "\<exists>now \<in> set [1, 2, 3]. \<exists>found. resolve_work_provenance ''v1'' (job_source_key sample_impact) (j_annotation sample_impact)
        sample_parents = Inr found \<and>
      f sample_impact = (case found of Some p \<Rightarrow> resolved_row p now sample_impact | None \<Rightarrow> unresolved_row now sample_impact)"
    using bspec [OF fate, of sample_impact] by (simp only: if_True)
  then obtain now found where
    "resolve_work_provenance ''v1'' (job_source_key sample_impact) (j_annotation sample_impact) sample_parents = Inr found"
    "f sample_impact = (case found of Some p \<Rightarrow> resolved_row p now sample_impact | None \<Rightarrow> unresolved_row now sample_impact)"
    by blast
  then show ?thesis using f sample_impact_resolves by (intro exI [of _ f] exI [of _ m] exI [of _ now]) auto
qed

end
