(* ===== verification/News_Contract.thy ===== *)
theory News_Contract
  imports Sample_Data
begin

text \<open>
  The controlled semantics of a news annotation, \<^verbatim>\<open>xauusd_news/news/semantics/contracts.py\<close>: the schema
  of \<^verbatim>\<open>xauusd_news/news_annotation.schema.json\<close> with the fields that the semantic prompts add, the
  validation of a model's answer against it and against its source, the lossless cleanup before it, and
  the topics of an annotation; and, of \<^verbatim>\<open>xauusd_news/news/annotation/product.py\<close>, the exact spans of the
  source from which a repair may choose its evidence.

  Every property turns on one question: whether the evidence of an annotation stands in its source.
  Texts are lists of characters up to 255; the case folding and the character classes of Python are
  written out for them. Of the schema, the constraints are kept and the descriptions left out.
\<close>

section \<open>Texts\<close>

text \<open>\<open>str.isalnum\<close> and \<open>str.casefold\<close> of one character; a folded text is a list of code points.\<close>

definition isalnum :: "char \<Rightarrow> bool" where
  "isalnum c \<longleftrightarrow> (let n = (of_char c :: nat) in
     (48 \<le> n \<and> n \<le> 57) \<or> (65 \<le> n \<and> n \<le> 90) \<or> (97 \<le> n \<and> n \<le> 122) \<or> n = 170 \<or> n = 178 \<or> n = 179 \<or> n = 181 \<or>
     n = 185 \<or> n = 186 \<or> (188 \<le> n \<and> n \<le> 190) \<or> (192 \<le> n \<and> n \<le> 214) \<or> (216 \<le> n \<and> n \<le> 246) \<or> (248 \<le> n \<and> n \<le> 255))"

definition casefold_char :: "char \<Rightarrow> nat list" where
  "casefold_char c = (let n = of_char c in
     if (65 \<le> n \<and> n \<le> 90) \<or> (192 \<le> n \<and> n \<le> 222 \<and> n \<noteq> 215) then [n + 32]
     else if n = 181 then [956]
     else if n = 223 then [115, 115]
     else [n])"

definition casefold :: "string \<Rightarrow> nat list" where
  "casefold s = concat (map casefold_char s)"

text \<open>\<open>" ".join(text.split())\<close>, and the same folded.\<close>

definition collapse :: "string \<Rightarrow> string" where
  "collapse s = join '' '' (split_ws s)"

definition normalized :: "string \<Rightarrow> nat list" where
  "normalized s = casefold (collapse s)"

text \<open>\<open>_alphanumeric_fold\<close>: the folded letters and digits, each with the index it comes from.\<close>

definition alphanumeric_fold :: "string \<Rightarrow> nat list \<times> nat list" where
  "alphanumeric_fold s =
     (let kept = concat (map (\<lambda>(i, c). if isalnum c then map (\<lambda>f. (f, i)) (casefold_char c) else [])
                   (enumerate 0 s))
      in (map fst kept, map snd kept))"

text \<open>\<open>text.find(part, start)\<close>.\<close>

definition find_in :: "'a list \<Rightarrow> 'a list \<Rightarrow> nat \<Rightarrow> nat option" where
  "find_in part s start = find (\<lambda>i. starts_with part (drop i s)) [start..<Suc (length s) - length part]"

definition canonical_annotation_source_text :: "string \<Rightarrow> string \<Rightarrow> string" where
  "canonical_annotation_source_text headline body = headline @ CHR 0x0A # body"

section \<open>The schema\<close>

text \<open>A rule of the schema: a text, a number within bounds, or an array of items.\<close>

datatype item_rule =
    TextItem "nat option" "nat option" "string list option"
  | IntegerItem

datatype field_rule =
    TextField "nat option" "nat option" "string list option"
  | NumberField int int
  | ArrayField "nat option" "nat option" item_rule bool

definition LEGACY_NEWS_PROMPT_VERSION :: string where
  "LEGACY_NEWS_PROMPT_VERSION = ''news-json-v14-material-event-evidence''"
definition LEGACY_SEMANTIC_NEWS_PROMPT_VERSION :: string where
  "LEGACY_SEMANTIC_NEWS_PROMPT_VERSION = ''news-json-v15-ai-semantic-review''"
definition PREVIOUS_NEWS_PROMPT_VERSION :: string where
  "PREVIOUS_NEWS_PROMPT_VERSION = ''news-json-v16-xauusd-transmission-evidence''"
definition ACTIVE_NEWS_PROMPT_VERSION :: string where
  "ACTIVE_NEWS_PROMPT_VERSION = ''news-json-v17-source-grounded-latin-display''"

definition V1_NEWS_PROMPT_VERSIONS :: "string list" where
  "V1_NEWS_PROMPT_VERSIONS =
     [LEGACY_NEWS_PROMPT_VERSION, ''news-json-v13-event-claims'', ''news-json-v12-gemini-story-identity'',
      ''news-json-v11-gemini-story-subjects'', ''news-json-v10-controlled-category-zh'']"

definition SEMANTIC_NEWS_PROMPT_VERSIONS :: "string list" where
  "SEMANTIC_NEWS_PROMPT_VERSIONS =
     [LEGACY_SEMANTIC_NEWS_PROMPT_VERSION, PREVIOUS_NEWS_PROMPT_VERSION, ACTIVE_NEWS_PROMPT_VERSION]"

definition NEWS_CATEGORIES :: "string list" where
  "NEWS_CATEGORIES =
     [''rates_fed'', ''inflation_employment'', ''growth_economy'', ''usd_liquidity'', ''oil_energy'',
      ''war_geopolitics'', ''central_bank_gold'', ''risk_sentiment'', ''regulation_other'']"

definition RECORD_KINDS :: "string list" where
  "RECORD_KINDS = [''FACT_EVENT'', ''OFFICIAL_CLAIM'', ''MARKET_REACTION'', ''COMMENTARY_FORECAST'', ''BACKGROUND'']"

definition DOCUMENT_KINDS :: "string list" where
  "DOCUMENT_KINDS = [''OFFICIAL_STATEMENT'', ''PRESS_CONFERENCE'', ''MEETING_MINUTES'', ''REPORT'', ''NEWS_REPORT'',
     ''MARKET_REPORT'', ''ANALYSIS'', ''BACKGROUND'']"

definition EVIDENCE_ROLES :: "string list" where
  "EVIDENCE_ROLES = [''CORE_CLAIM'', ''EVIDENCE_DOCUMENT'', ''MARKET_REACTION'', ''COMMENTARY'', ''BACKGROUND'']"

definition text_up_to :: "nat \<Rightarrow> field_rule" where
  "text_up_to n = TextField None (Some n) None"

definition text_of :: "string list \<Rightarrow> field_rule" where
  "text_of values = TextField None None (Some values)"

text \<open>\<open>properties\<close> of \<^verbatim>\<open>news_annotation.schema.json\<close>; all of them are \<open>required\<close>.\<close>

definition base_properties :: "(string \<times> field_rule) list" where
  "base_properties =
     [(''headline_zh'', TextField (Some 2) (Some 300) None),
      (''summary_zh'', TextField (Some 20) (Some 1600) None),
      (''primary_category'', text_of NEWS_CATEGORIES),
      (''secondary_categories'', ArrayField None (Some 2) (TextItem None None (Some NEWS_CATEGORIES)) True),
      (''emerging_topic_zh'', text_up_to 16),
      (''record_kind'', text_of RECORD_KINDS),
      (''actor'', text_up_to 160), (''action'', text_up_to 160), (''object'', text_up_to 160),
      (''location'', text_up_to 160), (''event_time'', text_up_to 64),
      (''claim_status'', text_of [''REPORTED'', ''OFFICIAL'', ''CONFIRMED'', ''DISPUTED'', ''DENIED'', ''CORRECTED'',
         ''NOT_APPLICABLE'']),
      (''materiality'', NumberField 0 1),
      (''canonical_actor_id'', text_up_to 96),
      (''action_family'', text_of [''POLICY_DECISION'', ''OFFICIAL_STATEMENT'', ''THREAT'', ''MILITARY_ACTION'',
         ''SHIPPING_DISRUPTION'', ''SANCTION'', ''ECONOMIC_RELEASE'', ''GOLD_PURCHASE'', ''ENERGY_SUPPLY_CHANGE'',
         ''REGULATORY_ACTION'', ''OTHER_FACT'']),
      (''canonical_object_id'', text_up_to 96), (''canonical_location_id'', text_up_to 96),
      (''episode_key'', text_up_to 120), (''primary_story_title_zh'', text_up_to 100),
      (''secondary_contexts_zh'', ArrayField None (Some 2) (TextItem (Some 2) (Some 30) None) True),
      (''relation_to_prior'', text_of [''NONE'', ''CONFIRMS'', ''CONTRADICTS'', ''RESPONDS_TO'', ''ESCALATES'',
         ''DEESCALATES'', ''SUPERSEDES'', ''MARKET_REACTS_TO'', ''FOLLOWED_BY'']),
      (''document_kind'', text_of DOCUMENT_KINDS),
      (''material_event_key'', text_up_to 160), (''source_organization_id'', text_up_to 120),
      (''evidence_role'', text_of EVIDENCE_ROLES),
      (''event_type'', TextField (Some 1) None None),
      (''entities'', ArrayField None None (TextItem None None None) True),
      (''hawkishness'', NumberField (- 1) 1), (''inflation_impulse'', NumberField (- 1) 1),
      (''growth_impulse'', NumberField (- 1) 1), (''geopolitical_risk'', NumberField (- 1) 1),
      (''usd_impulse'', NumberField (- 1) 1), (''novelty'', NumberField 0 1), (''confidence'', NumberField 0 1)]"

definition AI_SEMANTIC_FIELDS :: "(string \<times> field_rule) list" where
  "AI_SEMANTIC_FIELDS =
     [(''xauusd_relevance'', text_of [''DIRECT'', ''MACRO_DRIVER'', ''CONTEXT_ONLY'', ''IRRELEVANT'']),
      (''review_priority'', text_of [''IMMEDIATE'', ''FAST'', ''NORMAL'', ''BACKGROUND'']),
      (''material_change'', text_of [''NEW_EVENT'', ''MATERIAL_UPDATE'', ''DUPLICATE_REPORT'', ''COMMENTARY'',
         ''HISTORICAL_CONTEXT'']),
      (''time_sensitivity'', text_of [''IMMEDIATE'', ''SAME_DAY'', ''MULTI_DAY'', ''ONGOING'', ''BACKGROUND'']),
      (''semantic_reason_zh'', TextField (Some 4) (Some 240) None),
      (''supporting_evidence'', ArrayField (Some 1) (Some 3) (TextItem (Some 4) (Some 240) None) True)]"

definition SELECTION_FIELDS :: "string list" where
  "SELECTION_FIELDS = [''source_title_segment_ids'', ''source_body_segment_ids'']"

definition SELECTION_SCHEMA :: "(string \<times> field_rule) list" where
  "SELECTION_SCHEMA = map (\<lambda>f. (f, ArrayField (Some 1) None IntegerItem False)) SELECTION_FIELDS"

text \<open>The current prompt leaves the lengths of the Chinese display fields free.\<close>

fun without_lengths :: "field_rule \<Rightarrow> field_rule" where
  "without_lengths (TextField _ _ values) = TextField None None values"
| "without_lengths rule = rule"

definition FREE_DISPLAY_FIELDS :: "string list" where
  "FREE_DISPLAY_FIELDS = [''headline_zh'', ''summary_zh'', ''primary_story_title_zh'', ''semantic_reason_zh'']"

definition display_rules :: "string \<Rightarrow> (string \<times> field_rule) list \<Rightarrow> (string \<times> field_rule) list" where
  "display_rules prompt properties =
     (if prompt = ACTIVE_NEWS_PROMPT_VERSION
      then map (\<lambda>(f, r). if f \<in> set FREE_DISPLAY_FIELDS then (f, without_lengths r) else (f, r)) properties
      else properties)"

record schema =
  sc_required :: "string list"
  sc_properties :: "(string \<times> field_rule) list"

definition news_annotation_schema :: "string \<Rightarrow> schema outcome" where
  "news_annotation_schema prompt =
     (let semantic = prompt \<in> set SEMANTIC_NEWS_PROMPT_VERSIONS;
          properties = base_properties @ (if semantic then AI_SEMANTIC_FIELDS else [])
      in if \<not> semantic \<and> prompt \<notin> set V1_NEWS_PROMPT_VERSIONS
         then Inl (ValueError (''unsupported news prompt version: '' @ prompt))
         else Inr \<lparr>sc_required = map fst properties, sc_properties = display_rules prompt properties @ SELECTION_SCHEMA\<rparr>)"

section \<open>Validation\<close>

definition annotation_error :: "string \<Rightarrow> string \<Rightarrow> py_error" where
  "annotation_error name what = ValueError (''annotation '' @ name @ what)"

definition at_least :: "nat option \<Rightarrow> nat \<Rightarrow> bool" where
  "at_least bound n \<longleftrightarrow> (case bound of None \<Rightarrow> True | Some b \<Rightarrow> b \<le> n)"

definition at_most :: "nat option \<Rightarrow> nat \<Rightarrow> bool" where
  "at_most bound n \<longleftrightarrow> (case bound of None \<Rightarrow> True | Some b \<Rightarrow> n \<le> b)"

definition among :: "string list option \<Rightarrow> string \<Rightarrow> bool" where
  "among values s \<longleftrightarrow> (case values of None \<Rightarrow> True | Some vs \<Rightarrow> s \<in> set vs)"

definition check_text :: "string \<Rightarrow> nat option \<Rightarrow> nat option \<Rightarrow> string list option \<Rightarrow> json \<Rightarrow> unit outcome" where
  "check_text name lo hi values v =
     (case v of
        JStr s \<Rightarrow>
          if \<not> at_least lo (length s) then Inl (annotation_error name '' is too short'')
          else if \<not> at_most hi (length s) then Inl (annotation_error name '' is too long'')
          else if \<not> among values s then Inl (annotation_error name '' is not controlled'')
          else Inr ()
      | _ \<Rightarrow> Inl (annotation_error name '' is not a string''))"

text \<open>\<open>math.isfinite\<close> converts an integer to a double first; the ones too large raise \<open>OverflowError\<close>.\<close>

definition overflows_double :: "int \<Rightarrow> bool" where
  "overflows_double i \<longleftrightarrow> 2 ^ 1024 - 2 ^ 970 \<le> \<bar>i\<bar>"

definition check_number :: "string \<Rightarrow> int \<Rightarrow> int \<Rightarrow> json \<Rightarrow> unit outcome" where
  "check_number name lo hi v =
     (let outside = Inl (annotation_error name '' is outside its allowed range'') in
      case v of
        JInt i \<Rightarrow>
          if overflows_double i then Inl (OtherError ''OverflowError'')
          else if i < lo \<or> hi < i then outside else Inr ()
      | JFloat (Finite x) \<Rightarrow> if x < of_int lo \<or> of_int hi < x then outside else Inr ()
      | JFloat _ \<Rightarrow> Inl (annotation_error name '' is not finite'')
      | _ \<Rightarrow> Inl (annotation_error name '' is not numeric''))"

text \<open>An integer item has no further constraint in the schema, and its type is not checked.\<close>

definition check_item :: "string \<Rightarrow> item_rule \<Rightarrow> json \<Rightarrow> unit outcome" where
  "check_item name rule v =
     (case rule of
        IntegerItem \<Rightarrow> Inr ()
      | TextItem lo hi values \<Rightarrow>
          (case v of
             JStr s \<Rightarrow>
               if \<not> at_least lo (length s) then Inl (annotation_error name '' contains a short item'')
               else if \<not> at_most hi (length s) then Inl (annotation_error name '' contains a long item'')
               else if \<not> among values s then Inl (annotation_error name '' contains an uncontrolled item'')
               else Inr ()
           | _ \<Rightarrow> Inl (annotation_error name '' contains a non-string'')))"

definition fingerprint_of :: "platform \<Rightarrow> json \<Rightarrow> string" where
  "fingerprint_of P v = (case v of JObj _ \<Rightarrow> json_dumps P v | JList _ \<Rightarrow> json_dumps P v | _ \<Rightarrow> py_repr P v)"

definition check_array ::
    "platform \<Rightarrow> string \<Rightarrow> nat option \<Rightarrow> nat option \<Rightarrow> item_rule \<Rightarrow> bool \<Rightarrow> json \<Rightarrow> unit outcome" where
  "check_array P name lo hi item unique v =
     (case v of
        JList xs \<Rightarrow>
          if \<not> at_least lo (length xs) then Inl (annotation_error name '' has too few items'')
          else if \<not> at_most hi (length xs) then Inl (annotation_error name '' exceeds its item limit'')
          else bind_out (fold_out (\<lambda>x _. check_item name item x) xs ()) (\<lambda>_.
            if unique \<and> \<not> distinct (map (fingerprint_of P) xs)
            then Inl (annotation_error name '' contains duplicates'') else Inr ())
      | _ \<Rightarrow> Inl (annotation_error name '' is not an array''))"

fun check_rule :: "platform \<Rightarrow> string \<Rightarrow> field_rule \<Rightarrow> json \<Rightarrow> unit outcome" where
  "check_rule P name (TextField lo hi values) v = check_text name lo hi values v"
| "check_rule P name (NumberField lo hi) v = check_number name lo hi v"
| "check_rule P name (ArrayField lo hi item unique) v = check_array P name lo hi item unique v"

definition check_property :: "platform \<Rightarrow> (string \<times> json) list \<Rightarrow> string \<times> field_rule \<Rightarrow> unit outcome" where
  "check_property P annotation p =
     (case p of (name, rule) \<Rightarrow>
        if name \<in> set SELECTION_FIELDS \<and> name \<notin> fst ` set annotation then Inr ()
        else case map_of annotation name of
          None \<Rightarrow> Inl (KeyError name)
        | Some v \<Rightarrow> check_rule P name rule v)"

definition sorted_names :: "string list \<Rightarrow> string" where
  "sorted_names names = join '', '' (sort names)"

text \<open>The evidence of a semantic prompt must occur in the source, up to case and white space.\<close>

definition check_excerpt :: "string \<Rightarrow> json \<Rightarrow> unit outcome" where
  "check_excerpt source v =
     (case v of
        JStr s \<Rightarrow>
          if contains (normalized s) (normalized source) then Inr ()
          else Inl (ValueError ''annotation supporting evidence is absent from source'')
      | _ \<Rightarrow> Inl (OtherError ''AttributeError''))"

definition items_of :: "(string \<times> json) list \<Rightarrow> string \<Rightarrow> json list" where
  "items_of annotation name = (case map_of annotation name of Some (JList xs) \<Rightarrow> xs | _ \<Rightarrow> [])"

text \<open>Both fields were checked before: the primary category is a text and the secondary ones are an array of texts.\<close>

definition validate_news_annotation ::
    "platform \<Rightarrow> string \<Rightarrow> string option \<Rightarrow> (string \<times> json) list \<Rightarrow> unit outcome" where
  "validate_news_annotation P prompt source annotation =
     bind_out (news_annotation_schema prompt) (\<lambda>sc.
       let keys = dedupe (map fst annotation);
           missing = filter (\<lambda>f. f \<notin> set keys) (sc_required sc);
           additional = filter (\<lambda>k. k \<notin> fst ` set (sc_properties sc)) keys
       in if missing \<noteq> [] then Inl (ValueError (''annotation missing schema fields: '' @ sorted_names missing))
          else if additional \<noteq> [] then Inl (ValueError (''annotation has unknown schema fields: '' @ sorted_names additional))
          else bind_out (fold_out (\<lambda>p _. check_property P annotation p) (sc_properties sc) ()) (\<lambda>_.
            if jget annotation ''primary_category'' \<in> set (items_of annotation ''secondary_categories'')
            then Inl (ValueError ''annotation category cannot be both primary and secondary'')
            else if prompt \<in> set SEMANTIC_NEWS_PROMPT_VERSIONS
            then (case source of
                    None \<Rightarrow> Inl (ValueError ''semantic annotation validation requires source text'')
                  | Some text \<Rightarrow>
                      fold_out (\<lambda>x _. check_excerpt text x) (items_of annotation ''supporting_evidence'') ())
            else Inr ()))"

section \<open>Cleanup before validation\<close>

text \<open>Python's \<open>==\<close> on decoded JSON: \<open>True == 1 == 1.0\<close>, and objects compare without order.\<close>

fun numeral_value :: "json \<Rightarrow> pyfloat option" where
  "numeral_value (JBool b) = Some (Finite (if b then 1 else 0))"
| "numeral_value (JInt i) = Some (Finite (of_int i))"
| "numeral_value (JFloat x) = Some x"
| "numeral_value _ = None"

definition same_number :: "json \<Rightarrow> json \<Rightarrow> bool" where
  "same_number u v = (case (numeral_value u, numeral_value v) of (Some x, Some y) \<Rightarrow> x = y \<and> x \<noteq> NaN | _ \<Rightarrow> False)"

lemma size_entry: "(k, x) \<in> set kvs \<Longrightarrow> size x < Suc (size_list (size_prod (\<lambda>_. 0) size) kvs)"
  using size_list_estimation' [of "(k, x)" kvs "size x" "size_prod (\<lambda>_. 0) size"] by simp

lemma size_member: "x \<in> set xs \<Longrightarrow> size x < Suc (size_list size xs)"
  using size_list_estimation' [of x xs "size x" size] by simp

function py_equal :: "json \<Rightarrow> json \<Rightarrow> bool" where
  "py_equal (JList xs) v =
     (case v of JList ys \<Rightarrow> list_all2 py_equal xs ys | _ \<Rightarrow> False)"
| "py_equal (JObj kvs) v =
     (case v of
        JObj kws \<Rightarrow> length kvs = length kws \<and>
          list_all (\<lambda>(k, x). case map_of kws k of None \<Rightarrow> False | Some y \<Rightarrow> py_equal x y) kvs
      | _ \<Rightarrow> False)"
| "py_equal JNull v = (v = JNull)"
| "py_equal (JStr s) v = (v = JStr s)"
| "py_equal (JBool b) v = same_number (JBool b) v"
| "py_equal (JInt i) v = same_number (JInt i) v"
| "py_equal (JFloat x) v = same_number (JFloat x) v"
  by pat_completeness auto
termination
  by (relation "measure (\<lambda>(u, v). size u)") (auto simp: size_entry size_member)

fun secondary_from :: "json \<Rightarrow> json list \<Rightarrow> json list \<Rightarrow> json list" where
  "secondary_from primary kept [] = kept"
| "secondary_from primary kept (x # xs) =
     secondary_from primary (if py_equal x primary \<or> list_ex (\<lambda>k. py_equal k x) kept then kept else kept @ [x]) xs"

text \<open>
  An excerpt is replaced by the text of the source between its first and last letter when its letters and
  digits occur there exactly once; otherwise it stays, shortened when it was short or is found as it is.
\<close>

definition canonical_excerpt :: "string \<Rightarrow> nat \<Rightarrow> string \<Rightarrow> string" where
  "canonical_excerpt source limit excerpt =
     (let direct = contains (normalized excerpt) (normalized source);
          folded = fst (alphanumeric_fold excerpt);
          (folded_source, positions) = alphanumeric_fold source
      in if length folded < 16 then take limit excerpt
         else case find_in folded folded_source 0 of
           None \<Rightarrow> if direct then take limit excerpt else excerpt
         | Some start \<Rightarrow>
             if find_in folded folded_source (start + 1) \<noteq> None then (if direct then take limit excerpt else excerpt)
             else take limit (drop (positions ! start)
                    (take (positions ! (start + length folded - 1) + 1) source)))"

fun canonical_item :: "string \<Rightarrow> nat \<Rightarrow> json \<Rightarrow> json" where
  "canonical_item source limit (JStr s) = JStr (canonical_excerpt source limit s)"
| "canonical_item source limit v = v"

definition set_field :: "string \<Rightarrow> json \<Rightarrow> (string \<times> json) list \<Rightarrow> (string \<times> json) list" where
  "set_field name v d = map (\<lambda>(k, w). if k = name then (k, v) else (k, w)) d"

definition canonicalize_active_annotation ::
    "string \<Rightarrow> nat \<Rightarrow> (string \<times> json) list \<Rightarrow> (string \<times> json) list" where
  "canonicalize_active_annotation source limit annotation =
     (let annotation =
            (case jget annotation ''secondary_categories'' of
               JList xs \<Rightarrow> set_field ''secondary_categories''
                 (JList (secondary_from (jget annotation ''primary_category'') [] xs)) annotation
             | _ \<Rightarrow> annotation)
      in case jget annotation ''supporting_evidence'' of
           JList xs \<Rightarrow> set_field ''supporting_evidence'' (JList (map (canonical_item source limit) xs)) annotation
         | _ \<Rightarrow> annotation)"

section \<open>What an annotation is about\<close>

definition ACTIONABLE_CATEGORIES :: "string list" where
  "ACTIONABLE_CATEGORIES = filter (\<lambda>c. c \<noteq> ''regulation_other'') NEWS_CATEGORIES"

definition ACTIONABLE_RECORD_KINDS :: "string list" where
  "ACTIONABLE_RECORD_KINDS = [''FACT_EVENT'', ''OFFICIAL_CLAIM'']"

definition CATEGORY_TOPICS :: "(string \<times> string list) list" where
  "CATEGORY_TOPICS =
     [(''rates_fed'', [''rates_fed'']), (''inflation_employment'', [''inflation'', ''employment'']),
      (''growth_economy'', [''growth_economy'']), (''usd_liquidity'', [''usd_liquidity'']),
      (''oil_energy'', [''oil_energy'']), (''war_geopolitics'', [''war_geopolitics'']),
      (''central_bank_gold'', [''central_bank_gold'']), (''risk_sentiment'', [''risk_sentiment'']),
      (''regulation_other'', [''other''])]"

definition effective_record_kind :: "platform \<Rightarrow> (string \<times> json) list \<Rightarrow> string" where
  "effective_record_kind P annotation =
     (let declared = upper (str_or_empty P (jget annotation ''record_kind'')) in
      if declared \<in> set RECORD_KINDS then declared else ''BACKGROUND'')"

text \<open>The values of \<open>secondary_categories\<close>, which is iterated: a text by its characters, an object by its keys.\<close>

definition iterated :: "json \<Rightarrow> json list outcome" where
  "iterated v =
     (if \<not> truthy v then Inr []
      else case v of
        JList xs \<Rightarrow> Inr xs
      | JStr s \<Rightarrow> Inr (map (\<lambda>c. JStr [c]) s)
      | JObj d \<Rightarrow> Inr (map (JStr \<circ> fst) d)
      | _ \<Rightarrow> Inl (OtherError ''TypeError''))"

definition annotation_topics :: "platform \<Rightarrow> (string \<times> json) list \<Rightarrow> string list outcome" where
  "annotation_topics P annotation =
     bind_out (iterated (jget annotation ''secondary_categories'')) (\<lambda>secondary.
       let topics = concat (map (\<lambda>c. case map_of CATEGORY_TOPICS (py_str P c) of None \<Rightarrow> [] | Some ts \<Rightarrow> ts)
                      (jget annotation ''primary_category'' # secondary))
       in Inr (dedupe (if topics = [] then [''other''] else topics)))"

section \<open>The spans a repair may choose\<close>

text \<open>The last end, at least 20 characters in, of a full stop before white space or the end of the window.\<close>

definition is_stop :: "char \<Rightarrow> bool" where
  "is_stop c \<longleftrightarrow> c \<in> set ''.!?;''"

definition boundary_ends :: "string \<Rightarrow> nat list" where
  "boundary_ends w =
     concat (map (\<lambda>i. if is_stop (w ! i)
                      then (if i + 1 = length w then [i + 1] else if is_space (w ! (i + 1)) then [i + 2] else [])
                      else [])
       [0..<length w])"

definition last_index :: "char \<Rightarrow> string \<Rightarrow> nat option" where
  "last_index c w = find (\<lambda>i. w ! i = c) (rev [0..<length w])"

definition span_length :: "string \<Rightarrow> nat" where
  "span_length w =
     (case rev (filter (\<lambda>e. 20 \<le> e) (boundary_ends w)) of
        e # _ \<Rightarrow> e
      | [] \<Rightarrow>
          (let space = max (case last_index (CHR '' '') w of None \<Rightarrow> 0 | Some i \<Rightarrow> i)
                           (case last_index (CHR 0x0A) w of None \<Rightarrow> 0 | Some i \<Rightarrow> i)
           in if 20 \<le> space then space else length w))"

definition EVIDENCE_SPAN_CHARACTERS :: nat where "EVIDENCE_SPAN_CHARACTERS = 220"
definition MAX_EVIDENCE_CANDIDATES :: nat where "MAX_EVIDENCE_CANDIDATES = 384"

text \<open>The source from the cursor on; white space before a span is skipped.\<close>

function evidence_spans :: "nat \<Rightarrow> nat \<Rightarrow> string \<Rightarrow> string list" where
  "evidence_spans limit room s =
     (let text = dropWhile is_space s in
      if text = [] \<or> room = 0 then []
      else (let window = take limit text;
                n = (if limit < length text then span_length window else length text);
                excerpt = strip (take n text)
            in (if 4 \<le> length excerpt then [excerpt] else []) @
               evidence_spans limit (if 4 \<le> length excerpt then room - 1 else room) (drop (max n 1) text)))"
  by pat_completeness auto
termination
proof (relation "measure (\<lambda>(limit, room, s). length s)", goal_cases)
  case (2 limit room s t w n e)
  have "t \<noteq> []" using 2(2) by simp
  then have "length (drop (max n 1) t) < length t" by (cases t) auto
  also have "\<dots> \<le> length s" unfolding 2(1) by (rule length_dropWhile_le)
  finally show ?case by simp
qed simp

declare evidence_spans.simps [simp del]

text \<open>\<open>f"E{number:03d}"\<close>.\<close>

definition candidate_id :: "nat \<Rightarrow> string" where
  "candidate_id n = (let d = nat_digits n in CHR ''E'' # replicate (3 - length d) (CHR ''0'') @ d)"

definition source_evidence_candidates :: "string \<Rightarrow> string \<Rightarrow> (string \<times> string) list outcome" where
  "source_evidence_candidates headline body =
     (let spans = evidence_spans EVIDENCE_SPAN_CHARACTERS MAX_EVIDENCE_CANDIDATES
                    (canonical_annotation_source_text headline body)
      in if spans = [] then Inl (ValueError ''source has no bounded evidence candidates'')
         else Inr (map (\<lambda>(i, e). (candidate_id (i + 1), e)) (enumerate 0 spans)))"

text \<open>The answer of the repair, once it has been decoded to an object.\<close>

definition text_of_json :: "json \<Rightarrow> string option" where
  "text_of_json v = (case v of JStr s \<Rightarrow> Some s | _ \<Rightarrow> None)"

definition decode_evidence_anchor_selection ::
    "(string \<times> json) list \<Rightarrow> (string \<times> string) list \<Rightarrow> string list outcome" where
  "decode_evidence_anchor_selection result candidates =
     (case jget result ''evidence_ids'' of
        JList ids \<Rightarrow>
          if \<not> (1 \<le> length ids \<and> length ids \<le> 3) then Inl (ValueError ''evidence repair returned an invalid ID count'')
          else (case traverse text_of_json ids of
                  None \<Rightarrow> Inl (ValueError ''evidence repair returned a non-string ID'')
                | Some names \<Rightarrow>
                    if \<not> distinct names then Inl (ValueError ''evidence repair returned duplicate IDs'')
                    else (case traverse (map_of candidates) names of
                            None \<Rightarrow> Inl (ValueError ''evidence repair returned an unknown ID'')
                          | Some excerpts \<Rightarrow> Inr excerpts))
      | _ \<Rightarrow> Inl (ValueError ''evidence repair returned an invalid ID count''))"

section \<open>A part of a text, normalized, is a part of the normalized text\<close>

lemma join_append: "xs \<noteq> [] \<Longrightarrow> ys \<noteq> [] \<Longrightarrow> join sep (xs @ ys) = join sep xs @ sep @ join sep ys"
proof (induction xs)
  case (Cons x xs)
  then show ?case by (cases xs; cases ys) auto
qed simp

lemma join_around: "\<exists>a b. join sep (xs @ ms @ ys) = a @ join sep ms @ b"
proof (cases "ms = []")
  case False
  have 1: "\<exists>b. join sep (ms @ ys) = join sep ms @ b" using False by (cases "ys = []") (simp_all add: join_append)
  have "\<exists>a. join sep (xs @ ms @ ys) = a @ join sep (ms @ ys)"
    using False by (cases "xs = []") (simp_all add: join_append)
  then obtain a b where "join sep (ms @ ys) = join sep ms @ b" "join sep (xs @ ms @ ys) = a @ join sep (ms @ ys)"
    using 1 by blast
  then show ?thesis by (intro exI [of _ a] exI [of _ b]) simp
next
  case True
  then show ?thesis by (intro exI [of _ "join sep (xs @ ys)"] exI [of _ "[]"]) simp
qed

lemma join_extend_first: "join sep ((p @ v) # vs) = p @ join sep (v # vs)"
  by (cases vs) simp_all

lemma join_extend_last: "join sep (zs @ [l @ q]) = join sep (zs @ [l]) @ q"
  by (cases "zs = []") (simp_all add: join_append)

lemma split_from_word: "u \<noteq> [] \<Longrightarrow> \<exists>q rest. split_ws_acc u b = (rev u @ q) # rest"
proof (induction b arbitrary: u)
  case (Cons c b)
  then show ?case using Cons.IH [of "c # u"] by auto
qed simp

lemma split_more:
  "split_ws_acc u x \<noteq> [] \<Longrightarrow>
    \<exists>q rest. split_ws_acc u (x @ b) = butlast (split_ws_acc u x) @ (last (split_ws_acc u x) @ q) # rest"
proof (induction x arbitrary: u)
  case Nil
  then show ?case using split_from_word [of u b] by (auto split: if_splits)
next
  case (Cons c x)
  show ?case
  proof (cases "is_space c \<and> u \<noteq> []")
    case True
    show ?thesis
    proof (cases "split_ws_acc [] x = []")
      case e: True
      then show ?thesis using True by (intro exI [of _ "[]"] exI [of _ "split_ws_acc [] (x @ b)"]) simp
    next
      case False
      then show ?thesis using Cons.IH [of "[]"] True by auto
    qed
  next
    case False
    then show ?thesis using Cons by (auto split: if_splits)
  qed
qed

lemma split_prefix: "\<exists>ws u'. \<forall>y. split_ws_acc u (a @ y) = ws @ split_ws_acc u' y"
proof (induction a arbitrary: u)
  case Nil
  show ?case by (rule exI [of _ "[]"], rule exI [of _ u]) simp
next
  case (Cons c a)
  let ?u = "if is_space c then [] else c # u"
  obtain ws u' where "\<forall>y. split_ws_acc ?u (a @ y) = ws @ split_ws_acc u' y" using Cons.IH [of ?u] by blast
  then show ?case
    by (intro exI [of _ "(if is_space c \<and> u \<noteq> [] then [rev u] else []) @ ws"] exI [of _ u']) (auto split: if_splits)
qed

lemma split_later: "split_ws_acc t y = v # vs \<Longrightarrow> \<exists>ws p. split_ws_acc (t @ w) y = ws @ (p @ v) # vs"
proof (induction y arbitrary: t)
  case Nil
  then show ?case by (intro exI [of _ "[]"] exI [of _ "rev w"]) (auto split: if_splits)
next
  case (Cons c y)
  show ?case
  proof (cases "is_space c")
    case True
    show ?thesis
    proof (cases "t = []")
      case True
      then have "split_ws_acc (t @ w) (c # y) = (if w = [] then [] else [rev w]) @ ([] @ v) # vs"
        using Cons.prems \<open>is_space c\<close> by simp
      then show ?thesis by blast
    next
      case False
      then have "split_ws_acc (t @ w) (c # y) = [] @ (rev w @ v) # vs" using Cons.prems True by auto
      then show ?thesis by blast
    qed
  next
    case False
    then show ?thesis using Cons.IH [of "c # t"] Cons.prems by simp
  qed
qed

lemma collapse_part: "contains x s \<Longrightarrow> contains (collapse x) (collapse s)"
proof -
  assume "contains x s"
  then obtain a b where s: "s = a @ x @ b" by (auto simp: contains_iff)
  show ?thesis
  proof (cases "split_ws x = []")
    case True
    then show ?thesis by (cases "collapse s") (simp_all add: collapse_def)
  next
    case False
    let ?ws = "split_ws x"
    obtain q rest where xb: "split_ws (x @ b) = butlast ?ws @ (last ?ws @ q) # rest"
      using split_more [of "[]" x b] False by (auto simp: split_ws_def)
    have "\<exists>r. join '' '' (split_ws (x @ b)) = join '' '' ?ws @ r"
    proof -
      have "join '' '' (split_ws (x @ b)) = join '' '' ((butlast ?ws @ [last ?ws @ q]) @ rest)" by (simp add: xb)
      moreover have "\<exists>r. join '' '' ((butlast ?ws @ [last ?ws @ q]) @ rest) = join '' '' (butlast ?ws @ [last ?ws @ q]) @ r"
        by (cases "rest = []") (simp_all add: join_append del: append_assoc)
      ultimately show ?thesis using False by (auto simp: join_extend_last)
    qed
    then obtain r where r: "join '' '' (split_ws (x @ b)) = join '' '' ?ws @ r" by blast
    obtain v vs where v: "split_ws (x @ b) = v # vs" using xb by (metis append_is_Nil_conv list.distinct(1) neq_Nil_conv)
    obtain ws u where "split_ws s = ws @ split_ws_acc u (x @ b)"
      using split_prefix [of "[]" a] unfolding s split_ws_def by blast
    moreover obtain ws' p where "split_ws_acc u (x @ b) = ws' @ (p @ v) # vs"
      using split_later [of "[]" "x @ b" v vs u] v by (auto simp: split_ws_def)
    ultimately have "collapse s = join '' '' ((ws @ ws') @ ((p @ v) # vs) @ [])" by (simp add: collapse_def)
    then obtain l e where "collapse s = l @ join '' '' ((p @ v) # vs) @ e" using join_around by metis
    then have "collapse s = (l @ p) @ collapse x @ (r @ e)"
      using r v by (simp add: join_extend_first collapse_def)
    then show ?thesis unfolding contains_iff by blast
  qed
qed

lemma normalized_part: "contains x s \<Longrightarrow> contains (normalized x) (normalized s)"
  using collapse_part [of x s] by (fastforce simp: contains_iff normalized_def casefold_def)

lemma contains_trans: "contains x y \<Longrightarrow> contains y z \<Longrightarrow> contains x z"
proof -
  assume "contains x y" "contains y z"
  then obtain a b c d where "y = a @ x @ b" "z = c @ y @ d" by (auto simp: contains_iff)
  then have "z = (c @ a) @ x @ (b @ d)" by simp
  then show ?thesis unfolding contains_iff by blast
qed

lemma contains_take: "contains (take n s) s"
  unfolding contains_iff by (metis append_Nil append_take_drop_id)

lemma contains_drop: "contains (drop n s) s"
  unfolding contains_iff by (metis append_Nil2 append_take_drop_id)

lemma contains_strip: "contains (strip s) s"
proof -
  have a: "s = takeWhile is_space s @ dropWhile is_space s" by simp
  let ?t = "dropWhile is_space s"
  have "rev ?t = takeWhile is_space (rev ?t) @ dropWhile is_space (rev ?t)" by simp
  then have "?t = strip s @ rev (takeWhile is_space (rev ?t))"
    unfolding strip_def by (metis rev_append rev_rev_ident)
  then have "s = takeWhile is_space s @ strip s @ rev (takeWhile is_space (rev ?t))" using a by metis
  then show ?thesis unfolding contains_iff by blast
qed

section \<open>What a valid annotation says\<close>

lemma fold_out_unit_iff: "fold_out (\<lambda>x _. f x) xs () = Inr () \<longleftrightarrow> (\<forall>x \<in> set xs. f x = Inr ())"
proof (induction xs)
  case (Cons x xs)
  have "bind_out (f x) (fold_out (\<lambda>x _. f x) xs) = Inr () \<longleftrightarrow> f x = Inr () \<and> fold_out (\<lambda>x _. f x) xs () = Inr ()"
    by (cases "f x") simp_all
  then show ?case using Cons.IH by simp
qed simp

lemma check_text_Inr:
  "check_text name lo hi values v = Inr () \<longleftrightarrow>
    (\<exists>s. v = JStr s \<and> at_least lo (length s) \<and> at_most hi (length s) \<and> among values s)"
  by (cases v) (auto simp: check_text_def)

lemma check_item_Inr:
  "check_item name (TextItem lo hi values) v = Inr () \<longleftrightarrow>
    (\<exists>s. v = JStr s \<and> at_least lo (length s) \<and> at_most hi (length s) \<and> among values s)"
  by (cases v) (auto simp: check_item_def)

lemma check_array_Inr:
  "check_array P name lo hi item unique v = Inr () \<longleftrightarrow>
    (\<exists>xs. v = JList xs \<and> at_least lo (length xs) \<and> at_most hi (length xs) \<and>
      (\<forall>x \<in> set xs. check_item name item x = Inr ()) \<and> (unique \<longrightarrow> distinct (map (fingerprint_of P) xs)))"
proof (cases v)
  case (JList xs)
  have "bind_out (fold_out (\<lambda>x _. check_item name item x) xs ()) (\<lambda>_. if c then Inl e else Inr ()) = Inr () \<longleftrightarrow>
      (\<forall>x \<in> set xs. check_item name item x = Inr ()) \<and> \<not> c" for c e
    using fold_out_unit_iff [of "check_item name item" xs]
    by (cases "fold_out (\<lambda>x _. check_item name item x) xs ()") (auto split: if_splits)
  then show ?thesis using JList by (auto simp: check_array_def)
qed (simp_all add: check_array_def)

lemma check_number_Inr:
  "check_number name lo hi v = Inr () \<Longrightarrow>
    \<exists>x. numeral_value v = Some (Finite x) \<and> of_int lo \<le> x \<and> x \<le> of_int hi"
  by (cases v; cases "the (numeral_value v)") (auto simp: check_number_def Let_def split: if_splits)

lemma validate_Inr:
  "validate_news_annotation P prompt source annotation = Inr () \<longleftrightarrow>
    (\<exists>sc. news_annotation_schema prompt = Inr sc \<and> set (sc_required sc) \<subseteq> fst ` set annotation \<and>
      fst ` set annotation \<subseteq> fst ` set (sc_properties sc) \<and>
      (\<forall>p \<in> set (sc_properties sc). check_property P annotation p = Inr ()) \<and>
      jget annotation ''primary_category'' \<notin> set (items_of annotation ''secondary_categories'') \<and>
      (prompt \<in> set SEMANTIC_NEWS_PROMPT_VERSIONS \<longrightarrow>
        (\<exists>text. source = Some text \<and>
          (\<forall>x \<in> set (items_of annotation ''supporting_evidence''). check_excerpt text x = Inr ()))))"
proof (cases "news_annotation_schema prompt")
  case (Inr sc)
  let ?checks = "fold_out (\<lambda>p _. check_property P annotation p) (sc_properties sc) ()"
  have keys: "filter (\<lambda>f. f \<notin> set (dedupe (map fst annotation))) (sc_required sc) = [] \<longleftrightarrow>
      set (sc_required sc) \<subseteq> fst ` set annotation"
    "filter (\<lambda>k. k \<notin> fst ` set (sc_properties sc)) (dedupe (map fst annotation)) = [] \<longleftrightarrow>
      fst ` set annotation \<subseteq> fst ` set (sc_properties sc)"
    by (auto simp: filter_empty_conv set_dedupe)
  show ?thesis
    using fold_out_unit_iff [of "check_property P annotation" "sc_properties sc"]
      fold_out_unit_iff [of "check_excerpt (the source)" "items_of annotation ''supporting_evidence''"]
    unfolding validate_news_annotation_def Inr bind_out_simps Let_def keys
    by (cases ?checks; cases source) (auto split: if_splits)
qed (simp add: validate_news_annotation_def)

lemma display_rules_mem:
  "(name, rule) \<in> set fs \<Longrightarrow> name \<notin> set FREE_DISPLAY_FIELDS \<Longrightarrow> (name, rule) \<in> set (display_rules prompt fs)"
  by (induction fs) (auto simp: display_rules_def)

lemma display_rules_names: "fst ` set (display_rules prompt fs) = fst ` set fs"
  by (force simp: display_rules_def)

lemma schema_semantic:
  assumes "prompt \<in> set SEMANTIC_NEWS_PROMPT_VERSIONS" "news_annotation_schema prompt = Inr sc"
  shows "set (sc_required sc) = fst ` set (base_properties @ AI_SEMANTIC_FIELDS)"
    "(name, rule) \<in> set (base_properties @ AI_SEMANTIC_FIELDS) \<Longrightarrow> name \<notin> set FREE_DISPLAY_FIELDS \<Longrightarrow>
      (name, rule) \<in> set (sc_properties sc)"
    "sc_properties sc = display_rules prompt (base_properties @ AI_SEMANTIC_FIELDS) @ SELECTION_SCHEMA"
proof -
  have sc: "sc = \<lparr>sc_required = map fst (base_properties @ AI_SEMANTIC_FIELDS),
      sc_properties = display_rules prompt (base_properties @ AI_SEMANTIC_FIELDS) @ SELECTION_SCHEMA\<rparr>"
    using assms unfolding news_annotation_schema_def Let_def by simp
  show "set (sc_required sc) = fst ` set (base_properties @ AI_SEMANTIC_FIELDS)" by (simp add: sc image_Un)
  show props: "sc_properties sc = display_rules prompt (base_properties @ AI_SEMANTIC_FIELDS) @ SELECTION_SCHEMA"
    by (simp add: sc)
  show "(name, rule) \<in> set (sc_properties sc)"
    if "(name, rule) \<in> set (base_properties @ AI_SEMANTIC_FIELDS)" "name \<notin> set FREE_DISPLAY_FIELDS"
    unfolding props set_append using display_rules_mem [OF that] by blast
qed

lemma semantic_rules:
  "(''primary_category'', text_of NEWS_CATEGORIES) \<in> set base_properties"
  "(''secondary_categories'', ArrayField None (Some 2) (TextItem None None (Some NEWS_CATEGORIES)) True) \<in> set base_properties"
  "(''supporting_evidence'', ArrayField (Some 1) (Some 3) (TextItem (Some 4) (Some 240) None) True) \<in> set AI_SEMANTIC_FIELDS"
  "(''hawkishness'', NumberField (- 1) 1) \<in> set base_properties"
  "(''inflation_impulse'', NumberField (- 1) 1) \<in> set base_properties"
  "(''growth_impulse'', NumberField (- 1) 1) \<in> set base_properties"
  "(''geopolitical_risk'', NumberField (- 1) 1) \<in> set base_properties"
  "(''usd_impulse'', NumberField (- 1) 1) \<in> set base_properties"
  "(''novelty'', NumberField 0 1) \<in> set base_properties"
  "(''materiality'', NumberField 0 1) \<in> set base_properties" "(''confidence'', NumberField 0 1) \<in> set base_properties"
  by (simp_all add: base_properties_def AI_SEMANTIC_FIELDS_def)

text \<open>The other fields whose text is one of a controlled list.\<close>

lemma semantic_choices:
  "(''record_kind'', text_of [''FACT_EVENT'', ''OFFICIAL_CLAIM'', ''MARKET_REACTION'', ''COMMENTARY_FORECAST'',
     ''BACKGROUND'']) \<in> set base_properties"
  "(''evidence_role'', text_of [''CORE_CLAIM'', ''EVIDENCE_DOCUMENT'', ''MARKET_REACTION'', ''COMMENTARY'',
     ''BACKGROUND'']) \<in> set base_properties"
  "(''xauusd_relevance'', text_of [''DIRECT'', ''MACRO_DRIVER'', ''CONTEXT_ONLY'', ''IRRELEVANT'']) \<in> set AI_SEMANTIC_FIELDS"
  "(''review_priority'', text_of [''IMMEDIATE'', ''FAST'', ''NORMAL'', ''BACKGROUND'']) \<in> set AI_SEMANTIC_FIELDS"
  "(''material_change'', text_of [''NEW_EVENT'', ''MATERIAL_UPDATE'', ''DUPLICATE_REPORT'', ''COMMENTARY'',
     ''HISTORICAL_CONTEXT'']) \<in> set AI_SEMANTIC_FIELDS"
  by (simp_all add: base_properties_def AI_SEMANTIC_FIELDS_def RECORD_KINDS_def EVIDENCE_ROLES_def)

lemma valid_rule:
  assumes "validate_news_annotation P prompt source annotation = Inr ()" "prompt \<in> set SEMANTIC_NEWS_PROMPT_VERSIONS"
    "(name, rule) \<in> set (base_properties @ AI_SEMANTIC_FIELDS)" "name \<notin> set FREE_DISPLAY_FIELDS" "name \<notin> set SELECTION_FIELDS"
  shows "\<exists>v. map_of annotation name = Some v \<and> check_rule P name rule v = Inr ()"
proof -
  from assms(1) obtain sc where sc: "news_annotation_schema prompt = Inr sc"
    "\<forall>p \<in> set (sc_properties sc). check_property P annotation p = Inr ()" by (auto simp: validate_Inr)
  have "check_property P annotation (name, rule) = Inr ()" using sc schema_semantic(2) [OF assms(2)] assms(3,4) by blast
  then show ?thesis using assms(5) by (simp add: check_property_def split: option.splits if_splits)
qed

lemma grounded_fields:
  assumes "prompt \<in> set SEMANTIC_NEWS_PROMPT_VERSIONS"
    "validate_news_annotation P prompt source annotation = Inr ()"
  shows "fst ` set (base_properties @ AI_SEMANTIC_FIELDS) \<subseteq> fst ` set annotation"
    and "fst ` set annotation \<subseteq> fst ` set (base_properties @ AI_SEMANTIC_FIELDS) \<union> set SELECTION_FIELDS"
    and "\<exists>category secondary. map_of annotation ''primary_category'' = Some (JStr category) \<and>
      map_of annotation ''secondary_categories'' = Some (JList (map JStr secondary)) \<and> length secondary \<le> 2 \<and>
      distinct (category # secondary) \<and> set (category # secondary) \<subseteq> set NEWS_CATEGORIES"
    and "\<forall>name \<in> {''hawkishness'', ''inflation_impulse'', ''growth_impulse'', ''geopolitical_risk'', ''usd_impulse''}.
      \<exists>x. numeral_value (jget annotation name) = Some (Finite x) \<and> - 1 \<le> x \<and> x \<le> 1"
    and "\<forall>name \<in> {''materiality'', ''novelty'', ''confidence''}.
      \<exists>x. numeral_value (jget annotation name) = Some (Finite x) \<and> 0 \<le> x \<and> x \<le> 1"
    and "\<forall>(name, choices) \<in> {
        (''record_kind'', [''FACT_EVENT'', ''OFFICIAL_CLAIM'', ''MARKET_REACTION'', ''COMMENTARY_FORECAST'', ''BACKGROUND'']),
        (''evidence_role'', [''CORE_CLAIM'', ''EVIDENCE_DOCUMENT'', ''MARKET_REACTION'', ''COMMENTARY'', ''BACKGROUND'']),
        (''xauusd_relevance'', [''DIRECT'', ''MACRO_DRIVER'', ''CONTEXT_ONLY'', ''IRRELEVANT'']),
        (''review_priority'', [''IMMEDIATE'', ''FAST'', ''NORMAL'', ''BACKGROUND'']),
        (''material_change'', [''NEW_EVENT'', ''MATERIAL_UPDATE'', ''DUPLICATE_REPORT'', ''COMMENTARY'', ''HISTORICAL_CONTEXT''])}.
      \<exists>choice \<in> set choices. map_of annotation name = Some (JStr choice)"
    and "\<exists>text excerpts. source = Some text \<and>
      map_of annotation ''supporting_evidence'' = Some (JList (map JStr excerpts)) \<and>
      1 \<le> length excerpts \<and> length excerpts \<le> 3 \<and> distinct excerpts \<and>
      (\<forall>e \<in> set excerpts. 4 \<le> length e \<and> length e \<le> 240 \<and> contains (normalized e) (normalized text))"
proof -
  note free = FREE_DISPLAY_FIELDS_def and sel = SELECTION_FIELDS_def
  obtain sc where sc: "news_annotation_schema prompt = Inr sc" "set (sc_required sc) \<subseteq> fst ` set annotation"
    "fst ` set annotation \<subseteq> fst ` set (sc_properties sc)"
    "jget annotation ''primary_category'' \<notin> set (items_of annotation ''secondary_categories'')"
    "\<exists>text. source = Some text \<and> (\<forall>x \<in> set (items_of annotation ''supporting_evidence''). check_excerpt text x = Inr ())"
    using assms by (auto simp: validate_Inr)
  show "fst ` set (base_properties @ AI_SEMANTIC_FIELDS) \<subseteq> fst ` set annotation"
    using sc(2) schema_semantic(1) [OF assms(1) sc(1)] by simp
  have "fst ` set SELECTION_SCHEMA = set SELECTION_FIELDS" by (simp add: SELECTION_SCHEMA_def image_image)
  then show "fst ` set annotation \<subseteq> fst ` set (base_properties @ AI_SEMANTIC_FIELDS) \<union> set SELECTION_FIELDS"
    using sc(3) unfolding schema_semantic(3) [OF assms(1) sc(1)]
    by (simp only: set_append [of "display_rules prompt _"] image_Un [of _ "set (display_rules prompt _)"] display_rules_names)
  note rule = valid_rule [OF assms(2,1)]
  have strings: "\<exists>ss. xs = map JStr ss" if "\<forall>x \<in> set xs. \<exists>s. x = JStr s" for xs
    using that by (induction xs) (auto intro: exI [of _ "_ # _"])
  obtain category where c: "map_of annotation ''primary_category'' = Some (JStr category)" "category \<in> set NEWS_CATEGORIES"
    using rule [of "''primary_category''" "text_of NEWS_CATEGORIES"] semantic_rules(1)
    by (auto simp: free sel text_of_def check_text_Inr among_def)
  obtain xs where xs: "map_of annotation ''secondary_categories'' = Some (JList xs)" "length xs \<le> 2"
    "\<forall>x \<in> set xs. \<exists>s. x = JStr s \<and> s \<in> set NEWS_CATEGORIES" "distinct xs"
    using rule [OF _ _ _, of "''secondary_categories''"] semantic_rules(2)
    by (fastforce simp: free sel check_array_Inr check_item_Inr among_def at_most_def distinct_map)
  then obtain secondary where s: "xs = map JStr secondary" using strings by blast
  have "category \<notin> set secondary" using sc(4) c xs(1) s by (auto simp: jget_def items_of_def)
  then show "\<exists>category secondary. map_of annotation ''primary_category'' = Some (JStr category) \<and>
      map_of annotation ''secondary_categories'' = Some (JList (map JStr secondary)) \<and> length secondary \<le> 2 \<and>
      distinct (category # secondary) \<and> set (category # secondary) \<subseteq> set NEWS_CATEGORIES"
    using c xs s by (intro exI [of _ category] exI [of _ secondary]) (auto simp: distinct_map)
  have num: "\<exists>x. numeral_value (jget annotation name) = Some (Finite x) \<and> of_int lo \<le> x \<and> x \<le> of_int hi"
    if "(name, NumberField lo hi) \<in> set base_properties" "name \<notin> set FREE_DISPLAY_FIELDS" "name \<notin> set SELECTION_FIELDS"
    for name lo hi
    using rule [of name "NumberField lo hi"] that check_number_Inr by (fastforce simp: jget_def)
  show "\<forall>name \<in> {''hawkishness'', ''inflation_impulse'', ''growth_impulse'', ''geopolitical_risk'', ''usd_impulse''}.
      \<exists>x. numeral_value (jget annotation name) = Some (Finite x) \<and> - 1 \<le> x \<and> x \<le> 1"
    using num [OF semantic_rules(4)] num [OF semantic_rules(5)] num [OF semantic_rules(6)] num [OF semantic_rules(7)]
      num [OF semantic_rules(8)] by (simp add: free sel)
  show "\<forall>name \<in> {''materiality'', ''novelty'', ''confidence''}.
      \<exists>x. numeral_value (jget annotation name) = Some (Finite x) \<and> 0 \<le> x \<and> x \<le> 1"
    using num [OF semantic_rules(9)] num [OF semantic_rules(10)] num [OF semantic_rules(11)] by (simp add: free sel)
  have choice: "\<exists>choice \<in> set choices. map_of annotation name = Some (JStr choice)"
    if "(name, text_of choices) \<in> set (base_properties @ AI_SEMANTIC_FIELDS)" "name \<notin> set FREE_DISPLAY_FIELDS"
      "name \<notin> set SELECTION_FIELDS" for name choices
    using rule [OF that] by (auto simp: text_of_def check_text_Inr among_def)
  show "\<forall>(name, choices) \<in> {
        (''record_kind'', [''FACT_EVENT'', ''OFFICIAL_CLAIM'', ''MARKET_REACTION'', ''COMMENTARY_FORECAST'', ''BACKGROUND'']),
        (''evidence_role'', [''CORE_CLAIM'', ''EVIDENCE_DOCUMENT'', ''MARKET_REACTION'', ''COMMENTARY'', ''BACKGROUND'']),
        (''xauusd_relevance'', [''DIRECT'', ''MACRO_DRIVER'', ''CONTEXT_ONLY'', ''IRRELEVANT'']),
        (''review_priority'', [''IMMEDIATE'', ''FAST'', ''NORMAL'', ''BACKGROUND'']),
        (''material_change'', [''NEW_EVENT'', ''MATERIAL_UPDATE'', ''DUPLICATE_REPORT'', ''COMMENTARY'', ''HISTORICAL_CONTEXT''])}.
      \<exists>choice \<in> set choices. map_of annotation name = Some (JStr choice)"
    using choice [unfolded set_append, OF UnI1, OF semantic_choices(1)]
      choice [unfolded set_append, OF UnI1, OF semantic_choices(2)]
      choice [unfolded set_append, OF UnI2, OF semantic_choices(3)]
      choice [unfolded set_append, OF UnI2, OF semantic_choices(4)]
      choice [unfolded set_append, OF UnI2, OF semantic_choices(5)]
    by (simp add: free sel)
  obtain es where es: "map_of annotation ''supporting_evidence'' = Some (JList es)" "1 \<le> length es" "length es \<le> 3"
    "\<forall>x \<in> set es. \<exists>s. x = JStr s \<and> 4 \<le> length s \<and> length s \<le> 240" "distinct es"
    using rule [OF _ _ _, of "''supporting_evidence''"] semantic_rules(3)
    by (fastforce simp: free sel check_array_Inr check_item_Inr at_least_def at_most_def distinct_map)
  then obtain excerpts where e: "es = map JStr excerpts" using strings by blast
  obtain src where src: "source = Some src" "\<forall>x \<in> set es. check_excerpt src x = Inr ()"
    using sc(5) es(1) by (auto simp: items_of_def)
  have "\<forall>e \<in> set excerpts. 4 \<le> length e \<and> length e \<le> 240 \<and> contains (normalized e) (normalized src)"
    using es(4) src(2) unfolding e by (auto simp: check_excerpt_def split: if_splits)
  then show "\<exists>text excerpts. source = Some text \<and>
      map_of annotation ''supporting_evidence'' = Some (JList (map JStr excerpts)) \<and>
      1 \<le> length excerpts \<and> length excerpts \<le> 3 \<and> distinct excerpts \<and>
      (\<forall>e \<in> set excerpts. 4 \<le> length e \<and> length e \<le> 240 \<and> contains (normalized e) (normalized text))"
    using es e src(1) by (intro exI [of _ src] exI [of _ excerpts]) (auto simp: distinct_map)
qed

text \<open>
  C30: A validated annotation is controlled and grounded. Under every semantic prompt it has exactly the fields of
  the schema (the segment selections are optional), one controlled category, at most two further ones, all
  different from it, a record kind, evidence role, relevance, review priority and material change of the controlled
  lists, its five signed scores between -1 and 1 and its three unsigned ones between 0 and 1, and one to three
  different excerpts of 4 to 240 characters, each of which stands in the source up to case and white space.
\<close>

theorem valid_annotations_are_grounded:
  assumes "prompt \<in> set SEMANTIC_NEWS_PROMPT_VERSIONS"
    "validate_news_annotation P prompt source annotation = Inr ()"
  shows "fst ` set (base_properties @ AI_SEMANTIC_FIELDS) \<subseteq> fst ` set annotation \<and>
    fst ` set annotation \<subseteq> fst ` set (base_properties @ AI_SEMANTIC_FIELDS) \<union> set SELECTION_FIELDS \<and>
    (\<exists>category secondary. map_of annotation ''primary_category'' = Some (JStr category) \<and>
      map_of annotation ''secondary_categories'' = Some (JList (map JStr secondary)) \<and> length secondary \<le> 2 \<and>
      distinct (category # secondary) \<and> set (category # secondary) \<subseteq> set NEWS_CATEGORIES) \<and>
    (\<forall>name \<in> {''hawkishness'', ''inflation_impulse'', ''growth_impulse'', ''geopolitical_risk'', ''usd_impulse''}.
      \<exists>x. numeral_value (jget annotation name) = Some (Finite x) \<and> - 1 \<le> x \<and> x \<le> 1) \<and>
    (\<forall>name \<in> {''materiality'', ''novelty'', ''confidence''}.
      \<exists>x. numeral_value (jget annotation name) = Some (Finite x) \<and> 0 \<le> x \<and> x \<le> 1) \<and>
    (\<forall>(name, choices) \<in> {
        (''record_kind'', [''FACT_EVENT'', ''OFFICIAL_CLAIM'', ''MARKET_REACTION'', ''COMMENTARY_FORECAST'', ''BACKGROUND'']),
        (''evidence_role'', [''CORE_CLAIM'', ''EVIDENCE_DOCUMENT'', ''MARKET_REACTION'', ''COMMENTARY'', ''BACKGROUND'']),
        (''xauusd_relevance'', [''DIRECT'', ''MACRO_DRIVER'', ''CONTEXT_ONLY'', ''IRRELEVANT'']),
        (''review_priority'', [''IMMEDIATE'', ''FAST'', ''NORMAL'', ''BACKGROUND'']),
        (''material_change'', [''NEW_EVENT'', ''MATERIAL_UPDATE'', ''DUPLICATE_REPORT'', ''COMMENTARY'', ''HISTORICAL_CONTEXT''])}.
      \<exists>choice \<in> set choices. map_of annotation name = Some (JStr choice)) \<and>
    (\<exists>text excerpts. source = Some text \<and>
      map_of annotation ''supporting_evidence'' = Some (JList (map JStr excerpts)) \<and>
      1 \<le> length excerpts \<and> length excerpts \<le> 3 \<and> distinct excerpts \<and>
      (\<forall>e \<in> set excerpts. 4 \<le> length e \<and> length e \<le> 240 \<and> contains (normalized e) (normalized text)))"
  by (intro conjI grounded_fields [OF assms])

section \<open>Cleanup keeps what is valid\<close>

text \<open>The positions of a folded text: in order, at most two of them on one character.\<close>

lemma casefold_char_length: "1 \<le> length (casefold_char c)" "length (casefold_char c) \<le> 2"
  by (auto simp: casefold_char_def Let_def)

definition fold_entries :: "nat \<Rightarrow> string \<Rightarrow> (nat \<times> nat) list" where
  "fold_entries n s = concat (map (\<lambda>(i, c). if isalnum c then map (\<lambda>f. (f, i)) (casefold_char c) else []) (enumerate n s))"

lemma fold_entries_simps:
  "fold_entries n [] = []"
  "fold_entries n (c # s) = (if isalnum c then map (\<lambda>f. (f, n)) (casefold_char c) else []) @ fold_entries (Suc n) s"
  by (simp_all add: fold_entries_def)

lemma alphanumeric_fold_entries: "alphanumeric_fold s = (map fst (fold_entries 0 s), map snd (fold_entries 0 s))"
  by (simp add: alphanumeric_fold_def fold_entries_def Let_def)

lemma positions_range: "e \<in> set (fold_entries n s) \<Longrightarrow> n \<le> snd e \<and> snd e < n + length s"
proof (induction s arbitrary: n)
  case (Cons c s)
  then consider "snd e = n" | "e \<in> set (fold_entries (Suc n) s)" by (auto simp: fold_entries_simps split: if_splits)
  then show ?case using Cons.IH [of "Suc n"] by cases auto
qed (simp add: fold_entries_simps)

lemma positions_sorted: "sorted (map snd (fold_entries n s))"
proof (induction s arbitrary: n)
  case (Cons c s)
  have "\<forall>e \<in> set (fold_entries (Suc n) s). n \<le> snd e" using positions_range [of _ "Suc n" s] by fastforce
  then show ?case using Cons.IH [of "Suc n"] by (auto simp: fold_entries_simps sorted_append comp_def map_replicate_const)
qed (simp add: fold_entries_simps)

lemma positions_step: "i + 2 < length (fold_entries n s) \<Longrightarrow> snd (fold_entries n s ! i) + 1 \<le> snd (fold_entries n s ! (i + 2))"
proof (induction s arbitrary: n i)
  case (Cons c s)
  let ?head = "if isalnum c then map (\<lambda>f. (f, n)) (casefold_char c) else []"
  let ?rest = "fold_entries (Suc n) s"
  have split: "fold_entries n (c # s) = ?head @ ?rest" by (rule fold_entries_simps)
  have h: "length ?head \<le> 2" using casefold_char_length(2) by simp
  show ?case
  proof (cases "i < length ?head")
    case True
    then have "snd ((?head @ ?rest) ! i) = n" by (simp add: nth_append split: if_splits)
    moreover have "(?head @ ?rest) ! (i + 2) = ?rest ! (i + 2 - length ?head)" using h by (simp add: nth_append)
    moreover have "?rest ! (i + 2 - length ?head) \<in> set ?rest" using Cons.prems h unfolding split by (intro nth_mem) auto
    ultimately show ?thesis using positions_range [of _ "Suc n" s] unfolding split by fastforce
  next
    case False
    then have "i + 2 - length ?head = i - length ?head + 2" by linarith
    then have "(?head @ ?rest) ! i = ?rest ! (i - length ?head)" "(?head @ ?rest) ! (i + 2) = ?rest ! (i - length ?head + 2)"
      using False by (simp_all only: nth_append) auto
    then show ?thesis using Cons.IH [of "i - length ?head" "Suc n"] Cons.prems False unfolding split by auto
  qed
qed (simp add: fold_entries_simps)

lemma positions_apart: "i + 2 * k < length (fold_entries n s) \<Longrightarrow> snd (fold_entries n s ! i) + k \<le> snd (fold_entries n s ! (i + 2 * k))"
proof (induction k)
  case (Suc k)
  then have "snd (fold_entries n s ! i) + k \<le> snd (fold_entries n s ! (i + 2 * k))" by simp
  also have "\<dots> + 1 \<le> snd (fold_entries n s ! (i + 2 * k + 2))" using Suc.prems by (intro positions_step) simp
  finally show ?case by simp
qed simp

lemma find_in_SomeD:
  assumes "find_in part s start = Some i"
  shows "i + length part \<le> length s"
proof -
  have "i \<in> set [start..<Suc (length s) - length part]" "starts_with part (drop i s)"
    using find_SomeD [OF assms [unfolded find_in_def]] by simp_all
  then show ?thesis by auto
qed

text \<open>Every excerpt of the cleanup is the excerpt itself, shortened at most, or a long enough part of the source.\<close>

lemma canonical_excerpt_cases:
  obtains (kept) "canonical_excerpt source limit e = e"
  | (cut) "canonical_excerpt source limit e = take limit e"
  | (found) span where "canonical_excerpt source limit e = take limit span" "contains span source" "8 \<le> length span"
proof -
  let ?folded = "fst (alphanumeric_fold e)" and ?es = "fold_entries 0 source"
  show ?thesis
  proof (cases "length ?folded < 16")
    case True
    then show ?thesis using cut by (simp add: canonical_excerpt_def alphanumeric_fold_entries Let_def)
  next
    case long: False
    show ?thesis
    proof (cases "find_in ?folded (map fst ?es) 0")
      case None
      then show ?thesis using long cut kept
        by (cases "contains (normalized e) (normalized source)")
          (simp_all add: canonical_excerpt_def alphanumeric_fold_entries [of source] Let_def)
    next
      case (Some start)
      show ?thesis
      proof (cases "find_in ?folded (map fst ?es) (start + 1)")
        case (Some again)
        then show ?thesis using long cut kept \<open>find_in ?folded (map fst ?es) 0 = Some start\<close>
          by (cases "contains (normalized e) (normalized source)")
            (simp_all add: canonical_excerpt_def alphanumeric_fold_entries [of source] Let_def)
      next
        case None
        let ?last = "start + length ?folded - 1"
        let ?span = "drop (map snd ?es ! start) (take (map snd ?es ! ?last + 1) source)"
        have eq: "canonical_excerpt source limit e = take limit ?span"
          using long None \<open>find_in ?folded (map fst ?es) 0 = Some start\<close>
          by (simp add: canonical_excerpt_def alphanumeric_fold_entries [of source] Let_def)
        have bound: "?last < length ?es" "start + 2 * 7 < length ?es" "start + 2 * 7 \<le> ?last"
          using find_in_SomeD [OF \<open>find_in ?folded (map fst ?es) 0 = Some start\<close>] long by auto
        have "snd (?es ! start) + 7 \<le> snd (?es ! (start + 2 * 7))" using positions_apart [of start 7 0 source] bound(2) by simp
        also have "\<dots> \<le> snd (?es ! ?last)"
        proof -
          have "?es ! ?last \<in> set ?es" "sorted (map snd ?es)" using bound(1) positions_sorted by auto
          then show ?thesis using sorted_nth_mono [of "map snd ?es" "start + 2 * 7" ?last] bound by simp
        qed
        finally have "snd (?es ! start) + 7 \<le> snd (?es ! ?last)" .
        moreover have "snd (?es ! ?last) < length source" using positions_range [of "?es ! ?last" 0 source] bound(1) by simp
        ultimately have "8 \<le> length ?span" using bound by simp
        moreover have "contains ?span source" using contains_trans [OF contains_drop contains_take] .
        ultimately show ?thesis using found eq by blast
      qed
    qed
  qed
qed

lemma set_field_simps:
  "map_of (set_field name v d) k = (if k = name \<and> map_of d k \<noteq> None then Some v else map_of d k)"
  "fst ` set (set_field name v d) = fst ` set d"
  by (induction d) (auto simp: set_field_def)

lemma secondary_from_kept:
  "distinct (kept @ ss) \<Longrightarrow> c \<notin> set ss \<Longrightarrow>
    secondary_from (JStr c) (map JStr kept) (map JStr ss) = map JStr (kept @ ss)"
proof (induction ss arbitrary: kept)
  case (Cons s ss)
  have "\<not> (py_equal (JStr s) (JStr c) \<or> list_ex (\<lambda>k. py_equal k (JStr s)) (map JStr kept))"
    using Cons.prems by (auto simp: list_ex_iff)
  moreover have "secondary_from (JStr c) (map JStr (kept @ [s])) (map JStr ss) = map JStr ((kept @ [s]) @ ss)"
    using Cons.prems by (intro Cons.IH) auto
  ultimately show ?case by simp
qed simp

lemma evidence_rule:
  assumes "prompt \<in> set SEMANTIC_NEWS_PROMPT_VERSIONS" "news_annotation_schema prompt = Inr sc"
    "(''supporting_evidence'', rule) \<in> set (sc_properties sc)"
  shows "rule = ArrayField (Some 1) (Some 3) (TextItem (Some 4) (Some 240) None) True"
proof -
  have "(''supporting_evidence'', rule) \<in> set (display_rules prompt (base_properties @ AI_SEMANTIC_FIELDS))"
    using assms(3) unfolding schema_semantic(3) [OF assms(1,2)] by (auto simp: SELECTION_SCHEMA_def SELECTION_FIELDS_def)
  then have "(''supporting_evidence'', rule) \<in> set (base_properties @ AI_SEMANTIC_FIELDS)"
    unfolding display_rules_def FREE_DISPLAY_FIELDS_def by (auto split: if_splits simp del: set_append map_append)
  then show ?thesis by (simp add: base_properties_def AI_SEMANTIC_FIELDS_def)
qed

lemma canonical_excerpt_valid:
  assumes "4 \<le> length e" "length e \<le> 240" "contains (normalized e) (normalized source)"
  shows "4 \<le> length (canonical_excerpt source 240 e) \<and> length (canonical_excerpt source 240 e) \<le> 240 \<and>
    contains (normalized (canonical_excerpt source 240 e)) (normalized source)"
proof (cases rule: canonical_excerpt_cases [of source 240 e])
  case (found span)
  have "contains (take 240 span) source" using contains_trans [OF contains_take found(2)] .
  then show ?thesis using found normalized_part by simp
qed (use assms in simp_all)

text \<open>
  The cleanup of an answer before its validation spoils nothing that was valid. The categories of a valid
  annotation stay as they are; each excerpt stays, or becomes the text of the source that it quotes, and keeps
  within its limits and in its source. What was valid is still valid, unless two excerpts have become one.
\<close>

theorem cleanup_keeps_valid_annotations:
  assumes "prompt \<in> set SEMANTIC_NEWS_PROMPT_VERSIONS"
    "validate_news_annotation P prompt (Some source) annotation = Inr ()"
    "distinct (map (fingerprint_of P)
      (items_of (canonicalize_active_annotation source 240 annotation) ''supporting_evidence''))"
  shows "validate_news_annotation P prompt (Some source) (canonicalize_active_annotation source 240 annotation) = Inr ()"
proof -
  note grounded = grounded_fields [OF assms(1,2)]
  obtain category secondary where c: "map_of annotation ''primary_category'' = Some (JStr category)"
    "map_of annotation ''secondary_categories'' = Some (JList (map JStr secondary))" "distinct (category # secondary)"
    using grounded(3) by blast
  obtain excerpts where e: "map_of annotation ''supporting_evidence'' = Some (JList (map JStr excerpts))"
    "1 \<le> length excerpts" "length excerpts \<le> 3"
    "\<forall>e \<in> set excerpts. 4 \<le> length e \<and> length e \<le> 240 \<and> contains (normalized e) (normalized source)"
    using grounded(7) by auto
  let ?canon = "canonical_excerpt source 240"
  define evidence where "evidence = map JStr (map ?canon excerpts)"
  let ?secondary = "JList (secondary_from (JStr category) [] (map JStr secondary))"
  let ?first = "set_field ''secondary_categories'' ?secondary annotation"
  have kept: "?secondary = JList (map JStr secondary)" using secondary_from_kept [of "[]" secondary category] c(3) by simp
  have first: "map_of ?first k = map_of annotation k" for k using kept c(2) by (simp add: set_field_simps)
  have canon: "canonicalize_active_annotation source 240 annotation = set_field ''supporting_evidence'' (JList evidence) ?first"
    using c(1,2) e(1) first by (simp add: canonicalize_active_annotation_def jget_def comp_def evidence_def)
  define result where "result = set_field ''supporting_evidence'' (JList evidence) ?first"
  have after: "map_of result k = (if k = ''supporting_evidence'' then Some (JList evidence) else map_of annotation k)" for k
    using e(1) by (simp add: result_def set_field_simps(1) [of _ _ ?first] first)
  have names: "fst ` set result = fst ` set annotation" by (simp only: result_def set_field_simps(2))
  note canon = canon [folded result_def]
  have limits: "4 \<le> length (?canon x) \<and> length (?canon x) \<le> 240 \<and> contains (normalized (?canon x)) (normalized source)"
    if "x \<in> set excerpts" for x using e(4) that canonical_excerpt_valid by blast
  have items: "items_of result ''supporting_evidence'' = evidence" by (simp add: items_of_def after)
  have unique: "distinct (map (fingerprint_of P) evidence)"
    using assms(3) unfolding canon items .
  obtain sc where sc: "news_annotation_schema prompt = Inr sc" "set (sc_required sc) \<subseteq> fst ` set annotation"
    "fst ` set annotation \<subseteq> fst ` set (sc_properties sc)"
    "\<forall>p \<in> set (sc_properties sc). check_property P annotation p = Inr ()"
    "jget annotation ''primary_category'' \<notin> set (items_of annotation ''secondary_categories'')"
    using assms(2) by (auto simp: validate_Inr)
  have "check_property P result (name, rule) = Inr ()" if "(name, rule) \<in> set (sc_properties sc)" for name rule
  proof (cases "name = ''supporting_evidence''")
    case True
    have rule: "rule = ArrayField (Some 1) (Some 3) (TextItem (Some 4) (Some 240) None) True"
      using that unfolding True by (rule evidence_rule [OF assms(1) sc(1)])
    have "check_array P name (Some 1) (Some 3) (TextItem (Some 4) (Some 240) None) True (JList evidence) = Inr ()"
      using e(2,3) limits unique by (simp add: check_array_Inr check_item_Inr at_least_def at_most_def among_def evidence_def)
    then show ?thesis using True rule by (simp add: check_property_def SELECTION_FIELDS_def after)
  next
    case False
    then have "check_property P result (name, rule) = check_property P annotation (name, rule)"
      unfolding check_property_def by (simp add: after names)
    then show ?thesis using sc(4) that by simp
  qed
  moreover have "jget result ''primary_category'' = jget annotation ''primary_category''"
    "items_of result ''secondary_categories'' = items_of annotation ''secondary_categories''"
    by (simp_all add: jget_def items_of_def after)
  moreover have "\<forall>x \<in> set (items_of result ''supporting_evidence''). check_excerpt source x = Inr ()"
    unfolding items using limits by (auto simp: check_excerpt_def evidence_def)
  ultimately show ?thesis unfolding canon validate_Inr names using sc by auto
qed

text \<open>Two excerpts that differ in case only become the same text of the source, which the validation refuses.\<close>

lemma cleanup_can_merge_excerpts:
  "canonical_excerpt ''Gold prices rose sharply today'' 240 ''GOLD prices rose sharply'' =
   canonical_excerpt ''Gold prices rose sharply today'' 240 ''gold prices rose sharply''"
  "contains (normalized ''GOLD prices rose sharply'') (normalized ''Gold prices rose sharply today'')"
  by code_simp+

section \<open>What a repair may choose\<close>

lemma find_last: "find p xs = Some x \<Longrightarrow> x \<in> set xs"
  by (rule find_SomeD [THEN conjunct1])

lemma span_length_le: "span_length w \<le> length w"
proof (cases "rev (filter (\<lambda>e. 20 \<le> e) (boundary_ends w))")
  case Nil
  have "(case last_index c w of None \<Rightarrow> 0 | Some i \<Rightarrow> i) \<le> length w" for c
    by (auto simp: last_index_def dest!: find_last split: option.splits)
  then show ?thesis using Nil by (simp add: span_length_def Let_def)
next
  case (Cons e es)
  then have "e \<in> set (boundary_ends w)" by (metis filter_is_subset list.set_intros(1) set_rev subsetD)
  then have "e \<le> length w" by (auto simp: boundary_ends_def split: if_splits)
  then show ?thesis using Cons by (simp add: span_length_def)
qed

lemma length_strip_le: "length (strip s) \<le> length s"
proof -
  obtain a b where "s = a @ strip s @ b" using contains_strip [of s] by (auto simp: contains_iff)
  then have "length s = length a + (length (strip s) + length b)" by (metis length_append)
  then show ?thesis by simp
qed

lemma evidence_spans_parts:
  "e \<in> set (evidence_spans limit room s) \<Longrightarrow> contains e s \<and> 4 \<le> length e \<and> length e \<le> limit"
proof (induction limit room s rule: evidence_spans.induct)
  case (1 limit room s)
  let ?t = "dropWhile is_space s"
  let ?n = "if limit < length ?t then span_length (take limit ?t) else length ?t"
  let ?e = "strip (take ?n ?t)"
  let ?room = "if 4 \<le> length ?e then room - 1 else room"
  have t: "contains ?t s" by (metis contains_drop dropWhile_eq_drop)
  have ne: "?t \<noteq> [] \<and> room \<noteq> 0" using "1.prems" by (subst (asm) evidence_spans.simps) (auto simp: Let_def split: if_splits)
  have "evidence_spans limit room s =
      (if 4 \<le> length ?e then [?e] else []) @ evidence_spans limit ?room (drop (max ?n 1) ?t)"
    using ne by (subst evidence_spans.simps) (simp only: Let_def if_False simp_thms)
  then consider "e = ?e" "4 \<le> length ?e" | "e \<in> set (evidence_spans limit ?room (drop (max ?n 1) ?t))"
    using "1.prems" by (auto split: if_splits)
  then show ?case
  proof cases
    case 1
    have "?n \<le> limit" using span_length_le [of "take limit ?t"] by auto
    then have "length ?e \<le> limit" using length_strip_le [of "take ?n ?t"] by simp
    moreover have "contains ?e s" using contains_trans [OF contains_trans [OF contains_strip contains_take] t] .
    ultimately show ?thesis using 1 by simp
  next
    case 2
    have "contains e (drop (max ?n 1) ?t) \<and> 4 \<le> length e \<and> length e \<le> limit"
      using "1.IH" [OF refl _ refl refl refl] ne 2 by simp
    then show ?thesis using contains_trans [OF _ contains_trans [OF contains_drop t]] by blast
  qed
qed

lemma evidence_spans_length: "length (evidence_spans limit room s) \<le> room"
proof (induction limit room s rule: evidence_spans.induct)
  case (1 limit room s)
  let ?t = "dropWhile is_space s"
  let ?n = "if limit < length ?t then span_length (take limit ?t) else length ?t"
  let ?e = "strip (take ?n ?t)"
  let ?room = "if 4 \<le> length ?e then room - 1 else room"
  show ?case
  proof (cases "?t = [] \<or> room = 0")
    case True
    then show ?thesis by (subst evidence_spans.simps) (simp add: Let_def)
  next
    case False
    have "evidence_spans limit room s =
        (if 4 \<le> length ?e then [?e] else []) @ evidence_spans limit ?room (drop (max ?n 1) ?t)"
      using False by (subst evidence_spans.simps) (simp only: Let_def if_False simp_thms)
    moreover have "length (evidence_spans limit ?room (drop (max ?n 1) ?t)) \<le> ?room"
      using "1.IH" [OF refl _ refl refl refl] False by simp
    ultimately show ?thesis using False by (auto split: if_splits)
  qed
qed

text \<open>A candidate's name denotes its number, so that different numbers have different names.\<close>

definition digits_value :: "string \<Rightarrow> nat" where
  "digits_value s = foldl (\<lambda>a c. a * 10 + (of_char c - 48)) 0 s"

lemma digits_value_nat_digits: "digits_value (nat_digits n) = n"
proof (induction n rule: nat_digits.induct)
  case (1 n)
  have digit: "(of_char (char_of (48 + m) :: char) :: nat) = 48 + m" if "m < 10" for m :: nat using that by simp
  show ?case
  proof (cases "n < 10")
    case True
    then show ?thesis by (subst nat_digits.simps) (simp add: digits_value_def digit)
  next
    case False
    then have "digits_value (nat_digits (n div 10)) = n div 10" by (rule 1)
    then show ?thesis using False by (subst nat_digits.simps) (simp add: digits_value_def digit)
  qed
qed

lemma digits_value_zeros: "digits_value (replicate k (CHR ''0'') @ s) = digits_value s"
  by (induction k) (simp_all add: digits_value_def)

lemma inj_candidate_id: "inj candidate_id"
proof (rule inj_on_inverseI)
  show "digits_value (tl (candidate_id n)) = n" for n
    by (simp add: candidate_id_def Let_def digits_value_zeros digits_value_nat_digits)
qed

lemma traverse_image: "traverse f xs = Some ys \<Longrightarrow> length ys = length xs \<and> (\<forall>y \<in> set ys. \<exists>x \<in> set xs. f x = Some y)"
  by (induction xs arbitrary: ys) (fastforce split: option.splits)+

lemma traverse_map: "traverse f xs = Some ys \<Longrightarrow> map f xs = map Some ys"
  by (induction xs arbitrary: ys) (auto split: option.splits)

lemma traverse_texts: "traverse text_of_json vs = Some names \<Longrightarrow> vs = map JStr names"
  by (induction vs arbitrary: names) (auto simp: text_of_json_def split: option.splits json.splits)

text \<open>
  C31: A repair can only quote. However long the source, it offers at most 384 spans under different names; and
  whatever the model answers, the accepted evidence is exactly the spans that the answer names, one to three
  different names in its order. Every offered span is cut verbatim out of the source, has 4 to 220 characters, and
  the validation finds it there.
\<close>

theorem repair_choices_are_quotations:
  assumes "source_evidence_candidates headline body = Inr candidates"
    "decode_evidence_anchor_selection answer candidates = Inr excerpts"
  defines "source \<equiv> canonical_annotation_source_text headline body"
  shows "length candidates \<le> MAX_EVIDENCE_CANDIDATES \<and> distinct (map fst candidates) \<and>
    1 \<le> length excerpts \<and> length excerpts \<le> 3 \<and>
    (\<exists>names. jget answer ''evidence_ids'' = JList (map JStr names) \<and> distinct names \<and>
       map (map_of candidates) names = map Some excerpts) \<and>
    (\<forall>e \<in> set excerpts. e \<in> snd ` set candidates) \<and>
    (\<forall>e \<in> snd ` set candidates. (\<exists>before after. source = before @ e @ after) \<and> 4 \<le> length e \<and>
       length e \<le> EVIDENCE_SPAN_CHARACTERS \<and> check_excerpt source (JStr e) = Inr ())"
proof -
  define spans where "spans = evidence_spans EVIDENCE_SPAN_CHARACTERS MAX_EVIDENCE_CANDIDATES source"
  have c: "candidates = map (\<lambda>(i, e). (candidate_id (i + 1), e)) (enumerate 0 spans)"
    using assms(1) by (auto simp: source_evidence_candidates_def spans_def source_def Let_def split: if_splits)
  have len: "length spans \<le> 384"
    using evidence_spans_length [of EVIDENCE_SPAN_CHARACTERS MAX_EVIDENCE_CANDIDATES source]
    by (simp add: spans_def MAX_EVIDENCE_CANDIDATES_def)
  have names: "map fst candidates = map (\<lambda>i. candidate_id (i + 1)) (map fst (enumerate 0 spans))"
    unfolding c by (simp only: map_map comp_def case_prod_beta fst_conv)
  have "inj_on (\<lambda>i. candidate_id (i + 1)) A" for A using inj_candidate_id by (auto simp: inj_on_def)
  then have d: "distinct (map fst candidates)" unfolding names map_fst_enumerate by (simp add: distinct_map)
  have parts: "contains e source \<and> 4 \<le> length e \<and> length e \<le> EVIDENCE_SPAN_CHARACTERS" if "e \<in> snd ` set candidates" for e
  proof -
    have "e \<in> set spans" using that by (auto simp: c in_set_enumerate_eq)
    then show ?thesis unfolding spans_def by (rule evidence_spans_parts)
  qed
  obtain ids names where a: "jget answer ''evidence_ids'' = JList ids" "1 \<le> length ids" "length ids \<le> 3"
    "traverse text_of_json ids = Some names" "traverse (map_of candidates) names = Some excerpts" "distinct names"
    using assms(2) by (auto simp: decode_evidence_anchor_selection_def split: json.splits if_splits option.splits)
  have "length excerpts = length ids" using traverse_image [OF a(4)] traverse_image [OF a(5)] by simp
  moreover have "\<exists>names. jget answer ''evidence_ids'' = JList (map JStr names) \<and> distinct names \<and>
      map (map_of candidates) names = map Some excerpts"
    using a(1,6) traverse_texts [OF a(4)] traverse_map [OF a(5)] by blast
  moreover have "\<forall>e \<in> set excerpts. e \<in> snd ` set candidates"
    using traverse_image [OF a(5)] by (force dest: map_of_SomeD)
  moreover have "check_excerpt source (JStr e) = Inr ()" if "contains e source" for e
    using normalized_part [OF that] by (simp add: check_excerpt_def)
  then have "\<forall>e \<in> snd ` set candidates. (\<exists>before after. source = before @ e @ after) \<and> 4 \<le> length e \<and>
       length e \<le> EVIDENCE_SPAN_CHARACTERS \<and> check_excerpt source (JStr e) = Inr ()"
    using parts by (simp add: contains_iff [of _ source] del: One_nat_def)
  moreover have "length candidates \<le> MAX_EVIDENCE_CANDIDATES"
    using len by (simp add: c MAX_EVIDENCE_CANDIDATES_def)
  ultimately show ?thesis using a(2,3) d by simp
qed

section \<open>An annotation\<close>

definition sample_source :: string where
  "sample_source = ''Rates'' @ CHR 0x0A # ''Fed held its policy rate.''"

definition sample_annotation_json :: "(string \<times> json) list" where
  "sample_annotation_json =
     map (\<lambda>(f, r). (f, case r of
         TextField _ _ (Some (v # _)) \<Rightarrow> JStr v
       | TextField _ _ _ \<Rightarrow> JStr ''text''
       | NumberField _ _ \<Rightarrow> JInt 0
       | ArrayField _ _ _ _ \<Rightarrow> JList [])) (filter (\<lambda>(f, r). f \<noteq> ''supporting_evidence'' \<and> f \<noteq> ''emerging_topic_zh'')
         (base_properties @ AI_SEMANTIC_FIELDS)) @
     [(''emerging_topic_zh'', JStr ''rates''),
      (''supporting_evidence'', JList [JStr ''fed held  its policy rate''])]"

text \<open>\<open>repr\<close> of a text is that text, as far as the samples need it.\<close>

definition repr_platform :: platform where
  "repr_platform = sample_platform\<lparr>py_repr := (\<lambda>v. case v of JStr s \<Rightarrow> s | _ \<Rightarrow> ''value'')\<rparr>"

lemma sample_annotation_valid:
  "ACTIVE_NEWS_PROMPT_VERSION \<in> set SEMANTIC_NEWS_PROMPT_VERSIONS"
  "validate_news_annotation repr_platform ACTIVE_NEWS_PROMPT_VERSION (Some sample_source) sample_annotation_json = Inr ()"
  "items_of (canonicalize_active_annotation sample_source 240 sample_annotation_json) ''supporting_evidence'' =
     [JStr ''Fed held its policy rate'']"
  by code_simp+

theorem valid_annotations_are_grounded_witness:
  "\<exists>text excerpts. Some sample_source = Some text \<and>
    map_of sample_annotation_json ''supporting_evidence'' = Some (JList (map JStr excerpts)) \<and>
    1 \<le> length excerpts \<and> length excerpts \<le> 3 \<and> distinct excerpts \<and>
    (\<forall>e \<in> set excerpts. 4 \<le> length e \<and> length e \<le> 240 \<and> contains (normalized e) (normalized text))"
  using valid_annotations_are_grounded [OF sample_annotation_valid(1,2)] by (elim conjE)

theorem cleanup_keeps_valid_annotations_witness:
  "validate_news_annotation repr_platform ACTIVE_NEWS_PROMPT_VERSION (Some sample_source)
     (canonicalize_active_annotation sample_source 240 sample_annotation_json) = Inr ()"
  by (rule cleanup_keeps_valid_annotations [OF sample_annotation_valid(1,2)]) (simp add: sample_annotation_valid(3))

definition sample_answer :: "(string \<times> json) list" where
  "sample_answer = [(''evidence_ids'', JList [JStr ''E001''])]"

lemma sample_choice:
  "\<exists>candidates. source_evidence_candidates ''Rates'' ''Fed held its policy rate.'' = Inr candidates \<and>
    decode_evidence_anchor_selection sample_answer candidates =
      Inr [''Rates'' @ CHR 0x0A # ''Fed held its policy rate.'']"
proof -
  have "source_evidence_candidates ''Rates'' ''Fed held its policy rate.'' =
      Inr [(''E001'', ''Rates'' @ CHR 0x0A # ''Fed held its policy rate.'')]" by code_simp
  then show ?thesis by (simp add: sample_answer_def decode_evidence_anchor_selection_def jget_def text_of_json_def)
qed

theorem repair_choices_are_quotations_witness:
  "\<exists>candidates. source_evidence_candidates ''Rates'' ''Fed held its policy rate.'' = Inr candidates \<and>
    length candidates \<le> MAX_EVIDENCE_CANDIDATES \<and> distinct (map fst candidates) \<and>
    check_excerpt (canonical_annotation_source_text ''Rates'' ''Fed held its policy rate.'')
      (JStr (''Rates'' @ CHR 0x0A # ''Fed held its policy rate.'')) = Inr ()"
proof -
  obtain candidates where c: "source_evidence_candidates ''Rates'' ''Fed held its policy rate.'' = Inr candidates"
    "decode_evidence_anchor_selection sample_answer candidates =
      Inr [''Rates'' @ CHR 0x0A # ''Fed held its policy rate.'']"
    using sample_choice by blast
  note q = repair_choices_are_quotations [OF c]
  have "''Rates'' @ CHR 0x0A # ''Fed held its policy rate.'' \<in> snd ` set candidates" using q by (elim conjE) simp
  moreover have "\<forall>e \<in> snd ` set candidates.
      check_excerpt (canonical_annotation_source_text ''Rates'' ''Fed held its policy rate.'') (JStr e) = Inr ()"
    using q by blast
  ultimately show ?thesis using c(1) q by blast
qed

end
