(* ===== verification/Job_Reconciliation.thy ===== *)
theory Job_Reconciliation
  imports News_Ledger
begin

text \<open>
  The maintenance that closes jobs which the evidence has satisfied or superseded,
  \<open>reconcile_completed_jobs\<close> of \<^verbatim>\<open>xauusd_news/news/scheduler/state.py\<close>, with the cache that lets a tick
  skip it while its input is unchanged, and the appending of impact assessments and of the identity
  they resolve, \<open>append_news_impact_assessment\<close> of \<^verbatim>\<open>xauusd_news/evidence/ledger.py\<close>.

  The evidence is the ledger's; the jobs are its \<open>ld_jobs\<close>, and every statement on them is run with
  the triggers of \<open>Job_Counts\<close>. The cached text is the serialisation of a JSON value that holds texts
  and integers only; the value itself is kept and compared. A job has one of the three current task types:
  \<open>task_type NOT IN (...)\<close>, which retires the jobs of a removed task, holds of no job of the model.
\<close>

section \<open>State\<close>

record impact_assessment =
  ia_id :: string
  ia_key :: source_key
  ia_hash :: string
  ia_annotation :: string
  ia_model :: string
  ia_prompt :: string
  ia_started :: instant
  ia_assessed :: instant
  ia_class :: string
  ia_event_state :: string
  ia_update_type :: string
  ia_confidence :: real
  ia_reason :: string

record identity_resolution =
  ix_id :: string
  ix_annotation :: string
  ix_assessment :: string
  ix_model :: string
  ix_prompt :: string
  ix_resolved :: instant
  ix_relation :: string
  ix_matched :: "string option"
  ix_comparison :: json
  ix_episode :: string
  ix_event :: string

record maintenance_db =
  mb_ledger :: ledger_db
  mb_assessments :: "impact_assessment list"
  mb_resolutions :: "identity_resolution list"
  mb_derived :: derived
  mb_cache :: "(json \<times> instant) option"

abbreviation mb_jobs :: "maintenance_db \<Rightarrow> job list" where
  "mb_jobs m \<equiv> ld_jobs (mb_ledger m)"

text \<open>
  What the statements take from SQLite and from texts outside the character type of the model: the
  Shanghai day of a time, \<open>substr(datetime(time,'+8 hours'),1,10)\<close>; whether a translated headline is a
  usable Chinese title; and the text of the invalid title.
\<close>

record sql_env =
  sq_platform :: platform
  sq_day :: "instant \<Rightarrow> string"
  sq_title :: "string \<Rightarrow> bool"
  sq_invalid_title :: string

section \<open>Impact assessments\<close>

definition IMPACT_PROMPT_VERSION :: string where
  "IMPACT_PROMPT_VERSION = ''news-impact-v7-continuous-observation-identity''"

definition IMPACT_CLASSES :: "string list" where
  "IMPACT_CLASSES = [''IMMEDIATE'', ''SAME_DAY'', ''DATA_RELEASE'', ''POLICY_SHIFT'', ''ONGOING_EVENT'', ''BACKGROUND'']"

definition EVENT_STATES :: "string list" where
  "EVENT_STATES = [''ACTIVE'', ''COMPLETED'', ''UNCERTAIN'', ''BACKGROUND'']"

definition UPDATE_TYPES :: "string list" where
  "UPDATE_TYPES = [''NEW_EVENT'', ''MATERIAL_UPDATE'', ''DUPLICATE_REPORT'', ''COMMENTARY'', ''HISTORICAL_CONTEXT'']"

definition IDENTITY_RELATIONS :: "string list" where
  "IDENTITY_RELATIONS = [''SAME_EVENT'', ''SAME_EPISODE'', ''NEW_EPISODE'', ''UNRESOLVED'']"

text \<open>The optional fields of the record that resolve the identity of the event.\<close>

record resolution_fields =
  rs_id :: string
  rs_relation :: "string option"
  rs_matched :: "string option"
  rs_episode :: "string option"
  rs_event :: "string option"
  rs_context_mode :: "string option"
  rs_body_count :: "int option"
  rs_anchor :: "string option"
  rs_core_changes :: "string option"
  rs_differences :: "string option"
  rs_context_differences :: "string option"

definition blank_option :: "string option \<Rightarrow> bool" where
  "blank_option x \<longleftrightarrow> strip (case x of None \<Rightarrow> [] | Some s \<Rightarrow> s) = []"

text \<open>\<open>int(record.get(...) or news["body_character_count"])\<close>.\<close>

definition body_count :: "int option \<Rightarrow> revision \<Rightarrow> int outcome" where
  "body_count given n =
     (case given of
        Some k \<Rightarrow> if k \<noteq> 0 then Inr k else
          (case vn_body n of None \<Rightarrow> Inl (OtherError ''TypeError'') | Some b \<Rightarrow> Inr (int (length b)))
      | None \<Rightarrow> (case vn_body n of None \<Rightarrow> Inl (OtherError ''TypeError'') | Some b \<Rightarrow> Inr (int (length b))))"

definition check_resolution :: "resolution_fields \<Rightarrow> revision \<Rightarrow> json outcome" where
  "check_resolution r n =
     (let mode = (case nonblank (rs_context_mode r) of None \<Rightarrow> ''COMPLETE_BODY'' | Some m \<Rightarrow> m)
      in bind_out (require (\<exists>x \<in> set IDENTITY_RELATIONS. rs_relation r = Some x) ''impact identity relation is not controlled'') (\<lambda>_.
         bind_out (require (\<not> blank_option (rs_episode r)) ''canonical episode identity is empty'') (\<lambda>_.
         bind_out (require (\<not> blank_option (rs_event r)) ''canonical event identity is empty'') (\<lambda>_.
         bind_out (require (mode \<in> set [''COMPLETE_BODY'', ''EVIDENCE_WINDOWS'']) ''impact source context mode is not controlled'') (\<lambda>_.
         bind_out (body_count (rs_body_count r) n) (\<lambda>count.
         bind_out (require (0 < count) ''impact source body character count is empty'') (\<lambda>_.
           (case (rs_anchor r, rs_core_changes r, rs_differences r, rs_context_differences r) of
              (Some a, Some c, Some d, Some x) \<Rightarrow>
                Inr (JObj [(''identity_anchor_zh'', JStr a), (''core_fact_changes_zh'', JStr c),
                  (''identity_differences_zh'', JStr d), (''context_differences_zh'', JStr x),
                  (''source_context_mode'', JStr mode), (''source_body_character_count'', JInt count)])
            | _ \<Rightarrow> Inl (ValueError ''impact identity comparison is incomplete'')))))))))"

definition check_assessment :: "impact_assessment \<Rightarrow> bool \<Rightarrow> ledger_db \<Rightarrow> revision outcome" where
  "check_assessment a resolved db =
     (case find (\<lambda>n. key_of n = ia_key a) (ld_revisions db) of
        None \<Rightarrow> Inl (ValueError ''impact assessment does not match immutable news'')
      | Some n \<Rightarrow>
          bind_out (require (vn_hash n = ia_hash a) ''impact assessment does not match immutable news'') (\<lambda>_.
          bind_out (require (list_ex (\<lambda>b. nn_id b = ia_annotation a) (ld_annotations db)) ''impact assessment annotation is missing'') (\<lambda>_.
          bind_out (require (ia_started a \<le> ia_assessed a) ''impact assessment completion precedes start'') (\<lambda>_.
          bind_out (require (ia_class a \<in> set IMPACT_CLASSES) ''impact assessment class is not controlled'') (\<lambda>_.
          bind_out (require (ia_event_state a \<in> set EVENT_STATES) ''impact event state is not controlled'') (\<lambda>_.
          bind_out (require (ia_update_type a \<in> set UPDATE_TYPES) ''impact update type is not controlled'') (\<lambda>_.
          bind_out (require (0 \<le> ia_confidence a \<and> ia_confidence a \<le> 1) ''impact confidence is outside [0, 1]'') (\<lambda>_.
          bind_out (require (strip (ia_reason a) \<noteq> []) ''impact reason is empty'') (\<lambda>_.
          bind_out (require (ia_prompt a = IMPACT_PROMPT_VERSION \<longrightarrow> resolved) ''current impact assessment requires identity resolution'') (\<lambda>_.
            Inr n))))))))))"

definition insert_resolution :: "impact_assessment \<Rightarrow> resolution_fields \<Rightarrow> json \<Rightarrow> maintenance_db \<Rightarrow> maintenance_db outcome" where
  "insert_resolution a r comparison m =
     (let new = \<lparr>ix_id = rs_id r, ix_annotation = ia_annotation a, ix_assessment = ia_id a, ix_model = ia_model a,
            ix_prompt = ia_prompt a, ix_resolved = ia_assessed a, ix_relation = text_or_empty (rs_relation r),
            ix_matched = rs_matched r, ix_comparison = comparison, ix_episode = text_or_empty (rs_episode r),
            ix_event = text_or_empty (rs_event r)\<rparr>
      in if list_ex (\<lambda>x. ix_id x = ix_id new \<or> (ix_annotation x, ix_model x, ix_prompt x) =
              (ix_annotation new, ix_model new, ix_prompt new)) (mb_resolutions m)
         then Inl (IntegrityError ''UNIQUE constraint failed'')
         else if (case rs_matched r of None \<Rightarrow> False | Some x \<Rightarrow> \<not> list_ex (\<lambda>b. nn_id b = x) (ld_annotations (mb_ledger m)))
         then Inl (IntegrityError ''FOREIGN KEY constraint failed'')
         else Inr (m\<lparr>mb_resolutions := mb_resolutions m @ [new]\<rparr>))"

text \<open>Both rows are inserted in one transaction.\<close>

definition append_news_impact_assessment ::
    "impact_assessment \<Rightarrow> resolution_fields option \<Rightarrow> maintenance_db \<Rightarrow> maintenance_db outcome" where
  "append_news_impact_assessment a resolution m =
     bind_out (check_assessment a (resolution \<noteq> None) (mb_ledger m)) (\<lambda>n.
     bind_out (case resolution of None \<Rightarrow> Inr JNull | Some r \<Rightarrow> check_resolution r n) (\<lambda>comparison.
       (if list_ex (\<lambda>b. ia_id b = ia_id a \<or> (ia_annotation b, ia_model b, ia_prompt b) =
              (ia_annotation a, ia_model a, ia_prompt a)) (mb_assessments m)
        then Inl (IntegrityError ''UNIQUE constraint failed'')
        else
          let m1 = m\<lparr>mb_assessments := mb_assessments m @ [a\<lparr>ia_reason := strip (ia_reason a)\<rparr>]\<rparr>
          in case resolution of None \<Rightarrow> Inr m1 | Some r \<Rightarrow> insert_resolution a r comparison m1)))"

section \<open>Jobs that the evidence has satisfied\<close>

definition job_key :: "job \<Rightarrow> source_key" where
  "job_key j = (j_source j, j_item j, j_revision j)"

definition annotated :: "annotation_row list \<Rightarrow> job \<Rightarrow> bool" where
  "annotated annotations j \<longleftrightarrow>
     list_ex (\<lambda>a. nn_key a = job_key j \<and> nn_prompt a = j_prompt j \<and> usable_annotation a) annotations"

definition satisfied :: "sql_env \<Rightarrow> maintenance_db \<Rightarrow> job \<Rightarrow> bool" where
  "satisfied E m j \<longleftrightarrow>
     (case j_task j of
        ACTIVE_ANNOTATION \<Rightarrow> annotated (ld_annotations (mb_ledger m)) j
      | ACTIVE_IMPACT \<Rightarrow> list_ex (\<lambda>i. ia_annotation i = j_annotation j \<and> ia_prompt i = j_prompt j) (mb_assessments m)
      | TITLE_TRANSLATION \<Rightarrow> list_ex (\<lambda>t. tt_key t = job_key j \<and> tt_prompt t = j_prompt j \<and> sq_title E (tt_headline t))
          (ld_translations (mb_ledger m)))"

definition completable :: "sql_env \<Rightarrow> maintenance_db \<Rightarrow> job \<Rightarrow> bool" where
  "completable E m j \<longleftrightarrow> j_state j \<noteq> COMPLETED \<and> \<not> retired j \<and> satisfied E m j"

definition completion_statement :: "sql_env \<Rightarrow> maintenance_db \<Rightarrow> instant \<Rightarrow> job_statement" where
  "completion_statement E m now =
     UpdateJobs (completable E m)
       (\<lambda>j. j\<lparr>j_state := COMPLETED, j_lease_owner := None, j_lease_expires_at := None, j_updated_at := now,
              j_completed_at := Some now\<rparr>)"

section \<open>Jobs that the evidence has superseded\<close>

text \<open>SQLite's \<open>trim(X)\<close> removes spaces only, where Python's \<open>str.strip\<close> removes every white space.\<close>

definition sql_trim :: "string \<Rightarrow> string" where
  "sql_trim s = rev (dropWhile (\<lambda>c. c = CHR '' '') (rev (dropWhile (\<lambda>c. c = CHR '' '') s)))"

definition on_protected_day :: "sql_env \<Rightarrow> string list \<Rightarrow> revision \<Rightarrow> bool" where
  "on_protected_day E dates n \<longleftrightarrow> sq_day E (vn_first_seen n) \<in> set dates"

definition same_day :: "sql_env \<Rightarrow> revision \<Rightarrow> revision \<Rightarrow> bool" where
  "same_day E a b \<longleftrightarrow> sq_day E (vn_first_seen a) = sq_day E (vn_first_seen b)"

text \<open>
  \<open>newer_scope\<close>: a newer revision counts for an annotation job on a protected day only when it was
  received on that day. Without protected days the clause is absent, as here no revision is on one.
\<close>

definition newer_in_scope :: "sql_env \<Rightarrow> string list \<Rightarrow> revision list \<Rightarrow> job \<Rightarrow> revision \<Rightarrow> bool" where
  "newer_in_scope E dates revs j newer \<longleftrightarrow>
     j_task j \<noteq> ACTIVE_ANNOTATION \<or>
     \<not> list_ex (\<lambda>c. key_of c = job_key j \<and> on_protected_day E dates c) revs \<or>
     (case find (\<lambda>c. key_of c = job_key j) revs of None \<Rightarrow> False | Some c \<Rightarrow> same_day E newer c)"

definition superseded :: "sql_env \<Rightarrow> string list \<Rightarrow> revision list \<Rightarrow> job \<Rightarrow> bool" where
  "superseded E dates revs j \<longleftrightarrow>
     list_ex (\<lambda>n. article n = (j_source j, j_item j) \<and> j_revision j < vn_number n \<and> newer_in_scope E dates revs j n) revs"

definition peer_in_scope :: "sql_env \<Rightarrow> string list \<Rightarrow> revision \<Rightarrow> revision \<Rightarrow> bool" where
  "peer_in_scope E dates c p \<longleftrightarrow> \<not> on_protected_day E dates c \<or> same_day E p c"

definition outranked :: "sql_env \<Rightarrow> instant \<Rightarrow> string list \<Rightarrow> revision list \<Rightarrow> revision \<Rightarrow> bool" where
  "outranked E epoch dates revs c \<longleftrightarrow>
     list_ex (\<lambda>p. vn_cluster p = vn_cluster c \<and> semantically_eligible epoch p \<and> peer_in_scope E dates c p \<and>
       \<not> list_ex (\<lambda>q. article q = article p \<and> vn_number p < vn_number q \<and> peer_in_scope E dates c q) revs \<and>
       preferred_peer p c) revs"

definition body_too_short :: "revision \<Rightarrow> bool" where
  "body_too_short n \<longleftrightarrow>
     length (sql_trim (case vn_body n of None \<Rightarrow> [] | Some b \<Rightarrow> b)) < ANNOTATION_BODY_MIN_CHARACTERS"

definition not_annotatable :: "sql_env \<Rightarrow> instant \<Rightarrow> string list \<Rightarrow> ledger_db \<Rightarrow> job \<Rightarrow> bool" where
  "not_annotatable E epoch dates db j \<longleftrightarrow>
     list_ex (\<lambda>c. key_of c = job_key j \<and>
       (body_too_short c \<or> \<not> semantically_eligible epoch c \<or>
        (j_state j = COMPLETED \<and> \<not> annotated (ld_annotations db) j) \<or>
        outranked E epoch dates (ld_revisions db) c)) (ld_revisions db)"

definition obsolete :: "sql_env \<Rightarrow> instant \<Rightarrow> string list \<Rightarrow> ledger_db \<Rightarrow> job \<Rightarrow> bool" where
  "obsolete E epoch dates db j \<longleftrightarrow>
     j_state j \<noteq> LEASED \<and> \<not> retired j \<and>
     ((j_task j = ACTIVE_ANNOTATION \<and> j_prompt j \<noteq> CURRENT_NEWS_PROMPT_VERSION) \<or>
      superseded E dates (ld_revisions db) j \<or>
      (j_task j = ACTIVE_ANNOTATION \<and> not_annotatable E epoch dates db j))"

definition obsolescence_statement ::
    "sql_env \<Rightarrow> instant \<Rightarrow> string list \<Rightarrow> ledger_db \<Rightarrow> instant \<Rightarrow> job_statement" where
  "obsolescence_statement E epoch dates db now =
     UpdateJobs (obsolete E epoch dates db)
       (\<lambda>j. j\<lparr>j_state := DEAD_LETTER, j_lease_owner := None, j_lease_expires_at := None,
              j_last_error := Some RETIRED_ERROR, j_updated_at := now, j_completed_at := Some now\<rparr>)"

section \<open>The cache of an unchanged input\<close>

definition materialization_components :: json where
  "materialization_components =
     JObj [(''annotation_body_min_characters'', JInt (int ANNOTATION_BODY_MIN_CHARACTERS)),
       (''annotation_usability'', JStr ''news-annotation-usability-v1''),
       (''current_prompt'', JStr CURRENT_NEWS_PROMPT_VERSION),
       (''materialization_schema'', JStr ''critical-annotation-state-v1''),
       (''representative_policy'', JStr ''news-current-representative-v1''),
       (''semantic_eligibility'', JStr ''news-semantic-eligibility-v2''),
       (''supported_models'', JList (map JStr (sort SUPPORTED_GEMINI_MODELS)))]"

definition annotation_fingerprint :: "platform \<Rightarrow> string" where
  "annotation_fingerprint P = sha256_hex P (json_dumps P materialization_components)"

definition MAX_HEAD_FIELD_BYTES :: nat where "MAX_HEAD_FIELD_BYTES = 256"

definition MAX_KEY_BYTES :: nat where "MAX_KEY_BYTES = 6144"

definition MAX_CACHE_BYTES :: nat where "MAX_CACHE_BYTES = 8192"

definition head_text :: "string \<Rightarrow> json option" where
  "head_text s = (if utf8_length s \<le> MAX_HEAD_FIELD_BYTES then Some (JStr s) else None)"

definition head_number :: "int \<Rightarrow> json option" where
  "head_number n = (if length (str_int n) \<le> MAX_HEAD_FIELD_BYTES then Some (JInt n) else None)"

text \<open>The last row of an append-only table. Nothing is ever deleted, so its rowid is the number of rows.\<close>

definition source_head :: "('r \<Rightarrow> json option list) \<Rightarrow> 'r list \<Rightarrow> json option" where
  "source_head columns rows =
     (if rows = [] then Some (JList [])
      else map_option (\<lambda>vs. JList (JInt (int (length rows)) # vs)) (traverse id (columns (last rows))))"

definition source_heads :: "maintenance_db \<Rightarrow> json list option" where
  "source_heads m =
     traverse id
       [source_head (\<lambda>n. [head_text (vn_source n), head_text (vn_item n), head_number (vn_number n), head_text (vn_hash n)])
          (ld_revisions (mb_ledger m)),
        source_head (\<lambda>a. [head_text (nn_id a)]) (ld_annotations (mb_ledger m)),
        source_head (\<lambda>t. [head_text (tt_id t)]) (ld_translations (mb_ledger m)),
        source_head (\<lambda>i. [head_text (ia_id i)]) (mb_assessments m)]"

definition key_json :: "sql_env \<Rightarrow> instant \<Rightarrow> string list \<Rightarrow> int \<Rightarrow> json list \<Rightarrow> json" where
  "key_json E epoch dates revision heads =
     JObj [(''annotation_contract'', JStr (annotation_fingerprint (sq_platform E))),
       (''contract'', JStr ''news-job-reconciliation-input-v2''),
       (''forward_epoch'', JStr (iso_text (sq_platform E) epoch)),
       (''invalid_title'', JStr (sq_invalid_title E)),
       (''job_revision'', JInt revision),
       (''protected_days'', JList (map JStr (sort dates))),
       (''source_heads'', JList heads),
       (''task_types'', JList (map (\<lambda>t. JStr (task_name t)) TASKS))]"

text \<open>Whether the installed triggers are the current ones is an argument.\<close>

definition reconciliation_input_key ::
    "sql_env \<Rightarrow> bool \<Rightarrow> instant \<Rightarrow> string list \<Rightarrow> maintenance_db \<Rightarrow> json option" where
  "reconciliation_input_key E hooks_current epoch dates m =
     (case news_job_input_revision hooks_current (dv_revision (mb_derived m)) of
        None \<Rightarrow> None
      | Some revision \<Rightarrow>
          (case source_heads m of
             None \<Rightarrow> None
           | Some heads \<Rightarrow>
               (let key = key_json E epoch dates revision heads
                in if length (json_dumps (sq_platform E) key) \<le> MAX_KEY_BYTES then Some key else None)))"

definition reconciliation_is_unchanged ::
    "sql_env \<Rightarrow> bool \<Rightarrow> instant \<Rightarrow> string list \<Rightarrow> instant \<Rightarrow> maintenance_db \<Rightarrow> bool" where
  "reconciliation_is_unchanged E hooks_current epoch dates now m =
     (case reconciliation_input_key E hooks_current epoch dates m of
        None \<Rightarrow> False
      | Some key \<Rightarrow>
          (case mb_cache m of
             None \<Rightarrow> False
           | Some (cached, observed_at) \<Rightarrow> cached = key \<and> observed_at \<le> now))"

text \<open>
  The acceptance is stored with the business statements. A database that is busy or read-only keeps
  the previous acceptance: whether the store succeeds is an argument.
\<close>

definition store_acceptance ::
    "sql_env \<Rightarrow> bool \<Rightarrow> bool \<Rightarrow> instant \<Rightarrow> string list \<Rightarrow> instant \<Rightarrow> maintenance_db \<Rightarrow> maintenance_db" where
  "store_acceptance E hooks_current writable epoch dates now m =
     (let P = sq_platform E
      in case reconciliation_input_key E hooks_current epoch dates m of
           None \<Rightarrow> m
         | Some key \<Rightarrow>
             if length (json_dumps P (JObj [(''key'', JStr (json_dumps P key)), (''observed_at'', JStr (iso_text P now))]))
                  \<le> MAX_CACHE_BYTES \<and> writable
             then m\<lparr>mb_cache := Some (key, now)\<rparr> else m)"

section \<open>Reconciliation\<close>

text \<open>The day of a revision that the triggers look up.\<close>

definition ledger_day :: "sql_env \<Rightarrow> ledger_db \<Rightarrow> receipt_day" where
  "ledger_day E db key = map_option (\<lambda>n. sq_day E (vn_first_seen n)) (find (\<lambda>n. key_of n = key) (ld_revisions db))"

definition set_jobs :: "job list \<times> derived \<Rightarrow> maintenance_db \<Rightarrow> maintenance_db" where
  "set_jobs s m = m\<lparr>mb_ledger := (mb_ledger m)\<lparr>ld_jobs := fst s\<rparr>, mb_derived := snd s\<rparr>"

definition run_job_statements :: "sql_env \<Rightarrow> job_statement list \<Rightarrow> maintenance_db \<Rightarrow> maintenance_db outcome" where
  "run_job_statements E sts m =
     bind_out (run_statements (ledger_day E (mb_ledger m)) sts (mb_jobs m, mb_derived m)) (\<lambda>s. Inr (set_jobs s m))"

text \<open>
  Both statements and the count of the rows they change; \<open>caching\<close> is the case of a managed transaction
  outside of any other.
\<close>

record reconcile_call =
  rq_now :: instant
  rq_managed :: bool
  rq_in_transaction :: bool
  rq_days :: "string list"
  rq_hooks_current :: bool
  rq_writable :: bool

definition reconcile_jobs :: "sql_env \<Rightarrow> instant \<Rightarrow> string list \<Rightarrow> instant \<Rightarrow> maintenance_db \<Rightarrow> (int \<times> maintenance_db) outcome" where
  "reconcile_jobs E epoch dates now m =
     (let close = completion_statement E m now;
          retire = obsolescence_statement E epoch dates (mb_ledger m) now;
          closed_jobs = apply_statement close (mb_jobs m);
          n = sql_count (completable E m) (mb_jobs m) + sql_count (obsolete E epoch dates (mb_ledger m)) closed_jobs
      in bind_out (run_job_statements E [close, retire] m) (\<lambda>m1. Inr (n, m1)))"

definition reconcile_completed_jobs ::
    "sql_env \<Rightarrow> reconcile_call \<Rightarrow> maintenance_db \<Rightarrow> (int \<times> maintenance_db) outcome" where
  "reconcile_completed_jobs E q m =
     (case ld_epoch (mb_ledger m) of
        None \<Rightarrow> Inl (OtherError ''TypeError'')
      | Some epoch \<Rightarrow>
          (let dates = dedupe (rq_days q); caching = rq_managed q \<and> \<not> rq_in_transaction q
           in if caching \<and> reconciliation_is_unchanged E (rq_hooks_current q) epoch dates (rq_now q) m
              then Inr (0, m)
              else
                bind_out (reconcile_jobs E epoch dates (rq_now q) m) (\<lambda>r.
                  Inr (fst r,
                       if caching then store_acceptance E (rq_hooks_current q) (rq_writable q) epoch dates (rq_now q) (snd r)
                       else snd r))))"

text \<open>
  \<open>_reopen_protected_annotation_jobs\<close>, one statement for each of the jobs of the protected records,
  in the order of their identifiers.
\<close>

definition reopened :: "string \<Rightarrow> job \<Rightarrow> bool" where
  "reopened jid j \<longleftrightarrow>
     j_id j = jid \<and> j_task j = ACTIVE_ANNOTATION \<and> j_state j = DEAD_LETTER \<and> j_last_error j = Some RETIRED_ERROR"

definition reopen_statement :: "instant \<Rightarrow> string \<Rightarrow> job_statement" where
  "reopen_statement now jid =
     UpdateJobs (reopened jid)
       (\<lambda>j. j\<lparr>j_state := QUEUED, j_available_at := now, j_lease_owner := None, j_lease_expires_at := None,
              j_last_error := None, j_updated_at := now, j_completed_at := None\<rparr>)"

definition protected_job_ids :: "platform \<Rightarrow> string \<Rightarrow> source_key list \<Rightarrow> string list" where
  "protected_job_ids P prompt keys =
     sort (dedupe (map (\<lambda>(source, item, number).
       job_hash P (task_name ACTIVE_ANNOTATION) source item number [] prompt) keys))"

fun reopen_jobs :: "sql_env \<Rightarrow> instant \<Rightarrow> string list \<Rightarrow> int \<Rightarrow> maintenance_db \<Rightarrow> (int \<times> maintenance_db) outcome" where
  "reopen_jobs E now [] n m = Inr (n, m)"
| "reopen_jobs E now (jid # jids) n m =
     bind_out (run_job_statements E [reopen_statement now jid] m)
       (\<lambda>m1. reopen_jobs E now jids (n + sql_count (reopened jid) (mb_jobs m)) m1)"

definition reopen_protected_annotation_jobs ::
    "sql_env \<Rightarrow> source_key list \<Rightarrow> string \<Rightarrow> instant \<Rightarrow> maintenance_db \<Rightarrow> (int \<times> maintenance_db) outcome" where
  "reopen_protected_annotation_jobs E keys prompt now m =
     reopen_jobs E now (protected_job_ids (sq_platform E) prompt keys) 0 m"

section \<open>Appending with the triggers of the job table\<close>

text \<open>
  An annotation completes its job, \<open>record_annotation_completion\<close>: the statements that an append sends
  to the job table.
\<close>

fun append_statements :: "platform \<Rightarrow> ledger_action \<Rightarrow> ledger_db \<Rightarrow> job_statement list" where
  "append_statements P (AppendAnnotation a) db =
     (let new = completed_job P (nn_key a) (nn_prompt a) (nn_parsed a) None (ld_jobs db)
      in if \<not> list_ex (\<lambda>b. nn_key b = nn_key a \<and> nn_prompt b = nn_prompt a \<and> usable_annotation b) (ld_annotations db @ [a])
         then []
         else if list_ex (\<lambda>j. j_id j = j_id new) (ld_jobs db)
         then [UpdateJobs (\<lambda>j. j_id j = j_id new \<and> j_state j \<noteq> LEASED) (complete_row new)]
         else [InsertJob new])"
| "append_statements P act db = []"

definition maintain_append :: "sql_env \<Rightarrow> ledger_action \<Rightarrow> maintenance_db \<Rightarrow> maintenance_db outcome" where
  "maintain_append E act m =
     bind_out (run_append (sq_platform E) act (mb_ledger m)) (\<lambda>l.
     bind_out (run_statements (ledger_day E l) (append_statements (sq_platform E) act (mb_ledger m)) (mb_jobs m, mb_derived m))
       (\<lambda>s. Inr (m\<lparr>mb_ledger := l, mb_derived := snd s\<rparr>)))"

text \<open>What maintenance, the queue and the ledger do to the database.\<close>

datatype maintenance_action =
    Append ledger_action
  | Assess impact_assessment "resolution_fields option"
  | RunQueue "job_statement list"
  | Reconcile reconcile_call
  | Reopen "source_key list" string instant

fun maintain :: "sql_env \<Rightarrow> maintenance_action \<Rightarrow> maintenance_db \<Rightarrow> maintenance_db outcome" where
  "maintain E (Append act) m = maintain_append E act m"
| "maintain E (Assess a r) m = append_news_impact_assessment a r m"
| "maintain E (RunQueue sts) m = run_job_statements E sts m"
| "maintain E (Reconcile q) m = map_sum id snd (reconcile_completed_jobs E q m)"
| "maintain E (Reopen keys prompt now) m = map_sum id snd (reopen_protected_annotation_jobs E keys prompt now m)"

section \<open>What the conditions read\<close>

lemma tracked_simps:
  assumes "tracked a = tracked b"
  shows "j_task a = j_task b" "j_state a = j_state b" "retired a = retired b" "job_key a = job_key b"
    "j_prompt a = j_prompt b" "j_annotation a = j_annotation b" "j_source a = j_source b" "j_item a = j_item b"
    "j_revision a = j_revision b"
  using assms by (simp_all add: tracked_def retired_def job_key_def)

definition same_sources :: "maintenance_db \<Rightarrow> maintenance_db \<Rightarrow> bool" where
  "same_sources m m' \<longleftrightarrow>
     ld_revisions (mb_ledger m') = ld_revisions (mb_ledger m) \<and>
     ld_annotations (mb_ledger m') = ld_annotations (mb_ledger m) \<and>
     ld_translations (mb_ledger m') = ld_translations (mb_ledger m) \<and> mb_assessments m' = mb_assessments m"

lemma annotated_key: "job_key a = job_key b \<Longrightarrow> j_prompt a = j_prompt b \<Longrightarrow> annotated rows a = annotated rows b"
  by (simp add: annotated_def)

lemma completable_cong:
  assumes "tracked a = tracked b" "same_sources m m'"
  shows "completable E m' a = completable E m b"
proof -
  note t = tracked_simps [OF assms(1)]
  have "satisfied E m' a = satisfied E m b"
    using assms(2) annotated_key [OF t(4,5)] by (simp add: satisfied_def t same_sources_def split: task_type.split)
  then show ?thesis by (simp add: completable_def t)
qed

lemma superseded_cong:
  assumes "tracked a = tracked b" "set dates = set dates'"
  shows "superseded E dates revs a = superseded E dates' revs b"
  by (simp add: superseded_def newer_in_scope_def on_protected_day_def tracked_simps [OF assms(1)] assms(2))

lemma outranked_cong: "set dates = set dates' \<Longrightarrow> outranked E epoch dates revs c = outranked E epoch dates' revs c"
  by (simp add: outranked_def peer_in_scope_def on_protected_day_def)

lemma obsolete_cong:
  assumes "tracked a = tracked b" "same_sources m m'" "set dates = set dates'"
  shows "obsolete E epoch dates (mb_ledger m') a = obsolete E epoch dates' (mb_ledger m) b"
proof -
  note t = tracked_simps [OF assms(1)]
  have "not_annotatable E epoch dates (mb_ledger m') a = not_annotatable E epoch dates' (mb_ledger m) b"
    using assms(2) annotated_key [OF t(4,5)]
    by (simp add: not_annotatable_def t same_sources_def outranked_cong [OF assms(3)])
  then show ?thesis
    using assms(2) superseded_cong [OF assms(1,3)] by (simp add: obsolete_def t same_sources_def)
qed

definition settled :: "sql_env \<Rightarrow> instant \<Rightarrow> string list \<Rightarrow> maintenance_db \<Rightarrow> bool" where
  "settled E epoch dates m \<longleftrightarrow>
     (\<forall>j \<in> set (mb_jobs m). \<not> completable E m j \<and> \<not> obsolete E epoch dates (mb_ledger m) j)"

lemma settled_cong:
  assumes "map tracked (mb_jobs m') = map tracked (mb_jobs m)" "same_sources m m'" "set dates = set dates'"
    "settled E epoch dates' m"
  shows "settled E epoch dates m'"
  unfolding settled_def
proof
  fix j
  assume "j \<in> set (mb_jobs m')"
  then have "tracked j \<in> set (map tracked (mb_jobs m'))" by simp
  then obtain j0 where j0: "j0 \<in> set (mb_jobs m)" "tracked j = tracked j0" unfolding assms(1) by auto
  with assms(4) show "\<not> completable E m' j \<and> \<not> obsolete E epoch dates (mb_ledger m') j"
    by (simp add: settled_def completable_cong [OF j0(2) assms(2)] obsolete_cong [OF j0(2) assms(2,3)])
qed

section \<open>The two statements\<close>

lemma set_jobs_simps [simp]:
  "ld_jobs (mb_ledger (set_jobs s m)) = fst s" "mb_derived (set_jobs s m) = snd s" "mb_cache (set_jobs s m) = mb_cache m"
  "mb_assessments (set_jobs s m) = mb_assessments m" "ld_epoch (mb_ledger (set_jobs s m)) = ld_epoch (mb_ledger m)"
  "ld_revisions (mb_ledger (set_jobs s m)) = ld_revisions (mb_ledger m)"
  "ld_annotations (mb_ledger (set_jobs s m)) = ld_annotations (mb_ledger m)"
  "ld_translations (mb_ledger (set_jobs s m)) = ld_translations (mb_ledger m)"
  by (simp_all add: set_jobs_def)

lemma set_jobs_sources [simp]: "same_sources m (set_jobs s m)"
  by (simp add: same_sources_def)

lemma set_jobs_same [simp]: "set_jobs (mb_jobs m, mb_derived m) m = m"
  by (simp add: set_jobs_def)

definition closed_row :: "instant \<Rightarrow> job \<Rightarrow> job" where
  "closed_row now j =
     j\<lparr>j_state := COMPLETED, j_lease_owner := None, j_lease_expires_at := None, j_updated_at := now,
       j_completed_at := Some now\<rparr>"

definition retired_row :: "instant \<Rightarrow> job \<Rightarrow> job" where
  "retired_row now j =
     j\<lparr>j_state := DEAD_LETTER, j_lease_owner := None, j_lease_expires_at := None, j_last_error := Some RETIRED_ERROR,
       j_updated_at := now, j_completed_at := Some now\<rparr>"

definition close_job :: "sql_env \<Rightarrow> maintenance_db \<Rightarrow> instant \<Rightarrow> job \<Rightarrow> job" where
  "close_job E m now j = (if completable E m j then closed_row now j else j)"

definition retire_job :: "sql_env \<Rightarrow> instant \<Rightarrow> string list \<Rightarrow> maintenance_db \<Rightarrow> instant \<Rightarrow> job \<Rightarrow> job" where
  "retire_job E epoch dates m now j = (if obsolete E epoch dates (mb_ledger m) j then retired_row now j else j)"

definition reconciled_job :: "sql_env \<Rightarrow> instant \<Rightarrow> string list \<Rightarrow> maintenance_db \<Rightarrow> instant \<Rightarrow> job \<Rightarrow> job" where
  "reconciled_job E epoch dates m now j = retire_job E epoch dates m now (close_job E m now j)"

lemma statements_apply:
  "apply_statement (completion_statement E m now) jobs = map (close_job E m now) jobs"
  "apply_statement (obsolescence_statement E epoch dates (mb_ledger m) now) jobs = map (retire_job E epoch dates m now) jobs"
  by (simp_all add: completion_statement_def obsolescence_statement_def sql_update_def close_job_def retire_job_def
      closed_row_def retired_row_def cong: map_cong)

lemma reconciled_settles:
  "\<not> completable E m (reconciled_job E epoch dates m now j)"
  "\<not> obsolete E epoch dates (mb_ledger m) (reconciled_job E epoch dates m now j)"
proof -
  let ?c = "close_job E m now j"
  have c: "\<not> completable E m ?c" by (simp add: close_job_def closed_row_def completable_def)
  have r: "retired (retired_row now ?c)" by (simp add: retired_row_def retired_def RETIRED_ERRORS_def)
  from c r show "\<not> completable E m (reconciled_job E epoch dates m now j)"
    by (simp add: reconciled_job_def retire_job_def) (simp add: completable_def)
  from r show "\<not> obsolete E epoch dates (mb_ledger m) (reconciled_job E epoch dates m now j)"
    by (simp add: reconciled_job_def retire_job_def) (simp add: obsolete_def)
qed

lemma fold_two: "fold apply_statement [a, b] jobs = apply_statement b (apply_statement a jobs)"
  by simp

lemma reconcile_jobs_runs:
  assumes "reconcile_jobs E epoch dates now m = Inr (n, m')"
  obtains d' where "m' = set_jobs (map (reconciled_job E epoch dates m now) (mb_jobs m), d') m"
    "run_statements (ledger_day E (mb_ledger m))
       [completion_statement E m now, obsolescence_statement E epoch dates (mb_ledger m) now] (mb_jobs m, mb_derived m) =
       Inr (mb_jobs m', d')"
    "n = sql_count (completable E m) (mb_jobs m) +
         sql_count (obsolete E epoch dates (mb_ledger m)) (map (close_job E m now) (mb_jobs m))"
proof -
  from assms obtain s where s: "run_statements (ledger_day E (mb_ledger m))
       [completion_statement E m now, obsolescence_statement E epoch dates (mb_ledger m) now] (mb_jobs m, mb_derived m) = Inr s"
    and m': "m' = set_jobs s m"
    and n: "n = sql_count (completable E m) (mb_jobs m) +
         sql_count (obsolete E epoch dates (mb_ledger m)) (map (close_job E m now) (mb_jobs m))"
    by (auto simp: reconcile_jobs_def Let_def run_job_statements_def bind_out_Inr_iff statements_apply)
  from s have "fst s = map (retire_job E epoch dates m now) (map (close_job E m now) (mb_jobs m))"
    by (auto simp: run_statements_def run_statement_def bind_out_Inr_iff statements_apply simp del: map_map)
  then have "s = (map (reconciled_job E epoch dates m now) (mb_jobs m), snd s)"
    by (simp add: prod_eq_iff reconciled_job_def [abs_def] comp_def)
  with s m' n that [of "snd s"] show ?thesis by simp
qed

lemma reconcile_jobs_settles:
  assumes "reconcile_jobs E epoch dates now m = Inr (n, m')"
  shows "settled E epoch dates m'"
proof -
  from assms obtain d' where m': "m' = set_jobs (map (reconciled_job E epoch dates m now) (mb_jobs m), d') m"
    by (rule reconcile_jobs_runs)
  then have src: "same_sources m m'" by simp
  show ?thesis unfolding settled_def
  proof
    fix j
    assume "j \<in> set (mb_jobs m')"
    then obtain j0 where j: "j = reconciled_job E epoch dates m now j0" by (auto simp: m')
    show "\<not> completable E m' j \<and> \<not> obsolete E epoch dates (mb_ledger m') j"
      using reconciled_settles [where E = E and m = m and epoch = epoch and dates = dates and now = now and j = j0]
      by (simp add: completable_cong [OF refl src] obsolete_cong [OF refl src refl] j)
  qed
qed

lemma no_rows_no_effect: "\<forall>j \<in> set jobs. \<not> p j \<Longrightarrow> run_statement day (UpdateJobs p f) (jobs, d) = Inr (jobs, d)"
  by (simp add: run_statement_def bind_out_def sql_update_def map_idI)

lemma settled_reconciles:
  assumes "settled E epoch dates m"
  shows "reconcile_jobs E epoch dates now m = Inr (0, m)"
proof -
  have c: "\<forall>j \<in> set (mb_jobs m). \<not> completable E m j" and o: "\<forall>j \<in> set (mb_jobs m). \<not> obsolete E epoch dates (mb_ledger m) j"
    using assms by (simp_all add: settled_def)
  have m: "map (close_job E m now) (mb_jobs m) = mb_jobs m" using c by (simp add: close_job_def map_idI)
  have z: "sql_count (completable E m) (mb_jobs m) = 0" "sql_count (obsolete E epoch dates (mb_ledger m)) (mb_jobs m) = 0"
    using c o by (simp_all add: sql_count_eq_0_iff)
  have "run_job_statements E [completion_statement E m now, obsolescence_statement E epoch dates (mb_ledger m) now] m = Inr m"
    by (simp add: run_job_statements_def run_statements_def completion_statement_def obsolescence_statement_def
        no_rows_no_effect [OF c] no_rows_no_effect [OF o] bind_out_def)
  then show ?thesis by (simp add: reconcile_jobs_def Let_def statements_apply m z bind_out_def)
qed

section \<open>What a history keeps\<close>

definition grows :: "maintenance_db \<Rightarrow> maintenance_db \<Rightarrow> bool" where
  "grows m m' \<longleftrightarrow>
     ld_epoch (mb_ledger m') = ld_epoch (mb_ledger m) \<and>
     prefix (ld_revisions (mb_ledger m)) (ld_revisions (mb_ledger m')) \<and>
     prefix (ld_annotations (mb_ledger m)) (ld_annotations (mb_ledger m')) \<and>
     prefix (ld_translations (mb_ledger m)) (ld_translations (mb_ledger m')) \<and>
     prefix (mb_assessments m) (mb_assessments m') \<and>
     (\<exists>k. later_by k (dv_revision (mb_derived m)) (dv_revision (mb_derived m')) \<and>
       (k = 0 \<longrightarrow> map tracked (mb_jobs m') = map tracked (mb_jobs m)))"

lemma grows_refl: "grows m m"
  unfolding grows_def by (simp add: exI [of _ 0] later_refl)

lemma grows_trans:
  assumes "grows a b" "grows b c"
  shows "grows a c"
proof -
  from assms obtain k l where k: "later_by k (dv_revision (mb_derived a)) (dv_revision (mb_derived b))"
      "k = 0 \<longrightarrow> map tracked (mb_jobs b) = map tracked (mb_jobs a)"
    and l: "later_by l (dv_revision (mb_derived b)) (dv_revision (mb_derived c))"
      "l = 0 \<longrightarrow> map tracked (mb_jobs c) = map tracked (mb_jobs b)"
    by (auto simp: grows_def)
  have "later_by (k + l) (dv_revision (mb_derived a)) (dv_revision (mb_derived c))" by (rule later_trans [OF k(1) l(1)])
  moreover have "k + l = 0 \<longrightarrow> map tracked (mb_jobs c) = map tracked (mb_jobs a)" using k(2) l(2) by simp
  ultimately show ?thesis using assms unfolding grows_def by (blast intro: prefix_order.trans dest: sym trans)
qed

lemma statements_grow:
  assumes "run_statements day sts (mb_jobs m, mb_derived m) = Inr s"
  shows "grows m (set_jobs s m)"
  using statements_revision [of day sts "mb_jobs m" "mb_derived m" "fst s" "snd s"] assms by (simp add: grows_def)

lemma job_statements_grow:
  assumes "run_job_statements E sts m = Inr m'"
  shows "grows m m' \<and> mb_cache m' = mb_cache m"
  using assms statements_grow by (auto simp: run_job_statements_def bind_out_Inr_iff)

lemma refresh_revision_more [simp]:
  "ld_jobs (refresh_news_revision_state k db) = ld_jobs db" "ld_epoch (refresh_news_revision_state k db) = ld_epoch db"
  by (simp_all add: refresh_news_revision_state_def split: option.splits)

lemma statements_jobs: "run_statements day sts (jobs, d) = Inr (jobs', d') \<Longrightarrow> jobs' = fold apply_statement sts jobs"
proof (induction sts arbitrary: jobs d)
  case (Cons st sts)
  then show ?case by (auto simp: run_statements_def run_statement_def bind_out_Inr_iff)
qed (simp add: run_statements_def)

lemma append_keeps_epoch:
  assumes "run_append P act db = Inr db'"
  shows "ld_epoch db' = ld_epoch db"
proof (cases act)
  case (AppendRevision q)
  with assms obtain r where "append_news_revision P q db = Inr (r, db')" by (auto simp: map_sum_Inr)
  then show ?thesis by (cases rule: append_revision_shape) auto
next
  case (AppendContentFailure f)
  with assms show ?thesis
    by (auto simp: append_content_failure_def split: if_splits)
next
  case (AppendAnnotation a)
  with assms obtain db2 where
    c: "record_annotation_completion P (nn_key a) (nn_prompt a) (nn_parsed a) None
          (db\<lparr>ld_annotations := ld_annotations db @ [a]\<rparr>) = Inr db2"
    and db': "db' = refresh_news_revision_state (nn_key a) db2"
    by (auto simp: append_annotation_def bind_out_Inr_iff split: if_splits)
  have "ld_epoch db2 = ld_epoch db" by (subst completion_keeps [OF c]) simp
  then show ?thesis by (simp add: db')
next
  case (AppendMacro m)
  with assms obtain r where "append_macro_observation m db = Inr (r, db')" by (auto simp: map_sum_Inr)
  then show ?thesis by (cases rule: macro_shape) auto
qed (use assms in \<open>auto dest!: side_table_shapes\<close>)

lemma appended_jobs:
  assumes "run_append P act db = Inr db'"
  shows "ld_jobs db' = fold apply_statement (append_statements P act db) (ld_jobs db)"
proof (cases act)
  case (AppendRevision q)
  with assms obtain r where "append_news_revision P q db = Inr (r, db')" by (auto simp: map_sum_Inr)
  then have "ld_jobs db' = ld_jobs db" by (cases rule: append_revision_shape) auto
  with AppendRevision show ?thesis by simp
next
  case (AppendContentFailure f)
  with assms show ?thesis by (auto simp: append_content_failure_def split: if_splits)
next
  case (AppendAnnotation a)
  with assms obtain db2 where
    c: "record_annotation_completion P (nn_key a) (nn_prompt a) (nn_parsed a) None
          (db\<lparr>ld_annotations := ld_annotations db @ [a]\<rparr>) = Inr db2"
    and db': "db' = refresh_news_revision_state (nn_key a) db2"
    by (auto simp: append_annotation_def bind_out_Inr_iff split: if_splits)
  show ?thesis using c unfolding AppendAnnotation db'
    by (auto simp: record_annotation_completion_def Let_def insert_job_def sql_insert_ignore_def list_ex_iff split: if_splits)
next
  case (AppendMacro m)
  with assms obtain r where "append_macro_observation m db = Inr (r, db')" by (auto simp: map_sum_Inr)
  then have "ld_jobs db' = ld_jobs db" by (cases rule: macro_shape) auto
  with AppendMacro show ?thesis by simp
qed (use assms in \<open>auto dest!: side_table_shapes\<close>)

lemma maintain_append_grows:
  assumes "maintain_append E act m = Inr m'"
  shows "grows m m' \<and> mb_cache m' = mb_cache m"
proof -
  let ?sts = "append_statements (sq_platform E) act (mb_ledger m)"
  from assms obtain l s where l: "run_append (sq_platform E) act (mb_ledger m) = Inr l"
    and s: "run_statements (ledger_day E l) ?sts (mb_jobs m, mb_derived m) = Inr s"
    and m': "m' = m\<lparr>mb_ledger := l, mb_derived := snd s\<rparr>"
    by (auto simp: maintain_append_def bind_out_Inr_iff)
  have fst: "fst s = fold apply_statement ?sts (mb_jobs m)"
    using statements_jobs [of "ledger_day E l" ?sts "mb_jobs m" "mb_derived m" "fst s" "snd s"] s by simp
  obtain k where "later_by k (dv_revision (mb_derived m)) (dv_revision (snd s))"
    "k = 0 \<longrightarrow> map tracked (fst s) = map tracked (mb_jobs m)"
    using statements_revision [of "ledger_day E l" ?sts "mb_jobs m" "mb_derived m" "fst s" "snd s"] s by auto
  then show ?thesis
    using run_append_extends [OF l] append_keeps_epoch [OF l] appended_jobs [OF l] fst
    by (auto simp: m' grows_def extends_def)
qed

lemma assess_shape:
  assumes "append_news_impact_assessment a r m = Inr m'"
  obtains rows where "m' = m\<lparr>mb_assessments := mb_assessments m @ [a\<lparr>ia_reason := strip (ia_reason a)\<rparr>], mb_resolutions := rows\<rparr>"
proof -
  from assms obtain comparison where res:
    "(case r of None \<Rightarrow> Inr (m\<lparr>mb_assessments := mb_assessments m @ [a\<lparr>ia_reason := strip (ia_reason a)\<rparr>]\<rparr>)
      | Some f \<Rightarrow> insert_resolution a f comparison
          (m\<lparr>mb_assessments := mb_assessments m @ [a\<lparr>ia_reason := strip (ia_reason a)\<rparr>]\<rparr>)) = Inr m'"
    by (auto simp: append_news_impact_assessment_def bind_out_Inr_iff Let_def split: if_splits)
  then show ?thesis
  proof (cases r)
    case None
    with res have "m' = m\<lparr>mb_assessments := mb_assessments m @ [a\<lparr>ia_reason := strip (ia_reason a)\<rparr>]\<rparr>" by simp
    then have "m' = m\<lparr>mb_assessments := mb_assessments m @ [a\<lparr>ia_reason := strip (ia_reason a)\<rparr>], mb_resolutions := mb_resolutions m\<rparr>"
      by simp
    then show ?thesis by (rule that)
  next
    case (Some f)
    with res that show ?thesis by (auto simp: insert_resolution_def Let_def split: if_splits)
  qed
qed

lemma reopen_grows:
  assumes "reopen_jobs E now jids k m = Inr (k', m')"
  shows "grows m m' \<and> mb_cache m' = mb_cache m"
  using assms
proof (induction jids arbitrary: k m)
  case (Cons jid jids)
  then obtain m1 where m1: "run_job_statements E [reopen_statement now jid] m = Inr m1"
    "reopen_jobs E now jids (k + sql_count (reopened jid) (mb_jobs m)) m1 = Inr (k', m')"
    by (auto simp: bind_out_Inr_iff)
  from job_statements_grow [OF m1(1)] Cons.IH [OF m1(2)] show ?case by (auto intro: grows_trans)
qed (simp add: grows_refl)

section \<open>An accepted key names a settled queue\<close>

text \<open>The acceptance in the cache is the key of an earlier settled state of the same database.\<close>

definition accepted :: "sql_env \<Rightarrow> maintenance_db \<Rightarrow> bool" where
  "accepted E m \<longleftrightarrow>
     (case mb_cache m of
        None \<Rightarrow> True
      | Some (key, t) \<Rightarrow>
          (\<exists>h epoch dates m0. reconciliation_input_key E h epoch dates m0 = Some key \<and> settled E epoch dates m0 \<and>
             ld_epoch (mb_ledger m0) = Some epoch \<and> grows m0 m))"

lemma accepted_grows:
  assumes "accepted E m" "grows m m'" "mb_cache m' = mb_cache m"
  shows "accepted E m'"
proof (cases "mb_cache m")
  case None
  with assms(3) show ?thesis by (simp add: accepted_def)
next
  case (Some c)
  obtain key t where c: "c = (key, t)" by (cases c)
  from assms(1) obtain h epoch dates m0 where "reconciliation_input_key E h epoch dates m0 = Some key"
    "settled E epoch dates m0" "ld_epoch (mb_ledger m0) = Some epoch" "grows m0 m"
    unfolding accepted_def Some c by auto
  moreover from this(4) assms(2) have "grows m0 m'" by (rule grows_trans)
  ultimately show ?thesis unfolding accepted_def assms(3) Some c by auto
qed

lemma store_cases:
  obtains (kept) "store_acceptance E h w epoch dates now m = m"
  | (stored) key where "reconciliation_input_key E h epoch dates m = Some key"
      "store_acceptance E h w epoch dates now m = m\<lparr>mb_cache := Some (key, now)\<rparr>"
proof (cases "reconciliation_input_key E h epoch dates m")
  case None
  then show ?thesis by (intro kept) (simp add: store_acceptance_def)
next
  case (Some key)
  show ?thesis
  proof (cases "store_acceptance E h w epoch dates now m = m")
    case False
    then have "store_acceptance E h w epoch dates now m = m\<lparr>mb_cache := Some (key, now)\<rparr>"
      by (simp add: store_acceptance_def Some Let_def split: if_splits)
    with Some show ?thesis by (rule stored)
  qed (rule kept)
qed

lemma grows_cache [simp]: "grows m (m'\<lparr>mb_cache := c\<rparr>) = grows m m'"
  by (simp add: grows_def)

lemma reconcile_accepts:
  assumes "reconcile_completed_jobs E q m = Inr (k, m')" "accepted E m"
  shows "accepted E m' \<and> grows m m'"
proof -
  let ?dates = "dedupe (rq_days q)"
  obtain epoch where ep: "ld_epoch (mb_ledger m) = Some epoch"
    using assms(1) by (auto simp: reconcile_completed_jobs_def split: option.splits)
  from assms(1) ep consider (skipped) "m' = m"
    | (ran) m1 where "reconcile_jobs E epoch ?dates (rq_now q) m = Inr (k, m1)"
        "m' = m1 \<or> m' = store_acceptance E (rq_hooks_current q) (rq_writable q) epoch ?dates (rq_now q) m1"
    by (auto simp: reconcile_completed_jobs_def Let_def bind_out_Inr_iff split: if_splits)
  then show ?thesis
  proof cases
    case skipped
    with assms(2) show ?thesis by (simp add: grows_refl)
  next
    case (ran m1)
    from ran(1) obtain d' where m1: "m1 = set_jobs (mb_jobs m1, d') m"
      "run_statements (ledger_day E (mb_ledger m))
        [completion_statement E m (rq_now q), obsolescence_statement E epoch ?dates (mb_ledger m) (rq_now q)]
        (mb_jobs m, mb_derived m) = Inr (mb_jobs m1, d')"
      by (elim reconcile_jobs_runs) simp
    have g: "grows m m1" by (subst m1(1)) (rule statements_grow [OF m1(2)])
    have c: "mb_cache m1 = mb_cache m" by (subst m1(1)) simp
    have e: "ld_epoch (mb_ledger m1) = Some epoch" using g ep by (simp add: grows_def)
    from accepted_grows [OF assms(2) g c] have a: "accepted E m1" .
    show ?thesis
    proof (cases "m' = m1")
      case True
      with a g show ?thesis by simp
    next
      case False
      with ran(2) have m': "m' = store_acceptance E (rq_hooks_current q) (rq_writable q) epoch ?dates (rq_now q) m1" by simp
      show ?thesis
      proof (cases E "rq_hooks_current q" "rq_writable q" epoch ?dates "rq_now q" m1 rule: store_cases)
        case kept
        with m' a g show ?thesis by simp
      next
        case (stored key)
        have "accepted E (m1\<lparr>mb_cache := Some (key, rq_now q)\<rparr>)"
          unfolding accepted_def using stored(1) reconcile_jobs_settles [OF ran(1)] e grows_refl [of m1] by auto
        with g stored(2) m' show ?thesis by simp
      qed
    qed
  qed
qed

lemma maintain_accepts:
  assumes "maintain E act m = Inr m'" "accepted E m"
  shows "accepted E m'"
proof (cases act)
  case (Append a)
  with assms maintain_append_grows [of E a m m'] show ?thesis by (auto intro: accepted_grows)
next
  case (Assess a r)
  with assms(1) obtain rows where m': "m' = m\<lparr>mb_assessments := mb_assessments m @ [a\<lparr>ia_reason := strip (ia_reason a)\<rparr>],
      mb_resolutions := rows\<rparr>" by (auto elim: assess_shape)
  have "grows m m'" unfolding m' grows_def by (simp add: exI [of _ 0] later_refl)
  with assms(2) show ?thesis by (rule accepted_grows) (simp add: m')
next
  case (RunQueue sts)
  with assms job_statements_grow [of E sts m m'] show ?thesis by (auto intro: accepted_grows)
next
  case (Reconcile q)
  with assms(1) obtain k where "reconcile_completed_jobs E q m = Inr (k, m')" by (auto simp: map_sum_Inr)
  from reconcile_accepts [OF this assms(2)] show ?thesis by simp
next
  case (Reopen keys prompt now)
  with assms(1) obtain k where "reopen_jobs E now (protected_job_ids (sq_platform E) prompt keys) 0 m = Inr (k, m')"
    by (auto simp: map_sum_Inr reopen_protected_annotation_jobs_def)
  from reopen_grows [OF this] assms(2) show ?thesis by (auto intro: accepted_grows)
qed

lemma history_accepts: "fold_out (maintain E) acts m = Inr m' \<Longrightarrow> accepted E m \<Longrightarrow> accepted E m'"
  by (rule fold_out_invariant [where I = "accepted E"]) (use maintain_accepts in auto)

section \<open>Equal keys are equal inputs\<close>

lemma heads_length:
  assumes "source_head c rows = Some h" "source_head c rows' = Some h"
  shows "length rows' = length rows"
  using assms by (auto simp: source_head_def split: if_splits)

lemma revision_needs_hooks: "news_job_input_revision h v = Some w \<Longrightarrow> h"
  by (auto simp: news_job_input_revision_def split: option.splits if_splits)

lemma key_parts:
  assumes "reconciliation_input_key E h epoch dates m = Some key"
  obtains w heads where "news_job_input_revision True (dv_revision (mb_derived m)) = Some w" "source_heads m = Some heads"
    "key = key_json E epoch dates w heads"
proof -
  from assms obtain w heads where "news_job_input_revision h (dv_revision (mb_derived m)) = Some w" "source_heads m = Some heads"
    "key = key_json E epoch dates w heads"
    by (auto simp: reconciliation_input_key_def Let_def split: option.splits if_splits)
  with revision_needs_hooks [OF this(1)] that show ?thesis by simp
qed

lemma key_json_inject:
  assumes "key_json E epoch dates w heads = key_json E epoch' dates' w' heads'"
  shows "set dates = set dates'" "w = w'" "heads = heads'"
proof -
  have "sort dates = sort dates'" using assms by (simp add: key_json_def inj_map_eq_map inj_def)
  then show "set dates = set dates'" by (metis set_sort)
  show "w = w'" "heads = heads'" using assms by (simp_all add: key_json_def)
qed

lemma equal_prefix: "prefix xs ys \<Longrightarrow> length ys = length xs \<Longrightarrow> ys = xs"
  by (auto simp: prefix_def)

lemma equal_heads:
  assumes "source_heads m = Some heads" "source_heads m' = Some heads" "grows m m'"
  shows "same_sources m m'"
proof -
  from assms(1,2) have "length (ld_revisions (mb_ledger m')) = length (ld_revisions (mb_ledger m))"
    "length (ld_annotations (mb_ledger m')) = length (ld_annotations (mb_ledger m))"
    "length (ld_translations (mb_ledger m')) = length (ld_translations (mb_ledger m))"
    "length (mb_assessments m') = length (mb_assessments m)"
    by (auto simp: source_heads_def split: option.splits intro: heads_length)
  with assms(3) show ?thesis by (simp add: grows_def same_sources_def equal_prefix)
qed

lemma accepted_settled:
  assumes "accepted E m" "reconciliation_is_unchanged E h epoch dates now m" "ld_epoch (mb_ledger m) = Some epoch"
  shows "settled E epoch dates m"
proof -
  from assms(2) obtain key t where key: "reconciliation_input_key E h epoch dates m = Some key" and "mb_cache m = Some (key, t)"
    by (auto simp: reconciliation_is_unchanged_def split: option.splits prod.splits)
  with assms(1) obtain h0 epoch0 dates0 m0 where key0: "reconciliation_input_key E h0 epoch0 dates0 m0 = Some key"
    and s0: "settled E epoch0 dates0 m0" and e0: "ld_epoch (mb_ledger m0) = Some epoch0" and g: "grows m0 m"
    by (auto simp: accepted_def)
  from key obtain w heads where k: "news_job_input_revision True (dv_revision (mb_derived m)) = Some w"
    "source_heads m = Some heads" "key = key_json E epoch dates w heads" by (rule key_parts)
  from key0 obtain w0 heads0 where k0: "news_job_input_revision True (dv_revision (mb_derived m0)) = Some w0"
    "source_heads m0 = Some heads0" "key = key_json E epoch0 dates0 w0 heads0" by (rule key_parts)
  note eq = key_json_inject [OF k(3) [symmetric, unfolded k0(3)]]
  from eq k(2) k0(2) have src: "same_sources m0 m" by (intro equal_heads [OF _ _ g]) simp_all
  from g obtain n where n: "later_by n (dv_revision (mb_derived m0)) (dv_revision (mb_derived m))"
    "n = 0 \<longrightarrow> map tracked (mb_jobs m) = map tracked (mb_jobs m0)" by (auto simp: grows_def)
  from n(1) k(1) have "news_job_input_revision True (dv_revision (mb_derived m0)) = Some (w - int n)" by (simp add: later_by_def)
  with k0(1) eq(2) have "n = 0" by simp
  with n(2) have tr: "map tracked (mb_jobs m) = map tracked (mb_jobs m0)" by simp
  have "epoch0 = epoch" using g e0 assms(3) by (simp add: grows_def)
  with s0 settled_cong [OF tr src] eq(1) show ?thesis by simp
qed

text \<open>An acceptance that was stored is used by the next call with the same days and a later clock.\<close>

lemma stored_is_unchanged:
  assumes "reconciliation_input_key E h epoch dates m = Some key" "now \<le> later"
  shows "reconciliation_is_unchanged E h epoch dates later (m\<lparr>mb_cache := Some (key, now)\<rparr>)"
proof -
  have "source_heads (m\<lparr>mb_cache := Some (key, now)\<rparr>) = source_heads m" by (simp add: source_heads_def)
  then have "reconciliation_input_key E h epoch dates (m\<lparr>mb_cache := Some (key, now)\<rparr>) = Some key"
    using assms(1) by (simp add: reconciliation_input_key_def cong: option.case_cong)
  with assms(2) show ?thesis by (simp add: reconciliation_is_unchanged_def)
qed

section \<open>Properties\<close>

text \<open>
  C27: the cache is transparent: after any history of the database, a call that may skip its work returns
  what the call without the cache returns and leaves the same database, apart from the cached acceptance.
\<close>

theorem reconciliation_cache_is_transparent:
  assumes "fold_out (maintain E) acts m0 = Inr m" "mb_cache m0 = None"
  shows "map_sum id (\<lambda>r. (fst r, (snd r)\<lparr>mb_cache := None\<rparr>)) (reconcile_completed_jobs E q m) =
    map_sum id (\<lambda>r. (fst r, (snd r)\<lparr>mb_cache := None\<rparr>)) (reconcile_completed_jobs E (q\<lparr>rq_managed := False\<rparr>) m)"
proof (cases "ld_epoch (mb_ledger m)")
  case None
  then show ?thesis by (simp add: reconcile_completed_jobs_def)
next
  case (Some epoch)
  let ?dates = "dedupe (rq_days q)"
  have acc: "accepted E m" by (rule history_accepts [OF assms(1)]) (simp add: accepted_def assms(2))
  have store: "(store_acceptance E h w epoch dates now x)\<lparr>mb_cache := None\<rparr> = x\<lparr>mb_cache := None\<rparr>" for h w dates now x
    by (cases E h w epoch dates now x rule: store_cases) simp_all
  show ?thesis
  proof (cases "reconciliation_is_unchanged E (rq_hooks_current q) epoch ?dates (rq_now q) m")
    case True
    from settled_reconciles [OF accepted_settled [OF acc True Some]]
    show ?thesis by (simp add: reconcile_completed_jobs_def Some Let_def bind_out_def store)
  next
    case False
    then show ?thesis
      by (cases "reconcile_jobs E epoch ?dates (rq_now q) m")
        (simp_all add: reconcile_completed_jobs_def Some Let_def bind_out_def store)
  qed
qed

lemma obsolete_leased: "obsolete E epoch dates db j \<Longrightarrow> j_state j \<noteq> LEASED"
  by (simp add: obsolete_def)

lemma reconciled_changes:
  "reconciled_job E epoch dates m now j = j \<longleftrightarrow>
     \<not> completable E m j \<and> \<not> obsolete E epoch dates (mb_ledger m) (close_job E m now j)"
proof
  assume same: "reconciled_job E epoch dates m now j = j"
  have o: "\<not> obsolete E epoch dates (mb_ledger m) (close_job E m now j)"
  proof
    assume ob: "obsolete E epoch dates (mb_ledger m) (close_job E m now j)"
    then have "reconciled_job E epoch dates m now j = retired_row now (close_job E m now j)"
      by (simp add: reconciled_job_def retire_job_def)
    then have "j_last_error j = j_last_error (retired_row now (close_job E m now j))" using same by simp
    then have "retired j" by (simp add: retired_row_def retired_def RETIRED_ERRORS_def)
    with ob show False by (simp add: obsolete_def close_job_def completable_def split: if_splits)
  qed
  moreover have "\<not> completable E m j"
  proof
    assume c: "completable E m j"
    with o same have "closed_row now j = j" by (simp add: reconciled_job_def retire_job_def close_job_def split: if_splits)
    then have "j_state j = j_state (closed_row now j)" by simp
    then have "j_state j = COMPLETED" by (simp add: closed_row_def)
    with c show False by (simp add: completable_def)
  qed
  ultimately show "\<not> completable E m j \<and> \<not> obsolete E epoch dates (mb_ledger m) (close_job E m now j)" by simp
next
  assume "\<not> completable E m j \<and> \<not> obsolete E epoch dates (mb_ledger m) (close_job E m now j)"
  moreover from this have "close_job E m now j = j" by (simp add: close_job_def)
  ultimately show "reconciled_job E epoch dates m now j = j" by (simp add: reconciled_job_def retire_job_def)
qed

lemma reconciled_row:
  assumes "j' = reconciled_job E epoch dates m now j"
  shows "j_id j' = j_id j" "job_identity j' = job_identity j" "j_attempt_count j' = j_attempt_count j"
    "retired j \<Longrightarrow> j' = j"
    "j_state j = LEASED \<Longrightarrow> \<not> satisfied E m j \<Longrightarrow> j' = j"
    "\<not> retired j \<Longrightarrow> satisfied E m j \<Longrightarrow> j_state j' = COMPLETED \<or> j_state j' = DEAD_LETTER \<and> retired j'"
    "j' \<noteq> j \<Longrightarrow> j_lease_owner j' = None \<and> j_lease_expires_at j' = None \<and> j_completed_at j' = Some now"
proof -
  show "j_id j' = j_id j" "job_identity j' = job_identity j" "j_attempt_count j' = j_attempt_count j"
    by (simp_all add: assms reconciled_job_def retire_job_def close_job_def retired_row_def closed_row_def job_identity_def)
  show "j' = j" if "retired j" using that
    by (simp add: assms reconciled_job_def retire_job_def close_job_def completable_def obsolete_def)
  show "j' = j" if "j_state j = LEASED" "\<not> satisfied E m j" using that
    by (simp add: assms reconciled_job_def retire_job_def close_job_def completable_def obsolete_def)
  show "j_state j' = COMPLETED \<or> j_state j' = DEAD_LETTER \<and> retired j'" if "\<not> retired j" "satisfied E m j" using that
    by (simp add: assms reconciled_job_def retire_job_def close_job_def completable_def retired_row_def closed_row_def
        retired_def RETIRED_ERRORS_def)
  show "j_lease_owner j' = None \<and> j_lease_expires_at j' = None \<and> j_completed_at j' = Some now" if "j' \<noteq> j" using that
    by (simp add: assms reconciled_job_def retire_job_def close_job_def retired_row_def closed_row_def split: if_splits)
qed

lemma reconcile_jobs_total:
  assumes "counts_agree (mb_jobs m) (dv_counts (mb_derived m))"
  obtains d' where "counts_agree (map (reconciled_job E epoch dates m now) (mb_jobs m)) (dv_counts d')"
    "reconcile_jobs E epoch dates now m =
       Inr (sql_count (completable E m) (mb_jobs m) +
            sql_count (obsolete E epoch dates (mb_ledger m)) (map (close_job E m now) (mb_jobs m)),
            set_jobs (map (reconciled_job E epoch dates m now) (mb_jobs m), d') m)"
proof -
  let ?sts = "[completion_statement E m now, obsolescence_statement E epoch dates (mb_ledger m) now]"
  have jobs: "fold apply_statement ?sts (mb_jobs m) = map (reconciled_job E epoch dates m now) (mb_jobs m)"
    by (simp add: statements_apply reconciled_job_def comp_def)
  from statements_counts [OF assms, of "ledger_day E (mb_ledger m)" ?sts, unfolded jobs] obtain d' where
    d': "run_statements (ledger_day E (mb_ledger m)) ?sts (mb_jobs m, mb_derived m) =
      Inr (map (reconciled_job E epoch dates m now) (mb_jobs m), d')"
    "counts_agree (map (reconciled_job E epoch dates m now) (mb_jobs m)) (dv_counts d')" by blast
  from that [OF d'(2)] show ?thesis
    by (simp add: reconcile_jobs_def Let_def run_job_statements_def d'(1) bind_out_def statements_apply)
qed

lemma reconcile_count_zero:
  "sql_count (completable E m) (mb_jobs m) +
     sql_count (obsolete E epoch dates (mb_ledger m)) (map (close_job E m now) (mb_jobs m)) = 0 \<longleftrightarrow>
   map (reconciled_job E epoch dates m now) (mb_jobs m) = mb_jobs m"
proof -
  have "a + b = 0 \<longleftrightarrow> a = 0 \<and> b = 0" if "0 \<le> a" "0 \<le> b" for a b :: int using that by arith
  then have "sql_count (completable E m) (mb_jobs m) +
      sql_count (obsolete E epoch dates (mb_ledger m)) (map (close_job E m now) (mb_jobs m)) = 0 \<longleftrightarrow>
    (\<forall>j \<in> set (mb_jobs m). \<not> completable E m j \<and> \<not> obsolete E epoch dates (mb_ledger m) (close_job E m now j))"
    by (simp add: sql_count_nonneg sql_count_eq_0_iff ball_conj_distrib)
  also have "\<dots> \<longleftrightarrow> (\<forall>j \<in> set (mb_jobs m). reconciled_job E epoch dates m now j = j)"
    by (simp only: reconciled_changes)
  also have "\<dots> \<longleftrightarrow> map (reconciled_job E epoch dates m now) (mb_jobs m) = mb_jobs m"
    using map_eq_conv [of "reconciled_job E epoch dates m now" "mb_jobs m" id] by simp
  finally show ?thesis .
qed

text \<open>What a pass may do to one job.\<close>

definition settling :: "sql_env \<Rightarrow> maintenance_db \<Rightarrow> instant \<Rightarrow> job \<Rightarrow> job \<Rightarrow> bool" where
  "settling E m now j j' \<longleftrightarrow>
     j_id j' = j_id j \<and> job_identity j' = job_identity j \<and> j_attempt_count j' = j_attempt_count j \<and>
     (retired j \<longrightarrow> j' = j) \<and> (j_state j = LEASED \<and> \<not> satisfied E m j \<longrightarrow> j' = j) \<and>
     (\<not> retired j \<and> satisfied E m j \<longrightarrow> j_state j' = COMPLETED \<or> j_state j' = DEAD_LETTER \<and> retired j') \<and>
     (j' \<noteq> j \<longrightarrow> j_lease_owner j' = None \<and> j_lease_expires_at j' = None \<and> j_completed_at j' = Some now)"

lemma reconciled_settling: "settling E m now j (reconciled_job E epoch dates m now j)"
  using reconciled_row [OF refl, where E = E and epoch = epoch and dates = dates and m = m and now = now and j = j] unfolding settling_def by blast

text \<open>
  C29: reconciliation settles the queue in one pass: it cannot fail, keeps the dashboard counts, never
  touches a retired job nor a leased one that is not satisfied, leaves no satisfied job open, releases the
  lease of every job it changes, returns zero exactly when it changes nothing, and a second pass over the
  same days finds nothing to do, whatever its clock.
\<close>

theorem reconciliation_settles_the_queue:
  assumes "counts_agree (mb_jobs m) (dv_counts (mb_derived m))" "ld_epoch (mb_ledger m) = Some epoch"
    "\<not> rq_managed q"
  shows "\<exists>k m'. reconcile_completed_jobs E q m = Inr (k, m') \<and>
    counts_agree (mb_jobs m') (dv_counts (mb_derived m')) \<and>
    list_all2 (settling E m (rq_now q)) (mb_jobs m) (mb_jobs m') \<and>
    (k = 0 \<longleftrightarrow> mb_jobs m' = mb_jobs m) \<and>
    (\<forall>now. reconcile_completed_jobs E (q\<lparr>rq_now := now\<rparr>) m' = Inr (0, m'))"
proof -
  let ?dates = "dedupe (rq_days q)" and ?r = "reconciled_job E epoch (dedupe (rq_days q)) m (rq_now q)"
  from reconcile_jobs_total [OF assms(1), of E epoch ?dates "rq_now q"] obtain d' k m' where
    ca: "counts_agree (map ?r (mb_jobs m)) (dv_counts d')"
    and k: "k = sql_count (completable E m) (mb_jobs m) +
      sql_count (obsolete E epoch ?dates (mb_ledger m)) (map (close_job E m (rq_now q)) (mb_jobs m))"
    and m': "m' = set_jobs (map ?r (mb_jobs m), d') m"
    and run: "reconcile_jobs E epoch ?dates (rq_now q) m = Inr (k, m')" by blast
  have first: "reconcile_completed_jobs E q m = Inr (k, m')"
    by (simp add: reconcile_completed_jobs_def assms(2,3) run bind_out_def)
  have again: "reconcile_completed_jobs E (q\<lparr>rq_now := now\<rparr>) m' = Inr (0, m')" for now
    using settled_reconciles [OF reconcile_jobs_settles [OF run], of now] assms(2,3)
    by (simp add: reconcile_completed_jobs_def bind_out_def m')
  have zero: "k = 0 \<longleftrightarrow> mb_jobs m' = mb_jobs m" unfolding k reconcile_count_zero by (simp add: m')
  have rows: "list_all2 (settling E m (rq_now q)) (mb_jobs m) (mb_jobs m')"
    by (simp add: m' list_all2_conv_all_nth reconciled_settling)
  have "counts_agree (mb_jobs m') (dv_counts (mb_derived m'))" using ca by (simp add: m')
  with first rows zero again show ?thesis by blast
qed

section \<open>A sample database\<close>

definition sample_env :: sql_env where
  "sample_env = \<lparr>sq_platform = sample_platform, sq_day = (\<lambda>_. ''2026-01-02''), sq_title = (\<lambda>s. s \<noteq> []),
     sq_invalid_title = ''invalid''\<rparr>"

text \<open>One job of an annotation prompt that is no longer current.\<close>

definition sample_maintenance :: maintenance_db where
  "sample_maintenance = \<lparr>mb_ledger = empty_ledger\<lparr>ld_epoch := Some 0, ld_jobs := [sample_job]\<rparr>, mb_assessments = [],
     mb_resolutions = [], mb_derived = sample_derived, mb_cache = None\<rparr>"

definition sample_call :: reconcile_call where
  "sample_call = \<lparr>rq_now = 5, rq_managed = True, rq_in_transaction = False, rq_days = [''2026-01-02''],
     rq_hooks_current = True, rq_writable = True\<rparr>"

definition sample_reconciled :: maintenance_db where
  "sample_reconciled = projr (maintain sample_env (Reconcile sample_call) sample_maintenance)"

lemma sample_reconciles: "fold_out (maintain sample_env) [Reconcile sample_call] sample_maintenance = Inr sample_reconciled"
proof -
  have "\<not> isl (maintain sample_env (Reconcile sample_call) sample_maintenance)" by code_simp
  then show ?thesis by (simp add: sample_reconciled_def bind_out_def split: sum.splits)
qed

theorem reconciliation_cache_is_transparent_witness:
  "map j_state (mb_jobs sample_reconciled) = [DEAD_LETTER] \<and> mb_cache sample_reconciled \<noteq> None \<and>
   map_sum id (\<lambda>r. fst r) (reconcile_completed_jobs sample_env (sample_call\<lparr>rq_now := 6\<rparr>) sample_reconciled) =
   map_sum id (\<lambda>r. fst r) (reconcile_completed_jobs sample_env (sample_call\<lparr>rq_now := 6, rq_managed := False\<rparr>) sample_reconciled)"
proof -
  have a: "map j_state (mb_jobs sample_reconciled) = [DEAD_LETTER]" by code_simp
  have b: "\<not> Option.is_none (mb_cache sample_reconciled)" by code_simp
  have "mb_cache sample_maintenance = None" by (simp add: sample_maintenance_def)
  from reconciliation_cache_is_transparent [OF sample_reconciles this, of "sample_call\<lparr>rq_now := 6\<rparr>"]
  have "map_sum id fst (map_sum id (\<lambda>r. (fst r, (snd r)\<lparr>mb_cache := None\<rparr>))
        (reconcile_completed_jobs sample_env (sample_call\<lparr>rq_now := 6\<rparr>) sample_reconciled)) =
      map_sum id fst (map_sum id (\<lambda>r. (fst r, (snd r)\<lparr>mb_cache := None\<rparr>))
        (reconcile_completed_jobs sample_env (sample_call\<lparr>rq_now := 6, rq_managed := False\<rparr>) sample_reconciled))"
    by simp
  with a b show ?thesis by (simp add: map_sum.compositionality comp_def id_def Option.is_none_def)
qed

theorem reconciliation_settles_the_queue_witness:
  "\<exists>k m'. reconcile_completed_jobs sample_env (sample_call\<lparr>rq_managed := False\<rparr>) sample_maintenance = Inr (k, m') \<and>
     mb_jobs m' \<noteq> [] \<and> k \<noteq> 0"
proof -
  have c: "counts_agree (mb_jobs sample_maintenance) (dv_counts (mb_derived sample_maintenance))"
    using sample_derived_agrees by (simp add: sample_maintenance_def sample_db_def)
  have e: "ld_epoch (mb_ledger sample_maintenance) = Some 0" by (simp add: sample_maintenance_def)
  have n: "\<not> rq_managed (sample_call\<lparr>rq_managed := False\<rparr>)" by simp
  have s: "map j_state (mb_jobs (snd (projr (reconcile_completed_jobs sample_env (sample_call\<lparr>rq_managed := False\<rparr>) sample_maintenance)))) = [DEAD_LETTER]"
    "map j_state (mb_jobs sample_maintenance) = [QUEUED]" by code_simp+
  from reconciliation_settles_the_queue [OF c e n] obtain k m' where
    r: "reconcile_completed_jobs sample_env (sample_call\<lparr>rq_managed := False\<rparr>) sample_maintenance = Inr (k, m')"
    and z: "k = 0 \<longleftrightarrow> mb_jobs m' = mb_jobs sample_maintenance" by blast
  from r s(1) have "map j_state (mb_jobs m') = [DEAD_LETTER]" by simp
  with s(2) z have "mb_jobs m' \<noteq> []" "k \<noteq> 0" by auto
  with r show ?thesis by blast
qed

text \<open>
  The reconciliation counts a line feed that ends a body, the current state of the cluster does not: with a
  body of 239 characters and a line feed the job of an article stays open that the dashboard shows as waiting.
\<close>

lemma trailing_newline_divides:
  "let n = (new_revision sample_platform (sample_revision ''a'' ''h'' ''one'' 10) None)
             \<lparr>vn_body := Some (replicate 239 (CHR ''x'') @ [CHR 0x0A])\<rparr>
   in \<not> body_too_short n \<and> \<not> body_is_complete n"
  by code_simp

end
