(* ===== verification/Semantic_Transitions.thy ===== *)
theory Semantic_Transitions
  imports Work_Lanes News_Contract Job_Reconciliation
begin

text \<open>
  How the evidence of one annotation contract comes to count under the next,
  \<^verbatim>\<open>xauusd_news/news/semantics/transitions.py\<close>: a declared transition reuses an annotation, migrates it
  deterministically, or leaves it to a review by the model. \<open>execute_transition_page\<close> applies one bounded
  page of a transition, keeps a cursor, and refuses to go on under another contract than the one it
  began with.

  The database is that of \<^verbatim>\<open>Work_Lanes\<close> with the tables of the transitions. The function commits more
  than one transaction, so it returns the database beside its result. The text of a failure is not kept.
\<close>

section \<open>Transitions and their contracts\<close>

definition REUSE_COMPATIBLE :: string where "REUSE_COMPATIBLE = ''REUSE_COMPATIBLE''"
definition DETERMINISTIC_MIGRATION :: string where "DETERMINISTIC_MIGRATION = ''DETERMINISTIC_MIGRATION''"
definition MODEL_REVIEW_REQUIRED :: string where "MODEL_REVIEW_REQUIRED = ''MODEL_REVIEW_REQUIRED''"

definition TRANSITION_KINDS :: "string list" where
  "TRANSITION_KINDS = [REUSE_COMPATIBLE, DETERMINISTIC_MIGRATION, MODEL_REVIEW_REQUIRED]"

definition CURRENT_OPERATIONAL :: string where "CURRENT_OPERATIONAL = ''CURRENT_OPERATIONAL''"
definition TRAINING_REQUIRED :: string where "TRAINING_REQUIRED = ''TRAINING_REQUIRED''"
definition ARCHIVAL_ONLY :: string where "ARCHIVAL_ONLY = ''ARCHIVAL_ONLY''"

definition DEMAND_CLASSES :: "string list" where
  "DEMAND_CLASSES = [CURRENT_OPERATIONAL, TRAINING_REQUIRED, ARCHIVAL_ONLY]"

definition TRANSITION_CONTRACT_VERSION :: string where "TRANSITION_CONTRACT_VERSION = ''semantic-transition-v1''"

record semantic_transition =
  sx_from :: string
  sx_to :: string
  sx_kind :: string
  sx_migrator :: "string option"

record transition_contract =
  xc_fingerprint :: string
  xc_json :: string

definition migrator_declared :: "semantic_transition \<Rightarrow> bool" where
  "migrator_declared t \<longleftrightarrow> (case sx_migrator t of None \<Rightarrow> False | Some v \<Rightarrow> v \<noteq> [])"

definition semantic_transition_contract :: "platform \<Rightarrow> semantic_transition \<Rightarrow> transition_contract outcome" where
  "semantic_transition_contract P t =
     (if sx_kind t \<notin> set TRANSITION_KINDS then Inl (ValueError ''semantic transition kind is not controlled'')
      else if sx_kind t = DETERMINISTIC_MIGRATION \<and> \<not> migrator_declared t
      then Inl (ValueError ''deterministic transition has no migrator version'')
      else if sx_kind t \<noteq> DETERMINISTIC_MIGRATION \<and> sx_migrator t \<noteq> None
      then Inl (ValueError ''non-deterministic transition cannot declare a migrator'')
      else let text = json_dumps P (JObj
             [(''contract_version'', JStr TRANSITION_CONTRACT_VERSION), (''from_prompt_version'', JStr (sx_from t)),
              (''kind'', JStr (sx_kind t)), (''migrator_version'', (case sx_migrator t of None \<Rightarrow> JNull | Some v \<Rightarrow> JStr v)),
              (''to_prompt_version'', JStr (sx_to t))])
           in Inr \<lparr>xc_fingerprint = sha256_hex P text, xc_json = text\<rparr>)"

definition transition_for :: "string \<Rightarrow> string \<Rightarrow> semantic_transition outcome" where
  "transition_for from to =
     (if from = to then Inr \<lparr>sx_from = from, sx_to = to, sx_kind = REUSE_COMPATIBLE, sx_migrator = None\<rparr>
      else if from = PREVIOUS_NEWS_PROMPT_VERSION \<and> to = CURRENT_NEWS_PROMPT_VERSION
      then Inr \<lparr>sx_from = from, sx_to = to, sx_kind = MODEL_REVIEW_REQUIRED, sx_migrator = None\<rparr>
      else Inl (ValueError ''semantic contract transition is not declared''))"

definition requires_model_review :: "string \<Rightarrow> string \<Rightarrow> bool outcome" where
  "requires_model_review from to = bind_out (transition_for from to) (\<lambda>t. Inr (sx_kind t = MODEL_REVIEW_REQUIRED))"

definition provider_dispatches_for_transition :: "semantic_transition \<Rightarrow> nat outcome" where
  "provider_dispatches_for_transition t =
     (if sx_kind t \<notin> set TRANSITION_KINDS then Inl (ValueError ''semantic transition kind is not controlled'')
      else Inr (if sx_kind t = MODEL_REVIEW_REQUIRED then 1 else 0))"

definition demand_allows_scheduling :: "string \<Rightarrow> bool \<Rightarrow> bool outcome" where
  "demand_allows_scheduling demand requested =
     (if demand \<notin> set DEMAND_CLASSES then Inl (ValueError ''semantic demand class is not controlled'')
      else if demand = CURRENT_OPERATIONAL then Inr True
      else if demand = TRAINING_REQUIRED then Inr requested
      else Inr False)"

text \<open>The only declared migrator is the canonical cleanup, with the length of an excerpt that is its default.\<close>

definition migrate :: "string option \<Rightarrow> string \<Rightarrow> (string \<times> json) list \<Rightarrow> (string \<times> json) list outcome" where
  "migrate migrator source d =
     (case migrator of
        None \<Rightarrow> Inr d
      | Some v \<Rightarrow> if v = ''canonical-cleanup-v1'' then Inr (canonicalize_active_annotation source 240 d)
          else Inl (ValueError ''deterministic transition migrator is not declared''))"

section \<open>The tables\<close>

record transition_state =
  xs_from :: string
  xs_to :: string
  xs_kind :: string
  xs_fingerprint :: string
  xs_json :: string
  xs_cursor :: page_cursor
  xs_processed :: int
  xs_complete :: bool
  xs_updated :: instant

record transition_db =
  xd_lanes :: lane_db
  xd_states :: "transition_state list"
  xd_failures :: "(string \<times> string) list"
  xd_contract_failures :: "((string \<times> string) \<times> string) list"

abbreviation xd_notes :: "transition_db \<Rightarrow> annotation_row list" where
  "xd_notes x \<equiv> ld_annotations (wl_ledger (xd_lanes x))"

abbreviation xd_revisions :: "transition_db \<Rightarrow> revision list" where
  "xd_revisions x \<equiv> ld_revisions (wl_ledger (xd_lanes x))"

definition of_transition :: "semantic_transition \<Rightarrow> transition_state \<Rightarrow> bool" where
  "of_transition t s \<longleftrightarrow> xs_from s = sx_from t \<and> xs_to s = sx_to t"

definition find_state :: "semantic_transition \<Rightarrow> transition_db \<Rightarrow> transition_state option" where
  "find_state t x = find (of_transition t) (xd_states x)"

definition update_state ::
    "semantic_transition \<Rightarrow> (transition_state \<Rightarrow> transition_state) \<Rightarrow> transition_db \<Rightarrow> transition_db" where
  "update_state t f x = x\<lparr>xd_states := sql_update (of_transition t) f (xd_states x)\<rparr>"

section \<open>The rows of a page\<close>

definition newest :: "revision list \<Rightarrow> revision \<Rightarrow> bool" where
  "newest revs n \<longleftrightarrow> \<not> list_ex (\<lambda>q. article q = article n \<and> vn_number n < vn_number q) revs"

definition has_better_peer :: "instant \<Rightarrow> revision list \<Rightarrow> revision \<Rightarrow> bool" where
  "has_better_peer epoch revs n \<longleftrightarrow>
     list_ex (\<lambda>p. vn_cluster p = vn_cluster n \<and> \<not> body_too_short p \<and> newest revs p \<and> semantically_eligible epoch p \<and>
       preferred_peer p n) revs"

definition note_position :: "annotation_row \<Rightarrow> instant \<times> string" where
  "note_position a = (nn_parsed a, nn_id a)"

definition past_cursor :: "page_cursor \<Rightarrow> annotation_row \<Rightarrow> bool" where
  "past_cursor cursor a \<longleftrightarrow> (case cursor of None \<Rightarrow> True | Some c \<Rightarrow> c < note_position a)"

definition supported_note :: "source_key \<Rightarrow> string \<Rightarrow> annotation_row \<Rightarrow> bool" where
  "supported_note key prompt a \<longleftrightarrow>
     nn_key a = key \<and> nn_prompt a = prompt \<and> nn_model a \<in> set SUPPORTED_GEMINI_MODELS \<and> usable_annotation a"

definition due_for_transition ::
    "semantic_transition \<Rightarrow> instant \<Rightarrow> instant \<Rightarrow> transition_db \<Rightarrow> revision \<Rightarrow> annotation_row \<Rightarrow> bool" where
  "due_for_transition t epoch activated x n a \<longleftrightarrow>
     nn_key a = key_of n \<and> supported_note (key_of n) (sx_from t) a \<and> semantically_eligible epoch n \<and>
     \<not> body_too_short n \<and> vn_first_seen n < activated \<and> newest (xd_revisions x) n \<and>
     \<not> has_better_peer epoch (xd_revisions x) n \<and>
     \<not> list_ex (supported_note (nn_key a) (sx_to t)) (xd_notes x) \<and>
     \<not> list_ex (\<lambda>b. supported_note (nn_key a) (nn_prompt a) b \<and> note_position a < note_position b) (xd_notes x) \<and>
     (nn_id a, sx_to t) \<notin> set (xd_failures x)"

definition page_rows ::
    "semantic_transition \<Rightarrow> instant \<Rightarrow> instant \<Rightarrow> page_cursor \<Rightarrow> nat \<Rightarrow> transition_db \<Rightarrow> (revision \<times> annotation_row) list" where
  "page_rows t epoch activated cursor page x =
     take page (sort_key (\<lambda>r. note_position (snd r))
       (filter (\<lambda>r. due_for_transition t epoch activated x (fst r) (snd r) \<and> past_cursor cursor (snd r))
         (concat (map (\<lambda>n. map (Pair n) (xd_notes x)) (xd_revisions x)))))"

section \<open>Applying a row\<close>

definition source_text_of :: "revision \<Rightarrow> string" where
  "source_text_of n = canonical_annotation_source_text (vn_headline n) (case vn_body n of None \<Rightarrow> [] | Some b \<Rightarrow> b)"

text \<open>
  The projected JSON. Where \<open>json.loads\<close> raises, its error is a \<open>ValueError\<close>; of another JSON value than an object,
  the cleanup asks for an attribute that it has not, and the validation refuses it.
\<close>

definition projected_annotation ::
    "platform \<Rightarrow> semantic_transition \<Rightarrow> transition_db \<Rightarrow> revision \<Rightarrow> annotation_row \<Rightarrow> (string \<times> json) list outcome" where
  "projected_annotation P t x n a =
     (case wl_json (xd_lanes x) (nn_id a) of
        None \<Rightarrow> Inl (ValueError ''Expecting value'')
      | Some (JObj d) \<Rightarrow>
          bind_out (migrate (sx_migrator t) (source_text_of n) d) (\<lambda>d'.
          bind_out (validate_news_annotation P (sx_to t) (Some (source_text_of n)) d') (\<lambda>_. Inr d'))
      | Some _ \<Rightarrow>
          if sx_migrator t = None then Inl (ValueError ''annotation missing schema fields'') else Inl (OtherError ''AttributeError''))"

definition target_id :: "platform \<Rightarrow> semantic_transition \<Rightarrow> annotation_row \<Rightarrow> string" where
  "target_id P t a = sha256_hex P (''transition-projection'' @ [CHR 0x1F] @ nn_id a @ [CHR 0x1F] @ sx_to t)"

text \<open>\<open>except (TypeError, ValueError, json.JSONDecodeError)\<close>.\<close>

definition caught :: "py_error \<Rightarrow> bool" where
  "caught e \<longleftrightarrow> (case e of ValueError _ \<Rightarrow> True | OtherError s \<Rightarrow> s = ''TypeError'' | _ \<Rightarrow> False)"

text \<open>
  The inserted annotation. The cleanup leaves the reason and the relevance of the JSON as they were, so the columns that
  the ledger derives from them are those of the source.
\<close>

definition projected_note :: "platform \<Rightarrow> semantic_transition \<Rightarrow> annotation_row \<Rightarrow> annotation_row" where
  "projected_note P t a = a\<lparr>nn_id := target_id P t a, nn_prompt := sx_to t\<rparr>"

definition insert_projection ::
    "platform \<Rightarrow> semantic_transition \<Rightarrow> transition_contract \<Rightarrow> annotation_row \<Rightarrow> (string \<times> json) list \<Rightarrow> transition_db \<Rightarrow> transition_db" where
  "insert_projection P t c a d x =
     (let b = projected_note P t a; lanes = xd_lanes x; notes = ld_annotations (wl_ledger lanes);
          lanes1 = (if list_ex (\<lambda>a'. nn_id a' = nn_id b) notes then lanes
            else lanes\<lparr>wl_ledger := (wl_ledger lanes)\<lparr>ld_annotations := notes @ [b]\<rparr>,
                       wl_json := (wl_json lanes)(nn_id b \<mapsto> JObj d)\<rparr>);
          p = \<lparr>tj_target = nn_id b, tj_source = nn_id a, tj_fingerprint = xc_fingerprint c, tj_from = sx_from t,
               tj_to = sx_to t\<rparr>;
          lanes2 = lanes1\<lparr>wl_projections := sql_insert_ignore
            (\<lambda>q. tj_target q = tj_target p \<or> (tj_source q = tj_source p \<and> tj_to q = tj_to p)) p (wl_projections lanes1)\<rparr>
      in x\<lparr>xd_lanes := lanes2\<rparr>)"

definition apply_row ::
    "platform \<Rightarrow> semantic_transition \<Rightarrow> transition_contract \<Rightarrow> instant \<Rightarrow> revision \<times> annotation_row \<Rightarrow> transition_db \<Rightarrow>
     (bool \<times> transition_db) outcome" where
  "apply_row P t c now r x =
     (case r of (n, a) \<Rightarrow>
       (case projected_annotation P t x n a of
          Inl e \<Rightarrow>
            if caught e
            then Inr (False, x\<lparr>xd_failures := sql_insert_ignore (\<lambda>f. f = (nn_id a, sx_to t)) (nn_id a, sx_to t) (xd_failures x)\<rparr>)
            else Inl e
        | Inr d \<Rightarrow>
            let x1 = insert_projection P t c a d x; lanes = xd_lanes x1 in
            bind_out (make_provenance ''CONTRACT_BACKFILL'' ''SEMANTIC_TRANSITION'' (xc_fingerprint c @ '':'' @ nn_id a)) (\<lambda>prov.
            bind_out (record_annotation_completion P (nn_key a) (sx_to t) now (Some prov) (wl_ledger lanes)) (\<lambda>ledger.
              Inr (True, x1\<lparr>xd_lanes := lanes\<lparr>wl_ledger := refresh_news_revision_state (nn_key a) ledger\<rparr>\<rparr>)))))"

text \<open>The applied and the failed rows of a page are counted; a row whose time is past is left out.\<close>

fun apply_rows ::
    "platform \<Rightarrow> zone \<Rightarrow> semantic_transition \<Rightarrow> transition_contract \<Rightarrow> instant \<Rightarrow> instant \<Rightarrow> instant \<Rightarrow>
     (revision \<times> annotation_row) list \<Rightarrow> nat \<times> nat \<times> transition_db \<Rightarrow> (nat \<times> nat \<times> transition_db) outcome" where
  "apply_rows P z t c epoch activated now [] acc = Inr acc"
| "apply_rows P z t c epoch activated now (r # rs) (applied, failed, x) =
     (if \<not> timely P z (backfill_policy None) activated epoch (vn_first_seen (fst r)) (vn_published (fst r))
      then apply_rows P z t c epoch activated now rs (applied, failed, x)
      else bind_out (apply_row P t c now r x) (\<lambda>(ok, x').
        apply_rows P z t c epoch activated now rs
          (if ok then applied + 1 else applied, if ok then failed else failed + 1, x')))"

section \<open>A page\<close>

record page_report =
  pr_kind :: string
  pr_processed :: nat
  pr_applied :: nat
  pr_failed :: nat
  pr_complete :: bool

definition idle_report :: "semantic_transition \<Rightarrow> bool \<Rightarrow> page_report" where
  "idle_report t finished = \<lparr>pr_kind = sx_kind t, pr_processed = 0, pr_applied = 0, pr_failed = 0, pr_complete = finished\<rparr>"

definition new_state :: "semantic_transition \<Rightarrow> transition_contract \<Rightarrow> instant \<Rightarrow> transition_state" where
  "new_state t c now =
     \<lparr>xs_from = sx_from t, xs_to = sx_to t, xs_kind = sx_kind t, xs_fingerprint = xc_fingerprint c, xs_json = xc_json c,
      xs_cursor = None, xs_processed = 0, xs_complete = False, xs_updated = now\<rparr>"

definition open_state :: "semantic_transition \<Rightarrow> transition_contract \<Rightarrow> instant \<Rightarrow> transition_db \<Rightarrow> transition_db" where
  "open_state t c now x =
     (case find_state t x of Some _ \<Rightarrow> x | None \<Rightarrow> x\<lparr>xd_states := xd_states x @ [new_state t c now]\<rparr>)"

definition safe_to_initialize :: "semantic_transition \<Rightarrow> transition_db \<Rightarrow> transition_state \<Rightarrow> bool" where
  "safe_to_initialize t x s \<longleftrightarrow>
     xs_kind s = sx_kind t \<and> xs_processed s = 0 \<and> xs_cursor s = None \<and>
     \<not> list_ex (\<lambda>p. tj_from p = sx_from t \<and> tj_to p = sx_to t) (wl_projections (xd_lanes x))"

definition adopt_contract :: "semantic_transition \<Rightarrow> transition_contract \<Rightarrow> instant \<Rightarrow> transition_db \<Rightarrow> transition_db" where
  "adopt_contract t c now x =
     (case find_state t x of
        None \<Rightarrow> x
      | Some s \<Rightarrow>
          if (xs_fingerprint s = [] \<or> xs_json s = []) \<and> safe_to_initialize t x s
          then update_state t (\<lambda>s. s\<lparr>xs_fingerprint := xc_fingerprint c, xs_json := xc_json c, xs_updated := now\<rparr>) x
          else x)"

definition contract_changed :: "semantic_transition \<Rightarrow> transition_contract \<Rightarrow> transition_state \<Rightarrow> bool" where
  "contract_changed t c s \<longleftrightarrow> xs_kind s \<noteq> sx_kind t \<or> xs_fingerprint s \<noteq> xc_fingerprint c \<or> xs_json s \<noteq> xc_json c"

definition page_transaction ::
    "platform \<Rightarrow> zone \<Rightarrow> semantic_transition \<Rightarrow> transition_contract \<Rightarrow> instant \<Rightarrow> instant \<Rightarrow> instant \<Rightarrow> nat \<Rightarrow> transition_state \<Rightarrow>
     transition_db \<Rightarrow> (page_report \<times> transition_db) outcome" where
  "page_transaction P z t c epoch activated now page s x =
     (let rows = page_rows t epoch activated (xs_cursor s) page x in
      bind_out (apply_rows P z t c epoch activated now rows (0, 0, x)) (\<lambda>(applied, failed, x1).
        let x2 = (if rows = [] then x1 else update_state t (\<lambda>s. s\<lparr>xs_cursor := Some (note_position (snd (last rows))),
                xs_processed := xs_processed s + int (length rows), xs_updated := now\<rparr>) x1);
            finished = (length rows < page);
            x3 = (if finished then update_state t (\<lambda>s. s\<lparr>xs_complete := True, xs_updated := now\<rparr>) x2 else x2)
        in Inr (\<lparr>pr_kind = sx_kind t, pr_processed = length rows, pr_applied = applied, pr_failed = failed,
                 pr_complete = finished\<rparr>, x3)))"

definition bounded_page :: "int \<Rightarrow> nat" where
  "bounded_page page_size = nat (max 1 (min 100 page_size))"

definition migrator_known :: "semantic_transition \<Rightarrow> bool" where
  "migrator_known t \<longleftrightarrow> sx_kind t \<noteq> DETERMINISTIC_MIGRATION \<or> sx_migrator t = Some ''canonical-cleanup-v1''"

definition execute_transition_page ::
    "platform \<Rightarrow> zone \<Rightarrow> semantic_transition \<Rightarrow> instant \<Rightarrow> instant \<Rightarrow> int \<Rightarrow> transition_db \<Rightarrow>
     page_report outcome \<times> transition_db" where
  "execute_transition_page P z t activated now page_size x =
     (case semantic_transition_contract P t of
        Inl e \<Rightarrow> (Inl e, x)
      | Inr c \<Rightarrow>
      if \<not> migrator_known t then (Inl (ValueError ''deterministic transition migrator is not declared''), x)
      else case ld_epoch (wl_ledger (xd_lanes x)) of
        None \<Rightarrow> (Inl (OtherError ''TypeError''), x)
      | Some epoch \<Rightarrow>
      let x1 = adopt_contract t c now (open_state t c now x) in
      case find_state t x1 of
        None \<Rightarrow> (Inl (OtherError ''TypeError''), x1)
      | Some s \<Rightarrow>
          if contract_changed t c s
          then (Inl (OtherError ''SemanticTransitionContractChanged''),
                x1\<lparr>xd_contract_failures := sql_upsert fst (\<lambda>_. ((sx_from t, sx_to t), xc_fingerprint c))
                     ((sx_from t, sx_to t), xc_fingerprint c) (xd_contract_failures x1)\<rparr>)
          else if xs_complete s then (Inr (idle_report t True), x1)
          else if sx_kind t = MODEL_REVIEW_REQUIRED then (Inr (idle_report t False), x1)
          else (case page_transaction P z t c epoch activated now (bounded_page page_size) s x1 of
                  Inl e \<Rightarrow> (Inl e, x1)
                | Inr (report, x2) \<Rightarrow> (Inr report, x2)))"

section \<open>What a page does to the evidence\<close>

lemma update_state_simps [simp]:
  "xd_lanes (update_state t f x) = xd_lanes x" "xd_failures (update_state t f x) = xd_failures x"
  by (simp_all add: update_state_def)

lemma open_state_lanes [simp]: "xd_lanes (open_state t c now x) = xd_lanes x"
  by (simp add: open_state_def split: option.splits)

lemma adopt_contract_lanes [simp]: "xd_lanes (adopt_contract t c now x) = xd_lanes x"
  by (simp add: adopt_contract_def split: option.splits)

lemma completion_keeps_evidence:
  "record_annotation_completion P key prompt t prov db = Inr db' \<Longrightarrow>
     ld_annotations db' = ld_annotations db \<and> ld_revisions db' = ld_revisions db \<and> ld_epoch db' = ld_epoch db"
  by (auto simp: record_annotation_completion_def Let_def split: if_splits)

lemma refresh_keeps_evidence [simp]:
  "ld_annotations (refresh_news_revision_state k db) = ld_annotations db"
  "ld_revisions (refresh_news_revision_state k db) = ld_revisions db"
  "ld_epoch (refresh_news_revision_state k db) = ld_epoch db"
  by (simp_all add: refresh_news_revision_state_def refresh_news_cluster_state_def delete_current_def store_current_def
    split: option.splits)

text \<open>What an added annotation is: the projection of one of the source contract, valid under the target contract.\<close>

definition sound_projection ::
    "platform \<Rightarrow> semantic_transition \<Rightarrow> annotation_row list \<Rightarrow> transition_db \<Rightarrow> annotation_row \<Rightarrow> bool" where
  "sound_projection P t sources x b \<longleftrightarrow>
     (\<exists>a \<in> set sources. \<exists>n \<in> set (xd_revisions x). \<exists>d.
        nn_prompt a = sx_from t \<and> b = projected_note P t a \<and> nn_key b = key_of n \<and>
        wl_json (xd_lanes x) (nn_id b) = Some (JObj d) \<and>
        validate_news_annotation P (sx_to t) (Some (source_text_of n)) d = Inr ())"

definition evidence_grows :: "platform \<Rightarrow> semantic_transition \<Rightarrow> annotation_row list \<Rightarrow> transition_db \<Rightarrow> transition_db \<Rightarrow> bool" where
  "evidence_grows P t sources x x' \<longleftrightarrow>
     xd_revisions x' = xd_revisions x \<and> ld_epoch (wl_ledger (xd_lanes x')) = ld_epoch (wl_ledger (xd_lanes x)) \<and>
     (\<forall>i \<in> nn_id ` set (xd_notes x). wl_json (xd_lanes x') i = wl_json (xd_lanes x) i) \<and>
     (\<exists>added. xd_notes x' = xd_notes x @ added \<and> (\<forall>b \<in> set added. sound_projection P t sources x' b))"

lemma evidence_grows_refl: "xd_lanes x' = xd_lanes x \<Longrightarrow> evidence_grows P t sources x x'"
  by (simp add: evidence_grows_def)

lemma evidence_grows_trans:
  assumes "evidence_grows P t sources x y" "evidence_grows P t sources y z"
  shows "evidence_grows P t sources x z"
proof -
  obtain as where a: "xd_notes y = xd_notes x @ as" "\<forall>b \<in> set as. sound_projection P t sources y b"
    using assms(1) by (auto simp: evidence_grows_def)
  obtain bs where b: "xd_notes z = xd_notes y @ bs" "\<forall>b \<in> set bs. sound_projection P t sources z b"
    using assms(2) by (auto simp: evidence_grows_def)
  have json: "wl_json (xd_lanes z) i = wl_json (xd_lanes y) i" if "i \<in> nn_id ` set (xd_notes y)" for i
    using assms(2) that by (auto simp: evidence_grows_def)
  have "sound_projection P t sources z b" if "b \<in> set as" for b
  proof -
    have "nn_id b \<in> nn_id ` set (xd_notes y)" using that a(1) by simp
    from json [OF this] show ?thesis using that a(2) assms(2) by (simp add: sound_projection_def evidence_grows_def)
  qed
  with a b json show ?thesis using assms by (auto simp: evidence_grows_def)
qed

lemma projected_annotation_valid:
  "projected_annotation P t x n a = Inr d \<Longrightarrow> validate_news_annotation P (sx_to t) (Some (source_text_of n)) d = Inr ()"
  by (auto simp: projected_annotation_def bind_out_Inr_iff split: option.splits json.splits if_splits)

lemma insert_projection_evidence:
  "xd_revisions (insert_projection P t c a d x) = xd_revisions x"
  "ld_epoch (wl_ledger (xd_lanes (insert_projection P t c a d x))) = ld_epoch (wl_ledger (xd_lanes x))"
  "xd_notes (insert_projection P t c a d x) =
     (if target_id P t a \<in> nn_id ` set (xd_notes x) then xd_notes x else xd_notes x @ [projected_note P t a])"
  "wl_json (xd_lanes (insert_projection P t c a d x)) =
     (if target_id P t a \<in> nn_id ` set (xd_notes x) then wl_json (xd_lanes x)
      else (wl_json (xd_lanes x))(target_id P t a \<mapsto> JObj d))"
  by (auto simp: insert_projection_def Let_def projected_note_def list_ex_iff image_iff eq_commute [of "target_id P t a"])

lemma apply_row_grows:
  assumes "apply_row P t c now (n, a) x = Inr (ok, x')" "a \<in> set sources" "n \<in> set (xd_revisions x)"
    "nn_prompt a = sx_from t" "nn_key a = key_of n"
  shows "evidence_grows P t sources x x'"
proof (cases "projected_annotation P t x n a")
  case (Inl e)
  then show ?thesis using assms(1) by (auto simp: apply_row_def intro: evidence_grows_refl split: if_splits)
next
  case (Inr d)
  let ?x1 = "insert_projection P t c a d x"
  from assms(1) Inr obtain prov ledger where l:
    "record_annotation_completion P (nn_key a) (sx_to t) now (Some prov) (wl_ledger (xd_lanes ?x1)) = Inr ledger"
    "x' = ?x1\<lparr>xd_lanes := (xd_lanes ?x1)\<lparr>wl_ledger := refresh_news_revision_state (nn_key a) ledger\<rparr>\<rparr>"
    by (auto simp: apply_row_def Let_def bind_out_Inr_iff)
  note kept = completion_keeps_evidence [OF l(1)]
  have key: "nn_key (projected_note P t a) = key_of n" "nn_id (projected_note P t a) = target_id P t a"
    using assms(5) by (simp_all add: projected_note_def)
  show ?thesis
  proof (cases "target_id P t a \<in> nn_id ` set (xd_notes x)")
    case True
    then show ?thesis using kept l(2) by (simp add: evidence_grows_def insert_projection_evidence)
  next
    case False
    then have "sound_projection P t sources x' (projected_note P t a)"
      unfolding sound_projection_def using kept l(2) key assms(2-4) projected_annotation_valid [OF Inr]
      by (auto simp: insert_projection_evidence intro!: bexI [of _ a] bexI [of _ n])
    with False show ?thesis using kept l(2) by (auto simp: evidence_grows_def insert_projection_evidence) (metis image_eqI)
  qed
qed

lemma apply_rows_grow:
  assumes "apply_rows P z t c epoch activated now rs (i, j, x) = Inr (i', j', x')"
    "\<forall>r \<in> set rs. snd r \<in> set sources \<and> fst r \<in> set (xd_revisions x) \<and> nn_prompt (snd r) = sx_from t \<and> nn_key (snd r) = key_of (fst r)"
  shows "evidence_grows P t sources x x'"
  using assms
proof (induction rs arbitrary: i j x)
  case Nil
  then show ?case by (simp add: evidence_grows_refl)
next
  case (Cons r rs)
  obtain n a where r: "r = (n, a)" by (cases r)
  show ?case
  proof (cases "timely P z (backfill_policy None) activated epoch (vn_first_seen n) (vn_published n)")
    case False
    then show ?thesis using Cons by (auto simp: r)
  next
    case True
    with Cons.prems(1) obtain ok x1 where s: "apply_row P t c now (n, a) x = Inr (ok, x1)"
      "apply_rows P z t c epoch activated now rs (if ok then i + 1 else i, if ok then j else j + 1, x1) = Inr (i', j', x')"
      by (auto simp: r bind_out_Inr_iff)
    have g: "evidence_grows P t sources x x1" using apply_row_grows [OF s(1)] Cons.prems(2) r by simp
    then have "xd_revisions x1 = xd_revisions x" by (simp add: evidence_grows_def)
    then have "evidence_grows P t sources x1 x'" using Cons.IH [OF s(2)] Cons.prems(2) by simp
    with g show ?thesis by (rule evidence_grows_trans)
  qed
qed

lemma page_rowsD:
  assumes "r \<in> set (page_rows t epoch activated cursor page x)"
  shows "snd r \<in> set (xd_notes x)" "fst r \<in> set (xd_revisions x)" "nn_prompt (snd r) = sx_from t"
    "nn_key (snd r) = key_of (fst r)" "past_cursor cursor (snd r)"
proof -
  have "r \<in> set (filter (\<lambda>r. due_for_transition t epoch activated x (fst r) (snd r) \<and> past_cursor cursor (snd r))
         (concat (map (\<lambda>n. map (Pair n) (xd_notes x)) (xd_revisions x))))"
    using in_set_takeD [OF assms [unfolded page_rows_def]] by (simp only: set_sort)
  then show "snd r \<in> set (xd_notes x)" "fst r \<in> set (xd_revisions x)" "nn_prompt (snd r) = sx_from t"
    "nn_key (snd r) = key_of (fst r)" "past_cursor cursor (snd r)"
    by (auto simp: due_for_transition_def supported_note_def)
qed

lemma page_transaction_grows:
  assumes "page_transaction P z t c epoch activated now page s x = Inr (report, x')"
  shows "evidence_grows P t (xd_notes x) x x'"
proof -
  let ?rows = "page_rows t epoch activated (xs_cursor s) page x"
  obtain y where y: "apply_rows P z t c epoch activated now ?rows (0, 0, x) = Inr y"
    using assms by (cases "apply_rows P z t c epoch activated now ?rows (0, 0, x)") (simp_all add: page_transaction_def)
  obtain i j x1 where a: "apply_rows P z t c epoch activated now ?rows (0, 0, x) = Inr (i, j, x1)"
    using y by (cases y) simp
  have l: "xd_lanes x' = xd_lanes x1"
    using assms unfolding page_transaction_def Let_def a by (auto split: if_splits)
  have "\<forall>r \<in> set ?rows. snd r \<in> set (xd_notes x) \<and> fst r \<in> set (xd_revisions x) \<and> nn_prompt (snd r) = sx_from t \<and>
      nn_key (snd r) = key_of (fst r)"
    using page_rowsD [of _ t epoch activated "xs_cursor s" page x] by blast
  from apply_rows_grow [OF a this] show ?thesis using evidence_grows_trans evidence_grows_refl l by metis
qed

lemma execute_transition_page_cases:
  assumes "execute_transition_page P z t activated now page_size x = (result, x')"
  obtains (kept) "xd_lanes x' = xd_lanes x"
  | (page) c epoch s report x1 where "result = Inr report" "xd_lanes x1 = xd_lanes x" "find_state t x1 = Some s"
      "page_transaction P z t c epoch activated now (bounded_page page_size) s x1 = Inr (report, x')"
proof (cases "semantic_transition_contract P t")
  case (Inl e)
  then show ?thesis using assms kept by (simp add: execute_transition_page_def)
next
  case (Inr c)
  define x1 where "x1 = adopt_contract t c now (open_state t c now x)"
  have same: "xd_lanes x1 = xd_lanes x" by (simp add: x1_def)
  show ?thesis
  proof (cases "migrator_known t \<and> ld_epoch (wl_ledger (xd_lanes x)) \<noteq> None \<and> find_state t x1 \<noteq> None")
    case False
    then show ?thesis using assms kept Inr same by (auto simp: execute_transition_page_def Let_def x1_def split: if_splits option.splits)
  next
    case True
    then obtain epoch s where e: "ld_epoch (wl_ledger (xd_lanes x)) = Some epoch" "find_state t x1 = Some s" "migrator_known t" by auto
    then have run: "execute_transition_page P z t activated now page_size x =
      (if contract_changed t c s
       then (Inl (OtherError ''SemanticTransitionContractChanged''),
             x1\<lparr>xd_contract_failures := sql_upsert fst (\<lambda>_. ((sx_from t, sx_to t), xc_fingerprint c))
                  ((sx_from t, sx_to t), xc_fingerprint c) (xd_contract_failures x1)\<rparr>)
       else if xs_complete s then (Inr (idle_report t True), x1)
       else if sx_kind t = MODEL_REVIEW_REQUIRED then (Inr (idle_report t False), x1)
       else (case page_transaction P z t c epoch activated now (bounded_page page_size) s x1 of
               Inl e \<Rightarrow> (Inl e, x1)
             | Inr (report, x2) \<Rightarrow> (Inr report, x2)))"
      using Inr by (simp add: execute_transition_page_def x1_def [symmetric])
    show ?thesis
    proof (cases "page_transaction P z t c epoch activated now (bounded_page page_size) s x1")
      case (Inl e)
      then show ?thesis using assms kept same unfolding run by (auto split: if_splits)
    next
      case (Inr r)
      obtain report x2 where "r = (report, x2)" by (cases r)
      with Inr show ?thesis using assms kept page [OF _ same e(2)] same unfolding run by (auto split: if_splits)
    qed
  qed
qed

text \<open>
  C37: A transition adds to the history and changes nothing of it. Whatever becomes of a page, the annotations and the
  JSON that were there stay as they were, and each annotation that it adds is the projection of one of the source
  contract, with a JSON that is valid under the target contract for the text of its revision.
\<close>

theorem transition_preserves_history:
  assumes "execute_transition_page P z t activated now page_size x = (result, x')"
  shows "evidence_grows P t (xd_notes x) x x'"
  using assms
proof (cases rule: execute_transition_page_cases)
  case kept
  then show ?thesis by (rule evidence_grows_refl)
next
  case (page c epoch s report x1)
  from page_transaction_grows [OF page(4)] show ?thesis
    using page(2) evidence_grows_trans [OF evidence_grows_refl] by metis
qed

section \<open>A transition finishes\<close>

text \<open>The annotations of the source contract that a cursor still has before it.\<close>

definition remaining :: "semantic_transition \<Rightarrow> page_cursor \<Rightarrow> annotation_row list \<Rightarrow> nat" where
  "remaining t cursor notes = length (filter (\<lambda>a. nn_prompt a = sx_from t \<and> past_cursor cursor a) notes)"

text \<open>What is left to do: nothing when the transition is complete, else the rows of its cursor and the page that finds none.\<close>

definition work_left :: "semantic_transition \<Rightarrow> transition_db \<Rightarrow> nat" where
  "work_left t x =
     (case find_state t x of
        None \<Rightarrow> remaining t None (xd_notes x) + 1
      | Some s \<Rightarrow> if xs_complete s then 0 else remaining t (xs_cursor s) (xd_notes x) + 1)"

lemma find_updated:
  assumes "\<And>s. of_transition t s \<Longrightarrow> of_transition t (f s)"
  shows "find_state t (update_state t f x) = map_option f (find_state t x)"
proof -
  have "find (of_transition t) (sql_update (of_transition t) f rows) = map_option f (find (of_transition t) rows)" for rows
    by (induction rows) (simp_all add: sql_update_def assms)
  then show ?thesis by (simp add: find_state_def update_state_def)
qed

lemma find_update_state:
  assumes "find_state t x = Some s" "\<And>s. of_transition t s \<Longrightarrow> of_transition t (f s)"
  shows "find_state t (update_state t f x) = Some (f s)"
  using find_updated [OF assms(2)] assms(1) by simp

lemma apply_row_states: "apply_row P t c now r x = Inr (ok, x') \<Longrightarrow> xd_states x' = xd_states x"
  by (cases r) (auto simp: apply_row_def insert_projection_def Let_def bind_out_Inr_iff split: sum.splits if_splits)

lemma apply_rows_states:
  "apply_rows P z t c epoch activated now rs (i, j, x) = Inr (i', j', x') \<Longrightarrow> xd_states x' = xd_states x"
  by (induction rs arbitrary: i j x) (auto simp: bind_out_Inr_iff dest!: apply_row_states split: if_splits)

lemma page_transaction_step:
  assumes "page_transaction P z t c epoch activated now page s x = Inr (report, x')" "find_state t x = Some s"
  defines "rows \<equiv> page_rows t epoch activated (xs_cursor s) page x"
  obtains s' where "find_state t x' = Some s'" "pr_complete report \<longleftrightarrow> length rows < page"
    "xs_complete s' \<longleftrightarrow> xs_complete s \<or> length rows < page"
    "xs_cursor s' = (if rows = [] then xs_cursor s else Some (note_position (snd (last rows))))"
    "xs_processed s' = xs_processed s + int (length rows)"
proof -
  obtain y where y: "apply_rows P z t c epoch activated now rows (0, 0, x) = Inr y"
    using assms(1) unfolding rows_def
    by (cases "apply_rows P z t c epoch activated now (page_rows t epoch activated (xs_cursor s) page x) (0, 0, x)")
      (simp_all add: page_transaction_def)
  obtain i j x1 where a: "apply_rows P z t c epoch activated now rows (0, 0, x) = Inr (i, j, x1)"
    using y by (cases y) simp
  have s1: "find_state t x1 = Some s" using assms(2) apply_rows_states [OF a] by (simp add: find_state_def)
  let ?f = "\<lambda>s. s\<lparr>xs_cursor := Some (note_position (snd (last rows))), xs_processed := xs_processed s + int (length rows),
    xs_updated := now\<rparr>"
  let ?g = "\<lambda>s. s\<lparr>xs_complete := True, xs_updated := now\<rparr>"
  have f: "find_state t (update_state t ?f x1) = Some (?f s)" by (rule find_update_state [OF s1]) (simp add: of_transition_def)
  have g: "find_state t y = Some r \<Longrightarrow> find_state t (update_state t ?g y) = Some (?g r)" for y r
    by (rule find_update_state) (simp_all add: of_transition_def)
  from assms(1) have "pr_complete report \<longleftrightarrow> length rows < page" and
    x': "x' = (let x2 = (if rows = [] then x1 else update_state t ?f x1) in if length rows < page then update_state t ?g x2 else x2)"
    unfolding page_transaction_def rows_def [symmetric] Let_def a by auto
  moreover define s2 where "s2 = (if rows = [] then s else ?f s)"
  define s' where "s' = (if length rows < page then ?g s2 else s2)"
  have "find_state t (if rows = [] then x1 else update_state t ?f x1) = Some s2" using s1 f by (simp add: s2_def)
  then have "find_state t x' = Some s'" unfolding x' s'_def Let_def using g by simp
  ultimately show ?thesis using that [of s'] by (auto simp: s'_def s2_def)
qed

lemma remaining_decreases:
  assumes "rows = page_rows t epoch activated cursor page x" "rows \<noteq> []"
  shows "remaining t (Some (note_position (snd (last rows)))) (xd_notes x) < remaining t cursor (xd_notes x)"
proof -
  define a where "a = snd (last rows)"
  have "last rows \<in> set rows" using assms(2) by simp
  note l = page_rowsD [OF this [unfolded assms(1)], folded assms(1), folded a_def]
  let ?p = "\<lambda>c b. nn_prompt b = sx_from t \<and> past_cursor c b"
  have pos: "past_cursor (Some (note_position a)) b \<Longrightarrow> past_cursor cursor b" for b
    using l(5) by (auto simp: past_cursor_def split: option.splits)
  have "filter (?p (Some (note_position a))) (xd_notes x) =
      filter (?p (Some (note_position a))) (filter (?p cursor) (xd_notes x))"
    using pos by (auto intro!: filter_cong)
  moreover have "length (filter (?p (Some (note_position a))) (filter (?p cursor) (xd_notes x))) < length (filter (?p cursor) (xd_notes x))"
    by (rule length_filter_less [of a]) (use l in \<open>auto simp: past_cursor_def\<close>)
  ultimately show ?thesis unfolding remaining_def a_def by simp
qed

lemma find_in_append: "find p (xs @ ys) = (case find p xs of None \<Rightarrow> find p ys | Some y \<Rightarrow> Some y)"
  by (induction xs) simp_all

lemma work_left_opened: "work_left t (adopt_contract t c now (open_state t c now x)) = work_left t x"
proof -
  have opened: "work_left t (open_state t c now x) = work_left t x"
    by (cases "find_state t x")
      (simp_all add: open_state_def work_left_def find_state_def find_in_append new_state_def of_transition_def)
  have "find_state t (update_state t (\<lambda>s. s\<lparr>xs_fingerprint := f, xs_json := j, xs_updated := u\<rparr>) y) =
      map_option (\<lambda>s. s\<lparr>xs_fingerprint := f, xs_json := j, xs_updated := u\<rparr>) (find_state t y)" for f j u y
    by (rule find_updated) (simp add: of_transition_def)
  then have "work_left t (adopt_contract t c now y) = work_left t y" for y
    by (auto simp: adopt_contract_def work_left_def split: option.splits)
  with opened show ?thesis by simp
qed

lemma executed_page:
  assumes "execute_transition_page P z t activated now page_size x = (Inr report, x')" "sx_kind t \<noteq> MODEL_REVIEW_REQUIRED"
  obtains c s x1 where "xd_lanes x1 = xd_lanes x" "work_left t x1 = work_left t x" "find_state t x1 = Some s"
    "(xs_complete s \<and> x' = x1) \<or>
     (\<not> xs_complete s \<and> (\<exists>epoch. page_transaction P z t c epoch activated now (bounded_page page_size) s x1 = Inr (report, x')))"
proof (cases "semantic_transition_contract P t")
  case (Inl e)
  then show ?thesis using assms by (simp add: execute_transition_page_def)
next
  case (Inr c)
  define x1 where "x1 = adopt_contract t c now (open_state t c now x)"
  have same: "xd_lanes x1 = xd_lanes x" "work_left t x1 = work_left t x" by (simp_all add: x1_def work_left_opened)
  from assms(1) Inr obtain epoch s where e: "ld_epoch (wl_ledger (xd_lanes x)) = Some epoch" "find_state t x1 = Some s"
    by (auto simp: execute_transition_page_def Let_def x1_def split: if_splits option.splits)
  have "(xs_complete s \<and> x' = x1) \<or>
     (\<not> xs_complete s \<and> page_transaction P z t c epoch activated now (bounded_page page_size) s x1 = Inr (report, x'))"
    using assms(1) unfolding execute_transition_page_def Inr sum.case e(1) option.case Let_def x1_def [symmetric] e(2)
    using assms(2) by (auto split: if_splits sum.splits)
  then show ?thesis using that [OF same e(2)] by blast
qed

lemma remaining_grown:
  assumes "evidence_grows P t sources x x'" "sx_from t \<noteq> sx_to t"
  shows "remaining t cursor (xd_notes x') = remaining t cursor (xd_notes x)"
proof -
  obtain added where a: "xd_notes x' = xd_notes x @ added" "\<forall>b \<in> set added. sound_projection P t sources x' b"
    using assms(1) by (auto simp: evidence_grows_def)
  have "nn_prompt b \<noteq> sx_from t" if "b \<in> set added" for b
    using a(2) that assms(2) by (auto simp: sound_projection_def projected_note_def)
  then show ?thesis by (simp add: remaining_def a(1) filter_False)
qed

lemma page_makes_progress:
  assumes "execute_transition_page P z t activated now page_size x = (Inr report, x')"
    "sx_kind t \<noteq> MODEL_REVIEW_REQUIRED" "sx_from t \<noteq> sx_to t"
  shows "(\<exists>s. find_state t x' = Some s \<and> xs_complete s) \<or> work_left t x' < work_left t x"
proof -
  obtain c s x1 where x1: "xd_lanes x1 = xd_lanes x" "work_left t x1 = work_left t x" "find_state t x1 = Some s"
    and step: "(xs_complete s \<and> x' = x1) \<or>
     (\<not> xs_complete s \<and> (\<exists>epoch. page_transaction P z t c epoch activated now (bounded_page page_size) s x1 = Inr (report, x')))"
    using executed_page [OF assms(1,2)] by metis
  show ?thesis
  proof (cases "xs_complete s")
    case True
    then show ?thesis using step x1(3) by auto
  next
    case False
    then obtain epoch where p: "page_transaction P z t c epoch activated now (bounded_page page_size) s x1 = Inr (report, x')"
      using step by auto
    define rows where "rows = page_rows t epoch activated (xs_cursor s) (bounded_page page_size) x1"
    obtain s' where s': "find_state t x' = Some s'" "xs_complete s' \<longleftrightarrow> xs_complete s \<or> length rows < bounded_page page_size"
      "xs_cursor s' = (if rows = [] then xs_cursor s else Some (note_position (snd (last rows))))"
      using page_transaction_step [OF p x1(3)] unfolding rows_def by metis
    show ?thesis
    proof (cases "length rows < bounded_page page_size")
      case True
      then show ?thesis using s' by auto
    next
      case full: False
      then have "rows \<noteq> []" by (auto simp: bounded_page_def)
      have "remaining t (xs_cursor s') (xd_notes x') = remaining t (xs_cursor s') (xd_notes x1)"
        by (rule remaining_grown [OF page_transaction_grows [OF p] assms(3)])
      also have "\<dots> < remaining t (xs_cursor s) (xd_notes x1)"
        using remaining_decreases [OF rows_def \<open>rows \<noteq> []\<close>] s'(3) \<open>rows \<noteq> []\<close> by simp
      finally show ?thesis using s' full False x1 by (simp add: work_left_def)
    qed
  qed
qed

text \<open>A series of calls, at the times \<open>nows\<close>.\<close>

fun transition_calls ::
    "platform \<Rightarrow> zone \<Rightarrow> semantic_transition \<Rightarrow> instant \<Rightarrow> int \<Rightarrow> instant list \<Rightarrow> transition_db \<Rightarrow>
     page_report outcome list \<times> transition_db" where
  "transition_calls P z t activated page [] x = ([], x)"
| "transition_calls P z t activated page (now # nows) x =
     (case execute_transition_page P z t activated now page x of
        (r, x1) \<Rightarrow> (case transition_calls P z t activated page nows x1 of (rs, x2) \<Rightarrow> (r # rs, x2)))"

lemma finished_stays:
  assumes "execute_transition_page P z t activated now page_size x = (Inr report, x')" "sx_kind t \<noteq> MODEL_REVIEW_REQUIRED"
    "find_state t x = Some s" "xs_complete s"
  shows "\<exists>s'. find_state t x' = Some s' \<and> xs_complete s'"
proof -
  obtain c s1 x1 where x1: "work_left t x1 = work_left t x" "find_state t x1 = Some s1"
    "(xs_complete s1 \<and> x' = x1) \<or>
     (\<not> xs_complete s1 \<and> (\<exists>epoch. page_transaction P z t c epoch activated now (bounded_page page_size) s1 x1 = Inr (report, x')))"
    using executed_page [OF assms(1,2)] by metis
  then have "xs_complete s1" using assms(3,4) by (auto simp: work_left_def split: if_splits)
  with x1 show ?thesis by auto
qed

text \<open>
  C38: A transition finishes. Unless a page raises, each page of a transition between two contracts that needs no model
  finishes it or brings its cursor past an annotation, so after as many pages as annotations are before its
  cursor, and one, it is complete, and it stays complete.
\<close>

theorem transition_finishes:
  assumes "sx_kind t \<noteq> MODEL_REVIEW_REQUIRED" "sx_from t \<noteq> sx_to t" "nows \<noteq> []" "work_left t x \<le> length nows"
    "transition_calls P z t activated page nows x = (results, x')" "\<forall>r \<in> set results. \<not> isl r"
  shows "\<exists>s. find_state t x' = Some s \<and> xs_complete s"
proof -
  have done_stays: "\<exists>s. find_state t y' = Some s \<and> xs_complete s"
    if "transition_calls P z t activated page ns y = (rs, y')" "\<forall>r \<in> set rs. \<not> isl r"
      "\<exists>s. find_state t y = Some s \<and> xs_complete s" for ns y rs y'
    using that
  proof (induction ns arbitrary: y rs)
    case (Cons n ns)
    obtain r y1 where r: "execute_transition_page P z t activated n page y = (r, y1)" by fastforce
    obtain rs1 where rs1: "transition_calls P z t activated page ns y1 = (rs1, y')" "rs = r # rs1"
      using Cons.prems(1) r by (auto split: prod.splits)
    then obtain report where "r = Inr report" using Cons.prems(2) by (cases r) auto
    then have "\<exists>s. find_state t y1 = Some s \<and> xs_complete s" using finished_stays [OF _ assms(1)] r Cons.prems(3) by blast
    then show ?case using Cons.IH [OF rs1(1)] Cons.prems(2) rs1(2) by simp
  qed simp
  show ?thesis using assms(3-6)
  proof (induction nows arbitrary: x results)
    case (Cons n ns)
    obtain r y1 where r: "execute_transition_page P z t activated n page x = (r, y1)" by fastforce
    obtain rs1 where rs1: "transition_calls P z t activated page ns y1 = (rs1, x')" "results = r # rs1"
      using Cons.prems(3) r by (auto split: prod.splits)
    then obtain report where rep: "r = Inr report" using Cons.prems(4) by (cases r) auto
    consider "\<exists>s. find_state t y1 = Some s \<and> xs_complete s" | "work_left t y1 < work_left t x"
      using page_makes_progress [OF _ assms(1,2)] r rep by blast
    then show ?case
    proof cases
      case 1
      then show ?thesis using done_stays [OF rs1(1)] Cons.prems(4) rs1(2) by simp
    next
      case 2
      show ?thesis
      proof (cases "ns = []")
        case True
        then have "work_left t y1 = 0" using 2 Cons.prems(2) by simp
        then show ?thesis using True rs1(1) by (auto simp: work_left_def split: option.splits if_splits)
      next
        case False
        then show ?thesis using Cons.IH [OF False _ rs1(1)] 2 Cons.prems(2,4) rs1(2) by simp
      qed
    qed
  qed simp
qed

section \<open>A sample transition\<close>

definition sample_transition :: semantic_transition where
  "sample_transition = \<lparr>sx_from = PREVIOUS_NEWS_PROMPT_VERSION, sx_to = CURRENT_NEWS_PROMPT_VERSION,
     sx_kind = REUSE_COMPATIBLE, sx_migrator = None\<rparr>"

definition sample_article :: revision where
  "sample_article = \<lparr>vn_source = ''fed'', vn_item = ''item'', vn_number = 1, vn_published = Some 60, vn_first_seen = 60,
     vn_item_first_seen = 60, vn_fetched = 60, vn_headline = ''Rates'',
     vn_body = Some (''Fed held its policy rate. '' @ replicate 240 (CHR ''x'')), vn_link = None, vn_hash = ''h'',
     vn_cluster = ''c'', vn_latency = None\<rparr>"

definition sample_prior :: annotation_row where
  "sample_prior = \<lparr>nn_id = ''a'', nn_key = (''fed'', ''item'', 1), nn_hash = ''h'', nn_model = DEFAULT_GEMINI_MODEL,
     nn_prompt = PREVIOUS_NEWS_PROMPT_VERSION, nn_started = 70, nn_parsed = 70, nn_reason = SoundReason, nn_relevance = None\<rparr>"

definition sample_transition_db :: transition_db where
  "sample_transition_db = \<lparr>xd_lanes = sample_lane_db\<lparr>
       wl_ledger := empty_ledger\<lparr>ld_epoch := Some 0, ld_revisions := [sample_article], ld_annotations := [sample_prior]\<rparr>,
       wl_json := [''a'' \<mapsto> JObj sample_annotation_json]\<rparr>,
     xd_states = [], xd_failures = [], xd_contract_failures = []\<rparr>"

definition sample_pages :: "page_report outcome list \<times> transition_db" where
  "sample_pages = transition_calls repr_platform sample_zone sample_transition 100 50 [200, 210] sample_transition_db"

lemma sample_pages_run:
  "map (\<lambda>r. case r of Inl _ \<Rightarrow> None | Inr p \<Rightarrow> Some (pr_applied p, pr_failed p, pr_complete p)) (fst sample_pages) =
     [Some (1, 0, True), Some (0, 0, True)]"
  by code_simp

theorem transition_preserves_history_witness:
  "evidence_grows repr_platform sample_transition (xd_notes sample_transition_db) sample_transition_db
     (snd (execute_transition_page repr_platform sample_zone sample_transition 100 200 50 sample_transition_db))"
  by (rule transition_preserves_history [OF surjective_pairing])

theorem transition_finishes_witness:
  "\<exists>s. find_state sample_transition (snd sample_pages) = Some s \<and> xs_complete s"
proof -
  have kind: "sx_kind sample_transition \<noteq> MODEL_REVIEW_REQUIRED" "sx_from sample_transition \<noteq> sx_to sample_transition"
    by (simp_all add: sample_transition_def REUSE_COMPATIBLE_def MODEL_REVIEW_REQUIRED_def PREVIOUS_NEWS_PROMPT_VERSION_def
      CURRENT_NEWS_PROMPT_VERSION_def)
  have work: "work_left sample_transition sample_transition_db \<le> length [200, 210 :: instant]"
    by (simp add: work_left_def find_state_def sample_transition_db_def remaining_def past_cursor_def)
  have ok: "\<forall>r \<in> set (fst sample_pages). \<not> isl r"
  proof
    fix r assume "r \<in> set (fst sample_pages)"
    then have "(case r of Inl _ \<Rightarrow> None | Inr p \<Rightarrow> Some (pr_applied p, pr_failed p, pr_complete p)) \<in>
        set [Some (1 :: nat, 0 :: nat, True), Some (0, 0, True)]"
      unfolding sample_pages_run [symmetric] by simp
    then show "\<not> isl r" by (cases r) simp_all
  qed
  have "transition_calls repr_platform sample_zone sample_transition 100 50 [200, 210] sample_transition_db =
      (fst sample_pages, snd sample_pages)"
    by (simp add: sample_pages_def)
  from transition_finishes [OF kind _ work this ok] show ?thesis by simp
qed

end
