(* ===== verification/Event_Identity.thy ===== *)
theory Event_Identity
  imports Market_Data News_Contract
begin

text \<open>
  What makes two reports reports of one event, \<^verbatim>\<open>xauusd_news/news/retrieval/identity.py\<close>: canonical
  names, the month and the story that a report belongs to, the anchor of a structured occurrence; and
  \<open>_event_key\<close> of \<^verbatim>\<open>xauusd_news/news/semantics/evidence.py\<close>, which chooses among them.

  An event is the alist of a JSON object. An identity is the tuple whose \<open>repr\<close> is hashed: \<open>py_tuple\<close>.
  A folded text is a list of code points, because folding can leave the characters up to 255; the
  ideographs of the patterns lie outside them and match nothing.
\<close>

section \<open>Canonical names\<close>

definition SOURCE_ORGANIZATION_ALIASES :: "(string \<times> string) list" where
  "SOURCE_ORGANIZATION_ALIASES =
     [(''ap_news'', ''ap''), (''apnews_com'', ''ap''), (''associated_press'', ''ap''),
      (''bea_economic_releases'', ''bureau_of_economic_analysis''),
      (''bls_consumer_price_index'', ''bureau_of_labor_statistics''),
      (''bls_employment_situation'', ''bureau_of_labor_statistics''),
      (''bls_job_openings'', ''bureau_of_labor_statistics''), (''bloomberg_com'', ''bloomberg''),
      (''bullionvault_com'', ''bullionvault''), (''bitcoinworld'', ''bitcoin_world''), (''cnbc_com'', ''cnbc''),
      (''ecb_press_releases'', ''european_central_bank''),
      (''eia_press_releases'', ''energy_information_administration''),
      (''eia_today_in_energy'', ''energy_information_administration''),
      (''federal_reserve_monetary'', ''federal_reserve''), (''federal_reserve_press_all'', ''federal_reserve''),
      (''federal_reserve_speeches_testimony'', ''federal_reserve''), (''finance_yahoo_com'', ''yahoo_finance''),
      (''ft_com'', ''financial_times''), (''google_news_bls_official_releases'', ''bureau_of_labor_statistics''),
      (''kitco_com'', ''kitco''), (''kitco_news'', ''kitco''), (''marketwatch_com'', ''marketwatch''),
      (''npr_org'', ''npr''), (''reuters_com'', ''reuters''), (''reuters_news'', ''reuters''),
      (''theguardian_com'', ''the_guardian''), (''thomson_reuters'', ''reuters''),
      (''us_bls'', ''bureau_of_labor_statistics''), (''us_bureau_of_labor_statistics'', ''bureau_of_labor_statistics''),
      (''us_treasury_press_releases'', ''us_treasury''), (''world_gold_council_central_banks'', ''world_gold_council''),
      (''wsj_com'', ''wall_street_journal'')]"

definition alias_of :: "string \<Rightarrow> string" where
  "alias_of s = (case map_of SOURCE_ORGANIZATION_ALIASES s of None \<Rightarrow> s | Some t \<Rightarrow> t)"

text \<open>
  The folded text with every run of other characters as one underscore, stripped of underscores at its ends. The
  ideographs that the pattern keeps lie outside the characters of the model.
\<close>

definition id_code :: "nat \<Rightarrow> bool" where
  "id_code n \<longleftrightarrow> (97 \<le> n \<and> n \<le> 122) \<or> (48 \<le> n \<and> n \<le> 57)"

fun underscored :: "bool \<Rightarrow> nat list \<Rightarrow> string" where
  "underscored run [] = []"
| "underscored run (n # ns) =
     (if id_code n then char_of n # underscored False ns
      else if run then underscored True ns else CHR ''_'' # underscored True ns)"

definition strip_underscores :: "string \<Rightarrow> string" where
  "strip_underscores s =
     (let cut = dropWhile (\<lambda>c. c = CHR ''_'') in rev (cut (rev (cut s))))"

definition canonical_codes :: "nat list \<Rightarrow> string" where
  "canonical_codes ns = alias_of (strip_underscores (underscored False ns))"

definition canonical_id :: "string \<Rightarrow> string" where
  "canonical_id s = canonical_codes (News_Contract.casefold s)"

definition canonical_source_organization :: "string \<Rightarrow> string" where
  "canonical_source_organization s =
     (let v = canonical_id s in if starts_with ''yahoo_finance'' v then ''yahoo_finance'' else alias_of v)"

definition json_id :: "platform \<Rightarrow> json \<Rightarrow> string" where
  "json_id P v = canonical_id (str_or_empty P v)"

text \<open>\<open>event.get(a) or event.get(b)\<close>.\<close>

definition get_or :: "(string \<times> json) list \<Rightarrow> string \<Rightarrow> string \<Rightarrow> json" where
  "get_or d a b = (if truthy (jget d a) then jget d a else jget d b)"

section \<open>The calendar\<close>

text \<open>The year, month and day of a day number counted from 1 January 1970.\<close>

definition civil_date :: "int \<Rightarrow> int \<times> int \<times> int" where
  "civil_date n =
     (let z = n + 719468;
          era = z div 146097;
          doe = z mod 146097;
          yoe = (doe - doe div 1460 + doe div 36524 - doe div 146096) div 365;
          doy = doe - (365 * yoe + yoe div 4 - yoe div 100);
          mp = (5 * doy + 2) div 153;
          month = (if mp < 10 then mp + 3 else mp - 9)
      in (yoe + era * 400 + (if month \<le> 2 then 1 else 0), month, doy - (153 * mp + 2) div 5 + 1))"

definition zero_padded :: "nat \<Rightarrow> int \<Rightarrow> string" where
  "zero_padded w i = (let s = str_int i in replicate (w - length s) (CHR ''0'') @ s)"

definition year_month :: "instant \<Rightarrow> string" where
  "year_month t = (case civil_date (t div days 1) of (y, m, d) \<Rightarrow> zero_padded 4 y @ ''_'' @ zero_padded 2 m)"

definition iso_date :: "instant \<Rightarrow> string" where
  "iso_date t =
     (case civil_date (t div days 1) of (y, m, d) \<Rightarrow> zero_padded 4 y @ ''-'' @ zero_padded 2 m @ ''-'' @ zero_padded 2 d)"

text \<open>A time with no zone is read as UTC.\<close>

definition parse_time :: "platform \<Rightarrow> market_library \<Rightarrow> json \<Rightarrow> instant option" where
  "parse_time P M v =
     (let s = strip (str_or_empty P v) in
      if s = [] then None
      else case parse_iso M (replace_z s) of None \<Rightarrow> None | Some (Aware t) \<Rightarrow> Some t | Some (Naive t) \<Rightarrow> Some t)"

section \<open>The month of a report\<close>

text \<open>
  \<open>(20\d{2})[_-](0?[1-9]|1[0-2])\<close>. The alternatives of the month are tried in their order, each as long as it can
  be: whatever begins with a digit from 1 to 9 is settled by the first.
\<close>

definition code_digit :: "nat \<Rightarrow> bool" where
  "code_digit n \<longleftrightarrow> 48 \<le> n \<and> n \<le> 57"

fun month_here :: "nat list \<Rightarrow> int option" where
  "month_here [] = None"
| "month_here (a # as) =
     (if a = 48 then (case as of [] \<Rightarrow> None | b # _ \<Rightarrow> if 49 \<le> b \<and> b \<le> 57 then Some (int b - 48) else None)
      else if 49 \<le> a \<and> a \<le> 57 then Some (int a - 48)
      else if a = 49 then (case as of [] \<Rightarrow> None | b # _ \<Rightarrow> if 48 \<le> b \<and> b \<le> 50 then Some (10 + (int b - 48)) else None)
      else None)"

fun period_here :: "nat list \<Rightarrow> (string \<times> int) option" where
  "period_here (a # b # c # d # e # rest) =
     (if a = 50 \<and> b = 48 \<and> code_digit c \<and> code_digit d \<and> (e = 95 \<or> e = 45)
      then map_option (\<lambda>m. (map char_of [a, b, c, d], m)) (month_here rest) else None)"
| "period_here _ = None"

fun period_match :: "nat list \<Rightarrow> (string \<times> int) option" where
  "period_match [] = None"
| "period_match (n # ns) = (case period_here (n # ns) of Some r \<Rightarrow> Some r | None \<Rightarrow> period_match ns)"

definition period_text :: "platform \<Rightarrow> (string \<times> json) list \<Rightarrow> string" where
  "period_text P d =
     join ''_'' (map (\<lambda>name. str_or_empty P (jget d name))
       [''episode_key'', ''material_event_key'', ''event_time'', ''source_published_time'', ''collector_first_seen_time''])"

definition period :: "platform \<Rightarrow> market_library \<Rightarrow> (string \<times> json) list \<Rightarrow> string" where
  "period P M d =
     (case period_match (News_Contract.casefold (period_text P d)) of
        Some (year, m) \<Rightarrow> year @ ''_'' @ zero_padded 2 m
      | None \<Rightarrow>
          (case List.map_filter (\<lambda>name. parse_time P M (jget d name))
                  [''event_time'', ''source_published_time'', ''collector_first_seen_time''] of
             [] \<Rightarrow> ''current''
           | t # _ \<Rightarrow> year_month t))"

section \<open>The story and the anchor of a report\<close>

definition mentions :: "string list \<Rightarrow> string \<Rightarrow> bool" where
  "mentions tokens s \<longleftrightarrow> list_ex (\<lambda>token. contains token s) tokens"

definition REMOVAL_TOKENS :: "string list" where
  "REMOVAL_TOKENS = [''fire'', ''firing'', ''remove'', ''removal'', ''dismiss'', ''termination'']"

definition object_id :: "platform \<Rightarrow> (string \<times> json) list \<Rightarrow> string" where
  "object_id P d = json_id P (get_or d ''canonical_object_id'' ''object'')"

definition story_text :: "platform \<Rightarrow> (string \<times> json) list \<Rightarrow> string" where
  "story_text P d =
     join ''_'' (map (\<lambda>name. json_id P (jget d name))
       [''episode_key'', ''material_event_key'', ''canonical_object_id'', ''object'', ''canonical_actor_id'', ''actor'',
        ''canonical_headline'', ''headline'', ''headline_zh'', ''action''])"

definition canonical_story_episode :: "platform \<Rightarrow> market_library \<Rightarrow> (string \<times> json) list \<Rightarrow> string option" where
  "canonical_story_episode P M d =
     (let episode = json_id P (jget d ''episode_key'');
          object = object_id P d;
          s = story_text P d;
          cook_subject = (contains ''lisa_cook'' s \<or> (contains ''cook'' s \<and> mentions REMOVAL_TOKENS s));
          removal_subject = mentions REMOVAL_TOKENS s
      in if cook_subject \<and> removal_subject \<and>
            (contains ''lisa_cook'' object \<or> contains ''cook'' object \<or> contains ''lisa_cook'' s)
         then Some (''lisa_cook_removal_'' @ period P M d)
         else if (contains ''lisa_cook'' s \<or> contains ''lisa_d_cook'' s) \<and>
            mentions [''rate_hike'', ''interest_rate'', ''inflation'', ''monetary_policy''] s
         then Some (''lisa_cook_rate_policy_'' @ period P M d)
         else if mentions [''treasury_borrowing_advisory_committee'', ''tbac_''] s \<and>
            mentions [''meeting'', ''minutes'', ''report'', ''quarterly_refunding'', ''auction_sizes''] s
         then Some (''tbac_meeting_'' @ period P M d)
         else if episode = [] then None else Some episode)"

datatype py_tuple = PyText "nat list" | PyTuple "py_tuple list"

definition py_text :: "string \<Rightarrow> py_tuple" where
  "py_text s = PyText (map of_char s)"

definition cook_development :: "string \<Rightarrow> string \<Rightarrow> string" where
  "cook_development actor action =
     (if contains ''court'' actor \<or> mentions [''court_decision'', ''court_ruling''] (action @ ''_'' @ actor) then ''court_decision''
      else if mentions [''legal_filing'', ''filed_motion'', ''lawsuit'', ''petition''] action then ''legal_filing''
      else if actor \<notin> set [''donald_trump'', ''trump'', ''trump_administration'', ''white_house'', ''dan_scavino'']
      then ''response_'' @ (if actor = [] then ''unknown'' else actor)
      else ''removal_attempt'')"

definition relation_text :: "platform \<Rightarrow> (string \<times> json) list \<Rightarrow> string" where
  "relation_text P d = (let v = jget d ''relation_to_prior'' in upper (if truthy v then py_str P v else ''NONE''))"

definition occurred_day :: "platform \<Rightarrow> market_library \<Rightarrow> (string \<times> json) list \<Rightarrow> string" where
  "occurred_day P M d =
     (case parse_time P M (jget d ''event_time'') of
        Some t \<Rightarrow> iso_date t
      | None \<Rightarrow>
          (case parse_time P M (jget d ''source_published_time'') of Some t \<Rightarrow> iso_date t | None \<Rightarrow> ''unknown-day''))"

definition canonical_material_event_anchor ::
    "platform \<Rightarrow> market_library \<Rightarrow> (string \<times> json) list \<Rightarrow> string list option" where
  "canonical_material_event_anchor P M d =
     (let episode = canonical_story_episode P M d;
          actor = json_id P (get_or d ''canonical_actor_id'' ''actor'');
          action = json_id P (get_or d ''action_family'' ''action'');
          object = object_id P d;
          location = json_id P (get_or d ''canonical_location_id'' ''location'')
      in if episode \<noteq> None \<and> starts_with ''lisa_cook_removal_'' (the episode)
         then Some [''canonical-development'', the episode, cook_development actor action]
         else if actor = [] \<or> action = [] \<or> object = [] then None
         else if relation_text P d \<notin> {[], ''NONE'', ''CONFIRMS''} then None
         else Some [''structured-occurrence'', actor, action, object, location, occurred_day P M d])"

section \<open>The identity of a report\<close>

definition TITLE_STOPWORDS :: "string list" where
  "TITLE_STOPWORDS =
     [''the'', ''a'', ''an'', ''and'', ''or'', ''of'', ''to'', ''in'', ''on'', ''for'', ''with'', ''as'', ''at'', ''by'', ''from'',
      ''after'', ''before'', ''says'', ''said'', ''update'', ''news'', ''report'', ''gold'', ''xauusd'', ''price'', ''market'']"

fun word_runs :: "string \<Rightarrow> nat list \<Rightarrow> string list" where
  "word_runs w [] = (if w = [] then [] else [w])"
| "word_runs w (n # ns) =
     (if id_code n then word_runs (w @ [char_of n]) ns
      else if w = [] then word_runs [] ns else w # word_runs [] ns)"

definition title_tokens :: "string \<Rightarrow> string list" where
  "title_tokens s =
     take 12 (sort (dedupe (filter (\<lambda>w. w \<notin> set TITLE_STOPWORDS) (word_runs [] (News_Contract.casefold s)))))"

definition entity_names :: "platform \<Rightarrow> json list \<Rightarrow> nat list list" where
  "entity_names P vs = sort (dedupe (map (\<lambda>v. normalized (py_str P v)) (filter (\<lambda>v. strip (py_str P v) \<noteq> []) vs)))"

definition folded_field :: "platform \<Rightarrow> json \<Rightarrow> nat list" where
  "folded_field P v = News_Contract.casefold (strip (str_or_empty P v))"

text \<open>
  The fallbacks, from the most to the least specific: the entities, when there are two, and the words of the headline.
\<close>

definition entity_identity :: "platform \<Rightarrow> json list \<Rightarrow> string \<Rightarrow> string \<Rightarrow> py_tuple" where
  "entity_identity P entities topic headline =
     (let names = entity_names P entities in
      if 2 \<le> length names then PyTuple [py_text ''entities'', py_text topic, PyTuple (map PyText names)]
      else PyTuple [py_text ''headline'', py_text topic, PyTuple (map PyText names), PyTuple (map py_text (title_tokens headline))])"

definition semantic_identity :: "platform \<Rightarrow> (string \<times> json) list \<Rightarrow> json list \<Rightarrow> string \<Rightarrow> string \<Rightarrow> py_tuple" where
  "semantic_identity P d entities topic headline =
     (let actor = folded_field P (get_or d ''canonical_actor_id'' ''actor'');
          action = folded_field P (get_or d ''action_family'' ''action'');
          object = folded_field P (get_or d ''canonical_object_id'' ''object'');
          location = folded_field P (get_or d ''canonical_location_id'' ''location'')
      in if actor \<noteq> [] \<and> action \<noteq> [] \<and> object \<noteq> []
         then PyTuple [py_text ''semantic-event'', py_text topic, PyText actor, PyText action, PyText object, PyText location]
         else entity_identity P entities topic headline)"

text \<open>\<open>d\<close> is the annotation, \<open>s\<close> the annotation with the headline and the times of its revision.\<close>

definition unresolved_identity ::
    "platform \<Rightarrow> market_library \<Rightarrow> (string \<times> json) list \<Rightarrow> (string \<times> json) list \<Rightarrow> json list \<Rightarrow> string \<Rightarrow> string \<Rightarrow> py_tuple" where
  "unresolved_identity P M d s entities topic headline =
     (let key = folded_field P (jget d ''material_event_key'');
          named = PyTuple [py_text ''material-event'', PyText key]
      in if key \<noteq> [] \<and> canonical_codes key = object_id P d then named
         else case canonical_material_event_anchor P M s of
           Some anchor \<Rightarrow> PyTuple (map py_text anchor)
         | None \<Rightarrow> if key \<noteq> [] then named else semantic_identity P d entities topic headline)"

section \<open>Facts of the month\<close>

text \<open>
  The first alternative of the month takes the 1 of 10, 11 and 12, so a report of the last quarter is filed under
  January, and the reports of one story in January, October, November and December under one episode.
\<close>

lemma two_digit_months_read_as_january:
  "b \<in> {48, 49, 50} \<Longrightarrow> month_here (49 # b # rest) = Some 1"
  by simp

lemma november_is_filed_under_january:
  "period sample_platform sample_library [(''event_time'', JStr ''2026-11-05T10:00:00Z'')] = ''2026_01''"
  by code_simp

lemma february_is_filed_under_february:
  "period sample_platform sample_library [(''event_time'', JStr ''2026-02-05T10:00:00Z'')] = ''2026_02''"
  by code_simp

lemma calendar_of_some_days:
  "iso_date 0 = ''1970-01-01''" "iso_date (days 11016) = ''2000-02-29''" "iso_date (days 20761) = ''2026-11-04''"
  by code_simp+

end
