(* ===== verification/Event_Evidence.thy ===== *)
theory Event_Evidence
  imports Provider_Registry Job_Reconciliation Event_Identity
begin

text \<open>
  The events that the model may learn from, \<^verbatim>\<open>xauusd_news/news/semantics/evidence.py\<close>: at a decision, the
  articles that were received, understood and assessed by then are grouped by the event that they report,
  each group is graded by the independence of its sources and admitted or refused with its reasons. What makes
  reports one event is in \<open>Event_Identity\<close>, the lifetime of an event is that of \<^verbatim>\<open>xauusd_news/news/annotation/impact.py\<close>.

  The rows are those of the ledger and of the impact assessments of \<^verbatim>\<open>Job_Reconciliation\<close>. Texts that were
  stored as JSON or as ISO times are read as what they denote. What is outside the sources is an
  argument: \<open>event_env\<close>.
\<close>

definition RESOLVED_IDENTITY_RELATIONS :: "string list" where
  "RESOLVED_IDENTITY_RELATIONS = [''NEW_EPISODE'', ''SAME_EPISODE'', ''SAME_EVENT'']"

section \<open>The rows of a decision\<close>

record event_row =
  er_news :: revision
  er_note :: annotation_row
  er_fields :: "(string \<times> json) list"
  er_impact :: "impact_assessment option"
  er_resolution :: "identity_resolution option"

text \<open>
  The fields of \<open>annotation_json\<close> and the confidence and entities columns, by the id of the annotation; the host of a
  link, \<open>urlparse(link).hostname\<close>; the text of an event time as an instant; \<open>float\<close> of a JSON value; the hash of a
  JSON value and of the \<open>repr\<close> of a tuple; what \<open>isoformat\<close> writes for the time that \<open>fromisoformat\<close> reads from a text,
  which keeps its offset; and the UTC offset of the time zone that the decision's \<open>datetime\<close> carries.
\<close>

record event_env =
  ee_platform :: platform
  ee_library :: market_library
  ee_zone :: zone
  ee_json :: "string \<Rightarrow> (string \<times> json) list"
  ee_confidence :: "string \<Rightarrow> real"
  ee_entities :: "string \<Rightarrow> json list"
  ee_host :: "string option \<Rightarrow> string"
  ee_float :: "json \<Rightarrow> real outcome"
  ee_hash :: "json \<Rightarrow> string"
  ee_repr_hash :: "py_tuple \<Rightarrow> string"
  ee_isoformat :: "string \<Rightarrow> string"
  ee_offset :: int

text \<open>
  The stored times are texts in UTC, with microseconds, and the query compares them as texts with
  \<open>decision_time.isoformat(timespec="microseconds")\<close>, which writes the decision's own wall clock: the offset behind it
  cannot decide the comparison, as no text of an offset is below \<open>+00:00\<close>. A row is visible when its time, read in UTC,
  is not after the wall clock of the decision, which is the decision itself only when that is in UTC.
\<close>

definition wall_clock :: "event_env \<Rightarrow> instant \<Rightarrow> instant" where
  "wall_clock E t = t + ee_offset E"

definition HANDOVER_IMPACT_PROMPT_VERSION :: string where
  "HANDOVER_IMPACT_PROMPT_VERSION = ''news-impact-v3-independent-semantic-review''"

definition usable_assessment :: "instant \<Rightarrow> annotation_row \<Rightarrow> impact_assessment \<Rightarrow> bool" where
  "usable_assessment cutoff a i \<longleftrightarrow>
     ia_annotation i = nn_id a \<and> ia_model i = IMPACT_MODEL \<and>
     ia_prompt i \<in> set [IMPACT_PROMPT_VERSION, HANDOVER_IMPACT_PROMPT_VERSION] \<and> ia_assessed i \<le> cutoff"

text \<open>The assessment of the current prompt, else of the handed-over one; of several, the latest.\<close>

definition selected_assessment :: "instant \<Rightarrow> impact_assessment list \<Rightarrow> annotation_row \<Rightarrow> impact_assessment option" where
  "selected_assessment cutoff is a =
     sql_first (\<lambda>i. (if ia_prompt i = IMPACT_PROMPT_VERSION then 0 else 1 :: int, - ia_assessed i))
       (usable_assessment cutoff a) is"

definition understood :: "instant \<Rightarrow> revision list \<Rightarrow> revision \<Rightarrow> annotation_row \<Rightarrow> bool" where
  "understood cutoff revs n a \<longleftrightarrow>
     nn_key a = key_of n \<and> nn_hash a = vn_hash n \<and> vn_first_seen n \<le> cutoff \<and> nn_parsed a \<le> cutoff \<and>
     240 \<le> length (sql_trim (case vn_body n of None \<Rightarrow> [] | Some b \<Rightarrow> b)) \<and>
     nn_model a \<in> set SUPPORTED_GEMINI_MODELS \<and> nn_prompt a = CURRENT_NEWS_PROMPT_VERSION \<and> usable_annotation a \<and>
     \<not> list_ex (\<lambda>m. article m = article n \<and> vn_number n < vn_number m \<and> vn_first_seen m \<le> cutoff) revs"

definition event_row_of :: "event_env \<Rightarrow> instant \<Rightarrow> maintenance_db \<Rightarrow> revision \<Rightarrow> annotation_row \<Rightarrow> event_row" where
  "event_row_of E t m n a =
     (let cutoff = wall_clock E t; i = selected_assessment cutoff (mb_assessments m) a in
      \<lparr>er_news = n, er_note = a, er_fields = ee_json E (nn_id a), er_impact = i,
       er_resolution = (case i of None \<Rightarrow> None
         | Some i \<Rightarrow> find (\<lambda>x. ix_assessment x = ia_id i \<and> ix_resolved x \<le> cutoff) (mb_resolutions m))\<rparr>)"

text \<open>\<open>ORDER BY parsed_at DESC, annotation_id DESC\<close>, and the first row of every revision.\<close>

definition joined_rows :: "event_env \<Rightarrow> instant \<Rightarrow> maintenance_db \<Rightarrow> event_row list" where
  "joined_rows E t m =
     concat (map (\<lambda>n. map (event_row_of E t m n)
         (filter (understood (wall_clock E t) (ld_revisions (mb_ledger m)) n) (ld_annotations (mb_ledger m))))
       (ld_revisions (mb_ledger m)))"

fun first_by :: "('r \<Rightarrow> 'k) \<Rightarrow> 'k set \<Rightarrow> 'r list \<Rightarrow> 'r list" where
  "first_by key seen [] = []"
| "first_by key seen (r # rs) = (if key r \<in> seen then first_by key seen rs else r # first_by key (insert (key r) seen) rs)"

definition latest_rows :: "event_env \<Rightarrow> instant \<Rightarrow> maintenance_db \<Rightarrow> event_row list" where
  "latest_rows E t m =
     first_by (key_of \<circ> er_news) {}
       (rev (sort_key (\<lambda>r. (nn_parsed (er_note r), nn_id (er_note r))) (joined_rows E t m)))"

section \<open>What one row says\<close>

definition IMPACT_TIME_RULES :: "(string \<times> int \<times> real) list" where
  "IMPACT_TIME_RULES =
     [(''IMMEDIATE'', hours 2, 30), (''SAME_DAY'', hours 12, 120), (''DATA_RELEASE'', hours 24, 360),
      (''POLICY_SHIFT'', hours 72, 1440), (''ONGOING_EVENT'', days 7, 4320), (''BACKGROUND'', 0, 1)]"

definition impact_time_rule :: "string \<Rightarrow> int \<times> real" where
  "impact_time_rule c = (case map_of IMPACT_TIME_RULES (if c = [] then ''BACKGROUND'' else c) of Some r \<Rightarrow> r | None \<Rightarrow> (0, 1))"

definition row_class :: "event_row \<Rightarrow> string" where
  "row_class r = (case er_impact r of None \<Rightarrow> ''BACKGROUND'' | Some i \<Rightarrow> if ia_class i = [] then ''BACKGROUND'' else ia_class i)"

definition impact_is_actionable :: "impact_assessment option \<Rightarrow> bool" where
  "impact_is_actionable a \<longleftrightarrow>
     (case a of None \<Rightarrow> False
      | Some i \<Rightarrow> ia_class i \<in> set IMPACT_CLASSES - {''BACKGROUND''} \<and> ia_event_state i \<noteq> ''BACKGROUND'' \<and>
                  ia_update_type i \<in> {''NEW_EVENT'', ''MATERIAL_UPDATE''})"

definition impact_reason :: "impact_assessment option \<Rightarrow> string" where
  "impact_reason a =
     (case a of None \<Rightarrow> ''IMPACT_NOT_ASSESSED''
      | Some i \<Rightarrow>
          if ia_update_type i = ''DUPLICATE_REPORT'' then ''IMPACT_DUPLICATE_REPORT''
          else if ia_update_type i = ''HISTORICAL_CONTEXT'' then ''IMPACT_HISTORICAL_CONTEXT''
          else if ia_update_type i = ''COMMENTARY'' then ''IMPACT_COMMENTARY''
          else ''IMPACT_BACKGROUND'')"

text \<open>\<open>assess_news_time\<close> on the stored times of a visible revision, refused when its impact is not actionable.\<close>

definition event_policy :: "string \<Rightarrow> time_policy" where
  "event_policy c = \<lparr>tp_max_age = fst (impact_time_rule c), tp_max_delay = None, tp_pre_forward = True, tp_weekly = True\<rparr>"

definition stored_time_assessment ::
    "event_env \<Rightarrow> instant \<Rightarrow> instant \<Rightarrow> event_row \<Rightarrow> news_time_assessment outcome" where
  "stored_time_assessment E t epoch r =
     (case vn_published (er_news r) of
        None \<Rightarrow> Inr (assessment False None None None ''PUBLISHED_TIME_MISSING'')
      | Some p \<Rightarrow>
          bind_out (news_elapsed (ee_zone E) (event_policy (row_class r)) p t) (\<lambda>elapsed.
            Inr (judge_news_time (ee_platform E) (event_policy (row_class r)) t epoch (vn_first_seen (er_news r)) p elapsed)))"

definition row_timing :: "event_env \<Rightarrow> instant \<Rightarrow> instant \<Rightarrow> event_row \<Rightarrow> news_time_assessment outcome" where
  "row_timing E t epoch r =
     bind_out (stored_time_assessment E t epoch r) (\<lambda>timing.
       Inr (if impact_is_actionable (er_impact r) then timing
            else timing\<lparr>na_eligible := False, na_reason := impact_reason (er_impact r)\<rparr>))"

definition FIRST_PARTY_SOURCES :: "string list" where
  "FIRST_PARTY_SOURCES =
     [''federal_reserve_monetary'', ''federal_reserve_press_all'', ''federal_reserve_speeches_testimony'',
      ''bea_economic_releases'', ''us_treasury_press_releases'', ''bls_employment_situation'', ''bls_consumer_price_index'',
      ''bls_job_openings'', ''google_news_bls_official_releases'', ''eia_press_releases'', ''eia_today_in_energy'',
      ''ecb_press_releases'', ''world_gold_council_central_banks'']"

definition RELIABLE_PUBLISHER_DOMAINS :: "string list" where
  "RELIABLE_PUBLISHER_DOMAINS =
     [''aljazeera.com'', ''apnews.com'', ''bbc.com'', ''bloomberg.com'', ''cnbc.com'', ''dw.com'', ''finance.yahoo.com'',
      ''france24.com'', ''ft.com'', ''marketwatch.com'', ''nikkei.com'', ''npr.org'', ''reuters.com'', ''thebanker.com'',
      ''theguardian.com'', ''wsj.com'', ''kitco.com'', ''bullionvault.com'']"

definition removeprefix :: "string \<Rightarrow> string \<Rightarrow> string" where
  "removeprefix p s = (if starts_with p s then drop (length p) s else s)"

definition publisher_domain :: "event_env \<Rightarrow> event_row \<Rightarrow> string" where
  "publisher_domain E r = removeprefix ''www.'' (ee_host E (vn_link (er_news r)))"

definition ends_in :: "string \<Rightarrow> string \<Rightarrow> bool" where
  "ends_in p s = starts_with (rev p) (rev s)"

definition reliable_domain :: "string \<Rightarrow> string option" where
  "reliable_domain host = find (\<lambda>d. host = d \<or> ends_in (CHR ''.'' # d) host) RELIABLE_PUBLISHER_DOMAINS"

definition first_nonempty :: "string \<Rightarrow> string \<Rightarrow> string" where
  "first_nonempty a b = (if a \<noteq> [] then a else b)"

text \<open>An empty identity is no identity.\<close>

definition source_organization :: "event_env \<Rightarrow> event_row \<Rightarrow> string option" where
  "source_organization E r =
     (let declared = canonical_source_organization (str_or_empty (ee_platform E) (jget (er_fields r) ''source_organization_id''));
          host = publisher_domain E r;
          publisher = canonical_source_organization (case reliable_domain host of Some d \<Rightarrow> d | None \<Rightarrow> host);
          source = vn_source (er_news r);
          direct = (if source \<in> set FIRST_PARTY_SOURCES then canonical_source_organization source else []);
          external = (if publisher \<noteq> [] then first_nonempty declared publisher else [])
      in nonblank (Some (first_nonempty direct external)))"

definition resolved_identity_ids :: "event_row \<Rightarrow> (string \<times> string) option" where
  "resolved_identity_ids r =
     (case er_resolution r of
        None \<Rightarrow> None
      | Some x \<Rightarrow>
          if upper (ix_relation x) \<notin> set RESOLVED_IDENTITY_RELATIONS then None
          else if strip (ix_episode x) = [] \<or> strip (ix_event x) = [] then None
          else Some (strip (ix_episode x), strip (ix_event x)))"

definition identity_resolution_status :: "event_row \<Rightarrow> string" where
  "identity_resolution_status r =
     (if (case er_resolution r of None \<Rightarrow> False | Some x \<Rightarrow> upper (ix_relation x) = ''UNRESOLVED'') then ''UNRESOLVED''
      else if resolved_identity_ids r \<noteq> None then ''RESOLVED'' else ''MISSING'')"

definition structured_fields :: "event_env \<Rightarrow> event_row \<Rightarrow> (string \<times> json) list" where
  "structured_fields E r =
     [(''headline'', JStr (vn_headline (er_news r))),
      (''source_published_time'',
        (case vn_published (er_news r) of None \<Rightarrow> JNull | Some p \<Rightarrow> JStr (iso_text (ee_platform E) p))),
      (''collector_first_seen_time'', JStr (iso_text (ee_platform E) (vn_first_seen (er_news r))))] @ er_fields r"

definition event_identity :: "event_env \<Rightarrow> event_row \<Rightarrow> string list \<Rightarrow> py_tuple" where
  "event_identity E r topics =
     (case resolved_identity_ids r of
        Some (_, event) \<Rightarrow> PyTuple [py_text ''resolved-event'', py_text event]
      | None \<Rightarrow> unresolved_identity (ee_platform E) (ee_library E) (er_fields r) (structured_fields E r)
          (ee_entities E (nn_id (er_note r))) (hd topics) (vn_headline (er_news r)))"

definition cluster_key :: "event_env \<Rightarrow> event_row \<Rightarrow> string list \<Rightarrow> string" where
  "cluster_key E r topics = ee_repr_hash E (event_identity E r topics)"

definition bls_copy :: "event_env \<Rightarrow> event_row \<Rightarrow> bool" where
  "bls_copy E r \<longleftrightarrow> vn_source (er_news r) = ''google_news_bls_official_releases'' \<and>
     publisher_domain E r \<noteq> ''bls.gov'' \<and> \<not> ends_in ''.bls.gov'' (publisher_domain E r)"

text \<open>A row with all that the grouping adds to it.\<close>

record member =
  mr_row :: event_row
  mr_timing :: news_time_assessment
  mr_domain :: string
  mr_reliable :: "string option"
  mr_organization :: "string option"
  mr_topics :: "string list"
  mr_event :: string

definition member_of :: "event_env \<Rightarrow> instant \<Rightarrow> instant \<Rightarrow> event_row \<Rightarrow> member option outcome" where
  "member_of E t epoch r =
     bind_out (row_timing E t epoch r) (\<lambda>timing.
       if bls_copy E r then Inr None
       else bind_out (annotation_topics (ee_platform E) (er_fields r)) (\<lambda>topics.
         Inr (Some \<lparr>mr_row = r, mr_timing = timing, mr_domain = publisher_domain E r,
           mr_reliable = reliable_domain (publisher_domain E r), mr_organization = source_organization E r,
           mr_topics = topics, mr_event = cluster_key E r topics\<rparr>)))"

fun members_of :: "event_env \<Rightarrow> instant \<Rightarrow> instant \<Rightarrow> event_row list \<Rightarrow> member list outcome" where
  "members_of E t epoch [] = Inr []"
| "members_of E t epoch (r # rs) =
     bind_out (member_of E t epoch r) (\<lambda>found.
     bind_out (members_of E t epoch rs) (\<lambda>ms.
       Inr (case found of None \<Rightarrow> ms | Some x \<Rightarrow> x # ms)))"

section \<open>What a group of rows says\<close>

datatype grade = PRIMARY | CORROBORATED | SINGLE_RELIABLE | SINGLE_SOURCE | DISCOVERY_ONLY

fun grade_name :: "grade \<Rightarrow> string" where
  "grade_name PRIMARY = ''PRIMARY''"
| "grade_name CORROBORATED = ''CORROBORATED''"
| "grade_name SINGLE_RELIABLE = ''SINGLE_RELIABLE''"
| "grade_name SINGLE_SOURCE = ''SINGLE_SOURCE''"
| "grade_name DISCOVERY_ONLY = ''DISCOVERY_ONLY''"

definition timely_members :: "member list \<Rightarrow> member list" where
  "timely_members ms = filter (na_eligible \<circ> mr_timing) ms"

definition evidence_members :: "member list \<Rightarrow> member list" where
  "evidence_members ms = (if timely_members ms \<noteq> [] then timely_members ms else ms)"

definition primary_members :: "member list \<Rightarrow> member list" where
  "primary_members es = filter (\<lambda>x. vn_source (er_news (mr_row x)) \<in> set FIRST_PARTY_SOURCES) es"

definition somes :: "'a option list \<Rightarrow> 'a list" where
  "somes xs = concat (map (\<lambda>x. case x of None \<Rightarrow> [] | Some y \<Rightarrow> [y]) xs)"

definition organizations :: "member list \<Rightarrow> string list" where
  "organizations es = dedupe (somes (map mr_organization es))"

definition reliable_organizations :: "member list \<Rightarrow> string list" where
  "reliable_organizations es = dedupe (somes (map mr_organization (filter (\<lambda>x. mr_reliable x \<noteq> None) es)))"

definition reliable_domains :: "member list \<Rightarrow> string list" where
  "reliable_domains es = dedupe (somes (map mr_reliable es))"

definition grade_of :: "member list \<Rightarrow> grade" where
  "grade_of es =
     (if primary_members es \<noteq> [] then PRIMARY
      else if 2 \<le> length (organizations es) then CORROBORATED
      else if organizations es \<noteq> [] then (if reliable_domains es \<noteq> [] then SINGLE_RELIABLE else SINGLE_SOURCE)
      else DISCOVERY_ONLY)"

definition candidate_members :: "member list \<Rightarrow> member list" where
  "candidate_members es =
     (if primary_members es \<noteq> [] then primary_members es
      else let known = filter (\<lambda>x. mr_organization x \<noteq> None) es in if known \<noteq> [] then known else es)"

definition update_rank :: "member \<Rightarrow> int" where
  "update_rank x =
     (case er_impact (mr_row x) of None \<Rightarrow> 0
      | Some i \<Rightarrow> if ia_update_type i = ''MATERIAL_UPDATE'' then 2 else if ia_update_type i = ''NEW_EVENT'' then 1 else 0)"

definition body_characters :: "member \<Rightarrow> nat" where
  "body_characters x = (case vn_body (er_news (mr_row x)) of None \<Rightarrow> 4 | Some b \<Rightarrow> length b)"

definition canonical_key :: "event_env \<Rightarrow> member \<Rightarrow> int \<times> instant \<times> real \<times> nat \<times> string" where
  "canonical_key E x =
     (update_rank x, vn_first_seen (er_news (mr_row x)), ee_confidence E (nn_id (er_note (mr_row x))),
      body_characters x, vn_item (er_news (mr_row x)))"

text \<open>\<open>max(candidates, key=...)\<close> keeps the first of equal maxima.\<close>

fun max_by :: "('a \<Rightarrow> 'k::linorder) \<Rightarrow> 'a \<Rightarrow> 'a list \<Rightarrow> 'a" where
  "max_by key best [] = best"
| "max_by key best (x # xs) = max_by key (if key best < key x then x else best) xs"

definition canonical_member :: "event_env \<Rightarrow> member list \<Rightarrow> member" where
  "canonical_member E es = max_by (canonical_key E) (hd (candidate_members es)) (tl (candidate_members es))"

definition ACTION_TOPICS :: "string list" where
  "ACTION_TOPICS =
     [''rates_fed'', ''inflation'', ''employment'', ''growth_economy'', ''usd_liquidity'', ''oil_energy'', ''war_geopolitics'',
      ''central_bank_gold'', ''risk_sentiment'']"

definition ACTIONABLE_EVIDENCE_ROLES :: "string list" where
  "ACTIONABLE_EVIDENCE_ROLES = [''CORE_CLAIM'', ''EVIDENCE_DOCUMENT'', ''MARKET_REACTION'']"

definition MIN_ACTIONABLE_MATERIALITY :: real where "MIN_ACTIONABLE_MATERIALITY = 1 / 2"

definition EVIDENCE_POLICY_VERSION :: string where "EVIDENCE_POLICY_VERSION = ''news-event-evidence-v14-canonical-identity''"

definition field_text :: "event_env \<Rightarrow> (string \<times> json) list \<Rightarrow> string \<Rightarrow> string" where
  "field_text E d name = str_or_empty (ee_platform E) (jget d name)"

text \<open>\<open>float(annotation.get("materiality") or 0.0)\<close>.\<close>

definition materiality_of :: "event_env \<Rightarrow> (string \<times> json) list \<Rightarrow> real outcome" where
  "materiality_of E d = (let v = jget d ''materiality'' in if truthy v then ee_float E v else Inr 0)"

definition annotation_is_actionable_candidate :: "event_env \<Rightarrow> (string \<times> json) list \<Rightarrow> real \<Rightarrow> bool" where
  "annotation_is_actionable_candidate E d materiality \<longleftrightarrow>
     field_text E d ''primary_category'' \<in> set ACTIONABLE_CATEGORIES \<and>
     effective_record_kind (ee_platform E) d \<in> set ACTIONABLE_RECORD_KINDS \<and>
     field_text E d ''evidence_role'' \<in> set ACTIONABLE_EVIDENCE_ROLES \<and>
     MIN_ACTIONABLE_MATERIALITY \<le> materiality \<and>
     field_text E d ''xauusd_relevance'' \<in> {''DIRECT'', ''MACRO_DRIVER''} \<and>
     field_text E d ''material_change'' \<in> {''NEW_EVENT'', ''MATERIAL_UPDATE''}"

text \<open>A time with hours and minutes, and with a zone: \<open>_parsed_timestamp\<close>.\<close>

definition digit_at :: "string \<Rightarrow> nat \<Rightarrow> bool" where
  "digit_at s i \<longleftrightarrow> i < length s \<and> CHR ''0'' \<le> s ! i \<and> s ! i \<le> CHR ''9''"

definition has_clock :: "string \<Rightarrow> bool" where
  "has_clock s \<longleftrightarrow> list_ex (\<lambda>i. (s ! i = CHR ''T'' \<or> is_space (s ! i)) \<and>
     list_ex (\<lambda>k. list_all (\<lambda>d. digit_at s (i + d)) [1..<k + 1] \<and> i + k + 1 < length s \<and> s ! (i + k + 1) = CHR '':'' \<and>
       digit_at s (i + k + 2) \<and> digit_at s (i + k + 3)) [1, 2]) [0..<length s]"

definition parsed_timestamp :: "event_env \<Rightarrow> string \<Rightarrow> instant option" where
  "parsed_timestamp E value =
     (let s = strip value in
      if s = [] \<or> \<not> has_clock s then None
      else case parse_iso (ee_library E) (replace_z s) of
             Some (Aware t) \<Rightarrow> Some t
           | _ \<Rightarrow> None)"

definition resolve_event_clock :: "event_env \<Rightarrow> event_row \<Rightarrow> bool \<Rightarrow> bool \<Rightarrow> instant option \<times> string" where
  "resolve_event_clock E r primary reliable =
     (case parsed_timestamp E (field_text E (er_fields r) ''event_time'') of
        Some t \<Rightarrow> (Some t, ''EXPLICIT_BODY_TIME'')
      | None \<Rightarrow>
          (case vn_published (er_news r) of
             Some p \<Rightarrow>
               if primary then (Some p, ''OFFICIAL_RELEASE_TIME'')
               else if reliable then (Some p, ''SOURCE_STRUCTURED_TIME'')
               else (None, ''UNKNOWN'')
           | None \<Rightarrow> (None, ''UNKNOWN'')))"

text \<open>Everything that the admission of a group turns on, about its canonical row.\<close>

record event_verdict =
  ve_grade :: grade
  ve_canonical :: member
  ve_topics :: "string list"
  ve_identity :: string
  ve_timely :: bool
  ve_relevant :: bool
  ve_record_kind :: string
  ve_role :: string
  ve_materiality :: real
  ve_relevance :: string
  ve_change :: string
  ve_semantic :: bool
  ve_clock :: "instant option"
  ve_clock_source :: string
  ve_clock_valid :: bool
  ve_age :: "real option"
  ve_lifetime_valid :: bool

definition verdict_of :: "event_env \<Rightarrow> instant \<Rightarrow> member list \<Rightarrow> event_verdict outcome" where
  "verdict_of E t ms =
     (let es = evidence_members ms;
          x = canonical_member E es;
          d = er_fields (mr_row x);
          P = ee_platform E;
          (clock, clock_source) = resolve_event_clock E (mr_row x)
            (vn_source (er_news (mr_row x)) \<in> set FIRST_PARTY_SOURCES) (mr_organization x \<noteq> None);
          valid = (case clock of None \<Rightarrow> False | Some c \<Rightarrow> c \<le> t);
          age = (if valid then Some (max 0 (fl P (total_seconds P (t - the clock) / 60))) else None);
          lifetime = (case age of None \<Rightarrow> False
                      | Some a \<Rightarrow> a \<le> fl P (total_seconds P (fst (impact_time_rule (row_class (mr_row x)))) / 60))
      in bind_out (materiality_of E d) (\<lambda>materiality.
           Inr \<lparr>ve_grade = grade_of es, ve_canonical = x, ve_topics = sort (dedupe (concat (map mr_topics ms))),
             ve_identity = identity_resolution_status (mr_row x), ve_timely = (timely_members ms \<noteq> []),
             ve_relevant = (field_text E d ''primary_category'' \<in> set ACTIONABLE_CATEGORIES),
             ve_record_kind = effective_record_kind P d, ve_role = field_text E d ''evidence_role'',
             ve_materiality = materiality, ve_relevance = field_text E d ''xauusd_relevance'',
             ve_change = field_text E d ''material_change'',
             ve_semantic = annotation_is_actionable_candidate E d materiality,
             ve_clock = clock, ve_clock_source = clock_source, ve_clock_valid = valid, ve_age = age,
             ve_lifetime_valid = lifetime\<rparr>))"

definition has_action_topic :: "event_verdict \<Rightarrow> bool" where
  "has_action_topic v \<longleftrightarrow> (\<exists>x \<in> set (ve_topics v). x \<in> set ACTION_TOPICS)"

definition broad_eligible :: "event_verdict \<Rightarrow> bool" where
  "broad_eligible v \<longleftrightarrow>
     ve_identity v = ''RESOLVED'' \<and> ve_timely v \<and> ve_grade v \<noteq> DISCOVERY_ONLY \<and> has_action_topic v \<and>
     ve_relevant v \<and> ve_semantic v \<and> ve_clock_valid v \<and> ve_lifetime_valid v"

definition reason_codes :: "member list \<Rightarrow> event_verdict \<Rightarrow> string list" where
  "reason_codes ms v =
     [''EVIDENCE_'' @ grade_name (ve_grade v)] @
     (if ve_identity v = ''UNRESOLVED'' then [''IDENTITY_UNRESOLVED'']
      else if ve_identity v = ''MISSING'' then [''IDENTITY_NOT_RESOLVED''] else []) @
     (if ve_clock_source v = ''SOURCE_STRUCTURED_TIME'' then [''RELIABLE_PUBLISHER_TIME_PROXY''] else []) @
     (if \<not> ve_timely v then sort (dedupe (map (na_reason \<circ> mr_timing) ms)) else []) @
     (if \<not> ve_relevant v then [''CATEGORY_NOT_ACTIONABLE''] else []) @
     (if \<not> has_action_topic v then [''NO_ACTION_TOPIC'']
      else if ve_grade v \<in> {SINGLE_RELIABLE, SINGLE_SOURCE} then [''SINGLE_SOURCE_ATTRIBUTE'']
      else if ve_timely v \<and> ve_grade v = DISCOVERY_ONLY then [''PUBLISHER_IDENTITY_MISSING''] else []) @
     (if ve_record_kind v \<notin> set ACTIONABLE_RECORD_KINDS then [''RECORD_KIND_NOT_ACTIONABLE''] else []) @
     (if ve_role v \<notin> set ACTIONABLE_EVIDENCE_ROLES then [''EVIDENCE_ROLE_NOT_ACTIONABLE''] else []) @
     (if ve_materiality v < MIN_ACTIONABLE_MATERIALITY then [''LOW_MATERIALITY''] else []) @
     (if ve_relevance v \<notin> {''DIRECT'', ''MACRO_DRIVER''} then [''XAUUSD_SEMANTICALLY_INELIGIBLE''] else []) @
     (if ve_change v \<notin> {''NEW_EVENT'', ''MATERIAL_UPDATE''} then [''NO_MATERIAL_CHANGE''] else []) @
     (if \<not> ve_clock_valid v then [''EVENT_TIME_INVALID'']
      else if \<not> ve_lifetime_valid v then [''EVENT_LIFETIME_EXPIRED''] else [])"

definition primary_organizations :: "event_env \<Rightarrow> member list \<Rightarrow> nat list list" where
  "primary_organizations E es =
     dedupe (map (\<lambda>x. News_Contract.casefold (strip
       (let v = jget (er_fields (mr_row x)) ''source_organization_id'' in
        if truthy v then py_str (ee_platform E) v else vn_source (er_news (mr_row x))))) (primary_members es))"

definition independent_publishers :: "event_env \<Rightarrow> member list \<Rightarrow> nat" where
  "independent_publishers E es =
     (if primary_members es = [] then length (organizations es) else length (primary_organizations E es))"

definition core_eligible :: "event_env \<Rightarrow> member list \<Rightarrow> event_verdict \<Rightarrow> bool" where
  "core_eligible E es v \<longleftrightarrow>
     broad_eligible v \<and>
     (ve_grade v = PRIMARY \<or>
      (ve_grade v = CORROBORATED \<and> 2 \<le> independent_publishers E es \<and> 2 \<le> length (reliable_organizations es)))"

definition source_reliability_of :: "member list \<Rightarrow> real" where
  "source_reliability_of es =
     (if primary_members es \<noteq> [] then 1 else if reliable_domains es \<noteq> [] then 3 / 4
      else if organizations es \<noteq> [] then 7 / 20 else 0)"

definition json_option :: "string option \<Rightarrow> json" where
  "json_option x = (case x of None \<Rightarrow> JNull | Some s \<Rightarrow> JStr s)"

definition impact_id :: "member \<Rightarrow> json" where
  "impact_id x = json_option (map_option ia_id (er_impact (mr_row x)))"

definition source_hash :: "event_env \<Rightarrow> member list \<Rightarrow> string" where
  "source_hash E ms =
     ee_hash E (JList (map (\<lambda>x. let r = mr_row x in
         JList [JStr (vn_hash (er_news r)), JStr (nn_id (er_note r)), impact_id x, json_option (mr_organization x),
           json_option (map_option ix_relation (er_resolution r)), json_option (map_option ix_episode (er_resolution r)),
           json_option (map_option ix_event (er_resolution r))])
       (sort_key (\<lambda>x. (vn_hash (er_news (mr_row x)), nn_id (er_note (mr_row x)))) ms)))"

text \<open>
  The event, without the fields that it copies from its canonical row, which is kept whole.
\<close>

record event =
  ev_id :: string
  ev_version :: string
  ev_members :: "member list"
  ev_verdict :: event_verdict
  ev_broad :: bool
  ev_core :: bool
  ev_publishers :: nat
  ev_first_party :: bool
  ev_reliability :: real
  ev_duplicates :: nat
  ev_first_seen :: instant
  ev_reasons :: "string list"
  ev_source_hash :: string

text \<open>
  \<open>event_clock.isoformat()\<close>: of the time in the body, with its own offset, or of the stored time of publication.
\<close>

definition clock_text :: "event_env \<Rightarrow> event_verdict \<Rightarrow> json" where
  "clock_text E v =
     (case ve_clock v of
        None \<Rightarrow> JNull
      | Some c \<Rightarrow> JStr (ee_isoformat E
          (if ve_clock_source v = ''EXPLICIT_BODY_TIME''
           then replace_z (strip (field_text E (er_fields (mr_row (ve_canonical v))) ''event_time''))
           else iso_text (ee_platform E) c)))"

definition event_of :: "event_env \<Rightarrow> instant \<Rightarrow> string \<Rightarrow> member list \<Rightarrow> event outcome" where
  "event_of E t key ms =
     bind_out (verdict_of E t ms) (\<lambda>v.
       let es = evidence_members ms;
           x = ve_canonical v;
           shash = source_hash E ms;
           core = core_eligible E es v
       in Inr \<lparr>ev_id = key,
            ev_version = ee_hash E (JList [JStr key, JStr shash, JStr (vn_hash (er_news (mr_row x))),
              JStr (nn_id (er_note (mr_row x))), impact_id x, JStr (grade_name (ve_grade v)), JBool (broad_eligible v),
              JBool core, clock_text E v, JStr EVIDENCE_POLICY_VERSION]),
            ev_members = ms, ev_verdict = v, ev_broad = broad_eligible v, ev_core = core,
            ev_publishers = independent_publishers E es, ev_first_party = (primary_members es \<noteq> []),
            ev_reliability = source_reliability_of es, ev_duplicates = length es - independent_publishers E es,
            ev_first_seen = Min (set (map (vn_first_seen \<circ> er_news \<circ> mr_row) ms)),
            ev_reasons = reason_codes ms v, ev_source_hash = shash\<rparr>)"

definition grouped :: "member list \<Rightarrow> (string \<times> member list) list" where
  "grouped ms = map (\<lambda>k. (k, filter (\<lambda>x. mr_event x = k) ms)) (dedupe (map mr_event ms))"

fun events_of :: "event_env \<Rightarrow> instant \<Rightarrow> (string \<times> member list) list \<Rightarrow> event list outcome" where
  "events_of E t [] = Inr []"
| "events_of E t ((k, ms) # gs) = bind_out (event_of E t k ms) (\<lambda>e. bind_out (events_of E t gs) (\<lambda>es. Inr (e # es)))"

definition event_evidence_rows :: "event_env \<Rightarrow> instant \<Rightarrow> maintenance_db \<Rightarrow> event list outcome" where
  "event_evidence_rows E t m =
     (let rows = latest_rows E t m in
      case ld_epoch (mb_ledger m) of
        None \<Rightarrow> Inl (ValueError ''FORWARD_EPOCH is missing'')
      | Some epoch \<Rightarrow>
          bind_out (members_of E t epoch rows) (\<lambda>ms.
          bind_out (events_of E t (grouped ms)) (\<lambda>es.
            Inr (sort_key (\<lambda>e. (ev_first_seen e, ev_id e)) es))))"

section \<open>No look-ahead\<close>

text \<open>A database with evidence added that the decision could not know.\<close>

definition later_evidence :: "instant \<Rightarrow> maintenance_db \<Rightarrow> maintenance_db \<Rightarrow> bool" where
  "later_evidence t m m' \<longleftrightarrow>
     ld_epoch (mb_ledger m') = ld_epoch (mb_ledger m) \<and>
     (\<exists>ns. ld_revisions (mb_ledger m') = ld_revisions (mb_ledger m) @ ns \<and> (\<forall>n \<in> set ns. t < vn_first_seen n)) \<and>
     (\<exists>as. ld_annotations (mb_ledger m') = ld_annotations (mb_ledger m) @ as \<and> (\<forall>a \<in> set as. t < nn_parsed a)) \<and>
     (\<exists>is. mb_assessments m' = mb_assessments m @ is \<and> (\<forall>i \<in> set is. t < ia_assessed i)) \<and>
     (\<exists>xs. mb_resolutions m' = mb_resolutions m @ xs \<and> (\<forall>x \<in> set xs. t < ix_resolved x))"

lemma sql_first_append_none: "\<forall>r \<in> set later. \<not> p r \<Longrightarrow> sql_first key p (rows @ later) = sql_first key p rows"
  by (simp add: sql_first_def filter_False)

lemma find_append_none: "\<forall>r \<in> set later. \<not> p r \<Longrightarrow> find p (rows @ later) = find p rows"
  by (induction rows) (auto simp: find_None_iff)

text \<open>Evidence of after a time that the decision's wall clock has not passed.\<close>

lemma event_row_of_later:
  assumes "later_evidence u m m'" "wall_clock E t \<le> u"
  shows "event_row_of E t m' n a = event_row_of E t m n a"
proof -
  obtain js where j: "mb_assessments m' = mb_assessments m @ js" "\<forall>i \<in> set js. u < ia_assessed i"
    using assms by (auto simp: later_evidence_def)
  obtain ys where y: "mb_resolutions m' = mb_resolutions m @ ys" "\<forall>x \<in> set ys. u < ix_resolved x"
    using assms by (auto simp: later_evidence_def)
  note c = assms(2)
  have "\<forall>i \<in> set js. \<not> usable_assessment (wall_clock E t) a i" using j(2) c by (auto simp: usable_assessment_def)
  then have i: "selected_assessment (wall_clock E t) (mb_assessments m') a =
      selected_assessment (wall_clock E t) (mb_assessments m) a"
    unfolding selected_assessment_def j(1) by (rule sql_first_append_none)
  have found: "find (\<lambda>x. ix_assessment x = k \<and> ix_resolved x \<le> wall_clock E t) (mb_resolutions m') =
      find (\<lambda>x. ix_assessment x = k \<and> ix_resolved x \<le> wall_clock E t) (mb_resolutions m)" for k
    unfolding y(1) using y(2) c by (intro find_append_none) auto
  show ?thesis unfolding event_row_of_def Let_def i found ..
qed

lemma joined_rows_later:
  assumes "later_evidence u m m'" "wall_clock E t \<le> u"
  shows "joined_rows E t m' = joined_rows E t m"
proof -
  let ?revs = "ld_revisions (mb_ledger m)" and ?notes = "ld_annotations (mb_ledger m)"
  obtain ns where n: "ld_revisions (mb_ledger m') = ?revs @ ns" "\<forall>n \<in> set ns. u < vn_first_seen n"
    using assms by (auto simp: later_evidence_def)
  obtain as where a: "ld_annotations (mb_ledger m') = ?notes @ as" "\<forall>a \<in> set as. u < nn_parsed a"
    using assms by (auto simp: later_evidence_def)
  let ?c = "wall_clock E t"
  note c = assms(2)
  have same: "understood ?c (?revs @ ns) r = understood ?c ?revs r" for r
    using n(2) c by (intro ext) (auto simp: understood_def list_ex_iff)
  have annotated: "filter (understood ?c (?revs @ ns) r) (?notes @ as) = filter (understood ?c ?revs r) ?notes" for r
    unfolding same filter_append using a(2) c by (auto simp: filter_empty_conv understood_def)
  have new: "filter (understood ?c ?revs r) ?notes = []" if "r \<in> set ns" for r
    using that n(2) c by (auto simp: filter_empty_conv understood_def)
  then have "concat (map (\<lambda>r. map (event_row_of E t m r) (filter (understood ?c ?revs r) ?notes)) ns) = []" by simp
  then show ?thesis
    unfolding joined_rows_def n(1) a(1) annotated event_row_of_later [OF assms] by simp
qed

lemma event_rows_later:
  assumes "later_evidence u m m'" "wall_clock E t \<le> u"
  shows "event_evidence_rows E t m' = event_evidence_rows E t m"
proof -
  have "latest_rows E t m' = latest_rows E t m" unfolding latest_rows_def joined_rows_later [OF assms] ..
  moreover have "ld_epoch (mb_ledger m') = ld_epoch (mb_ledger m)" using assms by (simp add: later_evidence_def)
  ultimately show ?thesis unfolding event_evidence_rows_def by simp
qed

text \<open>
  The events of a decision contain nothing from after its wall clock, which is the decision when that is in UTC. Whatever
  is received, annotated, assessed or resolved later, the events that it sees, their grades, their admission and their versions stay the same.
\<close>

theorem evidence_has_no_lookahead:
  assumes "later_evidence u m m'" "wall_clock E t \<le> u"
  shows "event_evidence_rows E t m' = event_evidence_rows E t m"
  using assms by (rule event_rows_later)

section \<open>Groups\<close>

lemma events_of_Inr:
  "events_of E t gs = Inr es \<Longrightarrow> list_all2 (\<lambda>g e. event_of E t (fst g) (snd g) = Inr e) gs es"
proof (induction gs arbitrary: es)
  case (Cons g gs)
  obtain k ms where g: "g = (k, ms)" by (cases g)
  obtain e es' where e: "event_of E t k ms = Inr e" "events_of E t gs = Inr es'" "es = e # es'"
    using Cons.prems unfolding g by (auto simp: bind_out_Inr_iff)
  then show ?case using Cons.IH g by simp
qed simp

lemma members_of_Inr:
  "members_of E t epoch rs = Inr ms \<Longrightarrow> x \<in> set ms \<Longrightarrow> \<exists>r. member_of E t epoch r = Inr (Some x)"
proof (induction rs arbitrary: ms)
  case (Cons r rs)
  obtain found ms' where f: "member_of E t epoch r = Inr found" "members_of E t epoch rs = Inr ms'"
    "ms = (case found of None \<Rightarrow> ms' | Some x \<Rightarrow> x # ms')"
    using Cons.prems(1) by (auto simp: bind_out_Inr_iff)
  then show ?case using Cons.IH [OF f(2)] Cons.prems(2) by (cases found) auto
qed simp

text \<open>An event is made of a group of the decision's members, and the groups share no member.\<close>

lemma event_evidenceE:
  assumes "event_evidence_rows E t m = Inr es"
  obtains epoch ms where "members_of E t epoch (latest_rows E t m) = Inr ms"
    "\<And>e. e \<in> set es \<longleftrightarrow> (\<exists>k \<in> mr_event ` set ms. event_of E t k (filter (\<lambda>x. mr_event x = k) ms) = Inr e)"
    "length es = card (mr_event ` set ms)"
proof -
  from assms obtain epoch ms es0 where s: "members_of E t epoch (latest_rows E t m) = Inr ms"
    "events_of E t (grouped ms) = Inr es0" "es = sort_key (\<lambda>e. (ev_first_seen e, ev_id e)) es0"
    by (auto simp: event_evidence_rows_def Let_def bind_out_Inr_iff split: option.splits)
  note all = events_of_Inr [OF s(2)]
  have "e \<in> set es0 \<longleftrightarrow> (\<exists>g \<in> set (grouped ms). event_of E t (fst g) (snd g) = Inr e)" for e
  proof
    assume "e \<in> set es0"
    then obtain i where "i < length es0" "es0 ! i = e" by (auto simp: in_set_conv_nth)
    then show "\<exists>g \<in> set (grouped ms). event_of E t (fst g) (snd g) = Inr e"
      using list_all2_nthD2 [OF all] list_all2_lengthD [OF all] by (metis nth_mem)
  next
    assume "\<exists>g \<in> set (grouped ms). event_of E t (fst g) (snd g) = Inr e"
    then obtain g i where "event_of E t (fst g) (snd g) = Inr e" "i < length (grouped ms)" "grouped ms ! i = g"
      by (auto simp: in_set_conv_nth)
    then show "e \<in> set es0"
      using list_all2_nthD [OF all] list_all2_lengthD [OF all] by (metis nth_mem sum.inject(2))
  qed
  moreover have "length es = card (mr_event ` set ms)"
  proof -
    have "length es = length (dedupe (map mr_event ms))"
      using list_all2_lengthD [OF all] s(3) by (simp add: grouped_def)
    also have "\<dots> = card (set (dedupe (map mr_event ms)))" using distinct_card [OF distinct_dedupe, of "map mr_event ms"] by simp
    finally show ?thesis by (simp add: set_dedupe)
  qed
  ultimately show ?thesis using that s(1,3) by (auto simp: grouped_def set_dedupe image_iff)
qed

lemma group_nonempty: "k \<in> mr_event ` set ms \<Longrightarrow> filter (\<lambda>x. mr_event x = k) ms \<noteq> []"
  by (auto simp: filter_empty_conv)

section \<open>Admission and its reasons\<close>

text \<open>The codes of an admitted event; every other code refuses.\<close>

definition ADMITTING_CODES :: "string list" where
  "ADMITTING_CODES =
     [''EVIDENCE_PRIMARY'', ''EVIDENCE_CORROBORATED'', ''EVIDENCE_SINGLE_RELIABLE'', ''EVIDENCE_SINGLE_SOURCE'',
      ''RELIABLE_PUBLISHER_TIME_PROXY'', ''SINGLE_SOURCE_ATTRIBUTE'']"

lemma timing_reason:
  assumes "member_of E t epoch r = Inr (Some x)"
  shows "na_reason (mr_timing x) \<in> {''PUBLISHED_TIME_MISSING'', ''PRE_FORWARD_PUBLICATION'', ''PUBLISHED_AFTER_DECISION'',
    ''LATE_DISCOVERY'', ''STALE_EVENT'', ''CURRENT_EVENT'', ''IMPACT_NOT_ASSESSED'', ''IMPACT_DUPLICATE_REPORT'',
    ''IMPACT_HISTORICAL_CONTEXT'', ''IMPACT_COMMENTARY'', ''IMPACT_BACKGROUND''}"
proof -
  obtain timing where timing: "row_timing E t epoch r = Inr timing" "mr_timing x = timing"
    using assms by (auto simp: member_of_def bind_out_Inr_iff split: if_splits)
  obtain stored where s: "stored_time_assessment E t epoch r = Inr stored"
    "timing = (if impact_is_actionable (er_impact r) then stored
      else stored\<lparr>na_eligible := False, na_reason := impact_reason (er_impact r)\<rparr>)"
    using timing(1) by (auto simp: row_timing_def bind_out_Inr_iff)
  have "na_reason stored \<in> {''PUBLISHED_TIME_MISSING'', ''PRE_FORWARD_PUBLICATION'', ''PUBLISHED_AFTER_DECISION'',
      ''LATE_DISCOVERY'', ''STALE_EVENT'', ''CURRENT_EVENT''}"
    using s(1) by (auto simp: stored_time_assessment_def bind_out_Inr_iff judge_news_time_def assessment_def Let_def
        split: option.splits if_splits)
  moreover have "impact_reason a \<in> {''IMPACT_NOT_ASSESSED'', ''IMPACT_DUPLICATE_REPORT'', ''IMPACT_HISTORICAL_CONTEXT'',
      ''IMPACT_COMMENTARY'', ''IMPACT_BACKGROUND''}" for a
    by (auto simp: impact_reason_def split: option.splits)
  ultimately show ?thesis using timing(2) s(2) by (auto split: if_splits)
qed

lemma verdict_of_Inr:
  assumes "verdict_of E t ms = Inr v"
  shows "ve_identity v \<in> {''UNRESOLVED'', ''RESOLVED'', ''MISSING''}" "ve_timely v \<longleftrightarrow> timely_members ms \<noteq> []"
    "ve_grade v = grade_of (evidence_members ms)"
    "ve_semantic v \<longleftrightarrow> ve_relevant v \<and> ve_record_kind v \<in> set ACTIONABLE_RECORD_KINDS \<and>
       ve_role v \<in> set ACTIONABLE_EVIDENCE_ROLES \<and> MIN_ACTIONABLE_MATERIALITY \<le> ve_materiality v \<and>
       ve_relevance v \<in> {''DIRECT'', ''MACRO_DRIVER''} \<and> ve_change v \<in> {''NEW_EVENT'', ''MATERIAL_UPDATE''}"
proof -
  let ?x = "canonical_member E (evidence_members ms)"
  obtain m where m: "materiality_of E (er_fields (mr_row ?x)) = Inr m"
    and v: "ve_identity v = identity_resolution_status (mr_row ?x)" "ve_timely v \<longleftrightarrow> timely_members ms \<noteq> []"
      "ve_grade v = grade_of (evidence_members ms)"
    and w: "ve_relevant v \<longleftrightarrow> field_text E (er_fields (mr_row ?x)) ''primary_category'' \<in> set ACTIONABLE_CATEGORIES"
      "ve_record_kind v = effective_record_kind (ee_platform E) (er_fields (mr_row ?x))"
      "ve_role v = field_text E (er_fields (mr_row ?x)) ''evidence_role''" "ve_materiality v = m"
      "ve_relevance v = field_text E (er_fields (mr_row ?x)) ''xauusd_relevance''"
      "ve_change v = field_text E (er_fields (mr_row ?x)) ''material_change''"
      "ve_semantic v = annotation_is_actionable_candidate E (er_fields (mr_row ?x)) m"
    using assms unfolding verdict_of_def Let_def case_prod_beta bind_out_Inr_iff by force
  show "ve_identity v \<in> {''UNRESOLVED'', ''RESOLVED'', ''MISSING''}"
    unfolding v(1) identity_resolution_status_def by (simp split: option.splits)
  show "ve_timely v \<longleftrightarrow> timely_members ms \<noteq> []" "ve_grade v = grade_of (evidence_members ms)" by (fact v)+
  show "ve_semantic v \<longleftrightarrow> ve_relevant v \<and> ve_record_kind v \<in> set ACTIONABLE_RECORD_KINDS \<and>
       ve_role v \<in> set ACTIONABLE_EVIDENCE_ROLES \<and> MIN_ACTIONABLE_MATERIALITY \<le> ve_materiality v \<and>
       ve_relevance v \<in> {''DIRECT'', ''MACRO_DRIVER''} \<and> ve_change v \<in> {''NEW_EVENT'', ''MATERIAL_UPDATE''}"
    unfolding w annotation_is_actionable_candidate_def by auto
qed

lemma grade_code:
  "''EVIDENCE_'' @ grade_name g \<in> set ADMITTING_CODES \<longleftrightarrow> g \<noteq> DISCOVERY_ONLY"
  by (cases g) (simp_all add: ADMITTING_CODES_def)

lemma if_codes: "set (if b then xs else ys) \<subseteq> A \<longleftrightarrow> (if b then set xs \<subseteq> A else set ys \<subseteq> A)"
  by simp

lemma refusing_codes:
  "''IDENTITY_UNRESOLVED'' \<notin> set ADMITTING_CODES" "''IDENTITY_NOT_RESOLVED'' \<notin> set ADMITTING_CODES"
  "''CATEGORY_NOT_ACTIONABLE'' \<notin> set ADMITTING_CODES" "''NO_ACTION_TOPIC'' \<notin> set ADMITTING_CODES"
  "''PUBLISHER_IDENTITY_MISSING'' \<notin> set ADMITTING_CODES" "''RECORD_KIND_NOT_ACTIONABLE'' \<notin> set ADMITTING_CODES"
  "''EVIDENCE_ROLE_NOT_ACTIONABLE'' \<notin> set ADMITTING_CODES" "''LOW_MATERIALITY'' \<notin> set ADMITTING_CODES"
  "''XAUUSD_SEMANTICALLY_INELIGIBLE'' \<notin> set ADMITTING_CODES" "''NO_MATERIAL_CHANGE'' \<notin> set ADMITTING_CODES"
  "''EVENT_TIME_INVALID'' \<notin> set ADMITTING_CODES" "''EVENT_LIFETIME_EXPIRED'' \<notin> set ADMITTING_CODES"
  "''RELIABLE_PUBLISHER_TIME_PROXY'' \<in> set ADMITTING_CODES" "''SINGLE_SOURCE_ATTRIBUTE'' \<in> set ADMITTING_CODES"
  by (simp_all add: ADMITTING_CODES_def)

lemma codes_admit_iff:
  assumes "ve_timely v" "ve_identity v \<in> {''UNRESOLVED'', ''RESOLVED'', ''MISSING''}"
  shows "set (reason_codes ms v) \<subseteq> set ADMITTING_CODES \<longleftrightarrow>
    ve_identity v = ''RESOLVED'' \<and> ve_grade v \<noteq> DISCOVERY_ONLY \<and> has_action_topic v \<and> ve_relevant v \<and>
    ve_record_kind v \<in> set ACTIONABLE_RECORD_KINDS \<and> ve_role v \<in> set ACTIONABLE_EVIDENCE_ROLES \<and>
    MIN_ACTIONABLE_MATERIALITY \<le> ve_materiality v \<and> ve_relevance v \<in> {''DIRECT'', ''MACRO_DRIVER''} \<and>
    ve_change v \<in> {''NEW_EVENT'', ''MATERIAL_UPDATE''} \<and> ve_clock_valid v \<and> ve_lifetime_valid v"
proof -
  have identity: "(if ve_identity v = ''UNRESOLVED'' then False else if ve_identity v = ''MISSING'' then False else True) \<longleftrightarrow>
      ve_identity v = ''RESOLVED''"
    using assms(2) by auto
  show ?thesis
    unfolding reason_codes_def set_append Un_subset_iff if_codes
    using assms(1) identity
    by (simp only: list.set insert_subset grade_code refusing_codes empty_subsetI not_less if_True if_False
        simp_thms if_bool_eq_conj not_le) blast
qed

text \<open>
  C33: The reasons of an event decide about it. An event is admitted to the broad model exactly when each of its
  reason codes is one of the six that describe an admitted event: nothing is refused without a reason that says
  why, and no reason to refuse is recorded of what is admitted.
\<close>

theorem reasons_decide_admission:
  assumes "event_evidence_rows E t m = Inr es" "e \<in> set es"
  shows "ev_broad e \<longleftrightarrow> set (ev_reasons e) \<subseteq> set ADMITTING_CODES"
proof -
  obtain epoch all where all: "members_of E t epoch (latest_rows E t m) = Inr all"
    "\<exists>k \<in> mr_event ` set all. event_of E t k (filter (\<lambda>x. mr_event x = k) all) = Inr e"
    using event_evidenceE [OF assms(1)] assms(2) by metis
  then obtain k where k: "k \<in> mr_event ` set all" "event_of E t k (filter (\<lambda>x. mr_event x = k) all) = Inr e" by blast
  define ms where "ms = filter (\<lambda>x. mr_event x = k) all"
  obtain v where v: "verdict_of E t ms = Inr v" "ev_broad e = broad_eligible v" "ev_reasons e = reason_codes ms v"
    using k(2) unfolding ms_def [symmetric] by (auto simp: event_of_def bind_out_Inr_iff Let_def)
  note facts = verdict_of_Inr [OF v(1)]
  have "na_reason (mr_timing x) \<notin> set ADMITTING_CODES" if "x \<in> set ms" for x
  proof -
    have "x \<in> set all" using that by (simp add: ms_def)
    from members_of_Inr [OF all(1) this] obtain r where "member_of E t epoch r = Inr (Some x)" by blast
    from timing_reason [OF this] show ?thesis by (auto simp: ADMITTING_CODES_def)
  qed
  moreover have "ms \<noteq> []" using k(1) unfolding ms_def by (rule group_nonempty)
  ultimately have late: "\<not> set (sort (dedupe (map (na_reason \<circ> mr_timing) ms))) \<subseteq> set ADMITTING_CODES"
    by (cases ms) (auto simp: set_dedupe)
  show ?thesis
  proof (cases "ve_timely v")
    case False
    then have "\<not> set (reason_codes ms v) \<subseteq> set ADMITTING_CODES" using late by (auto simp: reason_codes_def)
    then show ?thesis using v False by (simp add: broad_eligible_def)
  next
    case True
    then show ?thesis unfolding v(2,3) broad_eligible_def codes_admit_iff [OF True facts(1)] facts(4) by blast
  qed
qed

text \<open>
  C36: What the core model learns from is independent. A core event is admitted, and among its timely articles
  either one comes from a first-party source, or two come from different organizations, each published on a
  reliable domain.
\<close>

theorem core_events_are_independent:
  assumes "event_evidence_rows E t m = Inr es" "e \<in> set es" "ev_core e"
  shows "ev_broad e \<and>
    ((\<exists>x \<in> set (timely_members (ev_members e)). vn_source (er_news (mr_row x)) \<in> set FIRST_PARTY_SOURCES) \<or>
     (\<exists>x \<in> set (timely_members (ev_members e)). \<exists>y \<in> set (timely_members (ev_members e)). \<exists>a b.
        mr_organization x = Some a \<and> mr_organization y = Some b \<and> a \<noteq> b \<and> mr_reliable x \<noteq> None \<and> mr_reliable y \<noteq> None))"
proof -
  obtain k ms where k: "event_of E t k ms = Inr e" using event_evidenceE [OF assms(1)] assms(2) by metis
  then obtain v where v: "verdict_of E t ms = Inr v" "ev_broad e = broad_eligible v" "ev_members e = ms"
    "ev_core e = core_eligible E (evidence_members ms) v"
    by (auto simp: event_of_def bind_out_Inr_iff Let_def)
  note facts = verdict_of_Inr [OF v(1)]
  have core: "broad_eligible v" "ve_grade v = PRIMARY \<or> 2 \<le> length (reliable_organizations (evidence_members ms))"
    using assms(3) v(4) by (auto simp: core_eligible_def)
  then have timely: "evidence_members ms = timely_members ms"
    using facts(2) by (simp add: broad_eligible_def evidence_members_def)
  have org: "\<exists>x \<in> set (timely_members ms). mr_organization x = Some a \<and> mr_reliable x \<noteq> None"
    if "a \<in> set (reliable_organizations (timely_members ms))" for a
    using that by (auto simp: reliable_organizations_def set_dedupe somes_def split: option.splits)
  consider "ve_grade v = PRIMARY" | "2 \<le> length (reliable_organizations (timely_members ms))" using core(2) timely by auto
  then have "(\<exists>x \<in> set (timely_members ms). vn_source (er_news (mr_row x)) \<in> set FIRST_PARTY_SOURCES) \<or>
     (\<exists>x \<in> set (timely_members ms). \<exists>y \<in> set (timely_members ms). \<exists>a b.
        mr_organization x = Some a \<and> mr_organization y = Some b \<and> a \<noteq> b \<and> mr_reliable x \<noteq> None \<and> mr_reliable y \<noteq> None)"
  proof cases
    case 1
    then have "primary_members (timely_members ms) \<noteq> []" using facts(3) timely by (auto simp: grade_of_def split: if_splits)
    then show ?thesis by (auto simp: primary_members_def filter_empty_conv)
  next
    case 2
    then obtain a b rest where "reliable_organizations (timely_members ms) = a # b # rest"
      by (cases "reliable_organizations (timely_members ms)"; cases "tl (reliable_organizations (timely_members ms))") auto
    moreover have "distinct (reliable_organizations (timely_members ms))" by (simp add: reliable_organizations_def distinct_dedupe)
    ultimately have "a \<noteq> b" "a \<in> set (reliable_organizations (timely_members ms))" "b \<in> set (reliable_organizations (timely_members ms))"
      by auto
    then show ?thesis using org [of a] org [of b] by blast
  qed
  then show ?thesis using core(1) v(2,3) by simp
qed


section \<open>A sample decision\<close>

text \<open>Two reliable publishers report one resolved event, and an hour later a third article arrives.\<close>

definition sample_now :: instant where "sample_now = days 8 + hours 12"

definition sample_events :: event_env where
  "sample_events = \<lparr>ee_platform = sample_platform, ee_library = sample_library, ee_zone = sample_zone,
     ee_json = (\<lambda>_. [(''primary_category'', JStr ''rates_fed''), (''record_kind'', JStr ''FACT_EVENT''),
       (''evidence_role'', JStr ''CORE_CLAIM''), (''materiality'', JInt 1), (''xauusd_relevance'', JStr ''DIRECT''),
       (''material_change'', JStr ''NEW_EVENT'')]),
     ee_confidence = (\<lambda>_. 1), ee_entities = (\<lambda>_. []),
     ee_host = (\<lambda>link. case link of None \<Rightarrow> [] | Some s \<Rightarrow> s), ee_float = (\<lambda>_. Inr 1),
     ee_hash = (\<lambda>_. ''hash''), ee_repr_hash = (\<lambda>_. ''event''), ee_isoformat = (\<lambda>s. s), ee_offset = 0\<rparr>"

definition sample_report :: "string \<Rightarrow> instant \<Rightarrow> revision" where
  "sample_report host seen = \<lparr>vn_source = ''gdelt'', vn_item = host, vn_number = 1, vn_published = Some (days 8 + hours 10),
     vn_first_seen = seen, vn_item_first_seen = seen, vn_fetched = seen, vn_headline = ''Fed holds'',
     vn_body = Some (replicate 240 (CHR ''x'')), vn_link = Some host, vn_hash = host, vn_cluster = ''c'', vn_latency = None\<rparr>"

definition sample_note :: "string \<Rightarrow> annotation_row" where
  "sample_note host = \<lparr>nn_id = host, nn_key = (''gdelt'', host, 1), nn_hash = host, nn_model = DEFAULT_GEMINI_MODEL,
     nn_prompt = CURRENT_NEWS_PROMPT_VERSION, nn_started = days 8 + hours 11, nn_parsed = days 8 + hours 11,
     nn_reason = SoundReason, nn_relevance = None\<rparr>"

definition sample_assessment :: "string \<Rightarrow> impact_assessment" where
  "sample_assessment host = \<lparr>ia_id = host, ia_key = (''gdelt'', host, 1), ia_hash = host, ia_annotation = host,
     ia_model = IMPACT_MODEL, ia_prompt = IMPACT_PROMPT_VERSION, ia_started = days 8 + hours 11, ia_assessed = days 8 + hours 11,
     ia_class = ''SAME_DAY'', ia_event_state = ''ACTIVE'', ia_update_type = ''NEW_EVENT'', ia_confidence = 1, ia_reason = []\<rparr>"

definition sample_resolution :: "string \<Rightarrow> identity_resolution" where
  "sample_resolution host = \<lparr>ix_id = host, ix_annotation = host, ix_assessment = host, ix_model = IMPACT_MODEL,
     ix_prompt = IMPACT_PROMPT_VERSION, ix_resolved = days 8 + hours 11, ix_relation = ''SAME_EVENT'', ix_matched = None,
     ix_comparison = JNull, ix_episode = ''episode'', ix_event = ''event''\<rparr>"

definition sample_hosts :: "string list" where "sample_hosts = [''reuters.com'', ''apnews.com'']"

definition sample_evidence :: maintenance_db where
  "sample_evidence = \<lparr>mb_ledger = empty_ledger\<lparr>ld_epoch := Some 0,
       ld_revisions := map (\<lambda>h. sample_report h (days 8 + hours 11)) sample_hosts,
       ld_annotations := map sample_note sample_hosts\<rparr>,
     mb_assessments = map sample_assessment sample_hosts, mb_resolutions = map sample_resolution sample_hosts,
     mb_derived = sample_derived, mb_cache = None\<rparr>"

definition sample_after :: maintenance_db where
  "sample_after = sample_evidence\<lparr>mb_ledger := (mb_ledger sample_evidence)\<lparr>ld_revisions :=
     ld_revisions (mb_ledger sample_evidence) @ [sample_report ''kitco.com'' (sample_now + hours 1)]\<rparr>\<rparr>"

lemma sample_event_is_core:
  "\<exists>e. event_evidence_rows sample_events sample_now sample_evidence = Inr [e] \<and> ev_core e"
proof -
  have "case event_evidence_rows sample_events sample_now sample_evidence of Inr [e] \<Rightarrow> ev_core e | _ \<Rightarrow> False"
    by code_simp
  then show ?thesis by (auto split: sum.splits list.splits)
qed

theorem evidence_has_no_lookahead_witness:
  "ld_revisions (mb_ledger sample_after) \<noteq> ld_revisions (mb_ledger sample_evidence) \<and>
   event_evidence_rows sample_events sample_now sample_after = event_evidence_rows sample_events sample_now sample_evidence"
proof -
  have "later_evidence sample_now sample_evidence sample_after"
    by (auto simp: later_evidence_def sample_after_def sample_report_def)
  from evidence_has_no_lookahead [OF this, of sample_events] show ?thesis
    by (simp add: sample_after_def sample_events_def wall_clock_def)
qed

theorem reasons_decide_admission_witness:
  "\<exists>e. event_evidence_rows sample_events sample_now sample_evidence = Inr [e] \<and>
     (ev_broad e \<longleftrightarrow> set (ev_reasons e) \<subseteq> set ADMITTING_CODES)"
proof -
  from sample_event_is_core obtain e where e: "event_evidence_rows sample_events sample_now sample_evidence = Inr [e]" by blast
  from reasons_decide_admission [OF e] e show ?thesis by simp
qed

theorem core_events_are_independent_witness:
  "\<exists>e. event_evidence_rows sample_events sample_now sample_evidence = Inr [e] \<and> ev_core e \<and> ev_broad e"
proof -
  from sample_event_is_core obtain e
    where e: "event_evidence_rows sample_events sample_now sample_evidence = Inr [e]" "ev_core e" by blast
  from core_events_are_independent [OF e(1) _ e(2)] e show ?thesis by simp
qed

end
