(* ===== verification/Assistant_Routing.thy ===== *)
theory Assistant_Routing
  imports Provider_Registry
begin

text \<open>
  Model routing of the Assistant, \<^verbatim>\<open>xauusd_news/assistant/routing.py\<close>: the profiles an operator
  configures, the local classification of a turn, and the plan that lists the models a turn may use.

  The user's text is a list of Unicode code points; case folding with NFKC, white space and
  punctuation come from Python's character database and are a parameter, as is the JSON parser.
\<close>

section \<open>Vocabulary\<close>

definition ASSISTANT_ROUTING_POLICY_VERSION :: string where
  "ASSISTANT_ROUTING_POLICY_VERSION = ''assistant-routing-v2''"
definition GOOGLE_GENERATIVE_LANGUAGE :: string where
  "GOOGLE_GENERATIVE_LANGUAGE = ''GOOGLE_GENERATIVE_LANGUAGE''"
definition OLLAMA_LOCAL :: string where "OLLAMA_LOCAL = ''OLLAMA_LOCAL''"
definition INSTALLED_ASSISTANT_PROVIDERS :: "string list" where
  "INSTALLED_ASSISTANT_PROVIDERS = [GOOGLE_GENERATIVE_LANGUAGE, OLLAMA_LOCAL]"
definition ASSISTANT_REQUEST_ENVELOPE_RESERVE :: int where "ASSISTANT_REQUEST_ENVELOPE_RESERVE = 4096"
definition MAX_ASSISTANT_MODEL_CANDIDATES :: nat where "MAX_ASSISTANT_MODEL_CANDIDATES = 8"

datatype assistant_task = ASSISTANT_CHAT | NEWS_QA | CONVERSATION_TITLE | CONTEXT_COMPACTION
datatype reasoning_class = SIMPLE | ANALYTICAL | TOOL_HEAVY
datatype tool_policy = DIRECT | AUTO
datatype thinking_level = MINIMAL | HIGH
datatype model_requirement = SMALL_PREFERRED | LARGE_REQUIRED
datatype capacity_class = SMALL | LARGE

record model_profile =
  mp_id :: string
  mp_model :: string
  mp_provider :: string
  mp_context_limit :: int
  mp_thinking :: bool
  mp_function_calling :: bool
  mp_streaming :: bool
  mp_class :: capacity_class
  mp_enabled :: bool

record route_plan =
  pl_version :: string
  pl_task :: assistant_task
  pl_reasoning :: reasoning_class
  pl_thinking :: thinking_level
  pl_requirement :: model_requirement
  pl_input_tokens :: int
  pl_output_tokens :: int
  pl_tool_calls :: int
  pl_candidates :: "model_profile list"

definition required_context_tokens :: "route_plan \<Rightarrow> int" where
  "required_context_tokens p = pl_input_tokens p + pl_output_tokens p"

definition DEFAULT_ASSISTANT_MODEL_PROFILES :: "model_profile list" where
  "DEFAULT_ASSISTANT_MODEL_PROFILES =
     [\<lparr>mp_id = ''assistant-gemma-large-v1'', mp_model = DEFAULT_GEMMA_MODEL,
       mp_provider = GOOGLE_GENERATIVE_LANGUAGE, mp_context_limit = 32768, mp_thinking = True,
       mp_function_calling = True, mp_streaming = False, mp_class = LARGE, mp_enabled = True\<rparr>]"

text \<open>The three controlled identifiers: a first character, then a bounded rest.\<close>

definition is_upper :: "char \<Rightarrow> bool" where "is_upper c \<longleftrightarrow> (let n = (of_char c :: int) in 65 \<le> n \<and> n \<le> 90)"
definition is_lower :: "char \<Rightarrow> bool" where "is_lower c \<longleftrightarrow> (let n = (of_char c :: int) in 97 \<le> n \<and> n \<le> 122)"
definition is_digit :: "char \<Rightarrow> bool" where "is_digit c \<longleftrightarrow> (let n = (of_char c :: int) in 48 \<le> n \<and> n \<le> 57)"
definition is_alnum :: "char \<Rightarrow> bool" where "is_alnum c \<longleftrightarrow> is_upper c \<or> is_lower c \<or> is_digit c"

definition full_match :: "(char \<Rightarrow> bool) \<Rightarrow> (char \<Rightarrow> bool) \<Rightarrow> nat \<Rightarrow> nat \<Rightarrow> string \<Rightarrow> bool" where
  "full_match start rest low high s =
     (case s of [] \<Rightarrow> False
      | c # cs \<Rightarrow> start c \<and> list_all rest cs \<and> low \<le> length cs \<and> length cs \<le> high)"

definition profile_id_ok :: "string \<Rightarrow> bool" where
  "profile_id_ok = full_match is_alnum (\<lambda>c. is_alnum c \<or> c \<in> set ''._:-'') 0 95"

definition model_id_ok :: "string \<Rightarrow> bool" where
  "model_id_ok = full_match is_alnum (\<lambda>c. is_alnum c \<or> c \<in> set ''._:/-'') 0 159"

definition provider_ok :: "string \<Rightarrow> bool" where
  "provider_ok = full_match is_upper (\<lambda>c. is_upper c \<or> is_digit c \<or> c = CHR ''_'') 2 63"

section \<open>Classification of a turn\<close>

type_synonym unicode = "int list"

definition codes :: "string \<Rightarrow> unicode" where "codes = map of_char"

record unicode_tables =
  ut_folded :: "unicode \<Rightarrow> unicode"
  ut_space :: "int \<Rightarrow> bool"
  ut_punctuation :: "int \<Rightarrow> bool"

definition ANALYTICAL_MARKERS :: "unicode list" where
  "ANALYTICAL_MARKERS =
     [[20026, 20160, 20040], [20026, 20309], [21407, 22240], [22240, 26524], [24433, 21709], [27604, 36739],
      [23545, 27604], [20914, 31361], [30683, 30462], [21453, 24120], [22810, 20010, 26102, 26399],
      [22810, 26399], codes ''why'', codes ''cause'', codes ''causal'', codes ''compare'', codes ''versus'',
      codes ''conflict'', codes ''contradict'']"

definition CONVERSATION_REFERENCE_MARKERS :: "unicode list" where
  "CONVERSATION_REFERENCE_MARKERS =
     [[19978, 19968, 21477], [19978, 21477, 35805], [21018, 25165, 35828], [21018, 21018, 35828],
      [21018, 25165, 22238, 31572], [21018, 21018, 22238, 31572], [21018, 25165, 35753, 20320],
      [21018, 21018, 35753, 20320], [20043, 21069, 35753, 20320], [21069, 38754, 35753, 20320],
      [25105, 21018, 25165, 35828, 30340], [25105, 21018, 21018, 35828, 30340],
      [25105, 20043, 21069, 35828, 30340], [25105, 21069, 38754, 35828, 30340], [35831, 35760, 20303],
      [35753, 20320, 35760, 20303, 30340], [20320, 35760, 20303, 30340], [20320, 36824, 35760, 24471],
      [37325, 22797, 20320], [37325, 35828], codes ''previous message'', codes ''previous answer'',
      codes ''repeat that'', codes ''what did i just'', codes ''what did i ask'', codes ''what did i tell'',
      codes ''do you remember'', codes ''remember what i'']"

definition SIMPLE_MARKERS :: "unicode list" where
  "SIMPLE_MARKERS =
     [[22810, 23569], [20960, 26465], [21015, 20986], [26377, 21738, 20123], [26368, 26032], [20309, 26102],
      [20160, 20040, 26102, 20505], [20320, 26159, 35841], [33021, 20570, 20160, 20040],
      [21487, 20197, 20570, 20160, 20040], codes ''count'', codes ''list'', codes ''show'', codes ''latest'',
      codes ''when'', codes ''how many'', codes ''who are you'', codes ''what can you do'', codes ''repeat''] @
     CONVERSATION_REFERENCE_MARKERS"

definition DIRECT_CHAT_EXACT :: "unicode list" where
  "DIRECT_CHAT_EXACT =
     [[20320, 22909], [24744, 22909], [21992], [35874, 35874], [22810, 35874], [20320, 26159, 35841],
      [20320, 33021, 20570, 20160, 20040], [20320, 21487, 20197, 20570, 20160, 20040],
      [20320, 20250, 20570, 20160, 20040], [20171, 32461, 19968, 19979, 20320, 33258, 24049], codes ''hello'',
      codes ''hi'', codes ''thanks'', codes ''thank you'', codes ''who are you'', codes ''what can you do'']"

definition DIRECT_CHAT_MARKERS :: "unicode list" where
  "DIRECT_CHAT_MARKERS =
     CONVERSATION_REFERENCE_MARKERS @
     [[20320, 26159, 35841], [20320, 33021, 20570, 20160, 20040], [20320, 21487, 20197, 20570, 20160, 20040],
      [20320, 20250, 20570, 20160, 20040], [20171, 32461, 19968, 19979, 20320, 33258, 24049],
      codes ''who are you'', codes ''what can you do'',
      [20026, 20160, 20040, 20320, 35201, 20570, 26032, 38395, 26816, 32034],
      [20026, 20160, 20040, 35201, 20570, 26032, 38395, 26816, 32034],
      [20026, 20160, 20040, 20320, 35201, 25628, 32034], [20026, 20160, 20040, 35201, 25628, 32034],
      [20320, 97, 116, 116, 97, 99, 104, 30340], [20320, 32, 97, 116, 116, 97, 99, 104, 32, 30340],
      [20320, 38468, 21152, 30340], [20320, 38468, 19978, 30340]]"

definition has_marker :: "unicode list \<Rightarrow> unicode \<Rightarrow> bool" where
  "has_marker markers t \<longleftrightarrow> list_ex (\<lambda>m. contains m t) markers"

definition compact_dialogue_text :: "unicode_tables \<Rightarrow> unicode \<Rightarrow> unicode" where
  "compact_dialogue_text U t = filter (\<lambda>c. \<not> ut_space U c \<and> \<not> ut_punctuation U c) t"

definition classify_assistant_tool_policy :: "unicode_tables \<Rightarrow> unicode \<Rightarrow> tool_policy" where
  "classify_assistant_tool_policy U t =
     (let folded = ut_folded U t;
          normalized = rev (dropWhile (ut_space U) (rev (dropWhile (ut_space U) folded)))
      in if compact_dialogue_text U normalized \<in> set (map (compact_dialogue_text U) DIRECT_CHAT_EXACT) then DIRECT
         else if length normalized \<le> 160 \<and> has_marker DIRECT_CHAT_MARKERS normalized then DIRECT
         else AUTO)"

fun task_value :: "assistant_task \<Rightarrow> string" where
  "task_value ASSISTANT_CHAT = ''ASSISTANT_CHAT''"
| "task_value NEWS_QA = ''NEWS_QA''"
| "task_value CONVERSATION_TITLE = ''CONVERSATION_TITLE''"
| "task_value CONTEXT_COMPACTION = ''CONTEXT_COMPACTION''"

definition assistant_task_of :: "string \<Rightarrow> assistant_task outcome" where
  "assistant_task_of s =
     (case find (\<lambda>t. task_value t = s) [ASSISTANT_CHAT, NEWS_QA, CONVERSATION_TITLE, CONTEXT_COMPACTION] of
        Some t \<Rightarrow> Inr t
      | None \<Rightarrow> Inl (ValueError (''unsupported Assistant task type: '' @ s)))"

definition routing_integer :: "int \<Rightarrow> int \<Rightarrow> int \<Rightarrow> int outcome" where
  "routing_integer n low high =
     bind_out (require (low \<le> n \<and> n \<le> high) ''Assistant routing integer is invalid'') (\<lambda>_. Inr n)"

definition classify_assistant_reasoning :: "unicode_tables \<Rightarrow> string \<Rightarrow> unicode \<Rightarrow> int \<Rightarrow> reasoning_class outcome" where
  "classify_assistant_reasoning U task_type user_text planned_tool_calls =
     bind_out (assistant_task_of task_type) (\<lambda>task.
     bind_out (routing_integer planned_tool_calls 0 64) (\<lambda>tool_calls.
       Inr (if 1 < tool_calls then TOOL_HEAVY
            else if task = CONVERSATION_TITLE \<or> task = CONTEXT_COMPACTION then SIMPLE
            else (let normalized = ut_folded U user_text
                  in if has_marker ANALYTICAL_MARKERS normalized then ANALYTICAL
                     else if has_marker SIMPLE_MARKERS normalized then SIMPLE
                     else ANALYTICAL))))"

section \<open>Profiles\<close>

definition json_bool :: "json \<Rightarrow> bool outcome" where
  "json_bool v = (case v of JBool b \<Rightarrow> Inr b | _ \<Rightarrow> Inl (ValueError ''Assistant model profile field must be boolean''))"

definition json_integer :: "json \<Rightarrow> int \<Rightarrow> int \<Rightarrow> int outcome" where
  "json_integer v low high =
     (case v of JInt n \<Rightarrow> routing_integer n low high
      | _ \<Rightarrow> Inl (ValueError ''Assistant routing integer is invalid''))"

definition capacity_class_of :: "string \<Rightarrow> capacity_class outcome" where
  "capacity_class_of s =
     (if s = ''SMALL'' then Inr SMALL else if s = ''LARGE'' then Inr LARGE
      else Inl (ValueError ''Assistant model capacity_class is invalid''))"

definition default_true :: "(string \<times> json) list \<Rightarrow> string \<Rightarrow> json" where
  "default_true d key = (case map_of d key of None \<Rightarrow> JBool True | Some v \<Rightarrow> v)"

definition PROFILE_FIELDS :: "string list" where
  "PROFILE_FIELDS = [''profile_id'', ''model_id'', ''provider'', ''context_limit'', ''supports_thinking'',
     ''supports_function_calling'', ''supports_streaming'', ''capacity_class'', ''enabled'']"

definition parse_profile :: "platform \<Rightarrow> json \<Rightarrow> model_profile outcome" where
  "parse_profile P v =
     (case v of
        JObj d \<Rightarrow>
          (let profile_id = strip (str_or_empty P (jget d ''profile_id''));
               model_id = strip (str_or_empty P (jget d ''model_id''));
               provider = upper (strip (str_or_empty P (jget d ''provider'')))
           in bind_out (require (list_all (\<lambda>kv. fst kv \<in> set PROFILE_FIELDS) d)
                          ''Assistant model profile contains unsupported fields'') (\<lambda>_.
              bind_out (require (profile_id_ok profile_id) ''Assistant model profile_id is invalid'') (\<lambda>_.
              bind_out (require (model_id_ok model_id) ''Assistant model model_id is invalid'') (\<lambda>_.
              bind_out (require (provider_ok provider) ''Assistant model provider is invalid'') (\<lambda>_.
              bind_out (require (provider \<in> set INSTALLED_ASSISTANT_PROVIDERS)
                          ''Assistant model provider has no installed gateway'') (\<lambda>_.
              bind_out (json_integer (jget d ''context_limit'') 1024 1000000) (\<lambda>context_limit.
              bind_out (capacity_class_of (upper (strip (str_or_empty P (jget d ''capacity_class''))))) (\<lambda>cls.
              bind_out (json_bool (jget d ''supports_thinking'')) (\<lambda>thinking.
              bind_out (json_bool (jget d ''supports_function_calling'')) (\<lambda>calling.
              bind_out (json_bool (jget d ''supports_streaming'')) (\<lambda>streaming.
              bind_out (json_bool (default_true d ''enabled'')) (\<lambda>enabled.
                Inr \<lparr>mp_id = profile_id, mp_model = model_id, mp_provider = provider,
                     mp_context_limit = context_limit, mp_thinking = thinking, mp_function_calling = calling,
                     mp_streaming = streaming, mp_class = cls, mp_enabled = enabled\<rparr>))))))))))))
      | _ \<Rightarrow> Inl (ValueError ''each Assistant model profile must be an object''))"

definition check_profile :: "model_profile \<Rightarrow> unit outcome" where
  "check_profile p =
     bind_out (require (profile_id_ok (mp_id p)) ''Assistant model profile_id is invalid'') (\<lambda>_.
     bind_out (require (model_id_ok (mp_model p)) ''Assistant model model_id is invalid'') (\<lambda>_.
     bind_out (require (mp_provider p \<in> set INSTALLED_ASSISTANT_PROVIDERS)
                 ''Assistant model provider has no installed gateway'') (\<lambda>_.
     bind_out (routing_integer (mp_context_limit p) 1024 1000000) (\<lambda>_. Inr ()))))"

definition validated_profiles :: "model_profile list \<Rightarrow> model_profile list outcome" where
  "validated_profiles profiles =
     bind_out (require (profiles \<noteq> [] \<and> length profiles \<le> 32) ''Assistant model profile count is invalid'') (\<lambda>_.
     bind_out (fold_out (\<lambda>p _. check_profile p) profiles ()) (\<lambda>_.
     bind_out (require (distinct (map mp_id profiles)) ''Assistant model profiles contain duplicate profile_id'') (\<lambda>_.
     bind_out (require (distinct (map mp_model (filter mp_enabled profiles)))
                 ''enabled Assistant profiles contain duplicate model_id'') (\<lambda>_. Inr profiles))))"

fun parse_profiles :: "platform \<Rightarrow> json list \<Rightarrow> model_profile list outcome" where
  "parse_profiles P [] = Inr []"
| "parse_profiles P (v # vs) =
     bind_out (parse_profile P v) (\<lambda>p. bind_out (parse_profiles P vs) (\<lambda>ps. Inr (p # ps)))"

definition configured_assistant_model_profiles ::
    "platform \<Rightarrow> (string \<Rightarrow> json option) \<Rightarrow> string \<Rightarrow> model_profile list outcome" where
  "configured_assistant_model_profiles P parse_json raw =
     (if strip raw = [] then Inr DEFAULT_ASSISTANT_MODEL_PROFILES
      else case parse_json raw of
        None \<Rightarrow> Inl (ValueError ''ASSISTANT_MODEL_PROFILES is not valid JSON'')
      | Some (JList (v # vs)) \<Rightarrow>
          bind_out (parse_profiles P (v # vs)) (\<lambda>ps.
          bind_out (validated_profiles ps) (\<lambda>profiles.
          bind_out (require (list_ex mp_enabled profiles) ''Assistant model profiles enable no models'')
            (\<lambda>_. Inr profiles)))
      | Some _ \<Rightarrow> Inl (ValueError ''ASSISTANT_MODEL_PROFILES must be a non-empty list''))"

section \<open>The plan\<close>

definition thinking_for :: "reasoning_class \<Rightarrow> thinking_level" where
  "thinking_for r = (if r = SIMPLE then MINIMAL else HIGH)"

definition requirement_for :: "reasoning_class \<Rightarrow> model_requirement" where
  "requirement_for r = (if r = SIMPLE then SMALL_PREFERRED else LARGE_REQUIRED)"

definition available_profiles :: "int \<Rightarrow> int \<Rightarrow> thinking_level \<Rightarrow> model_profile list \<Rightarrow> model_profile list" where
  "available_profiles required tool_calls thinking profiles =
     (let fitting = filter (\<lambda>p. mp_enabled p \<and> required \<le> mp_context_limit p) profiles;
          calling = (if 0 < tool_calls then filter mp_function_calling fitting else fitting)
      in if thinking = HIGH then filter mp_thinking calling else calling)"

definition ordered_candidates :: "model_requirement \<Rightarrow> model_profile list \<Rightarrow> model_profile list" where
  "ordered_candidates requirement available =
     take MAX_ASSISTANT_MODEL_CANDIDATES
       (if requirement = LARGE_REQUIRED then filter (\<lambda>p. mp_class p = LARGE) available
        else filter (\<lambda>p. mp_class p = SMALL) available @ filter (\<lambda>p. mp_class p = LARGE) available)"

text \<open>\<open>profiles=None\<close> reads the configured profiles, which arrive here as an outcome.\<close>

definition plan_assistant_route ::
    "unicode_tables \<Rightarrow> string \<Rightarrow> int \<Rightarrow> int \<Rightarrow> unicode \<Rightarrow> int \<Rightarrow> model_profile list outcome \<Rightarrow> route_plan outcome" where
  "plan_assistant_route U task_type input output user_text planned profiles =
     bind_out (assistant_task_of task_type) (\<lambda>task.
     bind_out (routing_integer input 1 1000000) (\<lambda>input_tokens.
     bind_out (routing_integer output 1 1000000) (\<lambda>output_tokens.
     bind_out (routing_integer planned 0 64) (\<lambda>tool_calls.
     bind_out (classify_assistant_reasoning U task_type user_text tool_calls) (\<lambda>reasoning.
     bind_out profiles (\<lambda>configured.
     bind_out (validated_profiles configured) (\<lambda>valid.
       (let candidates = ordered_candidates (requirement_for reasoning)
              (available_profiles (input_tokens + output_tokens) tool_calls (thinking_for reasoning) valid)
        in if candidates = [] then Inl (OtherError ''AssistantModelRoutingUnavailable'')
           else Inr \<lparr>pl_version = ASSISTANT_ROUTING_POLICY_VERSION, pl_task = task, pl_reasoning = reasoning,
                  pl_thinking = thinking_for reasoning, pl_requirement = requirement_for reasoning,
                  pl_input_tokens = input_tokens, pl_output_tokens = output_tokens,
                  pl_tool_calls = tool_calls, pl_candidates = candidates\<rparr>))))))))"

definition provider_thinking_level :: "route_plan \<Rightarrow> model_profile \<Rightarrow> string option outcome" where
  "provider_thinking_level plan p =
     (if p \<notin> set (pl_candidates plan)
      then Inl (ValueError ''selected model profile is outside the route plan'')
      else Inr (if \<not> mp_thinking p then None
                else Some (case pl_thinking plan of MINIMAL \<Rightarrow> ''minimal'' | HIGH \<Rightarrow> ''high'')))"

record route_provenance =
  rp_plan :: route_plan
  rp_thinking_level :: "string option"
  rp_required_tokens :: int
  rp_candidate_ids :: "string list"
  rp_selected :: model_profile

definition routing_provenance :: "route_plan \<Rightarrow> model_profile \<Rightarrow> route_provenance outcome" where
  "routing_provenance plan p =
     bind_out (provider_thinking_level plan p) (\<lambda>level.
       Inr \<lparr>rp_plan = plan, rp_thinking_level = level, rp_required_tokens = required_context_tokens plan,
            rp_candidate_ids = map mp_id (pl_candidates plan), rp_selected = p\<rparr>)"

fun dict_set :: "string \<Rightarrow> json \<Rightarrow> (string \<times> json) list \<Rightarrow> (string \<times> json) list" where
  "dict_set k v [] = [(k, v)]"
| "dict_set k v ((k', v') # kvs) = (if k' = k then (k, v) # kvs else (k', v') # dict_set k v kvs)"

definition lower :: "string \<Rightarrow> string" where
  "lower s = map (\<lambda>c. if is_upper c then char_of ((of_char c :: int) + 32) else c) s"

definition apply_provider_thinking_level ::
    "(string \<times> json) list \<Rightarrow> string option \<Rightarrow> (string \<times> json) list outcome" where
  "apply_provider_thinking_level payload level =
     (case level of
        None \<Rightarrow> Inr payload
      | Some text \<Rightarrow>
          (let normalized = lower (strip text)
           in if normalized \<noteq> ''minimal'' \<and> normalized \<noteq> ''high''
              then Inl (ValueError ''Assistant provider thinking level is invalid'')
              else case jget payload ''generationConfig'' of
                JObj generation \<Rightarrow>
                  Inr (dict_set ''generationConfig''
                        (JObj (dict_set ''thinkingConfig'' (JObj [(''thinkingLevel'', JStr normalized)]) generation))
                        payload)
              | _ \<Rightarrow> Inl (ValueError ''Assistant model payload lacks generationConfig'')))"

section \<open>Properties\<close>

lemma validatedE:
  assumes "validated_profiles ps = Inr valid"
  shows "valid = ps" "distinct (map mp_id ps)" "distinct (map mp_model (filter mp_enabled ps))" "length ps \<le> 32"
  using assms by (auto simp: validated_profiles_def bind_out_Inr_iff)

lemma available_eq:
  "available_profiles required calls thinking ps =
     filter (\<lambda>p. required \<le> mp_context_limit p \<and> (0 < calls \<longrightarrow> mp_function_calling p) \<and>
       (thinking = HIGH \<longrightarrow> mp_thinking p)) (filter mp_enabled ps)"
  unfolding available_profiles_def Let_def by (auto intro: filter_cong)

lemma set_available:
  "p \<in> set (available_profiles required calls thinking ps) \<longleftrightarrow>
     p \<in> set ps \<and> mp_enabled p \<and> required \<le> mp_context_limit p \<and>
     (0 < calls \<longrightarrow> mp_function_calling p) \<and> (thinking = HIGH \<longrightarrow> mp_thinking p)"
  by (auto simp: available_eq)

lemma available_models_distinct:
  "distinct (map mp_model (filter mp_enabled ps)) \<Longrightarrow>
     distinct (map mp_model (available_profiles required calls thinking ps))"
  unfolding available_eq by (rule distinct_map_filter)

lemma planE:
  assumes "plan_assistant_route U task input out text calls (Inr ps) = Inr plan"
  obtains "validated_profiles ps = Inr ps"
    "classify_assistant_reasoning U task text (pl_tool_calls plan) = Inr (pl_reasoning plan)"
    "pl_input_tokens plan = input" "pl_output_tokens plan = out" "pl_tool_calls plan = calls"
    "pl_thinking plan = thinking_for (pl_reasoning plan)" "pl_requirement plan = requirement_for (pl_reasoning plan)"
    "pl_candidates plan = ordered_candidates (pl_requirement plan)
       (available_profiles (input + out) calls (pl_thinking plan) ps)" "pl_candidates plan \<noteq> []"
proof -
  from assms obtain valid where v: "validated_profiles ps = Inr valid"
    by (auto simp: plan_assistant_route_def bind_out_Inr_iff)
  then have "validated_profiles ps = Inr ps" using validatedE(1) by simp
  with assms show ?thesis
    by (intro that) (auto simp: plan_assistant_route_def routing_integer_def bind_out_Inr_iff Let_def split: if_splits)
qed

text \<open>Small models before large ones: every sorted prefix stays sorted, and no model repeats.\<close>

definition class_rank :: "model_profile \<Rightarrow> nat" where
  "class_rank p = (if mp_class p = SMALL then 0 else 1)"

lemma ordered_sorted: "sorted (map class_rank (ordered_candidates requirement ps))"
proof -
  have "sorted (map class_rank (filter (\<lambda>p. mp_class p = c) ps))" for c
    by (induction ps) (auto simp: class_rank_def)
  then have "sorted (map class_rank (filter (\<lambda>p. mp_class p = SMALL) ps @ filter (\<lambda>p. mp_class p = LARGE) ps))"
    by (auto simp: sorted_append class_rank_def)
  then show ?thesis
    using \<open>\<And>c. sorted (map class_rank (filter (\<lambda>p. mp_class p = c) ps))\<close>
    by (simp add: ordered_candidates_def take_map [symmetric] sorted_wrt_take del: map_append)
qed

lemma ordered_distinct:
  assumes "distinct (map mp_model ps)"
  shows "distinct (map mp_model (ordered_candidates requirement ps))"
proof -
  have d: "distinct (map mp_model (filter q ps))" for q by (rule distinct_map_filter [OF assms])
  have "set (map mp_model (filter (\<lambda>p. mp_class p = SMALL) ps)) \<inter>
      set (map mp_model (filter (\<lambda>p. mp_class p = LARGE) ps)) = {}"
    using assms by (fastforce simp: distinct_map inj_on_def)
  with d have "distinct (map mp_model (filter (\<lambda>p. mp_class p = SMALL) ps @ filter (\<lambda>p. mp_class p = LARGE) ps))"
    unfolding map_append distinct_append by blast
  with d show ?thesis
    by (simp add: ordered_candidates_def take_map [symmetric] distinct_take del: map_append)
qed

lemma set_ordered:
  "p \<in> set (ordered_candidates requirement ps) \<Longrightarrow> p \<in> set ps \<and> (requirement = LARGE_REQUIRED \<longrightarrow> mp_class p = LARGE)"
  by (auto simp: ordered_candidates_def split: if_splits dest: in_set_takeD)

text \<open>
  A plan lists only models that can serve the turn: between one and eight configured profiles,
  no model twice, each enabled, with room for the tokens of the turn, able to call tools when tools
  are planned and to think when the reasoning is not simple, and large whenever it is not simple;
  for a simple turn the small models come first.
\<close>

theorem plan_fits_the_turn:
  assumes "plan_assistant_route U task input out text calls (Inr ps) = Inr plan"
  shows "pl_candidates plan \<noteq> [] \<and> length (pl_candidates plan) \<le> 8 \<and> distinct (map mp_model (pl_candidates plan)) \<and>
     list_all (\<lambda>p. p \<in> set ps \<and> mp_enabled p \<and> required_context_tokens plan \<le> mp_context_limit p \<and>
        (mp_function_calling p \<or> calls \<le> 0) \<and>
        (pl_reasoning plan = SIMPLE \<or> mp_thinking p \<and> mp_class p = LARGE)) (pl_candidates plan) \<and>
     sorted (map class_rank (pl_candidates plan))"
  using assms
proof (cases rule: planE)
  case 1
  let ?av = "available_profiles (input + out) calls (pl_thinking plan) ps"
  have "length (pl_candidates plan) \<le> 8"
    by (simp add: 1(8) ordered_candidates_def MAX_ASSISTANT_MODEL_CANDIDATES_def)
  moreover have "distinct (map mp_model (pl_candidates plan))"
    unfolding 1(8) by (intro ordered_distinct available_models_distinct validatedE(3) [OF 1(1)])
  moreover have "sorted (map class_rank (pl_candidates plan))"
    unfolding 1(8) by (rule ordered_sorted)
  moreover have "p \<in> set ps \<and> mp_enabled p \<and> required_context_tokens plan \<le> mp_context_limit p \<and>
      (mp_function_calling p \<or> calls \<le> 0) \<and> (pl_reasoning plan = SIMPLE \<or> mp_thinking p \<and> mp_class p = LARGE)"
    if "p \<in> set (pl_candidates plan)" for p
  proof -
    from that have "p \<in> set ?av \<and> (pl_requirement plan = LARGE_REQUIRED \<longrightarrow> mp_class p = LARGE)"
      unfolding 1(8) by (rule set_ordered)
    then show ?thesis
      unfolding set_available required_context_tokens_def 1(3,4,6,7) thinking_for_def requirement_for_def
      by (auto split: if_splits)
  qed
  ultimately show ?thesis using 1(9) by (simp add: list_all_iff)
qed

subsection \<open>Witness\<close>

definition sample_tables :: unicode_tables where
  "sample_tables = \<lparr>ut_folded = (\<lambda>t. t), ut_space = (\<lambda>c. c = 32), ut_punctuation = (\<lambda>c. c = 63)\<rparr>"

definition sample_plan :: route_plan where
  "sample_plan = projr (plan_assistant_route sample_tables ''NEWS_QA'' 1000 500 (codes ''why did gold fall?'') 1
     (Inr DEFAULT_ASSISTANT_MODEL_PROFILES))"

lemma sample_plan_runs:
  "\<not> isl (plan_assistant_route sample_tables ''NEWS_QA'' 1000 500 (codes ''why did gold fall?'') 1
     (Inr DEFAULT_ASSISTANT_MODEL_PROFILES))"
  by code_simp

lemma sample_plan_eq:
  "plan_assistant_route sample_tables ''NEWS_QA'' 1000 500 (codes ''why did gold fall?'') 1
     (Inr DEFAULT_ASSISTANT_MODEL_PROFILES) = Inr sample_plan"
  using sample_plan_runs by (simp add: sample_plan_def)

lemma sample_plan_candidates: "map mp_id (pl_candidates sample_plan) = [''assistant-gemma-large-v1'']"
  by code_simp

theorem plan_fits_the_turn_witness:
  "pl_candidates sample_plan \<noteq> [] \<and> distinct (map mp_model (pl_candidates sample_plan)) \<and>
   sorted (map class_rank (pl_candidates sample_plan))"
  using plan_fits_the_turn [OF sample_plan_eq] by simp

end
