(* ===== verification/Assistant_Events.thy ===== *)
theory Assistant_Events
  imports Assistant_Routing Sample_Data "HOL-Library.AList"
begin

text \<open>
  The presentation events of the assistant (\<open>assistant/events.py\<close>): the payload contract of each
  event type, the envelope parser and its receipt, the ordered stream that an
  \<open>AssistantEventSequence\<close> accepts, the builder, and the SSE frame of an event. A contract error is
  a \<open>ValueError\<close> that carries the error code of the source.
\<close>

section \<open>Vocabulary\<close>

datatype event_type =
    CONVERSATION_STARTED | REASONING_STARTED | TOOL_STARTED | TOOL_COMPLETED | TOOL_FAILED
  | RETRIEVAL_STARTED | RETRIEVAL_COMPLETED | ANSWER_STARTED | ANSWER_DELTA | CONTENT_BLOCK
  | ANSWER_COMPLETED | CONVERSATION_COMPLETED | ERROR_EVENT | CANCELLED_EVENT

fun event_type_name :: "event_type \<Rightarrow> string" where
  "event_type_name CONVERSATION_STARTED = ''conversation.started''"
| "event_type_name REASONING_STARTED = ''reasoning.started''"
| "event_type_name TOOL_STARTED = ''tool.started''"
| "event_type_name TOOL_COMPLETED = ''tool.completed''"
| "event_type_name TOOL_FAILED = ''tool.failed''"
| "event_type_name RETRIEVAL_STARTED = ''retrieval.started''"
| "event_type_name RETRIEVAL_COMPLETED = ''retrieval.completed''"
| "event_type_name ANSWER_STARTED = ''answer.started''"
| "event_type_name ANSWER_DELTA = ''answer.delta''"
| "event_type_name CONTENT_BLOCK = ''content.block''"
| "event_type_name ANSWER_COMPLETED = ''answer.completed''"
| "event_type_name CONVERSATION_COMPLETED = ''conversation.completed''"
| "event_type_name ERROR_EVENT = ''error''"
| "event_type_name CANCELLED_EVENT = ''cancelled''"

definition EVENT_TYPES :: "event_type list" where
  "EVENT_TYPES =
     [CONVERSATION_STARTED, REASONING_STARTED, TOOL_STARTED, TOOL_COMPLETED, TOOL_FAILED, RETRIEVAL_STARTED,
      RETRIEVAL_COMPLETED, ANSWER_STARTED, ANSWER_DELTA, CONTENT_BLOCK, ANSWER_COMPLETED,
      CONVERSATION_COMPLETED, ERROR_EVENT, CANCELLED_EVENT]"

definition event_type_of :: "string \<Rightarrow> event_type option" where
  "event_type_of s = of_name event_type_name EVENT_TYPES s"

definition ASSISTANT_EVENT_PROTOCOL_VERSION :: string where
  "ASSISTANT_EVENT_PROTOCOL_VERSION = ''assistant.event.v1''"

definition MAX_ASSISTANT_EVENTS_PER_TURN :: nat where "MAX_ASSISTANT_EVENTS_PER_TURN = 256"
definition MAX_ASSISTANT_EVENT_PAYLOAD_BYTES :: nat where "MAX_ASSISTANT_EVENT_PAYLOAD_BYTES = 16384"
definition MAX_ASSISTANT_ANSWER_DELTA_BYTES :: nat where "MAX_ASSISTANT_ANSWER_DELTA_BYTES = 4096"
definition MAX_ASSISTANT_PRESENTATION_BYTES :: nat where "MAX_ASSISTANT_PRESENTATION_BYTES = 65536"

text \<open>The regular expressions of the contract.\<close>

definition event_identifier_ok :: "string \<Rightarrow> bool" where
  "event_identifier_ok = full_match is_alnum (\<lambda>c. is_alnum c \<or> c \<in> set '':._@/-'') 0 127"

definition version_ok :: "string \<Rightarrow> bool" where
  "version_ok = full_match (\<lambda>c. is_upper c \<or> is_lower c) (\<lambda>c. is_alnum c \<or> c \<in> set ''._-'') 0 63"

definition error_code_ok :: "string \<Rightarrow> bool" where
  "error_code_ok = full_match is_upper (\<lambda>c. is_upper c \<or> is_digit c \<or> c = CHR ''_'') 2 63"

definition sha256_ok :: "string \<Rightarrow> bool" where
  "sha256_ok s \<longleftrightarrow> length s = 64 \<and> list_all (\<lambda>c. is_digit c \<or> c \<in> set ''abcdef'') s"

text \<open>A version number without a leading zero: \<open>[1-9][0-9]*\<close>.\<close>

definition positive_number :: "string \<Rightarrow> bool" where
  "positive_number s \<longleftrightarrow> s \<noteq> [] \<and> list_all is_digit s \<and> hd s \<noteq> CHR ''0''"

definition tool_version_ok :: "string \<Rightarrow> bool" where
  "tool_version_ok s \<longleftrightarrow> (case s of [] \<Rightarrow> False | c # cs \<Rightarrow> c = CHR ''v'' \<and> positive_number cs)"

text \<open>
  \<open>[a-z][a-z0-9_]{1,54}_v[1-9][0-9]*\<close>: the number is the longest run of digits at the end, since a
  digit cannot match the \<open>v\<close> in front of it.
\<close>

definition tool_name_ok :: "string \<Rightarrow> bool" where
  "tool_name_ok s =
     (let number = rev (takeWhile is_digit (rev s)); front = rev (dropWhile is_digit (rev s))
      in positive_number number \<and> drop (length front - 2) front = ''_v'' \<and>
         full_match is_lower (\<lambda>c. is_lower c \<or> is_digit c \<or> c = CHR ''_'') 1 54 (take (length front - 2) front))"

section \<open>Payloads\<close>

text \<open>A value that \<open>json.dumps(..., allow_nan=False)\<close> encodes.\<close>

fun strict_json :: "json \<Rightarrow> bool" and strict_items :: "json list \<Rightarrow> bool"
  and strict_fields :: "(string \<times> json) list \<Rightarrow> bool" where
  "strict_json (JFloat f) = is_finite f"
| "strict_json (JList vs) = strict_items vs"
| "strict_json (JObj kvs) = strict_fields kvs"
| "strict_json _ = True"
| "strict_items [] = True"
| "strict_items (v # vs) = (strict_json v \<and> strict_items vs)"
| "strict_fields [] = True"
| "strict_fields ((k, v) # kvs) = (strict_json v \<and> strict_fields kvs)"

abbreviation INVALID_EVENT_PAYLOAD :: py_error where
  "INVALID_EVENT_PAYLOAD \<equiv> ValueError ''INVALID_EVENT_PAYLOAD''"

definition strict_object :: "platform \<Rightarrow> json \<Rightarrow> string list \<Rightarrow> (string \<times> json) list outcome" where
  "strict_object P v expected =
     (case v of
        JObj kvs \<Rightarrow>
          if set (map fst kvs) \<noteq> set expected \<or> \<not> strict_fields kvs then Inl INVALID_EVENT_PAYLOAD
          else if MAX_ASSISTANT_EVENT_PAYLOAD_BYTES < utf8_length (json_dumps P v)
          then Inl (ValueError ''EVENT_PAYLOAD_BUDGET_EXCEEDED'')
          else Inr kvs
      | _ \<Rightarrow> Inl INVALID_EVENT_PAYLOAD)"

text \<open>A field that must be a text of a given form.\<close>

definition text_field :: "(string \<Rightarrow> bool) \<Rightarrow> (string \<times> json) list \<Rightarrow> string \<Rightarrow> bool" where
  "text_field ok kvs name = (case jget kvs name of JStr s \<Rightarrow> ok s | _ \<Rightarrow> False)"

definition strict_identifier :: "(string \<times> json) list \<Rightarrow> string \<Rightarrow> string \<Rightarrow> string outcome" where
  "strict_identifier kvs name code =
     (case jget kvs name of
        JStr s \<Rightarrow> if event_identifier_ok s then Inr s else Inl (ValueError code)
      | _ \<Rightarrow> Inl (ValueError code))"

text \<open>The answer text, the only caller: it keeps its blanks.\<close>

definition strict_bounded_text :: "(string \<times> json) list \<Rightarrow> string \<Rightarrow> nat \<Rightarrow> bool" where
  "strict_bounded_text kvs name maximum = text_field (\<lambda>s. s \<noteq> [] \<and> utf8_length s \<le> maximum) kvs name"

definition strict_count :: "(string \<times> json) list \<Rightarrow> string \<Rightarrow> int \<Rightarrow> bool" where
  "strict_count kvs name maximum = (case jget kvs name of JInt i \<Rightarrow> 0 \<le> i \<and> i \<le> maximum | _ \<Rightarrow> False)"

text \<open>\<open>value in frozenset(...)\<close>: a list or an object is not hashable, which raises \<open>TypeError\<close>.\<close>

definition in_words :: "json \<Rightarrow> string list \<Rightarrow> bool outcome" where
  "in_words v words =
     (case v of
        JStr s \<Rightarrow> Inr (s \<in> set words)
      | JList _ \<Rightarrow> Inl (OtherError ''TypeError'')
      | JObj _ \<Rightarrow> Inl (OtherError ''TypeError'')
      | _ \<Rightarrow> Inr False)"

definition require_payload :: "bool \<Rightarrow> (string \<times> json) list \<Rightarrow> (string \<times> json) list outcome" where
  "require_payload b kvs = (if b then Inr kvs else Inl INVALID_EVENT_PAYLOAD)"

definition validate_tool_identity :: "(string \<times> json) list \<Rightarrow> bool" where
  "validate_tool_identity kvs \<longleftrightarrow>
     text_field event_identifier_ok kvs ''call_id'' \<and> text_field tool_name_ok kvs ''tool_name''"

definition evidence_ids_ok :: "json \<Rightarrow> bool" where
  "evidence_ids_ok v =
     (case v of
        JList items \<Rightarrow>
          length items \<le> 20 \<and> list_all (\<lambda>x. case x of JStr s \<Rightarrow> event_identifier_ok s | _ \<Rightarrow> False) items \<and>
          distinct items
      | _ \<Rightarrow> False)"

fun validated_payload :: "platform \<Rightarrow> event_type \<Rightarrow> json \<Rightarrow> (string \<times> json) list outcome" where
  "validated_payload P REASONING_STARTED v =
     bind_out (strict_object P v [''reasoning_class'']) (\<lambda>p.
       bind_out (in_words (jget p ''reasoning_class'') [''SIMPLE'', ''ANALYTICAL'', ''TOOL_HEAVY'']) (\<lambda>ok.
         require_payload ok p))"
| "validated_payload P TOOL_STARTED v =
     bind_out (strict_object P v [''call_id'', ''tool_name'', ''tool_version'']) (\<lambda>p.
       require_payload (validate_tool_identity p \<and> text_field tool_version_ok p ''tool_version'') p)"
| "validated_payload P TOOL_COMPLETED v =
     bind_out (strict_object P v [''call_id'', ''tool_name'', ''status'', ''result_sha256'', ''evidence_count'']) (\<lambda>p.
       require_payload (validate_tool_identity p \<and> jget p ''status'' = JStr ''SUCCEEDED'' \<and>
         text_field sha256_ok p ''result_sha256'' \<and> strict_count p ''evidence_count'' 100) p)"
| "validated_payload P TOOL_FAILED v =
     bind_out (strict_object P v [''call_id'', ''tool_name'', ''status'', ''error_code'']) (\<lambda>p.
       bind_out (require_payload (validate_tool_identity p) p) (\<lambda>_.
       bind_out (in_words (jget p ''status'') [''FAILED'', ''REJECTED'', ''TIMED_OUT'']) (\<lambda>ok.
         require_payload (ok \<and> text_field error_code_ok p ''error_code'') p)))"
| "validated_payload P RETRIEVAL_STARTED v =
     bind_out (strict_object P v [''operation_id'', ''tool_name'']) (\<lambda>p.
       require_payload (text_field event_identifier_ok p ''operation_id'' \<and> text_field tool_name_ok p ''tool_name'') p)"
| "validated_payload P RETRIEVAL_COMPLETED v =
     bind_out (strict_object P v [''operation_id'', ''evidence_count'', ''source_mode'', ''result_sha256'']) (\<lambda>p.
       require_payload (text_field event_identifier_ok p ''operation_id'' \<and> strict_count p ''evidence_count'' 100 \<and>
         text_field version_ok p ''source_mode'' \<and> text_field sha256_ok p ''result_sha256'') p)"
| "validated_payload P ANSWER_DELTA v =
     bind_out (strict_object P v [''text'']) (\<lambda>p.
       require_payload (strict_bounded_text p ''text'' MAX_ASSISTANT_ANSWER_DELTA_BYTES) p)"
| "validated_payload P CONTENT_BLOCK v =
     bind_out (strict_object P v [''block_id'', ''block_type'', ''block_version'', ''content_sha256'']) (\<lambda>p.
       require_payload (text_field event_identifier_ok p ''block_id'' \<and> text_field version_ok p ''block_type'' \<and>
         text_field version_ok p ''block_version'' \<and> text_field sha256_ok p ''content_sha256'') p)"
| "validated_payload P ANSWER_COMPLETED v =
     bind_out (strict_object P v [''content_sha256'', ''evidence_ids'']) (\<lambda>p.
       require_payload (text_field sha256_ok p ''content_sha256'' \<and> evidence_ids_ok (jget p ''evidence_ids'')) p)"
| "validated_payload P ERROR_EVENT v =
     bind_out (strict_object P v [''code'', ''retryable'', ''recovery_key'']) (\<lambda>p.
       require_payload (text_field error_code_ok p ''code'' \<and>
         (case jget p ''retryable'' of JBool _ \<Rightarrow> True | _ \<Rightarrow> False) \<and>
         (jget p ''recovery_key'' = JNull \<or> text_field event_identifier_ok p ''recovery_key'')) p)"
| "validated_payload P CANCELLED_EVENT v =
     bind_out (strict_object P v [''code'']) (\<lambda>p. require_payload (text_field error_code_ok p ''code'') p)"
| "validated_payload P _ v = strict_object P v []"

section \<open>Envelopes\<close>

record event_envelope =
  ev_id :: string
  ev_conversation :: string
  ev_turn :: string
  ev_message :: "string option"
  ev_sequence :: int
  ev_type :: event_type
  ev_time :: string
  ev_payload :: "(string \<times> json) list"

definition optional_json :: "string option \<Rightarrow> json" where
  "optional_json m = (case m of None \<Rightarrow> JNull | Some s \<Rightarrow> JStr s)"

definition receipt_fields :: "event_envelope \<Rightarrow> (string \<times> json) list" where
  "receipt_fields e =
     [(''protocol'', JStr ASSISTANT_EVENT_PROTOCOL_VERSION), (''event_id'', JStr (ev_id e)),
      (''conversation_id'', JStr (ev_conversation e)), (''user_turn_id'', JStr (ev_turn e)),
      (''message_id'', optional_json (ev_message e)), (''sequence'', JInt (ev_sequence e)),
      (''type'', JStr (event_type_name (ev_type e))), (''occurred_at'', JStr (ev_time e)),
      (''payload'', JObj (ev_payload e))]"

definition receipt :: "event_envelope \<Rightarrow> json" where
  "receipt e = JObj (receipt_fields e)"

text \<open>
  The canonical text of a UTC instant with milliseconds. A text of this shape that names a calendar
  time is its own canonical text.
\<close>

definition number_at :: "string \<Rightarrow> nat \<Rightarrow> nat \<Rightarrow> nat" where
  "number_at s i n = foldl (\<lambda>k c. 10 * k + (of_char c - 48)) 0 (take n (drop i s))"

definition time_shape :: "string \<Rightarrow> bool" where
  "time_shape s \<longleftrightarrow> length s = 24 \<and>
     list_all (\<lambda>i. case map_of [(4, CHR ''-''), (7, CHR ''-''), (10, CHR ''T''), (13, CHR '':''), (16, CHR '':''),
                    (19, CHR ''.''), (23, CHR ''Z'')] i of
                 Some c \<Rightarrow> s ! i = c | None \<Rightarrow> is_digit (s ! i)) [0..<24]"

definition month_days :: "nat \<Rightarrow> nat \<Rightarrow> nat" where
  "month_days y m =
     (if m = 2 then (if y mod 4 = 0 \<and> (y mod 100 \<noteq> 0 \<or> y mod 400 = 0) then 29 else 28)
      else if m \<in> {4, 6, 9, 11} then 30 else 31)"

definition calendar_time :: "string \<Rightarrow> bool" where
  "calendar_time s \<longleftrightarrow>
     (let y = number_at s 0 4; m = number_at s 5 2; d = number_at s 8 2
      in 1 \<le> y \<and> 1 \<le> m \<and> m \<le> 12 \<and> 1 \<le> d \<and> d \<le> month_days y m \<and>
         number_at s 11 2 < 24 \<and> number_at s 14 2 < 60 \<and> number_at s 17 2 < 60)"

definition canonical_timestamp :: "json \<Rightarrow> string outcome" where
  "canonical_timestamp v =
     (case v of
        JStr s \<Rightarrow> if time_shape s \<and> calendar_time s then Inr s else Inl (ValueError ''INVALID_EVENT_TIME'')
      | _ \<Rightarrow> Inl (ValueError ''INVALID_EVENT_TIME''))"

definition parse_message :: "(string \<times> json) list \<Rightarrow> string option outcome" where
  "parse_message kvs =
     (if jget kvs ''message_id'' = JNull then Inr None
      else bind_out (strict_identifier kvs ''message_id'' ''INVALID_EVENT_ENVELOPE'') (\<lambda>s. Inr (Some s)))"

definition parse_sequence :: "json \<Rightarrow> int outcome" where
  "parse_sequence v =
     (case v of
        JInt i \<Rightarrow> if 1 \<le> i \<and> i \<le> int MAX_ASSISTANT_EVENTS_PER_TURN then Inr i
                  else Inl (ValueError ''INVALID_EVENT_SEQUENCE'')
      | _ \<Rightarrow> Inl (ValueError ''INVALID_EVENT_SEQUENCE''))"

definition parse_type :: "json \<Rightarrow> event_type outcome" where
  "parse_type v =
     (case v of
        JStr s \<Rightarrow> (case event_type_of s of Some t \<Rightarrow> Inr t | None \<Rightarrow> Inl (ValueError ''INVALID_EVENT_TYPE''))
      | _ \<Rightarrow> Inl (ValueError ''INVALID_EVENT_TYPE''))"

definition ENVELOPE_FIELDS :: "string list" where
  "ENVELOPE_FIELDS =
     [''protocol'', ''event_id'', ''conversation_id'', ''user_turn_id'', ''message_id'', ''sequence'', ''type'',
      ''occurred_at'', ''payload'']"

definition parse_envelope :: "platform \<Rightarrow> json \<Rightarrow> event_envelope outcome" where
  "parse_envelope P v =
     (case v of
        JObj kvs \<Rightarrow>
          if set (map fst kvs) \<noteq> set ENVELOPE_FIELDS then Inl (ValueError ''INVALID_EVENT_ENVELOPE'')
          else if jget kvs ''protocol'' \<noteq> JStr ASSISTANT_EVENT_PROTOCOL_VERSION
          then Inl (ValueError ''UNSUPPORTED_EVENT_PROTOCOL'')
          else
            bind_out (strict_identifier kvs ''event_id'' ''INVALID_EVENT_ENVELOPE'') (\<lambda>i.
            bind_out (strict_identifier kvs ''conversation_id'' ''INVALID_EVENT_ENVELOPE'') (\<lambda>c.
            bind_out (strict_identifier kvs ''user_turn_id'' ''INVALID_EVENT_ENVELOPE'') (\<lambda>u.
            bind_out (parse_message kvs) (\<lambda>m.
            bind_out (parse_sequence (jget kvs ''sequence'')) (\<lambda>q.
            bind_out (parse_type (jget kvs ''type'')) (\<lambda>t.
            bind_out (validated_payload P t (jget kvs ''payload'')) (\<lambda>p.
              if (t = ANSWER_COMPLETED) \<noteq> (m \<noteq> None) then Inl (ValueError ''INVALID_EVENT_MESSAGE'')
              else bind_out (canonical_timestamp (jget kvs ''occurred_at'')) (\<lambda>w.
                Inr \<lparr>ev_id = i, ev_conversation = c, ev_turn = u, ev_message = m, ev_sequence = q, ev_type = t,
                     ev_time = w, ev_payload = p\<rparr>))))))))
      | _ \<Rightarrow> Inl (ValueError ''INVALID_EVENT_ENVELOPE''))"

section \<open>The event stream\<close>

datatype stream_phase =
    NEW_PHASE | OPEN_PHASE | ANSWERING_PHASE | ANSWERED_PHASE | COMPLETED_PHASE | FAILED_PHASE | CANCELLED_PHASE

record event_stream =
  es_events :: "event_envelope list"
  es_phase :: stream_phase
  es_ids :: "string list"
  es_tools :: "(string \<times> string \<times> bool) list"
  es_retrievals :: "(string \<times> bool) list"
  es_reasoning :: bool
  es_bytes :: nat

definition new_event_stream :: event_stream where
  "new_event_stream = \<lparr>es_events = [], es_phase = NEW_PHASE, es_ids = [], es_tools = [], es_retrievals = [],
     es_reasoning = False, es_bytes = 0\<rparr>"

definition terminal_stream :: "event_stream \<Rightarrow> bool" where
  "terminal_stream s \<longleftrightarrow> es_phase s \<in> {COMPLETED_PHASE, FAILED_PHASE, CANCELLED_PHASE}"

text \<open>A step of the stream changes it even when it raises: the bytes are counted before they are checked.\<close>

type_synonym stream_result = "unit outcome \<times> event_stream"

abbreviation INVALID_EVENT_ORDER :: py_error where
  "INVALID_EVENT_ORDER \<equiv> ValueError ''INVALID_EVENT_ORDER''"

definition payload_text :: "event_envelope \<Rightarrow> string \<Rightarrow> string" where
  "payload_text e name = (case jget (ev_payload e) name of JStr s \<Rightarrow> s | _ \<Rightarrow> [])"

definition add_presentation_bytes :: "nat \<Rightarrow> event_stream \<Rightarrow> stream_result" where
  "add_presentation_bytes amount s =
     (let bytes = es_bytes s + amount
      in (if MAX_ASSISTANT_PRESENTATION_BYTES < bytes then Inl (ValueError ''PRESENTATION_BUDGET_EXCEEDED'') else Inr (),
          s\<lparr>es_bytes := bytes\<rparr>))"

definition advance_open :: "event_envelope \<Rightarrow> event_stream \<Rightarrow> stream_result" where
  "advance_open e s =
     (let refused = (Inl INVALID_EVENT_ORDER, s); call = payload_text e ''call_id'';
          tool = payload_text e ''tool_name''; operation = payload_text e ''operation_id''
      in case ev_type e of
           REASONING_STARTED \<Rightarrow> if es_reasoning s then refused else (Inr (), s\<lparr>es_reasoning := True\<rparr>)
         | TOOL_STARTED \<Rightarrow>
             if map_of (es_tools s) call \<noteq> None then refused
             else (Inr (), s\<lparr>es_tools := AList.update call (tool, False) (es_tools s)\<rparr>)
         | TOOL_COMPLETED \<Rightarrow>
             if map_of (es_tools s) call \<noteq> Some (tool, False) then refused
             else (Inr (), s\<lparr>es_tools := AList.update call (tool, True) (es_tools s)\<rparr>)
         | TOOL_FAILED \<Rightarrow>
             if map_of (es_tools s) call \<noteq> Some (tool, False) then refused
             else (Inr (), s\<lparr>es_tools := AList.update call (tool, True) (es_tools s)\<rparr>)
         | RETRIEVAL_STARTED \<Rightarrow>
             if map_of (es_retrievals s) operation \<noteq> None then refused
             else (Inr (), s\<lparr>es_retrievals := AList.update operation False (es_retrievals s)\<rparr>)
         | RETRIEVAL_COMPLETED \<Rightarrow>
             if map_of (es_retrievals s) operation \<noteq> Some False then refused
             else (Inr (), s\<lparr>es_retrievals := AList.update operation True (es_retrievals s)\<rparr>)
         | ANSWER_STARTED \<Rightarrow>
             if list_ex (\<lambda>x. \<not> snd (snd x)) (es_tools s) \<or> list_ex (\<lambda>x. \<not> snd x) (es_retrievals s) then refused
             else (Inr (), s\<lparr>es_phase := ANSWERING_PHASE\<rparr>)
         | _ \<Rightarrow> refused)"

definition advance_answering :: "platform \<Rightarrow> event_envelope \<Rightarrow> event_stream \<Rightarrow> stream_result" where
  "advance_answering P e s =
     (case ev_type e of
        ANSWER_DELTA \<Rightarrow> add_presentation_bytes (utf8_length (payload_text e ''text'')) s
      | CONTENT_BLOCK \<Rightarrow> add_presentation_bytes (utf8_length (json_dumps P (JObj (ev_payload e)))) s
      | ANSWER_COMPLETED \<Rightarrow> (Inr (), s\<lparr>es_phase := ANSWERED_PHASE\<rparr>)
      | _ \<Rightarrow> (Inl INVALID_EVENT_ORDER, s))"

definition advance :: "platform \<Rightarrow> event_envelope \<Rightarrow> event_stream \<Rightarrow> stream_result" where
  "advance P e s =
     (if terminal_stream s then (Inl (ValueError ''EVENT_AFTER_TERMINAL''), s)
      else if es_phase s = NEW_PHASE
      then (if ev_type e \<noteq> CONVERSATION_STARTED then (Inl INVALID_EVENT_ORDER, s)
            else (Inr (), s\<lparr>es_phase := OPEN_PHASE\<rparr>))
      else if ev_type e = CONVERSATION_STARTED then (Inl INVALID_EVENT_ORDER, s)
      else if ev_type e = ERROR_EVENT
      then (if es_phase s = ANSWERED_PHASE then (Inl INVALID_EVENT_ORDER, s) else (Inr (), s\<lparr>es_phase := FAILED_PHASE\<rparr>))
      else if ev_type e = CANCELLED_EVENT
      then (if es_phase s = ANSWERED_PHASE then (Inl INVALID_EVENT_ORDER, s) else (Inr (), s\<lparr>es_phase := CANCELLED_PHASE\<rparr>))
      else if es_phase s = OPEN_PHASE then advance_open e s
      else if es_phase s = ANSWERING_PHASE then advance_answering P e s
      else if ev_type e \<noteq> CONVERSATION_COMPLETED then (Inl INVALID_EVENT_ORDER, s)
      else (Inr (), s\<lparr>es_phase := COMPLETED_PHASE\<rparr>))"

definition append_envelope :: "platform \<Rightarrow> event_envelope \<Rightarrow> event_stream \<Rightarrow> stream_result" where
  "append_envelope P e s =
     (if MAX_ASSISTANT_EVENTS_PER_TURN \<le> length (es_events s) then (Inl (ValueError ''EVENT_COUNT_BUDGET_EXCEEDED''), s)
      else if ev_sequence e \<noteq> int (length (es_events s)) + 1 then (Inl (ValueError ''INVALID_EVENT_SEQUENCE''), s)
      else if ev_id e \<in> set (es_ids s) then (Inl (ValueError ''DUPLICATE_EVENT_ID''), s)
      else if es_events s \<noteq> [] \<and>
        (ev_conversation e \<noteq> ev_conversation (hd (es_events s)) \<or> ev_turn e \<noteq> ev_turn (hd (es_events s)))
      then (Inl (ValueError ''EVENT_OWNERSHIP_MISMATCH''), s)
      else (case advance P e s of
              (Inl err, s1) \<Rightarrow> (Inl err, s1)
            | (Inr u, s1) \<Rightarrow> (Inr (), s1\<lparr>es_events := es_events s1 @ [e], es_ids := es_ids s1 @ [ev_id e]\<rparr>)))"

definition append_event :: "platform \<Rightarrow> json \<Rightarrow> event_stream \<Rightarrow> stream_result" where
  "append_event P v s =
     (case parse_envelope P v of Inl err \<Rightarrow> (Inl err, s) | Inr e \<Rightarrow> append_envelope P e s)"

section \<open>The builder and the SSE frame\<close>

text \<open>
  \<open>AssistantEventBuilder.emit\<close>: the identifier comes from the factory of the builder and the text of
  the instant from its clock.
\<close>

record event_builder =
  eb_conversation :: string
  eb_turn :: string
  eb_stream :: event_stream

definition new_builder :: "string \<Rightarrow> string \<Rightarrow> event_builder outcome" where
  "new_builder conversation turn =
     (if event_identifier_ok conversation \<and> event_identifier_ok turn
      then Inr \<lparr>eb_conversation = conversation, eb_turn = turn, eb_stream = new_event_stream\<rparr>
      else Inl (ValueError ''INVALID_EVENT_ENVELOPE''))"

definition emitted_json ::
    "event_builder \<Rightarrow> event_type \<Rightarrow> (string \<times> json) list \<Rightarrow> string option \<Rightarrow> string \<Rightarrow> string \<Rightarrow> json" where
  "emitted_json b t payload message fresh_id instant_text =
     receipt \<lparr>ev_id = fresh_id, ev_conversation = eb_conversation b, ev_turn = eb_turn b, ev_message = message,
       ev_sequence = int (length (es_events (eb_stream b))) + 1, ev_type = t, ev_time = instant_text,
       ev_payload = payload\<rparr>"

definition emit ::
    "platform \<Rightarrow> string \<Rightarrow> (string \<times> json) list \<Rightarrow> string option \<Rightarrow> string \<Rightarrow> string \<Rightarrow> event_builder \<Rightarrow>
     event_envelope outcome \<times> event_builder" where
  "emit P type_name payload message fresh_id instant_text b =
     (case event_type_of type_name of
        None \<Rightarrow> (Inl (ValueError ''INVALID_EVENT_TYPE''), b)
      | Some t \<Rightarrow>
          (case bind_out (canonical_timestamp (JStr instant_text)) (\<lambda>w.
                  parse_envelope P (emitted_json b t payload message fresh_id w)) of
             Inl err \<Rightarrow> (Inl err, b)
           | Inr e \<Rightarrow>
               (case append_event P (receipt e) (eb_stream b) of
                  (Inl err, s) \<Rightarrow> (Inl err, b\<lparr>eb_stream := s\<rparr>)
                | (Inr u, s) \<Rightarrow> (Inr e, b\<lparr>eb_stream := s\<rparr>))))"

definition encode_assistant_sse :: "platform \<Rightarrow> json \<Rightarrow> string outcome" where
  "encode_assistant_sse P v =
     bind_out (parse_envelope P v) (\<lambda>e.
       Inr (''id: '' @ str_int (ev_sequence e) @ [CHR 10] @ ''event: '' @ event_type_name (ev_type e) @ [CHR 10] @
            ''data: '' @ json_dumps P (receipt e) @ [CHR 10, CHR 10]))"

section \<open>The protocol of a stream\<close>

text \<open>
  What a stream may hold, stated on its history alone: which event may come after the events \<open>h\<close>.
\<close>

definition seen :: "event_type \<Rightarrow> event_envelope list \<Rightarrow> bool" where
  "seen t h \<longleftrightarrow> list_ex (\<lambda>e. ev_type e = t) h"

definition opens_tool :: "string \<Rightarrow> event_envelope \<Rightarrow> bool" where
  "opens_tool c e \<longleftrightarrow> ev_type e = TOOL_STARTED \<and> payload_text e ''call_id'' = c"

definition closes_tool :: "string \<Rightarrow> event_envelope \<Rightarrow> bool" where
  "closes_tool c e \<longleftrightarrow> (ev_type e = TOOL_COMPLETED \<or> ev_type e = TOOL_FAILED) \<and> payload_text e ''call_id'' = c"

definition opens_retrieval :: "string \<Rightarrow> event_envelope \<Rightarrow> bool" where
  "opens_retrieval c e \<longleftrightarrow> ev_type e = RETRIEVAL_STARTED \<and> payload_text e ''operation_id'' = c"

definition closes_retrieval :: "string \<Rightarrow> event_envelope \<Rightarrow> bool" where
  "closes_retrieval c e \<longleftrightarrow> ev_type e = RETRIEVAL_COMPLETED \<and> payload_text e ''operation_id'' = c"

text \<open>The name a call was opened with, and whether it is closed.\<close>

definition tool_entry :: "event_envelope list \<Rightarrow> string \<Rightarrow> (string \<times> bool) option" where
  "tool_entry h c =
     map_option (\<lambda>e. (payload_text e ''tool_name'', list_ex (closes_tool c) h)) (find (opens_tool c) h)"

definition retrieval_entry :: "event_envelope list \<Rightarrow> string \<Rightarrow> bool option" where
  "retrieval_entry h c = map_option (\<lambda>_. list_ex (closes_retrieval c) h) (find (opens_retrieval c) h)"

definition presentation :: "platform \<Rightarrow> event_envelope \<Rightarrow> nat" where
  "presentation P e =
     (if ev_type e = ANSWER_DELTA then utf8_length (payload_text e ''text'')
      else if ev_type e = CONTENT_BLOCK then utf8_length (json_dumps P (JObj (ev_payload e))) else 0)"

definition presented :: "platform \<Rightarrow> event_envelope list \<Rightarrow> nat" where
  "presented P h = sum_list (map (presentation P) h)"

definition progress_closed :: "event_envelope list \<Rightarrow> bool" where
  "progress_closed h \<longleftrightarrow>
     list_all (\<lambda>e. (ev_type e = TOOL_STARTED \<longrightarrow> list_ex (closes_tool (payload_text e ''call_id'')) h) \<and>
                   (ev_type e = RETRIEVAL_STARTED \<longrightarrow> list_ex (closes_retrieval (payload_text e ''operation_id'')) h)) h"

definition in_order :: "platform \<Rightarrow> event_envelope list \<Rightarrow> event_envelope \<Rightarrow> bool" where
  "in_order P h e \<longleftrightarrow>
     (if h = [] then ev_type e = CONVERSATION_STARTED
      else \<not> seen ERROR_EVENT h \<and> \<not> seen CANCELLED_EVENT h \<and> \<not> seen CONVERSATION_COMPLETED h \<and>
        (let call = payload_text e ''call_id''; tool = payload_text e ''tool_name'';
             operation = payload_text e ''operation_id''; progress = \<not> seen ANSWER_STARTED h;
             answering = (seen ANSWER_STARTED h \<and> \<not> seen ANSWER_COMPLETED h)
         in case ev_type e of
              CONVERSATION_STARTED \<Rightarrow> False
            | REASONING_STARTED \<Rightarrow> progress \<and> \<not> seen REASONING_STARTED h
            | TOOL_STARTED \<Rightarrow> progress \<and> tool_entry h call = None
            | TOOL_COMPLETED \<Rightarrow> progress \<and> tool_entry h call = Some (tool, False)
            | TOOL_FAILED \<Rightarrow> progress \<and> tool_entry h call = Some (tool, False)
            | RETRIEVAL_STARTED \<Rightarrow> progress \<and> retrieval_entry h operation = None
            | RETRIEVAL_COMPLETED \<Rightarrow> progress \<and> retrieval_entry h operation = Some False
            | ANSWER_STARTED \<Rightarrow> progress \<and> progress_closed h
            | ANSWER_DELTA \<Rightarrow> answering \<and> presented P h + presentation P e \<le> MAX_ASSISTANT_PRESENTATION_BYTES
            | CONTENT_BLOCK \<Rightarrow> answering \<and> presented P h + presentation P e \<le> MAX_ASSISTANT_PRESENTATION_BYTES
            | ANSWER_COMPLETED \<Rightarrow> answering
            | CONVERSATION_COMPLETED \<Rightarrow> seen ANSWER_COMPLETED h
            | ERROR_EVENT \<Rightarrow> \<not> seen ANSWER_COMPLETED h
            | CANCELLED_EVENT \<Rightarrow> \<not> seen ANSWER_COMPLETED h))"

definition admissible :: "platform \<Rightarrow> event_envelope list \<Rightarrow> event_envelope \<Rightarrow> bool" where
  "admissible P h e \<longleftrightarrow>
     length h < MAX_ASSISTANT_EVENTS_PER_TURN \<and> ev_sequence e = int (length h) + 1 \<and> ev_id e \<notin> set (map ev_id h) \<and>
     (h \<noteq> [] \<longrightarrow> ev_conversation e = ev_conversation (hd h) \<and> ev_turn e = ev_turn (hd h)) \<and> in_order P h e"

definition protocol_stream :: "platform \<Rightarrow> event_envelope list \<Rightarrow> bool" where
  "protocol_stream P es \<longleftrightarrow> list_all (\<lambda>i. admissible P (take i es) (es ! i)) [0..<length es]"

text \<open>Feeding a stream, until the first event that is refused, and past refusals.\<close>

fun feed :: "platform \<Rightarrow> event_envelope list \<Rightarrow> event_stream \<Rightarrow> stream_result" where
  "feed P [] s = (Inr (), s)"
| "feed P (e # es) s =
     (case append_envelope P e s of (Inl err, s1) \<Rightarrow> (Inl err, s1) | (Inr u, s1) \<Rightarrow> feed P es s1)"

definition offer :: "platform \<Rightarrow> json list \<Rightarrow> event_stream \<Rightarrow> event_stream" where
  "offer P vs s = fold (\<lambda>v s. snd (append_event P v s)) vs s"

lemma seen_simps [simp]: "\<not> seen t []" "seen t (h @ h') \<longleftrightarrow> seen t h \<or> seen t h'" "seen t (e # h) \<longleftrightarrow> ev_type e = t \<or> seen t h"
  by (simp_all add: seen_def)

lemma protocol_Nil [simp]: "protocol_stream P []"
  by (simp add: protocol_stream_def)

lemma protocol_snoc: "protocol_stream P (es @ [e]) \<longleftrightarrow> protocol_stream P es \<and> admissible P es e"
  by (auto simp: protocol_stream_def list_all_iff nth_append)

lemma find_append: "find p (xs @ ys) = (case find p xs of Some x \<Rightarrow> Some x | None \<Rightarrow> find p ys)"
  by (induction xs) auto

text \<open>What the tables of the stream say of its history.\<close>

definition phase_of :: "event_envelope list \<Rightarrow> stream_phase" where
  "phase_of h =
     (if h = [] then NEW_PHASE else if seen ERROR_EVENT h then FAILED_PHASE
      else if seen CANCELLED_EVENT h then CANCELLED_PHASE else if seen CONVERSATION_COMPLETED h then COMPLETED_PHASE
      else if seen ANSWER_COMPLETED h then ANSWERED_PHASE else if seen ANSWER_STARTED h then ANSWERING_PHASE
      else OPEN_PHASE)"

definition follows :: "platform \<Rightarrow> event_envelope list \<Rightarrow> event_stream \<Rightarrow> bool" where
  "follows P h s \<longleftrightarrow>
     es_events s = h \<and> es_ids s = map ev_id h \<and> es_phase s = phase_of h \<and>
     es_reasoning s = seen REASONING_STARTED h \<and>
     (map_of (es_tools s) = tool_entry h \<and> distinct (map fst (es_tools s))) \<and>
     (map_of (es_retrievals s) = retrieval_entry h \<and> distinct (map fst (es_retrievals s))) \<and>
     presented P h \<le> es_bytes s \<and> (seen ANSWER_COMPLETED h \<longrightarrow> seen ANSWER_STARTED h) \<and>
     (\<forall>c. tool_entry h c = None \<longrightarrow> \<not> list_ex (closes_tool c) h) \<and>
     (\<forall>c. retrieval_entry h c = None \<longrightarrow> \<not> list_ex (closes_retrieval c) h)"

lemma tool_entry_snoc:
  "tool_entry (h @ [e]) c =
     (case tool_entry h c of
        Some (n, b) \<Rightarrow> Some (n, b \<or> closes_tool c e)
      | None \<Rightarrow> if opens_tool c e then Some (payload_text e ''tool_name'', list_ex (closes_tool c) h) else None)"
  by (auto simp: tool_entry_def find_append closes_tool_def opens_tool_def split: option.splits)

lemma retrieval_entry_snoc:
  "retrieval_entry (h @ [e]) c =
     (case retrieval_entry h c of
        Some b \<Rightarrow> Some (b \<or> closes_retrieval c e)
      | None \<Rightarrow> if opens_retrieval c e then Some (list_ex (closes_retrieval c) h) else None)"
  by (auto simp: retrieval_entry_def find_append closes_retrieval_def opens_retrieval_def split: option.splits)

lemma tools_closed:
  assumes "map_of tools = tool_entry h" "distinct (map fst tools)"
  shows "\<not> list_ex (\<lambda>x. \<not> snd (snd x)) tools \<longleftrightarrow>
    list_all (\<lambda>e. ev_type e = TOOL_STARTED \<longrightarrow> list_ex (closes_tool (payload_text e ''call_id'')) h) h"
    (is "?open \<longleftrightarrow> ?closed")
proof
  assume open_none: ?open
  show ?closed
  proof (unfold list_all_iff, intro ballI impI)
    fix e assume e: "e \<in> set h" "ev_type e = TOOL_STARTED"
    then have "find (opens_tool (payload_text e ''call_id'')) h \<noteq> None"
      by (auto simp: find_None_iff opens_tool_def)
    then obtain n where "map_of tools (payload_text e ''call_id'') =
        Some (n, list_ex (closes_tool (payload_text e ''call_id'')) h)"
      using assms(1) by (auto simp: tool_entry_def)
    then have "(payload_text e ''call_id'', n, list_ex (closes_tool (payload_text e ''call_id'')) h) \<in> set tools"
      by (rule map_of_SomeD)
    with open_none show "list_ex (closes_tool (payload_text e ''call_id'')) h" by (force simp: list_ex_iff)
  qed
next
  assume closed: ?closed
  show ?open
  proof
    assume "list_ex (\<lambda>x. \<not> snd (snd x)) tools"
    then obtain c n where "(c, n, False) \<in> set tools" by (auto simp: list_ex_iff)
    then have "tool_entry h c = Some (n, False)" using assms by (metis map_of_is_SomeI)
    then obtain e where "find (opens_tool c) h = Some e" "\<not> list_ex (closes_tool c) h"
      by (auto simp: tool_entry_def)
    moreover from this(1) have "e \<in> set h" "opens_tool c e" by (auto simp: find_Some_iff)
    ultimately show False using closed by (auto simp: opens_tool_def list_all_iff)
  qed
qed

lemma retrievals_closed:
  assumes "map_of rs = retrieval_entry h" "distinct (map fst rs)"
  shows "\<not> list_ex (\<lambda>x. \<not> snd x) rs \<longleftrightarrow>
    list_all (\<lambda>e. ev_type e = RETRIEVAL_STARTED \<longrightarrow> list_ex (closes_retrieval (payload_text e ''operation_id'')) h) h"
    (is "?open \<longleftrightarrow> ?closed")
proof
  assume open_none: ?open
  show ?closed
  proof (unfold list_all_iff, intro ballI impI)
    fix e assume e: "e \<in> set h" "ev_type e = RETRIEVAL_STARTED"
    then have "find (opens_retrieval (payload_text e ''operation_id'')) h \<noteq> None"
      by (auto simp: find_None_iff opens_retrieval_def)
    then have "map_of rs (payload_text e ''operation_id'') =
        Some (list_ex (closes_retrieval (payload_text e ''operation_id'')) h)"
      using assms(1) by (auto simp: retrieval_entry_def)
    then have "(payload_text e ''operation_id'', list_ex (closes_retrieval (payload_text e ''operation_id'')) h) \<in> set rs"
      by (rule map_of_SomeD)
    with open_none show "list_ex (closes_retrieval (payload_text e ''operation_id'')) h" by (force simp: list_ex_iff)
  qed
next
  assume closed: ?closed
  show ?open
  proof
    assume "list_ex (\<lambda>x. \<not> snd x) rs"
    then obtain c where "(c, False) \<in> set rs" by (auto simp: list_ex_iff)
    then have "retrieval_entry h c = Some False" using assms by (metis map_of_is_SomeI)
    then obtain e where "find (opens_retrieval c) h = Some e" "\<not> list_ex (closes_retrieval c) h"
      by (auto simp: retrieval_entry_def)
    moreover from this(1) have "e \<in> set h" "opens_retrieval c e" by (auto simp: find_Some_iff)
    ultimately show False using closed by (auto simp: opens_retrieval_def list_all_iff)
  qed
qed

lemma followsD:
  assumes "follows P h s"
  shows "es_events s = h" "es_ids s = map ev_id h" "es_phase s = phase_of h" "es_reasoning s = seen REASONING_STARTED h"
    "map_of (es_tools s) = tool_entry h" "distinct (map fst (es_tools s))"
    "map_of (es_retrievals s) = retrieval_entry h" "distinct (map fst (es_retrievals s))"
    "presented P h \<le> es_bytes s" "seen ANSWER_COMPLETED h \<Longrightarrow> seen ANSWER_STARTED h"
    "tool_entry h c = None \<Longrightarrow> \<not> list_ex (closes_tool c) h"
    "retrieval_entry h c = None \<Longrightarrow> \<not> list_ex (closes_retrieval c) h"
  using assms by (auto simp: follows_def)

lemma all_progress_closed:
  assumes "follows P h s"
  shows "(list_ex (\<lambda>x. \<not> snd (snd x)) (es_tools s) \<or> list_ex (\<lambda>x. \<not> snd x) (es_retrievals s)) = (\<not> progress_closed h)"
  using tools_closed [OF followsD(5) [OF assms] followsD(6) [OF assms]] retrievals_closed [OF followsD(7) [OF assms] followsD(8) [OF assms]]
  by (auto simp: progress_closed_def list_all_iff)

text \<open>A step is taken exactly when the protocol admits it, up to bytes that refused events have used.\<close>

lemma advance_verdict:
  assumes "follows P h s"
  shows "fst (advance P e s) = Inr () \<Longrightarrow> in_order P h e"
    and "es_bytes s = presented P h \<Longrightarrow> in_order P h e \<Longrightarrow> fst (advance P e s) = Inr ()"
proof -
  note facts = followsD [OF assms] all_progress_closed [OF assms]
  show "fst (advance P e s) = Inr () \<Longrightarrow> in_order P h e"
    by (cases "ev_type e")
      (use facts in \<open>auto simp: advance_def advance_open_def advance_answering_def add_presentation_bytes_def
        in_order_def terminal_stream_def phase_of_def presentation_def Let_def simp del: not_None_eq not_Some_eq split: if_splits\<close>)
  show "es_bytes s = presented P h \<Longrightarrow> in_order P h e \<Longrightarrow> fst (advance P e s) = Inr ()"
    by (cases "ev_type e")
      (use facts in \<open>auto simp: advance_def advance_open_def advance_answering_def add_presentation_bytes_def
        in_order_def terminal_stream_def phase_of_def presentation_def Let_def simp del: not_None_eq not_Some_eq split: if_splits\<close>)
qed

lemma tool_entry_opened:
  assumes "ev_type e = TOOL_STARTED" "tool_entry h (payload_text e ''call_id'') = None"
    "\<And>c. tool_entry h c = None \<Longrightarrow> \<not> list_ex (closes_tool c) h"
  shows "tool_entry (h @ [e]) = (tool_entry h)(payload_text e ''call_id'' \<mapsto> (payload_text e ''tool_name'', False))"
  using assms by (auto simp: fun_eq_iff tool_entry_snoc opens_tool_def closes_tool_def split: option.splits)

lemma tool_entry_finished:
  assumes "ev_type e = TOOL_COMPLETED \<or> ev_type e = TOOL_FAILED"
    "tool_entry h (payload_text e ''call_id'') = Some (payload_text e ''tool_name'', False)"
  shows "tool_entry (h @ [e]) = (tool_entry h)(payload_text e ''call_id'' \<mapsto> (payload_text e ''tool_name'', True))"
  using assms by (auto simp: fun_eq_iff tool_entry_snoc opens_tool_def closes_tool_def split: option.splits)

lemma tool_entry_other:
  assumes "ev_type e \<notin> {TOOL_STARTED, TOOL_COMPLETED, TOOL_FAILED}"
  shows "tool_entry (h @ [e]) = tool_entry h"
  using assms by (auto simp: fun_eq_iff tool_entry_snoc opens_tool_def closes_tool_def split: option.splits)

lemma retrieval_entry_opened:
  assumes "ev_type e = RETRIEVAL_STARTED" "retrieval_entry h (payload_text e ''operation_id'') = None"
    "\<And>c. retrieval_entry h c = None \<Longrightarrow> \<not> list_ex (closes_retrieval c) h"
  shows "retrieval_entry (h @ [e]) = (retrieval_entry h)(payload_text e ''operation_id'' \<mapsto> False)"
  using assms by (auto simp: fun_eq_iff retrieval_entry_snoc opens_retrieval_def closes_retrieval_def split: option.splits)

lemma retrieval_entry_finished:
  assumes "ev_type e = RETRIEVAL_COMPLETED" "retrieval_entry h (payload_text e ''operation_id'') = Some False"
  shows "retrieval_entry (h @ [e]) = (retrieval_entry h)(payload_text e ''operation_id'' \<mapsto> True)"
  using assms by (auto simp: fun_eq_iff retrieval_entry_snoc opens_retrieval_def closes_retrieval_def split: option.splits)

lemma retrieval_entry_other:
  assumes "ev_type e \<notin> {RETRIEVAL_STARTED, RETRIEVAL_COMPLETED}"
  shows "retrieval_entry (h @ [e]) = retrieval_entry h"
  using assms by (auto simp: fun_eq_iff retrieval_entry_snoc opens_retrieval_def closes_retrieval_def split: option.splits)

lemmas entry_simps = tool_entry_opened tool_entry_finished tool_entry_other
  retrieval_entry_opened retrieval_entry_finished retrieval_entry_other

lemma advance_tables:
  assumes "follows P h s" "advance P e s = (Inr (), s1)"
  shows "map_of (es_tools s1) = tool_entry (h @ [e])" "distinct (map fst (es_tools s1))"
    "map_of (es_retrievals s1) = retrieval_entry (h @ [e])" "distinct (map fst (es_retrievals s1))"
proof -
  note facts = followsD [OF assms(1)]
  show "map_of (es_tools s1) = tool_entry (h @ [e])"
    by (cases "ev_type e")
      (use assms(2) facts(3,5,11) in \<open>auto simp: advance_def advance_open_def advance_answering_def
        add_presentation_bytes_def entry_simps update_conv' Let_def simp del: not_None_eq not_Some_eq split: if_splits\<close>)
  show "distinct (map fst (es_tools s1))"
    by (cases "ev_type e")
      (use assms(2) facts(6) in \<open>auto simp: advance_def advance_open_def advance_answering_def
        add_presentation_bytes_def distinct_update Let_def split: if_splits\<close>)
  show "map_of (es_retrievals s1) = retrieval_entry (h @ [e])"
    by (cases "ev_type e")
      (use assms(2) facts(3,7,12) in \<open>auto simp: advance_def advance_open_def advance_answering_def
        add_presentation_bytes_def entry_simps update_conv' Let_def simp del: not_None_eq not_Some_eq split: if_splits\<close>)
  show "distinct (map fst (es_retrievals s1))"
    by (cases "ev_type e")
      (use assms(2) facts(8) in \<open>auto simp: advance_def advance_open_def advance_answering_def
        add_presentation_bytes_def distinct_update Let_def split: if_splits\<close>)
qed

lemma advance_state:
  assumes "follows P h s" "advance P e s = (Inr (), s1)"
  shows "es_events s1 = h" "es_ids s1 = map ev_id h" "es_phase s1 = phase_of (h @ [e])"
    "es_reasoning s1 = seen REASONING_STARTED (h @ [e])" "es_bytes s1 = es_bytes s + presentation P e"
    "seen ANSWER_COMPLETED (h @ [e]) \<Longrightarrow> seen ANSWER_STARTED (h @ [e])"
proof -
  note facts = followsD [OF assms(1)]
  note unfolds = advance_def advance_open_def advance_answering_def add_presentation_bytes_def
    terminal_stream_def phase_of_def presentation_def Let_def
  show "es_events s1 = h" "es_ids s1 = map ev_id h"
    by (cases "ev_type e"; use assms(2) facts(1,2) in \<open>auto simp: unfolds split: if_splits\<close>)+
  show "es_phase s1 = phase_of (h @ [e])"
    by (cases "ev_type e") (use assms(2) facts(3,10) in \<open>auto simp: unfolds split: if_splits\<close>)
  show "es_reasoning s1 = seen REASONING_STARTED (h @ [e])"
    by (cases "ev_type e") (use assms(2) facts(3,4) in \<open>auto simp: unfolds split: if_splits\<close>)
  show "es_bytes s1 = es_bytes s + presentation P e"
    by (cases "ev_type e") (use assms(2) in \<open>auto simp: unfolds split: if_splits\<close>)
  show "seen ANSWER_STARTED (h @ [e])" if "seen ANSWER_COMPLETED (h @ [e])"
    by (cases "ev_type e") (use assms(2) facts(3,10) that in \<open>auto simp: unfolds split: if_splits\<close>)
qed

lemma closed_were_opened:
  assumes "follows P h s" "advance P e s = (Inr (), s1)"
  shows "tool_entry (h @ [e]) c = None \<Longrightarrow> \<not> list_ex (closes_tool c) (h @ [e])"
    and "retrieval_entry (h @ [e]) c = None \<Longrightarrow> \<not> list_ex (closes_retrieval c) (h @ [e])"
proof -
  have ordered: "in_order P h e" using advance_verdict(1) [OF assms(1)] assms(2) by simp
  note facts = followsD(11,12) [OF assms(1)]
  show "\<not> list_ex (closes_tool c) (h @ [e])" if "tool_entry (h @ [e]) c = None"
    using that ordered facts(1) [of c]
    by (auto simp: tool_entry_snoc closes_tool_def in_order_def Let_def split: if_splits option.splits)
  show "\<not> list_ex (closes_retrieval c) (h @ [e])" if "retrieval_entry (h @ [e]) c = None"
    using that ordered facts(2) [of c]
    by (auto simp: retrieval_entry_snoc closes_retrieval_def in_order_def Let_def split: if_splits option.splits)
qed

lemma refused_keeps:
  assumes "advance P e s = (Inl err, s1)"
  shows "\<exists>n. s1 = s\<lparr>es_bytes := es_bytes s + n\<rparr>"
proof (cases "s1 = s")
  case True
  then have "s1 = s\<lparr>es_bytes := es_bytes s + 0\<rparr>" by simp
  then show ?thesis by blast
next
  case False
  with assms show ?thesis
    by (auto simp: advance_def advance_open_def advance_answering_def add_presentation_bytes_def Let_def
      split: if_splits event_type.splits)
qed

lemma presented_snoc: "presented P (h @ [e]) = presented P h + presentation P e"
  by (simp add: presented_def)

lemma append_follows:
  assumes "follows P h s" "append_envelope P e s = (r, s1)"
  shows "if r = Inr () then admissible P h e \<and> follows P (h @ [e]) s1 \<and> es_bytes s1 = es_bytes s + presentation P e
    else follows P h s1"
proof (cases "r = Inr ()")
  case True
  then obtain s2 where adv: "advance P e s = (Inr (), s2)"
    and s1: "s1 = s2\<lparr>es_events := es_events s2 @ [e], es_ids := es_ids s2 @ [ev_id e]\<rparr>"
    using assms(2) by (auto simp: append_envelope_def split: if_splits prod.splits sum.splits)
  have "admissible P h e"
    using assms(2) True advance_verdict(1) [OF assms(1), of e] adv followsD(1,2) [OF assms(1)]
    by (auto simp: append_envelope_def admissible_def split: if_splits)
  moreover have "follows P (h @ [e]) s1"
    unfolding follows_def s1
    using advance_tables [OF assms(1) adv] advance_state [OF assms(1) adv] closed_were_opened [OF assms(1) adv]
      followsD(9) [OF assms(1)]
    by (simp add: presented_snoc)
  ultimately show ?thesis using True s1 advance_state(5) [OF assms(1) adv] by simp
next
  case False
  have "s1 = s \<or> (\<exists>n. s1 = s\<lparr>es_bytes := es_bytes s + n\<rparr>)"
    using assms(2) False refused_keeps [of P e s]
    by (auto simp: append_envelope_def split: if_splits prod.splits sum.splits)
  then have "follows P h s1" using assms(1) by (auto simp: follows_def)
  with False show ?thesis by simp
qed

lemma append_accepts:
  assumes "follows P h s" "es_bytes s = presented P h" "admissible P h e"
  shows "fst (append_envelope P e s) = Inr ()"
  using assms advance_verdict(2) [OF assms(1,2), of e] followsD(1,2) [OF assms(1)]
  by (auto simp: append_envelope_def admissible_def split: prod.splits sum.splits)

lemma new_follows: "follows P [] new_event_stream" "es_bytes new_event_stream = presented P []"
  by (simp_all add: follows_def new_event_stream_def phase_of_def tool_entry_def retrieval_entry_def presented_def fun_eq_iff)

lemma protocol_prefix: "protocol_stream P (es @ fs) \<Longrightarrow> protocol_stream P es"
  by (induction fs rule: rev_induct) (simp_all add: protocol_snoc flip: append_assoc)

lemma protocol_nth: "protocol_stream P es \<Longrightarrow> i < length es \<Longrightarrow> admissible P (take i es) (es ! i)"
  by (simp add: protocol_stream_def list_all_iff)

lemma feed_protocol:
  assumes "follows P h s" "es_bytes s = presented P h" "protocol_stream P h"
  shows "fst (feed P es s) = Inr () \<longleftrightarrow> protocol_stream P (h @ es)"
  using assms
proof (induction es arbitrary: h s)
  case (Cons e es)
  obtain r s1 where step: "append_envelope P e s = (r, s1)" by (cases "append_envelope P e s")
  show ?case
  proof (cases r)
    case (Inl err)
    then have "\<not> admissible P h e" using append_accepts [OF Cons.prems(1,2), of e] step by auto
    then have "\<not> protocol_stream P (h @ e # es)"
      using protocol_prefix [of P "h @ [e]" es] by (auto simp: protocol_snoc)
    with step Inl show ?thesis by simp
  next
    case (Inr u)
    then have "admissible P h e" "follows P (h @ [e]) s1" "es_bytes s1 = es_bytes s + presentation P e"
      using append_follows [OF Cons.prems(1) step] by simp_all
    then have "fst (feed P es s1) = Inr () \<longleftrightarrow> protocol_stream P ((h @ [e]) @ es)"
      using Cons.IH [of "h @ [e]" s1] Cons.prems(2,3) by (simp add: protocol_snoc presented_snoc)
    with step Inr show ?thesis by simp
  qed
qed simp

text \<open>
  C40: The event sequence of a turn accepts a list of events exactly when it follows the protocol: the
  phase, the tables of tool calls and retrievals and the byte counter of the code decide the same
  streams as the rules stated on the history alone.
\<close>

theorem stream_accepts_the_protocol:
  "fst (feed P es new_event_stream) = Inr () \<longleftrightarrow> protocol_stream P es"
  using feed_protocol [OF new_follows] by simp

lemma offer_follows:
  "\<exists>h. follows P h (offer P vs new_event_stream) \<and> protocol_stream P h"
proof (induction vs rule: rev_induct)
  case Nil
  then show ?case using new_follows(1) [of P] by (auto simp: offer_def)
next
  case (snoc v vs)
  then obtain h where h: "follows P h (offer P vs new_event_stream)" "protocol_stream P h" by blast
  have step: "offer P (vs @ [v]) new_event_stream = snd (append_event P v (offer P vs new_event_stream))" by (simp add: offer_def)
  show ?case
  proof (cases "parse_envelope P v")
    case (Inl err)
    then show ?thesis using h by (auto simp: step append_event_def)
  next
    case (Inr e)
    obtain r s1 where app: "append_envelope P e (offer P vs new_event_stream) = (r, s1)"
      by (cases "append_envelope P e (offer P vs new_event_stream)")
    show ?thesis
    proof (cases "r = Inr ()")
      case True
      then show ?thesis using append_follows [OF h(1) app] h(2) app Inr
        by (intro exI [of _ "h @ [e]"]) (auto simp: step append_event_def protocol_snoc)
    next
      case False
      then show ?thesis using append_follows [OF h(1) app] h(2) app Inr
        by (intro exI [of _ h]) (auto simp: step append_event_def)
    qed
  qed
qed

lemma offered_protocol: "protocol_stream P (es_events (offer P vs new_event_stream))"
  using offer_follows [of P vs] followsD(1) by blast

lemma set_take_nth: "x \<in> set (take n xs) \<longleftrightarrow> (\<exists>k < n. k < length xs \<and> x = xs ! k)"
  by (auto simp: in_set_conv_nth)

lemma list_ex_take: "list_ex p (take n xs) \<longleftrightarrow> (\<exists>k < n. k < length xs \<and> p (xs ! k))"
  unfolding list_ex_iff Bex_def set_take_nth by blast

lemma seen_take:
  "seen t (take n es) \<longleftrightarrow> (\<exists>k < n. k < length es \<and> ev_type (es ! k) = t)"
  by (simp add: seen_def list_ex_take)

lemma entry_take:
  "tool_entry (take n es) c = None \<longleftrightarrow> (\<forall>k < n. k < length es \<longrightarrow> \<not> opens_tool c (es ! k))"
  by (auto simp: tool_entry_def find_None_iff set_take_nth)

lemma entry_take_Some:
  assumes "tool_entry (take n es) c = Some (m, b)"
  shows "\<exists>k < n. k < length es \<and> opens_tool c (es ! k) \<and> payload_text (es ! k) ''tool_name'' = m"
    "b \<longleftrightarrow> (\<exists>k < n. k < length es \<and> closes_tool c (es ! k))"
proof -
  from assms obtain e where e: "find (opens_tool c) (take n es) = Some e" "payload_text e ''tool_name'' = m"
    "b = list_ex (closes_tool c) (take n es)" by (auto simp: tool_entry_def)
  then show "\<exists>k < n. k < length es \<and> opens_tool c (es ! k) \<and> payload_text (es ! k) ''tool_name'' = m"
    by (auto simp: find_Some_iff)
  show "b \<longleftrightarrow> (\<exists>k < n. k < length es \<and> closes_tool c (es ! k))"
    unfolding e(3) by (rule list_ex_take)
qed

lemma in_order_tool:
  assumes "in_order P h e"
  shows "ev_type e = TOOL_STARTED \<Longrightarrow> \<not> seen ANSWER_STARTED h \<and> tool_entry h (payload_text e ''call_id'') = None"
    and "ev_type e = TOOL_COMPLETED \<or> ev_type e = TOOL_FAILED \<Longrightarrow>
      tool_entry h (payload_text e ''call_id'') = Some (payload_text e ''tool_name'', False)"
    and "ev_type e = ANSWER_STARTED \<Longrightarrow> progress_closed h"
  using assms by (cases "h = []"; auto simp: in_order_def Let_def)+

lemma opening_is_unique:
  assumes "protocol_stream P es" "i < length es" "k < length es" "opens_tool c (es ! i)" "opens_tool c (es ! k)"
  shows "i = k"
proof -
  have first: "\<not> opens_tool c (es ! a)" if "a < b" "b < length es" "opens_tool c (es ! b)" for a b
  proof -
    have "in_order P (take b es) (es ! b)" using protocol_nth [OF assms(1) that(2)] by (simp add: admissible_def)
    with that have "tool_entry (take b es) c = None" using in_order_tool(1) by (auto simp: opens_tool_def)
    with that show ?thesis by (auto simp: entry_take)
  qed
  show ?thesis using first [of i k] first [of k i] assms(2-5) by (metis linorder_neqE_nat)
qed

lemma closing_follows_opening:
  assumes "protocol_stream P es" "k < length es" "closes_tool c (es ! k)"
  shows "\<exists>i < k. opens_tool c (es ! i) \<and> payload_text (es ! i) ''tool_name'' = payload_text (es ! k) ''tool_name''"
    and "\<not> (\<exists>a < k. closes_tool c (es ! a))"
proof -
  have "in_order P (take k es) (es ! k)" using protocol_nth [OF assms(1,2)] by (simp add: admissible_def)
  then have entry: "tool_entry (take k es) c = Some (payload_text (es ! k) ''tool_name'', False)"
    using assms(3) in_order_tool(2) by (auto simp: closes_tool_def)
  show "\<exists>i < k. opens_tool c (es ! i) \<and> payload_text (es ! i) ''tool_name'' = payload_text (es ! k) ''tool_name''"
    using entry_take_Some(1) [OF entry] by auto
  show "\<not> (\<exists>a < k. closes_tool c (es ! a))" using entry_take_Some(2) [OF entry] assms(2) by auto
qed

text \<open>
  Whatever texts are offered to a stream, refused ones included: when its answer has started,
  every tool call of the stream was opened before, and between the two there is exactly one event
  that closes it, under the name it was opened with, and no other anywhere in the stream.
\<close>

theorem answer_waits_for_its_tools:
  assumes "es = es_events (offer P vs new_event_stream)" "i < length es" "j < length es"
    "ev_type (es ! i) = TOOL_STARTED" "ev_type (es ! j) = ANSWER_STARTED"
  shows "\<exists>k. i < k \<and> k < j \<and> closes_tool (payload_text (es ! i) ''call_id'') (es ! k) \<and>
    payload_text (es ! k) ''tool_name'' = payload_text (es ! i) ''tool_name'' \<and>
    (\<forall>l < length es. closes_tool (payload_text (es ! i) ''call_id'') (es ! l) \<longrightarrow> l = k)"
proof -
  define c where "c = payload_text (es ! i) ''call_id''"
  have es: "protocol_stream P es" unfolding assms(1) by (rule offered_protocol)
  have opened: "opens_tool c (es ! i)" using assms(4) by (simp add: opens_tool_def c_def)
  have "in_order P (take i es) (es ! i)" "in_order P (take j es) (es ! j)"
    using protocol_nth [OF es] assms(2,3) by (simp_all add: admissible_def)
  then have early: "\<not> seen ANSWER_STARTED (take i es)" and closed: "progress_closed (take j es)"
    using assms(4,5) in_order_tool(1,3) by blast+
  have "i < j"
  proof (rule ccontr)
    assume "\<not> i < j"
    moreover have "i \<noteq> j" using assms(4,5) by auto
    ultimately show False using early assms(3,5) by (auto simp: seen_take)
  qed
  then have "es ! i \<in> set (take j es)" using assms(3) by (auto simp: in_set_conv_nth)
  then have "list_ex (closes_tool c) (take j es)"
    using closed assms(4) by (auto simp: progress_closed_def list_all_iff c_def)
  then obtain k where k: "k < j" "closes_tool c (es ! k)" using assms(3) by (auto simp: list_ex_iff in_set_conv_nth)
  have len: "k < length es" using k(1) assms(3) by simp
  from closing_follows_opening(1) [OF es len k(2)] obtain i' where
    i': "i' < k" "opens_tool c (es ! i')" "payload_text (es ! i') ''tool_name'' = payload_text (es ! k) ''tool_name''" by blast
  have "i' = i" using opening_is_unique [OF es _ assms(2) i'(2) opened] i'(1) len by simp
  moreover have "l = k" if "l < length es" "closes_tool c (es ! l)" for l
    using closing_follows_opening(2) [OF es that] closing_follows_opening(2) [OF es len k(2)] k(2) that(2)
    by (metis linorder_neqE_nat)
  ultimately show ?thesis using i' k unfolding c_def by auto
qed

text \<open>
  Whatever texts are offered to a stream, an event that ends the turn is the last of its events:
  nothing is accepted after a completed, failed or cancelled conversation.
\<close>

theorem terminal_event_is_last:
  assumes "es = es_events (offer P vs new_event_stream)" "i < length es"
    "ev_type (es ! i) \<in> {CONVERSATION_COMPLETED, ERROR_EVENT, CANCELLED_EVENT}"
  shows "i = length es - 1"
proof (rule ccontr)
  assume "i \<noteq> length es - 1"
  then have later: "Suc i < length es" using assms(2) by linarith
  have "in_order P (take (Suc i) es) (es ! Suc i)"
    using protocol_nth [OF offered_protocol [of P vs]] later assms(1) by (simp add: admissible_def)
  then have "\<not> seen t (take (Suc i) es)" if "t \<in> {CONVERSATION_COMPLETED, ERROR_EVENT, CANCELLED_EVENT}" for t
    using that assms(2) by (auto simp: in_order_def split: if_splits)
  with assms(2,3) show False by (auto simp: seen_take)
qed

lemma in_order_presentation:
  assumes "in_order P h e"
  shows "presentation P e = 0 \<or> presented P h + presentation P e \<le> MAX_ASSISTANT_PRESENTATION_BYTES"
proof (cases "ev_type e = ANSWER_DELTA \<or> ev_type e = CONTENT_BLOCK")
  case True
  then show ?thesis using assms by (cases "h = []") (auto simp: in_order_def Let_def)
qed (simp add: presentation_def)

lemma presented_protocol: "protocol_stream P es \<Longrightarrow> presented P es \<le> MAX_ASSISTANT_PRESENTATION_BYTES"
proof (induction es rule: rev_induct)
  case (snoc e es)
  then have "in_order P es e" "presented P es \<le> MAX_ASSISTANT_PRESENTATION_BYTES"
    by (simp_all add: protocol_snoc admissible_def)
  with in_order_presentation [of P es e] show ?case by (auto simp: presented_snoc)
qed (simp add: presented_def)

lemma protocol_numbers:
  "protocol_stream P es \<Longrightarrow> length es \<le> MAX_ASSISTANT_EVENTS_PER_TURN \<and>
     map ev_sequence es = map (\<lambda>i. int i + 1) [0..<length es] \<and> distinct (map ev_id es)"
  by (induction es rule: rev_induct) (simp_all add: protocol_snoc admissible_def)

lemma protocol_owner:
  "protocol_stream P es \<Longrightarrow>
     list_all (\<lambda>e. ev_conversation e = ev_conversation (hd es) \<and> ev_turn e = ev_turn (hd es)) es"
proof (induction es rule: rev_induct)
  case (snoc e es)
  then show ?case by (cases es) (auto simp: protocol_snoc admissible_def simp flip: append_Cons)
qed simp

text \<open>
  Whatever texts are offered to a stream, it holds at most 256 events, numbered from one without
  a gap, under different identifiers, for one conversation and one turn, and its answer deltas and
  content blocks stay within the presentation budget.
\<close>

theorem stream_is_bounded:
  assumes "es = es_events (offer P vs new_event_stream)"
  shows "length es \<le> MAX_ASSISTANT_EVENTS_PER_TURN \<and> map ev_sequence es = map (\<lambda>i. int i + 1) [0..<length es] \<and>
    distinct (map ev_id es) \<and>
    list_all (\<lambda>e. ev_conversation e = ev_conversation (hd es) \<and> ev_turn e = ev_turn (hd es)) es \<and>
    presented P es \<le> MAX_ASSISTANT_PRESENTATION_BYTES"
proof -
  have es: "protocol_stream P es" unfolding assms by (rule offered_protocol)
  show ?thesis using protocol_numbers [OF es] protocol_owner [OF es] presented_protocol [OF es] by simp
qed

section \<open>Receipts\<close>

lemma event_type_of_name [simp]: "event_type_of (event_type_name t) = Some t"
  by (cases t) (simp_all add: event_type_of_def of_name_def EVENT_TYPES_def)

lemma event_type_of_SomeD: "event_type_of s = Some t \<Longrightarrow> s = event_type_name t"
  using of_name_SomeD by (force simp: event_type_of_def)

lemma strict_object_Inr: "strict_object P v expected = Inr p \<Longrightarrow> v = JObj p"
  by (auto simp: strict_object_def split: json.splits if_splits)

lemma validated_object: "validated_payload P t v = Inr p \<Longrightarrow> v = JObj p"
  by (cases t) (auto simp: bind_out_Inr_iff require_payload_def split: if_splits dest: strict_object_Inr)

lemma strict_identifier_Inr:
  "strict_identifier kvs name code = Inr s \<longleftrightarrow> jget kvs name = JStr s \<and> event_identifier_ok s"
  by (auto simp: strict_identifier_def split: json.splits)

lemma receipt_get [simp]:
  "jget (receipt_fields e) ''protocol'' = JStr ASSISTANT_EVENT_PROTOCOL_VERSION"
  "jget (receipt_fields e) ''event_id'' = JStr (ev_id e)"
  "jget (receipt_fields e) ''conversation_id'' = JStr (ev_conversation e)"
  "jget (receipt_fields e) ''user_turn_id'' = JStr (ev_turn e)"
  "jget (receipt_fields e) ''message_id'' = optional_json (ev_message e)"
  "jget (receipt_fields e) ''sequence'' = JInt (ev_sequence e)"
  "jget (receipt_fields e) ''type'' = JStr (event_type_name (ev_type e))"
  "jget (receipt_fields e) ''occurred_at'' = JStr (ev_time e)"
  "jget (receipt_fields e) ''payload'' = JObj (ev_payload e)"
  by (simp_all add: receipt_fields_def jget_def)

lemma receipt_names [simp]: "fst ` set (receipt_fields e) = set ENVELOPE_FIELDS"
  by (auto simp: receipt_fields_def ENVELOPE_FIELDS_def)

text \<open>What the parser accepts.\<close>

definition valid_envelope :: "platform \<Rightarrow> event_envelope \<Rightarrow> bool" where
  "valid_envelope P e \<longleftrightarrow>
     event_identifier_ok (ev_id e) \<and> event_identifier_ok (ev_conversation e) \<and> event_identifier_ok (ev_turn e) \<and>
     (case ev_message e of None \<Rightarrow> True | Some m \<Rightarrow> event_identifier_ok m) \<and>
     1 \<le> ev_sequence e \<and> ev_sequence e \<le> int MAX_ASSISTANT_EVENTS_PER_TURN \<and>
     validated_payload P (ev_type e) (JObj (ev_payload e)) = Inr (ev_payload e) \<and>
     (ev_type e = ANSWER_COMPLETED) = (ev_message e \<noteq> None) \<and> time_shape (ev_time e) \<and> calendar_time (ev_time e)"

lemma parse_valid:
  assumes "parse_envelope P v = Inr e"
  shows "valid_envelope P e"
proof -
  obtain kvs where v: "v = JObj kvs" using assms by (auto simp: parse_envelope_def split: json.splits)
  from assms obtain p where p: "validated_payload P (ev_type e) (jget kvs ''payload'') = Inr p" "p = ev_payload e"
    by (auto simp: parse_envelope_def v bind_out_Inr_iff split: if_splits)
  have "validated_payload P (ev_type e) (JObj (ev_payload e)) = Inr (ev_payload e)"
    using p validated_object [OF p(1)] by simp
  with assms show ?thesis
    by (auto simp: parse_envelope_def v bind_out_Inr_iff valid_envelope_def strict_identifier_Inr parse_message_def
      parse_sequence_def canonical_timestamp_def split: if_splits json.splits option.splits)
qed

lemma valid_parses:
  assumes "valid_envelope P e"
  shows "parse_envelope P (receipt e) = Inr e"
  using assms
  by (auto simp: parse_envelope_def receipt_def valid_envelope_def strict_identifier_def parse_message_def
    parse_sequence_def parse_type_def canonical_timestamp_def optional_json_def split: option.splits)

text \<open>
  The receipt of an event that was parsed is parsed to the same event, so the stream, the builder
  and the SSE encoder, which all parse the receipt of the event they are given, never refuse an event
  that was accepted before and never change it.
\<close>

theorem receipt_roundtrip:
  assumes "parse_envelope P v = Inr e"
  shows "parse_envelope P (receipt e) = Inr e"
  using parse_valid [OF assms] by (rule valid_parses)

lemma admitted_events_are_stored:
  assumes "list_all (valid_envelope P) es" "protocol_stream P es"
  shows "es_events (offer P (map receipt es) new_event_stream) = es"
proof -
  have "follows P es (offer P (map receipt es) new_event_stream) \<and>
    es_bytes (offer P (map receipt es) new_event_stream) = presented P es"
    using assms
  proof (induction es rule: rev_induct)
    case Nil
    then show ?case using new_follows [of P] by (simp add: offer_def)
  next
    case (snoc e es)
    define s where "s = offer P (map receipt es) new_event_stream"
    have s: "follows P es s" "es_bytes s = presented P es" and ok: "admissible P es e" "valid_envelope P e"
      using snoc by (simp_all add: s_def protocol_snoc)
    obtain r s1 where app: "append_envelope P e s = (r, s1)" by (cases "append_envelope P e s")
    with append_accepts [OF s ok(1)] have r: "r = Inr ()" by simp
    have "offer P (map receipt (es @ [e])) new_event_stream = s1"
      using app valid_parses [OF ok(2)] by (simp add: offer_def s_def append_event_def)
    then show ?case using append_follows [OF s(1) app] r s(2) by (simp add: presented_snoc)
  qed
  then show ?thesis using followsD(1) by blast
qed

section \<open>Runs\<close>

definition sample_event :: "string \<Rightarrow> int \<Rightarrow> event_type \<Rightarrow> (string \<times> json) list \<Rightarrow> string option \<Rightarrow> event_envelope" where
  "sample_event i n t payload message =
     \<lparr>ev_id = i, ev_conversation = ''talk-1'', ev_turn = ''turn-1'', ev_message = message,
       ev_sequence = n, ev_type = t, ev_time = ''2026-01-02T03:04:05.678Z'', ev_payload = payload\<rparr>"

definition sample_digest :: string where
  "sample_digest = replicate 64 (CHR ''a'')"

definition sample_events :: "event_envelope list" where
  "sample_events =
     [sample_event ''event-1'' 1 CONVERSATION_STARTED [] None,
      sample_event ''event-2'' 2 TOOL_STARTED
        [(''call_id'', JStr ''call-1''), (''tool_name'', JStr ''quotes_v1''), (''tool_version'', JStr ''v1'')] None,
      sample_event ''event-3'' 3 TOOL_COMPLETED
        [(''call_id'', JStr ''call-1''), (''tool_name'', JStr ''quotes_v1''), (''status'', JStr ''SUCCEEDED''),
         (''result_sha256'', JStr sample_digest), (''evidence_count'', JInt 2)] None,
      sample_event ''event-4'' 4 ANSWER_STARTED [] None,
      sample_event ''event-5'' 5 ANSWER_DELTA [(''text'', JStr ''Gold is up'')] None,
      sample_event ''event-6'' 6 ANSWER_COMPLETED
        [(''content_sha256'', JStr sample_digest), (''evidence_ids'', JList [JStr ''e-1''])] (Some ''message-1''),
      sample_event ''event-7'' 7 CONVERSATION_COMPLETED [] None]"

lemma sample_digest_ok [simp]: "sha256_ok sample_digest"
  by (simp add: sha256_ok_def sample_digest_def list_all_iff is_digit_def)

lemmas sample_contract = event_identifier_ok_def tool_name_ok_def tool_version_ok_def positive_number_def
  full_match_def is_alnum_def is_upper_def is_lower_def is_digit_def

lemma sample_event_texts [simp]:
  "event_identifier_ok ''event-1''" "event_identifier_ok ''event-2''" "event_identifier_ok ''event-3''"
  "event_identifier_ok ''event-4''" "event_identifier_ok ''event-5''" "event_identifier_ok ''event-6''"
  "event_identifier_ok ''event-7''" "event_identifier_ok ''talk-1''" "event_identifier_ok ''turn-1''"
  "event_identifier_ok ''message-1''" "event_identifier_ok ''call-1''" "event_identifier_ok ''e-1''"
  "tool_name_ok ''quotes_v1''" "tool_version_ok ''v1''"
  by (simp_all add: sample_contract)

lemma sample_time_ok [simp]: "time_shape ''2026-01-02T03:04:05.678Z''" "calendar_time ''2026-01-02T03:04:05.678Z''"
  by code_simp+

lemma sample_events_valid: "list_all (valid_envelope sample_platform) sample_events"
  by (simp add: sample_events_def sample_event_def valid_envelope_def strict_object_def require_payload_def
    validate_tool_identity_def text_field_def strict_count_def strict_bounded_text_def evidence_ids_ok_def jget_def
    sample_platform_def utf8_length_def MAX_ASSISTANT_EVENT_PAYLOAD_BYTES_def MAX_ASSISTANT_ANSWER_DELTA_BYTES_def
    MAX_ASSISTANT_EVENTS_PER_TURN_def insert_commute)

lemma sample_events_protocol: "protocol_stream sample_platform sample_events"
  by (simp add: sample_events_def sample_event_def protocol_stream_def upt_conv_Cons admissible_def in_order_def
    tool_entry_def retrieval_entry_def opens_tool_def closes_tool_def opens_retrieval_def closes_retrieval_def
    payload_text_def jget_def progress_closed_def presented_def presentation_def utf8_length_def
    MAX_ASSISTANT_EVENTS_PER_TURN_def MAX_ASSISTANT_PRESENTATION_BYTES_def)

lemmas sample_stored = admitted_events_are_stored [OF sample_events_valid sample_events_protocol, symmetric]

theorem answer_waits_for_its_tools_witness:
  "\<exists>k. 1 < k \<and> k < 3 \<and> closes_tool (payload_text (sample_events ! 1) ''call_id'') (sample_events ! k) \<and>
    payload_text (sample_events ! k) ''tool_name'' = payload_text (sample_events ! 1) ''tool_name'' \<and>
    (\<forall>l < length sample_events. closes_tool (payload_text (sample_events ! 1) ''call_id'') (sample_events ! l) \<longrightarrow> l = k)"
  by (rule answer_waits_for_its_tools [OF sample_stored]) (simp_all add: sample_events_def sample_event_def)

theorem terminal_event_is_last_witness: "6 = length sample_events - 1"
  by (rule terminal_event_is_last [OF sample_stored]) (simp_all add: sample_events_def sample_event_def)

theorem stream_is_bounded_witness:
  "length sample_events \<le> MAX_ASSISTANT_EVENTS_PER_TURN \<and>
    map ev_sequence sample_events = map (\<lambda>i. int i + 1) [0..<length sample_events] \<and>
    distinct (map ev_id sample_events) \<and>
    list_all (\<lambda>e. ev_conversation e = ev_conversation (hd sample_events) \<and> ev_turn e = ev_turn (hd sample_events))
      sample_events \<and>
    presented sample_platform sample_events \<le> MAX_ASSISTANT_PRESENTATION_BYTES"
  by (rule stream_is_bounded [OF sample_stored])

lemma sample_tool_parses:
  "parse_envelope sample_platform (receipt (sample_events ! 1)) = Inr (sample_events ! 1)"
  by (rule valid_parses) (use sample_events_valid in \<open>simp add: sample_events_def\<close>)

theorem receipt_roundtrip_witness:
  "parse_envelope sample_platform (receipt (sample_events ! 1)) = Inr (sample_events ! 1)"
  by (rule receipt_roundtrip [OF sample_tool_parses])

text \<open>A class of reasoning that is a list raises \<open>TypeError\<close> instead of the contract error.\<close>

lemma unhashable_class_raises_type_error:
  "parse_envelope sample_platform (receipt (sample_event ''event-1'' 1 REASONING_STARTED [(''reasoning_class'', JList [])] None)) =
     Inl (OtherError ''TypeError'')"
  by code_simp

text \<open>A delta that is refused for its size has spent the budget of the ones that follow.\<close>

lemma refused_delta_spends_the_budget:
  assumes "es_phase s = ANSWERING_PHASE" "es_bytes s + 4096 = MAX_ASSISTANT_PRESENTATION_BYTES + 1"
    "ev_type e = ANSWER_DELTA" "utf8_length (payload_text e ''text'') = 4096"
    "ev_type f = ANSWER_DELTA" "utf8_length (payload_text f ''text'') = 1"
  shows "fst (advance P f s) = Inr ()"
    and "fst (advance P f (snd (advance P e s))) = Inl (ValueError ''PRESENTATION_BUDGET_EXCEEDED'')"
  using assms by (simp_all add: advance_def advance_answering_def add_presentation_bytes_def terminal_stream_def Let_def)

end
