(* ===== verification/Api_Credentials.thy ===== *)
theory Api_Credentials
  imports Scheduler_Tables Sample_Data
begin

text \<open>
  Loading the configured API credentials, \<^verbatim>\<open>configured_api_credentials\<close> of
  \<^verbatim>\<open>xauusd_news/news/scheduler/state.py\<close>. The runtime environment and the JSON parser are
  arguments: \<open>env\<close> gives the text of a variable, \<open>loads\<close> the value of a JSON text, objects with
  distinct keys, or \<open>None\<close> for a text that is not JSON.
\<close>

section \<open>Parsing the configuration\<close>

fun split_on :: "char \<Rightarrow> string \<Rightarrow> string list" where
  "split_on sep [] = [[]]"
| "split_on sep (c # cs) =
     (if c = sep then [] # split_on sep cs
      else case split_on sep cs of [] \<Rightarrow> [[c]] | w # ws \<Rightarrow> (c # w) # ws)"

type_synonym account_entry = "(string \<times> json) list"

definition legacy_entry :: "platform \<Rightarrow> string \<Rightarrow> json" where
  "legacy_entry P key =
     JObj [(''account_id'', JStr (''legacy-'' @ derived_credential_id P (strip key))),
           (''pool'', JStr ROUTINE_POOL), (''api_keys'', JList [JStr (strip key)])]"

definition configured_entries ::
    "platform \<Rightarrow> (string \<Rightarrow> string) \<Rightarrow> (string \<Rightarrow> json option) \<Rightarrow> string option \<Rightarrow> string list option \<Rightarrow>
     json list outcome" where
  "configured_entries P env loads raw_accounts legacy_keys =
     (let raw = (case raw_accounts of Some r \<Rightarrow> r | None \<Rightarrow> env ''GEMINI_API_ACCOUNTS'')
      in if strip raw \<noteq> []
         then (case loads raw of
                 None \<Rightarrow> Inl (ValueError ''GEMINI_API_ACCOUNTS is not valid JSON'')
               | Some (JList entries) \<Rightarrow> Inr entries
               | Some _ \<Rightarrow> Inl (ValueError ''GEMINI_API_ACCOUNTS must be a JSON list''))
         else
           (let keys = (case legacy_keys of
                          Some ks \<Rightarrow> ks
                        | None \<Rightarrow> split_on (CHR '';'') (env ''GEMINI_API_KEYS'') @ [env ''GEMINI_API_KEY''])
            in Inr (map (legacy_entry P) (filter (\<lambda>k. strip k \<noteq> []) keys))))"

text \<open>The first pass: every entry is an object with a non-empty list of non-empty keys.\<close>

definition normalize_entry :: "platform \<Rightarrow> json \<Rightarrow> (account_entry \<times> string list) outcome" where
  "normalize_entry P entry =
     (case entry of
        JObj e \<Rightarrow>
          (case jget e ''api_keys'' of
             JList raw \<Rightarrow>
               (let keys = map (\<lambda>k. strip (str_or_empty P k)) raw
                in if raw = [] then Inl (ValueError ''Gemini account api_keys must be a non-empty list'')
                   else if list_ex (\<lambda>k. k = []) keys
                   then Inl (ValueError ''Gemini account contains an empty API key'')
                   else Inr (e, keys))
           | _ \<Rightarrow> Inl (ValueError ''Gemini account api_keys must be a non-empty list''))
      | _ \<Rightarrow> Inl (ValueError ''each Gemini account must be an object''))"

definition normalize_entries :: "platform \<Rightarrow> json list \<Rightarrow> (account_entry \<times> string list) list outcome" where
  "normalize_entries P entries =
     fold_out (\<lambda>e acc. bind_out (normalize_entry P e) (\<lambda>n. Inr (acc @ [n]))) entries []"

section \<open>Collecting the credentials\<close>

record credential_state =
  cs_credentials :: "api_credential list"
  cs_pools :: "string \<rightharpoonup> string"
  cs_accounts :: "string \<rightharpoonup> string"
  cs_ids :: "string \<rightharpoonup> string"

text \<open>\<open>d.setdefault(k, v)\<close>: the value of the key afterwards, and the dictionary.\<close>

definition setdefault :: "('k \<rightharpoonup> 'v) \<Rightarrow> 'k \<Rightarrow> 'v \<Rightarrow> 'v \<times> ('k \<rightharpoonup> 'v)" where
  "setdefault d k v = (case d k of Some w \<Rightarrow> (w, d) | None \<Rightarrow> (v, d(k \<mapsto> v)))"

definition contains_any :: "string list \<Rightarrow> string \<Rightarrow> bool" where
  "contains_any keys identifier \<longleftrightarrow> list_ex (\<lambda>k. contains k identifier) keys"

definition credential_id_of ::
    "platform \<Rightarrow> string list \<Rightarrow> json list option \<Rightarrow> nat \<Rightarrow> string \<Rightarrow> string outcome" where
  "credential_id_of P configured ids index api_key =
     (case ids of
        None \<Rightarrow> Inr (derived_credential_id P api_key)
      | Some xs \<Rightarrow>
          (let cid = strip (str_or_empty P (xs ! index))
           in if cid = [] then Inl (ValueError ''Gemini credential_id is required'')
              else if contains_any configured cid
              then Inl (ValueError ''Gemini credential_id must not contain an API key'')
              else Inr cid))"

definition add_key ::
    "platform \<Rightarrow> string list \<Rightarrow> string \<Rightarrow> string \<Rightarrow> json list option \<Rightarrow> nat \<times> string \<Rightarrow> credential_state \<Rightarrow>
     credential_state outcome" where
  "add_key P configured account pool ids ik st =
     (let (owner, accounts) = setdefault (cs_accounts st) (snd ik) account
      in if owner \<noteq> account then Inl (ValueError ''one Gemini API key cannot belong to two accounts'')
         else bind_out (credential_id_of P configured ids (fst ik) (snd ik))
           (\<lambda>cid.
             (let (prior, id_keys) = setdefault (cs_ids st) cid (snd ik);
                  c = \<lparr>cred_account = account, cred_pool = pool, cred_key = snd ik, cred_id = cid\<rparr>
              in if prior \<noteq> snd ik then Inl (ValueError ''Gemini credential_id must be unique'')
                 else Inr (st\<lparr>cs_accounts := accounts, cs_ids := id_keys,
                   cs_credentials := (if c \<in> set (cs_credentials st) then cs_credentials st
                                      else cs_credentials st @ [c])\<rparr>))))"

definition add_entry ::
    "platform \<Rightarrow> string list \<Rightarrow> account_entry \<times> string list \<Rightarrow> credential_state \<Rightarrow> credential_state outcome" where
  "add_entry P configured entry st =
     (let e = fst entry; keys = snd entry;
          account = strip (str_or_empty P (jget e ''account_id''));
          pool = upper (strip (str_or_empty P (jget e ''pool'')));
          ids = jget e ''credential_ids''
      in if account = [] then Inl (ValueError ''Gemini account_id is required'')
         else if contains_any configured account
         then Inl (ValueError ''Gemini account_id must not contain an API key'')
         else if pool \<noteq> ROUTINE_POOL \<and> pool \<noteq> PREEMPTIBLE_POOL
         then Inl (ValueError ''Gemini account pool is not controlled'')
         else bind_out (case ids of
                          JNull \<Rightarrow> Inr None
                        | JList xs \<Rightarrow> if length xs = length keys then Inr (Some xs)
                                      else Inl (ValueError ''Gemini account credential_ids must match api_keys'')
                        | _ \<Rightarrow> Inl (ValueError ''Gemini account credential_ids must match api_keys''))
           (\<lambda>pinned.
             (let (prior, pools) = setdefault (cs_pools st) account pool
              in if prior \<noteq> pool then Inl (ValueError ''one Gemini account cannot belong to two pools'')
                 else fold_out (add_key P configured account pool pinned) (enumerate 0 keys)
                        (st\<lparr>cs_pools := pools\<rparr>))))"

definition configured_api_credentials ::
    "platform \<Rightarrow> (string \<Rightarrow> string) \<Rightarrow> (string \<Rightarrow> json option) \<Rightarrow> string option \<Rightarrow> string list option \<Rightarrow>
     api_credential list outcome" where
  "configured_api_credentials P env loads raw_accounts legacy_keys =
     bind_out (configured_entries P env loads raw_accounts legacy_keys)
       (\<lambda>entries. bind_out (normalize_entries P entries)
         (\<lambda>normalized.
            bind_out (fold_out (add_entry P (dedupe (concat (map snd normalized)))) normalized
                        \<lparr>cs_credentials = [], cs_pools = (\<lambda>_. None), cs_accounts = (\<lambda>_. None), cs_ids = (\<lambda>_. None)\<rparr>)
              (\<lambda>st. Inr (cs_credentials st))))"

section \<open>What the loader guarantees\<close>

definition credentials_ok :: "platform \<Rightarrow> string list \<Rightarrow> credential_state \<Rightarrow> bool" where
  "credentials_ok P configured st \<longleftrightarrow>
     distinct (cs_credentials st) \<and>
     (\<forall>c \<in> set (cs_credentials st).
        cs_pools st (cred_account c) = Some (cred_pool c) \<and>
        cs_accounts st (cred_key c) = Some (cred_account c) \<and>
        cs_ids st (cred_id c) = Some (cred_key c) \<and>
        (cred_pool c = ROUTINE_POOL \<or> cred_pool c = PREEMPTIBLE_POOL) \<and>
        cred_account c \<noteq> [] \<and> \<not> contains_any configured (cred_account c) \<and>
        (cred_id c = derived_credential_id P (cred_key c) \<or> \<not> contains_any configured (cred_id c)) \<and>
        cred_key c \<in> set configured)"

lemma setdefault_cases:
  assumes "setdefault d k v = (w, d')" "w = v"
  shows "d' k = Some v" "\<And>k' x. d k' = Some x \<Longrightarrow> d' k' = Some x"
  using assms by (auto simp: setdefault_def split: option.splits)

lemma credential_id_ofD:
  assumes "credential_id_of P configured ids i key = Inr cid"
  shows "cid = derived_credential_id P key \<or> \<not> contains_any configured cid"
  using assms by (auto simp: credential_id_of_def Let_def split: option.splits if_splits)

lemma add_key_ok:
  assumes "add_key P configured account pool ids ik st = Inr st'" "credentials_ok P configured st"
    "cs_pools st account = Some pool" "pool = ROUTINE_POOL \<or> pool = PREEMPTIBLE_POOL" "account \<noteq> []"
    "\<not> contains_any configured account" "snd ik \<in> set configured"
  shows "credentials_ok P configured st' \<and> cs_pools st' account = Some pool"
proof -
  obtain owner accounts where sd1: "setdefault (cs_accounts st) (snd ik) account = (owner, accounts)" by fastforce
  from assms(1) sd1 obtain cid where o: "owner = account"
    and cid: "credential_id_of P configured ids (fst ik) (snd ik) = Inr cid"
    by (auto simp: add_key_def bind_out_Inr_iff split: if_splits)
  obtain prior id_keys where sd2: "setdefault (cs_ids st) cid (snd ik) = (prior, id_keys)" by fastforce
  let ?c = "\<lparr>cred_account = account, cred_pool = pool, cred_key = snd ik, cred_id = cid\<rparr>"
  from assms(1) sd1 sd2 o cid have p: "prior = snd ik"
    and st': "st' = st\<lparr>cs_accounts := accounts, cs_ids := id_keys,
        cs_credentials := (if ?c \<in> set (cs_credentials st) then cs_credentials st else cs_credentials st @ [?c])\<rparr>"
    by (auto simp: add_key_def Let_def split: if_splits)
  note d1 = setdefault_cases [OF sd1 o]
  note d2 = setdefault_cases [OF sd2 p]
  have new: "cs_pools st' (cred_account ?c) = Some (cred_pool ?c)" "accounts (cred_key ?c) = Some (cred_account ?c)"
    "id_keys (cred_id ?c) = Some (cred_key ?c)"
    using st' assms(3) d1(1) d2(1) by simp_all
  show ?thesis
    using assms(2,3,4-7) new credential_id_ofD [OF cid] d1(2) d2(2)
    unfolding st' credentials_ok_def by auto
qed

lemma add_keys_ok:
  assumes "fold_out (add_key P configured account pool ids) iks st = Inr st'" "credentials_ok P configured st"
    "cs_pools st account = Some pool" "pool = ROUTINE_POOL \<or> pool = PREEMPTIBLE_POOL" "account \<noteq> []"
    "\<not> contains_any configured account" "snd ` set iks \<subseteq> set configured"
  shows "credentials_ok P configured st'"
proof -
  have "credentials_ok P configured st' \<and> cs_pools st' account = Some pool"
    using assms(1)
  proof (rule fold_out_invariant)
    show "credentials_ok P configured st \<and> cs_pools st account = Some pool" using assms(2,3) by simp
    show "credentials_ok P configured s' \<and> cs_pools s' account = Some pool"
      if "x \<in> set iks" "credentials_ok P configured s \<and> cs_pools s account = Some pool"
        "add_key P configured account pool ids x s = Inr s'" for x s s'
      using add_key_ok [OF that(3)] that(1,2) assms(4-7) by blast
  qed
  then show ?thesis ..
qed

lemma add_entry_ok:
  assumes "add_entry P configured entry st = Inr st'" "credentials_ok P configured st"
    "set (snd entry) \<subseteq> set configured"
  shows "credentials_ok P configured st'"
proof -
  let ?account = "strip (str_or_empty P (jget (fst entry) ''account_id''))"
  let ?pool = "upper (strip (str_or_empty P (jget (fst entry) ''pool'')))"
  obtain prior pools where sd: "setdefault (cs_pools st) ?account ?pool = (prior, pools)" by fastforce
  from assms(1) sd obtain pinned where acc: "?account \<noteq> []" "\<not> contains_any configured ?account"
    "?pool = ROUTINE_POOL \<or> ?pool = PREEMPTIBLE_POOL" "prior = ?pool"
    and f: "fold_out (add_key P configured ?account ?pool pinned) (enumerate 0 (snd entry)) (st\<lparr>cs_pools := pools\<rparr>) = Inr st'"
    by (auto simp: add_entry_def Let_def bind_out_Inr_iff split: if_splits)
  note d = setdefault_cases [OF sd acc(4)]
  have "credentials_ok P configured (st\<lparr>cs_pools := pools\<rparr>)"
    using assms(2) d(2) by (auto simp: credentials_ok_def)
  moreover have "snd ` set (enumerate 0 (snd entry)) \<subseteq> set configured"
    using assms(3) by (metis list.set_map map_snd_enumerate)
  ultimately show ?thesis using add_keys_ok [OF f] d(1) acc by simp
qed

text \<open>
  C15: credentials are isolated: an account has one pool and every configured key one account and
  every identifier one key; pools are the two controlled ones; no account identifier and no pinned
  credential identifier contains any of the configured API keys; and no credential is listed twice.
\<close>

theorem credentials_are_isolated:
  assumes "configured_api_credentials P env loads raw legacy = Inr creds"
  shows "distinct creds \<and> list_all (\<lambda>c. list_all (\<lambda>c'.
     (cred_account c \<noteq> cred_account c' \<or> cred_pool c = cred_pool c') \<and>
     (cred_key c \<noteq> cred_key c' \<or> cred_account c = cred_account c') \<and>
     (cred_id c \<noteq> cred_id c' \<or> cred_key c = cred_key c') \<and>
     \<not> contains (cred_key c') (cred_account c) \<and>
     (cred_id c = derived_credential_id P (cred_key c) \<or> \<not> contains (cred_key c') (cred_id c)) \<and>
     (cred_pool c = ROUTINE_POOL \<or> cred_pool c = PREEMPTIBLE_POOL)) creds) creds"
proof -
  from assms obtain normalized st where
    f: "fold_out (add_entry P (dedupe (concat (map snd normalized)))) normalized
        \<lparr>cs_credentials = [], cs_pools = (\<lambda>_. None), cs_accounts = (\<lambda>_. None), cs_ids = (\<lambda>_. None)\<rparr> = Inr st"
    and c: "creds = cs_credentials st"
    by (auto simp: configured_api_credentials_def bind_out_Inr_iff)
  let ?configured = "dedupe (concat (map snd normalized))"
  from f have ok: "credentials_ok P ?configured st"
  proof (rule fold_out_invariant)
    show "credentials_ok P ?configured \<lparr>cs_credentials = [], cs_pools = (\<lambda>_. None), cs_accounts = (\<lambda>_. None), cs_ids = (\<lambda>_. None)\<rparr>"
      by (simp add: credentials_ok_def)
    show "credentials_ok P ?configured s'"
      if "x \<in> set normalized" "credentials_ok P ?configured s" "add_entry P ?configured x s = Inr s'" for x s s'
      by (rule add_entry_ok [OF that(3,2)]) (use that(1) in auto)
  qed
  have keys: "\<not> contains k i" if "\<not> contains_any ?configured i" "k \<in> set ?configured" for k i
    using that unfolding contains_any_def list_ex_iff by blast
  show ?thesis
    using ok unfolding c credentials_ok_def list_all_iff
    by (metis keys option.inject)
qed

definition sample_accounts :: json where
  "sample_accounts = JList
     [JObj [(''account_id'', JStr ''alpha''), (''pool'', JStr ''routine''), (''api_keys'', JList [JStr ''K1'', JStr ''K2'']),
            (''credential_ids'', JList [JStr ''a-1'', JStr ''a-2''])],
      JObj [(''account_id'', JStr ''beta''), (''pool'', JStr ''PREEMPTIBLE''), (''api_keys'', JList [JStr '' K3 ''])]]"

theorem credentials_are_isolated_witness:
  "map cred_account (projr (configured_api_credentials sample_platform (\<lambda>_. []) (\<lambda>_. Some sample_accounts) (Some ''x'') None))
     = [''alpha'', ''alpha'', ''beta''] \<and>
   distinct (projr (configured_api_credentials sample_platform (\<lambda>_. []) (\<lambda>_. Some sample_accounts) (Some ''x'') None))"
proof -
  let ?r = "configured_api_credentials sample_platform (\<lambda>_. []) (\<lambda>_. Some sample_accounts) (Some ''x'') None"
  have run: "\<not> isl ?r" and acc: "map cred_account (projr ?r) = [''alpha'', ''alpha'', ''beta'']" by code_simp+
  from run have "?r = Inr (projr ?r)" by simp
  from credentials_are_isolated [OF this] acc show ?thesis by blast
qed

end
