(* ===== verification/Impact_Assessment.thy ===== *)
theory Impact_Assessment
  imports Event_Evidence Assistant_Events Api_Credentials
begin

text \<open>
  \<^verbatim>\<open>xauusd_news/news/annotation/impact.py\<close>: the validation of a model's impact assessment before it is
  appended, and the retrieval of the earlier reports that it is offered as candidates for the same event. An index
  recalls the candidates; the similarity, the time of receipt and the role of the report admit them.

  An annotation is the alist of its JSON object. The text of a public reason is a list of code points, because its
  replacement text lies outside the characters up to 255.
\<close>

section \<open>The public reason\<close>

text \<open>
  Of a response within the characters of the model the labelled identifiers, whose labels lie outside them, match
  nothing, and the last replacement has nothing to replace.
\<close>

definition KNOWN_REPORT :: "int list" where
  "KNOWN_REPORT = [0x7CFB, 0x7EDF, 0x4E2D, 0x5DF2, 0x6709, 0x7684, 0x4E00, 0x7BC7, 0x62A5, 0x9053]"

definition hex_code :: "int \<Rightarrow> bool" where
  "hex_code n \<longleftrightarrow> (48 \<le> n \<and> n \<le> 57) \<or> (97 \<le> n \<and> n \<le> 102) \<or> (65 \<le> n \<and> n \<le> 70)"

definition word_code :: "int \<Rightarrow> bool" where
  "word_code n \<longleftrightarrow>
     (48 \<le> n \<and> n \<le> 57) \<or> (65 \<le> n \<and> n \<le> 90) \<or> n = 95 \<or> (97 \<le> n \<and> n \<le> 122) \<or>
     n \<in> {170, 178, 179, 181, 185, 186, 188, 189, 190} \<or> (192 \<le> n \<and> n \<noteq> 215 \<and> n \<noteq> 247)"

definition lower_code :: "int \<Rightarrow> int" where
  "lower_code n = (if 65 \<le> n \<and> n \<le> 90 then n + 32 else n)"

text \<open>\<open>pattern.sub\<close>: the length of the match at a position, 0 for none, from the code before it and the rest.\<close>

fun replace_matches ::
    "(int option \<Rightarrow> int list \<Rightarrow> nat) \<Rightarrow> int list \<Rightarrow> nat \<Rightarrow> int option \<Rightarrow> int list \<Rightarrow> int list" where
  "replace_matches m new skip prev [] = []"
| "replace_matches m new skip prev (n # ns) =
     (if 0 < skip then replace_matches m new (skip - 1) (Some n) ns
      else if m prev (n # ns) = 0 then n # replace_matches m new 0 (Some n) ns
      else new @ replace_matches m new (m prev (n # ns) - 1) (Some n) ns)"

definition before_is :: "(int \<Rightarrow> bool) \<Rightarrow> int option \<Rightarrow> bool" where
  "before_is p prev = (case prev of None \<Rightarrow> False | Some n \<Rightarrow> p n)"

definition next_is :: "(int \<Rightarrow> bool) \<Rightarrow> int list \<Rightarrow> bool" where
  "next_is p ns = (case ns of [] \<Rightarrow> False | n # _ \<Rightarrow> p n)"

definition uuid_length :: "int option \<Rightarrow> int list \<Rightarrow> nat" where
  "uuid_length prev ns =
     (if \<not> before_is hex_code prev \<and> 36 \<le> length ns \<and>
         list_all (\<lambda>(i, n). if i \<in> set [8, 13, 18, 23] then n = 45 else hex_code n) (zip [0..<36] ns) \<and>
         \<not> next_is hex_code (drop 36 ns)
      then 36 else 0)"

definition REASON_FIELDS :: "string list" where
  "REASON_FIELDS = [''matched_candidate_id'', ''candidate_id'', ''annotation_id'']"

definition field_length :: "int option \<Rightarrow> int list \<Rightarrow> nat" where
  "field_length prev ns =
     (if before_is word_code prev then 0
      else case find (\<lambda>w. starts_with (map of_char w) (map lower_code ns) \<and> \<not> next_is word_code (drop (length w) ns))
             REASON_FIELDS of
        None \<Rightarrow> 0
      | Some w \<Rightarrow> length w)"

definition public_impact_reason :: "platform \<Rightarrow> json \<Rightarrow> int list" where
  "public_impact_reason P v =
     replace_matches field_length KNOWN_REPORT 0 None
       (replace_matches uuid_length KNOWN_REPORT 0 None (map of_char (strip (str_or_empty P v))))"

section \<open>The validation of a response\<close>

definition IMPACT_RESPONSE_FIELDS :: "string list" where
  "IMPACT_RESPONSE_FIELDS =
     [''impact_class'', ''event_state'', ''update_type'', ''identity_relation'', ''matched_candidate_id'',
      ''identity_anchor_zh'', ''core_fact_changes_zh'', ''identity_differences_zh'', ''context_differences_zh'',
      ''confidence'', ''reason_zh'']"

record impact_values =
  vi_class :: string
  vi_state :: string
  vi_update :: string
  vi_relation :: string
  vi_matched :: string
  vi_anchor :: string
  vi_core :: "string list"
  vi_identity :: "string list"
  vi_context :: "string list"
  vi_confidence :: real
  vi_reason :: "int list"

text \<open>What the call offers: the candidates, those of the same event, and whether the context was complete.\<close>

record offered_candidates =
  oc_ids :: "string list option"
  oc_same :: "string list option"
  oc_complete :: bool

definition controlled_value :: "json \<Rightarrow> string list \<Rightarrow> string \<Rightarrow> unit outcome" where
  "controlled_value v words msg = bind_out (in_words v words) (\<lambda>b. require b msg)"

definition comparison_items :: "platform \<Rightarrow> json \<Rightarrow> string \<Rightarrow> string list outcome" where
  "comparison_items P v label =
     (case v of
        JList xs \<Rightarrow>
          if 4 < length xs then Inl (ValueError (''Gemma '' @ label @ '' are not a bounded list''))
          else let items = map (\<lambda>x. strip (str_or_empty P x)) xs in
            if list_ex (\<lambda>s. length s < 4) items
            then Inl (ValueError (''Gemma '' @ label @ '' contain an empty explanation'')) else Inr items
      | _ \<Rightarrow> Inl (ValueError (''Gemma '' @ label @ '' are not a bounded list'')))"

definition offered :: "string list option \<Rightarrow> string \<Rightarrow> bool" where
  "offered ids x = (case ids of None \<Rightarrow> True | Some xs \<Rightarrow> x \<in> set xs)"

definition check_relation :: "offered_candidates \<Rightarrow> string \<Rightarrow> string \<Rightarrow> string \<Rightarrow> unit outcome" where
  "check_relation ofr update relation matched =
     bind_out (require (relation \<in> set IDENTITY_RELATIONS) ''Gemma identity relation is not controlled'') (\<lambda>_.
     bind_out (require (oc_complete ofr \<or> relation \<noteq> ''NEW_EPISODE'')
       ''New-episode identity requires complete candidate context'') (\<lambda>_.
     bind_out (if relation \<in> set [''SAME_EVENT'', ''SAME_EPISODE'']
       then require (matched \<noteq> [] \<and> offered (oc_ids ofr) matched) ''Gemma identity match is not an offered candidate''
       else require (matched = []) ''Gemma identity match must be empty without a prior relation'') (\<lambda>_.
     bind_out (require (update = ''DUPLICATE_REPORT'' \<longrightarrow> relation = ''SAME_EVENT'')
       ''A duplicate report must resolve to the same event'') (\<lambda>_.
     bind_out (require (relation = ''SAME_EVENT'' \<longrightarrow> offered (oc_same ofr) matched)
       ''Gemma same-event match is not a core fact candidate'') (\<lambda>_.
     bind_out (require (update = ''MATERIAL_UPDATE'' \<longrightarrow> relation = ''SAME_EPISODE'')
       ''A material update must resolve inside the same episode'') (\<lambda>_.
     require (update = ''NEW_EVENT'' \<longrightarrow> relation = ''NEW_EPISODE'') ''A new event must start a new episode''))))))"

definition check_differences ::
    "offered_candidates \<Rightarrow> string \<Rightarrow> string \<Rightarrow> string list \<Rightarrow> string list \<Rightarrow> unit outcome" where
  "check_differences ofr relation anchor core differences =
     bind_out (require (relation = ''UNRESOLVED'' \<or> 4 \<le> length anchor) ''Gemma identity anchor is empty'') (\<lambda>_.
     bind_out (require (relation = ''SAME_EVENT'' \<longrightarrow> core = [] \<and> differences = [])
       ''Same-event identity requires factual equivalence'') (\<lambda>_.
     bind_out (require (relation = ''SAME_EPISODE'' \<longrightarrow> core \<noteq> [] \<and> differences = [])
       ''Same-episode identity requires a core factual change'') (\<lambda>_.
     require (relation = ''NEW_EPISODE'' \<longrightarrow> differences \<noteq> [] \<or> oc_ids ofr = Some [])
       ''New-episode identity requires an anchor difference'')))"

text \<open>
  \<open>float(value)\<close>; the value of a text is an argument, \<open>None\<close> where \<open>float\<close> raises. An integer from
  \<open>2 ^ 1024\<close> on overflows.
\<close>

definition json_float :: "platform \<Rightarrow> (string \<Rightarrow> pyfloat option) \<Rightarrow> json \<Rightarrow> pyfloat outcome" where
  "json_float P float_text v =
     (case v of
        JFloat f \<Rightarrow> Inr f
      | JInt i \<Rightarrow> if \<bar>i\<bar> < 2 ^ 1024 then Inr (Finite (fl P (of_int i))) else Inl (OtherError ''OverflowError'')
      | JBool b \<Rightarrow> Inr (Finite (if b then 1 else 0))
      | JStr s \<Rightarrow> (case float_text s of None \<Rightarrow> Inl (ValueError ''could not convert string to float'') | Some f \<Rightarrow> Inr f)
      | _ \<Rightarrow> Inl (OtherError ''TypeError''))"

definition unit_confidence :: "pyfloat \<Rightarrow> real outcome" where
  "unit_confidence f =
     (case f of
        Finite x \<Rightarrow> if 0 \<le> x \<and> x \<le> 1 then Inr x else Inl (ValueError ''Gemma impact confidence is outside [0, 1]'')
      | _ \<Rightarrow> Inl (ValueError ''Gemma impact confidence is outside [0, 1]''))"

definition validate_impact_assessment ::
    "platform \<Rightarrow> (string \<Rightarrow> pyfloat option) \<Rightarrow> offered_candidates \<Rightarrow> (string \<times> json) list \<Rightarrow> impact_values outcome" where
  "validate_impact_assessment P float_text ofr d =
     bind_out (require (set (map fst d) = set IMPACT_RESPONSE_FIELDS)
       ''Gemma impact response fields do not match frozen schema'') (\<lambda>_.
     bind_out (controlled_value (jget d ''impact_class'') IMPACT_CLASSES ''Gemma impact class is not controlled'') (\<lambda>_.
     bind_out (controlled_value (jget d ''event_state'') EVENT_STATES ''Gemma event state is not controlled'') (\<lambda>_.
     bind_out (controlled_value (jget d ''update_type'') UPDATE_TYPES ''Gemma update type is not controlled'') (\<lambda>_.
       let update = py_str P (jget d ''update_type''); relation = py_str P (jget d ''identity_relation'');
           matched = strip (str_or_empty P (jget d ''matched_candidate_id''));
           anchor = strip (str_or_empty P (jget d ''identity_anchor_zh'')) in
     bind_out (check_relation ofr update relation matched) (\<lambda>_.
     bind_out (comparison_items P (jget d ''core_fact_changes_zh'') ''core facts'') (\<lambda>core.
     bind_out (comparison_items P (jget d ''identity_differences_zh'') ''identity differences'') (\<lambda>differences.
     bind_out (comparison_items P (jget d ''context_differences_zh'') ''context differences'') (\<lambda>ctx.
     bind_out (check_differences ofr relation anchor core differences) (\<lambda>_.
     bind_out (bind_out (json_float P float_text (jget d ''confidence'')) unit_confidence) (\<lambda>confidence.
     bind_out (require (4 \<le> length (public_impact_reason P (jget d ''reason_zh''))) ''Gemma impact reason is empty'') (\<lambda>_.
       Inr \<lparr>vi_class = py_str P (jget d ''impact_class''), vi_state = py_str P (jget d ''event_state''),
            vi_update = update, vi_relation = relation, vi_matched = matched, vi_anchor = anchor, vi_core = core,
            vi_identity = differences, vi_context = ctx, vi_confidence = confidence,
            vi_reason = public_impact_reason P (jget d ''reason_zh'')\<rparr>)))))))))))"

section \<open>The similarity of two reports\<close>

text \<open>\<open>{**annotation, "cluster_id": cluster}\<close>.\<close>

definition with_cluster :: "(string \<times> json) list \<Rightarrow> string \<Rightarrow> (string \<times> json) list" where
  "with_cluster d c = (''cluster_id'', JStr c) # filter (\<lambda>e. fst e \<noteq> ''cluster_id'') d"

definition multiword_identity_signature :: "string \<Rightarrow> string" where
  "multiword_identity_signature v =
     (let parts = split_on (CHR ''_'') (canonical_id v) in if 3 \<le> length parts then join ''_'' (sort parts) else [])"

definition field_id :: "platform \<Rightarrow> (string \<times> json) list \<Rightarrow> string \<Rightarrow> string" where
  "field_id P d name = json_id P (jget d name)"

definition cluster_text :: "platform \<Rightarrow> (string \<times> json) list \<Rightarrow> string" where
  "cluster_text P d = strip (str_or_empty P (jget d ''cluster_id''))"

text \<open>Two texts agree when they are the same and not empty.\<close>

definition agrees :: "string \<Rightarrow> string \<Rightarrow> bool" where
  "agrees a b \<longleftrightarrow> a \<noteq> [] \<and> a = b"

definition related_object :: "string \<Rightarrow> string \<Rightarrow> bool" where
  "related_object a b =
     (let (shorter, longer) = (if length a \<le> length b then (a, b) else (b, a)) in
      2 \<le> length (split_on (CHR ''_'') shorter) \<and>
      (starts_with (shorter @ ''_'') longer \<or> ends_with (''_'' @ shorter) longer))"

definition prior_identity_similarity :: "platform \<Rightarrow> (string \<times> json) list \<Rightarrow> (string \<times> json) list \<Rightarrow> real" where
  "prior_identity_similarity P cur prior =
     (let material = field_id P cur ''material_event_key''; prior_material = field_id P prior ''material_event_key'';
          episode = field_id P cur ''episode_key''; prior_episode = field_id P prior ''episode_key'';
          object = field_id P cur ''canonical_object_id''; prior_object = field_id P prior ''canonical_object_id'' in
      if agrees (cluster_text P cur) (cluster_text P prior) then 1
      else if agrees material prior_material \<or> agrees episode prior_episode then 1
      else if agrees (multiword_identity_signature material) (multiword_identity_signature prior_material) \<or>
              agrees (multiword_identity_signature episode) (multiword_identity_signature prior_episode) then 1
      else if \<not> agrees (field_id P cur ''canonical_actor_id'') (field_id P prior ''canonical_actor_id'') \<or>
              object = [] \<or> prior_object = [] then 0
      else if object = prior_object then 3 / 4
      else if agrees (multiword_identity_signature object) (multiword_identity_signature prior_object) then 3 / 4
      else if related_object object prior_object then 1 / 2 else 0)"

section \<open>The recall of the candidates\<close>

record prior_candidate =
  pc_key :: source_key
  pc_headline :: string
  pc_first_seen :: instant
  pc_cluster :: string
  pc_id :: string
  pc_hash :: string
  pc_annotation :: json
  pc_summary :: json
  pc_class :: "string option"
  pc_update :: "string option"
  pc_episode :: "string option"
  pc_event :: "string option"

type_synonym lookup_key = "string \<times> string"

definition signed_keys :: "platform \<Rightarrow> (string \<times> json) list \<Rightarrow> string \<Rightarrow> lookup_key list" where
  "signed_keys P d name =
     (let v = field_id P d name; signature = multiword_identity_signature v in
      (if v = [] then [] else [(name, v)]) @ (if signature = [] then [] else [(name @ ''_tokens'', signature)]))"

definition identity_lookup_keys :: "platform \<Rightarrow> (string \<times> json) list \<Rightarrow> lookup_key list" where
  "identity_lookup_keys P d =
     (let cluster = cluster_text P d; actor = field_id P d ''canonical_actor_id'' in
      (if cluster = [] then [] else [(''cluster'', cluster)]) @
      signed_keys P d ''material_event_key'' @ signed_keys P d ''episode_key'' @
      (if actor = [] then [] else [(''actor'', actor)]))"

text \<open>The index, an alist as a Python dictionary keeps its insertion order; \<open>setdefault(key, []).append(prior)\<close>.\<close>

type_synonym candidate_index = "(lookup_key \<times> prior_candidate list) list"

definition index_under :: "prior_candidate \<Rightarrow> lookup_key \<Rightarrow> candidate_index \<Rightarrow> candidate_index" where
  "index_under p k = sql_upsert fst (\<lambda>(k', rows). (k', rows @ [p])) (k, [p])"

definition prior_identity :: "prior_candidate \<Rightarrow> (string \<times> json) list outcome" where
  "prior_identity p =
     (case pc_annotation p of
        JObj d \<Rightarrow> Inr (with_cluster d (pc_cluster p))
      | _ \<Rightarrow> Inl (ValueError ''identity candidate annotation is missing''))"

definition index_prior :: "platform \<Rightarrow> prior_candidate \<Rightarrow> candidate_index \<Rightarrow> candidate_index outcome" where
  "index_prior P p idx = bind_out (prior_identity p) (\<lambda>d. Inr (fold (index_under p) (identity_lookup_keys P d) idx))"

definition build_identity_candidate_index :: "platform \<Rightarrow> prior_candidate list \<Rightarrow> candidate_index outcome" where
  "build_identity_candidate_index P rows = fold_out (index_prior P) rows []"

definition index_rows :: "candidate_index \<Rightarrow> lookup_key \<Rightarrow> prior_candidate list" where
  "index_rows idx k = (case map_of idx k of None \<Rightarrow> [] | Some rows \<Rightarrow> rows)"

text \<open>\<open>recalled\<close>: a dictionary by the candidate's identifier.\<close>

definition recalled_rows :: "platform \<Rightarrow> (string \<times> json) list \<Rightarrow> candidate_index \<Rightarrow> prior_candidate list" where
  "recalled_rows P me idx =
     fold (\<lambda>p. sql_upsert pc_id (\<lambda>_. p) p) (concat (map (index_rows idx) (identity_lookup_keys P me))) []"

section \<open>The admission of a candidate\<close>

record current_report =
  cr_key :: source_key
  cr_first_seen :: instant
  cr_cluster :: string
  cr_annotation :: json

record identity_candidate =
  ic_prior :: prior_candidate
  ic_similarity :: real
  ic_material :: json
  ic_actor :: json
  ic_object :: json
  ic_claim :: "(string \<times> json) list"
  ic_eligible :: bool

definition core_fact :: "platform \<Rightarrow> (string \<times> json) list \<Rightarrow> bool" where
  "core_fact P d \<longleftrightarrow>
     str_or_empty P (jget d ''record_kind'') \<in> set ACTIONABLE_RECORD_KINDS \<and>
     str_or_empty P (jget d ''evidence_role'') \<in> set [''CORE_CLAIM'', ''EVIDENCE_DOCUMENT'']"

definition CLAIM_FIELDS :: "string list" where
  "CLAIM_FIELDS =
     [''record_kind'', ''evidence_role'', ''actor'', ''action'', ''object'', ''location'', ''event_time'',
      ''material_event_key'', ''episode_key'', ''canonical_actor_id'', ''canonical_object_id'', ''material_change'']"

text \<open>
  The first three excerpts; a text in their place is sliced to its first characters, and a number or an object has no
  slice. (The slice of an object raises \<open>KeyError\<close> from Python 3.12 on.)
\<close>

definition excerpts :: "platform \<Rightarrow> json \<Rightarrow> json list outcome" where
  "excerpts P v =
     (if \<not> truthy v then Inr []
      else case v of
        JList xs \<Rightarrow> Inr (map (\<lambda>x. JStr (take 240 (py_str P x))) (take 3 xs))
      | JStr s \<Rightarrow> Inr (map (\<lambda>c. JStr [c]) (take 3 s))
      | _ \<Rightarrow> Inl (OtherError ''TypeError''))"

definition claim_snapshot :: "platform \<Rightarrow> (string \<times> json) list \<Rightarrow> (string \<times> json) list outcome" where
  "claim_snapshot P d =
     bind_out (excerpts P (jget d ''supporting_evidence'')) (\<lambda>xs.
       Inr (map (\<lambda>k. (k, jget d k)) CLAIM_FIELDS @ [(''supporting_evidence'', JList xs)]))"

definition candidate_of ::
    "platform \<Rightarrow> prior_candidate \<Rightarrow> real \<Rightarrow> (string \<times> json) list \<Rightarrow> (string \<times> json) list \<Rightarrow> identity_candidate" where
  "candidate_of P p similarity d claim =
     \<lparr>ic_prior = p\<lparr>pc_annotation := JNull\<rparr>, ic_similarity = similarity,
      ic_material = jget d ''material_event_key'', ic_actor = jget d ''canonical_actor_id'',
      ic_object = jget d ''canonical_object_id'', ic_claim = claim,
      ic_eligible = (core_fact P d \<and> (\<forall>u \<in> set [''COMMENTARY'', ''HISTORICAL_CONTEXT'']. pc_update p \<noteq> Some u))\<rparr>"

text \<open>A candidate without its annotation is represented with the value \<open>JNull\<close> for it. The similarity has two decimals at most.\<close>

definition materialize_identity_candidate ::
    "platform \<Rightarrow> current_report \<Rightarrow> prior_candidate \<Rightarrow> real \<Rightarrow> identity_candidate option outcome" where
  "materialize_identity_candidate P cur p similarity =
     (if cr_first_seen cur < pc_first_seen p \<or> pc_key p = cr_key cur then Inr None
      else case (cr_annotation cur, pc_annotation p) of
        (JObj me, JObj d) \<Rightarrow>
          bind_out (claim_snapshot P d) (\<lambda>claim.
            let c = candidate_of P p similarity d claim in
            Inr (if core_fact P me \<and> \<not> ic_eligible c then None else Some c))
      | _ \<Rightarrow> Inl (ValueError ''identity candidate annotation is missing''))"

definition admit_candidate ::
    "platform \<Rightarrow> current_report \<Rightarrow> (string \<times> json) list \<Rightarrow> prior_candidate \<Rightarrow> identity_candidate option outcome" where
  "admit_candidate P cur me p =
     (case pc_annotation p of
        JObj d \<Rightarrow>
          let similarity = prior_identity_similarity P me (with_cluster d (pc_cluster p)) in
          if similarity \<le> 1 / 4 then Inr None else materialize_identity_candidate P cur p similarity
      | _ \<Rightarrow> Inl (OtherError ''TypeError''))"

fun admitted :: "platform \<Rightarrow> current_report \<Rightarrow> (string \<times> json) list \<Rightarrow> prior_candidate list \<Rightarrow> identity_candidate list outcome" where
  "admitted P cur me [] = Inr []"
| "admitted P cur me (p # ps) =
     bind_out (admit_candidate P cur me p) (\<lambda>c. bind_out (admitted P cur me ps) (\<lambda>cs.
       Inr (case c of None \<Rightarrow> cs | Some x \<Rightarrow> x # cs)))"

text \<open>The descending order keeps that of equal candidates, as the ascending order of the opposite does.\<close>

definition candidate_rank :: "identity_candidate \<Rightarrow> bool \<times> real \<times> instant" where
  "candidate_rank c = (\<not> ic_eligible c, - ic_similarity c, - pc_first_seen (ic_prior c))"

definition best_candidates :: "int \<Rightarrow> identity_candidate list \<Rightarrow> identity_candidate list" where
  "best_candidates limit cs = take (nat limit) (sort_key candidate_rank cs)"

definition retrieve_prior_event_context ::
    "platform \<Rightarrow> current_report \<Rightarrow> candidate_index \<Rightarrow> int \<Rightarrow> identity_candidate list outcome" where
  "retrieve_prior_event_context P cur idx limit =
     bind_out (require (1 \<le> limit \<and> limit \<le> 20) ''identity candidate result bound is invalid'') (\<lambda>_.
       case cr_annotation cur of
         JObj d \<Rightarrow>
           let me = with_cluster d (cr_cluster cur) in
           bind_out (admitted P cur me (recalled_rows P me idx)) (\<lambda>cs. Inr (best_candidates limit cs))
       | _ \<Rightarrow> Inl (ValueError ''current identity annotation is missing''))"

section \<open>The universe of the candidates\<close>

definition IDENTITY_CANDIDATE_UNIVERSE_LIMIT :: int where "IDENTITY_CANDIDATE_UNIVERSE_LIMIT = 10000"

definition candidate_assessment :: "string \<Rightarrow> maintenance_db \<Rightarrow> annotation_row \<Rightarrow> impact_assessment option" where
  "candidate_assessment prompt m a =
     sql_first (\<lambda>i. (ia_prompt i \<noteq> prompt, - ia_assessed i))
       (\<lambda>i. ia_annotation i = nn_id a \<and> ia_model i = IMPACT_MODEL \<and> ia_prompt i \<in> set [prompt, HANDOVER_IMPACT_PROMPT_VERSION])
       (mb_assessments m)"

definition selected_resolution :: "string \<Rightarrow> maintenance_db \<Rightarrow> annotation_row \<Rightarrow> identity_resolution option" where
  "selected_resolution prompt m a =
     find (\<lambda>r. ix_annotation r = nn_id a \<and> ix_model r = IMPACT_MODEL \<and> ix_prompt r = prompt) (mb_resolutions m)"

definition candidate_row :: "(string \<Rightarrow> json) \<Rightarrow> string \<Rightarrow> maintenance_db \<Rightarrow> revision \<Rightarrow> annotation_row \<Rightarrow> prior_candidate" where
  "candidate_row json_of prompt m n a =
     \<lparr>pc_key = key_of n, pc_headline = vn_headline n, pc_first_seen = vn_first_seen n, pc_cluster = vn_cluster n,
      pc_id = nn_id a, pc_hash = nn_hash a, pc_annotation = json_of (nn_id a),
      pc_summary = (case json_of (nn_id a) of JObj d \<Rightarrow> jget d ''summary_zh'' | _ \<Rightarrow> JNull),
      pc_class = map_option ia_class (candidate_assessment prompt m a),
      pc_update = map_option ia_update_type (candidate_assessment prompt m a),
      pc_episode = map_option ix_episode (selected_resolution prompt m a),
      pc_event = map_option ix_event (selected_resolution prompt m a)\<rparr>"

text \<open>The join of the revisions with their usable annotations; the JSON of an annotation is an argument.\<close>

definition annotated_pairs :: "maintenance_db \<Rightarrow> (revision \<times> annotation_row) list" where
  "annotated_pairs m =
     filter (\<lambda>(n, a). nn_key a = key_of n \<and> nn_hash a = vn_hash n \<and> usable_annotation a)
       (concat (map (\<lambda>n. map (Pair n) (ld_annotations (mb_ledger m))) (ld_revisions (mb_ledger m))))"

definition load_identity_candidate_universe ::
    "(string \<Rightarrow> json) \<Rightarrow> instant \<Rightarrow> string \<Rightarrow> string \<Rightarrow> int \<Rightarrow> maintenance_db \<Rightarrow> prior_candidate list outcome" where
  "load_identity_candidate_universe json_of max_first_seen annotation_prompt impact_prompt limit m =
     bind_out (require (1 \<le> limit \<and> limit \<le> IDENTITY_CANDIDATE_UNIVERSE_LIMIT)
       ''identity candidate universe bound is invalid'') (\<lambda>_.
       Inr (map (\<lambda>(n, a). candidate_row json_of impact_prompt m n a)
         (take (nat limit) (sort_key (\<lambda>(n, a). - vn_first_seen n)
           (filter (\<lambda>(n, a). nn_prompt a = annotation_prompt \<and> vn_first_seen n \<le> max_first_seen) (annotated_pairs m))))))"

section \<open>What the index recalls\<close>

text \<open>The reference: every prior row is considered.\<close>

definition scan_prior_event_context ::
    "platform \<Rightarrow> current_report \<Rightarrow> prior_candidate list \<Rightarrow> int \<Rightarrow> identity_candidate list outcome" where
  "scan_prior_event_context P cur rows limit =
     bind_out (require (1 \<le> limit \<and> limit \<le> 20) ''identity candidate result bound is invalid'') (\<lambda>_.
       case cr_annotation cur of
         JObj d \<Rightarrow> bind_out (admitted P cur (with_cluster d (cr_cluster cur)) rows) (\<lambda>cs. Inr (best_candidates limit cs))
       | _ \<Rightarrow> Inl (ValueError ''current identity annotation is missing''))"

lemma map_of_append_row:
  "map_of (map (\<lambda>r. if fst r = k then (\<lambda>(k', rows). (k', rows @ [p])) r else r) idx) k' =
     (if k' = k then map_option (\<lambda>rows. rows @ [p]) (map_of idx k') else map_of idx k')"
  by (induction idx) (auto split: prod.splits)

lemma index_rows_under: "index_rows (index_under p k idx) k' = index_rows idx k' @ (if k' = k then [p] else [])"
proof (cases "k \<in> fst ` set idx")
  case True
  then have found: "map_of idx k \<noteq> None" by (simp add: map_of_eq_None_iff)
  have "map_of (index_under p k idx) k' =
      (if k' = k then map_option (\<lambda>rows. rows @ [p]) (map_of idx k') else map_of idx k')"
    using True by (simp add: index_under_def sql_upsert_def sql_update_def map_of_append_row)
  then show ?thesis using found by (cases "k' = k") (auto simp: index_rows_def)
next
  case False
  then have missing: "map_of idx k = None" by (simp add: map_of_eq_None_iff)
  have "index_under p k idx = idx @ [(k, [p])]" using False by (simp add: index_under_def sql_upsert_def)
  then show ?thesis using missing by (cases "k' = k") (simp_all add: index_rows_def map_add_def split: option.split)
qed

lemma index_rows_fold:
  "set (index_rows (fold (index_under p) ks idx) k) = set (index_rows idx k) \<union> (if k \<in> set ks then {p} else {})"
proof (induction ks arbitrary: idx)
  case Nil
  show ?case by simp
next
  case (Cons k' ks)
  have "set (index_rows (fold (index_under p) (k' # ks) idx) k) =
      set (index_rows (index_under p k' idx) k) \<union> (if k \<in> set ks then {p} else {})"
    using Cons.IH [of "index_under p k' idx"] by simp
  then show ?case by (cases "k = k'") (simp_all add: index_rows_under)
qed

definition prior_keys :: "platform \<Rightarrow> prior_candidate \<Rightarrow> lookup_key set" where
  "prior_keys P p = (case prior_identity p of Inl _ \<Rightarrow> {} | Inr d \<Rightarrow> set (identity_lookup_keys P d))"

lemma indexed_rows:
  "fold_out (index_prior P) rows idx = Inr idx' \<Longrightarrow>
     set (index_rows idx' k) = set (index_rows idx k) \<union> {p \<in> set rows. k \<in> prior_keys P p} \<and>
     (\<forall>p \<in> set rows. \<exists>d. pc_annotation p = JObj d)"
proof (induction rows arbitrary: idx)
  case Nil
  then show ?case by simp
next
  case (Cons p ps)
  from Cons.prems obtain idx1 where one: "index_prior P p idx = Inr idx1" and all: "fold_out (index_prior P) ps idx1 = Inr idx'"
    by (auto simp: bind_out_Inr_iff)
  from one obtain d where d: "prior_identity p = Inr d" and idx1: "idx1 = fold (index_under p) (identity_lookup_keys P d) idx"
    by (auto simp: bind_out_Inr_iff index_prior_def)
  have rest: "fold_out (index_prior P) ps (fold (index_under p) (identity_lookup_keys P d) idx) = Inr idx'"
    using all idx1 by simp
  from d have "\<exists>e. pc_annotation p = JObj e" by (auto simp: prior_identity_def split: json.splits)
  moreover have "prior_keys P p = set (identity_lookup_keys P d)" using d by (simp add: prior_keys_def)
  ultimately show ?case using Cons.IH [OF rest] by (auto simp: index_rows_fold)
qed

lemma upsert_rows:
  "\<lbrakk>distinct acc; inj_on pc_id (set acc \<union> set xs)\<rbrakk> \<Longrightarrow>
     distinct (fold (\<lambda>p. sql_upsert pc_id (\<lambda>_. p) p) xs acc) \<and>
     set (fold (\<lambda>p. sql_upsert pc_id (\<lambda>_. p) p) xs acc) = set acc \<union> set xs"
proof (induction xs arbitrary: acc)
  case Nil
  then show ?case by simp
next
  case (Cons p xs)
  have step: "sql_upsert pc_id (\<lambda>_. p) p acc = (if p \<in> set acc then acc else acc @ [p])"
  proof (cases "pc_id p \<in> pc_id ` set acc")
    case True
    then obtain q where q: "q \<in> set acc" "pc_id q = pc_id p" by auto
    with Cons.prems(2) have "q = p" by (auto simp: inj_on_def)
    moreover have "sql_update (\<lambda>r. pc_id r = pc_id p) (\<lambda>_. p) acc = acc"
      using Cons.prems(2) by (auto simp: sql_update_def inj_on_def intro!: map_idI)
    ultimately show ?thesis using True q by (simp add: sql_upsert_def)
  next
    case False
    then show ?thesis by (auto simp: sql_upsert_def)
  qed
  let ?acc = "if p \<in> set acc then acc else acc @ [p]"
  have "distinct ?acc" "set ?acc \<union> set xs = set acc \<union> set (p # xs)" using Cons.prems(1) by auto
  with Cons.IH [of ?acc] Cons.prems(2) step show ?case by simp
qed

text \<open>Whatever similarity is above zero rests on a key that both reports have.\<close>

lemma signed_keys_shared:
  assumes "agrees (field_id P a name) (field_id P b name) \<or>
     agrees (multiword_identity_signature (field_id P a name)) (multiword_identity_signature (field_id P b name))"
  shows "set (signed_keys P a name) \<inter> set (signed_keys P b name) \<noteq> {}"
  using assms by (auto simp: signed_keys_def Let_def agrees_def)

lemma similar_shares_key:
  assumes "0 < prior_identity_similarity P a b"
  shows "set (identity_lookup_keys P a) \<inter> set (identity_lookup_keys P b) \<noteq> {}"
proof -
  consider "agrees (cluster_text P a) (cluster_text P b)"
    | name where "name \<in> {''material_event_key'', ''episode_key''}"
        "agrees (field_id P a name) (field_id P b name) \<or>
         agrees (multiword_identity_signature (field_id P a name)) (multiword_identity_signature (field_id P b name))"
    | "agrees (field_id P a ''canonical_actor_id'') (field_id P b ''canonical_actor_id'')"
    using assms unfolding prior_identity_similarity_def Let_def by (auto split: if_splits)
  then show ?thesis
  proof cases
    case 1
    then show ?thesis by (auto simp: identity_lookup_keys_def Let_def agrees_def)
  next
    case 2
    with signed_keys_shared [OF 2(2)] show ?thesis by (auto simp: identity_lookup_keys_def Let_def)
  next
    case 3
    then show ?thesis by (auto simp: identity_lookup_keys_def Let_def agrees_def)
  qed
qed

lemma recalled_are_the_similar:
  assumes "build_identity_candidate_index P rows = Inr idx" "inj_on pc_id (set rows)"
  shows "distinct (recalled_rows P me idx) \<and>
    set (recalled_rows P me idx) = {p \<in> set rows. prior_keys P p \<inter> set (identity_lookup_keys P me) \<noteq> {}}"
proof -
  let ?xs = "concat (map (index_rows idx) (identity_lookup_keys P me))"
  have "set (index_rows idx k) = {p \<in> set rows. k \<in> prior_keys P p}" for k
    using indexed_rows [of P rows "[]" idx k] assms(1)
    by (simp add: build_identity_candidate_index_def index_rows_def)
  then have xs: "set ?xs = {p \<in> set rows. prior_keys P p \<inter> set (identity_lookup_keys P me) \<noteq> {}}" by auto
  then have "inj_on pc_id (set [] \<union> set ?xs)" using assms(2) by (auto intro: inj_on_subset)
  with upsert_rows [of "[]" ?xs] xs show ?thesis by (simp add: recalled_rows_def)
qed

section \<open>What is admitted\<close>

definition admission :: "platform \<Rightarrow> current_report \<Rightarrow> (string \<times> json) list \<Rightarrow> prior_candidate \<Rightarrow> identity_candidate option" where
  "admission P cur me p = (case admit_candidate P cur me p of Inl _ \<Rightarrow> None | Inr c \<Rightarrow> c)"

definition inadmissible :: "platform \<Rightarrow> current_report \<Rightarrow> (string \<times> json) list \<Rightarrow> prior_candidate \<Rightarrow> bool" where
  "inadmissible P cur me p \<longleftrightarrow> admit_candidate P cur me p = Inl (OtherError ''TypeError'')"

lemma admit_cases:
  assumes "cr_annotation cur = JObj d"
  shows "inadmissible P cur me p \<or> admit_candidate P cur me p = Inr (admission P cur me p)"
proof -
  have claim: "claim_snapshot P e = Inl (OtherError ''TypeError'') \<or> (\<exists>c. claim_snapshot P e = Inr c)" for e
    by (auto simp: claim_snapshot_def excerpts_def split: json.splits)
  show ?thesis
  proof (cases "pc_annotation p")
    case (JObj e)
    with claim [of e] show ?thesis
      by (auto simp: inadmissible_def admission_def admit_candidate_def materialize_identity_candidate_def Let_def assms)
  qed (simp_all add: inadmissible_def admit_candidate_def)
qed

lemma admitted_all:
  assumes "cr_annotation cur = JObj d"
  shows "admitted P cur me ps =
    (if list_ex (inadmissible P cur me) ps then Inl (OtherError ''TypeError'')
     else Inr (List.map_filter (admission P cur me) ps))"
proof (induction ps)
  case Nil
  show ?case by (simp add: List.map_filter_def)
next
  case (Cons p ps)
  from admit_cases [OF assms, of P me p] show ?case
  proof
    assume "inadmissible P cur me p"
    then show ?thesis by (simp add: inadmissible_def)
  next
    assume a: "admit_candidate P cur me p = Inr (admission P cur me p)"
    then have "\<not> inadmissible P cur me p" by (simp add: inadmissible_def)
    with a Cons.IH show ?thesis by (simp add: List.map_filter_simps split: option.split)
  qed
qed

lemma only_similar_matter:
  assumes "pc_annotation p = JObj e" "prior_keys P p \<inter> set (identity_lookup_keys P me) = {}"
  shows "admit_candidate P cur me p = Inr None"
proof -
  have "\<not> 0 < prior_identity_similarity P me (with_cluster e (pc_cluster p))"
    using similar_shares_key assms by (fastforce simp: prior_keys_def prior_identity_def)
  then show ?thesis using assms(1) by (simp add: admit_candidate_def)
qed

lemma mset_map_filter_relevant:
  assumes "distinct xs" "distinct ys" "set xs = {y \<in> set ys. R y}" "\<And>y. y \<in> set ys \<Longrightarrow> \<not> R y \<Longrightarrow> f y = None"
  shows "mset (List.map_filter f xs) = mset (List.map_filter f ys)"
proof -
  have "mset xs = mset (filter R ys)"
    using assms(1-3) set_eq_iff_mset_eq_distinct [of xs "filter R ys"] by simp
  moreover have "(R y \<and> f y \<noteq> None) = (f y \<noteq> None)" if "y \<in> set ys" for y
    using that assms(4) [of y] by (cases "R y") simp_all
  then have "filter (\<lambda>y. f y \<noteq> None) (filter R ys) = filter (\<lambda>y. f y \<noteq> None) ys"
    by (simp only: filter_filter cong: filter_cong)
  ultimately show ?thesis
    unfolding List.map_filter_def comp_def
    by (metis (no_types, lifting) mset_filter mset_map)
qed

lemma rank_of_best: "map candidate_rank (best_candidates limit cs) = take (nat limit) (sort (map candidate_rank cs))"
proof -
  have "map candidate_rank (sort_key candidate_rank cs) = sort (map candidate_rank cs)"
    by (rule properties_for_sort [symmetric]) simp_all
  then show ?thesis by (simp add: best_candidates_def take_map [symmetric])
qed

lemma best_candidates_facts:
  "length (best_candidates limit cs) \<le> nat limit" "set (best_candidates limit cs) \<subseteq> set cs"
  "sorted (map candidate_rank (best_candidates limit cs))"
proof -
  show "length (best_candidates limit cs) \<le> nat limit" by (simp add: best_candidates_def)
  show "set (best_candidates limit cs) \<subseteq> set cs"
    using set_take_subset [of "nat limit" "sort_key candidate_rank cs"] by (simp add: best_candidates_def)
  show "sorted (map candidate_rank (best_candidates limit cs))"
    by (simp add: rank_of_best sorted_wrt_take)
qed

lemma admission_Some:
  assumes "admission P cur me p = Some c"
  shows "ic_prior c = p\<lparr>pc_annotation := JNull\<rparr> \<and> pc_first_seen p \<le> cr_first_seen cur \<and> pc_key p \<noteq> cr_key cur \<and>
    1 / 4 < ic_similarity c"
  using assms
  by (auto simp: admission_def admit_candidate_def materialize_identity_candidate_def candidate_of_def Let_def bind_out_def
      split: sum.splits json.splits if_splits)

text \<open>The candidates of a report were received before it or with it, are other reports, and are the best ones.\<close>

lemma retrieved_context:
  assumes "retrieve_prior_event_context P cur idx limit = Inr cs"
  shows "length cs \<le> nat limit" "limit \<le> 20" "sorted (map candidate_rank cs)"
    "c \<in> set cs \<Longrightarrow> pc_first_seen (ic_prior c) \<le> cr_first_seen cur \<and> pc_key (ic_prior c) \<noteq> cr_key cur"
proof -
  from assms obtain d xs where d: "cr_annotation cur = JObj d" and lim: "limit \<le> 20"
    and xs: "admitted P cur (with_cluster d (cr_cluster cur)) (recalled_rows P (with_cluster d (cr_cluster cur)) idx) = Inr xs"
    and cs: "cs = best_candidates limit xs"
    by (auto simp: retrieve_prior_event_context_def bind_out_Inr_iff Let_def split: json.splits)
  show "length cs \<le> nat limit" "sorted (map candidate_rank cs)" using cs best_candidates_facts by auto
  show "limit \<le> 20" by (rule lim)
  assume "c \<in> set cs"
  then have "c \<in> set xs" using cs best_candidates_facts(2) by blast
  then obtain p where "admission P cur (with_cluster d (cr_cluster cur)) p = Some c"
    using xs by (auto simp: admitted_all [OF d] List.map_filter_def split: if_splits)
  from admission_Some [OF this] show "pc_first_seen (ic_prior c) \<le> cr_first_seen cur \<and> pc_key (ic_prior c) \<noteq> cr_key cur"
    by simp
qed

text \<open>
  C34: The index only recalls: for every report, the context that it returns is that of a scan of all the prior rows,
  with the same error or with candidates of the same rank, similarity and time at every place.
\<close>

theorem index_recalls_every_candidate:
  assumes "build_identity_candidate_index P rows = Inr idx" "distinct (map pc_id rows)"
  shows "map_sum id (map candidate_rank) (retrieve_prior_event_context P cur idx limit) =
    map_sum id (map candidate_rank) (scan_prior_event_context P cur rows limit)"
proof (cases "cr_annotation cur")
  case (JObj d)
  let ?me = "with_cluster d (cr_cluster cur)"
  have rec: "distinct (recalled_rows P ?me idx)"
    "set (recalled_rows P ?me idx) = {p \<in> set rows. prior_keys P p \<inter> set (identity_lookup_keys P ?me) \<noteq> {}}"
    using recalled_are_the_similar [OF assms(1)] assms(2) by (auto simp: distinct_map)
  have other: "admit_candidate P cur ?me p = Inr None"
    if "p \<in> set rows" "\<not> prior_keys P p \<inter> set (identity_lookup_keys P ?me) \<noteq> {}" for p
    using indexed_rows [of P rows "[]" idx] assms(1) only_similar_matter that
    by (fastforce simp: build_identity_candidate_index_def)
  have "list_ex (inadmissible P cur ?me) (recalled_rows P ?me idx) = list_ex (inadmissible P cur ?me) rows"
    using rec(2) other by (auto simp: list_ex_iff inadmissible_def)
  moreover have "mset (List.map_filter (admission P cur ?me) (recalled_rows P ?me idx)) =
      mset (List.map_filter (admission P cur ?me) rows)"
    using rec other assms(2) by (intro mset_map_filter_relevant) (auto simp: distinct_map admission_def)
  then have "sort (map candidate_rank (List.map_filter (admission P cur ?me) (recalled_rows P ?me idx))) =
      sort (map candidate_rank (List.map_filter (admission P cur ?me) rows))"
    by (intro properties_for_sort) simp_all
  ultimately show ?thesis
    using JObj
    by (cases "1 \<le> limit \<and> limit \<le> 20")
      (simp_all add: retrieve_prior_event_context_def scan_prior_event_context_def Let_def admitted_all [OF JObj] rank_of_best)
qed (cases "1 \<le> limit \<and> limit \<le> 20";
     simp add: retrieve_prior_event_context_def scan_prior_event_context_def)+

section \<open>What is accepted\<close>

lemma controlled_valueD:
  "controlled_value v words msg = Inr u \<Longrightarrow> py_str P v \<in> set words"
  by (cases v) (simp_all add: controlled_value_def in_words_def py_str_def)

lemma unit_confidenceD: "unit_confidence f = Inr x \<Longrightarrow> 0 \<le> x \<and> x \<le> 1"
  by (auto simp: unit_confidence_def split: pyfloat.splits if_splits)

lemma check_relationD:
  assumes "check_relation ofr update relation matched = Inr u"
  shows "relation \<in> set IDENTITY_RELATIONS"
    "relation = ''NEW_EPISODE'' \<Longrightarrow> oc_complete ofr"
    "matched \<noteq> [] \<longleftrightarrow> relation \<in> set [''SAME_EVENT'', ''SAME_EPISODE'']"
    "matched \<noteq> [] \<Longrightarrow> offered (oc_ids ofr) matched"
    "relation = ''SAME_EVENT'' \<Longrightarrow> offered (oc_same ofr) matched"
    "update = ''DUPLICATE_REPORT'' \<Longrightarrow> relation = ''SAME_EVENT''"
    "update = ''MATERIAL_UPDATE'' \<Longrightarrow> relation = ''SAME_EPISODE''"
    "update = ''NEW_EVENT'' \<Longrightarrow> relation = ''NEW_EPISODE''"
  using assms by (simp_all add: check_relation_def bind_out_Inr_iff split: if_splits)

lemma check_differencesD:
  assumes "check_differences ofr relation anchor core differences = Inr u"
  shows "relation = ''SAME_EVENT'' \<Longrightarrow> core = [] \<and> differences = []"
    "relation = ''SAME_EPISODE'' \<Longrightarrow> core \<noteq> [] \<and> differences = []"
    "relation = ''NEW_EPISODE'' \<Longrightarrow> differences \<noteq> [] \<or> oc_ids ofr = Some []"
    "relation \<noteq> ''UNRESOLVED'' \<Longrightarrow> 4 \<le> length anchor"
  using assms by (simp_all add: check_differences_def bind_out_Inr_iff)

text \<open>
  An assessment that the validation accepts is coherent: its values are controlled; it names a candidate exactly
  when it says that there is one, and an offered one; a duplicate is of the same event and differs in no fact, a
  material update is in the same episode and changes a core fact, and a new event starts a new episode, which takes
  the complete context and a difference from the candidates, where there are any.
\<close>

theorem accepted_impact_is_coherent:
  assumes "validate_impact_assessment P float_text ofr d = Inr v"
  shows "vi_class v \<in> set IMPACT_CLASSES \<and> vi_state v \<in> set EVENT_STATES \<and> vi_update v \<in> set UPDATE_TYPES \<and>
    vi_relation v \<in> set IDENTITY_RELATIONS \<and> 0 \<le> vi_confidence v \<and> vi_confidence v \<le> 1 \<and> 4 \<le> length (vi_reason v) \<and>
    (vi_matched v \<noteq> [] \<longleftrightarrow> vi_relation v \<in> set [''SAME_EVENT'', ''SAME_EPISODE'']) \<and>
    (vi_matched v \<noteq> [] \<longrightarrow> offered (oc_ids ofr) (vi_matched v)) \<and>
    (vi_update v = ''DUPLICATE_REPORT'' \<longrightarrow> vi_relation v = ''SAME_EVENT'' \<and> vi_core v = [] \<and> vi_identity v = [] \<and>
       offered (oc_same ofr) (vi_matched v)) \<and>
    (vi_update v = ''MATERIAL_UPDATE'' \<longrightarrow> vi_relation v = ''SAME_EPISODE'' \<and> vi_core v \<noteq> [] \<and> vi_identity v = []) \<and>
    (vi_update v = ''NEW_EVENT'' \<longrightarrow> vi_relation v = ''NEW_EPISODE'' \<and> vi_matched v = [] \<and> oc_complete ofr \<and>
       (vi_identity v \<noteq> [] \<or> oc_ids ofr = Some []))"
proof -
  from assms obtain core differences ctx confidence u where
    controlled: "controlled_value (jget d ''impact_class'') IMPACT_CLASSES ''Gemma impact class is not controlled'' = Inr u"
      "controlled_value (jget d ''event_state'') EVENT_STATES ''Gemma event state is not controlled'' = Inr u"
      "controlled_value (jget d ''update_type'') UPDATE_TYPES ''Gemma update type is not controlled'' = Inr u"
    and relation: "check_relation ofr (py_str P (jget d ''update_type'')) (py_str P (jget d ''identity_relation''))
      (strip (str_or_empty P (jget d ''matched_candidate_id''))) = Inr u"
    and diffs: "check_differences ofr (py_str P (jget d ''identity_relation''))
      (strip (str_or_empty P (jget d ''identity_anchor_zh''))) core differences = Inr u"
    and conf: "bind_out (json_float P float_text (jget d ''confidence'')) unit_confidence = Inr confidence"
    and reason: "4 \<le> length (public_impact_reason P (jget d ''reason_zh''))"
    and v: "v = \<lparr>vi_class = py_str P (jget d ''impact_class''), vi_state = py_str P (jget d ''event_state''),
        vi_update = py_str P (jget d ''update_type''), vi_relation = py_str P (jget d ''identity_relation''),
        vi_matched = strip (str_or_empty P (jget d ''matched_candidate_id'')),
        vi_anchor = strip (str_or_empty P (jget d ''identity_anchor_zh'')), vi_core = core,
        vi_identity = differences, vi_context = ctx, vi_confidence = confidence,
        vi_reason = public_impact_reason P (jget d ''reason_zh'')\<rparr>"
    unfolding validate_impact_assessment_def Let_def bind_out_Inr_iff require_Inr_iff by (auto simp: bind_out_Inr_iff)
  from conf have "0 \<le> confidence" "confidence \<le> 1"
    using unit_confidenceD by (auto simp: bind_out_Inr_iff)
  with controlled [THEN controlled_valueD [of _ _ _ _ P]] check_relationD [OF relation] check_differencesD [OF diffs] reason
  show ?thesis unfolding v by auto
qed

section \<open>A small example\<close>

definition sample_claim :: "string \<Rightarrow> (string \<times> json) list" where
  "sample_claim object =
     [(''record_kind'', JStr ''FACT_EVENT''), (''evidence_role'', JStr ''CORE_CLAIM''),
      (''canonical_actor_id'', JStr ''ecb''), (''canonical_object_id'', JStr object),
      (''supporting_evidence'', JList [JStr ''quote''])]"

definition sample_prior_report :: "string \<Rightarrow> instant \<Rightarrow> string \<Rightarrow> string \<Rightarrow> prior_candidate" where
  "sample_prior_report aid t cluster object =
     \<lparr>pc_key = (''ecb'', aid, 1), pc_headline = ''Rate'', pc_first_seen = t, pc_cluster = cluster, pc_id = aid,
      pc_hash = aid, pc_annotation = JObj (sample_claim object), pc_summary = JNull, pc_class = None, pc_update = None,
      pc_episode = None, pc_event = None\<rparr>"

definition sample_universe :: "prior_candidate list" where
  "sample_universe =
     [sample_prior_report ''a'' 1 ''c1'' ''d_r'', sample_prior_report ''c'' 9 ''c1'' ''d_r'']"

definition sample_current :: current_report where
  "sample_current = \<lparr>cr_key = (''ecb'', ''e'', 1), cr_first_seen = 5, cr_cluster = ''c4'',
     cr_annotation = JObj (sample_claim ''d_r'')\<rparr>"

definition sample_index :: candidate_index where
  "sample_index = (case build_identity_candidate_index sample_platform sample_universe of Inr idx \<Rightarrow> idx | Inl _ \<Rightarrow> [])"

theorem index_recalls_every_candidate_witness:
  "map_sum id (map candidate_rank) (retrieve_prior_event_context sample_platform sample_current sample_index 5) =
     map_sum id (map candidate_rank) (scan_prior_event_context sample_platform sample_current sample_universe 5) \<and>
   map_sum id (map (\<lambda>c. pc_id (ic_prior c))) (retrieve_prior_event_context sample_platform sample_current sample_index 5) =
     Inr [''a'']"
proof
  have "\<not> isl (build_identity_candidate_index sample_platform sample_universe)"
    by (simp add: build_identity_candidate_index_def index_prior_def prior_identity_def sample_universe_def sample_prior_report_def)
  then have "build_identity_candidate_index sample_platform sample_universe = Inr sample_index"
    by (cases "build_identity_candidate_index sample_platform sample_universe") (simp_all add: sample_index_def)
  moreover have "distinct (map pc_id sample_universe)" by code_simp
  ultimately show "map_sum id (map candidate_rank) (retrieve_prior_event_context sample_platform sample_current sample_index 5) =
     map_sum id (map candidate_rank) (scan_prior_event_context sample_platform sample_current sample_universe 5)"
    by (rule index_recalls_every_candidate)
  show "map_sum id (map (\<lambda>c. pc_id (ic_prior c))) (retrieve_prior_event_context sample_platform sample_current sample_index 5) =
     Inr [''a'']"
    by code_simp
qed

definition sample_response :: "(string \<times> json) list" where
  "sample_response =
     [(''impact_class'', JStr ''SAME_DAY''), (''event_state'', JStr ''ACTIVE''), (''update_type'', JStr ''MATERIAL_UPDATE''),
      (''identity_relation'', JStr ''SAME_EPISODE''), (''matched_candidate_id'', JStr '' a ''),
      (''identity_anchor_zh'', JStr ''ECB deposit rate''), (''core_fact_changes_zh'', JList [JStr ''cut to 2.0'']),
      (''identity_differences_zh'', JList []), (''context_differences_zh'', JList []), (''confidence'', JInt 1),
      (''reason_zh'', JStr ''as candidate_id says'')]"

definition sample_offer :: offered_candidates where
  "sample_offer = \<lparr>oc_ids = Some [''a'', ''b''], oc_same = Some [''a''], oc_complete = True\<rparr>"

definition sample_values :: impact_values where
  "sample_values = \<lparr>vi_class = ''SAME_DAY'', vi_state = ''ACTIVE'', vi_update = ''MATERIAL_UPDATE'',
     vi_relation = ''SAME_EPISODE'', vi_matched = ''a'', vi_anchor = ''ECB deposit rate'', vi_core = [''cut to 2.0''],
     vi_identity = [], vi_context = [], vi_confidence = 1, vi_reason = map of_char ''as '' @ KNOWN_REPORT @ map of_char '' says''\<rparr>"

theorem accepted_impact_is_coherent_witness:
  "validate_impact_assessment sample_platform (\<lambda>_. None) sample_offer sample_response = Inr sample_values \<and>
   offered (oc_ids sample_offer) (vi_matched sample_values) \<and> vi_core sample_values \<noteq> []"
proof -
  have v: "validate_impact_assessment sample_platform (\<lambda>_. None) sample_offer sample_response = Inr sample_values"
    by code_simp
  from accepted_impact_is_coherent [OF v] v show ?thesis by (simp add: sample_values_def)
qed

lemma report_identifier_is_hidden:
  "public_impact_reason sample_platform (JStr ''see 0a1B2c3d-0000-1111-2222-0123456789ab.'') =
     map of_char ''see '' @ KNOWN_REPORT @ map of_char ''.''"
  by code_simp

end
