(* ===== verification/Work_Discovery.thy ===== *)
theory Work_Discovery
  imports Semantic_Transitions Impact_Assessment
begin

text \<open>
  How the scheduler finds its work, \<open>sync_pending_jobs\<close> of \<^verbatim>\<open>xauusd_news/news/scheduler/state.py\<close>: the recovery of
  failed attempts, the readers of pending annotations, impacts and titles of \<^verbatim>\<open>news/annotation/product.py\<close> and
  \<^verbatim>\<open>news/annotation/impact.py\<close>, the page of the contract's backfill, and the jobs that are enqueued for what they
  return. What is discovered is not what reconciliation retires.

  The days whose briefs are due, \<open>brief_dates_to_process\<close> less its first, are an argument, as is the JSON of an
  annotation. The installation is complete: the tables of the recoveries exist.
\<close>

section \<open>State\<close>

record model_failure =
  lf_id :: string
  lf_task :: string
  lf_key :: source_key
  lf_hash :: string
  lf_model :: string
  lf_prompt :: string
  lf_attempt :: int
  lf_error_type :: string
  lf_error :: string
  lf_failed :: instant
  lf_retry :: "instant option"
  lf_terminal :: bool

record failure_recovery =
  rv_failure :: string
  rv_version :: string
  rv_key :: source_key
  rv_model :: string
  rv_prompt :: string
  rv_authorized :: instant

record impact_failure =
  gf_id :: string
  gf_hash :: string
  gf_annotation :: string
  gf_model :: string
  gf_prompt :: string
  gf_attempt :: int
  gf_failed :: instant
  gf_retry :: "instant option"
  gf_terminal :: bool

record impact_recovery =
  gv_failure :: string
  gv_version :: string
  gv_annotation :: string
  gv_model :: string
  gv_prompt :: string
  gv_authorized :: instant

text \<open>\<open>dx_skipped\<close> holds the content hashes that \<open>skip_prohibited_content\<close> has marked.\<close>

record discovery_db =
  dx_transition :: transition_db
  dx_assessments :: "impact_assessment list"
  dx_resolutions :: "identity_resolution list"
  dx_failures :: "model_failure list"
  dx_recoveries :: "failure_recovery list"
  dx_impact_failures :: "impact_failure list"
  dx_impact_recoveries :: "impact_recovery list"
  dx_overrides :: "retry_override list"
  dx_skipped :: "string list"

abbreviation dx_lanes :: "discovery_db \<Rightarrow> lane_db" where
  "dx_lanes x \<equiv> xd_lanes (dx_transition x)"

abbreviation dx_ledger :: "discovery_db \<Rightarrow> ledger_db" where
  "dx_ledger x \<equiv> wl_ledger (dx_lanes x)"

abbreviation dx_jobs :: "discovery_db \<Rightarrow> job list" where
  "dx_jobs x \<equiv> ld_jobs (dx_ledger x)"

abbreviation dx_revisions :: "discovery_db \<Rightarrow> revision list" where
  "dx_revisions x \<equiv> ld_revisions (dx_ledger x)"

abbreviation dx_notes :: "discovery_db \<Rightarrow> annotation_row list" where
  "dx_notes x \<equiv> ld_annotations (dx_ledger x)"

definition set_lanes :: "lane_db \<Rightarrow> discovery_db \<Rightarrow> discovery_db" where
  "set_lanes lanes x = x\<lparr>dx_transition := (dx_transition x)\<lparr>xd_lanes := lanes\<rparr>\<rparr>"

definition set_dx_jobs :: "job list \<Rightarrow> discovery_db \<Rightarrow> discovery_db" where
  "set_dx_jobs jobs x = set_lanes (set_jobs_of jobs (dx_lanes x)) x"

definition rescheduled_by_hand :: "discovery_db \<Rightarrow> job \<Rightarrow> bool" where
  "rescheduled_by_hand x j \<longleftrightarrow> list_ex (\<lambda>r. ro_job r = j_id j \<and> ro_active r) (dx_overrides x)"

section \<open>Prohibited content\<close>

definition PROHIBITED_CONTENT_CODE :: string where "PROHIBITED_CONTENT_CODE = ''PROVIDER_PROHIBITED_CONTENT''"

definition permitted :: "discovery_db \<Rightarrow> string \<Rightarrow> bool" where
  "permitted x hash \<longleftrightarrow> hash \<notin> set (dx_skipped x)"

definition of_content :: "discovery_db \<Rightarrow> string \<Rightarrow> job \<Rightarrow> bool" where
  "of_content x hash j \<longleftrightarrow> list_ex (\<lambda>n. key_of n = job_source_key j \<and> vn_hash n = hash) (dx_revisions x)"

definition skip_prohibited_content :: "instant \<Rightarrow> string \<Rightarrow> discovery_db \<Rightarrow> discovery_db" where
  "skip_prohibited_content now hash x =
     (let x1 = x\<lparr>dx_skipped := sql_insert_ignore (\<lambda>h. h = hash) hash (dx_skipped x)\<rparr>;
          jobs = sql_update (\<lambda>j. queued_or_backing_off j \<and> of_content x1 hash j)
            (\<lambda>j. j\<lparr>j_state := DEAD_LETTER, j_last_error := Some PROHIBITED_CONTENT_CODE, j_updated_at := now,
                   j_completed_at := Some now, j_lease_owner := None, j_lease_expires_at := None\<rparr>) (dx_jobs x1);
          x2 = set_dx_jobs jobs x1
      in x2\<lparr>dx_overrides := sql_update
           (\<lambda>r. ro_active r \<and> list_ex (\<lambda>j. j_id j = ro_job r \<and> j_state j = DEAD_LETTER \<and>
                  j_last_error j = Some PROHIBITED_CONTENT_CODE) jobs)
           (\<lambda>r. r\<lparr>ro_active := False\<rparr>) (dx_overrides x2)\<rparr>)"

section \<open>The recovery of failed attempts\<close>

definition RECOVERY_PAGE :: nat where "RECOVERY_PAGE = 200"

definition same_attempts :: "model_failure \<Rightarrow> model_failure \<Rightarrow> bool" where
  "same_attempts f g \<longleftrightarrow>
     lf_task g = lf_task f \<and> lf_key g = lf_key f \<and> lf_model g = lf_model f \<and> lf_prompt g = lf_prompt f"

definition last_attempt :: "model_failure list \<Rightarrow> model_failure \<Rightarrow> bool" where
  "last_attempt failures f \<longleftrightarrow> \<not> list_ex (\<lambda>g. same_attempts f g \<and> lf_attempt f < lf_attempt g) failures"

text \<open>\<open>next_retry_at > ?\<close>, which is not true of \<open>NULL\<close>.\<close>

definition later_than :: "instant option \<Rightarrow> instant \<Rightarrow> bool" where
  "later_than t now = (case t of None \<Rightarrow> False | Some u \<Rightarrow> now < u)"

definition recovered :: "string \<Rightarrow> discovery_db \<Rightarrow> model_failure \<Rightarrow> bool" where
  "recovered version x f \<longleftrightarrow> list_ex (\<lambda>r. rv_failure r = lf_id f \<and> rv_version r = version) (dx_recoveries x)"

definition repairable :: "string \<Rightarrow> string \<Rightarrow> string \<Rightarrow> instant \<Rightarrow> discovery_db \<Rightarrow> model_failure \<Rightarrow> bool" where
  "repairable task prompt version now x f \<longleftrightarrow>
     lf_task f = task \<and> lf_prompt f = prompt \<and> permitted x (lf_hash f) \<and>
     (lf_terminal f \<or> (later_than (lf_retry f) (lf_failed f) \<and> later_than (lf_retry f) now)) \<and>
     \<not> recovered version x f \<and> last_attempt (dx_failures x) f"

definition recovery_of :: "string \<Rightarrow> instant \<Rightarrow> model_failure \<Rightarrow> failure_recovery" where
  "recovery_of version now f =
     \<lparr>rv_failure = lf_id f, rv_version = version, rv_key = lf_key f, rv_model = lf_model f, rv_prompt = lf_prompt f,
      rv_authorized = now\<rparr>"

definition recovery_conflict :: "failure_recovery \<Rightarrow> failure_recovery \<Rightarrow> bool" where
  "recovery_conflict new r \<longleftrightarrow>
     (rv_version r, rv_key r, rv_model r, rv_prompt r) = (rv_version new, rv_key new, rv_model new, rv_prompt new) \<or>
     (rv_failure r, rv_version r) = (rv_failure new, rv_version new)"

definition insert_recovery :: "failure_recovery \<Rightarrow> failure_recovery list \<Rightarrow> failure_recovery list" where
  "insert_recovery r rows = sql_insert_ignore (recovery_conflict r) r rows"

text \<open>A job that the recovery puts back in the queue: it failed, is not rescheduled by hand, and was last changed before.\<close>

definition recoverable_job :: "task_type \<Rightarrow> string \<Rightarrow> discovery_db \<Rightarrow> job \<Rightarrow> bool" where
  "recoverable_job task prompt x j \<longleftrightarrow>
     j_task j = task \<and> j_prompt j = prompt \<and> j_state j \<in> {DEAD_LETTER, BACKING_OFF, QUEUED} \<and> \<not> rescheduled_by_hand x j \<and>
     \<not> retired j"

definition reopens_annotation :: "string \<Rightarrow> task_type \<Rightarrow> string \<Rightarrow> string \<Rightarrow> discovery_db \<Rightarrow> job \<Rightarrow> bool" where
  "reopens_annotation name task prompt version x j \<longleftrightarrow>
     recoverable_job task prompt x j \<and>
     list_ex (\<lambda>f. lf_task f = name \<and> lf_key f = job_source_key j \<and> lf_prompt f = j_prompt j \<and>
       last_attempt (dx_failures x) f \<and>
       list_ex (\<lambda>r. rv_failure r = lf_id f \<and> rv_version r = version \<and> j_updated_at j < rv_authorized r) (dx_recoveries x))
       (dx_failures x)"

definition recovered_row :: "instant \<Rightarrow> job \<Rightarrow> job" where
  "recovered_row now j =
     j\<lparr>j_state := QUEUED, j_available_at := now, j_lease_owner := None, j_lease_expires_at := None, j_last_error := None,
       j_updated_at := now, j_completed_at := None\<rparr>"

definition recovery_job :: "string \<Rightarrow> task_type option" where
  "recovery_job name = map_of [(''ANNOTATION'', ACTIVE_ANNOTATION), (''TITLE_TRANSLATION'', TITLE_TRANSLATION)] name"

definition authorize_repairable_annotation_failures ::
    "string \<Rightarrow> string \<Rightarrow> instant \<Rightarrow> string \<Rightarrow> discovery_db \<Rightarrow> (int \<times> discovery_db) outcome" where
  "authorize_repairable_annotation_failures prompt version now name x =
     (case recovery_job name of
        None \<Rightarrow> Inl (KeyError name)
      | Some task \<Rightarrow>
          let rows = take RECOVERY_PAGE (sort_key (\<lambda>f. (lf_failed f, lf_id f))
                (filter (repairable name prompt version now x) (dx_failures x)));
              recoveries = fold (\<lambda>f. insert_recovery (recovery_of version now f)) rows (dx_recoveries x);
              x1 = x\<lparr>dx_recoveries := recoveries\<rparr>;
              x2 = set_dx_jobs (sql_update (reopens_annotation name task prompt version x1) (recovered_row now) (dx_jobs x1)) x1
          in Inr (int (length recoveries) - int (length (dx_recoveries x)), x2))"

definition same_impact_attempts :: "impact_failure \<Rightarrow> impact_failure \<Rightarrow> bool" where
  "same_impact_attempts f g \<longleftrightarrow>
     gf_annotation g = gf_annotation f \<and> gf_model g = gf_model f \<and> gf_prompt g = gf_prompt f"

definition last_impact_attempt :: "impact_failure list \<Rightarrow> impact_failure \<Rightarrow> bool" where
  "last_impact_attempt failures f \<longleftrightarrow>
     \<not> list_ex (\<lambda>g. same_impact_attempts f g \<and> gf_attempt f < gf_attempt g) failures"

definition impact_recovered :: "string \<Rightarrow> discovery_db \<Rightarrow> impact_failure \<Rightarrow> bool" where
  "impact_recovered version x f \<longleftrightarrow>
     list_ex (\<lambda>r. gv_failure r = gf_id f \<and> gv_version r = version) (dx_impact_recoveries x)"

definition impact_repairable :: "string \<Rightarrow> string \<Rightarrow> instant \<Rightarrow> discovery_db \<Rightarrow> impact_failure \<Rightarrow> bool" where
  "impact_repairable prompt version now x f \<longleftrightarrow>
     gf_prompt f = prompt \<and> permitted x (gf_hash f) \<and>
     (gf_terminal f \<or> (later_than (gf_retry f) (gf_failed f) \<and> later_than (gf_retry f) now)) \<and>
     \<not> impact_recovered version x f \<and> last_impact_attempt (dx_impact_failures x) f"

definition impact_recovery_of :: "string \<Rightarrow> instant \<Rightarrow> impact_failure \<Rightarrow> impact_recovery" where
  "impact_recovery_of version now f =
     \<lparr>gv_failure = gf_id f, gv_version = version, gv_annotation = gf_annotation f, gv_model = gf_model f,
      gv_prompt = gf_prompt f, gv_authorized = now\<rparr>"

definition impact_recovery_conflict :: "impact_recovery \<Rightarrow> impact_recovery \<Rightarrow> bool" where
  "impact_recovery_conflict new r \<longleftrightarrow>
     (gv_version r, gv_annotation r, gv_model r, gv_prompt r) =
       (gv_version new, gv_annotation new, gv_model new, gv_prompt new) \<or>
     (gv_failure r, gv_version r) = (gv_failure new, gv_version new)"

definition insert_impact_recovery :: "impact_recovery \<Rightarrow> impact_recovery list \<Rightarrow> impact_recovery list" where
  "insert_impact_recovery r rows = sql_insert_ignore (impact_recovery_conflict r) r rows"

definition reopens_impact :: "string \<Rightarrow> string \<Rightarrow> discovery_db \<Rightarrow> job \<Rightarrow> bool" where
  "reopens_impact prompt version x j \<longleftrightarrow>
     recoverable_job ACTIVE_IMPACT prompt x j \<and>
     list_ex (\<lambda>f. gf_annotation f = j_annotation j \<and> gf_prompt f = j_prompt j \<and>
       last_impact_attempt (dx_impact_failures x) f \<and>
       list_ex (\<lambda>r. gv_failure r = gf_id f \<and> gv_version r = version \<and> j_updated_at j < gv_authorized r)
         (dx_impact_recoveries x)) (dx_impact_failures x)"

definition authorize_repairable_impact_failures ::
    "string \<Rightarrow> string \<Rightarrow> instant \<Rightarrow> discovery_db \<Rightarrow> int \<times> discovery_db" where
  "authorize_repairable_impact_failures prompt version now x =
     (let rows = take RECOVERY_PAGE (sort_key (\<lambda>f. (gf_failed f, gf_id f))
            (filter (impact_repairable prompt version now x) (dx_impact_failures x)));
          recoveries = fold (\<lambda>f. insert_impact_recovery (impact_recovery_of version now f)) rows (dx_impact_recoveries x);
          x1 = x\<lparr>dx_impact_recoveries := recoveries\<rparr>;
          x2 = set_dx_jobs (sql_update (reopens_impact prompt version x1) (recovered_row now) (dx_jobs x1)) x1
      in (int (length recoveries) - int (length (dx_impact_recoveries x)), x2))"

section \<open>Pending annotations\<close>

definition ANNOTATION_FAILURE_RECOVERY_VERSION :: string where
  "ANNOTATION_FAILURE_RECOVERY_VERSION = ''annotation-repair-v5-queue''"

definition TITLE_PROMPT_VERSION :: string where
  "TITLE_PROMPT_VERSION = ''headline-zh-v7-multilingual-month-preservation''"

record annotation_request =
  ar_now :: instant
  ar_limit :: int
  ar_prompt :: string
  ar_days :: "string list"
  ar_from :: "instant option"
  ar_before :: "instant option"
  ar_cursor :: "(instant \<times> string \<times> string \<times> int) option"
  ar_order :: string
  ar_discovery :: bool
  ar_keys :: "source_key list option"

definition exact_identity :: "source_key \<Rightarrow> bool" where
  "exact_identity k = (case k of (source, item, number) \<Rightarrow>
     strip source \<noteq> [] \<and> strip item \<noteq> [] \<and> 1 \<le> number \<and> number < 2 ^ 63)"

definition check_keys :: "source_key list option \<Rightarrow> unit outcome" where
  "check_keys keys =
     (case keys of
        None \<Rightarrow> Inr ()
      | Some ks \<Rightarrow>
          bind_out (require (length ks \<le> 128) ''annotation source keys require at most 128 exact tuples'') (\<lambda>_.
          bind_out (require (list_all exact_identity ks) ''annotation source key is not an exact identity'') (\<lambda>_.
          require (distinct ks) ''annotation source keys must be unique'')))"

definition receipt_position :: "revision \<Rightarrow> instant \<times> string \<times> string \<times> int" where
  "receipt_position n = (vn_first_seen n, vn_source n, vn_item n, vn_number n)"

definition in_request :: "annotation_request \<Rightarrow> revision \<Rightarrow> bool" where
  "in_request q n \<longleftrightarrow>
     (case ar_keys q of None \<Rightarrow> True | Some ks \<Rightarrow> key_of n \<in> set ks) \<and>
     (case ar_from q of None \<Rightarrow> True | Some t \<Rightarrow> t \<le> vn_first_seen n) \<and>
     (case ar_before q of None \<Rightarrow> True | Some t \<Rightarrow> vn_first_seen n < t) \<and>
     (case ar_cursor q of None \<Rightarrow> True | Some c \<Rightarrow> receipt_position n < c)"

text \<open>On a day whose brief is due only the evidence of that day competes.\<close>

definition has_newer :: "sql_env \<Rightarrow> string list \<Rightarrow> revision list \<Rightarrow> revision \<Rightarrow> revision \<Rightarrow> bool" where
  "has_newer E dates revs n p \<longleftrightarrow>
     list_ex (\<lambda>q. article q = article p \<and> vn_number p < vn_number q \<and> peer_in_scope E dates n q) revs"

definition has_preferred_peer :: "sql_env \<Rightarrow> instant \<Rightarrow> string list \<Rightarrow> revision list \<Rightarrow> revision \<Rightarrow> bool" where
  "has_preferred_peer E epoch dates revs n \<longleftrightarrow>
     list_ex (\<lambda>p. vn_cluster p = vn_cluster n \<and> \<not> body_too_short p \<and> peer_in_scope E dates n p \<and>
       \<not> has_newer E dates revs n p \<and> semantically_eligible epoch p \<and> preferred_peer p n) revs"

definition capacity_failure :: "model_failure \<Rightarrow> bool" where
  "capacity_failure f \<longleftrightarrow>
     lf_error_type f = ''RuntimeError'' \<and> lf_error f = ''All configured Gemini keys unavailable for this batch''"

text \<open>The last attempt of a model under a contract keeps its work back until it is recovered or may be repeated.\<close>

definition keeps_back :: "string \<Rightarrow> string \<Rightarrow> string \<Rightarrow> instant \<Rightarrow> discovery_db \<Rightarrow> revision \<Rightarrow> model_failure \<Rightarrow> bool" where
  "keeps_back task model prompt now x n f \<longleftrightarrow>
     lf_task f = task \<and> lf_key f = key_of n \<and> lf_model f = model \<and> lf_prompt f = prompt \<and>
     last_attempt (dx_failures x) f \<and> \<not> recovered ANNOTATION_FAILURE_RECOVERY_VERSION x f \<and>
     (lf_terminal f \<or> later_than (lf_retry f) now)"

definition annotation_kept_back :: "string \<Rightarrow> instant \<Rightarrow> discovery_db \<Rightarrow> revision \<Rightarrow> bool" where
  "annotation_kept_back prompt now x n \<longleftrightarrow>
     list_ex (\<lambda>f. keeps_back ''ANNOTATION'' DEFAULT_GEMINI_MODEL prompt now x n f \<and> \<not> capacity_failure f) (dx_failures x)"

text \<open>A job owns the work of a revision unless reconciliation has retired it.\<close>

definition owned :: "string \<Rightarrow> job list \<Rightarrow> revision \<Rightarrow> bool" where
  "owned prompt jobs n \<longleftrightarrow>
     list_ex (\<lambda>j. annotation_job prompt j \<and> job_source_key j = key_of n \<and> j_annotation j = [] \<and>
       (j_state j \<in> {QUEUED, LEASED, BACKING_OFF} \<or> (j_state j = DEAD_LETTER \<and> j_last_error j \<noteq> Some RETIRED_ERROR))) jobs"

definition annotation_pending :: "sql_env \<Rightarrow> instant \<Rightarrow> annotation_request \<Rightarrow> discovery_db \<Rightarrow> revision \<Rightarrow> bool" where
  "annotation_pending E epoch q x n \<longleftrightarrow>
     (ar_discovery q \<longrightarrow> \<not> owned (ar_prompt q) (dx_jobs x) n) \<and>
     \<not> list_ex (supported_note (key_of n) (ar_prompt q)) (dx_notes x) \<and>
     permitted x (vn_hash n) \<and> semantically_eligible epoch n \<and> \<not> body_too_short n \<and> in_request q n \<and>
     \<not> has_newer E (ar_days q) (dx_revisions x) n n \<and>
     \<not> has_preferred_peer E epoch (ar_days q) (dx_revisions x) n \<and>
     \<not> annotation_kept_back (ar_prompt q) (ar_now q) x n"

text \<open>\<open>lower(headline) LIKE '%word%'\<close>, and \<open>LIKE '[FULL_TEXT%'\<close>, whose underscore stands for any character.\<close>

definition leads_policy :: "revision \<Rightarrow> bool" where
  "leads_policy n \<longleftrightarrow>
     vn_source n = ''federal_reserve_monetary'' \<or> contains ''fomc'' (lower (vn_headline n)) \<or>
     contains ''consumer price'' (lower (vn_headline n)) \<or> contains ''payroll'' (lower (vn_headline n))"

definition full_text :: "revision \<Rightarrow> bool" where
  "full_text n \<longleftrightarrow>
     (case vn_body n of
        None \<Rightarrow> False
      | Some b \<Rightarrow> lower (take 5 b) = ''[full'' \<and> 6 \<le> length b \<and> starts_with ''text'' (lower (drop 6 b)))"

definition news_time :: "revision \<Rightarrow> instant" where
  "news_time n = (case vn_published n of None \<Rightarrow> vn_first_seen n | Some t \<Rightarrow> t)"

fun place :: "string \<Rightarrow> string list \<Rightarrow> nat" where
  "place d [] = 0"
| "place d (x # xs) = (if x = d then 0 else Suc (place d xs))"

definition default_order :: "sql_env \<Rightarrow> string list \<Rightarrow> revision \<Rightarrow> nat \<times> bool \<times> bool \<times> int \<times> instant \<times> string \<times> string" where
  "default_order E dates n =
     (place (sq_day E (vn_first_seen n)) dates, \<not> leads_policy n, \<not> full_text n, - news_time n, vn_first_seen n,
      vn_source n, vn_item n)"

definition ordered_rows :: "sql_env \<Rightarrow> annotation_request \<Rightarrow> revision list \<Rightarrow> revision list" where
  "ordered_rows E q rows =
     (if ar_order q = ''receipt_desc'' then rev (sort_key receipt_position rows)
      else sort_key (default_order E (dedupe (ar_days q))) rows)"

definition pending_annotation_records :: "sql_env \<Rightarrow> annotation_request \<Rightarrow> discovery_db \<Rightarrow> revision list outcome" where
  "pending_annotation_records E q x =
     bind_out (check_keys (ar_keys q)) (\<lambda>_.
       if ar_keys q = Some [] then Inr []
       else case ld_epoch (dx_ledger x) of
         None \<Rightarrow> Inl (ValueError ''FORWARD_EPOCH is missing'')
       | Some epoch \<Rightarrow>
           bind_out (require (ar_order q \<in> set [''default'', ''receipt_desc'']) ''annotation selection order is not controlled'') (\<lambda>_.
             Inr (filter (semantically_eligible epoch)
               (take (nat (max 1 (ar_limit q))) (ordered_rows E q (filter (annotation_pending E epoch q x) (dx_revisions x)))))))"

section \<open>Pending titles\<close>

text \<open>
  Whether a stored title is a placeholder, \<open>trim(headline_zh)=?\<close> or one that names a value without it, is an argument;
  its texts lie outside the characters of the model.
\<close>

fun allowed_rows :: "('r \<Rightarrow> bool) \<Rightarrow> int \<Rightarrow> 'r list \<Rightarrow> 'r list \<Rightarrow> 'r list" where
  "allowed_rows p limit acc [] = acc"
| "allowed_rows p limit acc (r # rs) =
     (let acc' = (if p r then acc @ [r] else acc) in
      if limit \<le> int (length acc') then acc' else allowed_rows p limit acc' rs)"

definition has_title :: "sql_env \<Rightarrow> discovery_db \<Rightarrow> revision \<Rightarrow> bool" where
  "has_title E x n \<longleftrightarrow> list_ex (\<lambda>t. tt_key t = key_of n \<and> sq_title E (tt_headline t)) (ld_translations (dx_ledger x))"

definition has_title_peer :: "instant \<Rightarrow> revision list \<Rightarrow> revision \<Rightarrow> bool" where
  "has_title_peer epoch revs n \<longleftrightarrow>
     list_ex (\<lambda>p. vn_cluster p = vn_cluster n \<and> newest revs p \<and> semantically_eligible epoch p \<and> preferred_peer p n) revs"

definition title_pending :: "sql_env \<Rightarrow> instant \<Rightarrow> instant \<Rightarrow> discovery_db \<Rightarrow> revision \<Rightarrow> bool" where
  "title_pending E epoch now x n \<longleftrightarrow>
     permitted x (vn_hash n) \<and> semantically_eligible epoch n \<and> \<not> has_title E x n \<and> newest (dx_revisions x) n \<and>
     \<not> has_title_peer epoch (dx_revisions x) n \<and>
     \<not> list_ex (keeps_back ''TITLE_TRANSLATION'' DEFAULT_GEMMA_MODEL TITLE_PROMPT_VERSION now x n) (dx_failures x)"

definition pending_title_translation_records ::
    "sql_env \<Rightarrow> (string \<Rightarrow> bool) \<Rightarrow> instant \<Rightarrow> int \<Rightarrow> discovery_db \<Rightarrow> revision list outcome" where
  "pending_title_translation_records E placeholder now limit x =
     (case ld_epoch (dx_ledger x) of
        None \<Rightarrow> Inl (ValueError ''FORWARD_EPOCH is missing'')
      | Some epoch \<Rightarrow>
          let retried = (\<lambda>n. list_ex (\<lambda>t. tt_key t = key_of n \<and> placeholder (tt_headline t)) (ld_translations (dx_ledger x)));
              rows = take (nat (max 1 (limit * 4))) (sort_key (\<lambda>n. (\<not> retried n, - news_time n))
                (filter (title_pending E epoch now x) (dx_revisions x)))
          in Inr (allowed_rows (semantically_eligible epoch) limit [] rows))"

section \<open>Pending impacts\<close>

definition GOOGLE_NEWS_MAX_AGE :: int where "GOOGLE_NEWS_MAX_AGE = hours 72"

definition GOOGLE_NEWS_SOURCES :: "string list" where
  "GOOGLE_NEWS_SOURCES =
     [''google_news_gold_context'', ''google_news_bls_official_releases'', ''google_news_us_employment'',
      ''google_news_us_inflation'', ''google_news_fed_rates'']"

definition AI_DISCOVERY_SOURCES :: "string list" where
  "AI_DISCOVERY_SOURCES = GOOGLE_NEWS_SOURCES @ [''gdelt_gold_geopolitics'']"

definition is_google_news_source :: "string \<Rightarrow> bool" where
  "is_google_news_source s \<longleftrightarrow> s \<in> set GOOGLE_NEWS_SOURCES"

definition google_news_item_is_relevant :: "string \<Rightarrow> instant option \<Rightarrow> instant \<Rightarrow> bool \<times> string" where
  "google_news_item_is_relevant source published observed =
     (if source \<notin> set AI_DISCOVERY_SOURCES then (True, ''NOT_GOOGLE_LANE'')
      else case published of
        None \<Rightarrow> (False, ''MISSING_PUBLISHED_TIME'')
      | Some p \<Rightarrow>
          if \<not> ca_eligible (publication_clock p observed) then (False, ''FUTURE_PUBLISHED_TIME'')
          else if GOOGLE_NEWS_MAX_AGE < observed - p then (False, ''SEARCH_RESULT_TOO_OLD'')
          else (True, ''AI_SEMANTIC_REVIEW_REQUIRED''))"

definition IMPACT_FAILURE_RECOVERY_VERSION :: string where
  "IMPACT_FAILURE_RECOVERY_VERSION = ''impact-repair-v5-queue''"

definition OFFICIAL_SOURCES :: "string list" where
  "OFFICIAL_SOURCES =
     [''federal_reserve_monetary'', ''bls_employment_situation'', ''bls_consumer_price_index'', ''bls_job_openings'',
      ''us_treasury_press_releases'']"

definition impact_kept_back :: "string \<Rightarrow> instant \<Rightarrow> discovery_db \<Rightarrow> annotation_row \<Rightarrow> bool" where
  "impact_kept_back prompt now x a \<longleftrightarrow>
     list_ex (\<lambda>f. gf_annotation f = nn_id a \<and> gf_model f = IMPACT_MODEL \<and> gf_prompt f = prompt \<and>
       last_impact_attempt (dx_impact_failures x) f \<and> (gf_terminal f \<or> later_than (gf_retry f) now) \<and>
       \<not> impact_recovered IMPACT_FAILURE_RECOVERY_VERSION x f) (dx_impact_failures x)"

text \<open>The evidence as \<open>Job_Reconciliation\<close> and \<open>Impact_Assessment\<close> read it; the derived tables are an argument.\<close>

definition maintenance_of :: "derived \<Rightarrow> (json \<times> instant) option \<Rightarrow> discovery_db \<Rightarrow> maintenance_db" where
  "maintenance_of d cache x =
     \<lparr>mb_ledger = dx_ledger x, mb_assessments = dx_assessments x, mb_resolutions = dx_resolutions x, mb_derived = d,
      mb_cache = cache\<rparr>"

abbreviation evidence_of :: "discovery_db \<Rightarrow> maintenance_db" where
  "evidence_of x \<equiv> maintenance_of \<lparr>dv_counts = [], dv_revision = None, dv_briefs = []\<rparr> None x"

definition impact_pending :: "string \<Rightarrow> string \<Rightarrow> instant \<Rightarrow> discovery_db \<Rightarrow> revision \<times> annotation_row \<Rightarrow> bool" where
  "impact_pending annotation_prompt prompt now x r =
     (case r of (n, a) \<Rightarrow>
       permitted x (vn_hash n) \<and> \<not> body_too_short n \<and> nn_prompt a = annotation_prompt \<and>
       nn_model a \<in> set SUPPORTED_GEMINI_MODELS \<and>
       \<not> list_ex (\<lambda>i. ia_annotation i = nn_id a \<and> ia_model i = IMPACT_MODEL \<and> ia_prompt i = prompt) (dx_assessments x) \<and>
       newest (dx_revisions x) n \<and> \<not> impact_kept_back prompt now x a)"

definition impact_order :: "string \<Rightarrow> revision \<times> annotation_row \<Rightarrow> int \<times> int" where
  "impact_order sel r =
     (let official = (if vn_source (fst r) \<in> set OFFICIAL_SOURCES then 0 else 1); t = news_time (fst r) in
      if sel = ''oldest'' then (official, t) else (- t, official))"

record impact_work =
  iw_revision :: revision
  iw_note :: annotation_row
  iw_annotation :: json
  iw_context :: "identity_candidate list"

definition report_of :: "(string \<Rightarrow> json) \<Rightarrow> revision \<times> annotation_row \<Rightarrow> current_report" where
  "report_of json_of r =
     \<lparr>cr_key = key_of (fst r), cr_first_seen = vn_first_seen (fst r), cr_cluster = vn_cluster (fst r),
      cr_annotation = json_of (nn_id (snd r))\<rparr>"

definition impact_work_of ::
    "platform \<Rightarrow> (string \<Rightarrow> json) \<Rightarrow> candidate_index \<Rightarrow> revision \<times> annotation_row \<Rightarrow> impact_work outcome" where
  "impact_work_of P json_of idx r =
     bind_out (retrieve_prior_event_context P (report_of json_of r) idx 5) (\<lambda>cs.
       Inr \<lparr>iw_revision = fst r, iw_note = snd r, iw_annotation = json_of (nn_id (snd r)), iw_context = cs\<rparr>)"

fun traverse_out :: "('a \<Rightarrow> 'b outcome) \<Rightarrow> 'a list \<Rightarrow> 'b list outcome" where
  "traverse_out f [] = Inr []"
| "traverse_out f (a # as) = bind_out (f a) (\<lambda>b. bind_out (traverse_out f as) (\<lambda>bs. Inr (b # bs)))"

definition pending_impact_records ::
    "platform \<Rightarrow> (string \<Rightarrow> json) \<Rightarrow> instant \<Rightarrow> int \<Rightarrow> string \<Rightarrow> string \<Rightarrow> string \<Rightarrow> discovery_db \<Rightarrow> impact_work list outcome" where
  "pending_impact_records P json_of now limit annotation_prompt prompt sel x =
     bind_out (require (sel \<in> set [''oldest'', ''newest'']) ''impact selection order is not controlled'') (\<lambda>_.
       let rows = take (nat (max 1 (limit * 4))) (sort_key (impact_order sel)
             (filter (impact_pending annotation_prompt prompt now x) (annotated_pairs (evidence_of x))));
           selected = allowed_rows
             (\<lambda>(n, a). fst (google_news_item_is_relevant (vn_source n) (vn_published n) (vn_first_seen n))) limit [] rows
       in if selected = [] then Inr []
          else bind_out (load_identity_candidate_universe json_of (Max (set (map (\<lambda>r. vn_first_seen (fst r)) selected)))
                 annotation_prompt prompt IDENTITY_CANDIDATE_UNIVERSE_LIMIT (evidence_of x)) (\<lambda>universe.
               bind_out (build_identity_candidate_index P universe) (\<lambda>idx. traverse_out (impact_work_of P json_of idx) selected)))"

section \<open>Steps\<close>

text \<open>A call commits its transactions one by one; what raises leaves the ones before it.\<close>

type_synonym 'a step = "discovery_db \<Rightarrow> 'a outcome \<times> discovery_db"

definition and_then :: "'a step \<Rightarrow> ('a \<Rightarrow> 'b step) \<Rightarrow> 'b step" where
  "and_then m k x = (case m x of (Inl e, x') \<Rightarrow> (Inl e, x') | (Inr a, x') \<Rightarrow> k a x')"

definition done_with :: "'a \<Rightarrow> 'a step" where
  "done_with a x = (Inr a, x)"

definition reading :: "(discovery_db \<Rightarrow> 'a outcome) \<Rightarrow> 'a step" where
  "reading f x = (f x, x)"

definition writing :: "(discovery_db \<Rightarrow> ('a \<times> discovery_db) outcome) \<Rightarrow> 'a step" where
  "writing f x = (case f x of Inl e \<Rightarrow> (Inl e, x) | Inr (a, x') \<Rightarrow> (Inr a, x'))"

definition on_lanes :: "(lane_db \<Rightarrow> 'a outcome \<times> lane_db) \<Rightarrow> 'a step" where
  "on_lanes f x = (case f (dx_lanes x) of (r, lanes) \<Rightarrow> (r, set_lanes lanes x))"

definition on_transition :: "(transition_db \<Rightarrow> 'a outcome \<times> transition_db) \<Rightarrow> 'a step" where
  "on_transition f x = (case f (dx_transition x) of (r, t) \<Rightarrow> (r, x\<lparr>dx_transition := t\<rparr>))"

fun for_each :: "('a \<Rightarrow> nat step) \<Rightarrow> 'a list \<Rightarrow> nat step" where
  "for_each f [] = done_with 0"
| "for_each f (a # as) = and_then (f a) (\<lambda>n. and_then (for_each f as) (\<lambda>m. done_with (n + m)))"

section \<open>A page of the contract's backfill\<close>

fun filter_out :: "('a \<Rightarrow> bool outcome) \<Rightarrow> 'a list \<Rightarrow> 'a list outcome" where
  "filter_out p [] = Inr []"
| "filter_out p (a # as) = bind_out (p a) (\<lambda>b. bind_out (filter_out p as) (\<lambda>bs. Inr (if b then a # bs else bs)))"

definition discovery_request :: "string \<Rightarrow> instant \<Rightarrow> int \<Rightarrow> string list \<Rightarrow> annotation_request" where
  "discovery_request prompt now limit dates =
     \<lparr>ar_now = now, ar_limit = limit, ar_prompt = prompt, ar_days = dates, ar_from = None, ar_before = None,
      ar_cursor = None, ar_order = ''default'', ar_discovery = True, ar_keys = None\<rparr>"

definition backfill_page_size :: "int \<Rightarrow> int" where
  "backfill_page_size page = min (int CONTRACT_BACKFILL_PAGE_SIZE) page"

definition backfill_request :: "string \<Rightarrow> instant \<Rightarrow> instant \<Rightarrow> int \<Rightarrow> contract_backfill \<Rightarrow> annotation_request" where
  "backfill_request prompt activated now page s =
     (discovery_request prompt now (backfill_page_size page) [])
       \<lparr>ar_before := Some activated, ar_cursor := bf_cursor s, ar_order := ''receipt_desc''\<rparr>"

definition advance_backfill :: "string \<Rightarrow> instant \<Rightarrow> int \<Rightarrow> revision list \<Rightarrow> contract_backfill \<Rightarrow> contract_backfill" where
  "advance_backfill prompt now page scanned b =
     (let b1 = (if scanned = [] then b else b\<lparr>bf_cursor := Some (receipt_position (last scanned)), bf_updated := now\<rparr>) in
      if int (length scanned) < backfill_page_size page then b1\<lparr>bf_state := COMPLETE, bf_updated := now\<rparr> else b1)"

definition contract_backfill_page ::
    "sql_env \<Rightarrow> zone \<Rightarrow> string \<Rightarrow> instant \<Rightarrow> instant \<Rightarrow> int \<Rightarrow> discovery_db \<Rightarrow> (revision list \<times> discovery_db) outcome" where
  "contract_backfill_page E z prompt activated now page x =
     (case find_backfill prompt (dx_lanes x) of
        None \<Rightarrow> Inr ([], x)
      | Some s \<Rightarrow>
          if bf_state s = COMPLETE \<or> page \<le> 0 then Inr ([], x)
          else bind_out (pending_annotation_records E (backfill_request prompt activated now page s) x) (\<lambda>scanned.
               bind_out (filter_out (contract_backfill_has_current_value (sq_platform E) z activated prompt (dx_lanes x)) scanned)
                 (\<lambda>selected.
                   let lanes = dx_lanes x;
                       backfills = sql_update (\<lambda>b. bf_prompt b = prompt) (advance_backfill prompt now page scanned) (wl_backfills lanes)
                   in Inr (selected, set_lanes (lanes\<lparr>wl_backfills := backfills\<rparr>) x))))"

section \<open>Enqueuing\<close>

text \<open>\<open>enqueue_job\<close> reads and writes the jobs only.\<close>

definition enqueue_in :: "platform \<Rightarrow> enqueue_request \<Rightarrow> instant \<Rightarrow> discovery_db \<Rightarrow> (nat \<times> discovery_db) outcome" where
  "enqueue_in P q now x =
     bind_out (enqueue_job P q now (empty_db\<lparr>db_jobs := dx_jobs x\<rparr>)) (\<lambda>(jid, db). Inr (1, set_dx_jobs (db_jobs db) x))"

definition annotation_enqueue :: "string \<Rightarrow> work_lane \<Rightarrow> revision \<Rightarrow> enqueue_request" where
  "annotation_enqueue prompt lane n =
     \<lparr>eq_task = ''ACTIVE_ANNOTATION'', eq_source = vn_source n, eq_item = vn_item n, eq_revision = vn_number n,
      eq_prompt = prompt, eq_priority = (if lane = LIVE then ''FAST'' else ''BACKGROUND''), eq_lane = lane_name lane,
      eq_provenance = None, eq_annotation = [], eq_reopen_completed = True\<rparr>"

definition enqueue_annotation :: "platform \<Rightarrow> string \<Rightarrow> work_lane \<Rightarrow> instant \<Rightarrow> revision \<Rightarrow> nat step" where
  "enqueue_annotation P prompt lane now n = writing (enqueue_in P (annotation_enqueue prompt lane n) now)"

record derived_work =
  dw_key :: source_key
  dw_annotation :: string
  dw_priority :: string

definition derived_enqueue :: "task_type \<Rightarrow> string \<Rightarrow> derived_work \<Rightarrow> enqueue_request" where
  "derived_enqueue task prompt w =
     (case dw_key w of (source, item, number) \<Rightarrow>
       \<lparr>eq_task = task_name task, eq_source = source, eq_item = item, eq_revision = number, eq_prompt = prompt,
        eq_priority = dw_priority w, eq_lane = ''LIVE'', eq_provenance = None, eq_annotation = dw_annotation w,
        eq_reopen_completed = False\<rparr>)"

definition enqueue_derived ::
    "platform \<Rightarrow> string \<Rightarrow> task_type \<Rightarrow> string \<Rightarrow> instant \<Rightarrow> derived_work \<Rightarrow> discovery_db \<Rightarrow> (nat \<times> discovery_db) outcome" where
  "enqueue_derived P contract task prompt now w x =
     bind_out (resolve_work_provenance contract (dw_key w) (dw_annotation w) (dx_lanes x)) (\<lambda>prov.
       case prov of
         None \<Rightarrow> Inr (0, x)
       | Some p \<Rightarrow>
           bind_out (enqueue_derived_ai_job P p (derived_enqueue task prompt w) now (empty_db\<lparr>db_jobs := dx_jobs x\<rparr>))
             (\<lambda>(jid, db). Inr (1, set_dx_jobs (db_jobs db) x)))"

definition annotation_priority :: "platform \<Rightarrow> json \<Rightarrow> string" where
  "annotation_priority P v =
     (case v of
        JObj d \<Rightarrow>
          let candidate = upper (let p = jget d ''review_priority'' in if truthy p then py_str P p else ''NORMAL'') in
          if priority_of candidate \<noteq> None then candidate else ''NORMAL''
      | _ \<Rightarrow> ''NORMAL'')"

definition impact_row :: "platform \<Rightarrow> impact_work \<Rightarrow> derived_work" where
  "impact_row P w =
     \<lparr>dw_key = key_of (iw_revision w), dw_annotation = nn_id (iw_note w), dw_priority = annotation_priority P (iw_annotation w)\<rparr>"

definition title_row :: "revision \<Rightarrow> derived_work" where
  "title_row n = \<lparr>dw_key = key_of n, dw_annotation = [], dw_priority = ''BACKGROUND''\<rparr>"

section \<open>Discovery\<close>

text \<open>A dictionary by the revision; a later row takes the place of an earlier one.\<close>

definition by_revision :: "revision list \<Rightarrow> revision list" where
  "by_revision rows = fold (\<lambda>n. sql_upsert key_of (\<lambda>_. n) n) rows []"

definition by_annotation :: "impact_work list \<Rightarrow> impact_work list" where
  "by_annotation rows = fold (\<lambda>w. sql_upsert (\<lambda>v. nn_id (iw_note v)) (\<lambda>_. w) w) rows []"

definition unowned_by :: "revision list \<Rightarrow> revision list \<Rightarrow> revision list" where
  "unowned_by live rows = filter (\<lambda>n. key_of n \<notin> key_of ` set live) rows"

record discovery_call =
  dq_now :: instant
  dq_limit :: int
  dq_days :: "string list"
  dq_json :: "string \<Rightarrow> json"
  dq_placeholder :: "string \<Rightarrow> bool"

definition backfill_capacity :: "int \<Rightarrow> int" where
  "backfill_capacity limit = (if 1 < limit then min (int CONTRACT_BACKFILL_PAGE_SIZE) (max 1 (limit div 2)) else 0)"

definition live_capacity :: "int \<Rightarrow> int" where
  "live_capacity limit = max 1 (limit - backfill_capacity limit)"

definition ordinary_reserve :: "string \<Rightarrow> int \<Rightarrow> discovery_db \<Rightarrow> int" where
  "ordinary_reserve prompt limit x =
     (if (case find_backfill prompt (dx_lanes x) of None \<Rightarrow> False | Some b \<Rightarrow> bf_state b \<noteq> COMPLETE) \<and> 1 < backfill_capacity limit
      then 1 else 0)"

definition protected_capacity :: "string \<Rightarrow> bool \<Rightarrow> discovery_call \<Rightarrow> discovery_db \<Rightarrow> int" where
  "protected_capacity prompt review q x =
     (if dq_days q \<noteq> [] \<and> review then backfill_capacity (dq_limit q) - ordinary_reserve prompt (dq_limit q) x else 0)"

text \<open>The annotation work: live evidence, the evidence of the days that are due, and a page of the backfill.\<close>

record annotation_work =
  aw_live :: "revision list"
  aw_protected :: "revision list"
  aw_backfill :: "revision list"

definition live_annotations :: "sql_env \<Rightarrow> string \<Rightarrow> instant \<Rightarrow> discovery_call \<Rightarrow> revision list step" where
  "live_annotations E prompt activated q = reading (pending_annotation_records E
     ((discovery_request prompt (dq_now q) (live_capacity (dq_limit q)) (dq_days q))\<lparr>ar_from := Some activated\<rparr>))"

definition protected_annotations :: "sql_env \<Rightarrow> string \<Rightarrow> bool \<Rightarrow> instant \<Rightarrow> discovery_call \<Rightarrow> revision list step" where
  "protected_annotations E prompt review activated q x =
     (let capacity = protected_capacity prompt review q x in
      if capacity = 0 then done_with [] x
      else reading (pending_annotation_records E
        ((discovery_request prompt (dq_now q) capacity (dq_days q))\<lparr>ar_before := Some activated\<rparr>)) x)"

definition discover_annotations ::
    "sql_env \<Rightarrow> zone \<Rightarrow> string \<Rightarrow> bool \<Rightarrow> instant \<Rightarrow> discovery_call \<Rightarrow> annotation_work step" where
  "discover_annotations E z prompt review activated q =
     and_then (live_annotations E prompt activated q) (\<lambda>live.
     and_then (protected_annotations E prompt review activated q) (\<lambda>protected.
     and_then (if review
         then writing (contract_backfill_page E z prompt activated (dq_now q)
                (max 0 (backfill_capacity (dq_limit q) - int (length protected))))
         else done_with []) (\<lambda>backfill.
       done_with \<lparr>aw_live = by_revision live, aw_protected = protected,
         aw_backfill = by_revision (unowned_by live (protected @ backfill))\<rparr>)))"

definition enqueue_annotations :: "platform \<Rightarrow> string \<Rightarrow> instant \<Rightarrow> annotation_work \<Rightarrow> nat step" where
  "enqueue_annotations P prompt now w =
     and_then (for_each (enqueue_annotation P prompt LIVE now) (aw_live w)) (\<lambda>n.
     and_then (for_each (enqueue_annotation P prompt CONTRACT_BACKFILL now) (aw_backfill w)) (\<lambda>m. done_with (n + m)))"

definition discover_impacts :: "sql_env \<Rightarrow> string \<Rightarrow> discovery_call \<Rightarrow> impact_work list step" where
  "discover_impacts E prompt q =
     (let P = sq_platform E; pending = (\<lambda>limit sel. reading
            (pending_impact_records P (dq_json q) (dq_now q) limit prompt IMPACT_PROMPT_VERSION sel)) in
      and_then (pending ((dq_limit q + 1) div 2) ''oldest'') (\<lambda>oldest.
      and_then (if dq_limit q div 2 = 0 then done_with [] else pending (dq_limit q div 2) ''newest'') (\<lambda>newest.
        done_with (by_annotation (oldest @ newest)))))"

record discovered =
  ds_annotations :: nat
  ds_impacts :: nat
  ds_titles :: nat

definition prepare_discovery :: "sql_env \<Rightarrow> zone \<Rightarrow> string \<Rightarrow> semantic_transition \<Rightarrow> discovery_call \<Rightarrow> instant step" where
  "prepare_discovery E z prompt t q =
     (let P = sq_platform E; now = dq_now q in
      and_then (writing (authorize_repairable_annotation_failures prompt ANNOTATION_FAILURE_RECOVERY_VERSION now ''ANNOTATION'')) (\<lambda>_.
      and_then (writing (authorize_repairable_annotation_failures TITLE_PROMPT_VERSION ANNOTATION_FAILURE_RECOVERY_VERSION now
                  ''TITLE_TRANSLATION'')) (\<lambda>_.
      and_then (writing (\<lambda>x. Inr (authorize_repairable_impact_failures IMPACT_PROMPT_VERSION IMPACT_FAILURE_RECOVERY_VERSION now x)))
        (\<lambda>_.
      and_then (on_lanes (install_annotation_contract_lanes P z prompt now)) (\<lambda>activated.
      and_then (on_transition (execute_transition_page P z t activated now (int CONTRACT_BACKFILL_PAGE_SIZE))) (\<lambda>_.
      and_then (on_lanes (install_downstream_work_provenance prompt now)) (\<lambda>_. done_with activated)))))))"

definition discover_jobs :: "sql_env \<Rightarrow> zone \<Rightarrow> string \<Rightarrow> semantic_transition \<Rightarrow> discovery_call \<Rightarrow> (discovered \<times> revision list) step" where
  "discover_jobs E z prompt t q =
     (let P = sq_platform E; now = dq_now q in
      and_then (prepare_discovery E z prompt t q) (\<lambda>activated.
      and_then (discover_annotations E z prompt (sx_kind t = MODEL_REVIEW_REQUIRED) activated q) (\<lambda>w.
      and_then (enqueue_annotations P prompt now w) (\<lambda>annotations.
      and_then (discover_impacts E prompt q) (\<lambda>impacts.
      and_then (reading (pending_title_translation_records E (dq_placeholder q) now (dq_limit q))) (\<lambda>titles.
      and_then (for_each (\<lambda>v. writing (enqueue_derived P prompt ACTIVE_IMPACT IMPACT_PROMPT_VERSION now (impact_row P v))) impacts)
        (\<lambda>i.
      and_then (for_each (\<lambda>n. writing (enqueue_derived P prompt TITLE_TRANSLATION TITLE_PROMPT_VERSION now (title_row n))) titles)
        (\<lambda>k.
        done_with (\<lparr>ds_annotations = length (aw_live w) + length (aw_backfill w), ds_impacts = i, ds_titles = k\<rparr>,
          aw_protected w)))))))))"

text \<open>
  The maintenance that follows: what the triggers have made of the derived tables by then, the cached acceptance, and
  whether the hooks are current and the database writable, are arguments.
\<close>

record maintenance_state =
  ms_derived :: derived
  ms_cache :: "(json \<times> instant) option"
  ms_hooks :: bool
  ms_writable :: bool

definition maintain_discovery ::
    "sql_env \<Rightarrow> string \<Rightarrow> maintenance_state \<Rightarrow> discovery_call \<Rightarrow> revision list \<Rightarrow> discovery_db \<Rightarrow> maintenance_db outcome" where
  "maintain_discovery E prompt s q protected x =
     bind_out (reconcile_completed_jobs E
       \<lparr>rq_now = dq_now q, rq_managed = True, rq_in_transaction = False, rq_days = dq_days q, rq_hooks_current = ms_hooks s,
        rq_writable = ms_writable s\<rparr> (maintenance_of (ms_derived s) (ms_cache s) x)) (\<lambda>(_, m).
     bind_out (reopen_protected_annotation_jobs E (map key_of protected) prompt (dq_now q) m) (\<lambda>(_, m'). Inr m'))"

definition sync_pending_jobs ::
    "sql_env \<Rightarrow> zone \<Rightarrow> (discovery_db \<Rightarrow> maintenance_state) \<Rightarrow> discovery_call \<Rightarrow> (discovered \<times> maintenance_db) step" where
  "sync_pending_jobs E z state_of q =
     and_then (reading (\<lambda>_. transition_for PREVIOUS_NEWS_PROMPT_VERSION CURRENT_NEWS_PROMPT_VERSION)) (\<lambda>t.
     and_then (discover_jobs E z CURRENT_NEWS_PROMPT_VERSION t q) (\<lambda>(found, protected).
     and_then (reading (\<lambda>x. maintain_discovery E CURRENT_NEWS_PROMPT_VERSION (state_of x) q protected x)) (\<lambda>m.
       done_with (found, m))))"

text \<open>\<open>pending_record_for_job\<close>: the row that a lease stands for, with its annotation's identifier.\<close>

definition pending_rows ::
    "sql_env \<Rightarrow> discovery_call \<Rightarrow> task_type \<Rightarrow> discovery_db \<Rightarrow> (source_key \<times> string) list outcome" where
  "pending_rows E q task x =
     (case task of
        ACTIVE_ANNOTATION \<Rightarrow>
          bind_out (pending_annotation_records E
            ((discovery_request CURRENT_NEWS_PROMPT_VERSION (dq_now q) 100000 (dq_days q))\<lparr>ar_discovery := False\<rparr>) x)
            (\<lambda>ns. Inr (map (\<lambda>n. (key_of n, [])) ns))
      | ACTIVE_IMPACT \<Rightarrow>
          bind_out (pending_impact_records (sq_platform E) (dq_json q) (dq_now q) 100000 CURRENT_NEWS_PROMPT_VERSION
            IMPACT_PROMPT_VERSION ''oldest'' x) (\<lambda>ws. Inr (map (\<lambda>w. (key_of (iw_revision w), nn_id (iw_note w))) ws))
      | TITLE_TRANSLATION \<Rightarrow>
          bind_out (pending_title_translation_records E (dq_placeholder q) (dq_now q) 100000 x)
            (\<lambda>ns. Inr (map (\<lambda>n. (key_of n, [])) ns)))"

definition pending_record_for_job ::
    "sql_env \<Rightarrow> discovery_call \<Rightarrow> job \<Rightarrow> discovery_db \<Rightarrow> (source_key \<times> string) option outcome" where
  "pending_record_for_job E q j x =
     bind_out (pending_rows E q (j_task j) x) (\<lambda>rows. Inr (find (\<lambda>r. r = (job_source_key j, j_annotation j)) rows))"

section \<open>Facts of the steps\<close>

lemma and_then_Inr:
  "and_then m k x = (Inr b, x') \<longleftrightarrow> (\<exists>a y. m x = (Inr a, y) \<and> k a y = (Inr b, x'))"
  by (auto simp: and_then_def split: prod.splits sum.splits)

lemma done_with_Inr [simp]: "done_with a x = (Inr b, x') \<longleftrightarrow> b = a \<and> x' = x"
  by (auto simp: done_with_def)

lemma reading_Inr [simp]: "reading f x = (Inr b, x') \<longleftrightarrow> f x = Inr b \<and> x' = x"
  by (auto simp: reading_def)

lemma writing_Inr [simp]: "writing f x = (Inr b, x') \<longleftrightarrow> f x = Inr (b, x')"
  by (auto simp: writing_def split: sum.splits)

text \<open>What every step of a loop keeps, the loop keeps.\<close>

lemma for_each_Cons:
  "for_each f (a # as) x = (Inr n, z) \<Longrightarrow> \<exists>k y m. f a x = (Inr k, y) \<and> for_each f as y = (Inr m, z) \<and> n = k + m"
  by (auto simp: and_then_Inr)

lemma for_each_invariant:
  assumes "for_each f as x = (Inr n, x')" "I x" "\<And>a x y m. a \<in> set as \<Longrightarrow> f a x = (Inr m, y) \<Longrightarrow> I x \<Longrightarrow> I y"
  shows "I x'"
  using assms
proof (induction as arbitrary: x n)
  case Nil
  then show ?case by simp
next
  case (Cons a as)
  from Cons.prems(1) obtain k y m where "f a x = (Inr k, y)" "for_each f as y = (Inr m, x')"
    by (auto simp: and_then_Inr)
  with Cons show ?case by (metis list.set_intros)
qed

lemma set_lanes_simps [simp]:
  "dx_lanes (set_lanes l x) = l" "dx_failures (set_lanes l x) = dx_failures x" "dx_skipped (set_lanes l x) = dx_skipped x"
  "dx_recoveries (set_lanes l x) = dx_recoveries x" "dx_overrides (set_lanes l x) = dx_overrides x"
  "dx_impact_failures (set_lanes l x) = dx_impact_failures x" "dx_assessments (set_lanes l x) = dx_assessments x"
  "dx_impact_recoveries (set_lanes l x) = dx_impact_recoveries x" "dx_resolutions (set_lanes l x) = dx_resolutions x"
  by (simp_all add: set_lanes_def)

lemma set_dx_jobs_simps [simp]:
  "dx_jobs (set_dx_jobs js x) = js" "dx_failures (set_dx_jobs js x) = dx_failures x" "dx_skipped (set_dx_jobs js x) = dx_skipped x"
  "dx_recoveries (set_dx_jobs js x) = dx_recoveries x" "dx_overrides (set_dx_jobs js x) = dx_overrides x"
  "dx_impact_failures (set_dx_jobs js x) = dx_impact_failures x" "dx_assessments (set_dx_jobs js x) = dx_assessments x"
  "dx_impact_recoveries (set_dx_jobs js x) = dx_impact_recoveries x" "dx_resolutions (set_dx_jobs js x) = dx_resolutions x"
  "dx_revisions (set_dx_jobs js x) = dx_revisions x" "dx_notes (set_dx_jobs js x) = dx_notes x"
  "ld_epoch (dx_ledger (set_dx_jobs js x)) = ld_epoch (dx_ledger x)"
  by (simp_all add: set_dx_jobs_def)

section \<open>A recovery reopens once\<close>

definition single_recoveries :: "discovery_db \<Rightarrow> bool" where
  "single_recoveries x \<longleftrightarrow>
     distinct (map (\<lambda>r. (rv_version r, rv_key r, rv_model r, rv_prompt r)) (dx_recoveries x)) \<and>
     distinct (map (\<lambda>r. (rv_failure r, rv_version r)) (dx_recoveries x))"

lemma insert_recovery_single:
  assumes "distinct (map (\<lambda>r. (rv_version r, rv_key r, rv_model r, rv_prompt r)) rows) \<and>
    distinct (map (\<lambda>r. (rv_failure r, rv_version r)) rows)"
  shows "distinct (map (\<lambda>r. (rv_version r, rv_key r, rv_model r, rv_prompt r)) (insert_recovery new rows)) \<and>
    distinct (map (\<lambda>r. (rv_failure r, rv_version r)) (insert_recovery new rows))"
  using assms by (auto simp: insert_recovery_def sql_insert_ignore_def list_ex_iff recovery_conflict_def)

lemma insert_recovery_fold:
  assumes "rows' = fold (\<lambda>f. insert_recovery (recovery_of version now f)) fs rows"
  shows "(distinct (map (\<lambda>r. (rv_version r, rv_key r, rv_model r, rv_prompt r)) rows) \<and>
      distinct (map (\<lambda>r. (rv_failure r, rv_version r)) rows) \<longrightarrow>
      distinct (map (\<lambda>r. (rv_version r, rv_key r, rv_model r, rv_prompt r)) rows') \<and>
      distinct (map (\<lambda>r. (rv_failure r, rv_version r)) rows')) \<and>
    (\<exists>new. rows' = rows @ new \<and> length new \<le> length fs \<and> (\<forall>r \<in> set new. rv_authorized r = now))"
  using assms
proof (induction fs arbitrary: rows)
  case Nil
  then show ?case by simp
next
  case (Cons f fs)
  let ?one = "insert_recovery (recovery_of version now f) rows"
  from Cons.IH [of ?one] Cons.prems obtain new where
    "rows' = ?one @ new" "length new \<le> length fs" "\<forall>r \<in> set new. rv_authorized r = now" by auto
  moreover have "?one = rows \<or> ?one = rows @ [recovery_of version now f]"
    by (simp add: insert_recovery_def sql_insert_ignore_def)
  ultimately have "\<exists>new. rows' = rows @ new \<and> length new \<le> length (f # fs) \<and> (\<forall>r \<in> set new. rv_authorized r = now)"
    by (auto simp: recovery_of_def)
  with Cons.IH [of ?one] Cons.prems insert_recovery_single [of rows "recovery_of version now f"] show ?case by auto
qed

lemma not_reopened_now:
  assumes "\<forall>r \<in> set (dx_recoveries x). rv_authorized r \<le> now" "j_updated_at j = now"
  shows "\<not> reopens_annotation name task prompt version x j"
  using assms by (auto simp: reopens_annotation_def list_ex_iff)

text \<open>
  C35: A recovery authorizes at most 200 attempts and one of each revision, model and contract, and changes none of the
  failures that it recovers. Every job that it covers is back in the queue, due at once, without a lease, an error or an
  end and with its other columns kept; every other job is unchanged; and it happens once: what is left is covered by none.
\<close>

theorem recovery_reopens_once:
  assumes "authorize_repairable_annotation_failures prompt version now name x = Inr (k, x')"
    "recovery_job name = Some task" "single_recoveries x" "\<forall>r \<in> set (dx_recoveries x). rv_authorized r \<le> now"
  shows "0 \<le> k \<and> k \<le> 200 \<and> single_recoveries x' \<and> dx_failures x' = dx_failures x \<and>
    (\<exists>new. dx_recoveries x' = dx_recoveries x @ new \<and> int (length new) = k) \<and>
    dx_jobs x' = map (\<lambda>j. if reopens_annotation name task prompt version (x\<lparr>dx_recoveries := dx_recoveries x'\<rparr>) j
      then j\<lparr>j_state := QUEUED, j_available_at := now, j_lease_owner := None, j_lease_expires_at := None,
             j_last_error := None, j_updated_at := now, j_completed_at := None\<rparr>
      else j) (dx_jobs x) \<and>
    (\<forall>j \<in> set (dx_jobs x'). \<not> reopens_annotation name task prompt version x' j)"
proof -
  let ?rows = "take RECOVERY_PAGE (sort_key (\<lambda>f. (lf_failed f, lf_id f)) (filter (repairable name prompt version now x) (dx_failures x)))"
  let ?all = "fold (\<lambda>f. insert_recovery (recovery_of version now f)) ?rows (dx_recoveries x)"
  let ?x1 = "x\<lparr>dx_recoveries := ?all\<rparr>"
  let ?p = "reopens_annotation name task prompt version ?x1"
  have x': "x' = set_dx_jobs (sql_update ?p (recovered_row now) (dx_jobs x)) ?x1"
    and k: "k = int (length ?all) - int (length (dx_recoveries x))"
    using assms(1,2) by (simp_all add: authorize_repairable_annotation_failures_def Let_def)
  from insert_recovery_fold [where rows' = ?all and version = version and now = now and fs = ?rows and rows = "dx_recoveries x", OF refl] assms(3) obtain new where
    new: "?all = dx_recoveries x @ new" "length new \<le> length ?rows" "\<forall>r \<in> set new. rv_authorized r = now"
    and single: "single_recoveries ?x1"
    by (auto simp: single_recoveries_def)
  have "length new \<le> 200" using new(2) by (simp add: RECOVERY_PAGE_def)
  moreover have "k = int (length new)" using k new(1) by simp
  moreover have "single_recoveries x'" using single by (simp add: x' single_recoveries_def)
  moreover have "dx_recoveries x' = dx_recoveries x @ new" using new(1) by (simp add: x')
  moreover have "dx_jobs x' = map (\<lambda>j. if reopens_annotation name task prompt version (x\<lparr>dx_recoveries := dx_recoveries x'\<rparr>) j
      then j\<lparr>j_state := QUEUED, j_available_at := now, j_lease_owner := None, j_lease_expires_at := None,
             j_last_error := None, j_updated_at := now, j_completed_at := None\<rparr>
      else j) (dx_jobs x)"
    by (simp add: x' sql_update_def recovered_row_def)
  moreover have "\<not> reopens_annotation name task prompt version x' j" if "j \<in> set (dx_jobs x')" for j
  proof -
    have early: "\<forall>r \<in> set (dx_recoveries x'). rv_authorized r \<le> now" using new assms(4) by (auto simp: x')
    have same: "reopens_annotation name task prompt version x' i = ?p i" for i
      by (simp add: x' reopens_annotation_def recoverable_job_def rescheduled_by_hand_def)
    from that obtain i where i: "i \<in> set (dx_jobs x)" and j: "j = (if ?p i then recovered_row now i else i)"
      by (auto simp: x' sql_update_def)
    show ?thesis
    proof (cases "?p i")
      case True
      with j have "j_updated_at j = now" by (simp add: recovered_row_def)
      with early show ?thesis by (rule not_reopened_now)
    next
      case False
      with j same show ?thesis by simp
    qed
  qed
  ultimately show ?thesis by (auto simp: x')
qed

section \<open>What a reader returns\<close>

lemma pending_annotationD:
  assumes "pending_annotation_records E q x = Inr ns"
  shows "int (length ns) \<le> max 1 (ar_limit q)"
    "n \<in> set ns \<Longrightarrow> \<exists>epoch. ld_epoch (dx_ledger x) = Some epoch \<and> n \<in> set (dx_revisions x) \<and> annotation_pending E epoch q x n"
proof -
  have rows: "set (ordered_rows E q rows) = set rows" for rows by (simp add: ordered_rows_def)
  consider "ns = []" | epoch where "ld_epoch (dx_ledger x) = Some epoch"
      "ns = filter (semantically_eligible epoch) (take (nat (max 1 (ar_limit q)))
         (ordered_rows E q (filter (annotation_pending E epoch q x) (dx_revisions x))))"
    using assms by (auto simp: pending_annotation_records_def bind_out_Inr_iff split: if_splits option.splits)
  then have "int (length ns) \<le> max 1 (ar_limit q) \<and> (n \<in> set ns \<longrightarrow>
      (\<exists>epoch. ld_epoch (dx_ledger x) = Some epoch \<and> n \<in> set (dx_revisions x) \<and> annotation_pending E epoch q x n))"
  proof cases
    case 1
    then show ?thesis by simp
  next
    case 2
    let ?all = "ordered_rows E q (filter (annotation_pending E epoch q x) (dx_revisions x))"
    have "length ns \<le> nat (max 1 (ar_limit q))"
      unfolding 2(2) by (rule order_trans [OF length_filter_le]) simp
    moreover have "n \<in> set ?all" if "n \<in> set ns" using that set_take_subset [of _ ?all] by (auto simp: 2(2))
    ultimately show ?thesis using 2(1) rows by auto
  qed
  then show "int (length ns) \<le> max 1 (ar_limit q)"
    "n \<in> set ns \<Longrightarrow> \<exists>epoch. ld_epoch (dx_ledger x) = Some epoch \<and> n \<in> set (dx_revisions x) \<and> annotation_pending E epoch q x n"
    by auto
qed

lemma filter_out_length: "filter_out p as = Inr bs \<Longrightarrow> length bs \<le> length as"
  by (induction as arbitrary: bs) (fastforce simp: bind_out_Inr_iff split: if_splits)+

text \<open>The page reads the evidence and moves the cursor only.\<close>

definition cursor_moved :: "discovery_db \<Rightarrow> discovery_db \<Rightarrow> bool" where
  "cursor_moved x y \<longleftrightarrow> (\<exists>backfills. y = set_lanes ((dx_lanes x)\<lparr>wl_backfills := backfills\<rparr>) x)"

lemma cursor_moved_keeps:
  assumes "cursor_moved x y"
  shows "dx_ledger y = dx_ledger x" "dx_failures y = dx_failures x" "dx_skipped y = dx_skipped x"
    "dx_recoveries y = dx_recoveries x" "dx_assessments y = dx_assessments x" "dx_resolutions y = dx_resolutions x"
  using assms by (auto simp: cursor_moved_def)

lemma cursor_moved_refl [simp]: "cursor_moved x x"
  unfolding cursor_moved_def
  by (rule exI [of _ "wl_backfills (dx_lanes x)"]) (simp add: set_lanes_def)

lemma contract_backfill_pageD:
  assumes "contract_backfill_page E z prompt activated now page x = Inr (ns, y)"
  shows "cursor_moved x y" "int (length ns) \<le> max 0 page"
proof -
  have "(ns = [] \<and> y = x) \<or>
      (\<exists>s scanned. 0 < page \<and> pending_annotation_records E (backfill_request prompt activated now page s) x = Inr scanned \<and>
        filter_out (contract_backfill_has_current_value (sq_platform E) z activated prompt (dx_lanes x)) scanned = Inr ns \<and>
        y = set_lanes ((dx_lanes x)\<lparr>wl_backfills := sql_update (\<lambda>b. bf_prompt b = prompt)
               (advance_backfill prompt now page scanned) (wl_backfills (dx_lanes x))\<rparr>) x)"
  proof (cases "find_backfill prompt (dx_lanes x)")
    case None
    with assms show ?thesis by (simp add: contract_backfill_page_def)
  next
    case (Some s)
    show ?thesis
    proof (cases "bf_state s = COMPLETE \<or> page \<le> 0")
      case True
      with Some assms show ?thesis by (simp add: contract_backfill_page_def)
    next
      case False
      with Some assms obtain scanned where
        "pending_annotation_records E (backfill_request prompt activated now page s) x = Inr scanned"
        "filter_out (contract_backfill_has_current_value (sq_platform E) z activated prompt (dx_lanes x)) scanned = Inr ns"
        "y = set_lanes ((dx_lanes x)\<lparr>wl_backfills := sql_update (\<lambda>b. bf_prompt b = prompt)
               (advance_backfill prompt now page scanned) (wl_backfills (dx_lanes x))\<rparr>) x"
        by (simp add: contract_backfill_page_def bind_out_Inr_iff Let_def) metis
      with False show ?thesis by force
    qed
  qed
  then consider "ns = []" "y = x"
    | s scanned where "0 < page" "pending_annotation_records E (backfill_request prompt activated now page s) x = Inr scanned"
        "filter_out (contract_backfill_has_current_value (sq_platform E) z activated prompt (dx_lanes x)) scanned = Inr ns"
        "y = set_lanes ((dx_lanes x)\<lparr>wl_backfills := sql_update (\<lambda>b. bf_prompt b = prompt)
               (advance_backfill prompt now page scanned) (wl_backfills (dx_lanes x))\<rparr>) x"
    by blast
  then have "cursor_moved x y \<and> int (length ns) \<le> max 0 page"
  proof cases
    case 1
    then show ?thesis by simp
  next
    case 2
    have "int (length scanned) \<le> max 1 (backfill_page_size page)"
      using pending_annotationD(1) [OF 2(2)] by (simp add: backfill_request_def discovery_request_def)
    then have "int (length ns) \<le> page"
      using filter_out_length [OF 2(3)] 2(1) by (simp add: backfill_page_size_def CONTRACT_BACKFILL_PAGE_SIZE_def)
    then show ?thesis using 2(4) by (auto simp: cursor_moved_def)
  qed
  then show "cursor_moved x y" "int (length ns) \<le> max 0 page" by auto
qed

lemma by_revision_facts: "set (by_revision rows) \<subseteq> set rows \<and> length (by_revision rows) \<le> length rows \<and>
    key_of ` set (by_revision rows) = key_of ` set rows"
proof -
  have "set (fold (\<lambda>n. sql_upsert key_of (\<lambda>_. n) n) rows acc) \<subseteq> set acc \<union> set rows \<and>
      length (fold (\<lambda>n. sql_upsert key_of (\<lambda>_. n) n) rows acc) \<le> length acc + length rows \<and>
      key_of ` set (fold (\<lambda>n. sql_upsert key_of (\<lambda>_. n) n) rows acc) = key_of ` (set acc \<union> set rows)" for acc
  proof (induction rows arbitrary: acc)
    case Nil
    then show ?case by simp
  next
    case (Cons n rows)
    let ?acc = "sql_upsert key_of (\<lambda>_. n) n acc"
    have acc: "set ?acc \<subseteq> insert n (set acc)" "length ?acc \<le> Suc (length acc)"
      by (auto simp: sql_upsert_def sql_update_def)
    have "key_of ` set ?acc = insert (key_of n) (key_of ` set acc)"
    proof (cases "key_of n \<in> key_of ` set acc")
      case True
      have "key_of (if key_of r = key_of n then n else r) = key_of r" for r by simp
      then have "key_of ` set (sql_update (\<lambda>r. key_of r = key_of n) (\<lambda>_. n) acc) = key_of ` set acc"
        unfolding sql_update_def set_map image_image by simp
      with True show ?thesis by (auto simp: sql_upsert_def)
    next
      case False
      then show ?thesis by (auto simp: sql_upsert_def)
    qed
    with acc Cons.IH [of ?acc] show ?case by (auto simp: image_Un)
  qed
  from this [of "[]"] show ?thesis by (simp add: by_revision_def)
qed

lemma live_reads: "live_annotations E prompt activated q x = (Inr ns, y) \<Longrightarrow> y = x"
  by (simp add: live_annotations_def)

lemma protected_reads: "protected_annotations E prompt review activated q x = (Inr ns, y) \<Longrightarrow> y = x"
  by (simp add: protected_annotations_def Let_def split: if_splits)

lemma discover_annotationsD:
  assumes "discover_annotations E z prompt review activated q x = (Inr w, y)"
  shows "cursor_moved x y"
    "int (length (aw_live w) + length (aw_backfill w)) \<le> max 1 (dq_limit q)"
    "n \<in> set (aw_live w) \<union> set (aw_protected w) \<Longrightarrow>
       \<exists>epoch r. ld_epoch (dx_ledger x) = Some epoch \<and> n \<in> set (dx_revisions x) \<and> annotation_pending E epoch r x n \<and>
         ar_prompt r = prompt \<and> ar_days r = dq_days q \<and> ar_discovery r"
    "n \<in> set (aw_live w) \<union> set (aw_protected w) \<Longrightarrow>
       \<exists>m \<in> set (aw_live w) \<union> set (aw_backfill w). key_of m = key_of n"
proof -
  from assms obtain live protected backfill where
    live: "live_annotations E prompt activated q x = (Inr live, x)"
    and prot: "protected_annotations E prompt review activated q x = (Inr protected, x)"
    and paged: "(if review
         then writing (contract_backfill_page E z prompt activated (dq_now q)
                (max 0 (backfill_capacity (dq_limit q) - int (length protected))))
         else done_with []) x = (Inr backfill, y)"
    and w: "w = \<lparr>aw_live = by_revision live, aw_protected = protected,
        aw_backfill = by_revision (unowned_by live (protected @ backfill))\<rparr>"
    unfolding discover_annotations_def and_then_Inr done_with_Inr by (metis live_reads protected_reads)
  have page: "cursor_moved x y \<and> int (length backfill) \<le> max 0 (backfill_capacity (dq_limit q) - int (length protected))"
    using paged contract_backfill_pageD [where E = E and z = z and prompt = prompt and activated = activated and x = x]
    by (fastforce split: if_splits)
  then show "cursor_moved x y" by simp
  have l: "int (length live) \<le> live_capacity (dq_limit q)"
    using live pending_annotationD(1) unfolding live_annotations_def
    by (fastforce simp: discovery_request_def live_capacity_def)
  have p: "int (length protected) \<le> backfill_capacity (dq_limit q)"
  proof (cases "protected_capacity prompt review q x = 0")
    case True
    with prot have "protected = []" by (simp add: protected_annotations_def)
    then show ?thesis by (simp add: backfill_capacity_def)
  next
    case False
    with prot pending_annotationD(1) have "int (length protected) \<le> max 1 (protected_capacity prompt review q x)"
      unfolding protected_annotations_def by (fastforce simp: discovery_request_def Let_def)
    moreover have "1 \<le> protected_capacity prompt review q x \<and> protected_capacity prompt review q x \<le> backfill_capacity (dq_limit q)"
      using False by (auto simp: protected_capacity_def ordinary_reserve_def backfill_capacity_def CONTRACT_BACKFILL_PAGE_SIZE_def
          split: if_splits)
    ultimately show ?thesis by linarith
  qed
  have "length (aw_backfill w) \<le> length protected + length backfill"
    using by_revision_facts [of "unowned_by live (protected @ backfill)"]
      length_filter_le [of "\<lambda>n. key_of n \<notin> key_of ` set live" "protected @ backfill"]
    by (simp add: w unowned_by_def)
  moreover have "length (aw_live w) \<le> length live" using by_revision_facts [of live] by (simp add: w)
  moreover have "live_capacity (dq_limit q) + backfill_capacity (dq_limit q) \<le> max 1 (dq_limit q)"
    by (auto simp: live_capacity_def backfill_capacity_def)
  ultimately show "int (length (aw_live w) + length (aw_backfill w)) \<le> max 1 (dq_limit q)"
    using l p page by linarith
  have keys: "key_of ` set (aw_live w) = key_of ` set live"
    "key_of ` set (aw_backfill w) = key_of ` set (unowned_by live (protected @ backfill))"
    using by_revision_facts unfolding w by simp_all
  have covered: "key_of n \<in> key_of ` set (aw_live w) \<or> key_of n \<in> key_of ` set (aw_backfill w)"
    if "n \<in> set (aw_live w) \<union> set (aw_protected w)"
  proof -
    have "n \<in> set (by_revision live) \<or> n \<in> set protected" using that by (simp add: w)
    then have "key_of n \<in> key_of ` set live \<or> n \<in> set protected" using by_revision_facts [of live] by blast
    then show ?thesis unfolding keys by (cases "key_of n \<in> key_of ` set live") (auto simp: unowned_by_def)
  qed
  show "\<exists>m \<in> set (aw_live w) \<union> set (aw_backfill w). key_of m = key_of n"
    if "n \<in> set (aw_live w) \<union> set (aw_protected w)"
    using covered [OF that] by (metis UnCI imageE)
  assume n: "n \<in> set (aw_live w) \<union> set (aw_protected w)"
  then have "n \<in> set live \<or> n \<in> set protected" using by_revision_facts [of live] by (auto simp: w)
  then show "\<exists>epoch r. ld_epoch (dx_ledger x) = Some epoch \<and> n \<in> set (dx_revisions x) \<and> annotation_pending E epoch r x n \<and>
      ar_prompt r = prompt \<and> ar_days r = dq_days q \<and> ar_discovery r"
  proof
    assume "n \<in> set live"
    with live pending_annotationD(2) show ?thesis
      unfolding live_annotations_def by (fastforce simp: discovery_request_def)
  next
    assume "n \<in> set protected"
    with prot pending_annotationD(2) show ?thesis
      unfolding protected_annotations_def by (fastforce simp: discovery_request_def Let_def split: if_splits)
  qed
qed

section \<open>What enqueueing does to the jobs\<close>

definition row_identity :: "string \<Rightarrow> revision \<Rightarrow> task_type \<times> string \<times> string \<times> int \<times> string \<times> string" where
  "row_identity prompt n = (ACTIVE_ANNOTATION, vn_source n, vn_item n, vn_number n, [], prompt)"

definition row_job_id :: "platform \<Rightarrow> string \<Rightarrow> revision \<Rightarrow> string" where
  "row_job_id P prompt n = job_hash P ''ACTIVE_ANNOTATION'' (vn_source n) (vn_item n) (vn_number n) [] prompt"

lemma row_identity_iff: "row_identity prompt m = row_identity prompt n \<longleftrightarrow> key_of m = key_of n"
  by (simp add: row_identity_def key_of_def)

text \<open>A job is as it was, or was complete and is queued again.\<close>

definition continues :: "job \<Rightarrow> job \<Rightarrow> bool" where
  "continues i j \<longleftrightarrow>
     job_identity j = job_identity i \<and> j_id j = j_id i \<and> (j_state i = DEAD_LETTER \<longrightarrow> j = i) \<and>
     ((j_state j = j_state i \<and> j_last_error j = j_last_error i) \<or>
      (j_state i = COMPLETED \<and> j_state j = QUEUED \<and> j_last_error j = None))"

definition fresh_for :: "platform \<Rightarrow> string \<Rightarrow> revision set \<Rightarrow> job list \<Rightarrow> job \<Rightarrow> bool" where
  "fresh_for P prompt ns js j \<longleftrightarrow>
     (\<exists>n \<in> ns. job_identity j = row_identity prompt n \<and> j_id j = row_job_id P prompt n) \<and>
     j_state j = QUEUED \<and> j_last_error j = None \<and> job_identity j \<notin> job_identity ` set js"

definition grows_by :: "platform \<Rightarrow> string \<Rightarrow> revision set \<Rightarrow> job list \<Rightarrow> job list \<Rightarrow> bool" where
  "grows_by P prompt ns js js' \<longleftrightarrow>
     (\<forall>j \<in> set js'. (\<exists>i \<in> set js. continues i j) \<or> fresh_for P prompt ns js j) \<and>
     (\<forall>i \<in> set js. \<exists>j \<in> set js'. continues i j)"

lemma continues_refl [simp]: "continues i i"
  by (simp add: continues_def)

lemma continues_trans: "continues i j \<Longrightarrow> continues j k \<Longrightarrow> continues i k"
  unfolding continues_def by auto

lemma grows_byI:
  assumes "\<And>j. j \<in> set js' \<Longrightarrow> (\<exists>i \<in> set js. continues i j) \<or> fresh_for P prompt ns js j"
    "\<And>i. i \<in> set js \<Longrightarrow> \<exists>j \<in> set js'. continues i j"
  shows "grows_by P prompt ns js js'"
  unfolding grows_by_def using assms by blast

lemma grows_byE:
  assumes "grows_by P prompt ns js js'" "j \<in> set js'"
  obtains i where "i \<in> set js" "continues i j" | "fresh_for P prompt ns js j"
  using assms unfolding grows_by_def by blast

lemma grows_byD: "grows_by P prompt ns js js' \<Longrightarrow> i \<in> set js \<Longrightarrow> \<exists>j \<in> set js'. continues i j"
  unfolding grows_by_def by blast

lemma continuesD:
  assumes "continues i j"
  shows "job_identity j = job_identity i" "j_id j = j_id i" "j_state i = DEAD_LETTER \<Longrightarrow> j = i"
    "j_state j = COMPLETED \<Longrightarrow> j_state i = COMPLETED"
    "j_state i = QUEUED \<Longrightarrow> j_state j = QUEUED \<and> j_last_error j = j_last_error i"
  using assms unfolding continues_def by auto

lemma fresh_continues: "fresh_for P prompt ns js i \<Longrightarrow> continues i j \<Longrightarrow> fresh_for P prompt ns js j"
  using continuesD [of i j] unfolding fresh_for_def by metis

lemma grows_by_refl [simp]: "grows_by P prompt ns js js"
  by (rule grows_byI) (use continues_refl in blast)+

lemma grows_by_trans:
  assumes "grows_by P prompt ns js js1" "grows_by P prompt ns js1 js2"
  shows "grows_by P prompt ns js js2"
proof -
  have ids: "job_identity ` set js \<subseteq> job_identity ` set js1"
  proof
    fix u
    assume "u \<in> job_identity ` set js"
    then obtain i where i: "i \<in> set js" "u = job_identity i" by blast
    from grows_byD [OF assms(1) i(1)] obtain j where "j \<in> set js1" "continues i j" by blast
    then show "u \<in> job_identity ` set js1" using continuesD(1) i(2) by (metis image_eqI)
  qed
  show ?thesis
  proof (rule grows_byI)
    fix j
    assume "j \<in> set js2"
    with assms(2) show "(\<exists>i \<in> set js. continues i j) \<or> fresh_for P prompt ns js j"
    proof (cases rule: grows_byE)
      case (1 i)
      from assms(1) 1(1) show ?thesis
      proof (cases rule: grows_byE)
        case (1 h)
        with \<open>continues i j\<close> continues_trans show ?thesis by blast
      next
        case 2
        with \<open>continues i j\<close> fresh_continues show ?thesis by blast
      qed
    next
      case 2
      then show ?thesis using ids unfolding fresh_for_def by blast
    qed
  next
    fix i
    assume "i \<in> set js"
    then obtain k where "k \<in> set js1" "continues i k" using grows_byD [OF assms(1)] by blast
    moreover from this obtain j where "j \<in> set js2" "continues k j" using grows_byD [OF assms(2)] by blast
    ultimately show "\<exists>j \<in> set js2. continues i j" using continues_trans by blast
  qed
qed

lemma grows_by_mono: "grows_by P prompt ms js js' \<Longrightarrow> ms \<subseteq> ns \<Longrightarrow> grows_by P prompt ns js js'"
  unfolding grows_by_def fresh_for_def by blast

text \<open>One annotation job: inserted or there, brought into its lane, and put back in the queue when it was complete.\<close>

lemma enqueue_annotationD:
  assumes "enqueue_annotation P prompt lane now n x = (Inr k, y)"
  shows "\<exists>prio prov. y = set_dx_jobs (reopen_job (row_job_id P prompt n) now (reclassify_job (row_job_id P prompt n) lane prio prov
     (insert_job (new_job (annotation_enqueue prompt lane n) (row_job_id P prompt n) ACTIVE_ANNOTATION prio lane prov now)
       (dx_jobs x)))) x"
proof -
  from assms obtain jid db' where e: "enqueue_job P (annotation_enqueue prompt lane n) now (empty_db\<lparr>db_jobs := dx_jobs x\<rparr>) = Inr (jid, db')"
    and y: "y = set_dx_jobs (db_jobs db') x"
    by (auto simp: enqueue_annotation_def enqueue_in_def bind_out_Inr_iff)
  from e show ?thesis
  proof (cases rule: enqueue_jobE)
    case (1 task prio lane' prov)
    have "task = ACTIVE_ANNOTATION"
      using 1(1) task_of_name [of ACTIVE_ANNOTATION] by (simp add: annotation_enqueue_def)
    moreover have "lane' = lane" using 1(3) by (simp add: annotation_enqueue_def)
    ultimately show ?thesis using 1(5,6) y
      by (auto simp: annotation_enqueue_def row_job_id_def intro!: exI [of _ prio] exI [of _ prov])
  qed
qed

lemma new_job_simps:
  "job_identity (new_job (annotation_enqueue prompt lane n) jid ACTIVE_ANNOTATION prio lane prov now) = row_identity prompt n"
  "j_id (new_job q jid task prio lane prov now) = jid" "j_state (new_job q jid task prio lane prov now) = QUEUED"
  "j_last_error (new_job q jid task prio lane prov now) = None"
  by (simp_all add: new_job_def job_identity_def row_identity_def annotation_enqueue_def)

text \<open>The two updates together, as one map.\<close>

definition requeued :: "string \<Rightarrow> instant \<Rightarrow> work_lane \<Rightarrow> priority \<Rightarrow> work_provenance \<Rightarrow> job \<Rightarrow> job" where
  "requeued jid now lane prio prov j =
     (if j_id j \<noteq> jid then j
      else if queued_or_backing_off j
      then j\<lparr>j_lane := lane, j_priority := prio, j_lane_classified := True, j_provenance_resolved := True,
        j_provenance_version := Some WORK_PROVENANCE_VERSION, j_origin_task := Some (wp_origin_task prov),
        j_origin_ref := Some (wp_origin_ref prov)\<rparr>
      else if j_state j = COMPLETED
      then j\<lparr>j_state := QUEUED, j_available_at := now, j_lease_owner := None, j_lease_expires_at := None,
        j_last_error := None, j_updated_at := now, j_completed_at := None\<rparr>
      else j)"

lemma requeued_is_reopened:
  "reopen_job jid now (reclassify_job jid lane prio prov js) = map (requeued jid now lane prio prov) js"
  unfolding reopen_job_def reclassify_job_def sql_update_def
  by (auto simp: requeued_def queued_or_backing_off_def)

lemma continues_requeued: "continues i (requeued jid now lane prio prov i)"
  by (simp add: continues_def job_identity_def queued_or_backing_off_def requeued_def)

lemma requeued_not_complete: "j_id i = jid \<Longrightarrow> j_state (requeued jid now lane prio prov i) \<noteq> COMPLETED"
  by (simp add: requeued_def queued_or_backing_off_def)

lemma reclassify_reopen_continues:
  assumes "j \<in> set (reopen_job jid now (reclassify_job jid lane prio prov js))"
  shows "\<exists>i \<in> set js. continues i j \<and> (j_id j = jid \<longrightarrow> j_state j \<noteq> COMPLETED)"
proof -
  from assms obtain i where "i \<in> set js" "j = requeued jid now lane prio prov i"
    unfolding requeued_is_reopened by auto
  with continues_requeued [of i jid now lane prio prov] requeued_not_complete [of i jid now lane prio prov] continuesD(2)
  show ?thesis by metis
qed

lemma continued_by_reclassify_reopen:
  assumes "i \<in> set js"
  shows "\<exists>j \<in> set (reopen_job jid now (reclassify_job jid lane prio prov js)). continues i j"
proof
  show "requeued jid now lane prio prov i \<in> set (reopen_job jid now (reclassify_job jid lane prio prov js))"
    unfolding requeued_is_reopened using assms by simp
  show "continues i (requeued jid now lane prio prov i)" by (rule continues_requeued)
qed

definition ids_name_rows :: "platform \<Rightarrow> string \<Rightarrow> revision set \<Rightarrow> job list \<Rightarrow> bool" where
  "ids_name_rows P prompt ns js \<longleftrightarrow>
     (\<forall>n \<in> ns. \<forall>j \<in> set js. j_id j = row_job_id P prompt n \<longleftrightarrow> job_identity j = row_identity prompt n)"

definition served :: "string \<Rightarrow> revision \<Rightarrow> job list \<Rightarrow> bool" where
  "served prompt n js \<longleftrightarrow>
     (\<exists>j \<in> set js. job_identity j = row_identity prompt n) \<and>
     (\<forall>j \<in> set js. job_identity j = row_identity prompt n \<longrightarrow> j_state j \<noteq> COMPLETED)"

lemma enqueue_annotation_grows:
  assumes "enqueue_annotation P prompt lane now n x = (Inr k, y)" "ids_name_rows P prompt {n} (dx_jobs x)"
  shows "\<exists>js. y = set_dx_jobs js x \<and> grows_by P prompt {n} (dx_jobs x) js \<and> served prompt n js"
proof -
  let ?jid = "row_job_id P prompt n"
  from enqueue_annotationD [OF assms(1)] obtain prio prov where y:
    "y = set_dx_jobs (reopen_job ?jid now (reclassify_job ?jid lane prio prov
       (insert_job (new_job (annotation_enqueue prompt lane n) ?jid ACTIVE_ANNOTATION prio lane prov now) (dx_jobs x)))) x"
    by blast
  define new where "new = new_job (annotation_enqueue prompt lane n) ?jid ACTIVE_ANNOTATION prio lane prov now"
  define js1 where "js1 = insert_job new (dx_jobs x)"
  define js where "js = reopen_job ?jid now (reclassify_job ?jid lane prio prov js1)"
  have new: "job_identity new = row_identity prompt n" "j_id new = ?jid" "j_state new = QUEUED" "j_last_error new = None"
    unfolding new_def by (rule new_job_simps)+
  have js1: "js1 = dx_jobs x \<and> (\<exists>j \<in> set (dx_jobs x). job_identity j = row_identity prompt n) \<or>
      js1 = dx_jobs x @ [new] \<and> row_identity prompt n \<notin> job_identity ` set (dx_jobs x)"
    using assms(2) new(1,2) by (auto simp: js1_def insert_job_def sql_insert_ignore_def list_ex_iff ids_name_rows_def)
  then have one: "grows_by P prompt {n} (dx_jobs x) js1"
  proof
    assume "js1 = dx_jobs x \<and> (\<exists>j \<in> set (dx_jobs x). job_identity j = row_identity prompt n)"
    then show ?thesis by simp
  next
    assume a: "js1 = dx_jobs x @ [new] \<and> row_identity prompt n \<notin> job_identity ` set (dx_jobs x)"
    then have "fresh_for P prompt {n} (dx_jobs x) new" using new by (simp add: fresh_for_def)
    with a show ?thesis
      by (intro grows_byI) (simp, metis continues_refl, simp, metis continues_refl)
  qed
  have "grows_by P prompt {n} js1 js"
    unfolding js_def
    by (rule grows_byI) (use reclassify_reopen_continues continued_by_reclassify_reopen in blast)+
  with one have "grows_by P prompt {n} (dx_jobs x) js" by (rule grows_by_trans)
  moreover have "served prompt n js"
  proof -
    have "\<exists>i \<in> set js1. job_identity i = row_identity prompt n"
      using js1
    proof
      assume "js1 = dx_jobs x @ [new] \<and> row_identity prompt n \<notin> job_identity ` set (dx_jobs x)"
      then have "new \<in> set js1" by simp
      with new(1) show ?thesis by blast
    qed simp
    then obtain i where "i \<in> set js1" "job_identity i = row_identity prompt n" by blast
    with continued_by_reclassify_reopen [of i js1 ?jid now lane prio prov]
    have "\<exists>j \<in> set js. job_identity j = row_identity prompt n" by (auto simp: js_def continues_def)
    moreover have "j_state j \<noteq> COMPLETED" if j: "j \<in> set js" "job_identity j = row_identity prompt n" for j
    proof -
      from reclassify_reopen_continues [OF j(1) [unfolded js_def]] obtain i where
        i: "i \<in> set js1" "continues i j" "j_id j = ?jid \<longrightarrow> j_state j \<noteq> COMPLETED" by blast
      have "job_identity i = row_identity prompt n" using continuesD(1) [OF i(2)] j(2) by simp
      then have "j_id i = ?jid" using i(1) js1 new assms(2) by (auto simp: ids_name_rows_def)
      with i(3) continuesD(2) [OF i(2)] show ?thesis by simp
    qed
    ultimately show ?thesis by (simp add: served_def)
  qed
  ultimately show ?thesis using y by (auto simp: js_def js1_def new_def)
qed

text \<open>The rows of a call have identifiers of their own.\<close>

definition distinct_names :: "platform \<Rightarrow> string \<Rightarrow> revision set \<Rightarrow> bool" where
  "distinct_names P prompt ns \<longleftrightarrow>
     (\<forall>m \<in> ns. \<forall>n \<in> ns. row_job_id P prompt m = row_job_id P prompt n \<longrightarrow> key_of m = key_of n)"

lemma ids_name_rows_grows:
  assumes "ids_name_rows P prompt ns js" "grows_by P prompt ns js js'" "distinct_names P prompt ns"
  shows "ids_name_rows P prompt ns js'"
  unfolding ids_name_rows_def
proof (intro ballI)
  fix n j
  assume n: "n \<in> ns" and j: "j \<in> set js'"
  from assms(2) j show "j_id j = row_job_id P prompt n \<longleftrightarrow> job_identity j = row_identity prompt n"
  proof (cases rule: grows_byE)
    case (1 i)
    have "j_id i = row_job_id P prompt n \<longleftrightarrow> job_identity i = row_identity prompt n"
      using assms(1) n 1(1) unfolding ids_name_rows_def by blast
    with continuesD(1,2) [OF 1(2)] show ?thesis by simp
  next
    case 2
    then obtain m where m: "m \<in> ns" "job_identity j = row_identity prompt m" "j_id j = row_job_id P prompt m"
      by (auto simp: fresh_for_def)
    have "row_job_id P prompt m = row_job_id P prompt n" if "key_of m = key_of n"
      using that by (simp add: row_job_id_def key_of_def)
    then have "row_job_id P prompt m = row_job_id P prompt n \<longleftrightarrow> key_of m = key_of n"
      using m(1) n assms(3) unfolding distinct_names_def by blast
    then show ?thesis unfolding m(2,3) row_identity_iff .
  qed
qed

lemma served_grows: "served prompt n js \<Longrightarrow> grows_by P prompt ns js js' \<Longrightarrow> served prompt n js'"
proof -
  assume s: "served prompt n js" and g: "grows_by P prompt ns js js'"
  have "\<exists>j \<in> set js'. job_identity j = row_identity prompt n"
    using s grows_byD [OF g] continuesD(1) unfolding served_def by metis
  moreover have "j_state j \<noteq> COMPLETED" if j: "j \<in> set js'" "job_identity j = row_identity prompt n" for j
    using g j(1)
  proof (cases rule: grows_byE)
    case (1 i)
    with continuesD(1,4) [OF 1(2)] j(2) s show ?thesis unfolding served_def by metis
  next
    case 2
    then show ?thesis by (simp add: fresh_for_def)
  qed
  ultimately show "served prompt n js'" by (simp add: served_def)
qed

lemma enqueue_rows_grow:
  assumes "for_each (enqueue_annotation P prompt lane now) rows x = (Inr k, y)" "set rows \<subseteq> ns"
    "ids_name_rows P prompt ns (dx_jobs x)" "distinct_names P prompt ns"
  shows "\<exists>js. y = set_dx_jobs js x \<and> grows_by P prompt ns (dx_jobs x) js \<and> (\<forall>n \<in> set rows. served prompt n js)"
  using assms(1,2,3)
proof (induction rows arbitrary: x k)
  case Nil
  then show ?case by (auto simp: set_dx_jobs_def set_lanes_def set_jobs_of_def intro!: exI [of _ "dx_jobs x"])
next
  case (Cons n rows)
  obtain a y1 b where one: "enqueue_annotation P prompt lane now n x = (Inr a, y1)"
    and rest: "for_each (enqueue_annotation P prompt lane now) rows y1 = (Inr b, y)"
    using for_each_Cons [OF Cons.prems(1)] by blast
  have "ids_name_rows P prompt {n} (dx_jobs x)" using Cons.prems(2,3) by (auto simp: ids_name_rows_def)
  with enqueue_annotation_grows [OF one] obtain js1 where js1: "y1 = set_dx_jobs js1 x" "served prompt n js1"
    and small: "grows_by P prompt {n} (dx_jobs x) js1" by blast
  have sub: "{n} \<subseteq> ns" "set rows \<subseteq> ns" using Cons.prems(2) by simp_all
  have g1: "grows_by P prompt ns (dx_jobs x) js1" using small sub(1) by (rule grows_by_mono)
  have "ids_name_rows P prompt ns (dx_jobs y1)"
    using ids_name_rows_grows [OF Cons.prems(3) g1 assms(4)] by (simp add: js1)
  from Cons.IH [OF rest sub(2) this] obtain js where js: "y = set_dx_jobs js y1" "grows_by P prompt ns (dx_jobs y1) js"
    "\<forall>n \<in> set rows. served prompt n js" by blast
  have "y = set_dx_jobs js x" using js(1) by (simp add: js1 set_dx_jobs_def set_lanes_def)
  moreover have "grows_by P prompt ns (dx_jobs x) js" using g1 js(2) unfolding js1 set_dx_jobs_simps by (rule grows_by_trans)
  moreover have "served prompt n js" using js1(2) js(2) unfolding js1 set_dx_jobs_simps by (rule served_grows)
  ultimately show ?case using js(3) by auto
qed

section \<open>What is discovered is not retired\<close>

lemma row_identityD:
  assumes "job_identity j = row_identity prompt n"
  shows "j_task j = ACTIVE_ANNOTATION" "job_key j = key_of n" "job_source_key j = key_of n" "j_prompt j = prompt"
    "j_annotation j = []" "(j_source j, j_item j) = article n" "j_revision j = vn_number n"
  using assms by (auto simp: job_identity_def row_identity_def job_key_def job_source_key_def key_of_def article_def)

text \<open>
  Discovery leaves out the representatives whose trimmed body is too short, the order of the representatives and the
  reconciliation, which measure the stored body, do not; and discovery asks for an annotation by a supported model, the
  reconciliation for any that is usable. These are the two ways in which they can disagree.
\<close>

definition short_peer :: "revision list \<Rightarrow> revision \<Rightarrow> bool" where
  "short_peer revs n \<longleftrightarrow> (\<exists>p \<in> set revs. vn_cluster p = vn_cluster n \<and> body_too_short p \<and> preferred_peer p n)"

definition foreign_note :: "string \<Rightarrow> annotation_row list \<Rightarrow> revision \<Rightarrow> bool" where
  "foreign_note prompt notes n \<longleftrightarrow> (\<exists>a \<in> set notes. nn_key a = key_of n \<and> nn_prompt a = prompt \<and> usable_annotation a \<and>
     nn_model a \<notin> set SUPPORTED_GEMINI_MODELS)"

lemma outranked_has_peer:
  assumes "outranked E epoch dates revs n" "\<not> short_peer revs n"
  shows "has_preferred_peer E epoch dates revs n"
proof -
  from assms(1) obtain p where p: "p \<in> set revs" "vn_cluster p = vn_cluster n" "semantically_eligible epoch p"
      "peer_in_scope E dates n p" "preferred_peer p n"
    and last: "\<not> list_ex (\<lambda>q. article q = article p \<and> vn_number p < vn_number q \<and> peer_in_scope E dates n q) revs"
    unfolding outranked_def list_ex_iff by blast
  have "\<not> body_too_short p" using assms(2) p unfolding short_peer_def by blast
  with p last show ?thesis unfolding has_preferred_peer_def has_newer_def list_ex_iff by blast
qed

lemma find_only:
  assumes "n \<in> set revs" "\<And>c. c \<in> set revs \<Longrightarrow> key_of c = key_of n \<Longrightarrow> c = n"
  shows "find (\<lambda>c. key_of c = key_of n) revs = Some n"
  using assms by (induction revs) auto

lemma pending_job_stays:
  assumes pend: "annotation_pending E epoch r x n" "ar_prompt r = CURRENT_NEWS_PROMPT_VERSION" "n \<in> set (dx_revisions x)"
    and m: "ld_revisions (mb_ledger m) = dx_revisions x" "ld_annotations (mb_ledger m) = dx_notes x"
    and evidence: "distinct (map key_of (dx_revisions x))" "\<not> short_peer (dx_revisions x) n"
      "\<not> foreign_note CURRENT_NEWS_PROMPT_VERSION (dx_notes x) n"
    and j: "job_identity j = row_identity CURRENT_NEWS_PROMPT_VERSION n" "j_state j = QUEUED" "j_last_error j = None"
  shows "reconciled_job E epoch (ar_days r) m now j = j"
proof -
  note jd = row_identityD [OF j(1)]
  have only: "c = n" if "c \<in> set (dx_revisions x)" "key_of c = key_of n" for c
    using that pend(3) evidence(1) by (auto simp: distinct_map inj_on_def)
  have none: "\<not> list_ex (supported_note (key_of n) CURRENT_NEWS_PROMPT_VERSION) (dx_notes x)"
    using pend(1,2) by (simp add: annotation_pending_def)
  then have "\<not> annotated (dx_notes x) j"
    using evidence(3) jd(2,4) unfolding annotated_def list_ex_iff supported_note_def foreign_note_def by metis
  then have a: "\<not> completable E m j" using jd(1) m(2) by (simp add: completable_def satisfied_def)
  have "find (\<lambda>c. key_of c = key_of n) (dx_revisions x) = Some n"
    using pend(3) only by (rule find_only)
  moreover have "\<not> has_newer E (ar_days r) (dx_revisions x) n n" using pend(1) by (simp add: annotation_pending_def)
  ultimately have "\<not> superseded E (ar_days r) (dx_revisions x) j"
    using pend(3) jd(1,2,6,7)
    by (auto simp: superseded_def has_newer_def newer_in_scope_def peer_in_scope_def list_ex_iff)
  moreover have "\<not> not_annotatable E epoch (ar_days r) (mb_ledger m) j"
  proof
    assume "not_annotatable E epoch (ar_days r) (mb_ledger m) j"
    then have "body_too_short n \<or> \<not> semantically_eligible epoch n \<or> outranked E epoch (ar_days r) (dx_revisions x) n"
      using only j(2) jd(2) m(1) by (auto simp: not_annotatable_def list_ex_iff)
    with pend(1) outranked_has_peer [OF _ evidence(2)] show False by (auto simp: annotation_pending_def)
  qed
  ultimately have "\<not> obsolete E epoch (ar_days r) (mb_ledger m) j" using jd(4) m(1) by (simp add: obsolete_def)
  with a show ?thesis by (simp add: reconciled_job_def retire_job_def close_job_def)
qed

lemma pending_not_owned:
  assumes "annotation_pending E epoch r x n" "ar_discovery r" "ar_prompt r = prompt" "i \<in> set (dx_jobs x)"
    "job_identity i = row_identity prompt n"
  shows "j_state i = COMPLETED \<or> (j_state i = DEAD_LETTER \<and> j_last_error i = Some RETIRED_ERROR)"
proof -
  have "\<not> owned prompt (dx_jobs x) n" using assms(1-3) by (simp add: annotation_pending_def)
  then show ?thesis
    using assms(4) row_identityD [OF assms(5)]
    by (cases "j_state i") (auto simp: owned_def list_ex_iff annotation_job_def)
qed

lemma enqueue_annotations_grow:
  assumes "enqueue_annotations P prompt now w x = (Inr k, y)"
    "ids_name_rows P prompt (set (aw_live w) \<union> set (aw_backfill w)) (dx_jobs x)"
    "distinct_names P prompt (set (aw_live w) \<union> set (aw_backfill w))"
  shows "\<exists>js. y = set_dx_jobs js x \<and> grows_by P prompt (set (aw_live w) \<union> set (aw_backfill w)) (dx_jobs x) js \<and>
    (\<forall>n \<in> set (aw_live w) \<union> set (aw_backfill w). served prompt n js)"
proof -
  let ?ns = "set (aw_live w) \<union> set (aw_backfill w)"
  from assms(1) obtain a y1 b where live: "for_each (enqueue_annotation P prompt LIVE now) (aw_live w) x = (Inr a, y1)"
    and rest: "for_each (enqueue_annotation P prompt CONTRACT_BACKFILL now) (aw_backfill w) y1 = (Inr b, y)"
    unfolding enqueue_annotations_def and_then_Inr done_with_Inr by blast
  from enqueue_rows_grow [OF live _ assms(2,3)] obtain js1 where js1: "y1 = set_dx_jobs js1 x"
    "grows_by P prompt ?ns (dx_jobs x) js1" "\<forall>n \<in> set (aw_live w). served prompt n js1" by blast
  have "ids_name_rows P prompt ?ns (dx_jobs y1)"
    using ids_name_rows_grows [OF assms(2) js1(2) assms(3)] by (simp add: js1(1))
  from enqueue_rows_grow [OF rest _ this assms(3)] obtain js where js: "y = set_dx_jobs js y1"
    "grows_by P prompt ?ns (dx_jobs y1) js" "\<forall>n \<in> set (aw_backfill w). served prompt n js" by blast
  have g: "grows_by P prompt ?ns js1 js" using js(2) unfolding js1(1) set_dx_jobs_simps .
  have "y = set_dx_jobs js x" using js(1) by (simp add: js1(1) set_dx_jobs_def set_lanes_def)
  moreover have "grows_by P prompt ?ns (dx_jobs x) js" using js1(2) g by (rule grows_by_trans)
  moreover have "served prompt n js" if "n \<in> set (aw_live w)" for n
    using js1(3) that g served_grows by blast
  ultimately show ?thesis using js(3) by blast
qed

text \<open>
  C28: Discovery and reconciliation agree: a live revision, or one of a day whose brief is due, that the scheduler
  discovers has a job afterwards, and its job is in the queue and left there by the reconciliation that follows, except
  in three cases: reconciliation had retired that very job before; a representative that it prefers to the revision has a
  trimmed body too short to be annotated; or the contract has a usable annotation of the revision by a model that is no
  longer supported. The revisions have keys of their own, and the identifier of a job, a digest, names its identity: a
  job has the identifier of a discovered revision just when it has its identity, and two such revisions share one only
  when they share their key.
\<close>

theorem discovered_annotation_stays_queued:
  assumes "discover_annotations E z CURRENT_NEWS_PROMPT_VERSION review activated q x = (Inr w, y)"
    "enqueue_annotations (sq_platform E) CURRENT_NEWS_PROMPT_VERSION (dq_now q) w y = (Inr k, x')"
    "ids_name_rows (sq_platform E) CURRENT_NEWS_PROMPT_VERSION (set (aw_live w) \<union> set (aw_backfill w)) (dx_jobs x)"
    "distinct_names (sq_platform E) CURRENT_NEWS_PROMPT_VERSION (set (aw_live w) \<union> set (aw_backfill w))"
    "distinct (map key_of (dx_revisions x))" "ld_epoch (dx_ledger x) = Some epoch"
    "n \<in> set (aw_live w) \<union> set (aw_protected w)"
  shows "(\<exists>j \<in> set (dx_jobs x'). job_identity j = row_identity CURRENT_NEWS_PROMPT_VERSION n) \<and>
    (\<forall>j \<in> set (dx_jobs x'). job_identity j = row_identity CURRENT_NEWS_PROMPT_VERSION n \<longrightarrow>
      (j_state j = QUEUED \<and>
        (reconciled_job E epoch (dq_days q) (maintenance_of d cache x') now j = j \<or>
         short_peer (dx_revisions x) n \<or> foreign_note CURRENT_NEWS_PROMPT_VERSION (dx_notes x) n)) \<or>
      (j \<in> set (dx_jobs x) \<and> j_state j = DEAD_LETTER \<and> j_last_error j = Some RETIRED_ERROR))"
proof -
  let ?C = CURRENT_NEWS_PROMPT_VERSION
  let ?ns = "set (aw_live w) \<union> set (aw_backfill w)"
  note keeps = cursor_moved_keeps(1) [OF discover_annotationsD(1) [OF assms(1)]]
  have "ids_name_rows (sq_platform E) ?C ?ns (dx_jobs y)" using assms(3) by (simp add: keeps)
  from enqueue_annotations_grow [OF assms(2) this assms(4)] obtain js where js: "x' = set_dx_jobs js y"
    "grows_by (sq_platform E) ?C ?ns (dx_jobs y) js" "\<forall>m \<in> ?ns. served ?C m js" by blast
  from discover_annotationsD(3) [OF assms(1,7)] assms(6) obtain r where
    r: "n \<in> set (dx_revisions x)" "annotation_pending E epoch r x n" "ar_prompt r = ?C" "ar_days r = dq_days q" "ar_discovery r"
    by auto
  from discover_annotationsD(4) [OF assms(1,7)] obtain m where "m \<in> ?ns" "key_of m = key_of n" by blast
  then have "served ?C m js" "row_identity ?C m = row_identity ?C n" using js(3) by (blast, simp only: row_identity_iff)
  then have served: "served ?C n js" by (simp add: served_def)
  let ?left = "\<lambda>j. reconciled_job E epoch (dq_days q) (maintenance_of d cache x') now j = j \<or>
         short_peer (dx_revisions x) n \<or> foreign_note ?C (dx_notes x) n"
  have "(j_state j = QUEUED \<and> ?left j) \<or>
      (j \<in> set (dx_jobs x) \<and> j_state j = DEAD_LETTER \<and> j_last_error j = Some RETIRED_ERROR)"
    if j: "j \<in> set js" "job_identity j = row_identity ?C n" for j
  proof -
    have stays: "?left j" if "j_state j = QUEUED" "j_last_error j = None"
    proof (rule ccontr)
      assume out: "\<not> ?left j"
      have "reconciled_job E epoch (ar_days r) (maintenance_of d cache x') now j = j"
        using that out by (intro pending_job_stays [OF r(2,3,1) _ _ assms(5) _ _ j(2)])
          (simp_all add: js(1) maintenance_of_def keeps)
      with out r(4) show False by simp
    qed
    from js(2) j(1) show ?thesis
    proof (cases rule: grows_byE)
      case (1 i)
      have i: "i \<in> set (dx_jobs x)" using 1(1) by (simp add: keeps)
      have "job_identity i = row_identity ?C n" using continuesD(1) [OF 1(2)] j(2) by simp
      from pending_not_owned [OF r(2,5,3) i this] show ?thesis
      proof
        assume "j_state i = COMPLETED"
        moreover have "j_state j \<noteq> COMPLETED" using served j unfolding served_def by blast
        ultimately have "j_state j = QUEUED" "j_last_error j = None" using 1(2) unfolding continues_def by auto
        with stays show ?thesis by simp
      next
        assume "j_state i = DEAD_LETTER \<and> j_last_error i = Some RETIRED_ERROR"
        moreover from this have "j = i" using continuesD(3) [OF 1(2)] by blast
        ultimately show ?thesis using i by blast
      qed
    next
      case 2
      then have "j_state j = QUEUED" "j_last_error j = None" by (simp_all add: fresh_for_def)
      with stays show ?thesis by simp
    qed
  qed
  moreover have "dx_jobs x' = js" by (simp add: js(1))
  ultimately show ?thesis using served unfolding served_def by simp
qed

section \<open>The allowance of a discovery\<close>

text \<open>
  A discovery enqueues no more annotations than its limit, whatever is live, due or left of the backfill.
\<close>

lemma discovery_within_allowance:
  assumes "discover_jobs E z prompt t q x = (Inr (found, protected), x')"
  shows "int (ds_annotations found) \<le> max 1 (dq_limit q)"
proof -
  from assms obtain activated x1 w x2 where "discover_annotations E z prompt (sx_kind t = MODEL_REVIEW_REQUIRED) activated q x1 = (Inr w, x2)"
      "ds_annotations found = length (aw_live w) + length (aw_backfill w)"
    unfolding discover_jobs_def Let_def and_then_Inr done_with_Inr by auto
  with discover_annotationsD(2) show ?thesis by metis
qed

section \<open>Retired work\<close>

text \<open>
  A job that reconciliation has retired does not own its revision, so discovery returns the revision whenever it is
  current again; but enqueueing puts complete jobs back only. Outside the days that are due nothing reopens the job, and
  every discovery spends a place on it.
\<close>

lemma retired_job_is_not_reopened:
  assumes "enqueue_annotation P prompt lane now n x = (Inr k, y)" "ids_name_rows P prompt {n} (dx_jobs x)"
    "i \<in> set (dx_jobs x)" "job_identity i = row_identity prompt n"
    "\<And>j. j \<in> set (dx_jobs x) \<Longrightarrow> job_identity j = row_identity prompt n \<Longrightarrow> j_state j = DEAD_LETTER"
  shows "dx_jobs y = dx_jobs x"
proof -
  let ?jid = "row_job_id P prompt n"
  from enqueue_annotationD [OF assms(1)] obtain prio prov where y:
    "y = set_dx_jobs (reopen_job ?jid now (reclassify_job ?jid lane prio prov
       (insert_job (new_job (annotation_enqueue prompt lane n) ?jid ACTIVE_ANNOTATION prio lane prov now) (dx_jobs x)))) x"
    by blast
  have "j_id i = ?jid" using assms(2-4) by (simp add: ids_name_rows_def)
  then have "insert_job (new_job (annotation_enqueue prompt lane n) ?jid ACTIVE_ANNOTATION prio lane prov now) (dx_jobs x) = dx_jobs x"
    using assms(3) by (auto simp: insert_job_def sql_insert_ignore_def list_ex_iff new_job_simps)
  moreover have "requeued ?jid now lane prio prov j = j" if "j \<in> set (dx_jobs x)" for j
  proof (cases "j_id j = ?jid")
    case True
    then have "j_state j = DEAD_LETTER" using that assms(2) assms(5) [OF that] by (simp add: ids_name_rows_def)
    then show ?thesis by (simp add: requeued_def queued_or_backing_off_def)
  qed (simp add: requeued_def)
  then have "map (requeued ?jid now lane prio prov) (dx_jobs x) = dx_jobs x" by (rule map_idI)
  ultimately show ?thesis unfolding y by (simp add: requeued_is_reopened)
qed

section \<open>The context of an impact\<close>

lemma traverse_outD: "traverse_out f as = Inr bs \<Longrightarrow> b \<in> set bs \<Longrightarrow> \<exists>a \<in> set as. f a = Inr b"
  by (induction as arbitrary: bs) (fastforce simp: bind_out_Inr_iff)+

text \<open>
  The context of a pending impact holds at most five reports, each received no later than the report itself and
  another revision than it: no assessment sees what was published after.
\<close>

theorem impact_context_has_no_lookahead:
  assumes "pending_impact_records P json_of now limit contract prompt sel x = Inr ws" "v \<in> set ws"
  shows "length (iw_context v) \<le> 5 \<and>
    (\<forall>c \<in> set (iw_context v). pc_first_seen (ic_prior c) \<le> vn_first_seen (iw_revision v) \<and>
       pc_key (ic_prior c) \<noteq> key_of (iw_revision v)) \<and>
    sorted (map candidate_rank (iw_context v))"
proof -
  from assms obtain idx selected where "traverse_out (impact_work_of P json_of idx) selected = Inr ws"
    by (auto simp: pending_impact_records_def bind_out_Inr_iff Let_def split: if_splits)
  from traverse_outD [OF this assms(2)] obtain r where "impact_work_of P json_of idx r = Inr v" by blast
  then obtain cs where cs: "retrieve_prior_event_context P (report_of json_of r) idx 5 = Inr cs"
    and v: "v = \<lparr>iw_revision = fst r, iw_note = snd r, iw_annotation = json_of (nn_id (snd r)), iw_context = cs\<rparr>"
    by (auto simp: impact_work_of_def bind_out_Inr_iff)
  from retrieved_context(1,3) [OF cs] retrieved_context(4) [OF cs] show ?thesis
    by (simp add: v report_of_def)
qed

section \<open>A small example\<close>

definition sample_discovery :: "job list \<Rightarrow> discovery_db" where
  "sample_discovery jobs =
     \<lparr>dx_transition = sample_transition_db\<lparr>xd_lanes := sample_lane_db\<lparr>wl_ledger :=
        empty_ledger\<lparr>ld_epoch := Some 0, ld_revisions := [sample_article], ld_jobs := jobs\<rparr>\<rparr>\<rparr>,
      dx_assessments = [], dx_resolutions = [], dx_failures = [], dx_recoveries = [], dx_impact_failures = [],
      dx_impact_recoveries = [], dx_overrides = [], dx_skipped = []\<rparr>"

definition sample_discovery_call :: discovery_call where
  "sample_discovery_call =
     \<lparr>dq_now = 200, dq_limit = 10, dq_days = [], dq_json = (\<lambda>_. JNull), dq_placeholder = (\<lambda>_. False)\<rparr>"

definition sample_found :: "job list \<Rightarrow> annotation_work outcome \<times> discovery_db" where
  "sample_found jobs =
     discover_annotations sample_env sample_zone CURRENT_NEWS_PROMPT_VERSION True 0 sample_discovery_call (sample_discovery jobs)"

definition sample_work :: annotation_work where
  "sample_work = \<lparr>aw_live = [sample_article], aw_protected = [], aw_backfill = []\<rparr>"

definition sample_enqueued :: "job list \<Rightarrow> nat outcome \<times> discovery_db" where
  "sample_enqueued jobs = enqueue_annotations sample_platform CURRENT_NEWS_PROMPT_VERSION 200 sample_work (snd (sample_found jobs))"

definition sample_retired :: job where
  "sample_retired = sample_job\<lparr>j_id := row_job_id sample_platform CURRENT_NEWS_PROMPT_VERSION sample_article,
     j_prompt := CURRENT_NEWS_PROMPT_VERSION, j_state := DEAD_LETTER, j_last_error := Some RETIRED_ERROR\<rparr>"

lemma sample_discovers: "fst (sample_found []) = Inr sample_work" "fst (sample_enqueued []) = Inr 1"
  by code_simp+

lemma retired_live_work_stays_retired:
  "fst (sample_found [sample_retired]) = Inr sample_work"
  "fst (sample_enqueued [sample_retired]) = Inr 1" "dx_jobs (snd (sample_enqueued [sample_retired])) = [sample_retired]"
  by code_simp+

theorem discovered_annotation_stays_queued_witness:
  "\<exists>j \<in> set (dx_jobs (snd (sample_enqueued []))). j_state j = QUEUED \<and>
     reconciled_job sample_env 0 [] (maintenance_of sample_derived None (snd (sample_enqueued []))) 200 j = j"
proof -
  have found: "discover_annotations sample_env sample_zone CURRENT_NEWS_PROMPT_VERSION True 0 sample_discovery_call (sample_discovery []) =
      (Inr sample_work, snd (sample_found []))"
    using sample_discovers(1) by (metis prod.collapse sample_found_def)
  have enqueued: "enqueue_annotations (sq_platform sample_env) CURRENT_NEWS_PROMPT_VERSION (dq_now sample_discovery_call) sample_work
      (snd (sample_found [])) = (Inr 1, snd (sample_enqueued []))"
    using sample_discovers(2) by (simp add: sample_enqueued_def sample_env_def sample_discovery_call_def prod_eq_iff)
  have db: "dx_jobs (sample_discovery []) = []" "dx_revisions (sample_discovery []) = [sample_article]"
    "dx_notes (sample_discovery []) = []" "ld_epoch (dx_ledger (sample_discovery [])) = Some 0"
    by (simp_all add: sample_discovery_def empty_ledger_def)
  have sound: "\<not> short_peer [sample_article] sample_article" by code_simp
  have names: "distinct_names (sq_platform sample_env) CURRENT_NEWS_PROMPT_VERSION
      (set (aw_live sample_work) \<union> set (aw_backfill sample_work))"
    by (simp add: distinct_names_def sample_work_def)
  from discovered_annotation_stays_queued [OF found enqueued _ names, where epoch = 0 and n = sample_article
      and now = 200 and d = sample_derived and cache = None]
  show ?thesis
    by (auto simp: db sound foreign_note_def ids_name_rows_def sample_work_def sample_discovery_call_def)
qed

definition sample_failure :: model_failure where
  "sample_failure = \<lparr>lf_id = ''f'', lf_task = ''ANNOTATION'', lf_key = (''fed'', ''item'', 1), lf_hash = ''h'',
     lf_model = DEFAULT_GEMINI_MODEL, lf_prompt = ''v1'', lf_attempt = 3, lf_error_type = ''ValueError'', lf_error = [],
     lf_failed = 10, lf_retry = None, lf_terminal = True\<rparr>"

definition sample_failed :: discovery_db where
  "sample_failed = (sample_discovery [sample_job\<lparr>j_state := DEAD_LETTER, j_last_error := Some ''ValueError''\<rparr>])
     \<lparr>dx_failures := [sample_failure]\<rparr>"

definition sample_recovered :: "int \<times> discovery_db" where
  "sample_recovered = (case authorize_repairable_annotation_failures ''v1'' ''r'' 200 ''ANNOTATION'' sample_failed of
     Inr r \<Rightarrow> r | Inl _ \<Rightarrow> (0, sample_failed))"

theorem recovery_reopens_once_witness:
  "fst sample_recovered = 1 \<and> single_recoveries (snd sample_recovered) \<and>
   map j_state (dx_jobs (snd sample_recovered)) = [QUEUED] \<and>
   \<not> reopens_annotation ''ANNOTATION'' ACTIVE_ANNOTATION ''v1'' ''r'' (snd sample_recovered) (hd (dx_jobs (snd sample_recovered)))"
proof -
  have run: "fst sample_recovered = 1" "map j_state (dx_jobs (snd sample_recovered)) = [QUEUED]" by code_simp+
  have "authorize_repairable_annotation_failures ''v1'' ''r'' 200 ''ANNOTATION'' sample_failed =
      Inr (fst sample_recovered, snd sample_recovered)"
    by (simp add: sample_recovered_def authorize_repairable_annotation_failures_def recovery_job_def Let_def)
  moreover have "recovery_job ''ANNOTATION'' = Some ACTIVE_ANNOTATION" by (simp add: recovery_job_def)
  moreover have "single_recoveries sample_failed" "\<forall>r \<in> set (dx_recoveries sample_failed). rv_authorized r \<le> 200"
    by (simp_all add: single_recoveries_def sample_failed_def sample_discovery_def)
  moreover have "hd (dx_jobs (snd sample_recovered)) \<in> set (dx_jobs (snd sample_recovered))"
    using run(2) by (cases "dx_jobs (snd sample_recovered)") simp_all
  ultimately show ?thesis
    using recovery_reopens_once [of "''v1''" "''r''" 200 "''ANNOTATION''" sample_failed "fst sample_recovered"
      "snd sample_recovered" ACTIVE_ANNOTATION] run
    by blast
qed

definition sample_impact_db :: discovery_db where
  "sample_impact_db = (let note = (\<lambda>aid item. sample_prior\<lparr>nn_id := aid, nn_key := (''fed'', item, 1)\<rparr>);
       article = (\<lambda>item t. sample_article\<lparr>vn_item := item, vn_first_seen := t\<rparr>) in
     (sample_discovery [])\<lparr>dx_transition := sample_transition_db\<lparr>xd_lanes := sample_lane_db\<lparr>wl_ledger :=
        empty_ledger\<lparr>ld_epoch := Some 0, ld_revisions := [article ''i'' 60, article ''k'' 90],
          ld_annotations := [note ''a'' ''i'', note ''b'' ''k'']\<rparr>\<rparr>\<rparr>\<rparr>)"

definition sample_impacts :: "impact_work list outcome" where
  "sample_impacts = pending_impact_records sample_platform (\<lambda>_. JObj (sample_claim ''d_r'')) 200 10 PREVIOUS_NEWS_PROMPT_VERSION
     IMPACT_PROMPT_VERSION ''oldest'' sample_impact_db"

theorem impact_context_has_no_lookahead_witness:
  "\<exists>v w. sample_impacts = Inr [v, w] \<and> length (iw_context v) \<le> 5 \<and> length (iw_context w) = 1 \<and>
     (\<forall>c \<in> set (iw_context w). pc_first_seen (ic_prior c) \<le> vn_first_seen (iw_revision w))"
proof -
  have run: "map_sum id (map (\<lambda>w. length (iw_context w))) sample_impacts = Inr [0, 1]" by code_simp
  have "isl s \<or> (\<exists>ws. s = Inr ws)" for s :: "impact_work list outcome" by (cases s) simp_all
  moreover have "\<not> isl sample_impacts" using run by (metis isl_map_sum sum.disc(2))
  ultimately obtain ws where ws: "sample_impacts = Inr ws" by blast
  have "map (\<lambda>w. length (iw_context w)) ws = [0, 1]" using run unfolding ws by simp
  then obtain v w where vw: "sample_impacts = Inr [v, w]" "length (iw_context w) = 1"
    using ws by (auto simp: map_eq_Cons_conv)
  note context_of = impact_context_has_no_lookahead [OF vw(1) [unfolded sample_impacts_def]]
  from context_of [of v] context_of [of w] vw show ?thesis by auto
qed

end
