(* ===== verification/Scheduler_History.thy ===== *)
theory Scheduler_History
  imports Work_Discovery
begin

text \<open>
  The job table with all of its writers. Beside the nine actions of \<^verbatim>\<open>Job_Lifecycle\<close> (workers, enqueuers, operators),
  \<open>sync_pending_jobs\<close> of \<^verbatim>\<open>xauusd_news/news/scheduler/state.py\<close> reopens recovered failures, divides the annotation jobs
  into lanes, projects a page of annotations, repairs the provenance of derived jobs, completes and retires jobs by the
  evidence and reopens protected ones; \<open>skip_prohibited_content\<close> retires the jobs of a content, every stored
  annotation completes its job, and the installer of \<^verbatim>\<open>news/semantics/critical_state.py\<close> records the completions of
  older annotations, one \<open>RecordCompletion\<close> each. These are all the statements of the repository that write the job
  table, the additive migration of its columns excepted. Each action is one committed transaction; where a function first
  commits the row that opens a migration, which is no job, both. \<open>sync_pending_jobs\<close> is a sequence of them and of
  enqueues, so that a history of these actions holds every interleaving of the processes.

  The state is the scheduler's tables and the tables that discovery reads, \<^verbatim>\<open>Work_Discovery\<close>; the job table and the
  operator overrides are in both, and a step writes both. What the triggers have made of the derived tables, and the
  cached acceptance of a reconciliation, are arguments of the two actions that read them.
\<close>

section \<open>Steps\<close>

type_synonym system = "scheduler_db \<times> discovery_db"

datatype system_action =
    Queue queue_action
  | RecoverFailures string string instant string
  | RecoverImpacts string string instant
  | SettleLanes string instant
  | TransitionPage semantic_transition instant instant int
  | RepairProvenance string instant
  | ReconcileJobs reconcile_call derived "(json \<times> instant) option"
  | ReopenProtected "source_key list" string instant derived "(json \<times> instant) option"
  | SkipContent instant string
  | AppendEvidence ledger_action
  | RecordCompletion source_key string instant
  | Elsewhere

definition with_queue :: "scheduler_db \<Rightarrow> discovery_db \<Rightarrow> discovery_db" where
  "with_queue db x = (set_dx_jobs (db_jobs db) x)\<lparr>dx_overrides := db_overrides db\<rparr>"

definition with_evidence :: "discovery_db \<Rightarrow> scheduler_db \<Rightarrow> system" where
  "with_evidence x db = (db\<lparr>db_jobs := dx_jobs x, db_overrides := dx_overrides x\<rparr>, x)"

text \<open>\<open>Elsewhere\<close> is any change of the other tables: failures, assessments, cursors, usage.\<close>

inductive system_step :: "sql_env \<Rightarrow> zone \<Rightarrow> system \<Rightarrow> system_action \<Rightarrow> system \<Rightarrow> bool"
  for E :: sql_env and z :: zone where
  queue: "queue_step (sq_platform E) db a db' \<Longrightarrow> system_step E z (db, x) (Queue a) (db', with_queue db' x)"
| recover: "authorize_repairable_annotation_failures prompt version now name x = Inr (k, x') \<Longrightarrow>
    system_step E z (db, x) (RecoverFailures prompt version now name) (with_evidence x' db)"
| recover_impacts: "authorize_repairable_impact_failures prompt version now x = (k, x') \<Longrightarrow>
    system_step E z (db, x) (RecoverImpacts prompt version now) (with_evidence x' db)"
| lanes: "install_annotation_contract_lanes (sq_platform E) z prompt now (dx_lanes x) = (r, l) \<Longrightarrow>
    system_step E z (db, x) (SettleLanes prompt now) (with_evidence (set_lanes l x) db)"
| transition: "execute_transition_page (sq_platform E) z t activated now n (dx_transition x) = (r, y) \<Longrightarrow>
    system_step E z (db, x) (TransitionPage t activated now n) (with_evidence (x\<lparr>dx_transition := y\<rparr>) db)"
| provenance: "install_downstream_work_provenance prompt now (dx_lanes x) = (r, l) \<Longrightarrow>
    system_step E z (db, x) (RepairProvenance prompt now) (with_evidence (set_lanes l x) db)"
| reconcile: "reconcile_completed_jobs E q (maintenance_of d c x) = Inr (n, m) \<Longrightarrow>
    system_step E z (db, x) (ReconcileJobs q d c) (with_evidence (set_dx_jobs (mb_jobs m) x) db)"
| reopen: "reopen_protected_annotation_jobs E keys prompt now (maintenance_of d c x) = Inr (n, m) \<Longrightarrow>
    system_step E z (db, x) (ReopenProtected keys prompt now d c) (with_evidence (set_dx_jobs (mb_jobs m) x) db)"
| skip: "system_step E z (db, x) (SkipContent now hash) (with_evidence (skip_prohibited_content now hash x) db)"
| append: "run_append (sq_platform E) act (dx_ledger x) = Inr l \<Longrightarrow>
    system_step E z (db, x) (AppendEvidence act) (with_evidence (set_lanes ((dx_lanes x)\<lparr>wl_ledger := l\<rparr>) x) db)"
| recorded: "record_annotation_completion (sq_platform E) key prompt t None (dx_ledger x) = Inr l \<Longrightarrow>
    system_step E z (db, x) (RecordCompletion key prompt t) (with_evidence (set_lanes ((dx_lanes x)\<lparr>wl_ledger := l\<rparr>) x) db)"
| elsewhere: "dx_jobs x' = dx_jobs x \<Longrightarrow> dx_overrides x' = dx_overrides x \<Longrightarrow>
    db_jobs db' = db_jobs db \<Longrightarrow> db_overrides db' = db_overrides db \<Longrightarrow>
    system_step E z (db, x) Elsewhere (db', x')"

inductive system_history :: "sql_env \<Rightarrow> zone \<Rightarrow> system \<Rightarrow> system_action list \<Rightarrow> system \<Rightarrow> bool"
  for E :: sql_env and z :: zone where
  start: "system_history E z s [] s"
| then_step: "system_history E z s acts s1 \<Longrightarrow> system_step E z s1 a s2 \<Longrightarrow> system_history E z s (acts @ [a]) s2"

inductive_cases snoc_history: "system_history E z s (acts @ [a]) s'"

definition system_inv :: "system \<Rightarrow> bool" where
  "system_inv s \<longleftrightarrow> queue_inv (fst s) \<and> dx_jobs (snd s) = db_jobs (fst s) \<and> dx_overrides (snd s) = db_overrides (fst s)"

lemma with_evidence_simps [simp]:
  "db_jobs (fst (with_evidence x db)) = dx_jobs x" "db_overrides (fst (with_evidence x db)) = dx_overrides x"
  "snd (with_evidence x db) = x"
  by (simp_all add: with_evidence_def)

lemma with_queue_simps [simp]:
  "dx_jobs (with_queue db x) = db_jobs db" "dx_overrides (with_queue db x) = db_overrides db"
  by (simp_all add: with_queue_def set_dx_jobs_def set_lanes_def)

lemma same_tables_inv: "queue_inv db \<Longrightarrow> db_jobs db' = db_jobs db \<Longrightarrow> db_overrides db' = db_overrides db \<Longrightarrow> queue_inv db'"
  by (simp add: queue_inv_def)

section \<open>The moves of a job\<close>

text \<open>
  The life cycle under all writers, by action: maintenance never leases a job, only the recovery of failures and the
  protection of records bring a job back to the queue, and only evidence (an annotation, a projection, a reconciliation)
  completes a job without its lease.
\<close>

definition JOB_STATES :: "job_state list" where
  "JOB_STATES = [QUEUED, LEASED, COMPLETED, BACKING_OFF, DEAD_LETTER]"

fun moves :: "system_action \<Rightarrow> string \<Rightarrow> job_state \<Rightarrow> job_state \<Rightarrow> bool" where
  "moves (Queue a) jid s s' = queue_moves a jid s s'"
| "moves (RecoverFailures prompt version now name) jid s s' =
     (s' = s \<or> ((s = DEAD_LETTER \<or> s = BACKING_OFF) \<and> s' = QUEUED))"
| "moves (RecoverImpacts prompt version now) jid s s' =
     (s' = s \<or> ((s = DEAD_LETTER \<or> s = BACKING_OFF) \<and> s' = QUEUED))"
| "moves (SettleLanes prompt now) jid s s' = (s' = s \<or> ((s = QUEUED \<or> s = BACKING_OFF) \<and> s' = DEAD_LETTER))"
| "moves (TransitionPage t activated now n) jid s s' = (s' = s \<or> (s \<noteq> LEASED \<and> s' = COMPLETED))"
| "moves (RepairProvenance prompt now) jid s s' = (s' = s)"
| "moves (ReconcileJobs q d c) jid s s' = (s' = s \<or> s' = COMPLETED \<or> s' = DEAD_LETTER)"
| "moves (ReopenProtected keys prompt now d c) jid s s' = (s' = s \<or> (s = DEAD_LETTER \<and> s' = QUEUED))"
| "moves (SkipContent now hash) jid s s' = (s' = s \<or> ((s = QUEUED \<or> s = BACKING_OFF) \<and> s' = DEAD_LETTER))"
| "moves (AppendEvidence act) jid s s' = (s' = s \<or> (s \<noteq> LEASED \<and> s' = COMPLETED))"
| "moves (RecordCompletion key prompt t) jid s s' = (s' = s \<or> (s \<noteq> LEASED \<and> s' = COMPLETED))"
| "moves Elsewhere jid s s' = (s' = s)"

fun moves_through :: "system_action list \<Rightarrow> string \<Rightarrow> job_state \<Rightarrow> job_state \<Rightarrow> bool" where
  "moves_through [] jid s s' = (s' = s)"
| "moves_through (a # as) jid s s' = list_ex (\<lambda>u. moves a jid s u \<and> moves_through as jid u s') JOB_STATES"

lemma all_states [simp]: "list_ex p JOB_STATES \<longleftrightarrow> (\<exists>s. p s)"
  by (auto simp: JOB_STATES_def) (metis job_state.exhaust)

lemma moves_through_snoc: "moves_through as jid s u \<Longrightarrow> moves a jid u s' \<Longrightarrow> moves_through (as @ [a]) jid s s'"
  by (induction as arbitrary: s) auto

section \<open>What maintenance does to a leased row\<close>

text \<open>Of a leased row, maintenance may decide the lane: the lane, the priority and the mark that it is decided.\<close>

definition same_lease :: "job \<Rightarrow> job \<Rightarrow> bool" where
  "same_lease j k \<longleftrightarrow> k = j\<lparr>j_lane := j_lane k, j_priority := j_priority k, j_lane_classified := j_lane_classified k\<rparr>"

lemma same_lease_refl [simp]: "same_lease j j"
  by (simp add: same_lease_def)

lemma same_lease_trans: "same_lease i j \<Longrightarrow> same_lease j k \<Longrightarrow> same_lease i k"
  unfolding same_lease_def by (cases i; cases j; cases k) simp

lemma same_lease_columns:
  "same_lease j k \<Longrightarrow> j_id k = j_id j \<and> j_state k = j_state j \<and> j_lease_owner k = j_lease_owner j \<and>
     j_lease_expires_at k = j_lease_expires_at j"
  unfolding same_lease_def by (cases j; cases k) simp

text \<open>
  What ends the lease of a row: its owner's completion, release, back-off or deferral, a claim that runs after the
  expiry, and a reconciliation that finds the work of the job done.
\<close>

fun frees :: "sql_env \<Rightarrow> discovery_db \<Rightarrow> system_action \<Rightarrow> job \<Rightarrow> bool" where
  "frees E x (Queue a) j = queue_touches a j"
| "frees E x (ReconcileJobs q d c) j = satisfied E (maintenance_of d c x) j"
| "frees E x _ j = False"

definition system_turn :: "sql_env \<Rightarrow> discovery_db \<Rightarrow> system_action \<Rightarrow> job \<Rightarrow> job \<Rightarrow> bool" where
  "system_turn E x a j k \<longleftrightarrow> moves a (j_id j) (j_state j) (j_state k) \<and>
     (j_state j = LEASED \<longrightarrow> frees E x a j \<or> same_lease j k)"

subsection \<open>Recoveries and prohibited content\<close>

lemma recovery_evolves:
  assumes "\<And>j. p j \<Longrightarrow> j_state j \<in> {DEAD_LETTER, BACKING_OFF, QUEUED}"
  shows "evolves (\<lambda>j k. k = j \<or> (j_state j \<noteq> LEASED \<and> (j_state j = DEAD_LETTER \<or> j_state j = BACKING_OFF \<or> j_state j = QUEUED) \<and>
      j_state k = QUEUED)) jobs (sql_update p (recovered_row now) jobs)"
  by (rule evolves_update) (use assms in \<open>fastforce simp: recovered_row_def job_identity_def job_inv_defs\<close>)+

lemma recover_evolves:
  assumes "authorize_repairable_annotation_failures prompt version now name x = Inr (k, x')"
  shows "evolves (system_turn E x (RecoverFailures prompt version now name)) (dx_jobs x) (dx_jobs x') \<and>
     dx_overrides x' = dx_overrides x"
proof -
  let ?rows = "take RECOVERY_PAGE (sort_key (\<lambda>f. (lf_failed f, lf_id f)) (filter (repairable name prompt version now x) (dx_failures x)))"
  define x1 where "x1 = x\<lparr>dx_recoveries := fold (\<lambda>f. insert_recovery (recovery_of version now f)) ?rows (dx_recoveries x)\<rparr>"
  then have same: "dx_jobs x1 = dx_jobs x" "dx_overrides x1 = dx_overrides x" by simp_all
  obtain task where x1:
    "x' = set_dx_jobs (sql_update (reopens_annotation name task prompt version x1) (recovered_row now) (dx_jobs x1)) x1"
    using assms unfolding authorize_repairable_annotation_failures_def Let_def x1_def [symmetric]
    by (cases "recovery_job name") auto
  have "evolves (system_turn E x (RecoverFailures prompt version now name)) (dx_jobs x)
      (sql_update (reopens_annotation name task prompt version x1) (recovered_row now) (dx_jobs x))"
    by (rule evolves_mono [OF recovery_evolves])
      (auto simp: system_turn_def reopens_annotation_def recoverable_job_def)
  with x1 same show ?thesis by (simp add: set_dx_jobs_def set_lanes_def)
qed

lemma recover_impacts_evolves:
  assumes "authorize_repairable_impact_failures prompt version now x = (k, x')"
  shows "evolves (system_turn E x (RecoverImpacts prompt version now)) (dx_jobs x) (dx_jobs x') \<and>
     dx_overrides x' = dx_overrides x"
proof -
  let ?rows = "take RECOVERY_PAGE (sort_key (\<lambda>f. (gf_failed f, gf_id f)) (filter (impact_repairable prompt version now x) (dx_impact_failures x)))"
  define x1 where "x1 = x\<lparr>dx_impact_recoveries :=
    fold (\<lambda>f. insert_impact_recovery (impact_recovery_of version now f)) ?rows (dx_impact_recoveries x)\<rparr>"
  then have same: "dx_jobs x1 = dx_jobs x" "dx_overrides x1 = dx_overrides x" by simp_all
  have x1: "x' = set_dx_jobs (sql_update (reopens_impact prompt version x1) (recovered_row now) (dx_jobs x1)) x1"
    using assms unfolding authorize_repairable_impact_failures_def Let_def x1_def by simp
  have "evolves (system_turn E x (RecoverImpacts prompt version now)) (dx_jobs x)
      (sql_update (reopens_impact prompt version x1) (recovered_row now) (dx_jobs x))"
    by (rule evolves_mono [OF recovery_evolves])
      (auto simp: system_turn_def reopens_impact_def recoverable_job_def)
  with x1 same show ?thesis by (simp add: set_dx_jobs_def set_lanes_def)
qed

lemma one_active_sublist:
  "one_active_override ros \<Longrightarrow> one_active_override (sql_update p (\<lambda>r. r\<lparr>ro_active := False\<rparr>) ros)"
proof -
  have "filter ro_active (sql_update p (\<lambda>r. r\<lparr>ro_active := False\<rparr>) ros) = filter (\<lambda>r. \<not> p r) (filter ro_active ros)"
    by (induction ros) (auto simp: sql_update_def)
  then show "one_active_override ros \<Longrightarrow> ?thesis"
    by (simp add: one_active_override_def distinct_map_filter del: filter_filter)
qed

lemma skip_evolves:
  "evolves (system_turn E x (SkipContent now hash)) (dx_jobs x) (dx_jobs (skip_prohibited_content now hash x))"
  "one_active_override (dx_overrides x) \<Longrightarrow> one_active_override (dx_overrides (skip_prohibited_content now hash x))"
proof -
  let ?x1 = "x\<lparr>dx_skipped := sql_insert_ignore (\<lambda>h. h = hash) hash (dx_skipped x)\<rparr>"
  let ?f = "\<lambda>j. j\<lparr>j_state := DEAD_LETTER, j_last_error := Some PROHIBITED_CONTENT_CODE, j_updated_at := now,
                   j_completed_at := Some now, j_lease_owner := None, j_lease_expires_at := None\<rparr>"
  have "dx_jobs (skip_prohibited_content now hash x) =
      sql_update (\<lambda>j. queued_or_backing_off j \<and> of_content ?x1 hash j) ?f (dx_jobs x)"
    by (simp add: skip_prohibited_content_def Let_def set_dx_jobs_def set_lanes_def)
  moreover have "evolves (system_turn E x (SkipContent now hash)) (dx_jobs x)
      (sql_update (\<lambda>j. queued_or_backing_off j \<and> of_content ?x1 hash j) ?f (dx_jobs x))"
    by (rule evolves_update) (auto simp: system_turn_def job_identity_def job_inv_defs)
  ultimately show "evolves (system_turn E x (SkipContent now hash)) (dx_jobs x) (dx_jobs (skip_prohibited_content now hash x))"
    by simp
  show "one_active_override (dx_overrides x) \<Longrightarrow> one_active_override (dx_overrides (skip_prohibited_content now hash x))"
    by (simp add: skip_prohibited_content_def Let_def one_active_sublist)
qed

subsection \<open>Lanes and provenance\<close>

definition lane_turn :: "job \<Rightarrow> job \<Rightarrow> bool" where
  "lane_turn j k \<longleftrightarrow>
     (j_state k = j_state j \<or> ((j_state j = QUEUED \<or> j_state j = BACKING_OFF) \<and> j_state k = DEAD_LETTER)) \<and>
     (j_state j = LEASED \<longrightarrow> same_lease j k)"

lemma lane_turn_refl [simp]: "lane_turn j j"
  by (simp add: lane_turn_def)

lemma lane_turn_trans:
  assumes "lane_turn i j" "lane_turn j k"
  shows "lane_turn i k"
proof -
  have "same_lease i k" if "j_state i = LEASED"
    using that assms same_lease_trans [of i j k] same_lease_columns [of i j] by (simp add: lane_turn_def)
  with assms show ?thesis unfolding lane_turn_def by (elim conjE disjE) simp_all
qed

lemma classify_rows_evolve:
  assumes "fold_out (classify_job P z activated prompt now) rows db = Inr db'"
    "\<forall>r \<in> set rows. \<forall>j \<in> set (wl_jobs db). j_id j = j_id r \<and> \<not> j_lane_classified j \<longrightarrow> j = r"
  shows "evolves lane_turn (wl_jobs db) (wl_jobs db')"
  using assms
proof (induction rows arbitrary: db)
  case Nil
  then show ?case by (simp add: evolves_refl)
next
  case (Cons r rows)
  from Cons.prems(1) obtain db1 where one: "classify_job P z activated prompt now r db = Inr db1"
    and rest: "fold_out (classify_job P z activated prompt now) rows db1 = Inr db'"
    by (auto simp: bind_out_Inr_iff)
  let ?p = "\<lambda>j. j_id j = j_id r \<and> \<not> j_lane_classified j"
  from one obtain gone where gone: "retires P z activated prompt db r = Inr gone"
    and db1: "db1 = set_jobs_of (sql_update ?p (classified_row (historical activated db r) gone now) (wl_jobs db)) db"
    by (auto simp: classify_job_def bind_out_Inr_iff)
  have waiting: "gone \<Longrightarrow> queued_or_backing_off r"
    using gone by (auto simp: retires_def split: if_splits)
  have "evolves lane_turn (wl_jobs db) (sql_update ?p (classified_row (historical activated db r) gone now) (wl_jobs db))"
  proof (rule evolves_update)
    fix j assume j: "j \<in> set (wl_jobs db)" "?p j"
    then have "j = r" using Cons.prems(2) by auto
    with waiting show "lane_turn j (classified_row (historical activated db r) gone now j)"
      by (auto simp: lane_turn_def classified_row_def same_lease_def queued_or_backing_off_def)
  qed (auto simp: classified_row_def job_identity_def job_inv_defs)
  moreover have "evolves lane_turn (wl_jobs db1) (wl_jobs db')"
  proof (rule Cons.IH [OF rest], intro ballI impI)
    fix r' j assume r': "r' \<in> set rows" and j: "j \<in> set (wl_jobs db1)" "j_id j = j_id r' \<and> \<not> j_lane_classified j"
    from j have "j \<in> set (wl_jobs db)"
      by (auto simp: db1 sql_update_def classified_row_def split: if_splits)
    then show "j = r'" using Cons.prems(2) r' j(2) by auto
  qed
  ultimately show ?case
    using evolves_trans [OF _ _ lane_turn_trans] by (fastforce simp: db1)
qed

lemma lanes_evolve:
  assumes "install_annotation_contract_lanes P z prompt now db = (r, l)" "distinct_ids (wl_jobs db)"
  shows "evolves lane_turn (wl_jobs db) (wl_jobs l)"
proof -
  let ?db = "open_lane_migration prompt now db"
  have same: "wl_jobs ?db = wl_jobs db" by (simp add: open_lane_migration_def Let_def)
  consider "wl_jobs l = wl_jobs ?db"
    | m where "lane_transaction P z (activation prompt now db) prompt now m ?db = Inr l"
    using assms(1) by (auto simp: install_annotation_contract_lanes_def Let_def split: option.splits if_splits sum.splits)
  then show ?thesis
  proof cases
    case 1
    then show ?thesis using same by (simp add: evolves_refl)
  next
    case (2 m)
    let ?rows = "job_page EXISTING_JOB_LANE_PAGE_SIZE (\<lambda>j. unclassified prompt j \<and> beyond (lm_cursor m) j) (wl_jobs ?db)"
    from 2 obtain db2 where f: "fold_out (classify_job P z (activation prompt now db) prompt now) ?rows ?db = Inr db2"
      and l: "wl_jobs l = wl_jobs db2"
      by (auto simp: lane_transaction_def Let_def bind_out_Inr_iff update_lane_def split: if_splits)
    have "\<forall>r \<in> set ?rows. \<forall>j \<in> set (wl_jobs ?db). j_id j = j_id r \<and> \<not> j_lane_classified j \<longrightarrow> j = r"
      using assms(2) same by (auto dest!: job_page_mem simp: distinct_idsD)
    from classify_rows_evolve [OF f this] show ?thesis by (simp add: same l)
  qed
qed

lemma repair_rows_evolve:
  assumes "fold_out (repair_job prompt parents now) rows (db, c) = Inr (db', c')"
  shows "evolves (\<lambda>j k. j_state k = j_state j \<and> (j_state j = LEASED \<longrightarrow> k = j)) (wl_jobs db) (wl_jobs db')"
  using assms
proof (induction rows arbitrary: db c)
  case Nil
  then show ?case by (simp add: evolves_refl)
next
  case (Cons r rows)
  let ?R = "\<lambda>j k. j_state k = j_state j \<and> (j_state j = LEASED \<longrightarrow> k = j)"
  from Cons.prems obtain db1 c1 where one: "repair_job prompt parents now r (db, c) = Inr (db1, c1)"
    and rest: "fold_out (repair_job prompt parents now) rows (db1, c1) = Inr (db', c')"
    by (auto simp: bind_out_Inr_iff)
  have upd: "evolves ?R (wl_jobs db) (sql_update (\<lambda>j. j_id j = j_id r \<and> j_state j \<noteq> LEASED) f (wl_jobs db))"
    if "f = unresolved_row now \<or> (\<exists>p. f = resolved_row p now)" for f
    by (rule evolves_update)
      (use that in \<open>auto simp: unresolved_row_def resolved_row_def job_identity_def job_inv_defs\<close>)
  have unresolved: "evolves ?R (wl_jobs db) (sql_update (\<lambda>j. j_id j = j_id r \<and> j_state j \<noteq> LEASED) (unresolved_row now) (wl_jobs db))"
    by (rule upd) simp
  have resolved: "evolves ?R (wl_jobs db) (sql_update (\<lambda>j. j_id j = j_id r \<and> j_state j \<noteq> LEASED) (resolved_row p now) (wl_jobs db))" for p
    by (rule upd) blast
  have "evolves ?R (wl_jobs db) (wl_jobs db1)"
    using one unresolved resolved evolves_refl [of "wl_jobs db" ?R]
    by (auto simp: repair_job_def Let_def bind_out_Inr_iff split: if_splits option.splits)
  then show ?case using evolves_trans [OF _ Cons.IH [OF rest]] by force
qed

lemma provenance_evolves:
  assumes "install_downstream_work_provenance prompt now db = (r, l)"
  shows "evolves (\<lambda>j k. j_state k = j_state j \<and> (j_state j = LEASED \<longrightarrow> k = j)) (wl_jobs db) (wl_jobs l)"
proof -
  let ?R = "\<lambda>j k. j_state k = j_state j \<and> (j_state j = LEASED \<longrightarrow> k = j)"
  let ?db = "open_provenance_migration now db"
  have same: "wl_jobs ?db = wl_jobs db" by (simp add: open_provenance_migration_def)
  consider "wl_jobs l = wl_jobs ?db"
    | m c where "provenance_transaction prompt now m ?db = Inr (l, c)"
    using assms by (auto simp: install_downstream_work_provenance_def Let_def split: option.splits if_splits sum.splits)
  then show ?thesis
  proof cases
    case 1
    then show ?thesis using same by (simp add: evolves_refl)
  next
    case (2 m c)
    then obtain db2 c0 c2 where "fold_out (repair_job prompt (parents_complete prompt ?db) now) (repair_rows prompt m ?db) (?db, c0) =
        Inr (db2, c2)" "wl_jobs l = wl_jobs db2"
      by (auto simp: provenance_transaction_def Let_def bind_out_Inr_iff update_downstream_def split: if_splits prod.splits)
    with repair_rows_evolve [OF this(1)] show ?thesis by (simp add: same)
  qed
qed

subsection \<open>Completion by evidence\<close>

definition complete_turn :: "job \<Rightarrow> job \<Rightarrow> bool" where
  "complete_turn j k \<longleftrightarrow> k = j \<or> (j_state j \<noteq> LEASED \<and> j_state k = COMPLETED)"

lemma complete_turn_refl [simp]: "complete_turn j j"
  by (simp add: complete_turn_def)

lemma complete_turn_trans: "complete_turn i j \<Longrightarrow> complete_turn j k \<Longrightarrow> complete_turn i k"
  by (auto simp: complete_turn_def)

lemma completed_job_ok: "job_ok (completed_job P key prompt t prov jobs)"
  by (simp add: completed_job_def job_inv_defs Let_def split: prod.splits)

lemma completed_job_time: "j_completed_at (completed_job P key prompt t prov jobs) = Some t"
  by (simp add: completed_job_def Let_def split: prod.splits)

lemma completion_shapes:
  assumes "record_annotation_completion P key prompt t prov db = Inr db'"
  defines "new \<equiv> completed_job P key prompt t prov (ld_jobs db)"
  shows "db' = db \<or> ld_jobs db' = sql_update (\<lambda>j. j_id j = j_id new \<and> j_state j \<noteq> LEASED) (complete_row new) (ld_jobs db) \<or>
     ld_jobs db' = insert_job new (ld_jobs db)"
proof -
  let ?usable = "list_ex (\<lambda>a. nn_key a = key \<and> nn_prompt a = prompt \<and> usable_annotation a) (ld_annotations db)"
  let ?named = "list_ex (\<lambda>j. j_id j = j_id new) (ld_jobs db)"
  let ?known = "list_ex (\<lambda>j. job_identity j = job_identity new) (ld_jobs db)"
  have run: "Inr db' = (if \<not> ?usable then Inr db
      else if ?named then Inr (db\<lparr>ld_jobs := sql_update (\<lambda>j. j_id j = j_id new \<and> j_state j \<noteq> LEASED) (complete_row new) (ld_jobs db)\<rparr>)
      else if ?known then Inl (IntegrityError ''UNIQUE constraint failed'')
      else Inr (db\<lparr>ld_jobs := ld_jobs db @ [new]\<rparr>))"
    using assms(1) unfolding record_annotation_completion_def Let_def new_def by (rule sym)
  consider "\<not> ?usable" | "?usable" "?named" | "?usable" "\<not> ?named" "\<not> ?known" | "?usable" "\<not> ?named" "?known" by blast
  then show ?thesis
  proof cases
    case 1
    with run show ?thesis by simp
  next
    case 2
    with run show ?thesis by simp
  next
    case 3
    then have "insert_job new (ld_jobs db) = ld_jobs db @ [new]"
      by (intro insert_job_new) (auto simp: list_ex_iff conflicts_def)
    with 3 run show ?thesis by simp
  next
    case 4
    with run show ?thesis by simp
  qed
qed

lemma completion_evolves:
  assumes "record_annotation_completion P key prompt t prov db = Inr db'"
  shows "evolves complete_turn (ld_jobs db) (ld_jobs db')"
proof -
  let ?new = "completed_job P key prompt t prov (ld_jobs db)"
  consider "db' = db"
    | "ld_jobs db' = sql_update (\<lambda>j. j_id j = j_id ?new \<and> j_state j \<noteq> LEASED) (complete_row ?new) (ld_jobs db)"
    | "ld_jobs db' = insert_job ?new (ld_jobs db)"
    using completion_shapes [OF assms] by blast
  then show ?thesis
  proof cases
    case 1
    then show ?thesis by (simp add: evolves_refl)
  next
    case 2
    have "evolves complete_turn (ld_jobs db)
        (sql_update (\<lambda>j. j_id j = j_id ?new \<and> j_state j \<noteq> LEASED) (complete_row ?new) (ld_jobs db))"
      by (rule evolves_update)
        (auto simp: complete_turn_def complete_row_def job_identity_def job_inv_defs completed_job_time)
    with 2 show ?thesis by simp
  next
    case 3
    then show ?thesis using evolves_insert [OF completed_job_ok, of complete_turn] by simp
  qed
qed

lemma refresh_keeps_jobs [simp]: "ld_jobs (refresh_news_revision_state k db) = ld_jobs db"
  by (simp add: refresh_news_revision_state_def split: option.splits)

lemma append_evolves:
  assumes "run_append P act db = Inr db'"
  shows "evolves complete_turn (ld_jobs db) (ld_jobs db')"
proof -
  have same: ?thesis if "ld_jobs db' = ld_jobs db" using that by (simp add: evolves_refl)
  show ?thesis
  proof (cases act)
    case (AppendRevision q)
    with assms obtain r where "append_news_revision P q db = Inr (r, db')" by (auto simp: map_sum_Inr)
    then show ?thesis by (cases rule: append_revision_shape) (simp_all add: evolves_refl)
  next
    case (AppendContentFailure f)
    with assms show ?thesis by (intro same) (auto simp: append_content_failure_def split: if_splits)
  next
    case (AppendAnnotation a)
    with assms obtain db2 where
      "record_annotation_completion P (nn_key a) (nn_prompt a) (nn_parsed a) None
          (db\<lparr>ld_annotations := ld_annotations db @ [a]\<rparr>) = Inr db2"
      "db' = refresh_news_revision_state (nn_key a) db2"
      by (auto simp: append_annotation_def bind_out_Inr_iff split: if_splits)
    with completion_evolves [OF this(1)] show ?thesis by simp
  next
    case (AppendMacro m)
    with assms obtain r where "append_macro_observation m db = Inr (r, db')" by (auto simp: map_sum_Inr)
    then show ?thesis by (cases rule: macro_shape) (simp_all add: evolves_refl)
  next
    case (AppendTranslation t)
    with assms side_table_shapes(1) [of t db db'] show ?thesis by (intro same) simp
  next
    case (AppendPoll q)
    with assms side_table_shapes(2) [of q db db'] show ?thesis by (intro same) simp
  next
    case (AppendDiscoveryFailure f)
    with assms side_table_shapes(3) [of f db db'] show ?thesis by (intro same) simp
  next
    case (AppendRejection r)
    with assms side_table_shapes(4) [of P r db db'] show ?thesis by (intro same) simp
  qed
qed

abbreviation xd_jobs :: "transition_db \<Rightarrow> job list" where
  "xd_jobs y \<equiv> wl_jobs (xd_lanes y)"

lemma projection_keeps_jobs [simp]: "xd_jobs (insert_projection P t c a d x) = xd_jobs x"
  by (simp add: insert_projection_def Let_def)

lemma apply_row_evolves:
  assumes "apply_row P t c now r x = Inr (ok, x')"
  shows "evolves complete_turn (xd_jobs x) (xd_jobs x')"
proof -
  obtain n a where r: "r = (n, a)" by (cases r)
  show ?thesis
  proof (cases "projected_annotation P t x n a")
    case (Inl e)
    with assms r show ?thesis by (auto simp: apply_row_def evolves_refl split: if_splits)
  next
    case (Inr d)
    with assms r obtain prov ledger where
      "record_annotation_completion P (nn_key a) (sx_to t) now (Some prov) (wl_ledger (xd_lanes (insert_projection P t c a d x))) =
        Inr ledger" "xd_jobs x' = ld_jobs ledger"
      by (auto simp: apply_row_def Let_def bind_out_Inr_iff)
    with completion_evolves [OF this(1)] show ?thesis by simp
  qed
qed

lemma apply_rows_evolve:
  "apply_rows P z t c epoch activated now rs (m, n, x) = Inr (m', n', x') \<Longrightarrow>
     evolves complete_turn (xd_jobs x) (xd_jobs x')"
proof (induction rs arbitrary: m n x)
  case Nil
  then show ?case by (simp add: evolves_refl)
next
  case (Cons r rs)
  show ?case
  proof (cases "timely P z (backfill_policy None) activated epoch (vn_first_seen (fst r)) (vn_published (fst r))")
    case False
    with Cons show ?thesis by auto
  next
    case True
    with Cons.prems obtain ok x1 m1 n1 where "apply_row P t c now r x = Inr (ok, x1)"
      "apply_rows P z t c epoch activated now rs (m1, n1, x1) = Inr (m', n', x')"
      by (auto simp: bind_out_Inr_iff)
    with apply_row_evolves Cons.IH show ?thesis by (blast intro: evolves_trans complete_turn_trans)
  qed
qed

lemma transition_page_evolves:
  assumes "execute_transition_page P z t activated now n y = (r, y')"
  shows "evolves complete_turn (xd_jobs y) (xd_jobs y')"
  using assms
proof (cases rule: execute_transition_page_cases)
  case kept
  then show ?thesis by (simp add: evolves_refl)
next
  case (page c epoch s report x1)
  from page(4) obtain m k x2 where
    "apply_rows P z t c epoch activated now (page_rows t epoch activated (xs_cursor s) (bounded_page n) x1) (0, 0, x1) =
       Inr (m, k, x2)" "xd_lanes y' = xd_lanes x2"
    by (auto simp: page_transaction_def Let_def bind_out_Inr_iff split: if_splits)
  with apply_rows_evolve [OF this(1)] page(2) show ?thesis by simp
qed

subsection \<open>Reconciliation\<close>

lemma reconcile_evolves:
  assumes "reconcile_completed_jobs E q m = Inr (n, m')"
  shows "evolves (\<lambda>j k. k = j \<or> (j_state k = COMPLETED \<and> satisfied E m j) \<or>
     (j_state k = DEAD_LETTER \<and> (j_state j = LEASED \<longrightarrow> satisfied E m j))) (mb_jobs m) (mb_jobs m')"
    (is "evolves ?R _ _")
proof -
  from assms obtain epoch where epoch: "ld_epoch (mb_ledger m) = Some epoch"
    by (auto simp: reconcile_completed_jobs_def split: option.splits)
  consider "mb_jobs m' = mb_jobs m"
    | dates k m1 where "reconcile_jobs E epoch dates (rq_now q) m = Inr (k, m1)" "mb_jobs m' = mb_jobs m1"
    using assms epoch
    by (auto simp: reconcile_completed_jobs_def Let_def bind_out_Inr_iff store_acceptance_def split: if_splits option.splits)
  then show ?thesis
  proof cases
    case 1
    then show ?thesis by (simp add: evolves_refl)
  next
    case (2 dates k m1)
    let ?now = "rq_now q"
    from 2(1) have jobs: "mb_jobs m1 = apply_statement (obsolescence_statement E epoch dates (mb_ledger m) ?now)
        (apply_statement (completion_statement E m ?now) (mb_jobs m))"
      by (rule reconcile_jobs_runs) (simp add: statements_apply reconciled_job_def [abs_def] comp_def)
    have close: "evolves (\<lambda>j k. k = j \<or> (satisfied E m j \<and> j_state k = COMPLETED)) (mb_jobs m)
        (apply_statement (completion_statement E m ?now) (mb_jobs m))"
      unfolding completion_statement_def apply_statement.simps
      by (rule evolves_update) (auto simp: completable_def job_identity_def job_inv_defs)
    have retire: "evolves (\<lambda>j k. k = j \<or> (j_state j \<noteq> LEASED \<and> j_state k = DEAD_LETTER)) js
        (apply_statement (obsolescence_statement E epoch dates (mb_ledger m) ?now) js)" for js
      unfolding obsolescence_statement_def apply_statement.simps
      by (rule evolves_update) (auto simp: obsolete_def job_identity_def job_inv_defs)
    have "evolves ?R (mb_jobs m) (mb_jobs m1)"
      unfolding jobs by (rule evolves_trans [OF close retire]) auto
    with 2(2) show ?thesis by simp
  qed
qed

lemma run_job_statements_jobs:
  "run_job_statements E [UpdateJobs p f] m = Inr m' \<Longrightarrow> mb_jobs m' = sql_update p f (mb_jobs m)"
  by (auto simp: run_job_statements_def run_statements_def run_statement_def bind_out_Inr_iff set_jobs_def)

lemma reopen_evolves:
  "reopen_jobs E now jids n m = Inr (k, m') \<Longrightarrow>
     evolves (\<lambda>j k. k = j \<or> (j_state j = DEAD_LETTER \<and> j_state k = QUEUED)) (mb_jobs m) (mb_jobs m')"
proof (induction jids arbitrary: n m)
  case Nil
  then show ?case by (simp add: evolves_refl)
next
  case (Cons jid jids)
  let ?R = "\<lambda>j k. k = j \<or> (j_state j = DEAD_LETTER \<and> j_state k = QUEUED)"
  from Cons.prems obtain m1 where one: "run_job_statements E [reopen_statement now jid] m = Inr m1"
    and rest: "reopen_jobs E now jids (n + sql_count (reopened jid) (mb_jobs m)) m1 = Inr (k, m')"
    by (auto simp: bind_out_Inr_iff)
  have "evolves ?R (mb_jobs m) (mb_jobs m1)"
    unfolding run_job_statements_jobs [OF one [unfolded reopen_statement_def]]
    by (rule evolves_update) (auto simp: reopened_def job_identity_def job_inv_defs)
  then show ?case by (rule evolves_trans [OF _ Cons.IH [OF rest]]) auto
qed

section \<open>Every step\<close>

lemma system_step_evolves:
  assumes "system_step E z s a s'" "system_inv s"
  shows "evolves (system_turn E (snd s) a) (db_jobs (fst s)) (db_jobs (fst s')) \<and> system_inv s'"
proof -
  have inv: "system_inv s'"
    if "evolves R (db_jobs (fst s)) (db_jobs (fst s'))" "dx_jobs (snd s') = db_jobs (fst s')"
      "dx_overrides (snd s') = db_overrides (fst s')" "one_active_override (db_overrides (fst s'))" for R
    using that evolves_ok [OF that(1)] assms(2) by (simp add: system_inv_def queue_inv_iff)
  from assms show ?thesis
  proof (cases rule: system_step.cases)
    case (queue db b db' x)
    have q: "queue_inv db" using assms(2) by (simp add: system_inv_def queue)
    have "evolves (system_turn E x (Queue b)) (db_jobs db) (db_jobs db')"
      by (rule evolves_mono [OF queue_step_evolves [OF queue(4) q]])
        (auto simp: system_turn_def queue_turn_def queued_or_backing_off_def)
    moreover have "system_inv s'" using queue_step_inv [OF queue(4) q] by (simp add: system_inv_def queue)
    ultimately show ?thesis by (simp add: queue)
  next
    case (recover prompt version now name x k x' db)
    note e = recover_evolves [OF recover(4), of E]
    then show ?thesis using inv assms(2) by (auto simp: recover system_inv_def queue_inv_iff)
  next
    case (recover_impacts prompt version now x k x' db)
    note e = recover_impacts_evolves [OF recover_impacts(4), of E]
    then show ?thesis using inv assms(2) by (auto simp: recover_impacts system_inv_def queue_inv_iff)
  next
    case (lanes prompt now x r l db)
    have dist: "distinct_ids (wl_jobs (dx_lanes x))"
      using assms(2) by (simp add: system_inv_def queue_inv_def distinct_ids_def lanes)
    have "evolves (system_turn E x (SettleLanes prompt now)) (dx_jobs x) (wl_jobs l)"
      by (rule evolves_mono [OF lanes_evolve [OF lanes(4) dist]]) (auto simp: system_turn_def lane_turn_def)
    then show ?thesis using inv assms(2) by (auto simp: lanes system_inv_def queue_inv_iff)
  next
    case (transition t activated now n x r y db)
    have "evolves (system_turn E x (TransitionPage t activated now n)) (dx_jobs x) (xd_jobs y)"
      by (rule evolves_mono [OF transition_page_evolves [OF transition(4)]]) (auto simp: system_turn_def complete_turn_def)
    then show ?thesis using inv assms(2) by (auto simp: transition system_inv_def queue_inv_iff)
  next
    case (provenance prompt now x r l db)
    have "evolves (system_turn E x (RepairProvenance prompt now)) (dx_jobs x) (wl_jobs l)"
      by (rule evolves_mono [OF provenance_evolves [OF provenance(4)]]) (auto simp: system_turn_def)
    then show ?thesis using inv assms(2) by (auto simp: provenance system_inv_def queue_inv_iff)
  next
    case (reconcile q d c x n m db)
    have jobs: "mb_jobs (maintenance_of d c x) = dx_jobs x" by (simp add: maintenance_of_def)
    have "evolves (system_turn E x (ReconcileJobs q d c)) (mb_jobs (maintenance_of d c x)) (mb_jobs m)"
      by (rule evolves_mono [OF reconcile_evolves [OF reconcile(4)]]) (auto simp: system_turn_def jobs)
    then show ?thesis using inv assms(2) jobs by (auto simp: reconcile system_inv_def queue_inv_iff)
  next
    case (reopen keys prompt now d c x n m db)
    have jobs: "mb_jobs (maintenance_of d c x) = dx_jobs x" by (simp add: maintenance_of_def)
    have "evolves (system_turn E x (ReopenProtected keys prompt now d c)) (mb_jobs (maintenance_of d c x)) (mb_jobs m)"
      by (rule evolves_mono [OF reopen_evolves [OF reopen(4) [unfolded reopen_protected_annotation_jobs_def]]]) (auto simp: system_turn_def jobs)
    then show ?thesis using inv assms(2) jobs by (auto simp: reopen system_inv_def queue_inv_iff)
  next
    case (skip db x now hash)
    have "evolves (system_turn E x (SkipContent now hash)) (dx_jobs x) (dx_jobs (skip_prohibited_content now hash x))"
      by (rule skip_evolves)
    then show ?thesis using inv assms(2) skip_evolves(2) [of x now hash] by (auto simp: skip system_inv_def queue_inv_iff)
  next
    case (append act x l db)
    have "evolves (system_turn E x (AppendEvidence act)) (dx_jobs x) (ld_jobs l)"
      by (rule evolves_mono [OF append_evolves [OF append(4)]]) (auto simp: system_turn_def complete_turn_def)
    then show ?thesis using inv assms(2) by (auto simp: append system_inv_def queue_inv_iff)
  next
    case (recorded key prompt t x l db)
    have "evolves (system_turn E x (RecordCompletion key prompt t)) (dx_jobs x) (ld_jobs l)"
      by (rule evolves_mono [OF completion_evolves [OF recorded(4)]]) (auto simp: system_turn_def complete_turn_def)
    then show ?thesis using inv assms(2) by (auto simp: recorded system_inv_def queue_inv_iff)
  next
    case (elsewhere x' x db' db)
    have "evolves (system_turn E x Elsewhere) (db_jobs db) (db_jobs db')"
      by (simp add: elsewhere evolves_refl system_turn_def)
    then show ?thesis using inv assms(2) by (auto simp: elsewhere system_inv_def queue_inv_iff)
  qed
qed

lemma system_history_inv: "system_history E z s acts s' \<Longrightarrow> system_inv s \<Longrightarrow> system_inv s'"
  by (induction rule: system_history.induct) (auto dest: system_step_evolves)

section \<open>Leases and the life cycle along every history\<close>

text \<open>
  C4: Leases are exclusive. Whatever the workers, enqueuers, operators and the maintenance do, in any order, a leased
  job keeps its row, with its owner, its expiry and every other column except the lane, the priority and the mark that
  the lane is decided, and no other worker can complete, release, back off or defer it; unless one of the actions has
  ended the lease, which only its owner's own transition of it does, a claim that runs at or after the expiry, or a
  reconciliation that finds the work of the job done.
\<close>

theorem lease_is_exclusive:
  assumes "system_history E z s acts s'" "system_inv s" "j \<in> set (db_jobs (fst s))" "owns_lease (j_id j) w j"
  shows "(\<exists>k \<in> set (db_jobs (fst s')).
        k = j\<lparr>j_lane := j_lane k, j_priority := j_priority k, j_lane_classified := j_lane_classified k\<rparr> \<and>
        (\<forall>v st av err co clock. v \<noteq> w \<longrightarrow>
          transition_leased_job (j_id j) v st av err co clock (fst s') =
            Inl (ValueError ''scheduler lease is not owned by this worker'')) \<and>
        (\<forall>v av reason clock. v \<noteq> w \<longrightarrow> isl (defer_job_for_maintenance (j_id j) v av reason clock (fst s')))) \<or>
     (\<exists>before a after s1 k. acts = before @ a # after \<and> system_history E z s before s1 \<and>
        k \<in> set (db_jobs (fst s1)) \<and>
        k = j\<lparr>j_lane := j_lane k, j_priority := j_priority k, j_lane_classified := j_lane_classified k\<rparr> \<and>
        ((\<exists>b. a = Queue b \<and> (case b of
             Complete i v _ _ \<Rightarrow> i = j_id j \<and> v = w
           | Release i v _ _ _ \<Rightarrow> i = j_id j \<and> v = w
           | Backoff i v _ _ _ _ \<Rightarrow> i = j_id j \<and> v = w
           | Defer i v _ _ _ \<Rightarrow> i = j_id j \<and> v = w
           | Claim _ now \<Rightarrow> (\<exists>e. j_lease_expires_at j = Some e \<and> e \<le> now)
           | _ \<Rightarrow> False)) \<or>
         (\<exists>q d c. a = ReconcileJobs q d c \<and> satisfied E (maintenance_of d c (snd s1)) k)))"
proof -
  have held: "(\<exists>k \<in> set (db_jobs (fst s')). same_lease j k) \<or>
     (\<exists>before a after s1 k. acts = before @ a # after \<and> system_history E z s before s1 \<and>
        k \<in> set (db_jobs (fst s1)) \<and> same_lease j k \<and> frees E (snd s1) a k)"
    using assms
  proof (induction rule: system_history.induct)
    case (start s)
    then show ?case by (intro disjI1 bexI [of _ j]) simp_all
  next
    case (then_step s acts s1 a s2)
    note inv1 = system_history_inv [OF then_step(1,4)]
    from then_step(3) [OF then_step(4,5,6)] show ?case
    proof
      assume "\<exists>k \<in> set (db_jobs (fst s1)). same_lease j k"
      then obtain k where k: "k \<in> set (db_jobs (fst s1))" "same_lease j k" by blast
      obtain l where l: "l \<in> set (db_jobs (fst s2))" "system_turn E (snd s1) a k l"
        using evolvesE [OF conjunct1 [OF system_step_evolves [OF then_step(2) inv1]] k(1)] by metis
      have "j_state k = LEASED" using same_lease_columns [OF k(2)] then_step(6) by (simp add: owns_lease_def)
      with l(2) consider "frees E (snd s1) a k" | "same_lease k l" by (auto simp: system_turn_def)
      then show ?case
      proof cases
        case 1
        then show ?thesis using then_step(1) k by blast
      next
        case 2
        then show ?thesis using same_lease_trans [OF k(2) 2] l(1) by blast
      qed
    next
      assume "\<exists>before b after s1 k. acts = before @ b # after \<and> system_history E z s before s1 \<and>
        k \<in> set (db_jobs (fst s1)) \<and> same_lease j k \<and> frees E (snd s1) b k"
      then obtain before b after s3 k where "acts @ [a] = before @ b # (after @ [a])" "system_history E z s before s3"
        "k \<in> set (db_jobs (fst s3))" "same_lease j k" "frees E (snd s3) b k" by auto
      then show ?thesis by blast
    qed
  qed
  from held show ?thesis
  proof
    assume "\<exists>k \<in> set (db_jobs (fst s')). same_lease j k"
    then obtain k where k: "k \<in> set (db_jobs (fst s'))" "same_lease j k" by blast
    have own: "owns_lease (j_id j) w k" using same_lease_columns [OF k(2)] assms(4) by (simp add: owns_lease_def)
    have q: "queue_inv (fst s')" using system_history_inv [OF assms(1,2)] by (simp add: system_inv_def)
    have none: "\<not> owns_lease (j_id j) v i" if "i \<in> set (db_jobs (fst s'))" "v \<noteq> w" for v i
      using named_row [OF q k(1) own that(1)] own that(2) by (auto simp: owns_lease_def)
    then have "sql_count (owns_lease (j_id j) v) (db_jobs (fst s')) = 0" if "v \<noteq> w" for v
      using that by (simp add: sql_count_eq_0_iff)
    moreover have "isl (defer_job_for_maintenance (j_id j) v av reason clock (fst s'))" if "v \<noteq> w" for v av reason clock
    proof (rule ccontr)
      assume "\<not> ?thesis"
      then obtain db' where "defer_job_for_maintenance (j_id j) v av reason clock (fst s') = Inr db'"
        by (cases "defer_job_for_maintenance (j_id j) v av reason clock (fst s')") simp_all
      then show False by (cases rule: deferE) (use none that in blast)
    qed
    ultimately show ?thesis using k by (intro disjI1 bexI [OF _ k(1)]) (simp add: same_lease_def transition_leased_job_def)
  next
    assume "\<exists>before a after s1 k. acts = before @ a # after \<and> system_history E z s before s1 \<and>
        k \<in> set (db_jobs (fst s1)) \<and> same_lease j k \<and> frees E (snd s1) a k"
    then obtain before a after s1 k where f: "acts = before @ a # after" "system_history E z s before s1"
      "k \<in> set (db_jobs (fst s1))" "same_lease j k" "frees E (snd s1) a k" by blast
    note same = same_lease_columns [OF f(4)]
    have "(\<exists>b. a = Queue b \<and> (case b of
             Complete i v _ _ \<Rightarrow> i = j_id j \<and> v = w
           | Release i v _ _ _ \<Rightarrow> i = j_id j \<and> v = w
           | Backoff i v _ _ _ _ \<Rightarrow> i = j_id j \<and> v = w
           | Defer i v _ _ _ \<Rightarrow> i = j_id j \<and> v = w
           | Claim _ now \<Rightarrow> (\<exists>e. j_lease_expires_at j = Some e \<and> e \<le> now)
           | _ \<Rightarrow> False)) \<or>
         (\<exists>q d c. a = ReconcileJobs q d c \<and> satisfied E (maintenance_of d c (snd s1)) k)"
    proof (cases a)
      case (Queue b)
      then show ?thesis using f(5) same assms(4) by (cases b) (auto simp: owns_lease_def)
    qed (use f(5) in simp_all)
    with f(1-3) f(4) [unfolded same_lease_def] show ?thesis by blast
  qed
qed

text \<open>
  C5: The queue refines the life cycle of a job. Along every history of all writers each job keeps its row and its
  identity, and its state goes through exactly such moves as the life cycle allows to the actions that were performed, in
  their order: only a claim leases a job, and only one that waits; a worker's transition moves the leased job it names
  and no other; a completed job is queued again only by an enqueue that asks for it; a dead-lettered job leaves that
  state only by a recovery, a protection or evidence; and without its lease a job is completed by evidence only. The
  table stays well formed.
\<close>

theorem history_refines_lifecycle:
  assumes "system_history E z s acts s'" "system_inv s" "j \<in> set (db_jobs (fst s))"
  shows "system_inv s' \<and> (\<exists>j' \<in> set (db_jobs (fst s')). j_id j' = j_id j \<and> job_identity j' = job_identity j \<and>
     moves_through acts (j_id j) (j_state j) (j_state j'))"
proof
  show "system_inv s'" by (rule system_history_inv [OF assms(1,2)])
  show "\<exists>j' \<in> set (db_jobs (fst s')). j_id j' = j_id j \<and> job_identity j' = job_identity j \<and>
     moves_through acts (j_id j) (j_state j) (j_state j')"
    using assms
  proof (induction rule: system_history.induct)
    case (start s)
    then show ?case by (intro bexI [of _ j]) simp_all
  next
    case (then_step s acts s1 a s2)
    then obtain k where k: "k \<in> set (db_jobs (fst s1))" "j_id k = j_id j" "job_identity k = job_identity j"
      "moves_through acts (j_id j) (j_state j) (j_state k)" by blast
    obtain l where l: "l \<in> set (db_jobs (fst s2))" "j_id l = j_id k" "job_identity l = job_identity k"
      "system_turn E (snd s1) a k l"
      by (rule evolvesE [OF conjunct1 [OF system_step_evolves [OF then_step(2) system_history_inv [OF then_step(1,4)]]] k(1)])
    then have "moves_through (acts @ [a]) (j_id j) (j_state j) (j_state l)"
      using moves_through_snoc [OF k(4)] k(2) by (auto simp: system_turn_def)
    with l k show ?case by (intro bexI [OF _ l(1)]) simp
  qed
qed

subsection \<open>Witnesses\<close>

definition sample_system :: system where
  "sample_system = (sample_leased_db, sample_discovery [sample_leased])"

lemma sample_system_inv: "system_inv sample_system" "sample_leased \<in> set (db_jobs (fst sample_system))"
  "owns_lease (j_id sample_leased) ''w'' sample_leased" "j_lease_expires_at sample_leased = Some (seconds 190)"
  using sample_leased_db
  by (simp_all add: system_inv_def sample_system_def sample_discovery_def sample_leased_db_def sample_db_def empty_db_def
      owns_lease_def sample_leased_def)

lemma sample_system_history:
  obtains s' where "system_history E z sample_system [Queue (Claim sample_rival (seconds 20))] s'"
proof -
  obtain db' where "queue_history (sq_platform E) sample_leased_db [Claim sample_rival (seconds 20)] db'"
    by (rule sample_history)
  then have "queue_step (sq_platform E) sample_leased_db (Claim sample_rival (seconds 20)) db'"
    by (cases rule: queue_history.cases) (auto elim: queue_history.cases)
  then have "system_step E z sample_system (Queue (Claim sample_rival (seconds 20)))
      (db', with_queue db' (sample_discovery [sample_leased]))"
    unfolding sample_system_def by (rule system_step.queue)
  from system_history.then_step [OF system_history.start this] that show ?thesis by simp
qed

theorem lease_is_exclusive_witness:
  "\<exists>s' :: system. \<exists>k \<in> set (db_jobs (fst s')). j_id k = ''job-1'' \<and> j_lease_owner k = Some ''w''"
proof -
  obtain s' where h: "system_history sample_env sample_zone sample_system [Queue (Claim sample_rival (seconds 20))] s'"
    by (rule sample_system_history)
  have "(\<exists>k \<in> set (db_jobs (fst s')). k = sample_leased\<lparr>j_lane := j_lane k, j_priority := j_priority k,
      j_lane_classified := j_lane_classified k\<rparr>)"
    using lease_is_exclusive [OF h sample_system_inv(1-3)] sample_system_inv(4)
    by (auto simp: Cons_eq_append_conv )
  then obtain k where "k \<in> set (db_jobs (fst s'))" "same_lease sample_leased k" by (auto simp: same_lease_def)
  with same_lease_columns [OF this(2)] show ?thesis
    by (intro exI [of _ s'] bexI [of _ k]) (simp_all add: sample_leased_def sample_job_def)
qed

theorem history_refines_lifecycle_witness:
  "\<exists>s' :: system. system_inv s' \<and> (\<exists>k \<in> set (db_jobs (fst s')). j_id k = ''job-1'' \<and> (j_state k = LEASED \<or> j_state k = QUEUED))"
proof -
  obtain s' where h: "system_history sample_env sample_zone sample_system [Queue (Claim sample_rival (seconds 20))] s'"
    by (rule sample_system_history)
  from history_refines_lifecycle [OF h sample_system_inv(1,2)] obtain k where "system_inv s'" "k \<in> set (db_jobs (fst s'))"
    "j_id k = j_id sample_leased" "moves (Queue (Claim sample_rival (seconds 20))) (j_id k) (j_state sample_leased) (j_state k)"
    by auto
  then show ?thesis
    by (intro exI [of _ s'] conjI bexI [of _ k]) (auto simp: sample_leased_def sample_job_def)
qed

end
