(* ===== verification/News_Features.thy ===== *)
theory News_Features
  imports Event_Evidence
begin

text \<open>
  What the model sees of the news at a decision: \<^verbatim>\<open>xauusd_news/factors.py\<close>,
  \<^verbatim>\<open>xauusd_news/news/semantics/features.py\<close> and \<^verbatim>\<open>xauusd_news/news/collection/macro_release.py\<close>. The events
  of \<open>Event_Evidence\<close> are weighted by their evidence, their age and their confidence and averaged, in the core and
  in the broad model; the macro series give their latest level and its change.

  A dictionary of features is a function from names, 0 where the code has 0.0. The exponential of the library, the
  measurements of an annotation and the hash of a list are arguments. Floats are exact and rounded after each
  operation, by \<open>fl\<close>.
\<close>

section \<open>Measurements\<close>

record signals =
  sg_hawkishness :: real
  sg_inflation :: real
  sg_growth :: real
  sg_geopolitical :: real
  sg_usd :: real
  sg_novelty :: real
  sg_confidence :: real

record feature_env =
  fe_events :: event_env
  fe_exp :: "real \<Rightarrow> real"
  fe_signals :: "string \<Rightarrow> signals"
  fe_types :: "string \<Rightarrow> string"

abbreviation fe_fl :: "feature_env \<Rightarrow> real \<Rightarrow> real" where
  "fe_fl F \<equiv> fl (ee_platform (fe_events F))"

type_synonym features = "string \<Rightarrow> real"

definition SIGNAL_NAMES :: "string list" where
  "SIGNAL_NAMES = [''hawkishness'', ''inflation_impulse'', ''growth_impulse'', ''geopolitical_risk'', ''usd_impulse'', ''novelty'',
     ''confidence'']"

definition signal_values :: "signals \<Rightarrow> (string \<times> real) list" where
  "signal_values s = zip SIGNAL_NAMES
     [sg_hawkishness s, sg_inflation s, sg_growth s, sg_geopolitical s, sg_usd s, sg_novelty s, sg_confidence s]"

definition MACRO_RELEASE_SERIES :: "(string \<times> string) list" where
  "MACRO_RELEASE_SERIES =
     [(''EIA_RWTC'', ''eia_wti''), (''BEA_REAL_GDP_GROWTH_QOQ_ANNUALIZED'', ''bea_real_gdp''),
      (''BEA_GDP_PRICE_INDEX_Q'', ''bea_gdp_price_index''), (''BEA_PCE_PRICE_INDEX_Q'', ''bea_pce_price_index'')]"

definition MACRO_FEATURE_MAP :: "(string \<times> string \<times> string) list" where
  "MACRO_FEATURE_MAP =
     [(''DGS2'', ''rate_2y_level'', ''rate_2y_change''), (''DFII10'', ''real_yield_10y_level'', ''real_yield_10y_change''),
      (''DTWEXBGS'', ''usd_broad_level'', ''usd_broad_change''), (''DCOILWTICO'', ''oil_wti_level'', ''oil_wti_change''),
      (''WALCL'', ''fed_assets_level'', ''fed_assets_change''), (''VIXCLS'', ''vix_level'', ''vix_change'')]"

text \<open>\<open>totals[name] += weight * value\<close>, each operation rounded.\<close>

definition add_to :: "feature_env \<Rightarrow> string \<Rightarrow> real \<Rightarrow> features \<Rightarrow> features" where
  "add_to F name v d = d(name := fe_fl F (d name + v))"

definition add_signals :: "feature_env \<Rightarrow> string \<Rightarrow> real \<Rightarrow> signals \<Rightarrow> features \<Rightarrow> features" where
  "add_signals F lead weight s d =
     fold (\<lambda>(name, v). add_to F (lead @ name) (fe_fl F (weight * v))) (signal_values s) d"

section \<open>Macro series\<close>

text \<open>
  The stored time is compared as a text with \<open>decision_time.isoformat()\<close>, the decision's wall clock, which has no
  microseconds at a whole second. There the comparison comes to the full stop of the stored text, which is above the sign
  of the offset, so that a value first seen in that second is hidden, and one of the same time too; within a second a
  value of the same time is visible. \<open>w\<close> is \<open>wall_clock\<close> of the decision.
\<close>

definition visible_macro :: "instant \<Rightarrow> macro_observation list \<Rightarrow> macro_observation list" where
  "visible_macro w rows =
     filter (\<lambda>m. if w mod seconds 1 = 0 then ma_first_seen m < w else ma_first_seen m \<le> w) rows"

definition latest_macro :: "instant \<Rightarrow> macro_observation list \<Rightarrow> macro_observation list" where
  "latest_macro w rows =
     sort_key (\<lambda>m. (ma_series m, ma_period m))
       (filter (\<lambda>m. \<not> list_ex (\<lambda>q. ma_source q = ma_source m \<and> ma_series q = ma_series m \<and> ma_period q = ma_period m \<and>
            ma_number m < ma_number q) (visible_macro w rows)) (visible_macro w rows))"

definition macro_values :: "instant \<Rightarrow> macro_observation list \<Rightarrow> string \<Rightarrow> real list" where
  "macro_values w rows series = map ma_value (filter (\<lambda>m. ma_series m = series) (latest_macro w rows))"

definition set_macro :: "feature_env \<Rightarrow> instant \<Rightarrow> macro_observation list \<Rightarrow> string \<times> string \<times> string \<Rightarrow> features \<Rightarrow> features" where
  "set_macro F t rows names d =
     (case names of (series, level, change) \<Rightarrow>
       (case rev (macro_values (wall_clock (fe_events F) t) rows series) of
          [] \<Rightarrow> d
        | [v] \<Rightarrow> d(level := v, change := 0)
        | v # w # _ \<Rightarrow> d(level := v, change := fe_fl F (v - w))))"

definition macro_features :: "feature_env \<Rightarrow> instant \<Rightarrow> macro_observation list \<Rightarrow> features \<Rightarrow> features" where
  "macro_features F t rows d = fold (set_macro F t rows) MACRO_FEATURE_MAP d"

text \<open>The rows of a series by period and revision; the rows of the last period; and the last row of the one before.\<close>

record release_packet =
  rl_source :: string
  rl_series :: string
  rl_prefix :: string
  rl_period :: string
  rl_current :: real
  rl_previous :: "real option"
  rl_prior_revision :: "real option"
  rl_revision_delta :: real
  rl_expectation :: "real option"
  rl_age_hours :: real
  rl_hash :: string

definition series_rows :: "instant \<Rightarrow> macro_observation list \<Rightarrow> string \<Rightarrow> macro_observation list" where
  "series_rows w rows series =
     sort_key (\<lambda>m. (ma_period m, ma_number m)) (filter (\<lambda>m. ma_series m = series) (visible_macro w rows))"

text \<open>\<open>payload.get("expectation_value", payload.get("consensus"))\<close> as a float; a stored null is an empty payload.\<close>

definition expectation_of :: "feature_env \<Rightarrow> json \<Rightarrow> real option outcome" where
  "expectation_of F payload =
     (case (if truthy payload then payload else JObj []) of
        JObj d \<Rightarrow>
          (let v = (case map_of d ''expectation_value'' of Some v \<Rightarrow> v | None \<Rightarrow> jget d ''consensus'') in
           case v of
             JNull \<Rightarrow> Inr None
           | JStr [] \<Rightarrow> Inr None
           | JList _ \<Rightarrow> Inl (OtherError ''TypeError'')
           | JObj _ \<Rightarrow> Inl (OtherError ''TypeError'')
           | v \<Rightarrow> bind_out (ee_float (fe_events F) v) (\<lambda>x. Inr (Some x)))
      | _ \<Rightarrow> Inl (OtherError ''AttributeError''))"

definition release_packet_of ::
    "feature_env \<Rightarrow> instant \<Rightarrow> macro_observation list \<Rightarrow> string \<times> string \<Rightarrow> release_packet option outcome" where
  "release_packet_of F t rows entry =
     (case entry of (series, lead) \<Rightarrow>
       (let own = series_rows (wall_clock (fe_events F) t) rows series in
        if own = [] then Inr None
        else let current = last own;
                 revisions = filter (\<lambda>m. ma_period m = ma_period current) own;
                 earlier = filter (\<lambda>m. ma_period m \<noteq> ma_period current) own;
                 previous = (if earlier = [] then None else Some (ma_value (last earlier)));
                 prior = (if length revisions > 1 then Some (ma_value (last (butlast revisions))) else None);
                 P = ee_platform (fe_events F)
             in bind_out (expectation_of F (ma_payload current)) (\<lambda>expectation.
                  Inr (Some \<lparr>rl_source = ma_source current, rl_series = series, rl_prefix = lead, rl_period = ma_period current,
                    rl_current = ma_value current, rl_previous = previous, rl_prior_revision = prior,
                    rl_revision_delta = (case prior of None \<Rightarrow> 0 | Some v \<Rightarrow> fl P (ma_value current - v)),
                    rl_expectation = expectation,
                    rl_age_hours = max 0 (fl P (total_seconds P (t - ma_first_seen current) / 3600)),
                    rl_hash = ma_hash current\<rparr>))))"

fun packets_of ::
    "feature_env \<Rightarrow> instant \<Rightarrow> macro_observation list \<Rightarrow> (string \<times> string) list \<Rightarrow> release_packet list outcome" where
  "packets_of F t rows [] = Inr []"
| "packets_of F t rows (e # es) =
     bind_out (release_packet_of F t rows e) (\<lambda>found.
     bind_out (packets_of F t rows es) (\<lambda>ps. Inr (case found of None \<Rightarrow> ps | Some p \<Rightarrow> p # ps)))"

text \<open>The packets come in the order of the series' names.\<close>

definition macro_release_packets_at :: "feature_env \<Rightarrow> instant \<Rightarrow> macro_observation list \<Rightarrow> release_packet list outcome" where
  "macro_release_packets_at F t rows = packets_of F t rows (sort_key fst MACRO_RELEASE_SERIES)"

definition add_packet :: "feature_env \<Rightarrow> release_packet \<Rightarrow> features \<Rightarrow> features" where
  "add_packet F p d =
     d(rl_prefix p @ ''_level'' := rl_current p,
       rl_prefix p @ ''_change'' := (case rl_previous p of None \<Rightarrow> 0 | Some v \<Rightarrow> fe_fl F (rl_current p - v)),
       rl_prefix p @ ''_revision_delta'' := rl_revision_delta p,
       rl_prefix p @ ''_age_hours'' := rl_age_hours p)"

definition macro_release_features_at ::
    "feature_env \<Rightarrow> instant \<Rightarrow> macro_observation list \<Rightarrow> (features \<times> release_packet list) outcome" where
  "macro_release_features_at F t rows =
     bind_out (macro_release_packets_at F t rows) (\<lambda>ps. Inr (fold (add_packet F) ps (\<lambda>_. 0), ps))"

section \<open>The weight of an event\<close>

definition evidence_grade_weight :: "grade \<Rightarrow> real" where
  "evidence_grade_weight g =
     (case g of PRIMARY \<Rightarrow> 1 | CORROBORATED \<Rightarrow> 1 | SINGLE_RELIABLE \<Rightarrow> 7 / 20 | SINGLE_SOURCE \<Rightarrow> 1 / 5 | DISCOVERY_ONLY \<Rightarrow> 0)"

abbreviation ev_row :: "event \<Rightarrow> event_row" where
  "ev_row e \<equiv> mr_row (ve_canonical (ev_verdict e))"

text \<open>\<open>economic_age_minutes\<close>: the age of the event, else of its canonical article.\<close>

definition economic_age :: "event \<Rightarrow> real option" where
  "economic_age e =
     (case ve_age (ev_verdict e) of Some a \<Rightarrow> Some a | None \<Rightarrow> na_age (mr_timing (ve_canonical (ev_verdict e))))"

text \<open>The confidence of an event is the smaller one of its annotation and of its assessment.\<close>

definition event_signals :: "feature_env \<Rightarrow> event \<Rightarrow> signals" where
  "event_signals F e =
     (let s = fe_signals F (nn_id (er_note (ev_row e)));
          impact = (case er_impact (ev_row e) of None \<Rightarrow> 0 | Some i \<Rightarrow> ia_confidence i)
      in s\<lparr>sg_confidence := min (sg_confidence s) impact\<rparr>)"

definition freshness :: "feature_env \<Rightarrow> real \<Rightarrow> event \<Rightarrow> real" where
  "freshness F age e =
     (let half = snd (impact_time_rule (row_class (ev_row e)));
          M = ee_library (fe_events F)
      in fe_exp F (fe_fl F (fe_fl F (- math_log M 2 * age) / half)))"

definition event_raw_weight :: "feature_env \<Rightarrow> event \<Rightarrow> real" where
  "event_raw_weight F e =
     (let age = max 0 (case economic_age e of None \<Rightarrow> 0 | Some a \<Rightarrow> a);
          s = event_signals F e
      in fe_fl F (fe_fl F (fe_fl F (evidence_grade_weight (ve_grade (ev_verdict e)) * freshness F age e) * sg_confidence s) *
           max (1 / 20) (sg_novelty s)))"

definition finalize_weighted_signals :: "feature_env \<Rightarrow> string \<Rightarrow> real \<Rightarrow> features \<Rightarrow> features" where
  "finalize_weighted_signals F lead weight_sum d =
     (if weight_sum \<le> 0 then d
      else fold (\<lambda>name d. d(lead @ name := fe_fl F (fe_fl F (d (lead @ name) / weight_sum) * min 1 weight_sum))) SIGNAL_NAMES d)"

section \<open>The features of a decision\<close>

text \<open>\<open>float(row["economic_age_minutes"])\<close> of an event without an age raises.\<close>

definition age_of :: "event \<Rightarrow> real outcome" where
  "age_of e = (case economic_age e of None \<Rightarrow> Inl (OtherError ''TypeError'') | Some a \<Rightarrow> Inr a)"

fun add_core :: "feature_env \<Rightarrow> event list \<Rightarrow> real \<times> features \<Rightarrow> (real \<times> features) outcome" where
  "add_core F [] acc = Inr acc"
| "add_core F (e # es) (weight_sum, d) =
     bind_out (age_of e) (\<lambda>age.
       let w = event_raw_weight F e;
           d1 = add_signals F ''news_'' w (event_signals F e) d
       in add_core F es (fe_fl F (weight_sum + w), add_to F ''news_event_count'' (freshness F age e) d1))"

definition grade_counter :: "grade \<Rightarrow> string" where
  "grade_counter g =
     (case g of PRIMARY \<Rightarrow> ''broad_primary_event_count'' | CORROBORATED \<Rightarrow> ''broad_corroborated_event_count''
      | _ \<Rightarrow> ''broad_single_source_event_count'')"

definition broad_counts :: "feature_env \<Rightarrow> real \<Rightarrow> event \<Rightarrow> (string \<times> real) list" where
  "broad_counts F fresh e =
     [(''broad_news_event_count'', fresh), (grade_counter (ve_grade (ev_verdict e)), fresh),
      (''broad_first_party_source_count'', fe_fl F (fresh * (if ev_first_party e then 1 else 0))),
      (''broad_independent_source_count'', fe_fl F (fresh * real (ev_publishers e))),
      (''broad_source_reliability'', fe_fl F (fresh * ev_reliability e)),
      (''broad_syndicated_duplicate_count'', fe_fl F (fresh * real (ev_duplicates e)))] @
     map (\<lambda>x. (''broad_topic_'' @ x, fresh)) (filter (\<lambda>x. x \<in> set ACTION_TOPICS) (ve_topics (ev_verdict e)))"

fun add_broad :: "feature_env \<Rightarrow> event list \<Rightarrow> real \<times> features \<Rightarrow> (real \<times> features) outcome" where
  "add_broad F [] acc = Inr acc"
| "add_broad F (e # es) (weight_sum, d) =
     bind_out (age_of e) (\<lambda>age.
       let fresh = fe_fl F (evidence_grade_weight (ve_grade (ev_verdict e)) * freshness F age e);
           w = event_raw_weight F e;
           d1 = add_signals F ''broad_news_'' w (event_signals F e) d
       in add_broad F es (fe_fl F (weight_sum + w),
            fold (\<lambda>(name, v). add_to F name v) (broad_counts F fresh e) d1))"

record event_snapshot =
  es_event :: event
  es_permission :: string
  es_permissions :: "string list"
  es_weight :: real
  es_age :: real

definition CORE_MODEL_STORAGE_PERMISSION :: string where "CORE_MODEL_STORAGE_PERMISSION = ''OFFICIAL_MODEL''"

fun snapshots_of :: "feature_env \<Rightarrow> string \<Rightarrow> event list \<Rightarrow> event_snapshot list outcome" where
  "snapshots_of F permission [] = Inr []"
| "snapshots_of F permission (e # es) =
     bind_out (age_of e) (\<lambda>age.
     bind_out (snapshots_of F permission es) (\<lambda>ss.
       Inr (\<lparr>es_event = e, es_permission = permission,
              es_permissions = (if ev_core e then [CORE_MODEL_STORAGE_PERMISSION, ''BROAD_MODEL''] else [''BROAD_MODEL'']),
              es_weight = event_raw_weight F e, es_age = age\<rparr> # ss)))"

record feature_report =
  fr_features :: features
  fr_core :: "event list"
  fr_broad :: "event list"
  fr_event_types :: nat
  fr_packets :: "release_packet list"
  fr_macro :: "(string \<times> string) list"
  fr_snapshots :: "event_snapshot list"

definition feature_type_of :: "feature_env \<Rightarrow> event \<Rightarrow> string" where
  "feature_type_of F e =
     (let kind = fe_types F (nn_id (er_note (ev_row e))) in if kind \<noteq> [] then kind else ve_record_kind (ev_verdict e))"

definition macro_evidence :: "instant \<Rightarrow> macro_observation list \<Rightarrow> (string \<times> string) list" where
  "macro_evidence w rows =
     concat (map (\<lambda>(series, _). case rev (filter (\<lambda>m. ma_series m = series) (latest_macro w rows)) of
         [] \<Rightarrow> [] | m # _ \<Rightarrow> [(series, ma_hash m)]) MACRO_FEATURE_MAP)"

definition aggregate_news_features_v2 :: "feature_env \<Rightarrow> instant \<Rightarrow> maintenance_db \<Rightarrow> feature_report outcome" where
  "aggregate_news_features_v2 F t m =
     bind_out (event_evidence_rows (fe_events F) t m) (\<lambda>events.
       let core = filter ev_core events;
           broad = filter ev_broad events;
           macro = ld_macro (mb_ledger m)
       in bind_out (add_core F core (0, \<lambda>_. 0)) (\<lambda>(core_sum, d).
          bind_out (macro_release_features_at F t macro) (\<lambda>(release, packets).
          bind_out (add_broad F broad (0, \<lambda>_. 0)) (\<lambda>(broad_sum, b).
          bind_out (snapshots_of F CORE_MODEL_STORAGE_PERMISSION core) (\<lambda>s1.
          bind_out (snapshots_of F ''BROAD_MODEL'' broad) (\<lambda>s2.
            let d1 = macro_features F t macro (finalize_weighted_signals F ''news_'' core_sum d);
                d2 = fold (\<lambda>(_, p). let names = map (\<lambda>x. p @ x) [''_level'', ''_change'', ''_revision_delta'', ''_age_hours''] in
                        (\<lambda>d. fold (\<lambda>name d. d(name := release name)) names d)) MACRO_RELEASE_SERIES d1;
                b1 = finalize_weighted_signals F ''broad_news_'' broad_sum b
            in Inr \<lparr>fr_features = (\<lambda>name. if starts_with ''broad_'' name then b1 name else d2 name),
                 fr_core = core, fr_broad = broad,
                 fr_event_types = length (dedupe (map (feature_type_of F) core)), fr_packets = packets,
                 fr_macro = macro_evidence (wall_clock (fe_events F) t) macro, fr_snapshots = s1 @ s2\<rparr>))))))"

section \<open>The features of the first contract\<close>

text \<open>One annotation of each canonical article, by prompt and then by model.\<close>

definition canonical_articles :: "instant \<Rightarrow> ledger_db \<Rightarrow> revision list" where
  "canonical_articles t db =
     (let visible = visible_news t db in
      List.map_filter (\<lambda>c. sql_first representative_key (\<lambda>n. vn_cluster n = c) visible) (dedupe (map vn_cluster visible)))"

definition place_in :: "string list \<Rightarrow> string \<Rightarrow> nat option" where
  "place_in xs x = (let i = length (takeWhile (\<lambda>y. y \<noteq> x) xs) in if i < length xs then Some i else None)"

definition preferred_note :: "string list \<Rightarrow> string list \<Rightarrow> revision list \<Rightarrow> annotation_row \<Rightarrow> bool" where
  "preferred_note prompts models articles a \<longleftrightarrow>
     nn_prompt a \<in> set prompts \<and> nn_model a \<in> set models \<and> list_ex (\<lambda>n. key_of n = nn_key a) articles"

definition selected_notes :: "string list \<Rightarrow> string list \<Rightarrow> instant \<Rightarrow> ledger_db \<Rightarrow> annotation_row list" where
  "selected_notes prompts models t db =
     (let rows = filter (preferred_note prompts models (canonical_articles t db)) (visible_annotations t db) in
      List.map_filter
        (\<lambda>k. sql_first (\<lambda>a. (the (place_in prompts (nn_prompt a)), the (place_in models (nn_model a)))) (\<lambda>a. nn_key a = k) rows)
        (dedupe (map nn_key rows)))"

definition NEWS_MODEL_VERSIONS :: "string list" where
  "NEWS_MODEL_VERSIONS = [''gemini-3.5-flash-lite'', ''gemini-3.1-flash-lite'']"

fun add_notes :: "feature_env \<Rightarrow> real \<Rightarrow> instant \<Rightarrow> annotation_row list \<Rightarrow> real \<times> features \<Rightarrow> real \<times> features" where
  "add_notes F half t [] acc = acc"
| "add_notes F half t (a # as) (weight_sum, d) =
     (let P = ee_platform (fe_events F);
          age = max 0 (fl P (total_seconds P (t - nn_parsed a) / 60));
          fresh = fe_exp F (fl P (fl P (- math_log (ee_library (fe_events F)) 2 * age) / half));
          s = fe_signals F (nn_id a);
          w = fl P (fl P (fresh * sg_confidence s) * max (1 / 20) (sg_novelty s))
      in add_notes F half t as (fl P (weight_sum + w), add_to F ''news_event_count'' fresh (add_signals F ''news_'' w s d)))"

definition aggregate_news_features ::
    "feature_env \<Rightarrow> string list \<Rightarrow> string list \<Rightarrow> real \<Rightarrow> instant \<Rightarrow> ledger_db \<Rightarrow> features outcome" where
  "aggregate_news_features F models prompts half t db =
     (if half \<le> 0 then Inl (ValueError ''news half-life must be positive'')
      else let (weight_sum, d) = add_notes F half t (selected_notes prompts models t db) (0, \<lambda>_. 0);
               d1 = (if weight_sum = 0 then d
                 else fold (\<lambda>name d. d(''news_'' @ name := fe_fl F (d (''news_'' @ name) / weight_sum))) SIGNAL_NAMES d)
           in Inr (macro_features F t (ld_macro db) d1))"

section \<open>No look-ahead\<close>

text \<open>A database with news and macro observations added that the decision could not know.\<close>

definition later_inputs :: "instant \<Rightarrow> maintenance_db \<Rightarrow> maintenance_db \<Rightarrow> bool" where
  "later_inputs t m m' \<longleftrightarrow>
     later_evidence t m m' \<and>
     (\<exists>xs. ld_macro (mb_ledger m') = ld_macro (mb_ledger m) @ xs \<and> (\<forall>x \<in> set xs. t < ma_first_seen x))"

lemma visible_macro_later:
  "\<forall>x \<in> set xs. t < ma_first_seen x \<Longrightarrow> w \<le> t \<Longrightarrow> visible_macro w (rows @ xs) = visible_macro w rows"
  by (auto simp: visible_macro_def filter_empty_conv)

lemma macro_readers_later:
  assumes "\<forall>x \<in> set xs. u < ma_first_seen x" "wall_clock (fe_events F) t \<le> u"
  shows "macro_features F t (rows @ xs) = macro_features F t rows"
    "macro_evidence (wall_clock (fe_events F) t) (rows @ xs) = macro_evidence (wall_clock (fe_events F) t) rows"
    "macro_release_features_at F t (rows @ xs) = macro_release_features_at F t rows"
proof -
  let ?w = "wall_clock (fe_events F) t"
  note v = visible_macro_later [OF assms]
  have l: "latest_macro ?w (rows @ xs) = latest_macro ?w rows" by (simp add: latest_macro_def v)
  have "set_macro F t (rows @ xs) = set_macro F t rows" by (intro ext) (simp add: set_macro_def macro_values_def l)
  then show "macro_features F t (rows @ xs) = macro_features F t rows" by (rule_tac ext) (simp add: macro_features_def)
  show "macro_evidence ?w (rows @ xs) = macro_evidence ?w rows" by (simp add: macro_evidence_def l)
  have "release_packet_of F t (rows @ xs) e = release_packet_of F t rows e" for e
    by (simp add: release_packet_of_def series_rows_def v)
  then have "packets_of F t (rows @ xs) es = packets_of F t rows es" for es by (induction es) simp_all
  then show "macro_release_features_at F t (rows @ xs) = macro_release_features_at F t rows"
    by (simp add: macro_release_features_at_def macro_release_packets_at_def)
qed

text \<open>
  C32: The features of a decision contain nothing from after its wall clock, read as UTC: whatever news is received,
  annotated, assessed or resolved and whatever macro values are published later than a time \<open>u\<close> that is not before it, the
  features, the events that they rest on with their weights, and the macro packets stay the same. For a decision in UTC
  the wall clock is the decision, and \<open>u\<close> may be it; a decision in a zone ahead of UTC can see later rows, because the
  queries compare texts.
\<close>

theorem features_have_no_lookahead:
  assumes "later_inputs u m m'" "wall_clock (fe_events F) t \<le> u"
  shows "aggregate_news_features_v2 F t m' = aggregate_news_features_v2 F t m"
proof -
  obtain xs where x: "ld_macro (mb_ledger m') = ld_macro (mb_ledger m) @ xs" "\<forall>x \<in> set xs. u < ma_first_seen x"
    using assms by (auto simp: later_inputs_def)
  have e: "event_evidence_rows (fe_events F) t m' = event_evidence_rows (fe_events F) t m"
    using assms by (simp add: later_inputs_def event_rows_later [where u = u])
  show ?thesis unfolding aggregate_news_features_v2_def e Let_def x(1) macro_readers_later [OF x(2) assms(2)] ..
qed

section \<open>The bounds of a weight\<close>

text \<open>Rounding to the nearest float is monotone and keeps 0 and 1; the exponential of a number up to 0 is from 0 to 1.\<close>

definition rounds_and_decays :: "feature_env \<Rightarrow> bool" where
  "rounds_and_decays F \<longleftrightarrow>
     mono (fe_fl F) \<and> fe_fl F 0 = 0 \<and> fe_fl F 1 = 1 \<and> 0 \<le> math_log (ee_library (fe_events F)) 2 \<and>
     (\<forall>x \<le> 0. 0 \<le> fe_exp F x \<and> fe_exp F x \<le> 1) \<and> mono (fe_exp F)"

lemma fl_unit:
  assumes "rounds_and_decays F" "0 \<le> x" "x \<le> 1"
  shows "0 \<le> fe_fl F x" "fe_fl F x \<le> 1"
proof -
  have m: "x \<le> y \<Longrightarrow> fe_fl F x \<le> fe_fl F y" "fe_fl F 0 = 0" "fe_fl F 1 = 1" for x y
    using assms(1) by (auto simp: rounds_and_decays_def mono_def)
  show "0 \<le> fe_fl F x" "fe_fl F x \<le> 1" using m(1) [OF assms(2)] m(1) [OF assms(3)] m(2,3) by simp_all
qed

lemma half_life_pos: "0 < snd (impact_time_rule c)"
  by (auto simp: impact_time_rule_def IMPACT_TIME_RULES_def split: option.splits if_splits)

lemma freshness_unit:
  assumes "rounds_and_decays F" "0 \<le> age"
  shows "0 \<le> freshness F age e" "freshness F age e \<le> 1"
proof -
  let ?x = "fe_fl F (fe_fl F (- math_log (ee_library (fe_events F)) 2 * age) / snd (impact_time_rule (row_class (ev_row e))))"
  have nonpos: "y \<le> 0 \<Longrightarrow> fe_fl F y \<le> 0" for y using assms(1) by (metis mono_def rounds_and_decays_def)
  have "- math_log (ee_library (fe_events F)) 2 * age \<le> 0"
    using assms by (simp add: rounds_and_decays_def mult_nonpos_nonneg)
  then have "?x \<le> 0" using nonpos half_life_pos [of "row_class (ev_row e)"] by (simp add: divide_nonpos_pos)
  then show "0 \<le> freshness F age e" "freshness F age e \<le> 1"
    using assms(1) by (auto simp: freshness_def Let_def rounds_and_decays_def)
qed

lemma grade_weight_unit: "0 \<le> evidence_grade_weight g" "evidence_grade_weight g \<le> 1"
  by (cases g; simp add: evidence_grade_weight_def)+

text \<open>
  The weight of an event is from 0 to 1 when its measurements are, so the strength that scales the average
  signals is the sum of what its events contribute, and an event that is only a discovery contributes nothing.
\<close>

lemma event_weight_unit:
  assumes "rounds_and_decays F" "0 \<le> sg_confidence (event_signals F e)" "sg_confidence (event_signals F e) \<le> 1"
    "sg_novelty (event_signals F e) \<le> 1"
  shows "0 \<le> event_raw_weight F e" "event_raw_weight F e \<le> 1"
    "ve_grade (ev_verdict e) = DISCOVERY_ONLY \<Longrightarrow> event_raw_weight F e = 0"
proof -
  define age where "age = max 0 (case economic_age e of None \<Rightarrow> 0 | Some a \<Rightarrow> a)"
  have age: "0 \<le> age" by (simp add: age_def)
  define a where "a = fe_fl F (evidence_grade_weight (ve_grade (ev_verdict e)) * freshness F age e)"
  define b where "b = fe_fl F (a * sg_confidence (event_signals F e))"
  have a: "0 \<le> a" "a \<le> 1"
    unfolding a_def using freshness_unit [OF assms(1) age] grade_weight_unit
    by (auto intro!: fl_unit [OF assms(1)] mult_le_one mult_nonneg_nonneg)
  have b: "0 \<le> b" "b \<le> 1"
    unfolding b_def using a assms(2,3) by (auto intro!: fl_unit [OF assms(1)] mult_le_one mult_nonneg_nonneg)
  have w: "event_raw_weight F e = fe_fl F (b * max (1 / 20) (sg_novelty (event_signals F e)))"
    by (simp add: event_raw_weight_def Let_def a_def b_def age_def)
  show "0 \<le> event_raw_weight F e" "event_raw_weight F e \<le> 1"
    unfolding w using b assms(4) by (auto intro!: fl_unit [OF assms(1)] mult_le_one mult_nonneg_nonneg)
  show "event_raw_weight F e = 0" if "ve_grade (ev_verdict e) = DISCOVERY_ONLY"
    using assms(1) that unfolding w b_def a_def by (simp add: evidence_grade_weight_def rounds_and_decays_def)
qed

section \<open>A sample decision\<close>

definition sample_features :: feature_env where
  "sample_features = \<lparr>fe_events = sample_events, fe_exp = (\<lambda>x. 1 / (1 - x)),
     fe_signals = (\<lambda>_. \<lparr>sg_hawkishness = 1, sg_inflation = 0, sg_growth = 0, sg_geopolitical = 0, sg_usd = 0, sg_novelty = 1,
       sg_confidence = 1\<rparr>), fe_types = (\<lambda>_. [])\<rparr>"

theorem features_have_no_lookahead_witness:
  "ld_revisions (mb_ledger sample_after) \<noteq> ld_revisions (mb_ledger sample_evidence) \<and>
   aggregate_news_features_v2 sample_features sample_now sample_after =
     aggregate_news_features_v2 sample_features sample_now sample_evidence"
proof -
  have "later_inputs sample_now sample_evidence sample_after"
    by (auto simp: later_inputs_def later_evidence_def sample_after_def sample_report_def)
  from features_have_no_lookahead [OF this, of sample_features sample_now] show ?thesis
    by (simp add: sample_after_def sample_features_def sample_events_def wall_clock_def)
qed

lemma sample_features_exist: "\<not> isl (aggregate_news_features_v2 sample_features sample_now sample_evidence)"
  by code_simp

end
