(* ===== verification/Source_Polling.thy ===== *)
theory Source_Polling
  imports News_Ledger
begin

text \<open>
  When a news source may be polled again, \<^verbatim>\<open>xauusd_news/news/collection/source_polling.py\<close>: the failures since its
  last success decide a bounded delay, a success is followed by the interval of the source, and an error
  is classified into the facts that a poll receipt keeps.

  The polls are those of \<^verbatim>\<open>News_Ledger\<close>. Reading a date of a header is an argument.
\<close>

section \<open>Delays\<close>

definition TRANSIENT_RETRY_DELAYS :: "int list" where
  "TRANSIENT_RETRY_DELAYS = [minutes 5, minutes 15, minutes 30]"

definition RATE_LIMIT_RETRY_DELAYS :: "int list" where
  "RATE_LIMIT_RETRY_DELAYS = [minutes 60, minutes 120, minutes 240, minutes 360]"

definition AUTH_RETRY_DELAY :: int where "AUTH_RETRY_DELAY = hours 6"
definition MAX_PROVIDER_RETRY_AFTER_SECONDS :: int where "MAX_PROVIDER_RETRY_AFTER_SECONDS = 24 * 60 * 60"

definition RECOVERY_HISTORY_LIMIT :: nat where
  "RECOVERY_HISTORY_LIMIT = max (length TRANSIENT_RETRY_DELAYS) (length RATE_LIMIT_RETRY_DELAYS)"

definition failure_class :: "string option \<Rightarrow> int option \<Rightarrow> string \<Rightarrow> string" where
  "failure_class error_type status_code status =
     (let kind = (case error_type of None \<Rightarrow> [] | Some k \<Rightarrow> k) in
      if kind = ''RateLimited'' \<or> status_code = Some 429 then ''RATE_LIMITED''
      else if kind = ''AuthConfigurationError'' then ''OPERATOR_ACTION_REQUIRED''
      else if status = ''PARTIAL'' then ''PARTIAL_RECOVERY''
      else ''AUTO_RECOVERING'')"

text \<open>The delay of the n-th failure in a row, or the last one of the list.\<close>

definition nth_delay :: "int list \<Rightarrow> nat \<Rightarrow> int" where
  "nth_delay delays n = delays ! min (n - 1) (length delays - 1)"

definition retry_delay :: "string \<Rightarrow> nat \<Rightarrow> int option \<Rightarrow> int" where
  "retry_delay mode n retry_after =
     (if mode = ''OPERATOR_ACTION_REQUIRED'' then AUTH_RETRY_DELAY
      else if mode = ''RATE_LIMITED''
      then (case retry_after of
              Some k \<Rightarrow> seconds (max 1 (min MAX_PROVIDER_RETRY_AFTER_SECONDS k))
            | None \<Rightarrow> nth_delay RATE_LIMIT_RETRY_DELAYS n)
      else nth_delay TRANSIENT_RETRY_DELAYS n)"

section \<open>The recovery of a source\<close>

record poll_recovery =
  pv_mode :: string
  pv_failures :: nat
  pv_last_attempt :: instant
  pv_next_retry :: instant
  pv_due :: bool
  pv_latest :: source_poll

text \<open>\<open>ORDER BY fetched_time DESC, poll_id DESC\<close>.\<close>

definition latest_polls :: "(source_poll \<Rightarrow> bool) \<Rightarrow> source_poll list \<Rightarrow> source_poll list" where
  "latest_polls p polls = rev (sort_key (\<lambda>q. (sp_fetched q, sp_id q)) (filter p polls))"

definition source_poll_recovery_state :: "source_poll list \<Rightarrow> string \<Rightarrow> instant \<Rightarrow> poll_recovery option" where
  "source_poll_recovery_state polls source observed =
     (let rows = take RECOVERY_HISTORY_LIMIT (latest_polls (\<lambda>q. sp_source q = source) polls);
          failures = takeWhile (\<lambda>q. sp_status q \<noteq> ''OK'') rows
      in case failures of
           [] \<Rightarrow> None
         | latest # _ \<Rightarrow>
             (let mode = failure_class (sp_error_type latest) (sp_http_status latest) (sp_status latest);
                  again = sp_fetched latest + retry_delay mode (length failures) (sp_retry_after latest)
              in Some \<lparr>pv_mode = mode, pv_failures = length failures, pv_last_attempt = sp_fetched latest,
                   pv_next_retry = again, pv_due = (again \<le> observed), pv_latest = latest\<rparr>))"

datatype poll_skip =
    Retry_Backoff string nat instant
  | Interval instant

definition source_poll_gate :: "source_poll list \<Rightarrow> string \<Rightarrow> instant \<Rightarrow> int \<Rightarrow> poll_skip option" where
  "source_poll_gate polls source observed success_interval =
     (case source_poll_recovery_state polls source observed of
        Some r \<Rightarrow> if pv_due r then None else Some (Retry_Backoff (pv_mode r) (pv_failures r) (pv_next_retry r))
      | None \<Rightarrow>
          (case latest_polls (\<lambda>q. sp_source q = source \<and> sp_status q = ''OK'') polls of
             [] \<Rightarrow> None
           | q # _ \<Rightarrow>
               if observed - sp_fetched q < success_interval then Some (Interval (sp_fetched q + success_interval)) else None))"

section \<open>The facts of an error\<close>

text \<open>An exception, with the \<open>code\<close> it may have and, of an \<open>HTTPError\<close>, its header.\<close>

record poll_error =
  pe_kind :: string
  pe_code :: "int option"
  pe_retry_after :: "string option"

record poll_classification =
  pc_error_type :: string
  pc_http_status :: "int option"
  pc_retry_after :: "int option"

definition ascii_digits :: "string \<Rightarrow> bool" where
  "ascii_digits s \<longleftrightarrow> s \<noteq> [] \<and> list_all (\<lambda>c. 48 \<le> (of_char c :: nat) \<and> (of_char c :: nat) \<le> 57) s"

definition int_of_digits :: "string \<Rightarrow> int" where
  "int_of_digits s = foldl (\<lambda>n c. 10 * n + (int (of_char c) - 48)) 0 s"

text \<open>\<open>int\<close> refuses a text of more than 4300 digits.\<close>

definition retry_after_seconds ::
    "platform \<Rightarrow> (string \<Rightarrow> instant option) \<Rightarrow> poll_error \<Rightarrow> instant \<Rightarrow> int option outcome" where
  "retry_after_seconds P parse_date e observed =
     (case pe_retry_after e of
        None \<Rightarrow> Inr None
      | Some value \<Rightarrow>
          if value = [] then Inr None
          else let text = strip value in
            if ascii_digits text
            then (if 4300 < length text then Inl (ValueError ''Exceeds the limit (4300 digits) for integer string conversion'')
                  else Inr (Some (max 1 (min MAX_PROVIDER_RETRY_AFTER_SECONDS (int_of_digits text)))))
            else Inr (case parse_date text of
                None \<Rightarrow> None
              | Some again \<Rightarrow> Some (max 1 (min MAX_PROVIDER_RETRY_AFTER_SECONDS \<lceil>total_seconds P (again - observed)\<rceil>))))"

definition classified_poll_error ::
    "platform \<Rightarrow> (string \<Rightarrow> instant option) \<Rightarrow> poll_error \<Rightarrow> bool \<Rightarrow> instant \<Rightarrow> poll_classification outcome" where
  "classified_poll_error P parse_date e credentialed observed =
     (let kind = (if pe_code e = Some 429 then ''RateLimited''
                  else if credentialed \<and> pe_code e \<in> {Some 401, Some 403} then ''AuthConfigurationError''
                  else if pe_code e \<in> {Some 401, Some 403} then ''RemoteAccessRejected''
                  else pe_kind e)
      in bind_out (retry_after_seconds P parse_date e observed) (\<lambda>again.
           Inr \<lparr>pc_error_type = kind, pc_http_status = pe_code e, pc_retry_after = again\<rparr>))"

section \<open>A source is neither flooded nor starved\<close>

lemma nth_delay_bounds:
  assumes "0 < n" "delays \<noteq> []" "\<forall>d \<in> set delays. lo \<le> d \<and> d \<le> hi"
  shows "lo \<le> nth_delay delays n" "nth_delay delays n \<le> hi"
proof -
  have "min (n - 1) (length delays - 1) < length delays" using assms(2) by (simp add: min_less_iff_disj)
  then have "delays ! min (n - 1) (length delays - 1) \<in> set delays" by (rule nth_mem)
  then show "lo \<le> nth_delay delays n" "nth_delay delays n \<le> hi" using assms(3) by (simp_all add: nth_delay_def)
qed

lemma retry_delay_bounds:
  assumes "0 < n"
  shows "seconds 1 \<le> retry_delay mode n after" "retry_delay mode n after \<le> hours 24"
proof -
  have rate: "minutes 60 \<le> nth_delay RATE_LIMIT_RETRY_DELAYS n" "nth_delay RATE_LIMIT_RETRY_DELAYS n \<le> minutes 360"
    using nth_delay_bounds [OF assms, of RATE_LIMIT_RETRY_DELAYS "minutes 60" "minutes 360"]
    by (simp_all add: RATE_LIMIT_RETRY_DELAYS_def)
  have transient: "minutes 5 \<le> nth_delay TRANSIENT_RETRY_DELAYS n" "nth_delay TRANSIENT_RETRY_DELAYS n \<le> minutes 30"
    using nth_delay_bounds [OF assms, of TRANSIENT_RETRY_DELAYS "minutes 5" "minutes 30"]
    by (simp_all add: TRANSIENT_RETRY_DELAYS_def)
  show "seconds 1 \<le> retry_delay mode n after" "retry_delay mode n after \<le> hours 24"
    using rate transient
    by (auto simp: retry_delay_def AUTH_RETRY_DELAY_def MAX_PROVIDER_RETRY_AFTER_SECONDS_def 
      split: option.splits)
qed

lemma latest_polls_first:
  assumes "latest_polls p polls = q # qs"
  shows "q \<in> set polls" "p q" "\<forall>r \<in> set polls. p r \<longrightarrow> sp_fetched r \<le> sp_fetched q"
proof -
  let ?k = "\<lambda>q. (sp_fetched q, sp_id q)"
  have s: "set (q # qs) = {r \<in> set polls. p r}"
    unfolding assms [symmetric] by (auto simp: latest_polls_def)
  then show "q \<in> set polls" "p q" by auto
  have "sorted (map ?k (rev (q # qs)))" unfolding assms [symmetric] latest_polls_def by simp
  then have "\<forall>r \<in> set qs. ?k r \<le> ?k q" by (simp add: sorted_append)
  then show "\<forall>r \<in> set polls. p r \<longrightarrow> sp_fetched r \<le> sp_fetched q" using s by fastforce
qed

text \<open>
  A source is neither flooded nor starved. A poll that the gate admits comes after the last attempt by at least a
  second when that attempt failed and by at least the interval when it succeeded; and whatever has failed,
  from a day after the last attempt, and the interval, the gate admits a poll.
\<close>

lemma polling_is_bounded:
  fixes polls source
  defines "mine \<equiv> {q \<in> set polls. sp_source q = source}"
  shows "source_poll_gate polls source observed interval = None \<Longrightarrow> q \<in> mine \<Longrightarrow> \<forall>r \<in> mine. sp_fetched r < sp_fetched q \<or> r = q \<Longrightarrow>
      sp_fetched q + (if sp_status q = ''OK'' then interval else seconds 1) \<le> observed"
    and "\<forall>r \<in> mine. sp_fetched r + max interval (hours 24) \<le> observed \<Longrightarrow> source_poll_gate polls source observed interval = None"
proof -
  let ?rows = "latest_polls (\<lambda>q. sp_source q = source) polls"
  have lim: "take RECOVERY_HISTORY_LIMIT (r # rs) = r # take 3 rs" for r :: source_poll and rs
    by (simp add: RECOVERY_HISTORY_LIMIT_def TRANSIENT_RETRY_DELAYS_def RATE_LIMIT_RETRY_DELAYS_def numeral_3_eq_3)
  { assume gate: "source_poll_gate polls source observed interval = None" and q: "q \<in> mine"
      and last: "\<forall>r \<in> mine. sp_fetched r < sp_fetched q \<or> r = q"
    have "q \<in> set ?rows" using q by (simp add: mine_def latest_polls_def)
    then obtain r rs where rows: "?rows = r # rs" by (cases ?rows) auto
    have "r = q" using latest_polls_first [OF rows] last q by (force simp: mine_def)
    show "sp_fetched q + (if sp_status q = ''OK'' then interval else seconds 1) \<le> observed"
    proof (cases "sp_status q = ''OK''")
      case True
      then have none: "source_poll_recovery_state polls source observed = None"
        by (simp add: source_poll_recovery_state_def rows lim \<open>r = q\<close>)
      have "q \<in> set (latest_polls (\<lambda>q. sp_source q = source \<and> sp_status q = ''OK'') polls)"
        using q True by (simp add: mine_def latest_polls_def)
      then obtain r' rs' where ok: "latest_polls (\<lambda>q. sp_source q = source \<and> sp_status q = ''OK'') polls = r' # rs'"
        by (cases "latest_polls (\<lambda>q. sp_source q = source \<and> sp_status q = ''OK'') polls") auto
      have "sp_fetched q \<le> sp_fetched r'" using latest_polls_first(3) [OF ok] q True by (simp add: mine_def)
      then show ?thesis using gate True by (simp add: source_poll_gate_def none ok split: if_splits)
    next
      case False
      let ?failures = "takeWhile (\<lambda>q. sp_status q \<noteq> ''OK'') (r # take 3 rs)"
      have n: "0 < length ?failures" using False \<open>r = q\<close> by simp
      from gate have "sp_fetched q + retry_delay (failure_class (sp_error_type q) (sp_http_status q) (sp_status q))
          (length ?failures) (sp_retry_after q) \<le> observed"
        using False by (simp add: source_poll_gate_def source_poll_recovery_state_def rows lim \<open>r = q\<close> Let_def split: if_splits)
      then show ?thesis using retry_delay_bounds(1) [OF n] False by (smt (verit))
    qed }
  { assume late: "\<forall>r \<in> mine. sp_fetched r + max interval (hours 24) \<le> observed"
    show "source_poll_gate polls source observed interval = None"
    proof (cases "source_poll_recovery_state polls source observed")
      case None
      show ?thesis
      proof (cases "latest_polls (\<lambda>q. sp_source q = source \<and> sp_status q = ''OK'') polls")
        case Nil
        then show ?thesis using None by (simp add: source_poll_gate_def)
      next
        case (Cons r rs)
        from latest_polls_first(1,2) [OF Cons] have "r \<in> mine" by (simp add: mine_def)
        with late have "sp_fetched r + interval \<le> observed" by fastforce
        then show ?thesis using None Cons by (simp add: source_poll_gate_def)
      qed
    next
      case (Some p)
      then obtain r rs where rows: "?rows = r # rs" by (cases ?rows) (auto simp: source_poll_recovery_state_def)
      let ?failures = "takeWhile (\<lambda>q. sp_status q \<noteq> ''OK'') (r # take 3 rs)"
      have f: "sp_status r \<noteq> ''OK''" using Some by (auto simp: source_poll_recovery_state_def rows lim Let_def)
      then have n: "0 < length ?failures" by simp
      have "pv_due p \<longleftrightarrow> sp_fetched r + retry_delay (failure_class (sp_error_type r) (sp_http_status r) (sp_status r))
          (length ?failures) (sp_retry_after r) \<le> observed"
        using Some f by (auto simp: source_poll_recovery_state_def rows lim Let_def)
      moreover have "sp_fetched r + hours 24 \<le> observed"
        using late latest_polls_first(1,2) [OF rows] by (fastforce simp: mine_def)
      ultimately have "pv_due p" using retry_delay_bounds(2) [OF n] by (smt (verit))
      then show ?thesis using Some by (simp add: source_poll_gate_def)
    qed }
qed

text \<open>A header of more digits than \<open>int\<close> reads makes the classification itself raise.\<close>

lemma long_header_raises:
  "\<exists>e. classified_poll_error P parse_date e credentialed observed =
     Inl (ValueError ''Exceeds the limit (4300 digits) for integer string conversion'')"
proof -
  have "strip (replicate n (CHR ''9'')) = replicate n (CHR ''9'')" for n
  proof -
    have d: "dropWhile is_space (replicate n (CHR ''9'')) = replicate n (CHR ''9'')"
      by (cases n) (simp_all add: is_space_def of_char_Char)
    show ?thesis unfolding strip_def d rev_replicate d ..
  qed
  moreover have "ascii_digits (replicate 4301 (CHR ''9''))" by (simp add: ascii_digits_def list_all_iff of_char_Char)
  ultimately show ?thesis
    by (intro exI [of _ "\<lparr>pe_kind = ''HTTPError'', pe_code = Some 429, pe_retry_after = Some (replicate 4301 (CHR ''9''))\<rparr>"])
      (simp add: classified_poll_error_def retry_after_seconds_def)
qed

end
