(* ===== verification/Scheduler_Runtime.thy ===== *)
theory Scheduler_Runtime
  imports Request_Quota Job_Lifecycle "HOL-Library.AList"
begin

text \<open>
  A worker lane of the scheduler, \<open>_run_scheduled_lane\<close> of \<^verbatim>\<open>xauusd_news/news/scheduler/runtime.py\<close>: it
  claims jobs, tries the credentials that may run them, records every attempt and gives each lease back
  in the state that the outcome asks for; and the division of a batch among the lanes.

  What a job does with a credential is an argument, and so are the other lanes, processes and operators
  that share the database: they may act whenever the lane reads its clock and while a job runs.
\<close>

section \<open>The environment of a lane\<close>

text \<open>What \<open>_execute_job\<close> may do: return a status or raise.\<close>

datatype execution =
    Returned status
  | DatabaseFailure py_error
  | BackfillPending string string
  | PrerequisiteFailure string string json json json
  | OtherFailure string string

record runtime_env =
  re_platform :: platform
  re_execute :: "scheduled_job \<Rightarrow> api_credential \<Rightarrow> instant \<Rightarrow> scheduler_db \<Rightarrow> execution \<times> scheduler_db"
  re_clock :: "nat \<Rightarrow> instant"
  re_others :: "nat \<Rightarrow> scheduler_db \<Rightarrow> scheduler_db"
  re_fromisoformat :: "string \<Rightarrow> instant option"

record lane_setup =
  ln_credentials :: "api_credential list"
  ln_maximum :: nat
  ln_queued_before :: instant
  ln_prefix :: string
  ln_tasks :: "string list option"
  ln_reserved_accounts :: "string list"
  ln_preferred_account :: "string option"

record lane_state =
  lw_db :: scheduler_db
  lw_tick :: nat
  lw_blocked :: "string list"

record lane_status =
  lz_job :: string
  lz_task :: task_type
  lz_priority :: priority
  lz_pool :: string
  lz_account :: string
  lz_accounts :: nat
  lz_attempted :: nat
  lz_status :: status

definition read_clock :: "runtime_env \<Rightarrow> lane_state \<Rightarrow> instant \<times> lane_state" where
  "read_clock E s =
     (re_clock E (lw_tick s), s\<lparr>lw_tick := lw_tick s + 1, lw_db := re_others E (lw_tick s) (lw_db s)\<rparr>)"

section \<open>The status of an execution\<close>

definition EMBEDDING_PREREQUISITE_FAILURE_CODES :: "string list" where
  "EMBEDDING_PREREQUISITE_FAILURE_CODES =
     [''NEWS_EMBEDDING_BACKFILL_PENDING'', ''NEWS_EMBEDDING_CAPACITY_DEFERRED'', ''NEWS_EMBEDDING_PROVIDER_THROTTLED'',
      ''NEWS_EMBEDDING_PROVIDER_TRANSPORT_FAILED'', ''NEWS_EMBEDDING_PROVIDER_RESPONSE_INVALID'']"

definition MAINTENANCE_DEFERRAL_CODES :: "string list" where
  "MAINTENANCE_DEFERRAL_CODES =
     EMBEDDING_PREREQUISITE_FAILURE_CODES @ [''PROVIDER_DISPATCH_DEFERRED'', ''BACKFILL_BUDGET_DEFERRED'']"

text \<open>\<open>value in frozenset(...)\<close> for a text.\<close>

definition text_in :: "json \<Rightarrow> string list \<Rightarrow> bool" where
  "text_in v words \<longleftrightarrow> (case v of JStr s \<Rightarrow> s \<in> set words | _ \<Rightarrow> False)"

definition maintenance_deferred :: "status \<Rightarrow> bool" where
  "maintenance_deferred st \<longleftrightarrow> text_in (jget st ''failure_code'') MAINTENANCE_DEFERRAL_CODES"

definition capacity_deferred :: "status \<Rightarrow> bool" where
  "capacity_deferred st \<longleftrightarrow> text_in (jget st ''status'') [''DEFERRED'', ''DISABLED'']"

definition next_retry :: "runtime_env \<Rightarrow> status \<Rightarrow> instant \<Rightarrow> instant" where
  "next_retry E st now =
     (let raw = jget st ''next_retry_at''
      in if truthy raw
         then (case re_fromisoformat E (py_str (re_platform E) raw) of Some t \<Rightarrow> t | None \<Rightarrow> now + minutes 1)
         else now + minutes 1)"

text \<open>\<open>_execute_job_safely\<close>: an error of the database is the only exception that leaves the lane.\<close>

fun execute_job_safely :: "platform \<Rightarrow> execution \<Rightarrow> status outcome" where
  "execute_job_safely P (Returned st) = Inr st"
| "execute_job_safely P (DatabaseFailure e) = Inl e"
| "execute_job_safely P (BackfillPending name text) =
     Inr [(''status'', JStr ''DEFERRED''), (''failure_code'', JStr ''NEWS_EMBEDDING_BACKFILL_PENDING''),
          (''error_type'', JStr name), (''error'', JStr (take 500 text))]"
| "execute_job_safely P (PrerequisiteFailure code name diagnostic http next_at) =
     Inr [(''status'', JStr ''DEFERRED''), (''failure_code'', JStr code), (''error_type'', JStr name),
          (''error'', JStr (take 500 (json_dumps P diagnostic))), (''provider_http_status'', http),
          (''next_retry_at'', next_at)]"
| "execute_job_safely P (OtherFailure name text) =
     Inr [(''status'', JStr ''ERROR''), (''failure_code'', JStr ''SCHEDULER_EXECUTION_FAILED''),
          (''error_type'', JStr name), (''error'', JStr (take 500 text))]"

definition may_try_another_credential :: "status \<Rightarrow> bool" where
  "may_try_another_credential st \<longleftrightarrow>
     \<not> maintenance_deferred st \<and>
     (capacity_deferred st \<or>
      (case jget st ''provider_http_status'' of JInt n \<Rightarrow> n \<in> set [401, 403, 429, 500, 502, 503, 504] | _ \<Rightarrow> False))"

definition with_scheduler_failure_code :: "status \<Rightarrow> status" where
  "with_scheduler_failure_code st =
     (if truthy (jget st ''failure_code'') then st
      else if jget st ''status'' = JStr ''DEFERRED'' then AList.update ''failure_code'' (JStr ''MODEL_CAPACITY_DEFERRED'') st
      else if jget st ''status'' = JStr ''DISABLED'' then AList.update ''failure_code'' (JStr ''MODEL_ROUTE_DISABLED'') st
      else st)"

section \<open>The credentials that may run a job\<close>

definition compatible_credentials :: "api_credential list \<Rightarrow> priority \<Rightarrow> api_credential list" where
  "compatible_credentials credentials p =
     sort_key (\<lambda>c. if urgent_priority p \<and> cred_pool c \<noteq> PREEMPTIBLE_POOL then 1 else (0::nat))
       (filter (\<lambda>c. cred_pool c = ROUTINE_POOL \<or> urgent_priority p) credentials)"

definition prefer_account :: "string option \<Rightarrow> string list \<Rightarrow> string list" where
  "prefer_account preferred accounts =
     (case preferred of
        None \<Rightarrow> accounts
      | Some a \<Rightarrow> if a \<in> set accounts then a # filter (\<lambda>b. b \<noteq> a) accounts else accounts)"

definition rotated_keys :: "api_credential list \<Rightarrow> int \<Rightarrow> string \<Rightarrow> api_credential list" where
  "rotated_keys eligible attempts account =
     (let keys = sort_key cred_id (filter (\<lambda>c. cred_account c = account) eligible);
          offset = nat (max 0 (attempts - 1) mod int (length keys))
      in drop offset keys @ take offset keys)"

definition credentials_for_job ::
    "platform \<Rightarrow> api_credential list \<Rightarrow> scheduled_job \<Rightarrow> instant \<Rightarrow> string option \<Rightarrow> scheduler_db \<Rightarrow>
     api_credential list outcome" where
  "credentials_for_job P credentials job now preferred db =
     (let eligible = compatible_credentials credentials (sj_priority job)
      in bind_out (route_for_task (task_name (sj_task job))) (\<lambda>route.
         bind_out (rank_accounts_for_models P eligible (tr_models route) (tr_reserve_models route)
                     (urgent_priority (sj_priority job)) now db) (\<lambda>accounts.
           Inr (concat (map (rotated_keys eligible (sj_attempt_count job)) (prefer_account preferred accounts))))))"

section \<open>One job\<close>

definition worker_id :: "lane_setup \<Rightarrow> nat \<Rightarrow> string" where
  "worker_id L k = ln_prefix L @ ''-'' @ str_int (int k)"

definition claim_in_lane ::
    "runtime_env \<Rightarrow> lane_setup \<Rightarrow> nat \<Rightarrow> string \<Rightarrow> string list option \<Rightarrow> string list \<Rightarrow> lane_state \<Rightarrow>
     (scheduled_job option \<times> lane_state) outcome" where
  "claim_in_lane E L k pool tasks excluded s =
     (case read_clock E s of (now, s1) \<Rightarrow>
        bind_out (claim_job \<lparr>cl_worker = worker_id L k, cl_pool = pool, cl_task_types = tasks, cl_excluded = excluded,
                     cl_lanes = map lane_name WORK_LANES, cl_lease_seconds = 180,
                     cl_queued_before = Some (ln_queued_before L)\<rparr> now (lw_db s1))
          (\<lambda>r. Inr (fst r, s1\<lparr>lw_db := snd r\<rparr>)))"

text \<open>
  Every fourth turn starts with impact work, unless it is excluded or blocked.
\<close>

definition impact_turn :: "lane_setup \<Rightarrow> nat \<Rightarrow> lane_state \<Rightarrow> bool" where
  "impact_turn L k s \<longleftrightarrow>
     k mod 4 = 3 \<and> (case ln_tasks L of None \<Rightarrow> True | Some ts \<Rightarrow> ''ACTIVE_IMPACT'' \<in> set ts) \<and>
     ''ACTIVE_IMPACT'' \<notin> set (lw_blocked s)"

definition next_job :: "runtime_env \<Rightarrow> lane_setup \<Rightarrow> nat \<Rightarrow> lane_state \<Rightarrow> (scheduled_job option \<times> lane_state) outcome" where
  "next_job E L k s =
     (if list_ex (\<lambda>c. cred_pool c = ROUTINE_POOL) (ln_credentials L)
      then
        bind_out (if impact_turn L k s then claim_in_lane E L k ROUTINE_POOL (Some [''ACTIVE_IMPACT'']) [] s else Inr (None, s))
          (\<lambda>r. case fst r of
             Some job \<Rightarrow> Inr r
           | None \<Rightarrow> claim_in_lane E L k ROUTINE_POOL (ln_tasks L) (lw_blocked (snd r)) (snd r))
      else if list_ex (\<lambda>c. cred_pool c = PREEMPTIBLE_POOL) (ln_credentials L)
      then claim_in_lane E L k PREEMPTIBLE_POOL (ln_tasks L) (lw_blocked s) s
      else Inr (None, s))"

record attempts =
  xa_status :: status
  xa_credential :: api_credential
  xa_at :: instant
  xa_credentials :: nat
  xa_accounts :: "string list"
  xa_blocked :: "string list"
  xa_capacity :: bool

fun try_candidates ::
    "runtime_env \<Rightarrow> scheduled_job \<Rightarrow> api_credential list \<Rightarrow> attempts \<Rightarrow> lane_state \<Rightarrow> (attempts \<times> lane_state) outcome" where
  "try_candidates E job [] r s = Inr (r, s)"
| "try_candidates E job (c # cs) r s =
     (if cred_account c \<in> set (xa_blocked r) then try_candidates E job cs r s
      else
        (case read_clock E s of (now, s1) \<Rightarrow>
         (case re_execute E job c now (lw_db s1) of (result, db1) \<Rightarrow>
           bind_out (execute_job_safely (re_platform E) result) (\<lambda>raw.
             (let st = with_scheduler_failure_code raw; maintenance = maintenance_deferred st
              in bind_out (if maintenance then Inr db1 else record_job_attempt (re_platform E) job c st now db1) (\<lambda>db2.
                 (let s2 = s1\<lparr>lw_db := db2\<rparr>;
                      r1 = \<lparr>xa_status = st, xa_credential = c, xa_at = now,
                             xa_credentials = (if maintenance then xa_credentials r else xa_credentials r + 1),
                             xa_accounts = (if maintenance then xa_accounts r else List.insert (cred_account c) (xa_accounts r)),
                             xa_blocked = xa_blocked r, xa_capacity = xa_capacity r \<and> capacity_deferred st\<rparr>
                  in if \<not> may_try_another_credential st then Inr (r1, s2)
                     else
                       let authentication = (case jget st ''provider_http_status'' of JInt n \<Rightarrow> n = 401 \<or> n = 403 | _ \<Rightarrow> False)
                       in try_candidates E job cs
                            (if authentication then r1 else r1\<lparr>xa_blocked := List.insert (cred_account c) (xa_blocked r)\<rparr>) s2)))))))"

definition PROHIBITED_CONTENT :: string where "PROHIBITED_CONTENT = ''PROVIDER_PROHIBITED_CONTENT''"

definition evidence_delay :: "int \<Rightarrow> int" where
  "evidence_delay attempts = minutes ([15, 60, 360, 720] ! nat (min (max (attempts - 1) 0) 3))"

text \<open>The text of the first truthy value, as in \<open>str(a or b)\<close>.\<close>

definition first_text :: "platform \<Rightarrow> json list \<Rightarrow> string \<Rightarrow> string" where
  "first_text P vs fallback = (case find truthy vs of Some v \<Rightarrow> py_str P v | None \<Rightarrow> fallback)"

definition block_task :: "task_type \<Rightarrow> lane_state \<Rightarrow> lane_state" where
  "block_task t s = s\<lparr>lw_blocked := List.insert (task_name t) (lw_blocked s)\<rparr>"

text \<open>
  Giving the lease back. The clock of the transition is read inside it; \<open>finish\<close> is a transition with
  its clock.
\<close>

definition finish :: "runtime_env \<Rightarrow> (instant \<Rightarrow> scheduler_db \<Rightarrow> scheduler_db outcome) \<Rightarrow> lane_state \<Rightarrow> lane_state outcome" where
  "finish E transition s =
     (case read_clock E s of (clock, s1) \<Rightarrow> bind_out (transition clock (lw_db s1)) (\<lambda>db. Inr (s1\<lparr>lw_db := db\<rparr>)))"

text \<open>What the status of the last credential asks for.\<close>

datatype settlement =
    Finish
  | Bury instant string
  | GiveBack instant string bool
  | Postpone instant string
  | RetryNow string

definition settlement_of :: "runtime_env \<Rightarrow> scheduled_job \<Rightarrow> attempts \<Rightarrow> settlement" where
  "settlement_of E job r =
     (let P = re_platform E; st = xa_status r; result = first_text P [jget st ''status''] ''ERROR''
      in if result = ''OK'' then Finish
         else if result = ''SKIPPED'' then Bury (xa_at r) PROHIBITED_CONTENT
         else if result = ''PENDING_EVIDENCE''
         then GiveBack (xa_at r + evidence_delay (sj_attempt_count job)) ''CURRENT_EVIDENCE_NOT_AVAILABLE'' False
         else if maintenance_deferred st then Postpone (next_retry E st (xa_at r)) (py_str P (jget st ''failure_code''))
         else if result = ''DEFERRED'' \<or> result = ''DISABLED''
         then GiveBack (next_retry E st (xa_at r)) (first_text P [jget st ''failure_code''] result) (xa_capacity r)
         else if truthy (jget st ''is_terminal'')
         then Bury (next_retry E st (xa_at r)) (first_text P [jget st ''error''] result)
         else RetryNow (first_text P [jget st ''failure_code'', jget st ''error''] result))"

definition settle_job ::
    "runtime_env \<Rightarrow> scheduled_job \<Rightarrow> string \<Rightarrow> attempts \<Rightarrow> lane_state \<Rightarrow> (status \<times> lane_state) outcome" where
  "settle_job E job worker r s =
     (let P = re_platform E; st = xa_status r; jid = sj_id job
      in case settlement_of E job r of
           Finish \<Rightarrow>
             (case read_clock E s of (now, s1) \<Rightarrow>
                bind_out (finish E (complete_job jid worker now) s1) (\<lambda>s2. Inr (st, s2)))
         | Bury available err \<Rightarrow>
             bind_out (finish E (backoff_job jid worker available err True) s) (\<lambda>s1. Inr (st, s1))
         | GiveBack available err block \<Rightarrow>
             bind_out (finish E (release_job jid worker available (Some err)) s) (\<lambda>s1.
               Inr (st, if block then block_task (sj_task job) s1 else s1))
         | Postpone available reason \<Rightarrow>
             bind_out (record_scheduler_deferral P job (xa_credential r) st (xa_at r) (lw_db s)) (\<lambda>db.
             bind_out (finish E (defer_job_for_maintenance jid worker available reason) (s\<lparr>lw_db := db\<rparr>)) (\<lambda>s1.
               Inr (st, block_task (sj_task job) s1)))
         | RetryNow err \<Rightarrow>
             (case read_clock E s of (now, s1) \<Rightarrow>
                bind_out (finish E (release_job jid worker now (Some err)) s1) (\<lambda>s2.
                  Inr (AList.update ''next_retry_at'' (JStr (iso_text P now)) (AList.update ''retry_state'' (JStr ''QUEUED'') st), s2))))"

definition no_capacity :: status where
  "no_capacity = [(''status'', JStr ''DEFERRED''), (''reason'', JStr ''NO_COMPATIBLE_ACCOUNT_CAPACITY''),
     (''failure_code'', JStr ''MODEL_CAPACITY_DEFERRED'')]"

definition run_job ::
    "runtime_env \<Rightarrow> lane_setup \<Rightarrow> nat \<Rightarrow> scheduled_job \<Rightarrow> lane_state \<Rightarrow> (lane_status \<times> lane_state) outcome" where
  "run_job E L k job s =
     (case read_clock E s of (executed_at, s1) \<Rightarrow>
        bind_out (credentials_for_job (re_platform E) (ln_credentials L) job executed_at (ln_preferred_account L) (lw_db s1))
          (\<lambda>all.
             (let candidates = (if sj_task job = ACTIVE_IMPACT \<or> sj_task job = TITLE_TRANSLATION
                                then filter (\<lambda>c. cred_account c \<notin> set (ln_reserved_accounts L)) all else all)
              in case candidates @ ln_credentials L of
                   [] \<Rightarrow> Inl (OtherError ''IndexError'')
                 | first # _ \<Rightarrow>
                     bind_out (try_candidates E job candidates
                         \<lparr>xa_status = no_capacity, xa_credential = first, xa_at = executed_at, xa_credentials = 0,
                          xa_accounts = [], xa_blocked = [], xa_capacity = True\<rparr> s1) (\<lambda>(r, s2).
                     bind_out (settle_job E job (worker_id L k) r s2) (\<lambda>(st, s3).
                       Inr (\<lparr>lz_job = sj_id job, lz_task = sj_task job, lz_priority = sj_priority job,
                              lz_pool = cred_pool (xa_credential r), lz_account = cred_account (xa_credential r),
                              lz_accounts = length (xa_accounts r), lz_attempted = xa_credentials r, lz_status = st\<rparr>, s3))))))"

section \<open>The lane and the batch\<close>

fun lane_loop ::
    "runtime_env \<Rightarrow> lane_setup \<Rightarrow> nat \<Rightarrow> lane_status list \<Rightarrow> lane_state \<Rightarrow> (lane_status list \<times> lane_state) outcome" where
  "lane_loop E L 0 out s = Inr (out, s)"
| "lane_loop E L (Suc n) out s =
     bind_out (next_job E L (length out) s) (\<lambda>(job, s1).
       case job of
         None \<Rightarrow> Inr (out, s1)
       | Some j \<Rightarrow> bind_out (run_job E L (length out) j s1) (\<lambda>(st, s2). lane_loop E L n (out @ [st]) s2))"

definition run_scheduled_lane ::
    "runtime_env \<Rightarrow> lane_setup \<Rightarrow> lane_state \<Rightarrow> (lane_status list \<times> lane_state) outcome" where
  "run_scheduled_lane E L s = lane_loop E L (ln_maximum L) [] s"

definition PRODUCTION_LANES_PER_ACCOUNT :: nat where "PRODUCTION_LANES_PER_ACCOUNT = 2"

definition batch_maximum :: "nat option \<Rightarrow> string list \<Rightarrow> nat" where
  "batch_maximum batch_size accounts =
     (case batch_size of Some n \<Rightarrow> if n \<noteq> 0 then n else max 1 (length accounts * 10) | None \<Rightarrow> max 1 (length accounts * 10))"

definition account_lanes :: "string list \<Rightarrow> (string \<times> nat) list" where
  "account_lanes accounts = concat (map (\<lambda>a. map (Pair a) [0..<PRODUCTION_LANES_PER_ACCOUNT]) accounts)"

definition lane_allocations :: "nat \<Rightarrow> nat \<Rightarrow> nat list" where
  "lane_allocations maximum lanes =
     map (\<lambda>i. maximum div lanes + (if i < maximum mod lanes then 1 else 0)) [0..<lanes]"

definition lane_tasks_for :: "string list option \<Rightarrow> string list \<Rightarrow> string \<Rightarrow> string list option" where
  "lane_tasks_for tasks reserved account =
     (if account \<in> set reserved
      then Some (if (case tasks of None \<Rightarrow> True | Some ts \<Rightarrow> ''ACTIVE_ANNOTATION'' \<in> set ts) then [''ACTIVE_ANNOTATION''] else [])
      else tasks)"

definition account_lane ::
    "api_credential list \<Rightarrow> instant \<Rightarrow> string \<Rightarrow> string list option \<Rightarrow> string list \<Rightarrow> nat \<Rightarrow> (string \<times> nat) \<times> nat \<Rightarrow> lane_setup" where
  "account_lane credentials queued_before prefix tasks reserved i lane =
     (case lane of ((account, index), allocation) \<Rightarrow>
        \<lparr>ln_credentials = filter (\<lambda>c. cred_account c = account) credentials, ln_maximum = allocation,
         ln_queued_before = queued_before,
         ln_prefix = prefix @ ''-account-'' @ str_int (int i) @ ''-lane-'' @ str_int (int index),
         ln_tasks = lane_tasks_for tasks reserved account, ln_reserved_accounts = reserved,
         ln_preferred_account = Some account\<rparr>)"

text \<open>The lanes of a batch: one for an explicit size, two for each account otherwise.\<close>

definition batch_lanes ::
    "api_credential list \<Rightarrow> nat option \<Rightarrow> bool \<Rightarrow> instant \<Rightarrow> string \<Rightarrow> string list option \<Rightarrow> string list \<Rightarrow>
     lane_setup list outcome" where
  "batch_lanes credentials batch_size in_memory queued_before prefix tasks reserved =
     (let accounts = dedupe (map cred_account credentials); maximum = batch_maximum batch_size accounts
      in if \<not> set reserved \<subseteq> set accounts then Inl (ValueError ''Gemma reserved account is not configured'')
         else if batch_size \<noteq> None \<or> in_memory
         then Inr [\<lparr>ln_credentials = credentials, ln_maximum = maximum, ln_queued_before = queued_before, ln_prefix = prefix,
                ln_tasks = tasks, ln_reserved_accounts = reserved, ln_preferred_account = None\<rparr>]
         else
           (let lanes = account_lanes accounts; shares = zip lanes (lane_allocations maximum (length lanes))
            in Inr (map (\<lambda>(i, lane). account_lane credentials queued_before prefix tasks reserved i lane)
                 (filter (\<lambda>(i, lane). 0 < snd lane) (enumerate 0 shares)))))"

section \<open>The leases of a lane\<close>

definition lane_rows :: "lane_setup \<Rightarrow> scheduler_db \<Rightarrow> job set" where
  "lane_rows L db = {j \<in> set (db_jobs db). j_state j = LEASED \<and> (\<exists>k. j_lease_owner j = Some (worker_id L k))}"

text \<open>
  What the rest of the system may do: keep the queue well formed and leave the rows that the lane has
  leased as they are (\<open>lease_is_exclusive\<close>, while the lease has not expired).
\<close>

definition respects_lane :: "lane_setup \<Rightarrow> scheduler_db \<Rightarrow> scheduler_db \<Rightarrow> bool" where
  "respects_lane L db db' \<longleftrightarrow> (queue_inv db \<longrightarrow> queue_inv db') \<and> lane_rows L db' = lane_rows L db"

definition neighbours_respect :: "runtime_env \<Rightarrow> lane_setup \<Rightarrow> bool" where
  "neighbours_respect E L \<longleftrightarrow>
     (\<forall>n db. respects_lane L db (re_others E n db)) \<and>
     (\<forall>job c t db. respects_lane L db (snd (re_execute E job c t db)))"

text \<open>The errors of the database that an execution may raise.\<close>

definition raises :: "runtime_env \<Rightarrow> py_error \<Rightarrow> bool" where
  "raises E e \<longleftrightarrow> (\<exists>job c t db. fst (re_execute E job c t db) = DatabaseFailure e)"

definition setup_ok :: "lane_setup \<Rightarrow> bool" where
  "setup_ok L \<longleftrightarrow> (case ln_tasks L of None \<Rightarrow> True | Some ts \<Rightarrow> list_all (\<lambda>t. task_of t \<noteq> None) ts)"

definition lane_ok :: "lane_state \<Rightarrow> bool" where
  "lane_ok s \<longleftrightarrow> queue_inv (lw_db s) \<and> list_all (\<lambda>t. task_of t \<noteq> None) (lw_blocked s)"

definition holds :: "lane_setup \<Rightarrow> nat \<Rightarrow> scheduled_job \<Rightarrow> lane_state \<Rightarrow> bool" where
  "holds L k job s \<longleftrightarrow>
     (\<exists>row. lane_rows L (lw_db s) = {row} \<and> j_id row = sj_id job \<and> j_lease_owner row = Some (worker_id L k))"

lemma read_clock_frame:
  assumes "read_clock E s = (now, s1)" "neighbours_respect E L"
  shows "now = re_clock E (lw_tick s)" "lw_blocked s1 = lw_blocked s" "lane_rows L (lw_db s1) = lane_rows L (lw_db s)"
    "lane_ok s \<Longrightarrow> lane_ok s1" "holds L k job s \<Longrightarrow> holds L k job s1" "lw_db s1 = re_others E (lw_tick s) (lw_db s)"
  using assms by (auto simp: read_clock_def neighbours_respect_def respects_lane_def lane_ok_def holds_def)

lemma holds_row:
  assumes "holds L k job s" "lane_ok s"
  obtains row where "lane_rows L (lw_db s) = {row}" "row \<in> set (db_jobs (lw_db s))" "owns_lease (sj_id job) (worker_id L k) row"
    "1 \<le> j_attempt_count row" "distinct (map j_id (db_jobs (lw_db s)))"
proof -
  from assms(1) obtain row where r: "lane_rows L (lw_db s) = {row}" "j_id row = sj_id job"
    "j_lease_owner row = Some (worker_id L k)" by (auto simp: holds_def)
  then have m: "row \<in> lane_rows L (lw_db s)" by simp
  then have row: "row \<in> set (db_jobs (lw_db s))" "j_state row = LEASED" by (simp_all add: lane_rows_def)
  from assms(2) have "queue_inv (lw_db s)" by (simp add: lane_ok_def)
  with row have "1 \<le> j_attempt_count row" "distinct (map j_id (db_jobs (lw_db s)))"
    by (auto simp: queue_inv_def job_ok_def lease_ok_def)
  with r row show ?thesis by (intro that) (simp_all add: owns_lease_def)
qed

subsection \<open>Claiming\<close>

lemma traverse_total: "list_all (\<lambda>x. f x \<noteq> None) xs \<Longrightarrow> \<exists>ys. traverse f xs = Some ys"
  by (induction xs) (auto split: option.splits)

lemma claim_query_total:
  assumes "cl_pool a = ROUTINE_POOL \<or> cl_pool a = PREEMPTIBLE_POOL" "strip (cl_worker a) \<noteq> []"
    "list_all (\<lambda>t. task_of t \<noteq> None) (case cl_task_types a of None \<Rightarrow> [] | Some ts \<Rightarrow> ts)"
    "list_all (\<lambda>t. task_of t \<noteq> None) (cl_excluded a)" "cl_lanes a = map lane_name WORK_LANES"
  shows "\<exists>q. claim_query_of a now = Inr q"
proof -
  have "list_all (\<lambda>t. task_of t \<noteq> None) (dedupe (case cl_task_types a of None \<Rightarrow> map task_name TASKS | Some ts \<Rightarrow> ts))"
  proof (cases "cl_task_types a")
    case None
    have "list_all (\<lambda>t. \<not> Option.is_none (task_of t)) (dedupe (map task_name TASKS))" by code_simp
    with None show ?thesis by (simp add: list_all_iff Option.is_none_def)
  next
    case (Some ts)
    with assms(3) show ?thesis by (simp add: list_all_iff)
  qed
  then obtain tasks where t: "traverse task_of (dedupe (case cl_task_types a of None \<Rightarrow> map task_name TASKS | Some ts \<Rightarrow> ts)) = Some tasks"
    using traverse_total by blast
  obtain ex where e: "traverse task_of (cl_excluded a) = Some ex" using traverse_total [OF assms(4)] by blast
  have l: "traverse lane_of (dedupe (cl_lanes a)) = Some WORK_LANES" unfolding assms(5) by code_simp
  have "WORK_LANES \<noteq> []" by (simp add: WORK_LANES_def)
  then show ?thesis using assms(1,2) t e l by (auto simp: claim_query_of_def Let_def)
qed

lemma strip_dash: "strip (p @ CHR ''-'' # q) \<noteq> []"
proof
  have n: "\<not> is_space (CHR ''-'')" by code_simp
  have m: "CHR ''-'' \<in> set (dropWhile is_space (p @ CHR ''-'' # q))" using n by (induction p) simp_all
  assume "strip (p @ CHR ''-'' # q) = []"
  then have "\<forall>c \<in> set (rev (dropWhile is_space (p @ CHR ''-'' # q))). is_space c"
    by (simp only: strip_def rev_is_Nil_conv dropWhile_eq_Nil_conv)
  with m have "is_space (CHR ''-'')" by (simp only: set_rev)
  with n show False by simp
qed

lemma leased_after_requeue:
  "j \<in> set (requeue_expired now jobs) \<Longrightarrow> j_state j = LEASED \<Longrightarrow> j \<in> set jobs"
  by (auto simp: requeue_expired_def elim!: sql_updateE split: if_splits)

lemma claim_leases:
  assumes "claim_job a now db = Inr (r, db')" "queue_inv db" "lane_rows L db = {}" "cl_worker a = worker_id L k"
  shows "queue_inv db' \<and> (case r of
      None \<Rightarrow> lane_rows L db' = {}
    | Some sj \<Rightarrow> (\<exists>row. lane_rows L db' = {row} \<and> j_id row = sj_id sj \<and> j_lease_owner row = Some (worker_id L k)))"
proof -
  have inv: "queue_inv db'" by (rule claim_job_inv [OF assms(1,2)])
  have dist: "distinct (map j_id (db_jobs db))" using assms(2) by (simp add: queue_inv_def)
  from assms(1) show ?thesis
  proof (cases rule: claim_jobE)
    case nothing
    with inv assms(3) show ?thesis by simp
  next
    case (locked q)
    from locked(3) dist show ?thesis
    proof (cases rule: claim_lockedE)
      case none
      have "lane_rows L db' = {}" using assms(3) leased_after_requeue by (fastforce simp: none(3) lane_rows_def)
      with inv none(1) show ?thesis by simp
    next
      case (claimed row)
      let ?e = "cq_now q + seconds (max 30 (cl_lease_seconds a))"
      let ?row = "leased_row (cl_worker a) ?e (cq_now q) row" and ?jobs = "requeue_expired (cq_now q) (db_jobs db)"
      note D = select_claim_SomeD(1,2) [OF claimed(1)]
      have qb: "queued_or_backing_off row" using D(2) by (simp add: claimable_def)
      have d: "distinct (map j_id ?jobs)" using dist by (simp add: requeue_ids)
      have new: "?row \<in> set (db_jobs db')"
        unfolding claimed(3) lease_job_alt by simp (rule sql_update_memI(1) [OF D(1)], use qb in simp)
      have only: "j = ?row" if j: "j \<in> lane_rows L db'" for j
      proof -
        from j have jm: "j \<in> set (lease_job (j_id row) (cl_worker a) ?e (cq_now q) ?jobs)" "j_state j = LEASED"
          "\<exists>k. j_lease_owner j = Some (worker_id L k)" by (simp_all add: lane_rows_def claimed(3))
        then consider "j \<in> set ?jobs" | j0 where "j0 \<in> set ?jobs" "j_id j0 = j_id row" "j = leased_row (cl_worker a) ?e (cq_now q) j0"
          unfolding lease_job_alt by (auto elim!: sql_updateE)
        then show ?thesis
        proof cases
          case 1
          with jm(2,3) leased_after_requeue have "j \<in> lane_rows L db" by (auto simp: lane_rows_def)
          with assms(3) show ?thesis by simp
        next
          case (2 j0)
          with d D(1) have "j0 = row" by (auto simp: distinct_map dest: inj_onD)
          with 2(3) show ?thesis by simp
        qed
      qed
      have "?row \<in> lane_rows L db'" using new assms(4) by (auto simp: lane_rows_def)
      with only have "lane_rows L db' = {?row}" by blast
      with inv claimed(2) assms(4) show ?thesis by (simp add: job_from_row_def)
    qed
  qed
qed

lemma claim_total:
  assumes "neighbours_respect E L" "lane_ok s" "lane_rows L (lw_db s) = {}" "pool = ROUTINE_POOL \<or> pool = PREEMPTIBLE_POOL"
    "list_all (\<lambda>t. task_of t \<noteq> None) (case tasks of None \<Rightarrow> [] | Some ts \<Rightarrow> ts)" "list_all (\<lambda>t. task_of t \<noteq> None) excluded"
  obtains r s1 where "claim_in_lane E L k pool tasks excluded s = Inr (r, s1)" "lane_ok s1" "lw_blocked s1 = lw_blocked s"
    "r = None \<Longrightarrow> lane_rows L (lw_db s1) = {}" "\<And>j. r = Some j \<Longrightarrow> holds L k j s1"
proof -
  obtain now s1 where c: "read_clock E s = (now, s1)" by (cases "read_clock E s")
  note f = read_clock_frame [OF c assms(1)]
  let ?a = "\<lparr>cl_worker = worker_id L k, cl_pool = pool, cl_task_types = tasks, cl_excluded = excluded,
    cl_lanes = map lane_name WORK_LANES, cl_lease_seconds = 180, cl_queued_before = Some (ln_queued_before L)\<rparr>"
  have "\<exists>q. claim_query_of ?a now = Inr q"
    by (rule claim_query_total) (use assms(4-6) strip_dash in \<open>simp_all add: worker_id_def\<close>)
  then have "\<not> isl (claim_job ?a now (lw_db s1))" by (auto simp: claim_job_def bind_out_def split: option.splits)
  then obtain r db where r: "claim_job ?a now (lw_db s1) = Inr (r, db)" using run_succeeds by blast
  have "queue_inv (lw_db s1)" using f(4) [OF assms(2)] by (simp add: lane_ok_def)
  from claim_leases [OF r this _, of L k] have q: "queue_inv db \<and> (case r of None \<Rightarrow> lane_rows L db = {}
      | Some sj \<Rightarrow> (\<exists>row. lane_rows L db = {row} \<and> j_id row = sj_id sj \<and> j_lease_owner row = Some (worker_id L k)))"
    using f(3) assms(3) by simp
  have "claim_in_lane E L k pool tasks excluded s = Inr (r, s1\<lparr>lw_db := db\<rparr>)"
    by (simp add: claim_in_lane_def c r bind_out_def)
  then show ?thesis
  proof (rule that)
    show "lane_ok (s1\<lparr>lw_db := db\<rparr>)" using q f(4) [OF assms(2)] by (simp add: lane_ok_def)
    show "lw_blocked (s1\<lparr>lw_db := db\<rparr>) = lw_blocked s" using f(2) by simp
    show "lane_rows L (lw_db (s1\<lparr>lw_db := db\<rparr>)) = {}" if "r = None" using q that by simp
    show "holds L k j (s1\<lparr>lw_db := db\<rparr>)" if "r = Some j" for j using q that by (simp add: holds_def)
  qed
qed

lemma next_job_total:
  assumes "neighbours_respect E L" "setup_ok L" "lane_ok s" "lane_rows L (lw_db s) = {}"
  obtains r s1 where "next_job E L k s = Inr (r, s1)" "lane_ok s1" "lw_blocked s1 = lw_blocked s"
    "r = None \<Longrightarrow> lane_rows L (lw_db s1) = {}" "\<And>j. r = Some j \<Longrightarrow> holds L k j s1 \<and> ln_credentials L \<noteq> []"
proof -
  note goal = that
  have tasks: "list_all (\<lambda>t. task_of t \<noteq> None) (case ln_tasks L of None \<Rightarrow> [] | Some ts \<Rightarrow> ts)"
    using assms(2) by (simp add: setup_ok_def split: option.splits)
  have impact: "list_all (\<lambda>t. task_of t \<noteq> None) (case Some [''ACTIVE_IMPACT''] of None \<Rightarrow> [] | Some ts \<Rightarrow> ts)"
    by (simp add: task_of_def of_name_def TASKS_def)
  have blocked: "list_all (\<lambda>t. task_of t \<noteq> None) (lw_blocked x)" if "lane_ok x" for x using that by (simp add: lane_ok_def)
  have main: ?thesis if "ln_credentials L \<noteq> []"
      "\<exists>pool x. (pool = ROUTINE_POOL \<or> pool = PREEMPTIBLE_POOL) \<and> lane_ok x \<and> lane_rows L (lw_db x) = {} \<and> lw_blocked x = lw_blocked s \<and>
         next_job E L k s = claim_in_lane E L k pool (ln_tasks L) (lw_blocked x) x"
  proof -
    from that(2) obtain pool x where x: "pool = ROUTINE_POOL \<or> pool = PREEMPTIBLE_POOL" "lane_ok x" "lane_rows L (lw_db x) = {}"
      "lw_blocked x = lw_blocked s" "next_job E L k s = claim_in_lane E L k pool (ln_tasks L) (lw_blocked x) x" by blast
    show ?thesis
    proof (rule claim_total [OF assms(1) x(2,3,1) tasks blocked [OF x(2)], of k])
      fix r s1
      assume "claim_in_lane E L k pool (ln_tasks L) (lw_blocked x) x = Inr (r, s1)" "lane_ok s1" "lw_blocked s1 = lw_blocked x"
        "r = None \<Longrightarrow> lane_rows L (lw_db s1) = {}" "\<And>j. r = Some j \<Longrightarrow> holds L k j s1"
      with x(4,5) that(1) show ?thesis by (intro goal [of r s1]) simp_all
    qed
  qed
  consider (routine) "list_ex (\<lambda>c. cred_pool c = ROUTINE_POOL) (ln_credentials L)"
    | (preemptible) "\<not> list_ex (\<lambda>c. cred_pool c = ROUTINE_POOL) (ln_credentials L)"
        "list_ex (\<lambda>c. cred_pool c = PREEMPTIBLE_POOL) (ln_credentials L)"
    | (neither) "\<not> list_ex (\<lambda>c. cred_pool c = ROUTINE_POOL) (ln_credentials L)"
        "\<not> list_ex (\<lambda>c. cred_pool c = PREEMPTIBLE_POOL) (ln_credentials L)" by blast
  then show ?thesis
  proof cases
    case routine
    then have c: "ln_credentials L \<noteq> []" by auto
    show ?thesis
    proof (cases "impact_turn L k s")
      case True
      obtain r s1 where r: "claim_in_lane E L k ROUTINE_POOL (Some [''ACTIVE_IMPACT'']) [] s = Inr (r, s1)" "lane_ok s1"
        "lw_blocked s1 = lw_blocked s" "r = None \<Longrightarrow> lane_rows L (lw_db s1) = {}" "\<And>j. r = Some j \<Longrightarrow> holds L k j s1"
        by (rule claim_total [OF assms(1,3,4), of ROUTINE_POOL "Some [''ACTIVE_IMPACT'']" "[]"]) (use impact in auto)
      show ?thesis
      proof (cases r)
        case None
        have "next_job E L k s = claim_in_lane E L k ROUTINE_POOL (ln_tasks L) (lw_blocked s1) s1"
          using routine True r(1) None by (simp add: next_job_def bind_out_def)
        with r(2-4) None c show ?thesis by (intro main exI [of _ ROUTINE_POOL] exI [of _ s1]) simp_all
      next
        case (Some j)
        with routine True r(1) have "next_job E L k s = Inr (r, s1)" by (simp add: next_job_def bind_out_def)
        with r c goal show ?thesis by blast
      qed
    next
      case False
      have "next_job E L k s = claim_in_lane E L k ROUTINE_POOL (ln_tasks L) (lw_blocked s) s"
        using routine False by (simp add: next_job_def bind_out_def)
      with assms c show ?thesis by (intro main exI [of _ ROUTINE_POOL] exI [of _ s]) simp_all
    qed
  next
    case preemptible
    then have c: "ln_credentials L \<noteq> []" by auto
    have "next_job E L k s = claim_in_lane E L k PREEMPTIBLE_POOL (ln_tasks L) (lw_blocked s) s"
      using preemptible by (simp add: next_job_def)
    with assms c show ?thesis by (intro main exI [of _ PREEMPTIBLE_POOL] exI [of _ s]) simp_all
  next
    case neither
    then have "next_job E L k s = Inr (None, s)" by (simp add: next_job_def)
    with assms goal show ?thesis by auto
  qed
qed

subsection \<open>Trying credentials\<close>

lemma collect_total: "\<forall>x \<in> set xs. \<not> isl x \<Longrightarrow> \<exists>ys. collect xs = Inr ys"
proof (induction xs)
  case (Cons x xs)
  then obtain ys where "collect xs = Inr ys" by auto
  moreover from Cons.prems obtain y where "x = Inr y" by (cases x) auto
  ultimately show ?case by (simp add: bind_out_def)
qed simp

lemma rank_total:
  assumes "\<forall>m \<in> set models. \<exists>q. quota_surface_for_model m = Inr q"
  shows "\<exists>accounts. rank_accounts_for_models P cs models reserve urgent now db = Inr accounts"
proof -
  have h: "\<not> isl (model_headroom P reserve urgent now db a m)" if "m \<in> set models" for a m
    using assms that by (auto simp: model_headroom_def bind_out_def Let_def split: prod.splits)
  have "\<not> isl (account_score P models reserve urgent now db a)" for a
    using collect_total [of "map (model_headroom P reserve urgent now db a) (dedupe models)"] h
    by (auto simp: account_score_def bind_out_def)
  then obtain scores where "collect (map (account_score P models reserve urgent now db) (dedupe (map cred_account cs))) = Inr scores"
    using collect_total [of "map (account_score P models reserve urgent now db) (dedupe (map cred_account cs))"] by auto
  then show ?thesis by (simp add: rank_accounts_for_models_def Let_def bind_out_def)
qed

lemma route_total: "\<exists>r \<in> set AI_TASK_ROUTES. route_for_task (task_name t) = Inr r"
  by (cases t) (simp_all add: route_for_task_def AI_TASK_ROUTES_def)

lemma credentials_total: "\<exists>cs. credentials_for_job P creds job now preferred db = Inr cs"
proof -
  obtain r where r: "r \<in> set AI_TASK_ROUTES" "route_for_task (task_name (sj_task job)) = Inr r" using route_total by blast
  then have "\<forall>m \<in> set (tr_models r). \<exists>q. quota_surface_for_model m = Inr q" using registry_models_have_surfaces by blast
  then obtain accounts where "rank_accounts_for_models P (compatible_credentials creds (sj_priority job)) (tr_models r) (tr_reserve_models r)
      (urgent_priority (sj_priority job)) now db = Inr accounts" using rank_total by blast
  with r(2) show ?thesis by (simp add: credentials_for_job_def Let_def bind_out_def)
qed

lemma lane_rows_jobs: "db_jobs db' = db_jobs db \<Longrightarrow> lane_rows L db' = lane_rows L db"
  by (simp add: lane_rows_def)

lemma holds_jobs: "db_jobs (lw_db s') = db_jobs (lw_db s) \<Longrightarrow> holds L k job s \<Longrightarrow> holds L k job s'"
  by (simp add: holds_def lane_rows_jobs [of "lw_db s'" "lw_db s" L])

lemma queue_inv_jobs: "db_jobs db' = db_jobs db \<and> db_overrides db' = db_overrides db \<Longrightarrow> queue_inv db \<Longrightarrow> queue_inv db'"
  by (simp add: queue_inv_def)

lemma holds_id: "holds L k job s \<Longrightarrow> sj_id job \<in> j_id ` set (db_jobs (lw_db s))"
proof -
  assume "holds L k job s"
  then obtain row where "lane_rows L (lw_db s) = {row}" "j_id row = sj_id job" by (auto simp: holds_def)
  moreover from this have "row \<in> lane_rows L (lw_db s)" by simp
  ultimately show ?thesis unfolding lane_rows_def by (metis (mono_tags, lifting) imageI mem_Collect_eq)
qed

lemma record_attempt_total:
  assumes "sj_id job \<in> j_id ` set (db_jobs db)"
  obtains db' where "record_job_attempt P job c st t db = Inr db'" "db_jobs db' = db_jobs db \<and> db_overrides db' = db_overrides db"
proof -
  have "\<not> isl (record_job_attempt P job c st t db)" using assms by (simp add: record_job_attempt_def Let_def)
  then obtain db' where r: "record_job_attempt P job c st t db = Inr db'" by (cases "record_job_attempt P job c st t db") simp_all
  from that [OF r record_attempt_frame [OF r]] show ?thesis .
qed

lemma record_deferral_total:
  assumes "sj_id job \<in> j_id ` set (db_jobs db)"
  obtains db' where "record_scheduler_deferral P job c st t db = Inr db'"
    "db_jobs db' = db_jobs db \<and> db_overrides db' = db_overrides db"
proof -
  have "\<not> isl (record_scheduler_deferral P job c st t db)" using assms by (simp add: record_scheduler_deferral_def Let_def)
  then obtain db' where r: "record_scheduler_deferral P job c st t db = Inr db'"
    by (cases "record_scheduler_deferral P job c st t db") simp_all
  from that [OF r record_deferral_frame [OF r]] show ?thesis .
qed

lemma safely_error: "execute_job_safely P x = Inl e \<Longrightarrow> x = DatabaseFailure e"
  by (cases x) simp_all

lemma try_total:
  assumes "neighbours_respect E L" "lane_ok s" "holds L k job s"
  shows "(\<exists>e. try_candidates E job cs r s = Inl e \<and> raises E e) \<or>
    (\<exists>r' s'. try_candidates E job cs r s = Inr (r', s') \<and> lane_ok s' \<and> holds L k job s' \<and> lw_blocked s' = lw_blocked s)"
  using assms(2,3)
proof (induction cs arbitrary: r s)
  case (Cons c cs)
  show ?case
  proof (cases "cred_account c \<in> set (xa_blocked r)")
    case True
    with Cons show ?thesis by simp
  next
    case False
    obtain now s1 where c: "read_clock E s = (now, s1)" by (cases "read_clock E s")
    obtain x db1 where x: "re_execute E job c now (lw_db s1) = (x, db1)" by (cases "re_execute E job c now (lw_db s1)")
    note f = read_clock_frame [OF c assms(1)]
    have resp: "respects_lane L (lw_db s1) db1"
      using assms(1) x unfolding neighbours_respect_def by (metis snd_conv)
    show ?thesis
    proof (cases "execute_job_safely (re_platform E) x")
      case (Inl e)
      have "raises E e" unfolding raises_def using x safely_error [OF Inl] by (metis fst_conv)
      with False c x Inl show ?thesis by (simp add: bind_out_def)
    next
      case (Inr raw)
      let ?st = "with_scheduler_failure_code raw"
      let ?s1 = "s1\<lparr>lw_db := db1\<rparr>"
      have ok1: "lane_ok ?s1" using f(4) [OF Cons.prems(1)] resp by (simp add: lane_ok_def respects_lane_def)
      have h1: "holds L k job ?s1" using f(5) [OF Cons.prems(2)] resp by (simp add: holds_def respects_lane_def)
      obtain db2 where db2: "(if maintenance_deferred ?st then Inr db1
          else record_job_attempt (re_platform E) job c ?st now db1) = Inr db2"
        "db_jobs db2 = db_jobs db1 \<and> db_overrides db2 = db_overrides db1"
      proof (cases "maintenance_deferred ?st")
        case True
        with that [of db1] show ?thesis by simp
      next
        case m: False
        from holds_id [OF h1] have "sj_id job \<in> j_id ` set (db_jobs db1)" by simp
        then obtain db' where "record_job_attempt (re_platform E) job c ?st now db1 = Inr db'"
          "db_jobs db' = db_jobs db1 \<and> db_overrides db' = db_overrides db1" by (rule record_attempt_total)
        with m that show ?thesis by simp
      qed
      let ?s2 = "s1\<lparr>lw_db := db2\<rparr>"
      have ok2: "lane_ok ?s2" using ok1 queue_inv_jobs [OF db2(2)] by (simp add: lane_ok_def)
      have h2: "holds L k job ?s2" using holds_jobs [OF _ h1, of ?s2] db2(2) by simp
      show ?thesis
      proof (cases "may_try_another_credential ?st")
        case True
        obtain r1 where "try_candidates E job (c # cs) r s = try_candidates E job cs r1 ?s2"
          using False c x Inr db2(1) True by (simp add: bind_out_def Let_def)
        with Cons.IH [OF ok2 h2, of r1] f(2) show ?thesis by simp
      next
        case stop: False
        obtain r1 where "try_candidates E job (c # cs) r s = Inr (r1, ?s2)"
          using False c x Inr db2(1) stop by (simp add: bind_out_def Let_def)
        with ok2 h2 f(2) show ?thesis by simp
      qed
    qed
  qed
qed simp

subsection \<open>Giving the lease back\<close>

lemma released:
  assumes "lane_rows L db = {row}" "p row" "\<And>j. j_state (f j) \<noteq> LEASED"
  shows "lane_rows L (db\<lparr>db_jobs := sql_update p f (db_jobs db)\<rparr>) = {}"
proof -
  have "j \<notin> lane_rows L (db\<lparr>db_jobs := sql_update p f (db_jobs db)\<rparr>)" for j
  proof
    assume j: "j \<in> lane_rows L (db\<lparr>db_jobs := sql_update p f (db_jobs db)\<rparr>)"
    then have m: "j \<in> set (sql_update p f (db_jobs db))" "j_state j = LEASED" "\<exists>k. j_lease_owner j = Some (worker_id L k)"
      by (simp_all add: lane_rows_def)
    then consider "j \<in> set (db_jobs db)" "\<not> p j" | j0 where "j = f j0" by (auto elim!: sql_updateE)
    then show False
    proof cases
      case 1
      with m have "j \<in> lane_rows L db" by (simp add: lane_rows_def)
      with assms(1,2) 1(2) show False by auto
    next
      case 2
      with m(2) assms(3) show False by simp
    qed
  qed
  then show ?thesis by blast
qed

lemma finish_total:
  assumes "neighbours_respect E L" "lane_ok s" "holds L k job s"
    "\<And>clock db. transition clock db = transition_leased_job (sj_id job) (worker_id L k) st av err co clock db"
    "st \<noteq> LEASED" "co \<noteq> None \<longleftrightarrow> terminal_state st"
  obtains s' where "finish E transition s = Inr s'" "lane_ok s'" "lane_rows L (lw_db s') = {}" "lw_blocked s' = lw_blocked s"
proof -
  obtain clock s1 where c: "read_clock E s = (clock, s1)" by (cases "read_clock E s")
  note f = read_clock_frame [OF c assms(1)]
  note ok = f(4) [OF assms(2)]
  from holds_row [OF f(5) [OF assms(3)] ok] obtain row where row: "lane_rows L (lw_db s1) = {row}" "row \<in> set (db_jobs (lw_db s1))"
    "owns_lease (sj_id job) (worker_id L k) row" "distinct (map j_id (db_jobs (lw_db s1)))" by blast
  then obtain db where db: "transition_leased_job (sj_id job) (worker_id L k) st av err co clock (lw_db s1) = Inr db"
    using transition_Inr_iff [OF row(4)] by blast
  have "queue_inv (lw_db s1)" using ok by (simp add: lane_ok_def)
  from transition_inv [OF db this assms(5,6)] have inv: "queue_inv db" .
  from db have "db = (lw_db s1)\<lparr>db_jobs := sql_update (owns_lease (sj_id job) (worker_id L k)) (moved_row st av err co clock) (db_jobs (lw_db s1))\<rparr>"
    by (rule transitionE)
  with released [OF row(1), of "owns_lease (sj_id job) (worker_id L k)" "moved_row st av err co clock"] row(3) assms(5)
  have none: "lane_rows L db = {}" by (simp add: moved_row_def)
  have "finish E transition s = Inr (s1\<lparr>lw_db := db\<rparr>)" by (simp add: finish_def c assms(4) db bind_out_def)
  then show ?thesis by (rule that) (use inv none ok f(2) in \<open>simp_all add: lane_ok_def\<close>)
qed

lemma finish_defer_total:
  assumes "neighbours_respect E L" "lane_ok s" "holds L k job s"
  obtains s' where "finish E (defer_job_for_maintenance (sj_id job) (worker_id L k) av reason) s = Inr s'" "lane_ok s'"
    "lane_rows L (lw_db s') = {}" "lw_blocked s' = lw_blocked s"
proof -
  obtain clock s1 where c: "read_clock E s = (clock, s1)" by (cases "read_clock E s")
  note f = read_clock_frame [OF c assms(1)]
  note ok = f(4) [OF assms(2)]
  let ?hit = "\<lambda>j. owns_lease (sj_id job) (worker_id L k) j \<and> 0 < j_attempt_count j"
  from holds_row [OF f(5) [OF assms(3)] ok] obtain row where row: "lane_rows L (lw_db s1) = {row}" "row \<in> set (db_jobs (lw_db s1))"
    "owns_lease (sj_id job) (worker_id L k) row" "1 \<le> j_attempt_count row" "distinct (map j_id (db_jobs (lw_db s1)))" by blast
  have one: "sql_count ?hit (db_jobs (lw_db s1)) = 1"
    by (rule sql_count_unique [OF row(5,2)]) (use row(3,4) in \<open>auto simp: owns_lease_def\<close>)
  then obtain db where db: "defer_job_for_maintenance (sj_id job) (worker_id L k) av reason clock (lw_db s1) = Inr db"
    by (simp add: defer_job_for_maintenance_def Let_def)
  have "queue_inv (lw_db s1)" using ok by (simp add: lane_ok_def)
  from defer_job_inv [OF db this] have inv: "queue_inv db" .
  from db have "db = (lw_db s1)\<lparr>db_jobs := sql_update ?hit (deferred_row av reason clock) (db_jobs (lw_db s1))\<rparr>" by (rule deferE)
  with released [OF row(1), of ?hit "deferred_row av reason clock"] row(3,4)
  have none: "lane_rows L db = {}" by (simp add: deferred_row_def)
  have "finish E (defer_job_for_maintenance (sj_id job) (worker_id L k) av reason) s = Inr (s1\<lparr>lw_db := db\<rparr>)"
    by (simp add: finish_def c db bind_out_def)
  then show ?thesis by (rule that) (use inv none ok f(2) in \<open>simp_all add: lane_ok_def\<close>)
qed

lemmas finish_complete = finish_total [of E L s k job "complete_job (sj_id job) (worker_id L k) now" COMPLETED now None "Some now"
    for E L s k job now, OF _ _ _ complete_job_def, simplified terminal_state_def, simplified]

lemmas finish_release = finish_total [of E L s k job "release_job (sj_id job) (worker_id L k) av err" QUEUED av err None
    for E L s k job av err, OF _ _ _ release_job_def, simplified terminal_state_def, simplified]

lemma finish_dead:
  assumes "neighbours_respect E L" "lane_ok s" "holds L k job s"
  obtains s' where "finish E (backoff_job (sj_id job) (worker_id L k) av err True) s = Inr s'" "lane_ok s'"
    "lane_rows L (lw_db s') = {}" "lw_blocked s' = lw_blocked s"
  by (rule finish_total [OF assms, of "backoff_job (sj_id job) (worker_id L k) av err True" DEAD_LETTER av "Some err" "Some av"])
    (use that in \<open>simp_all add: backoff_job_def terminal_state_def\<close>)

lemma task_of_name_ok: "task_of (task_name t) \<noteq> None"
  by (cases t) (simp_all add: task_of_def of_name_def TASKS_def)

lemma block_task_simps [simp]:
  "lw_db (block_task t s) = lw_db s" "lane_ok (block_task t s) = lane_ok s"
  "lw_blocked (block_task t s) = List.insert (task_name t) (lw_blocked s)"
  using task_of_name_ok [of t] by (auto simp: block_task_def lane_ok_def list_all_iff)

lemma settle_total:
  assumes "neighbours_respect E L" "lane_ok s" "holds L k job s"
  shows "\<exists>st s'. settle_job E job (worker_id L k) r s = Inr (st, s') \<and> lane_ok s' \<and> lane_rows L (lw_db s') = {}"
proof -
  obtain now s1 where c: "read_clock E s = (now, s1)" by (cases "read_clock E s")
  note f = read_clock_frame [OF c assms(1)]
  note ok1 = f(4) [OF assms(2)] and h1 = f(5) [OF assms(3)]
  show ?thesis
  proof (cases "settlement_of E job r")
    case Finish
    obtain s' where "finish E (complete_job (sj_id job) (worker_id L k) now) s1 = Inr s'" "lane_ok s'" "lane_rows L (lw_db s') = {}"
      using finish_complete [OF assms(1) ok1 h1] by metis
    with Finish c show ?thesis by (simp add: settle_job_def Let_def bind_out_def)
  next
    case (Bury av err)
    obtain s' where "finish E (backoff_job (sj_id job) (worker_id L k) av err True) s = Inr s'" "lane_ok s'"
      "lane_rows L (lw_db s') = {}" using finish_dead [OF assms] by metis
    with Bury show ?thesis by (simp add: settle_job_def Let_def bind_out_def)
  next
    case (GiveBack av err block)
    obtain s' where "finish E (release_job (sj_id job) (worker_id L k) av (Some err)) s = Inr s'" "lane_ok s'"
      "lane_rows L (lw_db s') = {}" using finish_release [OF assms] by metis
    with GiveBack show ?thesis by (simp add: settle_job_def Let_def bind_out_def)
  next
    case (Postpone av reason)
    obtain db where db: "record_scheduler_deferral (re_platform E) job (xa_credential r) (xa_status r) (xa_at r) (lw_db s) = Inr db"
      "db_jobs db = db_jobs (lw_db s) \<and> db_overrides db = db_overrides (lw_db s)"
      by (rule record_deferral_total [OF holds_id [OF assms(3)]])
    let ?s = "s\<lparr>lw_db := db\<rparr>"
    have "lane_ok ?s" using assms(2) queue_inv_jobs [OF db(2)] by (simp add: lane_ok_def)
    moreover have "holds L k job ?s" using holds_jobs [OF _ assms(3), of ?s] db(2) by simp
    ultimately obtain s' where "finish E (defer_job_for_maintenance (sj_id job) (worker_id L k) av reason) ?s = Inr s'"
      "lane_ok s'" "lane_rows L (lw_db s') = {}" using finish_defer_total [OF assms(1)] by metis
    with Postpone db(1) show ?thesis by (simp add: settle_job_def Let_def bind_out_def)
  next
    case (RetryNow err)
    obtain s' where "finish E (release_job (sj_id job) (worker_id L k) now (Some err)) s1 = Inr s'" "lane_ok s'"
      "lane_rows L (lw_db s') = {}" using finish_release [OF assms(1) ok1 h1] by metis
    with RetryNow c show ?thesis by (simp add: settle_job_def Let_def bind_out_def)
  qed
qed

subsection \<open>The loop\<close>

definition untried :: "api_credential \<Rightarrow> instant \<Rightarrow> attempts" where
  "untried first now = \<lparr>xa_status = no_capacity, xa_credential = first, xa_at = now, xa_credentials = 0, xa_accounts = [],
     xa_blocked = [], xa_capacity = True\<rparr>"

lemma run_job_steps:
  assumes "read_clock E s = (now, s1)" "ln_credentials L \<noteq> []"
  obtains cs first where "run_job E L k job s = bind_out (try_candidates E job cs (untried first now) s1) (\<lambda>(r, s2).
      bind_out (settle_job E job (worker_id L k) r s2) (\<lambda>(st, s3).
        Inr (\<lparr>lz_job = sj_id job, lz_task = sj_task job, lz_priority = sj_priority job,
               lz_pool = cred_pool (xa_credential r), lz_account = cred_account (xa_credential r),
               lz_accounts = length (xa_accounts r), lz_attempted = xa_credentials r, lz_status = st\<rparr>, s3)))"
proof -
  obtain allc where all: "credentials_for_job (re_platform E) (ln_credentials L) job now (ln_preferred_account L) (lw_db s1) = Inr allc"
    using credentials_total by blast
  let ?cs = "if sj_task job = ACTIVE_IMPACT \<or> sj_task job = TITLE_TRANSLATION
    then filter (\<lambda>c. cred_account c \<notin> set (ln_reserved_accounts L)) allc else allc"
  obtain first rest where "?cs @ ln_credentials L = first # rest" using assms(2) by (cases "?cs @ ln_credentials L") auto
  then show ?thesis by (intro that [of ?cs first]) (simp add: run_job_def assms(1) all Let_def bind_out_def untried_def)
qed

lemma run_job_total:
  assumes "neighbours_respect E L" "lane_ok s" "holds L k job s" "ln_credentials L \<noteq> []"
  shows "(\<exists>e. run_job E L k job s = Inl e \<and> raises E e) \<or>
    (\<exists>st s'. run_job E L k job s = Inr (st, s') \<and> lane_ok s' \<and> lane_rows L (lw_db s') = {})"
proof -
  obtain now s1 where c: "read_clock E s = (now, s1)" by (cases "read_clock E s")
  note f = read_clock_frame [OF c assms(1)]
  obtain cs first where steps: "run_job E L k job s = bind_out (try_candidates E job cs (untried first now) s1) (\<lambda>(r, s2).
      bind_out (settle_job E job (worker_id L k) r s2) (\<lambda>(st, s3).
        Inr (\<lparr>lz_job = sj_id job, lz_task = sj_task job, lz_priority = sj_priority job,
               lz_pool = cred_pool (xa_credential r), lz_account = cred_account (xa_credential r),
               lz_accounts = length (xa_accounts r), lz_attempted = xa_credentials r, lz_status = st\<rparr>, s3)))"
    by (rule run_job_steps [OF c assms(4)])
  from try_total [OF assms(1) f(4) [OF assms(2)] f(5) [OF assms(3)], of cs "untried first now"] show ?thesis
  proof (elim disjE exE conjE)
    fix e
    assume "try_candidates E job cs (untried first now) s1 = Inl e" "raises E e"
    then show ?thesis unfolding steps by (simp add: bind_out_def)
  next
    fix r' s'
    assume t: "try_candidates E job cs (untried first now) s1 = Inr (r', s')" and s': "lane_ok s'" "holds L k job s'"
    from settle_total [OF assms(1) s', of r'] show ?thesis unfolding steps t by (auto simp: bind_out_def)
  qed
qed

lemma lane_loop_settles:
  assumes "neighbours_respect E L" "setup_ok L" "lane_ok s" "lane_rows L (lw_db s) = {}"
  shows "case lane_loop E L n out s of
      Inl e \<Rightarrow> raises E e
    | Inr r \<Rightarrow> lane_ok (snd r) \<and> lane_rows L (lw_db (snd r)) = {} \<and> length (fst r) \<le> length out + n"
  using assms(3,4)
proof (induction n arbitrary: out s)
  case (Suc n)
  obtain j s1 where nj: "next_job E L (length out) s = Inr (j, s1)" "lane_ok s1" "j = None \<Longrightarrow> lane_rows L (lw_db s1) = {}"
    "\<And>x. j = Some x \<Longrightarrow> holds L (length out) x s1 \<and> ln_credentials L \<noteq> []"
    by (rule next_job_total [OF assms(1,2) Suc.prems]) blast
  show ?case
  proof (cases j)
    case None
    with nj show ?thesis by (simp add: bind_out_def)
  next
    case (Some job)
    with nj(4) have h: "holds L (length out) job s1" "ln_credentials L \<noteq> []" by simp_all
    from run_job_total [OF assms(1) nj(2) h] show ?thesis
    proof (elim disjE exE conjE)
      fix e
      assume "run_job E L (length out) job s1 = Inl e" "raises E e"
      with nj(1) Some show ?thesis by (simp add: bind_out_def)
    next
      fix st s2
      assume r: "run_job E L (length out) job s1 = Inr (st, s2)" and s2: "lane_ok s2" "lane_rows L (lw_db s2) = {}"
      have "lane_loop E L (Suc n) out s = lane_loop E L n (out @ [st]) s2" using nj(1) Some r by (simp add: bind_out_def)
      with Suc.IH [OF s2, of "out @ [st]"] show ?thesis by (cases "lane_loop E L n (out @ [st]) s2") simp_all
    qed
  qed
qed simp

section \<open>Jobs that a lane has settled stay out of its round\<close>

text \<open>A job is out of the round of a cutoff when it is final or available after the cutoff only.\<close>

definition out_of_round :: "instant \<Rightarrow> job \<Rightarrow> bool" where
  "out_of_round c j \<longleftrightarrow> terminal_state (j_state j) \<or> c < j_available_at j"

definition stays_out :: "instant \<Rightarrow> scheduler_db \<Rightarrow> scheduler_db \<Rightarrow> bool" where
  "stays_out c db db' \<longleftrightarrow>
     j_id ` set (db_jobs db) \<subseteq> j_id ` set (db_jobs db') \<and>
     (\<forall>j \<in> set (db_jobs db'). out_of_round c j \<or> j_id j \<notin> j_id ` set (db_jobs db) \<or>
       (\<exists>i \<in> set (db_jobs db). j_id i = j_id j \<and> \<not> out_of_round c i))"

text \<open>
  The rest of the system brings no job back into the round; the lane reads its clock after the cutoff,
  and an execution asks for a retry after the cutoff.
\<close>

definition retries_later :: "runtime_env \<Rightarrow> instant \<Rightarrow> execution \<Rightarrow> bool" where
  "retries_later E c x \<longleftrightarrow>
     (case execute_job_safely (re_platform E) x of
        Inl _ \<Rightarrow> True
      | Inr st \<Rightarrow> (case re_fromisoformat E (py_str (re_platform E) (jget st ''next_retry_at'')) of None \<Rightarrow> True | Some t \<Rightarrow> c < t))"

definition round_respected :: "runtime_env \<Rightarrow> instant \<Rightarrow> bool" where
  "round_respected E c \<longleftrightarrow>
     (\<forall>n. c < re_clock E n) \<and> (\<forall>n db. stays_out c db (re_others E n db)) \<and>
     (\<forall>job cr t db. stays_out c db (snd (re_execute E job cr t db)) \<and> retries_later E c (fst (re_execute E job cr t db)))"

definition all_out :: "instant \<Rightarrow> string set \<Rightarrow> scheduler_db \<Rightarrow> bool" where
  "all_out c I db \<longleftrightarrow> I \<subseteq> j_id ` set (db_jobs db) \<and> (\<forall>j \<in> set (db_jobs db). j_id j \<in> I \<longrightarrow> out_of_round c j)"

lemma all_out_stays:
  assumes "stays_out c db db'" "all_out c I db"
  shows "all_out c I db'"
  unfolding all_out_def
proof (intro conjI ballI impI)
  show "I \<subseteq> j_id ` set (db_jobs db')" using assms unfolding stays_out_def all_out_def by (meson subset_trans)
  fix j
  assume j: "j \<in> set (db_jobs db')" "j_id j \<in> I"
  with assms(2) have "j_id j \<in> j_id ` set (db_jobs db)" by (auto simp: all_out_def)
  with assms(1) j(1) have "out_of_round c j \<or> (\<exists>i \<in> set (db_jobs db). j_id i = j_id j \<and> \<not> out_of_round c i)"
    by (auto simp: stays_out_def)
  with assms(2) j(2) show "out_of_round c j" by (auto simp: all_out_def)
qed

lemma all_out_jobs: "db_jobs db' = db_jobs db \<Longrightarrow> all_out c I db' = all_out c I db"
  by (simp add: all_out_def)

lemma stays_update:
  assumes "\<And>j. j_id (f j) = j_id j" "\<And>j. p j \<Longrightarrow> out_of_round c j \<Longrightarrow> out_of_round c (f j)"
  shows "stays_out c db (db\<lparr>db_jobs := sql_update p f (db_jobs db), db_overrides := ros\<rparr>)"
proof -
  have ids: "map j_id (sql_update p f (db_jobs db)) = map j_id (db_jobs db)" by (rule map_sql_update) (use assms(1) in simp)
  have "out_of_round c j \<or> (\<exists>i \<in> set (db_jobs db). j_id i = j_id j \<and> \<not> out_of_round c i)"
    if "j \<in> set (sql_update p f (db_jobs db))" for j
    using that
  proof (rule sql_updateE)
    fix r
    assume "r \<in> set (db_jobs db)" "p r" "j = f r"
    then show ?thesis using assms by metis
  next
    assume "j \<in> set (db_jobs db)"
    then show ?thesis by blast
  qed
  moreover have "j_id ` set (sql_update p f (db_jobs db)) = j_id ` set (db_jobs db)" using arg_cong [OF ids, of set] by simp
  ultimately show ?thesis by (simp add: stays_out_def)
qed

lemma stays_refl: "stays_out c db db"
  by (auto simp: stays_out_def)

lemma stays_trans:
  assumes "stays_out c a b" "stays_out c b d"
  shows "stays_out c a d"
  unfolding stays_out_def
proof (intro conjI ballI)
  show "j_id ` set (db_jobs a) \<subseteq> j_id ` set (db_jobs d)" using assms unfolding stays_out_def by (meson subset_trans)
  fix j
  assume j: "j \<in> set (db_jobs d)"
  show "out_of_round c j \<or> j_id j \<notin> j_id ` set (db_jobs a) \<or> (\<exists>i \<in> set (db_jobs a). j_id i = j_id j \<and> \<not> out_of_round c i)"
  proof (cases "out_of_round c j \<or> j_id j \<notin> j_id ` set (db_jobs a)")
    case False
    moreover have sub: "j_id ` set (db_jobs a) \<subseteq> j_id ` set (db_jobs b)" using assms(1) by (simp add: stays_out_def)
    ultimately have "j_id j \<in> j_id ` set (db_jobs b)" by blast
    with assms(2) j False obtain i where i: "i \<in> set (db_jobs b)" "j_id i = j_id j" "\<not> out_of_round c i"
      unfolding stays_out_def by blast
    with assms(1) False show ?thesis unfolding stays_out_def by (metis (no_types, lifting))
  qed blast
qed

lemma requeue_stays: "stays_out c db (db\<lparr>db_jobs := requeue_expired now (db_jobs db), db_overrides := ros\<rparr>)"
  unfolding requeue_expired_def by (rule stays_update) (auto simp: out_of_round_def terminal_state_def)

lemma claim_stays:
  assumes "claim_job a now db = Inr (r, db')" "queue_inv db"
  shows "stays_out c db db'"
  using assms(1)
proof (cases rule: claim_jobE)
  case nothing
  then show ?thesis by (simp add: stays_refl)
next
  case (locked q)
  have dist: "distinct (map j_id (db_jobs db))" using assms(2) by (simp add: queue_inv_def)
  from locked(3) dist show ?thesis
  proof (cases rule: claim_lockedE)
    case none
    then show ?thesis using requeue_stays [where c = c and db = db and now = "cq_now q" and ros = "db_overrides db"] by simp
  next
    case (claimed row)
    let ?m = "db\<lparr>db_jobs := requeue_expired (cq_now q) (db_jobs db)\<rparr>"
    let ?ros = "deactivate_overrides (j_id row) (db_overrides db)"
    have "stays_out c db ?m" using requeue_stays [where c = c and db = db and now = "cq_now q" and ros = "db_overrides db"] by simp
    moreover have "stays_out c ?m (?m\<lparr>db_jobs := lease_job (j_id row) (cl_worker a)
        (cq_now q + seconds (max 30 (cl_lease_seconds a))) (cq_now q) (db_jobs ?m), db_overrides := ?ros\<rparr>)"
      unfolding lease_job_alt
      by (rule stays_update) (auto simp: out_of_round_def leased_row_def queued_or_backing_off_def terminal_state_def)
    ultimately show ?thesis unfolding claimed(3) by (auto intro: stays_trans)
  qed
qed

text \<open>A claim takes only a job that is in the round and of a task that is not excluded.\<close>

lemma claim_in_round:
  assumes "claim_job a now db = Inr (Some sj, db')" "queue_inv db" "cl_queued_before a = Some c"
  shows "\<exists>j \<in> set (db_jobs db). j_id j = sj_id sj \<and> \<not> out_of_round c j"
    "task_name (sj_task sj) \<notin> set (cl_excluded a)"
    "cl_task_types a = Some ts \<Longrightarrow> task_name (sj_task sj) \<in> set ts"
proof -
  from assms(1,2) obtain q row where q: "claim_query_of a now = Inr (Some q)"
    and row: "select_claim q (db_overrides db) (requeue_expired now (db_jobs db)) = Some row"
    and sj: "sj = job_from_row (leased_row (cl_worker a) (now + seconds (max 30 (cl_lease_seconds a))) now row)"
    by (rule claim_Some_row) blast
  note D = select_claim_SomeD(1,2) [OF row] and R = claim_query_requested [OF q]
  from D(2) R(2) assms(3) have c: "queued_or_backing_off row" "j_task row \<in> set (cq_tasks q)" "j_available_at row \<le> c"
    by (simp_all add: claimable_def)
  have "\<exists>j \<in> set (db_jobs db). j_id j = j_id row \<and> j_available_at j = j_available_at row \<and>
      (terminal_state (j_state j) \<longrightarrow> j_state row = j_state j)"
    using D(1) unfolding requeue_expired_def by (rule sql_updateE) (auto simp: terminal_state_def)
  then obtain j where j: "j \<in> set (db_jobs db)" "j_id j = j_id row" "j_available_at j = j_available_at row"
    "terminal_state (j_state j) \<Longrightarrow> j_state row = j_state j" by blast
  have "\<not> out_of_round c j" using j(3,4) c(1,3) by (auto simp: out_of_round_def terminal_state_def queued_or_backing_off_def)
  with j(1,2) sj show "\<exists>j \<in> set (db_jobs db). j_id j = sj_id sj \<and> \<not> out_of_round c j" by (auto simp: job_from_row_def)
  show "task_name (sj_task sj) \<notin> set (cl_excluded a)" using R(4) c(2) sj by (simp add: job_from_row_def)
  show "task_name (sj_task sj) \<in> set ts" if "cl_task_types a = Some ts" using R(5) [OF c(2) that] sj by (simp add: job_from_row_def)
qed

section \<open>One offer to each job in a round\<close>

definition settles_row :: "instant \<Rightarrow> string \<Rightarrow> string \<Rightarrow> (instant \<Rightarrow> scheduler_db \<Rightarrow> scheduler_db outcome) \<Rightarrow> bool" where
  "settles_row c jid w transition \<longleftrightarrow>
     (\<forall>clock db db'. transition clock db = Inr db' \<longrightarrow>
        (\<exists>p f. db' = db\<lparr>db_jobs := sql_update p f (db_jobs db)\<rparr> \<and> (\<forall>j. j_id (f j) = j_id j \<and> out_of_round c (f j)) \<and>
          (\<forall>j. owns_lease jid w j \<and> 1 \<le> j_attempt_count j \<longrightarrow> p j)))"

lemma transition_settles:
  assumes "terminal_state st \<or> c < av" "\<And>clock db. transition clock db = transition_leased_job jid w st av err co clock db"
  shows "settles_row c jid w transition"
  unfolding settles_row_def assms(2)
proof (intro allI impI)
  fix clock db db'
  assume "transition_leased_job jid w st av err co clock db = Inr db'"
  then have "db' = db\<lparr>db_jobs := sql_update (owns_lease jid w) (moved_row st av err co clock) (db_jobs db)\<rparr>" by (rule transitionE)
  with assms(1) show "\<exists>p f. db' = db\<lparr>db_jobs := sql_update p f (db_jobs db)\<rparr> \<and> (\<forall>j. j_id (f j) = j_id j \<and> out_of_round c (f j)) \<and>
      (\<forall>j. owns_lease jid w j \<and> 1 \<le> j_attempt_count j \<longrightarrow> p j)"
    by (intro exI [of _ "owns_lease jid w"] exI [of _ "moved_row st av err co clock"]) (auto simp: moved_row_def out_of_round_def)
qed

lemma defer_settles:
  assumes "c < av"
  shows "settles_row c jid w (defer_job_for_maintenance jid w av reason)"
  unfolding settles_row_def
proof (intro allI impI)
  fix clock db db'
  let ?hit = "\<lambda>j. owns_lease jid w j \<and> 0 < j_attempt_count j"
  assume "defer_job_for_maintenance jid w av reason clock db = Inr db'"
  then have "db' = db\<lparr>db_jobs := sql_update ?hit (deferred_row av reason clock) (db_jobs db)\<rparr>" by (rule deferE)
  with assms show "\<exists>p f. db' = db\<lparr>db_jobs := sql_update p f (db_jobs db)\<rparr> \<and> (\<forall>j. j_id (f j) = j_id j \<and> out_of_round c (f j)) \<and>
      (\<forall>j. owns_lease jid w j \<and> 1 \<le> j_attempt_count j \<longrightarrow> p j)"
    by (intro exI [of _ ?hit] exI [of _ "deferred_row av reason clock"]) (auto simp: deferred_row_def out_of_round_def)
qed

lemma read_clock_out:
  assumes "read_clock E s = (now, s1)" "round_respected E c" "all_out c I (lw_db s)"
  shows "c < now" "all_out c I (lw_db s1)"
proof -
  have s1: "now = re_clock E (lw_tick s)" "lw_db s1 = re_others E (lw_tick s) (lw_db s)" using assms(1) by (auto simp: read_clock_def)
  with assms(2) show "c < now" by (simp add: round_respected_def)
  have "stays_out c (lw_db s) (lw_db s1)" using assms(2) s1(2) by (simp add: round_respected_def)
  then show "all_out c I (lw_db s1)" by (rule all_out_stays) (rule assms(3))
qed

lemma finish_out:
  assumes "finish E transition s = Inr s'" "settles_row c (sj_id job) (worker_id L k) transition"
    "neighbours_respect E L" "round_respected E c" "lane_ok s" "holds L k job s" "all_out c I (lw_db s)"
  shows "all_out c (insert (sj_id job) I) (lw_db s') \<and> lw_blocked s' = lw_blocked s"
proof -
  from assms(1) obtain clock s1 db where c: "read_clock E s = (clock, s1)" and t: "transition clock (lw_db s1) = Inr db"
    and s': "s' = s1\<lparr>lw_db := db\<rparr>"
    by (auto simp: finish_def bind_out_Inr_iff split: prod.splits)
  note f = read_clock_frame [OF c assms(3)]
  from assms(2) t obtain p g where db: "db = (lw_db s1)\<lparr>db_jobs := sql_update p g (db_jobs (lw_db s1))\<rparr>"
    and g: "\<And>j. j_id (g j) = j_id j \<and> out_of_round c (g j)"
    and p: "\<And>j. owns_lease (sj_id job) (worker_id L k) j \<Longrightarrow> 1 \<le> j_attempt_count j \<Longrightarrow> p j"
    unfolding settles_row_def by blast
  have "stays_out c (lw_db s1) ((lw_db s1)\<lparr>db_jobs := sql_update p g (db_jobs (lw_db s1)), db_overrides := db_overrides (lw_db s1)\<rparr>)"
    by (rule stays_update) (use g in simp_all)
  then have "stays_out c (lw_db s1) db" by (simp add: db)
  from all_out_stays [OF this read_clock_out(2) [OF c assms(4,7)]] have old: "all_out c I db" .
  from holds_row [OF f(5) [OF assms(6)] f(4) [OF assms(5)]] obtain row where row: "row \<in> set (db_jobs (lw_db s1))"
    "owns_lease (sj_id job) (worker_id L k) row" "1 \<le> j_attempt_count row" "distinct (map j_id (db_jobs (lw_db s1)))" by blast
  have id: "j_id row = sj_id job" using row(2) by (simp add: owns_lease_def)
  have "g row \<in> set (db_jobs db)" unfolding db using sql_update_memI(1) [where p = p and f = g, OF row(1) p [OF row(2,3)]] by simp
  then have mem: "sj_id job \<in> j_id ` set (db_jobs db)" using g [of row] id by (metis imageI)
  have "out_of_round c j" if j: "j \<in> set (db_jobs db)" "j_id j = sj_id job" for j
  proof -
    from j(1) have "j \<in> set (sql_update p g (db_jobs (lw_db s1)))" by (simp add: db)
    then show ?thesis
    proof (rule sql_updateE)
      fix r
      assume "j = g r"
      with g show ?thesis by simp
    next
      assume k: "j \<in> set (db_jobs (lw_db s1))" "\<not> p j"
      have "inj_on j_id (set (db_jobs (lw_db s1)))" using row(4) by (simp add: distinct_map)
      with row(1) k(1) j(2) id have "j = row" by (metis inj_onD)
      with k(2) p [OF row(2,3)] show ?thesis by simp
    qed
  qed
  with old mem have "all_out c (insert (sj_id job) I) db" by (auto simp: all_out_def)
  with s' f(2) show ?thesis by simp
qed

definition late :: "runtime_env \<Rightarrow> instant \<Rightarrow> attempts \<Rightarrow> bool" where
  "late E c r \<longleftrightarrow> c < xa_at r \<and> c < next_retry E (xa_status r) (xa_at r)"

lemma verdict_late:
  assumes "late E c r"
  shows "settlement_of E job r = GiveBack av err b \<Longrightarrow> c < av" "settlement_of E job r = Postpone av reason \<Longrightarrow> c < av"
proof -
  have d: "0 < evidence_delay n" for n
  proof -
    have "nat (min (max (n - 1) 0) 3) \<in> {0, 1, 2, 3}" by auto
    then show ?thesis unfolding evidence_delay_def by auto
  qed
  show "c < av" if "settlement_of E job r = GiveBack av err b"
    using that assms d [of "sj_attempt_count job"] by (auto simp: settlement_of_def Let_def late_def split: if_splits)
  show "c < av" if "settlement_of E job r = Postpone av reason"
    using that assms by (auto simp: settlement_of_def Let_def late_def split: if_splits)
qed

lemma postponed_verdict:
  assumes "maintenance_deferred st" "jget st ''status'' = JStr ''DEFERRED''"
    "xa_status r = st"
  shows "\<exists>av reason. settlement_of E job r = Postpone av reason"
  using assms by (simp add: settlement_of_def Let_def first_text_def truthy_def py_str_def)

lemma jget_update_other: "k \<noteq> k' \<Longrightarrow> jget (AList.update k v st) k' = jget st k'"
  by (simp add: jget_def update_conv')

lemma settle_out:
  assumes "settle_job E job (worker_id L k) r s = Inr (st, s')" "late E c r"
    "neighbours_respect E L" "round_respected E c" "lane_ok s" "holds L k job s" "all_out c I (lw_db s)"
  shows "all_out c (insert (sj_id job) I) (lw_db s') \<and> set (lw_blocked s) \<subseteq> set (lw_blocked s') \<and>
    (maintenance_deferred st \<and> jget st ''status'' = JStr ''DEFERRED'' \<longrightarrow> task_name (sj_task job) \<in> set (lw_blocked s'))"
proof (cases "settlement_of E job r")
  case Finish
  with assms(1) obtain now s1 where c: "read_clock E s = (now, s1)"
    and f: "finish E (complete_job (sj_id job) (worker_id L k) now) s1 = Inr s'" "st = xa_status r"
    by (auto simp: settle_job_def Let_def bind_out_Inr_iff split: prod.splits)
  note g = read_clock_frame [OF c assms(3)]
  have "settles_row c (sj_id job) (worker_id L k) (complete_job (sj_id job) (worker_id L k) now)"
    by (rule transition_settles [of COMPLETED]) (simp_all add: terminal_state_def complete_job_def)
  note out = finish_out [OF f(1) this assms(3,4) g(4) [OF assms(5)] g(5) [OF assms(6)] read_clock_out(2) [OF c assms(4,7)]]
  have "\<not> (maintenance_deferred st \<and> jget st ''status'' = JStr ''DEFERRED'')"
    using postponed_verdict [OF _ _ f(2) [symmetric], of E job] Finish by auto
  with out g(2) show ?thesis by auto
next
  case (Bury av err)
  with assms(1) have f: "finish E (backoff_job (sj_id job) (worker_id L k) av err True) s = Inr s'" "st = xa_status r"
    by (auto simp: settle_job_def Let_def bind_out_Inr_iff)
  have "settles_row c (sj_id job) (worker_id L k) (backoff_job (sj_id job) (worker_id L k) av err True)"
    by (rule transition_settles [of DEAD_LETTER]) (simp_all add: terminal_state_def backoff_job_def)
  note out = finish_out [OF f(1) this assms(3-7)]
  have "\<not> (maintenance_deferred st \<and> jget st ''status'' = JStr ''DEFERRED'')"
    using postponed_verdict [OF _ _ f(2) [symmetric], of E job] Bury by auto
  with out show ?thesis by auto
next
  case (GiveBack av err block)
  with assms(1) obtain s1 where f: "finish E (release_job (sj_id job) (worker_id L k) av (Some err)) s = Inr s1"
    "s' = (if block then block_task (sj_task job) s1 else s1)" "st = xa_status r"
    by (auto simp: settle_job_def Let_def bind_out_Inr_iff)
  have "settles_row c (sj_id job) (worker_id L k) (release_job (sj_id job) (worker_id L k) av (Some err))"
    by (rule transition_settles [of QUEUED]) (use verdict_late(1) [OF assms(2) GiveBack] in \<open>simp_all add: release_job_def\<close>)
  note out = finish_out [OF f(1) this assms(3-7)]
  have "\<not> (maintenance_deferred st \<and> jget st ''status'' = JStr ''DEFERRED'')"
    using postponed_verdict [OF _ _ f(3) [symmetric], of E job] GiveBack by auto
  with out f(2) show ?thesis by (cases block) auto
next
  case (Postpone av reason)
  with assms(1) obtain db s1 where
    db: "record_scheduler_deferral (re_platform E) job (xa_credential r) (xa_status r) (xa_at r) (lw_db s) = Inr db"
    and f: "finish E (defer_job_for_maintenance (sj_id job) (worker_id L k) av reason) (s\<lparr>lw_db := db\<rparr>) = Inr s1"
      "s' = block_task (sj_task job) s1"
    by (auto simp: settle_job_def Let_def bind_out_Inr_iff)
  note frame = record_deferral_frame [OF db]
  let ?s = "s\<lparr>lw_db := db\<rparr>"
  have "lane_ok ?s" using assms(5) queue_inv_jobs [OF frame] by (simp add: lane_ok_def)
  moreover have "holds L k job ?s" using holds_jobs [OF _ assms(6), of ?s] frame by simp
  moreover have "all_out c I (lw_db ?s)" using assms(7) all_out_jobs [of db "lw_db s"] frame by simp
  ultimately have "all_out c (insert (sj_id job) I) (lw_db s1) \<and> lw_blocked s1 = lw_blocked ?s"
    by (rule finish_out [OF f(1) defer_settles [OF verdict_late(2) [OF assms(2) Postpone]] assms(3,4)])
  with f(2) show ?thesis by auto
next
  case (RetryNow err)
  with assms(1) obtain now s1 where c: "read_clock E s = (now, s1)"
    and f: "finish E (release_job (sj_id job) (worker_id L k) now (Some err)) s1 = Inr s'"
      "st = AList.update ''next_retry_at'' (JStr (iso_text (re_platform E) now)) (AList.update ''retry_state'' (JStr ''QUEUED'') (xa_status r))"
    by (auto simp: settle_job_def Let_def bind_out_Inr_iff split: prod.splits)
  note g = read_clock_frame [OF c assms(3)]
  have "settles_row c (sj_id job) (worker_id L k) (release_job (sj_id job) (worker_id L k) now (Some err))"
    by (rule transition_settles [of QUEUED]) (use read_clock_out(1) [OF c assms(4,7)] in \<open>simp_all add: release_job_def\<close>)
  note out = finish_out [OF f(1) this assms(3,4) g(4) [OF assms(5)] g(5) [OF assms(6)] read_clock_out(2) [OF c assms(4,7)]]
  have "maintenance_deferred st = maintenance_deferred (xa_status r)" "jget st ''status'' = jget (xa_status r) ''status''"
    by (simp_all add: f(2) maintenance_deferred_def jget_update_other)
  then have "\<not> (maintenance_deferred st \<and> jget st ''status'' = JStr ''DEFERRED'')"
    using postponed_verdict [OF _ _ refl, of r E job] RetryNow by auto
  with out g(2) show ?thesis by auto
qed

lemma failure_code_keeps_retry [simp]: "next_retry E (with_scheduler_failure_code st) t = next_retry E st t"
  by (simp add: next_retry_def with_scheduler_failure_code_def jget_update_other)

lemma retries_late:
  assumes "retries_later E c x" "execute_job_safely (re_platform E) x = Inr st" "c < t"
  shows "c < next_retry E st t"
  using assms by (auto simp: retries_later_def next_retry_def Let_def split: option.splits)

lemma try_out:
  assumes "try_candidates E job cs r s = Inr (r', s')" "round_respected E c" "late E c r" "all_out c I (lw_db s)"
  shows "late E c r' \<and> all_out c I (lw_db s')"
  using assms(1,3,4)
proof (induction cs arbitrary: r s)
  case (Cons x cs)
  show ?case
  proof (cases "cred_account x \<in> set (xa_blocked r)")
    case True
    with Cons show ?thesis by simp
  next
    case False
    obtain now s1 where c: "read_clock E s = (now, s1)" by (cases "read_clock E s")
    obtain y db1 where y: "re_execute E job x now (lw_db s1) = (y, db1)" by (cases "re_execute E job x now (lw_db s1)")
    note rc = read_clock_out [OF c assms(2) Cons.prems(3)]
    have ex: "stays_out c (lw_db s1) db1" "retries_later E c y"
      using assms(2) y unfolding round_respected_def by (metis snd_conv) (metis assms(2) fst_conv round_respected_def y)
    from all_out_stays [OF ex(1) rc(2)] have o1: "all_out c I db1" .
    obtain raw where raw: "execute_job_safely (re_platform E) y = Inr raw"
      using Cons.prems(1) False c y by (cases "execute_job_safely (re_platform E) y") (simp_all add: bind_out_def)
    let ?st = "with_scheduler_failure_code raw"
    obtain db2 where db2: "(if maintenance_deferred ?st then Inr db1
        else record_job_attempt (re_platform E) job x ?st now db1) = Inr db2"
      using Cons.prems(1) False c y raw by (auto simp: bind_out_Inr_iff Let_def)
    have j2: "db_jobs db2 = db_jobs db1" using db2 record_attempt_frame by (auto split: if_splits)
    have o2: "all_out c I (lw_db (s1\<lparr>lw_db := db2\<rparr>))" using o1 all_out_jobs [OF j2] by simp
    have l: "c < now" "c < next_retry E ?st now" using rc(1) retries_late [OF ex(2) raw rc(1)] by simp_all
    show ?thesis
    proof (cases "may_try_another_credential ?st")
      case True
      then obtain r1 where r1: "try_candidates E job cs r1 (s1\<lparr>lw_db := db2\<rparr>) = Inr (r', s')"
        "xa_at r1 = now" "xa_status r1 = ?st"
        using Cons.prems(1) False c y raw db2 by (auto simp: bind_out_def Let_def split: if_splits)
      from Cons.IH [OF r1(1) _ o2] l r1(2,3) show ?thesis by (simp add: late_def)
    next
      case stop: False
      then have "s' = s1\<lparr>lw_db := db2\<rparr>" "xa_at r' = now" "xa_status r' = ?st"
        using Cons.prems(1) False c y raw db2 by (auto simp: bind_out_def Let_def)
      with l o2 show ?thesis by (simp add: late_def)
    qed
  qed
qed simp

lemma next_job_out:
  assumes "next_job E L k s = Inr (Some j, s1)" "neighbours_respect E L" "round_respected E (ln_queued_before L)" "lane_ok s"
    "lane_rows L (lw_db s) = {}" "all_out (ln_queued_before L) I (lw_db s)"
  shows "sj_id j \<notin> I \<and> all_out (ln_queued_before L) I (lw_db s1) \<and> task_name (sj_task j) \<notin> set (lw_blocked s)"
proof -
  let ?c = "ln_queued_before L"
  have claim: "all_out ?c I (lw_db x1) \<and> lane_ok x1 \<and> lw_blocked x1 = lw_blocked x \<and>
      (\<forall>sj. r = Some sj \<longrightarrow> sj_id sj \<notin> I \<and> task_name (sj_task sj) \<notin> set excluded \<and>
        (\<forall>ts. tasks = Some ts \<longrightarrow> task_name (sj_task sj) \<in> set ts))"
    if r: "claim_in_lane E L k pool tasks excluded x = Inr (r, x1)" and x: "lane_ok x" "all_out ?c I (lw_db x)"
    for pool tasks excluded x r x1
  proof -
    obtain now s1 where c: "read_clock E x = (now, s1)" by (cases "read_clock E x")
    note f = read_clock_frame [OF c assms(2)]
    have inv: "queue_inv (lw_db s1)" using f(4) [OF x(1)] by (simp add: lane_ok_def)
    let ?a = "\<lparr>cl_worker = worker_id L k, cl_pool = pool, cl_task_types = tasks, cl_excluded = excluded,
      cl_lanes = map lane_name WORK_LANES, cl_lease_seconds = 180, cl_queued_before = Some ?c\<rparr>"
    from r c obtain db where db: "claim_job ?a now (lw_db s1) = Inr (r, db)" "x1 = s1\<lparr>lw_db := db\<rparr>"
      by (auto simp: claim_in_lane_def bind_out_Inr_iff)
    note o = read_clock_out(2) [OF c assms(3) x(2)]
    have "all_out ?c I db" by (rule all_out_stays [OF claim_stays [OF db(1) inv] o])
    moreover have "lane_ok x1" using claim_job_inv [OF db(1) inv] f(4) [OF x(1)] db(2) by (simp add: lane_ok_def)
    moreover have "sj_id sj \<notin> I \<and> task_name (sj_task sj) \<notin> set excluded \<and>
        (\<forall>ts. tasks = Some ts \<longrightarrow> task_name (sj_task sj) \<in> set ts)" if "r = Some sj" for sj
    proof -
      note in_round = claim_in_round [OF db(1) [unfolded that] inv, of ?c]
      from in_round(1) o have "sj_id sj \<notin> I" by (auto simp: all_out_def)
      with in_round(2,3) show ?thesis by simp
    qed
    ultimately show ?thesis using db(2) f(2) by simp
  qed
  show ?thesis
  proof (cases "list_ex (\<lambda>c. cred_pool c = ROUTINE_POOL) (ln_credentials L)")
    case routine: True
    show ?thesis
    proof (cases "impact_turn L k s")
      case True
      obtain r x where r: "claim_in_lane E L k ROUTINE_POOL (Some [''ACTIVE_IMPACT'']) [] s = Inr (r, x)"
        using assms(1) routine True by (auto simp: next_job_def bind_out_Inr_iff)
      note first = claim [OF r assms(4,6)]
      show ?thesis
      proof (cases r)
        case None
        with assms(1) routine True r have "claim_in_lane E L k ROUTINE_POOL (ln_tasks L) (lw_blocked x) x = Inr (Some j, s1)"
          by (simp add: next_job_def bind_out_def)
        from claim [OF this] first show ?thesis by simp
      next
        case (Some sj)
        with assms(1) routine True r have "sj = j" "x = s1" by (simp_all add: next_job_def bind_out_def)
        with first Some True show ?thesis by (simp add: impact_turn_def)
      qed
    next
      case False
      with assms(1) routine have "claim_in_lane E L k ROUTINE_POOL (ln_tasks L) (lw_blocked s) s = Inr (Some j, s1)"
        by (simp add: next_job_def bind_out_def)
      from claim [OF this assms(4,6)] show ?thesis by simp
    qed
  next
    case False
    with assms(1) have "claim_in_lane E L k PREEMPTIBLE_POOL (ln_tasks L) (lw_blocked s) s = Inr (Some j, s1)"
      by (simp add: next_job_def split: if_splits)
    from claim [OF this assms(4,6)] show ?thesis by simp
  qed
qed

text \<open>What the statuses of a lane say: no job twice, and nothing of a task that was postponed.\<close>

definition postponed :: "lane_status \<Rightarrow> bool" where
  "postponed z \<longleftrightarrow> maintenance_deferred (lz_status z) \<and> jget (lz_status z) ''status'' = JStr ''DEFERRED''"

lemma run_job_out:
  assumes "run_job E L k job s = Inr (z, s')" "neighbours_respect E L" "round_respected E c" "lane_ok s" "holds L k job s"
    "all_out c I (lw_db s)" "ln_credentials L \<noteq> []"
  shows "lz_job z = sj_id job \<and> lz_task z = sj_task job \<and> lane_ok s' \<and> lane_rows L (lw_db s') = {} \<and>
    all_out c (insert (sj_id job) I) (lw_db s') \<and> set (lw_blocked s) \<subseteq> set (lw_blocked s') \<and>
    (postponed z \<longrightarrow> task_name (lz_task z) \<in> set (lw_blocked s'))"
proof -
  obtain now s1 where c: "read_clock E s = (now, s1)" by (cases "read_clock E s")
  note f = read_clock_frame [OF c assms(2)]
  note ok1 = f(4) [OF assms(4)] and h1 = f(5) [OF assms(5)] and o1 = read_clock_out [OF c assms(3,6)]
  obtain cs first where steps: "run_job E L k job s = bind_out (try_candidates E job cs (untried first now) s1) (\<lambda>(r, s2).
      bind_out (settle_job E job (worker_id L k) r s2) (\<lambda>(st, s3).
        Inr (\<lparr>lz_job = sj_id job, lz_task = sj_task job, lz_priority = sj_priority job,
               lz_pool = cred_pool (xa_credential r), lz_account = cred_account (xa_credential r),
               lz_accounts = length (xa_accounts r), lz_attempted = xa_credentials r, lz_status = st\<rparr>, s3)))"
    by (rule run_job_steps [OF c assms(7)])
  from assms(1) obtain r s2 st where t: "try_candidates E job cs (untried first now) s1 = Inr (r, s2)"
    and st: "settle_job E job (worker_id L k) r s2 = Inr (st, s')"
    and z: "lz_job z = sj_id job" "lz_task z = sj_task job" "lz_status z = st"
    unfolding steps by (auto simp: bind_out_Inr_iff)
  have late0: "late E c (untried first now)"
    using o1(1) by (simp add: late_def next_retry_def no_capacity_def jget_def truthy_def untried_def)
  note tr = try_out [OF t assms(3) late0 o1(2)]
  from try_total [OF assms(2) ok1 h1, of cs "untried first now"] t have s2: "lane_ok s2" "holds L k job s2" "lw_blocked s2 = lw_blocked s1"
    by (metis (no_types, lifting) Inl_Inr_False Inr_inject prod.inject)+
  from settle_out [OF st conjunct1 [OF tr] assms(2,3) s2(1,2) conjunct2 [OF tr]] have so: "all_out c (insert (sj_id job) I) (lw_db s') \<and>
      set (lw_blocked s2) \<subseteq> set (lw_blocked s') \<and>
      (maintenance_deferred st \<and> jget st ''status'' = JStr ''DEFERRED'' \<longrightarrow> task_name (sj_task job) \<in> set (lw_blocked s'))" by simp
  have "lane_ok s' \<and> lane_rows L (lw_db s') = {}" using settle_total [OF assms(2) s2(1,2), of r] st by auto
  with so s2(3) f(2) z show ?thesis by (simp add: postponed_def)
qed

lemma lane_loop_out:
  assumes "lane_loop E L n out s = Inr (out', s')" "neighbours_respect E L" "setup_ok L" "round_respected E (ln_queued_before L)"
    "lane_ok s" "lane_rows L (lw_db s) = {}" "all_out (ln_queued_before L) (set (map lz_job out)) (lw_db s)"
    "distinct (map lz_job out)" "sorted_wrt (\<lambda>y z. postponed y \<longrightarrow> lz_task z \<noteq> lz_task y) out"
    "\<forall>z \<in> set out. postponed z \<longrightarrow> task_name (lz_task z) \<in> set (lw_blocked s)"
  shows "distinct (map lz_job out') \<and> sorted_wrt (\<lambda>y z. postponed y \<longrightarrow> lz_task z \<noteq> lz_task y) out'"
  using assms(1,5-10)
proof (induction n arbitrary: out s)
  case (Suc n)
  obtain r s1 where nj: "next_job E L (length out) s = Inr (r, s1)" "lane_ok s1" "lw_blocked s1 = lw_blocked s"
    "\<And>x. r = Some x \<Longrightarrow> holds L (length out) x s1 \<and> ln_credentials L \<noteq> []"
    by (rule next_job_total [OF assms(2,3) Suc.prems(2,3)]) blast
  show ?case
  proof (cases r)
    case None
    with nj(1) Suc.prems show ?thesis by (simp add: bind_out_def)
  next
    case (Some job)
    with nj(4) have h: "holds L (length out) job s1" "ln_credentials L \<noteq> []" by simp_all
    note no = next_job_out [OF nj(1) [unfolded Some] assms(2,4) Suc.prems(2-4)]
    from Suc.prems(1) nj(1) Some obtain z s2 where z: "run_job E L (length out) job s1 = Inr (z, s2)"
      and rest: "lane_loop E L n (out @ [z]) s2 = Inr (out', s')" by (auto simp: bind_out_Inr_iff)
    note ro = run_job_out [OF z assms(2,4) nj(2) h(1) _ h(2)]
    from no have "all_out (ln_queued_before L) (set (map lz_job out)) (lw_db s1)" by simp
    note ro = ro [OF this]
    have "lz_task z \<noteq> lz_task y" if "y \<in> set out" "postponed y" for y
      using Suc.prems(7) no ro that by auto
    then show ?thesis
      using ro no Suc.prems(5-7) nj(3) by (intro Suc.IH [OF rest]) (auto simp: sorted_wrt_append)
  qed
qed simp

section \<open>Properties\<close>

text \<open>
  C6: a lane settles every job it claims: whatever its executions answer and whatever the rest of the
  system does in between, as long as it leaves the leases of the lane alone, the lane ends after at most
  its share of jobs, holds no lease when it returns, keeps the queue well formed, and can only fail with an
  error of the database that an execution raised: never for a lease it does not own, a model without a
  quota or an attempt it cannot record.
\<close>

theorem lane_settles_every_claim:
  assumes "neighbours_respect E L" "setup_ok L" "lane_ok s" "lane_rows L (lw_db s) = {}"
  shows "case run_scheduled_lane E L s of
      Inl e \<Rightarrow> \<exists>job c t db. fst (re_execute E job c t db) = DatabaseFailure e
    | Inr r \<Rightarrow> queue_inv (lw_db (snd r)) \<and> lane_rows L (lw_db (snd r)) = {} \<and> length (fst r) \<le> ln_maximum L"
  using lane_loop_settles [OF assms, where n = "ln_maximum L" and out = "[]"]
  by (cases "run_scheduled_lane E L s") (simp_all add: run_scheduled_lane_def raises_def lane_ok_def)

text \<open>
  C7: a round offers each job once: when the lane reads its clock after the cutoff of the round and
  neither an execution nor the rest of the system asks for a retry before it, no job has two statuses, and
  once a job was postponed for maintenance no later job of the lane has its task type.
\<close>

theorem round_offers_each_job_once:
  assumes "run_scheduled_lane E L s = Inr (out, s')" "neighbours_respect E L" "setup_ok L"
    "round_respected E (ln_queued_before L)" "lane_ok s" "lane_rows L (lw_db s) = {}"
  shows "distinct (map lz_job out) \<and>
    (\<forall>i k. i < k \<and> k < length out \<and> postponed (out ! i) \<longrightarrow> lz_task (out ! k) \<noteq> lz_task (out ! i))"
proof -
  have "distinct (map lz_job out) \<and> sorted_wrt (\<lambda>y z. postponed y \<longrightarrow> lz_task z \<noteq> lz_task y) out"
    by (rule lane_loop_out [OF assms(1) [unfolded run_scheduled_lane_def] assms(2-6)]) (simp_all add: all_out_def)
  then show ?thesis by (auto simp: sorted_wrt_iff_nth_less)
qed

lemma sum_shares: "sum_list (map (\<lambda>i. q + (if i < r then 1 else 0)) [0..<n]) = n * q + min r (n :: nat)"
  by (induction n) auto

text \<open>
  A batch is divided without loss: the shares of the lanes add up to the batch, no two differ by more
  than one job, and the order of the lanes decides who gets the rest.
\<close>

lemma batch_is_divided:
  assumes "0 < lanes"
  shows "sum_list (lane_allocations maximum lanes) = maximum"
    "\<forall>a \<in> set (lane_allocations maximum lanes). a = maximum div lanes \<or> a = maximum div lanes + 1"
proof -
  have "maximum mod lanes < lanes" using assms by simp
  then show "sum_list (lane_allocations maximum lanes) = maximum"
    by (simp add: lane_allocations_def sum_shares min_def)
  show "\<forall>a \<in> set (lane_allocations maximum lanes). a = maximum div lanes \<or> a = maximum div lanes + 1"
    by (auto simp: lane_allocations_def)
qed

section \<open>A sample lane\<close>

text \<open>An execution that succeeds at once, in a system where nothing else runs.\<close>

definition sample_runtime :: runtime_env where
  "sample_runtime = \<lparr>re_platform = sample_platform, re_execute = (\<lambda>job c t db. (Returned [(''status'', JStr ''OK'')], db)),
     re_clock = (\<lambda>n. seconds 10 + int n), re_others = (\<lambda>n db. db), re_fromisoformat = (\<lambda>_. None)\<rparr>"

definition sample_lane :: lane_setup where
  "sample_lane = \<lparr>ln_credentials = [sample_credential], ln_maximum = 2, ln_queued_before = seconds 5, ln_prefix = ''host'',
     ln_tasks = None, ln_reserved_accounts = [], ln_preferred_account = None\<rparr>"

definition sample_lane_state :: lane_state where
  "sample_lane_state = \<lparr>lw_db = sample_db, lw_tick = 0, lw_blocked = []\<rparr>"

lemma sample_lane_facts:
  "neighbours_respect sample_runtime L" "setup_ok sample_lane" "lane_ok sample_lane_state"
  "lane_rows sample_lane (lw_db sample_lane_state) = {}"
  using sample_inv(1)
  by (simp_all add: sample_runtime_def neighbours_respect_def respects_lane_def setup_ok_def sample_lane_def lane_ok_def
      sample_lane_state_def lane_rows_def sample_db_def empty_db_def sample_job_def)

lemma sample_round: "round_respected sample_runtime (ln_queued_before sample_lane)"
  by (simp add: round_respected_def sample_runtime_def sample_lane_def stays_refl retries_later_def)

definition sample_lane_run :: "lane_status list \<times> lane_state" where
  "sample_lane_run = projr (run_scheduled_lane sample_runtime sample_lane sample_lane_state)"

lemma sample_lane_runs: "run_scheduled_lane sample_runtime sample_lane sample_lane_state = Inr (fst sample_lane_run, snd sample_lane_run)"
  using lane_loop_settles [OF sample_lane_facts, where n = "ln_maximum sample_lane" and out = "[]"]
  by (cases "run_scheduled_lane sample_runtime sample_lane sample_lane_state")
    (simp_all add: sample_lane_run_def run_scheduled_lane_def raises_def, simp add: sample_runtime_def)

theorem lane_settles_every_claim_witness:
  "length (fst sample_lane_run) \<le> 2 \<and> queue_inv (lw_db (snd sample_lane_run)) \<and>
   map j_state (db_jobs (lw_db (snd sample_lane_run))) = [COMPLETED]"
proof -
  have "map j_state (db_jobs (lw_db (snd sample_lane_run))) = [COMPLETED]" by code_simp
  with lane_settles_every_claim [OF sample_lane_facts] show ?thesis by (simp add: sample_lane_runs, simp add: sample_lane_def)
qed

theorem round_offers_each_job_once_witness:
  "map lz_job (fst sample_lane_run) = [''job-1''] \<and> distinct (map lz_job (fst sample_lane_run))"
proof -
  have "map lz_job (fst sample_lane_run) = [''job-1'']" by code_simp
  with round_offers_each_job_once [OF sample_lane_runs sample_lane_facts(1,2) sample_round sample_lane_facts(3,4)]
  show ?thesis by blast
qed

end
