(* ===== verification/Model_Gateway.thy ===== *)
theory Model_Gateway
  imports Request_Outcome
begin

text \<open>
  The metered boundary in front of the Google models, \<^verbatim>\<open>xauusd_news/ai/model_gateway.py\<close>: a
  request is reserved with an accountant, marked, sent, decoded and its outcome recorded; the
  next API key is tried when a key has no slot or the provider fails in a retryable way.

  The accountant is a record of operations over a state of its own, as the abstract class
  \<^verbatim>\<open>ModelRequestAccountant\<close> is; what a client of it relies on is stated by two locales. The answer
  of the provider to each attempt and the clock readings of that attempt are a \<open>turn\<close>. The
  requests that leave the process are the second component of every result. The Ollama transport is
  not modelled, nor is the text of the provider body that \<open>_http_failure_evidence\<close> reads for an HTTP error: it
  changes no outcome while the reading ends in a value or in one of the errors that the function catches.
\<close>

section \<open>Requests and provider answers\<close>

definition LOCAL_TOKEN_ESTIMATOR_VERSION :: string where
  "LOCAL_TOKEN_ESTIMATOR_VERSION = ''multilingual-conservative-v1''"

record model_request_usage =
  mr_model :: string
  mr_purpose :: string
  mr_tokens :: int
  mr_contract :: string
  mr_estimator :: string

type_synonym envelope = "(string \<times> json) list"

definition bounded_count :: "json \<Rightarrow> int option" where
  "bounded_count v =
     (case int_of_json v of Some n \<Rightarrow> if 0 \<le> n \<and> n \<le> 100000000 then Some n else None | None \<Rightarrow> None)"

definition sanitized_usage_metadata :: "envelope \<Rightarrow> usage_metadata option" where
  "sanitized_usage_metadata env =
     (case jget env ''usageMetadata'' of
        JObj raw \<Rightarrow>
          (let m = \<lparr>um_prompt = bounded_count (jget raw ''promptTokenCount''),
                    um_candidates = bounded_count (jget raw ''candidatesTokenCount''),
                    um_total = bounded_count (jget raw ''totalTokenCount'')\<rparr>
           in if m = no_metadata then None else Some m)
      | _ \<Rightarrow> None)"

definition sanitized_model_version :: "envelope \<Rightarrow> string option" where
  "sanitized_model_version env =
     (case jget env ''modelVersion'' of
        JStr v \<Rightarrow> if strip v = [] then None else Some (take 200 (strip v))
      | _ \<Rightarrow> None)"

text \<open>
  What \<open>int\<close> and \<open>parsedate_to_datetime\<close> make of a \<^verbatim>\<open>Retry-After\<close> header, and the errors of one
  attempt: malformed JSON, an HTTP status, a transport failure, an exception of the decoder
  with the evidence it carries, an exception of the accountant, and any other exception.
\<close>

datatype retry_after = NoRetryHeader | RetrySeconds int | RetryDate instant | RetryUnreadable

record failure_evidence =
  fe_code :: string
  fe_stage :: string
  fe_hash :: string
  fe_prefix :: string
  fe_finish :: string
  fe_cause_type :: string
  fe_cause :: string

datatype provider_error =
    JsonDecodeError string
  | HttpError int retry_after
  | TransportError string string
  | DecodeError string string "failure_evidence option"
  | AccountingError py_error
  | Unexpected py_error

definition http_retry_after_seconds :: "platform \<Rightarrow> instant \<Rightarrow> retry_after \<Rightarrow> int option" where
  "http_retry_after_seconds P now h =
     (case h of
        NoRetryHeader \<Rightarrow> None
      | RetrySeconds n \<Rightarrow> Some (max 1 (min 86400 n))
      | RetryDate t \<Rightarrow> Some (max 1 (min 86400 (py_int (fl P (of_int (t - now) / 1000000)))))
      | RetryUnreadable \<Rightarrow> None)"

fun py_error_type :: "py_error \<Rightarrow> string" where
  "py_error_type (ValueError _) = ''ValueError''"
| "py_error_type (KeyError _) = ''KeyError''"
| "py_error_type (IntegrityError _) = ''IntegrityError''"
| "py_error_type (OtherError _) = ''Exception''"

fun py_error_text :: "py_error \<Rightarrow> string" where
  "py_error_text (ValueError m) = m"
| "py_error_text (KeyError m) = m"
| "py_error_text (IntegrityError m) = m"
| "py_error_text (OtherError m) = m"

fun error_type :: "provider_error \<Rightarrow> string" where
  "error_type (JsonDecodeError _) = ''JSONDecodeError''"
| "error_type (HttpError _ _) = ''HTTPError''"
| "error_type (TransportError t _) = t"
| "error_type (DecodeError t _ _) = t"
| "error_type (AccountingError e) = py_error_type e"
| "error_type (Unexpected e) = py_error_type e"

fun error_text :: "provider_error \<Rightarrow> string" where
  "error_text (JsonDecodeError m) = m"
| "error_text (HttpError c _) = ''HTTP Error '' @ str_int c"
| "error_text (TransportError _ m) = m"
| "error_text (DecodeError _ m _) = m"
| "error_text (AccountingError e) = py_error_text e"
| "error_text (Unexpected e) = py_error_text e"

fun error_evidence :: "provider_error \<Rightarrow> failure_evidence option" where
  "error_evidence (DecodeError _ _ ev) = ev"
| "error_evidence _ = None"

section \<open>Evidence of a response that cannot be decoded\<close>

definition first_item :: "json \<Rightarrow> json option" where
  "first_item v = (case v of JList (x # _) \<Rightarrow> Some x | JStr (c # _) \<Rightarrow> Some (JStr [c]) | _ \<Rightarrow> None)"

definition item_of :: "json \<Rightarrow> string \<Rightarrow> json option" where
  "item_of v key = (case v of JObj kvs \<Rightarrow> map_of kvs key | _ \<Rightarrow> None)"

definition response_text :: "platform \<Rightarrow> envelope \<Rightarrow> string" where
  "response_text P env =
     (let text =
        Option.bind (item_of (JObj env) ''candidates'') (\<lambda>cs.
        Option.bind (first_item cs) (\<lambda>c.
        Option.bind (item_of c ''content'') (\<lambda>b.
        Option.bind (item_of b ''parts'') (\<lambda>ps.
        Option.bind (first_item ps) (\<lambda>p. item_of p ''text'')))))
      in case text of Some t \<Rightarrow> py_str P t | None \<Rightarrow> json_dumps P (JObj env))"

text \<open>
  \<open>(envelope.get("candidates") or [{}])[0].get("finishReason", "UNKNOWN")\<close>: the first candidate
  has to be an object, or the expression raises.
\<close>

definition finish_reason :: "platform \<Rightarrow> envelope \<Rightarrow> string outcome" where
  "finish_reason P env =
     (let cs = jget env ''candidates''
      in if \<not> truthy cs then Inr ''UNKNOWN''
         else case first_item cs of
           Some (JObj kvs) \<Rightarrow>
             Inr (case map_of kvs ''finishReason'' of None \<Rightarrow> ''UNKNOWN'' | Some v \<Rightarrow> take 80 (py_str P v))
         | _ \<Rightarrow> Inl (OtherError ''candidate is not an object''))"

definition decode_evidence :: "platform \<Rightarrow> provider_error \<Rightarrow> envelope option \<Rightarrow> failure_evidence outcome" where
  "decode_evidence P err env =
     (case error_evidence err of
        Some ev \<Rightarrow> Inr ev
      | None \<Rightarrow>
          (let raw = (case env of None \<Rightarrow> error_type err @ '': '' @ error_text err | Some e \<Rightarrow> response_text P e)
           in bind_out (case env of Some (kv # kvs) \<Rightarrow> finish_reason P (kv # kvs) | _ \<Rightarrow> Inr ''UNKNOWN'')
                (\<lambda>reason. Inr \<lparr>fe_code = ''MODEL_OUTPUT_INVALID'', fe_stage = ''RESPONSE_DECODE'',
                   fe_hash = sha256_hex P raw, fe_prefix = take 500 raw, fe_finish = reason,
                   fe_cause_type = error_type err, fe_cause = take 500 (error_text err)\<rparr>)))"

section \<open>The accountant and the gateway\<close>

record 'a accountant =
  ac_reserve :: "model_request_usage \<Rightarrow> instant \<Rightarrow> string \<Rightarrow> 'a \<Rightarrow> (bool \<times> 'a) outcome"
  ac_mark :: "instant \<Rightarrow> 'a \<Rightarrow> 'a outcome"
  ac_record :: "outcome_report \<Rightarrow> instant \<Rightarrow> 'a \<Rightarrow> 'a outcome"
  ac_failure_code :: "'a \<Rightarrow> string option"
  ac_next_retry :: "'a \<Rightarrow> instant option"

record 'a gateway =
  gw_keys :: "string list"
  gw_per_key :: int
  gw_limit :: "int option"
  gw_counts :: "string \<Rightarrow> int"
  gw_total :: int
  gw_accountant :: 'a

definition new_gateway :: "string list \<Rightarrow> int \<Rightarrow> int option \<Rightarrow> 'a \<Rightarrow> 'a gateway outcome" where
  "new_gateway keys per_key limit a =
     bind_out (require (keys \<noteq> []) ''model gateway requires at least one API key'')
       (\<lambda>_. Inr \<lparr>gw_keys = keys, gw_per_key = max 1 per_key, gw_limit = limit, gw_counts = (\<lambda>_. 0),
                gw_total = 0, gw_accountant = a\<rparr>)"

definition available_batch_capacity :: "'a gateway \<Rightarrow> int" where
  "available_batch_capacity g =
     (let capacity = sum_list (map (\<lambda>k. max 0 (gw_per_key g - gw_counts g k)) (dedupe (gw_keys g)))
      in case gw_limit g of None \<Rightarrow> capacity | Some l \<Rightarrow> min capacity (max 0 (l - gw_total g)))"

definition slot_free :: "string \<Rightarrow> 'a gateway \<Rightarrow> bool" where
  "slot_free key g \<longleftrightarrow>
     (case gw_limit g of None \<Rightarrow> True | Some l \<Rightarrow> gw_total g < l) \<and> gw_counts g key < gw_per_key g"

definition reserve_slot ::
    "'a accountant \<Rightarrow> model_request_usage \<Rightarrow> instant \<Rightarrow> string \<Rightarrow> string \<Rightarrow> 'a gateway \<Rightarrow> (bool \<times> 'a gateway) outcome" where
  "reserve_slot ops usage now uuid key g =
     (if \<not> slot_free key g then Inr (False, g)
      else bind_out (ac_reserve ops usage now uuid (gw_accountant g))
        (\<lambda>(reserved, a).
           Inr (if reserved
                then (True, g\<lparr>gw_accountant := a, gw_counts := (gw_counts g)(key := gw_counts g key + 1),
                              gw_total := gw_total g + 1\<rparr>)
                else (False, g\<lparr>gw_accountant := a\<rparr>))))"

text \<open>One call of \<^verbatim>\<open>generate\<close>: its arguments, what the world answers, and its result.\<close>

record generation_call =
  gc_start :: int
  gc_model :: string
  gc_purpose :: string
  gc_tokens :: int
  gc_contract :: "string option"
  gc_estimator :: string
  gc_retry_codes :: "int list"
  gc_retryable :: "provider_error \<Rightarrow> bool"

record turn =
  tn_reserved_at :: instant
  tn_uuid :: string
  tn_marked_at :: instant
  tn_response :: "provider_error + json"
  tn_done_at :: instant

type_synonym send = "string \<times> string"
type_synonym last_failure = "provider_error \<times> failure_evidence option"

datatype 'r gateway_result =
    Answered 'r string
  | CapacityExhausted string "instant option"
  | RequestFailed string
  | ResponseInvalid string string "failure_evidence option"
  | Raised provider_error

datatype 'r verdict = Retry last_failure | Finish "'r gateway_result"

definition usage_of_call :: "generation_call \<Rightarrow> model_request_usage" where
  "usage_of_call c =
     \<lparr>mr_model = gc_model c, mr_purpose = gc_purpose c, mr_tokens = max 0 (gc_tokens c),
      mr_contract = strip (case nonblank (gc_contract c) of Some k \<Rightarrow> k | None \<Rightarrow> gc_purpose c),
      mr_estimator = strip (gc_estimator c)\<rparr>"

definition post_json :: "string \<Rightarrow> provider_error + json \<Rightarrow> send list \<times> (provider_error + envelope)" where
  "post_json model response =
     (case google_generation_endpoint_for_model model of
        Inl e \<Rightarrow> ([], Inl (Unexpected e))
      | Inr url \<Rightarrow>
          ([(model, url)],
           case response of
             Inl err \<Rightarrow> Inl err
           | Inr (JObj env) \<Rightarrow> Inr env
           | Inr _ \<Rightarrow> Inl (Unexpected (ValueError ''model provider response is not a JSON object''))))"

definition plain_report :: "string \<Rightarrow> int option \<Rightarrow> envelope option \<Rightarrow> outcome_report" where
  "plain_report result retry env =
     \<lparr>op_outcome = result, op_http_status = None, op_retry_after = retry,
      op_metadata = Option.bind env sanitized_usage_metadata,
      op_model_version = Option.bind env sanitized_model_version, op_scope = None\<rparr>"

definition settle :: "'a accountant \<Rightarrow> outcome_report \<Rightarrow> instant \<Rightarrow> ('a \<Rightarrow> 'r verdict) \<Rightarrow> 'a \<Rightarrow> 'r verdict \<times> 'a" where
  "settle ops report now k a =
     (case ac_record ops report now a of
        Inl e \<Rightarrow> (Finish (Raised (AccountingError e)), a)
      | Inr a' \<Rightarrow> (k a', a'))"

definition retry_with_evidence :: "platform \<Rightarrow> provider_error \<Rightarrow> envelope option \<Rightarrow> 'r verdict" where
  "retry_with_evidence P err env =
     (case decode_evidence P err env of
        Inl e \<Rightarrow> Finish (Raised (Unexpected e))
      | Inr ev \<Rightarrow> Retry (err, Some ev))"

text \<open>
  The \<open>except\<close> clauses of an attempt that was marked. For an HTTP error the code reads a prefix of its body before it
  records the outcome, under a handler of \<open>OSError\<close>, \<open>ValueError\<close>, \<open>TypeError\<close> and \<open>AttributeError\<close>. The model is of a
  reading within these: an \<open>HTTPException\<close> of the client library, as a chunked body that is cut off raises, leaves
  the clause and the attempt without an outcome.
\<close>

definition undecodable :: "generation_call \<Rightarrow> provider_error \<Rightarrow> bool" where
  "undecodable c err \<longleftrightarrow> (case err of JsonDecodeError _ \<Rightarrow> True | _ \<Rightarrow> gc_retryable c err)"

definition handle_failure ::
    "platform \<Rightarrow> 'a accountant \<Rightarrow> generation_call \<Rightarrow> instant \<Rightarrow> envelope option \<Rightarrow> provider_error \<Rightarrow> 'a \<Rightarrow>
     'r verdict \<times> 'a" where
  "handle_failure P ops c now env err =
     (if undecodable c err
      then settle ops (plain_report ''PROVIDER_FAILED'' None env) now (\<lambda>_. retry_with_evidence P err env)
      else case err of
        HttpError code h \<Rightarrow>
          settle ops
            (plain_report (if code = 429 then ''PROVIDER_THROTTLED'' else ''PROVIDER_FAILED'')
               (http_retry_after_seconds P now h) None) now
            (\<lambda>_. if code \<in> set (gc_retry_codes c) then Retry (err, None) else Finish (Raised err))
      | TransportError _ _ \<Rightarrow>
          settle ops (plain_report ''PROVIDER_FAILED'' None None) now (\<lambda>_. Retry (err, None))
      | _ \<Rightarrow> settle ops (plain_report ''PROVIDER_FAILED'' None env) now (\<lambda>_. Finish (Raised err)))"

definition attempt_request ::
    "platform \<Rightarrow> 'a accountant \<Rightarrow> (envelope \<Rightarrow> provider_error + 'r) \<Rightarrow> generation_call \<Rightarrow> turn \<Rightarrow> 'a \<Rightarrow>
     'r verdict \<times> send list \<times> 'a" where
  "attempt_request P ops decode c t a =
     (case ac_mark ops (tn_marked_at t) a of
        Inl e \<Rightarrow>
          (if gc_retryable c (AccountingError e) then retry_with_evidence P (AccountingError e) None
           else Finish (Raised (AccountingError e)), [], a)
      | Inr a1 \<Rightarrow>
          (let (sent, answer) = post_json (gc_model c) (tn_response t);
               (v, a2) =
                 (case answer of
                    Inl err \<Rightarrow> handle_failure P ops c (tn_done_at t) None err a1
                  | Inr env \<Rightarrow>
                      (case decode env of
                         Inl err \<Rightarrow> handle_failure P ops c (tn_done_at t) (Some env) err a1
                       | Inr result \<Rightarrow>
                           settle ops (plain_report ''PROVIDER_SUCCEEDED'' None (Some env)) (tn_done_at t)
                             (\<lambda>_. Finish (Answered result
                                (case sanitized_model_version env of Some m \<Rightarrow> m | None \<Rightarrow> gc_model c))) a1))
           in (v, sent, a2)))"

definition exhausted :: "'a accountant \<Rightarrow> generation_call \<Rightarrow> last_failure option \<Rightarrow> 'a \<Rightarrow> 'r gateway_result" where
  "exhausted ops c prior a =
     (case prior of
        None \<Rightarrow>
          CapacityExhausted
            (case nonblank (ac_failure_code ops a) of Some f \<Rightarrow> f | None \<Rightarrow> ''MODEL_CAPACITY_DEFERRED'')
            (ac_next_retry ops a)
      | Some (err, ev) \<Rightarrow>
          (case err of
             HttpError _ _ \<Rightarrow> Raised err
           | _ \<Rightarrow> if undecodable c err then ResponseInvalid (error_type err) (error_text err) ev
                  else RequestFailed (error_type err)))"

fun generate_from ::
    "platform \<Rightarrow> 'a accountant \<Rightarrow> (envelope \<Rightarrow> provider_error + 'r) \<Rightarrow> generation_call \<Rightarrow>
     (string \<times> turn) list \<Rightarrow> last_failure option \<Rightarrow> 'a gateway \<Rightarrow> 'r gateway_result \<times> send list \<times> 'a gateway" where
  "generate_from P ops decode c [] prior g = (exhausted ops c prior (gw_accountant g), [], g)"
| "generate_from P ops decode c ((key, t) # rest) prior g =
     (case reserve_slot ops (usage_of_call c) (tn_reserved_at t) (tn_uuid t) key g of
        Inl e \<Rightarrow> (Raised (AccountingError e), [], g)
      | Inr (False, g1) \<Rightarrow> generate_from P ops decode c rest prior g1
      | Inr (True, g1) \<Rightarrow>
          (let (v, sent, a) = attempt_request P ops decode c t (gw_accountant g1);
               g2 = g1\<lparr>gw_accountant := a\<rparr>
           in case v of
                Finish r \<Rightarrow> (r, sent, g2)
              | Retry failure \<Rightarrow>
                  (let (r, sent', g3) = generate_from P ops decode c rest (Some failure) g2
                   in (r, sent @ sent', g3))))"

text \<open>The keys in the order they are tried, each with the turn the world takes at that offset.\<close>

definition rotation :: "'a gateway \<Rightarrow> int \<Rightarrow> (nat \<Rightarrow> turn) \<Rightarrow> (string \<times> turn) list" where
  "rotation g start turns =
     (let n = length (gw_keys g)
      in map (\<lambda>i. (gw_keys g ! nat ((start + int i) mod int n), turns i)) [0..<n])"

definition generate ::
    "platform \<Rightarrow> 'a accountant \<Rightarrow> (envelope \<Rightarrow> provider_error + 'r) \<Rightarrow> generation_call \<Rightarrow> (nat \<Rightarrow> turn) \<Rightarrow>
     'a gateway \<Rightarrow> 'r gateway_result \<times> send list \<times> 'a gateway" where
  "generate P ops decode c turns g =
     (if strip (gc_purpose c) = [] then (Raised (Unexpected (ValueError ''model request purpose is required'')), [], g)
      else generate_from P ops decode c (rotation g (gc_start c) turns) None g)"

section \<open>What the gateway relies on\<close>

text \<open>
  An accountant counts what it admits: a reservation that succeeds adds one admission, nothing else
  does.
\<close>

locale admission_accountant =
  fixes ops :: "'a accountant"
    and valid :: "'a \<Rightarrow> bool"
    and admitted :: "'a \<Rightarrow> int"
  assumes reserve_counts: "valid a \<Longrightarrow> ac_reserve ops u now uuid a = Inr (ok, a') \<Longrightarrow>
      valid a' \<and> admitted a' = admitted a + (if ok then 1 else 0)"
    and mark_keeps: "valid a \<Longrightarrow> ac_mark ops now a = Inr a' \<Longrightarrow> valid a' \<and> admitted a' = admitted a"
    and record_keeps: "valid a \<Longrightarrow> ac_record ops p now a = Inr a' \<Longrightarrow> valid a' \<and> admitted a' = admitted a"

text \<open>The counters of a gateway: no key and no batch is over its limit.\<close>

definition within_limit :: "int option \<Rightarrow> int \<Rightarrow> bool" where
  "within_limit limit n \<longleftrightarrow> (case limit of None \<Rightarrow> True | Some l \<Rightarrow> n \<le> max 0 l)"

definition gateway_ok :: "'a gateway \<Rightarrow> bool" where
  "gateway_ok g \<longleftrightarrow>
     list_all (\<lambda>k. 0 \<le> gw_counts g k \<and> gw_counts g k \<le> gw_per_key g) (gw_keys g) \<and>
     gw_total g = sum_list (map (gw_counts g) (dedupe (gw_keys g))) \<and>
     within_limit (gw_limit g) (gw_total g)"

lemma gateway_ok_accountant [simp]: "gateway_ok (g\<lparr>gw_accountant := a\<rparr>) = gateway_ok g"
  by (simp add: gateway_ok_def)

lemma sum_list_bump:
  fixes f :: "'k \<Rightarrow> int"
  assumes "distinct ks" "k \<in> set ks"
  shows "sum_list (map (f(k := f k + d)) ks) = sum_list (map f ks) + d"
  using assms
proof (induction ks)
  case (Cons j ks)
  have same: "j \<notin> set ks \<Longrightarrow> map (f(j := f j + d)) ks = map f ks" by (simp add: map_idI)
  show ?case
  proof (cases "j = k")
    case True
    with same Cons.prems show ?thesis by (simp add: fun_upd_def [symmetric])
  next
    case False
    with Cons show ?thesis by simp
  qed
qed simp

lemma sum_capacity:
  assumes "gateway_ok g"
  shows "sum_list (map (\<lambda>k. max 0 (gw_per_key g - gw_counts g k)) (dedupe (gw_keys g))) =
     gw_per_key g * int (length (dedupe (gw_keys g))) - gw_total g"
proof -
  have "sum_list (map (\<lambda>k. max 0 (gw_per_key g - gw_counts g k)) ks) =
      gw_per_key g * int (length ks) - sum_list (map (gw_counts g) ks)"
    if "\<forall>k \<in> set ks. gw_counts g k \<le> gw_per_key g" for ks
    using that by (induction ks) (simp_all add: algebra_simps)
  then show ?thesis using assms by (simp add: gateway_ok_def list_all_iff)
qed

lemma capacity_eq:
  assumes "gateway_ok g"
  shows "available_batch_capacity g =
     (let room = gw_per_key g * int (length (dedupe (gw_keys g))) - gw_total g
      in case gw_limit g of None \<Rightarrow> room | Some l \<Rightarrow> min room (max 0 l - gw_total g))"
proof (cases "gw_limit g")
  case None
  then show ?thesis by (simp add: available_batch_capacity_def sum_capacity [OF assms])
next
  case (Some l)
  have "0 \<le> gw_total g" using assms by (auto simp: gateway_ok_def list_all_iff intro!: sum_list_nonneg)
  moreover have "gw_total g \<le> max 0 l" using assms Some by (simp add: gateway_ok_def within_limit_def)
  ultimately have "max 0 (l - gw_total g) = max 0 l - gw_total g" by linarith
  with Some show ?thesis by (simp add: available_batch_capacity_def sum_capacity [OF assms])
qed

lemma rotation_keys:
  assumes "gw_keys g \<noteq> []" "(key, t) \<in> set (rotation g start turns)"
  shows "key \<in> set (gw_keys g)"
  using assms by (auto simp: rotation_def Let_def nat_less_iff)

text \<open>A new gateway satisfies the counters.\<close>

lemma new_gateway_ok:
  "new_gateway keys per_key limit a = Inr g \<Longrightarrow>
     gateway_ok g \<and> gw_keys g \<noteq> [] \<and> gw_total g = 0 \<and> gw_accountant g = a"
  by (auto simp: new_gateway_def bind_out_Inr_iff gateway_ok_def list_all_iff within_limit_def split: option.splits)

text \<open>The shape of an attempt: it sends at most one request.\<close>

lemma post_json_sends: "post_json model response = (sent, answer) \<Longrightarrow> length sent \<le> 1"
  by (auto simp: post_json_def split: sum.splits)

lemma attempt_sends: "attempt_request P ops decode c t a = (v, sent, a') \<Longrightarrow> length sent \<le> 1"
  by (auto simp: attempt_request_def Let_def split: sum.splits prod.splits dest: post_json_sends)

context admission_accountant
begin

lemma settle_keeps:
  "settle ops p now k a = (v, a') \<Longrightarrow> valid a \<Longrightarrow> valid a' \<and> admitted a' = admitted a"
  by (auto simp: settle_def dest: record_keeps split: sum.splits)

lemma failure_keeps:
  "handle_failure P ops c now env err a = (v, a') \<Longrightarrow> valid a \<Longrightarrow> valid a' \<and> admitted a' = admitted a"
  by (auto simp: handle_failure_def dest: settle_keeps split: if_splits provider_error.splits)

lemma attempt_keeps:
  assumes "attempt_request P ops decode c t a = (v, sent, a')" "valid a"
  shows "valid a' \<and> admitted a' = admitted a"
proof (cases "ac_mark ops (tn_marked_at t) a")
  case (Inl e)
  with assms show ?thesis by (simp add: attempt_request_def)
next
  case (Inr a1)
  obtain sent0 answer where post: "post_json (gc_model c) (tn_response t) = (sent0, answer)"
    by (cases "post_json (gc_model c) (tn_response t)")
  have m: "valid a1 \<and> admitted a1 = admitted a" by (rule mark_keeps [OF assms(2) Inr])
  with assms Inr post show ?thesis
    by (auto simp: attempt_request_def Let_def dest: failure_keeps settle_keeps split: sum.splits prod.splits)
qed

definition counted_step :: "'a gateway \<Rightarrow> 'a gateway \<Rightarrow> bool" where
  "counted_step g g' \<longleftrightarrow>
     valid (gw_accountant g') \<and> gateway_ok g' \<and> gw_keys g' = gw_keys g \<and> gw_per_key g' = gw_per_key g \<and>
     gw_limit g' = gw_limit g \<and>
     gw_total g' - gw_total g = admitted (gw_accountant g') - admitted (gw_accountant g)"

lemma counted_refl: "valid (gw_accountant g) \<Longrightarrow> gateway_ok g \<Longrightarrow> counted_step g g"
  by (simp add: counted_step_def)

lemma counted_trans: "counted_step g h \<Longrightarrow> counted_step h k \<Longrightarrow> counted_step g k"
  by (simp add: counted_step_def)

lemma slot_counts:
  assumes "reserve_slot ops u now uuid key g = Inr (ok, g')" "valid (gw_accountant g)" "gateway_ok g"
    "key \<in> set (gw_keys g)"
  shows "counted_step g g' \<and> (ok \<longrightarrow> gw_total g' = gw_total g + 1)"
proof (cases "slot_free key g")
  case False
  with assms show ?thesis by (auto simp: reserve_slot_def counted_step_def)
next
  case True
  with assms obtain a where r: "ac_reserve ops u now uuid (gw_accountant g) = Inr (ok, a)"
    and g': "g' = (if ok then g\<lparr>gw_accountant := a, gw_counts := (gw_counts g)(key := gw_counts g key + 1),
                     gw_total := gw_total g + 1\<rparr> else g\<lparr>gw_accountant := a\<rparr>)"
    by (auto simp: reserve_slot_def bind_out_Inr_iff split: if_splits)
  from reserve_counts [OF assms(2) r] have a: "valid a" "admitted a = admitted (gw_accountant g) + (if ok then 1 else 0)"
    by auto
  show ?thesis
  proof (cases ok)
    case True
    note free = \<open>slot_free key g\<close>
    from assms(3) have ok1: "\<And>k. k \<in> set (gw_keys g) \<Longrightarrow> 0 \<le> gw_counts g k \<and> gw_counts g k \<le> gw_per_key g"
      and tot: "gw_total g = sum_list (map (gw_counts g) (dedupe (gw_keys g)))"
      by (simp_all add: gateway_ok_def list_all_iff)
    have "sum_list (map ((gw_counts g)(key := gw_counts g key + 1)) (dedupe (gw_keys g))) = gw_total g + 1"
      unfolding tot by (rule sum_list_bump) (use assms(4) in auto)
    moreover have "within_limit (gw_limit g) (gw_total g + 1)"
      using free by (auto simp: slot_free_def within_limit_def split: option.splits)
    moreover have "gw_counts g key < gw_per_key g" using free by (simp add: slot_free_def)
    ultimately have "gateway_ok g'"
      using True g' ok1 assms(4) by (auto simp: gateway_ok_def list_all_iff)
    with True g' a show ?thesis by (simp add: counted_step_def)
  next
    case False
    with g' a assms(3) show ?thesis by (simp add: counted_step_def)
  qed
qed

lemma generate_from_counts:
  assumes "generate_from P ops decode c turns prior g = (r, sent, g')" "valid (gw_accountant g)" "gateway_ok g"
    "\<And>key t. (key, t) \<in> set turns \<Longrightarrow> key \<in> set (gw_keys g)"
  shows "counted_step g g' \<and> int (length sent) \<le> gw_total g' - gw_total g"
  using assms
proof (induction turns arbitrary: prior g r sent g')
  case Nil
  then show ?case by (auto intro: counted_refl)
next
  case (Cons kt turns)
  obtain key t where kt: "kt = (key, t)" by (cases kt)
  let ?slot = "reserve_slot ops (usage_of_call c) (tn_reserved_at t) (tn_uuid t) key g"
  have key: "key \<in> set (gw_keys g)" using Cons.prems(4) kt by auto
  show ?case
  proof (cases ?slot)
    case (Inl e)
    with Cons.prems kt show ?thesis by (auto intro: counted_refl)
  next
    case (Inr p)
    obtain ok g1 where p: "p = (ok, g1)" by (cases p)
    have s: "counted_step g g1" "ok \<Longrightarrow> gw_total g1 = gw_total g + 1"
      using slot_counts [OF Inr [unfolded p] Cons.prems(2,3) key] by auto
    then have g1: "valid (gw_accountant g1)" "gateway_ok g1" "gw_keys g1 = gw_keys g"
      by (simp_all add: counted_step_def)
    show ?thesis
    proof (cases ok)
      case False
      with Inr p kt Cons.prems(1) have rest: "generate_from P ops decode c turns prior g1 = (r, sent, g')" by simp
      have "counted_step g1 g' \<and> int (length sent) \<le> gw_total g' - gw_total g1"
        by (rule Cons.IH [OF rest g1(1,2)]) (use Cons.prems(4) g1(3) in auto)
      moreover have "gw_total g \<le> gw_total g1"
        using slot_counts [OF Inr [unfolded p] Cons.prems(2,3) key] False Inr p
        by (auto simp: reserve_slot_def bind_out_Inr_iff split: if_splits)
      ultimately show ?thesis using counted_trans [OF s(1)] by auto
    next
      case True
      obtain v sent1 a where at: "attempt_request P ops decode c t (gw_accountant g1) = (v, sent1, a)"
        by (cases "attempt_request P ops decode c t (gw_accountant g1)") auto
      let ?g2 = "g1\<lparr>gw_accountant := a\<rparr>"
      have one: "length sent1 \<le> 1" by (rule attempt_sends [OF at])
      have a: "valid a" "admitted a = admitted (gw_accountant g1)" using attempt_keeps [OF at g1(1)] by auto
      have step2: "counted_step g1 ?g2" using a g1(2) by (simp add: counted_step_def)
      have g2: "gateway_ok ?g2" using g1(2) by simp
      show ?thesis
      proof (cases v)
        case (Finish r')
        with True Inr p kt at Cons.prems(1) have "sent = sent1" "g' = ?g2" by auto
        with one s(2) True show ?thesis using counted_trans [OF s(1) step2] by auto
      next
        case (Retry failure)
        with True Inr p kt at Cons.prems(1) obtain sent2
          where rest: "generate_from P ops decode c turns (Some failure) ?g2 = (r, sent2, g')" and "sent = sent1 @ sent2"
          by (auto split: prod.splits)
        moreover have "counted_step ?g2 g' \<and> int (length sent2) \<le> gw_total g' - gw_total ?g2"
          by (rule Cons.IH [OF rest]) (use a g2 Cons.prems(4) g1(3) in auto)
        ultimately show ?thesis
          using one s(2) True counted_trans [OF s(1) counted_trans [OF step2]] by auto
      qed
    qed
  qed
qed

lemma generate_counts:
  assumes "generate P ops decode c turns g = (r, sent, g')" "valid (gw_accountant g)" "gateway_ok g" "gw_keys g \<noteq> []"
  shows "valid (gw_accountant g')" "gateway_ok g'"
    "gw_total g' - gw_total g = admitted (gw_accountant g') - admitted (gw_accountant g)"
    "int (length sent) \<le> gw_total g' - gw_total g"
    "available_batch_capacity g' = available_batch_capacity g - (gw_total g' - gw_total g)"
proof -
  have "counted_step g g' \<and> int (length sent) \<le> gw_total g' - gw_total g"
  proof (cases "strip (gc_purpose c) = []")
    case True
    with assms show ?thesis by (auto simp: generate_def intro: counted_refl)
  next
    case False
    with assms(1) have "generate_from P ops decode c (rotation g (gc_start c) turns) None g = (r, sent, g')"
      by (simp add: generate_def)
    then show ?thesis
      by (rule generate_from_counts [OF _ assms(2,3)]) (rule rotation_keys [OF assms(4)])
  qed
  then show "valid (gw_accountant g')" "gateway_ok g'"
    "gw_total g' - gw_total g = admitted (gw_accountant g') - admitted (gw_accountant g)"
    "int (length sent) \<le> gw_total g' - gw_total g"
    "available_batch_capacity g' = available_batch_capacity g - (gw_total g' - gw_total g)"
    using assms(3) by (auto simp: counted_step_def capacity_eq Let_def split: option.splits)
qed

end

section \<open>Every attempt is settled\<close>

text \<open>
  An accountant that follows a request through its life: a reservation opens a request, the mark
  makes it an attempt, and an outcome can only be recorded for an attempt that has none.
\<close>

datatype request_phase = Reserved | Attempted | Settled provider_outcome

locale outcome_accountant = admission_accountant ops valid admitted
  for ops :: "'a accountant" and valid :: "'a \<Rightarrow> bool" and admitted :: "'a \<Rightarrow> int" +
  fixes phase :: "'a \<Rightarrow> string \<Rightarrow> request_phase option"
    and current :: "'a \<Rightarrow> string option"
  assumes reserve_opens: "valid a \<Longrightarrow> ac_reserve ops u now uuid a = Inr (True, a') \<Longrightarrow>
      phase a uuid = None \<and> phase a' = (phase a)(uuid \<mapsto> Reserved) \<and> current a' = Some uuid"
    and reserve_refuses: "valid a \<Longrightarrow> ac_reserve ops u now uuid a = Inr (False, a') \<Longrightarrow> phase a' = phase a"
    and mark_attempts: "valid a \<Longrightarrow> current a = Some uid \<Longrightarrow> phase a uid = Some Reserved \<Longrightarrow>
      \<exists>a'. ac_mark ops now a = Inr a' \<and> phase a' = (phase a)(uid \<mapsto> Attempted) \<and> current a' = Some uid"
    and record_settles: "valid a \<Longrightarrow> ac_record ops p now a = Inr a' \<Longrightarrow>
      \<exists>uid result. current a = Some uid \<and> outcome_of (op_outcome p) = Some result \<and>
        phase a uid = Some Attempted \<and> phase a' = (phase a)(uid \<mapsto> Settled result)"

definition unaccounted :: "'r gateway_result \<Rightarrow> bool" where
  "unaccounted r \<longleftrightarrow> (case r of Raised (AccountingError _) \<Rightarrow> True | _ \<Rightarrow> False)"

definition answered :: "'r gateway_result \<Rightarrow> bool" where
  "answered r \<longleftrightarrow> (case r of Answered _ _ \<Rightarrow> True | _ \<Rightarrow> False)"

text \<open>The outcomes of a call: the last one is a success when the call answers, no other is.\<close>

definition outcomes_fit :: "'r gateway_result \<Rightarrow> provider_outcome list \<Rightarrow> bool" where
  "outcomes_fit r os \<longleftrightarrow>
     (if answered r then os \<noteq> [] \<and> last os = PROVIDER_SUCCEEDED \<and> PROVIDER_SUCCEEDED \<notin> set (butlast os)
      else PROVIDER_SUCCEEDED \<notin> set os)"

lemma outcomes_fit_answered: "outcomes_fit r os \<Longrightarrow> answered r \<longleftrightarrow> PROVIDER_SUCCEEDED \<in> set os"
  by (cases os rule: rev_cases) (auto simp: outcomes_fit_def split: if_splits)

definition settled_map :: "(string \<times> provider_outcome) list \<Rightarrow> (string \<Rightarrow> request_phase option) \<Rightarrow> string \<Rightarrow> request_phase option" where
  "settled_map new ph = ph ++ (map_option Settled \<circ> map_of new)"

lemma exhausted_not_answered [simp]: "\<not> answered (exhausted ops c prior a)"
  by (auto simp: exhausted_def answered_def split: option.splits prod.splits provider_error.splits)

lemma undecodable_evidence_shape:
  "retry_with_evidence P err env = v \<Longrightarrow> (\<exists>f. v = Retry f) \<or> (\<exists>e. v = Finish (Raised (Unexpected e)))"
  by (auto simp: retry_with_evidence_def split: sum.splits)

text \<open>What an attempt's verdict may be, without and with an answer.\<close>

definition failed_verdict :: "'r verdict \<Rightarrow> bool" where
  "failed_verdict v \<longleftrightarrow> (case v of Retry _ \<Rightarrow> True | Finish r \<Rightarrow> \<not> answered r)"

lemma failed_evidence: "failed_verdict (retry_with_evidence P err env)"
  by (auto simp: retry_with_evidence_def failed_verdict_def answered_def split: sum.splits)

lemma plain_report_outcome [simp]: "op_outcome (plain_report result retry env) = result"
  by (simp add: plain_report_def)

lemma outcome_texts [simp]:
  "outcome_of ''PROVIDER_FAILED'' = Some PROVIDER_FAILED"
  "outcome_of ''PROVIDER_THROTTLED'' = Some PROVIDER_THROTTLED"
  "outcome_of ''PROVIDER_SUCCEEDED'' = Some PROVIDER_SUCCEEDED"
  by (simp_all add: outcome_of_def of_name_def)

context outcome_accountant
begin

lemma settle_records:
  assumes "settle ops p now k a = (v, a')" "valid a" "current a = Some uid" "outcome_of (op_outcome p) = Some result"
  shows "(\<exists>e. v = Finish (Raised (AccountingError e))) \<or>
     v = k a' \<and> phase a' = (phase a)(uid \<mapsto> Settled result)"
proof (cases "ac_record ops p now a")
  case (Inl e)
  with assms show ?thesis by (auto simp: settle_def)
next
  case (Inr b)
  with assms record_settles [OF assms(2) Inr] show ?thesis by (auto simp: settle_def)
qed

lemma failure_records:
  assumes "handle_failure P ops c now env err a = (v, a')" "valid a" "current a = Some uid"
  shows "(\<exists>e. v = Finish (Raised (AccountingError e))) \<or>
     (\<exists>result. result \<noteq> PROVIDER_SUCCEEDED \<and> phase a' = (phase a)(uid \<mapsto> Settled result) \<and> failed_verdict v)"
proof -
  have go: ?thesis if "settle ops p now k a = (v, a')" "outcome_of (op_outcome p) = Some result"
    "result \<noteq> PROVIDER_SUCCEEDED" "\<And>b. failed_verdict (k b)" for p k result
    using settle_records [OF that(1) assms(2,3) that(2)] that(3,4) by auto
  have plain: ?thesis if "settle ops (plain_report ''PROVIDER_FAILED'' None e) now (\<lambda>_. w) a = (v, a')"
    "failed_verdict w" for e w
    by (rule go [OF that(1), where result = PROVIDER_FAILED]) (simp_all add: that(2))
  have final: "failed_verdict (Finish (Raised err))" "failed_verdict (Retry (err, None))"
    by (simp_all add: failed_verdict_def answered_def)
  show ?thesis
  proof (cases "undecodable c err")
    case True
    with assms(1) have "settle ops (plain_report ''PROVIDER_FAILED'' None env) now
        (\<lambda>_. retry_with_evidence P err env) a = (v, a')" by (simp add: handle_failure_def)
    then show ?thesis by (rule plain) (rule failed_evidence)
  next
    case False
    note run = assms(1) [unfolded handle_failure_def if_not_P [OF False]]
    show ?thesis
    proof (cases err)
      case (JsonDecodeError m)
      with False show ?thesis by (simp add: undecodable_def)
    next
      case (HttpError code h)
      note run' = run [unfolded HttpError provider_error.case]
      show ?thesis
        by (rule go [OF run', where result = "if code = 429 then PROVIDER_THROTTLED else PROVIDER_FAILED"])
          (use final HttpError in auto)
    next
      case (TransportError t m)
      with run have "settle ops (plain_report ''PROVIDER_FAILED'' None None) now (\<lambda>_. Retry (err, None)) a = (v, a')"
        by simp
      then show ?thesis by (rule plain) (rule final)
    next
      case (DecodeError t m ev)
      with run have "settle ops (plain_report ''PROVIDER_FAILED'' None env) now (\<lambda>_. Finish (Raised err)) a = (v, a')"
        by simp
      then show ?thesis by (rule plain) (rule final)
    next
      case (AccountingError e)
      with run have "settle ops (plain_report ''PROVIDER_FAILED'' None env) now (\<lambda>_. Finish (Raised err)) a = (v, a')"
        by simp
      then show ?thesis by (rule plain) (rule final)
    next
      case (Unexpected e)
      with run have "settle ops (plain_report ''PROVIDER_FAILED'' None env) now (\<lambda>_. Finish (Raised err)) a = (v, a')"
        by simp
      then show ?thesis by (rule plain) (rule final)
    qed
  qed
qed

lemma attempt_settles:
  assumes "attempt_request P ops decode c t a = (v, sent, a')" "valid a" "current a = Some uid" "phase a uid = Some Reserved"
  shows "(\<exists>e. v = Finish (Raised (AccountingError e))) \<or>
     (\<exists>result. phase a' = (phase a)(uid \<mapsto> Settled result) \<and>
        (if failed_verdict v then result \<noteq> PROVIDER_SUCCEEDED else result = PROVIDER_SUCCEEDED))"
proof -
  obtain a1 where m: "ac_mark ops (tn_marked_at t) a = Inr a1"
    and ph: "phase a1 = (phase a)(uid \<mapsto> Attempted)" "current a1 = Some uid"
    using mark_attempts [OF assms(2-4)] by blast
  have v1: "valid a1" using mark_keeps [OF assms(2) m] by simp
  have upd: "(phase a1)(uid \<mapsto> x) = (phase a)(uid \<mapsto> x)" for x using ph(1) by simp
  obtain sent0 answer where post: "post_json (gc_model c) (tn_response t) = (sent0, answer)"
    by (cases "post_json (gc_model c) (tn_response t)")
  have failed: ?thesis if "handle_failure P ops c now env err a1 = (v, a')" for now env err
    using failure_records [OF that v1 ph(2)] upd by auto
  show ?thesis
  proof (cases answer)
    case (Inl err)
    with assms(1) m post show ?thesis by (intro failed) (auto simp: attempt_request_def split: prod.splits)
  next
    case (Inr env)
    note env = this
    show ?thesis
    proof (cases "decode env")
      case (Inl err)
      with Inr assms(1) m post show ?thesis by (intro failed) (auto simp: attempt_request_def split: prod.splits)
    next
      case (Inr ans)
      let ?k = "\<lambda>_. Finish (Answered ans (case sanitized_model_version env of Some m \<Rightarrow> m | None \<Rightarrow> gc_model c))"
      from Inr env assms(1) m post
      have "settle ops (plain_report ''PROVIDER_SUCCEEDED'' None (Some env)) (tn_done_at t) ?k a1 = (v, a')"
        by (auto simp: attempt_request_def split: prod.splits)
      from settle_records [OF this v1 ph(2)] upd show ?thesis
        by (auto simp: failed_verdict_def answered_def)
    qed
  qed
qed

definition settled_run :: "'a \<Rightarrow> 'a \<Rightarrow> (string \<times> provider_outcome) list \<Rightarrow> bool" where
  "settled_run a a' new \<longleftrightarrow>
     valid a' \<and> distinct (map fst new) \<and> (\<forall>uid \<in> fst ` set new. phase a uid = None) \<and>
     phase a' = settled_map new (phase a) \<and> admitted a' = admitted a + int (length new)"

lemma settled_run_Nil: "valid a \<Longrightarrow> settled_run a a []"
  by (simp add: settled_run_def settled_map_def)

lemma settled_run_Cons:
  assumes "phase a uid = None" "phase b = (phase a)(uid \<mapsto> Settled result)" "admitted b = admitted a + 1"
    "settled_run b a' new"
  shows "settled_run a a' ((uid, result) # new)"
proof -
  have fresh: "uid \<notin> fst ` set new" using assms(2,4) by (auto simp: settled_run_def)
  then have "map_of new uid = None" by (simp add: map_of_eq_None_iff)
  then have "settled_map new ((phase a)(uid \<mapsto> Settled result)) = settled_map ((uid, result) # new) (phase a)"
    by (auto simp: settled_map_def map_add_def fun_eq_iff split: option.splits)
  then show ?thesis using assms fresh by (auto simp: settled_run_def split: if_splits)
qed

lemma settled_run_skip:
  "settled_run b a' new \<Longrightarrow> phase b = phase a \<Longrightarrow> admitted b = admitted a \<Longrightarrow> settled_run a a' new"
  by (simp add: settled_run_def)

lemma generate_from_settles:
  assumes "generate_from P ops decode c turns prior g = (r, sent, g')" "valid (gw_accountant g)"
    "\<not> unaccounted r"
  shows "\<exists>new. settled_run (gw_accountant g) (gw_accountant g') new \<and> outcomes_fit r (map snd new)"
  using assms
proof (induction turns arbitrary: prior g r sent g')
  case Nil
  then have "g' = g" "\<not> answered r" by auto
  with Nil.prems(2) show ?case by (intro exI [of _ "[]"]) (simp add: settled_run_Nil outcomes_fit_def)
next
  case (Cons kt turns)
  obtain key t where kt: "kt = (key, t)" by (cases kt)
  let ?slot = "reserve_slot ops (usage_of_call c) (tn_reserved_at t) (tn_uuid t) key g"
  show ?case
  proof (cases ?slot)
    case (Inl e)
    with Cons.prems kt show ?thesis by (auto simp: unaccounted_def)
  next
    case (Inr p)
    obtain ok g1 where p: "p = (ok, g1)" by (cases p)
    show ?thesis
    proof (cases ok)
      case False
      with Inr p kt Cons.prems(1) have rest: "generate_from P ops decode c turns prior g1 = (r, sent, g')" by simp
      have same: "valid (gw_accountant g1)" "phase (gw_accountant g1) = phase (gw_accountant g)"
        "admitted (gw_accountant g1) = admitted (gw_accountant g)"
        using Inr p False Cons.prems(2)
        by (auto simp: reserve_slot_def bind_out_Inr_iff dest: reserve_counts reserve_refuses split: if_splits)
      from Cons.IH [OF rest same(1) Cons.prems(3)] show ?thesis using settled_run_skip [OF _ same(2,3)] by blast
    next
      case True
      obtain v sent1 a where at: "attempt_request P ops decode c t (gw_accountant g1) = (v, sent1, a)"
        by (cases "attempt_request P ops decode c t (gw_accountant g1)") auto
      let ?g2 = "g1\<lparr>gw_accountant := a\<rparr>"
      from Inr p True have res: "ac_reserve ops (usage_of_call c) (tn_reserved_at t) (tn_uuid t) (gw_accountant g) =
          Inr (True, gw_accountant g1)"
        by (auto simp: reserve_slot_def bind_out_Inr_iff split: if_splits)
      note opened = reserve_opens [OF Cons.prems(2) res] and grown = reserve_counts [OF Cons.prems(2) res]
      have kept: "valid a" "admitted a = admitted (gw_accountant g) + 1"
        using attempt_keeps [OF at] grown by auto
      have "\<not> (\<exists>e. v = Finish (Raised (AccountingError e)))"
        using Cons.prems(1,3) kt Inr p True at by (auto simp: unaccounted_def)
      with attempt_settles [OF at] opened grown obtain result
        where ph: "phase a = (phase (gw_accountant g))(tn_uuid t \<mapsto> Settled result)"
          and res: "if failed_verdict v then result \<noteq> PROVIDER_SUCCEEDED else result = PROVIDER_SUCCEEDED"
        by auto
      have step: "settled_run (gw_accountant g) a' ((tn_uuid t, result) # new)" if "settled_run a a' new" for a' new
        by (rule settled_run_Cons [OF _ ph kept(2) that]) (use opened in simp)
      show ?thesis
      proof (cases v)
        case (Finish r')
        with True Inr p kt at Cons.prems(1) have "r' = r" "g' = ?g2" by auto
        then show ?thesis using step [OF settled_run_Nil [OF kept(1)]] res Finish
          by (intro exI [of _ "[(tn_uuid t, result)]"])
            (auto simp: outcomes_fit_def failed_verdict_def split: if_splits)
      next
        case (Retry failure)
        with True Inr p kt at Cons.prems(1) obtain sent2
          where rest: "generate_from P ops decode c turns (Some failure) ?g2 = (r, sent2, g')"
          by (auto split: prod.splits)
        from Cons.IH [OF rest _ Cons.prems(3)] kept(1) obtain new
          where new: "settled_run a (gw_accountant g') new" "outcomes_fit r (map snd new)" by auto
        from res Retry have "result \<noteq> PROVIDER_SUCCEEDED" by (simp add: failed_verdict_def)
        with new(2) have "outcomes_fit r (map snd ((tn_uuid t, result) # new))"
          by (auto simp: outcomes_fit_def split: if_splits)
        with step [OF new(1)] show ?thesis by blast
      qed
    qed
  qed
qed

lemma generate_settles:
  assumes "generate P ops decode c turns g = (r, sent, g')" "valid (gw_accountant g)" "\<not> unaccounted r"
  shows "\<exists>new. settled_run (gw_accountant g) (gw_accountant g') new \<and> outcomes_fit r (map snd new)"
proof (cases "strip (gc_purpose c) = []")
  case True
  with assms show ?thesis
    by (intro exI [of _ "[]"]) (auto simp: generate_def settled_run_Nil outcomes_fit_def answered_def)
next
  case False
  with assms(1) have "generate_from P ops decode c (rotation g (gc_start c) turns) None g = (r, sent, g')"
    by (simp add: generate_def)
  then show ?thesis by (rule generate_from_settles [OF _ assms(2,3)])
qed

end

end
