(* ===== verification/Scheduler_Accountant.thy ===== *)
theory Scheduler_Accountant
  imports Model_Gateway
begin

text \<open>
  The accountant that binds the model gateway to one scheduler credential and to the quota ledger,
  \<^verbatim>\<open>SchedulerModelAccountant\<close> of \<^verbatim>\<open>xauusd_news/news/scheduler/model_gateway.py\<close>. It provides both
  contracts the gateway relies on, so the gateway's lemmas hold of the two together: the batch
  limits bound the requests entered in the ledger, and every request that was sent has an outcome.
\<close>

section \<open>The accountant\<close>

record scheduler_accountant =
  sa_db :: scheduler_db
  sa_credential :: api_credential
  sa_urgent :: bool
  sa_workload :: workload_class
  sa_usage_id :: "string option"
  sa_next_retry :: "instant option"
  sa_failure :: "reservation_decision option"

definition new_scheduler_accountant :: "scheduler_db \<Rightarrow> api_credential \<Rightarrow> bool \<Rightarrow> string \<Rightarrow> scheduler_accountant" where
  "new_scheduler_accountant db credential urgent lane =
     \<lparr>sa_db = db, sa_credential = credential, sa_urgent = urgent,
      sa_workload = (if lane = ''CONTRACT_BACKFILL'' then BACKFILL_WORKLOAD else LIVE_OPERATIONAL),
      sa_usage_id = None, sa_next_retry = None, sa_failure = None\<rparr>"

text \<open>The two entries of \<open>decision\<close> that the accountant reads.\<close>

fun decision_next_retry :: "reservation_decision \<Rightarrow> instant option" where
  "decision_next_retry Granted = None"
| "decision_next_retry (ProviderDispatchDeferred t) = Some t"
| "decision_next_retry (TokenDayDeferred _ _ _) = None"
| "decision_next_retry (BackfillDeferred d) = Some (bf_next_retry d)"
| "decision_next_retry (CapacityDeferred d) = cd_next_retry d"

fun decision_failure_code :: "reservation_decision \<Rightarrow> string option" where
  "decision_failure_code Granted = None"
| "decision_failure_code (ProviderDispatchDeferred _) = Some ''PROVIDER_DISPATCH_DEFERRED''"
| "decision_failure_code (TokenDayDeferred _ _ _) = Some ''MODEL_CAPACITY_DEFERRED''"
| "decision_failure_code (BackfillDeferred _) = Some ''BACKFILL_BUDGET_DEFERRED''"
| "decision_failure_code (CapacityDeferred _) = Some ''MODEL_CAPACITY_DEFERRED''"

definition model_reservation ::
    "platform \<Rightarrow> scheduler_accountant \<Rightarrow> model_request_usage \<Rightarrow> quota_surface \<Rightarrow> int \<times> string option \<times> real \<Rightarrow>
     string \<Rightarrow> reservation" where
  "model_reservation P a u policy calibrated uuid =
     (case calibrated of (admitted, version, ratio) \<Rightarrow>
      \<lparr>rr_account = cred_account (sa_credential a), rr_model = mr_model u,
       rr_daily_limit = qs_daily_limit policy, rr_rpm = qs_rpm policy, rr_count = 1, rr_tokens = admitted,
       rr_tpm = Some (qs_tpm policy), rr_tpd = None, rr_shared = Some (qs_families policy),
       rr_share_minute = qs_share_minute policy,
       rr_reserve_total =
         (if mr_model u = DEFAULT_GEMINI_MODEL \<and> mr_purpose u = ''news-annotation''
          then GEMINI_DAILY_PRIORITY_RESERVE else 0),
       rr_urgent = sa_urgent a, rr_usage_id = Some uuid, rr_provider_task = Some (mr_purpose u),
       rr_requested_model = Some (mr_model u), rr_purpose = Some (mr_purpose u),
       rr_contract = Some (mr_contract u), rr_estimator = Some (mr_estimator u),
       rr_base_tokens = Some (mr_tokens u), rr_calibration_model = version,
       rr_calibration_ratio = Some (Finite ratio), rr_workload = workload_name (sa_workload a),
       rr_authority = Some (qs_payload_key policy), rr_zone = pacific P, rr_scope = None\<rparr>)"

definition after_decision ::
    "string \<Rightarrow> reservation_decision \<Rightarrow> scheduler_db \<Rightarrow> scheduler_accountant \<Rightarrow> scheduler_accountant" where
  "after_decision uuid d db a =
     a\<lparr>sa_db := db, sa_usage_id := (if d = Granted then Some uuid else None),
       sa_next_retry := decision_next_retry d, sa_failure := (if d = Granted then None else Some d)\<rparr>"

definition scheduler_reserve ::
    "platform \<Rightarrow> model_request_usage \<Rightarrow> instant \<Rightarrow> string \<Rightarrow> scheduler_accountant \<Rightarrow>
     (bool \<times> scheduler_accountant) outcome" where
  "scheduler_reserve P u now uuid a =
     bind_out (quota_surface_for_model (mr_model u)) (\<lambda>policy.
     bind_out (calibrated_input_tokens P (mr_model u) (mr_purpose u) (mr_contract u) (mr_estimator u)
                 (mr_tokens u) (sa_db a)) (\<lambda>calibrated.
     bind_out (reserve_account_request P (model_reservation P a u policy calibrated uuid) now uuid (sa_db a))
       (\<lambda>(d, db). Inr (d = Granted, after_decision uuid d db a))))"

definition effective_base_input_token_budget ::
    "platform \<Rightarrow> model_request_usage \<Rightarrow> int \<Rightarrow> scheduler_accountant \<Rightarrow> int outcome" where
  "effective_base_input_token_budget P u tpm a =
     bind_out (calibrated_input_tokens P (mr_model u) (mr_purpose u) (mr_contract u) (mr_estimator u)
                 (mr_tokens u) (sa_db a))
       (\<lambda>(_, _, ratio). Inr (max 0 \<lfloor>fl P (of_int tpm / ratio)\<rfloor>))"

definition scheduler_record ::
    "platform \<Rightarrow> outcome_report \<Rightarrow> instant \<Rightarrow> scheduler_accountant \<Rightarrow> scheduler_accountant outcome" where
  "scheduler_record P report now a =
     (case sa_usage_id a of
        None \<Rightarrow> Inl (ValueError ''provider outcome has no reserved model request'')
      | Some uid \<Rightarrow>
          bind_out (record_account_request_outcome P uid report now (sa_db a))
            (\<lambda>db. Inr (a\<lparr>sa_db := db, sa_usage_id := None,
                         sa_next_retry := provider_dispatch_next_eligible db\<rparr>)))"

definition scheduler_mark :: "instant \<Rightarrow> scheduler_accountant \<Rightarrow> scheduler_accountant outcome" where
  "scheduler_mark now a =
     (case sa_usage_id a of
        None \<Rightarrow> Inr a
      | Some uid \<Rightarrow> bind_out (mark_account_request_attempted uid now (sa_db a)) (\<lambda>db. Inr (a\<lparr>sa_db := db\<rparr>)))"

definition scheduler_ops :: "platform \<Rightarrow> scheduler_accountant accountant" where
  "scheduler_ops P =
     \<lparr>ac_reserve = scheduler_reserve P, ac_mark = scheduler_mark, ac_record = scheduler_record P,
      ac_failure_code = (\<lambda>a. Option.bind (sa_failure a) decision_failure_code),
      ac_next_retry = sa_next_retry\<rparr>"

section \<open>It keeps the contracts of the gateway\<close>

definition row_phase :: "request_usage \<Rightarrow> request_phase" where
  "row_phase r =
     (case ru_outcome r of
        Some result \<Rightarrow> Settled result
      | None \<Rightarrow> if ru_attempted_at r = None then Reserved else Attempted)"

definition request_phase_of :: "scheduler_accountant \<Rightarrow> string \<Rightarrow> request_phase option" where
  "request_phase_of a uid = map_option row_phase (find (\<lambda>r. ru_id r = uid) (db_requests (sa_db a)))"

definition ids_distinct :: "scheduler_accountant \<Rightarrow> bool" where
  "ids_distinct a \<longleftrightarrow> distinct (map ru_id (db_requests (sa_db a)))"

definition requests_held :: "scheduler_accountant \<Rightarrow> int" where
  "requests_held a = int (length (db_requests (sa_db a)))"

lemma reserve_requests:
  assumes "reserve_account_request P q now uuid db = Inr (d, db')" "rr_usage_id q = Some uuid"
  shows "if d = Granted
     then \<exists>r. db_requests db' = db_requests db @ [r] \<and> ru_id r = uuid \<and> uuid \<notin> ru_id ` set (db_requests db) \<and>
       row_phase r = Reserved
     else db_requests db' = db_requests db"
  using assms(1)
proof (cases rule: reserveE_quota)
  case (denied workload)
  then have "d \<noteq> Granted"
    by (auto simp: reservation_gate_def cooldown_check_def token_day_check_def backfill_check_def capacity_check_def
        Let_def split: option.splits if_splits prod.splits)
  with denied show ?thesis by simp
next
  case (no_slot task t)
  with dispatch_frame(1) [OF no_slot(3)] show ?thesis by (simp add: same_ledgers_def)
next
  case (granted workload db1)
  note c = commitE [OF granted(7)]
  have "ru_id (admitted_request q workload now uuid) = uuid"
    using assms(2) by (simp add: admitted_request_def nonblank_def)
  with c granted show ?thesis
    by (auto simp: same_ledgers_def row_phase_def admitted_request_def)
qed

lemma scheduler_reserveE:
  assumes "scheduler_reserve P u now uuid a = Inr (ok, a')"
  obtains (granted) r where "ok" "sa_usage_id a' = Some uuid" "ru_id r = uuid" "row_phase r = Reserved"
      "db_requests (sa_db a') = db_requests (sa_db a) @ [r]" "uuid \<notin> ru_id ` set (db_requests (sa_db a))"
  | (refused) "\<not> ok" "db_requests (sa_db a') = db_requests (sa_db a)" "sa_usage_id a' = None"
proof -
  from assms obtain policy calibrated d db
    where run: "reserve_account_request P (model_reservation P a u policy calibrated uuid) now uuid (sa_db a) = Inr (d, db)"
      and eq: "ok = (d = Granted)" "a' = after_decision uuid d db a"
    by (auto simp: scheduler_reserve_def bind_out_Inr_iff)
  have "rr_usage_id (model_reservation P a u policy calibrated uuid) = Some uuid"
    by (simp add: model_reservation_def split: prod.splits)
  from reserve_requests [OF run this] eq show ?thesis
    by (cases "d = Granted") (auto simp: after_decision_def intro: that)
qed

lemma marked_requests:
  assumes "mark_account_request_attempted uid now db = Inr db'"
  shows "db_requests db' = sql_update (\<lambda>r. ru_id r = uid) (attempted_row now) (db_requests db)"
  using assms by (auto simp: mark_account_request_attempted_def split: if_splits)

lemma find_fresh_id:
  assumes "ru_id r = uuid" "uuid \<notin> ru_id ` set rows"
  shows "find (\<lambda>r. ru_id r = k) (rows @ [r]) = (if k = uuid then Some r else find (\<lambda>r. ru_id r = k) rows)"
  using assms by (induction rows) auto

lemma find_sql_update_id:
  assumes "\<And>r. ru_id (f r) = ru_id r"
  shows "find (\<lambda>r. ru_id r = uid) (sql_update p f rows) =
     map_option (\<lambda>r. if p r then f r else r) (find (\<lambda>r. ru_id r = uid) rows)"
  using assms by (induction rows) (auto simp: sql_update_def)

lemma scheduler_recordE:
  assumes "scheduler_record P p now a = Inr a'"
  obtains uid result r where "sa_usage_id a = Some uid" "outcome_of (op_outcome p) = Some result"
    "r \<in> set (db_requests (sa_db a))" "outcome_open uid r" "sa_usage_id a' = None"
    "db_requests (sa_db a') = sql_update (outcome_open uid) (outcome_row p result now) (db_requests (sa_db a))"
proof -
  from assms obtain uid db where "sa_usage_id a = Some uid"
    "record_account_request_outcome P uid p now (sa_db a) = Inr db" "sa_db a' = db" "sa_usage_id a' = None"
    by (auto simp: scheduler_record_def bind_out_Inr_iff split: option.splits)
  then show ?thesis by (auto elim!: outcomeE intro: that)
qed

lemma row_ids [simp]:
  "ru_id (attempted_row now r) = ru_id r" "ru_id (outcome_row p result now r) = ru_id r"
  by (simp_all add: request_row_defs)

interpretation scheduler_accounts: outcome_accountant "scheduler_ops P" ids_distinct requests_held
  request_phase_of sa_usage_id for P
proof
  fix a u now uuid ok a'
  assume valid: "ids_distinct a"
  show "ids_distinct a' \<and> requests_held a' = requests_held a + (if ok then 1 else 0)"
    if "ac_reserve (scheduler_ops P) u now uuid a = Inr (ok, a')"
  proof -
    from that have "scheduler_reserve P u now uuid a = Inr (ok, a')" by (simp add: scheduler_ops_def)
    then show ?thesis
      by (cases rule: scheduler_reserveE) (use valid in \<open>simp_all add: ids_distinct_def requests_held_def\<close>)
  qed
  show "request_phase_of a uuid = None \<and> request_phase_of a' = (request_phase_of a)(uuid \<mapsto> Reserved) \<and>
      sa_usage_id a' = Some uuid" if "ac_reserve (scheduler_ops P) u now uuid a = Inr (True, a')"
  proof -
    from that have "scheduler_reserve P u now uuid a = Inr (True, a')" by (simp add: scheduler_ops_def)
    then obtain r where r: "ru_id r = uuid" "row_phase r = Reserved" "sa_usage_id a' = Some uuid"
      "db_requests (sa_db a') = db_requests (sa_db a) @ [r]" "uuid \<notin> ru_id ` set (db_requests (sa_db a))"
      by (cases rule: scheduler_reserveE) simp_all
    have "find (\<lambda>r. ru_id r = uuid) (db_requests (sa_db a)) = None"
      using r(5) by (auto simp: find_None_iff)
    moreover have "find (\<lambda>r. ru_id r = k) (db_requests (sa_db a) @ [r]) =
        (if k = uuid then Some r else find (\<lambda>r. ru_id r = k) (db_requests (sa_db a)))" for k
      by (rule find_fresh_id [OF r(1,5)])
    ultimately show ?thesis using r by (auto simp: request_phase_of_def fun_eq_iff)
  qed
  show "request_phase_of a' = request_phase_of a" if "ac_reserve (scheduler_ops P) u now uuid a = Inr (False, a')"
  proof -
    from that have "scheduler_reserve P u now uuid a = Inr (False, a')" by (simp add: scheduler_ops_def)
    then show ?thesis by (cases rule: scheduler_reserveE) (simp_all add: request_phase_of_def fun_eq_iff)
  qed
next
  fix a now a'
  assume valid: "ids_distinct a"
  show "ids_distinct a' \<and> requests_held a' = requests_held a" if "ac_mark (scheduler_ops P) now a = Inr a'"
    using that valid
    by (auto simp: scheduler_ops_def scheduler_mark_def ids_distinct_def requests_held_def bind_out_Inr_iff
        map_sql_update length_sql_update dest!: marked_requests split: option.splits)
next
  fix a now p a'
  assume valid: "ids_distinct a"
  show "ids_distinct a' \<and> requests_held a' = requests_held a" if "ac_record (scheduler_ops P) p now a = Inr a'"
  proof -
    from that have "scheduler_record P p now a = Inr a'" by (simp add: scheduler_ops_def)
    then show ?thesis
      by (cases rule: scheduler_recordE)
        (use valid in \<open>simp add: ids_distinct_def requests_held_def map_sql_update length_sql_update\<close>)
  qed
  show "\<exists>uid result. sa_usage_id a = Some uid \<and> outcome_of (op_outcome p) = Some result \<and>
      request_phase_of a uid = Some Attempted \<and> request_phase_of a' = (request_phase_of a)(uid \<mapsto> Settled result)"
    if "ac_record (scheduler_ops P) p now a = Inr a'"
  proof -
    from that have "scheduler_record P p now a = Inr a'" by (simp add: scheduler_ops_def)
    then show ?thesis
    proof (cases rule: scheduler_recordE)
      case (1 uid result r)
      have f: "find (\<lambda>k. ru_id k = uid) (db_requests (sa_db a)) = Some r"
        using find_distinct [OF valid [unfolded ids_distinct_def] 1(3)] 1(4) by (simp add: outcome_open_def)
      have "request_phase_of a uid = Some Attempted"
        using f 1(4) by (simp add: request_phase_of_def row_phase_def outcome_open_def)
      moreover have "request_phase_of a' k = ((request_phase_of a)(uid \<mapsto> Settled result)) k" for k
      proof (cases "k = uid")
        case True
        with f 1(4,6) show ?thesis
          by (simp add: request_phase_of_def find_sql_update_id row_phase_def outcome_row_def)
      next
        case False
        then have "map_option (\<lambda>r. if outcome_open uid r then outcome_row p result now r else r)
            (find (\<lambda>r. ru_id r = k) (db_requests (sa_db a))) = find (\<lambda>r. ru_id r = k) (db_requests (sa_db a))"
          by (cases "find (\<lambda>r. ru_id r = k) (db_requests (sa_db a))")
            (auto simp: outcome_open_def dest: find_SomeD)
        with False 1(6) show ?thesis by (simp add: request_phase_of_def find_sql_update_id)
      qed
      ultimately show ?thesis using 1(1,2) by blast
    qed
  qed
next
  fix a uid now
  assume valid: "ids_distinct a" and cur: "sa_usage_id a = Some uid" and ph: "request_phase_of a uid = Some Reserved"
  let ?p = "\<lambda>r. ru_id r = uid" and ?rows = "db_requests (sa_db a)"
  let ?db = "(sa_db a)\<lparr>db_requests := sql_update ?p (attempted_row now) ?rows\<rparr>"
  from ph obtain r where f: "find ?p ?rows = Some r" and r: "row_phase r = Reserved"
    by (auto simp: request_phase_of_def)
  then have mem: "r \<in> set ?rows" "ru_id r = uid" by (auto dest: find_SomeD)
  have "sql_count ?p ?rows = 1"
    by (rule sql_count_unique [where p = ?p, OF valid [unfolded ids_distinct_def] mem]) (simp add: mem)
  then have "ac_mark (scheduler_ops P) now a = Inr (a\<lparr>sa_db := ?db\<rparr>)"
    using cur by (simp add: scheduler_ops_def scheduler_mark_def mark_account_request_attempted_def)
  moreover have "request_phase_of (a\<lparr>sa_db := ?db\<rparr>) k = ((request_phase_of a)(uid \<mapsto> Attempted)) k" for k
  proof (cases "k = uid")
    case True
    with f r mem show ?thesis
      by (auto simp: request_phase_of_def find_sql_update_id row_phase_def attempted_row_def split: option.splits if_splits)
  next
    case False
    then have "map_option (\<lambda>r. if ru_id r = uid then attempted_row now r else r)
        (find (\<lambda>r. ru_id r = k) ?rows) = find (\<lambda>r. ru_id r = k) ?rows"
      by (cases "find (\<lambda>r. ru_id r = k) ?rows") (auto dest: find_SomeD)
    with False show ?thesis by (simp add: request_phase_of_def find_sql_update_id)
  qed
  ultimately show "\<exists>a'. ac_mark (scheduler_ops P) now a = Inr a' \<and>
      request_phase_of a' = (request_phase_of a)(uid \<mapsto> Attempted) \<and> sa_usage_id a' = Some uid"
    using cur by (intro exI [of _ "a\<lparr>sa_db := ?db\<rparr>"]) (auto simp: fun_eq_iff)
qed

section \<open>Properties\<close>

text \<open>
  The batch limits hold: whatever the providers answer, a call keeps every key and the batch
  within their limits, enters exactly as many requests in the ledger as it takes slots, sends no
  more requests than that, and reduces the capacity reported for the batch by their number.
\<close>

theorem batch_limits_hold:
  assumes "generate P (scheduler_ops P) decode c turns g = (r, sent, g')" "gateway_ok g" "gw_keys g \<noteq> []"
    "distinct (map ru_id (db_requests (sa_db (gw_accountant g))))"
  shows "gateway_ok g' \<and>
     gw_total g' - gw_total g =
       int (length (db_requests (sa_db (gw_accountant g')))) - int (length (db_requests (sa_db (gw_accountant g)))) \<and>
     int (length sent) \<le> gw_total g' - gw_total g \<and>
     available_batch_capacity g' = available_batch_capacity g - (gw_total g' - gw_total g)"
  using scheduler_accounts.generate_counts [OF assms(1) _ assms(2,3)] assms(4)
  by (simp add: ids_distinct_def requests_held_def)

text \<open>
  C16: every attempt is settled: unless the accountant itself fails, and while the body of an HTTP error can be
  read (or fails with an error that its reader catches), a call leaves no request of its
  own without an outcome, one of them succeeded exactly when the call answers, and the requests that
  were in the ledger before keep the phase they were in.
\<close>

theorem every_attempt_is_settled:
  assumes "generate P (scheduler_ops P) decode c turns g = (r, sent, g')"
    "distinct (map ru_id (db_requests (sa_db (gw_accountant g))))" "\<not> unaccounted r"
  shows "(\<forall>row \<in> set (db_requests (sa_db (gw_accountant g'))).
        ru_id row \<notin> ru_id ` set (db_requests (sa_db (gw_accountant g))) \<longrightarrow> ru_outcome row \<noteq> None) \<and>
     (answered r \<longleftrightarrow> (\<exists>row \<in> set (db_requests (sa_db (gw_accountant g'))).
        ru_id row \<notin> ru_id ` set (db_requests (sa_db (gw_accountant g))) \<and> ru_outcome row = Some PROVIDER_SUCCEEDED)) \<and>
     (\<forall>uid \<in> ru_id ` set (db_requests (sa_db (gw_accountant g))).
        request_phase_of (gw_accountant g') uid = request_phase_of (gw_accountant g) uid)"
proof -
  let ?a = "gw_accountant g" and ?b = "gw_accountant g'"
  have valid: "ids_distinct ?a" using assms(2) by (simp add: ids_distinct_def)
  from scheduler_accounts.generate_settles [OF assms(1) valid assms(3)] obtain new
    where run: "scheduler_accounts.settled_run ?a ?b new" and fit: "outcomes_fit r (map snd new)" by blast
  have ph: "request_phase_of ?b = settled_map new (request_phase_of ?a)"
    and dist: "distinct (map fst new)" and valid': "ids_distinct ?b"
    and fresh: "\<And>uid. uid \<in> fst ` set new \<Longrightarrow> request_phase_of ?a uid = None"
    using run by (auto simp: scheduler_accounts.settled_run_def)
  have known: "request_phase_of x uid = None \<longleftrightarrow> uid \<notin> ru_id ` set (db_requests (sa_db x))" for x uid
    by (auto simp: request_phase_of_def find_None_iff)
  have row: "request_phase_of ?b (ru_id w) = Some (row_phase w)" if "w \<in> set (db_requests (sa_db ?b))" for w
    using find_distinct [OF valid' [unfolded ids_distinct_def] that] by (simp add: request_phase_of_def)
  have new_row: "\<exists>result. (ru_id w, result) \<in> set new \<and> ru_outcome w = Some result"
    if "w \<in> set (db_requests (sa_db ?b))" "ru_id w \<notin> ru_id ` set (db_requests (sa_db ?a))" for w
  proof -
    from that(2) known have "request_phase_of ?a (ru_id w) = None" by simp
    with row [OF that(1)] ph have "map_option Settled (map_of new (ru_id w)) = Some (row_phase w)"
      by (auto simp: settled_map_def map_add_def split: option.splits)
    then show ?thesis by (auto simp: row_phase_def split: option.splits if_splits dest: map_of_SomeD)
  qed
  have entered: "\<exists>w \<in> set (db_requests (sa_db ?b)). ru_id w \<notin> ru_id ` set (db_requests (sa_db ?a)) \<and>
      ru_outcome w = Some result" if "(uid, result) \<in> set new" for uid result
  proof -
    have f: "uid \<notin> ru_id ` set (db_requests (sa_db ?a))" using fresh [of uid] known that by force
    have p: "request_phase_of ?b uid = Some (Settled result)"
      using ph dist that by (simp add: settled_map_def map_add_def)
    then obtain w where w: "w \<in> set (db_requests (sa_db ?b))" "ru_id w = uid"
      using known [of ?b uid] by auto
    with row [OF w(1)] p have "row_phase w = Settled result" by simp
    then have "ru_outcome w = Some result" by (auto simp: row_phase_def split: option.splits if_splits)
    with f w show ?thesis by blast
  qed
  have "answered r \<longleftrightarrow> PROVIDER_SUCCEEDED \<in> set (map snd new)"
    by (rule outcomes_fit_answered [OF fit])
  then have ans: "answered r \<longleftrightarrow> (\<exists>uid. (uid, PROVIDER_SUCCEEDED) \<in> set new)" by force
  have old: "request_phase_of ?b uid = request_phase_of ?a uid" if "uid \<in> ru_id ` set (db_requests (sa_db ?a))" for uid
  proof -
    have "uid \<notin> fst ` set new" using fresh [of uid] known that by auto
    then have "map_of new uid = None" by (simp add: map_of_eq_None_iff)
    then show ?thesis using ph by (simp add: settled_map_def map_add_def)
  qed
  show ?thesis using new_row entered ans old by fastforce
qed

subsection \<open>Witnesses\<close>

definition sample_call :: generation_call where
  "sample_call = \<lparr>gc_start = 0, gc_model = ''gemma-4-31b-it'', gc_purpose = ''impact'', gc_tokens = 40,
     gc_contract = None, gc_estimator = LOCAL_TOKEN_ESTIMATOR_VERSION, gc_retry_codes = [429],
     gc_retryable = (\<lambda>_. False)\<rparr>"

definition sample_turn :: "nat \<Rightarrow> turn" where
  "sample_turn i = \<lparr>tn_reserved_at = seconds (10 + 60 * int i), tn_uuid = CHR ''u'' # str_int (int i),
     tn_marked_at = seconds (11 + 60 * int i),
     tn_response = (if i = 0 then Inl (HttpError 429 (RetrySeconds 1)) else Inr (JObj [])),
     tn_done_at = seconds (12 + 60 * int i)\<rparr>"

definition sample_gateway :: "scheduler_accountant gateway" where
  "sample_gateway =
     \<lparr>gw_keys = [''key-1'', ''key-2''], gw_per_key = 1, gw_limit = Some 5, gw_counts = (\<lambda>_. 0), gw_total = 0,
      gw_accountant = new_scheduler_accountant empty_db sample_credential False ''LIVE''\<rparr>"

definition sample_run :: "unit gateway_result \<times> send list \<times> scheduler_accountant gateway" where
  "sample_run = generate sample_platform (scheduler_ops sample_platform) (\<lambda>_. Inr ()) sample_call sample_turn
     sample_gateway"

lemma sample_run_answers: "fst sample_run = Answered () ''gemma-4-31b-it''"
  by code_simp

lemma sample_run_eq: "generate sample_platform (scheduler_ops sample_platform) (\<lambda>_. Inr ()) sample_call sample_turn
     sample_gateway = (Answered () ''gemma-4-31b-it'', fst (snd sample_run), snd (snd sample_run))"
  using sample_run_answers by (simp add: sample_run_def prod_eq_iff)

lemma sample_gateway_ok: "gateway_ok sample_gateway" "gw_keys sample_gateway \<noteq> []"
  by (simp_all add: gateway_ok_def within_limit_def sample_gateway_def)

lemma sample_gateway_requests: "db_requests (sa_db (gw_accountant sample_gateway)) = []"
  by (simp add: sample_gateway_def new_scheduler_accountant_def empty_db_def)

theorem batch_limits_hold_witness: "gateway_ok (snd (snd sample_run))"
  using batch_limits_hold [OF sample_run_eq sample_gateway_ok] by (simp add: sample_gateway_requests)

theorem every_attempt_is_settled_witness:
  "\<exists>row \<in> set (db_requests (sa_db (gw_accountant (snd (snd sample_run))))). ru_outcome row = Some PROVIDER_SUCCEEDED"
proof -
  have "answered (Answered () ''gemma-4-31b-it'')" "\<not> unaccounted (Answered () ''gemma-4-31b-it'')"
    by (simp_all add: answered_def unaccounted_def)
  then show ?thesis
    using every_attempt_is_settled [OF sample_run_eq] by (auto simp: sample_gateway_requests)
qed

end
