(* ===== verification/Assistant_Capacity.thy ===== *)
theory Assistant_Capacity
  imports Assistant_Routing Scheduler_Accountant
begin

text \<open>
  Capacity routing of the Assistant, \<^verbatim>\<open>xauusd_news/assistant/capacity.py\<close>: a turn reserves capacity
  of one credential pool and model before it is sent, under the soft caps of an operator's policy
  and the health of that pair, confirms its exact size, and finishes the reservation with what the
  provider answered. The ledgers are those of the scheduler, so the Assistant and the scheduler
  share one account of every quota.

  The invocation of the model is a parameter: the requests it asks its accountant to admit, and what
  it returns given the answers. Clock readings and reservation ids are arguments. The policies are
  given; their parsing from the environment is not modelled.
\<close>

section \<open>Tables and policies\<close>

definition ASSISTANT_CAPACITY_POLICY_VERSION :: string where
  "ASSISTANT_CAPACITY_POLICY_VERSION = ''assistant-capacity-v1''"
definition MAX_ASSISTANT_CAPACITY_ATTEMPTS :: int where "MAX_ASSISTANT_CAPACITY_ATTEMPTS = 128"

datatype service_priority = INTERACTIVE | BACKGROUND
datatype reservation_state = IN_FLIGHT | SUCCEEDED | FAILED | THROTTLED | CAPACITY_REJECTED | ABANDONED
datatype health_state = HEALTHY | DEGRADED | COOLDOWN

record capacity_policy =
  cp_pool :: string
  cp_provider :: string
  cp_model :: string
  cp_shared :: "string list"
  cp_rpd :: int
  cp_rpm :: int
  cp_tpm :: int
  cp_soft :: int
  cp_in_flight :: int
  cp_ttl :: int
  cp_cooldown :: int
  cp_threshold :: int
  cp_enabled :: bool
  cp_source :: string

record capacity_row =
  rv_id :: string
  rv_pool :: string
  rv_fingerprint :: string
  rv_model :: string
  rv_profile :: string
  rv_priority :: service_priority
  rv_day :: int
  rv_minute :: instant
  rv_estimated :: int
  rv_reserved :: int
  rv_state :: reservation_state
  rv_http :: "int option"
  rv_failure :: "string option"
  rv_created_at :: instant
  rv_expires_at :: instant
  rv_completed_at :: "instant option"

record capacity_health =
  he_pool :: string
  he_model :: string
  he_health :: health_state
  he_consecutive :: int
  he_failures :: int
  he_throttles :: int
  he_cooldown_until :: "instant option"
  he_http :: "int option"
  he_last_failure :: "instant option"
  he_updated_at :: instant

record assistant_db =
  as_scheduler :: scheduler_db
  as_reservations :: "capacity_row list"
  as_health :: "capacity_health list"

text \<open>\<^verbatim>\<open>AssistantCapacityReservation\<close>, what a caller holds.\<close>

record capacity_reservation =
  hr_id :: string
  hr_pool :: string
  hr_fingerprint :: string
  hr_profile :: string
  hr_model :: string
  hr_priority :: service_priority
  hr_tokens :: int
  hr_policy :: capacity_policy

definition health_key :: "capacity_health \<Rightarrow> string \<times> string" where
  "health_key h = (he_pool h, he_model h)"

definition credential_pool_fingerprint :: "platform \<Rightarrow> string \<Rightarrow> string" where
  "credential_pool_fingerprint P pool =
     take 16 (sha256_hex P (ASSISTANT_CAPACITY_POLICY_VERSION @ '':'' @ pool))"

section \<open>What is left of a pair\<close>

definition soft_limit :: "int \<Rightarrow> int \<Rightarrow> int" where
  "soft_limit limit basis_points = limit * basis_points div 10000"

definition capacity_usage :: "platform \<Rightarrow> string \<Rightarrow> string list \<Rightarrow> instant \<Rightarrow> scheduler_db \<Rightarrow> int \<times> int \<times> int" where
  "capacity_usage P pool models now db =
     (daily_usage_of (quota_day P now) pool models (db_daily db),
      rolling_account_usage pool models now False (db_requests db))"

definition pair_health :: "capacity_policy \<Rightarrow> assistant_db \<Rightarrow> capacity_health option" where
  "pair_health pol db = find (\<lambda>h. health_key h = (cp_pool pol, cp_model pol)) (as_health db)"

definition cooling_down :: "capacity_policy \<Rightarrow> instant \<Rightarrow> assistant_db \<Rightarrow> bool" where
  "cooling_down pol now db \<longleftrightarrow>
     (case pair_health pol db of
        None \<Rightarrow> False
      | Some h \<Rightarrow> he_health h = COOLDOWN \<and> (case he_cooldown_until h of None \<Rightarrow> False | Some t \<Rightarrow> now < t))"

definition flying :: "capacity_policy \<Rightarrow> instant \<Rightarrow> capacity_row \<Rightarrow> bool" where
  "flying pol now v \<longleftrightarrow> rv_pool v = cp_pool pol \<and> rv_model v = cp_model pol \<and> rv_state v = IN_FLIGHT \<and>
     now < rv_expires_at v"

definition capacity_limits :: "capacity_policy \<Rightarrow> int list" where
  "capacity_limits pol =
     [soft_limit (cp_rpd pol) (cp_soft pol), soft_limit (cp_rpm pol) (cp_soft pol),
      soft_limit (cp_tpm pol) (cp_soft pol), cp_in_flight pol]"

definition projected_usage :: "platform \<Rightarrow> capacity_policy \<Rightarrow> int \<Rightarrow> instant \<Rightarrow> assistant_db \<Rightarrow> int list" where
  "projected_usage P pol tokens now db =
     (case capacity_usage P (cp_pool pol) (cp_shared pol) now (as_scheduler db) of
        (daily, requests, used) \<Rightarrow>
          [daily + 1, requests + 1, used + tokens, sql_count (flying pol now) (as_reservations db) + 1])"

text \<open>The score of a pair with capacity; \<open>None\<close> stands for \<open>_CapacitySnapshot(0.0, False)\<close>.\<close>

definition capacity_snapshot :: "platform \<Rightarrow> capacity_policy \<Rightarrow> int \<Rightarrow> instant \<Rightarrow> assistant_db \<Rightarrow> real option" where
  "capacity_snapshot P pol tokens now db =
     (if cooling_down pol now db then None
      else
        (let pairs = zip (projected_usage P pol tokens now db) (capacity_limits pol)
         in if list_ex (\<lambda>(used, limit). limit \<le> 0 \<or> limit < used) pairs then None
            else Some
              (fl P (Min (set (map (\<lambda>(used, limit). max 0 (fl P (of_int (limit - used) / of_int limit))) pairs)) *
               (case pair_health pol db of Some h \<Rightarrow> if he_health h = DEGRADED then 1 / 2 else 1 | None \<Rightarrow> 1)))))"

section \<open>Reserving, confirming and finishing\<close>

definition expire_reservations :: "instant \<Rightarrow> capacity_row list \<Rightarrow> capacity_row list" where
  "expire_reservations now rows =
     sql_update (\<lambda>v. rv_state v = IN_FLIGHT \<and> rv_expires_at v \<le> now)
       (\<lambda>v. v\<lparr>rv_state := ABANDONED, rv_failure := Some ''RESERVATION_EXPIRED'', rv_completed_at := Some now\<rparr>) rows"

definition capacity_daily :: "platform \<Rightarrow> string \<Rightarrow> string \<Rightarrow> instant \<Rightarrow> daily_usage list \<Rightarrow> daily_usage list" where
  "capacity_daily P pool model now rows =
     sql_upsert daily_key (\<lambda>u. u\<lparr>du_count := du_count u + 1, du_updated_at := now\<rparr>)
       \<lparr>du_day = quota_day P now, du_account = pool, du_model = model, du_count = 1, du_updated_at = now\<rparr> rows"

definition capacity_minute :: "string \<Rightarrow> string \<Rightarrow> int \<Rightarrow> instant \<Rightarrow> minute_usage list \<Rightarrow> minute_usage list" where
  "capacity_minute pool model tokens now rows =
     sql_upsert minute_key
       (\<lambda>u. u\<lparr>mu_count := mu_count u + 1, mu_tokens := mu_tokens u + tokens, mu_updated_at := now\<rparr>)
       \<lparr>mu_minute = minute_bucket now, mu_account = pool, mu_model = model, mu_count = 1, mu_tokens = tokens,
        mu_updated_at = now\<rparr> rows"

definition capacity_request :: "string \<Rightarrow> string \<Rightarrow> string \<Rightarrow> int \<Rightarrow> instant \<Rightarrow> request_usage" where
  "capacity_request uuid pool model tokens now =
     \<lparr>ru_id = uuid, ru_account = pool, ru_model = model, ru_count = 1, ru_tokens = tokens, ru_reserved_at = now,
      ru_attempted_at = None, ru_outcome = None, ru_http_status = None, ru_completed_at = None,
      ru_vectors_at = None, ru_prompt_tokens = None, ru_candidates_tokens = None, ru_total_tokens = None,
      ru_requested_model = None, ru_purpose = None, ru_prompt_contract = None, ru_estimator = None,
      ru_base_tokens = None, ru_admitted_tokens = None, ru_calibration_model = None,
      ru_calibration_ratio = None, ru_provider_model = None, ru_workload = LIVE_OPERATIONAL\<rparr>"

definition new_capacity_row ::
    "platform \<Rightarrow> capacity_policy \<Rightarrow> model_profile \<Rightarrow> service_priority \<Rightarrow> int \<Rightarrow> instant \<Rightarrow> string \<Rightarrow> capacity_row" where
  "new_capacity_row P pol profile priority tokens now uuid =
     \<lparr>rv_id = uuid, rv_pool = cp_pool pol, rv_fingerprint = credential_pool_fingerprint P (cp_pool pol),
      rv_model = mp_model profile, rv_profile = mp_id profile, rv_priority = priority,
      rv_day = quota_day P now, rv_minute = minute_bucket now, rv_estimated = tokens, rv_reserved = tokens,
      rv_state = IN_FLIGHT, rv_http = None, rv_failure = None, rv_created_at = now,
      rv_expires_at = now + seconds (cp_ttl pol), rv_completed_at = None\<rparr>"

text \<open>The inserts under the write lock: the two counters, the request and the reservation itself.\<close>

definition commit_capacity ::
    "platform \<Rightarrow> capacity_policy \<Rightarrow> model_profile \<Rightarrow> service_priority \<Rightarrow> int \<Rightarrow> instant \<Rightarrow> string \<Rightarrow> assistant_db \<Rightarrow>
     assistant_db outcome" where
  "commit_capacity P pol profile priority tokens now uuid db =
     (let s = as_scheduler db; pool = cp_pool pol; model = mp_model profile
      in if tokens \<le> 0 then Inl (IntegrityError ''CHECK constraint failed'')
         else if uuid \<in> ru_id ` set (db_requests s) \<or> uuid \<in> rv_id ` set (as_reservations db)
         then Inl (IntegrityError ''UNIQUE constraint failed'')
         else Inr (db\<lparr>as_scheduler := s\<lparr>db_daily := capacity_daily P pool model now (db_daily s),
                                         db_minute := capacity_minute pool model tokens now (db_minute s),
                                         db_requests := db_requests s @ [capacity_request uuid pool model tokens now]\<rparr>,
                      as_reservations :=
                        as_reservations db @ [new_capacity_row P pol profile priority tokens now uuid]\<rparr>))"

definition held_reservation ::
    "platform \<Rightarrow> capacity_policy \<Rightarrow> model_profile \<Rightarrow> service_priority \<Rightarrow> int \<Rightarrow> string \<Rightarrow> capacity_reservation" where
  "held_reservation P pol profile priority tokens uuid =
     \<lparr>hr_id = uuid, hr_pool = cp_pool pol, hr_fingerprint = credential_pool_fingerprint P (cp_pool pol),
      hr_profile = mp_id profile, hr_model = mp_model profile, hr_priority = priority, hr_tokens = tokens,
      hr_policy = pol\<rparr>"

definition reserve_assistant_capacity ::
    "platform \<Rightarrow> capacity_policy \<Rightarrow> model_profile \<Rightarrow> service_priority \<Rightarrow> int \<Rightarrow> instant \<Rightarrow> string \<Rightarrow> assistant_db \<Rightarrow>
     (capacity_reservation option \<times> assistant_db) outcome" where
  "reserve_assistant_capacity P pol profile priority tokens now uuid db =
     (let db1 = db\<lparr>as_reservations := expire_reservations now (as_reservations db)\<rparr>
      in if capacity_snapshot P pol tokens now db1 = None then Inr (None, db)
         else bind_out (commit_capacity P pol profile priority tokens now uuid db1)
           (\<lambda>db2. Inr (Some (held_reservation P pol profile priority tokens uuid), db2)))"

definition grow_reservation :: "capacity_reservation \<Rightarrow> capacity_row \<Rightarrow> int \<Rightarrow> instant \<Rightarrow> assistant_db \<Rightarrow> assistant_db" where
  "grow_reservation r row actual now db =
     (let s = as_scheduler db; delta = actual - hr_tokens r
      in db\<lparr>as_scheduler := s\<lparr>
              db_minute := sql_update
                (\<lambda>u. minute_key u = (rv_minute row, cp_pool (hr_policy r), hr_model r))
                (\<lambda>u. u\<lparr>mu_tokens := mu_tokens u + delta, mu_updated_at := now\<rparr>) (db_minute s),
              db_requests := sql_update (\<lambda>u. ru_id u = hr_id r)
                (\<lambda>u. u\<lparr>ru_tokens := ru_tokens u + delta\<rparr>) (db_requests s)\<rparr>,
            as_reservations := sql_update (\<lambda>v. rv_id v = hr_id r)
              (\<lambda>v. v\<lparr>rv_reserved := actual\<rparr>) (as_reservations db)\<rparr>)"

text \<open>
  The usage is read at the start of the minute of the reservation, as the code does; see the
  finding below.
\<close>

definition confirm_reserved_tokens ::
    "platform \<Rightarrow> capacity_reservation \<Rightarrow> int \<Rightarrow> instant \<Rightarrow> assistant_db \<Rightarrow> (bool \<times> assistant_db) outcome" where
  "confirm_reserved_tokens P r actual now db =
     (if actual < 1 \<or> 1000000000 < actual
      then Inl (ValueError ''Assistant capacity actual_input_tokens is invalid'')
      else if actual \<le> hr_tokens r then Inr (True, db)
      else case find (\<lambda>v. rv_id v = hr_id r) (as_reservations db) of
        None \<Rightarrow> Inr (False, db)
      | Some row \<Rightarrow>
          if rv_state row \<noteq> IN_FLIGHT then Inr (False, db)
          else
            (let pol = hr_policy r;
                 recent = snd (snd (capacity_usage P (cp_pool pol) (cp_shared pol) (rv_minute row) (as_scheduler db)))
             in if soft_limit (cp_tpm pol) (cp_soft pol) < recent + (actual - hr_tokens r) then Inr (False, db)
                else Inr (True, grow_reservation r row actual now db)))"

definition health_cooldown :: "capacity_policy \<Rightarrow> int option \<Rightarrow> int \<Rightarrow> bool" where
  "health_cooldown pol http consecutive \<longleftrightarrow>
     http = Some 429 \<or>
     (http = None \<or> http \<in> {Some 500, Some 502, Some 503, Some 504}) \<and> cp_threshold pol \<le> consecutive"

definition health_after_failure ::
    "capacity_policy \<Rightarrow> int option \<Rightarrow> instant \<Rightarrow> capacity_health option \<Rightarrow> capacity_health" where
  "health_after_failure pol http now prior =
     (let old = (\<lambda>f. case prior of None \<Rightarrow> 0 | Some h \<Rightarrow> f h);
          consecutive = old he_consecutive + 1;
          cooldown = health_cooldown pol http consecutive
      in \<lparr>he_pool = cp_pool pol, he_model = cp_model pol,
          he_health = (if cooldown then COOLDOWN else DEGRADED), he_consecutive = consecutive,
          he_failures = old he_failures + 1,
          he_throttles = old he_throttles + (if http = Some 429 then 1 else 0),
          he_cooldown_until = (if cooldown then Some (now + seconds (cp_cooldown pol)) else None),
          he_http = http, he_last_failure = Some now, he_updated_at = now\<rparr>)"

definition health_after ::
    "capacity_policy \<Rightarrow> reservation_state \<Rightarrow> int option \<Rightarrow> bool \<Rightarrow> instant \<Rightarrow> assistant_db \<Rightarrow> capacity_health list" where
  "health_after pol state http affects now db =
     (if state = SUCCEEDED
      then sql_upsert health_key
        (\<lambda>h. h\<lparr>he_health := HEALTHY, he_consecutive := 0, he_cooldown_until := None, he_http := None,
               he_updated_at := now\<rparr>)
        \<lparr>he_pool = cp_pool pol, he_model = cp_model pol, he_health = HEALTHY, he_consecutive = 0, he_failures = 0,
         he_throttles = 0, he_cooldown_until = None, he_http = None, he_last_failure = None, he_updated_at = now\<rparr>
        (as_health db)
      else if affects
      then (let new = health_after_failure pol http now (pair_health pol db)
            in sql_upsert health_key (\<lambda>_. new) new (as_health db))
      else as_health db)"

definition code_char :: "char \<Rightarrow> bool" where "code_char c \<longleftrightarrow> is_upper c \<or> is_digit c \<or> c = CHR ''_''"

definition failure_code_ok :: "string \<Rightarrow> bool" where
  "failure_code_ok = full_match code_char code_char 2 63"

definition finish_reservation ::
    "capacity_reservation \<Rightarrow> reservation_state \<Rightarrow> instant \<Rightarrow> int option \<Rightarrow> string option \<Rightarrow> bool \<Rightarrow> assistant_db \<Rightarrow>
     assistant_db outcome" where
  "finish_reservation r state now http failure affects db =
     (if (case failure of None \<Rightarrow> False | Some f \<Rightarrow> \<not> failure_code_ok f)
      then Inl (ValueError ''Assistant capacity failure_code is invalid'')
      else
        (let own = (\<lambda>v. rv_id v = hr_id r \<and> rv_state v = IN_FLIGHT)
         in if sql_count own (as_reservations db) \<noteq> 1 then Inr db
            else Inr (db\<lparr>as_reservations := sql_update own
                           (\<lambda>v. v\<lparr>rv_state := state, rv_http := http, rv_failure := failure,
                                  rv_completed_at := Some now\<rparr>) (as_reservations db),
                         as_health := health_after (hr_policy r) state http affects now db\<rparr>)))"

section \<open>The pre-reserved accountant\<close>

record pre_reserved =
  pa_db :: assistant_db
  pa_reservation :: capacity_reservation
  pa_confirmed :: bool

definition pre_reserve ::
    "platform \<Rightarrow> model_request_usage \<Rightarrow> instant \<Rightarrow> string \<Rightarrow> pre_reserved \<Rightarrow> (bool \<times> pre_reserved) outcome" where
  "pre_reserve P u now uuid a =
     (if pa_confirmed a then Inr (False, a)
      else if mr_model u \<noteq> hr_model (pa_reservation a) \<or> strip (mr_purpose u) = []
      then Inl (ValueError ''Assistant gateway usage does not match reservation'')
      else bind_out (confirm_reserved_tokens P (pa_reservation a) (mr_tokens u) now (pa_db a))
        (\<lambda>(ok, db). Inr (ok, a\<lparr>pa_db := db, pa_confirmed := ok\<rparr>)))"

text \<open>Marking and recording are inherited from the base class, which does nothing.\<close>

definition pre_ops :: "platform \<Rightarrow> pre_reserved accountant" where
  "pre_ops P =
     \<lparr>ac_reserve = pre_reserve P, ac_mark = (\<lambda>_ a. Inr a), ac_record = (\<lambda>_ _ a. Inr a),
      ac_failure_code = (\<lambda>_. None), ac_next_retry = (\<lambda>_. None)\<rparr>"

interpretation pre_reserved_accounts: admission_accountant "pre_ops P" "\<lambda>_. True"
  "\<lambda>a. if pa_confirmed a then 1 else 0" for P
  by unfold_locales (auto simp: pre_ops_def pre_reserve_def bind_out_Inr_iff split: if_splits)

section \<open>Soft caps\<close>

lemma snapshot_limits:
  assumes "capacity_snapshot P pol tokens now db \<noteq> None"
    "capacity_usage P (cp_pool pol) (cp_shared pol) now (as_scheduler db) = (daily, requests, used)"
  shows "\<not> cooling_down pol now db" "daily + 1 \<le> soft_limit (cp_rpd pol) (cp_soft pol)"
    "requests + 1 \<le> soft_limit (cp_rpm pol) (cp_soft pol)"
    "used + tokens \<le> soft_limit (cp_tpm pol) (cp_soft pol)"
    "sql_count (flying pol now) (as_reservations db) + 1 \<le> cp_in_flight pol"
  using assms by (auto simp: capacity_snapshot_def projected_usage_def capacity_limits_def Let_def split: if_splits)

lemma reserveE_capacity:
  assumes "reserve_assistant_capacity P pol profile priority tokens now uuid db = Inr (Some r, db')"
  obtains db1 where "db1 = db\<lparr>as_reservations := expire_reservations now (as_reservations db)\<rparr>"
    "capacity_snapshot P pol tokens now db1 \<noteq> None"
    "commit_capacity P pol profile priority tokens now uuid db1 = Inr db'"
    "r = held_reservation P pol profile priority tokens uuid"
  using assms that by (auto simp: reserve_assistant_capacity_def Let_def bind_out_Inr_iff split: if_splits)

lemma commit_capacityE:
  assumes "commit_capacity P pol profile priority tokens now uuid db = Inr db'"
  shows "uuid \<notin> ru_id ` set (db_requests (as_scheduler db))" "uuid \<notin> rv_id ` set (as_reservations db)" "0 < tokens"
    "as_reservations db' = as_reservations db @ [new_capacity_row P pol profile priority tokens now uuid]"
    "as_health db' = as_health db"
    "db_daily (as_scheduler db') = capacity_daily P (cp_pool pol) (mp_model profile) now (db_daily (as_scheduler db))"
    "db_minute (as_scheduler db') = capacity_minute (cp_pool pol) (mp_model profile) tokens now (db_minute (as_scheduler db))"
    "db_requests (as_scheduler db') =
       db_requests (as_scheduler db) @ [capacity_request uuid (cp_pool pol) (mp_model profile) tokens now]"
  using assms by (auto simp: commit_capacity_def Let_def split: if_splits)

lemma capacity_daily_count:
  assumes "distinct (map daily_key rows)" "model \<in> set models"
  shows "daily_usage_of (quota_day P now) pool models (capacity_daily P pool model now rows) =
     daily_usage_of (quota_day P now) pool models rows + 1"
proof -
  have "capacity_daily P pool model now rows = daily_ledger.post
      \<lparr>du_day = quota_day P now, du_account = pool, du_model = model, du_count = 1, du_updated_at = now\<rparr> rows"
    by (simp add: capacity_daily_def daily_ledger.post_def)
  then show ?thesis
    using daily_ledger.post_sum [OF assms(1), of "\<lambda>(d, a, m). d = quota_day P now \<and> a = pool \<and> m \<in> set models"]
      assms(2)
    by (simp add: daily_usage_of_def daily_key_def)
qed

lemma flying_expired: "sql_count (flying pol now) (expire_reservations now rows) = sql_count (flying pol now) rows"
  by (induction rows) (auto simp: expire_reservations_def sql_update_def flying_def sql_count_def)

text \<open>
  C17: the Assistant stays under its soft caps: once a reservation is granted, the usage of its pool,
  this reservation included, is within the soft caps of the policy in requests of the day, requests
  and tokens of the last 60 seconds, at most the allowed number of reservations of the pair is in
  flight, and the pair was not cooling down.
\<close>

theorem soft_caps_hold:
  assumes "reserve_assistant_capacity P pol profile priority tokens now uuid db = Inr (Some r, db')"
    "keys_ok (as_scheduler db)" "mp_model profile = cp_model pol" "cp_model pol \<in> set (cp_shared pol)" "0 < cp_ttl pol"
  shows "fst (capacity_usage P (cp_pool pol) (cp_shared pol) now (as_scheduler db'))
       \<le> soft_limit (cp_rpd pol) (cp_soft pol) \<and>
     fst (snd (capacity_usage P (cp_pool pol) (cp_shared pol) now (as_scheduler db')))
       \<le> soft_limit (cp_rpm pol) (cp_soft pol) \<and>
     snd (snd (capacity_usage P (cp_pool pol) (cp_shared pol) now (as_scheduler db')))
       \<le> soft_limit (cp_tpm pol) (cp_soft pol) \<and>
     sql_count (flying pol now) (as_reservations db') \<le> cp_in_flight pol \<and> \<not> cooling_down pol now db \<and>
     hr_id r = uuid"
  using assms(1)
proof (cases rule: reserveE_capacity)
  case (1 db1)
  note c = commit_capacityE [OF 1(3)]
  obtain daily requests used where u:
    "capacity_usage P (cp_pool pol) (cp_shared pol) now (as_scheduler db1) = (daily, requests, used)"
    by (cases "capacity_usage P (cp_pool pol) (cp_shared pol) now (as_scheduler db1)")
  note lim = snapshot_limits [OF 1(2) u]
  have same: "as_scheduler db1 = as_scheduler db" using 1(1) by simp
  have d: "distinct (map daily_key (db_daily (as_scheduler db1)))" using assms(2) same by (simp add: keys_ok_def)
  have "capacity_usage P (cp_pool pol) (cp_shared pol) now (as_scheduler db') = (daily + 1, requests + 1, used + tokens)"
    using u c(6,8) capacity_daily_count [OF d, of "mp_model profile" "cp_shared pol"] assms(3,4)
    by (simp add: capacity_usage_def rolling_account_usage_def Let_def usage_in_scope_def
        effective_input_tokens_def capacity_request_def)
  moreover have "sql_count (flying pol now) (as_reservations db') = sql_count (flying pol now) (as_reservations db1) + 1"
    using c(4) assms(3,5) by (simp add: sql_count_def flying_def new_capacity_row_def)
  moreover have "\<not> cooling_down pol now db" using lim(1) 1(1) by (simp add: cooling_down_def pair_health_def)
  ultimately show ?thesis using lim 1(4) by (simp add: held_reservation_def)
qed

section \<open>Finishing\<close>

lemma find_upsert_same:
  assumes "key new = k" "\<And>r. key r = k \<Longrightarrow> key (f r) = k"
  shows "find (\<lambda>r. key r = k) (sql_upsert key f new rows) =
     Some (case find (\<lambda>r. key r = k) rows of None \<Rightarrow> new | Some r \<Rightarrow> f r)"
proof (cases "k \<in> key ` set rows")
  case True
  then obtain r where r: "find (\<lambda>r. key r = k) rows = Some r" by (auto dest: find_ex)
  with True assms find_update_same [of "\<lambda>r. key r = k" f rows] show ?thesis by (simp add: sql_upsert_def)
next
  case False
  then have n: "\<forall>x \<in> set rows. \<not> key x = k" by auto
  then have "find (\<lambda>r. key r = k) rows = None" by (simp add: find_None_iff)
  with False assms(1) find_append_new [OF n assms(1)] show ?thesis by (simp add: sql_upsert_def)
qed

definition own_flight :: "capacity_reservation \<Rightarrow> capacity_row \<Rightarrow> bool" where
  "own_flight r v \<longleftrightarrow> rv_id v = hr_id r \<and> rv_state v = IN_FLIGHT"

lemma finishE:
  assumes "finish_reservation r state now http failure affects db = Inr db'"
    "sql_count (own_flight r) (as_reservations db) = 1"
  shows "as_scheduler db' = as_scheduler db"
    "as_reservations db' = sql_update (own_flight r)
       (\<lambda>v. v\<lparr>rv_state := state, rv_http := http, rv_failure := failure, rv_completed_at := Some now\<rparr>) (as_reservations db)"
    "as_health db' = health_after (hr_policy r) state http affects now db"
  using assms by (auto simp: finish_reservation_def own_flight_def [abs_def] Let_def split: if_splits)

lemma finish_closed:
  assumes "sql_count (own_flight r) (as_reservations db) = 0"
    "case failure of None \<Rightarrow> True | Some f \<Rightarrow> failure_code_ok f"
  shows "finish_reservation r state now http failure affects db = Inr db"
  using assms by (auto simp: finish_reservation_def own_flight_def [abs_def] split: option.splits)

definition prior_failures :: "capacity_policy \<Rightarrow> assistant_db \<Rightarrow> int" where
  "prior_failures pol db = (case pair_health pol db of None \<Rightarrow> 0 | Some h \<Rightarrow> he_consecutive h)"

lemma failure_health [simp]:
  "he_health (health_after_failure pol http now (pair_health pol db)) =
     (if health_cooldown pol http (prior_failures pol db + 1) then COOLDOWN else DEGRADED)"
  "he_cooldown_until (health_after_failure pol http now (pair_health pol db)) =
     (if health_cooldown pol http (prior_failures pol db + 1) then Some (now + seconds (cp_cooldown pol)) else None)"
  by (simp_all add: health_after_failure_def prior_failures_def Let_def split: option.splits)

lemma health_after_pair:
  assumes "as_health db' = health_after pol state http True now db" "state \<noteq> SUCCEEDED"
  shows "pair_health pol db' = Some (health_after_failure pol http now (pair_health pol db))"
proof -
  let ?new = "health_after_failure pol http now (pair_health pol db)"
  have k: "health_key ?new = (cp_pool pol, cp_model pol)" by (simp add: health_key_def health_after_failure_def Let_def)
  have "as_health db' = sql_upsert health_key (\<lambda>_. ?new) ?new (as_health db)"
    using assms by (simp add: health_after_def Let_def)
  then show ?thesis
    using find_upsert_same [where key = health_key, OF k, of "\<lambda>_. ?new" "as_health db"] k
    by (simp add: pair_health_def split: option.splits)
qed

lemma cooling_blocks:
  assumes "cooling_down pol now db"
  shows "reserve_assistant_capacity P pol profile priority tokens now uuid db = Inr (None, db)"
proof -
  have "capacity_snapshot P pol tokens now (db\<lparr>as_reservations := rows\<rparr>) = None" for rows
    using assms by (simp add: capacity_snapshot_def cooling_down_def pair_health_def)
  then show ?thesis by (simp add: reserve_assistant_capacity_def)
qed

text \<open>
  A reservation is finished once, and a failure that calls for a cooldown is obeyed: the first
  finish of a reservation in flight closes it, every later finish of it changes nothing, and after a
  throttled or repeatedly failing request the pool and model admit no reservation until the
  cooldown of the policy is over.
\<close>

theorem cooldown_is_obeyed:
  assumes "finish_reservation r state now http failure True db = Inr db'"
    "sql_count (own_flight r) (as_reservations db) = 1" "state \<noteq> SUCCEEDED" "state \<noteq> IN_FLIGHT"
    "health_cooldown (hr_policy r) http (prior_failures (hr_policy r) db + 1)"
    "later < now + seconds (cp_cooldown (hr_policy r))"
  shows "reserve_assistant_capacity P (hr_policy r) profile priority tokens later uuid db' = Inr (None, db') \<and>
     finish_reservation r SUCCEEDED later None None False db' = Inr db'"
proof -
  note f = finishE [OF assms(1,2)]
  let ?pol = "hr_policy r"
  have h: "pair_health ?pol db' = Some (health_after_failure ?pol http now (pair_health ?pol db))"
    by (rule health_after_pair [OF f(3) assms(3)])
  with assms(5,6) have "cooling_down ?pol later db'" by (simp add: cooling_down_def)
  then have "reserve_assistant_capacity P ?pol profile priority tokens later uuid db' = Inr (None, db')"
    by (rule cooling_blocks)
  moreover have "sql_count (own_flight r) (as_reservations db') = 0"
  proof -
    have "\<not> own_flight r v" if "v \<in> set (as_reservations db')" for v
    proof -
      have "v \<in> set (sql_update (own_flight r)
          (\<lambda>v. v\<lparr>rv_state := state, rv_http := http, rv_failure := failure, rv_completed_at := Some now\<rparr>)
          (as_reservations db))" using that f(2) by simp
      then show ?thesis by (cases rule: sql_updateE) (use assms(4) in \<open>simp_all add: own_flight_def\<close>)
    qed
    then show ?thesis by (simp add: sql_count_eq_0_iff)
  qed
  then have "finish_reservation r SUCCEEDED later None None False db' = Inr db'"
    by (rule finish_closed) simp
  ultimately show ?thesis by blast
qed

section \<open>One request for one reservation\<close>

text \<open>
  A reservation is spent once: a gateway that accounts to one pre-reservation sends at most one
  request to the provider, however many keys it may rotate through, and only after the exact size of
  the request was confirmed against the reservation.
\<close>

theorem reservation_is_spent_once:
  assumes "generate P (pre_ops P) decode c turns g = (result, sent, g')" "gateway_ok g" "gw_keys g \<noteq> []"
  shows "length sent \<le> 1 \<and> (sent = [] \<or> \<not> pa_confirmed (gw_accountant g) \<and> pa_confirmed (gw_accountant g'))"
proof -
  note n = pre_reserved_accounts.generate_counts [OF assms(1) TrueI assms(2,3)]
  show ?thesis using n(3,4) by (cases sent) (auto split: if_splits)
qed

section \<open>Concrete runs\<close>

definition sample_policy :: capacity_policy where
  "sample_policy = \<lparr>cp_pool = ''acct'', cp_provider = GOOGLE_GENERATIVE_LANGUAGE, cp_model = DEFAULT_GEMMA_MODEL,
     cp_shared = [DEFAULT_GEMMA_MODEL], cp_rpd = 100, cp_rpm = 10, cp_tpm = 2000, cp_soft = 8000, cp_in_flight = 2,
     cp_ttl = 180, cp_cooldown = 60, cp_threshold = 2, cp_enabled = True, cp_source = ''CONFIGURED''\<rparr>"

definition sample_profile :: model_profile where
  "sample_profile = hd DEFAULT_ASSISTANT_MODEL_PROFILES"

definition empty_assistant_db :: assistant_db where
  "empty_assistant_db = \<lparr>as_scheduler = empty_db, as_reservations = [], as_health = []\<rparr>"

text \<open>A reservation of 1000 tokens, 30 seconds into a minute; the soft cap is 1600 tokens a minute.\<close>

definition sample_reserved :: "(capacity_reservation option \<times> assistant_db) outcome" where
  "sample_reserved =
     reserve_assistant_capacity sample_platform sample_policy sample_profile INTERACTIVE 1000 (seconds 30) ''r1''
       empty_assistant_db"

definition sample_held :: capacity_reservation where
  "sample_held = held_reservation sample_platform sample_policy sample_profile INTERACTIVE 1000 ''r1''"

definition sample_flying_db :: assistant_db where
  "sample_flying_db = snd (projr sample_reserved)"

lemma sample_reserved_runs: "\<not> isl sample_reserved" "fst (projr sample_reserved) = Some sample_held"
  by code_simp+

lemma sample_reserved_eq:
  "reserve_assistant_capacity sample_platform sample_policy sample_profile INTERACTIVE 1000 (seconds 30) ''r1''
     empty_assistant_db = Inr (Some sample_held, sample_flying_db)"
proof (rule trans [OF sample_reserved_def [symmetric]])
  show "sample_reserved = Inr (Some sample_held, sample_flying_db)"
    using run_succeeds [OF sample_reserved_runs(1)]
    by (simp add: sample_reserved_runs(2) sample_flying_db_def [symmetric])
qed

lemma sample_policy_fits:
  "mp_model sample_profile = cp_model sample_policy" "cp_model sample_policy \<in> set (cp_shared sample_policy)"
  "0 < cp_ttl sample_policy"
  by (simp_all add: sample_policy_def sample_profile_def DEFAULT_ASSISTANT_MODEL_PROFILES_def)

theorem soft_caps_hold_witness:
  "sql_count (flying sample_policy (seconds 30)) (as_reservations sample_flying_db) \<le> 2"
  using soft_caps_hold [OF sample_reserved_eq _ sample_policy_fits]
  by (simp add: empty_assistant_db_def keys_ok_empty sample_policy_def)

text \<open>
  The exact size is compared with the usage at the start of the minute the reservation was made in, so
  the reservations of that minute, this one included, are not counted: the confirmation of 1700
  tokens is accepted and the usage of the last 60 seconds passes the soft cap of 1600.
\<close>

definition sample_confirmed :: "(bool \<times> assistant_db) outcome" where
  "sample_confirmed = confirm_reserved_tokens sample_platform sample_held 1700 (seconds 31) sample_flying_db"

lemma confirmation_can_pass_the_soft_cap:
  "fst (projr sample_confirmed) \<and> soft_limit (cp_tpm sample_policy) (cp_soft sample_policy) = 1600 \<and>
   snd (snd (capacity_usage sample_platform ''acct'' [DEFAULT_GEMMA_MODEL] (seconds 31)
     (as_scheduler (snd (projr sample_confirmed))))) = 1700"
  by code_simp

definition sample_throttled :: "assistant_db outcome" where
  "sample_throttled = finish_reservation sample_held THROTTLED (seconds 40) (Some 429) (Some ''PROVIDER_HTTP_429'')
     True sample_flying_db"

lemma sample_throttled_runs:
  "\<not> isl sample_throttled" "sql_count (own_flight sample_held) (as_reservations sample_flying_db) = 1"
  by code_simp+

theorem cooldown_is_obeyed_witness:
  "reserve_assistant_capacity sample_platform sample_policy sample_profile BACKGROUND 10 (seconds 99) ''r2''
     (projr sample_throttled) = Inr (None, projr sample_throttled)"
proof -
  have run: "finish_reservation sample_held THROTTLED (seconds 40) (Some 429) (Some ''PROVIDER_HTTP_429'') True
      sample_flying_db = Inr (projr sample_throttled)"
    by (rule trans [OF sample_throttled_def [symmetric]]) (use sample_throttled_runs(1) in simp)
  have pol: "hr_policy sample_held = sample_policy" by (simp add: sample_held_def held_reservation_def)
  show ?thesis
    using cooldown_is_obeyed [OF run sample_throttled_runs(2), of "seconds 99"]
    by (simp add: pol health_cooldown_def) (simp add: sample_policy_def)
qed

definition sample_assistant_gateway :: "pre_reserved gateway" where
  "sample_assistant_gateway =
     \<lparr>gw_keys = [''key-1'', ''key-2''], gw_per_key = 1, gw_limit = None, gw_counts = (\<lambda>_. 0), gw_total = 0,
      gw_accountant = \<lparr>pa_db = sample_flying_db, pa_reservation = sample_held, pa_confirmed = False\<rparr>\<rparr>"

definition sample_assistant_run :: "unit gateway_result \<times> send list \<times> pre_reserved gateway" where
  "sample_assistant_run = generate sample_platform (pre_ops sample_platform) (\<lambda>_. Inr ()) sample_call sample_turn
     sample_assistant_gateway"

theorem reservation_is_spent_once_witness: "length (fst (snd sample_assistant_run)) \<le> 1"
proof -
  have "generate sample_platform (pre_ops sample_platform) (\<lambda>_. Inr ()) sample_call sample_turn
      sample_assistant_gateway =
      (fst sample_assistant_run, fst (snd sample_assistant_run), snd (snd sample_assistant_run))"
    by (simp add: sample_assistant_run_def)
  moreover have "gateway_ok sample_assistant_gateway" "gw_keys sample_assistant_gateway \<noteq> []"
    by (simp_all add: gateway_ok_def within_limit_def sample_assistant_gateway_def)
  ultimately show ?thesis using reservation_is_spent_once by blast
qed

end
