(* ===== verification/Assistant_Execution.thy ===== *)
theory Assistant_Execution
  imports Assistant_Capacity
begin

text \<open>
  \<^verbatim>\<open>execute_assistant_capacity_route\<close> of \<^verbatim>\<open>xauusd_news/assistant/capacity.py\<close>: the validation of
  credentials and policies, the choice of pool and credential for each model of a plan, and the loop
  that reserves, invokes and finishes until a turn is served. Nothing is left in flight behind it.

  Every pass of the loop takes a turn of the world: the callback before the invocation, the clock
  readings, the reservation id and the behaviour of the invocation. When the caller fixes \<open>now\<close>, all
  readings are that instant.
\<close>

section \<open>Validation of credentials and policies\<close>

definition pool_id_ok :: "string \<Rightarrow> bool" where
  "pool_id_ok = full_match is_alnum (\<lambda>c. is_alnum c \<or> c \<in> set ''._:@/-'') 0 127"

definition check_credential :: "api_credential \<Rightarrow> api_credential list \<Rightarrow> api_credential list outcome" where
  "check_credential c seen =
     bind_out (require (pool_id_ok (cred_account c)) ''Assistant credential pool id is invalid'') (\<lambda>_.
     bind_out (require (cred_pool c = PREEMPTIBLE_POOL \<or> cred_pool c = ROUTINE_POOL)
                 ''Assistant credential pool type is invalid'') (\<lambda>_.
     bind_out (require (strip (cred_key c) \<noteq> []) ''Assistant credential reference is empty'') (\<lambda>_.
     bind_out (require (profile_id_ok (cred_id c)) ''Assistant credential fingerprint is invalid'') (\<lambda>_.
     bind_out (require (list_all (\<lambda>d. cred_account d = cred_account c \<longrightarrow> cred_pool d = cred_pool c) seen)
                 ''Assistant credential pool has inconsistent type'') (\<lambda>_.
     bind_out (require (cred_id c \<notin> cred_id ` set seen) ''Assistant credential is duplicated'')
       (\<lambda>_. Inr (seen @ [c])))))))"

definition validated_credentials :: "api_credential list \<Rightarrow> api_credential list outcome" where
  "validated_credentials cs =
     bind_out (require (length cs \<le> 16 * 8) ''Assistant credential count is invalid'') (\<lambda>_.
     bind_out (fold_out check_credential cs []) (\<lambda>_.
     bind_out (require (length (dedupe (map cred_account cs)) \<le> 16) ''Assistant credential pool count is invalid'') (\<lambda>_.
     bind_out (require (list_all (\<lambda>a. length (filter (\<lambda>c. cred_account c = a) cs) \<le> 8) (map cred_account cs))
                 ''Assistant credential count per pool is invalid'') (\<lambda>_. Inr cs))))"

definition capacity_integer :: "int \<Rightarrow> int \<Rightarrow> int \<Rightarrow> unit outcome" where
  "capacity_integer n low high = require (low \<le> n \<and> n \<le> high) ''Assistant capacity integer is invalid''"

definition shared_ids_ok :: "capacity_policy \<Rightarrow> bool" where
  "shared_ids_ok pol \<longleftrightarrow> cp_shared pol \<noteq> [] \<and> length (cp_shared pol) \<le> 16 \<and> cp_model pol \<in> set (cp_shared pol) \<and>
     distinct (cp_shared pol) \<and> list_all model_id_ok (cp_shared pol)"

definition check_policy :: "string list \<Rightarrow> model_profile list \<Rightarrow> capacity_policy \<Rightarrow> unit outcome" where
  "check_policy pools profiles pol =
     bind_out (require (cp_pool pol \<in> set pools) ''Assistant capacity policy names an unknown pool'') (\<lambda>_.
     bind_out (require (provider_ok (cp_provider pol)) ''Assistant capacity provider is invalid'') (\<lambda>_.
     bind_out (require (model_id_ok (cp_model pol)) ''Assistant capacity model_id is invalid'') (\<lambda>_.
     bind_out (require (case map_of (rev (map (\<lambda>p. (mp_model p, mp_provider p)) profiles)) (cp_model pol) of
                          None \<Rightarrow> True | Some expected \<Rightarrow> cp_provider pol = expected)
                 ''Assistant capacity provider does not match model'') (\<lambda>_.
     bind_out (require (shared_ids_ok pol) ''Assistant capacity shared_model_ids is invalid'') (\<lambda>_.
     bind_out (capacity_integer (cp_rpd pol) 1 100000000) (\<lambda>_.
     bind_out (capacity_integer (cp_rpm pol) 1 1000000) (\<lambda>_.
     bind_out (capacity_integer (cp_tpm pol) 1 1000000000) (\<lambda>_.
     bind_out (capacity_integer (cp_soft pol) 1 10000) (\<lambda>_.
     bind_out (capacity_integer (cp_in_flight pol) 1 1000) (\<lambda>_.
     bind_out (capacity_integer (cp_ttl pol) 30 3600) (\<lambda>_.
     bind_out (capacity_integer (cp_cooldown pol) 1 3600) (\<lambda>_.
     bind_out (capacity_integer (cp_threshold pol) 1 20) (\<lambda>_.
       require (cp_source pol = ''CONFIGURED'' \<or> cp_source pol = ''REGISTRY_DEFAULT'')
         ''Assistant capacity policy source is invalid'')))))))))))))"

definition validated_capacity_policies ::
    "capacity_policy list \<Rightarrow> api_credential list \<Rightarrow> model_profile list \<Rightarrow> capacity_policy list outcome" where
  "validated_capacity_policies policies cs profiles =
     bind_out (require (length policies \<le> 128) ''Assistant capacity policy count is invalid'') (\<lambda>_.
     bind_out (fold_out (\<lambda>pol _. check_policy (map cred_account cs) profiles pol) policies ()) (\<lambda>_.
     bind_out (require (distinct (map (\<lambda>pol. (cp_pool pol, cp_model pol)) policies))
                 ''Assistant capacity policies contain duplicate pairs'') (\<lambda>_. Inr policies)))"

definition eligible_credentials :: "api_credential list \<Rightarrow> service_priority \<Rightarrow> api_credential list" where
  "eligible_credentials cs priority =
     (if priority = BACKGROUND then filter (\<lambda>c. cred_pool c = ROUTINE_POOL) cs
      else filter (\<lambda>c. cred_pool c = PREEMPTIBLE_POOL \<or> cred_pool c = ROUTINE_POOL) cs)"

section \<open>Executing a route\<close>

text \<open>
  What an invocation may do: ask the accountant for requests, one after the other, and return a value
  or fail in one of the ways the route distinguishes, given the answers it got.
\<close>

datatype route_error =
    CapacityGone
  | HttpStatus int
  | TransportDown string
  | OtherFailure py_error

record 'r invocation =
  iv_requests :: "(model_request_usage \<times> instant) list"
  iv_result :: "bool list \<Rightarrow> route_error + 'r"

record 'r capacity_turn =
  ct_before :: "py_error option"
  ct_reserved_at :: instant
  ct_uuid :: string
  ct_invoke :: "model_profile \<Rightarrow> api_credential \<Rightarrow> string option \<Rightarrow> 'r invocation"
  ct_finished_at :: instant

fun ask_all ::
    "platform \<Rightarrow> (model_request_usage \<times> instant) list \<Rightarrow> bool list \<Rightarrow> pre_reserved \<Rightarrow>
     (py_error + bool list) \<times> pre_reserved" where
  "ask_all P [] answers a = (Inr answers, a)"
| "ask_all P ((u, now) # asks) answers a =
     (case pre_reserve P u now [] a of
        Inl e \<Rightarrow> (Inl e, a)
      | Inr (ok, a') \<Rightarrow> ask_all P asks (answers @ [ok]) a')"

definition invoke_turn ::
    "platform \<Rightarrow> 'r invocation \<Rightarrow> capacity_reservation \<Rightarrow> assistant_db \<Rightarrow> (route_error + 'r) \<times> assistant_db" where
  "invoke_turn P iv r db =
     (case ask_all P (iv_requests iv) [] \<lparr>pa_db = db, pa_reservation = r, pa_confirmed = False\<rparr> of
        (Inl e, a) \<Rightarrow> (Inl (OtherFailure e), pa_db a)
      | (Inr answers, a) \<Rightarrow>
          (case iv_result iv answers of
             Inl err \<Rightarrow> (Inl err, pa_db a)
           | Inr v \<Rightarrow>
               (if pa_confirmed a then Inr v
                else Inl (OtherFailure (ValueError ''Assistant invocation bypassed the metered gateway'')),
                pa_db a)))"

record run_state =
  rs_db :: assistant_db
  rs_attempts :: int
  rs_turn :: nat
  rs_pressure :: bool
  rs_last :: "route_error option"

record 'r served_turn =
  sv_value :: 'r
  sv_profile :: model_profile
  sv_provenance :: route_provenance
  sv_pool_type :: string
  sv_fingerprint :: string
  sv_attempts :: int
  sv_fallback :: bool

datatype 'r route_result =
    Served "'r served_turn"
  | Unavailable string
  | Failed route_error

datatype 'r route_step = Stop "'r route_result" | NextCredential | NextPool

text \<open>How a failed invocation finishes its reservation, and what the route does next.\<close>

definition retryable_status :: "int \<Rightarrow> bool" where
  "retryable_status s \<longleftrightarrow> s \<in> {401, 403, 429, 500, 502, 503, 504}"

definition finish_failure ::
    "route_error \<Rightarrow> capacity_reservation \<Rightarrow> instant \<Rightarrow> assistant_db \<Rightarrow> assistant_db outcome" where
  "finish_failure err r now db =
     (case err of
        CapacityGone \<Rightarrow> finish_reservation r CAPACITY_REJECTED now None (Some ''EXACT_TOKEN_CAPACITY_REJECTED'') False db
      | HttpStatus s \<Rightarrow>
          finish_reservation r (if s = 429 then THROTTLED else FAILED) now (Some s)
            (Some (''PROVIDER_HTTP_'' @ str_int s)) (retryable_status s) db
      | TransportDown _ \<Rightarrow>
          finish_reservation r FAILED now None (Some ''PROVIDER_TRANSPORT_UNAVAILABLE'') True db
      | OtherFailure _ \<Rightarrow> finish_reservation r FAILED now None (Some ''MODEL_REQUEST_FAILED'') False db)"

definition after_failure :: "route_error \<Rightarrow> bool \<Rightarrow> run_state \<Rightarrow> 'r route_step \<times> run_state" where
  "after_failure err only_one_left st =
     (case err of
        CapacityGone \<Rightarrow> (NextPool, st\<lparr>rs_pressure := True\<rparr>)
      | HttpStatus s \<Rightarrow>
          if \<not> retryable_status s then (Stop (Failed err), st)
          else (if s = 401 \<or> s = 403 then if only_one_left then NextPool else NextCredential else NextPool,
                st\<lparr>rs_last := Some err, rs_pressure := (rs_pressure st \<or> s = 429)\<rparr>)
      | TransportDown _ \<Rightarrow> (NextPool, st\<lparr>rs_last := Some err\<rparr>)
      | OtherFailure _ \<Rightarrow> (Stop (Failed err), st))"

definition serve ::
    "platform \<Rightarrow> route_plan \<Rightarrow> nat \<Rightarrow> model_profile \<Rightarrow> api_credential \<Rightarrow> capacity_reservation \<Rightarrow> 'r \<Rightarrow> run_state \<Rightarrow>
     'r route_step \<times> run_state" where
  "serve P plan index profile c r v st =
     (case routing_provenance plan profile of
        Inl e \<Rightarrow> (Stop (Failed (OtherFailure e)), st)
      | Inr provenance \<Rightarrow>
          if pl_version (rp_plan provenance) \<noteq> ASSISTANT_ROUTING_POLICY_VERSION
          then (Stop (Failed (OtherFailure (ValueError ''Assistant model routing policy is incompatible''))), st)
          else (Stop (Served \<lparr>sv_value = v, sv_profile = profile, sv_provenance = provenance,
                  sv_pool_type = cred_pool c, sv_fingerprint = hr_fingerprint r, sv_attempts = rs_attempts st,
                  sv_fallback = (0 < index)\<rparr>), st))"

definition use_reservation ::
    "platform \<Rightarrow> route_plan \<Rightarrow> nat \<Rightarrow> model_profile \<Rightarrow> api_credential \<Rightarrow> bool \<Rightarrow> 'r capacity_turn \<Rightarrow>
     capacity_reservation \<Rightarrow> run_state \<Rightarrow> 'r route_step \<times> run_state" where
  "use_reservation P plan index profile c only_one_left t r st =
     (let (answer, db) =
        (case provider_thinking_level plan profile of
           Inl e \<Rightarrow> (Inl (OtherFailure e), rs_db st)
         | Inr level \<Rightarrow> invoke_turn P (ct_invoke t profile c level) r (rs_db st))
      in case answer of
           Inl err \<Rightarrow>
             (case finish_failure err r (ct_finished_at t) db of
                Inl e \<Rightarrow> (Stop (Failed (OtherFailure e)), st\<lparr>rs_db := db\<rparr>)
              | Inr db' \<Rightarrow> after_failure err only_one_left (st\<lparr>rs_db := db'\<rparr>))
         | Inr v \<Rightarrow>
             (case finish_reservation r SUCCEEDED (ct_finished_at t) None None False db of
                Inl e \<Rightarrow> (Stop (Failed (OtherFailure e)), st\<lparr>rs_db := db\<rparr>)
              | Inr db' \<Rightarrow> serve P plan index profile c r v (st\<lparr>rs_db := db'\<rparr>)))"

definition try_credential ::
    "platform \<Rightarrow> route_plan \<Rightarrow> service_priority \<Rightarrow> nat \<Rightarrow> model_profile \<Rightarrow> capacity_policy \<Rightarrow> api_credential \<Rightarrow> bool \<Rightarrow>
     'r capacity_turn \<Rightarrow> run_state \<Rightarrow> 'r route_step \<times> run_state" where
  "try_credential P plan priority index profile pol c only_one_left t st =
     (if MAX_ASSISTANT_CAPACITY_ATTEMPTS \<le> rs_attempts st then (NextPool, st\<lparr>rs_pressure := True\<rparr>)
      else case ct_before t of
        Some e \<Rightarrow> (Stop (Failed (OtherFailure e)), st)
      | None \<Rightarrow>
          (case reserve_assistant_capacity P pol profile priority (pl_input_tokens plan) (ct_reserved_at t)
                  (ct_uuid t) (rs_db st) of
             Inl e \<Rightarrow> (Stop (Failed (OtherFailure e)), st)
           | Inr (None, db) \<Rightarrow> (NextPool, st\<lparr>rs_db := db, rs_pressure := True\<rparr>)
           | Inr (Some r, db) \<Rightarrow>
               use_reservation P plan index profile c only_one_left t r
                 (st\<lparr>rs_db := db, rs_attempts := rs_attempts st + 1\<rparr>)))"

fun try_credentials ::
    "platform \<Rightarrow> route_plan \<Rightarrow> service_priority \<Rightarrow> nat \<Rightarrow> model_profile \<Rightarrow> capacity_policy \<Rightarrow> (nat \<Rightarrow> 'r capacity_turn) \<Rightarrow>
     api_credential list \<Rightarrow> run_state \<Rightarrow> 'r route_result option \<times> run_state" where
  "try_credentials P plan priority index profile pol turns [] st = (None, st)"
| "try_credentials P plan priority index profile pol turns (c # cs) st =
     (let (step, st') = try_credential P plan priority index profile pol c (cs = []) (turns (rs_turn st))
                          (st\<lparr>rs_turn := rs_turn st + 1\<rparr>)
      in case step of
           Stop r \<Rightarrow> (Some r, st')
         | NextPool \<Rightarrow> (None, st')
         | NextCredential \<Rightarrow> try_credentials P plan priority index profile pol turns cs st')"

definition policy_for :: "capacity_policy list \<Rightarrow> string \<Rightarrow> string \<Rightarrow> capacity_policy option" where
  "policy_for policies pool model =
     find (\<lambda>pol. cp_pool pol = pool \<and> cp_model pol = model) (rev (filter cp_enabled policies))"

definition pool_credentials :: "api_credential list \<Rightarrow> string \<Rightarrow> api_credential list" where
  "pool_credentials eligible pool = filter (\<lambda>c. cred_account c = pool) eligible"

definition preemptible_pool :: "api_credential list \<Rightarrow> string \<Rightarrow> bool" where
  "preemptible_pool eligible pool =
     (case pool_credentials eligible pool of [] \<Rightarrow> False | c # _ \<Rightarrow> cred_pool c = PREEMPTIBLE_POOL)"

text \<open>Pools with capacity for a model, by score, then preemptible pools first, then configured order.\<close>

definition scored_pools ::
    "platform \<Rightarrow> capacity_policy list \<Rightarrow> api_credential list \<Rightarrow> int \<Rightarrow> instant \<Rightarrow> model_profile \<Rightarrow> assistant_db \<Rightarrow>
     (string \<times> capacity_policy \<times> real) list" where
  "scored_pools P policies eligible tokens now profile db =
     List.map_filter
       (\<lambda>pool. case policy_for policies pool (mp_model profile) of
          None \<Rightarrow> None
        | Some pol \<Rightarrow> map_option (\<lambda>score. (pool, pol, score)) (capacity_snapshot P pol tokens now db))
       (dedupe (map cred_account eligible))"

definition ordered_pools ::
    "platform \<Rightarrow> capacity_policy list \<Rightarrow> api_credential list \<Rightarrow> int \<Rightarrow> instant \<Rightarrow> model_profile \<Rightarrow> assistant_db \<Rightarrow>
     (string \<times> capacity_policy) list" where
  "ordered_pools P policies eligible tokens now profile db =
     map (\<lambda>(pool, pol, _). (pool, pol))
       (sort_key (\<lambda>(pool, _, score). (- score, \<not> preemptible_pool eligible pool))
          (scored_pools P policies eligible tokens now profile db))"

fun try_pools ::
    "platform \<Rightarrow> route_plan \<Rightarrow> service_priority \<Rightarrow> nat \<Rightarrow> model_profile \<Rightarrow> api_credential list \<Rightarrow> (nat \<Rightarrow> 'r capacity_turn) \<Rightarrow>
     (string \<times> capacity_policy) list \<Rightarrow> run_state \<Rightarrow> 'r route_result option \<times> run_state" where
  "try_pools P plan priority index profile eligible turns [] st = (None, st)"
| "try_pools P plan priority index profile eligible turns ((pool, pol) # pools) st =
     (let (found, st') = try_credentials P plan priority index profile pol turns
                           (sort_key cred_id (pool_credentials eligible pool)) st
      in case found of
           Some r \<Rightarrow> (Some r, st')
         | None \<Rightarrow> try_pools P plan priority index profile eligible turns pools st')"

fun try_profiles ::
    "platform \<Rightarrow> route_plan \<Rightarrow> service_priority \<Rightarrow> capacity_policy list \<Rightarrow> api_credential list \<Rightarrow> instant \<Rightarrow>
     (nat \<Rightarrow> 'r capacity_turn) \<Rightarrow> (nat \<times> model_profile) list \<Rightarrow> run_state \<Rightarrow> 'r route_result option \<times> run_state" where
  "try_profiles P plan priority policies eligible now turns [] st = (None, st)"
| "try_profiles P plan priority policies eligible now turns ((index, profile) # profiles) st =
     (case ordered_pools P policies eligible (pl_input_tokens plan) now profile (rs_db st) of
        [] \<Rightarrow> try_profiles P plan priority policies eligible now turns profiles (st\<lparr>rs_pressure := True\<rparr>)
      | pool # pools \<Rightarrow>
          (let (found, st') = try_pools P plan priority index profile eligible turns (pool # pools) st
           in case found of
                Some r \<Rightarrow> (Some r, st')
              | None \<Rightarrow> try_profiles P plan priority policies eligible now turns profiles st'))"

definition requested_priority :: "string \<Rightarrow> service_priority outcome" where
  "requested_priority s =
     (if s = ''INTERACTIVE'' then Inr INTERACTIVE else if s = ''BACKGROUND'' then Inr BACKGROUND
      else Inl (ValueError ''Assistant service priority is invalid''))"

definition no_route :: "run_state \<Rightarrow> 'r route_result" where
  "no_route st =
     (if rs_pressure st then Unavailable ''all compatible Assistant capacity is inside safety limits''
      else case rs_last st of
        Some err \<Rightarrow> Failed err
      | None \<Rightarrow> Unavailable ''no usable Assistant pool x model route'')"

definition run_route ::
    "platform \<Rightarrow> route_plan \<Rightarrow> service_priority \<Rightarrow> capacity_policy list \<Rightarrow> api_credential list \<Rightarrow> instant \<Rightarrow>
     (nat \<Rightarrow> 'r capacity_turn) \<Rightarrow> assistant_db \<Rightarrow> 'r route_result \<times> assistant_db" where
  "run_route P plan priority policies eligible now turns db =
     (let (found, st) = try_profiles P plan priority policies eligible now turns
            (enumerate 0 (pl_candidates plan))
            \<lparr>rs_db = db, rs_attempts = 0, rs_turn = 0, rs_pressure = False, rs_last = None\<rparr>
      in (case found of Some r \<Rightarrow> r | None \<Rightarrow> no_route st, rs_db st))"

definition execute_assistant_capacity_route ::
    "platform \<Rightarrow> route_plan \<Rightarrow> api_credential list \<Rightarrow> string \<Rightarrow> capacity_policy list \<Rightarrow> instant \<Rightarrow>
     (nat \<Rightarrow> 'r capacity_turn) \<Rightarrow> assistant_db \<Rightarrow> 'r route_result \<times> assistant_db" where
  "execute_assistant_capacity_route P plan credentials requested policies now turns db =
     (case bind_out (requested_priority requested) (\<lambda>priority.
           bind_out (validated_credentials credentials) (\<lambda>cs. Inr (priority, eligible_credentials cs priority))) of
        Inl e \<Rightarrow> (Failed (OtherFailure e), db)
      | Inr (priority, eligible) \<Rightarrow>
          (if eligible = [] then (Unavailable ''no eligible Assistant credential pool'', db)
           else (case validated_capacity_policies policies credentials (pl_candidates plan) of
             Inl e \<Rightarrow> (Failed (OtherFailure e), db)
           | Inr valid \<Rightarrow>
               (if list_all (\<lambda>p. list_all (\<lambda>c. policy_for valid (cred_account c) (mp_model p) = None) eligible)
                    (pl_candidates plan)
                then (Unavailable ''no configured pool x model policy'', db)
                else run_route P plan priority valid eligible now turns db))))"

section \<open>Nothing stays in flight\<close>

text \<open>The part of a reservation that an invocation cannot change.\<close>

type_synonym row_view = "string \<times> string \<times> string \<times> reservation_state"

definition row_view :: "capacity_row \<Rightarrow> row_view" where
  "row_view v = (rv_id v, rv_pool v, rv_profile v, rv_state v)"

abbreviation views :: "assistant_db \<Rightarrow> row_view list" where
  "views db \<equiv> map row_view (as_reservations db)"

lemma confirm_views: "confirm_reserved_tokens P r actual now db = Inr (ok, db') \<Longrightarrow> views db' = views db"
  by (auto simp: confirm_reserved_tokens_def grow_reservation_def Let_def sql_update_def row_view_def
      split: if_splits option.splits)

lemma pre_reserve_views: "pre_reserve P u now uuid a = Inr (ok, a') \<Longrightarrow> views (pa_db a') = views (pa_db a)"
  by (auto simp: pre_reserve_def bind_out_Inr_iff dest: confirm_views split: if_splits)

lemma ask_all_views: "ask_all P asks answers a = (result, a') \<Longrightarrow> views (pa_db a') = views (pa_db a)"
proof (induction asks arbitrary: answers a)
  case (Cons ask asks)
  obtain u now where ask: "ask = (u, now)" by (cases ask)
  show ?case
  proof (cases "pre_reserve P u now [] a")
    case (Inl e)
    with Cons.prems ask show ?thesis by simp
  next
    case (Inr p)
    obtain ok b where p: "p = (ok, b)" by (cases p)
    with Inr Cons.prems ask have "ask_all P asks (answers @ [ok]) b = (result, a')" by simp
    with Cons.IH pre_reserve_views [OF Inr [unfolded p]] show ?thesis by simp
  qed
qed simp

lemma invoke_views: "invoke_turn P iv r db = (answer, db') \<Longrightarrow> views db' = views db"
  by (auto simp: invoke_turn_def dest: ask_all_views split: prod.splits sum.splits)

text \<open>
  The reservations after a part of the run: the old ones, then one for each attempt, all of them from
  the eligible pools, and none in flight but those that are named open.
\<close>

definition calm :: "string set \<Rightarrow> string set \<Rightarrow> string set \<Rightarrow> row_view \<Rightarrow> bool" where
  "calm old pools open_ids x \<longleftrightarrow>
     fst x \<notin> old \<longrightarrow> fst (snd x) \<in> pools \<and> (snd (snd (snd x)) = IN_FLIGHT \<longrightarrow> fst x \<in> open_ids)"

definition flown :: "capacity_row list \<Rightarrow> string set \<Rightarrow> int \<Rightarrow> string set \<Rightarrow> row_view list \<Rightarrow> bool" where
  "flown rows0 pools n open_ids vs \<longleftrightarrow>
     distinct (map fst vs) \<and> n \<le> MAX_ASSISTANT_CAPACITY_ATTEMPTS \<and>
     (\<exists>new. map fst vs = map rv_id rows0 @ new \<and> int (length new) = n) \<and>
     list_all (calm (rv_id ` set rows0) pools open_ids) vs"

lemma fst_row_view [simp]: "fst (row_view v) = rv_id v" "fst \<circ> row_view = rv_id"
  by (simp_all add: row_view_def fun_eq_iff)

lemma calm_mono: "calm old pools {} x \<Longrightarrow> calm old pools ids x"
  by (simp add: calm_def)

lemma flown_start: "distinct (map rv_id (as_reservations db)) \<Longrightarrow> flown (as_reservations db) pools 0 {} (views db)"
  by (auto simp: flown_def MAX_ASSISTANT_CAPACITY_ATTEMPTS_def list_all_iff calm_def)

lemma flown_expire:
  assumes "flown rows0 pools n open_ids (map row_view rows)"
  shows "flown rows0 pools n open_ids (map row_view (expire_reservations now rows))"
proof -
  have ids: "map fst (map row_view (expire_reservations now rows)) = map fst (map row_view rows)"
    by (simp add: expire_reservations_def sql_update_def)
  have "\<exists>w \<in> set rows. rv_id v = rv_id w \<and> rv_pool v = rv_pool w \<and> (rv_state v = IN_FLIGHT \<longrightarrow> rv_state w = IN_FLIGHT)"
    if "v \<in> set (expire_reservations now rows)" for v
    using that unfolding expire_reservations_def by (cases rule: sql_updateE) auto
  with assms ids show ?thesis unfolding flown_def by (fastforce simp: row_view_def calm_def list_all_iff)
qed

lemma flown_reserve:
  assumes "reserve_assistant_capacity P pol profile priority tokens now uuid db = Inr (Some r, db')"
    "flown rows0 pools n {} (views db)" "cp_pool pol \<in> pools" "n < MAX_ASSISTANT_CAPACITY_ATTEMPTS"
  shows "flown rows0 pools (n + 1) {uuid} (views db') \<and> hr_id r = uuid \<and>
      (uuid, cp_pool pol, mp_id profile, IN_FLIGHT) \<in> set (views db') \<and> uuid \<notin> rv_id ` set rows0"
  using assms(1)
proof (cases rule: reserveE_capacity)
  case (1 db1)
  note c = commit_capacityE [OF 1(3)]
  let ?new = "new_capacity_row P pol profile priority tokens now uuid"
  have f1: "flown rows0 pools n {} (views db1)" using flown_expire [OF assms(2)] 1(1) by simp
  have v: "views db' = views db1 @ [(uuid, cp_pool pol, mp_id profile, IN_FLIGHT)]"
    using c(4) by (simp add: row_view_def new_capacity_row_def)
  have fresh: "uuid \<notin> set (map fst (views db1))" using c(2) by simp
  from f1 obtain new where new: "map fst (views db1) = map rv_id rows0 @ new" "int (length new) = n"
    by (auto simp: flown_def)
  have "map fst (views db') = map rv_id rows0 @ (new @ [uuid])" using v new(1) by simp
  moreover have "int (length (new @ [uuid])) = n + 1" using new(2) by simp
  moreover have "distinct (map fst (views db'))" using f1 fresh v by (simp add: flown_def)
  moreover have "uuid \<notin> rv_id ` set rows0" using fresh new(1) by (metis UnCI list.set_map set_append)
  moreover have "n + 1 \<le> MAX_ASSISTANT_CAPACITY_ATTEMPTS" using assms(4) by simp
  moreover have "list_all (calm (rv_id ` set rows0) pools {uuid}) (views db')"
    using f1 assms(3) unfolding v flown_def by (auto simp: calm_def list_all_iff)
  ultimately show ?thesis
    unfolding flown_def using 1(4) v by (auto simp: held_reservation_def)
qed

lemma flown_finish:
  assumes "finish_reservation r state now http failure affects db = Inr db'" "state \<noteq> IN_FLIGHT"
    "flown rows0 pools n {hr_id r} (views db)" "(hr_id r, pool, profile, IN_FLIGHT) \<in> set (views db)"
  shows "flown rows0 pools n {} (views db')" "(hr_id r, pool, profile, state) \<in> set (views db')"
proof -
  from assms(4) obtain v where v: "v \<in> set (as_reservations db)" "rv_id v = hr_id r" "rv_pool v = pool"
    "rv_profile v = profile" "rv_state v = IN_FLIGHT" by (auto simp: row_view_def)
  have dist: "distinct (map rv_id (as_reservations db))" using assms(3) by (simp add: flown_def)
  have own: "sql_count (own_flight r) (as_reservations db) = 1"
    by (rule sql_count_unique [where p = "own_flight r", OF dist v(1)]) (use v in \<open>auto simp: own_flight_def\<close>)
  note f = finishE(2) [OF assms(1) own]
  let ?g = "\<lambda>v. v\<lparr>rv_state := state, rv_http := http, rv_failure := failure, rv_completed_at := Some now\<rparr>"
  have "?g v \<in> set (as_reservations db')"
    unfolding f by (rule sql_update_memI(1) [where p = "own_flight r", OF v(1)]) (simp add: own_flight_def v)
  then have "row_view (?g v) \<in> set (views db')" by simp
  then show "(hr_id r, pool, profile, state) \<in> set (views db')" by (simp add: row_view_def v)
  have ids: "map fst (views db') = map fst (views db)" unfolding f by (simp add: sql_update_def)
  have "\<exists>w \<in> set (as_reservations db). rv_id u = rv_id w \<and> rv_pool u = rv_pool w \<and>
      (rv_state u = IN_FLIGHT \<longrightarrow> rv_state w = IN_FLIGHT \<and> rv_id w \<noteq> hr_id r)"
    if "u \<in> set (as_reservations db')" for u
    using that unfolding f
  proof (cases rule: sql_updateE)
    case kept
    then show ?thesis using v(1,2) dist by (intro bexI [of _ u]) (auto simp: own_flight_def)
  qed (use assms(2) in \<open>auto intro!: bexI\<close>)
  with assms(3) ids show "flown rows0 pools n {} (views db')"
    unfolding flown_def by (fastforce simp: row_view_def calm_def list_all_iff)
qed

text \<open>Every failure code the route writes is a controlled one.\<close>

lemma nat_digits_small:
  assumes "n < 1000"
  shows "length (nat_digits n) \<le> 3 \<and> list_all is_digit (nat_digits n)"
proof -
  have d: "is_digit (char_of (48 + k :: nat))" if "k < 10" for k :: nat
  proof -
    have "(of_char (char_of (48 + k) :: char) :: int) = int (of_char (char_of (48 + k) :: char))"
      by (rule of_nat_of_char [symmetric])
    then have "(of_char (char_of (48 + k) :: char) :: int) = int ((48 + k) mod 256)" by simp
    with that show ?thesis by (simp add: is_digit_def Let_def)
  qed
  have one: "nat_digits k = [char_of (48 + k)]" if "k < 10" for k :: nat
    using that by (simp add: nat_digits.simps [of k])
  have two: "nat_digits k = [char_of (48 + k div 10), char_of (48 + k mod 10)]" if "10 \<le> k" "k < 100" for k :: nat
    using that one [of "k div 10"] by (simp add: nat_digits.simps [of k])
  consider "n < 10" | "10 \<le> n" "n < 100" | "100 \<le> n" by linarith
  then show ?thesis
  proof cases
    case 1
    then show ?thesis using d by (simp add: one)
  next
    case 2
    then show ?thesis using d [of "n div 10"] d [of "n mod 10"] by (simp add: two)
  next
    case 3
    then have "nat_digits n = nat_digits (n div 10) @ [char_of (48 + n mod 10)]"
      by (simp add: nat_digits.simps [of n])
    with 3 assms show ?thesis
      using two [of "n div 10"] d [of "n div 10 div 10"] d [of "n div 10 mod 10"] d [of "n mod 10"] by simp
  qed
qed

lemma status_code_ok:
  assumes "0 \<le> s" "s \<le> 999"
  shows "failure_code_ok (''PROVIDER_HTTP_'' @ str_int s)"
proof -
  have n: "length (str_int s) \<le> 3" "list_all is_digit (str_int s)"
    using nat_digits_small [of "nat s"] assms by (simp_all add: str_int_def)
  have p: "list_all code_char ''PROVIDER_HTTP_''" by code_simp
  have "list_all code_char (str_int s)"
    using n(2) by (simp add: list_all_iff code_char_def)
  with p n(1) show ?thesis by (simp add: failure_code_ok_def full_match_def)
qed

lemma fixed_codes_ok:
  "failure_code_ok ''EXACT_TOKEN_CAPACITY_REJECTED''" "failure_code_ok ''PROVIDER_TRANSPORT_UNAVAILABLE''"
  "failure_code_ok ''MODEL_REQUEST_FAILED''"
  by code_simp+

definition proper_error :: "route_error \<Rightarrow> bool" where
  "proper_error err \<longleftrightarrow> (case err of HttpStatus s \<Rightarrow> 0 \<le> s \<and> s \<le> 999 | _ \<Rightarrow> True)"

lemma finish_returns:
  assumes "case failure of None \<Rightarrow> True | Some f \<Rightarrow> failure_code_ok f"
  shows "\<exists>db'. finish_reservation r state now http failure affects db = Inr db'"
  using assms by (auto simp: finish_reservation_def Let_def split: option.splits)

lemma finish_shapeI:
  assumes "finish_failure err r now db = finish_reservation r state now http (Some code) affects db"
    "state \<noteq> IN_FLIGHT" "failure_code_ok code"
  shows "\<exists>state http failure affects db'. finish_failure err r now db = Inr db' \<and> state \<noteq> IN_FLIGHT \<and>
     finish_reservation r state now http failure affects db = Inr db'"
  using assms finish_returns [of "Some code" r state now http affects db] by auto metis

lemma finish_failure_shape:
  assumes "proper_error err"
  shows "\<exists>state http failure affects db'. finish_failure err r now db = Inr db' \<and> state \<noteq> IN_FLIGHT \<and>
     finish_reservation r state now http failure affects db = Inr db'"
proof (cases err)
  case CapacityGone
  then have "finish_failure err r now db =
      finish_reservation r CAPACITY_REJECTED now None (Some ''EXACT_TOKEN_CAPACITY_REJECTED'') False db"
    by (simp add: finish_failure_def)
  then show ?thesis by (rule finish_shapeI) (simp_all only: fixed_codes_ok, simp)
next
  case (HttpStatus s)
  then have "finish_failure err r now db =
      finish_reservation r (if s = 429 then THROTTLED else FAILED) now (Some s)
        (Some (''PROVIDER_HTTP_'' @ str_int s)) (retryable_status s) db"
    by (simp only: finish_failure_def route_error.case)
  moreover have "failure_code_ok (''PROVIDER_HTTP_'' @ str_int s)"
    using assms HttpStatus by (intro status_code_ok) (simp_all add: proper_error_def)
  moreover have "(if s = 429 then THROTTLED else FAILED) \<noteq> IN_FLIGHT" by simp
  ultimately show ?thesis using finish_shapeI by blast
next
  case (TransportDown m)
  then have "finish_failure err r now db =
      finish_reservation r FAILED now None (Some ''PROVIDER_TRANSPORT_UNAVAILABLE'') True db"
    by (simp add: finish_failure_def)
  then show ?thesis by (rule finish_shapeI) (simp_all only: fixed_codes_ok, simp)
next
  case (OtherFailure e)
  then have "finish_failure err r now db =
      finish_reservation r FAILED now None (Some ''MODEL_REQUEST_FAILED'') False db"
    by (simp add: finish_failure_def)
  then show ?thesis by (rule finish_shapeI) (simp_all only: fixed_codes_ok, simp)
qed

section \<open>The loop\<close>

definition run_ok :: "capacity_row list \<Rightarrow> string set \<Rightarrow> run_state \<Rightarrow> bool" where
  "run_ok rows0 pools st \<longleftrightarrow> flown rows0 pools (rs_attempts st) {} (views (rs_db st))"

definition served_row :: "capacity_row list \<Rightarrow> row_view list \<Rightarrow> 'r route_result \<Rightarrow> bool" where
  "served_row rows0 vs res \<longleftrightarrow>
     (\<forall>sv. res = Served sv \<longrightarrow>
        (\<exists>i pool. (i, pool, mp_id (sv_profile sv), SUCCEEDED) \<in> set vs \<and> i \<notin> rv_id ` set rows0))"

definition proper_turns :: "(nat \<Rightarrow> 'r capacity_turn) \<Rightarrow> bool" where
  "proper_turns turns \<longleftrightarrow>
     (\<forall>n profile c level answers err.
        iv_result (ct_invoke (turns n) profile c level) answers = Inl err \<longrightarrow> proper_error err)"

lemma served_other [simp]: "served_row rows0 vs (Failed err)" "served_row rows0 vs (Unavailable msg)"
  by (simp_all add: served_row_def)

lemma after_failure_shape:
  "after_failure err only_one_left st = (step, st') \<Longrightarrow>
     rs_db st' = rs_db st \<and> rs_attempts st' = rs_attempts st \<and>
     (\<forall>res. step = Stop res \<longrightarrow> served_row rows0 vs res)"
  by (auto simp: after_failure_def split: route_error.splits if_splits)

lemma serve_shape:
  "serve P plan index profile c r v st = (step, st') \<Longrightarrow>
     st' = st \<and> (\<exists>res. step = Stop res \<and> (\<forall>sv. res = Served sv \<longrightarrow> sv_profile sv = profile))"
  by (auto simp: serve_def split: sum.splits if_splits)

lemma invoke_proper:
  assumes "invoke_turn P iv r db = (Inl err, db')" "\<And>answers e. iv_result iv answers = Inl e \<Longrightarrow> proper_error e"
  shows "proper_error err"
proof -
  have other: "proper_error (OtherFailure e)" for e by (simp add: proper_error_def)
  show ?thesis
    using assms by (auto simp: invoke_turn_def other split: prod.splits sum.splits if_splits)
qed

lemma use_ok:
  assumes "use_reservation P plan index profile c only_one_left t r st = (step, st')"
    "flown rows0 pools (rs_attempts st) {hr_id r} (views (rs_db st))"
    "(hr_id r, pool, mp_id profile, IN_FLIGHT) \<in> set (views (rs_db st))" "hr_id r \<notin> rv_id ` set rows0"
    "\<And>level answers e. iv_result (ct_invoke t profile c level) answers = Inl e \<Longrightarrow> proper_error e"
  shows "run_ok rows0 pools st' \<and> (\<forall>res. step = Stop res \<longrightarrow> served_row rows0 (views (rs_db st')) res)"
proof -
  let ?inv = "case provider_thinking_level plan profile of
      Inl e \<Rightarrow> (Inl (OtherFailure e), rs_db st)
    | Inr level \<Rightarrow> invoke_turn P (ct_invoke t profile c level) r (rs_db st)"
  obtain answer db where inv: "?inv = (answer, db)" by (cases ?inv)
  have v: "views db = views (rs_db st)"
    using inv by (auto split: sum.splits dest: invoke_views)
  have proper: "proper_error err" if "answer = Inl err" for err
    using inv that assms(5) by (auto simp: proper_error_def split: sum.splits dest: invoke_proper)
  note pending = assms(2,3) [folded v]
  show ?thesis
  proof (cases answer)
    case (Inl err)
    from finish_failure_shape [OF proper [OF Inl], of r "ct_finished_at t" db]
    obtain state http failure affects db' where fin: "finish_failure err r (ct_finished_at t) db = Inr db'"
      "state \<noteq> IN_FLIGHT" "finish_reservation r state (ct_finished_at t) http failure affects db = Inr db'" by blast
    have fl: "flown rows0 pools (rs_attempts st) {} (views db')"
      by (rule flown_finish(1) [OF fin(3,2) pending])
    have "after_failure err only_one_left (st\<lparr>rs_db := db'\<rparr>) = (step, st')"
      using assms(1) inv Inl fin(1) by (simp add: use_reservation_def)
    note a = after_failure_shape [OF this]
    show ?thesis using a [of rows0 "views db'"] fl by (simp add: run_ok_def)
  next
    case (Inr ans)
    obtain db' where fin: "finish_reservation r SUCCEEDED (ct_finished_at t) None None False db = Inr db'"
      using finish_returns [of None r SUCCEEDED "ct_finished_at t" None False db] by auto
    have fl: "flown rows0 pools (rs_attempts st) {} (views db')"
      "(hr_id r, pool, mp_id profile, SUCCEEDED) \<in> set (views db')"
      using flown_finish [OF fin _ pending] by simp_all
    have "serve P plan index profile c r ans (st\<lparr>rs_db := db'\<rparr>) = (step, st')"
      using assms(1) inv Inr fin by (simp add: use_reservation_def)
    from serve_shape [OF this] obtain res where s: "st' = st\<lparr>rs_db := db'\<rparr>" "step = Stop res"
      "\<forall>sv. res = Served sv \<longrightarrow> sv_profile sv = profile" by blast
    have "served_row rows0 (views db') res"
      unfolding served_row_def using s(3) fl(2) assms(4) by blast
    with fl(1) s show ?thesis by (simp add: run_ok_def)
  qed
qed

lemma reserve_refused: "reserve_assistant_capacity P pol profile priority tokens now uuid db = Inr (None, db') \<Longrightarrow> db' = db"
  by (auto simp: reserve_assistant_capacity_def Let_def bind_out_Inr_iff split: if_splits)

lemma credential_ok:
  assumes "try_credential P plan priority index profile pol c only_one_left t st = (step, st')" "run_ok rows0 pools st"
    "cp_pool pol \<in> pools"
    "\<And>level answers e. iv_result (ct_invoke t profile c level) answers = Inl e \<Longrightarrow> proper_error e"
  shows "run_ok rows0 pools st' \<and> (\<forall>res. step = Stop res \<longrightarrow> served_row rows0 (views (rs_db st')) res)"
proof (cases "MAX_ASSISTANT_CAPACITY_ATTEMPTS \<le> rs_attempts st \<or> ct_before t \<noteq> None")
  case True
  with assms(1,2) show ?thesis by (auto simp: try_credential_def run_ok_def split: if_splits)
next
  case False
  let ?res = "reserve_assistant_capacity P pol profile priority (pl_input_tokens plan) (ct_reserved_at t) (ct_uuid t) (rs_db st)"
  show ?thesis
  proof (cases ?res)
    case (Inl e)
    with False assms(1,2) show ?thesis by (auto simp: try_credential_def)
  next
    case (Inr p)
    obtain found db where p: "p = (found, db)" by (cases p)
    show ?thesis
    proof (cases found)
      case None
      with Inr p have "db = rs_db st" using reserve_refused by blast
      with False None Inr p assms(1,2) show ?thesis by (auto simp: try_credential_def run_ok_def)
    next
      case (Some r)
      let ?st = "st\<lparr>rs_db := db, rs_attempts := rs_attempts st + 1\<rparr>"
      have lt: "rs_attempts st < MAX_ASSISTANT_CAPACITY_ATTEMPTS" using False by simp
      have g: "flown rows0 pools (rs_attempts st + 1) {ct_uuid t} (views db) \<and> hr_id r = ct_uuid t \<and>
          (ct_uuid t, cp_pool pol, mp_id profile, IN_FLIGHT) \<in> set (views db) \<and> ct_uuid t \<notin> rv_id ` set rows0"
        by (rule flown_reserve [OF Inr [unfolded p Some] assms(2) [unfolded run_ok_def] assms(3) lt])
      have "use_reservation P plan index profile c only_one_left t r ?st = (step, st')"
        using assms(1) False Inr p Some by (simp add: try_credential_def)
      then show ?thesis by (rule use_ok [where pool = "cp_pool pol"]) (use g assms(4) in simp_all)
    qed
  qed
qed

lemma credentials_ok_run:
  assumes "try_credentials P plan priority index profile pol turns cs st = (found, st')" "run_ok rows0 pools st"
    "cp_pool pol \<in> pools" "proper_turns turns"
  shows "run_ok rows0 pools st' \<and> (\<forall>res. found = Some res \<longrightarrow> served_row rows0 (views (rs_db st')) res)"
  using assms
proof (induction cs arbitrary: st)
  case (Cons c cs)
  let ?st = "st\<lparr>rs_turn := rs_turn st + 1\<rparr>"
  obtain step st1 where one: "try_credential P plan priority index profile pol c (cs = []) (turns (rs_turn st)) ?st = (step, st1)"
    by (cases "try_credential P plan priority index profile pol c (cs = []) (turns (rs_turn st)) ?st")
  have "run_ok rows0 pools ?st" using Cons.prems(2) by (simp add: run_ok_def)
  then have ok: "run_ok rows0 pools st1 \<and> (\<forall>res. step = Stop res \<longrightarrow> served_row rows0 (views (rs_db st1)) res)"
    by (rule credential_ok [OF one _ Cons.prems(3)]) (use Cons.prems(4) in \<open>auto simp: proper_turns_def\<close>)
  show ?case
  proof (cases step)
    case NextCredential
    with Cons.prems(1) one have "try_credentials P plan priority index profile pol turns cs st1 = (found, st')" by simp
    then show ?thesis using Cons.IH ok Cons.prems(3,4) by blast
  qed (use Cons.prems(1) one ok in auto)
qed simp

lemma pools_ok_run:
  assumes "try_pools P plan priority index profile eligible turns ps st = (found, st')" "run_ok rows0 pools st"
    "\<And>pool pol. (pool, pol) \<in> set ps \<Longrightarrow> cp_pool pol \<in> pools" "proper_turns turns"
  shows "run_ok rows0 pools st' \<and> (\<forall>res. found = Some res \<longrightarrow> served_row rows0 (views (rs_db st')) res)"
  using assms
proof (induction ps arbitrary: st)
  case (Cons p ps)
  obtain pool pol where p: "p = (pool, pol)" by (cases p)
  let ?cs = "sort_key cred_id (pool_credentials eligible pool)"
  obtain f st1 where one: "try_credentials P plan priority index profile pol turns ?cs st = (f, st1)"
    by (cases "try_credentials P plan priority index profile pol turns ?cs st")
  have "cp_pool pol \<in> pools" using Cons.prems(3) p by auto
  note ok = credentials_ok_run [OF one Cons.prems(2) this Cons.prems(4)]
  show ?case
  proof (cases f)
    case None
    with Cons.prems(1) one p have "try_pools P plan priority index profile eligible turns ps st1 = (found, st')" by simp
    then show ?thesis by (rule Cons.IH) (use ok Cons.prems(3,4) in auto)
  qed (use Cons.prems(1) one p ok in auto)
qed simp

lemma ordered_pools_pool:
  assumes "(pool, pol) \<in> set (ordered_pools P policies eligible tokens now profile db)"
  shows "cp_pool pol \<in> cred_account ` set eligible"
proof -
  from assms obtain score where "(pool, pol, score) \<in> set (scored_pools P policies eligible tokens now profile db)"
    by (auto simp: ordered_pools_def)
  then have "pool \<in> cred_account ` set eligible" "policy_for policies pool (mp_model profile) = Some pol"
    by (auto simp: scored_pools_def List.map_filter_def split: option.splits)
  then show ?thesis by (auto simp: policy_for_def dest: find_SomeD)
qed

lemma profiles_ok_run:
  assumes "try_profiles P plan priority policies eligible now turns profiles st = (found, st')"
    "run_ok rows0 (cred_account ` set eligible) st" "proper_turns turns"
  shows "run_ok rows0 (cred_account ` set eligible) st' \<and>
     (\<forall>res. found = Some res \<longrightarrow> served_row rows0 (views (rs_db st')) res)"
  using assms
proof (induction profiles arbitrary: st)
  case (Cons ip profiles)
  obtain index profile where ip: "ip = (index, profile)" by (cases ip)
  let ?pools = "ordered_pools P policies eligible (pl_input_tokens plan) now profile (rs_db st)"
  show ?case
  proof (cases "?pools = []")
    case True
    with Cons.prems(1) ip have "try_profiles P plan priority policies eligible now turns profiles
        (st\<lparr>rs_pressure := True\<rparr>) = (found, st')" by simp
    then show ?thesis by (rule Cons.IH) (use Cons.prems in \<open>simp_all add: run_ok_def\<close>)
  next
    case False
    obtain f st1 where one: "try_pools P plan priority index profile eligible turns ?pools st = (f, st1)"
      by (cases "try_pools P plan priority index profile eligible turns ?pools st")
    have ok: "run_ok rows0 (cred_account ` set eligible) st1 \<and>
        (\<forall>res. f = Some res \<longrightarrow> served_row rows0 (views (rs_db st1)) res)"
      by (rule pools_ok_run [OF one Cons.prems(2) _ Cons.prems(3)]) (rule ordered_pools_pool)
    show ?thesis
    proof (cases f)
      case None
      with Cons.prems(1) one ip False
      have "try_profiles P plan priority policies eligible now turns profiles st1 = (found, st')"
        by (auto split: list.splits)
      then show ?thesis using Cons.IH ok Cons.prems(3) by blast
    next
      case (Some res)
      with Cons.prems(1) one ip False have "found = Some res" "st' = st1" by (auto split: list.splits)
      with ok Some show ?thesis by simp
    qed
  qed
qed simp

text \<open>
  C18: a route leaves nothing in flight: however pools, credentials and models are tried and however
  the provider fails, when the route returns every reservation it made has been finished, it made at
  most 128 of them, all in pools of the credentials that its service priority may use (routine pools
  only for background work), and a served turn has a reservation that succeeded for its model.
\<close>

theorem route_leaves_nothing_in_flight:
  assumes "execute_assistant_capacity_route P plan credentials requested policies now turns db = (result, db')"
    "distinct (map rv_id (as_reservations db))" "proper_turns turns" "requested_priority requested = Inr priority"
  shows "list_all (\<lambda>v. rv_id v \<in> rv_id ` set (as_reservations db) \<or>
        rv_state v \<noteq> IN_FLIGHT \<and> rv_pool v \<in> cred_account ` set (eligible_credentials credentials priority))
       (as_reservations db') \<and>
     length (as_reservations db') \<le> length (as_reservations db) + 128 \<and>
     (case result of Served sv \<Rightarrow> list_ex (\<lambda>v. rv_id v \<notin> rv_id ` set (as_reservations db) \<and> rv_state v = SUCCEEDED \<and>
        rv_profile v = mp_id (sv_profile sv)) (as_reservations db') | _ \<Rightarrow> True)"
proof -
  let ?rows0 = "as_reservations db" and ?eligible = "eligible_credentials credentials priority"
  let ?pools = "cred_account ` set ?eligible"
  have start: "flown ?rows0 ?pools 0 {} (views db)" by (rule flown_start [OF assms(2)])
  have "\<exists>n. flown ?rows0 ?pools n {} (views db') \<and> served_row ?rows0 (views db') result"
  proof (cases "db' = db \<and> (\<exists>e. result = Failed e \<or> (\<exists>m. result = Unavailable m))")
    case True
    with start show ?thesis by auto
  next
    case False
    with assms(1,4) obtain valid where run: "run_route P plan priority valid ?eligible now turns db = (result, db')"
      by (auto simp: execute_assistant_capacity_route_def validated_credentials_def bind_out_def
          split: sum.splits if_splits)
    let ?st = "\<lparr>rs_db = db, rs_attempts = 0, rs_turn = 0, rs_pressure = False, rs_last = None\<rparr>"
    obtain found st where tp: "try_profiles P plan priority valid ?eligible now turns
        (enumerate 0 (pl_candidates plan)) ?st = (found, st)"
      by (cases "try_profiles P plan priority valid ?eligible now turns (enumerate 0 (pl_candidates plan)) ?st")
    have "run_ok ?rows0 ?pools ?st" using start by (simp add: run_ok_def)
    note ok = profiles_ok_run [OF tp this assms(3)]
    have "served_row ?rows0 (views (rs_db st)) (no_route st)"
      by (auto simp: no_route_def split: option.splits)
    with ok run tp show ?thesis
      by (auto simp: run_route_def run_ok_def split: option.splits)
  qed
  then obtain n where fl: "flown ?rows0 ?pools n {} (views db')" and sv: "served_row ?rows0 (views db') result" by blast
  from fl obtain new where new: "map rv_id (as_reservations db') = map rv_id ?rows0 @ new" "int (length new) = n" "n \<le> 128"
    by (auto simp: flown_def MAX_ASSISTANT_CAPACITY_ATTEMPTS_def)
  have "length (as_reservations db') = length (map rv_id ?rows0 @ new)" by (metis length_map new(1))
  then have len: "length (as_reservations db') \<le> length ?rows0 + 128" using new(2,3) by simp
  have calm_rows: "list_all (\<lambda>v. rv_id v \<in> rv_id ` set ?rows0 \<or> rv_state v \<noteq> IN_FLIGHT \<and> rv_pool v \<in> ?pools)
      (as_reservations db')"
    using fl by (auto simp: flown_def list_all_iff calm_def row_view_def)
  have "case result of Served sv \<Rightarrow> list_ex (\<lambda>v. rv_id v \<notin> rv_id ` set ?rows0 \<and> rv_state v = SUCCEEDED \<and>
      rv_profile v = mp_id (sv_profile sv)) (as_reservations db') | _ \<Rightarrow> True"
  proof (cases result)
    case (Served sv)
    with sv obtain i pool where "(i, pool, mp_id (sv_profile sv), SUCCEEDED) \<in> row_view ` set (as_reservations db')"
      "i \<notin> rv_id ` set ?rows0" by (auto simp: served_row_def)
    then obtain v where "v \<in> set (as_reservations db')"
      "row_view v = (i, pool, mp_id (sv_profile sv), SUCCEEDED)" by fastforce
    then have "rv_id v \<notin> rv_id ` set ?rows0 \<and> rv_state v = SUCCEEDED \<and> rv_profile v = mp_id (sv_profile sv)"
      using \<open>i \<notin> rv_id ` set ?rows0\<close> by (simp add: row_view_def)
    with Served \<open>v \<in> set (as_reservations db')\<close> show ?thesis by (auto simp: list_ex_iff)
  qed simp_all
  with calm_rows len show ?thesis by blast
qed

subsection \<open>Witness\<close>

definition sample_capacity_turn :: "nat \<Rightarrow> unit capacity_turn" where
  "sample_capacity_turn n =
     \<lparr>ct_before = None, ct_reserved_at = seconds 30, ct_uuid = CHR ''r'' # str_int (int n),
      ct_invoke = (\<lambda>profile _ _.
        \<lparr>iv_requests = [(\<lparr>mr_model = mp_model profile, mr_purpose = ''assistant'', mr_tokens = 900,
                          mr_contract = ''assistant'', mr_estimator = LOCAL_TOKEN_ESTIMATOR_VERSION\<rparr>, seconds 31)],
         iv_result = (\<lambda>answers. if answers = [True] then Inr () else Inl CapacityGone)\<rparr>),
      ct_finished_at = seconds 32\<rparr>"

definition sample_route :: "unit route_result \<times> assistant_db" where
  "sample_route = execute_assistant_capacity_route sample_platform sample_plan [sample_credential] ''BACKGROUND''
     [sample_policy] (seconds 30) sample_capacity_turn empty_assistant_db"

lemma sample_route_served: "case fst sample_route of Served sv \<Rightarrow> mp_id (sv_profile sv) = ''assistant-gemma-large-v1'' | _ \<Rightarrow> False"
  by code_simp

theorem route_leaves_nothing_in_flight_witness:
  "list_ex (\<lambda>v. rv_state v = SUCCEEDED) (as_reservations (snd sample_route)) \<and>
   list_all (\<lambda>v. rv_state v \<noteq> IN_FLIGHT) (as_reservations (snd sample_route))"
proof -
  have "execute_assistant_capacity_route sample_platform sample_plan [sample_credential] ''BACKGROUND''
      [sample_policy] (seconds 30) sample_capacity_turn empty_assistant_db = (fst sample_route, snd sample_route)"
    by (simp add: sample_route_def)
  moreover have "proper_turns sample_capacity_turn"
    by (auto simp: proper_turns_def sample_capacity_turn_def proper_error_def split: if_splits)
  moreover have "requested_priority ''BACKGROUND'' = Inr BACKGROUND" by (simp add: requested_priority_def)
  ultimately show ?thesis
    using route_leaves_nothing_in_flight [of sample_platform sample_plan "[sample_credential]" "''BACKGROUND''"
        "[sample_policy]" "seconds 30" sample_capacity_turn empty_assistant_db "fst sample_route" "snd sample_route"]
      sample_route_served
    by (cases "fst sample_route") (auto simp: empty_assistant_db_def list_ex_iff list_all_iff)
qed

end
