(* ===== verification/Executable_Label.thy ===== *)
theory Executable_Label
  imports Market_Data
begin

text \<open>
  The executable label of a decision, \<^verbatim>\<open>xauusd_news/evidence/executable_label.py\<close>: entry and exit
  are the first quotes received after the decision and after the holding time, and returns, excursions
  and gaps are those of the quotes received in between. The label of a decision can only depend on
  what was received up to its exit.

  The dataclass has one shape for both outcomes; here a refused label is \<open>Unrepairable\<close> with its
  reasons, and the fields of a valid one are a record.
\<close>

section \<open>Settings and labels\<close>

record label_settings =
  ls_expiry :: int
  ls_hold :: int
  ls_healthy_gap :: int
  ls_skew :: real
  ls_freshness :: real

definition default_settings :: label_settings where
  "default_settings = \<lparr>ls_expiry = 20, ls_hold = 30, ls_healthy_gap = 60, ls_skew = 20, ls_freshness = 20\<rparr>"

record checkpoint =
  ck_minutes :: int
  ck_received :: instant
  ck_long :: real
  ck_short :: real
  ck_long_mfe :: real
  ck_long_mae :: real
  ck_short_mfe :: real
  ck_short_mae :: real

record valid_label =
  vl_entry :: market_observation
  vl_entry_delay :: real
  vl_exit :: market_observation
  vl_exit_delay :: real
  vl_event_gap :: real
  vl_receipt_gap :: real
  vl_coverage :: real
  vl_ambiguity :: string
  vl_midpoint_move :: real
  vl_long :: real
  vl_short :: real
  vl_cost :: real
  vl_long_mfe :: real
  vl_long_mae :: real
  vl_short_mfe :: real
  vl_short_mae :: real
  vl_spread :: real
  vl_break_even_long :: real
  vl_break_even_short :: real
  vl_checkpoints :: "checkpoint list"

datatype executable_label = Unrepairable "string list" | Valid valid_label

section \<open>Building a label\<close>

definition receipt_key :: "market_observation \<Rightarrow> instant \<times> instant" where
  "receipt_key x = (mo_received x, mo_event x)"

definition event_key :: "market_observation \<Rightarrow> instant \<times> instant" where
  "event_key x = (mo_event x, mo_received x)"

definition received_within :: "instant \<Rightarrow> instant \<Rightarrow> market_observation list \<Rightarrow> market_observation list" where
  "received_within a b rows = filter (\<lambda>q. a \<le> mo_received q \<and> mo_received q \<le> b) rows"

fun gaps :: "platform \<Rightarrow> (market_observation \<Rightarrow> instant) \<Rightarrow> market_observation list \<Rightarrow> real list" where
  "gaps P f (x # y # zs) = total_seconds P (f y - f x) # gaps P f (y # zs)"
| "gaps P f _ = []"

definition max_default :: "real list \<Rightarrow> real" where
  "max_default xs = (case xs of [] \<Rightarrow> 0 | y # ys \<Rightarrow> Max (set (y # ys)))"

definition long_returns ::
    "platform \<Rightarrow> market_library \<Rightarrow> market_observation \<Rightarrow> market_observation list \<Rightarrow> real list" where
  "long_returns P M e path = map (\<lambda>q. math_log M (fl P (mo_bid q / mo_ask e))) path"

definition short_returns ::
    "platform \<Rightarrow> market_library \<Rightarrow> market_observation \<Rightarrow> market_observation list \<Rightarrow> real list" where
  "short_returns P M e path = map (\<lambda>q. math_log M (fl P (mo_bid e / mo_ask q))) path"

definition checkpoint_of ::
    "platform \<Rightarrow> market_library \<Rightarrow> market_observation \<Rightarrow> market_observation list \<Rightarrow> int \<Rightarrow> checkpoint option" where
  "checkpoint_of P M e path m =
     (case filter (\<lambda>q. mo_received e + minutes m \<le> mo_received q) path of
        [] \<Rightarrow> None
      | c # _ \<Rightarrow>
          (let visible = received_within (mo_received e) (mo_received c) path;
               longs = long_returns P M e visible; shorts = short_returns P M e visible
           in Some \<lparr>ck_minutes = m, ck_received = mo_received c, ck_long = last longs, ck_short = last shorts,
                    ck_long_mfe = Max (set longs), ck_long_mae = Min (set longs),
                    ck_short_mfe = Max (set shorts), ck_short_mae = Min (set shorts)\<rparr>))"

definition CHECKPOINTS :: "int list" where "CHECKPOINTS = [5, 10, 15, 20, 25]"

definition quote_coverage ::
    "platform \<Rightarrow> market_library \<Rightarrow> label_settings \<Rightarrow> market_observation \<Rightarrow> market_observation \<Rightarrow> real list \<Rightarrow> real" where
  "quote_coverage P M S e x receipt_gaps =
     (let span = max 1 (total_seconds P (mo_received x - mo_received e));
          covered = py_sum M (map (\<lambda>g. min (of_int (ls_healthy_gap S)) (max 0 g)) receipt_gaps)
      in min 1 (fl P (covered / span)))"

definition label_of_path ::
    "platform \<Rightarrow> market_library \<Rightarrow> label_settings \<Rightarrow> market_observation \<Rightarrow> market_observation \<Rightarrow>
     market_observation list \<Rightarrow> valid_label" where
  "label_of_path P M S e x path =
     (let receipt_gaps = gaps P mo_received path;
          event_gaps = gaps P mo_event (sort_key event_key path);
          longs = long_returns P M e path; shorts = short_returns P M e path;
          long = last longs; short = last shorts
      in \<lparr>vl_entry = e, vl_entry_delay = total_seconds P (mo_received e - mo_event e),
          vl_exit = x, vl_exit_delay = total_seconds P (mo_received x - mo_event x),
          vl_event_gap = max_default event_gaps, vl_receipt_gap = max_default receipt_gaps,
          vl_coverage = quote_coverage P M S e x receipt_gaps,
          vl_ambiguity = (if max_default receipt_gaps \<le> of_int (ls_healthy_gap S) then ''NONE'' else ''QUOTE_GAPS''),
          vl_midpoint_move = math_log M (fl P (midpoint P x / midpoint P e)),
          vl_long = long, vl_short = short, vl_cost = fl P (- fl P (long + short) / 2),
          vl_long_mfe = Max (set longs), vl_long_mae = Min (set longs),
          vl_short_mfe = Max (set shorts), vl_short_mae = Min (set shorts),
          vl_spread = Max (set (map (\<lambda>q. fl P (mo_ask q - mo_bid q)) path)),
          vl_break_even_long = max 0 long, vl_break_even_short = max 0 short,
          vl_checkpoints = List.map_filter (checkpoint_of P M e path) CHECKPOINTS\<rparr>)"

text \<open>A quote whose event clock runs ahead, or which was stale when it was received, is refused.\<close>

definition quote_defect ::
    "platform \<Rightarrow> market_library \<Rightarrow> label_settings \<Rightarrow> string \<Rightarrow> market_observation \<Rightarrow> string option" where
  "quote_defect P M S side q =
     (if micros_of_seconds M (ls_skew S) < mo_event q - mo_received q then Some (side @ ''_EVENT_CLOCK_AHEAD'')
      else if ls_freshness S < \<bar>total_seconds P (mo_received q - mo_event q)\<bar> then Some (side @ ''_QUOTE_STALE_ON_RECEIPT'')
      else None)"

text \<open>The first quote received after the decision, and the first one after the holding time.\<close>

definition entry_of :: "label_settings \<Rightarrow> instant \<Rightarrow> market_observation list \<Rightarrow> market_observation option" where
  "entry_of S decision rows =
     find (\<lambda>q. decision < mo_received q \<and> mo_received q \<le> decision + seconds (ls_expiry S)) rows"

definition exit_of :: "label_settings \<Rightarrow> market_observation \<Rightarrow> market_observation list \<Rightarrow> market_observation option" where
  "exit_of S e rows = find (\<lambda>q. mo_received e + minutes (ls_hold S) \<le> mo_received q) rows"

definition label_of_rows ::
    "platform \<Rightarrow> market_library \<Rightarrow> label_settings \<Rightarrow> instant \<Rightarrow> market_observation list \<Rightarrow> executable_label" where
  "label_of_rows P M S decision rows =
     (case entry_of S decision rows of
        None \<Rightarrow> Unrepairable [''NO_ENTRY_RECEIVED_WITHIN_EXPIRY'']
      | Some e \<Rightarrow>
          (case quote_defect P M S ''ENTRY'' e of
             Some r \<Rightarrow> Unrepairable [r]
           | None \<Rightarrow>
               (case exit_of S e rows of
                  None \<Rightarrow> Unrepairable [''NO_EXIT_RECEIVED_AFTER_HORIZON'']
                | Some x \<Rightarrow>
                    (case quote_defect P M S ''EXIT'' x of
                       Some r \<Rightarrow> Unrepairable [r]
                     | None \<Rightarrow>
                         (let path = received_within (mo_received e) (mo_received x) rows
                          in if path = [] then Unrepairable [''EMPTY_RECEIPT_PATH'']
                             else Valid (label_of_path P M S e x path))))))"

definition build_executable_label_v2 ::
    "platform \<Rightarrow> market_library \<Rightarrow> label_settings \<Rightarrow> instant \<Rightarrow> market_observation list \<Rightarrow> executable_label" where
  "build_executable_label_v2 P M S decision quotes = label_of_rows P M S decision (sort_key receipt_key quotes)"

section \<open>What was received later does not matter\<close>

lemma find_holds: "find p xs = Some x \<Longrightarrow> p x \<and> x \<in> set xs"
  by (induction xs) (auto split: if_splits)

lemma find_least:
  assumes "find p xs = Some x" "sorted (map k xs)" "y \<in> set xs" "p y"
  shows "k x \<le> k y"
  using assms by (induction xs) (auto split: if_splits)

lemma find_filter:
  assumes "find p xs = Some x" "q x"
  shows "find p (filter q xs) = Some x"
  using assms by (induction xs) (auto split: if_splits)

lemma find_append_keeps: "find p xs = Some x \<Longrightarrow> find p (xs @ ys) = Some x"
  by (induction xs) auto

text \<open>The rows received up to some instant are a prefix of the sorted rows.\<close>

lemma sorted_cut:
  fixes bound :: instant
  assumes "sorted (map receipt_key rows)"
  obtains later where "rows = filter (\<lambda>q. mo_received q \<le> bound) rows @ later" "\<forall>q \<in> set later. bound < mo_received q"
proof -
  have "\<exists>later. rows = filter (\<lambda>q. mo_received q \<le> bound) rows @ later \<and> (\<forall>q \<in> set later. bound < mo_received q)"
    using assms
  proof (induction rows)
    case (Cons x rows)
    show ?case
    proof (cases "mo_received x \<le> bound")
      case True
      with Cons show ?thesis by auto
    next
      case False
      with Cons.prems have "\<forall>q \<in> set (x # rows). bound < mo_received q"
        by (fastforce simp: receipt_key_def less_eq_prod_def)
      then have "filter (\<lambda>q. mo_received q \<le> bound) (x # rows) = []" by (auto simp: filter_empty_conv)
      with \<open>\<forall>q \<in> set (x # rows). bound < mo_received q\<close> show ?thesis by (metis append_Nil)
    qed
  qed simp
  with that show thesis by blast
qed

lemma label_valid_cases:
  assumes "label_of_rows P M S decision rows = Valid l"
  obtains e x where "entry_of S decision rows = Some e" "quote_defect P M S ''ENTRY'' e = None"
    "exit_of S e rows = Some x" "quote_defect P M S ''EXIT'' x = None"
    "received_within (mo_received e) (mo_received x) rows \<noteq> []"
    "l = label_of_path P M S e x (received_within (mo_received e) (mo_received x) rows)"
  using assms unfolding label_of_rows_def Let_def by (auto split: option.splits if_splits)

lemma label_of_path_ends: "vl_entry (label_of_path P M S e x path) = e" "vl_exit (label_of_path P M S e x path) = x"
  by (simp_all add: label_of_path_def Let_def)

text \<open>A valid label needs only the rows received up to its exit.\<close>

lemma label_extends:
  assumes "label_of_rows P M S decision rows = Valid l" "\<forall>q \<in> set later. mo_received (vl_exit l) < mo_received q"
  shows "label_of_rows P M S decision (rows @ later) = Valid l"
  using assms(1)
proof (cases rule: label_valid_cases)
  case (1 e x)
  have x: "vl_exit l = x" using 1(6) by (simp add: label_of_path_ends)
  have "received_within (mo_received e) (mo_received x) later = []"
    using assms(2) x by (auto simp: received_within_def filter_empty_conv)
  then have "received_within (mo_received e) (mo_received x) (rows @ later) =
      received_within (mo_received e) (mo_received x) rows" by (simp add: received_within_def)
  moreover have "entry_of S decision (rows @ later) = Some e" using 1(1) unfolding entry_of_def by (rule find_append_keeps)
  moreover have "exit_of S e (rows @ later) = Some x" using 1(3) unfolding exit_of_def by (rule find_append_keeps)
  ultimately show ?thesis using 1 by (simp add: label_of_rows_def Let_def)
qed

lemma label_cut:
  assumes "label_of_rows P M S decision rows = Valid l" "0 \<le> ls_hold S"
  shows "label_of_rows P M S decision (filter (\<lambda>q. mo_received q \<le> mo_received (vl_exit l)) rows) = Valid l"
  using assms(1)
proof (cases rule: label_valid_cases)
  case (1 e x)
  have x: "vl_exit l = x" using 1(6) by (simp add: label_of_path_ends)
  have "mo_received e + minutes (ls_hold S) \<le> mo_received x"
    using find_holds [OF 1(3) [unfolded exit_of_def]] by simp
  then have e: "mo_received e \<le> mo_received x" using assms(2) by simp
  let ?cut = "filter (\<lambda>q. mo_received q \<le> mo_received x) rows"
  have "received_within (mo_received e) (mo_received x) ?cut = received_within (mo_received e) (mo_received x) rows"
    unfolding received_within_def filter_filter by (rule filter_cong) auto
  moreover have "entry_of S decision ?cut = Some e" using 1(1) e unfolding entry_of_def by (rule find_filter)
  moreover have "exit_of S e ?cut = Some x" using 1(3) unfolding exit_of_def by (rule find_filter) simp
  ultimately show ?thesis using 1 x by (simp add: label_of_rows_def Let_def)
qed

text \<open>
  C22: a label does not look ahead: quotes received after its exit, in whatever order they are given,
  leave a valid label as it is; its entry is the first quote received after the decision and within
  the expiry, and its exit the first one received once the holding time has passed.
\<close>

theorem label_does_not_look_ahead:
  assumes "build_executable_label_v2 P M S decision quotes = Valid l" "0 \<le> ls_hold S"
    "list_all (\<lambda>q. mo_received (vl_exit l) < mo_received q) later"
  shows "build_executable_label_v2 P M S decision (quotes @ later) = Valid l \<and>
    vl_entry l \<in> set quotes \<and> vl_exit l \<in> set quotes \<and>
    decision < mo_received (vl_entry l) \<and> mo_received (vl_entry l) \<le> decision + seconds (ls_expiry S) \<and>
    mo_received (vl_entry l) + minutes (ls_hold S) \<le> mo_received (vl_exit l) \<and>
    list_all (\<lambda>q. mo_received q \<le> decision \<or> mo_received (vl_entry l) \<le> mo_received q) quotes \<and>
    list_all (\<lambda>q. mo_received q < mo_received (vl_entry l) + minutes (ls_hold S) \<or>
      mo_received (vl_exit l) \<le> mo_received q) quotes"
proof -
  let ?rows = "sort_key receipt_key quotes" and ?bound = "mo_received (vl_exit l)"
  have v: "label_of_rows P M S decision ?rows = Valid l" using assms(1) by (simp add: build_executable_label_v2_def)
  let ?all = "sort_key receipt_key (quotes @ later)"
  have "filter (\<lambda>q. mo_received q \<le> ?bound) later = []"
    using assms(3) by (auto simp: list_all_iff filter_empty_conv)
  then have cut: "filter (\<lambda>q. mo_received q \<le> ?bound) ?all = filter (\<lambda>q. mo_received q \<le> ?bound) ?rows"
    by (simp add: filter_sort)
  have "sorted (map receipt_key ?all)" by simp
  then obtain rest where rest: "?all = filter (\<lambda>q. mo_received q \<le> ?bound) ?all @ rest" "\<forall>q \<in> set rest. ?bound < mo_received q"
    by (rule sorted_cut)
  have "label_of_rows P M S decision (filter (\<lambda>q. mo_received q \<le> ?bound) ?all @ rest) = Valid l"
    unfolding cut by (rule label_extends [OF label_cut [OF v assms(2)] rest(2)])
  then have same: "build_executable_label_v2 P M S decision (quotes @ later) = Valid l"
    using rest(1) by (simp add: build_executable_label_v2_def)
  from v show ?thesis
  proof (cases rule: label_valid_cases)
    case (1 e x)
    have ends: "vl_entry l = e" "vl_exit l = x" using 1(6) by (simp_all add: label_of_path_ends)
    note e = find_holds [OF 1(1) [unfolded entry_of_def]] and x = find_holds [OF 1(3) [unfolded exit_of_def]]
    have so: "sorted (map receipt_key ?rows)" by simp
    have first: "mo_received e \<le> mo_received q" if "q \<in> set quotes" "decision < mo_received q" for q
    proof (cases "mo_received q \<le> decision + seconds (ls_expiry S)")
      case True
      then show ?thesis using find_least [OF 1(1) [unfolded entry_of_def] so, of q] that
        by (auto simp: receipt_key_def less_eq_prod_def)
    qed (use e in simp)
    have exit_first: "mo_received x \<le> mo_received q"
      if "q \<in> set quotes" "mo_received e + minutes (ls_hold S) \<le> mo_received q" for q
      using find_least [OF 1(3) [unfolded exit_of_def] so, of q] that
      by (auto simp: receipt_key_def less_eq_prod_def)
    have first': "mo_received q \<le> decision \<or> mo_received e \<le> mo_received q" if "q \<in> set quotes" for q
      using first [OF that] by linarith
    have exit_first': "mo_received q < mo_received e + minutes (ls_hold S) \<or> mo_received x \<le> mo_received q"
      if "q \<in> set quotes" for q using exit_first [OF that] by linarith
    show ?thesis using same e x first' exit_first' unfolding ends list_all_iff by simp
  qed
qed

section \<open>Bounds of a valid label\<close>

definition nonneg_sum :: "market_library \<Rightarrow> bool" where
  "nonneg_sum M \<longleftrightarrow> (\<forall>xs. (\<forall>x \<in> set xs. 0 \<le> x) \<longrightarrow> 0 \<le> py_sum M xs)"

lemma last_between: "xs \<noteq> [] \<Longrightarrow> Min (set xs) \<le> last xs \<and> last xs \<le> Max (set xs)" for xs :: "real list"
  by simp

text \<open>
  The numbers of a valid label are consistent: coverage is a ratio, each return lies between the
  adverse and the favourable excursion of its side, a break-even commission is the gain when there
  is one and zero otherwise, and the label is free of ambiguity exactly when no two receipts are
  further apart than a healthy gap.
\<close>

theorem label_numbers_are_consistent:
  assumes "build_executable_label_v2 P M S decision quotes = Valid l" "binary64_rounding (fl P)" "nonneg_sum M"
    "0 \<le> ls_healthy_gap S"
  shows "0 \<le> vl_coverage l \<and> vl_coverage l \<le> 1 \<and>
    vl_long_mae l \<le> vl_long l \<and> vl_long l \<le> vl_long_mfe l \<and>
    vl_short_mae l \<le> vl_short l \<and> vl_short l \<le> vl_short_mfe l \<and>
    0 \<le> vl_break_even_long l \<and> 0 \<le> vl_break_even_short l \<and>
    (vl_ambiguity l = ''NONE'' \<longleftrightarrow> vl_receipt_gap l \<le> of_int (ls_healthy_gap S))"
proof -
  have "label_of_rows P M S decision (sort_key receipt_key quotes) = Valid l"
    using assms(1) by (simp add: build_executable_label_v2_def)
  then show ?thesis
  proof (cases rule: label_valid_cases)
    case (1 e x)
    let ?path = "received_within (mo_received e) (mo_received x) (sort_key receipt_key quotes)"
    have ne: "long_returns P M e ?path \<noteq> []" "short_returns P M e ?path \<noteq> []"
      using 1(5) by (simp_all add: long_returns_def short_returns_def)
    have "0 \<le> py_sum M (map (\<lambda>g. min (of_int (ls_healthy_gap S)) (max 0 g)) (gaps P mo_received ?path))"
      using assms(3,4) unfolding nonneg_sum_def by auto
    then have "0 \<le> py_sum M (map (\<lambda>g. min (of_int (ls_healthy_gap S)) (max 0 g)) (gaps P mo_received ?path)) /
        max 1 (total_seconds P (mo_received x - mo_received e))" by simp
    from rounding_mono [OF assms(2) this] rounding_int [OF assms(2), of 0]
    have "0 \<le> quote_coverage P M S e x (gaps P mo_received ?path)" by (simp add: quote_coverage_def Let_def)
    moreover have "quote_coverage P M S e x (gaps P mo_received ?path) \<le> 1" by (simp add: quote_coverage_def Let_def)
    ultimately show ?thesis
      using last_between [OF ne(1)] last_between [OF ne(2)] 1(6) by (simp add: label_of_path_def Let_def)
  qed
qed

section \<open>Quotes received at the same instant\<close>

text \<open>
  The returns are those of the last quote received at the instant of the exit, not of the exit: with
  two quotes received together, the label reports one as its exit and the return of the other.
\<close>

definition tied_quotes :: "market_observation list" where
  "tied_quotes =
     [\<lparr>mo_event = seconds 1, mo_received = seconds 1, mo_bid = 1000, mo_ask = 1000\<rparr>,
      \<lparr>mo_event = minutes 31, mo_received = minutes 31, mo_bid = 2000, mo_ask = 2000\<rparr>,
      \<lparr>mo_event = minutes 31 + 1, mo_received = minutes 31, mo_bid = 500, mo_ask = 500\<rparr>]"

definition sample_label :: "executable_label" where
  "sample_label = build_executable_label_v2 sample_platform sample_library default_settings 0 tied_quotes"

lemma tied_exit_reports_another_return:
  "case sample_label of Unrepairable _ \<Rightarrow> False
   | Valid l \<Rightarrow> mo_bid (vl_exit l) = 2000 \<and> vl_long l = math_log sample_library (500 / 1000)"
  by code_simp

subsection \<open>Witnesses\<close>

lemma sample_label_valid: obtains l where "sample_label = Valid l"
  using tied_exit_reports_another_return by (auto split: executable_label.splits)

definition late_quote :: market_observation where
  "late_quote = \<lparr>mo_event = minutes 40, mo_received = minutes 40, mo_bid = 7, mo_ask = 8\<rparr>"

lemma late_quote_is_late:
  "case sample_label of Unrepairable _ \<Rightarrow> False | Valid l \<Rightarrow> mo_received (vl_exit l) < mo_received late_quote"
  by code_simp

theorem label_does_not_look_ahead_witness:
  "build_executable_label_v2 sample_platform sample_library default_settings 0 (tied_quotes @ [late_quote]) = sample_label"
proof -
  obtain l where l: "sample_label = Valid l" by (rule sample_label_valid)
  have "list_all (\<lambda>q. mo_received (vl_exit l) < mo_received q) [late_quote]"
    using late_quote_is_late unfolding l by simp
  moreover have "0 \<le> ls_hold default_settings" by (simp add: default_settings_def)
  ultimately show ?thesis
    using label_does_not_look_ahead [OF l [unfolded sample_label_def]] l by simp
qed

theorem label_numbers_are_consistent_witness:
  "case sample_label of Unrepairable _ \<Rightarrow> False | Valid l \<Rightarrow> 0 \<le> vl_coverage l \<and> vl_coverage l \<le> 1"
proof -
  obtain l where l: "sample_label = Valid l" by (rule sample_label_valid)
  have "binary64_rounding (fl sample_platform)" by (simp add: binary64_rounding_def sample_platform_def)
  moreover have "nonneg_sum sample_library"
    by (simp add: nonneg_sum_def sample_library_def sum_list_nonneg)
  moreover have "0 \<le> ls_healthy_gap default_settings" by (simp add: default_settings_def)
  ultimately have "0 \<le> vl_coverage l \<and> vl_coverage l \<le> 1"
    using label_numbers_are_consistent l [unfolded sample_label_def] by blast
  then show ?thesis unfolding l by simp
qed

end
