(* ===== verification/Quote_Archive.thy ===== *)
theory Quote_Archive
  imports Market_Data
begin

text \<open>
  The archive of executable quotes, \<^verbatim>\<open>xauusd_news/quotes.py\<close>: a file of little-endian records, a
  header of 56 bytes and rows of 16, which is read into validated quotes. Whatever the bytes are, the
  quotes that come out are positive, not crossed and in order, and what the layout encodes is what is
  read back.

  The reader is a generator: a model of it returns the quotes it yields and the error it raises after
  them, if any.
\<close>

section \<open>Little-endian integers\<close>

definition le_uint :: "byte list \<Rightarrow> int" where
  "le_uint bs = horner_sum uint 256 bs"

text \<open>The signed reading of \<open>struct\<close>, in two's complement.\<close>

definition le_int :: "byte list \<Rightarrow> int" where
  "le_int bs = (let u = le_uint bs; b = 256 ^ length bs in if 2 * u < b then u else u - b)"

primrec le_bytes :: "nat \<Rightarrow> int \<Rightarrow> byte list" where
  "le_bytes 0 v = []"
| "le_bytes (Suc n) v = word_of_int v # le_bytes n (v div 256)"

lemma length_le_bytes [simp]: "length (le_bytes n v) = n"
  by (induction n arbitrary: v) simp_all

lemma uint_byte: "uint (word_of_int v :: byte) = v mod 256"
  by (simp add: uint_word_of_int)

lemma le_uint_bytes: "le_uint (le_bytes n v) = v mod 256 ^ n"
proof (induction n arbitrary: v)
  case 0
  then show ?case by (simp add: le_uint_def)
next
  case (Suc n)
  have "le_uint (le_bytes (Suc n) v) = v mod 256 + 256 * (v div 256 mod 256 ^ n)"
    using Suc [of "v div 256"] by (simp add: le_uint_def uint_byte)
  also have "\<dots> = v mod (256 * 256 ^ n)" by (simp add: mod_mult2_eq' add.commute zmod_zmult2_eq)
  finally show ?case by simp
qed

lemma le_int_bytes:
  assumes "- (256 ^ n) \<le> 2 * v" "2 * v < 256 ^ n"
  shows "le_int (le_bytes n v) = v"
proof (cases "0 \<le> v")
  case True
  with assms have "v mod 256 ^ n = v" by simp
  with True assms show ?thesis by (simp add: le_int_def le_uint_bytes Let_def)
next
  case False
  have "v mod 256 ^ n = (v + 256 ^ n) mod 256 ^ n" by simp
  also have "\<dots> = v + 256 ^ n" using assms False by (intro mod_pos_pos_trivial) linarith+
  finally show ?thesis using assms False by (simp add: le_int_def le_uint_bytes Let_def)
qed

section \<open>Header and rows\<close>

definition MAGIC :: "byte list" where "MAGIC = map of_char ''XAUTK002''"
definition VERSION :: int where "VERSION = 2"
definition HEADER_SIZE :: nat where "HEADER_SIZE = 56"
definition ROW_SIZE :: nat where "ROW_SIZE = 16"

record archive_header =
  ah_magic :: "byte list"
  ah_version :: int
  ah_scale :: int
  ah_rows :: int
  ah_first :: int
  ah_last :: int

definition field_at :: "nat \<Rightarrow> nat \<Rightarrow> byte list \<Rightarrow> int" where
  "field_at offset width bs = le_int (take width (drop offset bs))"

text \<open>\<open>HEADER.unpack\<close> of \<open><8siiqqqqii\<close>: the fourth and the last two fields are not used.\<close>

definition unpack_header :: "byte list \<Rightarrow> archive_header" where
  "unpack_header bs =
     \<lparr>ah_magic = take 8 bs, ah_version = field_at 8 4 bs, ah_scale = field_at 12 4 bs,
      ah_rows = field_at 24 8 bs, ah_first = field_at 32 8 bs, ah_last = field_at 40 8 bs\<rparr>"

record archive_row =
  ar_ticks :: int
  ar_bid :: int
  ar_ask :: int

definition unpack_row :: "byte list \<Rightarrow> archive_row" where
  "unpack_row bs = \<lparr>ar_ticks = field_at 0 8 bs, ar_bid = field_at 8 4 bs, ar_ask = field_at 12 4 bs\<rparr>"

fun unpack_rows :: "nat \<Rightarrow> byte list \<Rightarrow> archive_row list" where
  "unpack_rows 0 bs = []"
| "unpack_rows (Suc n) bs = unpack_row (take ROW_SIZE bs) # unpack_rows n (drop ROW_SIZE bs)"

definition archive_rows :: "byte list \<Rightarrow> archive_row list" where
  "archive_rows content = unpack_rows (nat (ah_rows (unpack_header content))) (drop HEADER_SIZE content)"

definition header_of :: "byte list \<Rightarrow> archive_header outcome" where
  "header_of content =
     (if length content < HEADER_SIZE then Inl (ValueError ''truncated XAUTK002 header'')
      else
        (let h = unpack_header content
         in if ah_magic h \<noteq> MAGIC \<or> ah_version h \<noteq> VERSION \<or> ah_scale h \<le> 0 \<or> ah_rows h < 0
            then Inl (ValueError ''invalid XAUTK002 header'')
            else if int (length content) \<noteq> int HEADER_SIZE + ah_rows h * int ROW_SIZE
            then Inl (ValueError ''XAUTK002 file size does not match row count'')
            else Inr h))"

section \<open>Quotes\<close>

record archive_quote =
  aq_time :: instant
  aq_bid :: real
  aq_ask :: real

text \<open>The first instant of year 1 and the last of year 9999, in microseconds of the Unix epoch.\<close>

definition DOTNET_EPOCH :: instant where "DOTNET_EPOCH = - 62135596800000000"
definition MAX_INSTANT :: instant where "MAX_INSTANT = 253402300799999999"

definition from_dotnet_ticks :: "int \<Rightarrow> instant outcome" where
  "from_dotnet_ticks v =
     (if v < 0 then Inl (ValueError ''negative .NET timestamp'')
      else if MAX_INSTANT < DOTNET_EPOCH + v div 10 then Inl (OtherError ''OverflowError'')
      else Inr (DOTNET_EPOCH + v div 10))"

definition make_quote :: "instant \<Rightarrow> real \<Rightarrow> real \<Rightarrow> archive_quote outcome" where
  "make_quote t bid ask =
     (if bid \<le> 0 \<or> ask < bid then Inl (ValueError ''quote must have positive, non-crossed Bid/Ask'')
      else Inr \<lparr>aq_time = t, aq_bid = bid, aq_ask = ask\<rparr>)"

definition quote_of_row :: "platform \<Rightarrow> int \<Rightarrow> archive_row \<Rightarrow> archive_quote outcome" where
  "quote_of_row P scale r =
     bind_out (from_dotnet_ticks (ar_ticks r)) (\<lambda>t.
       make_quote t (fl P (of_int (ar_bid r) / of_int scale)) (fl P (of_int (ar_ask r) / of_int scale)))"

fun read_rows ::
    "platform \<Rightarrow> int \<Rightarrow> int option \<Rightarrow> archive_row list \<Rightarrow> archive_quote list \<times> py_error option" where
  "read_rows P scale previous [] = ([], None)"
| "read_rows P scale previous (r # rs) =
     (if (case previous of None \<Rightarrow> False | Some p \<Rightarrow> ar_ticks r < p)
      then ([], Some (ValueError ''XAUTK002 rows are out of order''))
      else if ar_bid r \<le> 0 \<or> ar_ask r < ar_bid r then ([], Some (ValueError ''XAUTK002 contains an invalid quote''))
      else case quote_of_row P scale r of
        Inl e \<Rightarrow> ([], Some e)
      | Inr q \<Rightarrow> (case read_rows P scale (Some (ar_ticks r)) rs of (qs, e) \<Rightarrow> (q # qs, e)))"

definition boundaries_match :: "archive_header \<Rightarrow> archive_row list \<Rightarrow> bool" where
  "boundaries_match h rs \<longleftrightarrow> rs = [] \<or> (ar_ticks (hd rs) = ah_first h \<and> ar_ticks (last rs) = ah_last h)"

definition read_xautk002 :: "platform \<Rightarrow> byte list \<Rightarrow> archive_quote list \<times> py_error option" where
  "read_xautk002 P content =
     (case header_of content of
        Inl e \<Rightarrow> ([], Some e)
      | Inr h \<Rightarrow>
          (let rs = archive_rows content
           in case read_rows P (ah_scale h) None rs of
                (qs, Some e) \<Rightarrow> (qs, Some e)
              | (qs, None) \<Rightarrow>
                  (qs, if boundaries_match h rs then None
                       else Some (ValueError ''XAUTK002 header boundaries do not match rows''))))"

section \<open>What is yielded is valid\<close>

definition valid_row :: "archive_row \<Rightarrow> bool" where
  "valid_row r \<longleftrightarrow> 0 < ar_bid r \<and> ar_bid r \<le> ar_ask r"

lemma length_unpack_rows [simp]: "length (unpack_rows n bs) = n"
  by (induction n arbitrary: bs) simp_all

lemma quote_of_row_cases:
  assumes "quote_of_row P scale r = Inr q"
  shows "0 \<le> ar_ticks r" "aq_time q = DOTNET_EPOCH + ar_ticks r div 10"
    "aq_bid q = fl P (of_int (ar_bid r) / of_int scale)" "aq_ask q = fl P (of_int (ar_ask r) / of_int scale)"
    "0 < aq_bid q" "aq_bid q \<le> aq_ask q" "aq_time q \<le> MAX_INSTANT"
  using assms by (auto simp: quote_of_row_def from_dotnet_ticks_def make_quote_def split: if_splits)

lemma read_rows_quotes:
  assumes "read_rows P scale previous rs = (qs, e)"
  shows "\<exists>n. list_all2 (\<lambda>r q. quote_of_row P scale r = Inr q \<and> valid_row r) (take n rs) qs \<and>
      sorted (map ar_ticks (take n rs)) \<and> (\<forall>p. previous = Some p \<longrightarrow> (\<forall>r \<in> set (take n rs). p \<le> ar_ticks r)) \<and>
      (e = None \<longrightarrow> length rs \<le> n)"
  using assms
proof (induction P scale previous rs arbitrary: qs rule: read_rows.induct)
  case (2 P scale previous r rs)
  show ?case
  proof (cases "(case previous of None \<Rightarrow> False | Some p \<Rightarrow> ar_ticks r < p) \<or> ar_bid r \<le> 0 \<or> ar_ask r < ar_bid r")
    case True
    with 2(2) have "qs = []" "e \<noteq> None" by (auto split: if_splits)
    then show ?thesis by (intro exI [of _ 0]) simp
  next
    case ok: False
    show ?thesis
    proof (cases "quote_of_row P scale r")
      case (Inl err)
      with ok 2(2) have "qs = []" "e \<noteq> None" by (auto split: if_splits)
      then show ?thesis by (intro exI [of _ 0]) simp
    next
      case (Inr q)
      obtain qs' where rest: "read_rows P scale (Some (ar_ticks r)) rs = (qs', e)" "qs = q # qs'"
        using ok Inr 2(2) by (auto split: if_splits prod.splits)
      with 2(1) ok Inr obtain n where n:
        "list_all2 (\<lambda>r q. quote_of_row P scale r = Inr q \<and> valid_row r) (take n rs) qs'"
        "sorted (map ar_ticks (take n rs))" "\<forall>x \<in> set (take n rs). ar_ticks r \<le> ar_ticks x" "e = None \<longrightarrow> length rs \<le> n"
        by fastforce
      have "\<forall>p. previous = Some p \<longrightarrow> p \<le> ar_ticks r" using ok by auto
      with n ok Inr rest(2) show ?thesis
        by (intro exI [of _ "Suc n"]) (fastforce simp: valid_row_def)
    qed
  qed
qed (auto intro: exI [of _ 0])

lemma quotes_in_order:
  assumes "list_all2 (\<lambda>r q. quote_of_row P scale r = Inr q \<and> valid_row r) rs qs" "sorted (map ar_ticks rs)"
  shows "sorted (map aq_time qs) \<and> list_all (\<lambda>q. 0 < aq_bid q \<and> aq_bid q \<le> aq_ask q) qs"
  using assms
proof (induction rs qs rule: list_all2_induct)
  case (Cons r rs q qs)
  have "aq_time q \<le> aq_time q'" if "q' \<in> set qs" for q'
  proof -
    obtain r' where r': "r' \<in> set rs" "quote_of_row P scale r' = Inr q'"
      using list_all2_nthD2 [OF Cons.hyps(2)] \<open>q' \<in> set qs\<close>
      by (metis (mono_tags, lifting) Cons.hyps(2) in_set_conv_nth list_all2_lengthD)
    have "ar_ticks r \<le> ar_ticks r'" using Cons.prems r'(1) by simp
    then have "ar_ticks r div 10 \<le> ar_ticks r' div 10" by (rule zdiv_mono1) simp
    with quote_of_row_cases(2) [OF r'(2)] quote_of_row_cases(2) Cons.hyps(1) show ?thesis by fastforce
  qed
  with Cons quote_of_row_cases(5,6) show ?case by auto
qed simp

text \<open>
  C24: whatever the bytes of an archive are, the quotes that reading it yields are positive and not
  crossed and their times do not decrease; a read that raises nothing yields one quote for each row
  that the header counts, and the file is exactly as long as the header says.
\<close>

theorem archive_quotes_are_valid:
  assumes "read_xautk002 P content = (qs, e)"
  shows "list_all (\<lambda>q. 0 < aq_bid q \<and> aq_bid q \<le> aq_ask q) qs \<and> sorted (map aq_time qs) \<and>
    (e = None \<longrightarrow> take 8 content = MAGIC \<and> int (length qs) = ah_rows (unpack_header content) \<and>
       length content = HEADER_SIZE + length qs * ROW_SIZE)"
proof (cases "header_of content")
  case (Inl err)
  with assms show ?thesis by (auto simp: read_xautk002_def)
next
  case (Inr h)
  then have h: "h = unpack_header content" "ah_magic h = MAGIC" "0 \<le> ah_rows h"
    "int (length content) = int HEADER_SIZE + ah_rows h * int ROW_SIZE"
    by (auto simp: header_of_def Let_def split: if_splits)
  obtain e' where r: "read_rows P (ah_scale h) None (archive_rows content) = (qs, e')" "e = None \<longrightarrow> e' = None"
    using assms Inr by (auto simp: read_xautk002_def Let_def split: prod.splits option.splits)
  then obtain n where n: "list_all2 (\<lambda>r q. quote_of_row P (ah_scale h) r = Inr q \<and> valid_row r) (take n (archive_rows content)) qs"
    "sorted (map ar_ticks (take n (archive_rows content)))" "e' = None \<longrightarrow> length (archive_rows content) \<le> n"
    using read_rows_quotes by blast
  have len: "length (archive_rows content) = nat (ah_rows h)" by (simp add: archive_rows_def h(1))
  have "e = None \<Longrightarrow> int (length qs) = ah_rows h"
    using list_all2_lengthD [OF n(1)] n(3) r(2) len h(3) by simp
  moreover from this have "e = None \<Longrightarrow> int (length content) = int (HEADER_SIZE + length qs * ROW_SIZE)"
    using h(4) by simp
  then have "e = None \<Longrightarrow> length content = HEADER_SIZE + length qs * ROW_SIZE" by (simp only: of_nat_eq_iff)
  ultimately show ?thesis using quotes_in_order [OF n(1,2)] h by (simp add: unpack_header_def)
qed

section \<open>What the layout encodes is read back\<close>

lemma small_unit_real: "(u :: int) < 2 ^ 31 \<Longrightarrow> (of_int u :: real) \<le> 2 ^ 31"
  by (metis less_imp_le of_int_le_iff of_int_numeral of_int_power)

lemma rounded_quotient:
  assumes "binary64_relative r" "0 < u" "u < 2 ^ 31" "0 < s" "s < (2::int) ^ 31"
  shows "0 < r (of_int u / of_int s)" "\<bar>r (of_int u / of_int s) * of_int s - of_int u\<bar> \<le> of_int u / 2 ^ 53"
proof -
  let ?x = "of_int u / of_int s :: real"
  have u: "(1::real) \<le> of_int u" "of_int u \<le> (2::real) ^ 31" and s: "(1::real) \<le> of_int s" "of_int s \<le> (2::real) ^ 31"
    using assms(2-5) small_unit_real by auto
  have "1 / 2 ^ 31 \<le> ?x" using u s by (intro frac_le) simp_all
  then have lo: "1 / 2 ^ 100 \<le> \<bar>?x\<bar>" "0 < ?x" using u s by (simp_all add: field_simps)
  have "?x \<le> of_int u / 1" using u s by (intro divide_left_mono) simp_all
  then have hi: "\<bar>?x\<bar> \<le> 2 ^ 100" using u lo(2) by simp
  have err: "\<bar>r ?x - ?x\<bar> \<le> ?x / 2 ^ 53" 
    using assms(1) lo(1) hi unfolding binary64_relative_def by (metis abs_of_pos [OF lo(2)])
  have "?x / 2 ^ 53 < ?x" using lo(2) by simp
  with err show "0 < r ?x" by linarith
  have "r ?x * of_int s - of_int u = (r ?x - ?x) * of_int s" using s by (simp add: field_simps)
  then have "\<bar>r ?x * of_int s - of_int u\<bar> = \<bar>r ?x - ?x\<bar> * of_int s" using s by (simp add: abs_mult)
  also have "\<dots> \<le> (?x / 2 ^ 53) * of_int s" using err s by (intro mult_right_mono) simp_all
  also have "\<dots> = of_int u / 2 ^ 53" using s by simp
  finally show "\<bar>r ?x * of_int s - of_int u\<bar> \<le> of_int u / 2 ^ 53" .
qed

text \<open>The integer price survives its two roundings.\<close>

lemma units_recovered:
  assumes "binary64_relative r" "0 < u" "u < 2 ^ 31" "0 < s" "s < (2::int) ^ 31"
  shows "py_round (r (r (of_int u / of_int s) * of_int s)) = u"
proof (rule py_round_near)
  let ?y = "r (of_int u / of_int s) * of_int s"
  have u: "(1::real) \<le> of_int u" "of_int u \<le> (2::real) ^ 31" using assms(2,3) small_unit_real by auto
  have near: "\<bar>?y - of_int u\<bar> \<le> of_int u / 2 ^ 53" using rounded_quotient [OF assms] by simp
  have "of_int u / (2::real) ^ 53 \<le> 1 / 2 ^ 22" using u by (simp add: field_simps)
  with near have y: "\<bar>?y - of_int u\<bar> \<le> 1 / 2 ^ 22" by linarith
  have "(1::real) / 2 ^ 22 \<le> 1 / 2" by simp
  moreover have "(2::real) ^ 31 + 1 / 2 \<le> 2 ^ 32" by simp
  moreover have "?y - of_int u \<le> 1 / 2 ^ 22" "of_int u - ?y \<le> 1 / 2 ^ 22" using y by (simp_all only: abs_le_iff minus_diff_eq)
  ultimately have b: "1 / 2 \<le> ?y" "?y \<le> 2 ^ 32" using u by linarith+
  have "(1::real) / 2 ^ 100 \<le> 1 / 2" "(2::real) ^ 32 \<le> 2 ^ 100" by simp_all
  with b have "1 / 2 ^ 100 \<le> \<bar>?y\<bar>" "\<bar>?y\<bar> \<le> 2 ^ 100" by linarith+
  then have "\<bar>r ?y - ?y\<bar> \<le> \<bar>?y\<bar> / 2 ^ 53" using assms(1) unfolding binary64_relative_def by blast
  also have "\<dots> \<le> 2 ^ 32 / 2 ^ 53" using b by (intro divide_right_mono) simp_all
  finally have "\<bar>r ?y - ?y\<bar> \<le> 1 / 2 ^ 21" by simp
  moreover have "(1::real) / 2 ^ 21 + 1 / 2 ^ 22 < 1 / 2" by simp
  ultimately show "\<bar>r ?y - of_int u\<bar> < 1 / 2" using y by linarith
qed

text \<open>The layout, as \<open>struct.pack\<close> writes it.\<close>

definition pack_row :: "archive_row \<Rightarrow> byte list" where
  "pack_row r = le_bytes 8 (ar_ticks r) @ le_bytes 4 (ar_bid r) @ le_bytes 4 (ar_ask r)"

definition pack_header :: "int \<Rightarrow> archive_row list \<Rightarrow> byte list" where
  "pack_header scale rs =
     MAGIC @ le_bytes 4 VERSION @ le_bytes 4 scale @ le_bytes 8 0 @ le_bytes 8 (int (length rs)) @
     le_bytes 8 (if rs = [] then 0 else ar_ticks (hd rs)) @ le_bytes 8 (if rs = [] then 0 else ar_ticks (last rs)) @
     le_bytes 4 0 @ le_bytes 4 0"

definition pack_archive :: "int \<Rightarrow> archive_row list \<Rightarrow> byte list" where
  "pack_archive scale rs = pack_header scale rs @ concat (map pack_row rs)"

definition storable :: "archive_row \<Rightarrow> bool" where
  "storable r \<longleftrightarrow> 0 < ar_bid r \<and> ar_bid r \<le> ar_ask r \<and> ar_ask r < 2 ^ 31 \<and> 0 \<le> ar_ticks r \<and>
     DOTNET_EPOCH + ar_ticks r div 10 \<le> MAX_INSTANT"

lemma length_MAGIC [simp]: "length MAGIC = 8"
  by (simp add: MAGIC_def)

lemma le_int_bytes4: "- (2 ^ 31) \<le> v \<Longrightarrow> v < 2 ^ 31 \<Longrightarrow> le_int (le_bytes 4 v) = v"
  by (rule le_int_bytes) simp_all

lemma le_int_bytes8: "- (2 ^ 63) \<le> v \<Longrightarrow> v < 2 ^ 63 \<Longrightarrow> le_int (le_bytes 8 v) = v"
  by (rule le_int_bytes) simp_all

lemma storable_ticks: "storable r \<Longrightarrow> ar_ticks r < 2 ^ 63"
  unfolding storable_def DOTNET_EPOCH_def MAX_INSTANT_def by simp presburger

lemma length_pack_row [simp]: "length (pack_row r) = ROW_SIZE"
  by (simp add: pack_row_def ROW_SIZE_def)

lemma length_pack_header [simp]: "length (pack_header scale rs) = HEADER_SIZE"
  by (simp add: pack_header_def HEADER_SIZE_def)

lemma unpack_pack_row:
  assumes "storable r"
  shows "unpack_row (pack_row r) = r"
  using assms storable_ticks [OF assms]
  by (simp add: unpack_row_def field_at_def pack_row_def le_int_bytes4 le_int_bytes8 storable_def)

lemma unpack_pack_rows: "list_all storable rs \<Longrightarrow> unpack_rows (length rs) (concat (map pack_row rs)) = rs"
  by (induction rs) (simp_all add: unpack_pack_row)

lemma unpack_pack_header:
  assumes "0 < scale" "scale < 2 ^ 31" "list_all storable rs" "length rs < 2 ^ 63"
  shows "unpack_header (pack_header scale rs @ rest) =
    \<lparr>ah_magic = MAGIC, ah_version = VERSION, ah_scale = scale, ah_rows = int (length rs),
     ah_first = (if rs = [] then 0 else ar_ticks (hd rs)), ah_last = (if rs = [] then 0 else ar_ticks (last rs))\<rparr>"
proof -
  have len: "int (length rs) < 2 ^ 63" using assms(4) by (metis of_nat_less_iff of_nat_numeral of_nat_power)
  have ends: "- (2 ^ 63) \<le> (if rs = [] then 0 else ar_ticks (f rs))" "(if rs = [] then 0 else ar_ticks (f rs)) < 2 ^ 63"
    if "rs \<noteq> [] \<Longrightarrow> f rs \<in> set rs" for f :: "archive_row list \<Rightarrow> archive_row"
  proof -
    have "storable (f rs)" if "rs \<noteq> []" using that \<open>rs \<noteq> [] \<Longrightarrow> f rs \<in> set rs\<close> assms(3) by (simp add: list_all_iff)
    then have "0 \<le> ar_ticks (f rs)" "ar_ticks (f rs) < 2 ^ 63" if "rs \<noteq> []"
      using that storable_ticks [of "f rs"] by (simp_all add: storable_def)
    then show "- (2 ^ 63) \<le> (if rs = [] then 0 else ar_ticks (f rs))" "(if rs = [] then 0 else ar_ticks (f rs)) < 2 ^ 63"
      by auto
  qed
  show ?thesis
    unfolding unpack_header_def field_at_def pack_header_def
    using assms len ends [of hd] ends [of last]
    by (simp add: le_int_bytes4 le_int_bytes8 VERSION_def)
qed

lemma header_of_pack:
  assumes "0 < scale" "scale < 2 ^ 31" "list_all storable rs" "length rs < 2 ^ 63"
  shows "header_of (pack_archive scale rs) = Inr (unpack_header (pack_archive scale rs)) \<and>
    archive_rows (pack_archive scale rs) = rs"
proof -
  have "length (concat (map pack_row rs)) = length rs * ROW_SIZE" by (induction rs) simp_all
  with unpack_pack_header [OF assms] unpack_pack_rows [OF assms(3)] assms(1) show ?thesis
    by (simp add: header_of_def archive_rows_def pack_archive_def Let_def)
qed

lemma quote_of_storable:
  assumes "storable r" "0 < scale" "scale < 2 ^ 31" "binary64_rounding (fl P)" "binary64_relative (fl P)"
  shows "\<exists>q. quote_of_row P scale r = Inr q"
proof -
  have b: "0 < ar_bid r" "ar_bid r < 2 ^ 31" using assms(1) by (simp_all add: storable_def)
  have "(of_int (ar_bid r) / of_int scale :: real) \<le> of_int (ar_ask r) / of_int scale"
    using assms(1,2) by (intro divide_right_mono) (simp_all add: storable_def)
  then have "fl P (of_int (ar_bid r) / of_int scale) \<le> fl P (of_int (ar_ask r) / of_int scale)"
    by (rule rounding_mono [OF assms(4)])
  with rounded_quotient(1) [OF assms(5) b assms(2,3)] assms(1) show ?thesis
    by (simp add: quote_of_row_def from_dotnet_ticks_def make_quote_def storable_def)
qed

lemma read_rows_storable:
  assumes "list_all storable rs" "0 < scale" "scale < 2 ^ 31" "binary64_rounding (fl P)" "binary64_relative (fl P)"
    "sorted (map ar_ticks rs)" "\<forall>p. previous = Some p \<longrightarrow> (\<forall>r \<in> set rs. p \<le> ar_ticks r)"
  shows "\<exists>qs. read_rows P scale previous rs = (qs, None) \<and> list_all2 (\<lambda>r q. quote_of_row P scale r = Inr q) rs qs"
  using assms(1,6,7)
proof (induction rs arbitrary: previous)
  case (Cons r rs)
  obtain q where q: "quote_of_row P scale r = Inr q" using quote_of_storable Cons.prems(1) assms(2-5) by fastforce
  obtain qs where "read_rows P scale (Some (ar_ticks r)) rs = (qs, None)" "list_all2 (\<lambda>r q. quote_of_row P scale r = Inr q) rs qs"
    using Cons.IH [of "Some (ar_ticks r)"] Cons.prems by auto
  with q Cons.prems show ?case by (auto simp: storable_def split: option.splits)
qed simp

definition units_of :: "platform \<Rightarrow> int \<Rightarrow> real \<Rightarrow> int" where
  "units_of P scale x = py_round (fl P (x * of_int scale))"

text \<open>
  C21: an archive is read back: reading what the layout encodes raises nothing and yields every row in
  order, with its time to the microsecond and prices from which the integer units of the archive can
  be recovered exactly.
\<close>

theorem archive_roundtrip:
  assumes "0 < scale" "scale < 2 ^ 31" "list_all storable rs" "sorted (map ar_ticks rs)" "length rs < 2 ^ 63"
    "binary64_rounding (fl P)" "binary64_relative (fl P)"
  shows "\<exists>qs. read_xautk002 P (pack_archive scale rs) = (qs, None) \<and>
    map aq_time qs = map (\<lambda>r. DOTNET_EPOCH + ar_ticks r div 10) rs \<and>
    map (\<lambda>q. (units_of P scale (aq_bid q), units_of P scale (aq_ask q))) qs = map (\<lambda>r. (ar_bid r, ar_ask r)) rs"
proof -
  obtain qs where qs: "read_rows P scale None rs = (qs, None)" "list_all2 (\<lambda>r q. quote_of_row P scale r = Inr q) rs qs"
    using read_rows_storable [OF assms(3,1,2,6,7,4), of None] by auto
  let ?c = "pack_archive scale rs"
  have h: "unpack_header ?c = \<lparr>ah_magic = MAGIC, ah_version = VERSION, ah_scale = scale, ah_rows = int (length rs),
     ah_first = (if rs = [] then 0 else ar_ticks (hd rs)), ah_last = (if rs = [] then 0 else ar_ticks (last rs))\<rparr>"
    using unpack_pack_header [OF assms(1,2,3,5)] by (simp add: pack_archive_def)
  have "read_xautk002 P ?c = (qs, None)"
    using header_of_pack [OF assms(1,2,3,5)] h qs(1)
    by (simp add: read_xautk002_def boundaries_match_def)
  moreover have "map aq_time qs = map (\<lambda>r. DOTNET_EPOCH + ar_ticks r div 10) rs \<and>
    map (\<lambda>q. (units_of P scale (aq_bid q), units_of P scale (aq_ask q))) qs = map (\<lambda>r. (ar_bid r, ar_ask r)) rs"
    using qs(2) assms(3)
  proof (induction rs qs rule: list_all2_induct)
    case (Cons r rs q qs)
    have b: "0 < ar_bid r" "ar_bid r < 2 ^ 31" "0 < ar_ask r" "ar_ask r < 2 ^ 31"
      using Cons.prems by (simp_all add: storable_def)
    with Cons quote_of_row_cases(2-4) [OF Cons.hyps(1)]
      units_recovered [OF assms(7) b(1,2) assms(1,2)] units_recovered [OF assms(7) b(3,4) assms(1,2)]
    show ?case by (simp add: units_of_def)
  qed simp
  ultimately show ?thesis by blast
qed

subsection \<open>Witnesses\<close>

definition sample_rows :: "archive_row list" where
  "sample_rows = [\<lparr>ar_ticks = 621355968000000000, ar_bid = 2000, ar_ask = 2001\<rparr>,
     \<lparr>ar_ticks = 621355968300000000, ar_bid = 2002, ar_ask = 2003\<rparr>,
     \<lparr>ar_ticks = 621355968600000010, ar_bid = 1998, ar_ask = 2001\<rparr>]"

lemma sample_rounding: "binary64_rounding (fl sample_platform)" "binary64_relative (fl sample_platform)"
  by (simp_all add: binary64_rounding_def binary64_relative_def sample_platform_def)

lemma sample_rows_ok: "list_all storable sample_rows" "sorted (map ar_ticks sample_rows)" "length sample_rows < 2 ^ 63"
  by (simp_all add: sample_rows_def storable_def DOTNET_EPOCH_def MAX_INSTANT_def)

theorem archive_roundtrip_witness:
  "\<exists>qs. read_xautk002 sample_platform (pack_archive 10 sample_rows) = (qs, None) \<and>
     map aq_time qs = [0, seconds 30, seconds 60 + 1]"
  using archive_roundtrip [OF _ _ sample_rows_ok sample_rounding, of 10]
  by (auto simp: sample_rows_def DOTNET_EPOCH_def)

theorem archive_quotes_are_valid_witness:
  "list_all (\<lambda>q. 0 < aq_bid q \<and> aq_bid q \<le> aq_ask q) (fst (read_xautk002 sample_platform (pack_archive 10 sample_rows)))"
  using archive_quotes_are_valid [of sample_platform "pack_archive 10 sample_rows",
      OF prod.collapse [symmetric]] by simp

end
