(* ===== verification/Quote_Bars.thy ===== *)
theory Quote_Bars
  imports Quote_Archive
begin

text \<open>
  One-minute bars of an archive, \<^verbatim>\<open>xauusd_news/m1.py\<close>: the vectorised aggregation over arrays and the
  independent one that consumes the reader quote by quote. The two agree on every price, count and
  minute; they differ in what is below a microsecond.

  Array arithmetic is on 64-bit integers: it wraps, and conversion to a \<open>pandas\<close> timestamp raises
  outside the nanoseconds that 64 bits hold. \<open>_read_header\<close> makes the checks of the reader of
  quotes, with the file named in its messages.
\<close>

section \<open>Bars\<close>

definition DOTNET_EPOCH_TICKS :: int where "DOTNET_EPOCH_TICKS = 621355968000000000"
definition TICKS_PER_SECOND :: int where "TICKS_PER_SECOND = 10000000"
definition TICKS_PER_MINUTE :: int where "TICKS_PER_MINUTE = 60 * TICKS_PER_SECOND"

record prior_quote =
  pq_ticks :: int
  pq_bid :: int
  pq_ask :: int

record bar =
  br_minute :: instant
  br_bid_open :: real
  br_ask_open :: real
  br_bid_high :: real
  br_ask_high :: real
  br_bid_low :: real
  br_ask_low :: real
  br_bid_close :: real
  br_ask_close :: real
  br_ticks :: int
  br_up :: int
  br_down :: int
  br_gap :: real
  br_close_ns :: int

record m1_qa =
  qa_ticks :: int
  qa_duplicates :: int
  qa_out_of_order :: int
  qa_nonpositive :: int
  qa_crossed :: int
  qa_gap :: "real option"
  qa_span_ns :: "(int \<times> int) option"
  qa_m1_rows :: "int option"

record aggregated_file =
  ag_frame :: "bar list"
  ag_hash :: string
  ag_qa :: m1_qa
  ag_last :: "prior_quote option"

text \<open>\<open>source_hash or sha256_file(source)\<close>\<close>

definition file_digest :: "(byte list \<Rightarrow> string) \<Rightarrow> byte list \<Rightarrow> string option \<Rightarrow> string" where
  "file_digest D content source_hash = (case nonblank source_hash of Some h \<Rightarrow> h | None \<Rightarrow> D content)"

definition read_last_prior_quote :: "byte list \<Rightarrow> prior_quote option outcome" where
  "read_last_prior_quote content =
     bind_out (header_of content) (\<lambda>h.
       if ah_rows h = 0 then Inr None
       else let r = last (archive_rows content)
            in Inr (Some \<lparr>pq_ticks = ar_ticks r, pq_bid = ar_bid r, pq_ask = ar_ask r\<rparr>))"

section \<open>The vectorised aggregation\<close>

definition wrap64 :: "int \<Rightarrow> int" where "wrap64 v = signed_take_bit 63 v"

definition minute_of_ticks :: "int \<Rightarrow> int" where
  "minute_of_ticks t = wrap64 (t - DOTNET_EPOCH_TICKS) div TICKS_PER_MINUTE"

definition close_ns_of_ticks :: "int \<Rightarrow> int" where
  "close_ns_of_ticks t = wrap64 (wrap64 (t - DOTNET_EPOCH_TICKS) * 100)"

definition pandas_minute :: "int \<Rightarrow> bool" where
  "pandas_minute m \<longleftrightarrow> (let ns = m * 60 * 1000000000 in - (2 ^ 63) < ns \<and> ns < 2 ^ 63)"

fun int_diffs :: "int list \<Rightarrow> int list" where
  "int_diffs (x # y # zs) = (y - x) # int_diffs (y # zs)"
| "int_diffs _ = []"

fun index_of :: "'a \<Rightarrow> 'a list \<Rightarrow> nat" where
  "index_of x [] = 0"
| "index_of x (y # ys) = (if y = x then 0 else Suc (index_of x ys))"

text \<open>\<open>np.diff\<close> of 64-bit ticks; prices are 32-bit, so their sums and differences do not wrap.\<close>

definition tick_diffs :: "archive_row list \<Rightarrow> int list" where
  "tick_diffs rs = map wrap64 (int_diffs (map ar_ticks rs))"

text \<open>\<open>np.unique(xs, return_index=True)\<close>: where each value, in order, first occurs.\<close>

definition unique_index :: "'a::linorder list \<Rightarrow> nat list" where
  "unique_index xs = map (\<lambda>x. index_of x xs) (sorted_list_of_set (set xs))"

definition segment :: "'a list \<Rightarrow> nat \<Rightarrow> nat \<Rightarrow> 'a list" where
  "segment xs a b = take (b - a) (drop a xs)"

definition row_mid :: "archive_row \<Rightarrow> int" where "row_mid r = ar_bid r + ar_ask r"

definition price :: "platform \<Rightarrow> int \<Rightarrow> int \<Rightarrow> real" where
  "price P scale u = fl P (of_int u / of_int scale)"

definition first_change :: "prior_quote option \<Rightarrow> archive_row list \<Rightarrow> int" where
  "first_change prior rs =
     (case prior of None \<Rightarrow> 0 | Some p \<Rightarrow> sgn (row_mid (hd rs) - (pq_bid p + pq_ask p)))"

definition quote_changes :: "prior_quote option \<Rightarrow> archive_row list \<Rightarrow> int list" where
  "quote_changes prior rs = first_change prior rs # map sgn (int_diffs (map row_mid rs))"

definition first_gap :: "platform \<Rightarrow> prior_quote option \<Rightarrow> archive_row list \<Rightarrow> real" where
  "first_gap P prior rs =
     (case prior of None \<Rightarrow> 0
      | Some p \<Rightarrow> max 0 (fl P (of_int (ar_ticks (hd rs) - pq_ticks p) / of_int TICKS_PER_SECOND)))"

definition quote_gaps :: "platform \<Rightarrow> prior_quote option \<Rightarrow> archive_row list \<Rightarrow> real list" where
  "quote_gaps P prior rs =
     first_gap P prior rs #
     map (\<lambda>d. fl P (of_int (max d 0) / of_int TICKS_PER_SECOND)) (tick_diffs rs)"

text \<open>One row of the frame, for the rows from \<open>a\<close> up to but not \<open>b\<close>.\<close>

definition batch_bar ::
    "platform \<Rightarrow> int \<Rightarrow> archive_row list \<Rightarrow> int list \<Rightarrow> real list \<Rightarrow> nat \<times> nat \<Rightarrow> bar" where
  "batch_bar P scale rs changes gaps_list ab =
     (case ab of (a, b) \<Rightarrow>
       let bids = map ar_bid rs; asks = map ar_ask rs; e = b - 1
       in \<lparr>br_minute = minute_of_ticks (ar_ticks (rs ! a)) * 60000000,
           br_bid_open = price P scale (bids ! a), br_ask_open = price P scale (asks ! a),
           br_bid_high = price P scale (Max (set (segment bids a b))), br_ask_high = price P scale (Max (set (segment asks a b))),
           br_bid_low = price P scale (Min (set (segment bids a b))), br_ask_low = price P scale (Min (set (segment asks a b))),
           br_bid_close = price P scale (bids ! e), br_ask_close = price P scale (asks ! e),
           br_ticks = int e - int a + 1,
           br_up = int (length (filter (\<lambda>c. 0 < c) (segment changes a b))),
           br_down = int (length (filter (\<lambda>c. c < 0) (segment changes a b))),
           br_gap = Max (set (segment gaps_list a b)),
           br_close_ns = close_ns_of_ticks (ar_ticks (rs ! e))\<rparr>)"

definition cuts :: "nat list \<Rightarrow> nat \<Rightarrow> (nat \<times> nat) list" where
  "cuts starts n = zip starts (tl starts @ [n])"

definition batch_frame :: "platform \<Rightarrow> int \<Rightarrow> prior_quote option \<Rightarrow> archive_row list \<Rightarrow> bar list" where
  "batch_frame P scale prior rs =
     map (batch_bar P scale rs (quote_changes prior rs) (quote_gaps P prior rs))
       (cuts (unique_index (map (minute_of_ticks \<circ> ar_ticks) rs)) (length rs))"

definition count_rows :: "('a \<Rightarrow> bool) \<Rightarrow> 'a list \<Rightarrow> int" where
  "count_rows p xs = int (length (filter p xs))"

definition empty_aggregate :: "string \<Rightarrow> prior_quote option \<Rightarrow> aggregated_file" where
  "empty_aggregate digest prior =
     \<lparr>ag_frame = [], ag_hash = digest,
      ag_qa = \<lparr>qa_ticks = 0, qa_duplicates = 0, qa_out_of_order = 0, qa_nonpositive = 0, qa_crossed = 0,
              qa_gap = None, qa_span_ns = None, qa_m1_rows = None\<rparr>, ag_last = prior\<rparr>"

definition batch_aggregate :: "platform \<Rightarrow> string \<Rightarrow> int \<Rightarrow> prior_quote option \<Rightarrow> archive_row list \<Rightarrow> aggregated_file" where
  "batch_aggregate P digest scale prior rs =
     (let frame = batch_frame P scale prior rs; r = last rs
      in \<lparr>ag_frame = frame, ag_hash = digest,
          ag_qa = \<lparr>qa_ticks = int (length rs),
            qa_duplicates = count_rows (\<lambda>d. d = 0) (tick_diffs rs), qa_out_of_order = 0,
            qa_nonpositive = 0, qa_crossed = 0, qa_gap = Some (Max (set (quote_gaps P prior rs))),
            qa_span_ns = Some ((ar_ticks (hd rs) - DOTNET_EPOCH_TICKS) * 100, (ar_ticks r - DOTNET_EPOCH_TICKS) * 100),
            qa_m1_rows = Some (int (length frame))\<rparr>,
          ag_last = Some \<lparr>pq_ticks = ar_ticks r, pq_bid = ar_bid r, pq_ask = ar_ask r\<rparr>\<rparr>)"

definition structurally_valid :: "archive_row list \<Rightarrow> bool" where
  "structurally_valid rs \<longleftrightarrow>
     count_rows (\<lambda>d. d < 0) (tick_diffs rs) = 0 \<and>
     count_rows (\<lambda>r. ar_bid r \<le> 0 \<or> ar_ask r \<le> 0) rs = 0 \<and> count_rows (\<lambda>r. ar_ask r < ar_bid r) rs = 0"

definition aggregate_xautk002_batch ::
    "platform \<Rightarrow> (byte list \<Rightarrow> string) \<Rightarrow> byte list \<Rightarrow> prior_quote option \<Rightarrow> string option \<Rightarrow> aggregated_file outcome" where
  "aggregate_xautk002_batch P D content prior source_hash =
     bind_out (header_of content) (\<lambda>h.
       let rs = archive_rows content; digest = file_digest D content source_hash
       in if rs = [] then Inr (empty_aggregate digest prior)
          else if \<not> boundaries_match h rs then Inl (ValueError ''XAUTK002 boundary mismatch'')
          else if \<not> structurally_valid rs then Inl (ValueError ''structurally invalid XAUTK002'')
          else if \<not> list_all (\<lambda>r. pandas_minute (minute_of_ticks (ar_ticks r))) rs
          then Inl (ValueError ''OutOfBoundsDatetime'')
          else Inr (batch_aggregate P digest (ah_scale h) prior rs))"

section \<open>The streaming aggregation\<close>

record stream_state =
  st_rows :: "bar list"
  st_current :: "bar option"
  st_previous :: "prior_quote option"
  st_ticks :: int
  st_duplicates :: int
  st_out_of_order :: int
  st_gap :: real

definition new_stream :: "prior_quote option \<Rightarrow> stream_state" where
  "new_stream prior =
     \<lparr>st_rows = [], st_current = None, st_previous = prior, st_ticks = 0, st_duplicates = 0, st_out_of_order = 0,
      st_gap = 0\<rparr>"

definition datetime_to_dotnet_ticks :: "platform \<Rightarrow> instant \<Rightarrow> int" where
  "datetime_to_dotnet_ticks P t =
     DOTNET_EPOCH_TICKS + py_int (fl P (total_seconds P t * of_int TICKS_PER_SECOND))"

definition new_bar :: "archive_quote \<Rightarrow> bar" where
  "new_bar q =
     \<lparr>br_minute = minute_bucket (aq_time q), br_bid_open = aq_bid q, br_ask_open = aq_ask q,
      br_bid_high = aq_bid q, br_ask_high = aq_ask q, br_bid_low = aq_bid q, br_ask_low = aq_ask q,
      br_bid_close = aq_bid q, br_ask_close = aq_ask q, br_ticks = 0, br_up = 0, br_down = 0, br_gap = 0,
      br_close_ns = aq_time q * 1000\<rparr>"

definition extend_bar :: "archive_quote \<Rightarrow> real \<Rightarrow> int \<Rightarrow> bar \<Rightarrow> bar" where
  "extend_bar q gap change c =
     c\<lparr>br_bid_high := max (br_bid_high c) (aq_bid q), br_ask_high := max (br_ask_high c) (aq_ask q),
       br_bid_low := min (br_bid_low c) (aq_bid q), br_ask_low := min (br_ask_low c) (aq_ask q),
       br_bid_close := aq_bid q, br_ask_close := aq_ask q, br_ticks := br_ticks c + 1,
       br_up := br_up c + (if 0 < change then 1 else 0), br_down := br_down c + (if change < 0 then 1 else 0),
       br_gap := max (br_gap c) gap, br_close_ns := aq_time q * 1000\<rparr>"

text \<open>The bars closed by a quote, and the bar that it extends.\<close>

definition open_bar :: "archive_quote \<Rightarrow> stream_state \<Rightarrow> bar list \<times> bar" where
  "open_bar q st =
     (case st_current st of
        None \<Rightarrow> (st_rows st, new_bar q)
      | Some c \<Rightarrow> if br_minute c = minute_bucket (aq_time q) then (st_rows st, c) else (st_rows st @ [c], new_bar q))"

definition stream_quote :: "platform \<Rightarrow> int \<Rightarrow> archive_quote \<Rightarrow> stream_state \<Rightarrow> stream_state" where
  "stream_quote P scale q st =
     (let dotnet = datetime_to_dotnet_ticks P (aq_time q);
          bid = units_of P scale (aq_bid q); ask = units_of P scale (aq_ask q);
          gap = (case st_previous st of None \<Rightarrow> 0
                 | Some p \<Rightarrow> fl P (of_int (dotnet - pq_ticks p) / of_int TICKS_PER_SECOND));
          change = (case st_previous st of None \<Rightarrow> 0 | Some p \<Rightarrow> sgn (bid + ask - (pq_bid p + pq_ask p)));
          (closed_rows, c) = open_bar q st
      in \<lparr>st_rows = closed_rows, st_current = Some (extend_bar q gap change c),
          st_previous = Some \<lparr>pq_ticks = dotnet, pq_bid = bid, pq_ask = ask\<rparr>, st_ticks = st_ticks st + 1,
          st_duplicates = st_duplicates st + (if st_previous st \<noteq> None \<and> gap = 0 then 1 else 0),
          st_out_of_order = st_out_of_order st + (if gap < 0 then 1 else 0), st_gap = max (st_gap st) gap\<rparr>)"

definition stream_frame :: "stream_state \<Rightarrow> bar list" where
  "stream_frame st = st_rows st @ (case st_current st of None \<Rightarrow> [] | Some c \<Rightarrow> [c])"

definition stream_aggregate :: "string \<Rightarrow> stream_state \<Rightarrow> aggregated_file" where
  "stream_aggregate digest st =
     \<lparr>ag_frame = stream_frame st, ag_hash = digest,
      ag_qa = \<lparr>qa_ticks = st_ticks st, qa_duplicates = st_duplicates st, qa_out_of_order = st_out_of_order st,
              qa_nonpositive = 0, qa_crossed = 0, qa_gap = Some (st_gap st), qa_span_ns = None,
              qa_m1_rows = Some (int (length (stream_frame st)))\<rparr>,
      ag_last = st_previous st\<rparr>"

definition aggregate_xautk002_streaming ::
    "platform \<Rightarrow> (byte list \<Rightarrow> string) \<Rightarrow> byte list \<Rightarrow> prior_quote option \<Rightarrow> string option \<Rightarrow> aggregated_file outcome" where
  "aggregate_xautk002_streaming P D content prior source_hash =
     bind_out (header_of content) (\<lambda>h.
       case read_xautk002 P content of
         (qs, Some e) \<Rightarrow> Inl e
       | (qs, None) \<Rightarrow>
           Inr (stream_aggregate (file_digest D content source_hash)
             (fold (stream_quote P (ah_scale h)) qs (new_stream prior))))"

section \<open>Grouping by minute\<close>

fun group_by :: "('a \<Rightarrow> 'k) \<Rightarrow> 'a list \<Rightarrow> 'a list list" where
  "group_by f [] = []"
| "group_by f (x # xs) =
     (case group_by f xs of
        [] \<Rightarrow> [[x]]
      | g # gs \<Rightarrow> if f (hd g) = f x then (x # g) # gs else [x] # g # gs)"

lemma group_by_Nil_iff [simp]: "group_by f xs = [] \<longleftrightarrow> xs = []"
  by (cases xs) (auto split: list.splits)

lemma hd_group_by: "xs \<noteq> [] \<Longrightarrow> hd (hd (group_by f xs)) = hd xs"
  by (cases xs) (auto split: list.splits)

lemma unique_index_Nil [simp]: "unique_index [] = []"
  by (simp add: unique_index_def)

lemma unique_index_Cons:
  fixes k :: "'a::linorder"
  assumes "sorted (k # ks)"
  shows "unique_index (k # ks) = 0 # map Suc (if ks \<noteq> [] \<and> hd ks = k then tl (unique_index ks) else unique_index ks)"
proof -
  let ?L = "sorted_list_of_set (set ks)"
  have idx: "map (\<lambda>x. index_of x (k # ks)) xs = map Suc (map (\<lambda>x. index_of x ks) xs)" if "k \<notin> set xs" for xs
    using that by (induction xs) auto
  show ?thesis
  proof (cases "k \<in> set ks")
    case True
    with assms have hd: "ks \<noteq> []" "hd ks = k" by (cases ks; fastforce)+
    have min: "Min (set ks) = k" using True assms by (intro Min_eqI) auto
    have L: "?L = k # sorted_list_of_set (set ks - {k})"
    proof -
      have "set ks \<noteq> {}" using True by auto
      from sorted_list_of_set_nonempty [OF _ this] show ?thesis by (simp add: min)
    qed
    have "k \<notin> set (sorted_list_of_set (set ks - {k}))" by simp
    from idx [OF this] True hd show ?thesis unfolding unique_index_def by (simp add: insert_absorb L)
  next
    case False
    then have nh: "\<not> (ks \<noteq> [] \<and> hd ks = k)" using hd_in_set by metis
    have "\<forall>x \<in> set ks. k < x" using assms False by (auto simp: less_le)
    then have "sorted_list_of_set (insert k (set ks)) = k # ?L"
      using False by (intro sorted_list_of_set_unique [THEN iffD1]) (auto simp: less_imp_le)
    moreover have "k \<notin> set ?L" using False by simp
    ultimately have "unique_index (k # ks) = 0 # map Suc (unique_index ks)"
      using idx [of ?L] by (simp add: unique_index_def)
    with nh show ?thesis by (simp only: if_False simp_thms)
  qed
qed

definition segments :: "'a list \<Rightarrow> nat list \<Rightarrow> 'a list list" where
  "segments xs starts = map (\<lambda>(a, b). segment xs a b) (cuts starts (length xs))"

lemma segment_Cons [simp]:
  "segment xs a a = []" "segment (x # xs) 0 1 = [x]" "segment (x # xs) 0 (Suc b) = x # segment xs 0 b" "segment (x # xs) (Suc a) (Suc b) = segment xs a b"
  by (simp_all add: segment_def)

lemma cuts_new: "cuts (0 # map Suc (0 # ss)) (Suc n) = (0, 1) # map (\<lambda>(a, b). (Suc a, Suc b)) (cuts (0 # ss) n)"
  unfolding cuts_def by (simp add: zip_map_map [symmetric] del: zip_map_map)

lemma cuts_grow:
  assumes "cuts (0 # ss) n = (a, b) # rest"
  shows "cuts (0 # map Suc ss) (Suc n) = (0, Suc b) # map (\<lambda>(a, b). (Suc a, Suc b)) rest" "a = 0"
proof -
  have shift: "zip (map Suc xs) (map Suc ys @ [Suc n]) = map (\<lambda>(a, b). (Suc a, Suc b)) (zip xs (ys @ [n]))" for xs ys
    using zip_map_map [of Suc xs Suc "ys @ [n]"] by simp
  show "cuts (0 # map Suc ss) (Suc n) = (0, Suc b) # map (\<lambda>(a, b). (Suc a, Suc b)) rest"
  proof (cases ss)
    case Nil
    with assms show ?thesis by (simp add: cuts_def)
  next
    case (Cons s t)
    with assms have "b = s" "rest = zip (s # t) (t @ [n])" by (auto simp: cuts_def)
    with Cons shift [of "s # t" t] show ?thesis by (simp add: cuts_def)
  qed
  show "a = 0" using assms by (cases ss) (simp_all add: cuts_def)
qed

definition cut_ok :: "nat \<Rightarrow> nat \<times> nat \<Rightarrow> bool" where
  "cut_ok n ab \<longleftrightarrow> fst ab < snd ab \<and> snd ab \<le> n"

lemma segments_group:
  fixes f :: "'a \<Rightarrow> 'k::linorder"
  assumes "sorted (map f xs)"
  shows "segments xs (unique_index (map f xs)) = group_by f xs \<and>
    list_all (cut_ok (length xs)) (cuts (unique_index (map f xs)) (length xs)) \<and>
    (xs \<noteq> [] \<longrightarrow> (\<exists>ss. unique_index (map f xs) = 0 # ss))"
  using assms
proof (induction xs)
  case Nil
  then show ?case by (simp add: segments_def cuts_def)
next
  case (Cons x xs)
  let ?u = "unique_index (map f xs)"
  have IH: "segments xs ?u = group_by f xs" "list_all (cut_ok (length xs)) (cuts ?u (length xs))"
    "xs \<noteq> [] \<Longrightarrow> \<exists>ss. ?u = 0 # ss" using Cons by auto
  have u: "unique_index (map f (x # xs)) = 0 # map Suc (if xs \<noteq> [] \<and> f (hd xs) = f x then tl ?u else ?u)"
    using unique_index_Cons [of "f x" "map f xs"] Cons.prems by (cases xs) auto
  have shift: "map ((\<lambda>(a, b). segment (x # xs) a b) \<circ> (\<lambda>(a, b). (Suc a, Suc b))) = map (\<lambda>(a, b). segment xs a b)"
    by (intro arg_cong [of _ _ map] ext) auto
  have ok: "list_all (cut_ok (Suc (length xs))) (map (\<lambda>(a, b). (Suc a, Suc b)) ps)" if "list_all (cut_ok (length xs)) ps" for ps
    using that by (induction ps) (auto simp: cut_ok_def)
  show ?case
  proof (cases "xs = []")
    case True
    then show ?thesis using u by (simp add: segments_def cuts_def cut_ok_def segment_def)
  next
    case False
    then obtain ss where ss: "?u = 0 # ss" using IH(3) by blast
    obtain g gs where g: "group_by f xs = g # gs" using False by (cases "group_by f xs") auto
    have hdg: "hd g = hd xs" using hd_group_by [OF False, of f] g by simp
    show ?thesis
    proof (cases "f (hd xs) = f x")
      case True
      obtain a b rest where c: "cuts (0 # ss) (length xs) = (a, b) # rest" by (cases ss) (auto simp: cuts_def)
      note grow = cuts_grow [OF c]
      have "segment xs 0 b = g" "map (\<lambda>(a, b). segment xs a b) rest = gs"
        using IH(1) g c grow(2) by (simp_all add: segments_def ss)
      moreover have "list_all (cut_ok (length xs)) rest" "b \<le> length xs" using IH(2) c by (simp_all add: ss cut_ok_def)
      moreover from this have "cut_ok (Suc (length xs)) (0, Suc b)" by (simp add: cut_ok_def)
      ultimately show ?thesis using True False u g hdg grow ok
        by (simp add: ss segments_def shift)
    next
      case ne: False
      have "segments (x # xs) (0 # map Suc ?u) = [x] # segments xs ?u"
        unfolding ss segments_def list.size add_Suc_right add_0_right cuts_new by (simp add: shift)
      moreover have "list_all (cut_ok (Suc (length xs))) (cuts (0 # map Suc ?u) (Suc (length xs)))"
        using ok [OF IH(2)] unfolding ss cuts_new by (simp add: cut_ok_def)
      ultimately show ?thesis using ne False u g hdg IH(1) by simp
    qed
  qed
qed

section \<open>Both aggregations summarise the groups\<close>

text \<open>A row with the direction of its change; what the bars of both aggregations have in common.\<close>

type_synonym entry = "archive_row \<times> int"

definition bar_view :: "bar \<Rightarrow> bar" where
  "bar_view b = b\<lparr>br_gap := 0, br_close_ns := br_close_ns b div 1000 * 1000\<rparr>"

definition entry_time :: "entry \<Rightarrow> instant" where
  "entry_time x = DOTNET_EPOCH + ar_ticks (fst x) div 10"

definition entry_minute :: "entry \<Rightarrow> instant" where
  "entry_minute x = minute_bucket (entry_time x)"

definition entry_bid :: "entry \<Rightarrow> int" where "entry_bid x = ar_bid (fst x)"
definition entry_ask :: "entry \<Rightarrow> int" where "entry_ask x = ar_ask (fst x)"

definition summary :: "platform \<Rightarrow> int \<Rightarrow> entry list \<Rightarrow> bar" where
  "summary P scale g =
     \<lparr>br_minute = entry_minute (hd g),
      br_bid_open = price P scale (entry_bid (hd g)), br_ask_open = price P scale (entry_ask (hd g)),
      br_bid_high = price P scale (Max (entry_bid ` set g)), br_ask_high = price P scale (Max (entry_ask ` set g)),
      br_bid_low = price P scale (Min (entry_bid ` set g)), br_ask_low = price P scale (Min (entry_ask ` set g)),
      br_bid_close = price P scale (entry_bid (last g)), br_ask_close = price P scale (entry_ask (last g)),
      br_ticks = int (length g),
      br_up = count_rows (\<lambda>x. 0 < snd x) g, br_down = count_rows (\<lambda>x. snd x < 0) g,
      br_gap = 0, br_close_ns = entry_time (last g) * 1000\<rparr>"

definition entry_quote :: "platform \<Rightarrow> int \<Rightarrow> entry \<Rightarrow> archive_quote" where
  "entry_quote P scale x =
     \<lparr>aq_time = entry_time x, aq_bid = price P scale (entry_bid x), aq_ask = price P scale (entry_ask x)\<rparr>"

definition start_bar :: "platform \<Rightarrow> int \<Rightarrow> entry \<Rightarrow> bar" where
  "start_bar P scale x = new_bar (entry_quote P scale x)"

definition add_to_bar :: "platform \<Rightarrow> int \<Rightarrow> entry \<Rightarrow> bar \<Rightarrow> bar" where
  "add_to_bar P scale x b = extend_bar (entry_quote P scale x) 0 (snd x) b"

definition grow_bar :: "platform \<Rightarrow> int \<Rightarrow> bar \<Rightarrow> entry list \<Rightarrow> bar" where
  "grow_bar P scale b g = fold (add_to_bar P scale) g b"

lemma price_mono: "binary64_rounding (fl P) \<Longrightarrow> 0 < scale \<Longrightarrow> a \<le> b \<Longrightarrow> price P scale a \<le> price P scale b"
  unfolding price_def by (rule rounding_mono) (simp_all add: divide_right_mono)

lemma price_max:
  assumes "binary64_rounding (fl P)" "0 < scale"
  shows "max (price P scale a) (price P scale b) = price P scale (max a b)"
    "min (price P scale a) (price P scale b) = price P scale (min a b)"
  using price_mono [OF assms, of a b] price_mono [OF assms, of b a] by (auto simp: max_def min_def)

lemma summary_single:
  assumes "binary64_rounding (fl P)" "0 < scale"
  shows "add_to_bar P scale x (start_bar P scale x) = summary P scale [x]"
  by (simp add: add_to_bar_def start_bar_def summary_def new_bar_def extend_bar_def entry_quote_def entry_minute_def
      count_rows_def)

lemma summary_snoc:
  assumes "binary64_rounding (fl P)" "0 < scale" "g \<noteq> []"
  shows "add_to_bar P scale x (summary P scale g) = summary P scale (g @ [x])"
  using assms(3)
  by (simp add: add_to_bar_def summary_def extend_bar_def entry_quote_def count_rows_def price_max [OF assms(1,2)]
      Max_insert Min_insert max.commute min.commute)

lemma grow_summary:
  assumes "binary64_rounding (fl P)" "0 < scale" "g \<noteq> []"
  shows "grow_bar P scale (start_bar P scale (hd g)) g = summary P scale g"
  using assms(3)
proof (induction g rule: rev_induct)
  case (snoc x g)
  show ?case
  proof (cases "g = []")
    case True
    then show ?thesis by (simp add: grow_bar_def summary_single [OF assms(1,2)])
  next
    case False
    with snoc.IH summary_snoc [OF assms(1,2) False] show ?thesis by (simp add: grow_bar_def)
  qed
qed simp

subsection \<open>The streaming side\<close>

fun change_list :: "int option \<Rightarrow> int list \<Rightarrow> int list" where
  "change_list p [] = []"
| "change_list p (m # ms) = (case p of None \<Rightarrow> 0 | Some q \<Rightarrow> sgn (m - q)) # change_list (Some m) ms"

definition prior_mid :: "prior_quote option \<Rightarrow> int option" where
  "prior_mid p = map_option (\<lambda>p. pq_bid p + pq_ask p) p"

definition entries :: "prior_quote option \<Rightarrow> archive_row list \<Rightarrow> entry list" where
  "entries prior rs = zip rs (change_list (prior_mid prior) (map row_mid rs))"

lemma view_new: "bar_view (new_bar q) = new_bar q"
  by (simp add: bar_view_def new_bar_def)

lemma view_extend:
  "bar_view (extend_bar (entry_quote P scale x) gap (snd x) b) = add_to_bar P scale x (bar_view b)"
  by (simp add: bar_view_def add_to_bar_def extend_bar_def entry_quote_def)

lemma view_minute [simp]: "br_minute (bar_view b) = br_minute b"
  by (simp add: bar_view_def)

text \<open>What the stream returns when it has the groups still to come.\<close>

definition bars_after :: "platform \<Rightarrow> int \<Rightarrow> bar option \<Rightarrow> entry list list \<Rightarrow> bar list" where
  "bars_after P scale c gs =
     (case c of
        None \<Rightarrow> map (summary P scale) gs
      | Some b \<Rightarrow>
          (case gs of
             [] \<Rightarrow> [b]
           | g # rest \<Rightarrow>
               if entry_minute (hd g) = br_minute b then grow_bar P scale b g # map (summary P scale) rest
               else b # map (summary P scale) (g # rest)))"

lemma bars_after_step:
  assumes "binary64_rounding (fl P)" "0 < scale"
  shows "bars_after P scale (Some (add_to_bar P scale x (start_bar P scale x))) (group_by entry_minute xs) =
      map (summary P scale) (group_by entry_minute (x # xs))"
    "br_minute b = entry_minute x \<Longrightarrow>
      bars_after P scale (Some (add_to_bar P scale x b)) (group_by entry_minute xs) =
      bars_after P scale (Some b) (group_by entry_minute (x # xs))"
    "br_minute b \<noteq> entry_minute x \<Longrightarrow>
      b # bars_after P scale (Some (add_to_bar P scale x (start_bar P scale x))) (group_by entry_minute xs) =
      bars_after P scale (Some b) (group_by entry_minute (x # xs))"
proof -
  have m: "br_minute (add_to_bar P scale x b) = br_minute b" for b by (simp add: add_to_bar_def extend_bar_def)
  have s: "br_minute (start_bar P scale x) = entry_minute x"
    by (simp add: start_bar_def new_bar_def entry_quote_def entry_minute_def)
  have one: "add_to_bar P scale x (start_bar P scale x) = summary P scale [x]"
    by (rule summary_single [OF assms])
  have grow: "grow_bar P scale (add_to_bar P scale x b) g = grow_bar P scale b (x # g)" for b g
    by (simp add: grow_bar_def)
  have more: "grow_bar P scale (summary P scale [x]) g = summary P scale (x # g)" for g
    using grow_summary [OF assms, of "x # g"] grow [of "start_bar P scale x" g] one by simp
  have sm: "br_minute (summary P scale [x]) = entry_minute x" by (simp add: summary_def)
  show a: "bars_after P scale (Some (add_to_bar P scale x (start_bar P scale x))) (group_by entry_minute xs) =
      map (summary P scale) (group_by entry_minute (x # xs))"
    by (cases "group_by entry_minute xs") (auto simp add: bars_after_def sm one more)
  show "bars_after P scale (Some (add_to_bar P scale x b)) (group_by entry_minute xs) =
      bars_after P scale (Some b) (group_by entry_minute (x # xs))" if "br_minute b = entry_minute x"
    using that
    by (cases "group_by entry_minute xs") (auto simp add: bars_after_def m grow grow_bar_def)
  show "b # bars_after P scale (Some (add_to_bar P scale x (start_bar P scale x))) (group_by entry_minute xs) =
      bars_after P scale (Some b) (group_by entry_minute (x # xs))" if "br_minute b \<noteq> entry_minute x"
    using that a hd_group_by [of "x # xs" entry_minute]
    by (cases "group_by entry_minute (x # xs)") (auto simp add: bars_after_def split: list.splits)
qed

definition small_row :: "archive_row \<Rightarrow> bool" where
  "small_row r \<longleftrightarrow> valid_row r \<and> ar_ask r < 2 ^ 31"

lemma quote_is_entry:
  assumes "quote_of_row P scale r = Inr q"
  shows "q = entry_quote P scale (r, change)"
  using quote_of_row_cases [OF assms] by (simp add: entry_quote_def entry_time_def price_def entry_bid_def entry_ask_def)

lemma units_of_price:
  assumes "binary64_relative (fl P)" "0 < u" "u < 2 ^ 31" "0 < scale" "scale < 2 ^ 31"
  shows "units_of P scale (price P scale u) = u"
  unfolding units_of_def price_def by (rule units_recovered [OF assms])

lemma stream_quote_entry:
  assumes "small_row r" "0 < scale" "scale < 2 ^ 31" "binary64_relative (fl P)"
    "x = (r, case prior_mid (st_previous st) of None \<Rightarrow> 0 | Some m \<Rightarrow> sgn (row_mid r - m))"
    "q = entry_quote P scale x"
  obtains gap p where "st_rows (stream_quote P scale q st) = fst (open_bar q st)"
    "st_current (stream_quote P scale q st) = Some (extend_bar q gap (snd x) (snd (open_bar q st)))"
    "st_previous (stream_quote P scale q st) = Some p" "st_ticks (stream_quote P scale q st) = st_ticks st + 1"
    "pq_bid p = ar_bid r" "pq_ask p = ar_ask r"
proof -
  have b: "0 < ar_bid r" "ar_bid r < 2 ^ 31" "0 < ar_ask r" "ar_ask r < 2 ^ 31"
    using assms(1) by (simp_all add: small_row_def valid_row_def)
  have u: "units_of P scale (aq_bid q) = ar_bid r" "units_of P scale (aq_ask q) = ar_ask r"
    using units_of_price [OF assms(4) b(1,2) assms(2,3)] units_of_price [OF assms(4) b(3,4) assms(2,3)] assms(5)
    by (simp_all add: assms(6) entry_quote_def entry_bid_def entry_ask_def)
  let ?gap = "case st_previous st of None \<Rightarrow> 0
    | Some p \<Rightarrow> fl P (of_int (datetime_to_dotnet_ticks P (aq_time q) - pq_ticks p) / of_int TICKS_PER_SECOND)"
  let ?p = "\<lparr>pq_ticks = datetime_to_dotnet_ticks P (aq_time q), pq_bid = ar_bid r, pq_ask = ar_ask r\<rparr>"
  have "snd x = (case st_previous st of None \<Rightarrow> 0 | Some p \<Rightarrow> sgn (ar_bid r + ar_ask r - (pq_bid p + pq_ask p)))"
    by (simp add: assms(5) prior_mid_def row_mid_def split: option.split)
  then show thesis
    by (intro that [of ?gap ?p]) (simp_all add: stream_quote_def Let_def u split: prod.split)
qed

lemma stream_bars:
  assumes "list_all2 (\<lambda>r q. quote_of_row P scale r = Inr q) rs qs" "list_all small_row rs"
    "0 < scale" "scale < 2 ^ 31" "binary64_rounding (fl P)" "binary64_relative (fl P)"
  shows "map bar_view (stream_frame (fold (stream_quote P scale) qs st)) =
      map bar_view (st_rows st) @
        bars_after P scale (map_option bar_view (st_current st)) (group_by entry_minute (entries (st_previous st) rs)) \<and>
    st_ticks (fold (stream_quote P scale) qs st) = st_ticks st + int (length rs) \<and>
    (rs \<noteq> [] \<longrightarrow> (\<exists>p. st_previous (fold (stream_quote P scale) qs st) = Some p \<and>
       pq_bid p = ar_bid (last rs) \<and> pq_ask p = ar_ask (last rs)))"
  using assms(1,2)
proof (induction rs qs arbitrary: st rule: list_all2_induct)
  case Nil
  then show ?case by (cases "st_current st") (simp_all add: entries_def bars_after_def stream_frame_def)
next
  case (Cons r rs q qs)
  define x where "x = (r, case prior_mid (st_previous st) of None \<Rightarrow> 0 | Some m \<Rightarrow> sgn (row_mid r - m))"
  have q: "q = entry_quote P scale x" using quote_is_entry [OF Cons.hyps(1)] by (simp add: x_def)
  have small: "small_row r" "list_all small_row rs" using Cons.prems by simp_all
  define st1 where "st1 = stream_quote P scale q st"
  obtain gap p where st1: "st_rows st1 = fst (open_bar q st)"
    "st_current st1 = Some (extend_bar q gap (snd x) (snd (open_bar q st)))" "st_previous st1 = Some p"
    "st_ticks st1 = st_ticks st + 1" "pq_bid p = ar_bid r" "pq_ask p = ar_ask r"
    unfolding st1_def by (rule stream_quote_entry [OF small(1) assms(3,4,6) x_def q])
  have es: "entries (st_previous st) (r # rs) = x # entries (st_previous st1) rs"
    using st1(5,6)
    by (simp add: entries_def x_def st1(3) prior_mid_def row_mid_def [abs_def] split: option.split)
  have cur: "map_option bar_view (st_current st1) = Some (add_to_bar P scale x (bar_view (snd (open_bar q st))))"
    using st1(2) by (simp add: q view_extend)
  have start: "bar_view (new_bar q) = start_bar P scale x" by (simp add: view_new start_bar_def q)
  have minute: "minute_bucket (aq_time q) = entry_minute x" by (simp add: q entry_quote_def entry_minute_def)
  note step = bars_after_step [OF assms(5,3), where x = x and xs = "entries (st_previous st1) rs"]
  have "map bar_view (st_rows st1) @
      bars_after P scale (map_option bar_view (st_current st1)) (group_by entry_minute (entries (st_previous st1) rs)) =
    map bar_view (st_rows st) @
      bars_after P scale (map_option bar_view (st_current st)) (group_by entry_minute (x # entries (st_previous st1) rs))"
  proof (cases "st_current st")
    case None
    then have "open_bar q st = (st_rows st, new_bar q)" by (simp add: open_bar_def)
    with None st1(1) start step(1) show ?thesis unfolding cur by (simp add: bars_after_def [of P scale None] del: group_by.simps)
  next
    case (Some c)
    show ?thesis
    proof (cases "br_minute c = entry_minute x")
      case True
      then have "open_bar q st = (st_rows st, c)" using Some by (simp add: open_bar_def minute)
      with Some True st1(1) step(2) [of "bar_view c"] show ?thesis unfolding cur by (simp del: group_by.simps)
    next
      case False
      then have "open_bar q st = (st_rows st @ [c], new_bar q)" using Some by (simp add: open_bar_def minute)
      with Some False st1(1) start step(3) [of "bar_view c"] show ?thesis unfolding cur by (simp del: group_by.simps)
    qed
  qed
  note bars = this
  have "qs = []" if "rs = []" using Cons.hyps(2) that by simp
  with bars Cons.IH [OF small(2), of st1] st1(3-6) show ?case
    unfolding es by (cases "rs = []") (simp_all add: st1_def [symmetric] add.commute del: group_by.simps)
qed

subsection \<open>The vectorised side\<close>

definition in_pandas_range :: "archive_row \<Rightarrow> bool" where
  "in_pandas_range r \<longleftrightarrow>
     (let ns = (ar_ticks r - DOTNET_EPOCH_TICKS) * 100 in - (2 ^ 63) + 60000000000 < ns \<and> ns < 2 ^ 63)"

lemma wrap64_id: "- (2 ^ 63) \<le> v \<Longrightarrow> v < 2 ^ 63 \<Longrightarrow> wrap64 v = v"
  unfolding wrap64_def by (rule signed_take_bit_int_eq_self)

lemma range_ticks:
  assumes "in_pandas_range r" "0 \<le> ar_ticks r"
  shows "minute_of_ticks (ar_ticks r) * 60000000 = entry_minute (r, c)" "pandas_minute (minute_of_ticks (ar_ticks r))"
    "close_ns_of_ticks (ar_ticks r) div 1000 * 1000 = entry_time (r, c) * 1000"
proof -
  let ?d = "ar_ticks r - DOTNET_EPOCH_TICKS"
  have d: "- (2 ^ 63) + 60000000000 < ?d * 100" "?d * 100 < 2 ^ 63"
    using assms(1) by (simp_all add: in_pandas_range_def Let_def)
  then have w: "wrap64 ?d = ?d" "wrap64 (?d * 100) = ?d * 100" by (intro wrap64_id; simp)+
  have e: "DOTNET_EPOCH + ar_ticks r div 10 = ?d div 10"
    using div_mult_self1 [of 10 "ar_ticks r" "- 62135596800000000"]
    by (simp add: DOTNET_EPOCH_def DOTNET_EPOCH_TICKS_def)
  have m: "minute_of_ticks (ar_ticks r) = ?d div 600000000"
    by (simp add: minute_of_ticks_def w TICKS_PER_MINUTE_def TICKS_PER_SECOND_def)
  have "?d div 10 div 60000000 = ?d div 600000000" using zdiv_zmult2_eq [of 60000000 ?d 10] by simp
  then show "minute_of_ticks (ar_ticks r) * 60000000 = entry_minute (r, c)"
    by (simp add: m entry_minute_def entry_time_def e minute_bucket_def)
  have "?d div 600000000 * 600000000 \<le> ?d" "?d < ?d div 600000000 * 600000000 + 600000000"
    using div_mult_mod_eq [of ?d 600000000] pos_mod_bound [of 600000000 ?d] pos_mod_sign [of 600000000 ?d]
    by linarith+
  then show "pandas_minute (minute_of_ticks (ar_ticks r))" using d by (simp add: pandas_minute_def m)
  have "?d * 100 div 1000 = ?d div 10" using div_mult_mult1 [of 100 ?d 10] by simp
  then show "close_ns_of_ticks (ar_ticks r) div 1000 * 1000 = entry_time (r, c) * 1000"
    by (simp only: close_ns_of_ticks_def w entry_time_def e fst_conv)
qed

lemma changes_are_list: "rs \<noteq> [] \<Longrightarrow> quote_changes prior rs = change_list (prior_mid prior) (map row_mid rs)"
proof -
  have diffs: "map sgn (int_diffs (m # ms)) = change_list (Some m) ms" for m ms
    by (induction ms arbitrary: m) simp_all
  assume "rs \<noteq> []"
  then obtain r rs' where "rs = r # rs'" by (cases rs) auto
  with diffs show ?thesis
    by (simp add: quote_changes_def first_change_def prior_mid_def comp_def split: option.split)
qed

lemma length_change_list [simp]: "length (change_list p ms) = length ms"
  by (induction p ms rule: change_list.induct) simp_all

lemma entries_maps:
  shows "map fst (entries prior rs) = rs" "rs \<noteq> [] \<Longrightarrow> map snd (entries prior rs) = quote_changes prior rs"
  by (simp_all add: entries_def changes_are_list)

lemma segment_map: "segment (map f xs) a b = map f (segment xs a b)"
  by (simp add: segment_def take_map drop_map)

lemma segment_ends:
  assumes "cut_ok (length xs) (a, b)"
  shows "segment xs a b \<noteq> []" "hd (segment xs a b) = xs ! a" "last (segment xs a b) = xs ! (b - 1)"
    "int (b - 1) - int a + 1 = int (length (segment xs a b))"
proof -
  have ab: "a < b" "b \<le> length xs" using assms by (simp_all add: cut_ok_def)
  then show ne: "segment xs a b \<noteq> []" by (simp add: segment_def)
  show "hd (segment xs a b) = xs ! a" using ab by (simp add: segment_def hd_take hd_drop_conv_nth)
  have "length (segment xs a b) = b - a" using ab by (simp add: segment_def)
  then have "last (segment xs a b) = segment xs a b ! (b - a - 1)" using ne by (simp add: last_conv_nth)
  also have "\<dots> = xs ! (b - 1)" using ab by (simp add: segment_def)
  finally show "last (segment xs a b) = xs ! (b - 1)" .
  show "int (b - 1) - int a + 1 = int (length (segment xs a b))" using ab by (simp add: segment_def)
qed

lemma batch_bar_view:
  assumes "cut_ok (length es) ab" "es = entries prior rs" "rs \<noteq> []"
    "list_all in_pandas_range rs" "list_all (\<lambda>r. 0 \<le> ar_ticks r) rs"
  shows "bar_view (batch_bar P scale rs (quote_changes prior rs) gaps_list ab) =
    summary P scale (case ab of (a, b) \<Rightarrow> segment es a b)"
proof -
  obtain a b where ab: "ab = (a, b)" by (cases ab)
  note ends = segment_ends [OF assms(1) [unfolded ab]]
  have rs: "rs = map fst es" using entries_maps assms(2) by simp
  have ch: "quote_changes prior (map fst es) = map snd es" using entries_maps assms(2,3) by simp
  have len: "a < length es" "b - 1 < length es" using assms(1) by (auto simp: ab cut_ok_def)
  have row: "in_pandas_range (fst (es ! i))" "0 \<le> ar_ticks (fst (es ! i))" if "i < length es" for i
    using assms(4,5) that unfolding rs by (simp_all add: list_all_length)
  note first = range_ticks(1) [OF row [OF len(1)], of "snd (es ! a)"]
    and final = range_ticks(3) [OF row [OF len(2)], of "snd (es ! (b - 1))"]
  show ?thesis
    unfolding ab rs ch
    using first final len ends
    by (simp add: batch_bar_def bar_view_def summary_def Let_def segment_map count_rows_def entry_bid_def entry_ask_def
        image_image filter_map comp_def)
qed

lemma group_by_cong:
  "(\<And>x y. x \<in> set xs \<Longrightarrow> y \<in> set xs \<Longrightarrow> f x = f y \<longleftrightarrow> g x = g y) \<Longrightarrow> group_by f xs = group_by g xs"
proof (induction xs)
  case (Cons x xs)
  then have IH: "group_by f xs = group_by g xs" by simp
  show ?case
  proof (cases "xs = []")
    case False
    then obtain g1 gs where g1: "group_by g xs = g1 # gs" by (cases "group_by g xs") auto
    then have "hd g1 \<in> set xs" using hd_group_by [OF False, of g] False by simp
    with Cons.prems have "f (hd g1) = f x \<longleftrightarrow> g (hd g1) = g x" by simp
    with IH g1 show ?thesis by simp
  qed simp
qed simp

lemma batch_bars:
  assumes "rs \<noteq> []" "list_all in_pandas_range rs" "list_all (\<lambda>r. 0 \<le> ar_ticks r) rs" "sorted (map ar_ticks rs)"
  shows "map bar_view (batch_frame P scale prior rs) = map (summary P scale) (group_by entry_minute (entries prior rs))"
proof -
  let ?es = "entries prior rs" and ?f = "\<lambda>x :: entry. minute_of_ticks (ar_ticks (fst x))"
  have keys: "map ?f ?es = map (minute_of_ticks \<circ> ar_ticks) rs"
    using arg_cong [OF entries_maps(1) [of prior rs], of "map (minute_of_ticks \<circ> ar_ticks)"] by (simp add: comp_def)
  have len: "length ?es = length rs" by (simp add: entries_def)
  have key: "entry_minute x = ?f x * 60000000" if "x \<in> set ?es" for x
  proof -
    have "fst x \<in> set rs" using that entries_maps(1) [of prior rs] by (metis image_eqI list.set_map)
    then show ?thesis using assms(2,3) range_ticks(1) [of "fst x" "snd x"] by (simp add: list_all_iff)
  qed
  have "sorted (map (minute_of_ticks \<circ> ar_ticks) rs)"
  proof -
    have "minute_of_ticks (ar_ticks r) \<le> minute_of_ticks (ar_ticks r')"
      if "r \<in> set rs" "r' \<in> set rs" "ar_ticks r \<le> ar_ticks r'" for r r'
    proof -
      have le: "entry_minute (r, 0) \<le> entry_minute (r', 0)"
        using that(3) by (simp add: entry_minute_def entry_time_def minute_bucket_def zdiv_mono1)
      have eq: "minute_of_ticks (ar_ticks x) * 60000000 = entry_minute (x, 0)" if "x \<in> set rs" for x
        using range_ticks(1) [of x 0] that assms(2,3) by (simp add: list_all_iff)
      show ?thesis using le eq [OF that(1)] eq [OF that(2)] by linarith
    qed
    with assms(4) show ?thesis by (auto simp: sorted_iff_nth_mono)
  qed
  from segments_group [of ?f ?es] this have sg: "segments ?es (unique_index (map ?f ?es)) = group_by ?f ?es"
    "list_all (cut_ok (length ?es)) (cuts (unique_index (map ?f ?es)) (length ?es))"
    by (simp_all add: keys)
  have "map bar_view (batch_frame P scale prior rs) =
      map (summary P scale) (segments ?es (unique_index (map ?f ?es)))"
    unfolding batch_frame_def segments_def map_map keys [symmetric] len [symmetric]
    using sg(2) batch_bar_view [OF _ refl assms(1-3)] by (auto simp: list_all_iff)
  also have "segments ?es (unique_index (map ?f ?es)) = group_by entry_minute ?es"
    unfolding sg(1) by (rule group_by_cong) (simp add: key)
  finally show ?thesis .
qed

section \<open>The two implementations agree\<close>

lemma le_uint_bounds: "0 \<le> le_uint bs" "le_uint bs < 256 ^ length bs"
proof -
  have "0 \<le> le_uint bs \<and> le_uint bs < 256 ^ length bs"
  proof (induction bs)
    case Nil
    then show ?case by (simp add: le_uint_def)
  next
    case (Cons b bs)
    have b: "0 \<le> uint b" "uint b \<le> 255" using uint_bounded [of b] by simp_all
    have "le_uint (b # bs) = uint b + 256 * le_uint bs" by (simp add: le_uint_def)
    with Cons b show ?case by simp
  qed
  then show "0 \<le> le_uint bs" "le_uint bs < 256 ^ length bs" by simp_all
qed

lemma field_bound: "field_at offset 4 bs < 2 ^ 31"
proof -
  let ?f = "take 4 (drop offset bs)"
  have "(256::int) ^ length ?f \<le> 256 ^ 4" by (rule power_increasing) simp_all
  then have "256 ^ length ?f \<le> (2::int) ^ 32" by simp
  with le_uint_bounds [of ?f] show ?thesis by (simp add: field_at_def le_int_def Let_def)
qed

lemma archive_rows_small: "r \<in> set (unpack_rows n bs) \<Longrightarrow> ar_ask r < 2 ^ 31"
  by (induction n arbitrary: bs) (auto simp: unpack_row_def field_bound simp del: power_numeral)

lemma valid_rows_pass:
  assumes "list_all valid_row rs" "sorted (map ar_ticks rs)" "list_all (\<lambda>r. 0 \<le> ar_ticks r \<and> ar_ticks r < 2 ^ 63) rs"
  shows "structurally_valid rs"
proof -
  have "list_all (\<lambda>d. 0 \<le> d) (tick_diffs rs)"
    unfolding tick_diffs_def using assms(2,3)
  proof (induction rs rule: induct_list012)
    case (3 r r' rs)
    have "wrap64 (ar_ticks r' - ar_ticks r) = ar_ticks r' - ar_ticks r" using 3(3,4) by (intro wrap64_id) simp_all
    with 3 show ?case by simp
  qed simp_all
  then show ?thesis using assms(1)
    by (auto simp: structurally_valid_def count_rows_def filter_empty_conv list_all_iff valid_row_def)
qed

lemma read_ok:
  assumes "read_xautk002 P content = (qs, None)"
  obtains h where "header_of content = Inr h" "0 < ah_scale h" "ah_scale h < 2 ^ 31"
    "list_all2 (\<lambda>r q. quote_of_row P (ah_scale h) r = Inr q) (archive_rows content) qs"
    "list_all small_row (archive_rows content)" "sorted (map ar_ticks (archive_rows content))"
    "list_all (\<lambda>r. 0 \<le> ar_ticks r) (archive_rows content)" "boundaries_match h (archive_rows content)"
proof -
  let ?rs = "archive_rows content"
  from assms obtain h where h: "header_of content = Inr h" "read_rows P (ah_scale h) None ?rs = (qs, None)"
    "boundaries_match h ?rs"
    by (auto simp: read_xautk002_def Let_def split: sum.splits prod.splits option.splits if_splits)
  then have hh: "h = unpack_header content" "0 < ah_scale h" by (auto simp: header_of_def Let_def split: if_splits)
  have scale: "ah_scale h < 2 ^ 31" unfolding hh(1) unpack_header_def using field_bound [of 12 content] by simp
  obtain n where n: "list_all2 (\<lambda>r q. quote_of_row P (ah_scale h) r = Inr q \<and> valid_row r) (take n ?rs) qs"
    "sorted (map ar_ticks (take n ?rs))" "length ?rs \<le> n"
    using read_rows_quotes [OF h(2)] by blast
  then have all: "list_all2 (\<lambda>r q. quote_of_row P (ah_scale h) r = Inr q \<and> valid_row r) ?rs qs" "sorted (map ar_ticks ?rs)"
    by simp_all
  have one: "valid_row r \<and> 0 \<le> ar_ticks r" if "r \<in> set ?rs" for r
  proof -
    obtain i where i: "i < length ?rs" "?rs ! i = r" using \<open>r \<in> set ?rs\<close> unfolding in_set_conv_nth by blast
    then have q: "quote_of_row P (ah_scale h) r = Inr (qs ! i)" "valid_row r"
      using list_all2_nthD [OF all(1) i(1)] by simp_all
    show ?thesis using quote_of_row_cases(1) [OF q(1)] q(2) by simp
  qed
  have "list_all small_row ?rs" using one archive_rows_small
    by (fastforce simp: list_all_iff small_row_def archive_rows_def)
  moreover have "list_all2 (\<lambda>r q. quote_of_row P (ah_scale h) r = Inr q) ?rs qs"
    by (rule list_all2_mono [OF all(1)]) simp
  moreover have "list_all (\<lambda>r. 0 \<le> ar_ticks r) ?rs" using one by (simp add: list_all_iff)
  ultimately show thesis using that [of h] h(1,3) hh(2) scale all(2) by blast
qed

text \<open>
  C20: the two aggregations agree: for an archive that the reader accepts, within the range of the array
  timestamps, both return; their bars are for the same minutes and have the same prices, counts and
  directions and, to the microsecond, the same closing time, and they hand the same last prices to
  the next file.
\<close>

theorem m1_implementations_agree:
  assumes "read_xautk002 P content = (qs, None)" "binary64_rounding (fl P)" "binary64_relative (fl P)"
    "list_all in_pandas_range (archive_rows content)"
  shows "\<exists>b s. aggregate_xautk002_batch P D content prior source_hash = Inr b \<and>
    aggregate_xautk002_streaming P D content prior source_hash = Inr s \<and>
    map bar_view (ag_frame b) = map bar_view (ag_frame s) \<and> ag_hash b = ag_hash s \<and>
    qa_ticks (ag_qa b) = qa_ticks (ag_qa s) \<and>
    map_option (\<lambda>p. (pq_bid p, pq_ask p)) (ag_last b) = map_option (\<lambda>p. (pq_bid p, pq_ask p)) (ag_last s)"
  using assms(1)
proof (rule read_ok)
  fix h
  let ?rs = "archive_rows content"
  assume h: "header_of content = Inr h" "0 < ah_scale h" "ah_scale h < 2 ^ 31"
    "list_all2 (\<lambda>r q. quote_of_row P (ah_scale h) r = Inr q) ?rs qs" "list_all small_row ?rs"
    "sorted (map ar_ticks ?rs)" "list_all (\<lambda>r. 0 \<le> ar_ticks r) ?rs" "boundaries_match h ?rs"
  let ?digest = "file_digest D content source_hash" and ?st = "fold (stream_quote P (ah_scale h)) qs (new_stream prior)"
  have stream: "aggregate_xautk002_streaming P D content prior source_hash = Inr (stream_aggregate ?digest ?st)"
    using h(1) assms(1) by (simp add: aggregate_xautk002_streaming_def)
  note bars = stream_bars [OF h(4,5,2,3) assms(2,3), of "new_stream prior"]
  have frame: "map bar_view (stream_frame ?st) = map (summary P (ah_scale h)) (group_by entry_minute (entries prior ?rs))"
    using bars by (simp add: new_stream_def bars_after_def)
  show ?thesis
  proof (cases "?rs = []")
    case True
    then have "qs = []" using h(4) by simp
    with True stream h(1) show ?thesis
      by (auto simp: aggregate_xautk002_batch_def empty_aggregate_def stream_aggregate_def new_stream_def stream_frame_def)
  next
    case False
    have "list_all (\<lambda>r. 0 \<le> ar_ticks r \<and> ar_ticks r < 2 ^ 63) ?rs"
      using h(7) assms(4) by (auto simp: list_all_iff in_pandas_range_def DOTNET_EPOCH_TICKS_def Let_def)
    moreover have "list_all valid_row ?rs" using h(5) by (auto simp: list_all_iff small_row_def)
    ultimately have "structurally_valid ?rs" using valid_rows_pass h(6) by blast
    moreover have "list_all (\<lambda>r. pandas_minute (minute_of_ticks (ar_ticks r))) ?rs"
      using assms(4) h(7) range_ticks(2) by (auto simp: list_all_iff)
    ultimately have batch: "aggregate_xautk002_batch P D content prior source_hash =
        Inr (batch_aggregate P ?digest (ah_scale h) prior ?rs)"
      using False h(1,8) by (simp add: aggregate_xautk002_batch_def)
    have "map bar_view (ag_frame (batch_aggregate P ?digest (ah_scale h) prior ?rs)) = map bar_view (stream_frame ?st)"
      using batch_bars [OF False assms(4) h(7,6)] frame by (simp add: batch_aggregate_def Let_def)
    then show ?thesis using batch stream bars False
      by (auto simp: batch_aggregate_def stream_aggregate_def Let_def new_stream_def)
  qed
qed

text \<open>
  What the two do not agree on: ticks closer than a microsecond are one instant for the streaming
  aggregation, which counts them as duplicates, and different ones for the arrays.
\<close>

definition close_ticks :: "archive_row list" where
  "close_ticks = [\<lparr>ar_ticks = 621355968000000000, ar_bid = 2000, ar_ask = 2001\<rparr>,
     \<lparr>ar_ticks = 621355968000000001, ar_bid = 2000, ar_ask = 2001\<rparr>]"

lemma duplicate_counts_differ:
  "count_rows (\<lambda>d. d = 0) (tick_diffs close_ticks) = 0"
  "st_duplicates (fold (stream_quote sample_platform 10)
     (map (\<lambda>r. entry_quote sample_platform 10 (r, 0)) close_ticks) (new_stream None)) = 1"
  by code_simp+

subsection \<open>Witness\<close>

lemma sample_read: obtains qs where "read_xautk002 sample_platform (pack_archive 10 sample_rows) = (qs, None)"
  using archive_roundtrip [OF _ _ sample_rows_ok sample_rounding, of 10] by auto

theorem m1_implementations_agree_witness:
  "\<exists>b s. aggregate_xautk002_batch sample_platform (\<lambda>_. []) (pack_archive 10 sample_rows) None None = Inr b \<and>
    aggregate_xautk002_streaming sample_platform (\<lambda>_. []) (pack_archive 10 sample_rows) None None = Inr s \<and>
    map bar_view (ag_frame b) = map bar_view (ag_frame s)"
proof -
  obtain qs where "read_xautk002 sample_platform (pack_archive 10 sample_rows) = (qs, None)" by (rule sample_read)
  moreover have "archive_rows (pack_archive 10 sample_rows) = sample_rows"
    using header_of_pack [OF _ _ sample_rows_ok(1,3), of 10] by simp
  then have "list_all in_pandas_range (archive_rows (pack_archive 10 sample_rows))"
    by (simp add: sample_rows_def in_pandas_range_def DOTNET_EPOCH_TICKS_def)
  ultimately show ?thesis using m1_implementations_agree sample_rounding by blast
qed

lemma sample_bars:
  "map (\<lambda>b. (br_minute b, br_bid_high b, br_ask_low b, br_ticks b, br_up b)) (batch_frame sample_platform 10 None sample_rows) =
   [(0, 2002 / 10, 2001 / 10, 2, 1), (minutes 1, 1998 / 10, 2001 / 10, 1, 0)]"
  by code_simp

end
