(* ===== verification/Spec2Isabelle.thy ===== *)
theory Spec2Isabelle
  imports Scheduler_History News_Features Source_Polling Semantic_Transitions Event_Evidence News_Contract Work_Lanes Job_Reconciliation Scheduler_Runtime Assistant_Events Api_Credentials Assistant_Execution News_Time Executable_Label Quote_Bars
begin

text \<open>
  A verification development of the XAUUSD forecaster, the Python package \<^verbatim>\<open>src/xauusd_news\<close>. The program
  collects news and quotes into append-only ledgers, has language models annotate and assess the news under hard
  request quotas, turns what was known at a decision into features, and labels the decision with executable
  quotes. This theory imports the development and describes it; every component has a theory of its own,
  which opens with what it models.

  \<^bold>\<open>The parts of the program and how they interact.\<close> The ledger (\<^verbatim>\<open>evidence/ledger.py\<close>) receives revisions of
  articles, annotations, assessments, macro observations and polls. The scheduler (\<^verbatim>\<open>news/scheduler/state.py\<close>)
  keeps a queue of jobs over that evidence: jobs are enqueued by the identity of what they work on, claimed under a
  lease by a lane of \<^verbatim>\<open>news/scheduler/runtime.py\<close>, and closed when the ledger holds their result or no longer
  wants it. Every request a job sends goes through the gateway (\<^verbatim>\<open>ai/model_gateway.py\<close>), which asks an accountant
  to admit it: the accountant enters it in the quota ledgers, paces it by the shared dispatch governor
  and learns from the token counts that come back. The assistant (\<^verbatim>\<open>assistant/\<close>) shares these ledgers. What the
  model of the market learns from are the events of \<^verbatim>\<open>news/semantics/evidence.py\<close>, as features
  (\<^verbatim>\<open>news/semantics/features.py\<close>, \<^verbatim>\<open>factors.py\<close>), the snapshot of \<^verbatim>\<open>market.py\<close>, and the labels of
  \<^verbatim>\<open>evidence/executable_label.py\<close>.

  \<^bold>\<open>Foundations.\<close>
  \<^item> \<open>Forecaster_Prelude\<close>: the Python values (\<open>json\<close>, \<open>pyfloat\<close>), clocks and zones, texts, outcomes and their
    composition (\<open>outcome\<close>, \<open>bind_out\<close>, \<open>fold_out\<close>), the statements of SQLite as list operations (\<open>sql_update\<close>,
    \<open>sql_upsert\<close>, \<open>sql_first\<close> and others), and the facts about them that the components share.
  \<^item> \<open>Scheduler_Tables\<close>: one record for the rows of each table of the scheduler, the vocabularies and the keys.
  \<^item> \<open>Sample_Data\<close>: values on which the witnesses evaluate the operations. Nothing there models code.

  \<^bold>\<open>The queue\<close> (\<^verbatim>\<open>news/scheduler/state.py\<close>, \<^verbatim>\<open>news/scheduler/runtime.py\<close>).
  \<^item> \<open>Job_Queue\<close> has the transactions \<open>enqueue_job\<close>, \<open>claim_job\<close>, \<open>transition_leased_job\<close> and \<open>defer_job_for_maintenance\<close>;
    \<open>Queue_Facts\<close> their invariant, and that a claim grants one lease, live work before backfill.
  \<^item> \<open>Retry_Override\<close> has the audited overrides of operators. \<open>Job_Lifecycle\<close> lets all of these run in any order
    as a step relation, with what one action may do to a row (\<open>evolves\<close>); final jobs stay final along its histories.
  \<^item> \<open>Scheduler_Runtime\<close> is a worker lane from claim to settlement: each claim is given back in the state that
    its outcome asks for, and no job is offered twice in a round.
  \<^item> \<open>Job_Counts\<close> runs each statement with the triggers of \<^verbatim>\<open>news/semantics/critical_state.py\<close>; the counts follow
    the queue. \<open>Job_Reconciliation\<close> closes satisfied and superseded jobs; its cache is transparent.
  \<^item> \<open>Work_Lanes\<close> and \<open>Semantic_Transitions\<close> are the repairs that run page by page when the contract of an annotation
    changes: they finish, and what a transition adds is valid under the new contract.
  \<^item> \<open>Work_Discovery\<close> is \<open>sync_pending_jobs\<close>: the recovery of failed attempts, the readers of pending work and the jobs
    that are enqueued for it. What it enqueues is not what reconciliation retires, and a recovery reopens once.
  \<^item> \<open>Scheduler_History\<close> runs all writers of the job table in any order, the maintenance of \<open>sync_pending_jobs\<close> and the
    evidence included: leases are exclusive along every history, and the states of a job go through the moves that its
    life cycle allows to each action (\<open>moves\<close>).

  \<^bold>\<open>Requests\<close> (\<^verbatim>\<open>news/scheduler/state.py\<close>, \<^verbatim>\<open>ai/\<close>, \<^verbatim>\<open>assistant/\<close>).
  \<^item> \<open>Api_Credentials\<close>, \<open>Provider_Registry\<close>: who may ask which model for what; keys of different pools are disjoint.
  \<^item> \<open>Token_Calibration\<close>, \<open>Provider_Dispatch\<close>, \<open>Request_Quota\<close>, \<open>Request_Outcome\<close>: usage of the last minute and the end of
    a wait, the learned token ratio and its bounds, the pacing of dispatches, the admission of a request under
    its quotas with its four ledgers, and the recording of its outcome.
  \<^item> \<open>Model_Gateway\<close> states what it needs of an accountant as the locales \<open>admission_accountant\<close> and
    \<open>outcome_accountant\<close>; \<open>Scheduler_Accountant\<close> interprets them on the quota ledger, so every attempt is settled.
  \<^item> \<open>Assistant_Routing\<close>, \<open>Assistant_Capacity\<close>, \<open>Assistant_Execution\<close>, \<open>Assistant_Events\<close>: the plan of a turn, its
    reservation under soft caps, the loop that leaves nothing in flight, and the stream of events it may emit.

  \<^bold>\<open>News\<close> (\<^verbatim>\<open>evidence/ledger.py\<close>, \<^verbatim>\<open>news/\<close>, \<^verbatim>\<open>factors.py\<close>).
  \<^item> \<open>News_Ledger\<close>: the appends, the readers as of a time, and the current state of every cluster, which is that
    of a recomputation. \<open>News_Time\<close>: what is visible, fresh and eligible at a decision.
  \<^item> \<open>News_Contract\<close>: schema, validation, cleanup and topics of an annotation, and the spans a repair may quote.
  \<^item> \<open>Event_Identity\<close>, \<open>Event_Evidence\<close>: which reports are one event, and the grade, the admission and the reasons of
    an event. \<open>Impact_Assessment\<close>: the validation of an assessment and the recall of the earlier reports it is given.
    \<open>News_Features\<close>: the weights and features of both contracts, which do not look ahead.
  \<^item> \<open>Source_Polling\<close>: when a source is polled again; it is neither flooded nor starved.

  \<^bold>\<open>Market\<close> (\<^verbatim>\<open>market.py\<close>, \<^verbatim>\<open>market_session.py\<close>, \<^verbatim>\<open>quotes.py\<close>, \<^verbatim>\<open>m1.py\<close>, \<^verbatim>\<open>evidence/executable_label.py\<close>).
  \<^item> \<open>Market_Data\<close> and \<open>Executable_Label\<close>: the snapshot of a decision and its label, without look-ahead.
  \<^item> \<open>Market_Session\<close>: the clock that leaves the weekend out counts the open instants.
  \<^item> \<open>Quote_Archive\<close>, \<open>Quote_Bars\<close>: the archive reads back what its layout encodes, and the two aggregations agree.

  \<^bold>\<open>How the code is translated.\<close>
  \<^item> A table is the list of its rows in the order of insertion, a transaction a function from databases to an
    \<open>outcome\<close>: \<open>Inl\<close> an error and the rollback, \<open>Inr\<close> the result and the new database. A function that commits
    several transactions returns its outcome beside the database, so what was committed before an error stays.
  \<^item> An aware \<open>datetime\<close> is its microseconds since the epoch, stored ISO texts are the instants they denote, and
    the reading of a clock is an argument. Where a query compares a stored text with the text of a decision, the model
    compares with the decision's wall clock (\<open>wall_clock\<close>), and the macro readers hide a value of the same whole second.
    Texts are of characters up to 255; where folding leaves them, and for
    the text of the assistant's user, they are lists of code points. Chinese literals are arguments.
  \<^item> A float operation is the operation on reals and then \<open>fl\<close>, the rounding of the platform. A theorem that needs
    more of \<open>fl\<close> than a function assumes it by name (\<open>binary64_rounding\<close>).
  \<^item> An exception is a constructor of \<open>py_error\<close>, with the error code as its text where a class has one.
  \<^item> What lies outside the sources is an argument: SHA-256, \<open>json.dumps\<close> and \<open>repr\<close> (\<open>platform\<close>); ISO parsing,
    logarithm and sums of arrays (\<open>market_library\<close>); time zones (\<open>zone\<close>); SQLite's local day and the test for a
    Chinese title (\<open>sql_env\<close>); what a job does with a credential and what other processes do meanwhile
    (\<open>runtime_env\<close>); the fields of stored JSON, hosts of links and hashes (\<open>event_env\<close>, \<open>feature_env\<close>).

  \<^bold>\<open>Bounds and fuel.\<close> Loops of the code are structural recursions over the lists they consume. Where a loop has no
  list, its bound is that of the code: a lane ends because every pass claims a job or stops, with the number of claims
  of its limit; a route ends because every pass uses up a credential or a model of its plan; page repairs are
  stated for a number of calls that suffices, the rows left divided by the page and one more.

  \<^bold>\<open>What the lemmas of a theory show.\<close> Each theory has its definitions first, in the order of the code; then elimination
  rules that say what a successful operation did; then what it keeps (keys, well-formedness, counts); then the properties,
  each under a block that states it; and at its end a sample on which the witnesses evaluate the operations.

  \<^bold>\<open>Not modelled.\<close>
  \<^item> The DDL of the schemas, their migrations and the comparison of trigger texts: text that SQLite interprets.
  \<^item> Prompts, the calls of models and the rendering of answers (\<^verbatim>\<open>news/annotation/product.py\<close>,
    \<^verbatim>\<open>news/brief/product.py\<close>, \<^verbatim>\<open>assistant/agent.py\<close>), beyond the validation and the repair of an answer.
  \<^item> HTTP collection and the parsing of feeds and pages (\<^verbatim>\<open>news/collection/intake.py\<close>, \<^verbatim>\<open>content.py\<close>): network input
    and third-party parsers.
  \<^item> The views of the dashboard and the projection into the public store (\<^verbatim>\<open>dashboard/\<close>, \<^verbatim>\<open>news_projection.py\<close>): they
    assemble JSON from SQL and keep no state that other components read.
  \<^item> Search and embeddings (\<^verbatim>\<open>news/retrieval/search.py\<close>): vector arithmetic of NumPy and full-text indexes of SQLite.
  \<^item> Operational health, maintenance and deployment scripts: inspection of processes and files.
\<close>

end
